(* ===== verification/Prelude.thy ===== *)
theory Prelude
  imports Main "HOL-Library.Word" "HOL-Library.Char_ord" "HOL-Library.List_Lexorder"
    "HOL-Library.Sublist"
begin

unbundle bit_operations_syntax

text \<open>
  Shared vocabulary of the development.

  \<^item> \<open>bytes\<close>: Rust's \<open>Vec<u8>\<close>, \<open>&[u8]\<close> and the UTF-8 bytes of a \<open>String\<close> are lists of
    8-bit characters, so \<open>as_bytes\<close> is the identity. The order on them (imported from
    \<open>List_Lexorder\<close> and \<open>Char_ord\<close>) is the byte-wise lexicographic one of \<open>str::cmp\<close>.
  \<^item> \<open>u64\<close>, \<open>u32\<close>: machine words; \<open>+\<close> and \<open>-\<close> wrap, as in the release profile.
  \<^item> \<open>('e, 'a) result\<close>: Rust's \<open>Result\<close>, with \<open>Inl\<close> for \<open>Err\<close>; \<open>and_then\<close> is the \<open>?\<close>
    operator and \<open>ensure\<close> the \<open>anyhow::ensure!\<close> macro.
  \<^item> \<open>digest\<close>: the Rust type \<open>[u8; 32]\<close>, a byte list of length 32 by construction, which
    is what SHA-256 and BLAKE3 return.
  \<^item> number rendering, hexadecimal, the \<open>str\<close> operations the sources use, and UTF-8
    decoding for the operations Rust defines on \<open>char\<close>s.
  \<^item> the locale \<open>prefix_code\<close>: the contract of an encoding whose concatenations can be
    read back in one way only, which the manifest and ledger encodings implement.
\<close>

type_synonym bytes = "char list"
type_synonym u64 = "64 word"
type_synonym u32 = "32 word"
type_synonym ('e, 'a) result = "'e + 'a"

named_theorems result_simps \<open>unfolding of the Result combinators\<close>
named_theorems digest_simps \<open>the representation of digests\<close>

section \<open>Result\<close>

definition and_then :: "('e, 'a) result \<Rightarrow> ('a \<Rightarrow> ('e, 'b) result) \<Rightarrow> ('e, 'b) result" where
  "and_then r f = (case r of Inl e \<Rightarrow> Inl e | Inr x \<Rightarrow> f x)"

definition ensure :: "bool \<Rightarrow> 'e \<Rightarrow> ('e, 'b) result \<Rightarrow> ('e, 'b) result" where
  "ensure c e r = (if c then r else Inl e)"

definition ok_or :: "'a option \<Rightarrow> 'e \<Rightarrow> ('e, 'a) result" where
  "ok_or x e = (case x of None \<Rightarrow> Inl e | Some v \<Rightarrow> Inr v)"

definition map_err :: "('e \<Rightarrow> 'f) \<Rightarrow> ('e, 'a) result \<Rightarrow> ('f, 'a) result" where
  "map_err f r = (case r of Inl e \<Rightarrow> Inl (f e) | Inr x \<Rightarrow> Inr x)"

definition is_ok :: "('e, 'a) result \<Rightarrow> bool" where
  "is_ok r = (case r of Inl _ \<Rightarrow> False | Inr _ \<Rightarrow> True)"

lemma and_then_simps [simp]:
  "and_then (Inl e) f = Inl e"
  "and_then (Inr x) f = f x"
  by (simp_all add: and_then_def)

lemma and_then_Inr_iff [result_simps]:
  "and_then r f = Inr y \<longleftrightarrow> (\<exists>x. r = Inr x \<and> f x = Inr y)"
  by (cases r) auto

lemma and_then_cong [fundef_cong]:
  "r = r' \<Longrightarrow> (\<And>x. r' = Inr x \<Longrightarrow> f x = g x) \<Longrightarrow> and_then r f = and_then r' g"
  by (cases r') auto

lemma ensure_simps [simp]: "ensure True e r = r" "ensure False e r = Inl e"
  by (simp_all add: ensure_def)

lemma ensure_Inr_iff [result_simps]: "ensure c e r = Inr y \<longleftrightarrow> c \<and> r = Inr y"
  by (simp add: ensure_def)

lemma ensure_cong [fundef_cong]:
  "c = c' \<Longrightarrow> e = e' \<Longrightarrow> (c' \<Longrightarrow> r = r') \<Longrightarrow> ensure c e r = ensure c' e' r'"
  by (simp add: ensure_def)

lemma ok_or_simps [simp]: "ok_or None e = Inl e" "ok_or (Some v) e = Inr v"
  by (simp_all add: ok_or_def)

lemma ok_or_Inr_iff [result_simps]: "ok_or x e = Inr v \<longleftrightarrow> x = Some v"
  by (cases x) auto

lemma map_err_simps [simp]: "map_err f (Inl e) = Inl (f e)" "map_err f (Inr x) = Inr x"
  by (simp_all add: map_err_def)

lemma map_err_Inr_iff [result_simps]: "map_err f r = Inr y \<longleftrightarrow> r = Inr y"
  by (cases r) auto

lemma case_list_Inr_iff [result_simps]:
  "(case xs of [] \<Rightarrow> Inl e | y # ys \<Rightarrow> Inr (f y ys)) = Inr z \<longleftrightarrow>
   (\<exists>y ys. xs = y # ys \<and> f y ys = z)"
  by (cases xs) auto

lemma is_ok_simps [simp]: "\<not> is_ok (Inl e)" "is_ok (Inr x)"
  by (simp_all add: is_ok_def)

lemma is_ok_iff: "is_ok r \<longleftrightarrow> (\<exists>x. r = Inr x)"
  by (cases r) auto

section \<open>The type [u8; 32]\<close>

typedef digest = "{xs :: bytes. length xs = 32}"
  morphisms digest_bytes Digest
  by (rule exI [of _ "replicate 32 (CHR 0x00)"]) simp

setup_lifting type_definition_digest

lemma length_digest_bytes [simp]: "length (digest_bytes h) = 32"
  using digest_bytes [of h] by simp

lemma digest_bytes_inject_iff [simp]: "digest_bytes h = digest_bytes h' \<longleftrightarrow> h = h'"
  by (rule digest_bytes_inject)

text \<open>\<open>copy_from_slice\<close> into a zeroed array, made total: longer inputs are cut, shorter
  ones padded. The sources only copy slices of length 32, where it is the identity.\<close>

lift_definition digest_of :: "bytes \<Rightarrow> digest" is
  "\<lambda>xs. take 32 (xs @ replicate 32 (CHR 0x00))"
  by simp

lemma digest_bytes_of [digest_simps]:
  "digest_bytes (digest_of xs) = take 32 (xs @ replicate 32 (CHR 0x00))"
  by (rule digest_of.rep_eq)

lemma digest_of_bytes [simp]: "digest_of (digest_bytes h) = h"
  by (rule digest_bytes_inject [THEN iffD1]) (simp add: digest_bytes_of)

lemma digest_of_eq_iff [digest_simps]:
  "digest_of xs = digest_of ys \<longleftrightarrow>
   take 32 (xs @ replicate 32 (CHR 0x00)) = take 32 (ys @ replicate 32 (CHR 0x00))"
  using digest_bytes_inject_iff [of "digest_of xs" "digest_of ys"]
  by (simp add: digest_bytes_of)

text \<open>The conversion of a slice to the array type (\<open>try_into\<close>) fails on another length.\<close>

definition digest_try_from :: "bytes \<Rightarrow> digest option" where
  "digest_try_from xs = (if length xs = 32 then Some (digest_of xs) else None)"

lemma digest_try_from_bytes [simp]: "digest_try_from (digest_bytes h) = Some h"
  by (simp add: digest_try_from_def)

lemma digest_try_from_Some:
  "digest_try_from xs = Some h \<longleftrightarrow> digest_bytes h = xs"
  by (auto simp: digest_try_from_def digest_bytes_of split: if_splits)

instantiation digest :: linorder
begin

definition less_eq_digest :: "digest \<Rightarrow> digest \<Rightarrow> bool" where
  "less_eq_digest h h' \<longleftrightarrow> digest_bytes h \<le> digest_bytes h'"

definition less_digest :: "digest \<Rightarrow> digest \<Rightarrow> bool" where
  "less_digest h h' \<longleftrightarrow> digest_bytes h < digest_bytes h'"

instance
proof
  fix x y z :: digest
  show "x < y \<longleftrightarrow> x \<le> y \<and> \<not> y \<le> x"
    unfolding less_eq_digest_def less_digest_def by (rule less_le_not_le)
  show "x \<le> x" by (simp add: less_eq_digest_def)
  show "x \<le> y \<Longrightarrow> y \<le> z \<Longrightarrow> x \<le> z"
    unfolding less_eq_digest_def by (rule order_trans)
  show "x \<le> y \<Longrightarrow> y \<le> x \<Longrightarrow> x = y"
    unfolding less_eq_digest_def by (rule digest_bytes_inject [THEN iffD1], rule antisym)
  show "x \<le> y \<or> y \<le> x"
    unfolding less_eq_digest_def by (rule linear)
qed

end

instantiation digest :: equal
begin

definition equal_digest :: "digest \<Rightarrow> digest \<Rightarrow> bool" where
  "equal_digest h h' \<longleftrightarrow> digest_bytes h = digest_bytes h'"

instance
  by standard (simp add: equal_digest_def)

end

section \<open>Machine integers\<close>

text \<open>\<open>bit_len n\<close> is the length of the binary representation of \<open>n\<close>; the leading zeros
  of a \<open>u64\<close> are what is left of the 64 positions.\<close>

fun bit_len :: "nat \<Rightarrow> nat" where
  "bit_len n = (if n = 0 then 0 else Suc (bit_len (n div 2)))"

declare bit_len.simps [simp del]

lemma bit_len_0 [simp]: "bit_len 0 = 0"
  by (simp add: bit_len.simps)

lemma bit_len_pos: "0 < n \<Longrightarrow> bit_len n = Suc (bit_len (n div 2))"
  by (simp add: bit_len.simps)

lemma bit_len_upper: "n < 2 ^ bit_len n"
proof (induction n rule: bit_len.induct)
  case (1 n)
  show ?case
  proof (cases "n = 0")
    case False
    with "1.IH" have "n div 2 < 2 ^ bit_len (n div 2)" by simp
    then have "n < 2 * 2 ^ bit_len (n div 2)" by simp
    with False show ?thesis by (simp add: bit_len_pos)
  qed simp
qed

lemma bit_len_lower: "0 < n \<Longrightarrow> 2 ^ (bit_len n - 1) \<le> n"
proof (induction n rule: bit_len.induct)
  case (1 n)
  show ?case
  proof (cases "n div 2 = 0")
    case True
    with "1.prems" show ?thesis by (simp add: bit_len_pos)
  next
    case False
    with "1" have "2 ^ (bit_len (n div 2) - 1) \<le> n div 2" by simp
    moreover have "0 < bit_len (n div 2)" using False by (simp add: bit_len_pos)
    ultimately show ?thesis using "1.prems"
      by (cases "bit_len (n div 2)") (auto simp: bit_len_pos)
  qed
qed

lemma bit_len_le: "n < 2 ^ k \<Longrightarrow> bit_len n \<le> k"
proof (cases "n = 0")
  case False
  assume "n < 2 ^ k"
  with False bit_len_lower [of n] have "(2::nat) ^ (bit_len n - 1) < 2 ^ k" by linarith
  then have "bit_len n - 1 < k" by (rule power_less_imp_less_exp [rotated]) simp
  then show ?thesis by simp
qed simp

definition leading_zeros :: "u64 \<Rightarrow> nat" where
  "leading_zeros w = 64 - bit_len (unat w)"

lemma unat_less_2p64: "unat (w :: u64) < 2 ^ 64"
  using unsigned_less [of w] by simp

lemma bit_len_u64: "bit_len (unat (w :: u64)) \<le> 64"
  by (rule bit_len_le) (rule unat_less_2p64)

lemma unat_push_bit_1: "k < 64 \<Longrightarrow> unat (push_bit k 1 :: u64) = 2 ^ k"
proof -
  assume k: "k < 64"
  have "unat (of_nat (2 ^ k) :: u64) = 2 ^ k mod 2 ^ 64" by (simp only: unat_of_nat) simp
  also have "\<dots> = 2 ^ k" using k by (intro mod_less power_strict_increasing) simp_all
  finally show ?thesis by (simp add: push_bit_eq_mult)
qed

lemma unat_2_power: "k < 64 \<Longrightarrow> unat (2 ^ k :: u64) = 2 ^ k"
  using unat_push_bit_1 [of k] by (simp add: push_bit_eq_mult)

lemma two_le_unat: "w \<noteq> 0 \<Longrightarrow> w \<noteq> 1 \<Longrightarrow> 2 \<le> unat (w :: u64)"
proof -
  assume "w \<noteq> 0" "w \<noteq> 1"
  then have "unat w \<noteq> unat (0 :: u64)" "unat w \<noteq> unat (1 :: u64)"
    by (simp_all only: word_unat_eq_iff [symmetric]) simp_all
  then show ?thesis by simp
qed

text \<open>The largest power of two below \<open>n\<close>, for \<open>n \<ge> 2\<close>.\<close>

definition pow2_below :: "nat \<Rightarrow> nat" where
  "pow2_below n = 2 ^ (bit_len (n - 1) - 1)"

lemma pow2_below_bounds:
  assumes "2 \<le> n"
  shows "0 < pow2_below n" "pow2_below n < n" "n \<le> 2 * pow2_below n"
proof -
  have pos: "0 < n - 1" using assms by simp
  then have "0 < bit_len (n - 1)" by (simp add: bit_len_pos)
  then obtain b where b: "bit_len (n - 1) = Suc b" by (cases "bit_len (n - 1)") auto
  show "0 < pow2_below n" by (simp add: pow2_below_def)
  have "pow2_below n \<le> n - 1"
    unfolding pow2_below_def by (rule bit_len_lower [OF pos])
  with pos show "pow2_below n < n" by linarith
  have "n - 1 < 2 ^ bit_len (n - 1)" by (rule bit_len_upper)
  with b have "n - 1 < 2 * pow2_below n" by (simp add: pow2_below_def)
  then show "n \<le> 2 * pow2_below n" by linarith
qed

lemma pow2_below_less:
  assumes "n \<noteq> 0" "n \<noteq> Suc 0"
  shows "pow2_below n < n" "n - pow2_below n < n"
proof -
  have "2 \<le> n" using assms by linarith
  then show "pow2_below n < n" "n - pow2_below n < n"
    using pow2_below_bounds [of n] by simp_all
qed

lemma pow2_below_unique:
  assumes "2 ^ j < n" "n \<le> 2 * 2 ^ j"
  shows "pow2_below n = 2 ^ j"
proof -
  have n: "2 \<le> n" using assms(1) one_le_power [of "2::nat" j] by linarith
  let ?i = "bit_len (n - 1) - 1"
  have i: "2 ^ ?i < n" "n \<le> 2 ^ Suc ?i"
    using pow2_below_bounds [OF n] by (simp_all add: pow2_below_def)
  have "(2::nat) ^ ?i < 2 ^ Suc j" using i(1) assms(2) by simp
  then have "?i < Suc j" by (rule power_less_imp_less_exp [rotated]) simp
  moreover have "(2::nat) ^ j < 2 ^ Suc ?i" using i(2) assms(1) by linarith
  then have "j < Suc ?i" by (rule power_less_imp_less_exp [rotated]) simp
  ultimately have "?i = j" by linarith
  then show ?thesis by (simp only: pow2_below_def)
qed

section \<open>Prefix codes\<close>

text \<open>
  Two encodings that appear one after the other in a hashed byte string can be told apart
  when no encoding is a proper prefix of another. The clients below only use the law
  \<open>prefix_free\<close>; every length-prefixed, fixed-length or terminated encoding of the
  program implements it.
\<close>

locale prefix_code =
  fixes enc :: "'a \<Rightarrow> bytes"
    and valid :: "'a \<Rightarrow> bool"
  assumes prefix_free:
    "valid x \<Longrightarrow> valid y \<Longrightarrow> enc x @ s = enc y @ t \<Longrightarrow> x = y \<and> s = t"
    and enc_nonempty: "valid x \<Longrightarrow> enc x \<noteq> []"
begin

lemma enc_inject: "valid x \<Longrightarrow> valid y \<Longrightarrow> enc x = enc y \<longleftrightarrow> x = y"
  using prefix_free [of x y "[]" "[]"] by auto

lemma concat_map_inject_append:
  assumes "list_all valid xs" "list_all valid ys" "length xs = length ys"
    and "concat (map enc xs) @ s = concat (map enc ys) @ t"
  shows "xs = ys \<and> s = t"
  using assms(3,1,2,4)
proof (induction xs ys arbitrary: s t rule: list_induct2)
  case Nil
  then show ?case by simp
next
  case (Cons x xs y ys)
  then have "enc x @ (concat (map enc xs) @ s) = enc y @ (concat (map enc ys) @ t)"
    by simp
  moreover have "valid x" "valid y" using Cons.prems by simp_all
  ultimately have "x = y \<and> concat (map enc xs) @ s = concat (map enc ys) @ t"
    by (blast dest: prefix_free)
  moreover have "list_all valid xs" "list_all valid ys" using Cons.prems by simp_all
  ultimately show ?case using Cons.IH by blast
qed

lemma concat_map_inject:
  assumes "list_all valid xs" "list_all valid ys" "concat (map enc xs) = concat (map enc ys)"
  shows "xs = ys"
  using assms
proof (induction xs arbitrary: ys)
  case Nil
  then show ?case by (cases ys) (auto dest: enc_nonempty)
next
  case (Cons x xs)
  show ?case
  proof (cases ys)
    case Nil
    with Cons.prems show ?thesis by (auto dest: enc_nonempty)
  next
    case (Cons y ys')
    with Cons.prems have "enc x @ concat (map enc xs) = enc y @ concat (map enc ys')"
      by simp
    moreover have "valid x" "valid y" using Cons Cons.prems by simp_all
    ultimately have "x = y \<and> concat (map enc xs) = concat (map enc ys')"
      by (blast dest: prefix_free)
    with Cons.IH [of ys'] Cons Cons.prems show ?thesis by simp
  qed
qed

end

end
