(* ===== verification/Merkle.thy ===== *)
theory Merkle
  imports Prelude
begin

text \<open>
  RFC 6962 trees, from \<open>src/publication/merkle.rs\<close>: the hashes of leaves and nodes, the
  verification of inclusion and consistency proofs, and the ranges whose hashes make up a
  proof. SHA-256 is the parameter \<open>sha\<close>; tree sizes are \<open>u64\<close>. The specification is the
  recursive tree hash \<open>mth\<close> over the list of entries.
\<close>

section \<open>Definitions\<close>

datatype merkle_error =
    IndexOutside | InclusionTooLong | InclusionTooShort | InclusionExtra | InclusionMismatch
  | SizesReversed | ConsistencyTooLong | ConsistencyTooShort | ConsistencyExtra
  | ConsistencyMismatch | EqualSizeNodes | EqualSizeConflict | BadEmptyRoot | EmptyPrefixNodes
  | SizeUnderflow

definition MAX_PROOF_NODES :: nat where "MAX_PROOF_NODES = 65"

definition MAX_INCLUSION_NODES :: nat where "MAX_INCLUSION_NODES = 64"

definition empty_root :: "(bytes \<Rightarrow> digest) \<Rightarrow> digest" where
  "empty_root sha = sha []"

definition leaf_hash :: "(bytes \<Rightarrow> digest) \<Rightarrow> bytes \<Rightarrow> digest" where
  "leaf_hash sha entry = sha (CHR 0x00 # entry)"

definition node_hash :: "(bytes \<Rightarrow> digest) \<Rightarrow> digest \<Rightarrow> digest \<Rightarrow> digest" where
  "node_hash sha left right = sha (CHR 0x01 # digest_bytes left @ digest_bytes right)"

definition split :: "u64 \<Rightarrow> u64" where
  "split sz = push_bit (63 - leading_zeros (sz - 1)) 1"

lemma unat_split:
  assumes "2 \<le> unat sz"
  shows "unat (split sz) = pow2_below (unat sz)"
proof -
  have "sz \<noteq> 0" using assms by auto
  then have minus: "unat (sz - 1) = unat sz - 1" by (rule unat_minus_one)
  have le: "bit_len (unat (sz - 1)) \<le> 64" by (rule bit_len_u64)
  have pos: "0 < bit_len (unat (sz - 1))" using assms by (simp add: minus bit_len_pos)
  then have "63 - leading_zeros (sz - 1) = bit_len (unat sz - 1) - 1"
    using le by (simp add: leading_zeros_def minus)
  moreover have "bit_len (unat sz - 1) - 1 < 64" using le pos by (simp add: minus)
  ultimately show ?thesis by (simp add: split_def unat_2_power pow2_below_def)
qed

lemma unat_split_bounds:
  assumes "sz \<noteq> 0" "sz \<noteq> 1"
  shows "0 < unat (split sz)" "unat (split sz) < unat sz"
    "unat sz \<le> 2 * unat (split sz)" "unat (sz - split sz) = unat sz - unat (split sz)"
    "unat (sz - split sz) < unat sz"
proof -
  note n = two_le_unat [OF assms]
  show "0 < unat (split sz)" "unat (split sz) < unat sz"
    "unat sz \<le> 2 * unat (split sz)"
    using pow2_below_bounds [OF n] by (simp_all add: unat_split [OF n])
  then show eq: "unat (sz - split sz) = unat sz - unat (split sz)"
    by (intro unat_sub) (simp add: word_le_nat_alt)
  show "unat (sz - split sz) < unat sz"
    using pow2_below_bounds [OF n] by (simp add: eq unat_split [OF n])
qed

function inclusion_root ::
  "(bytes \<Rightarrow> digest) \<Rightarrow> u64 \<Rightarrow> u64 \<Rightarrow> digest \<Rightarrow> digest list
    \<Rightarrow> (merkle_error, digest \<times> digest list) result" where
  "inclusion_root sha index sz leaf path =
     (if sz = 1 then Inr (leaf, path)
      else if sz = 0 then Inl SizeUnderflow
      else
        let left_size = split sz in
        if index < left_size then
          and_then (inclusion_root sha index left_size leaf path) (\<lambda>(left, path).
            case path of
              [] \<Rightarrow> Inl InclusionTooShort
            | right # path \<Rightarrow> Inr (node_hash sha left right, path))
        else
          and_then (inclusion_root sha (index - left_size) (sz - left_size) leaf path)
            (\<lambda>(right, path).
            case path of
              [] \<Rightarrow> Inl InclusionTooShort
            | left # path \<Rightarrow> Inr (node_hash sha left right, path)))"
  by pat_completeness auto
termination
  by (relation "measure (\<lambda>(sha, index, sz, leaf, path). unat sz)")
     (auto simp: unat_split_bounds(2,5))

definition verify_inclusion ::
  "(bytes \<Rightarrow> digest) \<Rightarrow> bytes \<Rightarrow> u64 \<Rightarrow> u64 \<Rightarrow> digest list \<Rightarrow> digest
    \<Rightarrow> (merkle_error, unit) result" where
  "verify_inclusion sha entry index sz path root =
     ensure (0 < sz \<and> index < sz) IndexOutside (
     ensure (length path \<le> MAX_INCLUSION_NODES) InclusionTooLong (
     and_then (inclusion_root sha index sz (leaf_hash sha entry) path)
       (\<lambda>(calculated, remaining).
     ensure (remaining = []) InclusionExtra (
     ensure (calculated = root) InclusionMismatch (
     Inr ())))))"

function consistency_roots ::
  "(bytes \<Rightarrow> digest) \<Rightarrow> u64 \<Rightarrow> u64 \<Rightarrow> digest \<Rightarrow> bool \<Rightarrow> digest list
    \<Rightarrow> (merkle_error, (digest \<times> digest) \<times> digest list) result" where
  "consistency_roots sha old_size new_size known_old_root complete path =
     (if old_size = new_size then
        (if complete then Inr ((known_old_root, known_old_root), path)
         else (case path of
             [] \<Rightarrow> Inl ConsistencyTooShort
           | root # path \<Rightarrow> Inr ((root, root), path)))
      else if new_size = 0 \<or> new_size = 1 then Inl SizeUnderflow
      else
        let left_size = split new_size in
        if old_size \<le> left_size then
          and_then (consistency_roots sha old_size left_size known_old_root complete path)
            (\<lambda>((old, left), path).
            case path of
              [] \<Rightarrow> Inl ConsistencyTooShort
            | right # path \<Rightarrow> Inr ((old, node_hash sha left right), path))
        else
          and_then (consistency_roots sha (old_size - left_size) (new_size - left_size)
              known_old_root False path)
            (\<lambda>((old_right, new_right), path).
            case path of
              [] \<Rightarrow> Inl ConsistencyTooShort
            | left # path \<Rightarrow>
                Inr ((node_hash sha left old_right, node_hash sha left new_right), path)))"
  by pat_completeness auto
termination
  by (relation "measure (\<lambda>(sha, old_size, new_size, known, complete, path). unat new_size)")
     (auto simp: unat_split_bounds(2,5))

definition verify_consistency ::
  "(bytes \<Rightarrow> digest) \<Rightarrow> u64 \<Rightarrow> u64 \<Rightarrow> digest \<Rightarrow> digest \<Rightarrow> digest list
    \<Rightarrow> (merkle_error, unit) result" where
  "verify_consistency sha old_size new_size old_root new_root path =
     ensure (old_size \<le> new_size) SizesReversed (
     ensure (length path \<le> MAX_PROOF_NODES) ConsistencyTooLong (
     if old_size = new_size then
       ensure (path = []) EqualSizeNodes (
       ensure (old_root = new_root) EqualSizeConflict (
       if old_size = 0 then ensure (old_root = empty_root sha) BadEmptyRoot (Inr ())
       else Inr ()))
     else if old_size = 0 then
       ensure (old_root = empty_root sha) BadEmptyRoot (
       ensure (path = []) EmptyPrefixNodes (Inr ()))
     else
       and_then (consistency_roots sha old_size new_size old_root True path)
         (\<lambda>((calculated_old, calculated_new), remaining).
       ensure (remaining = []) ConsistencyExtra (
       ensure (calculated_old = old_root \<and> calculated_new = new_root) ConsistencyMismatch (
       Inr ())))))"

text \<open>The two \<open>walk\<close> helpers push onto the vector \<open>out\<close> after their recursive call.\<close>

function inclusion_walk ::
  "u64 \<Rightarrow> u64 \<Rightarrow> u64 \<Rightarrow> (u64 \<times> u64) list \<Rightarrow> (u64 \<times> u64) list" where
  "inclusion_walk index start sz out =
     (if sz = 1 \<or> sz = 0 then out
      else
        let k = split sz in
        if index < k then inclusion_walk index start k out @ [(start + k, sz - k)]
        else inclusion_walk (index - k) (start + k) (sz - k) out @ [(start, k)])"
  by pat_completeness auto
termination
  by (relation "measure (\<lambda>(index, start, sz, out). unat sz)")
     (auto simp: unat_split_bounds(2,5))

definition inclusion_ranges ::
  "u64 \<Rightarrow> u64 \<Rightarrow> (merkle_error, (u64 \<times> u64) list) result" where
  "inclusion_ranges index sz =
     ensure (0 < sz \<and> index < sz) IndexOutside (
     Inr (inclusion_walk index 0 sz []))"

function consistency_walk ::
  "u64 \<Rightarrow> u64 \<Rightarrow> u64 \<Rightarrow> bool \<Rightarrow> (u64 \<times> u64) list \<Rightarrow> (u64 \<times> u64) list" where
  "consistency_walk old start sz complete out =
     (if old = sz then (if \<not> complete then out @ [(start, sz)] else out)
      else if sz = 1 \<or> sz = 0 then out
      else
        let k = split sz in
        if old \<le> k then consistency_walk old start k complete out @ [(start + k, sz - k)]
        else consistency_walk (old - k) (start + k) (sz - k) False out @ [(start, k)])"
  by pat_completeness auto
termination
  by (relation "measure (\<lambda>(old, start, sz, complete, out). unat sz)")
     (auto simp: unat_split_bounds(2,5))

definition consistency_ranges ::
  "u64 \<Rightarrow> u64 \<Rightarrow> (merkle_error, (u64 \<times> u64) list) result" where
  "consistency_ranges old_size new_size =
     ensure (old_size \<le> new_size) SizesReversed (
     Inr (if old_size \<noteq> 0 then consistency_walk old_size 0 new_size True [] else []))"

declare inclusion_root.simps [simp del] consistency_roots.simps [simp del]
  inclusion_walk.simps [simp del] consistency_walk.simps [simp del]

section \<open>Specification: the Merkle tree hash\<close>

function mth :: "(bytes \<Rightarrow> digest) \<Rightarrow> bytes list \<Rightarrow> digest" where
  "mth sha xs =
     (if length xs = 0 then empty_root sha
      else if length xs = 1 then leaf_hash sha (hd xs)
      else let k = pow2_below (length xs) in
        node_hash sha (mth sha (take k xs)) (mth sha (drop k xs)))"
  by pat_completeness auto
termination
  by (relation "measure (\<lambda>(sha, xs). length xs)")
     (auto simp: pow2_below_less)

declare mth.simps [simp del]

lemma mth_1: "length xs = 1 \<Longrightarrow> mth sha xs = leaf_hash sha (xs ! 0)"
  by (subst mth.simps) (cases xs; simp)

lemma mth_split:
  "2 \<le> length xs \<Longrightarrow> k = pow2_below (length xs) \<Longrightarrow>
   mth sha xs = node_hash sha (mth sha (take k xs)) (mth sha (drop k xs))"
  by (subst mth.simps) (auto simp: Let_def)


text \<open>The strings the tree hash feeds to SHA-256.\<close>

function tree_inputs :: "(bytes \<Rightarrow> digest) \<Rightarrow> bytes list \<Rightarrow> bytes set" where
  "tree_inputs sha xs =
     (if length xs = 0 then {[]}
      else if length xs = 1 then {CHR 0x00 # hd xs}
      else let k = pow2_below (length xs) in
        insert (CHR 0x01 # digest_bytes (mth sha (take k xs)) @ digest_bytes (mth sha (drop k xs)))
          (tree_inputs sha (take k xs) \<union> tree_inputs sha (drop k xs)))"
  by pat_completeness auto
termination
  by (relation "measure (\<lambda>(sha, xs). length xs)")
     (auto simp: pow2_below_less)

declare tree_inputs.simps [simp del]

lemma tree_inputs_1: "length xs = 1 \<Longrightarrow> tree_inputs sha xs = {CHR 0x00 # xs ! 0}"
  by (subst tree_inputs.simps) (cases xs; simp)

lemma tree_inputs_split:
  "2 \<le> length xs \<Longrightarrow> k = pow2_below (length xs) \<Longrightarrow>
   tree_inputs sha xs =
     insert (CHR 0x01 # digest_bytes (mth sha (take k xs)) @ digest_bytes (mth sha (drop k xs)))
       (tree_inputs sha (take k xs) \<union> tree_inputs sha (drop k xs))"
  by (subst tree_inputs.simps) (auto simp: Let_def)

lemma node_hash_inject:
  assumes "inj_on sha S" "node_hash sha l r = node_hash sha l' r'"
    and "CHR 0x01 # digest_bytes l @ digest_bytes r \<in> S"
    and "CHR 0x01 # digest_bytes l' @ digest_bytes r' \<in> S"
  shows "l = l' \<and> r = r'"
proof -
  have "CHR 0x01 # digest_bytes l @ digest_bytes r = CHR 0x01 # digest_bytes l' @ digest_bytes r'"
    using assms(1,3,4) assms(2) unfolding node_hash_def by (blast dest: inj_onD)
  then show ?thesis by (simp add: append_eq_append_conv)
qed

lemma leaf_hash_inject:
  assumes "inj_on sha S" "leaf_hash sha x = leaf_hash sha y"
    and "CHR 0x00 # x \<in> S" "CHR 0x00 # y \<in> S"
  shows "x = y"
  using assms inj_onD [of sha S "CHR 0x00 # x" "CHR 0x00 # y"] by (simp add: leaf_hash_def)

text \<open>Trees of one size with one root have the same leaves, short of a SHA-256 collision.\<close>

lemma mth_inject:
  "length xs = length ys \<Longrightarrow> mth sha xs = mth sha ys \<Longrightarrow>
   inj_on sha (tree_inputs sha xs \<union> tree_inputs sha ys) \<Longrightarrow> xs = ys"
proof (induction sha xs arbitrary: ys rule: mth.induct)
  case (1 sha xs)
  consider "length xs = 0" | "length xs = 1" | "2 \<le> length xs" by linarith
  then show ?case
  proof cases
    case 1
    then show ?thesis using "1.prems" by simp
  next
    case 2
    then have "length ys = 1" using "1.prems" by simp
    then have "xs ! 0 = ys ! 0"
      using 2 "1.prems"(2)
      by (intro leaf_hash_inject [OF "1.prems"(3)]) (simp_all add: mth_1 tree_inputs_1)
    with 2 \<open>length ys = 1\<close> show ?thesis by (auto intro: nth_equalityI)
  next
    case 3
    define k where "k = pow2_below (length xs)"
    note len = "1.prems"(1)
    have ys: "2 \<le> length ys" "k = pow2_below (length ys)" using 3 len k_def by simp_all
    note inj = "1.prems"(3) [unfolded tree_inputs_split [OF 3 k_def] tree_inputs_split [OF ys]]
    have "mth sha (take k xs) = mth sha (take k ys) \<and> mth sha (drop k xs) = mth sha (drop k ys)"
      using "1.prems"(2)
      by (intro node_hash_inject [OF inj]) (simp_all add: mth_split [OF 3 k_def] mth_split [OF ys])
    moreover have "take k xs = take k ys"
      if "mth sha (take k xs) = mth sha (take k ys)"
      by (rule "1.IH"(1)) (use 3 k_def len that in \<open>auto intro: inj_on_subset [OF inj]\<close>)
    moreover have "drop k xs = drop k ys"
      if "mth sha (drop k xs) = mth sha (drop k ys)"
      by (rule "1.IH"(2)) (use 3 k_def len that in \<open>auto intro: inj_on_subset [OF inj]\<close>)
    ultimately show ?thesis by (metis append_take_drop_id)
  qed
qed

section \<open>The verifiers over natural numbers\<close>

text \<open>
  The recursions on \<open>u64\<close> are lifted to \<open>nat\<close>: below \<open>2^64\<close> no subtraction wraps, so the
  two levels agree, and the tree arguments can be carried out on list lengths.
\<close>

function inclusion_rootN ::
  "(bytes \<Rightarrow> digest) \<Rightarrow> nat \<Rightarrow> nat \<Rightarrow> digest \<Rightarrow> digest list
    \<Rightarrow> (merkle_error, digest \<times> digest list) result" where
  "inclusion_rootN sha i n leaf path =
     (if n = 1 then Inr (leaf, path)
      else if n = 0 then Inl SizeUnderflow
      else let k = pow2_below n in
        if i < k then
          and_then (inclusion_rootN sha i k leaf path) (\<lambda>(left, path).
            case path of [] \<Rightarrow> Inl InclusionTooShort
            | right # path \<Rightarrow> Inr (node_hash sha left right, path))
        else
          and_then (inclusion_rootN sha (i - k) (n - k) leaf path) (\<lambda>(right, path).
            case path of [] \<Rightarrow> Inl InclusionTooShort
            | left # path \<Rightarrow> Inr (node_hash sha left right, path)))"
  by pat_completeness auto
termination
  by (relation "measure (\<lambda>(sha, i, n, leaf, path). n)") (auto simp: pow2_below_less)

declare inclusion_rootN.simps [simp del]

lemma unat_1_iff: "unat (w :: u64) = 1 \<longleftrightarrow> w = 1"
  by (metis unat_1 word_unat_eq_iff)

lemma inclusion_root_nat:
  "inclusion_root sha index sz leaf path = inclusion_rootN sha (unat index) (unat sz) leaf path"
proof (induction sha index sz leaf path rule: inclusion_root.induct)
  case (1 sha index sz leaf path)
  show ?case
  proof (cases "sz = 0 \<or> sz = 1")
    case True
    then show ?thesis by (auto simp: inclusion_root.simps inclusion_rootN.simps)
  next
    case False
    then have n: "unat sz \<noteq> 0" "unat sz \<noteq> 1" using two_le_unat [of sz] by auto
    have k: "pow2_below (unat sz) = unat (split sz)" using False by (simp add: unat_split two_le_unat)
    show ?thesis
    proof (cases "index < split sz")
      case True
      with False n k "1.IH"(1) show ?thesis
        by (simp add: inclusion_root.simps [of sha index sz]
            inclusion_rootN.simps [of sha "unat index" "unat sz"] word_less_nat_alt)
    next
      case ge: False
      then have "unat (index - split sz) = unat index - unat (split sz)"
        by (intro unat_sub) (simp add: not_less)
      with ge False n k "1.IH"(2) show ?thesis
        by (simp add: inclusion_root.simps [of sha index sz] unat_split_bounds Let_def
            inclusion_rootN.simps [of sha "unat index" "unat sz"] word_less_nat_alt)
    qed
  qed
qed


function consistency_rootsN ::
  "(bytes \<Rightarrow> digest) \<Rightarrow> nat \<Rightarrow> nat \<Rightarrow> digest \<Rightarrow> bool \<Rightarrow> digest list
    \<Rightarrow> (merkle_error, (digest \<times> digest) \<times> digest list) result" where
  "consistency_rootsN sha m n known complete path =
     (if m = n then
        (if complete then Inr ((known, known), path)
         else (case path of [] \<Rightarrow> Inl ConsistencyTooShort
           | root # path \<Rightarrow> Inr ((root, root), path)))
      else if n = 0 \<or> n = 1 then Inl SizeUnderflow
      else let k = pow2_below n in
        if m \<le> k then
          and_then (consistency_rootsN sha m k known complete path) (\<lambda>((old, left), path).
            case path of [] \<Rightarrow> Inl ConsistencyTooShort
            | right # path \<Rightarrow> Inr ((old, node_hash sha left right), path))
        else
          and_then (consistency_rootsN sha (m - k) (n - k) known False path)
            (\<lambda>((old_right, new_right), path).
            case path of [] \<Rightarrow> Inl ConsistencyTooShort
            | left # path \<Rightarrow>
                Inr ((node_hash sha left old_right, node_hash sha left new_right), path)))"
  by pat_completeness auto
termination
  by (relation "measure (\<lambda>(sha, m, n, known, complete, path). n)") (auto simp: pow2_below_less)

declare consistency_rootsN.simps [simp del]

lemma consistency_roots_nat:
  "consistency_roots sha old new known complete path =
   consistency_rootsN sha (unat old) (unat new) known complete path"
proof (induction sha old new known complete path rule: consistency_roots.induct)
  case (1 sha old new known complete path)
  show ?case
  proof (cases "old = new \<or> new = 0 \<or> new = 1")
    case True
    then show ?thesis
      by (auto simp: consistency_roots.simps consistency_rootsN.simps unat_eq_zero
          unat_1_iff [unfolded One_nat_def])
  next
    case False
    then have n: "unat new \<noteq> 0" "unat new \<noteq> 1" using two_le_unat [of new] by auto
    have ne: "unat old \<noteq> unat new" using False word_unat_eq_iff [of old new] by blast
    have k: "pow2_below (unat new) = unat (split new)" using False by (simp add: unat_split two_le_unat)
    show ?thesis
    proof (cases "old \<le> split new")
      case True
      with False n ne k "1.IH"(1) show ?thesis
        by (simp add: consistency_roots.simps [of sha old new]
            consistency_rootsN.simps [of sha "unat old" "unat new"] word_le_nat_alt)
    next
      case ge: False
      then have "unat (old - split new) = unat old - unat (split new)"
        by (intro unat_sub) simp
      with ge False n ne k "1.IH"(2) show ?thesis
        by (simp add: consistency_roots.simps [of sha old new] unat_split_bounds Let_def
            consistency_rootsN.simps [of sha "unat old" "unat new"] word_le_nat_alt)
    qed
  qed
qed

text \<open>The strings a verifier hashes.\<close>

fun node_input :: "digest \<Rightarrow> digest \<Rightarrow> bytes" where
  "node_input l r = CHR 0x01 # digest_bytes l @ digest_bytes r"

function inclusion_inputs ::
  "(bytes \<Rightarrow> digest) \<Rightarrow> nat \<Rightarrow> nat \<Rightarrow> digest \<Rightarrow> digest list \<Rightarrow> bytes set" where
  "inclusion_inputs sha i n leaf path =
     (if n = 1 \<or> n = 0 then {}
      else let k = pow2_below n in
        if i < k then
          (case inclusion_rootN sha i k leaf path of
             Inr (left, right # _) \<Rightarrow> {node_input left right} | _ \<Rightarrow> {})
          \<union> inclusion_inputs sha i k leaf path
        else
          (case inclusion_rootN sha (i - k) (n - k) leaf path of
             Inr (right, left # _) \<Rightarrow> {node_input left right} | _ \<Rightarrow> {})
          \<union> inclusion_inputs sha (i - k) (n - k) leaf path)"
  by pat_completeness auto
termination
  by (relation "measure (\<lambda>(sha, i, n, leaf, path). n)") (auto simp: pow2_below_less)

function consistency_inputs ::
  "(bytes \<Rightarrow> digest) \<Rightarrow> nat \<Rightarrow> nat \<Rightarrow> digest \<Rightarrow> bool \<Rightarrow> digest list \<Rightarrow> bytes set" where
  "consistency_inputs sha m n known complete path =
     (if m = n \<or> n = 0 \<or> n = 1 then {}
      else let k = pow2_below n in
        if m \<le> k then
          (case consistency_rootsN sha m k known complete path of
             Inr ((old, left), right # _) \<Rightarrow> {node_input left right} | _ \<Rightarrow> {})
          \<union> consistency_inputs sha m k known complete path
        else
          (case consistency_rootsN sha (m - k) (n - k) known False path of
             Inr ((old_right, new_right), left # _) \<Rightarrow>
               {node_input left old_right, node_input left new_right} | _ \<Rightarrow> {})
          \<union> consistency_inputs sha (m - k) (n - k) known False path)"
  by pat_completeness auto
termination
  by (relation "measure (\<lambda>(sha, m, n, known, complete, path). n)") (auto simp: pow2_below_less)

declare inclusion_inputs.simps [simp del] consistency_inputs.simps [simp del]

section \<open>Soundness\<close>

lemma inclusion_rootN_step:
  assumes "inclusion_rootN sha i n leaf path = Inr (root, rest)" "2 \<le> n" "k = pow2_below n"
  obtains (left) l r where "i < k" "inclusion_rootN sha i k leaf path = Inr (l, r # rest)"
      "root = node_hash sha l r"
      "inclusion_inputs sha i n leaf path =
         insert (node_input l r) (inclusion_inputs sha i k leaf path)"
    | (right) l r where "k \<le> i" "inclusion_rootN sha (i - k) (n - k) leaf path = Inr (r, l # rest)"
      "root = node_hash sha l r"
      "inclusion_inputs sha i n leaf path =
         insert (node_input l r) (inclusion_inputs sha (i - k) (n - k) leaf path)"
proof -
  have n: "n \<noteq> 1" "n \<noteq> 0" using assms(2) by simp_all
  show thesis
  proof (cases "i < k")
    case True
    with assms n obtain l r where "inclusion_rootN sha i k leaf path = Inr (l, r # rest)"
      "root = node_hash sha l r"
      by (auto simp: inclusion_rootN.simps [of sha i n] Let_def result_simps)
    with True n assms(3) show thesis
      by (intro left [of l r]) (simp_all add: inclusion_inputs.simps [of sha i n] Let_def)
  next
    case False
    with assms n obtain l r where "inclusion_rootN sha (i - k) (n - k) leaf path = Inr (r, l # rest)"
      "root = node_hash sha l r"
      by (auto simp: inclusion_rootN.simps [of sha i n] Let_def result_simps)
    with False n assms(3) show thesis
      by (intro right [of r l]) (simp_all add: inclusion_inputs.simps [of sha i n] Let_def)
  qed
qed


lemma inclusion_rootN_sound:
  "inclusion_rootN sha i n (leaf_hash sha e) path = Inr (mth sha xs, rest) \<Longrightarrow>
   i < n \<Longrightarrow> length xs = n \<Longrightarrow>
   inj_on sha (insert (CHR 0x00 # e) (inclusion_inputs sha i n (leaf_hash sha e) path)
     \<union> tree_inputs sha xs) \<Longrightarrow>
   xs ! i = e"
proof (induction n arbitrary: i xs path rest rule: less_induct)
  case (less n)
  show ?case
  proof (cases "n = 1")
    case True
    with less.prems have "leaf_hash sha e = leaf_hash sha (xs ! 0)"
      by (simp add: inclusion_rootN.simps mth_1)
    then have "e = xs ! 0"
      using True less.prems(3) by (intro leaf_hash_inject [OF less.prems(4)]) (simp_all add: tree_inputs_1)
    with True less.prems(2) show ?thesis by simp
  next
    case False
    then have n: "2 \<le> n" using less.prems(2) by simp
    define k where "k = pow2_below n"
    note b = pow2_below_bounds [OF n, folded k_def]
    have xs: "2 \<le> length xs" "k = pow2_below (length xs)" using n less.prems(3) k_def by simp_all
    note mth = mth_split [OF xs] and inp = tree_inputs_split [OF xs]
    note inj = less.prems(4)
    from less.prems(1) n k_def show ?thesis
    proof (cases rule: inclusion_rootN_step)
      case (left l r)
      have "l = mth sha (take k xs) \<and> r = mth sha (drop k xs)"
        using left(3) by (intro node_hash_inject [OF inj]) (simp_all add: mth left(4) inp)
      moreover have "inj_on sha (insert (CHR 0x00 # e)
          (inclusion_inputs sha i k (leaf_hash sha e) path) \<union> tree_inputs sha (take k xs))"
        by (rule inj_on_subset [OF inj]) (auto simp: inp left(4))
      ultimately have "take k xs ! i = e"
        using left(1,2) b less.prems(3)
        by (intro less.IH [of k i path "take k xs" "r # rest"]) simp_all
      with left(1) show ?thesis by simp
    next
      case (right l r)
      have "l = mth sha (take k xs) \<and> r = mth sha (drop k xs)"
        using right(3) by (intro node_hash_inject [OF inj]) (simp_all add: mth right(4) inp)
      moreover have "inj_on sha (insert (CHR 0x00 # e)
          (inclusion_inputs sha (i - k) (n - k) (leaf_hash sha e) path)
            \<union> tree_inputs sha (drop k xs))"
        by (rule inj_on_subset [OF inj]) (auto simp: inp right(4))
      ultimately have "drop k xs ! (i - k) = e"
        using right(1,2) b less.prems(2,3)
        by (intro less.IH [of "n - k" "i - k" path "drop k xs" "l # rest"]) simp_all
      with right(1) b less.prems(2,3) show ?thesis by simp
    qed
  qed
qed

lemma consistency_rootsN_step:
  assumes "consistency_rootsN sha m n known complete path = Inr ((old, new), rest)"
    and "m \<noteq> n" "2 \<le> n" "k = pow2_below n"
  obtains (left) l r where "m \<le> k"
      "consistency_rootsN sha m k known complete path = Inr ((old, l), r # rest)"
      "new = node_hash sha l r"
      "consistency_inputs sha m n known complete path =
         insert (node_input l r) (consistency_inputs sha m k known complete path)"
    | (right) l ro rn where "k < m"
      "consistency_rootsN sha (m - k) (n - k) known False path = Inr ((ro, rn), l # rest)"
      "old = node_hash sha l ro" "new = node_hash sha l rn"
      "consistency_inputs sha m n known complete path =
         {node_input l ro, node_input l rn}
         \<union> consistency_inputs sha (m - k) (n - k) known False path"
proof -
  have n: "n \<noteq> 1" "n \<noteq> 0" using assms(3) by simp_all
  show thesis
  proof (cases "m \<le> k")
    case True
    with assms n obtain l r where
      "consistency_rootsN sha m k known complete path = Inr ((old, l), r # rest)"
      "new = node_hash sha l r"
      by (auto simp: consistency_rootsN.simps [of sha m n] Let_def result_simps)
    with True n assms show thesis
      by (intro left [of l r]) (simp_all add: consistency_inputs.simps [of sha m n] Let_def)
  next
    case False
    with assms n obtain l ro rn where
      "consistency_rootsN sha (m - k) (n - k) known False path = Inr ((ro, rn), l # rest)"
      "old = node_hash sha l ro" "new = node_hash sha l rn"
      by (auto simp: consistency_rootsN.simps [of sha m n] Let_def result_simps)
    with False n assms show thesis
      by (intro right [of ro rn l]) (simp_all add: consistency_inputs.simps [of sha m n] Let_def)
  qed
qed

lemma pow2_below_old:
  assumes "2 \<le> n" "k = pow2_below n" "k < m" "m \<le> n"
  shows "k = pow2_below m"
proof -
  obtain j where j: "k = 2 ^ j" using assms(2) by (simp add: pow2_below_def)
  have "m \<le> 2 * k" using pow2_below_bounds(3) [OF assms(1)] assms by simp
  then show ?thesis using pow2_below_unique [of j m] assms(3) j by simp
qed

lemma consistency_rootsN_sound:
  "consistency_rootsN sha m n known complete path = Inr ((mth sha xs, mth sha ys), rest) \<Longrightarrow>
   0 < m \<Longrightarrow> m \<le> n \<Longrightarrow> length xs = m \<Longrightarrow> length ys = n \<Longrightarrow>
   inj_on sha (consistency_inputs sha m n known complete path
     \<union> tree_inputs sha xs \<union> tree_inputs sha ys) \<Longrightarrow>
   xs = take m ys"
proof (induction n arbitrary: m xs ys complete path rest rule: less_induct)
  case (less n)
  show ?case
  proof (cases "m = n")
    case True
    have "mth sha xs = mth sha ys"
      using less.prems(1) True
      by (auto simp: consistency_rootsN.simps split: if_splits list.splits)
    then have "xs = ys"
      using True less.prems(4,5)
      by (intro mth_inject) (auto intro: inj_on_subset [OF less.prems(6)])
    with True less.prems(5) show ?thesis by simp
  next
    case False
    then have n: "2 \<le> n" using less.prems(2,3) by simp
    define k where "k = pow2_below n"
    note b = pow2_below_bounds [OF n, folded k_def]
    have ys: "2 \<le> length ys" "k = pow2_below (length ys)" using n less.prems(5) k_def by simp_all
    note inj = less.prems(6)
    from less.prems(1) False n k_def show ?thesis
    proof (cases rule: consistency_rootsN_step)
      case (left l r)
      have "l = mth sha (take k ys) \<and> r = mth sha (drop k ys)"
        using left(3)
        by (intro node_hash_inject [OF inj])
           (simp_all add: mth_split [OF ys] tree_inputs_split [OF ys] left(4))
      moreover have "inj_on sha (consistency_inputs sha m k known complete path
          \<union> tree_inputs sha xs \<union> tree_inputs sha (take k ys))"
        by (rule inj_on_subset [OF inj]) (auto simp: tree_inputs_split [OF ys] left(4))
      ultimately have "xs = take m (take k ys)"
        using left(1,2) b less.prems(2,4,5)
        by (intro less.IH [of k m complete path xs "take k ys" "r # rest"]) simp_all
      with left(1) show ?thesis by (simp add: min_def)
    next
      case (right l ro rn)
      have xs: "2 \<le> length xs" "k = pow2_below (length xs)"
        using right(1) b less.prems(3,4) pow2_below_old [OF n k_def right(1)] by simp_all
      have 1: "l = mth sha (take k xs) \<and> ro = mth sha (drop k xs)"
        using right(3)
        by (intro node_hash_inject [OF inj])
           (simp_all add: mth_split [OF xs] tree_inputs_split [OF xs] right(5))
      have 2: "l = mth sha (take k ys) \<and> rn = mth sha (drop k ys)"
        using right(4)
        by (intro node_hash_inject [OF inj])
           (simp_all add: mth_split [OF ys] tree_inputs_split [OF ys] right(5))
      note inp = tree_inputs_split [OF xs] tree_inputs_split [OF ys]
      have "inj_on sha (tree_inputs sha (take k xs) \<union> tree_inputs sha (take k ys))"
        by (rule inj_on_subset [OF inj]) (auto simp: inp)
      then have "take k xs = take k ys"
        using 1 2 right(1) b less.prems(3,4,5) by (intro mth_inject [of _ _ sha]) simp_all
      moreover have "inj_on sha (consistency_inputs sha (m - k) (n - k) known False path
          \<union> tree_inputs sha (drop k xs) \<union> tree_inputs sha (drop k ys))"
        by (rule inj_on_subset [OF inj]) (auto simp: inp right(5))
      then have "drop k xs = take (m - k) (drop k ys)"
        using 1 2 right(1,2) b less.prems(3,4,5)
        by (intro less.IH [of "n - k" "m - k" False path "drop k xs" "drop k ys" "l # rest"])
           simp_all
      ultimately have "xs = take k ys @ take (m - k) (drop k ys)"
        by (metis append_take_drop_id)
      also have "\<dots> = take m ys" using right(1) by (simp flip: take_add)
      finally show ?thesis .
    qed
  qed
qed


section \<open>Completeness\<close>

function inclusion_walkN :: "nat \<Rightarrow> nat \<Rightarrow> nat \<Rightarrow> (nat \<times> nat) list" where
  "inclusion_walkN i start n =
     (if n = 1 \<or> n = 0 then []
      else let k = pow2_below n in
        if i < k then inclusion_walkN i start k @ [(start + k, n - k)]
        else inclusion_walkN (i - k) (start + k) (n - k) @ [(start, k)])"
  by pat_completeness auto
termination
  by (relation "measure (\<lambda>(i, start, n). n)") (auto simp: pow2_below_less)

function consistency_walkN :: "nat \<Rightarrow> nat \<Rightarrow> nat \<Rightarrow> bool \<Rightarrow> (nat \<times> nat) list" where
  "consistency_walkN m start n complete =
     (if m = n then (if complete then [] else [(start, n)])
      else if n = 1 \<or> n = 0 then []
      else let k = pow2_below n in
        if m \<le> k then consistency_walkN m start k complete @ [(start + k, n - k)]
        else consistency_walkN (m - k) (start + k) (n - k) False @ [(start, k)])"
  by pat_completeness auto
termination
  by (relation "measure (\<lambda>(m, start, n, complete). n)") (auto simp: pow2_below_less)

declare inclusion_walkN.simps [simp del] consistency_walkN.simps [simp del]

lemma unat_add_small:
  "unat (a :: u64) + unat b < 2 ^ 64 \<Longrightarrow> unat (a + b) = unat a + unat b"
  by (simp add: unat_add_lem [THEN iffD1])

lemma inclusion_walk_nat:
  "unat start + unat sz < 2 ^ 64 \<Longrightarrow>
   map (map_prod unat unat) (inclusion_walk index start sz out) =
   map (map_prod unat unat) out @ inclusion_walkN (unat index) (unat start) (unat sz)"
proof (induction index start sz out rule: inclusion_walk.induct)
  case (1 index start sz out)
  show ?case
  proof (cases "sz = 0 \<or> sz = 1")
    case True
    then show ?thesis by (auto simp: inclusion_walk.simps inclusion_walkN.simps)
  next
    case False
    then have n: "unat sz \<noteq> 0" "unat sz \<noteq> 1" using two_le_unat [of sz] by auto
    have k: "pow2_below (unat sz) = unat (split sz)" using False by (simp add: unat_split two_le_unat)
    note b = unat_split_bounds [of sz] False
    have add: "unat (start + split sz) = unat start + unat (split sz)"
      using b "1.prems" by (intro unat_add_small) simp
    show ?thesis
    proof (cases "index < split sz")
      case True
      with False b add n k "1.IH"(1) "1.prems" show ?thesis
        by (simp add: inclusion_walk.simps [of index start sz] Let_def
            inclusion_walkN.simps [of "unat index" "unat start" "unat sz"] word_less_nat_alt)
    next
      case ge: False
      then have "unat (index - split sz) = unat index - unat (split sz)"
        by (intro unat_sub) (simp add: not_less)
      with ge False b add n k "1.IH"(2) "1.prems" show ?thesis
        by (simp add: inclusion_walk.simps [of index start sz] Let_def
            inclusion_walkN.simps [of "unat index" "unat start" "unat sz"] word_less_nat_alt)
    qed
  qed
qed

lemma consistency_walk_nat:
  "unat start + unat sz < 2 ^ 64 \<Longrightarrow>
   map (map_prod unat unat) (consistency_walk old start sz complete out) =
   map (map_prod unat unat) out @ consistency_walkN (unat old) (unat start) (unat sz) complete"
proof (induction old start sz complete out rule: consistency_walk.induct)
  case (1 old start sz complete out)
  show ?case
  proof (cases "old = sz \<or> sz = 0 \<or> sz = 1")
    case True
    then show ?thesis
      by (auto simp: consistency_walk.simps consistency_walkN.simps unat_eq_zero
          unat_1_iff [unfolded One_nat_def])
  next
    case False
    then have n: "unat sz \<noteq> 0" "unat sz \<noteq> 1" using two_le_unat [of sz] by auto
    have ne: "unat old \<noteq> unat sz" using False word_unat_eq_iff [of old sz] by blast
    have k: "pow2_below (unat sz) = unat (split sz)" using False by (simp add: unat_split two_le_unat)
    note b = unat_split_bounds [of sz] False
    have add: "unat (start + split sz) = unat start + unat (split sz)"
      using b "1.prems" by (intro unat_add_small) simp
    show ?thesis
    proof (cases "old \<le> split sz")
      case True
      with False b add n ne k "1.IH"(1) "1.prems" show ?thesis
        by (simp add: consistency_walk.simps [of old start sz] Let_def
            consistency_walkN.simps [of "unat old" "unat start" "unat sz"] word_le_nat_alt)
    next
      case ge: False
      then have "unat (old - split sz) = unat old - unat (split sz)"
        by (intro unat_sub) simp
      with ge False b add n ne k "1.IH"(2) "1.prems" show ?thesis
        by (simp add: consistency_walk.simps [of old start sz] Let_def
            consistency_walkN.simps [of "unat old" "unat start" "unat sz"] word_le_nat_alt)
    qed
  qed
qed

text \<open>The hash of a range of entries, which is what a tile reader supplies for a range.\<close>

definition range_hashN :: "(bytes \<Rightarrow> digest) \<Rightarrow> bytes list \<Rightarrow> nat \<times> nat \<Rightarrow> digest" where
  "range_hashN sha xs r = mth sha (take (snd r) (drop (fst r) xs))"

definition range_hash :: "(bytes \<Rightarrow> digest) \<Rightarrow> bytes list \<Rightarrow> u64 \<times> u64 \<Rightarrow> digest" where
  "range_hash sha xs r = range_hashN sha xs (map_prod unat unat r)"

lemma range_hashN_split:
  assumes "2 \<le> n" "k = pow2_below n" "start + n \<le> length xs"
  shows "range_hashN sha xs (start, n) =
    node_hash sha (range_hashN sha xs (start, k)) (range_hashN sha xs (start + k, n - k))"
proof -
  note b = pow2_below_bounds [OF assms(1), folded assms(2)]
  have len: "length (take n (drop start xs)) = n" using assms(3) by simp
  have "take k (take n (drop start xs)) = take k (drop start xs)"
    using b by (simp add: min_def)
  moreover have "drop k (take n (drop start xs)) = take (n - k) (drop (start + k) xs)"
    by (simp add: drop_take add.commute)
  ultimately show ?thesis
    using mth_split [of "take n (drop start xs)" k sha] assms len by (simp add: range_hashN_def)
qed

lemma inclusion_rootN_complete:
  "i < n \<Longrightarrow> start + n \<le> length xs \<Longrightarrow>
   inclusion_rootN sha i n (leaf_hash sha (xs ! (start + i)))
     (map (range_hashN sha xs) (inclusion_walkN i start n) @ rest) =
   Inr (range_hashN sha xs (start, n), rest)"
proof (induction n arbitrary: i start rest rule: less_induct)
  case (less n)
  show ?case
  proof (cases "n = 1")
    case True
    then show ?thesis using less.prems
      by (simp add: inclusion_rootN.simps inclusion_walkN.simps range_hashN_def mth_1)
  next
    case False
    then have n: "2 \<le> n" using less.prems(1) by simp
    define k where "k = pow2_below n"
    note b = pow2_below_bounds [OF n, folded k_def]
    note split = range_hashN_split [OF n k_def less.prems(2)]
    show ?thesis
    proof (cases "i < k")
      case True
      then show ?thesis
        using less.IH [of k i start "range_hashN sha xs (start + k, n - k) # rest"] False n b
          less.prems split
        by (simp add: inclusion_rootN.simps [of sha i n] inclusion_walkN.simps [of i start n]
            Let_def flip: k_def)
    next
      case ge: False
      then show ?thesis
        using less.IH [of "n - k" "i - k" "start + k" "range_hashN sha xs (start, k) # rest"]
          False n b less.prems split
        by (simp add: inclusion_rootN.simps [of sha i n] inclusion_walkN.simps [of i start n]
            Let_def flip: k_def)
    qed
  qed
qed

lemma inclusion_walkN_length:
  "i < n \<Longrightarrow> n \<le> 2 ^ d \<Longrightarrow> length (inclusion_walkN i start n) \<le> d"
proof (induction d arbitrary: i start n)
  case 0
  then have "n = 1" by simp
  then show ?case by (simp add: inclusion_walkN.simps)
next
  case (Suc d)
  show ?case
  proof (cases "n = 1")
    case True
    then show ?thesis by (simp add: inclusion_walkN.simps)
  next
    case False
    then have n: "2 \<le> n" using Suc.prems(1) by simp
    define k where "k = pow2_below n"
    note b = pow2_below_bounds [OF n, folded k_def]
    obtain j where j: "k = 2 ^ j" by (simp add: k_def pow2_below_def)
    have "(2::nat) ^ j < 2 ^ Suc d" using b Suc.prems(2) j by simp
    then have "j < Suc d" by (rule power_less_imp_less_exp [rotated]) simp
    then have kd: "k \<le> 2 ^ d" using j by (simp add: power_increasing)
    have "length (inclusion_walkN i start k) \<le> d" if "i < k"
      using Suc.IH [of i k start] that kd by simp
    moreover have "length (inclusion_walkN (i - k) (start + k) (n - k)) \<le> d" if "\<not> i < k"
      using Suc.IH [of "i - k" "n - k" "start + k"] that kd b Suc.prems by simp
    ultimately show ?thesis using False n
      by (simp add: inclusion_walkN.simps [of i start n] Let_def flip: k_def)
  qed
qed


lemma consistency_rootsN_complete:
  "0 < m \<Longrightarrow> m \<le> n \<Longrightarrow> start + n \<le> length xs \<Longrightarrow>
   (complete \<Longrightarrow> known = range_hashN sha xs (start, m)) \<Longrightarrow>
   consistency_rootsN sha m n known complete
     (map (range_hashN sha xs) (consistency_walkN m start n complete) @ rest) =
   Inr ((range_hashN sha xs (start, m), range_hashN sha xs (start, n)), rest)"
proof (induction n arbitrary: m start complete rest rule: less_induct)
  case (less n)
  show ?case
  proof (cases "m = n")
    case True
    then show ?thesis using less.prems(4)
      by (simp add: consistency_rootsN.simps consistency_walkN.simps)
  next
    case False
    then have n: "2 \<le> n" using less.prems(1,2) by simp
    define k where "k = pow2_below n"
    note b = pow2_below_bounds [OF n, folded k_def]
    note split = range_hashN_split [OF n k_def less.prems(3)]
    show ?thesis
    proof (cases "m \<le> k")
      case True
      then show ?thesis
        using less.IH [of k m start complete "range_hashN sha xs (start + k, n - k) # rest"]
          False n b less.prems split
        by (simp add: consistency_rootsN.simps [of sha m n] Let_def
            consistency_walkN.simps [of m start n] flip: k_def)
    next
      case ge: False
      have m: "2 \<le> m" "k = pow2_below m" "start + m \<le> length xs"
        using ge b less.prems(2,3) pow2_below_old [OF n k_def] by simp_all
      then show ?thesis
        using less.IH [of "n - k" "m - k" "start + k" False "range_hashN sha xs (start, k) # rest"]
          ge False n b less.prems split range_hashN_split [OF m, of sha]
        by (simp add: consistency_rootsN.simps [of sha m n] Let_def
            consistency_walkN.simps [of m start n] flip: k_def)
    qed
  qed
qed

lemma consistency_walkN_length:
  "0 < m \<Longrightarrow> m \<le> n \<Longrightarrow> n \<le> 2 ^ d \<Longrightarrow> length (consistency_walkN m start n complete) \<le> Suc d"
proof (induction d arbitrary: m start n complete)
  case 0
  then have "m = n" by simp
  then show ?case by (simp add: consistency_walkN.simps)
next
  case (Suc d)
  show ?case
  proof (cases "m = n")
    case True
    then show ?thesis by (simp add: consistency_walkN.simps)
  next
    case False
    then have n: "2 \<le> n" using Suc.prems(1,2) by simp
    define k where "k = pow2_below n"
    note b = pow2_below_bounds [OF n, folded k_def]
    obtain j where j: "k = 2 ^ j" by (simp add: k_def pow2_below_def)
    have "(2::nat) ^ j < 2 ^ Suc d" using b Suc.prems(3) j by simp
    then have "j < Suc d" by (rule power_less_imp_less_exp [rotated]) simp
    then have kd: "k \<le> 2 ^ d" using j by (simp add: power_increasing)
    have "length (consistency_walkN m start k complete) \<le> Suc d" if "m \<le> k"
      using Suc.IH [of m k start complete] that kd Suc.prems(1) by simp
    moreover have "length (consistency_walkN (m - k) (start + k) (n - k) False) \<le> Suc d"
      if "\<not> m \<le> k"
      using Suc.IH [of "m - k" "n - k" "start + k" False] that kd b Suc.prems by simp
    ultimately show ?thesis using False n
      by (simp add: consistency_walkN.simps [of m start n] Let_def flip: k_def)
  qed
qed

lemma range_hash_map:
  "map (range_hash sha xs) rs = map (range_hashN sha xs) (map (map_prod unat unat) rs)"
  by (simp add: range_hash_def comp_def)

lemma inclusion_ranges_nat:
  "map (map_prod unat unat) (inclusion_walk index 0 sz []) = inclusion_walkN (unat index) 0 (unat sz)"
  using inclusion_walk_nat [of 0 sz index "[]"] unat_less_2p64 [of sz] by simp

lemma consistency_ranges_nat:
  "map (map_prod unat unat) (consistency_walk old 0 sz complete []) =
   consistency_walkN (unat old) 0 (unat sz) complete"
  using consistency_walk_nat [of 0 sz old complete "[]"] unat_less_2p64 [of sz] by simp

section \<open>Properties\<close>

lemma verify_inclusion_leaf:
  assumes accepted: "verify_inclusion sha entry index sz path (mth sha xs) = Inr ()"
    and log_size: "length xs = unat sz"
    and no_collision: "inj_on sha (insert (CHR 0x00 # entry)
      (inclusion_inputs sha (unat index) (unat sz) (leaf_hash sha entry) path) \<union> tree_inputs sha xs)"
  shows "index < sz \<and> xs ! unat index = entry"
proof -
  from accepted have lt: "index < sz"
    and "inclusion_rootN sha (unat index) (unat sz) (leaf_hash sha entry) path = Inr (mth sha xs, [])"
    by (auto simp: verify_inclusion_def result_simps inclusion_root_nat)
  then have "xs ! unat index = entry"
    using log_size no_collision by (intro inclusion_rootN_sound) (auto simp: word_less_nat_alt)
  with lt show ?thesis by simp
qed

text \<open>
  C5. Inclusion proofs are sound: when \<open>verify_inclusion\<close> accepts an entry at an index
  against the root of a log of \<open>sz\<close> entries, that entry is the one the log holds at that
  index, provided SHA-256 has no collision among the strings hashed by the log for its
  tree and by the verifier for this proof.
\<close>

theorem verify_inclusion_sound:
  assumes accepted: "verify_inclusion sha entry index sz path (mth sha xs) = Inr ()"
    and log_size: "length xs = unat sz"
    and no_collision: "inj_on sha (insert (CHR 0x00 # entry)
      (inclusion_inputs sha (unat index) (unat sz) (leaf_hash sha entry) path) \<union> tree_inputs sha xs)"
  shows "index < sz \<and> xs ! unat index = entry"
  using assms by (rule verify_inclusion_leaf)

lemmas merkle_eval = inclusion_inputs.simps inclusion_rootN.simps tree_inputs.simps
  pow2_below_def bit_len.simps mth.simps consistency_inputs.simps consistency_rootsN.simps

lemma example_inclusion:
  "verify_inclusion digest_of ''a'' 0 2 [leaf_hash digest_of ''b''] (mth digest_of [''a'', ''b'']) = Inr ()"
  by code_simp

lemma example_inclusion_no_collision:
  "inj_on digest_of (insert (CHR 0x00 # ''a'') (inclusion_inputs digest_of (unat (0::u64))
     (unat (2::u64)) (leaf_hash digest_of ''a'') [leaf_hash digest_of ''b''])
     \<union> tree_inputs digest_of [''a'', ''b''])"
  by (simp add: merkle_eval inj_on_def leaf_hash_def digest_simps)

theorem verify_inclusion_sound_witness:
  "verify_inclusion digest_of ''a'' 0 2 [leaf_hash digest_of ''b'']
     (mth digest_of [''a'', ''b'']) = Inr () \<and> [''a'', ''b''] ! unat (0 :: u64) = ''a''"
  using verify_inclusion_sound [OF example_inclusion _ example_inclusion_no_collision]
    example_inclusion by simp

lemma verify_consistency_prefix:
  assumes accepted: "verify_consistency sha old_size new_size (mth sha xs) (mth sha ys) path = Inr ()"
    and old_log: "length xs = unat old_size" and new_log: "length ys = unat new_size"
    and no_collision: "inj_on sha (consistency_inputs sha (unat old_size) (unat new_size) (mth sha xs)
      True path \<union> tree_inputs sha xs \<union> tree_inputs sha ys)"
  shows "xs = take (unat old_size) ys"
proof (cases "old_size = new_size \<or> old_size = 0")
  case True
  then show ?thesis
  proof
    assume eq: "old_size = new_size"
    with accepted have "mth sha xs = mth sha ys"
      by (auto simp: verify_consistency_def result_simps)
    moreover have "inj_on sha (tree_inputs sha xs \<union> tree_inputs sha ys)"
      by (rule inj_on_subset [OF no_collision]) auto
    ultimately have "xs = ys" using eq old_log new_log by (intro mth_inject) simp_all
    with new_log eq show ?thesis by simp
  qed (use old_log in simp)
next
  case False
  with accepted have "old_size \<le> new_size" "consistency_rootsN sha (unat old_size) (unat new_size)
      (mth sha xs) True path = Inr ((mth sha xs, mth sha ys), [])"
    by (auto simp: verify_consistency_def result_simps consistency_roots_nat)
  moreover have "0 < unat old_size" using False by (simp add: unat_gt_0)
  ultimately show ?thesis
    using old_log new_log no_collision
    by (intro consistency_rootsN_sound) (auto simp: word_le_nat_alt)
qed

text \<open>
  C6. Consistency proofs are sound: when \<open>verify_consistency\<close> accepts two roots, the older
  log is a prefix of the newer one, provided SHA-256 has no collision among the strings
  hashed for the two trees and by the verifier.
\<close>

theorem verify_consistency_sound:
  assumes accepted: "verify_consistency sha old_size new_size (mth sha xs) (mth sha ys) path = Inr ()"
    and old_log: "length xs = unat old_size" and new_log: "length ys = unat new_size"
    and no_collision: "inj_on sha (consistency_inputs sha (unat old_size) (unat new_size) (mth sha xs)
      True path \<union> tree_inputs sha xs \<union> tree_inputs sha ys)"
  shows "xs = take (unat old_size) ys"
  using assms by (rule verify_consistency_prefix)

lemma example_consistency:
  "verify_consistency digest_of 1 2 (mth digest_of [''a'']) (mth digest_of [''a'', ''b''])
     [leaf_hash digest_of ''b''] = Inr ()"
  by code_simp

lemma example_consistency_no_collision:
  "inj_on digest_of (consistency_inputs digest_of (unat (1::u64)) (unat (2::u64))
     (mth digest_of [''a'']) True [leaf_hash digest_of ''b'']
     \<union> tree_inputs digest_of [''a''] \<union> tree_inputs digest_of [''a'', ''b''])"
  by (simp add: merkle_eval inj_on_def leaf_hash_def digest_simps)

theorem verify_consistency_sound_witness:
  "verify_consistency digest_of 1 2 (mth digest_of [''a'']) (mth digest_of [''a'', ''b''])
     [leaf_hash digest_of ''b''] = Inr () \<and> [''a''] = take (unat (1 :: u64)) [''a'', ''b'']"
  using verify_consistency_sound [OF example_consistency _ _ example_consistency_no_collision]
    example_consistency by simp

lemma verify_inclusion_ranges:
  assumes "length xs = unat sz" "index < sz"
  shows "\<exists>ranges. inclusion_ranges index sz = Inr ranges \<and>
    verify_inclusion sha (xs ! unat index) index sz (map (range_hash sha xs) ranges) (mth sha xs)
      = Inr ()"
proof -
  let ?rs = "inclusion_walk index 0 sz []"
  have lt: "unat index < unat sz" using assms(2) by (simp add: word_less_nat_alt)
  have pos: "0 < sz" using assms(2) by (simp add: word_less_nat_alt)
  have path: "map (range_hash sha xs) ?rs =
      map (range_hashN sha xs) (inclusion_walkN (unat index) 0 (unat sz))"
    by (simp only: range_hash_map inclusion_ranges_nat)
  have "length (inclusion_walkN (unat index) 0 (unat sz)) \<le> 64"
    using lt unat_less_2p64 [of sz] by (intro inclusion_walkN_length) simp_all
  moreover have "inclusion_rootN sha (unat index) (unat sz) (leaf_hash sha (xs ! unat index))
      (map (range_hashN sha xs) (inclusion_walkN (unat index) 0 (unat sz))) = Inr (mth sha xs, [])"
    using inclusion_rootN_complete [of "unat index" "unat sz" 0 xs sha "[]"] lt assms(1)
    by (simp add: range_hashN_def)
  ultimately have "verify_inclusion sha (xs ! unat index) index sz (map (range_hash sha xs) ?rs)
      (mth sha xs) = Inr ()"
    using pos assms(2)
    by (simp only: path verify_inclusion_def inclusion_root_nat)
       (simp add: MAX_INCLUSION_NODES_def)
  with pos assms(2) show ?thesis by (simp add: inclusion_ranges_def)
qed

text \<open>
  Inclusion proofs are complete, at every \<open>u64\<close> size: the hashes of the ranges that
  \<open>inclusion_ranges\<close> lists for an entry of the log are accepted, so the 64-node limit never
  refuses an honest proof.
\<close>

theorem verify_inclusion_complete:
  assumes "length xs = unat sz" "index < sz"
  shows "\<exists>ranges. inclusion_ranges index sz = Inr ranges \<and>
    verify_inclusion sha (xs ! unat index) index sz (map (range_hash sha xs) ranges) (mth sha xs)
      = Inr ()"
  using assms by (rule verify_inclusion_ranges)

theorem verify_inclusion_complete_witness:
  "\<exists>ranges. inclusion_ranges 1 3 = Inr ranges \<and>
    verify_inclusion digest_of ([''a'', ''b'', ''c''] ! unat (1 :: u64)) 1 3
      (map (range_hash digest_of [''a'', ''b'', ''c'']) ranges) (mth digest_of [''a'', ''b'', ''c''])
      = Inr ()"
  by (rule verify_inclusion_complete) simp_all

lemma verify_consistency_ranges:
  assumes "length xs = unat new_size" "old_size \<le> new_size"
  shows "\<exists>ranges. consistency_ranges old_size new_size = Inr ranges \<and>
    verify_consistency sha old_size new_size (mth sha (take (unat old_size) xs)) (mth sha xs)
      (map (range_hash sha xs) ranges) = Inr ()"
proof -
  let ?rs = "consistency_walk old_size 0 new_size True []"
  let ?m = "unat old_size" and ?n = "unat new_size"
  have le: "?m \<le> ?n" using assms(2) by (simp add: word_le_nat_alt)
  have path: "map (range_hash sha xs) ?rs = map (range_hashN sha xs) (consistency_walkN ?m 0 ?n True)"
    by (simp only: range_hash_map consistency_ranges_nat)
  consider "old_size = 0" | "old_size = new_size" | "0 < ?m" "old_size \<noteq> new_size" "old_size \<noteq> 0"
    by (auto simp: unat_gt_0)
  then show ?thesis
  proof cases
    case 1
    then show ?thesis using assms
      by (auto simp: consistency_ranges_def verify_consistency_def mth.simps)
  next
    case 2
    then show ?thesis using assms
      by (auto simp: consistency_ranges_def verify_consistency_def consistency_walk.simps mth.simps)
  next
    case 3
    have "length (consistency_walkN ?m 0 ?n True) \<le> 65"
      using 3 le unat_less_2p64 [of new_size]
        consistency_walkN_length [of ?m ?n 64 0 True] by simp
    moreover have "consistency_rootsN sha ?m ?n (mth sha (take ?m xs)) True
        (map (range_hashN sha xs) (consistency_walkN ?m 0 ?n True))
      = Inr ((mth sha (take ?m xs), mth sha xs), [])"
      using consistency_rootsN_complete [of ?m ?n 0 xs True _ sha "[]"] 3 le assms(1)
      by (simp add: range_hashN_def)
    ultimately have "verify_consistency sha old_size new_size (mth sha (take ?m xs)) (mth sha xs)
        (map (range_hash sha xs) ?rs) = Inr ()"
      using 3 assms(2)
      by (simp only: path verify_consistency_def consistency_roots_nat)
         (simp add: MAX_PROOF_NODES_def)
    with 3 assms(2) show ?thesis by (simp add: consistency_ranges_def)
  qed
qed

text \<open>
  Consistency proofs are complete, at every pair of \<open>u64\<close> sizes: the hashes of the
  ranges that \<open>consistency_ranges\<close> lists connect the root of a prefix of the log to the
  root of the log, and the 65-node limit never refuses them.
\<close>

theorem verify_consistency_complete:
  assumes "length xs = unat new_size" "old_size \<le> new_size"
  shows "\<exists>ranges. consistency_ranges old_size new_size = Inr ranges \<and>
    verify_consistency sha old_size new_size (mth sha (take (unat old_size) xs)) (mth sha xs)
      (map (range_hash sha xs) ranges) = Inr ()"
  using assms by (rule verify_consistency_ranges)

theorem verify_consistency_complete_witness:
  "\<exists>ranges. consistency_ranges 2 3 = Inr ranges \<and>
    verify_consistency digest_of 2 3 (mth digest_of (take (unat (2 :: u64)) [''a'', ''b'', ''c'']))
      (mth digest_of [''a'', ''b'', ''c''])
      (map (range_hash digest_of [''a'', ''b'', ''c'']) ranges) = Inr ()"
  by (rule verify_consistency_complete) simp_all

end
