(* ===== verification/Text.thy ===== *)
theory Text
  imports Prelude
begin

text \<open>
  The operations of \<open>str\<close> the sources use, on the UTF-8 bytes of a string: decoding into
  \<open>char\<close>s (code points), \<open>trim\<close>, \<open>contains\<close>, \<open>starts_with\<close>, \<open>ends_with\<close>, \<open>split\<close> on an
  ASCII character, \<open>join\<close>, and the rendering and parsing of numbers in decimal. A Rust
  \<open>String\<close> is always valid UTF-8; on other byte strings the decoder is unspecified by Rust
  and the definition reads a byte as itself.
\<close>

section \<open>Characters\<close>

type_synonym code_point = nat

fun utf8_chars :: "bytes \<Rightarrow> code_point list" where
  "utf8_chars [] = []"
| "utf8_chars (b # bs) =
     (let n = of_char b :: nat; c = (\<lambda>x. of_char x mod 64 :: nat) in
      if n < 0xC0 then n # utf8_chars bs
      else if n < 0xE0 then
        (case bs of b1 # r \<Rightarrow> ((n mod 32) * 64 + c b1) # utf8_chars r | _ \<Rightarrow> [n])
      else if n < 0xF0 then
        (case bs of
           b1 # b2 # r \<Rightarrow> ((n mod 16) * 4096 + c b1 * 64 + c b2) # utf8_chars r
         | _ \<Rightarrow> [n])
      else
        (case bs of
           b1 # b2 # b3 # r \<Rightarrow>
             ((n mod 8) * 262144 + c b1 * 4096 + c b2 * 64 + c b3) # utf8_chars r
         | _ \<Rightarrow> [n]))"

definition is_control :: "code_point \<Rightarrow> bool" where
  "is_control c \<longleftrightarrow> c < 0x20 \<or> 0x7F \<le> c \<and> c < 0xA0"

definition is_whitespace :: "code_point \<Rightarrow> bool" where
  "is_whitespace c \<longleftrightarrow> 9 \<le> c \<and> c \<le> 13 \<or> c = 32 \<or> c = 0x85 \<or> c = 0xA0 \<or> c = 0x1680 \<or>
     0x2000 \<le> c \<and> c \<le> 0x200A \<or> c = 0x2028 \<or> c = 0x2029 \<or> c = 0x202F \<or> c = 0x205F \<or>
     c = 0x3000"

definition is_ascii_digit :: "code_point \<Rightarrow> bool" where
  "is_ascii_digit c \<longleftrightarrow> 48 \<le> c \<and> c \<le> 57"

text \<open>\<open>s.trim().is_empty()\<close>\<close>

definition trim_is_empty :: "bytes \<Rightarrow> bool" where
  "trim_is_empty s \<longleftrightarrow> list_all is_whitespace (utf8_chars s)"

lemma trim_is_empty_Nil [simp]: "trim_is_empty []"
  by (simp add: trim_is_empty_def)

text \<open>The bytes of each character, and \<open>str::trim\<close>.\<close>

fun utf8_pieces :: "bytes \<Rightarrow> bytes list" where
  "utf8_pieces [] = []"
| "utf8_pieces (b # bs) =
     (let n = of_char b :: nat in
      if n < 0xC0 then [b] # utf8_pieces bs
      else if n < 0xE0 then (case bs of b1 # r \<Rightarrow> [b, b1] # utf8_pieces r | _ \<Rightarrow> [b # bs])
      else if n < 0xF0 then (case bs of b1 # b2 # r \<Rightarrow> [b, b1, b2] # utf8_pieces r | _ \<Rightarrow> [b # bs])
      else (case bs of b1 # b2 # b3 # r \<Rightarrow> [b, b1, b2, b3] # utf8_pieces r | _ \<Rightarrow> [b # bs]))"

definition trim :: "bytes \<Rightarrow> bytes" where
  "trim s = concat (rev (dropWhile trim_is_empty (rev (dropWhile trim_is_empty (utf8_pieces s)))))"

text \<open>The check of \<open>str::from_utf8\<close> (also behind \<open>Path::to_str\<close>): no overlong forms, no
  surrogates, nothing above \<open>U+10FFFF\<close>.\<close>

definition is_cont :: "char \<Rightarrow> bool" where
  "is_cont c \<longleftrightarrow> 0x80 \<le> (of_char c :: nat) \<and> (of_char c :: nat) < 0xC0"

fun is_utf8 :: "bytes \<Rightarrow> bool" where
  "is_utf8 [] = True"
| "is_utf8 (b # bs) =
     (let n = of_char b :: nat in
      if n < 0x80 then is_utf8 bs
      else if 0xC2 \<le> n \<and> n < 0xE0 then
        (case bs of b1 # r \<Rightarrow> is_cont b1 \<and> is_utf8 r | _ \<Rightarrow> False)
      else if 0xE0 \<le> n \<and> n < 0xF0 then
        (case bs of
           b1 # b2 # r \<Rightarrow> is_cont b1 \<and> is_cont b2 \<and>
             (n = 0xE0 \<longrightarrow> 0xA0 \<le> (of_char b1 :: nat)) \<and>
             (n = 0xED \<longrightarrow> (of_char b1 :: nat) < 0xA0) \<and> is_utf8 r
         | _ \<Rightarrow> False)
      else if 0xF0 \<le> n \<and> n < 0xF5 then
        (case bs of
           b1 # b2 # b3 # r \<Rightarrow> is_cont b1 \<and> is_cont b2 \<and> is_cont b3 \<and>
             (n = 0xF0 \<longrightarrow> 0x90 \<le> (of_char b1 :: nat)) \<and>
             (n = 0xF4 \<longrightarrow> (of_char b1 :: nat) < 0x90) \<and> is_utf8 r
         | _ \<Rightarrow> False)
      else False)"

text \<open>An ASCII byte of a valid string is one of its characters.\<close>

lemma ascii_is_char:
  "is_utf8 s \<Longrightarrow> c \<in> set s \<Longrightarrow> (of_char c :: nat) < 0x80 \<Longrightarrow> of_char c \<in> set (utf8_chars s)"
proof (induction s rule: length_induct)
  case (1 s)
  have IH: "length r < length s \<Longrightarrow> is_utf8 r \<Longrightarrow> c \<in> set r \<Longrightarrow> of_char c \<in> set (utf8_chars r)" for r
    using 1 by blast
  show ?case
  proof (cases s)
    case (Cons b bs)
    then show ?thesis
      using "1.prems" IH
      by (auto simp: Let_def is_cont_def split: if_splits list.splits)
  qed (use "1.prems" in simp)
qed

section \<open>Searching and joining\<close>

definition starts_with :: "bytes \<Rightarrow> bytes \<Rightarrow> bool" where
  "starts_with s p = (take (length p) s = p)"

definition ends_with :: "bytes \<Rightarrow> bytes \<Rightarrow> bool" where
  "ends_with s p = (length p \<le> length s \<and> drop (length s - length p) s = p)"

fun contains :: "bytes \<Rightarrow> bytes \<Rightarrow> bool" where
  "contains [] p = (p = [])"
| "contains (c # s) p = (starts_with (c # s) p \<or> contains s p)"

lemma starts_with_iff: "starts_with s p \<longleftrightarrow> (\<exists>t. s = p @ t)"
proof
  assume "starts_with s p"
  then have "s = p @ drop (length p) s"
    by (metis append_take_drop_id starts_with_def)
  then show "\<exists>t. s = p @ t" ..
qed (auto simp: starts_with_def)

lemma ends_with_iff: "ends_with s p \<longleftrightarrow> (\<exists>t. s = t @ p)"
proof
  assume e: "ends_with s p"
  then have "s = take (length s - length p) s @ p"
    by (metis append_take_drop_id ends_with_def)
  then show "\<exists>t. s = t @ p" ..
qed (auto simp: ends_with_def)

lemma contains_iff: "contains s p \<longleftrightarrow> (\<exists>a b. s = a @ p @ b)"
proof (induction s)
  case Nil
  then show ?case by simp
next
  case (Cons c s)
  have "(\<exists>a b. c # s = a @ p @ b) \<longleftrightarrow> (\<exists>b. c # s = p @ b) \<or> (\<exists>a b. s = a @ p @ b)"
    by (metis append_Cons append_Nil neq_Nil_conv list.inject)
  with Cons show ?case by (simp add: starts_with_iff)
qed

fun join :: "bytes \<Rightarrow> bytes list \<Rightarrow> bytes" where
  "join sep [] = []"
| "join sep [x] = x"
| "join sep (x # y # xs) = x @ sep @ join sep (y # xs)"

text \<open>\<open>s.split(c)\<close> on a single-byte character: always at least one piece.\<close>

fun split_on :: "char \<Rightarrow> bytes \<Rightarrow> bytes list" where
  "split_on c [] = [[]]"
| "split_on c (x # s) =
     (if x = c then [] # split_on c s
      else (case split_on c s of [] \<Rightarrow> [[x]] | p # ps \<Rightarrow> (x # p) # ps))"

lemma split_on_nonempty [simp]: "split_on c s \<noteq> []"
  by (induction s) (auto split: list.splits)

lemma split_on_pieces: "p \<in> set (split_on c s) \<Longrightarrow> c \<notin> set p"
proof (induction s arbitrary: p)
  case (Cons x s)
  then show ?case
    by (cases "split_on c s") (auto split: if_splits)
qed simp

lemma join_split_on: "join [c] (split_on c s) = s"
proof (induction s)
  case (Cons x s)
  obtain p ps where "split_on c s = p # ps" by (cases "split_on c s") simp_all
  with Cons show ?case by (cases ps) auto
qed simp

lemma split_on_absent: "c \<notin> set p \<Longrightarrow> split_on c p = [p]"
  by (induction p) auto

lemma split_on_append: "c \<notin> set p \<Longrightarrow> split_on c (p @ c # s) = p # split_on c s"
  by (induction p) auto

lemma split_on_join:
  "xs \<noteq> [] \<Longrightarrow> list_all (\<lambda>p. c \<notin> set p) xs \<Longrightarrow> split_on c (join [c] xs) = xs"
  by (induction "[c]" xs rule: join.induct) (simp_all add: split_on_absent split_on_append)

text \<open>A string up to a delimiter it does not contain can be read back.\<close>

lemma delimited_eq:
  "c \<notin> set a \<Longrightarrow> c \<notin> set b \<Longrightarrow> a @ c # s = b @ c # t \<longleftrightarrow> a = b \<and> s = t"
proof (induction a arbitrary: b)
  case Nil
  then show ?case by (cases b) auto
next
  case (Cons x a)
  then show ?case by (cases b) auto
qed

text \<open>\<open>str::split_once\<close>: around the first occurrence of the separator.\<close>

fun split_once :: "bytes \<Rightarrow> bytes \<Rightarrow> (bytes \<times> bytes) option" where
  "split_once sep [] = (if sep = [] then Some ([], []) else None)"
| "split_once sep (c # s) =
     (if starts_with (c # s) sep then Some ([], drop (length sep) (c # s))
      else map_option (\<lambda>(a, b). (c # a, b)) (split_once sep s))"

lemma split_once_parts: "split_once sep s = Some (a, b) \<Longrightarrow> s = a @ sep @ b"
proof (induction s arbitrary: a)
  case (Cons c s)
  then show ?case
    by (auto simp: starts_with_iff split: if_splits)
qed (auto split: if_splits)

section \<open>Decimal numbers\<close>

definition digit_char :: "nat \<Rightarrow> char" where
  "digit_char d = char_of (48 + d)"

fun show_nat :: "nat \<Rightarrow> bytes" where
  "show_nat n = (if n < 10 then [digit_char n] else show_nat (n div 10) @ [digit_char (n mod 10)])"

declare show_nat.simps [simp del]

definition show_int :: "int \<Rightarrow> bytes" where
  "show_int i = (if i < 0 then CHR ''-'' # show_nat (nat (- i)) else show_nat (nat i))"

definition is_digit :: "char \<Rightarrow> bool" where
  "is_digit c \<longleftrightarrow> 48 \<le> (of_char c :: nat) \<and> (of_char c :: nat) \<le> 57"

definition digits_value :: "bytes \<Rightarrow> nat" where
  "digits_value s = foldl (\<lambda>n c. 10 * n + (of_char c - 48)) 0 s"

lemma digit_char_simps [simp]:
  "d < 10 \<Longrightarrow> is_digit (digit_char d)"
  "d < 10 \<Longrightarrow> (of_char (digit_char d) :: nat) = 48 + d"
  by (simp_all add: digit_char_def is_digit_def)

lemma show_nat_digits: "list_all is_digit (show_nat n)"
  by (induction n rule: show_nat.induct) (simp add: show_nat.simps)

lemma show_nat_chars: "c \<in> set (show_nat n) \<Longrightarrow> is_digit c"
  using show_nat_digits [of n] by (auto simp: list_all_iff)

lemma show_nat_no_colon [simp]: "CHR '':'' \<notin> set (show_nat n)"
  using show_nat_chars [of "CHR '':''" n] by (auto simp: is_digit_def)

lemma show_nat_nonempty [simp]: "show_nat n \<noteq> []"
  by (subst show_nat.simps) simp

lemma digits_value_show_nat [simp]: "digits_value (show_nat n) = n"
proof (induction n rule: show_nat.induct)
  case (1 n)
  then show ?case by (subst show_nat.simps) (simp add: digits_value_def)
qed

lemma show_nat_inject [simp]: "show_nat m = show_nat n \<longleftrightarrow> m = n"
  by (metis digits_value_show_nat)

lemma show_nat_hd: "0 < n \<Longrightarrow> hd (show_nat n) \<noteq> CHR ''0''"
proof (induction n rule: show_nat.induct)
  case (1 n)
  show ?case
  proof (cases "n < 10")
    case True
    then have "(of_char (digit_char n) :: nat) \<noteq> of_char (CHR ''0'')" using "1.prems" by simp
    then have "digit_char n \<noteq> CHR ''0''" by metis
    with True show ?thesis by (simp add: show_nat.simps)
  next
    case False
    then have "hd (show_nat (n div 10)) \<noteq> CHR ''0''" using "1.IH" by simp
    with False show ?thesis by (subst show_nat.simps) (simp add: hd_append)
  qed
qed

lemma show_nat_no_minus: "hd (show_nat n) \<noteq> CHR ''-''"
proof -
  have "is_digit (hd (show_nat n))"
    using show_nat_digits [of n] by (cases "show_nat n") simp_all
  then show ?thesis by (auto simp: is_digit_def)
qed

lemma show_nat_not_minus: "CHR ''-'' # s \<noteq> show_nat n" "show_nat n \<noteq> CHR ''-'' # s"
  using show_nat_no_minus [of n] by (metis list.sel(1))+

lemma show_int_inject [simp]: "show_int i = show_int j \<longleftrightarrow> i = j"
  by (auto simp: show_int_def show_nat_not_minus)

section \<open>Hexadecimal\<close>

definition hex_digit :: "nat \<Rightarrow> char" where
  "hex_digit n = (if n < 10 then char_of (48 + n) else char_of (87 + n))"

definition hex_byte :: "char \<Rightarrow> bytes" where
  "hex_byte c = [hex_digit (of_char c div 16), hex_digit (of_char c mod 16)]"

text \<open>\<open>hex::encode\<close>, and \<open>to_hex\<close> of a BLAKE3 digest: two lower-case digits per byte.\<close>

definition hex_encode :: "bytes \<Rightarrow> bytes" where
  "hex_encode s = concat (map hex_byte s)"

definition is_hex_digit :: "char \<Rightarrow> bool" where
  "is_hex_digit c \<longleftrightarrow> 48 \<le> (of_char c :: nat) \<and> (of_char c :: nat) \<le> 57 \<or>
     97 \<le> (of_char c :: nat) \<and> (of_char c :: nat) \<le> 102"

lemma hex_digit_inject: "m < 16 \<Longrightarrow> n < 16 \<Longrightarrow> hex_digit m = hex_digit n \<longleftrightarrow> m = n"
proof -
  assume mn: "m < 16" "n < 16"
  have "(of_char (hex_digit k) :: nat) = (if k < 10 then 48 + k else 87 + k)" if "k < 16" for k
    using that by (simp add: hex_digit_def)
  note val = this [OF mn(1)] this [OF mn(2)]
  show ?thesis
  proof
    assume "hex_digit m = hex_digit n"
    then have "(of_char (hex_digit m) :: nat) = of_char (hex_digit n)" by simp
    then show "m = n" using val mn by (simp split: if_splits)
  qed simp
qed

lemma is_hex_digit_hex: "n < 16 \<Longrightarrow> is_hex_digit (hex_digit n)"
  by (auto simp: is_hex_digit_def hex_digit_def)

lemma of_char_div16 [simp]: "(of_char c :: nat) div 16 < 16" "(of_char c :: nat) mod 16 < 16"
  using nat_of_char_less_256 [of c] by (simp_all del: nat_of_char_less_256)

interpretation hex: prefix_code hex_byte "\<lambda>_. True"
proof
  fix x y :: char and s t
  assume "hex_byte x @ s = hex_byte y @ t"
  then have "(of_char x :: nat) div 16 = of_char y div 16 \<and> (of_char x :: nat) mod 16 = of_char y mod 16"
    and "s = t"
    by (auto simp: hex_byte_def hex_digit_inject)
  moreover from this(1) have "(of_char x :: nat) = of_char y" by (metis div_mult_mod_eq)
  ultimately show "x = y \<and> s = t" by simp
qed (simp add: hex_byte_def)

lemma hex_encode_inject [simp]: "hex_encode s = hex_encode t \<longleftrightarrow> s = t"
  unfolding hex_encode_def using hex.concat_map_inject [of s t] by (auto simp: list_all_iff)

lemma length_hex_encode [simp]: "length (hex_encode s) = 2 * length s"
  by (induction s) (simp_all add: hex_encode_def hex_byte_def)

lemma hex_encode_digits: "c \<in> set (hex_encode s) \<Longrightarrow> is_hex_digit c"
  by (auto simp: hex_encode_def hex_byte_def intro: is_hex_digit_hex)

text \<open>\<open>hex::decode\<close>: an even number of hexadecimal digits of either case.\<close>

definition hex_value :: "char \<Rightarrow> nat option" where
  "hex_value c =
     (let n = of_char c :: nat in
      if 48 \<le> n \<and> n \<le> 57 then Some (n - 48)
      else if 97 \<le> n \<and> n \<le> 102 then Some (n - 87)
      else if 65 \<le> n \<and> n \<le> 70 then Some (n - 55)
      else None)"

fun hex_decode :: "bytes \<Rightarrow> bytes option" where
  "hex_decode [] = Some []"
| "hex_decode [c] = None"
| "hex_decode (c # d # s) =
     (case (hex_value c, hex_value d, hex_decode s) of
        (Some h, Some l, Some r) \<Rightarrow> Some (char_of (16 * h + l) # r)
      | _ \<Rightarrow> None)"

lemma hex_value_digit: "n < 16 \<Longrightarrow> hex_value (hex_digit n) = Some n"
  by (simp add: hex_value_def hex_digit_def Let_def)

lemma hex_decode_encode [simp]: "hex_decode (hex_encode s) = Some s"
proof (induction s)
  case (Cons c s)
  have "char_of (16 * ((of_char c :: nat) div 16) + of_char c mod 16) = c"
    by (simp only: mult_div_mod_eq) simp
  with Cons show ?case by (simp add: hex_encode_def hex_byte_def hex_value_digit)
qed (simp add: hex_encode_def)

text \<open>Printable ASCII without spaces is left alone by \<open>trim\<close>; lower-case digits are what encoding gives.\<close>

definition visible :: "char \<Rightarrow> bool" where
  "visible c \<longleftrightarrow> 33 \<le> (of_char c :: nat) \<and> (of_char c :: nat) < 127"

lemma utf8_pieces_visible: "list_all visible s \<Longrightarrow> utf8_pieces s = map (\<lambda>c. [c]) s"
  by (induction s) (simp_all add: visible_def Let_def)

lemma trim_is_empty_visible: "visible c \<Longrightarrow> \<not> trim_is_empty [c]"
  by (auto simp: trim_is_empty_def visible_def is_whitespace_def Let_def)

lemma dropWhile_none: "list_all (\<lambda>x. \<not> P x) xs \<Longrightarrow> dropWhile P xs = xs"
  by (cases xs) simp_all

lemma trim_visible:
  assumes "list_all visible s"
  shows "trim s = s"
proof -
  have none: "list_all (\<lambda>x. \<not> trim_is_empty x) (map (\<lambda>c. [c]) s)" "list_all (\<lambda>x. \<not> trim_is_empty x) (rev (map (\<lambda>c. [c]) s))"
    using assms trim_is_empty_visible by (auto simp: list_all_iff)
  show ?thesis
    unfolding trim_def utf8_pieces_visible [OF assms] dropWhile_none [OF none(1)] dropWhile_none [OF none(2)] by simp
qed

lemma hex_encode_of_decode:
  "list_all is_hex_digit s \<Longrightarrow> hex_decode s = Some bs \<Longrightarrow> hex_encode bs = s"
proof (induction s arbitrary: bs rule: hex_decode.induct)
  case (3 c d s)
  obtain h l r where v: "hex_value c = Some h" "hex_value d = Some l" "hex_decode s = Some r"
      and bs: "bs = char_of (16 * h + l) # r"
    using 3(3) by (auto split: option.splits)
  have digit: "k < 16 \<and> hex_digit k = x" if "is_hex_digit x" "hex_value x = Some k" for x k
    using that by (auto simp: is_hex_digit_def hex_value_def hex_digit_def Let_def split: if_splits)
  have hl: "h < 16" "hex_digit h = c" "l < 16" "hex_digit l = d" using digit 3(2) v by auto
  have "(of_char (char_of (16 * h + l) :: char) :: nat) = 16 * h + l" using hl by (simp add: mod_less)
  then have "hex_byte (char_of (16 * h + l)) = [c, d]" using hl by (simp add: hex_byte_def)
  moreover have "hex_encode r = s" using 3 v by simp
  ultimately show ?case by (simp add: bs hex_encode_def)
qed (simp_all add: hex_encode_def)

lemma hex_encode_Nil [simp]: "hex_encode s = [] \<longleftrightarrow> s = []"
  using length_hex_encode [of s] by (cases s) (auto simp del: length_hex_encode)

end
