(* ===== verification/Btree.thy ===== *)
theory Btree
  imports Prelude
begin

text \<open>
  Rust's \<open>BTreeMap<String, V>\<close>: an association list in strictly ascending key order
  (\<open>btree_ok\<close>), which is also the order of its iterators. The order on keys is the byte-wise
  lexicographic one.
\<close>

type_synonym 'v btree = "(bytes \<times> 'v) list"

definition btree_ok :: "'v btree \<Rightarrow> bool" where
  "btree_ok m \<longleftrightarrow> sorted_wrt (<) (map fst m)"

definition keys :: "'v btree \<Rightarrow> bytes list" where
  "keys m = map fst m"

definition contains_key :: "'v btree \<Rightarrow> bytes \<Rightarrow> bool" where
  "contains_key m k \<longleftrightarrow> map_of m k \<noteq> None"

fun btree_insert :: "bytes \<Rightarrow> 'v \<Rightarrow> 'v btree \<Rightarrow> 'v btree" where
  "btree_insert k v [] = [(k, v)]"
| "btree_insert k v ((k', v') # m) =
     (if k < k' then (k, v) # (k', v') # m
      else if k = k' then (k, v) # m
      else (k', v') # btree_insert k v m)"

lemma map_of_btree_insert: "map_of (btree_insert k v m) = (map_of m)(k \<mapsto> v)"
  by (induction m) (auto simp: fun_eq_iff)

lemma keys_btree_insert: "set (map fst (btree_insert k v m)) = insert k (set (map fst m))"
proof (induction m)
  case (Cons x m)
  then show ?case by (cases x) auto
qed simp

lemma btree_ok_insert: "btree_ok m \<Longrightarrow> btree_ok (btree_insert k v m)"
proof (induction m)
  case (Cons x m)
  obtain k' v' where x: "x = (k', v')" by (cases x)
  from Cons have m: "btree_ok m" "\<forall>y\<in>set (map fst m). k' < y" by (auto simp: x btree_ok_def)
  show ?case
  proof (cases "k < k'")
    case True
    with Cons.prems show ?thesis by (auto simp: x btree_ok_def)
  next
    case False
    then have "k = k' \<or> k' < k" by auto
    moreover have "\<forall>y\<in>set (map fst (btree_insert k v m)). k' < y" if "k' < k"
      using m(2) that unfolding keys_btree_insert by simp
    ultimately show ?thesis
      using Cons False m by (auto simp: x btree_ok_def)
  qed
qed (simp add: btree_ok_def)

lemma map_of_rev_distinct: "distinct (map fst xs) \<Longrightarrow> map_of (rev xs) = map_of xs"
  by (subst map_of_inject_set) (simp_all add: rev_map [symmetric])

end
