(* ===== verification/Hashing.thy ===== *)
theory Hashing
  imports Text Btree
begin

text \<open>
  The manifest encoding of \<open>src/hashing.rs\<close>: labelled fields, the manifest of a step's
  declared inputs or outputs, and the confinement of paths and symbolic links to the
  workspace.

  BLAKE3 is the parameter \<open>blake3\<close>. The file system is a parameter too (\<open>fs\<close>), a snapshot
  of the answers of the operating system and of the \<open>walkdir\<close> crate. A path is the list of
  its components, as \<open>Path::components\<close> gives it: equality and \<open>starts_with\<close> of Rust's
  \<open>Path\<close> compare components.
\<close>

section \<open>Fields\<close>

definition to_hex :: "digest \<Rightarrow> bytes" where
  "to_hex h = hex_encode (digest_bytes h)"

text \<open>The bytes \<open>hash_field\<close> feeds to the hasher.\<close>

definition hash_field :: "bytes \<times> bytes \<Rightarrow> bytes" where
  "hash_field = (\<lambda>(label, value).
     show_nat (length label) @ '':'' @ label @ '':'' @ show_nat (length value) @ '':'' @ value @ [CHR 0x0A])"

section \<open>Paths\<close>

datatype component = RootDir | CurDir | ParentDir | Normal bytes

type_synonym path = "component list"

definition component_of :: "bytes \<Rightarrow> component" where
  "component_of s = (if s = ''.'' then CurDir else if s = ''..'' then ParentDir else Normal s)"

text \<open>\<open>Path::components\<close>: a leading \<open>/\<close> is the root, repeated separators and inner \<open>.\<close>
  disappear, a leading \<open>.\<close> of a relative path stays.\<close>

definition components :: "bytes \<Rightarrow> path" where
  "components s =
     (let parts = map component_of (filter (\<lambda>p. p \<noteq> []) (split_on (CHR ''/'') s)) in
      if starts_with s ''/'' then RootDir # filter (\<lambda>c. c \<noteq> CurDir) parts
      else (case parts of
              [] \<Rightarrow> []
            | c # cs \<Rightarrow> c # filter (\<lambda>c. c \<noteq> CurDir) cs))"

definition path_is_absolute :: "path \<Rightarrow> bool" where
  "path_is_absolute p = (case p of RootDir # _ \<Rightarrow> True | _ \<Rightarrow> False)"

definition path_join :: "path \<Rightarrow> path \<Rightarrow> path" where
  "path_join p q = (if path_is_absolute q then q else if p = [] then q
                    else p @ filter (\<lambda>c. c \<noteq> CurDir) q)"

definition path_starts_with :: "path \<Rightarrow> path \<Rightarrow> bool" where
  "path_starts_with p root = (take (length root) p = root)"

text \<open>\<open>Path::parent\<close> is \<open>None\<close> of an empty path and of the root.\<close>

definition path_parent :: "path \<Rightarrow> path option" where
  "path_parent p = (if p = [] \<or> last p = RootDir then None else Some (butlast p))"

definition path_pop :: "path \<Rightarrow> path" where
  "path_pop p = (case path_parent p of None \<Rightarrow> p | Some q \<Rightarrow> q)"

definition path_push :: "path \<Rightarrow> component \<Rightarrow> path" where
  "path_push p c = (if c = RootDir then [RootDir] else p @ [c])"

definition lexical_normalize :: "path \<Rightarrow> path" where
  "lexical_normalize p =
     foldl (\<lambda>out c. case c of CurDir \<Rightarrow> out | ParentDir \<Rightarrow> path_pop out | _ \<Rightarrow> path_push out c) [] p"

section \<open>The file system\<close>

datatype file_type = IsDir | IsSymlink | IsFile

record fs =
  symlink_metadata :: "path \<Rightarrow> file_type option"
  read_link :: "path \<Rightarrow> bytes option"
  read_file :: "path \<Rightarrow> bytes option"
  walk_dir :: "path \<Rightarrow> (path option, path \<times> file_type) result list"

section \<open>Manifests\<close>

definition MANIFEST_HEADER :: bytes where "MANIFEST_HEADER = ''attest-manifest/v1''"

datatype manifest_kind = Input | Output

datatype hashing_error =
    MissingInput bytes path
  | MissingOutput bytes path
  | SymlinkEscape path bytes
  | SymlinkUndeclared path bytes
  | OutsideWorkspace path
  | NotUtf8 path
  | ControlCharacter path code_point
  | NonNormalComponents path
  | Io path

fun relative_parts :: "path \<Rightarrow> path \<Rightarrow> (hashing_error, bytes list) result" where
  "relative_parts abs_path [] = Inr []"
| "relative_parts abs_path (Normal part # rel) =
     ensure (is_utf8 part) (NotUtf8 abs_path) (
     (case find is_control (utf8_chars part) of
        Some bad \<Rightarrow> Inl (ControlCharacter abs_path bad)
      | None \<Rightarrow> and_then (relative_parts abs_path rel) (\<lambda>parts. Inr (part # parts))))"
| "relative_parts abs_path (_ # rel) = Inl (NonNormalComponents abs_path)"

definition normalize_relative :: "path \<Rightarrow> path \<Rightarrow> (hashing_error, bytes) result" where
  "normalize_relative workspace abs_path =
     (let normalized_abs = lexical_normalize abs_path in
      ensure (path_starts_with normalized_abs workspace) (OutsideWorkspace abs_path) (
      and_then (relative_parts abs_path (drop (length workspace) normalized_abs)) (\<lambda>parts.
      Inr (join ''/'' parts))))"

definition check_symlink_containment ::
  "path \<Rightarrow> path \<Rightarrow> bytes \<Rightarrow> (hashing_error, path) result" where
  "check_symlink_containment workspace link target =
     (let resolved =
        (if path_is_absolute (components target) then lexical_normalize (components target)
         else lexical_normalize
           (path_join (case path_parent link of None \<Rightarrow> workspace | Some p \<Rightarrow> p) (components target)))
      in ensure (path_starts_with resolved workspace) (SymlinkEscape link target) (Inr resolved))"

definition hash_file_streaming ::
  "(bytes \<Rightarrow> digest) \<Rightarrow> fs \<Rightarrow> path \<Rightarrow> (hashing_error, bytes) result" where
  "hash_file_streaming blake3 f p =
     and_then (ok_or (read_file f p) (Io p)) (\<lambda>content. Inr (to_hex (blake3 content)))"

definition entry_line ::
  "(bytes \<Rightarrow> digest) \<Rightarrow> fs \<Rightarrow> path \<Rightarrow> path \<Rightarrow> path list \<Rightarrow> file_type \<Rightarrow> (hashing_error, bytes) result" where
  "entry_line blake3 f workspace abs_path declared meta =
     (if meta = IsSymlink then
        and_then (ok_or (read_link f abs_path) (Io abs_path)) (\<lambda>target.
        ensure (is_utf8 target) (NotUtf8 abs_path) (
        and_then (check_symlink_containment workspace abs_path target) (\<lambda>resolved.
        ensure (list_ex (\<lambda>d. path_starts_with resolved (lexical_normalize (path_join workspace d))) declared)
          (SymlinkUndeclared abs_path target) (
        Inr (''l:'' @ to_hex (blake3 target))))))
      else
        and_then (hash_file_streaming blake3 f abs_path) (\<lambda>hex. Inr (''f:'' @ hex)))"

definition add_entry ::
  "(bytes \<Rightarrow> digest) \<Rightarrow> fs \<Rightarrow> path \<Rightarrow> path \<Rightarrow> path list \<Rightarrow> bytes btree \<Rightarrow> (hashing_error, bytes btree) result" where
  "add_entry blake3 f workspace abs_path declared entries =
     and_then (normalize_relative workspace abs_path) (\<lambda>normalized.
     and_then (ok_or (symlink_metadata f abs_path) (Io abs_path)) (\<lambda>meta.
     and_then (entry_line blake3 f workspace abs_path declared meta) (\<lambda>line.
     Inr (btree_insert normalized line entries))))"

fun walk_entries ::
  "(bytes \<Rightarrow> digest) \<Rightarrow> fs \<Rightarrow> path \<Rightarrow> path \<Rightarrow> path list
    \<Rightarrow> (path option, path \<times> file_type) result list \<Rightarrow> bytes btree \<Rightarrow> (hashing_error, bytes btree) result" where
  "walk_entries blake3 f workspace abs_path declared [] entries = Inr entries"
| "walk_entries blake3 f workspace abs_path declared (Inl e # walker) entries =
     Inl (Io (case e of None \<Rightarrow> abs_path | Some err_path \<Rightarrow> err_path))"
| "walk_entries blake3 f workspace abs_path declared (Inr (p, t) # walker) entries =
     (if t = IsDir then walk_entries blake3 f workspace abs_path declared walker entries
      else and_then (add_entry blake3 f workspace p declared entries)
             (walk_entries blake3 f workspace abs_path declared walker))"

fun collect_paths ::
  "(bytes \<Rightarrow> digest) \<Rightarrow> fs \<Rightarrow> path \<Rightarrow> bytes \<Rightarrow> manifest_kind \<Rightarrow> path list \<Rightarrow> path list
    \<Rightarrow> bytes btree \<Rightarrow> (hashing_error, bytes btree) result" where
  "collect_paths blake3 f workspace step kind declared [] entries = Inr entries"
| "collect_paths blake3 f workspace step kind declared (p # ps) entries =
     (let abs_path = path_join workspace p in
      (case symlink_metadata f abs_path of
         None \<Rightarrow> Inl (case kind of Input \<Rightarrow> MissingInput step p | Output \<Rightarrow> MissingOutput step p)
       | Some meta \<Rightarrow>
           and_then (if meta = IsDir
                     then walk_entries blake3 f workspace abs_path declared (walk_dir f abs_path) entries
                     else add_entry blake3 f workspace abs_path declared entries)
             (collect_paths blake3 f workspace step kind declared ps)))"

definition collect_entries ::
  "(bytes \<Rightarrow> digest) \<Rightarrow> fs \<Rightarrow> path \<Rightarrow> bytes \<Rightarrow> path list \<Rightarrow> manifest_kind
    \<Rightarrow> (hashing_error, bytes btree) result" where
  "collect_entries blake3 f workspace step declared kind =
     collect_paths blake3 f (lexical_normalize workspace) step kind declared declared []"

definition push_entry :: "bytes \<Rightarrow> bytes \<Rightarrow> bytes \<Rightarrow> bytes" where
  "push_entry manifest line p = manifest @ line @ '' '' @ p @ [CHR 0x0A]"

definition input_manifest ::
  "(bytes \<Rightarrow> digest) \<Rightarrow> fs \<Rightarrow> path \<Rightarrow> bytes \<Rightarrow> bytes \<Rightarrow> path list \<Rightarrow> (hashing_error, bytes) result" where
  "input_manifest blake3 f workspace step run inputs =
     and_then (collect_entries blake3 f workspace step inputs Input) (\<lambda>entries.
     let run_hash = to_hex (blake3 run);
         manifest = MANIFEST_HEADER @ [CHR 0x0A] @ ''run:'' @ run_hash @ [CHR 0x0A]
     in Inr (foldl (\<lambda>m (p, line). push_entry m line p) manifest entries))"

definition output_manifest ::
  "(bytes \<Rightarrow> digest) \<Rightarrow> fs \<Rightarrow> path \<Rightarrow> bytes \<Rightarrow> path list \<Rightarrow> (hashing_error, bytes) result" where
  "output_manifest blake3 f workspace step outputs =
     and_then (collect_entries blake3 f workspace step outputs Output) (\<lambda>entries.
     Inr (foldl (\<lambda>m (p, line). push_entry m line p) (MANIFEST_HEADER @ [CHR 0x0A]) entries))"

definition hash_inputs ::
  "(bytes \<Rightarrow> digest) \<Rightarrow> fs \<Rightarrow> path \<Rightarrow> bytes \<Rightarrow> bytes \<Rightarrow> path list \<Rightarrow> (hashing_error, bytes) result" where
  "hash_inputs blake3 f workspace step run inputs =
     and_then (input_manifest blake3 f workspace step run inputs) (\<lambda>manifest.
     Inr (to_hex (blake3 manifest)))"

definition hash_outputs ::
  "(bytes \<Rightarrow> digest) \<Rightarrow> fs \<Rightarrow> path \<Rightarrow> bytes \<Rightarrow> path list \<Rightarrow> (hashing_error, bytes) result" where
  "hash_outputs blake3 f workspace step outputs =
     and_then (output_manifest blake3 f workspace step outputs) (\<lambda>manifest.
     Inr (to_hex (blake3 manifest)))"

record artifact_info =
  artifact_step :: bytes
  artifact_path :: bytes
  artifact_kind :: bytes
  artifact_digest :: bytes
  artifact_algorithm :: bytes

definition artifact_of :: "bytes \<Rightarrow> bytes \<times> bytes \<Rightarrow> artifact_info" where
  "artifact_of step = (\<lambda>(p, line).
     \<lparr>artifact_step = step, artifact_path = p,
      artifact_kind = (if starts_with line ''l:'' then ''symlink'' else ''file''),
      artifact_digest = drop 2 line, artifact_algorithm = ''blake3''\<rparr>)"

definition outputs_with_artifacts ::
  "(bytes \<Rightarrow> digest) \<Rightarrow> fs \<Rightarrow> path \<Rightarrow> bytes \<Rightarrow> path list
    \<Rightarrow> (hashing_error, bytes \<times> artifact_info list) result" where
  "outputs_with_artifacts blake3 f workspace step outputs =
     and_then (collect_entries blake3 f workspace step outputs Output) (\<lambda>entries.
     Inr (to_hex (blake3 (foldl (\<lambda>m (p, line). push_entry m line p) (MANIFEST_HEADER @ [CHR 0x0A]) entries)),
          map (artifact_of step) entries))"

section \<open>The encodings are injective\<close>

lemma hash_field_prefix_free:
  assumes "hash_field x @ s = hash_field y @ t"
  shows "x = y \<and> s = t"
proof -
  obtain l v l' v' where [simp]: "x = (l, v)" "y = (l', v')" by (cases x, cases y) auto
  from assms have "length l = length l'" and
    "l @ CHR '':'' # show_nat (length v) @ CHR '':'' # v @ CHR 0x0A # s =
     l' @ CHR '':'' # show_nat (length v') @ CHR '':'' # v' @ CHR 0x0A # t"
    by (simp_all add: hash_field_def delimited_eq)
  then have l: "l = l'" and "show_nat (length v) @ CHR '':'' # v @ CHR 0x0A # s =
      show_nat (length v') @ CHR '':'' # v' @ CHR 0x0A # t"
    by simp_all
  then have "length v = length v'" and "v @ CHR 0x0A # s = v' @ CHR 0x0A # t"
    by (simp_all add: delimited_eq)
  with l show ?thesis by simp
qed

interpretation field: prefix_code hash_field "\<lambda>_. True"
  by unfold_locales (rule hash_field_prefix_free, auto simp: hash_field_def)

definition entry_bytes :: "bytes \<times> bytes \<Rightarrow> bytes" where
  "entry_bytes = (\<lambda>(p, line). line @ '' '' @ p @ [CHR 0x0A])"

definition entry_ok :: "bytes \<times> bytes \<Rightarrow> bool" where
  "entry_ok = (\<lambda>(p, line). length line = 66 \<and> CHR 0x0A \<notin> set p)"

interpretation entry: prefix_code entry_bytes entry_ok
proof
  fix x y :: "bytes \<times> bytes" and s t
  assume "entry_ok x" "entry_ok y" and eq: "entry_bytes x @ s = entry_bytes y @ t"
  moreover obtain p l q m where "x = (p, l)" "y = (q, m)" by (cases x, cases y) auto
  ultimately show "x = y \<and> s = t"
    by (auto simp: entry_ok_def entry_bytes_def delimited_eq)
qed (auto simp: entry_bytes_def)

lemma foldl_push_entry:
  "foldl (\<lambda>m (p, line). push_entry m line p) m es = m @ concat (map entry_bytes es)"
  by (induction es arbitrary: m) (auto simp: push_entry_def entry_bytes_def)

lemma length_to_hex [simp]: "length (to_hex h) = 64"
  by (simp add: to_hex_def)

lemma to_hex_inject [simp]: "to_hex h = to_hex h' \<longleftrightarrow> h = h'"
  by (simp add: to_hex_def)

section \<open>What the entries hold\<close>

datatype content = FileContent bytes | LinkTarget bytes

definition content_at :: "fs \<Rightarrow> path \<Rightarrow> content option" where
  "content_at f p = (if symlink_metadata f p = Some IsSymlink
     then map_option LinkTarget (read_link f p) else map_option FileContent (read_file f p))"

fun content_line :: "(bytes \<Rightarrow> digest) \<Rightarrow> content \<Rightarrow> bytes" where
  "content_line blake3 (FileContent s) = ''f:'' @ to_hex (blake3 s)"
| "content_line blake3 (LinkTarget s) = ''l:'' @ to_hex (blake3 s)"

text \<open>A link is confined when it resolves, lexically, into the workspace and under a declared
  path.\<close>

definition link_confined :: "path \<Rightarrow> path list \<Rightarrow> path \<Rightarrow> bytes \<Rightarrow> bool" where
  "link_confined ws declared link target \<longleftrightarrow>
     (\<exists>resolved. check_symlink_containment ws link target = Inr resolved \<and>
        path_starts_with resolved ws \<and>
        (\<exists>d\<in>set declared. path_starts_with resolved (lexical_normalize (path_join ws d))))"

definition entry_source ::
  "(bytes \<Rightarrow> digest) \<Rightarrow> fs \<Rightarrow> path \<Rightarrow> path list \<Rightarrow> bytes \<times> bytes \<Rightarrow> path \<Rightarrow> content \<Rightarrow> bool" where
  "entry_source blake3 f ws declared = (\<lambda>(p, line) src c.
     normalize_relative ws src = Inr p \<and> content_at f src = Some c \<and>
     line = content_line blake3 c \<and>
     (case c of LinkTarget target \<Rightarrow> link_confined ws declared src target | _ \<Rightarrow> True))"

lemma entry_line_source:
  assumes "entry_line blake3 f ws src declared meta = Inr line" "symlink_metadata f src = Some meta"
  shows "\<exists>c. content_at f src = Some c \<and> line = content_line blake3 c \<and>
     (case c of LinkTarget target \<Rightarrow> link_confined ws declared src target | _ \<Rightarrow> True)"
  using assms
  by (auto simp: entry_line_def content_at_def hash_file_streaming_def link_confined_def
      check_symlink_containment_def Let_def result_simps list_ex_iff split: if_splits)

lemma add_entry_source:
  assumes "add_entry blake3 f ws src declared es = Inr es'"
  shows "\<exists>p line c. es' = btree_insert p line es \<and> entry_source blake3 f ws declared (p, line) src c"
  using assms entry_line_source [of blake3 f ws src declared]
  by (fastforce simp: add_entry_def result_simps entry_source_def)

definition entries_ok :: "(bytes \<Rightarrow> digest) \<Rightarrow> fs \<Rightarrow> path \<Rightarrow> path list \<Rightarrow> bytes btree \<Rightarrow> bool" where
  "entries_ok blake3 f ws declared es \<longleftrightarrow> btree_ok es \<and>
     (\<forall>e\<in>set es. \<exists>src c. entry_source blake3 f ws declared e src c)"

lemma set_btree_insert: "e \<in> set (btree_insert k v m) \<Longrightarrow> e = (k, v) \<or> e \<in> set m"
proof (induction m)
  case (Cons x m)
  then show ?case by (cases x) (auto split: if_splits)
qed simp

lemma add_entry_ok:
  "entries_ok blake3 f ws declared es \<Longrightarrow> add_entry blake3 f ws src declared es = Inr es' \<Longrightarrow>
   entries_ok blake3 f ws declared es'"
  unfolding entries_ok_def by (auto dest!: add_entry_source set_btree_insert simp: btree_ok_insert)

lemma walk_entries_ok:
  "entries_ok blake3 f ws declared es \<Longrightarrow>
   walk_entries blake3 f ws abs_path declared walker es = Inr es' \<Longrightarrow>
   entries_ok blake3 f ws declared es'"
proof (induction walker arbitrary: es)
  case (Cons w walker)
  show ?case
  proof (cases w)
    case (Inr q)
    then show ?thesis
      using Cons add_entry_ok [OF Cons.prems(1), of "fst q"]
      by (cases q) (auto simp: result_simps split: if_splits)
  qed (use Cons.prems in simp)
qed simp

lemma collect_paths_ok:
  "entries_ok blake3 f ws declared es \<Longrightarrow>
   collect_paths blake3 f ws step kind declared ps es = Inr es' \<Longrightarrow>
   entries_ok blake3 f ws declared es'"
proof (induction ps arbitrary: es)
  case (Cons p ps)
  then show ?case
    by (auto simp: result_simps Let_def split: option.splits if_splits
        dest: add_entry_ok walk_entries_ok)
qed simp

lemma collect_entries_ok:
  "collect_entries blake3 f ws step declared kind = Inr es \<Longrightarrow>
   entries_ok blake3 f (lexical_normalize ws) declared es"
  unfolding collect_entries_def
  by (rule collect_paths_ok) (simp_all add: entries_ok_def btree_ok_def)

lemma relative_parts_normal:
  "relative_parts a rel = Inr parts \<Longrightarrow>
   rel = map Normal parts \<and> list_all (\<lambda>s. is_utf8 s \<and> list_all (\<lambda>c. \<not> is_control c) (utf8_chars s)) parts"
proof (induction rel arbitrary: parts)
  case (Cons c rel)
  then show ?case
    by (cases c) (auto simp: result_simps find_None_iff list_all_iff split: option.splits)
qed simp

lemma newline_free:
  "is_utf8 s \<Longrightarrow> list_all (\<lambda>c. \<not> is_control c) (utf8_chars s) \<Longrightarrow> CHR 0x0A \<notin> set s"
proof
  assume s: "is_utf8 s" "list_all (\<lambda>c. \<not> is_control c) (utf8_chars s)" "CHR 0x0A \<in> set s"
  then have "(10 :: nat) \<in> set (utf8_chars s)" using ascii_is_char [of s "CHR 0x0A"] by simp
  then have "\<not> is_control 10" using s(2) unfolding list_all_iff by (rule bspec [rotated])
  then show False by (simp add: is_control_def)
qed

lemma set_join: "set (join sep xs) \<subseteq> set sep \<union> \<Union> (set ` set xs)"
  by (induction sep xs rule: join.induct) auto

lemma normalize_relative_normal:
  assumes "normalize_relative ws src = Inr p"
  shows "\<exists>parts. lexical_normalize src = ws @ map Normal parts \<and> p = join ''/'' parts \<and>
    CHR 0x0A \<notin> set p"
proof -
  obtain parts where parts: "path_starts_with (lexical_normalize src) ws"
    "relative_parts src (drop (length ws) (lexical_normalize src)) = Inr parts" "p = join ''/'' parts"
    using assms by (auto simp: normalize_relative_def Let_def result_simps)
  note rel = relative_parts_normal [OF parts(2)]
  have "lexical_normalize src = ws @ map Normal parts"
    using parts(1) rel by (metis append_take_drop_id path_starts_with_def)
  moreover have "CHR 0x0A \<notin> set p"
    using set_join [of "''/''" parts] rel parts(3) newline_free by (fastforce simp: list_all_iff)
  ultimately show ?thesis using parts(3) by blast
qed

lemma entry_source_ok: "entry_source blake3 f ws declared e src c \<Longrightarrow> entry_ok e"
  by (cases e; cases c) (auto simp: entry_source_def entry_ok_def dest: normalize_relative_normal)

lemma collect_entries_source:
  "collect_entries blake3 f ws step declared kind = Inr es \<Longrightarrow> e \<in> set es \<Longrightarrow>
   \<exists>src c. entry_source blake3 f (lexical_normalize ws) declared e src c"
  using collect_entries_ok [of blake3 f ws step declared kind es] unfolding entries_ok_def by blast

lemma entries_ok_encode: "entries_ok blake3 f ws declared es \<Longrightarrow> list_all entry_ok es"
  by (auto simp: entries_ok_def list_all_iff dest: entry_source_ok)

section \<open>Properties\<close>

text \<open>
  The field encoding is injective: two sequences of labelled fields that feed the same
  bytes to a hasher are the same sequence, whatever labels and values contain.
\<close>

theorem hash_field_injective:
  "concat (map hash_field xs) = concat (map hash_field ys) \<longleftrightarrow> xs = ys"
  using field.concat_map_inject [of xs ys] by (auto simp: list_all_iff)

text \<open>The strings of a snapshot that BLAKE3 may be applied to.\<close>

definition fs_strings :: "fs \<Rightarrow> bytes set" where
  "fs_strings f = ran (read_file f) \<union> ran (read_link f)"

lemma content_line_inject:
  assumes "content_line blake3 c = content_line blake3 c'" "content_at f p = Some c"
    "content_at f' p' = Some c'" "inj_on blake3 S" "fs_strings f \<union> fs_strings f' \<subseteq> S"
  shows "c = c'"
proof -
  have "\<And>s. c = FileContent s \<or> c = LinkTarget s \<Longrightarrow> s \<in> S"
    "\<And>s. c' = FileContent s \<or> c' = LinkTarget s \<Longrightarrow> s \<in> S"
    using assms(2,3,5) by (auto simp: content_at_def fs_strings_def ran_def split: if_splits)
  with assms(1,4) show ?thesis
    by (cases c; cases c') (auto dest: inj_onD)
qed

text \<open>
  C18. The input hash binds what it covers. When two runs have the same input hash, they ran
  the same command on the same declared tree: the manifests list the same paths, and at
  each path both workspaces hold a regular file with the same content or a link with the
  same target. The only way out is a BLAKE3 collision among the two commands, the two
  manifests and the contents of the two workspaces.
\<close>

theorem hash_inputs_binding:
  assumes h1: "hash_inputs blake3 f ws step run inputs = Inr h"
    and h2: "hash_inputs blake3 f' ws' step' run' inputs' = Inr h"
    and no_collision: "inj_on blake3 ({run, run'} \<union> {m. input_manifest blake3 f ws step run inputs = Inr m \<or>
      input_manifest blake3 f' ws' step' run' inputs' = Inr m} \<union> fs_strings f \<union> fs_strings f')"
  shows "run = run' \<and> (\<exists>es. collect_entries blake3 f ws step inputs Input = Inr es \<and>
    collect_entries blake3 f' ws' step' inputs' Input = Inr es \<and>
    (\<forall>p\<in>set (keys es). \<exists>src src' c. content_at f src = Some c \<and> content_at f' src' = Some c \<and>
       normalize_relative (lexical_normalize ws) src = Inr p \<and>
       normalize_relative (lexical_normalize ws') src' = Inr p))"
proof -
  let ?S = "{run, run'} \<union> {m. input_manifest blake3 f ws step run inputs = Inr m \<or>
      input_manifest blake3 f' ws' step' run' inputs' = Inr m} \<union> fs_strings f \<union> fs_strings f'"
  obtain m m' where m: "input_manifest blake3 f ws step run inputs = Inr m" "h = to_hex (blake3 m)"
    and m': "input_manifest blake3 f' ws' step' run' inputs' = Inr m'" "h = to_hex (blake3 m')"
    using h1 h2 by (auto simp: hash_inputs_def result_simps)
  then have "m = m'" using inj_onD [OF no_collision, of m m'] by auto
  obtain es es' where es: "collect_entries blake3 f ws step inputs Input = Inr es"
    and es': "collect_entries blake3 f' ws' step' inputs' Input = Inr es'"
    and eq: "to_hex (blake3 run) @ CHR 0x0A # concat (map entry_bytes es) =
      to_hex (blake3 run') @ CHR 0x0A # concat (map entry_bytes es')"
    using m(1) m'(1) \<open>m = m'\<close> by (auto simp: input_manifest_def result_simps Let_def foldl_push_entry)
  note ok = collect_entries_ok [OF es] and ok' = collect_entries_ok [OF es']
  have "blake3 run = blake3 run'" and "concat (map entry_bytes es) = concat (map entry_bytes es')"
    using eq by simp_all
  then have run: "run = run'" and "es = es'"
    using inj_onD [OF no_collision, of run run'] entry.concat_map_inject [of es es']
      entries_ok_encode [OF ok] entries_ok_encode [OF ok'] by auto
  have "\<exists>src src' c. content_at f src = Some c \<and> content_at f' src' = Some c \<and>
       normalize_relative (lexical_normalize ws) src = Inr p \<and>
       normalize_relative (lexical_normalize ws') src' = Inr p" if p: "p \<in> set (keys es)" for p
  proof -
    obtain line where e: "(p, line) \<in> set es" using p by (auto simp: keys_def)
    obtain src c where 1: "entry_source blake3 f (lexical_normalize ws) inputs (p, line) src c"
      using ok e by (auto simp: entries_ok_def)
    obtain src' c' where 2: "entry_source blake3 f' (lexical_normalize ws') inputs' (p, line) src' c'"
      using ok' e \<open>es = es'\<close> by (auto simp: entries_ok_def)
    have "c = c'"
      using 1 2 content_line_inject [OF _ _ _ no_collision, of c c' f src f' src']
      by (auto simp: entry_source_def)
    with 1 2 show ?thesis by (auto simp: entry_source_def)
  qed
  with run es es' \<open>es = es'\<close> show ?thesis by blast
qed

text \<open>A workspace with a file, a link to it and a directory.\<close>

definition example_root :: path where "example_root = [RootDir, Normal ''w'']"

definition example_fs :: fs where
  "example_fs = \<lparr>
     symlink_metadata = (\<lambda>p. if p = example_root @ [Normal ''a''] then Some IsFile
       else if p = example_root @ [Normal ''l''] then Some IsSymlink else None),
     read_link = (\<lambda>p. if p = example_root @ [Normal ''l''] then Some ''a'' else None),
     read_file = (\<lambda>p. if p = example_root @ [Normal ''a''] then Some ''x'' else None),
     walk_dir = (\<lambda>_. [])\<rparr>"

lemma example_components: "components ''a'' = [Normal ''a'']"
  by (simp add: components_def starts_with_def component_of_def)

lemmas hashing_eval = collect_entries_def add_entry_def entry_line_def normalize_relative_def
  lexical_normalize_def path_push_def path_pop_def path_parent_def path_starts_with_def path_join_def
  path_is_absolute_def check_symlink_containment_def hash_file_streaming_def

lemma example_entries:
  "collect_entries digest_of example_fs example_root s [[Normal ''a''], [Normal ''l'']] kind =
   Inr [(''a'', ''f:'' @ to_hex (digest_of ''x'')), (''l'', ''l:'' @ to_hex (digest_of ''a''))]"
  by (simp add: hashing_eval example_root_def example_fs_def example_components Let_def
      is_control_def less_char_def)

lemma example_hash: "\<exists>m h. input_manifest digest_of example_fs example_root s ''make'' [[Normal ''a''], [Normal ''l'']] = Inr m \<and>
   hash_inputs digest_of example_fs example_root s ''make'' [[Normal ''a''], [Normal ''l'']] = Inr h \<and>
   take 6 m = ''attest''"
  unfolding input_manifest_def hash_inputs_def example_entries foldl_push_entry MANIFEST_HEADER_def
  by simp

theorem hash_inputs_binding_witness:
  "\<exists>es. collect_entries digest_of example_fs example_root ''s'' [[Normal ''a''], [Normal ''l'']] Input = Inr es \<and>
    (\<forall>p\<in>set (keys es). \<exists>src c. content_at example_fs src = Some c)"
proof -
  obtain m h where
    m: "input_manifest digest_of example_fs example_root ''s'' ''make'' [[Normal ''a''], [Normal ''l'']] = Inr m"
    "hash_inputs digest_of example_fs example_root ''s'' ''make'' [[Normal ''a''], [Normal ''l'']] = Inr h"
    "take 6 m = ''attest''"
    using example_hash by blast
  have sub: "fs_strings example_fs \<subseteq> {''x'', ''a''}"
    by (auto simp: fs_strings_def example_fs_def ran_def split: if_splits)
  obtain r where r: "m = ''attest'' @ r" using m(3) by (metis append_take_drop_id)
  have fresh: "digest_of m \<noteq> digest_of s" if "s \<in> {''make'', ''x'', ''a''}" for s
  proof
    assume "digest_of m = digest_of s"
    then have "take 2 (take 32 (m @ replicate 32 (CHR 0x00))) = take 2 (take 32 (s @ replicate 32 (CHR 0x00)))"
      by (simp only: digest_of_eq_iff)
    then have "take 2 (m @ replicate 32 (CHR 0x00)) = take 2 (s @ replicate 32 (CHR 0x00))"
      by (simp only: take_take min_def) simp
    then show False using that r by (auto simp: numeral_2_eq_2)
  qed
  have inj: "inj_on digest_of {''make'', ''x'', ''a''}"
    by (simp add: inj_on_def digest_simps)
  have "inj_on digest_of (insert m {''make'', ''x'', ''a''})"
  proof (rule inj_on_insert [THEN iffD2], intro conjI inj notI)
    assume "digest_of m \<in> digest_of ` ({''make'', ''x'', ''a''} - {m})"
    then obtain s where "s \<in> {''make'', ''x'', ''a''}" "digest_of m = digest_of s" by blast
    with fresh show False by blast
  qed
  then have "inj_on digest_of ({''make'', ''make''} \<union>
     {m'. input_manifest digest_of example_fs example_root ''s'' ''make'' [[Normal ''a''], [Normal ''l'']] = Inr m' \<or>
       input_manifest digest_of example_fs example_root ''s'' ''make'' [[Normal ''a''], [Normal ''l'']] = Inr m'} \<union>
     fs_strings example_fs \<union> fs_strings example_fs)"
    by (rule inj_on_subset) (use m(1) sub in auto)
  from hash_inputs_binding [OF m(2) m(2) this] show ?thesis by blast
qed

section \<open>Where entries come from\<close>

text \<open>A source the collection visits: a declared file or link, or what the walk of a declared directory lists, directories apart.\<close>

definition walk_source :: "fs \<Rightarrow> path \<Rightarrow> path list \<Rightarrow> path \<Rightarrow> bool" where
  "walk_source f ws declared src \<longleftrightarrow> (\<exists>d\<in>set declared. let root = path_join ws d in
     (if symlink_metadata f root = Some IsDir then \<exists>t. t \<noteq> IsDir \<and> Inr (src, t) \<in> set (walk_dir f root)
      else symlink_metadata f root \<noteq> None \<and> src = root))"

lemma add_entry_from:
  assumes "add_entry blake3 f ws src declared es = Inr es'" "e \<in> set es'"
  shows "e \<in> set es \<or> (\<exists>c. entry_source blake3 f ws declared e src c)"
  using add_entry_source [OF assms(1)] assms(2) by (auto dest: set_btree_insert)

lemma walk_entries_from:
  "walk_entries blake3 f ws a declared walker es = Inr es' \<Longrightarrow> e \<in> set es' \<Longrightarrow>
   e \<in> set es \<or> (\<exists>src t c. t \<noteq> IsDir \<and> Inr (src, t) \<in> set walker \<and> entry_source blake3 f ws declared e src c)"
proof (induction walker arbitrary: es)
  case (Cons w walker)
  show ?case
  proof (cases w)
    case (Inr q)
    obtain src t where q: "q = (src, t)" by (cases q)
    show ?thesis
    proof (cases "t = IsDir")
      case True
      then have "walk_entries blake3 f ws a declared walker es = Inr es'" using Cons.prems(1) Inr q by simp
      from Cons.IH [OF this Cons.prems(2)] show ?thesis by auto
    next
      case False
      then obtain es1 where "add_entry blake3 f ws src declared es = Inr es1" "walk_entries blake3 f ws a declared walker es1 = Inr es'"
        using Cons.prems Inr q by (auto simp: result_simps)
      from Cons.IH [OF this(2) Cons.prems(2)] show ?thesis
      proof
        assume "e \<in> set es1"
        from add_entry_from [OF \<open>add_entry blake3 f ws src declared es = Inr es1\<close> this] show ?thesis using False Inr q by auto
      qed auto
    qed
  qed (use Cons.prems in simp)
qed simp

lemma collect_paths_from:
  "collect_paths blake3 f ws step kind declared ps es = Inr es' \<Longrightarrow> e \<in> set es' \<Longrightarrow> set ps \<subseteq> set declared \<Longrightarrow>
   e \<in> set es \<or> (\<exists>src c. walk_source f ws declared src \<and> entry_source blake3 f ws declared e src c)"
proof (induction ps arbitrary: es)
  case (Cons p ps)
  let ?root = "path_join ws p"
  obtain meta where meta: "symlink_metadata f ?root = Some meta" using Cons.prems(1) by (auto simp: Let_def split: option.splits)
  then obtain es1 where es1: "(if meta = IsDir then walk_entries blake3 f ws ?root declared (walk_dir f ?root) es
      else add_entry blake3 f ws ?root declared es) = Inr es1" and rest: "collect_paths blake3 f ws step kind declared ps es1 = Inr es'"
    using Cons.prems(1) by (auto simp: Let_def result_simps)
  have "e \<in> set es \<or> (\<exists>src c. walk_source f ws declared src \<and> entry_source blake3 f ws declared e src c)" if e: "e \<in> set es1"
  proof (cases "meta = IsDir")
    case True
    then show ?thesis using walk_entries_from [of blake3 f ws ?root declared "walk_dir f ?root" es es1 e] es1 e meta Cons.prems(3)
      by (fastforce simp: walk_source_def)
  next
    case False
    then have "walk_source f ws declared ?root" using meta Cons.prems(3) by (auto simp: walk_source_def Let_def intro!: bexI [of _ p])
    then show ?thesis using add_entry_from [of blake3 f ws ?root declared es es1 e] es1 e False by auto
  qed
  then show ?case using Cons.IH [OF rest Cons.prems(2)] Cons.prems(3) by auto
qed simp

text \<open>The names a file system gives: not empty, without separator, and neither \<open>.\<close> nor \<open>..\<close>. A walk lists paths below its root.\<close>

definition plain_component :: "bytes \<Rightarrow> bool" where
  "plain_component s \<longleftrightarrow> s \<noteq> [] \<and> CHR ''/'' \<notin> set s \<and> s \<noteq> ''.'' \<and> s \<noteq> ''..''"

definition plain_walks :: "fs \<Rightarrow> bool" where
  "plain_walks f \<longleftrightarrow> (\<forall>root src t. Inr (src, t) \<in> set (walk_dir f root) \<longrightarrow>
     (\<exists>names. src = root @ map Normal names \<and> list_all plain_component names))"

lemma components_plain: "Normal s \<in> set (components b) \<Longrightarrow> plain_component s"
proof -
  have pieces: "plain_component s" if "Normal s \<in> set (map component_of (filter (\<lambda>p. p \<noteq> []) (split_on (CHR ''/'') b)))"
    using that by (auto simp: component_of_def plain_component_def dest: split_on_pieces split: if_splits)
  assume "Normal s \<in> set (components b)"
  moreover have "set (components b) \<subseteq> insert RootDir (set ps)" if "ps = map component_of (filter (\<lambda>p. p \<noteq> []) (split_on (CHR ''/'') b))" for ps
    unfolding components_def that [symmetric] Let_def by (cases ps) auto
  ultimately have "Normal s \<in> set (map component_of (filter (\<lambda>p. p \<noteq> []) (split_on (CHR ''/'') b)))" by blast
  with pieces show ?thesis by blast
qed

lemma lexical_normalize_subset: "set (lexical_normalize p) \<subseteq> set p"
proof -
  have "set (foldl (\<lambda>out c. case c of CurDir \<Rightarrow> out | ParentDir \<Rightarrow> path_pop out | _ \<Rightarrow> path_push out c) out p) \<subseteq> set out \<union> set p" for out
  proof (induction p arbitrary: out)
    case (Cons c p)
    have "set (path_pop out) \<subseteq> set out" by (auto simp: path_pop_def path_parent_def dest: in_set_butlastD)
    moreover have "set (path_push out c) \<subseteq> insert c (set out)" by (auto simp: path_push_def)
    ultimately have "set (case c of CurDir \<Rightarrow> out | ParentDir \<Rightarrow> path_pop out | _ \<Rightarrow> path_push out c) \<subseteq> insert c (set out)"
      by (auto split: component.splits)
    then show ?case using Cons [of "case c of CurDir \<Rightarrow> out | ParentDir \<Rightarrow> path_pop out | _ \<Rightarrow> path_push out c"] by auto
  qed simp
  from this [of "[]"] show ?thesis by (simp add: lexical_normalize_def)
qed

lemma components_join:
  assumes "list_all plain_component parts"
  shows "components (join ''/'' parts) = map Normal parts"
proof (cases parts)
  case Nil
  then show ?thesis by (simp add: components_def starts_with_def)
next
  case (Cons q qs)
  have pieces: "split_on (CHR ''/'') (join ''/'' parts) = parts"
    using assms Cons by (intro split_on_join) (auto simp: plain_component_def list_all_iff)
  have named: "map component_of (filter (\<lambda>p. p \<noteq> []) parts) = map Normal parts"
    using assms by (induction parts) (auto simp: component_of_def plain_component_def)
  have "join ''/'' parts = q \<or> (\<exists>r. join ''/'' parts = q @ r)" by (cases qs) (auto simp: Cons)
  then have "\<not> starts_with (join ''/'' parts) ''/''"
    using assms Cons by (cases q) (auto simp: plain_component_def starts_with_def)
  moreover have "filter (\<lambda>c. c \<noteq> CurDir) (map Normal qs) = map Normal qs" by (induction qs) auto
  ultimately show ?thesis unfolding components_def pieces named Let_def by (simp add: Cons)
qed

lemma walk_source_plain:
  assumes "walk_source f (lexical_normalize (components w)) (map components ds) src" "plain_walks f" "Normal s \<in> set src"
  shows "plain_component s"
proof -
  have join: "plain_component s" if "Normal s \<in> set (path_join (lexical_normalize (components w)) (components d))" for d
  proof -
    have "Normal s \<in> set (lexical_normalize (components w)) \<union> set (components d)" using that by (auto simp: path_join_def split: if_splits)
    then show ?thesis using lexical_normalize_subset [of "components w"] components_plain by blast
  qed
  obtain d where d: "let root = path_join (lexical_normalize (components w)) (components d) in
     (if symlink_metadata f root = Some IsDir then \<exists>t. t \<noteq> IsDir \<and> Inr (src, t) \<in> set (walk_dir f root)
      else symlink_metadata f root \<noteq> None \<and> src = root)"
    using assms(1) by (auto simp: walk_source_def)
  then show ?thesis
  proof (cases "src = path_join (lexical_normalize (components w)) (components d)")
    case False
    with d obtain t where "Inr (src, t) \<in> set (walk_dir f (path_join (lexical_normalize (components w)) (components d)))"
      by (auto simp: Let_def split: if_splits)
    then obtain names where "src = path_join (lexical_normalize (components w)) (components d) @ map Normal names" "list_all plain_component names"
      using assms(2) unfolding plain_walks_def by blast
    then show ?thesis using assms(3) join by (auto simp: list_all_iff)
  qed (use assms(3) join in simp)
qed

text \<open>
  C19. What a manifest lists is in the workspace, as far as paths tell. Every entry was read at a source that is a declared
  path or was found in the walk of a declared directory, and its line is the digest of the file or link that stands there;
  with \<open>.\<close> and \<open>..\<close> resolved, the source is the workspace root followed by plain names, and the path listed is made of
  exactly these names: it is relative, without parent components. A symbolic link that is recorded resolves into the
  workspace and under a declared path. The workspace and the declared paths are any strings, and a walk lists plain names below its root.
\<close>

theorem collect_entries_confined:
  assumes "collect_entries blake3 f (components w) step (map components ds) kind = Inr es" "(p, line) \<in> set es" "plain_walks f"
  shows "\<exists>src parts c. walk_source f (lexical_normalize (components w)) (map components ds) src \<and>
    content_at f src = Some c \<and> line = content_line blake3 c \<and>
    lexical_normalize src = lexical_normalize (components w) @ map Normal parts \<and>
    list_all plain_component parts \<and> p = join ''/'' parts \<and> components p = map Normal parts \<and>
    (\<forall>target. c = LinkTarget target \<longrightarrow> (\<exists>resolved.
       check_symlink_containment (lexical_normalize (components w)) src target = Inr resolved \<and>
       path_starts_with resolved (lexical_normalize (components w)) \<and>
       (\<exists>d\<in>set ds. path_starts_with resolved (lexical_normalize (path_join (lexical_normalize (components w)) (components d))))))"
proof -
  obtain src c where v: "walk_source f (lexical_normalize (components w)) (map components ds) src"
    and src: "entry_source blake3 f (lexical_normalize (components w)) (map components ds) (p, line) src c"
    using collect_paths_from [OF assms(1) [unfolded collect_entries_def] assms(2)] by auto
  then obtain parts where parts: "lexical_normalize src = lexical_normalize (components w) @ map Normal parts" "p = join ''/'' parts"
    using normalize_relative_normal [of "lexical_normalize (components w)" src p] unfolding entry_source_def by auto
  have "plain_component s" if "s \<in> set parts" for s
  proof -
    have "Normal s \<in> set (lexical_normalize src)" using that by (simp add: parts(1))
    then show ?thesis using walk_source_plain [OF v assms(3)] lexical_normalize_subset by blast
  qed
  then have "list_all plain_component parts" by (simp add: list_all_iff)
  with components_join [OF this] v src parts show ?thesis
    by (intro exI [of _ src] exI [of _ parts] exI [of _ c]) (auto simp: entry_source_def link_confined_def)
qed

theorem collect_entries_confined_witness:
  "\<exists>src parts c. content_at example_fs src = Some c \<and> ''l:'' @ to_hex (digest_of ''a'') = content_line digest_of c \<and>
    lexical_normalize src = lexical_normalize (components ''/w'') @ map Normal parts \<and> components ''l'' = map Normal parts"
proof -
  have w: "components ''/w'' = example_root" "map components [''a'', ''l''] = [[Normal ''a''], [Normal ''l'']]"
    by (simp_all add: components_def starts_with_def component_of_def example_root_def)
  have "plain_walks example_fs" by (simp add: plain_walks_def example_fs_def)
  from collect_entries_confined [of digest_of example_fs "''/w''" _ "[''a'', ''l'']" Input _ "''l''" "''l:'' @ to_hex (digest_of ''a'')", OF _ _ this]
    example_entries [of "''s''" Input]
  show ?thesis unfolding w by fastforce
qed

text \<open>
  Confinement is a matter of paths. A link in the middle of a declared path is not looked at: with \<open>d\<close> a link that leads
  anywhere, the declared path \<open>d/passwd\<close> is read through it and listed as a regular file of the workspace.
\<close>

lemma intermediate_link_followed:
  assumes "symlink_metadata f (example_root @ [Normal ''d'']) = Some IsSymlink"
    and "symlink_metadata f (example_root @ [Normal ''d'', Normal ''passwd'']) = Some IsFile"
    and "read_file f (example_root @ [Normal ''d'', Normal ''passwd'']) = Some content"
  shows "collect_entries blake3 f example_root step [[Normal ''d'', Normal ''passwd'']] kind = Inr [(''d/passwd'', ''f:'' @ to_hex (blake3 content))]"
  using assms by (simp add: hashing_eval example_root_def Let_def is_control_def less_char_def)

text \<open>The manifest entry an artifact describes.\<close>

definition artifact_entry :: "artifact_info \<Rightarrow> bytes \<times> bytes" where
  "artifact_entry a = (artifact_path a,
     (if artifact_kind a = ''symlink'' then ''l:'' else ''f:'') @ artifact_digest a)"

text \<open>
  The artifact list that goes into a receipt describes exactly what the output hash
  covers: the hash is the one \<open>hash_outputs\<close> computes, and the entries of the manifest can be
  rebuilt from the listed kinds, digests and paths.
\<close>

theorem outputs_with_artifacts_describe:
  assumes "outputs_with_artifacts blake3 f ws step outputs = Inr (h, artifacts)"
  shows "hash_outputs blake3 f ws step outputs = Inr h \<and>
    collect_entries blake3 f ws step outputs Output = Inr (map artifact_entry artifacts)"
proof -
  obtain es where es: "collect_entries blake3 f ws step outputs Output = Inr es"
    "artifacts = map (artifact_of step) es"
    "h = to_hex (blake3 (foldl (\<lambda>m (p, line). push_entry m line p) (MANIFEST_HEADER @ [CHR 0x0A]) es))"
    using assms by (auto simp: outputs_with_artifacts_def result_simps)
  have "artifact_entry (artifact_of step e) = e" if e: "e \<in> set es" for e
  proof -
    obtain src c where "entry_source blake3 f (lexical_normalize ws) outputs e src c"
      using collect_entries_source [OF es(1) e] by blast
    then obtain p where "e = (p, content_line blake3 c)"
      by (cases e) (simp add: entry_source_def)
    then show ?thesis
      by (cases c) (simp_all add: artifact_entry_def artifact_of_def starts_with_def)
  qed
  then have "map artifact_entry artifacts = es" by (simp add: es(2) map_idI)
  with es show ?thesis by (simp add: hash_outputs_def output_manifest_def)
qed

theorem outputs_with_artifacts_describe_witness:
  "\<exists>h artifacts. hash_outputs digest_of example_fs example_root ''s'' [[Normal ''a''], [Normal ''l'']] = Inr h \<and>
    collect_entries digest_of example_fs example_root ''s'' [[Normal ''a''], [Normal ''l'']] Output =
      Inr (map artifact_entry artifacts) \<and> length artifacts = 2"
proof -
  have "\<exists>h artifacts. outputs_with_artifacts digest_of example_fs example_root ''s''
      [[Normal ''a''], [Normal ''l'']] = Inr (h, artifacts) \<and> length artifacts = 2"
    unfolding outputs_with_artifacts_def example_entries by simp
  then show ?thesis using outputs_with_artifacts_describe by blast
qed

end
