(* ===== verification/Worklist.thy ===== *)
theory Worklist
  imports Prelude "HOL-Library.Multiset"
begin

text \<open>
  Kahn's algorithm, which the program runs twice: over pipeline steps with a FIFO queue
  (\<open>src/pipeline/dag.rs\<close>) and over causal events with a LIFO one
  (\<open>src/storage/causal_ledger.rs\<close>). The loop is one definition with the operations of the
  queue as arguments; the locale \<open>worklist\<close> states what it relies on of them, and its
  lemmas show that the result is a topological order of the whole graph exactly when the
  graph has no cycle, and that the loop ends.
\<close>

section \<open>The loop\<close>

text \<open>Subtraction of 1 from a \<open>usize\<close>: it wraps at 0 in the release profile.\<close>

definition dec_usize :: "nat \<Rightarrow> nat" where
  "dec_usize n = (if n = 0 then 2 ^ 64 - 1 else n - 1)"

text \<open>The \<open>for neighbor in neighbors\<close> loop; \<open>None\<close> is the panic of \<open>expect\<close>.\<close>

fun relax :: "('a \<Rightarrow> 'w \<Rightarrow> 'w) \<Rightarrow> 'a list \<Rightarrow> ('a \<rightharpoonup> nat) \<Rightarrow> 'w \<Rightarrow> (('a \<rightharpoonup> nat) \<times> 'w) option" where
  "relax push [] in_degree queue = Some (in_degree, queue)"
| "relax push (neighbor # neighbors) in_degree queue =
     (case in_degree neighbor of
        None \<Rightarrow> None
      | Some degree \<Rightarrow>
          let degree = dec_usize degree in
          relax push neighbors (in_degree(neighbor \<mapsto> degree))
            (if degree = 0 then push neighbor queue else queue))"

text \<open>The \<open>while let Some(current) = queue.pop()\<close> loop. The outer option is divergence,
  the inner one a panic.\<close>

partial_function (option) kahn_loop ::
  "('w \<Rightarrow> ('a \<times> 'w) option) \<Rightarrow> ('a \<Rightarrow> 'w \<Rightarrow> 'w) \<Rightarrow> ('a \<rightharpoonup> 'a list)
    \<Rightarrow> 'w \<Rightarrow> ('a \<rightharpoonup> nat) \<Rightarrow> 'a list \<Rightarrow> 'a list option option" where
  "kahn_loop pop push graph queue in_degree result =
     (case pop queue of
        None \<Rightarrow> Some (Some result)
      | Some (current, queue) \<Rightarrow>
          (case graph current of
             None \<Rightarrow> kahn_loop pop push graph queue in_degree (result @ [current])
           | Some neighbors \<Rightarrow>
               (case relax push neighbors in_degree queue of
                  None \<Rightarrow> Some None
                | Some (in_degree, queue) \<Rightarrow>
                    kahn_loop pop push graph queue in_degree (result @ [current]))))"

text \<open>The operations of the two queues: a \<open>VecDeque\<close> is popped at the front, a \<open>Vec\<close> at
  the back.\<close>

definition pop_front :: "'a list \<Rightarrow> ('a \<times> 'a list) option" where
  "pop_front q = (case q of [] \<Rightarrow> None | x # q \<Rightarrow> Some (x, q))"

definition pop_back :: "'a list \<Rightarrow> ('a \<times> 'a list) option" where
  "pop_back q = (if q = [] then None else Some (last q, butlast q))"

definition push_back :: "'a \<Rightarrow> 'a list \<Rightarrow> 'a list" where
  "push_back x q = q @ [x]"

section \<open>Graphs and topological orders\<close>

definition nbrs :: "('a \<rightharpoonup> 'a list) \<Rightarrow> 'a \<Rightarrow> 'a list" where
  "nbrs graph u = (case graph u of None \<Rightarrow> [] | Some ns \<Rightarrow> ns)"

lemma nbrs_simps [simp]:
  "graph u = None \<Longrightarrow> nbrs graph u = []"
  "graph u = Some ns \<Longrightarrow> nbrs graph u = ns"
  by (simp_all add: nbrs_def)

definition graph_edges :: "('a \<rightharpoonup> 'a list) \<Rightarrow> ('a \<times> 'a) set" where
  "graph_edges graph = {(u, v). v \<in> set (nbrs graph u)}"

lemma graph_edges_iff [simp]: "(u, v) \<in> graph_edges graph \<longleftrightarrow> v \<in> set (nbrs graph u)"
  by (simp add: graph_edges_def)

text \<open>\<open>in_order E xs\<close>: every predecessor of an element of \<open>xs\<close> stands before it.\<close>

definition in_order :: "('a \<times> 'a) set \<Rightarrow> 'a list \<Rightarrow> bool" where
  "in_order E xs \<longleftrightarrow> (\<forall>ys v zs. xs = ys @ v # zs \<longrightarrow> (\<forall>u. (u, v) \<in> E \<longrightarrow> u \<in> set ys))"

lemma in_order_Nil [simp]: "in_order E []"
  by (simp add: in_order_def)

lemma in_order_snoc:
  "in_order E (xs @ [x]) \<longleftrightarrow> in_order E xs \<and> (\<forall>u. (u, x) \<in> E \<longrightarrow> u \<in> set xs)"
proof
  assume *: "in_order E (xs @ [x])"
  show "in_order E xs \<and> (\<forall>u. (u, x) \<in> E \<longrightarrow> u \<in> set xs)"
  proof
    show "in_order E xs"
      unfolding in_order_def
    proof (intro allI impI)
      fix ys v zs u
      assume "xs = ys @ v # zs" "(u, v) \<in> E"
      then have "xs @ [x] = ys @ v # (zs @ [x])" by simp
      with * \<open>(u, v) \<in> E\<close> show "u \<in> set ys" unfolding in_order_def by blast
    qed
    show "\<forall>u. (u, x) \<in> E \<longrightarrow> u \<in> set xs"
      using * unfolding in_order_def by blast
  qed
next
  assume *: "in_order E xs \<and> (\<forall>u. (u, x) \<in> E \<longrightarrow> u \<in> set xs)"
  show "in_order E (xs @ [x])"
    unfolding in_order_def
  proof (intro allI impI)
    fix ys v zs u
    assume eq: "xs @ [x] = ys @ v # zs" and e: "(u, v) \<in> E"
    show "u \<in> set ys"
    proof (cases zs rule: rev_cases)
      case Nil
      with eq e * show ?thesis by simp
    next
      case (snoc zs' z)
      with eq have "xs = ys @ v # zs'" by simp
      with e * show ?thesis unfolding in_order_def by blast
    qed
  qed
qed

lemma in_order_closed: "in_order E xs \<Longrightarrow> (u, v) \<in> E \<Longrightarrow> v \<in> set xs \<Longrightarrow> u \<in> set xs"
  by (auto simp: in_order_def dest!: split_list)

lemma in_order_acyclic:
  assumes "in_order E xs" "distinct xs" "E \<subseteq> UNIV \<times> set xs"
  shows "acyclic E"
  using assms
proof (induction xs arbitrary: E rule: rev_induct)
  case Nil
  then have "E = {}" by auto
  then show ?case by (simp add: acyclic_def)
next
  case (snoc x xs)
  let ?E = "E - UNIV \<times> {x}"
  have ord: "in_order E xs" and pre: "\<And>u. (u, x) \<in> E \<Longrightarrow> u \<in> set xs" and x: "x \<notin> set xs"
    using snoc.prems by (auto simp: in_order_snoc)
  have noout: "(x, v) \<notin> E" for v
  proof
    assume e: "(x, v) \<in> E"
    then have "v \<in> set xs \<or> v = x" using snoc.prems(3) by auto
    then show False using in_order_closed [OF ord e] pre [of x] e x by blast
  qed
  have "acyclic ?E"
    using ord snoc.prems by (intro snoc.IH) (auto simp: in_order_def)
  moreover have "E \<subseteq> ?E \<union> set xs \<times> {x}" using pre by auto
  moreover have "(y, y) \<in> E\<^sup>+ \<Longrightarrow> (y, y) \<in> ?E\<^sup>+" for y
  proof -
    have step: "(a, b) \<in> E\<^sup>+ \<Longrightarrow> b \<noteq> x \<Longrightarrow> (a, b) \<in> ?E\<^sup>+" for a b
    proof (induction rule: trancl_induct)
      case (base b)
      then show ?case by auto
    next
      case (step b c)
      then have "b \<noteq> x" using noout by blast
      with step show ?case by (meson DiffI mem_Sigma_iff singletonD trancl.trancl_into_trancl)
    qed
    assume yy: "(y, y) \<in> E\<^sup>+"
    then have "y \<noteq> x" using noout by (meson tranclD)
    with yy step show ?thesis by blast
  qed
  ultimately show ?case unfolding acyclic_def by blast
qed

text \<open>In a finite set without a source there is a cycle.\<close>

lemma no_source_cycle:
  assumes "finite S" "S \<noteq> {}" "\<And>v. v \<in> S \<Longrightarrow> \<exists>u\<in>S. (u, v) \<in> E"
  shows "\<not> acyclic E"
proof
  assume "acyclic E"
  then have "acyclic (E \<inter> S \<times> S)" by (rule acyclic_subset) simp
  then have wf: "wf (E \<inter> S \<times> S)"
    using assms(1) by (intro finite_acyclic_wf) simp_all
  obtain s where s: "s \<in> S" using assms(2) by blast
  obtain m where m: "m \<in> S" and min: "\<And>u. (u, m) \<in> E \<inter> S \<times> S \<Longrightarrow> u \<notin> S"
    by (rule wfE_min [OF wf s]) (rule that)
  obtain u where "u \<in> S" "(u, m) \<in> E" using assms(3) [OF m] by blast
  with m min [of u] show False by simp
qed

lemma kahn_loop_unfold:
  "kahn_loop pop push graph q deg res =
     (case pop q of
        None \<Rightarrow> Some (Some res)
      | Some (current, q) \<Rightarrow>
          (case relax push (nbrs graph current) deg q of
             None \<Rightarrow> Some None
           | Some (deg, q) \<Rightarrow> kahn_loop pop push graph q deg (res @ [current])))"
  by (subst kahn_loop.simps) (auto split: option.splits)

section \<open>The interface of the queue\<close>

locale worklist =
  fixes pop :: "'w \<Rightarrow> ('a \<times> 'w) option"
    and push :: "'a \<Rightarrow> 'w \<Rightarrow> 'w"
    and elems :: "'w \<Rightarrow> 'a multiset"
  assumes pop_None: "pop w = None \<longleftrightarrow> elems w = {#}"
    and pop_Some: "pop w = Some (x, w') \<Longrightarrow> elems w = add_mset x (elems w')"
    and elems_push: "elems (push x w) = add_mset x (elems w)"
begin

text \<open>The inner loop subtracts from each degree the number of edges that lead to it, and
  queues the nodes whose degree reaches 0.\<close>

lemma relax_spec:
  assumes "\<And>v. v \<in> set ns \<Longrightarrow> \<exists>d. deg v = Some d \<and> count_list ns v \<le> d"
  shows "\<exists>deg' q'. relax push ns deg q = Some (deg', q') \<and>
    (\<forall>v. deg' v = map_option (\<lambda>d. d - count_list ns v) (deg v)) \<and>
    elems q' = elems q + mset_set {v \<in> set ns. deg v = Some (count_list ns v)}"
  using assms
proof (induction ns arbitrary: deg q)
  case Nil
  then show ?case by (simp add: option.map_ident)
next
  case (Cons n ns)
  obtain d where d: "deg n = Some d" "Suc (count_list ns n) \<le> d"
    using Cons.prems [of n] by auto
  then have dec: "dec_usize d = d - 1" by (simp add: dec_usize_def)
  let ?deg = "deg(n \<mapsto> d - 1)" and ?q = "if d - 1 = 0 then push n q else q"
  have "\<exists>deg' q'. relax push ns ?deg ?q = Some (deg', q') \<and>
    (\<forall>v. deg' v = map_option (\<lambda>d. d - count_list ns v) (?deg v)) \<and>
    elems q' = elems ?q + mset_set {v \<in> set ns. ?deg v = Some (count_list ns v)}"
  proof (rule Cons.IH)
    fix v assume "v \<in> set ns"
    then show "\<exists>e. ?deg v = Some e \<and> count_list ns v \<le> e"
      using Cons.prems [of v] d by (cases "v = n") auto
  qed
  then obtain deg' q' where r: "relax push ns ?deg ?q = Some (deg', q')"
    and deg': "\<forall>v. deg' v = map_option (\<lambda>d. d - count_list ns v) (?deg v)"
    and q': "elems q' = elems ?q + mset_set {v \<in> set ns. ?deg v = Some (count_list ns v)}"
    by blast
  let ?A = "{v \<in> set ns. ?deg v = Some (count_list ns v)}"
  let ?B = "{v \<in> set (n # ns). deg v = Some (count_list (n # ns) v)}"
  have "elems ?q + mset_set ?A = elems q + mset_set ?B"
  proof (cases "d - 1 = 0")
    case True
    then have "count_list ns n = 0" using d by simp
    then have n: "n \<notin> set ns" by (simp add: count_list_0_iff)
    then have "?B = insert n ?A" using d True by (auto simp: count_list_0_iff)
    moreover have "n \<notin> ?A" using n by simp
    ultimately show ?thesis using True by (simp add: elems_push)
  next
    case False
    then have "?B = ?A" using d by (auto simp: count_list_0_iff dest: count_notin)
    with False show ?thesis by simp
  qed
  moreover have "\<forall>v. deg' v = map_option (\<lambda>d. d - count_list (n # ns) v) (deg v)"
    using deg' d by simp
  moreover have "relax push (n # ns) deg q = Some (deg', q')"
    using r d dec by (simp add: Let_def)
  ultimately show ?case using q' by metis
qed

text \<open>What holds at each iteration: \<open>N\<close> is the set of nodes.\<close>

definition kahn_inv :: "'a set \<Rightarrow> ('a \<rightharpoonup> 'a list) \<Rightarrow> 'w \<Rightarrow> ('a \<rightharpoonup> nat) \<Rightarrow> 'a list \<Rightarrow> bool" where
  "kahn_inv N graph q deg res \<longleftrightarrow>
     (\<exists>Q. elems q = mset_set Q \<and> Q \<inter> set res = {} \<and> Q \<union> set res \<subseteq> N \<and>
        (\<forall>v\<in>N. v \<in> Q \<union> set res \<longleftrightarrow> deg v = Some 0)) \<and>
     distinct res \<and> in_order (graph_edges graph) res \<and> dom deg = N \<and>
     (\<forall>v\<in>N. deg v = Some (\<Sum>u\<in>N - set res. count_list (nbrs graph u) v))"

lemma kahn_step:
  assumes fin: "finite N" and edges: "graph_edges graph \<subseteq> N \<times> N"
    and inv: "kahn_inv N graph q deg res" and pop: "pop q = Some (x, q1)"
  shows "\<exists>deg' q'. relax push (nbrs graph x) deg q1 = Some (deg', q') \<and>
    kahn_inv N graph q' deg' (res @ [x]) \<and> x \<in> N - set res"
proof -
  let ?c = "\<lambda>u v. count_list (nbrs graph u) v"
  have closed: "\<And>u. set (nbrs graph u) \<subseteq> N" and nodes: "\<And>u v. v \<in> set (nbrs graph u) \<Longrightarrow> u \<in> N"
    using edges by (auto simp: graph_edges_def)
  obtain Q where Q: "elems q = mset_set Q" "Q \<inter> set res = {}" "Q \<union> set res \<subseteq> N"
    and zero: "\<forall>v\<in>N. v \<in> Q \<union> set res \<longleftrightarrow> deg v = Some 0"
    and dist: "distinct res" and ord: "in_order (graph_edges graph) res" and dom: "dom deg = N"
    and deg: "\<forall>v\<in>N. deg v = Some (\<Sum>u\<in>N - set res. ?c u v)"
    using inv unfolding kahn_inv_def by blast
  have finQ: "finite Q" using Q(3) fin by (auto intro: finite_subset)
  have "elems q = add_mset x (elems q1)" by (rule pop_Some [OF pop])
  with Q(1) have eq: "mset_set Q = add_mset x (elems q1)" by simp
  then have x: "x \<in> Q" using finQ by (metis elem_mset_set union_single_eq_member)
  then have xN: "x \<in> N - set res" using Q by blast
  have q1: "elems q1 = mset_set (Q - {x})"
    using eq finQ x by (simp add: mset_set_Diff)
  have sum: "(\<Sum>u\<in>N - set res. ?c u v) = ?c x v + (\<Sum>u\<in>N - set (res @ [x]). ?c u v)" for v
  proof -
    have "N - set (res @ [x]) = (N - set res) - {x}" by auto
    then show ?thesis using xN fin by (simp add: sum.remove)
  qed
  have x0: "(\<Sum>u\<in>N - set res. ?c u x) = 0" using zero deg x xN by auto
  have pre: "u \<in> set res" if "x \<in> set (nbrs graph u)" for u
  proof (rule ccontr)
    assume "u \<notin> set res"
    then have "?c u x = 0" using x0 fin nodes that by simp
    then show False using that by (simp add: count_list_0_iff)
  qed
  have "\<exists>deg' q'. relax push (nbrs graph x) deg q1 = Some (deg', q') \<and>
    (\<forall>v. deg' v = map_option (\<lambda>d. d - ?c x v) (deg v)) \<and>
    elems q' = elems q1 + mset_set {v \<in> set (nbrs graph x). deg v = Some (?c x v)}"
    using closed [of x] deg sum by (intro relax_spec) auto
  then obtain deg' q' where r: "relax push (nbrs graph x) deg q1 = Some (deg', q')"
    and deg': "\<And>v. deg' v = map_option (\<lambda>d. d - ?c x v) (deg v)"
    and q': "elems q' = elems q1 + mset_set {v \<in> set (nbrs graph x). deg v = Some (?c x v)}"
    by blast
  let ?R = "{v \<in> set (nbrs graph x). deg v = Some (?c x v)}" and ?Q = "Q - {x}"
  have fresh: "?R \<inter> (Q \<union> set res) = {}"
  proof (intro equalityI subsetI)
    fix v assume v: "v \<in> ?R \<inter> (Q \<union> set res)"
    then have "deg v = Some 0" using zero Q(3) by blast
    moreover have "v \<in> set (nbrs graph x)" "deg v = Some (?c x v)" using v by simp_all
    ultimately have "v \<in> set (nbrs graph x)" "?c x v = 0" by simp_all
    then show "v \<in> {}" by (simp add: count_list_0_iff)
  qed simp
  have deg'N: "\<forall>v\<in>N. deg' v = Some (\<Sum>u\<in>N - set (res @ [x]). ?c u v)"
    using deg deg' sum by simp
  have "kahn_inv N graph q' deg' (res @ [x])"
    unfolding kahn_inv_def
  proof (intro conjI exI [of _ "?Q \<union> ?R"])
    show "elems q' = mset_set (?Q \<union> ?R)"
      using q' q1 finQ fresh by (subst mset_set_Union) auto
    show "(?Q \<union> ?R) \<inter> set (res @ [x]) = {}"
      using Q(2) fresh x by auto
    show "?Q \<union> ?R \<union> set (res @ [x]) \<subseteq> N"
      using Q(3) closed [of x] xN by auto
    show "\<forall>v\<in>N. (v \<in> ?Q \<union> ?R \<union> set (res @ [x])) = (deg' v = Some 0)"
    proof
      fix v assume v: "v \<in> N"
      have "deg' v = Some 0 \<longleftrightarrow> deg v = Some 0 \<or> v \<in> ?R"
        using deg sum v by (auto simp: deg' count_list_0_iff dest: count_notin)
      then show "(v \<in> ?Q \<union> ?R \<union> set (res @ [x])) = (deg' v = Some 0)"
        using zero v x by auto
    qed
    show "distinct (res @ [x])" using dist xN by simp
    show "in_order (graph_edges graph) (res @ [x])"
      using ord pre by (simp add: in_order_snoc)
    show "dom deg' = N" using dom deg' by (auto simp: dom_def)
  qed (rule deg'N)
  with r xN show ?thesis by blast
qed

lemma kahn_loop_inv:
  assumes fin: "finite N" and edges: "graph_edges graph \<subseteq> N \<times> N"
    and inv: "kahn_inv N graph q deg res"
  shows "\<exists>q' deg' res'. kahn_loop pop push graph q deg res = Some (Some res') \<and>
    kahn_inv N graph q' deg' res' \<and> pop q' = None"
  using inv
proof (induction "card (N - set res)" arbitrary: q deg res rule: less_induct)
  case less
  show ?case
  proof (cases "pop q")
    case None
    with less.prems show ?thesis by (subst kahn_loop_unfold) auto
  next
    case (Some p)
    obtain x q1 where p: "pop q = Some (x, q1)" using Some by (cases p) auto
    obtain deg' q' where r: "relax push (nbrs graph x) deg q1 = Some (deg', q')"
      and inv': "kahn_inv N graph q' deg' (res @ [x])" and x: "x \<in> N - set res"
      using kahn_step [OF fin edges less.prems p] by blast
    have "N - set (res @ [x]) \<subset> N - set res" using x by auto
    then have "card (N - set (res @ [x])) < card (N - set res)"
      using fin by (intro psubset_card_mono) simp_all
    from less.hyps [OF this inv'] show ?thesis
      using p r by (subst kahn_loop_unfold) simp
  qed
qed

text \<open>The loop always ends, without a panic; its result lists nodes once, each after its
  predecessors, and it lists all of them exactly when the graph is acyclic.\<close>

lemma kahn_correct:
  assumes fin: "finite N" and edges: "graph_edges graph \<subseteq> N \<times> N"
    and deg: "deg = (\<lambda>v. if v \<in> N then Some (\<Sum>u\<in>N. count_list (nbrs graph u) v) else None)"
    and queue: "elems q = mset_set {v \<in> N. deg v = Some 0}"
  shows "\<exists>res. kahn_loop pop push graph q deg [] = Some (Some res) \<and> distinct res \<and>
    set res \<subseteq> N \<and> in_order (graph_edges graph) res \<and>
    (set res = N \<longleftrightarrow> acyclic (graph_edges graph))"
proof -
  have "kahn_inv N graph q deg []"
    using queue fin by (auto simp: kahn_inv_def deg intro!: exI [of _ "{v \<in> N. deg v = Some 0}"] split: if_splits)
  from kahn_loop_inv [OF fin edges this] obtain q' deg' res
    where loop: "kahn_loop pop push graph q deg [] = Some (Some res)"
      and inv: "kahn_inv N graph q' deg' res" and fini: "pop q' = None"
    by blast
  obtain Q where "elems q' = mset_set Q" "Q \<union> set res \<subseteq> N"
    and zero: "\<forall>v\<in>N. v \<in> Q \<union> set res \<longleftrightarrow> deg' v = Some 0"
    and dist: "distinct res" and ord: "in_order (graph_edges graph) res"
    and deg': "\<forall>v\<in>N. deg' v = Some (\<Sum>u\<in>N - set res. count_list (nbrs graph u) v)"
    using inv unfolding kahn_inv_def by blast
  moreover have "elems q' = {#}" using fini by (simp add: pop_None)
  ultimately have Q: "Q = {}" and sub: "set res \<subseteq> N"
    using fin by (auto simp: mset_set_empty_iff dest: finite_subset)
  have "set res = N \<longleftrightarrow> acyclic (graph_edges graph)"
  proof
    assume "set res = N"
    then show "acyclic (graph_edges graph)"
      using edges by (intro in_order_acyclic [OF ord dist]) auto
  next
    assume ac: "acyclic (graph_edges graph)"
    show "set res = N"
    proof (rule ccontr)
      assume "set res \<noteq> N"
      then have ne: "N - set res \<noteq> {}" using sub by blast
      have "\<exists>u\<in>N - set res. (u, v) \<in> graph_edges graph" if "v \<in> N - set res" for v
      proof -
        have "(\<Sum>u\<in>N - set res. count_list (nbrs graph u) v) \<noteq> 0"
          using zero deg' that Q by auto
        then show ?thesis using fin by (auto simp: count_list_0_iff)
      qed
      from no_source_cycle [OF _ ne this] ac fin show False by simp
    qed
  qed
  with loop dist sub ord show ?thesis by blast
qed

end

section \<open>The two queues implement it\<close>

interpretation fifo: worklist pop_front push_back mset
  by unfold_locales (auto simp: pop_front_def push_back_def split: list.splits)

interpretation lifo: worklist pop_back push_back mset
proof
  fix q q' :: "'a list" and x
  assume "pop_back q = Some (x, q')"
  then have "q = q' @ [x]"
    by (metis append_butlast_last_id option.distinct(1) option.inject pop_back_def prod.inject)
  then show "mset q = add_mset x (mset q')" by simp
qed (simp_all add: pop_back_def push_back_def)

end
