(* ===== verification/Dag.thy ===== *)
theory Dag
  imports Text Worklist Btree
begin

text \<open>
  The execution graph of a pipeline: \<open>src/pipeline/dag.rs\<close>, with the pipeline and step
  structures of \<open>src/pipeline/parser.rs\<close> and \<open>src/pipeline/step.rs\<close>.

  A \<open>BTreeMap\<close> is a \<open>btree\<close>; a \<open>HashMap\<close> is a HOL map, and where the code iterates over one the order is an
  argument, since Rust leaves it unspecified: the theorems hold for every order.
\<close>

section \<open>Pipelines and steps\<close>

record step_attestation =
  attestation_type :: bytes
  reproducible :: bool
  generate_slsa :: bool
  verify_chain :: bool

record step =
  step_run :: bytes
  step_inputs :: "bytes list"
  step_outputs :: "bytes list"
  step_needs :: "bytes list option"
  step_env :: "bytes btree option"
  working_dir :: "bytes option"
  step_image :: "bytes option"
  step_capsule :: "bytes option"
  step_cache :: bool
  timeout_secs :: "u64 option"
  step_attestation :: "step_attestation option"

record attestation_config =
  sign_all_steps :: bool
  verify_dependencies :: bool
  require_reproducible :: bool

record pipeline =
  schema_version :: "u32 option"
  pipeline_version :: bytes
  pipeline_name :: "bytes option"
  steps :: "step btree"
  pipeline_env :: "bytes btree"
  attestation :: attestation_config

section \<open>The graph\<close>

record execution_dag =
  nodes :: "bytes list"
  edges :: "bytes \<rightharpoonup> bytes list"

datatype dag_error =
    UnknownStep bytes bytes
  | CycleDetected "bytes list"
  | PipelineContainsCycles
  | ExpectPanic
  | RecursionLimit

fun add_needs :: "bytes \<Rightarrow> bytes list \<Rightarrow> (bytes \<rightharpoonup> bytes list)
    \<Rightarrow> (dag_error, bytes \<rightharpoonup> bytes list) result" where
  "add_needs step_name [] es = Inr es"
| "add_needs step_name (dep # needs) es =
     (case es dep of
        Some dep_edges \<Rightarrow> add_needs step_name needs (es(dep \<mapsto> dep_edges @ [step_name]))
      | None \<Rightarrow> Inl (UnknownStep step_name dep))"

fun add_edges :: "step btree \<Rightarrow> (bytes \<rightharpoonup> bytes list) \<Rightarrow> (dag_error, bytes \<rightharpoonup> bytes list) result" where
  "add_edges [] es = Inr es"
| "add_edges ((step_name, st) # rest) es =
     (case step_needs st of
        None \<Rightarrow> add_edges rest es
      | Some needs \<Rightarrow> and_then (add_needs step_name needs es) (add_edges rest))"

text \<open>\<open>build_cycle_path\<close>: \<open>path\<close> is the vector built so far; the last check bounds the
  number of rounds by the number of nodes.\<close>

function build_cycle_path_from ::
  "execution_dag \<Rightarrow> bytes \<Rightarrow> bytes set \<Rightarrow> bytes \<Rightarrow> bytes list \<Rightarrow> bytes list" where
  "build_cycle_path_from dag cycle_node rec_stack current path =
     (let path = path @ [current];
          next_node = find (\<lambda>neighbor. neighbor \<in> rec_stack) (nbrs (edges dag) current)
      in case next_node of
           None \<Rightarrow> path
         | Some nxt \<Rightarrow>
             if nxt = cycle_node then path @ [cycle_node]
             else if length path > length (nodes dag) then path
             else build_cycle_path_from dag cycle_node rec_stack nxt path)"
  by pat_completeness auto
termination
  by (relation "measure (\<lambda>(dag, _, _, _, path). Suc (length (nodes dag)) - length path)") auto

declare build_cycle_path_from.simps [simp del]

definition build_cycle_path :: "execution_dag \<Rightarrow> bytes \<Rightarrow> bytes set \<Rightarrow> bytes list" where
  "build_cycle_path dag cycle_node rec_stack =
     build_cycle_path_from dag cycle_node rec_stack cycle_node []"

text \<open>The recursion of \<open>has_cycle_util\<close>, with \<open>depth\<close> a bound on the nesting of calls; the
  loop over the neighbours is \<open>visit_neighbors\<close>. The result is the error or the new
  \<open>visited\<close> and \<open>rec_stack\<close>.\<close>

fun has_cycle_util :: "nat \<Rightarrow> execution_dag \<Rightarrow> bytes \<Rightarrow> bytes set \<times> bytes set
      \<Rightarrow> (dag_error, bytes set \<times> bytes set) result"
and visit_neighbors :: "nat \<Rightarrow> execution_dag \<Rightarrow> bytes list \<Rightarrow> bytes set \<times> bytes set
      \<Rightarrow> (dag_error, bytes set \<times> bytes set) result" where
  "has_cycle_util 0 dag node st = Inl RecursionLimit"
| "has_cycle_util (Suc depth) dag node (visited, rec_stack) =
     (if node \<in> rec_stack then Inl (CycleDetected (build_cycle_path dag node rec_stack))
      else if node \<in> visited then Inr (visited, rec_stack)
      else
        and_then (visit_neighbors depth dag (nbrs (edges dag) node)
            (insert node visited, insert node rec_stack)) (\<lambda>(visited, rec_stack).
        Inr (visited, rec_stack - {node})))"
| "visit_neighbors depth dag [] st = Inr st"
| "visit_neighbors depth dag (neighbor # neighbors) st =
     and_then (has_cycle_util depth dag neighbor st) (visit_neighbors depth dag neighbors)"

fun check_nodes :: "execution_dag \<Rightarrow> bytes list \<Rightarrow> bytes set \<times> bytes set \<Rightarrow> (dag_error, unit) result" where
  "check_nodes dag [] st = Inr ()"
| "check_nodes dag (node # rest) (visited, rec_stack) =
     (if node \<notin> visited then
        and_then (has_cycle_util (Suc (length (nodes dag))) dag node (visited, rec_stack))
          (check_nodes dag rest)
      else check_nodes dag rest (visited, rec_stack))"

definition check_cycles :: "execution_dag \<Rightarrow> (dag_error, unit) result" where
  "check_cycles dag = check_nodes dag (nodes dag) ({}, {})"

definition build :: "pipeline \<Rightarrow> (dag_error, execution_dag) result" where
  "build p =
     and_then (add_edges (steps p) (map_of (map (\<lambda>k. (k, [])) (keys (steps p))))) (\<lambda>es.
     let dag = \<lparr>nodes = keys (steps p), edges = es\<rparr> in
     and_then (check_cycles dag) (\<lambda>_. Inr dag))"

text \<open>The two loops that fill \<open>in_degree\<close> and \<open>reverse_edges\<close>; \<open>None\<close> is the panic of
  \<open>expect\<close>.\<close>

fun count_neighbors :: "bytes \<Rightarrow> bytes list \<Rightarrow> (bytes \<rightharpoonup> nat) \<times> (bytes \<rightharpoonup> bytes list)
    \<Rightarrow> ((bytes \<rightharpoonup> nat) \<times> (bytes \<rightharpoonup> bytes list)) option" where
  "count_neighbors frm [] st = Some st"
| "count_neighbors frm (to # to_list) (in_degree, reverse_edges) =
     (case (in_degree to, reverse_edges frm) of
        (Some d, Some ns) \<Rightarrow>
          count_neighbors frm to_list
            (in_degree(to \<mapsto> d + 1), reverse_edges(frm \<mapsto> ns @ [to]))
      | _ \<Rightarrow> None)"

fun count_edges :: "(bytes \<rightharpoonup> bytes list) \<Rightarrow> bytes list \<Rightarrow> (bytes \<rightharpoonup> nat) \<times> (bytes \<rightharpoonup> bytes list)
    \<Rightarrow> ((bytes \<rightharpoonup> nat) \<times> (bytes \<rightharpoonup> bytes list)) option" where
  "count_edges es [] st = Some st"
| "count_edges es (frm # ord) st =
     (case count_neighbors frm (nbrs es frm) st of
        None \<Rightarrow> None
      | Some st \<Rightarrow> count_edges es ord st)"

text \<open>\<open>ord_edges\<close> and \<open>ord_degree\<close> are the orders in which the maps \<open>edges\<close> and
  \<open>in_degree\<close> are iterated. The outer option is divergence.\<close>

definition topological_sort ::
  "bytes list \<Rightarrow> bytes list \<Rightarrow> execution_dag \<Rightarrow> (dag_error, bytes list) result option" where
  "topological_sort ord_edges ord_degree dag =
     (case count_edges (edges dag) ord_edges
             (map_of (map (\<lambda>n. (n, 0)) (nodes dag)), map_of (map (\<lambda>n. (n, [])) (nodes dag))) of
        None \<Rightarrow> Some (Inl ExpectPanic)
      | Some (in_degree, reverse_edges) \<Rightarrow>
          let queue = filter (\<lambda>name. in_degree name = Some 0) ord_degree in
          (case kahn_loop pop_front push_back reverse_edges queue in_degree [] of
             None \<Rightarrow> None
           | Some None \<Rightarrow> Some (Inl ExpectPanic)
           | Some (Some res) \<Rightarrow>
               Some (ensure (length res = length (nodes dag)) PipelineContainsCycles (Inr res))))"

definition find_root_nodes :: "bytes list \<Rightarrow> execution_dag \<Rightarrow> bytes list" where
  "find_root_nodes ord_edges dag =
     (let has_incoming = set (concat (map (nbrs (edges dag)) ord_edges)) in
      filter (\<lambda>node. node \<notin> has_incoming) (nodes dag))"

definition find_leaf_nodes :: "execution_dag \<Rightarrow> bytes list" where
  "find_leaf_nodes dag =
     filter (\<lambda>node. case edges dag node of None \<Rightarrow> True | Some neighbors \<Rightarrow> neighbors = []) (nodes dag)"

definition get_dependencies :: "bytes list \<Rightarrow> execution_dag \<Rightarrow> bytes \<Rightarrow> bytes list" where
  "get_dependencies ord_edges dag node = filter (\<lambda>frm. node \<in> set (nbrs (edges dag) frm)) ord_edges"

definition get_dependents :: "execution_dag \<Rightarrow> bytes \<Rightarrow> bytes list" where
  "get_dependents dag node = (case edges dag node of None \<Rightarrow> [] | Some ns \<Rightarrow> ns)"

definition is_linear_pipeline :: "bytes list \<Rightarrow> execution_dag \<Rightarrow> bool" where
  "is_linear_pipeline ord_edges dag =
     list_all (\<lambda>node. length (nbrs (edges dag) node) \<le> 1 \<and>
                      length (get_dependencies ord_edges dag node) \<le> 1) ord_edges"

text \<open>\<open>remaining\<close> lists the hash set \<open>remaining_nodes\<close> in its iteration order.\<close>

partial_function (option) groups_loop ::
  "bytes list \<Rightarrow> execution_dag \<Rightarrow> bytes list \<Rightarrow> bytes list list \<Rightarrow> bytes list list option" where
  "groups_loop ord_edges dag remaining groups =
     (if remaining = [] then Some groups
      else
        let current_group = filter (\<lambda>node.
              list_all (\<lambda>dep. dep \<notin> set remaining) (get_dependencies ord_edges dag node)) remaining
        in groups_loop ord_edges dag (filter (\<lambda>node. node \<notin> set current_group) remaining)
             (if current_group \<noteq> [] then groups @ [current_group] else groups))"

definition find_parallelizable_groups ::
  "bytes list \<Rightarrow> bytes list \<Rightarrow> (bytes list \<Rightarrow> bytes list) \<Rightarrow> execution_dag \<Rightarrow> bytes list list option" where
  "find_parallelizable_groups ord_edges ord_degree ord_set dag =
     (case topological_sort ord_edges ord_degree dag of
        None \<Rightarrow> None
      | Some (Inl _) \<Rightarrow> Some []
      | Some (Inr sorted_nodes) \<Rightarrow> groups_loop ord_edges dag (ord_set sorted_nodes) [])"

record dag_analysis =
  total_nodes :: nat
  root_nodes :: "bytes list"
  leaf_nodes :: "bytes list"
  max_depth :: nat
  node_depths :: "bytes \<rightharpoonup> nat"
  is_linear :: bool
  parallelizable_groups :: "bytes list list"

fun depths_loop :: "bytes list \<Rightarrow> execution_dag \<Rightarrow> bytes list \<Rightarrow> (bytes \<rightharpoonup> nat) \<times> nat
    \<Rightarrow> (bytes \<rightharpoonup> nat) \<times> nat" where
  "depths_loop ord_edges dag [] st = st"
| "depths_loop ord_edges dag (node # sorted_nodes) (depths, deepest) =
     (let deps = get_dependencies ord_edges dag node;
          depth = (if deps = [] then 0
                   else foldr max (map (\<lambda>dep. case depths dep of None \<Rightarrow> 0 | Some d \<Rightarrow> d) deps) 0 + 1)
      in depths_loop ord_edges dag sorted_nodes (depths(node \<mapsto> depth), max deepest depth))"

definition analyze ::
  "bytes list \<Rightarrow> bytes list \<Rightarrow> bytes list \<Rightarrow> (bytes list \<Rightarrow> bytes list) \<Rightarrow> execution_dag
    \<Rightarrow> dag_analysis option" where
  "analyze ord_edges ord_degree ord_degree2 ord_set dag =
     (case topological_sort ord_edges ord_degree dag of
        None \<Rightarrow> None
      | Some r \<Rightarrow>
          let (depths, deepest) =
                (case r of Inl _ \<Rightarrow> (Map.empty, 0)
                         | Inr sorted_nodes \<Rightarrow> depths_loop ord_edges dag sorted_nodes (Map.empty, 0))
          in map_option (\<lambda>groups.
               \<lparr>total_nodes = length (nodes dag),
                root_nodes = find_root_nodes ord_edges dag,
                leaf_nodes = find_leaf_nodes dag,
                max_depth = deepest,
                node_depths = depths,
                is_linear = is_linear_pipeline ord_edges dag,
                parallelizable_groups = groups\<rparr>)
             (find_parallelizable_groups ord_edges ord_degree2 ord_set dag))"

section \<open>The edges a pipeline asks for\<close>

text \<open>\<open>(u, v)\<close> is a dependency when step \<open>v\<close> needs \<open>u\<close>.\<close>

definition needs_edges :: "step btree \<Rightarrow> (bytes \<times> bytes) set" where
  "needs_edges m = {(u, v). \<exists>st ns. (v, st) \<in> set m \<and> step_needs st = Some ns \<and> u \<in> set ns}"

lemma needs_edges_Nil [simp]: "needs_edges [] = {}"
  by (simp add: needs_edges_def)

lemma needs_edges_Cons:
  "needs_edges ((v, st) # m) =
     (case step_needs st of None \<Rightarrow> {} | Some ns \<Rightarrow> set ns \<times> {v}) \<union> needs_edges m"
  by (auto simp: needs_edges_def split: option.splits)

lemma graph_edges_update:
  "es u = Some ns \<Longrightarrow> graph_edges (es(u \<mapsto> ns @ [v])) = insert (u, v) (graph_edges es)"
  by (auto simp: graph_edges_def nbrs_def split: if_splits)

lemma dom_update_known: "es u = Some ds \<Longrightarrow> dom (es(u \<mapsto> ds')) = dom es"
  by (auto simp: dom_def)

lemma add_needs_ok:
  "set ns \<subseteq> dom es \<Longrightarrow> \<exists>es'. add_needs v ns es = Inr es' \<and> dom es' = dom es \<and>
     graph_edges es' = set ns \<times> {v} \<union> graph_edges es"
proof (induction ns arbitrary: es)
  case (Cons u ns)
  obtain ds where ds: "es u = Some ds" using Cons.prems by auto
  define es1 where "es1 = es(u \<mapsto> ds @ [v])"
  have es1: "dom es1 = dom es" "graph_edges es1 = insert (u, v) (graph_edges es)"
    unfolding es1_def using ds by (rule dom_update_known, rule graph_edges_update)
  have "set ns \<subseteq> dom es1" using Cons.prems es1 by simp
  from Cons.IH [OF this] obtain es' where "add_needs v ns es1 = Inr es'" "dom es' = dom es1"
    "graph_edges es' = set ns \<times> {v} \<union> graph_edges es1" by blast
  with ds es1 show ?case by (auto simp: es1_def [symmetric])
qed simp

lemma add_needs_unknown:
  "\<not> set ns \<subseteq> dom es \<Longrightarrow> \<exists>u. add_needs v ns es = Inl (UnknownStep v u) \<and> u \<in> set ns - dom es"
proof (induction ns arbitrary: es)
  case (Cons u ns)
  show ?case
  proof (cases "es u")
    case (Some ds)
    define es1 where "es1 = es(u \<mapsto> ds @ [v])"
    have dom: "dom es1 = dom es"
      unfolding es1_def using Some by (rule dom_update_known)
    have "\<not> set ns \<subseteq> dom es1" using Cons.prems Some dom by auto
    from Cons.IH [OF this] dom Some show ?thesis by (auto simp: es1_def [symmetric])
  qed (auto simp: dom_def)
qed simp

lemma add_edges_ok:
  "fst ` needs_edges m \<subseteq> dom es \<Longrightarrow> \<exists>es'. add_edges m es = Inr es' \<and> dom es' = dom es \<and>
     graph_edges es' = needs_edges m \<union> graph_edges es"
proof (induction m arbitrary: es)
  case (Cons a m)
  obtain v st where a: "a = (v, st)" by (cases a)
  show ?case
  proof (cases "step_needs st")
    case None
    with Cons show ?thesis by (simp add: a needs_edges_Cons)
  next
    case (Some ns)
    have known: "set ns \<subseteq> dom es" and rest: "fst ` needs_edges m \<subseteq> dom es"
      using Cons.prems Some by (simp_all add: a needs_edges_Cons image_Un fst_image_times)
    from add_needs_ok [OF known, of v] obtain es1 where "add_needs v ns es = Inr es1"
      "dom es1 = dom es" "graph_edges es1 = set ns \<times> {v} \<union> graph_edges es" by blast
    moreover from this Cons.IH [of es1] rest obtain es2 where "add_edges m es1 = Inr es2"
      "dom es2 = dom es1" "graph_edges es2 = needs_edges m \<union> graph_edges es1" by auto
    ultimately show ?thesis using Some by (simp add: a needs_edges_Cons Un_ac)
  qed
qed simp

lemma add_edges_unknown:
  "\<not> fst ` needs_edges m \<subseteq> dom es \<Longrightarrow>
   \<exists>u v. add_edges m es = Inl (UnknownStep v u) \<and> (u, v) \<in> needs_edges m \<and> u \<notin> dom es"
proof (induction m arbitrary: es)
  case (Cons a m)
  obtain v st where a: "a = (v, st)" by (cases a)
  show ?case
  proof (cases "step_needs st")
    case None
    with Cons show ?thesis by (auto simp: a needs_edges_Cons)
  next
    case (Some ns)
    show ?thesis
    proof (cases "set ns \<subseteq> dom es")
      case True
      then obtain es1 where "add_needs v ns es = Inr es1" "dom es1 = dom es"
        using add_needs_ok by blast
      moreover have "\<not> fst ` needs_edges m \<subseteq> dom es"
        using Cons.prems Some True by (auto simp: a needs_edges_Cons image_Un)
      ultimately show ?thesis using Cons.IH [of es1] Some by (auto simp: a needs_edges_Cons)
    next
      case False
      with add_needs_unknown [OF False, of v] Some show ?thesis
        by (auto simp: a needs_edges_Cons)
    qed
  qed
qed simp

lemma graph_edges_init [simp]: "graph_edges (map_of (map (\<lambda>k. (k, [])) xs)) = {}"
  by (auto simp: graph_edges_def nbrs_def map_of_map_restrict restrict_map_def split: option.splits if_splits)

lemma dom_init [simp]: "dom (map_of (map (\<lambda>k. (k, c)) xs)) = set xs"
  by (auto simp: dom_map_of_conv_image_fst image_comp)

section \<open>Depth-first search\<close>

text \<open>\<open>is_cycle E path\<close>: the path follows edges and ends where it starts.\<close>

definition is_cycle :: "('a \<times> 'a) set \<Rightarrow> 'a list \<Rightarrow> bool" where
  "is_cycle E path \<longleftrightarrow> 2 \<le> length path \<and> hd path = last path \<and> successively (\<lambda>u v. (u, v) \<in> E) path"

lemma successively_trancl:
  "successively (\<lambda>u v. (u, v) \<in> E) (x # y # xs) \<Longrightarrow> (x, last (y # xs)) \<in> E\<^sup>+"
proof (induction xs arbitrary: x y)
  case (Cons z zs)
  then have "(y, last (z # zs)) \<in> E\<^sup>+" "(x, y) \<in> E" by auto
  then show ?case by (simp add: trancl_into_trancl2)
qed auto

lemma is_cycle_not_acyclic: "is_cycle E path \<Longrightarrow> \<not> acyclic E"
proof -
  assume c: "is_cycle E path"
  then obtain x y xs where "path = x # y # xs"
    by (cases path rule: remdups_adj.cases) (auto simp: is_cycle_def)
  with c show ?thesis
    using successively_trancl [of E x y xs] by (auto simp: is_cycle_def acyclic_def)
qed

text \<open>The stack of active calls, innermost first: each caller has gone through the
  neighbours in \<open>B\<close> (the finished nodes) before it reached the callee.\<close>

fun call_chain :: "('a \<rightharpoonup> 'a list) \<Rightarrow> 'a set \<Rightarrow> 'a \<Rightarrow> 'a list \<Rightarrow> bool" where
  "call_chain g B node [] = True"
| "call_chain g B node (caller # callers) \<longleftrightarrow>
     (\<exists>ns1 ns2. nbrs g caller = ns1 @ node # ns2 \<and> set ns1 \<subseteq> B) \<and> call_chain g B caller callers"

lemma call_chain_mono: "call_chain g B node stk \<Longrightarrow> B \<subseteq> B' \<Longrightarrow> call_chain g B' node stk"
proof (induction stk arbitrary: node)
  case (Cons c stk)
  then have "call_chain g B' c stk" by auto
  with Cons.prems show ?case by (simp, blast)
qed simp

lemma call_chain_next:
  "call_chain g B node (pre @ c # post) \<Longrightarrow>
   \<exists>ns1 ns2. nbrs g c = ns1 @ last (node # pre) # ns2 \<and> set ns1 \<subseteq> B"
  by (induction pre arbitrary: node) auto

lemma call_chain_path:
  "call_chain g B node (pre @ c # post) \<Longrightarrow>
   successively (\<lambda>u v. (u, v) \<in> graph_edges g) (c # rev pre @ [node])"
proof (induction pre arbitrary: node)
  case (Cons p pre)
  then have "successively (\<lambda>u v. (u, v) \<in> graph_edges g) ((c # rev pre) @ [p])"
    and "node \<in> set (nbrs g p)" by auto
  then show ?case
    using successively_append_iff [of "\<lambda>u v. (u, v) \<in> graph_edges g" "(c # rev pre) @ [p]" "[node]"]
    by simp
qed auto

lemma find_first: "set ns1 \<inter> S = {} \<Longrightarrow> y \<in> S \<Longrightarrow> find (\<lambda>n. n \<in> S) (ns1 @ y # ns2) = Some y"
  by (induction ns1) auto

lemma build_cycle_path_from_chain:
  assumes "call_chain (edges dag) B cn (pre @ c # post)" "B \<inter> S = {}"
    and "distinct (pre @ c # post)" "set (pre @ c # post) = S" "cn \<in> set (c # post)"
    and "length path + length pre < length (nodes dag)"
  shows "build_cycle_path_from dag cn S c path = path @ c # rev pre @ [cn]"
  using assms
proof (induction pre arbitrary: c post path rule: rev_induct)
  case Nil
  obtain ns1 ns2 where ns: "nbrs (edges dag) c = ns1 @ cn # ns2" "set ns1 \<subseteq> B"
    using call_chain_next [OF Nil(1)] by auto
  have "find (\<lambda>n. n \<in> S) (nbrs (edges dag) c) = Some cn"
    unfolding ns(1) using ns(2) Nil by (intro find_first) auto
  then show ?case by (subst build_cycle_path_from.simps) simp
next
  case (snoc d pre)
  obtain ns1 ns2 where ns: "nbrs (edges dag) c = ns1 @ d # ns2" "set ns1 \<subseteq> B"
    using call_chain_next [OF snoc.prems(1)] by auto
  have "find (\<lambda>n. n \<in> S) (nbrs (edges dag) c) = Some d"
    unfolding ns(1) using ns(2) snoc.prems by (intro find_first) auto
  moreover have "d \<noteq> cn" using snoc.prems by auto
  moreover have "build_cycle_path_from dag cn S d (path @ [c]) =
      (path @ [c]) @ d # rev pre @ [cn]"
    using snoc.prems by (intro snoc.IH [of d "c # post"]) auto
  ultimately show ?case
    using snoc.prems(6) by (subst build_cycle_path_from.simps) simp
qed

lemma build_cycle_path_cycle:
  assumes chain: "call_chain (edges dag) B node stk" and "B \<inter> set stk = {}" "distinct stk"
    and node: "node \<in> set stk" and len: "length stk \<le> length (nodes dag)"
  shows "is_cycle (graph_edges (edges dag)) (build_cycle_path dag node (set stk))"
proof -
  obtain pre post where stk: "stk = pre @ node # post" using node by (meson split_list)
  have "build_cycle_path dag node (set stk) = node # rev pre @ [node]"
    unfolding build_cycle_path_def
    using build_cycle_path_from_chain [of dag B node pre node post "set stk" "[]"] assms stk by simp
  with call_chain_path [of "edges dag" B node pre node post] chain stk show ?thesis
    by (simp add: is_cycle_def)
qed

text \<open>What holds of the two sets: the finished nodes \<open>visited - stack\<close> are closed under
  edges and lie on no cycle.\<close>

definition dfs_inv :: "('a \<rightharpoonup> 'a list) \<Rightarrow> 'a set \<Rightarrow> 'a set \<Rightarrow> bool" where
  "dfs_inv g visited stack \<longleftrightarrow> stack \<subseteq> visited \<and>
     (\<forall>u\<in>visited - stack. set (nbrs g u) \<subseteq> visited - stack \<and> (u, u) \<notin> (graph_edges g)\<^sup>+)"

lemma dfs_inv_closed:
  assumes "dfs_inv g visited stack" "(u, v) \<in> (graph_edges g)\<^sup>+" "u \<in> visited - stack"
  shows "v \<in> visited - stack"
  using assms(2,3,1) by (induction rule: trancl_induct) (auto simp: dfs_inv_def)

lemma dfs_inv_push:
  "dfs_inv g visited stack \<Longrightarrow> node \<notin> visited \<Longrightarrow> dfs_inv g (insert node visited) (insert node stack)"
  unfolding dfs_inv_def by auto

lemma dfs_inv_pop:
  assumes inv: "dfs_inv g visited (insert node stack)" and node: "node \<notin> stack"
    and succ: "set (nbrs g node) \<subseteq> visited - insert node stack"
  shows "dfs_inv g visited stack"
proof -
  let ?B = "visited - insert node stack"
  have "(node, node) \<notin> (graph_edges g)\<^sup>+"
  proof
    assume "(node, node) \<in> (graph_edges g)\<^sup>+"
    then obtain s where s: "(node, s) \<in> graph_edges g" "(s, node) \<in> (graph_edges g)\<^sup>*"
      by (meson tranclD)
    then have "s \<in> ?B" using succ by auto
    with s(2) show False
      using dfs_inv_closed [OF inv, of s node] by (auto simp: rtrancl_eq_or_trancl)
  qed
  moreover have "visited - stack = insert node ?B"
    using inv node by (auto simp: dfs_inv_def)
  ultimately show ?thesis using inv succ node unfolding dfs_inv_def by auto
qed

definition dfs_post ::
  "execution_dag \<Rightarrow> bytes set \<Rightarrow> bytes set \<Rightarrow> bytes set \<Rightarrow> (dag_error, bytes set \<times> bytes set) result \<Rightarrow> bool" where
  "dfs_post dag reached visited stack r =
     (case r of
        Inl e \<Rightarrow> (\<exists>path. e = CycleDetected path \<and> is_cycle (graph_edges (edges dag)) path)
      | Inr (visited', stack') \<Rightarrow> stack' = stack \<and> visited \<subseteq> visited' \<and>
          reached \<subseteq> visited' - stack \<and> dfs_inv (edges dag) visited' stack \<and> visited' \<subseteq> set (nodes dag))"

lemma dfs_post_Inr:
  "dfs_post dag reached visited stack (Inr (v, s)) \<longleftrightarrow> s = stack \<and> visited \<subseteq> v \<and>
     reached \<subseteq> v - stack \<and> dfs_inv (edges dag) v stack \<and> v \<subseteq> set (nodes dag)"
  by (simp add: dfs_post_def)

definition dfs_pre :: "execution_dag \<Rightarrow> nat \<Rightarrow> bytes set \<Rightarrow> bytes list \<Rightarrow> bool" where
  "dfs_pre dag depth visited stk \<longleftrightarrow> dfs_inv (edges dag) visited (set stk) \<and> distinct stk \<and>
     visited \<subseteq> set (nodes dag) \<and> length (nodes dag) < length stk + depth"

lemma dfs_pre_length: "dfs_pre dag depth visited stk \<Longrightarrow> length stk \<le> length (nodes dag)"
proof -
  assume pre: "dfs_pre dag depth visited stk"
  then have "set stk \<subseteq> set (nodes dag)" by (auto simp: dfs_pre_def dfs_inv_def)
  then have "card (set stk) \<le> card (set (nodes dag))" by (intro card_mono) simp_all
  with pre show ?thesis
    using card_length [of "nodes dag"] by (simp add: dfs_pre_def distinct_card)
qed

text \<open>The loop over the neighbours of \<open>t\<close>, given what one call does.\<close>

lemma visit_neighbors_correct:
  assumes call: "\<And>node visited stk. \<lbrakk>dfs_pre dag depth visited stk; node \<in> set (nodes dag);
      call_chain (edges dag) (visited - set stk) node stk\<rbrakk>
      \<Longrightarrow> dfs_post dag {node} visited (set stk) (has_cycle_util depth dag node (visited, set stk))"
    and closed: "graph_edges (edges dag) \<subseteq> set (nodes dag) \<times> set (nodes dag)"
    and stk: "stk = t # callers" and "dfs_pre dag depth visited stk"
    and "nbrs (edges dag) t = before @ ns" "set before \<subseteq> visited - set stk"
    and "call_chain (edges dag) (visited - set stk) t callers"
  shows "dfs_post dag (set ns) visited (set stk) (visit_neighbors depth dag ns (visited, set stk))"
  using assms(4-)
proof (induction ns arbitrary: visited before)
  case Nil
  then show ?case by (simp add: dfs_post_Inr dfs_pre_def)
next
  case (Cons n ns)
  have "(t, n) \<in> graph_edges (edges dag)" using Cons.prems(2) by simp
  then have n: "n \<in> set (nodes dag)" using closed by blast
  have "call_chain (edges dag) (visited - set stk) n stk"
    using Cons.prems stk by auto
  with call Cons.prems(1) n have post: "dfs_post dag {n} visited (set stk)
      (has_cycle_util depth dag n (visited, set stk))" by blast
  show ?case
  proof (cases "has_cycle_util depth dag n (visited, set stk)")
    case (Inl e)
    with post show ?thesis by (simp add: dfs_post_def)
  next
    case (Inr r)
    then obtain v where v: "has_cycle_util depth dag n (visited, set stk) = Inr (v, set stk)"
      "visited \<subseteq> v" "n \<in> v - set stk" "dfs_inv (edges dag) v (set stk)" "v \<subseteq> set (nodes dag)"
      using post by (cases r) (auto simp: dfs_post_Inr)
    have "dfs_post dag (set ns) v (set stk) (visit_neighbors depth dag ns (v, set stk))"
    proof (rule Cons.IH)
      show "dfs_pre dag depth v stk" using Cons.prems(1) v by (simp add: dfs_pre_def)
      show "nbrs (edges dag) t = (before @ [n]) @ ns" using Cons.prems(2) by simp
      show "set (before @ [n]) \<subseteq> v - set stk" using Cons.prems(3) v by auto
      show "call_chain (edges dag) (v - set stk) t callers"
        using Cons.prems(4) by (rule call_chain_mono) (use v(2) in blast)
    qed
    with v show ?thesis
      by (auto simp: dfs_post_def split: sum.splits)
  qed
qed

lemma has_cycle_util_correct:
  assumes closed: "graph_edges (edges dag) \<subseteq> set (nodes dag) \<times> set (nodes dag)"
    and "dfs_pre dag depth visited stk" "node \<in> set (nodes dag)"
    and "call_chain (edges dag) (visited - set stk) node stk"
  shows "dfs_post dag {node} visited (set stk) (has_cycle_util depth dag node (visited, set stk))"
  using assms(2-)
proof (induction depth arbitrary: node visited stk)
  case 0
  then show ?case using dfs_pre_length [of dag 0 visited stk] by (simp add: dfs_pre_def)
next
  case (Suc depth)
  note pre = Suc.prems(1) [unfolded dfs_pre_def]
  consider (cycle) "node \<in> set stk" | (seen) "node \<notin> set stk" "node \<in> visited"
    | (new) "node \<notin> visited" "node \<notin> set stk"
    by blast
  then show ?case
  proof cases
    case cycle
    have "is_cycle (graph_edges (edges dag)) (build_cycle_path dag node (set stk))"
      using Suc.prems pre cycle dfs_pre_length [OF Suc.prems(1)]
      by (intro build_cycle_path_cycle [where B = "visited - set stk"]) auto
    with cycle show ?thesis by (simp add: dfs_post_def)
  next
    case seen
    with pre show ?thesis by (simp add: dfs_post_Inr)
  next
    case new
    let ?stk = "node # stk" and ?v = "insert node visited"
    have B: "?v - set ?stk = visited - set stk" using new by auto
    have "dfs_post dag (set (nbrs (edges dag) node)) ?v (set ?stk)
        (visit_neighbors depth dag (nbrs (edges dag) node) (?v, set ?stk))"
    proof (rule visit_neighbors_correct [OF Suc.IH closed, where before = "[]"])
      show "dfs_pre dag depth ?v ?stk"
        using pre new Suc.prems(2) dfs_inv_push [of "edges dag" visited "set stk" node]
        by (simp add: dfs_pre_def)
      show "call_chain (edges dag) (?v - set ?stk) node stk" unfolding B by (rule Suc.prems(3))
    qed simp_all
    then show ?thesis
      using new pre dfs_inv_pop [of "edges dag" _ node "set stk"]
      by (auto simp: dfs_post_def split: sum.splits)
  qed
qed

lemma check_nodes_correct:
  assumes closed: "graph_edges (edges dag) \<subseteq> set (nodes dag) \<times> set (nodes dag)"
    and "dfs_inv (edges dag) visited {}" "visited \<subseteq> set (nodes dag)" "set ns \<subseteq> set (nodes dag)"
    and "set (nodes dag) \<subseteq> visited \<union> set ns"
  shows "case check_nodes dag ns (visited, {}) of
      Inl e \<Rightarrow> \<exists>path. e = CycleDetected path \<and> is_cycle (graph_edges (edges dag)) path
    | Inr _ \<Rightarrow> acyclic (graph_edges (edges dag))"
  using assms(2-)
proof (induction ns arbitrary: visited)
  case Nil
  then have v: "visited = set (nodes dag)" by simp
  have "(u, u) \<notin> (graph_edges (edges dag))\<^sup>+" for u
  proof
    assume c: "(u, u) \<in> (graph_edges (edges dag))\<^sup>+"
    then obtain w where "(u, w) \<in> graph_edges (edges dag)" by (meson tranclD)
    then have "u \<in> visited" using closed v by blast
    with c Nil show False by (auto simp: dfs_inv_def)
  qed
  then show ?case by (simp add: acyclic_def)
next
  case (Cons n ns)
  show ?case
  proof (cases "n \<in> visited")
    case True
    with Cons show ?thesis by auto
  next
    case False
    let ?r = "has_cycle_util (Suc (length (nodes dag))) dag n (visited, {})"
    have post: "dfs_post dag {n} visited {} ?r"
      using has_cycle_util_correct [OF closed, of "Suc (length (nodes dag))" visited "[]" n] Cons.prems
      by (simp add: dfs_pre_def)
    show ?thesis
    proof (cases ?r)
      case (Inl e)
      with post False show ?thesis by (simp add: dfs_post_def)
    next
      case (Inr r)
      then obtain v where v: "?r = Inr (v, {})" "visited \<subseteq> v" "n \<in> v"
        "dfs_inv (edges dag) v {}" "v \<subseteq> set (nodes dag)"
        using post by (cases r) (auto simp: dfs_post_Inr)
      with Cons.IH [of v] Cons.prems False show ?thesis by auto
    qed
  qed
qed

text \<open>\<open>check_cycles\<close> accepts exactly the acyclic graphs, never reaches the recursion limit,
  and the path it reports is a cycle of the graph.\<close>

lemma check_cycles_correct:
  assumes "graph_edges (edges dag) \<subseteq> set (nodes dag) \<times> set (nodes dag)"
  shows "if acyclic (graph_edges (edges dag)) then check_cycles dag = Inr ()
    else \<exists>path. check_cycles dag = Inl (CycleDetected path) \<and> is_cycle (graph_edges (edges dag)) path"
  using check_nodes_correct [OF assms, of "{}" "nodes dag"] is_cycle_not_acyclic
  unfolding check_cycles_def
  by (cases "check_nodes dag (nodes dag) ({}, {})") (auto simp: dfs_inv_def)

section \<open>Topological sort\<close>

text \<open>A possible iteration order of a hash map or set with the keys \<open>S\<close>.\<close>

definition order_of :: "'a list \<Rightarrow> 'a set \<Rightarrow> bool" where
  "order_of ord S \<longleftrightarrow> distinct ord \<and> set ord = S"

definition dag_wf :: "execution_dag \<Rightarrow> bool" where
  "dag_wf dag \<longleftrightarrow> distinct (nodes dag) \<and> dom (edges dag) = set (nodes dag) \<and>
     graph_edges (edges dag) \<subseteq> set (nodes dag) \<times> set (nodes dag)"

lemma count_neighbors_spec:
  "set ns \<subseteq> dom deg \<Longrightarrow> rev_es frm = Some l \<Longrightarrow>
   count_neighbors frm ns (deg, rev_es) =
     Some (\<lambda>v. map_option (\<lambda>d. d + count_list ns v) (deg v), rev_es(frm \<mapsto> l @ ns))"
proof (induction ns arbitrary: deg rev_es l)
  case Nil
  then show ?case by (simp add: option.map_ident fun_upd_idem)
next
  case (Cons n ns)
  obtain d where d: "deg n = Some d" using Cons.prems by auto
  define deg1 where "deg1 = deg(n \<mapsto> d + 1)"
  have dom: "dom deg1 = dom deg" unfolding deg1_def using d by (rule dom_update_known)
  have "count_neighbors frm ns (deg1, rev_es(frm \<mapsto> l @ [n])) =
      Some (\<lambda>v. map_option (\<lambda>d. d + count_list ns v) (deg1 v),
        (rev_es(frm \<mapsto> l @ [n]))(frm \<mapsto> (l @ [n]) @ ns))"
    using Cons.prems dom by (intro Cons.IH) simp_all
  moreover have "(\<lambda>v. map_option (\<lambda>d. d + count_list ns v) (deg1 v)) =
      (\<lambda>v. map_option (\<lambda>d. d + count_list (n # ns) v) (deg v))"
    using d by (auto simp: deg1_def)
  moreover have "count_neighbors frm (n # ns) (deg, rev_es) =
      count_neighbors frm ns (deg1, rev_es(frm \<mapsto> l @ [n]))"
    using Cons.prems(2) d by (simp add: deg1_def)
  ultimately show ?case by (simp only: append_assoc append.simps fun_upd_upd)
qed

lemma count_edges_spec:
  "distinct ord \<Longrightarrow> (\<And>u. u \<in> set ord \<Longrightarrow> set (nbrs es u) \<subseteq> dom deg \<and> rev_es u = Some []) \<Longrightarrow>
   count_edges es ord (deg, rev_es) =
     Some (\<lambda>v. map_option (\<lambda>d. d + (\<Sum>u\<leftarrow>ord. count_list (nbrs es u) v)) (deg v),
           \<lambda>u. if u \<in> set ord then Some (nbrs es u) else rev_es u)"
proof (induction ord arbitrary: deg rev_es)
  case Nil
  then show ?case by (simp add: option.map_ident)
next
  case (Cons u ord)
  define deg1 where "deg1 = (\<lambda>v. map_option (\<lambda>d. d + count_list (nbrs es u) v) (deg v))"
  have dom: "dom deg1 = dom deg" by (auto simp: deg1_def)
  have "count_neighbors u (nbrs es u) (deg, rev_es) = Some (deg1, rev_es(u \<mapsto> nbrs es u))"
    using count_neighbors_spec [of "nbrs es u" deg rev_es u "[]"] Cons.prems(2) [of u]
    by (simp add: deg1_def)
  moreover have "count_edges es ord (deg1, rev_es(u \<mapsto> nbrs es u)) =
     Some (\<lambda>v. map_option (\<lambda>d. d + (\<Sum>u\<leftarrow>ord. count_list (nbrs es u) v)) (deg1 v),
           \<lambda>w. if w \<in> set ord then Some (nbrs es w) else (rev_es(u \<mapsto> nbrs es u)) w)"
    using Cons.prems dom by (intro Cons.IH) auto
  ultimately show ?case
    by (auto simp: deg1_def option.map_comp comp_def add.assoc fun_eq_iff
        intro!: option.map_cong)
qed

lemma map_of_const: "map_of (map (\<lambda>n. (n, c)) xs) = (\<lambda>v. if v \<in> set xs then Some c else None)"
  by (induction xs) auto

lemma dom_const: "dom (\<lambda>v. if v \<in> S then Some c else None) = S"
  by (auto split: if_splits)

lemma count_edges_init:
  assumes wf: "dag_wf dag" and ord: "order_of ord (dom (edges dag))"
  shows "count_edges (edges dag) ord
      (map_of (map (\<lambda>n. (n, 0)) (nodes dag)), map_of (map (\<lambda>n. (n, [])) (nodes dag))) =
    Some (\<lambda>v. if v \<in> set (nodes dag)
              then Some (\<Sum>u\<in>set (nodes dag). count_list (nbrs (edges dag) u) v) else None,
          \<lambda>u. if u \<in> set (nodes dag) then Some (nbrs (edges dag) u) else None)"
proof -
  have "set ord = set (nodes dag)" "distinct ord"
    using wf ord by (simp_all add: dag_wf_def order_of_def)
  moreover have "set (nbrs (edges dag) u) \<subseteq> set (nodes dag)" for u
    using wf by (auto simp: dag_wf_def graph_edges_def)
  ultimately show ?thesis
    by (subst count_edges_spec) (simp_all add: map_of_const dom_const fun_eq_iff sum_list_distinct_conv_sum_set)
qed

text \<open>The sort ends for every order of the maps; it returns a topological order of all nodes
  when the graph is acyclic, and the cycle error otherwise.\<close>

lemma topological_sort_correct:
  assumes wf: "dag_wf dag" and ord1: "order_of ord_edges (dom (edges dag))"
    and ord2: "order_of ord_degree (set (nodes dag))"
  shows "if acyclic (graph_edges (edges dag))
    then \<exists>res. topological_sort ord_edges ord_degree dag = Some (Inr res) \<and>
      order_of res (set (nodes dag)) \<and> in_order (graph_edges (edges dag)) res
    else topological_sort ord_edges ord_degree dag = Some (Inl PipelineContainsCycles)"
proof -
  let ?N = "set (nodes dag)" and ?es = "edges dag"
  define deg where "deg = (\<lambda>v. if v \<in> ?N then Some (\<Sum>u\<in>?N. count_list (nbrs ?es u) v) else None)"
  define g where "g = (\<lambda>u. if u \<in> ?N then Some (nbrs ?es u) else None)"
  have nbrs: "nbrs g u = nbrs ?es u" for u
    using wf by (auto simp: g_def nbrs_def dag_wf_def dom_def split: option.splits)
  then have g: "graph_edges g = graph_edges ?es" by (simp add: graph_edges_def)
  let ?q = "filter (\<lambda>name. deg name = Some 0) ord_degree"
  have "mset ?q = mset_set {v \<in> ?N. deg v = Some 0}"
    using ord2 by (metis (no_types) distinct_filter mset_set_set order_of_def set_filter)
  then obtain res where res: "kahn_loop pop_front push_back g ?q deg [] = Some (Some res)"
      "distinct res" "set res \<subseteq> ?N" "in_order (graph_edges g) res"
      "set res = ?N \<longleftrightarrow> acyclic (graph_edges g)"
    using fifo.kahn_correct [of ?N g deg ?q] wf unfolding deg_def nbrs g dag_wf_def by blast
  have len: "length res = length (nodes dag) \<longleftrightarrow> set res = ?N"
  proof
    assume "length res = length (nodes dag)"
    then have "card (set res) = card ?N"
      using wf res(2) by (simp add: distinct_card dag_wf_def)
    with res(3) show "set res = ?N" by (simp add: card_subset_eq)
  next
    assume "set res = ?N"
    then show "length res = length (nodes dag)"
      using wf res(2) by (metis dag_wf_def distinct_card)
  qed
  have "topological_sort ord_edges ord_degree dag =
      Some (ensure (length res = length (nodes dag)) PipelineContainsCycles (Inr res))"
    unfolding topological_sort_def count_edges_init [OF wf ord1]
    using res(1) by (simp add: deg_def g_def Let_def)
  then show ?thesis using res(2-) len g by (simp add: order_of_def ensure_def)
qed

section \<open>Groups and depths\<close>

lemma set_get_dependencies:
  assumes "dag_wf dag" "order_of ord_edges (dom (edges dag))"
  shows "set (get_dependencies ord_edges dag v) = {u. (u, v) \<in> graph_edges (edges dag)}"
  using assms by (auto simp: get_dependencies_def order_of_def nbrs_def dom_def split: option.splits)

text \<open>\<open>layered E N gs\<close>: the groups partition \<open>N\<close>, none is empty, every predecessor of a node
  stands in an earlier group, and one of them in the group just before.\<close>

definition layered :: "('a \<times> 'a) set \<Rightarrow> 'a set \<Rightarrow> 'a list list \<Rightarrow> bool" where
  "layered E N gs \<longleftrightarrow> order_of (concat gs) N \<and> [] \<notin> set gs \<and>
     (\<forall>i<length gs. \<forall>v\<in>set (gs ! i). \<forall>u\<in>N. (u, v) \<in> E \<longrightarrow> u \<in> set (concat (take i gs))) \<and>
     (\<forall>i. Suc i < length gs \<longrightarrow> (\<forall>v\<in>set (gs ! Suc i). \<exists>u\<in>set (gs ! i). (u, v) \<in> E))"

lemma layered_Cons:
  assumes gs: "layered E N' gs" and g: "distinct g" "g \<noteq> []" "set g = {v \<in> N. \<forall>u\<in>N. (u, v) \<notin> E}"
    and N': "N' = N - set g"
  shows "layered E N (g # gs)"
  unfolding layered_def
proof (intro conjI allI impI ballI)
  have all: "set (concat gs) = N'" and dist: "distinct (concat gs)"
    using gs by (simp_all add: layered_def order_of_def)
  have sub: "set g \<subseteq> N" using g(3) by auto
  show "order_of (concat (g # gs)) N" using all dist g(1) N' sub by (auto simp: order_of_def)
  show "[] \<notin> set (g # gs)" using gs g(2) by (auto simp: layered_def)
  fix i v
  {
    fix u assume v: "i < length (g # gs)" "v \<in> set ((g # gs) ! i)" and u: "u \<in> N" "(u, v) \<in> E"
    show "u \<in> set (concat (take i (g # gs)))"
    proof (cases i)
      case 0
      then show ?thesis using v u g(3) by auto
    next
      case (Suc j)
      then have "u \<in> N' \<Longrightarrow> u \<in> set (concat (take j gs))"
        using gs v u by (simp add: layered_def)
      with Suc u(1) N' show ?thesis by auto
    qed
  next
    assume v: "Suc i < length (g # gs)" "v \<in> set ((g # gs) ! Suc i)"
    show "\<exists>u\<in>set ((g # gs) ! i). (u, v) \<in> E"
    proof (cases i)
      case 0
      then have "v \<in> set (gs ! 0)" "0 < length gs" using v by simp_all
      then have "v \<in> N'" using all by auto
      then obtain u where "u \<in> N" "(u, v) \<in> E" using N' g(3) by auto
      moreover have "u \<notin> N'"
        using gs \<open>v \<in> set (gs ! 0)\<close> \<open>0 < length gs\<close> \<open>(u, v) \<in> E\<close>
        unfolding layered_def by fastforce
      ultimately show ?thesis using 0 N' by auto
    next
      case (Suc j)
      then show ?thesis using gs v by (simp add: layered_def)
    qed
  }
qed

lemma groups_loop_correct:
  assumes wf: "dag_wf dag" and ord: "order_of ord_edges (dom (edges dag))"
    and ac: "acyclic (graph_edges (edges dag))" and "distinct rem"
  shows "\<exists>gs. groups_loop ord_edges dag rem groups = Some (groups @ gs) \<and>
    layered (graph_edges (edges dag)) (set rem) gs"
  using assms(4)
proof (induction "length rem" arbitrary: rem groups rule: less_induct)
  case less
  let ?E = "graph_edges (edges dag)"
  show ?case
  proof (cases "rem = []")
    case True
    then show ?thesis
      by (subst groups_loop.simps) (simp add: layered_def order_of_def)
  next
    case False
    define g where "g = filter (\<lambda>node. list_all (\<lambda>dep. dep \<notin> set rem)
      (get_dependencies ord_edges dag node)) rem"
    have g: "set g = {v \<in> set rem. \<forall>u\<in>set rem. (u, v) \<notin> ?E}"
      unfolding g_def using set_get_dependencies [OF wf ord] by (auto simp: list_all_iff)
    have "g \<noteq> []"
    proof
      assume "g = []"
      then have "\<exists>u\<in>set rem. (u, v) \<in> ?E" if "v \<in> set rem" for v using g that by auto
      with no_source_cycle [of "set rem" ?E] ac False show False by auto
    qed
    let ?rem = "filter (\<lambda>node. node \<notin> set g) rem"
    have "length ?rem < length rem"
    proof -
      obtain x where "x \<in> set g" using \<open>g \<noteq> []\<close> by (cases g) auto
      then have "x \<in> set rem" "\<not> x \<notin> set g" using g by auto
      then show ?thesis by (intro length_filter_less)
    qed
    then obtain gs where gs: "groups_loop ord_edges dag ?rem (groups @ [g]) = Some ((groups @ [g]) @ gs)"
      "layered ?E (set ?rem) gs"
      using less.hyps [of ?rem "groups @ [g]"] less.prems by auto
    have "layered ?E (set rem) (g # gs)"
    proof (rule layered_Cons [OF gs(2)])
      show "distinct g" unfolding g_def using less.prems by simp
    qed (use \<open>g \<noteq> []\<close> g in auto)
    moreover have "groups_loop ord_edges dag rem groups = Some (groups @ g # gs)"
      using False \<open>g \<noteq> []\<close> gs(1) by (subst groups_loop.simps) (simp add: g_def [symmetric] Let_def)
    ultimately show ?thesis by blast
  qed
qed

text \<open>The depths follow their recursive equation.\<close>

definition depth_of :: "('a \<rightharpoonup> nat) \<Rightarrow> 'a list \<Rightarrow> nat" where
  "depth_of depths deps = (if deps = [] then 0
     else foldr max (map (\<lambda>dep. case depths dep of None \<Rightarrow> 0 | Some d \<Rightarrow> d) deps) 0 + 1)"

lemma depths_loop_unfold:
  "depths_loop ord dag (v # vs) (depths, deepest) =
    (let d = depth_of depths (get_dependencies ord dag v)
     in depths_loop ord dag vs (depths(v \<mapsto> d), max deepest d))"
  by (simp add: depth_of_def Let_def)

lemma depth_of_cong:
  "(\<And>u. u \<in> set deps \<Longrightarrow> depths u = depths' u) \<Longrightarrow> depth_of depths deps = depth_of depths' deps"
  unfolding depth_of_def by (metis (mono_tags, lifting) map_cong)

lemma depths_loop_keeps:
  "v \<notin> set vs \<Longrightarrow> fst (depths_loop ord dag vs (depths, deepest)) v = depths v"
  by (induction vs arbitrary: depths deepest) (simp_all add: depths_loop_unfold Let_def del: depths_loop.simps(2))

lemma depths_loop_correct:
  assumes deps: "\<And>v. set (get_dependencies ord dag v) = {u. (u, v) \<in> E}"
    and "in_order E (pre @ vs)" "distinct (pre @ vs)"
    and "(f, m) = depths_loop ord dag vs (depths, deepest)"
  shows "(\<forall>v\<in>set vs. f v = Some (depth_of f (get_dependencies ord dag v))) \<and>
    m = foldr max (map (\<lambda>v. the (f v)) vs) deepest"
  using assms(2-)
proof (induction vs arbitrary: pre depths deepest)
  case Nil
  then show ?case by simp
next
  case (Cons v vs)
  let ?deps = "get_dependencies ord dag v"
  let ?d = "depth_of depths ?deps"
  have eq: "(f, m) = depths_loop ord dag vs (depths(v \<mapsto> ?d), max deepest ?d)"
    using Cons.prems(3) by (simp add: depths_loop_unfold Let_def del: depths_loop.simps(2))
  have f: "u \<notin> set vs \<Longrightarrow> f u = (depths(v \<mapsto> ?d)) u" for u
    using depths_loop_keeps [of u vs ord dag "depths(v \<mapsto> ?d)" "max deepest ?d"] by (simp add: eq [symmetric])
  have "set ?deps \<subseteq> set pre" using Cons.prems(1) deps by (auto simp: in_order_def)
  then have "depth_of f ?deps = ?d"
  proof (intro depth_of_cong)
    fix u assume "set ?deps \<subseteq> set pre" "u \<in> set ?deps"
    then have "u \<notin> set vs" "u \<noteq> v" using Cons.prems(2) by auto
    then show "f u = depths u" by (simp add: f)
  qed
  moreover have "f v = Some ?d" using f [of v] Cons.prems(2) by simp
  moreover have "(\<forall>v\<in>set vs. f v = Some (depth_of f (get_dependencies ord dag v))) \<and>
      m = foldr max (map (\<lambda>v. the (f v)) vs) (max deepest ?d)"
    using Cons.prems(1,2) by (intro Cons.IH [OF _ _ eq, of "pre @ [v]"]) simp_all
  moreover have "foldr max xs (max a b) = max b (foldr max xs a)" for xs and a b :: nat
    by (induction xs) auto
  ultimately show ?case by simp
qed

lemma foldr_max_le: "(\<And>x. x \<in> set xs \<Longrightarrow> x \<le> k) \<Longrightarrow> foldr max xs 0 \<le> (k :: nat)"
  by (induction xs) auto

lemma foldr_max_ge: "x \<in> set xs \<Longrightarrow> x \<le> foldr max xs (a :: nat)"
  by (induction xs) auto

lemma foldr_max_eq: "(\<And>x. x \<in> set xs \<Longrightarrow> x \<le> k) \<Longrightarrow> k \<in> set xs \<Longrightarrow> foldr max xs 0 = (k :: nat)"
  using foldr_max_le foldr_max_ge by (metis le_antisym)

lemma layered_depth:
  assumes gs: "layered E N gs" and E: "E \<subseteq> N \<times> N"
    and deps: "\<And>v. set (deps v) = {u. (u, v) \<in> E}"
    and f: "\<And>v. v \<in> N \<Longrightarrow> f v = Some (depth_of f (deps v))"
  shows "i < length gs \<Longrightarrow> v \<in> set (gs ! i) \<Longrightarrow> f v = Some i"
proof (induction i arbitrary: v rule: less_induct)
  case (less i)
  have vN: "v \<in> N" using less.prems gs by (auto simp: layered_def order_of_def)
  have early: "\<exists>j<i. u \<in> set (gs ! j)" if "(u, v) \<in> E" for u
  proof -
    have "u \<in> set (concat (take i gs))"
      using gs less.prems that E unfolding layered_def by blast
    then obtain g where "g \<in> set (take i gs)" "u \<in> set g" by auto
    then show ?thesis using less.prems(1) by (auto simp: in_set_conv_nth [of g])
  qed
  have depths: "\<exists>j<i. f u = Some j" if "u \<in> set (deps v)" for u
    using early [of u] that deps less.IH less.prems(1) by (metis less_trans mem_Collect_eq)
  show ?case
  proof (cases i)
    case 0
    then have "deps v = []" using early deps [of v] by (metis empty_set less_nat_zero_code empty_Collect_eq set_empty)
    with 0 f [OF vN] show ?thesis by (simp add: depth_of_def)
  next
    case (Suc j)
    then obtain u where u: "u \<in> set (gs ! j)" "(u, v) \<in> E"
      using gs less.prems unfolding layered_def by blast
    have fu: "f u = Some j" using less.IH [of j u] u(1) less.prems(1) Suc by simp
    have mem: "u \<in> set (deps v)" using u(2) deps by simp
    have "foldr max (map (\<lambda>d. case f d of None \<Rightarrow> 0 | Some d \<Rightarrow> d) (deps v)) 0 = j"
    proof (rule foldr_max_eq)
      show "j \<in> set (map (\<lambda>d. case f d of None \<Rightarrow> 0 | Some d \<Rightarrow> d) (deps v))"
        using fu mem by (force simp: image_iff)
      show "x \<le> j" if "x \<in> set (map (\<lambda>d. case f d of None \<Rightarrow> 0 | Some d \<Rightarrow> d) (deps v))" for x
        using depths that Suc by fastforce
    qed
    with mem Suc f [OF vN] show ?thesis by (auto simp: depth_of_def)
  qed
qed

lemma analyze_correct:
  assumes wf: "dag_wf dag" "acyclic (graph_edges (edges dag))"
    and ord: "order_of ord_edges (set (nodes dag))" "order_of ord_degree (set (nodes dag))"
      "order_of ord_degree2 (set (nodes dag))"
      "\<And>xs. order_of xs (set (nodes dag)) \<Longrightarrow> order_of (ord_set xs) (set xs)"
  shows "\<exists>a. analyze ord_edges ord_degree ord_degree2 ord_set dag = Some a \<and>
    layered (graph_edges (edges dag)) (set (nodes dag)) (parallelizable_groups a) \<and>
    (\<forall>i<length (parallelizable_groups a). \<forall>v\<in>set (parallelizable_groups a ! i).
       node_depths a v = Some i)"
proof -
  let ?E = "graph_edges (edges dag)"
  have ordE: "order_of ord_edges (dom (edges dag))" using ord(1) wf(1) by (simp add: dag_wf_def)
  have E: "?E \<subseteq> set (nodes dag) \<times> set (nodes dag)" using wf(1) by (simp add: dag_wf_def)
  obtain res where res: "topological_sort ord_edges ord_degree dag = Some (Inr res)"
    "order_of res (set (nodes dag))" "in_order ?E res"
    using topological_sort_correct [OF wf(1) ordE ord(2)] wf(2) by auto
  obtain res2 where res2: "topological_sort ord_edges ord_degree2 dag = Some (Inr res2)"
    "order_of res2 (set (nodes dag))"
    using topological_sort_correct [OF wf(1) ordE ord(3)] wf(2) by auto
  have set2: "order_of (ord_set res2) (set (nodes dag))"
    using ord(4) [OF res2(2)] res2(2) by (simp add: order_of_def)
  then obtain gs where gs: "groups_loop ord_edges dag (ord_set res2) [] = Some gs"
    "layered ?E (set (nodes dag)) gs"
    using groups_loop_correct [OF wf(1) ordE wf(2), of "ord_set res2" "[]"] by (auto simp: order_of_def)
  obtain f m where f: "(f, m) = depths_loop ord_edges dag res (Map.empty, 0)"
    by (metis surj_pair)
  have "\<forall>v\<in>set (nodes dag). f v = Some (depth_of f (get_dependencies ord_edges dag v))"
    using depths_loop_correct [of ord_edges dag ?E "[]" res f m] set_get_dependencies [OF wf(1) ordE] res f
    by (simp add: order_of_def)
  then have depth: "\<forall>i<length gs. \<forall>v\<in>set (gs ! i). f v = Some i"
    using layered_depth [OF gs(2) E set_get_dependencies [OF wf(1) ordE], of f] by blast
  obtain a where a: "analyze ord_edges ord_degree ord_degree2 ord_set dag = Some a"
    "parallelizable_groups a = gs" "node_depths a = f"
    using res(1) res2(1) gs(1) by (simp add: analyze_def find_parallelizable_groups_def f [symmetric])
  show ?thesis
  proof (intro exI conjI)
    show "layered ?E (set (nodes dag)) (parallelizable_groups a)"
      using gs(2) a(2) by simp
  qed (use a depth in simp_all)
qed

lemma needs_edges_keys: "(u, v) \<in> needs_edges m \<Longrightarrow> v \<in> set (keys m)"
  by (auto simp: needs_edges_def keys_def intro: rev_image_eqI)

lemma build_cases:
  "case build p of
     Inr dag \<Rightarrow> nodes dag = keys (steps p) \<and> dom (edges dag) = set (keys (steps p)) \<and>
       graph_edges (edges dag) = needs_edges (steps p) \<and>
       fst ` needs_edges (steps p) \<subseteq> set (keys (steps p)) \<and> acyclic (needs_edges (steps p))
   | Inl (UnknownStep v u) \<Rightarrow> (u, v) \<in> needs_edges (steps p) \<and> u \<notin> set (keys (steps p))
   | Inl (CycleDetected path) \<Rightarrow> fst ` needs_edges (steps p) \<subseteq> set (keys (steps p)) \<and>
       is_cycle (needs_edges (steps p)) path
   | _ \<Rightarrow> False"
proof (cases "fst ` needs_edges (steps p) \<subseteq> set (keys (steps p))")
  case False
  then have "\<not> fst ` needs_edges (steps p) \<subseteq> dom (map_of (map (\<lambda>k. (k, [])) (keys (steps p))))"
    by simp
  from add_edges_unknown [OF this] obtain u v where
    "add_edges (steps p) (map_of (map (\<lambda>k. (k, [])) (keys (steps p)))) = Inl (UnknownStep v u)"
    "(u, v) \<in> needs_edges (steps p)" "u \<notin> set (keys (steps p))" by auto
  then show ?thesis by (simp add: build_def)
next
  case True
  then have "fst ` needs_edges (steps p) \<subseteq> dom (map_of (map (\<lambda>k. (k, [])) (keys (steps p))))"
    by simp
  from add_edges_ok [OF this] obtain es where
    es: "add_edges (steps p) (map_of (map (\<lambda>k. (k, [])) (keys (steps p)))) = Inr es"
    "dom es = set (keys (steps p))" "graph_edges es = needs_edges (steps p)" by auto
  define dag where "dag = \<lparr>nodes = keys (steps p), edges = es\<rparr>"
  have "u \<in> set (keys (steps p))" if "(u, v) \<in> needs_edges (steps p)" for u v
    using True rev_image_eqI [OF that, of u fst] by auto
  then have sub: "graph_edges (edges dag) \<subseteq> set (nodes dag) \<times> set (nodes dag)"
    using es(3) needs_edges_keys by (auto simp: dag_def simp del: graph_edges_iff)
  have "build p = and_then (check_cycles dag) (\<lambda>_. Inr dag)"
    by (simp add: build_def es dag_def Let_def)
  with check_cycles_correct [OF sub] True es show ?thesis
    by (auto simp: dag_def split: if_splits)
qed

lemma build_ok_iff:
  "is_ok (build p) \<longleftrightarrow>
     fst ` needs_edges (steps p) \<subseteq> set (keys (steps p)) \<and> acyclic (needs_edges (steps p))"
  using build_cases [of p] is_cycle_not_acyclic [of "needs_edges (steps p)"]
  by (cases "build p") (auto split: dag_error.splits intro: rev_image_eqI)

lemma build_wf:
  assumes "build p = Inr dag" "btree_ok (steps p)"
  shows "dag_wf dag" "nodes dag = keys (steps p)" "dom (edges dag) = set (nodes dag)"
    "graph_edges (edges dag) = needs_edges (steps p)" "acyclic (graph_edges (edges dag))"
proof -
  have p: "nodes dag = keys (steps p)" "dom (edges dag) = set (keys (steps p))"
       "graph_edges (edges dag) = needs_edges (steps p)"
       "fst ` needs_edges (steps p) \<subseteq> set (keys (steps p))" "acyclic (needs_edges (steps p))"
    using build_cases [of p] assms(1) by simp_all
  have "distinct (keys (steps p))"
    using assms(2) by (simp add: btree_ok_def keys_def strict_sorted_iff)
  moreover have "u \<in> set (keys (steps p)) \<and> v \<in> set (keys (steps p))" if "(u, v) \<in> needs_edges (steps p)" for u v
    using needs_edges_keys [OF that] subsetD [OF p(4), of u] rev_image_eqI [OF that, of u fst] by simp
  ultimately show "dag_wf dag" unfolding dag_wf_def p by auto
  show "nodes dag = keys (steps p)" "dom (edges dag) = set (nodes dag)"
    "graph_edges (edges dag) = needs_edges (steps p)" "acyclic (graph_edges (edges dag))"
    using p by simp_all
qed

section \<open>Properties\<close>

text \<open>
  C36. \<open>ExecutionDAG::build\<close> decides exactly what it has to: it returns the graph whose nodes
  are the step names and whose edges are the declared needs when every need names a step and
  there is no cycle; otherwise it names a step and an unknown need of it, or a path along
  declared needs that returns to its start. It fails in no other way: in particular the
  recursion of the cycle check is never deeper than the number of steps.
\<close>

theorem build_correct:
  "(case build p of
      Inr dag \<Rightarrow> nodes dag = keys (steps p) \<and> graph_edges (edges dag) = needs_edges (steps p)
    | Inl (UnknownStep v u) \<Rightarrow> (u, v) \<in> needs_edges (steps p) \<and> u \<notin> set (keys (steps p))
    | Inl (CycleDetected path) \<Rightarrow> is_cycle (needs_edges (steps p)) path
    | _ \<Rightarrow> False) \<and>
   (is_ok (build p) \<longleftrightarrow>
      fst ` needs_edges (steps p) \<subseteq> set (keys (steps p)) \<and> acyclic (needs_edges (steps p)))"
  using build_cases [of p] build_ok_iff [of p]
  by (cases "build p") (auto split: dag_error.splits)

text \<open>
  Whatever the iteration order of the hash maps, the graph of an accepted pipeline is
  sorted: \<open>topological_sort\<close> ends and returns every step once, after all the steps it needs.
\<close>

theorem topological_sort_of_build:
  assumes "build p = Inr dag" "btree_ok (steps p)"
    and "order_of ord_edges (set (nodes dag))" "order_of ord_degree (set (nodes dag))"
  shows "\<exists>res. topological_sort ord_edges ord_degree dag = Some (Inr res) \<and>
    order_of res (set (keys (steps p))) \<and> in_order (needs_edges (steps p)) res"
  using topological_sort_correct [of dag ord_edges ord_degree] build_wf [OF assms(1,2)] assms(3,4)
  by simp

definition example_step :: "bytes list option \<Rightarrow> step" where
  "example_step needs = \<lparr>step_run = ''make'', step_inputs = [], step_outputs = [],
     step_needs = needs, step_env = None, working_dir = None, step_image = None,
     step_capsule = None, step_cache = True, timeout_secs = None, step_attestation = None\<rparr>"

definition example_pipeline :: pipeline where
  "example_pipeline = \<lparr>schema_version = None, pipeline_version = ''1'', pipeline_name = None,
     steps = [(''a'', example_step (Some [''c''])), (''b'', example_step (Some [''c''])),
              (''c'', example_step None)],
     pipeline_env = [],
     attestation = \<lparr>sign_all_steps = False, verify_dependencies = False,
       require_reproducible = False\<rparr>\<rparr>"

definition example_dag :: execution_dag where
  "example_dag = \<lparr>nodes = [''a'', ''b'', ''c''],
     edges = [''a'' \<mapsto> [], ''b'' \<mapsto> [], ''c'' \<mapsto> [''a'', ''b'']]\<rparr>"

lemma example_build: "build example_pipeline = Inr example_dag"
  by (simp add: build_def example_pipeline_def example_dag_def example_step_def keys_def
      check_cycles_def nbrs_def Let_def fun_eq_iff eval_nat_numeral)

theorem topological_sort_of_build_witness:
  "\<exists>res. topological_sort [''b'', ''c'', ''a''] [''c'', ''b'', ''a''] example_dag = Some (Inr res) \<and>
    order_of res (set (keys (steps example_pipeline))) \<and>
    in_order (needs_edges (steps example_pipeline)) res"
proof (rule topological_sort_of_build [OF example_build])
  show "btree_ok (steps example_pipeline)"
    by (simp add: btree_ok_def example_pipeline_def)
qed (auto simp: order_of_def example_dag_def)

text \<open>
  The analysis of an accepted pipeline ends. Its parallel groups hold every step once;
  all the steps a step needs stand in earlier groups, one of them in the group just before,
  so that steps of one group are independent and none could run earlier; and the recorded
  depth of a step is the number of its group.
\<close>

theorem analyze_of_build:
  assumes build: "build p = Inr dag" "btree_ok (steps p)"
    and ord: "order_of ord_edges (set (nodes dag))" "order_of ord_degree (set (nodes dag))"
      "order_of ord_degree2 (set (nodes dag))"
      "\<And>xs. order_of xs (set (nodes dag)) \<Longrightarrow> order_of (ord_set xs) (set xs)"
  shows "\<exists>a. analyze ord_edges ord_degree ord_degree2 ord_set dag = Some a \<and>
    layered (needs_edges (steps p)) (set (keys (steps p))) (parallelizable_groups a) \<and>
    (\<forall>i<length (parallelizable_groups a). \<forall>v\<in>set (parallelizable_groups a ! i).
       node_depths a v = Some i)"
  using analyze_correct [OF build_wf(1,5) [OF build] ord] build_wf(2,4) [OF build] by simp

theorem analyze_of_build_witness:
  "\<exists>a. analyze [''b'', ''c'', ''a''] [''c'', ''b'', ''a''] [''a'', ''b'', ''c''] rev example_dag = Some a \<and>
    layered (needs_edges (steps example_pipeline)) (set (keys (steps example_pipeline)))
      (parallelizable_groups a) \<and>
    (\<forall>i<length (parallelizable_groups a). \<forall>v\<in>set (parallelizable_groups a ! i).
       node_depths a v = Some i)"
proof (rule analyze_of_build [OF example_build])
  show "btree_ok (steps example_pipeline)"
    by (simp add: btree_ok_def example_pipeline_def)
qed (auto simp: order_of_def example_dag_def)

end
