(* ===== verification/Pipelines.thy ===== *)
theory Pipelines
  imports Dag
begin

text \<open>
  Validation and export of pipelines: \<open>Step::validate\<close>, \<open>Step::effective_env\<close> and
  \<open>Step::execution_shape\<close> of \<open>src/pipeline/step.rs\<close>, \<open>Pipeline::validate\<close> of
  \<open>src/pipeline/parser.rs\<close>, the reporting validation of \<open>src/pipeline/validation.rs\<close> and the
  exporters of \<open>src/pipeline/exports.rs\<close>. The Unicode tables behind \<open>to_lowercase\<close>,
  \<open>to_uppercase\<close> and \<open>is_alphanumeric\<close>, the JSON serialiser and BLAKE3 are arguments.
\<close>

section \<open>Steps\<close>

datatype pipeline_error =
    SchemaTooNew u32
  | VersionRequired
  | NoSteps
  | DagError dag_error
  | EmptyRun bytes
  | AbsoluteInput bytes bytes
  | AbsoluteOutput bytes bytes
  | UnknownDependency bytes bytes

text \<open>\<open>Path::is_absolute\<close> on Unix.\<close>

definition is_absolute :: "bytes \<Rightarrow> bool" where
  "is_absolute path = starts_with path ''/''"

definition step_validate :: "step \<Rightarrow> bytes \<Rightarrow> (pipeline_error, unit) result" where
  "step_validate st step_name =
     ensure (\<not> trim_is_empty (step_run st)) (EmptyRun step_name) (
     (case find is_absolute (step_inputs st) of
        Some input \<Rightarrow> Inl (AbsoluteInput step_name input)
      | None \<Rightarrow>
          (case find is_absolute (step_outputs st) of
             Some output \<Rightarrow> Inl (AbsoluteOutput step_name output)
           | None \<Rightarrow> Inr ())))"

definition execution_shape :: "(step \<Rightarrow> bytes) \<Rightarrow> (bytes \<Rightarrow> bytes) \<Rightarrow> step \<Rightarrow> bytes" where
  "execution_shape to_json blake3_hex st = blake3_hex (to_json st)"

definition effective_env :: "step \<Rightarrow> bytes btree \<Rightarrow> bytes btree" where
  "effective_env st penv =
     (case step_env st of
        None \<Rightarrow> penv
      | Some env \<Rightarrow> foldl (\<lambda>e (k, v). btree_insert k v e) penv env)"

section \<open>Validation on load\<close>

definition PIPELINE_SCHEMA_VERSION :: u32 where "PIPELINE_SCHEMA_VERSION = 1"

fun validate_needs :: "step btree \<Rightarrow> bytes \<Rightarrow> bytes list \<Rightarrow> (pipeline_error, unit) result" where
  "validate_needs m name [] = Inr ()"
| "validate_needs m name (dep # needs) =
     ensure (contains_key m dep) (UnknownDependency name dep) (validate_needs m name needs)"

fun validate_steps :: "step btree \<Rightarrow> step btree \<Rightarrow> (pipeline_error, unit) result" where
  "validate_steps m [] = Inr ()"
| "validate_steps m ((name, st) # rest) =
     and_then (step_validate st name) (\<lambda>_.
     and_then (case step_needs st of None \<Rightarrow> Inr () | Some needs \<Rightarrow> validate_needs m name needs)
       (\<lambda>_. validate_steps m rest))"

definition validate :: "pipeline \<Rightarrow> (pipeline_error, unit) result" where
  "validate p =
     (case schema_version p of
        Some v \<Rightarrow> ensure (v \<le> PIPELINE_SCHEMA_VERSION) (SchemaTooNew v)
      | None \<Rightarrow> id) (
     ensure (pipeline_version p \<noteq> []) VersionRequired (
     ensure (steps p \<noteq> []) NoSteps (
     and_then (map_err DagError (build p)) (\<lambda>_.
     validate_steps (steps p) (steps p)))))"

section \<open>Reporting validation\<close>

datatype severity = Error | Warning | Info

record validation_error =
  err_step :: "bytes option"
  err_field :: "bytes option"
  err_message :: bytes
  err_severity :: severity

record validation_result =
  errors :: "validation_error list"
  warnings :: "validation_error list"
  info :: "validation_error list"
  is_valid :: bool

definition validation_new :: validation_result where
  "validation_new = \<lparr>errors = [], warnings = [], info = [], is_valid = True\<rparr>"

definition add_error :: "bytes option \<Rightarrow> bytes \<Rightarrow> bytes \<Rightarrow> validation_result \<Rightarrow> validation_result" where
  "add_error st field message r =
     r\<lparr>errors := errors r @ [\<lparr>err_step = st, err_field = Some field, err_message = message,
                              err_severity = Error\<rparr>],
       is_valid := False\<rparr>"

definition add_warning :: "bytes option \<Rightarrow> bytes \<Rightarrow> bytes \<Rightarrow> validation_result \<Rightarrow> validation_result" where
  "add_warning st field message r =
     r\<lparr>warnings := warnings r @ [\<lparr>err_step = st, err_field = Some field, err_message = message,
                                  err_severity = Warning\<rparr>]\<rparr>"

definition add_info :: "bytes option \<Rightarrow> bytes \<Rightarrow> bytes \<Rightarrow> validation_result \<Rightarrow> validation_result" where
  "add_info st field message r =
     r\<lparr>info := info r @ [\<lparr>err_step = st, err_field = Some field, err_message = message,
                          err_severity = Info\<rparr>]\<rparr>"

text \<open>\<open>only_if c f\<close> is an \<open>if\<close> without \<open>else\<close> around an update of the report, \<open>for_each\<close> a loop
  of such updates.\<close>

definition only_if :: "bool \<Rightarrow> ('s \<Rightarrow> 's) \<Rightarrow> 's \<Rightarrow> 's" where
  "only_if c f s = (if c then f s else s)"

definition for_each :: "'a list \<Rightarrow> ('a \<Rightarrow> 's \<Rightarrow> 's) \<Rightarrow> 's \<Rightarrow> 's" where
  "for_each xs f s = foldl (\<lambda>s x. f x s) s xs"

definition validate_basic :: "pipeline \<Rightarrow> validation_result \<Rightarrow> validation_result" where
  "validate_basic p r =
     (let r = (if pipeline_version p = [] then
                 add_error None ''version'' ''Pipeline version is required'' r
               else
                 only_if (\<not> is_ascii_digit (case utf8_chars (pipeline_version p) of [] \<Rightarrow> 48 | c # _ \<Rightarrow> c))
                   (add_warning None ''version''
                     ''Version should start with a number (e.g., '0.1', '1.0')'') r);
          r = (case pipeline_name p of
                 Some name \<Rightarrow>
                   if name = [] then add_warning None ''name'' ''Pipeline name is empty'' r
                   else only_if (50 < length name)
                     (add_warning None ''name'' ''Pipeline name is very long (>50 characters)'') r
               | None \<Rightarrow>
                   add_info None ''name'' ''Consider adding a descriptive pipeline name'' r)
      in only_if (steps p = []) (add_error None ''steps'' ''Pipeline must contain at least one step'') r)"

record unicode =
  to_lowercase :: "bytes \<Rightarrow> bytes"
  to_uppercase :: "bytes \<Rightarrow> bytes"
  is_alphanumeric :: "code_point \<Rightarrow> bool"

definition dangerous_commands :: "bytes list" where
  "dangerous_commands = [''rm -rf'', ''format'', ''del /f'', ''sudo rm'', ''chmod 777'']"

definition validate_run :: "unicode \<Rightarrow> bytes \<Rightarrow> step \<Rightarrow> validation_result \<Rightarrow> validation_result" where
  "validate_run u step_name st r =
     (if trim_is_empty (step_run st) then
        add_error (Some step_name) ''run'' ''Step has empty run command'' r
      else
        let run_lower = to_lowercase u (step_run st);
            r = for_each dangerous_commands (\<lambda>dangerous.
                  only_if (contains run_lower dangerous)
                    (add_warning (Some step_name) ''run''
                      (''Potentially dangerous command detected: '' @ dangerous))) r
        in only_if (contains (step_run st) ''/usr/'' \<or> contains (step_run st) [CHR ''C'', CHR '':'', CHR 0x5C])
             (add_warning (Some step_name) ''run''
               ''Hardcoded system paths detected - consider using environment variables'') r)"

definition validate_env :: "unicode \<Rightarrow> bytes \<Rightarrow> bytes btree \<Rightarrow> validation_result \<Rightarrow> validation_result" where
  "validate_env u step_name env =
     for_each env (\<lambda>(key, value) r.
       let r = only_if (contains (to_lowercase u key) ''password'' \<or> contains (to_lowercase u key) ''secret'')
                 (add_warning (Some step_name) ''env''
                   (''Sensitive environment variable name detected: '' @ key)) r
       in only_if (20 < length value \<and>
                (list_all (is_alphanumeric u) (utf8_chars value) \<or> starts_with value ''sk-'' \<or>
                 starts_with value ''ghp_''))
            (add_warning (Some step_name) ''env''
              (''Potential hardcoded secret in environment variable: '' @ key)) r)"

definition validate_timeout :: "bytes \<Rightarrow> u64 \<Rightarrow> validation_result \<Rightarrow> validation_result" where
  "validate_timeout step_name timeout =
     (if 86400 < timeout then
        add_warning (Some step_name) ''timeout_secs'' ''Very long timeout detected (>24 hours)''
      else only_if (timeout < 5)
        (add_warning (Some step_name) ''timeout_secs'' ''Very short timeout detected (<5 seconds)''))"

definition validate_image :: "bytes \<Rightarrow> bytes \<Rightarrow> validation_result \<Rightarrow> validation_result" where
  "validate_image step_name img r =
     (let r = only_if (img = ''latest'' \<or> ends_with img '':latest'')
                (add_warning (Some step_name) ''image''
                  ''Using 'latest' tag is not recommended for reproducible builds'') r
      in only_if (\<not> contains img '':'')
           (add_info (Some step_name) ''image''
             ''Consider specifying explicit image tag for reproducibility'') r)"

definition validate_step_detailed ::
  "unicode \<Rightarrow> bytes \<Rightarrow> step \<Rightarrow> validation_result \<Rightarrow> validation_result" where
  "validate_step_detailed u step_name st r =
     (let r = validate_run u step_name st r;
          r = for_each (step_inputs st) (\<lambda>input. only_if (is_absolute input)
                (add_error (Some step_name) ''inputs'' (''Absolute input path not allowed: '' @ input))) r;
          r = for_each (step_outputs st) (\<lambda>output. only_if (is_absolute output)
                (add_error (Some step_name) ''outputs'' (''Absolute output path not allowed: '' @ output))) r;
          r = (case step_env st of None \<Rightarrow> r | Some env \<Rightarrow> validate_env u step_name env r);
          r = (case timeout_secs st of None \<Rightarrow> r | Some timeout \<Rightarrow> validate_timeout step_name timeout r)
      in (case step_image st of None \<Rightarrow> r | Some img \<Rightarrow> validate_image step_name img r))"

definition validate_steps_detailed :: "unicode \<Rightarrow> pipeline \<Rightarrow> validation_result \<Rightarrow> validation_result" where
  "validate_steps_detailed u p r =
     (let r = for_each (steps p) (\<lambda>(step_name, st). validate_step_detailed u step_name st) r
      in only_if (card (set (keys (steps p))) \<noteq> length (steps p))
           (add_error None ''steps'' ''Duplicate step names detected'') r)"


text \<open>The iteration orders of the hash tables an analysis of \<open>dag\<close> goes through: \<open>edges\<close>, the
  two \<open>in_degree\<close> maps and the set of remaining nodes.\<close>

record hash_orders =
  ord_edges :: "execution_dag \<Rightarrow> bytes list"
  ord_degree :: "execution_dag \<Rightarrow> bytes list"
  ord_degree2 :: "execution_dag \<Rightarrow> bytes list"
  ord_set :: "execution_dag \<Rightarrow> bytes list \<Rightarrow> bytes list"
  ord_types :: "bytes list \<Rightarrow> bytes list"

definition validate_needs_detailed ::
  "pipeline \<Rightarrow> bytes \<Rightarrow> bytes list \<Rightarrow> validation_result \<Rightarrow> validation_result" where
  "validate_needs_detailed p step_name needs r =
     (let r = for_each needs (\<lambda>dep. only_if (\<not> contains_key (steps p) dep)
                (add_error (Some step_name) ''needs'' (''Step depends on unknown step: '' @ dep))) r;
          r = only_if (step_name \<in> set needs)
                (add_error (Some step_name) ''needs'' ''Step cannot depend on itself'') r
      in only_if (10 < length needs)
           (add_warning (Some step_name) ''needs''
             ''Step has many dependencies - consider refactoring'') r)"

definition report_structure :: "dag_analysis \<Rightarrow> validation_result \<Rightarrow> validation_result" where
  "report_structure a r =
     (let r = only_if (20 < max_depth a)
                (add_warning None ''structure''
                  (''Very deep pipeline ('' @ show_nat (max_depth a) @
                   '' levels) - consider parallelization'')) r;
          r = only_if (is_linear a \<and> 5 < total_nodes a)
                (add_info None ''structure''
                  ''Linear pipeline detected - consider adding parallelization for better performance'') r;
          parallel_count = sum_list (map length (filter (\<lambda>group. 1 < length group) (parallelizable_groups a)))
      in only_if (0 < parallel_count)
           (add_info None ''parallelization'' (show_nat parallel_count @ '' steps can be parallelized'')) r)"

definition validate_dependencies_detailed ::
  "hash_orders \<Rightarrow> pipeline \<Rightarrow> validation_result \<Rightarrow> validation_result option" where
  "validate_dependencies_detailed h p r =
     (let r = for_each (steps p) (\<lambda>(step_name, st) r.
                case step_needs st of
                  None \<Rightarrow> r
                | Some needs \<Rightarrow> validate_needs_detailed p step_name needs r) r
      in (case build p of
            Inl _ \<Rightarrow> Some r
          | Inr dag \<Rightarrow>
              map_option (\<lambda>a. report_structure a r)
                (analyze (ord_edges h dag) (ord_degree h dag) (ord_degree2 h dag) (ord_set h dag) dag)))"

definition validate_security :: "unicode \<Rightarrow> pipeline \<Rightarrow> validation_result \<Rightarrow> validation_result" where
  "validate_security u p r =
     (let r = for_each (steps p) (\<lambda>(step_name, st) r.
            let run = step_run st;
                r = only_if (contains run ''$1'' \<or> contains run ''${'')
                      (add_warning (Some step_name) ''run''
                        ''Potential shell injection vulnerability - validate all inputs'') r;
                r = only_if (contains run ''curl'' \<or> contains run ''wget'' \<or> contains run ''http'')
                      (add_info (Some step_name) ''run''
                        ''Network access detected - ensure it's intentional and secure'') r
            in only_if (contains run ''chmod'' \<or> contains run ''chown'')
                 (add_warning (Some step_name) ''run''
                   ''File permission changes detected - review for security implications'') r) r
      in for_each (keys (pipeline_env p)) (\<lambda>key.
           only_if (contains (to_uppercase u key) ''TOKEN'' \<or> contains (to_uppercase u key) ''KEY'')
             (add_warning None ''env'' (''Sensitive global environment variable: '' @ key))) r)"

definition validate_performance :: "pipeline \<Rightarrow> validation_result \<Rightarrow> validation_result" where
  "validate_performance p =
     for_each (steps p) (\<lambda>(step_name, st) r.
       let r = only_if (contains (step_run st) ''find /'' \<or> contains (step_run st) ''grep -r /'')
                 (add_info (Some step_name) ''run''
                   ''System-wide search detected - consider limiting scope for better performance'') r;
           r = only_if (\<not> step_cache st \<and> 5 < length (step_inputs st))
                 (add_info (Some step_name) ''cache''
                   ''Caching disabled for step with many inputs - consider enabling for better performance'') r
       in for_each (step_outputs st) (\<lambda>output.
            only_if (contains output ''node_modules'' \<or> contains output ''target'')
              (add_info (Some step_name) ''outputs''
                ''Large directory in outputs - consider excluding unnecessary files'')) r)"

text \<open>The loop over the steps threads the report and the list of the attestation types seen,
  from which the counts of the hash map \<open>attestation_types\<close> are read.\<close>

definition validate_step_attestation ::
  "attestation_config \<Rightarrow> bytes \<Rightarrow> step \<Rightarrow> bytes list \<times> validation_result \<Rightarrow> bytes list \<times> validation_result" where
  "validate_step_attestation config step_name st = (\<lambda>(types, r).
     case step_attestation st of
       Some att \<Rightarrow>
         let types = types @ [attestation_type att];
             r = only_if (reproducible att \<and> contains (step_run st) ''date'')
                   (add_warning (Some step_name) ''attestation''
                     ''Step marked as reproducible but uses date command'') r;
             r = only_if (generate_slsa att \<and> step_outputs st = [])
                   (add_warning (Some step_name) ''attestation''
                     ''SLSA generation enabled but no outputs declared'') r
         in (types, only_if (attestation_type att = [])
               (add_error (Some step_name) ''attestation.type'' ''Attestation type is required'') r)
     | None \<Rightarrow>
         (types, only_if (sign_all_steps config)
            (add_info (Some step_name) ''attestation''
              ''Step will be signed but has no specific attestation configuration'') r))"

definition validate_attestation_config_detailed ::
  "hash_orders \<Rightarrow> pipeline \<Rightarrow> validation_result \<Rightarrow> validation_result" where
  "validate_attestation_config_detailed h p r =
     (let config = attestation p;
          r = only_if (require_reproducible config \<and> \<not> sign_all_steps config)
                (add_warning None ''attestation''
                  ''Requiring reproducible builds without signing may not provide full verification'') r;
          r = only_if (verify_dependencies config \<and>
                       list_all (\<lambda>(_, st). step_needs st = None) (steps p))
                (add_info None ''attestation''
                  ''Dependency verification enabled but no dependencies found'') r;
          (types, r) = for_each (steps p) (\<lambda>(step_name, st). validate_step_attestation config step_name st)
                         ([], r)
      in for_each (ord_types h types) (\<lambda>att_type.
           only_if (1 < count_list types att_type)
             (add_info None ''attestation''
               (''Attestation type '' @ [CHR 0x27] @ att_type @ [CHR 0x27] @ '' used by '' @
                show_nat (count_list types att_type) @ '' steps''))) r)"

definition validate_comprehensive ::
  "unicode \<Rightarrow> hash_orders \<Rightarrow> pipeline \<Rightarrow> validation_result option" where
  "validate_comprehensive u h p =
     (let r = validate_basic p validation_new;
          r = validate_attestation_config_detailed h p r;
          r = validate_steps_detailed u p r
      in map_option (\<lambda>r. validate_performance p (validate_security u p r))
           (validate_dependencies_detailed h p r))"

section \<open>Exports\<close>

datatype export_format = DockerCompose | GitLabCI | GitHubActions | Makefile | Jenkins

text \<open>\<open>line s\<close> is \<open>s\<close> and a newline; \<open>quote\<close> and \<open>tab\<close> are the characters HOL strings cannot
  spell.\<close>

definition line :: "bytes \<Rightarrow> bytes" where
  "line s = s @ [CHR 0x0A]"

definition quote :: bytes where "quote = [CHR 0x27]"

definition tab :: bytes where "tab = [CHR 0x09]"

definition unwrap_or :: "'a option \<Rightarrow> 'a \<Rightarrow> 'a" where
  "unwrap_or x d = (case x of None \<Rightarrow> d | Some v \<Rightarrow> v)"

definition run_lines :: "step \<Rightarrow> bytes \<Rightarrow> bytes" where
  "run_lines st text = (if trim_is_empty (step_run st) then [] else text)"

definition export_docker_compose :: "pipeline \<Rightarrow> bytes" where
  "export_docker_compose p =
     line (''version: '' @ quote @ ''3.8'' @ quote) @ line ''services:'' @
     concat (map (\<lambda>(step_name, st).
       line (''  '' @ step_name @ '':'') @
       line (''    image: '' @ unwrap_or (step_image st) ''alpine:latest'') @
       run_lines st (line (''    command: '' @ step_run st))) (steps p))"

definition export_gitlab_ci :: "pipeline \<Rightarrow> bytes" where
  "export_gitlab_ci p =
     line (''# Pipeline: '' @ unwrap_or (pipeline_name p) ''unnamed'') @
     line (''# Version: '' @ pipeline_version p) @ line [] @
     line ''stages:'' @
     concat (map (\<lambda>step_name. line (''  - '' @ step_name)) (keys (steps p))) @ line [] @
     concat (map (\<lambda>(step_name, st).
       line (step_name @ '':'') @
       line (''  stage: '' @ step_name) @
       line (''  image: '' @ unwrap_or (step_image st) ''alpine:latest'') @
       run_lines st (line ''  script:'' @ line (''    - '' @ step_run st)) @
       line []) (steps p))"

definition export_github_actions :: "pipeline \<Rightarrow> bytes" where
  "export_github_actions p =
     line (''name: '' @ unwrap_or (pipeline_name p) ''unnamed'') @ line [] @
     line ''on: [push, pull_request]'' @ line [] @ line ''jobs:'' @
     concat (map (\<lambda>(step_name, st).
       line (''  '' @ step_name @ '':'') @
       line ''    runs-on: ubuntu-latest'' @
       line ''    steps:'' @
       line ''    - uses: actions/checkout@v3'' @
       run_lines st (line (''    - name: '' @ step_name) @ line ''      run: |'' @
                     line (''        '' @ step_run st)) @
       line []) (steps p))"

definition export_makefile :: "pipeline \<Rightarrow> bytes" where
  "export_makefile p =
     line (''# Generated Makefile for '' @ unwrap_or (pipeline_name p) ''unnamed'') @
     line (''# Version: '' @ pipeline_version p) @ line [] @
     line (''.PHONY: all clean'' @ concat (map (\<lambda>step_name. '' '' @ step_name) (keys (steps p)))) @ line [] @
     line (''all:'' @ concat (map (\<lambda>step_name. '' '' @ step_name) (keys (steps p)))) @ line [] @
     concat (map (\<lambda>(step_name, st).
       line (step_name @ '':'') @
       run_lines st (line (tab @ step_run st)) @
       line []) (steps p)) @
     line ''clean:'' @ line (tab @ ''rm -rf build/'')"

definition export_jenkins :: "pipeline \<Rightarrow> bytes" where
  "export_jenkins p =
     line ''pipeline {'' @ line ''    agent any'' @ line [] @ line ''    stages {'' @
     concat (map (\<lambda>(step_name, st).
       line (''        stage('' @ quote @ step_name @ quote @ '') {'') @
       line ''            steps {'' @
       run_lines st (line (''                sh '' @ quote @ step_run st @ quote)) @
       line ''            }'' @ line ''        }'') (steps p)) @
     line ''    }'' @ line ''}''"

definition export :: "pipeline \<Rightarrow> export_format \<Rightarrow> bytes" where
  "export p format =
     (case format of
        DockerCompose \<Rightarrow> export_docker_compose p
      | GitLabCI \<Rightarrow> export_gitlab_ci p
      | GitHubActions \<Rightarrow> export_github_actions p
      | Makefile \<Rightarrow> export_makefile p
      | Jenkins \<Rightarrow> export_jenkins p)"

section \<open>Loading accepts exactly the well-formed pipelines\<close>

definition step_ok :: "step \<Rightarrow> bool" where
  "step_ok st \<longleftrightarrow> \<not> trim_is_empty (step_run st) \<and>
     list_all (\<lambda>path. \<not> is_absolute path) (step_inputs st @ step_outputs st)"

lemma find_None_list_all: "find P xs = None \<longleftrightarrow> list_all (\<lambda>x. \<not> P x) xs"
  by (induction xs) auto

lemma step_validate_ok: "step_validate st name = Inr () \<longleftrightarrow> step_ok st"
proof -
  have "step_validate st name = Inr () \<longleftrightarrow> \<not> trim_is_empty (step_run st) \<and>
      find is_absolute (step_inputs st) = None \<and> find is_absolute (step_outputs st) = None"
    by (auto simp: step_validate_def ensure_def split: option.splits)
  then show ?thesis by (simp add: step_ok_def find_None_list_all)
qed

lemma validate_needs_ok: "validate_needs m name ns = Inr () \<longleftrightarrow> set ns \<subseteq> set (keys m)"
  by (induction ns) (auto simp: result_simps contains_key_def keys_def map_of_eq_None_iff)

lemma validate_steps_ok:
  "validate_steps m xs = Inr () \<longleftrightarrow>
   list_all (\<lambda>(_, st). step_ok st) xs \<and> fst ` needs_edges xs \<subseteq> set (keys m)"
proof (induction xs)
  case (Cons x xs)
  obtain name st where "x = (name, st)" by (cases x)
  with Cons show ?case
    by (cases "step_needs st")
       (auto simp: result_simps step_validate_ok validate_needs_ok needs_edges_Cons image_Un)
qed simp

text \<open>
  \<open>Pipeline::validate\<close>, which guards every load, accepts a pipeline exactly when its
  schema is supported, it has a version and a step, every need names a step of the pipeline,
  the needs have no cycle, no command is blank and no declared path is absolute.
\<close>

theorem validate_correct:
  "validate p = Inr () \<longleftrightarrow>
     (case schema_version p of None \<Rightarrow> True | Some v \<Rightarrow> v \<le> 1) \<and>
     pipeline_version p \<noteq> [] \<and> steps p \<noteq> [] \<and>
     fst ` needs_edges (steps p) \<subseteq> set (keys (steps p)) \<and> acyclic (needs_edges (steps p)) \<and>
     list_all (\<lambda>(_, st). step_ok st) (steps p)"
proof -
  note build_ok_iff [of p]
  then show ?thesis
    unfolding validate_def PIPELINE_SCHEMA_VERSION_def
    by (cases "build p"; cases "schema_version p") (auto simp: result_simps validate_steps_ok)
qed


section \<open>What the reporting validation calls valid\<close>

named_theorems valid_simps \<open>the effect of an update on \<open>is_valid\<close> and \<open>errors\<close>\<close>

lemma add_valid [valid_simps]:
  "is_valid (add_error st f m r) = False" "errors (add_error st f m r) \<noteq> []"
  "is_valid (add_warning st f m r) = is_valid r" "errors (add_warning st f m r) = errors r"
  "is_valid (add_info st f m r) = is_valid r" "errors (add_info st f m r) = errors r"
  by (simp_all add: add_error_def add_warning_def add_info_def)

text \<open>\<open>checks f c\<close>: the pass \<open>f\<close> keeps the report consistent and valid exactly under \<open>c\<close>.\<close>

definition report_ok :: "validation_result \<Rightarrow> bool" where
  "report_ok r \<longleftrightarrow> (is_valid r \<longleftrightarrow> errors r = [])"

definition checks :: "(validation_result \<Rightarrow> validation_result) \<Rightarrow> bool \<Rightarrow> bool" where
  "checks f c \<longleftrightarrow> (\<forall>r. report_ok r \<longrightarrow> report_ok (f r) \<and> (is_valid (f r) \<longleftrightarrow> is_valid r \<and> c))"

lemma checks_basic:
  "checks (add_error st f m) False" "checks (add_warning st f m) True" "checks (add_info st f m) True"
  "checks id True" "checks (\<lambda>r. r) True"
  by (simp_all add: checks_def report_ok_def valid_simps)

lemma checks_only_if: "checks f c \<Longrightarrow> checks (only_if b f) (b \<longrightarrow> c)"
  by (simp add: checks_def only_if_def)

lemma checks_seq: "checks f c \<Longrightarrow> checks g d \<Longrightarrow> checks (\<lambda>r. g (f r)) (c \<and> d)"
  by (auto simp: checks_def)

lemma checks_for_each:
  "(\<And>x. x \<in> set xs \<Longrightarrow> checks (f x) (c x)) \<Longrightarrow> checks (for_each xs f) (list_all c xs)"
proof (induction xs)
  case (Cons x xs)
  have "checks (\<lambda>r. for_each xs f (f x r)) (c x \<and> list_all c xs)"
    using Cons by (intro checks_seq) simp_all
  moreover have "for_each (x # xs) f = (\<lambda>r. for_each xs f (f x r))"
    by (simp add: for_each_def fun_eq_iff)
  ultimately show ?case by simp
qed (simp add: for_each_def checks_def)

lemma checks_cong: "checks f c \<Longrightarrow> (c \<longleftrightarrow> d) \<Longrightarrow> checks f d"
  by simp


lemma checks_for_each_True: "(\<And>x. checks (f x) True) \<Longrightarrow> checks (for_each xs f) True"
  using checks_for_each [of xs f "\<lambda>_. True"] by (simp add: list_all_iff)

lemmas straight_line = checks_def report_ok_def only_if_def valid_simps Let_def

lemma checks_validate_basic:
  "checks (validate_basic p) (pipeline_version p \<noteq> [] \<and> steps p \<noteq> [])"
  unfolding checks_def validate_basic_def
  by (auto simp: report_ok_def only_if_def valid_simps Let_def split: option.splits)

lemma checks_validate_run: "checks (validate_run u name st) (\<not> trim_is_empty (step_run st))"
proof (cases "trim_is_empty (step_run st)")
  case True
  then show ?thesis by (simp add: validate_run_def [abs_def] checks_basic)
next
  case False
  have "checks (for_each ds (\<lambda>d. only_if (contains low d) (add_warning s f (m d)))) True" for ds low s f m
    by (rule checks_for_each_True) (simp add: straight_line)
  from checks_seq [OF this checks_only_if [OF checks_basic(2)]] False show ?thesis
    by (simp add: validate_run_def [abs_def] Let_def)
qed

lemma checks_absolute:
  "checks (for_each xs (\<lambda>x. only_if (is_absolute x) (add_error s f (m x))))
     (list_all (\<lambda>x. \<not> is_absolute x) xs)"
  by (rule checks_for_each) (simp add: straight_line)

lemma checks_validate_env: "checks (validate_env u name env) True"
  unfolding validate_env_def
  by (rule checks_for_each_True) (auto simp: straight_line split: prod.splits)

lemma checks_validate_timeout: "checks (validate_timeout name t) True"
  by (simp add: validate_timeout_def straight_line)

lemma checks_validate_image: "checks (validate_image name img) True"
  by (simp add: validate_image_def straight_line)

lemma checks_option:
  "(\<And>v. x = Some v \<Longrightarrow> checks (f v) True) \<Longrightarrow> checks (\<lambda>r. case x of None \<Rightarrow> r | Some v \<Rightarrow> f v r) True"
  by (cases x) (simp_all add: checks_basic)

lemma checks_validate_step: "checks (validate_step_detailed u name st) (step_ok st)"
proof -
  note seq = checks_seq [OF checks_seq [OF checks_seq [OF checks_seq [OF checks_seq
      [OF checks_validate_run [of u name st] checks_absolute] checks_absolute]
      checks_option [OF checks_validate_env]] checks_option [OF checks_validate_timeout]]
      checks_option [OF checks_validate_image]]
  show ?thesis
    unfolding validate_step_detailed_def [abs_def] Let_def
    by (rule checks_cong [OF seq]) (auto simp: step_ok_def)
qed

lemma checks_validate_steps:
  assumes "btree_ok (steps p)"
  shows "checks (validate_steps_detailed u p) (list_all (\<lambda>(_, st). step_ok st) (steps p))"
proof -
  have dist: "distinct (keys (steps p))"
    using assms by (simp add: btree_ok_def keys_def strict_sorted_iff)
  have "card (set (keys (steps p))) = length (steps p)"
    unfolding distinct_card [OF dist] by (simp add: keys_def)
  then have "validate_steps_detailed u p =
      for_each (steps p) (\<lambda>(step_name, st). validate_step_detailed u step_name st)"
    by (simp add: validate_steps_detailed_def fun_eq_iff only_if_def)
  then show ?thesis
    by (auto simp: intro!: checks_for_each checks_validate_step)
qed

lemma checks_validate_needs:
  "checks (validate_needs_detailed p name ns) (set ns \<subseteq> set (keys (steps p)) \<and> name \<notin> set ns)"
proof -
  have "checks (for_each ns (\<lambda>dep. only_if (\<not> contains_key (steps p) dep) (add_error s f (m dep))))
      (list_all (contains_key (steps p)) ns)" for s f m
    by (rule checks_for_each) (simp add: straight_line)
  from checks_seq [OF checks_seq [OF this checks_only_if [OF checks_basic(1)]]
      checks_only_if [OF checks_basic(2)]]
  show ?thesis
    unfolding validate_needs_detailed_def [abs_def] Let_def
    by (rule checks_cong) (auto simp: list_all_iff contains_key_def keys_def map_of_eq_None_iff)
qed

lemma checks_report_structure: "checks (report_structure a) True"
  by (simp add: report_structure_def straight_line)

lemma checks_True_seq: "checks f True \<Longrightarrow> checks g True \<Longrightarrow> checks (\<lambda>r. g (f r)) True"
  using checks_seq [of f True g True] by simp

lemma checks_quiet:
  "checks (only_if b (add_warning s f m)) True" "checks (only_if b (add_info s f m)) True"
  by (simp_all add: straight_line)

lemma checks_for_each_pair:
  "(\<And>a b. checks (f a b) True) \<Longrightarrow> checks (for_each xs (\<lambda>(a, b). f a b)) True"
  by (rule checks_for_each_True) (simp split: prod.splits)

lemma checks_validate_security: "checks (validate_security u p) True"
  unfolding validate_security_def [abs_def] Let_def
  by (rule checks_True_seq [OF checks_for_each_pair checks_for_each_True [OF checks_quiet(1)]])
     (rule checks_True_seq [OF checks_True_seq [OF checks_quiet(1,2)] checks_quiet(1)])

lemma checks_validate_performance: "checks (validate_performance p) True"
  unfolding validate_performance_def Let_def
  by (rule checks_for_each_pair)
     (rule checks_True_seq [OF checks_True_seq [OF checks_quiet(2,2)]
        checks_for_each_True [OF checks_quiet(2)]])

definition types_ok :: "step btree \<Rightarrow> bool" where
  "types_ok m \<longleftrightarrow> list_all (\<lambda>(_, st). case step_attestation st of
     None \<Rightarrow> True | Some att \<Rightarrow> attestation_type att \<noteq> []) m"

lemma checks_step_attestations:
  "checks (\<lambda>r. snd (for_each m (\<lambda>(n, st). validate_step_attestation config n st) (ts, r))) (types_ok m)"
proof (induction m arbitrary: ts)
  case Nil
  then show ?case by (simp add: for_each_def types_ok_def checks_basic)
next
  case (Cons x m)
  obtain n st where x: "x = (n, st)" by (cases x)
  define ts' where "ts' = fst (validate_step_attestation config n st (ts, validation_new))"
  define f where "f = (\<lambda>r. snd (validate_step_attestation config n st (ts, r)))"
  have split: "validate_step_attestation config n st (ts, r) = (ts', f r)" for r
    unfolding ts'_def f_def validate_step_attestation_def
    by (simp add: Let_def split: option.splits)
  have "checks f (case step_attestation st of None \<Rightarrow> True | Some att \<Rightarrow> attestation_type att \<noteq> [])"
    unfolding f_def validate_step_attestation_def
    by (simp add: straight_line split: option.splits)
  from checks_seq [OF this Cons.IH [of ts']] show ?case
    by (simp add: x for_each_def split types_ok_def)
qed

lemma step_attestation_types:
  "fst (for_each m (\<lambda>(n, st). validate_step_attestation config n st) (ts, r)) =
   fst (for_each m (\<lambda>(n, st). validate_step_attestation config n st) (ts, r'))"
proof (induction m arbitrary: ts r r')
  case (Cons x m)
  obtain n st where x: "x = (n, st)" by (cases x)
  show ?case
    using Cons.IH by (cases "step_attestation st")
      (simp_all add: x for_each_def validate_step_attestation_def Let_def)
qed (simp add: for_each_def)

lemma checks_validate_attestation:
  "checks (validate_attestation_config_detailed h p) (types_ok (steps p))"
proof -
  let ?loop = "\<lambda>r. for_each (steps p) (\<lambda>(n, st). validate_step_attestation (attestation p) n st) ([], r)"
  define ts where "ts = fst (?loop validation_new)"
  have loop: "?loop r = (ts, snd (?loop r))" for r
    unfolding ts_def by (metis prod.collapse step_attestation_types)
  show ?thesis
    unfolding validate_attestation_config_detailed_def [abs_def] Let_def
    by (subst loop, unfold prod.case)
       (rule checks_cong [OF checks_seq [OF checks_seq [OF checks_True_seq [OF checks_quiet(1,2)]
          checks_step_attestations] checks_for_each_True [OF checks_quiet(2)]]], simp)
qed

lemma needs_detailed_iff:
  "list_all (\<lambda>(name, st). case step_needs st of None \<Rightarrow> True
      | Some ns \<Rightarrow> set ns \<subseteq> K \<and> name \<notin> set ns) m \<longleftrightarrow>
   fst ` needs_edges m \<subseteq> K \<and> irrefl (needs_edges m)"
proof (induction m)
  case (Cons x m)
  obtain n st where x: "x = (n, st)" by (cases x)
  show ?case
    using Cons by (cases "step_needs st") (auto simp: x needs_edges_Cons image_Un irrefl_def)
qed (simp add: irrefl_def)

lemma validate_dependencies_detailed_spec:
  assumes ok: "btree_ok (steps p)"
    and ord: "\<And>dag. build p = Inr dag \<Longrightarrow> order_of (ord_edges h dag) (set (nodes dag)) \<and>
      order_of (ord_degree h dag) (set (nodes dag)) \<and> order_of (ord_degree2 h dag) (set (nodes dag)) \<and>
      (\<forall>xs. distinct xs \<longrightarrow> order_of (ord_set h dag xs) (set xs))"
  shows "\<exists>f. validate_dependencies_detailed h p = (\<lambda>r. Some (f r)) \<and>
    checks f (fst ` needs_edges (steps p) \<subseteq> set (keys (steps p)) \<and> irrefl (needs_edges (steps p)))"
proof -
  define loop where "loop = for_each (steps p) (\<lambda>(step_name, st) r.
      case step_needs st of None \<Rightarrow> r | Some needs \<Rightarrow> validate_needs_detailed p step_name needs r)"
  have "checks loop (list_all (\<lambda>(name, st). case step_needs st of None \<Rightarrow> True
      | Some ns \<Rightarrow> set ns \<subseteq> set (keys (steps p)) \<and> name \<notin> set ns) (steps p))"
    unfolding loop_def
  proof (rule checks_for_each)
    fix x assume "x \<in> set (steps p)"
    obtain n st where x: "x = (n, st)" by (cases x)
    show "checks (case x of (step_name, st) \<Rightarrow> \<lambda>r. case step_needs st of None \<Rightarrow> r
          | Some needs \<Rightarrow> validate_needs_detailed p step_name needs r)
        (case x of (name, st) \<Rightarrow> case step_needs st of None \<Rightarrow> True
          | Some ns \<Rightarrow> set ns \<subseteq> set (keys (steps p)) \<and> name \<notin> set ns)"
      unfolding x using checks_validate_needs by (cases "step_needs st") (simp_all add: checks_basic)
  qed
  then have loop: "checks loop (fst ` needs_edges (steps p) \<subseteq> set (keys (steps p)) \<and>
      irrefl (needs_edges (steps p)))"
    unfolding needs_detailed_iff .
  show ?thesis
  proof (cases "build p")
    case (Inl e)
    then have "validate_dependencies_detailed h p = (\<lambda>r. Some (loop r))"
      by (simp add: validate_dependencies_detailed_def fun_eq_iff loop_def)
    with loop show ?thesis by blast
  next
    case (Inr dag)
    obtain a where "analyze (ord_edges h dag) (ord_degree h dag) (ord_degree2 h dag) (ord_set h dag) dag = Some a"
      using analyze_correct [OF build_wf(1,5) [OF Inr ok], of "ord_edges h dag" "ord_degree h dag"
          "ord_degree2 h dag" "ord_set h dag"] ord [OF Inr]
      by (auto simp: order_of_def)
    with Inr have "validate_dependencies_detailed h p = (\<lambda>r. Some (report_structure a (loop r)))"
      by (simp add: validate_dependencies_detailed_def fun_eq_iff loop_def)
    moreover from checks_seq [OF loop checks_report_structure [of a]]
    have "checks (\<lambda>r. report_structure a (loop r)) (fst ` needs_edges (steps p) \<subseteq> set (keys (steps p)) \<and>
      irrefl (needs_edges (steps p)))" by simp
    ultimately show ?thesis
      by (intro exI [of _ "\<lambda>r. report_structure a (loop r)"]) simp
  qed
qed

lemma validate_passes:
  assumes ok: "btree_ok (steps p)"
    and ord: "\<And>dag. build p = Inr dag \<Longrightarrow> order_of (ord_edges h dag) (set (nodes dag)) \<and>
      order_of (ord_degree h dag) (set (nodes dag)) \<and> order_of (ord_degree2 h dag) (set (nodes dag)) \<and>
      (\<forall>xs. distinct xs \<longrightarrow> order_of (ord_set h dag xs) (set xs))"
  shows "\<exists>r. validate_comprehensive u h p = Some r \<and> report_ok r \<and>
    (is_valid r \<longleftrightarrow> (((((pipeline_version p \<noteq> [] \<and> steps p \<noteq> []) \<and> types_ok (steps p)) \<and>
       list_all (\<lambda>(_, st). step_ok st) (steps p)) \<and>
       fst ` needs_edges (steps p) \<subseteq> set (keys (steps p)) \<and> irrefl (needs_edges (steps p)))))"
proof -
  obtain f where f: "validate_dependencies_detailed h p = (\<lambda>r. Some (f r))"
    "checks f (fst ` needs_edges (steps p) \<subseteq> set (keys (steps p)) \<and> irrefl (needs_edges (steps p)))"
    using validate_dependencies_detailed_spec [OF assms] by blast
  note passes = checks_seq [OF checks_seq [OF checks_seq [OF checks_seq [OF checks_seq
      [OF checks_validate_basic checks_validate_attestation [of h]] checks_validate_steps [OF ok, of u]] f(2)]
      checks_validate_security [of u p]] checks_validate_performance [of p]]
  have new: "report_ok validation_new" "is_valid validation_new"
    by (simp_all add: report_ok_def validation_new_def)
  from passes [unfolded checks_def, rule_format, OF new(1)] new(2) show ?thesis
    unfolding validate_comprehensive_def Let_def f(1) by simp
qed

text \<open>
  The reporting validation always ends. Its verdict \<open>is_valid\<close> is true exactly when the
  pipeline has a version and a step, every command is non-blank, every declared path is
  relative, every need names another step of the pipeline and every attestation has a type;
  and it agrees with the list of errors.
\<close>

theorem validate_comprehensive_correct:
  assumes "btree_ok (steps p)"
    and "\<And>dag. build p = Inr dag \<Longrightarrow> order_of (ord_edges h dag) (set (nodes dag)) \<and>
      order_of (ord_degree h dag) (set (nodes dag)) \<and> order_of (ord_degree2 h dag) (set (nodes dag)) \<and>
      (\<forall>xs. distinct xs \<longrightarrow> order_of (ord_set h dag xs) (set xs))"
  shows "\<exists>r. validate_comprehensive u h p = Some r \<and> (is_valid r \<longleftrightarrow> errors r = []) \<and>
    (is_valid r \<longleftrightarrow> pipeline_version p \<noteq> [] \<and> steps p \<noteq> [] \<and>
       list_all (\<lambda>(_, st). step_ok st) (steps p) \<and>
       fst ` needs_edges (steps p) \<subseteq> set (keys (steps p)) \<and> irrefl (needs_edges (steps p)) \<and>
       types_ok (steps p))"
  using validate_passes [OF assms, of u] unfolding report_ok_def by blast

definition example_unicode :: unicode where
  "example_unicode = \<lparr>to_lowercase = id, to_uppercase = id, is_alphanumeric = (\<lambda>_. False)\<rparr>"

definition example_orders :: hash_orders where
  "example_orders = \<lparr>ord_edges = nodes, ord_degree = (\<lambda>dag. rev (nodes dag)), ord_degree2 = nodes,
     ord_set = (\<lambda>_ xs. rev xs), ord_types = remdups\<rparr>"

lemma example_pipeline_ok: "btree_ok (steps example_pipeline)"
  by (simp add: btree_ok_def example_pipeline_def)

theorem validate_comprehensive_correct_witness:
  "\<exists>r. validate_comprehensive example_unicode example_orders example_pipeline = Some r \<and>
    (is_valid r \<longleftrightarrow> errors r = []) \<and>
    (is_valid r \<longleftrightarrow> pipeline_version example_pipeline \<noteq> [] \<and> steps example_pipeline \<noteq> [] \<and>
       list_all (\<lambda>(_, st). step_ok st) (steps example_pipeline) \<and>
       fst ` needs_edges (steps example_pipeline) \<subseteq> set (keys (steps example_pipeline)) \<and>
       irrefl (needs_edges (steps example_pipeline)) \<and> types_ok (steps example_pipeline))"
proof (rule validate_comprehensive_correct [OF example_pipeline_ok])
  fix dag assume "build example_pipeline = Inr dag"
  then have "nodes dag = [''a'', ''b'', ''c'']" by (auto simp: example_build example_dag_def)
  then show "order_of (ord_edges example_orders dag) (set (nodes dag)) \<and>
      order_of (ord_degree example_orders dag) (set (nodes dag)) \<and>
      order_of (ord_degree2 example_orders dag) (set (nodes dag)) \<and>
      (\<forall>xs. distinct xs \<longrightarrow> order_of (ord_set example_orders dag xs) (set xs))"
    by (auto simp: example_orders_def order_of_def)
qed

definition cyclic_pipeline :: pipeline where
  "cyclic_pipeline = example_pipeline
     \<lparr>steps := [(''a'', example_step (Some [''b''])), (''b'', example_step (Some [''a'']))]\<rparr>"

text \<open>
  The two validations disagree on cycles. For the pipeline in which \<open>a\<close> and \<open>b\<close> need each
  other, \<open>Pipeline::validate\<close> fails and reports the cycle, while the reporting validation,
  which only looks at the graph when it can be built, returns \<open>is_valid\<close> with no error,
  whatever the Unicode tables and the hash orders.
\<close>

theorem validate_comprehensive_misses_cycles:
  "validate cyclic_pipeline = Inl (DagError (CycleDetected [''a'', ''b'', ''a''])) \<and>
   (\<exists>r. validate_comprehensive u h cyclic_pipeline = Some r \<and> is_valid r \<and> errors r = [])"
proof -
  have cyc: "build cyclic_pipeline = Inl (CycleDetected [''a'', ''b'', ''a''])"
    by (simp add: build_def cyclic_pipeline_def example_pipeline_def example_step_def keys_def
        check_cycles_def nbrs_def Let_def build_cycle_path_def build_cycle_path_from.simps)
  have ok: "btree_ok (steps cyclic_pipeline)" "pipeline_version cyclic_pipeline \<noteq> []"
    "steps cyclic_pipeline \<noteq> []" "list_all (\<lambda>(_, st). step_ok st) (steps cyclic_pipeline)"
    "types_ok (steps cyclic_pipeline)" "schema_version cyclic_pipeline = None"
    by (simp_all add: btree_ok_def cyclic_pipeline_def example_pipeline_def example_step_def
        step_ok_def types_ok_def trim_is_empty_def is_whitespace_def)
  have "fst ` needs_edges (steps cyclic_pipeline) \<subseteq> set (keys (steps cyclic_pipeline))"
    "irrefl (needs_edges (steps cyclic_pipeline))"
    by (auto simp: cyclic_pipeline_def example_step_def needs_edges_Cons keys_def irrefl_def)
  moreover have "validate cyclic_pipeline = Inl (DagError (CycleDetected [''a'', ''b'', ''a'']))"
    using ok by (simp add: validate_def cyc)
  ultimately show ?thesis
    using validate_passes [OF ok(1), of h u] ok cyc by (auto simp: report_ok_def)
qed

section \<open>Exports and environments\<close>

lemma env_extend:
  "btree_ok e \<Longrightarrow> btree_ok (foldl (\<lambda>e (k, v). btree_insert k v e) e env) \<and>
   map_of (foldl (\<lambda>e (k, v). btree_insert k v e) e env) = map_of e ++ map_of (rev env)"
proof (induction env arbitrary: e)
  case (Cons x env)
  obtain k v where "x = (k, v)" by (cases x)
  with Cons.IH [of "btree_insert k v e"] Cons.prems show ?case
    by (auto simp: btree_ok_insert map_of_btree_insert map_add_def fun_eq_iff split: option.splits)
qed simp

text \<open>
  A step's environment is the pipeline's with the step's own variables on top: each
  variable the step sets has the step's value, every other one the pipeline's, and the
  result is again an ordered map, so its serialisation is canonical.
\<close>

theorem effective_env_correct:
  assumes "btree_ok penv" "\<And>env. step_env st = Some env \<Longrightarrow> btree_ok env"
  shows "btree_ok (effective_env st penv) \<and>
    map_of (effective_env st penv) k =
      (case step_env st of
         None \<Rightarrow> map_of penv k
       | Some env \<Rightarrow> (case map_of env k of Some v \<Rightarrow> Some v | None \<Rightarrow> map_of penv k))"
proof (cases "step_env st")
  case (Some env)
  then have "distinct (map fst env)"
    using assms(2) by (simp add: btree_ok_def strict_sorted_iff)
  then have "map_of (rev env) = map_of env" by (rule map_of_rev_distinct)
  with Some env_extend [OF assms(1), of env] show ?thesis
    by (simp add: effective_env_def map_add_def)
qed (simp add: effective_env_def assms)

theorem effective_env_correct_witness:
  "btree_ok (effective_env (example_step None\<lparr>step_env := Some [(''A'', ''2'')]\<rparr>) [(''A'', ''1''), (''B'', ''1'')]) \<and>
    map_of (effective_env (example_step None\<lparr>step_env := Some [(''A'', ''2'')]\<rparr>) [(''A'', ''1''), (''B'', ''1'')]) ''A''
      = Some ''2''"
  using effective_env_correct [of "[(''A'', ''1''), (''B'', ''1'')]"
      "example_step None\<lparr>step_env := Some [(''A'', ''2'')]\<rparr>" "''A''"]
  by (simp add: btree_ok_def)

text \<open>
  No export format carries the dependencies between steps: erasing every \<open>needs\<close> leaves
  the exported text unchanged. The GitLab stages, for instance, are listed in the order of
  the step names and not in an order in which a step follows what it needs.
\<close>

theorem export_drops_needs:
  "export (p\<lparr>steps := map (\<lambda>(name, st). (name, st\<lparr>step_needs := None\<rparr>)) (steps p)\<rparr>) format =
   export p format"
  by (cases format)
     (simp_all add: export_def export_docker_compose_def export_gitlab_ci_def
       export_github_actions_def export_makefile_def export_jenkins_def keys_def run_lines_def
       comp_def case_prod_unfold cong: if_cong)

end
