(* ===== verification/Signing.thy ===== *)
theory Signing
  imports Text
begin

text \<open>
  Ed25519 keys and signatures, from \<open>src/crypto/sign.rs\<close>: hexadecimal signatures, their
  verification from the public key alone, and the key files of a workspace.

  The curve operations of \<open>ed25519_dalek\<close> are the parameter \<open>ed\<close>: the public half of a
  32-byte secret, signing, the check that 32 bytes are a public key, and verification.
  The 64 bytes of a signature are not interpreted.
\<close>

record ed25519 =
  public_of :: "digest \<Rightarrow> digest"
  ed_sign :: "digest \<Rightarrow> bytes \<Rightarrow> bytes"
  key_valid :: "digest \<Rightarrow> bool"
  ed_verify :: "digest \<Rightarrow> bytes \<Rightarrow> bytes \<Rightarrow> bool"

record attest_keypair =
  signing_key :: digest
  verifying_key :: digest

datatype sign_error =
    InvalidSignatureHex | InvalidSignatureLength
  | InvalidPublicKeyHex | InvalidPublicKeyLength | InvalidPublicKey
  | KeySymlink | InvalidPrivateKeyLength | PublicKeyMismatch | PrivateKeyMissing

definition from_signing_key :: "ed25519 \<Rightarrow> digest \<Rightarrow> attest_keypair" where
  "from_signing_key ed sk = \<lparr>signing_key = sk, verifying_key = public_of ed sk\<rparr>"

definition sign :: "ed25519 \<Rightarrow> attest_keypair \<Rightarrow> bytes \<Rightarrow> bytes" where
  "sign ed kp message = hex_encode (ed_sign ed (signing_key kp) message)"

definition verify :: "ed25519 \<Rightarrow> attest_keypair \<Rightarrow> bytes \<Rightarrow> bytes \<Rightarrow> (sign_error, bool) result" where
  "verify ed kp message signature_hex =
     and_then (ok_or (hex_decode signature_hex) InvalidSignatureHex) (\<lambda>sig.
     ensure (length sig = 64) InvalidSignatureLength (
     Inr (ed_verify ed (verifying_key kp) message sig)))"

definition public_key_hex :: "attest_keypair \<Rightarrow> bytes" where
  "public_key_hex kp = hex_encode (digest_bytes (verifying_key kp))"

definition verify_with_public_key ::
  "ed25519 \<Rightarrow> bytes \<Rightarrow> bytes \<Rightarrow> bytes \<Rightarrow> (sign_error, bool) result" where
  "verify_with_public_key ed key_hex message signature_hex =
     and_then (ok_or (hex_decode key_hex) InvalidPublicKeyHex) (\<lambda>public_bytes.
     and_then (ok_or (digest_try_from public_bytes) InvalidPublicKeyLength) (\<lambda>key.
     ensure (key_valid ed key) InvalidPublicKey (
     and_then (ok_or (hex_decode signature_hex) InvalidSignatureHex) (\<lambda>sig.
     ensure (length sig = 64) InvalidSignatureLength (
     Inr (ed_verify ed key message sig))))))"

section \<open>Key files\<close>

text \<open>The two files under \<open>keys/\<close>: absent, a symbolic link, or a file with its content.\<close>

datatype key_file = Absent | Link | Content bytes

record key_files =
  private_key :: key_file
  public_key :: key_file

text \<open>\<open>seed\<close> is what the operating system's generator would return. A symbolic link is
  refused before \<open>exists\<close> is asked.\<close>

definition load_or_generate ::
  "ed25519 \<Rightarrow> digest \<Rightarrow> key_files \<Rightarrow> (sign_error, attest_keypair \<times> key_files) result" where
  "load_or_generate ed seed ks =
     ensure (private_key ks \<noteq> Link \<and> public_key ks \<noteq> Link) KeySymlink (
     (case private_key ks of
        Content private_bytes \<Rightarrow>
          and_then (ok_or (digest_try_from private_bytes) InvalidPrivateKeyLength) (\<lambda>key_array.
          let kp = from_signing_key ed key_array in
          (case public_key ks of
             Content public_bytes \<Rightarrow>
               ensure (public_bytes = digest_bytes (verifying_key kp)) PublicKeyMismatch (Inr (kp, ks))
           | _ \<Rightarrow> Inr (kp, ks\<lparr>public_key := Content (digest_bytes (verifying_key kp))\<rparr>)))
      | _ \<Rightarrow>
          ensure (public_key ks = Absent) PrivateKeyMissing (
          let kp = from_signing_key ed seed in
          Inr (kp, \<lparr>private_key = Content (digest_bytes (signing_key kp)),
                    public_key = Content (digest_bytes (verifying_key kp))\<rparr>))))"

section \<open>Properties\<close>

text \<open>What signers and verifiers rely on of the curve.\<close>

definition ed_correct :: "ed25519 \<Rightarrow> bool" where
  "ed_correct ed \<longleftrightarrow> (\<forall>sk m. key_valid ed (public_of ed sk) \<and> length (ed_sign ed sk m) = 64 \<and>
     ed_verify ed (public_of ed sk) m (ed_sign ed sk m))"

lemma sign_verifies_key:
  assumes "ed_correct ed" "kp = from_signing_key ed (signing_key kp)"
  shows "verify_with_public_key ed (public_key_hex kp) m (sign ed kp m) = Inr True"
proof -
  have "verifying_key kp = public_of ed (signing_key kp)"
    using assms(2) by (metis attest_keypair.select_convs(2) from_signing_key_def)
  then show ?thesis
    using assms(1) by (simp add: verify_with_public_key_def public_key_hex_def sign_def ed_correct_def)
qed

text \<open>
  What a key pair signs, anyone can verify from the hexadecimal public key it publishes,
  and its own \<open>verify\<close> agrees with that check on every message and every signature string.
\<close>

theorem sign_verifies:
  assumes "ed_correct ed" "kp = from_signing_key ed sk"
  shows "verify_with_public_key ed (public_key_hex kp) message (sign ed kp message) = Inr True \<and>
    verify_with_public_key ed (public_key_hex kp) other signature_hex = verify ed kp other signature_hex"
  using assms
  by (simp add: verify_with_public_key_def verify_def public_key_hex_def sign_def from_signing_key_def
      ed_correct_def)

definition example_ed :: ed25519 where
  "example_ed = \<lparr>public_of = id, ed_sign = (\<lambda>sk m. digest_bytes sk @ digest_bytes (digest_of m)),
     key_valid = (\<lambda>_. True),
     ed_verify = (\<lambda>pk m sig. sig = digest_bytes pk @ digest_bytes (digest_of m))\<rparr>"

lemma example_ed_correct: "ed_correct example_ed"
  by (simp add: ed_correct_def example_ed_def)

theorem sign_verifies_witness:
  "verify_with_public_key example_ed (public_key_hex (from_signing_key example_ed (digest_of ''k'')))
     ''m'' (sign example_ed (from_signing_key example_ed (digest_of ''k'')) ''m'') = Inr True"
  using sign_verifies [OF example_ed_correct refl, of "digest_of ''k''" "''m''"] by blast

text \<open>
  A signing identity is never replaced. When \<open>load_or_generate\<close> succeeds, a private key
  that was there is still there and is the one returned, a public key that was there is
  unchanged, and the two files hold the two halves of the returned pair; a later call, with
  any fresh randomness, returns the same pair and changes nothing.
\<close>

theorem load_or_generate_stable:
  assumes "load_or_generate ed seed ks = Inr (kp, ks')"
  shows "(private_key ks \<noteq> Absent \<longrightarrow> private_key ks' = private_key ks) \<and>
    (public_key ks \<noteq> Absent \<longrightarrow> public_key ks' = public_key ks) \<and>
    private_key ks' = Content (digest_bytes (signing_key kp)) \<and>
    public_key ks' = Content (digest_bytes (verifying_key kp)) \<and>
    kp = from_signing_key ed (signing_key kp) \<and>
    load_or_generate ed seed' ks' = Inr (kp, ks')"
proof (cases "private_key ks")
  case (Content private_bytes)
  then show ?thesis
    using assms
    by (cases "public_key ks")
       (auto simp: load_or_generate_def result_simps from_signing_key_def digest_try_from_Some Let_def)
qed (use assms in \<open>auto simp: load_or_generate_def result_simps from_signing_key_def Let_def\<close>)

theorem load_or_generate_stable_witness:
  "\<exists>kp ks'. load_or_generate example_ed (digest_of ''s'') \<lparr>private_key = Absent, public_key = Absent\<rparr> = Inr (kp, ks') \<and>
    load_or_generate example_ed (digest_of ''t'') ks' = Inr (kp, ks')"
proof -
  obtain kp ks' where "load_or_generate example_ed (digest_of ''s'')
      \<lparr>private_key = Absent, public_key = Absent\<rparr> = Inr (kp, ks')"
    by (simp add: load_or_generate_def Let_def)
  with load_or_generate_stable [OF this] show ?thesis by blast
qed

end
