(* ===== verification/Ledger.thy ===== *)
theory Ledger
  imports Hashing Signing Worklist
begin

text \<open>
  The causal ledger of \<open>src/storage/causal_ledger.rs\<close>: events whose identifier commits to
  their content and their parents, the chain root over an ordered list of events, the
  topological sort of events, the search for causal paths and the statistics.

  Parameters: \<open>blake3\<close>; \<open>ed\<close> for the signatures; \<open>rfc3339\<close>, chrono's rendering of a time;
  the JSON serialisers of \<open>serde_json\<close>; the clock and the iteration orders of the hash maps.
  Times are integers (nanoseconds since the epoch).
\<close>

section \<open>Events\<close>

record causal_event =
  event_id :: bytes
  step_name :: bytes
  causal_parents :: "bytes list"
  input_hash :: bytes
  output_hash :: bytes
  timestamp :: int
  exit_code :: int
  pipeline_hash :: bytes
  environment_hash :: bytes
  signer_public_key :: "bytes option"
  signature :: "bytes option"
  metadata :: "bytes \<rightharpoonup> bytes"

definition event_fields :: "(int \<Rightarrow> bytes) \<Rightarrow> causal_event \<Rightarrow> (bytes \<times> bytes) list" where
  "event_fields rfc3339 e =
     [(''domain'', ''attest-causal-event/v2''),
      (''step'', step_name e),
      (''input'', input_hash e),
      (''output'', output_hash e),
      (''pipeline'', pipeline_hash e),
      (''environment'', environment_hash e),
      (''exit'', show_int (exit_code e)),
      (''timestamp'', rfc3339 (timestamp e)),
      (''parents'', show_nat (length (causal_parents e)))]
     @ map (\<lambda>p. (''parent'', p)) (causal_parents e)"

definition event_content :: "(bytes \<Rightarrow> digest) \<Rightarrow> (int \<Rightarrow> bytes) \<Rightarrow> causal_event \<Rightarrow> bytes" where
  "event_content blake3 rfc3339 e = digest_bytes (blake3 (concat (map hash_field (event_fields rfc3339 e))))"

definition event_id_of :: "(bytes \<Rightarrow> digest) \<Rightarrow> (int \<Rightarrow> bytes) \<Rightarrow> causal_event \<Rightarrow> bytes" where
  "event_id_of blake3 rfc3339 e = to_hex (blake3 (event_content blake3 rfc3339 e))"

definition event_id_is_authentic :: "(bytes \<Rightarrow> digest) \<Rightarrow> (int \<Rightarrow> bytes) \<Rightarrow> causal_event \<Rightarrow> bool" where
  "event_id_is_authentic blake3 rfc3339 e \<longleftrightarrow> event_id e = event_id_of blake3 rfc3339 e"

text \<open>The fields of the JSON object that is signed; \<open>json\<close> is its serialisation.\<close>

record signing_view =
  sv_event_id :: bytes
  sv_step_name :: bytes
  sv_causal_parents :: "bytes list"
  sv_input_hash :: bytes
  sv_output_hash :: bytes
  sv_timestamp :: bytes
  sv_exit_code :: int
  sv_pipeline_hash :: bytes
  sv_environment_hash :: bytes

definition signing_view_of :: "(int \<Rightarrow> bytes) \<Rightarrow> causal_event \<Rightarrow> signing_view" where
  "signing_view_of rfc3339 e =
     \<lparr>sv_event_id = event_id e, sv_step_name = step_name e, sv_causal_parents = causal_parents e,
      sv_input_hash = input_hash e, sv_output_hash = output_hash e,
      sv_timestamp = rfc3339 (timestamp e), sv_exit_code = exit_code e,
      sv_pipeline_hash = pipeline_hash e, sv_environment_hash = environment_hash e\<rparr>"

definition event_signing_data :: "(signing_view \<Rightarrow> bytes) \<Rightarrow> (int \<Rightarrow> bytes) \<Rightarrow> causal_event \<Rightarrow> bytes" where
  "event_signing_data json rfc3339 e = json (signing_view_of rfc3339 e)"

definition event_signature_holds ::
  "ed25519 \<Rightarrow> (signing_view \<Rightarrow> bytes) \<Rightarrow> (int \<Rightarrow> bytes) \<Rightarrow> causal_event \<Rightarrow> bool option" where
  "event_signature_holds ed json rfc3339 e =
     (case signature e of
        None \<Rightarrow> None
      | Some sig \<Rightarrow>
          (case signer_public_key e of
             None \<Rightarrow> Some False
           | Some key \<Rightarrow>
               (case verify_with_public_key ed key (event_signing_data json rfc3339 e) sig of
                  Inl _ \<Rightarrow> Some False
                | Inr b \<Rightarrow> Some b)))"

definition chain_hash :: "(bytes \<Rightarrow> digest) \<Rightarrow> (int \<Rightarrow> bytes) \<Rightarrow> causal_event list \<Rightarrow> bytes" where
  "chain_hash blake3 rfc3339 es = to_hex (blake3 (concat (map (event_content blake3 rfc3339) es)))"

section \<open>The ledger\<close>

text \<open>\<open>event_files\<close> and \<open>chain_files\<close> are the directories \<open>events\<close> and \<open>chains\<close>: file name to
  content.\<close>

record causal_ledger =
  event_files :: "bytes \<rightharpoonup> bytes"
  chain_files :: "bytes \<rightharpoonup> bytes"
  events_index :: "bytes \<rightharpoonup> causal_event"
  dependency_graph :: "bytes \<rightharpoonup> bytes list"
  keypair :: "attest_keypair option"

definition ledger_new :: "(bytes \<rightharpoonup> bytes) \<Rightarrow> (bytes \<rightharpoonup> bytes) \<Rightarrow> causal_ledger" where
  "ledger_new ev ch = \<lparr>event_files = ev, chain_files = ch, events_index = Map.empty,
     dependency_graph = Map.empty, keypair = None\<rparr>"

definition load_keypair :: "attest_keypair \<Rightarrow> causal_ledger \<Rightarrow> causal_ledger" where
  "load_keypair kp l = l\<lparr>keypair := Some kp\<rparr>"

datatype ledger_error = WriteFailed bytes | ReadFailed bytes | BadEvent bytes
  | CircularDependency | LedgerPanic | SignatureError sign_error

text \<open>What the ledger needs of its surroundings: the primitives, the serialisers and which
  files can be written.\<close>

record ledger_env =
  le_blake3 :: "bytes \<Rightarrow> digest"
  le_ed :: ed25519
  le_rfc3339 :: "int \<Rightarrow> bytes"
  le_signing_json :: "signing_view \<Rightarrow> bytes"
  le_event_json :: "causal_event \<Rightarrow> bytes"
  le_event_parse :: "bytes \<Rightarrow> causal_event option"
  le_writable :: "bytes \<Rightarrow> bool"

definition event_file_name :: "causal_event \<Rightarrow> bytes" where
  "event_file_name e = event_id e @ ''.json''"

definition store_event_local ::
  "ledger_env \<Rightarrow> causal_event \<Rightarrow> causal_ledger \<Rightarrow> (ledger_error, causal_ledger) result" where
  "store_event_local env e l =
     ensure (le_writable env (event_file_name e)) (WriteFailed (event_file_name e)) (
     Inr (l\<lparr>event_files := (event_files l)(event_file_name e \<mapsto> le_event_json env e)\<rparr>))"

definition record_event_struct ::
  "ledger_env \<Rightarrow> causal_event \<Rightarrow> causal_ledger \<Rightarrow> (ledger_error, causal_ledger) result" where
  "record_event_struct env e l =
     and_then (store_event_local env e l) (\<lambda>l.
     Inr (l\<lparr>events_index := (events_index l)(event_id e \<mapsto> e),
            dependency_graph := (dependency_graph l)(event_id e \<mapsto> causal_parents e)\<rparr>))"

text \<open>The event \<open>record_event_local\<close> builds, before it is stored: its identifier is computed
  from the other fields, then it is signed if there is a key.\<close>

definition sign_event :: "ledger_env \<Rightarrow> attest_keypair option \<Rightarrow> causal_event \<Rightarrow> causal_event" where
  "sign_event env kp e =
     (case kp of
        None \<Rightarrow> e
      | Some kp \<Rightarrow>
          let data = event_signing_data (le_signing_json env) (le_rfc3339 env) e in
          e\<lparr>signature := Some (sign (le_ed env) kp data), signer_public_key := Some (public_key_hex kp)\<rparr>)"

definition record_event_local ::
  "ledger_env \<Rightarrow> int \<Rightarrow> bytes \<Rightarrow> bytes list \<Rightarrow> bytes \<Rightarrow> bytes \<Rightarrow> int \<Rightarrow> bytes \<Rightarrow> bytes
    \<Rightarrow> (bytes \<rightharpoonup> bytes) \<Rightarrow> causal_ledger \<Rightarrow> (ledger_error, causal_event \<times> causal_ledger) result" where
  "record_event_local env now name parents inh outh code pipe environ meta l =
     (let e = \<lparr>event_id = [], step_name = name, causal_parents = parents, input_hash = inh,
               output_hash = outh, timestamp = now, exit_code = code, pipeline_hash = pipe,
               environment_hash = environ, signer_public_key = None, signature = None,
               metadata = meta\<rparr>;
          e = e\<lparr>event_id := event_id_of (le_blake3 env) (le_rfc3339 env) e\<rparr>;
          e = sign_event env (keypair l) e
      in and_then (store_event_local env e l) (\<lambda>l.
         Inr (e, l\<lparr>events_index := (events_index l)(event_id e \<mapsto> e),
                   dependency_graph := (dependency_graph l)(event_id e \<mapsto> parents)\<rparr>)))"

text \<open>\<open>load_events\<close> reads the directory in the order \<open>listing\<close>.\<close>

fun load_files :: "ledger_env \<Rightarrow> bytes list \<Rightarrow> causal_ledger \<Rightarrow> (ledger_error, causal_ledger) result" where
  "load_files env [] l = Inr l"
| "load_files env (name # listing) l =
     (if ends_with name ''.json'' then
        and_then (ok_or (event_files l name) (ReadFailed name)) (\<lambda>content.
        and_then (ok_or (le_event_parse env content) (BadEvent name)) (\<lambda>e.
        load_files env listing
          (l\<lparr>events_index := (events_index l)(event_id e \<mapsto> e),
             dependency_graph := (dependency_graph l)(event_id e \<mapsto> causal_parents e)\<rparr>)))
      else load_files env listing l)"

definition load_events ::
  "ledger_env \<Rightarrow> bool \<Rightarrow> bytes list \<Rightarrow> causal_ledger \<Rightarrow> (ledger_error, causal_ledger) result" where
  "load_events env dir_exists listing l = (if \<not> dir_exists then Inr l else load_files env listing l)"

section \<open>Order\<close>

fun add_parents :: "bytes list \<Rightarrow> bytes \<Rightarrow> bytes list \<Rightarrow> (bytes \<rightharpoonup> nat) \<times> (bytes \<rightharpoonup> bytes list)
    \<Rightarrow> ((bytes \<rightharpoonup> nat) \<times> (bytes \<rightharpoonup> bytes list)) option" where
  "add_parents ids eid [] st = Some st"
| "add_parents ids eid (parent # parents) (in_degree, graph) =
     (if parent \<in> set ids then
        (case (graph parent, in_degree eid) of
           (Some ns, Some d) \<Rightarrow>
             add_parents ids eid parents (in_degree(eid \<mapsto> d + 1), graph(parent \<mapsto> ns @ [eid]))
         | _ \<Rightarrow> None)
      else add_parents ids eid parents (in_degree, graph))"

fun add_events :: "(bytes \<rightharpoonup> bytes list) \<Rightarrow> bytes list \<Rightarrow> bytes list \<Rightarrow> (bytes \<rightharpoonup> nat) \<times> (bytes \<rightharpoonup> bytes list)
    \<Rightarrow> ((bytes \<rightharpoonup> nat) \<times> (bytes \<rightharpoonup> bytes list)) option" where
  "add_events deps ids [] st = Some st"
| "add_events deps ids (eid # rest) st =
     (case deps eid of
        None \<Rightarrow> add_events deps ids rest st
      | Some parents \<Rightarrow>
          (case add_parents ids eid parents st of
             None \<Rightarrow> None
           | Some st \<Rightarrow> add_events deps ids rest st))"

definition topological_sort_events ::
  "bytes list \<Rightarrow> causal_ledger \<Rightarrow> bytes list \<Rightarrow> (ledger_error, bytes list) result option" where
  "topological_sort_events ord_degree l ids =
     (case add_events (dependency_graph l) ids ids
             (map_of (map (\<lambda>i. (i, 0)) ids), map_of (map (\<lambda>i. (i, [])) ids)) of
        None \<Rightarrow> Some (Inl LedgerPanic)
      | Some (in_degree, graph) \<Rightarrow>
          let queue = filter (\<lambda>i. in_degree i = Some 0) ord_degree in
          (case kahn_loop pop_back push_back graph queue in_degree [] of
             None \<Rightarrow> None
           | Some None \<Rightarrow> Some (Inl LedgerPanic)
           | Some (Some res) \<Rightarrow> Some (ensure (length res = length ids) CircularDependency (Inr res))))"

record causal_chain =
  chain_id :: bytes
  chain_events :: "causal_event list"
  created_at :: int
  chain_root :: bytes
  chain_signature :: "bytes option"

definition build_causal_chain ::
  "ledger_env \<Rightarrow> (causal_chain \<Rightarrow> bytes) \<Rightarrow> int \<Rightarrow> bytes list \<Rightarrow> causal_ledger \<Rightarrow> bytes list
    \<Rightarrow> (ledger_error, causal_chain \<times> causal_ledger) result option" where
  "build_causal_chain env chain_json now ord_degree l ids =
     map_option (\<lambda>r.
       and_then r (\<lambda>sorted_ids.
       let es = concat (map (\<lambda>i. case events_index l i of None \<Rightarrow> [] | Some e \<Rightarrow> [e]) sorted_ids);
           ends = (case es of [] \<Rightarrow> ([], []) | e # _ \<Rightarrow> (event_id e, event_id (last es)));
           cid = to_hex (le_blake3 env (''chain:'' @ fst ends @ '':'' @ snd ends));
           chain = \<lparr>chain_id = cid, chain_events = es, created_at = now,
                    chain_root = chain_hash (le_blake3 env) (le_rfc3339 env) es,
                    chain_signature = None\<rparr>;
           chain = (case keypair l of
                      None \<Rightarrow> chain
                    | Some kp \<Rightarrow> chain\<lparr>chain_signature := Some (sign (le_ed env) kp (chain_json chain))\<rparr>);
           file = cid @ ''.json''
       in ensure (le_writable env file) (WriteFailed file) (
          Inr (chain, l\<lparr>chain_files := (chain_files l)(file \<mapsto> chain_json chain)\<rparr>))))
     (topological_sort_events ord_degree l ids)"

section \<open>Causal paths\<close>

record causal_query =
  from_event :: bytes
  to_event :: bytes
  causal_path :: "bytes list"
  query_is_valid :: bool

fun bfs_parents :: "bytes list \<Rightarrow> bytes list \<Rightarrow> bytes set \<times> bytes list \<times> (bytes \<rightharpoonup> bytes list)
    \<Rightarrow> bytes set \<times> bytes list \<times> (bytes \<rightharpoonup> bytes list)" where
  "bfs_parents current_path [] st = st"
| "bfs_parents current_path (dep # parents) (visited, queue, paths) =
     (if dep \<notin> visited then
        bfs_parents current_path parents
          (insert dep visited, queue @ [dep], paths(dep \<mapsto> current_path @ [dep]))
      else bfs_parents current_path parents (visited, queue, paths))"

text \<open>The search loop. \<open>paths[&current]\<close> panics when the key is absent: the inner \<open>None\<close>.\<close>

partial_function (option) bfs_loop ::
  "(bytes \<rightharpoonup> causal_event) \<Rightarrow> bytes \<Rightarrow> bytes set \<times> bytes list \<times> (bytes \<rightharpoonup> bytes list)
    \<Rightarrow> bytes list option option option" where
  "bfs_loop index to st =
     (case st of (visited, queue, paths) \<Rightarrow>
       (case pop_front queue of
          None \<Rightarrow> Some (Some None)
        | Some (current, queue) \<Rightarrow>
            (case (if current = to then paths to else None) of
               Some path \<Rightarrow> Some (Some (Some path))
             | None \<Rightarrow>
                 (case index current of
                    None \<Rightarrow> bfs_loop index to (visited, queue, paths)
                  | Some e \<Rightarrow>
                      if list_all (\<lambda>dep. dep \<in> visited) (causal_parents e) then
                        bfs_loop index to (visited, queue, paths)
                      else
                        (case paths current of
                           None \<Rightarrow> Some None
                         | Some p \<Rightarrow>
                             bfs_loop index to (bfs_parents p (causal_parents e) (visited, queue, paths)))))))"

definition find_causal_path ::
  "causal_ledger \<Rightarrow> bytes \<Rightarrow> bytes \<Rightarrow> bytes list option option option" where
  "find_causal_path l from to =
     (if events_index l from = None \<or> events_index l to = None then Some (Some None)
      else if from = to then Some (Some (Some [from]))
      else bfs_loop (events_index l) to ({from}, [from], [from \<mapsto> [from]]))"

definition verify_event_signature ::
  "ledger_env \<Rightarrow> causal_ledger \<Rightarrow> causal_event \<Rightarrow> (ledger_error, bool) result" where
  "verify_event_signature env l e =
     (case (signature e, keypair l) of
        (Some sig, Some kp) \<Rightarrow>
          map_err SignatureError
            (verify (le_ed env) kp (event_signing_data (le_signing_json env) (le_rfc3339 env) e) sig)
      | _ \<Rightarrow> Inr False)"

fun verify_path_events :: "ledger_env \<Rightarrow> causal_ledger \<Rightarrow> bytes list \<Rightarrow> (ledger_error, bool) result" where
  "verify_path_events env l [] = Inr True"
| "verify_path_events env l (i # path) =
     (case events_index l i of
        None \<Rightarrow> Inr False
      | Some e \<Rightarrow>
          and_then (verify_event_signature env l e) (\<lambda>ok.
          if ok then verify_path_events env l path else Inr False))"

fun path_ordered :: "causal_ledger \<Rightarrow> bytes list \<Rightarrow> bool" where
  "path_ordered l (i # j # path) =
     ((case events_index l j of None \<Rightarrow> False | Some e \<Rightarrow> i \<in> set (causal_parents e)) \<and>
      path_ordered l (j # path))"
| "path_ordered l _ = True"

definition verify_causal_path :: "ledger_env \<Rightarrow> causal_ledger \<Rightarrow> bytes list \<Rightarrow> (ledger_error, bool) result" where
  "verify_causal_path env l path =
     (if path = [] then Inr False
      else and_then (verify_path_events env l path) (\<lambda>ok. Inr (ok \<and> path_ordered l path)))"

definition query_causal_path ::
  "ledger_env \<Rightarrow> causal_ledger \<Rightarrow> bytes \<Rightarrow> bytes \<Rightarrow> (ledger_error, causal_query) result option" where
  "query_causal_path env l from to =
     (case find_causal_path l from to of
        None \<Rightarrow> None
      | Some None \<Rightarrow> Some (Inl LedgerPanic)
      | Some (Some found) \<Rightarrow> Some (
          and_then (case found of
                      Some path \<Rightarrow> and_then (verify_causal_path env l path) (\<lambda>v. Inr (path, v))
                    | None \<Rightarrow> Inr ([], False)) (\<lambda>(path, v).
          Inr \<lparr>from_event = from, to_event = to, causal_path = path, query_is_valid = v\<rparr>)))"

section \<open>Statistics\<close>

record causal_ledger_stats =
  total_events :: u64
  total_chains :: u64
  root_events :: u64
  leaf_events :: u64
  avg_chain_length :: u64

text \<open>\<open>dfs_mark_visited\<close> with a bound on the nesting of calls; \<open>None\<close> when it is reached.\<close>

fun dfs_mark_visited :: "nat \<Rightarrow> (bytes \<rightharpoonup> bytes list) \<Rightarrow> bytes \<Rightarrow> bytes set \<Rightarrow> bytes set option"
and dfs_mark_parents :: "nat \<Rightarrow> (bytes \<rightharpoonup> bytes list) \<Rightarrow> bytes list \<Rightarrow> bytes set \<Rightarrow> bytes set option" where
  "dfs_mark_visited 0 deps i visited = None"
| "dfs_mark_visited (Suc depth) deps i visited =
     (if i \<in> visited then Some visited
      else (case deps i of
              None \<Rightarrow> Some (insert i visited)
            | Some parents \<Rightarrow> dfs_mark_parents depth deps parents (insert i visited)))"
| "dfs_mark_parents depth deps [] visited = Some visited"
| "dfs_mark_parents depth deps (p # ps) visited =
     (case dfs_mark_visited depth deps p visited of
        None \<Rightarrow> None
      | Some visited \<Rightarrow> dfs_mark_parents depth deps ps visited)"

fun count_chains_loop :: "nat \<Rightarrow> (bytes \<rightharpoonup> bytes list) \<Rightarrow> bytes list \<Rightarrow> bytes set \<Rightarrow> nat \<Rightarrow> nat option" where
  "count_chains_loop depth deps [] visited nchains = Some nchains"
| "count_chains_loop depth deps (i # ids) visited nchains =
     (if i \<notin> visited then
        (case dfs_mark_visited depth deps i visited of
           None \<Rightarrow> None
         | Some visited \<Rightarrow> count_chains_loop depth deps ids visited (nchains + 1))
      else count_chains_loop depth deps ids visited nchains)"

text \<open>\<open>ord_index\<close> is the iteration order of \<open>events_index\<close>, \<open>ord_deps\<close> that of
  \<open>dependency_graph\<close>; the call depth is bounded by the number of identifiers they mention.\<close>

definition parent_ids :: "causal_ledger \<Rightarrow> bytes list \<Rightarrow> bytes set" where
  "parent_ids l ord_deps = set (concat (map (nbrs (dependency_graph l)) ord_deps))"

definition count_chains :: "bytes list \<Rightarrow> bytes list \<Rightarrow> causal_ledger \<Rightarrow> nat option" where
  "count_chains ord_index ord_deps l =
     count_chains_loop (Suc (card (set ord_index \<union> set ord_deps \<union> parent_ids l ord_deps)))
       (dependency_graph l) ord_index {} 0"

definition count_root_events :: "bytes list \<Rightarrow> causal_ledger \<Rightarrow> nat" where
  "count_root_events ord_index l =
     length (filter (\<lambda>i. case events_index l i of None \<Rightarrow> False | Some e \<Rightarrow> causal_parents e = []) ord_index)"

text \<open>The subtraction is on \<open>usize\<close>.\<close>

definition count_leaf_events :: "bytes list \<Rightarrow> bytes list \<Rightarrow> causal_ledger \<Rightarrow> u64" where
  "count_leaf_events ord_index ord_deps l =
     of_nat (length ord_index) - of_nat (card (parent_ids l ord_deps))"

definition get_statistics :: "bytes list \<Rightarrow> bytes list \<Rightarrow> causal_ledger \<Rightarrow> causal_ledger_stats option" where
  "get_statistics ord_index ord_deps l =
     map_option (\<lambda>nchains.
       \<lparr>total_events = of_nat (length ord_index),
        total_chains = of_nat nchains,
        root_events = of_nat (count_root_events ord_index l),
        leaf_events = count_leaf_events ord_index ord_deps l,
        avg_chain_length = (if (of_nat nchains :: u64) = 0 then 0
                            else of_nat (length ord_index) div of_nat nchains)\<rparr>)
     (count_chains ord_index ord_deps l)"

definition get_events_by_step :: "bytes list \<Rightarrow> causal_ledger \<Rightarrow> bytes \<Rightarrow> causal_event list" where
  "get_events_by_step ord_index l name =
     filter (\<lambda>e. step_name e = name)
       (concat (map (\<lambda>i. case events_index l i of None \<Rightarrow> [] | Some e \<Rightarrow> [e]) ord_index))"

definition get_all_events :: "bytes list \<Rightarrow> causal_ledger \<Rightarrow> causal_event list" where
  "get_all_events ord_index l =
     concat (map (\<lambda>i. case events_index l i of None \<Rightarrow> [] | Some e \<Rightarrow> [e]) ord_index)"

section \<open>What identifiers and roots commit to\<close>

text \<open>Two events state the same facts: everything a reader relies on, parents included, the
  time up to its rendering.\<close>

definition same_facts :: "(int \<Rightarrow> bytes) \<Rightarrow> causal_event \<Rightarrow> causal_event \<Rightarrow> bool" where
  "same_facts rfc3339 e e' \<longleftrightarrow> step_name e = step_name e' \<and> causal_parents e = causal_parents e' \<and>
     input_hash e = input_hash e' \<and> output_hash e = output_hash e' \<and>
     rfc3339 (timestamp e) = rfc3339 (timestamp e') \<and> exit_code e = exit_code e' \<and>
     pipeline_hash e = pipeline_hash e' \<and> environment_hash e = environment_hash e'"

definition event_bytes :: "(int \<Rightarrow> bytes) \<Rightarrow> causal_event \<Rightarrow> bytes" where
  "event_bytes rfc3339 e = concat (map hash_field (event_fields rfc3339 e))"

lemma event_content_alt: "event_content blake3 rfc3339 e = digest_bytes (blake3 (event_bytes rfc3339 e))"
  by (simp add: event_content_def event_bytes_def)

lemma event_fields_same_facts:
  "event_fields rfc3339 e = event_fields rfc3339 e' \<longleftrightarrow> same_facts rfc3339 e e'"
proof -
  have "inj (\<lambda>p. (''parent'', p))" by (simp add: inj_def)
  then have "map (\<lambda>p. (''parent'', p)) xs = map (\<lambda>p. (''parent'', p)) ys \<longleftrightarrow> xs = ys" for xs ys :: "bytes list"
    by (rule inj_map_eq_map)
  then show ?thesis by (auto simp: event_fields_def same_facts_def)
qed

lemma event_bytes_inject: "event_bytes rfc3339 e = event_bytes rfc3339 e' \<longleftrightarrow> same_facts rfc3339 e e'"
  unfolding event_bytes_def event_fields_same_facts [symmetric]
  using field.concat_map_inject [of "event_fields rfc3339 e" "event_fields rfc3339 e'"]
  by (auto simp: list_all_iff)

interpretation block: prefix_code digest_bytes "\<lambda>_. True"
proof
  fix x :: digest
  have "length (digest_bytes x) \<noteq> length ([] :: bytes)" by simp
  then show "digest_bytes x \<noteq> []" by metis
qed auto

text \<open>
  C35. An event identifier is a commitment to the facts of the event, and to nothing else. Two events with authentic identifiers
  have the same one exactly when they agree on the step, the list of parents, the input, output, pipeline and environment
  hashes, the exit code, and the time as RFC 3339 writes it, unless BLAKE3 collides on one of the strings hashed for them. The
  metadata, the signature and the signer's key of an event are not covered.
\<close>

theorem event_id_binding:
  assumes "event_id_is_authentic blake3 rfc3339 e" "event_id_is_authentic blake3 rfc3339 e'"
    and "inj_on blake3 {event_bytes rfc3339 e, event_bytes rfc3339 e',
           event_content blake3 rfc3339 e, event_content blake3 rfc3339 e'}"
  shows "event_id e = event_id e' \<longleftrightarrow>
    step_name e = step_name e' \<and> causal_parents e = causal_parents e' \<and> input_hash e = input_hash e' \<and> output_hash e = output_hash e' \<and>
    pipeline_hash e = pipeline_hash e' \<and> environment_hash e = environment_hash e' \<and> exit_code e = exit_code e' \<and>
    rfc3339 (timestamp e) = rfc3339 (timestamp e')"
proof -
  have "event_id e = event_id e' \<longleftrightarrow> blake3 (event_content blake3 rfc3339 e) = blake3 (event_content blake3 rfc3339 e')"
    using assms(1,2) by (simp add: event_id_is_authentic_def event_id_of_def)
  also have "\<dots> \<longleftrightarrow> event_content blake3 rfc3339 e = event_content blake3 rfc3339 e'"
    by (rule inj_on_eq_iff [OF assms(3)]) simp_all
  also have "\<dots> \<longleftrightarrow> blake3 (event_bytes rfc3339 e) = blake3 (event_bytes rfc3339 e')"
    by (simp add: event_content_alt)
  also have "\<dots> \<longleftrightarrow> event_bytes rfc3339 e = event_bytes rfc3339 e'"
    by (rule inj_on_eq_iff [OF assms(3)]) simp_all
  also have "\<dots> \<longleftrightarrow> same_facts rfc3339 e e'" by (rule event_bytes_inject)
  finally show ?thesis by (auto simp: same_facts_def)
qed

definition example_event :: causal_event where
  "example_event = \<lparr>event_id = [], step_name = ''b'', causal_parents = [], input_hash = ''i'',
     output_hash = ''o'', timestamp = 0, exit_code = 0, pipeline_hash = ''p'',
     environment_hash = ''e'', signer_public_key = None, signature = None, metadata = Map.empty\<rparr>"

text \<open>A hash for the examples: distinct on the strings they hash, since what it is applied to
  second is a 32-byte block.\<close>

definition example_hash :: "bytes \<Rightarrow> digest" where
  "example_hash s = digest_of (if length s = 32 then CHR ''x'' # s else s)"

lemma event_bytes_prefix:
  "\<exists>r. event_bytes rfc3339 e = ''6:domain:22:attest-causal-event/v2'' @ r"
  by (simp add: event_bytes_def event_fields_def hash_field_def show_nat.simps digit_char_def char_of_def bit_0)

lemma example_hash_content:
  "inj_on example_hash {event_bytes rfc3339 e, event_bytes rfc3339 e,
     event_content example_hash rfc3339 e, event_content example_hash rfc3339 e}"
proof -
  obtain r where r: "event_bytes rfc3339 e = ''6:domain:22:attest-causal-event/v2'' @ r"
    using event_bytes_prefix by blast
  have "event_content example_hash rfc3339 e = ''6:domain:22:attest-causal-event/''"
    by (simp add: event_content_alt example_hash_def r digest_bytes_of)
  then have "example_hash (event_content example_hash rfc3339 e) \<noteq> example_hash (event_bytes rfc3339 e)"
    by (simp add: example_hash_def r digest_of_eq_iff)
  then show ?thesis by auto
qed

definition example_authentic :: causal_event where
  "example_authentic = example_event\<lparr>event_id := event_id_of example_hash show_int example_event\<rparr>"

lemma event_bytes_id [simp]: "event_bytes rfc3339 (e\<lparr>event_id := i\<rparr>) = event_bytes rfc3339 e"
  "event_bytes rfc3339 (e\<lparr>metadata := m\<rparr>) = event_bytes rfc3339 e"
  by (simp_all add: event_bytes_def event_fields_def)

text \<open>Two events that differ in their metadata only have the same identifier.\<close>

theorem event_id_binding_witness:
  "event_id example_authentic = event_id (example_authentic\<lparr>metadata := [''k'' \<mapsto> ''v'']\<rparr>)"
proof -
  let ?e = example_authentic and ?e' = "example_authentic\<lparr>metadata := [''k'' \<mapsto> ''v'']\<rparr>"
  have "event_id_is_authentic example_hash show_int ?e" "event_id_is_authentic example_hash show_int ?e'"
    by (simp_all add: example_authentic_def event_id_is_authentic_def event_id_of_def event_content_alt)
  moreover have "event_content example_hash show_int ?e' = event_content example_hash show_int ?e" "event_bytes show_int ?e' = event_bytes show_int ?e"
    by (simp_all add: event_content_alt)
  ultimately show ?thesis using event_id_binding [of example_hash show_int ?e ?e'] example_hash_content [of show_int ?e] by simp
qed

text \<open>
  The chain root is a commitment to the whole ordered history: two sequences of events
  with the same root have the same length and state the same facts at every position, unless
  BLAKE3 collides on one of the strings hashed for them.
\<close>

theorem chain_hash_binding:
  assumes "chain_hash blake3 rfc3339 es = chain_hash blake3 rfc3339 es'"
    and "inj_on blake3 ({concat (map (event_content blake3 rfc3339) es),
           concat (map (event_content blake3 rfc3339) es')} \<union>
           event_bytes rfc3339 ` (set es \<union> set es'))"
  shows "list_all2 (same_facts rfc3339) es es'"
proof -
  let ?S = "{concat (map (event_content blake3 rfc3339) es),
           concat (map (event_content blake3 rfc3339) es')} \<union> event_bytes rfc3339 ` (set es \<union> set es')"
  have "blake3 (concat (map (event_content blake3 rfc3339) es)) =
      blake3 (concat (map (event_content blake3 rfc3339) es'))"
    using assms(1) by (simp add: chain_hash_def)
  then have "concat (map (event_content blake3 rfc3339) es) = concat (map (event_content blake3 rfc3339) es')"
    by (rule inj_onD [OF assms(2)]) simp_all
  then have "concat (map digest_bytes (map (\<lambda>e. blake3 (event_bytes rfc3339 e)) es)) =
      concat (map digest_bytes (map (\<lambda>e. blake3 (event_bytes rfc3339 e)) es'))"
    by (simp add: event_content_alt [abs_def] comp_def)
  then have "map (\<lambda>e. blake3 (event_bytes rfc3339 e)) es = map (\<lambda>e. blake3 (event_bytes rfc3339 e)) es'"
    by (intro block.concat_map_inject) (simp_all add: list_all_iff)
  then have *: "list_all2 (\<lambda>e e'. blake3 (event_bytes rfc3339 e) = blake3 (event_bytes rfc3339 e')) es es'"
    by (simp add: list_eq_iff_nth_eq list_all2_conv_all_nth)
  show ?thesis
  proof (rule list.rel_mono_strong [OF *])
    fix e e' assume "e \<in> set es" "e' \<in> set es'"
      "blake3 (event_bytes rfc3339 e) = blake3 (event_bytes rfc3339 e')"
    then have "event_bytes rfc3339 e = event_bytes rfc3339 e'"
      using inj_onD [OF assms(2), of "event_bytes rfc3339 e" "event_bytes rfc3339 e'"] by auto
    then show "same_facts rfc3339 e e'" by (simp add: event_bytes_inject)
  qed
qed

theorem chain_hash_binding_witness:
  "list_all2 (same_facts show_int) [example_event] [example_event\<lparr>metadata := [''k'' \<mapsto> ''v'']\<rparr>]"
  by (rule chain_hash_binding [of example_hash])
     (use example_hash_content [of show_int example_event] in
       \<open>simp_all add: chain_hash_def event_content_alt insert_commute\<close>)

section \<open>Recording and loading\<close>

lemma sign_event_fields [simp]:
  "event_id (sign_event env kp e) = event_id e" "step_name (sign_event env kp e) = step_name e"
  "causal_parents (sign_event env kp e) = causal_parents e" "input_hash (sign_event env kp e) = input_hash e"
  "output_hash (sign_event env kp e) = output_hash e" "timestamp (sign_event env kp e) = timestamp e"
  "exit_code (sign_event env kp e) = exit_code e" "pipeline_hash (sign_event env kp e) = pipeline_hash e"
  "environment_hash (sign_event env kp e) = environment_hash e"
  by (cases kp; simp add: sign_event_def Let_def)+

lemma event_id_of_sign [simp]:
  "event_id_of b r (sign_event env kp e) = event_id_of b r e" "event_id_of b r (e\<lparr>event_id := i\<rparr>) = event_id_of b r e"
  by (simp_all add: event_id_of_def event_content_def event_fields_def)

lemma event_signing_data_sign [simp]: "event_signing_data j r (sign_event env kp e) = event_signing_data j r e"
  by (simp add: event_signing_data_def signing_view_of_def)

lemma sign_event_holds:
  assumes "ed_correct (le_ed env)" "\<And>k. kp = Some k \<Longrightarrow> k = from_signing_key (le_ed env) (signing_key k)"
    and "signature e = None"
  shows "event_signature_holds (le_ed env) (le_signing_json env) (le_rfc3339 env) (sign_event env kp e) =
    (if kp = None then None else Some True)"
proof (cases kp)
  case None
  then show ?thesis using assms(3) by (simp add: event_signature_holds_def sign_event_def)
next
  case (Some k)
  let ?d = "event_signing_data (le_signing_json env) (le_rfc3339 env) e"
  have "signature (sign_event env kp e) = Some (sign (le_ed env) k ?d)"
    "signer_public_key (sign_event env kp e) = Some (public_key_hex k)"
    by (simp_all add: Some sign_event_def Let_def)
  moreover have "verify_with_public_key (le_ed env) (public_key_hex k) ?d (sign (le_ed env) k ?d) = Inr True"
    using assms(1) assms(2) [OF Some] by (rule sign_verifies_key)
  ultimately show ?thesis by (simp add: event_signature_holds_def Some)
qed

lemma record_event_local_cases:
  assumes "record_event_local env now name parents inh outh code pipe environ meta l = Inr (e, l')"
  shows "\<exists>e0. e = sign_event env (keypair l) e0 \<and> signature e0 = None \<and>
    event_id_is_authentic (le_blake3 env) (le_rfc3339 env) e \<and>
    step_name e = name \<and> causal_parents e = parents \<and> input_hash e = inh \<and> output_hash e = outh \<and>
    timestamp e = now \<and> exit_code e = code \<and> pipeline_hash e = pipe \<and> environment_hash e = environ \<and>
    record_event_struct env e l = Inr l'"
proof -
  define e0 where "e0 = (let e = \<lparr>event_id = [], step_name = name, causal_parents = parents, input_hash = inh,
               output_hash = outh, timestamp = now, exit_code = code, pipeline_hash = pipe,
               environment_hash = environ, signer_public_key = None, signature = None,
               metadata = meta\<rparr> in e\<lparr>event_id := event_id_of (le_blake3 env) (le_rfc3339 env) e\<rparr>)"
  have e: "e = sign_event env (keypair l) e0" and s: "record_event_struct env e l = Inr l'"
    using assms
    by (auto simp: record_event_local_def Let_def e0_def result_simps record_event_struct_def)
  have "signature e0 = None" "event_id e0 = event_id_of (le_blake3 env) (le_rfc3339 env) e0"
    "step_name e0 = name" "causal_parents e0 = parents" "input_hash e0 = inh" "output_hash e0 = outh"
    "timestamp e0 = now" "exit_code e0 = code" "pipeline_hash e0 = pipe" "environment_hash e0 = environ"
    by (simp_all add: e0_def event_id_of_def event_content_def event_fields_def)
  with e s show ?thesis by (auto simp: event_id_is_authentic_def)
qed

text \<open>
  A recorded event is genuine and complete: its identifier is the one its content implies,
  it carries exactly the facts given, its signature verifies with the key it names when the
  ledger has a key pair and it is unsigned otherwise; and the ledger afterwards holds it in
  its index, in its graph and on disk under its identifier, with nothing else changed.
\<close>

theorem record_event_local_genuine:
  assumes "record_event_local env now name parents inh outh code pipe environ meta l = Inr (e, l')"
    and "ed_correct (le_ed env)" "\<And>kp. keypair l = Some kp \<Longrightarrow> kp = from_signing_key (le_ed env) (signing_key kp)"
  shows "event_id_is_authentic (le_blake3 env) (le_rfc3339 env) e \<and>
    step_name e = name \<and> causal_parents e = parents \<and> input_hash e = inh \<and> output_hash e = outh \<and>
    timestamp e = now \<and> exit_code e = code \<and> pipeline_hash e = pipe \<and> environment_hash e = environ \<and>
    event_signature_holds (le_ed env) (le_signing_json env) (le_rfc3339 env) e =
      (if keypair l = None then None else Some True) \<and>
    l' = l\<lparr>event_files := (event_files l)(event_id e @ ''.json'' \<mapsto> le_event_json env e),
           events_index := (events_index l)(event_id e \<mapsto> e),
           dependency_graph := (dependency_graph l)(event_id e \<mapsto> parents)\<rparr>"
proof -
  obtain e0 where e: "e = sign_event env (keypair l) e0" "signature e0 = None"
    and facts: "event_id_is_authentic (le_blake3 env) (le_rfc3339 env) e"
      "step_name e = name" "causal_parents e = parents" "input_hash e = inh" "output_hash e = outh"
      "timestamp e = now" "exit_code e = code" "pipeline_hash e = pipe" "environment_hash e = environ"
    and s: "record_event_struct env e l = Inr l'"
    using record_event_local_cases [OF assms(1)] by blast
  have "event_signature_holds (le_ed env) (le_signing_json env) (le_rfc3339 env) e =
      (if keypair l = None then None else Some True)"
    unfolding e(1) using assms(2,3) e(2) by (rule sign_event_holds)
  moreover have "l' = l\<lparr>event_files := (event_files l)(event_id e @ ''.json'' \<mapsto> le_event_json env e),
           events_index := (events_index l)(event_id e \<mapsto> e),
           dependency_graph := (dependency_graph l)(event_id e \<mapsto> parents)\<rparr>"
    using s facts(3)
    by (auto simp: record_event_struct_def store_event_local_def result_simps event_file_name_def)
  ultimately show ?thesis using facts by blast
qed

definition example_env :: ledger_env where
  "example_env = \<lparr>le_blake3 = example_hash, le_ed = example_ed, le_rfc3339 = show_int,
     le_signing_json = sv_event_id, le_event_json = event_id,
     le_event_parse = (\<lambda>s. Some (example_event\<lparr>event_id := s\<rparr>)), le_writable = (\<lambda>_. True)\<rparr>"

theorem record_event_local_genuine_witness:
  "\<exists>e l'. record_event_local example_env 0 ''b'' [] ''i'' ''o'' 0 ''p'' ''e'' Map.empty
      (load_keypair (from_signing_key example_ed (digest_of ''k'')) (ledger_new Map.empty Map.empty)) = Inr (e, l') \<and>
    event_signature_holds example_ed sv_event_id show_int e = Some True"
proof -
  let ?l = "load_keypair (from_signing_key example_ed (digest_of ''k'')) (ledger_new Map.empty Map.empty)"
  obtain e l' where r: "record_event_local example_env 0 ''b'' [] ''i'' ''o'' 0 ''p'' ''e'' Map.empty ?l = Inr (e, l')"
    by (simp add: record_event_local_def store_event_local_def example_env_def Let_def)
  have "event_signature_holds (le_ed example_env) (le_signing_json example_env) (le_rfc3339 example_env) e =
      (if keypair ?l = None then None else Some True)"
    using record_event_local_genuine [OF r] example_ed_correct
    by (simp add: example_env_def load_keypair_def from_signing_key_def)
  then show ?thesis using r by (auto simp: example_env_def load_keypair_def)
qed

text \<open>The ledger on disk and in memory agree.\<close>

definition ledger_ok :: "ledger_env \<Rightarrow> causal_ledger \<Rightarrow> bool" where
  "ledger_ok env l \<longleftrightarrow>
     (\<forall>i. event_files l (i @ ''.json'') = map_option (le_event_json env) (events_index l i)) \<and>
     (\<forall>name. event_files l name \<noteq> None \<longrightarrow> ends_with name ''.json'') \<and>
     (\<forall>i e. events_index l i = Some e \<longrightarrow> event_id e = i) \<and>
     (\<forall>i. dependency_graph l i = map_option causal_parents (events_index l i))"

lemma record_event_struct_ok:
  assumes "ledger_ok env l" "record_event_struct env e l = Inr l'"
  shows "ledger_ok env l'"
proof -
  have l': "l' = l\<lparr>event_files := (event_files l)(event_id e @ ''.json'' \<mapsto> le_event_json env e),
      events_index := (events_index l)(event_id e \<mapsto> e),
      dependency_graph := (dependency_graph l)(event_id e \<mapsto> causal_parents e)\<rparr>"
    using assms(2)
    by (auto simp: record_event_struct_def store_event_local_def result_simps event_file_name_def)
  have "ends_with (event_id e @ ''.json'') ''.json''" by (auto simp: ends_with_iff)
  with assms(1) show ?thesis by (simp add: ledger_ok_def l')
qed

lemma record_event_local_ok:
  assumes "ledger_ok env l"
    and "record_event_local env now name parents inh outh code pipe environ meta l = Inr (e, l')"
  shows "ledger_ok env l'"
  using record_event_local_cases [OF assms(2)] record_event_struct_ok [OF assms(1)] by blast

inductive ledger_reach :: "ledger_env \<Rightarrow> causal_ledger \<Rightarrow> bool" for env where
  reach_new: "ledger_reach env (ledger_new Map.empty ch)"
| reach_key: "ledger_reach env l \<Longrightarrow> ledger_reach env (load_keypair kp l)"
| reach_struct: "ledger_reach env l \<Longrightarrow> record_event_struct env e l = Inr l' \<Longrightarrow> ledger_reach env l'"
| reach_local: "ledger_reach env l \<Longrightarrow>
    record_event_local env now name parents inh outh code pipe environ meta l = Inr (e, l') \<Longrightarrow>
    ledger_reach env l'"

lemma ledger_reach_ok: "ledger_reach env l \<Longrightarrow> ledger_ok env l"
proof (induction rule: ledger_reach.induct)
  case (reach_key l kp)
  then show ?case by (simp add: ledger_ok_def load_keypair_def)
next
  case (reach_new ch)
  show ?case by (simp add: ledger_ok_def ledger_new_def)
qed (blast intro: record_event_struct_ok record_event_local_ok)+

lemma load_files_spec:
  assumes parse: "\<And>e. e \<in> ran (events_index l) \<Longrightarrow> le_event_parse env (le_event_json env e) = Some e" and ok: "ledger_ok env l"
    and "event_files l0 = event_files l" "set listing \<subseteq> dom (event_files l)"
  shows "\<exists>l'. load_files env listing l0 = Inr l' \<and>
    events_index l' = (\<lambda>i. if i @ ''.json'' \<in> set listing then events_index l i else events_index l0 i) \<and>
    dependency_graph l' = (\<lambda>i. if i @ ''.json'' \<in> set listing then dependency_graph l i else dependency_graph l0 i)"
  using assms(3,4)
proof (induction listing arbitrary: l0)
  case (Cons name listing)
  then have "event_files l name \<noteq> None" by auto
  then obtain i where i: "name = i @ ''.json''" and js: "ends_with name ''.json''"
    using ok unfolding ledger_ok_def ends_with_iff by blast
  then obtain e where e: "events_index l i = Some e" "event_files l name = Some (le_event_json env e)"
    using ok \<open>event_files l name \<noteq> None\<close> unfolding ledger_ok_def by fastforce
  then have id: "event_id e = i" "dependency_graph l i = Some (causal_parents e)"
    using ok by (simp_all add: ledger_ok_def)
  define l1 where "l1 = l0\<lparr>events_index := (events_index l0)(i \<mapsto> e),
      dependency_graph := (dependency_graph l0)(i \<mapsto> causal_parents e)\<rparr>"
  have "event_files l1 = event_files l" using Cons.prems(1) by (simp add: l1_def)
  from Cons.IH [OF this] Cons.prems(2) obtain l' where l': "load_files env listing l1 = Inr l'"
    "events_index l' = (\<lambda>j. if j @ ''.json'' \<in> set listing then events_index l j else events_index l1 j)"
    "dependency_graph l' = (\<lambda>j. if j @ ''.json'' \<in> set listing then dependency_graph l j else dependency_graph l1 j)"
    by auto
  have "load_files env (name # listing) l0 = Inr l'"
    using js e(2) parse [of e] e(1) id(1) l'(1) Cons.prems(1) by (simp add: l1_def ranI)
  moreover have "events_index l' = (\<lambda>j. if j @ ''.json'' \<in> set (name # listing) then events_index l j else events_index l0 j)"
    "dependency_graph l' = (\<lambda>j. if j @ ''.json'' \<in> set (name # listing) then dependency_graph l j else dependency_graph l0 j)"
    unfolding l'(2,3) using e(1) id(2) i by (auto simp: l1_def fun_eq_iff)
  ultimately show ?case by blast
qed simp

text \<open>
  The ledger survives a restart. Whatever sequence of key changes and recordings led to a
  ledger, reading its event files back in any directory order gives the same index and the
  same dependency graph, as long as the JSON reader inverts the
  writer on the events recorded.
\<close>

theorem load_events_roundtrip:
  assumes "ledger_reach env l"
      "\<And>e. e \<in> ran (events_index l) \<Longrightarrow> le_event_parse env (le_event_json env e) = Some e"
    and "set listing = dom (event_files l)"
  shows "\<exists>l'. load_events env True listing (ledger_new (event_files l) (chain_files l)) = Inr l' \<and>
    events_index l' = events_index l \<and> dependency_graph l' = dependency_graph l"
proof -
  let ?l0 = "ledger_new (event_files l) (chain_files l)"
  note ok = ledger_reach_ok [OF assms(1)]
  obtain l' where l': "load_files env listing ?l0 = Inr l'"
    "events_index l' = (\<lambda>i. if i @ ''.json'' \<in> set listing then events_index l i else events_index ?l0 i)"
    "dependency_graph l' = (\<lambda>i. if i @ ''.json'' \<in> set listing then dependency_graph l i else dependency_graph ?l0 i)"
    using load_files_spec [OF assms(2) ok, of ?l0 listing] assms(3) by (auto simp: ledger_new_def)
  have none: "events_index l i = None \<and> dependency_graph l i = None" if "i @ ''.json'' \<notin> set listing" for i
    using ok that assms(3) unfolding ledger_ok_def by (metis domIff map_option_is_None)
  have "events_index l' = events_index l" "dependency_graph l' = dependency_graph l"
    unfolding l'(2,3) using none by (auto simp: fun_eq_iff ledger_new_def)
  with l'(1) show ?thesis by (simp add: load_events_def)
qed

definition example_event_env :: ledger_env where
  "example_event_env = example_env\<lparr>le_event_json := step_name, le_event_parse := (\<lambda>s.
     if s = ''b'' then Some example_authentic else None)\<rparr>"

definition example_ledger :: causal_ledger where
  "example_ledger = \<lparr>event_files = [event_file_name example_authentic \<mapsto> ''b''], chain_files = Map.empty,
     events_index = [event_id example_authentic \<mapsto> example_authentic],
     dependency_graph = [event_id example_authentic \<mapsto> []], keypair = None\<rparr>"

lemma example_ledger_reach: "ledger_reach example_event_env example_ledger"
proof -
  have "record_event_struct example_event_env example_authentic (ledger_new Map.empty Map.empty) =
      Inr example_ledger"
    by (simp add: record_event_struct_def store_event_local_def example_event_env_def example_env_def
        ledger_new_def example_ledger_def example_authentic_def example_event_def)
  then show ?thesis by (rule reach_struct [OF reach_new])
qed

theorem load_events_roundtrip_witness:
  "\<exists>l'. load_events example_event_env True [event_file_name example_authentic]
      (ledger_new (event_files example_ledger) (chain_files example_ledger)) = Inr l' \<and>
    events_index l' = events_index example_ledger \<and> dependency_graph l' = dependency_graph example_ledger"
  by (rule load_events_roundtrip [OF example_ledger_reach])
     (auto simp: example_ledger_def example_event_env_def example_authentic_def example_event_def)

section \<open>The order of events\<close>

text \<open>The edges among the events asked for: parent to child.\<close>

definition causal_edges :: "(bytes \<rightharpoonup> bytes list) \<Rightarrow> bytes set \<Rightarrow> (bytes \<times> bytes) set" where
  "causal_edges deps S = {(p, c). c \<in> S \<and> p \<in> S \<and> p \<in> set (nbrs deps c)}"

text \<open>What the two filling loops keep: the degrees count the edges of the graph built so far.\<close>

definition counted :: "bytes set \<Rightarrow> (bytes \<rightharpoonup> nat) \<times> (bytes \<rightharpoonup> bytes list) \<Rightarrow> bool" where
  "counted N = (\<lambda>(deg, g). dom deg = N \<and> dom g = N \<and>
     (\<forall>v\<in>N. deg v = Some (\<Sum>u\<in>N. count_list (nbrs g u) v)))"

lemma counted_step:
  assumes "counted N (deg, g)" "finite N" "p \<in> N" "c \<in> N" "g p = Some ns" "deg c = Some d"
  shows "counted N (deg(c \<mapsto> d + 1), g(p \<mapsto> ns @ [c]))"
proof -
  let ?g = "g(p \<mapsto> ns @ [c])"
  have n: "nbrs ?g u = (if u = p then ns @ [c] else nbrs g u)" for u by (simp add: nbrs_def)
  have g: "nbrs g p = ns" using assms(5) by simp
  have "(\<Sum>u\<in>N. count_list (nbrs ?g u) v) = (\<Sum>u\<in>N. count_list (nbrs g u) v) + (if v = c then 1 else 0)" for v
  proof -
    have "(\<Sum>u\<in>N. count_list (nbrs ?g u) v) =
        count_list (ns @ [c]) v + (\<Sum>u\<in>N - {p}. count_list (nbrs ?g u) v)"
      using assms(2,3) by (subst sum.remove [of N p]) (simp_all add: n)
    also have "(\<Sum>u\<in>N - {p}. count_list (nbrs ?g u) v) = (\<Sum>u\<in>N - {p}. count_list (nbrs g u) v)"
      by (rule sum.cong) (simp_all add: n)
    also have "count_list (ns @ [c]) v + \<dots> = (\<Sum>u\<in>N. count_list (nbrs g u) v) + (if v = c then 1 else 0)"
      using sum.remove [OF assms(2,3), of "\<lambda>u. count_list (nbrs g u) v"] g by simp
    finally show ?thesis .
  qed
  with assms show ?thesis by (auto simp: counted_def)
qed

lemma graph_edges_push: "g p = Some ns \<Longrightarrow> graph_edges (g(p \<mapsto> ns @ [c])) = insert (p, c) (graph_edges g)"
  by (auto simp: graph_edges_def nbrs_def split: if_splits)

lemma add_parents_spec:
  assumes "finite (set ids)" "eid \<in> set ids" "counted (set ids) (deg, g)"
  shows "\<exists>deg' g'. add_parents ids eid ps (deg, g) = Some (deg', g') \<and> counted (set ids) (deg', g') \<and>
    graph_edges g' = (set ps \<inter> set ids) \<times> {eid} \<union> graph_edges g"
  using assms(3)
proof (induction ps arbitrary: deg g)
  case (Cons p ps)
  show ?case
  proof (cases "p \<in> set ids")
    case True
    then have "p \<in> dom g" "eid \<in> dom deg" using Cons.prems assms(2) by (simp_all add: counted_def)
    then obtain ns d where nd: "g p = Some ns" "deg eid = Some d" by blast
    define g1 where "g1 = g(p \<mapsto> ns @ [eid])"
    define deg1 where "deg1 = deg(eid \<mapsto> d + 1)"
    have "counted (set ids) (deg1, g1)"
      unfolding g1_def deg1_def using Cons.prems assms(1,2) True nd by (intro counted_step)
    then obtain deg' g' where r: "add_parents ids eid ps (deg1, g1) = Some (deg', g')" "counted (set ids) (deg', g')"
      "graph_edges g' = (set ps \<inter> set ids) \<times> {eid} \<union> graph_edges g1"
      using Cons.IH by blast
    have "graph_edges g1 = insert (p, eid) (graph_edges g)"
      unfolding g1_def using nd(1) by (rule graph_edges_push)
    with r True nd show ?thesis by (auto simp: g1_def deg1_def simp del: graph_edges_iff fun_upd_apply)
  next
    case False
    with Cons show ?thesis by auto
  qed
qed simp

lemma add_events_spec:
  assumes "finite (set ids)" "set es \<subseteq> set ids" "counted (set ids) (deg, g)"
  shows "\<exists>deg' g'. add_events deps ids es (deg, g) = Some (deg', g') \<and> counted (set ids) (deg', g') \<and>
    graph_edges g' = {(p, c). c \<in> set es \<and> p \<in> set ids \<and> p \<in> set (nbrs deps c)} \<union> graph_edges g"
  using assms(2,3)
proof (induction es arbitrary: deg g)
  case (Cons e es)
  show ?case
  proof (cases "deps e")
    case None
    then have "nbrs deps e = []" by simp
    then have "{(p, c). c \<in> set (e # es) \<and> p \<in> set ids \<and> p \<in> set (nbrs deps c)} =
        {(p, c). c \<in> set es \<and> p \<in> set ids \<and> p \<in> set (nbrs deps c)}" by auto
    with Cons.IH [OF _ Cons.prems(2)] Cons.prems(1) None show ?thesis by simp
  next
    case (Some ps)
    then have n: "nbrs deps e = ps" by simp
    obtain deg1 g1 where 1: "add_parents ids e ps (deg, g) = Some (deg1, g1)" "counted (set ids) (deg1, g1)"
      "graph_edges g1 = (set ps \<inter> set ids) \<times> {e} \<union> graph_edges g"
      using add_parents_spec [OF assms(1) _ Cons.prems(2), of e ps] Cons.prems(1) by auto
    obtain deg2 g2 where 2: "add_events deps ids es (deg1, g1) = Some (deg2, g2)" "counted (set ids) (deg2, g2)"
      "graph_edges g2 = {(p, c). c \<in> set es \<and> p \<in> set ids \<and> p \<in> set (nbrs deps c)} \<union> graph_edges g1"
      using Cons.IH [OF _ 1(2)] Cons.prems(1) by auto
    have "{(p, c). c \<in> set (e # es) \<and> p \<in> set ids \<and> p \<in> set (nbrs deps c)} =
        {(p, c). c \<in> set es \<and> p \<in> set ids \<and> p \<in> set (nbrs deps c)} \<union> (set ps \<inter> set ids) \<times> {e}"
      using n by auto
    with 1 2 Some show ?thesis by (auto simp del: graph_edges_iff)
  qed
qed simp

lemma ledger_init:
  "counted (set ids) (map_of (map (\<lambda>i. (i, 0)) ids), map_of (map (\<lambda>i. (i, [])) ids))"
  "graph_edges (map_of (map (\<lambda>i. (i, [])) ids)) = {}"
proof -
  have m: "map_of (map (\<lambda>i. (i, c)) ids) = (\<lambda>v. if v \<in> set ids then Some c else None)" for c :: 'b
    by (induction ids) auto
  have n: "nbrs (\<lambda>v. if v \<in> set ids then Some [] else None) u = []" for u :: bytes
    by (simp add: nbrs_def)
  show "counted (set ids) (map_of (map (\<lambda>i. (i, 0)) ids), map_of (map (\<lambda>i. (i, [])) ids))"
    unfolding m counted_def by (auto simp: n split: if_splits)
  show "graph_edges (map_of (map (\<lambda>i. (i, [])) ids)) = {}"
    unfolding m graph_edges_def by (simp add: n)
qed

lemma topological_sort_events_spec:
  assumes ord: "distinct ord_degree" "set ord_degree = set ids"
  shows "\<exists>res. topological_sort_events ord_degree l ids =
      Some (ensure (length res = length ids) CircularDependency (Inr res)) \<and> distinct res \<and>
    set res \<subseteq> set ids \<and> in_order (causal_edges (dependency_graph l) (set ids)) res \<and>
    (set res = set ids \<longleftrightarrow> acyclic (causal_edges (dependency_graph l) (set ids)))"
proof -
  obtain deg g where r: "add_events (dependency_graph l) ids ids
      (map_of (map (\<lambda>i. (i, 0)) ids), map_of (map (\<lambda>i. (i, [])) ids)) = Some (deg, g)"
    "counted (set ids) (deg, g)"
    "graph_edges g = causal_edges (dependency_graph l) (set ids)"
    using add_events_spec [OF _ subset_refl ledger_init(1), of ids "dependency_graph l"] ledger_init(2) [of ids]
    by (auto simp: causal_edges_def)
  let ?q = "filter (\<lambda>i. deg i = Some 0) ord_degree"
  have deg: "deg = (\<lambda>v. if v \<in> set ids then Some (\<Sum>u\<in>set ids. count_list (nbrs g u) v) else None)"
    using r(2) by (auto simp: counted_def fun_eq_iff domIff)
  have "mset ?q = mset_set {v \<in> set ids. deg v = Some 0}"
    using ord by (metis (no_types) distinct_filter mset_set_set set_filter)
  moreover have "graph_edges g \<subseteq> set ids \<times> set ids"
    unfolding r(3) causal_edges_def by auto
  ultimately obtain res where res: "kahn_loop pop_back push_back g ?q deg [] = Some (Some res)"
    "distinct res" "set res \<subseteq> set ids" "in_order (graph_edges g) res"
    "set res = set ids \<longleftrightarrow> acyclic (graph_edges g)"
    using lifo.kahn_correct [OF _ _ deg, of ?q] by blast
  have "topological_sort_events ord_degree l ids =
      Some (ensure (length res = length ids) CircularDependency (Inr res))"
    unfolding topological_sort_events_def r(1) using res(1) by (simp add: Let_def)
  with res r(3) show ?thesis by auto
qed

text \<open>
  Sorting events ends for every order of the hash map. It succeeds exactly when the
  identifiers are distinct and their parent relation has no cycle, and then returns all of
  them, each after its parents; otherwise it reports a circular dependency. In particular a
  repeated identifier is reported as a circular dependency although there is none.
\<close>

theorem topological_sort_events_correct:
  assumes "distinct ord_degree" "set ord_degree = set ids"
  shows "if distinct ids \<and> acyclic (causal_edges (dependency_graph l) (set ids))
    then \<exists>res. topological_sort_events ord_degree l ids = Some (Inr res) \<and> distinct res \<and>
      set res = set ids \<and> in_order (causal_edges (dependency_graph l) (set ids)) res
    else topological_sort_events ord_degree l ids = Some (Inl CircularDependency)"
proof -
  obtain res where res: "topological_sort_events ord_degree l ids =
      Some (ensure (length res = length ids) CircularDependency (Inr res))" "distinct res"
    "set res \<subseteq> set ids" "in_order (causal_edges (dependency_graph l) (set ids)) res"
    "set res = set ids \<longleftrightarrow> acyclic (causal_edges (dependency_graph l) (set ids))"
    using topological_sort_events_spec [OF assms] by blast
  have "length res = length ids \<longleftrightarrow> distinct ids \<and> set res = set ids"
  proof
    assume len: "length res = length ids"
    have "card (set res) \<le> card (set ids)" using res(3) by (intro card_mono) simp_all
    then have "length ids \<le> card (set ids)" using len res(2) by (simp add: distinct_card)
    then have "distinct ids" using card_length [of ids] by (intro card_distinct) simp
    moreover from this have "card (set res) = card (set ids)"
      using len res(2) by (simp add: distinct_card)
    ultimately show "distinct ids \<and> set res = set ids" using res(3) by (simp add: card_subset_eq)
  next
    assume "distinct ids \<and> set res = set ids"
    then show "length res = length ids" using res(2) by (metis distinct_card)
  qed
  with res show ?thesis by (auto simp: ensure_def)
qed

theorem topological_sort_events_correct_witness:
  "topological_sort_events [event_id example_authentic] example_ledger
     [event_id example_authentic, event_id example_authentic] = Some (Inl CircularDependency)"
  using topological_sort_events_correct [of "[event_id example_authentic]"
      "[event_id example_authentic, event_id example_authentic]" example_ledger]
  by simp

section \<open>Causal paths\<close>

definition parent_edges :: "(bytes \<rightharpoonup> causal_event) \<Rightarrow> (bytes \<times> bytes) set" where
  "parent_edges index = {(c, p). \<exists>e. index c = Some e \<and> p \<in> set (causal_parents e)}"

definition path_between :: "('a \<times> 'a) set \<Rightarrow> 'a \<Rightarrow> 'a \<Rightarrow> 'a list \<Rightarrow> bool" where
  "path_between E a b path \<longleftrightarrow> path \<noteq> [] \<and> hd path = a \<and> last path = b \<and>
     successively (\<lambda>u v. (u, v) \<in> E) path"

lemma path_between_snoc:
  "path_between E a b path \<Longrightarrow> (b, c) \<in> E \<Longrightarrow> path_between E a c (path @ [c])"
  by (auto simp: path_between_def successively_append_iff)

lemma path_between_rtrancl: "path_between E a b path \<Longrightarrow> (a, b) \<in> E\<^sup>*"
proof (induction path arbitrary: a)
  case (Cons x path)
  show ?case
  proof (cases path)
    case (Cons y ys)
    then have "(a, y) \<in> E" "path_between E y b path"
      using Cons.prems by (auto simp: path_between_def)
    with Cons.IH show ?thesis by (meson converse_rtrancl_into_rtrancl)
  qed (use Cons.prems in \<open>auto simp: path_between_def\<close>)
qed (simp add: path_between_def)

lemma bfs_parents_spec:
  "\<exists>new. bfs_parents p deps (v, q, ps) = (v \<union> set deps, q @ new,
      \<lambda>x. if x \<in> set deps - v then Some (p @ [x]) else ps x) \<and> set new = set deps - v \<and> distinct new"
proof (induction deps arbitrary: v q ps)
  case Nil
  then show ?case by simp
next
  case (Cons d deps)
  show ?case
  proof (cases "d \<in> v")
    case True
    then have "set (d # deps) - v = set deps - v" "v \<union> set (d # deps) = v \<union> set deps" by auto
    with Cons.IH [of v q ps] True show ?thesis by simp
  next
    case False
    obtain new where new: "bfs_parents p deps (insert d v, q @ [d], ps(d \<mapsto> p @ [d])) =
        (insert d v \<union> set deps, (q @ [d]) @ new,
         \<lambda>x. if x \<in> set deps - insert d v then Some (p @ [x]) else (ps(d \<mapsto> p @ [d])) x)"
        "set new = set deps - insert d v" "distinct new"
      using Cons.IH by blast
    have "(\<lambda>x. if x \<in> set deps - insert d v then Some (p @ [x]) else (ps(d \<mapsto> p @ [d])) x) =
        (\<lambda>x. if x \<in> set (d # deps) - v then Some (p @ [x]) else ps x)"
      using False by (auto simp: fun_eq_iff)
    with new False show ?thesis by (intro exI [of _ "d # new"]) auto
  qed
qed

text \<open>What holds at each round of the search.\<close>

definition bfs_inv :: "(bytes \<rightharpoonup> causal_event) \<Rightarrow> bytes \<Rightarrow> bytes \<Rightarrow> bytes set \<Rightarrow> bytes list \<Rightarrow> (bytes \<rightharpoonup> bytes list) \<Rightarrow> bool" where
  "bfs_inv index from to v q ps \<longleftrightarrow> from \<in> v \<and> set q \<subseteq> v \<and> to \<notin> v - set q \<and>
     (\<forall>x\<in>v. \<exists>path. ps x = Some path \<and> path_between (parent_edges index) from x path) \<and>
     (\<forall>x\<in>v - set q. \<forall>y. (x, y) \<in> parent_edges index \<longrightarrow> y \<in> v)"

lemma bfs_inv_path:
  assumes "bfs_inv index from to v (x # q) ps"
  shows "\<exists>p. ps x = Some p \<and> path_between (parent_edges index) from x p"
proof -
  have "x \<in> v" using assms by (simp add: bfs_inv_def)
  then show ?thesis using assms unfolding bfs_inv_def by blast
qed

lemma bfs_inv_skip:
  assumes inv: "bfs_inv index from to v (x # q) ps" and x: "x \<noteq> to" "index x = None"
  shows "bfs_inv index from to v q ps"
proof -
  have "y \<in> v" if "u \<in> v - set q" "(u, y) \<in> parent_edges index" for u y
  proof (cases "u = x")
    case True
    then show ?thesis using that(2) x(2) by (simp add: parent_edges_def)
  next
    case False
    then have "u \<in> v - set (x # q)" using that(1) by simp
    then show ?thesis using inv that(2) unfolding bfs_inv_def by blast
  qed
  then have closed: "\<forall>u\<in>v - set q. \<forall>y. (u, y) \<in> parent_edges index \<longrightarrow> y \<in> v" by blast
  note i = inv [unfolded bfs_inv_def]
  have "to \<notin> v - set q" using i x(1) by simp
  moreover have "set q \<subseteq> v" using i by simp
  ultimately show ?thesis using i closed unfolding bfs_inv_def by blast
qed

lemma bfs_inv_step:
  assumes inv: "bfs_inv index from to v (x # q) ps" and x: "x \<noteq> to" and e: "index x = Some e"
    and p: "ps x = Some p" and st: "bfs_parents p (causal_parents e) (v, q, ps) = (v', q', ps')"
  shows "bfs_inv index from to v' q' ps'"
proof -
  let ?E = "parent_edges index" and ?ds = "set (causal_parents e)"
  obtain new where new: "v' = v \<union> ?ds" "q' = q @ new" "set new = ?ds - v"
    "ps' = (\<lambda>y. if y \<in> ?ds - v then Some (p @ [y]) else ps y)"
    using bfs_parents_spec [of p "causal_parents e" v q ps] st by auto
  have E: "(x, y) \<in> ?E \<longleftrightarrow> y \<in> ?ds" for y using e by (simp add: parent_edges_def)
  have px: "path_between ?E from x p" using bfs_inv_path [OF inv] p by simp
  show ?thesis
    unfolding bfs_inv_def
  proof (intro conjI ballI allI impI)
    show "from \<in> v'" "set q' \<subseteq> v'" "to \<notin> v' - set q'"
      using inv new x by (auto simp: bfs_inv_def)
    show "\<exists>path. ps' y = Some path \<and> path_between ?E from y path" if "y \<in> v'" for y
      using that inv px path_between_snoc [OF px, of y] E new(1,4) by (auto simp: bfs_inv_def)
    show "z \<in> v'" if "y \<in> v' - set q'" "(y, z) \<in> ?E" for y z
    proof (cases "y = x")
      case True
      then show ?thesis using that E new(1) by simp
    next
      case False
      then have "y \<in> v - set (x # q)" using that new by auto
      then show ?thesis using inv that(2) new(1) by (auto simp: bfs_inv_def)
    qed
  qed
qed

lemma bfs_loop_correct:
  assumes fin: "finite U" "\<And>x y. (x, y) \<in> parent_edges index \<Longrightarrow> y \<in> U"
    and "bfs_inv index from to v q ps" "v \<subseteq> U"
  shows "\<exists>r. bfs_loop index to (v, q, ps) = Some (Some r) \<and>
    (case r of None \<Rightarrow> (from, to) \<notin> (parent_edges index)\<^sup>*
     | Some path \<Rightarrow> path_between (parent_edges index) from to path)"
  using assms(3,4)
proof (induction "card (U - v) + length q" arbitrary: v q ps rule: less_induct)
  case less
  note inv = less.prems(1)
  show ?case
  proof (cases q)
    case Nil
    have "y \<in> v" if "(from, y) \<in> (parent_edges index)\<^sup>*" for y
      using that inv Nil by (induction rule: rtrancl_induct) (auto simp: bfs_inv_def)
    then have "(from, to) \<notin> (parent_edges index)\<^sup>*" using inv Nil by (auto simp: bfs_inv_def)
    then show ?thesis by (subst bfs_loop.simps) (simp add: Nil pop_front_def)
  next
    case (Cons x q1)
    obtain p where p: "ps x = Some p" "path_between (parent_edges index) from x p"
      using bfs_inv_path [of index "from" to v x q1 ps] inv Cons by blast
    show ?thesis
    proof (cases "x = to")
      case True
      with p show ?thesis by (subst bfs_loop.simps) (simp add: Cons pop_front_def)
    next
      case False
      show ?thesis
      proof (cases "index x")
        case None
        have "bfs_inv index from to v q1 ps"
          using inv unfolding Cons by (rule bfs_inv_skip) (rule False, rule None)
        moreover have "card (U - v) + length q1 < card (U - v) + length q" by (simp add: Cons)
        ultimately show ?thesis
          using less.hyps [of v q1 ps] less.prems(2) False None
          by (subst bfs_loop.simps) (simp add: Cons pop_front_def)
      next
        case (Some e)
        let ?ds = "set (causal_parents e)"
        obtain new where st: "bfs_parents p (causal_parents e) (v, q1, ps) = (v \<union> ?ds, q1 @ new,
            \<lambda>y. if y \<in> ?ds - v then Some (p @ [y]) else ps y)" and new: "set new = ?ds - v" "distinct new"
          using bfs_parents_spec by blast
        have sub: "v \<union> ?ds \<subseteq> U" using less.prems(2) fin(2) [of x] Some by (auto simp: parent_edges_def)
        have "card (U - v) = card (U - (v \<union> ?ds)) + length new"
        proof -
          have "U - v = (U - (v \<union> ?ds)) \<union> set new" using new(1) sub by auto
          moreover have "(U - (v \<union> ?ds)) \<inter> set new = {}" using new(1) by auto
          ultimately show ?thesis
            using fin(1) new(2) by (simp add: card_Un_disjoint distinct_card)
        qed
        then have dec: "card (U - (v \<union> ?ds)) + length (q1 @ new) < card (U - v) + length q"
          by (simp add: Cons)
        have inv': "bfs_inv index from to (v \<union> ?ds) (q1 @ new)
            (\<lambda>y. if y \<in> ?ds - v then Some (p @ [y]) else ps y)"
          using bfs_inv_step [OF inv [unfolded Cons] False Some p(1) st] .
        have "bfs_loop index to (v, q, ps) =
            bfs_loop index to (bfs_parents p (causal_parents e) (v, q1, ps))"
        proof (cases "list_all (\<lambda>d. d \<in> v) (causal_parents e)")
          case True
          then have "?ds \<subseteq> v" by (auto simp: list_all_iff)
          moreover from this have "new = []" using new(1) by (metis Diff_eq_empty_iff set_empty)
          ultimately have "bfs_parents p (causal_parents e) (v, q1, ps) = (v, q1, ps)"
            using st by (auto simp: fun_eq_iff)
          with True show ?thesis
            using False Some by (subst bfs_loop.simps) (simp add: Cons pop_front_def)
        next
          case nvis: False
          then show ?thesis
            using False Some p(1) by (subst bfs_loop.simps) (auto simp: Cons pop_front_def)
        qed
        with less.hyps [OF dec inv' sub] st show ?thesis by simp
      qed
    qed
  qed
qed

lemma find_causal_path_spec:
  assumes "finite (dom (events_index l))"
  shows "\<exists>r. find_causal_path l from to = Some (Some r) \<and>
    (case r of
       None \<Rightarrow> events_index l from = None \<or> events_index l to = None \<or>
         (from, to) \<notin> (parent_edges (events_index l))\<^sup>*
     | Some path \<Rightarrow> events_index l from \<noteq> None \<and> events_index l to \<noteq> None \<and>
         path_between (parent_edges (events_index l)) from to path)"
proof -
  let ?ix = "events_index l"
  define U where "U = insert from (\<Union>e\<in>ran ?ix. set (causal_parents e))"
  have "finite U" using assms by (auto simp: U_def finite_ran)
  moreover have "(x, y) \<in> parent_edges ?ix \<Longrightarrow> y \<in> U" for x y
    by (auto simp: parent_edges_def U_def ran_def)
  moreover have "bfs_inv ?ix from to {from} [from] [from \<mapsto> [from]]"
    by (simp add: bfs_inv_def path_between_def)
  moreover have "{from} \<subseteq> U" by (simp add: U_def)
  ultimately have "\<exists>r. bfs_loop ?ix to ({from}, [from], [from \<mapsto> [from]]) = Some (Some r) \<and>
    (case r of None \<Rightarrow> (from, to) \<notin> (parent_edges ?ix)\<^sup>*
     | Some path \<Rightarrow> path_between (parent_edges ?ix) from to path)"
    by (rule bfs_loop_correct)
  then show ?thesis
    by (auto simp: find_causal_path_def path_between_def split: option.splits)
qed

text \<open>
  The search for a causal path ends and is exact: it finds a path exactly when both events
  are known and the target is an ancestor of the start (or the start itself), and the path
  it returns leads from the start to the target along recorded parents.
\<close>

theorem find_causal_path_correct:
  assumes "finite (dom (events_index l))"
  shows "\<exists>r. find_causal_path l from to = Some (Some r) \<and>
    (\<forall>path. r = Some path \<longrightarrow> path_between (parent_edges (events_index l)) from to path) \<and>
    (r \<noteq> None \<longleftrightarrow> events_index l from \<noteq> None \<and> events_index l to \<noteq> None \<and>
       (from, to) \<in> (parent_edges (events_index l))\<^sup>*)"
  using find_causal_path_spec [OF assms, of "from" to] path_between_rtrancl
  by (fastforce split: option.splits)

definition example_child :: causal_event where
  "example_child = example_event\<lparr>event_id := ''c'', causal_parents := [''p'']\<rparr>"

definition example_family :: causal_ledger where
  "example_family = \<lparr>event_files = Map.empty, chain_files = Map.empty,
     events_index = [''c'' \<mapsto> example_child, ''p'' \<mapsto> example_event\<lparr>event_id := ''p''\<rparr>],
     dependency_graph = [''c'' \<mapsto> [''p''], ''p'' \<mapsto> []], keypair = None\<rparr>"

lemma example_family_finite: "finite (dom (events_index example_family))"
  by (simp add: example_family_def)

theorem find_causal_path_correct_witness:
  "\<exists>path. find_causal_path example_family ''c'' ''p'' = Some (Some (Some path)) \<and>
    path_between (parent_edges (events_index example_family)) ''c'' ''p'' path"
proof -
  have "(''c'', ''p'') \<in> (parent_edges (events_index example_family))\<^sup>*"
    by (rule r_into_rtrancl)
       (simp add: parent_edges_def example_family_def example_child_def example_event_def)
  then show ?thesis
    using find_causal_path_correct [OF example_family_finite, of "''c''" "''p''"]
    by (auto simp: example_family_def)
qed

lemma path_ordered_iff:
  "path_ordered l path \<longleftrightarrow> successively (\<lambda>u v. (v, u) \<in> parent_edges (events_index l)) path"
  by (induction l path rule: path_ordered.induct) (auto simp: parent_edges_def split: option.splits)

text \<open>
  A query for the path between two different events never calls the path valid in a ledger
  without cycles: the search walks from a child to its parents, while the validity check asks
  each event to be a child of the one before it.
\<close>

theorem query_causal_path_never_valid:
  assumes "finite (dom (events_index l))" "acyclic (parent_edges (events_index l))" "from \<noteq> to"
    and "query_causal_path env l from to = Some (Inr query)"
  shows "\<not> query_is_valid query"
proof -
  let ?E = "parent_edges (events_index l)"
  obtain r where r: "find_causal_path l from to = Some (Some r)"
    "\<And>path. r = Some path \<Longrightarrow> path_between ?E from to path"
    using find_causal_path_spec [OF assms(1), of "from" to] by (auto split: option.splits)
  show ?thesis
  proof (cases r)
    case None
    with assms(4) r(1) show ?thesis by (auto simp: query_causal_path_def)
  next
    case (Some path)
    have between: "path_between ?E from to path" using r(2) [OF Some] .
    with assms(3) obtain a b rest where path: "path = a # b # rest"
      by (cases path rule: remdups_adj.cases) (auto simp: path_between_def)
    have "(a, b) \<in> ?E" using between path by (auto simp: path_between_def)
    moreover have "(b, a) \<notin> ?E"
    proof
      assume "(b, a) \<in> ?E"
      with \<open>(a, b) \<in> ?E\<close> have "(a, a) \<in> ?E\<^sup>+" by (meson trancl.simps)
      with assms(2) show False by (simp add: acyclic_def)
    qed
    ultimately have "\<not> path_ordered l path" by (simp add: path_ordered_iff path)
    with assms(4) r(1) Some show ?thesis
      by (auto simp: query_causal_path_def verify_causal_path_def result_simps split: if_splits)
  qed
qed

theorem query_causal_path_never_valid_witness:
  "\<exists>q. query_causal_path example_env example_family ''c'' ''p'' = Some (Inr q) \<and>
    causal_path q = [''c'', ''p''] \<and> \<not> query_is_valid q"
proof -
  have E: "parent_edges (events_index example_family) = {(''c'', ''p'')}"
    by (auto simp: parent_edges_def example_family_def example_child_def example_event_def split: if_splits)
  have "acyclic {(''c'', ''p'')}"
    by (rule acyclic_insert [THEN iffD2]) (simp add: acyclic_def)
  moreover have "\<exists>q. query_causal_path example_env example_family ''c'' ''p'' = Some (Inr q) \<and>
      causal_path q = [''c'', ''p'']"
    by (simp add: query_causal_path_def find_causal_path_def example_family_def bfs_loop.simps pop_front_def
        example_child_def example_event_def verify_causal_path_def verify_event_signature_def)
  ultimately show ?thesis
    using query_causal_path_never_valid [OF example_family_finite, of "''c''" "''p''" example_env] E by auto
qed

section \<open>Statistics\<close>

lemma dfs_mark_mono:
  "dfs_mark_visited depth deps i v = Some v' \<Longrightarrow> v \<subseteq> v'"
  "dfs_mark_parents depth deps ps v = Some v' \<Longrightarrow> v \<subseteq> v'"
  by (induction depth deps i v and depth deps ps v arbitrary: v' and v'
      rule: dfs_mark_visited_dfs_mark_parents.induct)
     (force split: if_splits option.splits)+

lemma dfs_mark_parents_total:
  assumes call: "\<And>i v. card (U - v) < depth \<Longrightarrow> i \<in> U \<Longrightarrow> dfs_mark_visited depth deps i v \<noteq> None"
    and "finite U" "card (U - v) < depth" "set ps \<subseteq> U"
  shows "dfs_mark_parents depth deps ps v \<noteq> None"
  using assms(3,4)
proof (induction ps arbitrary: v)
  case (Cons p ps)
  obtain v1 where v1: "dfs_mark_visited depth deps p v = Some v1" using call Cons.prems by fastforce
  have "card (U - v1) \<le> card (U - v)"
    using dfs_mark_mono(1) [OF v1] assms(2) by (intro card_mono) auto
  with Cons v1 show ?case by simp
qed simp

lemma dfs_mark_visited_total:
  assumes "finite U" "graph_edges deps \<subseteq> UNIV \<times> U"
  shows "card (U - v) < depth \<Longrightarrow> i \<in> U \<Longrightarrow> dfs_mark_visited depth deps i v \<noteq> None"
proof (induction depth arbitrary: i v)
  case (Suc depth)
  show ?case
  proof (cases "i \<in> v \<or> deps i = None")
    case False
    then obtain ps where ps: "deps i = Some ps" "i \<notin> v" by auto
    have "U - v = insert i (U - insert i v)" using ps(2) Suc.prems(2) by auto
    then have "card (U - v) = Suc (card (U - insert i v))"
      using assms(1) by (metis DiffD2 card_insert_disjoint finite_Diff insertI1)
    then have "card (U - insert i v) < depth" using Suc.prems(1) by simp
    moreover have "set ps \<subseteq> U"
    proof
      fix p assume "p \<in> set ps"
      then have "(i, p) \<in> graph_edges deps" using ps(1) by simp
      then show "p \<in> U" using assms(2) by blast
    qed
    ultimately have "dfs_mark_parents depth deps ps (insert i v) \<noteq> None"
      using Suc.IH assms(1) by (intro dfs_mark_parents_total)
    with ps show ?thesis by simp
  qed auto
qed simp

lemma count_chains_loop_total:
  assumes U: "finite U" "graph_edges deps \<subseteq> UNIV \<times> U"
    and "card U < depth" "set ids \<subseteq> U"
  shows "\<exists>n. count_chains_loop depth deps ids v c = Some n"
  using assms(4)
proof (induction ids arbitrary: v c)
  case (Cons i ids)
  have "card (U - v) \<le> card U" using U(1) by (intro card_mono) auto
  then obtain v1 where "dfs_mark_visited depth deps i v = Some v1"
    using dfs_mark_visited_total [OF U, of v depth i] assms(3) Cons.prems by fastforce
  with Cons show ?case by auto
qed simp

text \<open>
  The statistics are always computed, and with every parent present in the ledger they
  are right: the number of leaf events is the number of events that are nobody's parent.
\<close>

theorem get_statistics_correct:
  assumes orders: "distinct ord_index" "set ord_index = dom (events_index l)"
      "distinct ord_deps" "set ord_deps = dom (dependency_graph l)"
    and closed: "parent_ids l ord_deps \<subseteq> dom (events_index l)"
  shows "\<exists>s. get_statistics ord_index ord_deps l = Some s \<and>
    total_events s = of_nat (card (dom (events_index l))) \<and>
    root_events s = of_nat (card {i. \<exists>e. events_index l i = Some e \<and> causal_parents e = []}) \<and>
    leaf_events s = of_nat (card {i \<in> dom (events_index l). \<forall>c ps. dependency_graph l c = Some ps \<longrightarrow> i \<notin> set ps})"
proof -
  let ?P = "parent_ids l ord_deps" and ?I = "dom (events_index l)"
  let ?U = "set ord_index \<union> set ord_deps \<union> ?P"
  have fin: "finite ?I" using orders(2) by (metis List.finite_set)
  have P: "?P = {i. \<exists>c ps. dependency_graph l c = Some ps \<and> i \<in> set ps}"
    using orders(4) by (force simp: parent_ids_def nbrs_def split: option.splits)
  have "graph_edges (dependency_graph l) \<subseteq> UNIV \<times> ?U"
    unfolding P by (force simp: graph_edges_def nbrs_def split: option.splits)
  then obtain n where n: "count_chains ord_index ord_deps l = Some n"
    unfolding count_chains_def
    using count_chains_loop_total [of ?U "dependency_graph l" "Suc (card ?U)" ord_index "{}" 0]
    by (auto simp: parent_ids_def)
  have len: "length ord_index = card ?I" using orders(1,2) by (metis distinct_card)
  have "card {i \<in> ?I. \<forall>c ps. dependency_graph l c = Some ps \<longrightarrow> i \<notin> set ps} = card ?I - card ?P"
  proof -
    have "{i \<in> ?I. \<forall>c ps. dependency_graph l c = Some ps \<longrightarrow> i \<notin> set ps} = ?I - ?P"
      unfolding P by auto
    then show ?thesis using closed fin by (simp add: card_Diff_subset finite_subset)
  qed
  moreover have "card ?P \<le> card ?I" using closed fin by (rule card_mono [rotated])
  ultimately have leaf: "count_leaf_events ord_index ord_deps l =
      of_nat (card {i \<in> ?I. \<forall>c ps. dependency_graph l c = Some ps \<longrightarrow> i \<notin> set ps})"
    by (simp add: count_leaf_events_def len of_nat_diff)
  have "count_root_events ord_index l = card {i. \<exists>e. events_index l i = Some e \<and> causal_parents e = []}"
  proof -
    have "set (filter (\<lambda>i. case events_index l i of None \<Rightarrow> False | Some e \<Rightarrow> causal_parents e = []) ord_index) =
        {i. \<exists>e. events_index l i = Some e \<and> causal_parents e = []}"
      using orders(2) by (auto split: option.splits)
    then show ?thesis
      unfolding count_root_events_def using orders(1) by (metis distinct_card distinct_filter)
  qed
  with n leaf len show ?thesis by (simp add: get_statistics_def)
qed

theorem get_statistics_correct_witness:
  "\<exists>s. get_statistics [''c'', ''p''] [''p'', ''c''] example_family = Some s \<and> leaf_events s = 1"
proof -
  have "{i \<in> dom (events_index example_family). \<forall>c ps. dependency_graph example_family c = Some ps \<longrightarrow> i \<notin> set ps} = {''c''}"
    by (auto simp: example_family_def split: if_splits)
  moreover have "set [''c'', ''p''] = dom (events_index example_family)"
    "set [''p'', ''c''] = dom (dependency_graph example_family)"
    "parent_ids example_family [''p'', ''c''] \<subseteq> dom (events_index example_family)"
    by (auto simp: example_family_def parent_ids_def nbrs_def)
  ultimately show ?thesis
    using get_statistics_correct [of "[''c'', ''p'']" example_family "[''p'', ''c'']"] by auto
qed

text \<open>A ledger that holds an event but not its two parents.\<close>

definition orphan_ledger :: causal_ledger where
  "orphan_ledger = \<lparr>event_files = Map.empty, chain_files = Map.empty,
     events_index = [''c'' \<mapsto> example_event\<lparr>causal_parents := [''p'', ''q'']\<rparr>],
     dependency_graph = [''c'' \<mapsto> [''p'', ''q'']], keypair = None\<rparr>"

text \<open>
  The statistics are wrong in two other cases. When parents are missing from the ledger the
  subtraction wraps: one event with two unknown parents gives \<open>2\<^sup>64 - 1\<close> leaf events. And the
  number of chains depends on the iteration order of the hash map: a parent and its child are
  counted as two chains when the parent comes first and as one when the child does.
\<close>

theorem get_statistics_anomalies:
  "count_leaf_events [''c''] [''c''] orphan_ledger = - 1 \<and>
   count_chains [''p'', ''c''] [''p'', ''c''] example_family = Some 2 \<and>
   count_chains [''c'', ''p''] [''p'', ''c''] example_family = Some 1"
proof (intro conjI)
  show "count_leaf_events [''c''] [''c''] orphan_ledger = - 1"
    by (simp add: count_leaf_events_def parent_ids_def orphan_ledger_def nbrs_def)
  have "set [''p'', ''c''] \<union> set [''p'', ''c''] \<union> parent_ids example_family [''p'', ''c''] = {''p'', ''c''}"
    "set [''c'', ''p''] \<union> set [''p'', ''c''] \<union> parent_ids example_family [''p'', ''c''] = {''p'', ''c''}"
    by (auto simp: parent_ids_def example_family_def nbrs_def)
  then show "count_chains [''p'', ''c''] [''p'', ''c''] example_family = Some 2"
    "count_chains [''c'', ''p''] [''p'', ''c''] example_family = Some 1"
    by (simp_all add: count_chains_def example_family_def numeral_eq_Suc)
qed

end
