(* ===== verification/Der.thy ===== *)
theory Der
  imports Text
begin

text \<open>
  The DER reader of \<open>src/crypto/timestamp.rs\<close>: one tag-length-value at a time, definite lengths
  of at most four bytes. A reader is the bytes that are left; an operation returns what it read
  together with the reader after it. The instant a time field denotes is decided by \<open>chrono\<close>,
  the parameter \<open>instant\<close> (the text of the form \<open>YYYYMMDDHHMMSS\<close>).
\<close>

datatype ts_error =
    Rejected u64 "bytes option"
  | NoToken
  | Malformed bytes
  | TooLarge
  | ImprintMismatch
  | Unsupported bytes
  | BadSignature
  | UntrustedAuthority
  | NotATimestampingCertificate
  | CertificateNotValidThen int

section \<open>Tags\<close>

definition TAG_BOOLEAN :: char where "TAG_BOOLEAN = CHR 0x01"
definition TAG_INTEGER :: char where "TAG_INTEGER = CHR 0x02"
definition TAG_BIT_STRING :: char where "TAG_BIT_STRING = CHR 0x03"
definition TAG_OCTET_STRING :: char where "TAG_OCTET_STRING = CHR 0x04"
definition TAG_NULL :: char where "TAG_NULL = CHR 0x05"
definition TAG_OID :: char where "TAG_OID = CHR 0x06"
definition TAG_UTF8_STRING :: char where "TAG_UTF8_STRING = CHR 0x0C"
definition TAG_UTC_TIME :: char where "TAG_UTC_TIME = CHR 0x17"
definition TAG_GENERALIZED_TIME :: char where "TAG_GENERALIZED_TIME = CHR 0x18"
definition TAG_SEQUENCE :: char where "TAG_SEQUENCE = CHR 0x30"
definition TAG_SET :: char where "TAG_SET = CHR 0x31"
definition TAG_CONTEXT_0 :: char where "TAG_CONTEXT_0 = CHR 0xA0"
definition TAG_CONTEXT_3 :: char where "TAG_CONTEXT_3 = CHR 0xA3"

lemmas tag_defs = TAG_BOOLEAN_def TAG_INTEGER_def TAG_BIT_STRING_def TAG_OCTET_STRING_def TAG_NULL_def
  TAG_OID_def TAG_UTF8_STRING_def TAG_UTC_TIME_def TAG_GENERALIZED_TIME_def TAG_SEQUENCE_def TAG_SET_def
  TAG_CONTEXT_0_def TAG_CONTEXT_3_def

section \<open>The reader\<close>

type_synonym 'a reader = "bytes \<Rightarrow> (ts_error, 'a \<times> bytes) result"

text \<open>Big-endian bytes as a number; at most eight bytes are ever read.\<close>

definition be_value :: "bytes \<Rightarrow> nat" where
  "be_value bs = foldl (\<lambda>acc b. acc * 256 + of_char b) 0 bs"

definition take_length :: "nat reader" where
  "take_length bs =
     (case bs of
        [] \<Rightarrow> Inl (Malformed ''truncated length'')
      | first # rest \<Rightarrow>
          if (of_char first :: nat) < 0x80 then Inr (of_char first, rest)
          else
            let count = of_char first - 0x80 in
            ensure (\<not> (count = 0 \<or> count > 4)) (Malformed ''unsupported length form'') (
            ensure (count \<le> length rest) (Malformed ''truncated length'') (
            Inr (be_value (take count rest), drop count rest))))"

definition der_take :: "char \<Rightarrow> bytes reader" where
  "der_take expected_tag bs =
     (case bs of
        [] \<Rightarrow> Inl (Malformed ''truncated'')
      | tag # rest \<Rightarrow>
          ensure (tag = expected_tag) (Malformed ''unexpected tag'') (
          and_then (take_length rest) (\<lambda>(len, rest).
          ensure (len \<le> length rest) (Malformed ''truncated contents'') (
          Inr (take len rest, drop len rest)))))"

definition peek :: "bytes \<Rightarrow> char option" where
  "peek bs = (case bs of [] \<Rightarrow> None | b # _ \<Rightarrow> Some b)"

definition der_sequence :: "bytes reader" where "der_sequence = der_take TAG_SEQUENCE"

definition der_oid :: "bytes reader" where "der_oid = der_take TAG_OID"

definition der_set :: "bytes reader" where "der_set = der_take TAG_SET"

definition der_octet_string :: "bytes reader" where "der_octet_string = der_take TAG_OCTET_STRING"

definition algorithm_oid :: "bytes reader" where
  "algorithm_oid bs =
     and_then (der_sequence bs) (\<lambda>(identifier, rest).
     and_then (der_oid identifier) (\<lambda>(oid, identifier).
     and_then (if peek identifier = Some TAG_NULL
               then and_then (der_take TAG_NULL identifier) (\<lambda>(c, identifier).
                    ensure (c = []) (Malformed ''nonempty NULL algorithm parameters'') (Inr identifier))
               else Inr identifier) (\<lambda>identifier.
     ensure (peek identifier = None) (Unsupported ''algorithm parameters'') (Inr (oid, rest)))))"

definition skip_any :: "unit reader" where
  "skip_any bs =
     and_then (ok_or (peek bs) (Malformed ''truncated'')) (\<lambda>tag.
     and_then (der_take tag bs) (\<lambda>(_, rest). Inr ((), rest)))"

definition element :: "char \<Rightarrow> bytes reader" where
  "element expected_tag bs =
     and_then (der_take expected_tag bs) (\<lambda>(_, rest). Inr (take (length bs - length rest) bs, rest))"

definition bit_string :: "bytes reader" where
  "bit_string bs =
     and_then (der_take TAG_BIT_STRING bs) (\<lambda>(raw, rest).
     (case raw of
        [] \<Rightarrow> Inl (Malformed ''empty bit string'')
      | unused # content \<Rightarrow>
          ensure (unused = CHR 0x00) (Unsupported ''bit string is not byte-aligned'') (Inr (content, rest))))"

text \<open>The contents of an integer without the zero DER adds to keep it positive.\<close>

definition integer_bytes :: "bytes reader" where
  "integer_bytes bs =
     and_then (der_take TAG_INTEGER bs) (\<lambda>(raw, rest).
     (case raw of
        [] \<Rightarrow> Inl (Malformed ''empty integer'')
      | b # r \<Rightarrow> Inr (if b = CHR 0x00 then r else raw, rest)))"

definition der_integer :: "u64 reader" where
  "der_integer bs =
     and_then (der_take TAG_INTEGER bs) (\<lambda>(raw, rest).
     ensure (\<not> (raw = [] \<or> length raw > 8)) (Malformed ''integer out of range'') (
     ensure ((of_char (hd raw) :: nat) < 0x80) (Malformed ''negative integer'') (
     Inr (of_nat (be_value raw), rest))))"

definition utf8_text :: "bytes \<Rightarrow> bytes option" where
  "utf8_text bs =
     (case der_take TAG_SEQUENCE bs of
        Inl _ \<Rightarrow> None
      | Inr (inner, _) \<Rightarrow>
          (case der_take TAG_UTF8_STRING inner of
             Inl _ \<Rightarrow> None
           | Inr (raw, _) \<Rightarrow> if is_utf8 raw then Some raw else None))"

section \<open>Times\<close>

type_synonym instant_parser = "bytes \<Rightarrow> int option"

definition strip_suffix_Z :: "bytes \<Rightarrow> bytes option" where
  "strip_suffix_Z s = (if ends_with s ''Z'' then Some (butlast s) else None)"

definition parse_generalized_time :: "instant_parser \<Rightarrow> bytes \<Rightarrow> (ts_error, int) result" where
  "parse_generalized_time instant raw =
     ensure (is_utf8 raw) (Malformed ''genTime is not ASCII'') (
     and_then (ok_or (strip_suffix_Z raw) (Unsupported ''genTime is not UTC'')) (\<lambda>stripped.
     ok_or (instant (hd (split_on (CHR ''.'') stripped))) (Malformed ''genTime is not a valid instant'')))"

definition digit_byte :: "char \<Rightarrow> bool" where
  "digit_byte c \<longleftrightarrow> 48 \<le> (of_char c :: nat) \<and> (of_char c :: nat) \<le> 57"

definition parse_utc_time :: "instant_parser \<Rightarrow> bytes \<Rightarrow> (ts_error, int) result" where
  "parse_utc_time instant raw =
     ensure (is_utf8 raw) (Malformed ''UTCTime is not ASCII'') (
     and_then (ok_or (strip_suffix_Z raw) (Unsupported ''UTCTime is not UTC'')) (\<lambda>stripped.
     ensure (length stripped = 12 \<and> list_all digit_byte stripped) (Unsupported ''unsupported UTCTime form'') (
     let two_digit = foldl (\<lambda>acc c. acc * 10 + (of_char c - 48)) 0 (take 2 stripped);
         century = (if two_digit \<ge> 50 then 1900 else 2000) in
     ok_or (instant (show_nat (century + two_digit) @ drop 2 stripped)) (Malformed ''UTCTime is not a valid instant''))))"

definition der_time :: "instant_parser \<Rightarrow> int reader" where
  "der_time instant bs =
     (if peek bs = Some TAG_UTC_TIME
      then and_then (der_take TAG_UTC_TIME bs) (\<lambda>(raw, rest).
           and_then (parse_utc_time instant raw) (\<lambda>t. Inr (t, rest)))
      else if peek bs = Some TAG_GENERALIZED_TIME
      then and_then (der_take TAG_GENERALIZED_TIME bs) (\<lambda>(raw, rest).
           and_then (parse_generalized_time instant raw) (\<lambda>t. Inr (t, rest)))
      else Inl (Malformed ''expected a time''))"

section \<open>Object identifiers\<close>

text \<open>The accumulator is a \<open>u64\<close>; the top seven bits must be clear before each shift.\<close>

fun oid_arcs :: "u64 \<Rightarrow> bytes \<Rightarrow> (ts_error, bytes list) result" where
  "oid_arcs val [] = ensure (val = 0) (Malformed ''truncated OID arc'') (Inr [])"
| "oid_arcs val (b # bs) =
     ensure (drop_bit 57 val = 0) (Malformed ''OID arc overflows'') (
     let val = push_bit 7 val OR of_nat ((of_char b :: nat) mod 0x80) in
     if (of_char b :: nat) < 0x80 then and_then (oid_arcs 0 bs) (\<lambda>parts. Inr (show_nat (unat val) # parts))
     else oid_arcs val bs)"

definition oid_to_dotted :: "bytes \<Rightarrow> (ts_error, bytes) result" where
  "oid_to_dotted raw =
     (case raw of
        [] \<Rightarrow> Inl (Malformed ''empty OID'')
      | first # rest \<Rightarrow>
          and_then (oid_arcs 0 rest) (\<lambda>parts.
          Inr (join ''.'' (show_nat (of_char first div 40) # show_nat (of_char first mod 40) # parts))))"

section \<open>Bounds\<close>

lemma take_length_parts:
  "take_length bs = Inr (n, rest) \<Longrightarrow> \<exists>hdr. bs = hdr @ rest \<and> 1 \<le> length hdr \<and> length hdr \<le> 5"
proof (cases bs)
  case (Cons first r)
  assume ok: "take_length bs = Inr (n, rest)"
  show ?thesis
  proof (cases "(of_char first :: nat) < 0x80")
    case True
    with ok Cons show ?thesis by (intro exI [of _ "[first]"]) (simp add: take_length_def)
  next
    case False
    let ?c = "of_char first - 0x80 :: nat"
    from ok Cons False have "?c \<le> 4" "?c \<le> length r" "rest = drop ?c r"
      by (auto simp: take_length_def Let_def result_simps)
    then show ?thesis using Cons by (intro exI [of _ "first # take ?c r"]) simp
  qed
qed (simp add: take_length_def)

text \<open>What is read is a part of the input: the tag, a length of at most five bytes, the contents
  and the rest, in this order.\<close>

lemma der_take_parts:
  assumes "der_take tag bs = Inr (contents, rest)"
  shows "\<exists>hdr. bs = tag # hdr @ contents @ rest \<and> 1 \<le> length hdr \<and> length hdr \<le> 5"
proof (cases bs)
  case (Cons t r)
  with assms obtain len r' where "t = tag" "take_length r = Inr (len, r')" "contents = take len r'" "rest = drop len r'"
    by (auto simp: der_take_def result_simps)
  with take_length_parts [of r len r'] Cons show ?thesis by auto
qed (use assms in \<open>simp add: der_take_def\<close>)

lemma der_take_shorter: "der_take tag bs = Inr (contents, rest) \<Longrightarrow> length rest < length bs"
  by (drule der_take_parts) auto

lemma skip_any_shorter: "skip_any bs = Inr (u, rest) \<Longrightarrow> length rest < length bs"
  by (auto simp: skip_any_def result_simps dest: der_take_shorter)

lemma algorithm_oid_shorter: "algorithm_oid bs = Inr (oid, rest) \<Longrightarrow> length rest < length bs"
  by (auto simp: algorithm_oid_def der_sequence_def result_simps dest: der_take_shorter)

lemma element_whole: "element tag bs = Inr (el, rest) \<Longrightarrow> bs = el @ rest \<and> length rest < length bs"
proof -
  assume "element tag bs = Inr (el, rest)"
  then obtain c where c: "der_take tag bs = Inr (c, rest)" "el = take (length bs - length rest) bs"
    by (auto simp: element_def result_simps)
  from der_take_parts [OF c(1)] obtain hdr where "bs = (tag # hdr @ c) @ rest" by auto
  with c(2) show ?thesis by auto
qed

end
