(* ===== verification/Timestamp.thy ===== *)
theory Timestamp
  imports Der
begin

text \<open>
  RFC 3161 timestamps, from \<open>src/crypto/timestamp.rs\<close>: the request, the token in a response,
  what a token asserts, and its verification against pinned authorities.

  SHA-256, SHA-384 and RSA verification (\<open>ring\<close>) and the reading of an instant (\<open>chrono\<close>) are
  parameters. The HTTPS exchange is not modelled.
\<close>

section \<open>Constants\<close>

definition SHA256_ALGORITHM_ID :: bytes where
  "SHA256_ALGORITHM_ID = [CHR 0x30, CHR 0x0D, CHR 0x06, CHR 0x09, CHR 0x60, CHR 0x86, CHR 0x48, CHR 0x01,
     CHR 0x65, CHR 0x03, CHR 0x04, CHR 0x02, CHR 0x01, CHR 0x05, CHR 0x00]"

definition OID_SIGNED_DATA :: bytes where
  "OID_SIGNED_DATA = [CHR 0x2A, CHR 0x86, CHR 0x48, CHR 0x86, CHR 0xF7, CHR 0x0D, CHR 0x01, CHR 0x07, CHR 0x02]"

definition OID_TST_INFO :: bytes where
  "OID_TST_INFO = [CHR 0x2A, CHR 0x86, CHR 0x48, CHR 0x86, CHR 0xF7, CHR 0x0D, CHR 0x01, CHR 0x09, CHR 0x10,
     CHR 0x01, CHR 0x04]"

definition OID_EXT_KEY_USAGE :: bytes where "OID_EXT_KEY_USAGE = [CHR 0x55, CHR 0x1D, CHR 0x25]"

definition OID_KP_TIMESTAMPING :: bytes where
  "OID_KP_TIMESTAMPING = [CHR 0x2B, CHR 0x06, CHR 0x01, CHR 0x05, CHR 0x05, CHR 0x07, CHR 0x03, CHR 0x08]"

definition OID_MESSAGE_DIGEST :: bytes where
  "OID_MESSAGE_DIGEST = [CHR 0x2A, CHR 0x86, CHR 0x48, CHR 0x86, CHR 0xF7, CHR 0x0D, CHR 0x01, CHR 0x09, CHR 0x04]"

definition OID_SHA256 :: bytes where
  "OID_SHA256 = [CHR 0x60, CHR 0x86, CHR 0x48, CHR 0x01, CHR 0x65, CHR 0x03, CHR 0x04, CHR 0x02, CHR 0x01]"

definition OID_SHA384 :: bytes where
  "OID_SHA384 = [CHR 0x60, CHR 0x86, CHR 0x48, CHR 0x01, CHR 0x65, CHR 0x03, CHR 0x04, CHR 0x02, CHR 0x02]"

definition OID_RSA_ENCRYPTION :: bytes where
  "OID_RSA_ENCRYPTION = [CHR 0x2A, CHR 0x86, CHR 0x48, CHR 0x86, CHR 0xF7, CHR 0x0D, CHR 0x01, CHR 0x01, CHR 0x01]"

definition OID_RSA_SHA256 :: bytes where
  "OID_RSA_SHA256 = [CHR 0x2A, CHR 0x86, CHR 0x48, CHR 0x86, CHR 0xF7, CHR 0x0D, CHR 0x01, CHR 0x01, CHR 0x0B]"

definition OID_RSA_SHA384 :: bytes where
  "OID_RSA_SHA384 = [CHR 0x2A, CHR 0x86, CHR 0x48, CHR 0x86, CHR 0xF7, CHR 0x0D, CHR 0x01, CHR 0x01, CHR 0x0C]"

definition OID_COMMON_NAME :: bytes where "OID_COMMON_NAME = [CHR 0x55, CHR 0x04, CHR 0x03]"

definition MAX_RESPONSE_BYTES :: nat where "MAX_RESPONSE_BYTES = 256 * 1024"

section \<open>Requests and responses\<close>

definition build_request :: "digest \<Rightarrow> bytes" where
  "build_request dg =
     (let imprint = SHA256_ALGORITHM_ID @ [TAG_OCTET_STRING, char_of (length (digest_bytes dg))] @ digest_bytes dg;
          body = [TAG_INTEGER, CHR 0x01, CHR 0x01] @ [TAG_SEQUENCE, char_of (length imprint)] @ imprint @
            [TAG_BOOLEAN, CHR 0x01, CHR 0xFF]
      in [TAG_SEQUENCE, char_of (length body)] @ body)"

definition token_from_response :: "bytes \<Rightarrow> (ts_error, bytes) result" where
  "token_from_response der =
     and_then (der_sequence der) (\<lambda>(response, _).
     and_then (der_sequence response) (\<lambda>(status_info, token).
     and_then (der_integer status_info) (\<lambda>(status, status_info).
     ensure (\<not> status > 1) (Rejected status (utf8_text status_info)) (
     ensure (token \<noteq> []) NoToken (
     and_then (der_sequence token) (\<lambda>(content_info, _).
     and_then (der_oid content_info) (\<lambda>(oid, _).
     ensure (oid = OID_SIGNED_DATA) (Malformed ''token is not a signedData'') (Inr token))))))))"

text \<open>What is done with the body of the authority's answer.\<close>

definition accept_response :: "u64 option \<Rightarrow> bytes \<Rightarrow> (ts_error, bytes) result" where
  "accept_response content_length body =
     ensure (\<not> (case content_length of Some n \<Rightarrow> unat n > MAX_RESPONSE_BYTES | None \<Rightarrow> False)) TooLarge (
     ensure (\<not> length body > MAX_RESPONSE_BYTES) TooLarge (token_from_response body))"

section \<open>What a token asserts\<close>

record timestamp_info =
  gen_time :: int
  tsa_policy :: bytes
  tsa_serial :: bytes

definition encapsulated_tst_info :: "bytes \<Rightarrow> (ts_error, bytes) result" where
  "encapsulated_tst_info token =
     and_then (der_sequence token) (\<lambda>(content_info, _).
     and_then (der_oid content_info) (\<lambda>(oid, content_info).
     ensure (oid = OID_SIGNED_DATA) (Malformed ''token is not a signedData'') (
     and_then (der_take TAG_CONTEXT_0 content_info) (\<lambda>(explicit, _).
     and_then (der_sequence explicit) (\<lambda>(signed_data, _).
     and_then (der_integer signed_data) (\<lambda>(version, signed_data).
     ensure (version \<noteq> 0) (Unsupported ''SignedData version 0'') (
     and_then (der_set signed_data) (\<lambda>(_, signed_data).
     and_then (der_sequence signed_data) (\<lambda>(encap, _).
     and_then (der_oid encap) (\<lambda>(oid, encap).
     ensure (oid = OID_TST_INFO) (Malformed ''token does not encapsulate a TSTInfo'') (
     and_then (der_take TAG_CONTEXT_0 encap) (\<lambda>(explicit_content, _).
     and_then (der_octet_string explicit_content) (\<lambda>(content, _). Inr content)))))))))))))"

definition parse_token :: "instant_parser \<Rightarrow> bytes \<Rightarrow> digest \<Rightarrow> (ts_error, timestamp_info) result" where
  "parse_token instant token expected_imprint =
     and_then (encapsulated_tst_info token) (\<lambda>tst_info.
     and_then (der_sequence tst_info) (\<lambda>(info, _).
     and_then (der_integer info) (\<lambda>(_, info).
     and_then (der_oid info) (\<lambda>(policy_oid, info).
     and_then (oid_to_dotted policy_oid) (\<lambda>policy.
     and_then (der_sequence info) (\<lambda>(imprint, info).
     and_then (der_sequence imprint) (\<lambda>(algorithm, imprint).
     ensure (algorithm = drop 2 SHA256_ALGORITHM_ID)
       (Unsupported ''timestamp uses a digest algorithm other than SHA-256'') (
     and_then (der_octet_string imprint) (\<lambda>(hashed, _).
     ensure (hashed = digest_bytes expected_imprint) ImprintMismatch (
     and_then (integer_bytes info) (\<lambda>(serial, info).
     and_then (der_take TAG_GENERALIZED_TIME info) (\<lambda>(raw, _).
     and_then (parse_generalized_time instant raw) (\<lambda>t.
     Inr \<lparr>gen_time = t, tsa_policy = policy, tsa_serial = hex_encode serial\<rparr>)))))))))))))"

section \<open>Signed data\<close>

datatype sha2_algorithm = Sha256 | Sha384

record ts_env =
  te_sha256 :: "bytes \<Rightarrow> digest"
  te_sha384 :: "bytes \<Rightarrow> bytes"
  te_verify_rsa :: "sha2_algorithm \<Rightarrow> bytes \<Rightarrow> bytes \<Rightarrow> bytes \<Rightarrow> bool"
  te_instant :: instant_parser

definition from_digest_oid :: "bytes \<Rightarrow> (ts_error, sha2_algorithm) result" where
  "from_digest_oid oid =
     (if oid = OID_SHA256 then Inr Sha256 else if oid = OID_SHA384 then Inr Sha384
      else Inl (Unsupported ''CMS digest algorithm''))"

definition from_rsa_oid :: "bytes \<Rightarrow> (ts_error, sha2_algorithm) result" where
  "from_rsa_oid oid =
     (if oid = OID_RSA_SHA256 then Inr Sha256 else if oid = OID_RSA_SHA384 then Inr Sha384
      else Inl (Unsupported ''RSA signature algorithm''))"

definition sha2_digest :: "ts_env \<Rightarrow> sha2_algorithm \<Rightarrow> bytes \<Rightarrow> bytes" where
  "sha2_digest env a bs = (case a of Sha256 \<Rightarrow> digest_bytes (te_sha256 env bs) | Sha384 \<Rightarrow> te_sha384 env bs)"

text \<open>The bytes of a length: \<open>to_be_bytes\<close> without its leading zeros.\<close>

fun be_bytes :: "nat \<Rightarrow> bytes" where
  "be_bytes n = (if n = 0 then [] else be_bytes (n div 256) @ [char_of (n mod 256)])"

declare be_bytes.simps [simp del]

definition retag_as_set :: "bytes \<Rightarrow> bytes" where
  "retag_as_set contents =
     (let len = length contents in
      [TAG_SET] @
      (if len < 0x80 then [char_of len] else [char_of (0x80 + length (be_bytes len))] @ be_bytes len) @
      contents)"

record signed_data_parts =
  econtent :: bytes
  certificates :: "bytes list"
  signed_attrs :: bytes
  message_digest_attr :: bytes
  sd_signature :: bytes
  digest_algorithm :: sha2_algorithm

function declared_digests :: "bytes \<Rightarrow> (ts_error, sha2_algorithm list) result" where
  "declared_digests algorithms =
     (if peek algorithms = None then Inr []
      else (case algorithm_oid algorithms of
              Inl e \<Rightarrow> Inl e
            | Inr (oid, rest) \<Rightarrow>
                and_then (from_digest_oid oid) (\<lambda>a.
                and_then (declared_digests rest) (\<lambda>ds. Inr (a # ds)))))"
  by pat_completeness auto
termination
  by (relation "measure length") (auto dest: algorithm_oid_shorter)

function cert_elements :: "bytes \<Rightarrow> bytes list" where
  "cert_elements bs =
     (case element TAG_SEQUENCE bs of Inl _ \<Rightarrow> [] | Inr (el, rest) \<Rightarrow> el # cert_elements rest)"
  by pat_completeness auto
termination
  by (relation "measure length") (auto dest: element_whole)

function message_digest_attribute :: "bytes \<Rightarrow> (ts_error, bytes) result" where
  "message_digest_attribute attrs =
     (case der_take TAG_SEQUENCE attrs of
        Inl _ \<Rightarrow> Inl (Malformed ''no message-digest attribute'')
      | Inr (attr, rest) \<Rightarrow>
          and_then (der_oid attr) (\<lambda>(oid, attr).
          and_then (der_set attr) (\<lambda>(vals, _).
          if oid = OID_MESSAGE_DIGEST then and_then (der_octet_string vals) (\<lambda>(v, _). Inr v)
          else message_digest_attribute rest)))"
  by pat_completeness auto
termination
  by (relation "measure length") (auto dest: der_take_shorter)

declare declared_digests.simps [simp del] cert_elements.simps [simp del] message_digest_attribute.simps [simp del]

text \<open>The reader of one \<open>SignerInfo\<close>.\<close>

definition parse_signer_info ::
  "sha2_algorithm list \<Rightarrow> bytes \<Rightarrow> (ts_error, bytes \<times> bytes \<times> bytes \<times> sha2_algorithm) result" where
  "parse_signer_info declared signer =
     and_then (der_integer signer) (\<lambda>(_, signer).
     and_then (skip_any signer) (\<lambda>(_, signer).
     and_then (algorithm_oid signer) (\<lambda>(oid, signer).
     and_then (from_digest_oid oid) (\<lambda>alg.
     ensure (alg \<in> set declared) (Malformed ''CMS digest algorithm is not declared'') (
     and_then (der_take TAG_CONTEXT_0 signer) (\<lambda>(attrs, signer).
     and_then (message_digest_attribute attrs) (\<lambda>md.
     and_then (algorithm_oid signer) (\<lambda>(signature_oid, signer).
     and_then (if signature_oid = OID_RSA_ENCRYPTION then Inr ()
               else and_then (from_rsa_oid signature_oid) (\<lambda>a.
                    ensure (a = alg) (Malformed ''CMS signature and digest algorithms differ'') (Inr ()))) (\<lambda>_.
     and_then (der_octet_string signer) (\<lambda>(sig, _). Inr (attrs, md, sig, alg)))))))))))"

definition parse_signed_data :: "bytes \<Rightarrow> (ts_error, signed_data_parts) result" where
  "parse_signed_data token =
     and_then (der_sequence token) (\<lambda>(content_info, _).
     and_then (der_oid content_info) (\<lambda>(oid, content_info).
     ensure (oid = OID_SIGNED_DATA) (Malformed ''token is not a signedData'') (
     and_then (der_take TAG_CONTEXT_0 content_info) (\<lambda>(explicit, _).
     and_then (der_sequence explicit) (\<lambda>(signed_data, _).
     and_then (der_integer signed_data) (\<lambda>(_, signed_data).
     and_then (der_set signed_data) (\<lambda>(algorithms, signed_data).
     and_then (declared_digests algorithms) (\<lambda>declared.
     and_then (der_sequence signed_data) (\<lambda>(encap, signed_data).
     and_then (der_oid encap) (\<lambda>(oid, encap).
     ensure (oid = OID_TST_INFO) (Malformed ''not a TSTInfo'') (
     and_then (der_take TAG_CONTEXT_0 encap) (\<lambda>(explicit_content, _).
     and_then (der_octet_string explicit_content) (\<lambda>(content, _).
     and_then (der_take TAG_CONTEXT_0 signed_data) (\<lambda>(certs, signed_data).
     ensure (cert_elements certs \<noteq> []) (Unsupported ''token carries no certificate; it cannot be verified offline'') (
     and_then (der_set signed_data) (\<lambda>(signer_infos, _).
     and_then (der_sequence signer_infos) (\<lambda>(signer, _).
     and_then (parse_signer_info declared signer) (\<lambda>(attrs, md, sig, alg).
     Inr \<lparr>econtent = content, certificates = cert_elements certs, signed_attrs = attrs,
          message_digest_attr = md, sd_signature = sig, digest_algorithm = alg\<rparr>))))))))))))))))))"

section \<open>Certificates\<close>

record certificate =
  cert_tbs :: bytes
  cert_issuer :: bytes
  cert_subject :: bytes
  cert_public_key :: bytes
  cert_signature :: bytes
  cert_signature_algorithm :: sha2_algorithm
  not_before :: int
  not_after :: int
  allows_timestamping :: bool

function purpose_oids :: "bytes \<Rightarrow> bytes list" where
  "purpose_oids bs = (case der_take TAG_OID bs of Inl _ \<Rightarrow> [] | Inr (oid, rest) \<Rightarrow> oid # purpose_oids rest)"
  by pat_completeness auto
termination
  by (relation "measure length") (auto dest: der_take_shorter)

text \<open>One extension: its identifier, whether it is critical, its value.\<close>

definition read_extension :: "bytes \<Rightarrow> (ts_error, bytes \<times> bool \<times> bytes) result" where
  "read_extension extension =
     and_then (der_oid extension) (\<lambda>(i, extension).
     and_then (if peek extension = Some TAG_BOOLEAN
               then and_then (der_take TAG_BOOLEAN extension) (\<lambda>(b, extension).
                    Inr ((case b of [] \<Rightarrow> False | x # _ \<Rightarrow> x \<noteq> CHR 0x00), extension))
               else Inr (False, extension)) (\<lambda>(critical, extension).
     and_then (der_octet_string extension) (\<lambda>(val, _). Inr (i, critical, val))))"

function read_extensions :: "bytes \<Rightarrow> bool \<Rightarrow> (ts_error, bool) result" where
  "read_extensions extensions allowed =
     (case der_take TAG_SEQUENCE extensions of
        Inl _ \<Rightarrow> Inr allowed
      | Inr (extension, rest) \<Rightarrow>
          and_then (read_extension extension) (\<lambda>(i, critical, val).
          if i \<noteq> OID_EXT_KEY_USAGE then read_extensions rest allowed
          else and_then (der_sequence val) (\<lambda>(purposes, _).
               let found = purpose_oids purposes in
               read_extensions rest (critical \<and> found = [OID_KP_TIMESTAMPING]))))"
  by pat_completeness auto
termination
  by (relation "measure (\<lambda>(bs, _). length bs)") (auto dest: der_take_shorter)

function find_extensions :: "bytes \<Rightarrow> (ts_error, bool) result" where
  "find_extensions flds =
     (case peek flds of
        None \<Rightarrow> Inr False
      | Some tag \<Rightarrow>
          if tag \<noteq> TAG_CONTEXT_3
          then (case skip_any flds of Inl e \<Rightarrow> Inl e | Inr (_, rest) \<Rightarrow> find_extensions rest)
          else and_then (der_take TAG_CONTEXT_3 flds) (\<lambda>(explicit, _).
               and_then (der_sequence explicit) (\<lambda>(extensions, _). read_extensions extensions False)))"
  by pat_completeness auto
termination
  by (relation "measure length") (auto dest: skip_any_shorter)

declare purpose_oids.simps [simp del] read_extensions.simps [simp del] find_extensions.simps [simp del]

definition parse_certificate :: "instant_parser \<Rightarrow> bytes \<Rightarrow> (ts_error, certificate) result" where
  "parse_certificate instant der =
     and_then (der_sequence der) (\<lambda>(cert, _).
     and_then (element TAG_SEQUENCE cert) (\<lambda>(tbs, cert).
     and_then (algorithm_oid cert) (\<lambda>(signature_oid, cert).
     and_then (from_rsa_oid signature_oid) (\<lambda>alg.
     and_then (bit_string cert) (\<lambda>(sig, _).
     and_then (der_sequence tbs) (\<lambda>(flds, _).
     and_then (if peek flds = Some TAG_CONTEXT_0
               then and_then (der_take TAG_CONTEXT_0 flds) (\<lambda>(_, flds). Inr flds)
               else Inr flds) (\<lambda>flds.
     and_then (skip_any flds) (\<lambda>(_, flds).
     and_then (algorithm_oid flds) (\<lambda>(inner_oid, flds).
     ensure (inner_oid = signature_oid) (Malformed ''certificate signature algorithms differ'') (
     and_then (element TAG_SEQUENCE flds) (\<lambda>(iss, flds).
     and_then (der_sequence flds) (\<lambda>(validity, flds).
     and_then (der_time instant validity) (\<lambda>(before, validity).
     and_then (der_time instant validity) (\<lambda>(after, _).
     and_then (element TAG_SEQUENCE flds) (\<lambda>(subject, flds).
     and_then (der_sequence flds) (\<lambda>(spki, flds).
     and_then (der_sequence spki) (\<lambda>(_, spki).
     and_then (bit_string spki) (\<lambda>(key, _).
     and_then (find_extensions flds) (\<lambda>allowed.
     Inr \<lparr>cert_tbs = tbs, cert_issuer = iss, cert_subject = subject, cert_public_key = key,
          cert_signature = sig, cert_signature_algorithm = alg, not_before = before, not_after = after,
          allows_timestamping = allowed\<rparr>)))))))))))))))))))"

text \<open>The common name in one relative distinguished name. A pair that does not read ends the
  inner loop.\<close>

function rdn_common_name :: "bytes \<Rightarrow> bytes option" where
  "rdn_common_name rdn =
     (case der_take TAG_SEQUENCE rdn of
        Inl _ \<Rightarrow> None
      | Inr (pair, rest) \<Rightarrow>
          (case der_oid pair of
             Inl _ \<Rightarrow> None
           | Inr (oid, pair) \<Rightarrow>
               (case peek pair of
                  None \<Rightarrow> None
                | Some tag \<Rightarrow>
                    (case der_take tag pair of
                       Inl _ \<Rightarrow> None
                     | Inr (val, _) \<Rightarrow>
                         if oid = OID_COMMON_NAME \<and> is_utf8 val then Some val else rdn_common_name rest))))"
  by pat_completeness auto
termination
  by (relation "measure length") (auto dest: der_take_shorter)

function name_common_name :: "bytes \<Rightarrow> bytes option" where
  "name_common_name name =
     (case der_take TAG_SET name of
        Inl _ \<Rightarrow> None
      | Inr (rdn, rest) \<Rightarrow>
          (case rdn_common_name rdn of Some text \<Rightarrow> Some text | None \<Rightarrow> name_common_name rest))"
  by pat_completeness auto
termination
  by (relation "measure length") (auto dest: der_take_shorter)

declare rdn_common_name.simps [simp del] name_common_name.simps [simp del]

definition common_name :: "bytes \<Rightarrow> bytes" where
  "common_name der =
     (case der_sequence der of
        Inl _ \<Rightarrow> ''unnamed authority''
      | Inr (name, _) \<Rightarrow> (case name_common_name name of Some text \<Rightarrow> text | None \<Rightarrow> ''unnamed authority''))"

definition certificate_subject :: "instant_parser \<Rightarrow> bytes \<Rightarrow> (ts_error, bytes) result" where
  "certificate_subject instant der =
     and_then (parse_certificate instant der) (\<lambda>c. Inr (common_name (cert_subject c)))"

section \<open>Verification\<close>

definition signature_imprint :: "ts_env \<Rightarrow> bytes \<Rightarrow> (ts_error, digest) result" where
  "signature_imprint env signature_hex =
     and_then (ok_or (hex_decode signature_hex) (Malformed ''receipt signature is not hex'')) (\<lambda>raw.
     Inr (te_sha256 env raw))"

fun parse_all :: "instant_parser \<Rightarrow> bytes list \<Rightarrow> (ts_error, certificate list) result" where
  "parse_all instant [] = Inr []"
| "parse_all instant (der # ders) =
     and_then (parse_certificate instant der) (\<lambda>c.
     and_then (parse_all instant ders) (\<lambda>cs. Inr (c # cs)))"

record verified_timestamp =
  vt_info :: timestamp_info
  vt_signer :: bytes

definition issued_by :: "ts_env \<Rightarrow> certificate \<Rightarrow> bytes \<Rightarrow> bool" where
  "issued_by env signer issuer_der =
     (case parse_certificate (te_instant env) issuer_der of
        Inl _ \<Rightarrow> False
      | Inr iss \<Rightarrow> cert_subject iss = cert_issuer signer \<and>
          te_verify_rsa env (cert_signature_algorithm signer) (cert_public_key iss) (cert_tbs signer)
            (cert_signature signer))"

definition verify_token ::
  "ts_env \<Rightarrow> bytes \<Rightarrow> digest \<Rightarrow> bytes list \<Rightarrow> (ts_error, verified_timestamp) result" where
  "verify_token env token expected_imprint pinned_issuers =
     and_then (parse_token (te_instant env) token expected_imprint) (\<lambda>info.
     and_then (parse_signed_data token) (\<lambda>sd.
     ensure (message_digest_attr sd = sha2_digest env (digest_algorithm sd) (econtent sd))
       (Malformed ''signed attributes do not describe this TSTInfo'') (
     and_then (parse_all (te_instant env) (certificates sd)) (\<lambda>certs.
     and_then (ok_or (find (\<lambda>c. te_verify_rsa env (digest_algorithm sd) (cert_public_key c)
         (retag_as_set (signed_attrs sd)) (sd_signature sd)) certs) BadSignature) (\<lambda>signer.
     ensure (allows_timestamping signer) NotATimestampingCertificate (
     ensure (list_ex (issued_by env signer) pinned_issuers) UntrustedAuthority (
     ensure (\<not> (gen_time info < not_before signer \<or> gen_time info > not_after signer))
       (CertificateNotValidThen (gen_time info)) (
     Inr \<lparr>vt_info = info, vt_signer = common_name (cert_subject signer)\<rparr>))))))))"

section \<open>Writing what the reader reads\<close>

lemma be_value_snoc: "be_value (bs @ [c]) = be_value bs * 256 + of_char c"
  by (simp add: be_value_def)

lemma be_value_bytes: "be_value (be_bytes n) = n"
proof (induction n rule: be_bytes.induct)
  case (1 n)
  show ?case
  proof (cases "n = 0")
    case False
    with 1 have "be_value (be_bytes n) = n div 256 * 256 + n mod 256 mod 256"
      by (subst be_bytes.simps) (simp add: be_value_snoc)
    then show ?thesis by simp
  qed (simp add: be_bytes.simps be_value_def)
qed

lemma length_be_bytes: "n < 256 ^ k \<Longrightarrow> length (be_bytes n) \<le> k"
proof (induction k arbitrary: n)
  case (Suc k)
  show ?case
  proof (cases "n = 0")
    case False
    have "n div 256 < 256 ^ k" using Suc.prems by (simp add: less_mult_imp_div_less mult.commute)
    with Suc.IH False show ?thesis by (subst be_bytes.simps) simp
  qed (simp add: be_bytes.simps)
qed (simp add: be_bytes.simps)

lemma be_bytes_pos: "0 < n \<Longrightarrow> be_bytes n \<noteq> []"
  by (subst be_bytes.simps) simp

text \<open>A tag, the shortest form of the length, and the contents.\<close>

definition der_tlv :: "char \<Rightarrow> bytes \<Rightarrow> bytes" where
  "der_tlv tag c =
     (let len = length c in
      [tag] @ (if len < 0x80 then [char_of len] else [char_of (0x80 + length (be_bytes len))] @ be_bytes len) @ c)"

lemma der_tlv_short: "length c = n \<Longrightarrow> n < 0x80 \<Longrightarrow> der_tlv tag c = tag # char_of n # c"
  by (simp add: der_tlv_def)

lemma retag_as_set_tlv: "retag_as_set c = der_tlv TAG_SET c"
  by (simp add: retag_as_set_def der_tlv_def Let_def)

lemma der_take_tlv:
  assumes "length c < 2 ^ 32"
  shows "der_take tag (der_tlv tag c @ rest) = Inr (c, rest)"
proof (cases "length c < 0x80")
  case True
  then have "(of_char (char_of (length c) :: char) :: nat) = length c" by simp
  with True show ?thesis by (simp add: der_take_def der_tlv_def take_length_def Let_def)
next
  case False
  let ?l = "be_bytes (length c)"
  have len: "?l \<noteq> []" "1 \<le> length ?l" "length ?l \<le> 4"
  proof -
    have "?l \<noteq> []" using False by (intro be_bytes_pos) linarith
    then show "?l \<noteq> []" "1 \<le> length ?l" by (simp_all add: Suc_leI)
    show "length ?l \<le> 4" using assms by (intro length_be_bytes) simp
  qed
  then have first: "(of_char (char_of (0x80 + length ?l) :: char) :: nat) = 0x80 + length ?l" by simp
  have "take_length (char_of (0x80 + length ?l) # ?l @ c @ rest) = Inr (length c, c @ rest)"
    unfolding take_length_def list.case first using len by (simp add: Let_def be_value_bytes)
  then show ?thesis using False by (simp add: der_take_def der_tlv_def Let_def)
qed

text \<open>
  The signature of a token is computed over the attributes as a set, and \<open>retag_as_set\<close> is an
  encoding of them that the reader of this module reads back: for contents of up to
  \<open>2\<^sup>3\<^sup>2 - 1\<close> bytes, whatever follows, \<open>take\<close> returns exactly the contents and exactly what follows.
  Conversely \<open>take\<close> never reads outside its input: the tag, a length of one to five bytes, the
  contents and the rest make up the input, so no input however long its claimed length makes it
  go past the end.
\<close>

theorem der_take_bounds:
  "(length c < 2 ^ 32 \<longrightarrow> der_take TAG_SET (retag_as_set c @ rest) = Inr (c, rest)) \<and>
   (\<forall>tag bs contents r. der_take tag bs = Inr (contents, r) \<longrightarrow>
      (\<exists>hdr. bs = tag # hdr @ contents @ r \<and> 1 \<le> length hdr \<and> length hdr \<le> 5))"
  using der_take_tlv der_take_parts unfolding retag_as_set_tlv by blast

theorem der_take_bounds_witness: "der_take TAG_SET (retag_as_set ''abc'' @ ''d'') = Inr (''abc'', ''d'')"
  using der_take_bounds [of "''abc''" "''d''"] by simp

lemmas take_tlv =
  der_take_tlv [where rest = "[]", simplified] der_take_tlv

lemma element_tlv: "length c < 2 ^ 32 \<Longrightarrow> element tag (der_tlv tag c @ rest) = Inr (der_tlv tag c, rest)"
  by (simp add: element_def der_take_tlv)

text \<open>
  The request is the DER encoding of a version 1 query for a SHA-256 imprint with the
  certificates asked for: the reader of this module finds in it the version, the algorithm
  identifier, the digest and the flag, and nothing else.
\<close>

theorem build_request_decodes:
  "\<exists>body imprint.
     der_sequence (build_request dg) = Inr (body, []) \<and>
     (\<exists>r1 r2. der_integer body = Inr (1, r1) \<and> der_sequence r1 = Inr (imprint, r2) \<and>
        der_take TAG_BOOLEAN r2 = Inr ([CHR 0xFF], [])) \<and>
     (\<exists>r3. algorithm_oid imprint = Inr (OID_SHA256, r3) \<and> der_octet_string r3 = Inr (digest_bytes dg, [])) \<and>
     length (build_request dg) = 59"
proof -
  let ?imprint = "SHA256_ALGORITHM_ID @ der_tlv TAG_OCTET_STRING (digest_bytes dg)"
  let ?flag = "der_tlv TAG_BOOLEAN [CHR 0xFF]"
  let ?body = "der_tlv TAG_INTEGER [CHR 0x01] @ der_tlv TAG_SEQUENCE ?imprint @ ?flag"
  have len: "length SHA256_ALGORITHM_ID = 15" by (simp add: SHA256_ALGORITHM_ID_def)
  have req: "build_request dg = der_tlv TAG_SEQUENCE ?body"
    by (simp add: build_request_def der_tlv_def Let_def len char_of_def bit_0)
  have alg: "SHA256_ALGORITHM_ID = der_tlv TAG_SEQUENCE (der_tlv TAG_OID OID_SHA256 @ der_tlv TAG_NULL [])"
  proof -
    have oid: "der_tlv TAG_OID OID_SHA256 = TAG_OID # char_of (9 :: nat) # OID_SHA256"
      by (rule der_tlv_short) (simp_all add: OID_SHA256_def)
    have nil: "der_tlv TAG_NULL [] = [TAG_NULL, char_of (0 :: nat)]" by (rule der_tlv_short) simp_all
    have seq: "der_tlv TAG_SEQUENCE (der_tlv TAG_OID OID_SHA256 @ der_tlv TAG_NULL []) =
        TAG_SEQUENCE # char_of (13 :: nat) # der_tlv TAG_OID OID_SHA256 @ der_tlv TAG_NULL []"
      by (rule der_tlv_short) (simp_all add: oid nil, simp add: OID_SHA256_def)
    show ?thesis
      unfolding seq unfolding oid nil unfolding SHA256_ALGORITHM_ID_def OID_SHA256_def tag_defs
      by (simp add: char_of_def bit_0)
  qed
  have lens: "length ?imprint = 49" "length ?body = 57" by (simp_all add: len der_tlv_def)
  have "der_sequence (build_request dg) = Inr (?body, [])"
    unfolding req der_sequence_def using lens by (simp add: take_tlv)
  moreover have "der_integer ?body = Inr (1, der_tlv TAG_SEQUENCE ?imprint @ ?flag)"
    unfolding der_integer_def by (simp add: take_tlv be_value_def)
  moreover have "der_sequence (der_tlv TAG_SEQUENCE ?imprint @ ?flag) = Inr (?imprint, ?flag)"
    unfolding der_sequence_def using lens(1) by (intro der_take_tlv) simp
  moreover have "der_take TAG_BOOLEAN ?flag = Inr ([CHR 0xFF], [])" by (simp add: take_tlv)
  moreover have "algorithm_oid ?imprint = Inr (OID_SHA256, der_tlv TAG_OCTET_STRING (digest_bytes dg))"
  proof -
    have "length (der_tlv TAG_OID OID_SHA256 @ der_tlv TAG_NULL []) = 13"
      by (simp add: der_tlv_def OID_SHA256_def)
    then have seq: "der_sequence ?imprint = Inr (der_tlv TAG_OID OID_SHA256 @ der_tlv TAG_NULL [],
        der_tlv TAG_OCTET_STRING (digest_bytes dg))"
      unfolding alg der_sequence_def by (intro der_take_tlv) simp
    have "der_oid (der_tlv TAG_OID OID_SHA256 @ der_tlv TAG_NULL []) = Inr (OID_SHA256, der_tlv TAG_NULL [])"
      unfolding der_oid_def by (intro der_take_tlv) (simp add: OID_SHA256_def)
    moreover have "peek (der_tlv TAG_NULL []) = Some TAG_NULL" by (simp add: peek_def der_tlv_def)
    moreover have "der_take TAG_NULL (der_tlv TAG_NULL []) = Inr ([], [])" by (simp add: take_tlv)
    ultimately show ?thesis by (simp add: algorithm_oid_def seq peek_def)
  qed
  moreover have "der_octet_string (der_tlv TAG_OCTET_STRING (digest_bytes dg)) = Inr (digest_bytes dg, [])"
    unfolding der_octet_string_def by (simp add: take_tlv)
  moreover have "length (build_request dg) = 59" unfolding req using lens(2) by (simp add: der_tlv_def)
  ultimately show ?thesis by blast
qed

section \<open>What a verified token proves\<close>

text \<open>The two walks over a token read the same \<open>TSTInfo\<close>.\<close>

lemma same_tst_info:
  "encapsulated_tst_info token = Inr content \<Longrightarrow> parse_signed_data token = Inr sd \<Longrightarrow> econtent sd = content"
  by (auto simp: encapsulated_tst_info_def parse_signed_data_def result_simps)

text \<open>The imprint a \<open>TSTInfo\<close> carries, as \<open>parse_token\<close> reads it.\<close>

definition tst_imprint :: "bytes \<Rightarrow> (ts_error, bytes) result" where
  "tst_imprint tst_info =
     and_then (der_sequence tst_info) (\<lambda>(info, _).
     and_then (der_integer info) (\<lambda>(_, info).
     and_then (der_oid info) (\<lambda>(_, info).
     and_then (der_sequence info) (\<lambda>(imprint, _).
     and_then (der_sequence imprint) (\<lambda>(_, imprint).
     and_then (der_octet_string imprint) (\<lambda>(hashed, _). Inr hashed))))))"

lemma parse_token_imprint:
  "parse_token instant token imprint = Inr info \<Longrightarrow>
   \<exists>content. encapsulated_tst_info token = Inr content \<and> tst_imprint content = Inr (digest_bytes imprint)"
  by (auto simp: parse_token_def tst_imprint_def result_simps)

lemma parse_all_member: "parse_all instant ders = Inr certs \<Longrightarrow> c \<in> set certs \<Longrightarrow>
   \<exists>der\<in>set ders. parse_certificate instant der = Inr c"
  by (induction ders arbitrary: certs) (auto simp: result_simps)

text \<open>
  C32. A token that verifies proves when the signature existed. It carries exactly the imprint that
  was asked for, so it verifies for no other; its signed attributes hold the digest of the very
  \<open>TSTInfo\<close> the time was read from; a certificate embedded in it verifies the signature over those
  attributes, is authorised to timestamp, is issued by one of the pinned authorities whose
  signature on it verifies, and was valid at the time the token states.
\<close>

theorem verify_token_sound:
  assumes "verify_token env token imprint pinned = Inr v"
  shows "(\<exists>sd signer. parse_signed_data token = Inr sd \<and>
      tst_imprint (econtent sd) = Inr (digest_bytes imprint) \<and>
      parse_token (te_instant env) token imprint = Inr (vt_info v) \<and>
      message_digest_attr sd = sha2_digest env (digest_algorithm sd) (econtent sd) \<and>
      (\<exists>der\<in>set (certificates sd). parse_certificate (te_instant env) der = Inr signer) \<and>
      te_verify_rsa env (digest_algorithm sd) (cert_public_key signer) (retag_as_set (signed_attrs sd)) (sd_signature sd) \<and>
      allows_timestamping signer \<and>
      (\<exists>der\<in>set pinned. \<exists>iss. parse_certificate (te_instant env) der = Inr iss \<and>
         cert_subject iss = cert_issuer signer \<and>
         te_verify_rsa env (cert_signature_algorithm signer) (cert_public_key iss) (cert_tbs signer) (cert_signature signer)) \<and>
      not_before signer \<le> gen_time (vt_info v) \<and> gen_time (vt_info v) \<le> not_after signer) \<and>
    (\<forall>imprint' pinned' v'. verify_token env token imprint' pinned' = Inr v' \<longrightarrow> imprint' = imprint)"
proof -
  have parts: "\<exists>sd certs signer. parse_token (te_instant env) token imp = Inr (vt_info w) \<and>
      parse_signed_data token = Inr sd \<and>
      message_digest_attr sd = sha2_digest env (digest_algorithm sd) (econtent sd) \<and>
      parse_all (te_instant env) (certificates sd) = Inr certs \<and>
      find (\<lambda>c. te_verify_rsa env (digest_algorithm sd) (cert_public_key c)
        (retag_as_set (signed_attrs sd)) (sd_signature sd)) certs = Some signer \<and>
      allows_timestamping signer \<and> list_ex (issued_by env signer) pin \<and>
      not_before signer \<le> gen_time (vt_info w) \<and> gen_time (vt_info w) \<le> not_after signer"
    if "verify_token env token imp pin = Inr w" for imp pin w
    using that by (auto simp: verify_token_def result_simps)
  obtain sd certs signer where p: "parse_token (te_instant env) token imprint = Inr (vt_info v)"
      "parse_signed_data token = Inr sd"
      "message_digest_attr sd = sha2_digest env (digest_algorithm sd) (econtent sd)"
      "parse_all (te_instant env) (certificates sd) = Inr certs"
      "find (\<lambda>c. te_verify_rsa env (digest_algorithm sd) (cert_public_key c)
        (retag_as_set (signed_attrs sd)) (sd_signature sd)) certs = Some signer"
      "allows_timestamping signer" "list_ex (issued_by env signer) pinned"
      "not_before signer \<le> gen_time (vt_info v)" "gen_time (vt_info v) \<le> not_after signer"
    using parts [OF assms] by blast
  have imprint: "tst_imprint (econtent sd) = Inr (digest_bytes imprint)"
    using parse_token_imprint [OF p(1)] same_tst_info [OF _ p(2)] by blast
  have "signer \<in> set certs" and rsa: "te_verify_rsa env (digest_algorithm sd) (cert_public_key signer)
      (retag_as_set (signed_attrs sd)) (sd_signature sd)"
    using p(5) by (auto simp: find_Some_iff)
  then have cert: "\<exists>der\<in>set (certificates sd). parse_certificate (te_instant env) der = Inr signer"
    using parse_all_member [OF p(4)] by blast
  obtain der where "der \<in> set pinned" "issued_by env signer der" using p(7) by (auto simp: list_ex_iff)
  then have issuer: "\<exists>der\<in>set pinned. \<exists>iss. parse_certificate (te_instant env) der = Inr iss \<and>
      cert_subject iss = cert_issuer signer \<and>
      te_verify_rsa env (cert_signature_algorithm signer) (cert_public_key iss) (cert_tbs signer) (cert_signature signer)"
    by (cases "parse_certificate (te_instant env) der") (auto simp: issued_by_def intro!: bexI [of _ der])
  have "imprint' = imprint" if other: "verify_token env token imprint' pinned' = Inr v'" for imprint' pinned' v'
  proof -
    obtain content where "encapsulated_tst_info token = Inr content" "tst_imprint content = Inr (digest_bytes imprint')"
      using parts [OF other] parse_token_imprint by blast
    moreover from this have "econtent sd = content" using same_tst_info [OF _ p(2)] by blast
    ultimately show ?thesis using imprint by simp
  qed
  with p imprint cert rsa issuer show ?thesis by blast
qed

text \<open>A token built with the encoder, under a signature scheme in which a key is its own
  signature, and the certificate that is pinned for it.\<close>

lemma length_tlv:
  "length c < 128 \<Longrightarrow> length (der_tlv tag c) = length c + 2"
  "128 \<le> length c \<Longrightarrow> length c < 256 \<Longrightarrow> length (der_tlv tag c) = length c + 3"
  "256 \<le> length c \<Longrightarrow> length c < 65536 \<Longrightarrow> length (der_tlv tag c) = length c + 4"
proof -
  show "length c < 128 \<Longrightarrow> length (der_tlv tag c) = length c + 2" by (simp add: der_tlv_def)
  show "length (der_tlv tag c) = length c + 3" if "128 \<le> length c" "length c < 256"
  proof -
    have "length c \<noteq> 0" using that by linarith
    then have "length (be_bytes (length c)) = 1"
      using that by (subst be_bytes.simps) (simp add: be_bytes.simps)
    with that show ?thesis by (simp add: der_tlv_def)
  qed
  show "length (der_tlv tag c) = length c + 4" if "256 \<le> length c" "length c < 65536"
  proof -
    have "length c div 256 < 256" using that by simp
    moreover have "length c div 256 \<noteq> 0" "length c \<noteq> 0" using that by auto
    ultimately have "length (be_bytes (length c div 256)) = 1"
      by (subst be_bytes.simps) (simp add: be_bytes.simps)
    with \<open>length c \<noteq> 0\<close> have "length (be_bytes (length c)) = 2" by (subst be_bytes.simps) simp
    with that show ?thesis by (simp add: der_tlv_def)
  qed
qed

definition example_ts_env :: ts_env where
  "example_ts_env = \<lparr>te_sha256 = digest_of, te_sha384 = id, te_verify_rsa = (\<lambda>_ key _ sig. sig = key),
     te_instant = (\<lambda>_. Some 7)\<rparr>"

definition example_time :: bytes where "example_time = der_tlv TAG_GENERALIZED_TIME ''20240101000000Z''"

definition example_rsa_alg :: bytes where "example_rsa_alg = der_tlv TAG_SEQUENCE (der_tlv TAG_OID OID_RSA_SHA256)"

definition example_sha_alg :: bytes where "example_sha_alg = der_tlv TAG_SEQUENCE (der_tlv TAG_OID OID_SHA256)"

definition example_eku :: bytes where
  "example_eku = der_tlv TAG_SEQUENCE (der_tlv TAG_OID OID_EXT_KEY_USAGE @ der_tlv TAG_BOOLEAN [CHR 0xFF] @
     der_tlv TAG_OCTET_STRING (der_tlv TAG_SEQUENCE (der_tlv TAG_OID OID_KP_TIMESTAMPING)))"

definition example_tbs :: bytes where
  "example_tbs = der_tlv TAG_SEQUENCE (der_tlv TAG_INTEGER [CHR 0x01] @ example_rsa_alg @ der_tlv TAG_SEQUENCE ''ca'' @
     der_tlv TAG_SEQUENCE (example_time @ example_time) @ der_tlv TAG_SEQUENCE ''ca'' @
     der_tlv TAG_SEQUENCE (der_tlv TAG_SEQUENCE [] @ der_tlv TAG_BIT_STRING (CHR 0x00 # ''key'')) @
     der_tlv TAG_CONTEXT_3 (der_tlv TAG_SEQUENCE example_eku))"

definition example_certificate :: bytes where
  "example_certificate = der_tlv TAG_SEQUENCE (example_tbs @ example_rsa_alg @
     der_tlv TAG_BIT_STRING (CHR 0x00 # ''key''))"

definition example_tst :: bytes where
  "example_tst = der_tlv TAG_SEQUENCE (der_tlv TAG_INTEGER [CHR 0x01] @ der_tlv TAG_OID [CHR 0x2A] @
     der_tlv TAG_SEQUENCE (der_tlv TAG_SEQUENCE (drop 2 SHA256_ALGORITHM_ID) @
       der_tlv TAG_OCTET_STRING (digest_bytes (digest_of ''imprint''))) @
     der_tlv TAG_INTEGER [CHR 0x05] @ example_time)"

definition example_attrs :: bytes where
  "example_attrs = der_tlv TAG_SEQUENCE (der_tlv TAG_OID OID_MESSAGE_DIGEST @
     der_tlv TAG_SET (der_tlv TAG_OCTET_STRING (digest_bytes (digest_of example_tst))))"

definition example_signer :: bytes where
  "example_signer = der_tlv TAG_INTEGER [CHR 0x01] @ der_tlv TAG_SEQUENCE [] @ example_sha_alg @
     der_tlv TAG_CONTEXT_0 example_attrs @ der_tlv TAG_SEQUENCE (der_tlv TAG_OID OID_RSA_ENCRYPTION) @
     der_tlv TAG_OCTET_STRING ''key''"

definition example_encap :: bytes where
  "example_encap = der_tlv TAG_OID OID_TST_INFO @ der_tlv TAG_CONTEXT_0 (der_tlv TAG_OCTET_STRING example_tst)"

definition example_signed_data :: bytes where
  "example_signed_data = der_tlv TAG_INTEGER [CHR 0x03] @ der_tlv TAG_SET example_sha_alg @
     der_tlv TAG_SEQUENCE example_encap @ der_tlv TAG_CONTEXT_0 example_certificate @
     der_tlv TAG_SET (der_tlv TAG_SEQUENCE example_signer)"

definition example_token :: bytes where
  "example_token = der_tlv TAG_SEQUENCE (der_tlv TAG_OID OID_SIGNED_DATA @
     der_tlv TAG_CONTEXT_0 (der_tlv TAG_SEQUENCE example_signed_data))"

lemma example_oid_lengths:
  "length OID_RSA_SHA256 = 9" "length OID_SHA256 = 9" "length OID_EXT_KEY_USAGE = 3" "length OID_KP_TIMESTAMPING = 8"
  "length OID_MESSAGE_DIGEST = 9" "length OID_RSA_ENCRYPTION = 9" "length OID_TST_INFO = 11" "length OID_SIGNED_DATA = 9"
  "length SHA256_ALGORITHM_ID = 15"
  by (simp_all add: OID_RSA_SHA256_def OID_SHA256_def OID_EXT_KEY_USAGE_def OID_KP_TIMESTAMPING_def OID_MESSAGE_DIGEST_def
      OID_RSA_ENCRYPTION_def OID_TST_INFO_def OID_SIGNED_DATA_def SHA256_ALGORITHM_ID_def)

lemma example_lengths:
  "length example_time = 17" "length example_rsa_alg = 13" "length example_sha_alg = 13" "length example_eku = 24"
  by (simp_all add: example_time_def example_rsa_alg_def example_sha_alg_def example_eku_def length_tlv example_oid_lengths)

lemma example_lengths2: "length example_tbs = 100" "length example_tst = 79" "length example_attrs = 49"
  by (simp_all add: example_tbs_def example_tst_def example_attrs_def length_tlv example_oid_lengths example_lengths)

lemma example_lengths3: "length example_certificate = 121" "length example_signer = 87" "length example_encap = 96"
  by (simp_all add: example_certificate_def example_signer_def example_encap_def length_tlv example_oid_lengths
      example_lengths example_lengths2)

lemma example_lengths4: "length example_signed_data = 330"
  by (simp add: example_signed_data_def length_tlv example_lengths example_lengths2 example_lengths3)

lemmas example_sizes = length_tlv example_oid_lengths example_lengths example_lengths2 example_lengths3 example_lengths4

lemma peek_tlv [simp]: "peek (der_tlv tag c @ rest) = Some tag" "peek (der_tlv tag c) = Some tag" "peek [] = None"
  by (simp_all add: peek_def der_tlv_def Let_def)

lemma algorithm_oid_tlv:
  assumes "length oid < 100"
  shows "algorithm_oid (der_tlv TAG_SEQUENCE (der_tlv TAG_OID oid) @ rest) = Inr (oid, rest)"
  using assms by (simp add: algorithm_oid_def der_sequence_def der_oid_def der_take_tlv take_tlv length_tlv)

lemma skip_any_tlv: "length c < 2 ^ 32 \<Longrightarrow> skip_any (der_tlv tag c @ rest) = Inr ((), rest)"
  by (simp add: skip_any_def der_take_tlv)

lemma bit_string_tlv: "length c < 100 \<Longrightarrow> bit_string (der_tlv TAG_BIT_STRING (CHR 0x00 # c) @ rest) = Inr (c, rest)"
  by (simp add: bit_string_def der_take_tlv)

lemma example_der_time: "der_time (te_instant example_ts_env) (example_time @ rest) = Inr (7, rest)"
proof -
  have "is_utf8 ''20240101000000Z''" "ends_with ''20240101000000Z'' ''Z''" by (simp_all add: ends_with_def)
  then show ?thesis
    by (simp add: der_time_def example_time_def tag_defs der_take_tlv parse_generalized_time_def strip_suffix_Z_def
        example_ts_env_def)
qed

lemma der_take_nil [simp]: "der_take tag [] = Inl (Malformed ''truncated'')"
  by (simp add: der_take_def)

lemma example_read_extensions: "read_extensions example_eku False = Inr True"
proof -
  have "purpose_oids (der_tlv TAG_OID OID_KP_TIMESTAMPING) = [OID_KP_TIMESTAMPING]"
    by (subst purpose_oids.simps) (simp add: take_tlv example_sizes, subst purpose_oids.simps, simp)
  moreover have "read_extensions [] True = Inr True" by (subst read_extensions.simps) simp
  ultimately show ?thesis
    unfolding example_eku_def
    by (subst read_extensions.simps)
       (simp add: take_tlv example_sizes read_extension_def der_oid_def der_octet_string_def der_sequence_def)
qed

lemma example_find_extensions: "find_extensions (der_tlv TAG_CONTEXT_3 (der_tlv TAG_SEQUENCE example_eku)) = Inr True"
  by (subst find_extensions.simps) (simp add: take_tlv example_sizes der_sequence_def example_read_extensions)

lemma example_parse_certificate:
  "parse_certificate (te_instant example_ts_env) example_certificate =
     Inr \<lparr>cert_tbs = example_tbs, cert_issuer = der_tlv TAG_SEQUENCE ''ca'', cert_subject = der_tlv TAG_SEQUENCE ''ca'',
       cert_public_key = ''key'', cert_signature = ''key'', cert_signature_algorithm = Sha256, not_before = 7, not_after = 7,
       allows_timestamping = True\<rparr>"
proof -
  have rsa: "algorithm_oid (example_rsa_alg @ rest) = Inr (OID_RSA_SHA256, rest)" for rest
    unfolding example_rsa_alg_def by (rule algorithm_oid_tlv) (simp add: example_sizes)
  have tbs: "element TAG_SEQUENCE (example_tbs @ rest) = Inr (example_tbs, rest)" for rest
    unfolding example_tbs_def by (rule element_tlv) (simp add: example_sizes)
  have seq: "der_sequence example_tbs = Inr (der_tlv TAG_INTEGER [CHR 0x01] @ example_rsa_alg @ der_tlv TAG_SEQUENCE ''ca'' @
     der_tlv TAG_SEQUENCE (example_time @ example_time) @ der_tlv TAG_SEQUENCE ''ca'' @
     der_tlv TAG_SEQUENCE (der_tlv TAG_SEQUENCE [] @ der_tlv TAG_BIT_STRING (CHR 0x00 # ''key'')) @
     der_tlv TAG_CONTEXT_3 (der_tlv TAG_SEQUENCE example_eku), [])"
    by (simp add: example_tbs_def der_sequence_def take_tlv example_sizes)
  have neq: "TAG_INTEGER \<noteq> TAG_CONTEXT_0" by (simp add: tag_defs)
  have times: "der_time (te_instant example_ts_env) example_time = Inr (7, [])"
    using example_der_time [of "[]"] by simp
  show ?thesis
    unfolding example_certificate_def parse_certificate_def
    by (simp add: take_tlv example_sizes der_sequence_def tbs rsa from_rsa_oid_def
        bit_string_tlv [where rest = "[]", simplified] seq [unfolded der_sequence_def] neq skip_any_tlv element_tlv
        example_der_time times example_find_extensions)
qed

lemma example_sha: "algorithm_oid (example_sha_alg @ rest) = Inr (OID_SHA256, rest)"
  unfolding example_sha_alg_def by (rule algorithm_oid_tlv) (simp add: example_sizes)

lemma example_message_digest:
  "message_digest_attribute example_attrs = Inr (digest_bytes (digest_of example_tst))"
  unfolding example_attrs_def
  by (subst message_digest_attribute.simps)
     (simp add: take_tlv example_sizes der_oid_def der_set_def der_octet_string_def)

lemma example_signer_info:
  "parse_signer_info [Sha256] example_signer = Inr (example_attrs, digest_bytes (digest_of example_tst), ''key'', Sha256)"
proof -
  have "algorithm_oid (der_tlv TAG_SEQUENCE (der_tlv TAG_OID OID_RSA_ENCRYPTION) @ rest) = Inr (OID_RSA_ENCRYPTION, rest)" for rest
    by (rule algorithm_oid_tlv) (simp add: example_sizes)
  then show ?thesis
    unfolding parse_signer_info_def example_signer_def der_integer_def
    by (simp add: take_tlv example_sizes skip_any_tlv example_sha from_digest_oid_def example_message_digest
        der_octet_string_def)
qed

lemma example_content_info:
  "der_sequence example_token = Inr (der_tlv TAG_OID OID_SIGNED_DATA @
     der_tlv TAG_CONTEXT_0 (der_tlv TAG_SEQUENCE example_signed_data), [])"
  by (simp add: example_token_def der_sequence_def take_tlv example_sizes)

lemma example_declared: "declared_digests example_sha_alg = Inr [Sha256]"
proof -
  have "declared_digests [] = Inr []" by (subst declared_digests.simps) simp
  moreover have "algorithm_oid example_sha_alg = Inr (OID_SHA256, [])" using example_sha [of "[]"] by simp
  moreover have "peek example_sha_alg \<noteq> None" by (simp add: example_sha_alg_def)
  ultimately show ?thesis by (subst declared_digests.simps) (simp add: from_digest_oid_def)
qed

lemma example_cert_elements: "cert_elements example_certificate = [example_certificate]"
proof -
  have "element TAG_SEQUENCE example_certificate = Inr (example_certificate, [])"
    unfolding example_certificate_def by (rule element_tlv [where rest = "[]", simplified]) (simp add: example_sizes)
  moreover have "cert_elements [] = []" by (subst cert_elements.simps) (simp add: element_def)
  ultimately show ?thesis by (subst cert_elements.simps) simp
qed

lemma example_parse_signed_data:
  "parse_signed_data example_token = Inr \<lparr>econtent = example_tst, certificates = [example_certificate],
     signed_attrs = example_attrs, message_digest_attr = digest_bytes (digest_of example_tst), sd_signature = ''key'',
     digest_algorithm = Sha256\<rparr>"
proof -
  have encap: "der_oid example_encap = Inr (OID_TST_INFO, der_tlv TAG_CONTEXT_0 (der_tlv TAG_OCTET_STRING example_tst))"
    by (simp add: example_encap_def der_oid_def take_tlv example_sizes)
  show ?thesis
    unfolding parse_signed_data_def example_content_info
    by (simp add: der_oid_def take_tlv example_sizes der_sequence_def der_set_def der_integer_def
        example_signed_data_def [THEN arg_cong [of _ _ "der_take TAG_INTEGER"]] encap [unfolded der_oid_def]
        der_octet_string_def example_declared example_cert_elements example_signer_info)
qed

lemma example_parse_token:
  "parse_token (te_instant example_ts_env) example_token (digest_of ''imprint'') =
     Inr \<lparr>gen_time = 7, tsa_policy = ''1.2'', tsa_serial = ''05''\<rparr>"
proof -
  have encap: "der_oid example_encap = Inr (OID_TST_INFO, der_tlv TAG_CONTEXT_0 (der_tlv TAG_OCTET_STRING example_tst))"
    by (simp add: example_encap_def der_oid_def take_tlv example_sizes)
  have tst: "encapsulated_tst_info example_token = Inr example_tst"
    unfolding encapsulated_tst_info_def example_content_info
    by (simp add: der_oid_def take_tlv example_sizes der_sequence_def der_set_def der_integer_def be_value_def
        example_signed_data_def [THEN arg_cong [of _ _ "der_take TAG_INTEGER"]] encap [unfolded der_oid_def]
        der_octet_string_def)
  have seq: "der_sequence example_tst = Inr (der_tlv TAG_INTEGER [CHR 0x01] @ der_tlv TAG_OID [CHR 0x2A] @
     der_tlv TAG_SEQUENCE (der_tlv TAG_SEQUENCE (drop 2 SHA256_ALGORITHM_ID) @
       der_tlv TAG_OCTET_STRING (digest_bytes (digest_of ''imprint''))) @
     der_tlv TAG_INTEGER [CHR 0x05] @ example_time, [])"
    by (simp add: example_tst_def der_sequence_def take_tlv example_sizes)
  have oid: "oid_to_dotted [CHR 0x2A] = Inr ''1.2''"
    by (simp add: oid_to_dotted_def show_nat.simps digit_char_def char_of_def bit_0)
  have hex: "hex_encode [CHR 0x05] = ''05''"
    by (simp add: hex_encode_def hex_byte_def hex_digit_def char_of_def bit_0)
  have time: "der_take TAG_GENERALIZED_TIME example_time = Inr (''20240101000000Z'', [])"
    by (simp add: example_time_def take_tlv)
  have gen: "parse_generalized_time (te_instant example_ts_env) ''20240101000000Z'' = Inr 7"
    by (simp add: parse_generalized_time_def strip_suffix_Z_def ends_with_def example_ts_env_def)
  show ?thesis
    unfolding parse_token_def tst
    by (simp add: seq der_integer_def take_tlv example_sizes der_oid_def oid der_sequence_def [THEN arg_cong [of _ _ "\<lambda>f. f (_ @ _)"]]
        der_octet_string_def integer_bytes_def time gen hex)
qed

lemma example_verify_token:
  "verify_token example_ts_env example_token (digest_of ''imprint'') [example_certificate] =
     Inr \<lparr>vt_info = \<lparr>gen_time = 7, tsa_policy = ''1.2'', tsa_serial = ''05''\<rparr>,
       vt_signer = common_name (der_tlv TAG_SEQUENCE ''ca'')\<rparr>"
  unfolding verify_token_def example_parse_token example_parse_signed_data
  by (simp add: example_parse_certificate issued_by_def sha2_digest_def) (simp add: example_ts_env_def)

theorem verify_token_sound_witness:
  "\<exists>sd. parse_signed_data example_token = Inr sd \<and>
     tst_imprint (econtent sd) = Inr (digest_bytes (digest_of ''imprint''))"
  using verify_token_sound [OF example_verify_token] by blast

section \<open>Object identifiers\<close>

text \<open>An arc in base 128, most significant group first, every byte but the last marked.\<close>

fun arc_high :: "nat \<Rightarrow> bytes" where
  "arc_high n = (if n = 0 then [] else arc_high (n div 128) @ [char_of (128 + n mod 128)])"

declare arc_high.simps [simp del]

definition arc_bytes :: "nat \<Rightarrow> bytes" where
  "arc_bytes n = arc_high (n div 128) @ [char_of (n mod 128)]"

lemma shift_in_group:
  assumes "k < 128"
  shows "push_bit 7 (of_nat m :: u64) OR of_nat k = of_nat (128 * m + k)"
proof -
  have "\<not> bit (push_bit 7 (of_nat m :: u64)) n \<or> \<not> bit (of_nat k :: u64) n" for n
  proof (cases "n < 7")
    case False
    have "take_bit 7 k = k" using assms by (simp add: take_bit_nat_eq_self)
    then have "\<not> bit k n" using False by (metis bit_take_bit_iff not_le_imp_less le_less_linear)
    then show ?thesis by (simp add: bit_of_nat_iff)
  qed (simp add: bit_push_bit_iff)
  then have "push_bit 7 (of_nat m :: u64) OR of_nat k = push_bit 7 (of_nat m) + of_nat k"
    by (simp add: disjunctive_add)
  then show ?thesis by (simp add: push_bit_eq_mult mult.commute)
qed

lemma top_clear: "m < 2 ^ 57 \<Longrightarrow> drop_bit 57 (of_nat m :: u64) = 0"
proof -
  assume m: "m < 2 ^ 57"
  have "unat (of_nat m :: u64) = m" using m by (simp add: unat_of_nat)
  then have "unat (drop_bit 57 (of_nat m :: u64)) = 0"
    using m by (simp add: drop_bit_eq_div unat_div_distrib)
  then show ?thesis by (simp only: unat_eq_0)
qed

lemma oid_arcs_high: "n < 2 ^ 57 \<Longrightarrow> oid_arcs 0 (arc_high n @ bs) = oid_arcs (of_nat n) bs"
proof (induction n arbitrary: bs rule: arc_high.induct)
  case (1 n)
  show ?case
  proof (cases "n = 0")
    case False
    let ?c = "char_of (128 + n mod 128) :: char"
    have "n div 128 < 2 ^ 57" using "1.prems" by simp
    then have "oid_arcs 0 (arc_high n @ bs) = oid_arcs (of_nat (n div 128)) (?c # bs)"
      using False "1.IH" by (subst arc_high.simps) simp
    moreover have "(of_char ?c :: nat) = 128 + n mod 128" by simp
    ultimately show ?thesis
      using top_clear [OF \<open>n div 128 < 2 ^ 57\<close>] shift_in_group [of "n mod 128" "n div 128"] by simp
  qed (simp add: arc_high.simps)
qed

lemma oid_arcs_bytes:
  assumes "n < 2 ^ 64"
  shows "oid_arcs 0 (arc_bytes n @ bs) = and_then (oid_arcs 0 bs) (\<lambda>parts. Inr (show_nat n # parts))"
proof -
  let ?c = "char_of (n mod 128) :: char"
  have m: "n div 128 < 2 ^ 57" using assms by simp
  have "(of_char ?c :: nat) = n mod 128" by simp
  moreover have "unat (of_nat n :: u64) = n" using assms by (simp add: unat_of_nat)
  ultimately show ?thesis
    using top_clear [OF m] shift_in_group [of "n mod 128" "n div 128"]
    by (simp add: arc_bytes_def oid_arcs_high [OF m])
qed

text \<open>
  Reading an object identifier never loses a digit: for every identifier whose first two
  arcs fit one byte in the usual way and whose other arcs are below \<open>2\<^sup>6\<^sup>4\<close>, the dotted form is
  exactly its arcs; the overflow check refuses none of them, although the accumulator is a 64-bit
  word that is shifted by seven bits at every step.
\<close>

theorem oid_to_dotted_correct:
  assumes "a \<le> 2" "b < 40" "\<forall>n\<in>set arcs. n < 2 ^ 64"
  shows "oid_to_dotted (char_of (40 * a + b) # concat (map arc_bytes arcs)) =
    Inr (join ''.'' (map show_nat (a # b # arcs)))"
proof -
  have "oid_arcs 0 (concat (map arc_bytes arcs)) = Inr (map show_nat arcs)"
    using assms(3) by (induction arcs) (simp_all add: oid_arcs_bytes)
  moreover have "(of_char (char_of (40 * a + b) :: char) :: nat) = 40 * a + b" using assms(1,2) by simp
  ultimately show ?thesis using assms(2) by (simp add: oid_to_dotted_def)
qed

theorem oid_to_dotted_correct_witness:
  "oid_to_dotted (char_of (42 :: nat) # concat (map arc_bytes [840, 113549])) =
   Inr (join ''.'' (map show_nat [1, 2, 840, 113549]))"
  using oid_to_dotted_correct [of 1 2 "[840, 113549]"] by simp

text \<open>
  Two identifiers that are shown wrongly. One that breaks off in the middle of an arc is
  accepted when the bits read so far are zero, and shown as the identifier without that arc; and
  one under the second root with a second arc of 40 or more is shown under a root that does
  not exist, because the first byte is split by 40 whatever it is.
\<close>

theorem oid_to_dotted_anomalies:
  "oid_to_dotted [CHR 0x2A, CHR 0x80] = oid_to_dotted [CHR 0x2A] \<and>
   oid_to_dotted [CHR 0x2A] = Inr ''1.2'' \<and>
   oid_to_dotted [CHR 0x88, CHR 0x37] = Inr ''3.16.55''"
  by (simp add: oid_to_dotted_def show_nat.simps digit_char_def char_of_def bit_0)

end
