(* ===== verification/Keys.thy ===== *)
theory Keys
  imports Hashing Signing Timestamp "HOL-Library.Product_Lexorder" "HOL-Library.Multiset"
begin

text \<open>
  The key store and trust policy of \<open>src/keys.rs\<close>: key identifiers, the policy file and its
  consistency check, generation, import, export and revocation of keys, the choice of the
  signing key, and the pinned timestamp authorities.

  The trust directory and the directory of private keys are maps from file names to contents.
  Parameters (\<open>key_env\<close>): BLAKE3, Ed25519, the PEM and TOML codecs, base64 and the reading of
  an instant. Times are integers.
\<close>

section \<open>Identifiers and policy\<close>

datatype key_status = Trusted | Revoked

record trust_entry =
  entry_id :: bytes
  entry_name :: bytes
  entry_status :: key_status
  revoked_at :: "int option"

record trust_policy =
  policy_version :: u32
  policy_keys :: "trust_entry list"

record key_env =
  ke_blake3 :: "bytes \<Rightarrow> digest"
  ke_ed :: ed25519
  public_to_pem :: "digest \<Rightarrow> bytes"
  public_of_pem :: "bytes \<Rightarrow> digest option"
  private_to_pem :: "digest \<Rightarrow> bytes"
  private_of_pem :: "bytes \<Rightarrow> digest option"
  policy_to_toml :: "trust_policy \<Rightarrow> bytes"
  policy_of_toml :: "bytes \<Rightarrow> trust_policy option"
  base64_decode :: "bytes \<Rightarrow> bytes option"
  ke_instant :: instant_parser

record key_store =
  trust_files :: "bytes \<rightharpoonup> bytes"
  keys_files :: "bytes \<rightharpoonup> bytes"
  tsa_files :: "bytes \<rightharpoonup> bytes"

datatype key_error =
    KeyHex | KeyLength | KeyInvalid | PemInvalid
  | PolicyUnreadable | PolicyInvalid | MalformedId bytes | DuplicateId bytes
  | MissingPub bytes | NotAPublicKey bytes | WrongPub bytes bytes
  | KeyExists bytes | UnknownKey bytes | NotPublicMaterial bytes | PrivateMaterial
  | NoPrivateKey bytes | MultipleKeys | KeyRevoked bytes "int option" | KeyNotListed bytes
  | PrivateInvalid bytes | BadName | NoCertificate | UnusableCertificate | TsaExists bytes

definition key_id :: "key_env \<Rightarrow> digest \<Rightarrow> bytes" where
  "key_id env pk = hex_encode (take 16 (digest_bytes (ke_blake3 env (digest_bytes pk))))"

definition key_id_from_hex :: "key_env \<Rightarrow> bytes \<Rightarrow> (key_error, bytes) result" where
  "key_id_from_hex env key_hex =
     and_then (ok_or (hex_decode key_hex) KeyHex) (\<lambda>bs.
     and_then (ok_or (digest_try_from bs) KeyLength) (\<lambda>key.
     ensure (key_valid (ke_ed env) key) KeyInvalid (Inr (key_id env key))))"

definition key_id_from_pem :: "key_env \<Rightarrow> bytes \<Rightarrow> (key_error, bytes) result" where
  "key_id_from_pem env pem =
     and_then (ok_or (public_of_pem env pem) PemInvalid) (\<lambda>key. Inr (key_id env key))"

text \<open>\<open>read_to_string\<close> of a file of a directory.\<close>

definition read_text :: "(bytes \<rightharpoonup> bytes) \<Rightarrow> bytes \<Rightarrow> bytes option" where
  "read_text dir name = (case dir name of Some s \<Rightarrow> if is_utf8 s then Some s else None | None \<Rightarrow> None)"

definition pub_name :: "bytes \<Rightarrow> bytes" where "pub_name i = i @ ''.pub''"

definition key_name :: "bytes \<Rightarrow> bytes" where "key_name i = i @ ''.key''"

definition policy_default :: trust_policy where
  "policy_default = \<lparr>policy_version = 1, policy_keys = []\<rparr>"

definition policy_entry :: "trust_policy \<Rightarrow> bytes \<Rightarrow> trust_entry option" where
  "policy_entry policy i = find (\<lambda>k. entry_id k = i) (policy_keys policy)"

fun check_against :: "key_env \<Rightarrow> (bytes \<rightharpoonup> bytes) \<Rightarrow> bytes set \<Rightarrow> trust_entry list \<Rightarrow> (key_error, unit) result" where
  "check_against env dir seen [] = Inr ()"
| "check_against env dir seen (entry # es) =
     ensure (length (entry_id entry) = 32 \<and> list_all is_hex_digit (entry_id entry))
       (MalformedId (entry_id entry)) (
     ensure (entry_id entry \<notin> seen) (DuplicateId (entry_id entry)) (
     and_then (ok_or (read_text dir (pub_name (entry_id entry))) (MissingPub (entry_id entry))) (\<lambda>pem.
     and_then (map_err (\<lambda>_. NotAPublicKey (entry_id entry)) (key_id_from_pem env pem)) (\<lambda>derived.
     ensure (derived = entry_id entry) (WrongPub (entry_id entry) derived) (
     check_against env dir (insert (entry_id entry) seen) es)))))"

definition policy_load :: "key_env \<Rightarrow> (bytes \<rightharpoonup> bytes) \<Rightarrow> (key_error, trust_policy) result" where
  "policy_load env dir =
     (if dir ''trust.toml'' = None then Inr policy_default
      else
        and_then (ok_or (read_text dir ''trust.toml'') PolicyUnreadable) (\<lambda>content.
        and_then (ok_or (policy_of_toml env content) PolicyInvalid) (\<lambda>policy.
        and_then (check_against env dir {} (policy_keys policy)) (\<lambda>_. Inr policy))))"

text \<open>\<open>save\<close> replaces the file in one rename; the temporary file is gone afterwards.\<close>

definition policy_save :: "key_env \<Rightarrow> trust_policy \<Rightarrow> (bytes \<rightharpoonup> bytes) \<Rightarrow> (bytes \<rightharpoonup> bytes)" where
  "policy_save env policy dir = dir(''trust.toml'' \<mapsto> policy_to_toml env policy)"

section \<open>The store\<close>

definition new_entry :: "bytes \<Rightarrow> bytes \<Rightarrow> trust_entry" where
  "new_entry i name = \<lparr>entry_id = i, entry_name = name, entry_status = Trusted, revoked_at = None\<rparr>"

definition add_entry_to :: "trust_policy \<Rightarrow> bytes \<Rightarrow> bytes \<Rightarrow> trust_policy" where
  "add_entry_to policy i name = policy\<lparr>policy_keys := policy_keys policy @ [new_entry i name]\<rparr>"

text \<open>\<open>secret\<close> is what the generator of the operating system returns.\<close>

definition generate ::
  "key_env \<Rightarrow> digest \<Rightarrow> bytes \<Rightarrow> key_store \<Rightarrow> (key_error, bytes) result \<times> key_store" where
  "generate env secret name ks =
     (let pk = public_of (ke_ed env) secret; i = key_id env pk in
      if keys_files ks (key_name i) \<noteq> None \<or> trust_files ks (pub_name i) \<noteq> None
      then (Inl (KeyExists i), ks)
      else
        let ks = ks\<lparr>keys_files := (keys_files ks)(key_name i \<mapsto> private_to_pem env secret),
                    trust_files := (trust_files ks)(pub_name i \<mapsto> public_to_pem env pk)\<rparr> in
        (case policy_load env (trust_files ks) of
           Inl e \<Rightarrow> (Inl e, ks)
         | Inr policy \<Rightarrow>
             (Inr i, ks\<lparr>trust_files := policy_save env (add_entry_to policy i name) (trust_files ks)\<rparr>)))"

record key_listing =
  listing_id :: bytes
  listing_name :: bytes
  listing_status :: bytes
  listing_revoked_at :: "int option"
  private_key_present :: bool

definition show_status :: "key_status \<Rightarrow> bytes" where
  "show_status s = (case s of Trusted \<Rightarrow> ''trusted'' | Revoked \<Rightarrow> ''revoked'')"

definition list_keys :: "key_env \<Rightarrow> key_store \<Rightarrow> (key_error, key_listing list) result" where
  "list_keys env ks =
     and_then (policy_load env (trust_files ks)) (\<lambda>policy.
     Inr (map (\<lambda>e. \<lparr>listing_id = entry_id e, listing_name = entry_name e,
       listing_status = show_status (entry_status e), listing_revoked_at = revoked_at e,
       private_key_present = (keys_files ks (key_name (entry_id e)) \<noteq> None)\<rparr>) (policy_keys policy)))"

definition export_key :: "key_store \<Rightarrow> bytes \<Rightarrow> (key_error, bytes) result" where
  "export_key ks i =
     ensure (trust_files ks (pub_name i) \<noteq> None) (UnknownKey i) (
     and_then (ok_or (read_text (trust_files ks) (pub_name i)) (NotPublicMaterial i)) (\<lambda>pem.
     ensure (contains pem ''BEGIN PUBLIC KEY'' \<and> \<not> contains pem ''PRIVATE'') (NotPublicMaterial i) (
     Inr pem)))"

definition import_key ::
  "key_env \<Rightarrow> bytes \<Rightarrow> bytes \<Rightarrow> key_store \<Rightarrow> (key_error, bytes) result \<times> key_store" where
  "import_key env pem name ks =
     (if contains pem ''PRIVATE'' then (Inl PrivateMaterial, ks)
      else
        (case public_of_pem env pem of
           None \<Rightarrow> (Inl PemInvalid, ks)
         | Some key \<Rightarrow>
             let i = key_id env key;
                 ks = (if trust_files ks (pub_name i) = None
                       then ks\<lparr>trust_files := (trust_files ks)(pub_name i \<mapsto> public_to_pem env key)\<rparr>
                       else ks)
             in (case policy_load env (trust_files ks) of
                   Inl e \<Rightarrow> (Inl e, ks)
                 | Inr policy \<Rightarrow>
                     (Inr i, if policy_entry policy i = None
                             then ks\<lparr>trust_files := policy_save env (add_entry_to policy i name) (trust_files ks)\<rparr>
                             else ks))))"

fun revoke_first :: "bytes \<Rightarrow> int \<Rightarrow> trust_entry list \<Rightarrow> trust_entry list" where
  "revoke_first i now [] = []"
| "revoke_first i now (e # es) =
     (if entry_id e = i then e\<lparr>entry_status := Revoked, revoked_at := Some now\<rparr> # es
      else e # revoke_first i now es)"

definition revoke ::
  "key_env \<Rightarrow> int \<Rightarrow> bytes \<Rightarrow> key_store \<Rightarrow> (key_error, bool) result \<times> key_store" where
  "revoke env now i ks =
     (case policy_load env (trust_files ks) of
        Inl e \<Rightarrow> (Inl e, ks)
      | Inr policy \<Rightarrow>
          (case policy_entry policy i of
             Some _ \<Rightarrow>
               (Inr True, ks\<lparr>trust_files := policy_save env
                  (policy\<lparr>policy_keys := revoke_first i now (policy_keys policy)\<rparr>) (trust_files ks)\<rparr>)
           | None \<Rightarrow> (Inr False, ks)))"

definition authorize_signing :: "key_env \<Rightarrow> key_store \<Rightarrow> bytes \<Rightarrow> (key_error, unit) result" where
  "authorize_signing env ks i =
     and_then (policy_load env (trust_files ks)) (\<lambda>policy.
     (case policy_entry policy i of
        Some entry \<Rightarrow>
          (case entry_status entry of
             Trusted \<Rightarrow> Inr ()
           | Revoked \<Rightarrow> Inl (KeyRevoked i (revoked_at entry)))
      | None \<Rightarrow> Inl (KeyNotListed i)))"

definition load_private_pem :: "key_env \<Rightarrow> key_store \<Rightarrow> bytes \<Rightarrow> (key_error, digest) result" where
  "load_private_pem env ks name =
     and_then (ok_or (read_text (keys_files ks) name) (PrivateInvalid name)) (\<lambda>pem.
     ok_or (private_of_pem env pem) (PrivateInvalid name))"

text \<open>\<open>Path::extension\<close> is what follows the last dot of a name that does not start with its
  only dot; a managed key file is \<open><stem>.key\<close> with a non-empty stem.\<close>

definition is_managed :: "bytes \<Rightarrow> bool" where
  "is_managed name \<longleftrightarrow> ends_with name ''.key'' \<and> name \<noteq> ''.key'' \<and> is_utf8 name \<and>
     name \<noteq> ''private.key'' \<and> name \<noteq> ''public.key''"

definition file_stem :: "bytes \<Rightarrow> bytes" where
  "file_stem name = take (length name - 4) name"

text \<open>\<open>listing\<close> is the order in which the directory of private keys is read.\<close>

definition select_signing_key ::
  "key_env \<Rightarrow> bytes list \<Rightarrow> key_store \<Rightarrow> bytes option \<Rightarrow> (key_error, digest option) result" where
  "select_signing_key env listing ks requested =
     (case requested of
        Some i \<Rightarrow>
          ensure (keys_files ks (key_name i) \<noteq> None) (NoPrivateKey i) (
          and_then (authorize_signing env ks i) (\<lambda>_.
          and_then (load_private_pem env ks (key_name i)) (\<lambda>sk. Inr (Some sk))))
      | None \<Rightarrow>
          (case filter is_managed listing of
             [] \<Rightarrow> Inr None
           | [name] \<Rightarrow>
               and_then (authorize_signing env ks (file_stem name)) (\<lambda>_.
               and_then (load_private_pem env ks name) (\<lambda>sk. Inr (Some sk)))
           | _ \<Rightarrow> Inl MultipleKeys))"

text \<open>The public keys present in the trust directory, keyed by identifier; \<open>listing\<close> is the order
  of the directory. A file that is not a public key is skipped, one that is not text is an
  error.\<close>

definition is_pub_file :: "bytes \<Rightarrow> bool" where
  "is_pub_file name \<longleftrightarrow> ends_with name ''.pub'' \<and> name \<noteq> ''.pub''"

fun trust_dir_public_keys ::
  "key_env \<Rightarrow> (bytes \<rightharpoonup> bytes) \<Rightarrow> bytes list \<Rightarrow> (key_error, bytes \<rightharpoonup> bytes) result" where
  "trust_dir_public_keys env dir [] = Inr Map.empty"
| "trust_dir_public_keys env dir (name # listing) =
     (if \<not> is_pub_file name then trust_dir_public_keys env dir listing
      else
        and_then (ok_or (read_text dir name) PolicyUnreadable) (\<lambda>pem.
        and_then (trust_dir_public_keys env dir listing) (\<lambda>ks.
        (case public_of_pem env pem of
           None \<Rightarrow> Inr ks
         | Some key \<Rightarrow> Inr (if key_id env key \<in> dom ks then ks
                            else ks(key_id env key \<mapsto> hex_encode (digest_bytes key)))))))"

section \<open>Timestamp authorities\<close>

definition CERT_BEGIN :: bytes where "CERT_BEGIN = ''-----BEGIN CERTIFICATE-----''"

definition CERT_END :: bytes where "CERT_END = ''-----END CERTIFICATE-----''"

text \<open>\<open>str::split\<close> on a non-empty separator.\<close>

function split_str :: "bytes \<Rightarrow> bytes \<Rightarrow> bytes list" where
  "split_str sep s =
     (case split_once sep s of
        None \<Rightarrow> [s]
      | Some (a, b) \<Rightarrow> if sep = [] then [s] else a # split_str sep b)"
  by pat_completeness auto
termination
  by (relation "measure (\<lambda>(sep, s). length s)") (auto dest: split_once_parts)

declare split_str.simps [simp del]

text \<open>The base64 body of a block without its white space. Filtering characters and filtering
  bytes is the same for text that base64 accepts, which is ASCII.\<close>

definition strip_space :: "bytes \<Rightarrow> bytes" where
  "strip_space s = filter (\<lambda>c. \<not> is_whitespace (of_char c)) s"

definition certificates_from_bytes :: "key_env \<Rightarrow> bytes \<Rightarrow> bytes list" where
  "certificates_from_bytes env bs =
     (let raw = (case bs of b # _ \<Rightarrow> if b = CHR 0x30 then [bs] else [] | [] \<Rightarrow> []) in
      if \<not> is_utf8 bs then raw
      else if \<not> contains bs CERT_BEGIN then raw
      else concat (map (\<lambda>block.
             case split_once CERT_END block of
               None \<Rightarrow> []
             | Some (body, _) \<Rightarrow>
                 (case base64_decode env (strip_space body) of None \<Rightarrow> [] | Some der \<Rightarrow> [der]))
           (drop 1 (split_str CERT_BEGIN bs))))"

definition tsa_name_char :: "code_point \<Rightarrow> bool" where
  "tsa_name_char c \<longleftrightarrow> 48 \<le> c \<and> c \<le> 57 \<or> 65 \<le> c \<and> c \<le> 90 \<or> 97 \<le> c \<and> c \<le> 122 \<or> c = 45 \<or> c = 95"

definition trust_tsa ::
  "key_env \<Rightarrow> bytes \<Rightarrow> bytes \<Rightarrow> key_store \<Rightarrow> (key_error, bytes) result \<times> key_store" where
  "trust_tsa env bs name ks =
     (if name = [] \<or> \<not> list_all tsa_name_char (utf8_chars name) then (Inl BadName, ks)
      else
        (case certificates_from_bytes env bs of
           [] \<Rightarrow> (Inl NoCertificate, ks)
         | first # _ \<Rightarrow>
             (case certificate_subject (ke_instant env) first of
                Inl _ \<Rightarrow> (Inl UnusableCertificate, ks)
              | Inr subject \<Rightarrow>
                  if tsa_files ks (name @ ''.crt'') \<noteq> None then (Inl (TsaExists name), ks)
                  else (Inr subject, ks\<lparr>tsa_files := (tsa_files ks)(name @ ''.crt'' \<mapsto> bs)\<rparr>))))"

text \<open>\<open>listing\<close> is the order in which the directory \<open>tsa\<close> is read; unreadable entries are
  not in it.\<close>

definition tsa_issuers :: "key_env \<Rightarrow> (bytes \<rightharpoonup> bytes) \<Rightarrow> bytes list \<Rightarrow> bytes list" where
  "tsa_issuers env dir listing =
     map snd (sort (concat (map (\<lambda>name.
       case dir name of
         None \<Rightarrow> []
       | Some bs \<Rightarrow> map (\<lambda>der. (name, der)) (certificates_from_bytes env bs)) listing)))"

section \<open>The policy\<close>

lemma check_against_ok:
  "check_against env dir seen es = Inr () \<longleftrightarrow>
     distinct (map entry_id es) \<and> set (map entry_id es) \<inter> seen = {} \<and>
     (\<forall>e\<in>set es. length (entry_id e) = 32 \<and> list_all is_hex_digit (entry_id e) \<and>
        (\<exists>pem key. read_text dir (pub_name (entry_id e)) = Some pem \<and>
           public_of_pem env pem = Some key \<and> key_id env key = entry_id e))"
proof (induction es arbitrary: seen)
  case (Cons e es)
  have "check_against env dir seen (e # es) = Inr () \<longleftrightarrow>
      length (entry_id e) = 32 \<and> list_all is_hex_digit (entry_id e) \<and> entry_id e \<notin> seen \<and>
      (\<exists>pem key. read_text dir (pub_name (entry_id e)) = Some pem \<and>
           public_of_pem env pem = Some key \<and> key_id env key = entry_id e) \<and>
      check_against env dir (insert (entry_id e) seen) es = Inr ()"
    by (auto simp: result_simps key_id_from_pem_def)
  then show ?case unfolding Cons.IH by auto
qed simp

text \<open>Reading back a policy that was written gives that policy, or fails.\<close>

definition toml_faithful :: "key_env \<Rightarrow> bool" where
  "toml_faithful env \<longleftrightarrow> (\<forall>p q. policy_of_toml env (policy_to_toml env p) = Some q \<longrightarrow> q = p)"

lemma load_saved:
  assumes "toml_faithful env" "policy_load env (policy_save env p dir) = Inr q"
  shows "q = p"
  using assms
  by (auto simp: policy_load_def policy_save_def read_text_def result_simps toml_faithful_def
      split: if_splits)

lemma policy_entry_id: "policy_entry p i = Some e \<Longrightarrow> entry_id e = i \<and> e \<in> set (policy_keys p)"
  by (auto simp: policy_entry_def find_Some_iff)

lemma policy_entry_append:
  "policy_entry (add_entry_to p i name) j =
     (case policy_entry p j of Some e \<Rightarrow> Some e | None \<Rightarrow> if i = j then Some (new_entry i name) else None)"
proof -
  have "find P (xs @ ys) = (case find P xs of Some x \<Rightarrow> Some x | None \<Rightarrow> find P ys)" for P :: "trust_entry \<Rightarrow> bool" and xs ys
    by (induction xs) auto
  then show ?thesis
    by (cases "find (\<lambda>k. entry_id k = j) (policy_keys p)") (auto simp: policy_entry_def add_entry_to_def new_entry_def)
qed

lemma find_revoke_first:
  "find (\<lambda>k. entry_id k = j) (revoke_first i now es) =
     (if i = j then map_option (\<lambda>e. e\<lparr>entry_status := Revoked, revoked_at := Some now\<rparr>)
        (find (\<lambda>k. entry_id k = j) es)
      else find (\<lambda>k. entry_id k = j) es)"
  by (induction es) auto

lemma pub_not_toml [simp]: "pub_name i \<noteq> ''trust.toml''" "''trust.toml'' \<noteq> pub_name i"
proof -
  show "pub_name i \<noteq> ''trust.toml''"
  proof
    assume "pub_name i = ''trust.toml''"
    then have "last (pub_name i) = last ''trust.toml''" by (rule arg_cong)
    then show False by (simp add: pub_name_def)
  qed
  then show "''trust.toml'' \<noteq> pub_name i" by simp
qed

lemma policy_load_checked:
  "policy_load env dir = Inr p \<Longrightarrow> check_against env dir {} (policy_keys p) = Inr ()"
  by (auto simp: policy_load_def result_simps policy_default_def split: if_splits)

lemma policy_entry_file:
  assumes "policy_load env dir = Inr p" "policy_entry p i = Some e"
  shows "dir (pub_name i) \<noteq> None"
proof -
  have "entry_id e = i" "e \<in> set (policy_keys p)" using policy_entry_id [OF assms(2)] by simp_all
  then have "read_text dir (pub_name i) \<noteq> None"
    using policy_load_checked [OF assms(1)] unfolding check_against_ok by force
  then show ?thesis by (auto simp: read_text_def split: option.splits)
qed

text \<open>An unlisted public key file does not change what the policy loads to.\<close>

lemma check_against_more:
  "check_against env dir seen es = Inr () \<Longrightarrow> dir name = None \<Longrightarrow>
   check_against env (dir(name \<mapsto> c)) seen es = Inr ()"
  unfolding check_against_ok by (force simp: read_text_def split: option.splits if_splits)

lemma policy_load_dir:
  assumes "policy_load env (dir(pub_name i \<mapsto> c)) = Inr p" "dir (pub_name i) = None"
    "policy_load env dir = Inr q"
  shows "p = q"
  using assms by (auto simp: policy_load_def read_text_def result_simps split: if_splits)

section \<open>Properties\<close>

datatype key_op = Generate digest bytes | Import bytes bytes | Revoke int bytes | TrustTsa bytes bytes

definition key_step :: "key_env \<Rightarrow> key_op \<Rightarrow> key_store \<Rightarrow> key_store" where
  "key_step env op ks =
     (case op of
        Generate secret name \<Rightarrow> snd (generate env secret name ks)
      | Import pem name \<Rightarrow> snd (import_key env pem name ks)
      | Revoke now i \<Rightarrow> snd (revoke env now i ks)
      | TrustTsa bs name \<Rightarrow> snd (trust_tsa env bs name ks))"

text \<open>Every operation leaves the policy as it was, adds a trusted entry for a key that had none,
  or revokes one entry.\<close>

definition policy_step :: "trust_policy \<Rightarrow> trust_policy \<Rightarrow> bool" where
  "policy_step p q \<longleftrightarrow> q = p \<or> (\<exists>i name. policy_entry p i = None \<and> q = add_entry_to p i name) \<or>
     (\<exists>i now. policy_entry p i \<noteq> None \<and> q = p\<lparr>policy_keys := revoke_first i now (policy_keys p)\<rparr>)"

lemma key_step_policy:
  assumes "toml_faithful env" "policy_load env (trust_files ks) = Inr p"
    and "policy_load env (trust_files (key_step env op ks)) = Inr q"
  shows "policy_step p q"
proof (cases op)
  case (Generate secret name)
  let ?i = "key_id env (public_of (ke_ed env) secret)"
  show ?thesis
  proof (cases "keys_files ks (key_name ?i) \<noteq> None \<or> trust_files ks (pub_name ?i) \<noteq> None")
    case True
    with assms Generate show ?thesis by (auto simp: key_step_def generate_def Let_def policy_step_def)
  next
    case False
    let ?dir = "(trust_files ks)(pub_name ?i \<mapsto> public_to_pem env (public_of (ke_ed env) secret))"
    have none: "policy_entry p ?i = None" using policy_entry_file [OF assms(2), of ?i] False by fastforce
    show ?thesis
    proof (cases "policy_load env ?dir")
      case (Inl e)
      with assms Generate False show ?thesis
        by (auto simp: key_step_def generate_def Let_def)
    next
      case (Inr r)
      then have "r = p" using policy_load_dir assms(2) False by blast
      moreover have "q = add_entry_to r ?i name"
        using assms(3) Generate False Inr load_saved [OF assms(1)]
        by (auto simp: key_step_def generate_def Let_def)
      ultimately show ?thesis using none by (auto simp: policy_step_def)
    qed
  qed
next
  case (Import pem name)
  show ?thesis
  proof (cases "contains pem ''PRIVATE'' \<or> public_of_pem env pem = None")
    case True
    then have "key_step env op ks = ks"
      using Import by (cases "contains pem ''PRIVATE''") (simp_all add: key_step_def import_key_def)
    with assms show ?thesis by (simp add: policy_step_def)
  next
    case False
    then obtain key where key: "public_of_pem env pem = Some key" "\<not> contains pem ''PRIVATE''" by auto
    let ?i = "key_id env key"
    define ks1 where "ks1 = (if trust_files ks (pub_name ?i) = None
      then ks\<lparr>trust_files := (trust_files ks)(pub_name ?i \<mapsto> public_to_pem env key)\<rparr> else ks)"
    have same: "r = p" if "policy_load env (trust_files ks1) = Inr r" for r
      using that policy_load_dir [OF _ _ assms(2)] assms(2) by (auto simp: ks1_def split: if_splits)
    have step: "key_step env op ks = (case policy_load env (trust_files ks1) of
        Inl e \<Rightarrow> ks1
      | Inr policy \<Rightarrow> if policy_entry policy ?i = None
          then ks1\<lparr>trust_files := policy_save env (add_entry_to policy ?i name) (trust_files ks1)\<rparr> else ks1)"
      using Import key by (simp add: key_step_def import_key_def Let_def ks1_def split: sum.splits)
    show ?thesis
    proof (cases "policy_load env (trust_files ks1)")
      case (Inl e)
      with assms(3) step show ?thesis by simp
    next
      case (Inr r)
      with same have "r = p" by blast
      with Inr step assms(3) show ?thesis
        by (auto simp: policy_step_def dest: load_saved [OF assms(1)] split: if_splits)
    qed
  qed
next
  case (Revoke now i)
  show ?thesis
  proof (cases "policy_entry p i")
    case None
    with Revoke assms show ?thesis by (simp add: key_step_def revoke_def policy_step_def)
  next
    case (Some e)
    with Revoke assms(2,3) have "policy_load env (policy_save env
        (p\<lparr>policy_keys := revoke_first i now (policy_keys p)\<rparr>) (trust_files ks)) = Inr q"
      by (simp add: key_step_def revoke_def)
    from load_saved [OF assms(1) this] Some show ?thesis by (auto simp: policy_step_def)
  qed
next
  case (TrustTsa bs name)
  have "trust_files (key_step env op ks) = trust_files ks"
    using TrustTsa by (auto simp: key_step_def trust_tsa_def split: list.splits sum.splits)
  with assms show ?thesis by (simp add: policy_step_def)
qed

lemma policy_entry_revoke:
  "policy_entry (p\<lparr>policy_keys := revoke_first i now (policy_keys p)\<rparr>) j =
     (if i = j then map_option (\<lambda>e. e\<lparr>entry_status := Revoked, revoked_at := Some now\<rparr>) (policy_entry p j)
      else policy_entry p j)"
  by (simp add: policy_entry_def find_revoke_first)

lemma policy_step_revoked:
  assumes "policy_step p q" "policy_entry p i = Some e" "entry_status e = Revoked"
  shows "\<exists>e'. policy_entry q i = Some e' \<and> entry_status e' = Revoked"
  using assms unfolding policy_step_def
  by (auto simp: policy_entry_append policy_entry_revoke)

text \<open>
  C33. Revocation is final. Whatever operation is performed on the store (generating, importing
  or revoking a key, pinning a timestamp authority), a key that was revoked is still revoked
  in the policy that is loaded afterwards; importing its public key again does not bring the
  trust back, and no signing request for it is authorised.
\<close>

theorem revoked_stays_revoked:
  assumes "toml_faithful env" "policy_load env (trust_files ks) = Inr p"
    and "policy_entry p i = Some e" "entry_status e = Revoked"
    and "policy_load env (trust_files (key_step env op ks)) = Inr q"
  shows "(\<exists>e'. policy_entry q i = Some e' \<and> entry_status e' = Revoked) \<and>
    authorize_signing env (key_step env op ks) i \<noteq> Inr ()"
proof -
  obtain e' where "policy_entry q i = Some e'" "entry_status e' = Revoked"
    using policy_step_revoked [OF key_step_policy [OF assms(1,2,5)] assms(3,4)] by blast
  then show ?thesis using assms(5) by (simp add: authorize_signing_def)
qed

text \<open>A store with a trusted and a revoked key, under the file name of the trusted one the
  private half of the revoked one. The codecs write what the example needs.\<close>

definition example_trusted :: trust_entry where
  "example_trusted = \<lparr>entry_id = hex_encode (take 16 (digest_bytes (digest_of ''t''))), entry_name = ''t'',
     entry_status = Trusted, revoked_at = None\<rparr>"

definition example_revoked :: trust_entry where
  "example_revoked = \<lparr>entry_id = hex_encode (take 16 (digest_bytes (digest_of ''r''))), entry_name = ''r'',
     entry_status = Revoked, revoked_at = Some 5\<rparr>"

definition example_policy :: trust_policy where
  "example_policy = \<lparr>policy_version = 1, policy_keys = [example_trusted, example_revoked]\<rparr>"

definition example_later :: trust_policy where
  "example_later = \<lparr>policy_version = 1,
     policy_keys = [example_trusted, example_revoked\<lparr>revoked_at := Some 9\<rparr>]\<rparr>"

definition example_earlier :: trust_policy where
  "example_earlier = \<lparr>policy_version = 1,
     policy_keys = [example_trusted, example_revoked\<lparr>revoked_at := Some 3\<rparr>]\<rparr>"

definition example_key_env :: key_env where
  "example_key_env = \<lparr>ke_blake3 = (\<lambda>s. digest_of s), ke_ed = example_ed,
     public_to_pem = (\<lambda>k. digest_bytes k), public_of_pem = digest_try_from,
     private_to_pem = (\<lambda>k. digest_bytes k), private_of_pem = digest_try_from,
     policy_to_toml = (\<lambda>p. if p = example_policy then ''1'' else if p = example_later then ''2''
       else if p = example_earlier then ''3'' else ''?''),
     policy_of_toml = (\<lambda>s. if s = ''1'' then Some example_policy else if s = ''2'' then Some example_later
       else if s = ''3'' then Some example_earlier else None),
     base64_decode = Some, ke_instant = (\<lambda>_. None)\<rparr>"

definition example_store :: key_store where
  "example_store = \<lparr>
     trust_files = [''trust.toml'' \<mapsto> ''1'',
       pub_name (entry_id example_trusted) \<mapsto> digest_bytes (digest_of ''t''),
       pub_name (entry_id example_revoked) \<mapsto> digest_bytes (digest_of ''r'')],
     keys_files = [key_name (entry_id example_trusted) \<mapsto> digest_bytes (digest_of ''r'')],
     tsa_files = Map.empty\<rparr>"

lemma example_toml: "toml_faithful example_key_env"
  by (simp add: toml_faithful_def example_key_env_def)

lemma is_utf8_zeros: "is_utf8 (replicate n (CHR 0x00))"
  by (induction n) simp_all

lemma example_utf8: "is_utf8 (digest_bytes (digest_of ''t''))" "is_utf8 (digest_bytes (digest_of ''r''))"
  using is_utf8_zeros [of 31] by (simp_all add: digest_bytes_of)

lemma example_ids: "entry_id example_trusted \<noteq> entry_id example_revoked"
  by (simp add: example_trusted_def example_revoked_def digest_bytes_of)

lemma example_key_ids:
  "key_id example_key_env (digest_of ''t'') = entry_id example_trusted"
  "key_id example_key_env (digest_of ''r'') = entry_id example_revoked"
  by (simp_all add: key_id_def example_key_env_def example_trusted_def example_revoked_def)

lemma pub_name_inject [simp]: "pub_name i = pub_name j \<longleftrightarrow> i = j"
  by (simp add: pub_name_def)

lemma example_check:
  assumes "dir (pub_name (entry_id example_trusted)) = Some (digest_bytes (digest_of ''t''))"
    "dir (pub_name (entry_id example_revoked)) = Some (digest_bytes (digest_of ''r''))"
    "map entry_id es = [entry_id example_trusted, entry_id example_revoked]"
  shows "check_against example_key_env dir {} es = Inr ()"
proof -
  have "length (entry_id e) = 32 \<and> list_all is_hex_digit (entry_id e)"
    if "entry_id e \<in> {entry_id example_trusted, entry_id example_revoked}" for e :: trust_entry
    using that hex_encode_digits
    by (auto simp: example_trusted_def example_revoked_def list_all_iff)
  moreover have "entry_id e \<in> {entry_id example_trusted, entry_id example_revoked}" if "e \<in> set es" for e
    using assms(3) that by (metis image_eqI image_set list.set(1) list.set(2))
  moreover have "\<exists>pem key. read_text dir (pub_name i) = Some pem \<and>
      public_of_pem example_key_env pem = Some key \<and> key_id example_key_env key = i"
    if i: "i \<in> {entry_id example_trusted, entry_id example_revoked}" for i
    using i assms(1,2) example_utf8 example_key_ids
    by (auto simp: read_text_def example_key_env_def)
  ultimately show ?thesis
    unfolding check_against_ok using assms(3) example_ids by auto
qed

lemma example_load: "policy_load example_key_env (trust_files example_store) = Inr example_policy"
proof -
  have "check_against example_key_env (trust_files example_store) {} (policy_keys example_policy) = Inr ()"
    by (rule example_check) (simp_all add: example_store_def example_policy_def example_ids)
  then show ?thesis
    by (simp add: policy_load_def read_text_def example_store_def example_key_env_def)
qed

lemma example_revoke:
  "revoke example_key_env 9 (entry_id example_revoked) example_store =
     (Inr True, example_store\<lparr>trust_files := (trust_files example_store)(''trust.toml'' \<mapsto> ''2'')\<rparr>)"
proof -
  have "policy_entry example_policy (entry_id example_revoked) = Some example_revoked"
    using example_ids by (simp add: policy_entry_def example_policy_def)
  moreover have "example_policy\<lparr>policy_keys := revoke_first (entry_id example_revoked) 9 (policy_keys example_policy)\<rparr>
      = example_later"
    using example_ids by (simp add: example_policy_def example_later_def example_revoked_def)
  moreover have "policy_to_toml example_key_env example_later = ''2''"
    by (simp add: example_key_env_def example_later_def example_policy_def example_revoked_def)
  ultimately show ?thesis
    by (simp add: revoke_def example_load policy_save_def)
qed

lemma example_load_later:
  "policy_load example_key_env ((trust_files example_store)(''trust.toml'' \<mapsto> ''2'')) = Inr example_later"
proof -
  have "check_against example_key_env ((trust_files example_store)(''trust.toml'' \<mapsto> ''2'')) {}
      (policy_keys example_later) = Inr ()"
    by (rule example_check) (simp_all add: example_store_def example_later_def example_ids)
  then show ?thesis
    by (simp add: policy_load_def read_text_def example_key_env_def)
qed

theorem revoked_stays_revoked_witness:
  "authorize_signing example_key_env
     (key_step example_key_env (Revoke 9 (entry_id example_revoked)) example_store)
     (entry_id example_revoked) \<noteq> Inr ()"
proof -
  have "policy_entry example_policy (entry_id example_revoked) = Some example_revoked"
    using example_ids by (simp add: policy_entry_def example_policy_def)
  moreover have "entry_status example_revoked = Revoked" by (simp add: example_revoked_def)
  moreover have "policy_load example_key_env (trust_files
      (key_step example_key_env (Revoke 9 (entry_id example_revoked)) example_store)) = Inr example_later"
    by (simp add: key_step_def example_revoke example_load_later)
  ultimately show ?thesis
    using revoked_stays_revoked [OF example_toml example_load] by blast
qed

text \<open>
  A second revocation replaces the moment of the first by a later one: in the example
  store the key revoked at 5 is listed as revoked at 9 after \<open>revoke\<close> at 9, so signatures
  made between the two are no longer after its revocation.
\<close>

theorem revoke_moves_later:
  "(\<exists>p q ks'. policy_load example_key_env (trust_files example_store) = Inr p \<and>
     map_option revoked_at (policy_entry p (entry_id example_revoked)) = Some (Some 5) \<and>
     revoke example_key_env 9 (entry_id example_revoked) example_store = (Inr True, ks') \<and>
     policy_load example_key_env (trust_files ks') = Inr q \<and>
     map_option revoked_at (policy_entry q (entry_id example_revoked)) = Some (Some 9))"
proof -
  have "map_option revoked_at (policy_entry example_policy (entry_id example_revoked)) = Some (Some 5)"
    using example_ids by (simp add: policy_entry_def example_policy_def) (simp add: example_revoked_def)
  moreover have "map_option revoked_at (policy_entry example_later (entry_id example_revoked)) = Some (Some 9)"
    using example_ids by (simp add: policy_entry_def example_later_def)
  ultimately show ?thesis
    using example_load example_revoke example_load_later by fastforce
qed

section \<open>Choosing the signing key\<close>

text \<open>What the directory of private keys holds when only this program writes to it: under
  \<open><id>.key\<close> the private half of the key with that identifier.\<close>

definition keys_filed :: "key_env \<Rightarrow> key_store \<Rightarrow> bool" where
  "keys_filed env ks \<longleftrightarrow> (\<forall>i sk. load_private_pem env ks (key_name i) = Inr sk \<longrightarrow>
     key_id env (public_of (ke_ed env) sk) = i)"

definition is_trusted :: "trust_policy \<Rightarrow> bytes \<Rightarrow> bool" where
  "is_trusted policy i \<longleftrightarrow> (\<exists>e. policy_entry policy i = Some e \<and> entry_status e = Trusted)"

lemma authorize_signing_ok:
  "authorize_signing env ks i = Inr () \<longleftrightarrow>
     (\<exists>p. policy_load env (trust_files ks) = Inr p \<and> is_trusted p i)"
proof (cases "policy_load env (trust_files ks)")
  case (Inr p)
  then show ?thesis
    by (cases "policy_entry p i") (auto simp: authorize_signing_def is_trusted_def split: key_status.splits)
qed (simp add: authorize_signing_def)

lemma managed_name: "is_managed name \<Longrightarrow> name = key_name (file_stem name)"
  by (auto simp: is_managed_def ends_with_iff file_stem_def key_name_def)

text \<open>
  Having the private half is not authorisation. When \<open>select_signing_key\<close> returns a key,
  the trust policy loads, lists the identifier of that key and lists it as trusted; if a key
  was requested it is the one with the requested identifier; and if none was, it was the only
  managed private key there is, so the choice was never between several. This holds as long as
  the files of the directory are named after the keys they hold.
\<close>

theorem select_signing_key_trusted:
  assumes "keys_filed env ks" "select_signing_key env listing ks requested = Inr (Some sk)"
  shows "(\<exists>p. policy_load env (trust_files ks) = Inr p \<and>
      is_trusted p (key_id env (public_of (ke_ed env) sk))) \<and>
    (\<forall>i. requested = Some i \<longrightarrow> key_id env (public_of (ke_ed env) sk) = i) \<and>
    (requested = None \<longrightarrow> filter is_managed listing = [key_name (key_id env (public_of (ke_ed env) sk))])"
proof (cases requested)
  case (Some i)
  then have sel: "authorize_signing env ks i = Inr ()" "load_private_pem env ks (key_name i) = Inr sk"
    using assms(2) by (auto simp: select_signing_key_def result_simps)
  then have "key_id env (public_of (ke_ed env) sk) = i" using assms(1) by (simp add: keys_filed_def)
  with sel(1) Some show ?thesis by (auto simp: authorize_signing_ok)
next
  case None
  then obtain name where name: "filter is_managed listing = [name]"
    using assms(2) by (auto simp: select_signing_key_def split: list.splits)
  then have "is_managed name" by (metis filter_eq_ConsD)
  then have eq: "name = key_name (file_stem name)" by (rule managed_name)
  have sel: "authorize_signing env ks (file_stem name) = Inr ()" "load_private_pem env ks name = Inr sk"
    using assms(2) None name by (auto simp: select_signing_key_def result_simps)
  then have "key_id env (public_of (ke_ed env) sk) = file_stem name"
    using assms(1) eq unfolding keys_filed_def by metis
  with sel(1) None name eq show ?thesis by (auto simp: authorize_signing_ok)
qed

definition example_filed :: key_store where
  "example_filed = example_store\<lparr>keys_files :=
     [key_name (entry_id example_trusted) \<mapsto> digest_bytes (digest_of ''t'')]\<rparr>"

lemma key_name_inject [simp]: "key_name i = key_name j \<longleftrightarrow> i = j"
  by (simp add: key_name_def)

lemma example_trusted_is: "is_trusted example_policy (entry_id example_trusted)"
  by (simp add: is_trusted_def policy_entry_def example_policy_def) (simp add: example_trusted_def)

lemma example_untrusted: "\<not> is_trusted example_policy (entry_id example_revoked)"
  using example_ids by (simp add: is_trusted_def policy_entry_def example_policy_def)
    (simp add: example_revoked_def)

lemma example_public_of: "public_of (ke_ed example_key_env) sk = sk"
  by (simp add: example_key_env_def example_ed_def)

lemma example_keys_filed: "keys_filed example_key_env example_filed"
  unfolding keys_filed_def
  by (auto simp: load_private_pem_def read_text_def result_simps example_filed_def example_public_of
      example_key_env_def [THEN arg_cong [of _ _ private_of_pem]] example_key_ids example_utf8
      split: if_splits)

theorem select_signing_key_trusted_witness:
  "\<exists>p. policy_load example_key_env (trust_files example_filed) = Inr p \<and>
     is_trusted p (key_id example_key_env (digest_of ''t''))"
proof -
  have "trust_files example_filed = trust_files example_store" by (simp add: example_filed_def)
  then have auth: "authorize_signing example_key_env example_filed (entry_id example_trusted) = Inr ()"
    using example_load example_trusted_is by (auto simp: authorize_signing_ok)
  have "load_private_pem example_key_env example_filed (key_name (entry_id example_trusted)) = Inr (digest_of ''t'')"
    by (simp add: load_private_pem_def read_text_def example_filed_def example_utf8)
       (simp add: example_key_env_def)
  with auth have "select_signing_key example_key_env [] example_filed (Some (entry_id example_trusted))
      = Inr (Some (digest_of ''t''))"
    by (simp add: select_signing_key_def) (simp add: example_filed_def)
  from select_signing_key_trusted [OF example_keys_filed this] show ?thesis
    by (auto simp: example_public_of example_key_ids)
qed

text \<open>
  The authorisation looks at the name of the private key file and not at the key in it.
  In the example store the file named after the trusted key holds the private half of the
  revoked one; \<open>select_signing_key\<close> returns that key, which the policy does not trust.
\<close>

theorem select_signing_key_by_name:
  "select_signing_key example_key_env [] example_store (Some (entry_id example_trusted))
     = Inr (Some (digest_of ''r'')) \<and>
   policy_load example_key_env (trust_files example_store) = Inr example_policy \<and>
   \<not> is_trusted example_policy (key_id example_key_env (public_of (ke_ed example_key_env) (digest_of ''r'')))"
proof -
  have auth: "authorize_signing example_key_env example_store (entry_id example_trusted) = Inr ()"
    using example_load example_trusted_is by (auto simp: authorize_signing_ok)
  have "load_private_pem example_key_env example_store (key_name (entry_id example_trusted)) = Inr (digest_of ''r'')"
    by (simp add: load_private_pem_def read_text_def example_store_def example_utf8)
       (simp add: example_key_env_def)
  with auth have "select_signing_key example_key_env [] example_store (Some (entry_id example_trusted))
      = Inr (Some (digest_of ''r''))"
    by (simp add: select_signing_key_def) (simp add: example_store_def)
  then show ?thesis
    using example_load example_untrusted by (simp add: example_public_of example_key_ids)
qed

text \<open>
  The timestamp authorities a receipt is checked against do not depend on the order in
  which the operating system lists the directory.
\<close>

theorem tsa_issuers_order_independent:
  assumes "mset listing = mset listing'"
  shows "tsa_issuers env dir listing = tsa_issuers env dir listing'"
proof -
  let ?f = "\<lambda>name. case dir name of None \<Rightarrow> [] | Some bs \<Rightarrow> map (\<lambda>der. (name, der)) (certificates_from_bytes env bs)"
  have conc: "mset (concat xs) = sum_list (map mset xs)" for xs :: "(bytes \<times> bytes) list list"
    by (induction xs) simp_all
  have "mset (concat (map ?f listing)) = (\<Sum>x\<in>#mset listing. mset (?f x))"
    unfolding conc by (simp add: sum_mset_sum_list [symmetric] comp_def)
  also have "\<dots> = mset (concat (map ?f listing'))"
    unfolding assms conc by (simp add: sum_mset_sum_list [symmetric] comp_def)
  finally have "sort (concat (map ?f listing)) = sort (concat (map ?f listing'))"
    by (intro properties_for_sort) simp_all
  then show ?thesis by (simp add: tsa_issuers_def)
qed

theorem tsa_issuers_order_independent_witness:
  "tsa_issuers example_key_env [''a'' \<mapsto> ''0x'', ''b'' \<mapsto> ''0y''] [''b'', ''a''] =
   tsa_issuers example_key_env [''a'' \<mapsto> ''0x'', ''b'' \<mapsto> ''0y''] [''a'', ''b'']"
  by (rule tsa_issuers_order_independent) simp

section \<open>Generating a key\<close>

text \<open>What the store relies on of the PEM codecs, and of the TOML codec at one policy.\<close>

definition pem_roundtrip :: "key_env \<Rightarrow> bool" where
  "pem_roundtrip env \<longleftrightarrow> (\<forall>k. is_utf8 (public_to_pem env k) \<and> public_of_pem env (public_to_pem env k) = Some k \<and>
     is_utf8 (private_to_pem env k) \<and> private_of_pem env (private_to_pem env k) = Some k)"

definition toml_roundtrip :: "key_env \<Rightarrow> trust_policy \<Rightarrow> bool" where
  "toml_roundtrip env p \<longleftrightarrow> is_utf8 (policy_to_toml env p) \<and> policy_of_toml env (policy_to_toml env p) = Some p"

lemma key_id_wf: "length (key_id env k) = 32" "list_all is_hex_digit (key_id env k)"
  using hex_encode_digits by (auto simp: key_id_def list_all_iff)

lemma load_after_save:
  assumes "toml_roundtrip env p" "check_against env dir {} (policy_keys p) = Inr ()"
  shows "policy_load env (policy_save env p dir) = Inr p"
proof -
  have "check_against env (policy_save env p dir) {} (policy_keys p) = Inr ()"
    using assms(2) unfolding check_against_ok by (simp add: policy_save_def read_text_def)
  with assms(1) show ?thesis
    by (simp add: policy_load_def policy_save_def read_text_def toml_roundtrip_def)
qed

lemma check_against_added:
  assumes "policy_load env dir = Inr p" "dir (pub_name (key_id env k)) = None" "pem_roundtrip env"
  shows "check_against env (dir(pub_name (key_id env k) \<mapsto> public_to_pem env k)) {}
    (policy_keys (add_entry_to p (key_id env k) name)) = Inr ()"
proof -
  let ?dir = "dir(pub_name (key_id env k) \<mapsto> public_to_pem env k)"
  have old: "check_against env ?dir {} (policy_keys p) = Inr ()"
    by (rule check_against_more [OF policy_load_checked]) (use assms in auto)
  have "policy_entry p (key_id env k) = None"
    using policy_entry_file [OF assms(1)] assms(2) by fastforce
  then have "key_id env k \<notin> entry_id ` set (policy_keys p)"
    by (auto simp: policy_entry_def find_None_iff)
  with old assms(3) show ?thesis
    unfolding check_against_ok
    by (auto simp: add_entry_to_def new_entry_def key_id_wf read_text_def pem_roundtrip_def)
qed

text \<open>
  A generated key can be used. When \<open>generate\<close> succeeds, the policy gains exactly one
  trusted entry, for the identifier it returns; asking for that identifier selects the secret
  that was generated; a private key file that was there is untouched; and every key that was
  listed keeps its status.
\<close>

theorem generate_usable:
  assumes "pem_roundtrip env" "policy_load env (trust_files ks) = Inr p"
    and "toml_roundtrip env (add_entry_to p i name)"
    and "generate env secret name ks = (Inr i, ks')"
  shows "policy_load env (trust_files ks') = Inr (add_entry_to p i name) \<and> policy_entry p i = None \<and>
    select_signing_key env listing ks' (Some i) = Inr (Some secret) \<and>
    (\<forall>f. keys_files ks f \<noteq> None \<longrightarrow> keys_files ks' f = keys_files ks f) \<and>
    (\<forall>j e. policy_entry p j = Some e \<longrightarrow> policy_entry (add_entry_to p i name) j = Some e)"
proof -
  let ?pk = "public_of (ke_ed env) secret"
  let ?dir = "(trust_files ks)(pub_name i \<mapsto> public_to_pem env ?pk)"
  have i: "i = key_id env ?pk" and fresh: "keys_files ks (key_name i) = None" "trust_files ks (pub_name i) = None"
    using assms(4) by (auto simp: generate_def Let_def split: if_splits sum.splits)
  have "policy_load env ?dir = Inr p"
  proof (cases "policy_load env ?dir")
    case (Inl e)
    then show ?thesis using assms(4) fresh i by (simp add: generate_def Let_def)
  next
    case (Inr r)
    then show ?thesis using policy_load_dir [OF _ fresh(2) assms(2)] by blast
  qed
  then have ks': "ks' = ks\<lparr>keys_files := (keys_files ks)(key_name i \<mapsto> private_to_pem env secret),
      trust_files := policy_save env (add_entry_to p i name) ?dir\<rparr>"
    using assms(4) fresh i by (simp add: generate_def Let_def)
  have none: "policy_entry p i = None" using policy_entry_file [OF assms(2)] fresh(2) by fastforce
  have load: "policy_load env (trust_files ks') = Inr (add_entry_to p i name)"
    using load_after_save [OF assms(3)] check_against_added [OF assms(2) _ assms(1)] fresh(2)
    unfolding ks' i by simp
  have "is_trusted (add_entry_to p i name) i"
    using none by (simp add: is_trusted_def policy_entry_append new_entry_def)
  then have "authorize_signing env ks' i = Inr ()" using load by (auto simp: authorize_signing_ok)
  moreover have "load_private_pem env ks' (key_name i) = Inr secret"
    using assms(1) by (simp add: load_private_pem_def read_text_def ks' pem_roundtrip_def)
  moreover have "keys_files ks' (key_name i) \<noteq> None" by (simp add: ks')
  ultimately have "select_signing_key env listing ks' (Some i) = Inr (Some secret)"
    by (simp add: select_signing_key_def)
  with load none fresh(1) show ?thesis by (auto simp: ks' policy_entry_append)
qed

definition hex_codec :: "bytes \<Rightarrow> digest option" where
  "hex_codec s = (case hex_decode s of Some b \<Rightarrow> digest_try_from b | None \<Rightarrow> None)"

definition example_generated :: trust_policy where
  "example_generated = add_entry_to policy_default (entry_id example_trusted) ''me''"

definition example_gen_env :: key_env where
  "example_gen_env = example_key_env\<lparr>
     public_to_pem := (\<lambda>k. hex_encode (digest_bytes k)), public_of_pem := hex_codec,
     private_to_pem := (\<lambda>k. hex_encode (digest_bytes k)), private_of_pem := hex_codec,
     policy_to_toml := (\<lambda>_. ''1''), policy_of_toml := (\<lambda>_. Some example_generated)\<rparr>"

lemma hex_is_utf8: "is_utf8 (hex_encode bs)"
proof -
  have "is_utf8 s" if "\<forall>c\<in>set s. (of_char c :: nat) < 0x80" for s
    using that by (induction s) simp_all
  then show ?thesis
    using hex_encode_digits [of _ bs] by (fastforce simp: is_hex_digit_def)
qed

lemma example_pem: "pem_roundtrip example_gen_env"
  by (simp add: pem_roundtrip_def example_gen_env_def hex_codec_def hex_is_utf8)

theorem generate_usable_witness:
  "select_signing_key example_gen_env []
     (snd (generate example_gen_env (digest_of ''t'') ''me'' \<lparr>trust_files = Map.empty, keys_files = Map.empty, tsa_files = Map.empty\<rparr>))
     (Some (entry_id example_trusted)) = Inr (Some (digest_of ''t''))"
proof -
  let ?ks = "\<lparr>trust_files = Map.empty, keys_files = Map.empty, tsa_files = Map.empty\<rparr> :: key_store"
  have i: "key_id example_gen_env (public_of (ke_ed example_gen_env) (digest_of ''t'')) = entry_id example_trusted"
    by (simp add: key_id_def example_gen_env_def example_key_env_def example_trusted_def example_ed_def)
  have load: "policy_load example_gen_env (trust_files ?ks) = Inr policy_default" by (simp add: policy_load_def)
  have toml: "toml_roundtrip example_gen_env (add_entry_to policy_default (entry_id example_trusted) ''me'')"
    by (simp add: toml_roundtrip_def example_gen_env_def example_generated_def)
  have "generate example_gen_env (digest_of ''t'') ''me'' ?ks =
      (Inr (entry_id example_trusted), snd (generate example_gen_env (digest_of ''t'') ''me'' ?ks))"
    by (simp add: generate_def i Let_def policy_load_def)
  from generate_usable [OF example_pem load toml this] show ?thesis by blast
qed

end
