(* ===== verification/Trust.thy ===== *)
theory Trust
  imports Keys
begin

text \<open>
  Trust bundles, from \<open>src/trust.rs\<close>: the trust store in a signed form that can be handed to
  someone else, how it is produced, how a recipient judges it, and what importing it does to
  the recipient's own store.

  Parameters beyond those of the key store: the JSON codecs of a bundle (compact for the
  signed bytes, pretty for the file). Serialisation is total. Times are integers, in
  nanoseconds since 1970, and do not overflow when a validity period is added; \<open>min_utc\<close> is
  the earliest one. The explanatory sentence of a check is left out.
\<close>

section \<open>Data\<close>

definition BUNDLE_SCHEMA_VERSION :: u32 where "BUNDLE_SCHEMA_VERSION = 1"

record issuer =
  issuer_key_id :: bytes
  issuer_public_key :: bytes

record bundled_key =
  bk_id :: bytes
  bk_name :: bytes
  bk_public_key :: bytes
  bk_status :: key_status
  bk_revoked_at :: "int option"

record trust_bundle =
  b_schema_version :: u32
  b_issuer :: issuer
  b_issued_at :: int
  b_valid_until :: int
  b_sequence :: u64
  b_keys :: "bundled_key list"
  b_successor :: "issuer option"
  b_signature :: "bytes option"

record trust_env =
  te_keys :: key_env
  bundle_json :: "trust_bundle \<Rightarrow> bytes"
  bundle_pretty :: "trust_bundle \<Rightarrow> bytes"
  bundle_of_json :: "bytes \<Rightarrow> trust_bundle option"
  min_utc :: int

definition bundle_signing_bytes :: "trust_env \<Rightarrow> trust_bundle \<Rightarrow> bytes" where
  "bundle_signing_bytes env b =
     bundle_json env (b\<lparr>b_signature := None, b_keys := sort_key bk_id (b_keys b)\<rparr>)"

datatype trust_error =
    KeyError key_error
  | NoSigningKey | NoPublicKeyFile bytes bytes | RevokedWithoutDate bytes bytes | NoKeys
  | IssuerRevoked bytes | IssuerNotListed bytes
  | OwnSuccessor | SuccessorRevoked bytes | SuccessorNotListed bytes
  | ClockRange | ClockBefore1970
  | BundleUnreadable | BundleTooLarge nat | NotABundle
  | RefusedBundle "bytes list"
  | IssuerLocallyRevoked bytes | UnexpectedIssuer bytes bytes | UnknownIssuer bytes
  | OlderSequence u64 bytes u64 | SameSequence u64 bytes
  | PublicKeyHex | PublicKeyLength | PublicKeyBytes

section \<open>Producing a bundle\<close>

fun bundle_entries ::
  "(bytes \<rightharpoonup> bytes) \<Rightarrow> trust_entry list \<Rightarrow> (trust_error, bundled_key list) result" where
  "bundle_entries public_keys [] = Inr []"
| "bundle_entries public_keys (entry # es) =
     and_then (ok_or (public_keys (entry_id entry)) (NoPublicKeyFile (entry_name entry) (entry_id entry))) (\<lambda>key_hex.
     ensure (\<not> (entry_status entry = Revoked \<and> revoked_at entry = None))
       (RevokedWithoutDate (entry_id entry) (entry_name entry)) (
     and_then (bundle_entries public_keys es) (\<lambda>ks.
     Inr (\<lparr>bk_id = entry_id entry, bk_name = entry_name entry, bk_public_key = key_hex,
           bk_status = entry_status entry, bk_revoked_at = revoked_at entry\<rparr> # ks))))"

definition find_key :: "bundled_key list \<Rightarrow> bytes \<Rightarrow> bundled_key option" where
  "find_key ks i = find (\<lambda>k. bk_id k = i) ks"

definition choose_successor ::
  "bytes \<Rightarrow> bundled_key list \<Rightarrow> bytes option \<Rightarrow> (trust_error, issuer option) result" where
  "choose_successor issuer_id ks successor =
     (case successor of
        None \<Rightarrow> Inr None
      | Some i \<Rightarrow>
          if i = issuer_id then Inl OwnSuccessor
          else (case find_key ks i of
                  Some k \<Rightarrow>
                    if bk_status k = Trusted
                    then Inr (Some \<lparr>issuer_key_id = bk_id k, issuer_public_key = bk_public_key k\<rparr>)
                    else Inl (SuccessorRevoked i)
                | None \<Rightarrow> Inl (SuccessorNotListed i)))"

text \<open>\<open>timestamp_nanos_opt\<close> followed by the conversion to \<open>u64\<close>.\<close>

definition sequence_of :: "int \<Rightarrow> (trust_error, u64) result" where
  "sequence_of now =
     ensure (- (2 ^ 63) \<le> now \<and> now < 2 ^ 63) ClockRange (
     ensure (0 \<le> now) ClockBefore1970 (Inr (word_of_int now)))"

text \<open>\<open>key_listing\<close> and \<open>pub_listing\<close> are the orders in which the two directories are read.\<close>

definition produce ::
  "trust_env \<Rightarrow> bytes list \<Rightarrow> bytes list \<Rightarrow> key_store \<Rightarrow> bytes option \<Rightarrow> int \<Rightarrow> bytes option \<Rightarrow> int
    \<Rightarrow> (trust_error, trust_bundle) result" where
  "produce env key_listing pub_listing ks requested valid_for successor now =
     (let ke = te_keys env; ed = ke_ed ke in
      and_then (map_err KeyError (select_signing_key ke key_listing ks requested)) (\<lambda>selected.
      and_then (ok_or selected NoSigningKey) (\<lambda>sk.
      let issuer_key = public_of ed sk;
          iss = \<lparr>issuer_key_id = key_id ke issuer_key, issuer_public_key = hex_encode (digest_bytes issuer_key)\<rparr> in
      and_then (map_err KeyError (policy_load ke (trust_files ks))) (\<lambda>policy.
      and_then (map_err KeyError (trust_dir_public_keys ke (trust_files ks) pub_listing)) (\<lambda>public_keys.
      and_then (bundle_entries public_keys (policy_keys policy)) (\<lambda>bks.
      ensure (bks \<noteq> []) NoKeys (
      and_then (case find_key bks (issuer_key_id iss) of
                  Some k \<Rightarrow> if bk_status k = Trusted then Inr () else Inl (IssuerRevoked (issuer_key_id iss))
                | None \<Rightarrow> Inl (IssuerNotListed (issuer_key_id iss))) (\<lambda>_.
      and_then (choose_successor (issuer_key_id iss) bks successor) (\<lambda>succ.
      and_then (sequence_of now) (\<lambda>seq.
      let bundle = \<lparr>b_schema_version = BUNDLE_SCHEMA_VERSION, b_issuer = iss, b_issued_at = now,
            b_valid_until = now + valid_for, b_sequence = seq, b_keys = sort_key bk_id bks,
            b_successor = succ, b_signature = None\<rparr>
      in Inr (bundle\<lparr>b_signature := Some (hex_encode (ed_sign ed sk (bundle_signing_bytes env bundle)))\<rparr>)))))))))))"

section \<open>Reading and judging a bundle\<close>

definition BUNDLE_LIMIT :: nat where "BUNDLE_LIMIT = 1024 * 1024"

definition bundle_write :: "trust_env \<Rightarrow> trust_bundle \<Rightarrow> bytes" where
  "bundle_write env b = bundle_pretty env b @ [CHR 0x0A]"

definition bundle_read :: "trust_env \<Rightarrow> bytes option \<Rightarrow> (trust_error, trust_bundle) result" where
  "bundle_read env file =
     and_then (ok_or file BundleUnreadable) (\<lambda>bs.
     ensure (length bs \<le> BUNDLE_LIMIT) (BundleTooLarge (length bs)) (
     ok_or (bundle_of_json env bs) NotABundle))"

record bundle_check =
  bc_name :: bytes
  bc_passed :: bool

definition bcheck :: "bytes \<Rightarrow> bool \<Rightarrow> bundle_check" where
  "bcheck name passed = \<lparr>bc_name = name, bc_passed = passed\<rparr>"

text \<open>The loop of \<open>keys_check\<close>: every key has the identifier its public key derives to, no
  identifier is listed twice, and a revoked key says when.\<close>

fun keys_loop :: "key_env \<Rightarrow> bytes set \<Rightarrow> bundled_key list \<Rightarrow> bool" where
  "keys_loop ke seen [] = True"
| "keys_loop ke seen (key # ks) =
     (case key_id_from_hex ke (bk_public_key key) of
        Inl _ \<Rightarrow> False
      | Inr derived \<Rightarrow>
          if derived \<noteq> bk_id key then False
          else if bk_id key \<in> seen then False
          else if bk_status key = Revoked \<and> bk_revoked_at key = None then False
          else keys_loop ke (insert (bk_id key) seen) ks)"

definition keys_check :: "key_env \<Rightarrow> trust_bundle \<Rightarrow> bundle_check" where
  "keys_check ke b =
     (if b_keys b = [] then bcheck ''keys'' False
      else if \<not> keys_loop ke {} (b_keys b) then bcheck ''keys'' False
      else (case find_key (b_keys b) (issuer_key_id (b_issuer b)) of
              Some k \<Rightarrow> bcheck ''keys'' (bk_status k = Trusted)
            | None \<Rightarrow> bcheck ''keys'' False))"

definition successor_check :: "key_env \<Rightarrow> trust_bundle \<Rightarrow> issuer \<Rightarrow> bundle_check" where
  "successor_check ke b succ =
     (if issuer_key_id succ = issuer_key_id (b_issuer b) then bcheck ''successor'' False
      else (case key_id_from_hex ke (issuer_public_key succ) of
              Inl _ \<Rightarrow> bcheck ''successor'' False
            | Inr derived \<Rightarrow>
                if derived \<noteq> issuer_key_id succ then bcheck ''successor'' False
                else (case find_key (b_keys b) (issuer_key_id succ) of
                        Some k \<Rightarrow> bcheck ''successor''
                          (bk_status k = Trusted \<and> bk_public_key k = issuer_public_key succ)
                      | None \<Rightarrow> bcheck ''successor'' False)))"

definition issuer_check :: "key_env \<Rightarrow> trust_bundle \<Rightarrow> bundle_check \<times> digest option" where
  "issuer_check ke b =
     (case key_id_from_hex ke (issuer_public_key (b_issuer b)) of
        Inl _ \<Rightarrow> (bcheck ''issuer'' False, None)
      | Inr derived \<Rightarrow>
          if derived = issuer_key_id (b_issuer b)
          then (bcheck ''issuer'' True,
            (case hex_decode (issuer_public_key (b_issuer b)) of
               None \<Rightarrow> None
             | Some bs \<Rightarrow>
                 (case digest_try_from bs of
                    None \<Rightarrow> None
                  | Some key \<Rightarrow> if key_valid (ke_ed ke) key then Some key else None)))
          else (bcheck ''issuer'' False, None))"

definition bundle_signature_check :: "trust_env \<Rightarrow> trust_bundle \<Rightarrow> digest option \<Rightarrow> bundle_check" where
  "bundle_signature_check env b issuer_key =
     (case (b_signature b, issuer_key) of
        (None, _) \<Rightarrow> bcheck ''signature'' False
      | (Some _, None) \<Rightarrow> bcheck ''signature'' False
      | (Some signature_hex, Some key) \<Rightarrow>
          (case hex_decode signature_hex of
             None \<Rightarrow> bcheck ''signature'' False
           | Some sig \<Rightarrow>
               bcheck ''signature'' (length sig = 64 \<and>
                 ed_verify (ke_ed (te_keys env)) key (bundle_signing_bytes env b) sig)))"

definition validity_check :: "trust_bundle \<Rightarrow> int \<Rightarrow> bundle_check" where
  "validity_check b now =
     (if b_valid_until b < b_issued_at b then bcheck ''validity'' False
      else if now < b_issued_at b then bcheck ''validity'' False
      else if now > b_valid_until b then bcheck ''validity'' False
      else bcheck ''validity'' True)"

definition examine :: "trust_env \<Rightarrow> trust_bundle \<Rightarrow> int \<Rightarrow> bundle_check list" where
  "examine env b now =
     (let ke = te_keys env; (iss, issuer_key) = issuer_check ke b in
      [bcheck ''schema'' (b_schema_version b = BUNDLE_SCHEMA_VERSION), iss,
       bundle_signature_check env b issuer_key, keys_check ke b] @
      (case b_successor b of None \<Rightarrow> [] | Some succ \<Rightarrow> [successor_check ke b succ]) @
      [validity_check b now])"

definition bundle_verdict :: "trust_env \<Rightarrow> trust_bundle \<Rightarrow> int \<Rightarrow> bytes" where
  "bundle_verdict env b now = (if list_all bc_passed (examine env b now) then ''pass'' else ''fail'')"

section \<open>Importing a bundle\<close>

text \<open>The trust directory: its files and those of its subdirectory \<open>bundles\<close>, where the last
  accepted bundle of each issuer is kept.\<close>

record trust_dir =
  dir_files :: "bytes \<rightharpoonup> bytes"
  dir_bundles :: "bytes \<rightharpoonup> bytes"

definition accepted_name :: "bytes \<Rightarrow> bytes" where
  "accepted_name issuer_id = issuer_id @ ''.json''"

definition accepted_bundle ::
  "trust_env \<Rightarrow> trust_dir \<Rightarrow> bytes \<Rightarrow> (trust_error, trust_bundle option) result" where
  "accepted_bundle env d issuer_id =
     (if dir_bundles d (accepted_name issuer_id) = None then Inr None
      else and_then (bundle_read env (dir_bundles d (accepted_name issuer_id))) (\<lambda>b. Inr (Some b)))"

definition is_json_file :: "bytes \<Rightarrow> bool" where
  "is_json_file name \<longleftrightarrow> ends_with name ''.json'' \<and> name \<noteq> ''.json''"

fun accepted_bundles ::
  "trust_env \<Rightarrow> trust_dir \<Rightarrow> bytes list \<Rightarrow> (trust_error, trust_bundle list) result" where
  "accepted_bundles env d [] = Inr []"
| "accepted_bundles env d (name # listing) =
     (if is_json_file name
      then and_then (bundle_read env (dir_bundles d name)) (\<lambda>b.
           and_then (accepted_bundles env d listing) (\<lambda>bs. Inr (b # bs)))
      else accepted_bundles env d listing)"

text \<open>\<open>Iterator::max_by_key\<close>: the last of the elements with the greatest key.\<close>

fun max_by_key :: "('a \<Rightarrow> 'b::linorder) \<Rightarrow> 'a list \<Rightarrow> 'a option" where
  "max_by_key f [] = None"
| "max_by_key f (x # xs) =
     (case max_by_key f xs of None \<Rightarrow> Some x | Some y \<Rightarrow> if f y < f x then Some x else Some y)"

definition latest_accepted ::
  "trust_env \<Rightarrow> trust_dir \<Rightarrow> bytes list \<Rightarrow> (trust_error, trust_bundle option) result" where
  "latest_accepted env d listing =
     and_then (accepted_bundles env d listing) (\<lambda>bs. Inr (max_by_key b_sequence bs))"

record import_report =
  ir_issuer :: bytes
  ir_sequence :: u64
  ir_valid_until :: "int option"
  ir_added :: "(bytes \<times> bytes \<times> key_status) list"
  ir_revoked :: "(bytes \<times> bytes \<times> int) list"
  ir_kept_revoked :: "(bytes \<times> bytes) list"
  ir_moved_earlier :: "(bytes \<times> bytes \<times> int) list"
  ir_unchanged :: nat
  ir_already_current :: bool
  ir_handover_from :: "(bytes \<times> u64) option"

text \<open>The grounds on which a bundle that holds together is admitted: what was accepted from its
  issuer before, and the handover it rests on.\<close>

definition names_successor :: "trust_bundle \<Rightarrow> issuer \<Rightarrow> bool" where
  "names_successor accepted iss =
     (case b_successor accepted of
        None \<Rightarrow> False
      | Some s \<Rightarrow> issuer_key_id s = issuer_key_id iss \<and> issuer_public_key s = issuer_public_key iss)"

definition admit ::
  "trust_env \<Rightarrow> bytes list \<Rightarrow> trust_dir \<Rightarrow> trust_bundle \<Rightarrow> bytes option
    \<Rightarrow> (trust_error, trust_bundle option \<times> (bytes \<times> u64) option) result" where
  "admit env listing d bundle expected =
     (let issuer_id = issuer_key_id (b_issuer bundle) in
      and_then (map_err KeyError (policy_load (te_keys env) (dir_files d))) (\<lambda>local_policy.
      ensure (\<not> (case policy_entry local_policy issuer_id of
                    Some entry \<Rightarrow> entry_status entry = Revoked | None \<Rightarrow> False))
        (IssuerLocallyRevoked issuer_id) (
      ensure (case expected of Some e \<Rightarrow> e = issuer_id | None \<Rightarrow> True)
        (UnexpectedIssuer issuer_id (case expected of Some e \<Rightarrow> e | None \<Rightarrow> [])) (
      and_then (accepted_bundle env d issuer_id) (\<lambda>previous.
      (case previous of
         None \<Rightarrow>
           if expected = None
           then and_then (accepted_bundles env d listing) (\<lambda>accepted.
                (case find (\<lambda>a. names_successor a (b_issuer bundle)) accepted of
                   Some pred \<Rightarrow> Inr (None, Some (issuer_key_id (b_issuer pred), b_sequence pred))
                 | None \<Rightarrow> Inl (UnknownIssuer issuer_id)))
           else Inr (None, None)
       | Some prev \<Rightarrow>
           ensure (\<not> b_sequence bundle < b_sequence prev)
             (OlderSequence (b_sequence bundle) issuer_id (b_sequence prev)) (
           ensure (\<not> (b_sequence bundle = b_sequence prev \<and> b_signature bundle \<noteq> b_signature prev))
             (SameSequence (b_sequence bundle) issuer_id) (
           Inr (Some prev, None)))))))))"

text \<open>The public key files are written first; an error leaves those written so far.\<close>

fun write_pubs ::
  "key_env \<Rightarrow> bundled_key list \<Rightarrow> (bytes \<rightharpoonup> bytes) \<Rightarrow> (trust_error, unit) result \<times> (bytes \<rightharpoonup> bytes)" where
  "write_pubs ke [] dir = (Inr (), dir)"
| "write_pubs ke (key # ks) dir =
     (if dir (pub_name (bk_id key)) \<noteq> None then write_pubs ke ks dir
      else
        (case hex_decode (bk_public_key key) of
           None \<Rightarrow> (Inl PublicKeyHex, dir)
         | Some bs \<Rightarrow>
             (case digest_try_from bs of
                None \<Rightarrow> (Inl PublicKeyLength, dir)
              | Some k \<Rightarrow>
                  if key_valid (ke_ed ke) k
                  then write_pubs ke ks (dir(pub_name (bk_id key) \<mapsto> public_to_pem ke k))
                  else (Inl PublicKeyBytes, dir))))"

fun update_first :: "bytes \<Rightarrow> (trust_entry \<Rightarrow> trust_entry) \<Rightarrow> trust_entry list \<Rightarrow> trust_entry list" where
  "update_first i f [] = []"
| "update_first i f (e # es) = (if entry_id e = i then f e # es else e # update_first i f es)"

definition or_min :: "trust_env \<Rightarrow> int option \<Rightarrow> int" where
  "or_min env t = (case t of Some at \<Rightarrow> at | None \<Rightarrow> min_utc env)"

definition dated_earlier :: "int option \<Rightarrow> int option \<Rightarrow> bool" where
  "dated_earlier new known = (case (new, known) of (Some at, Some k) \<Rightarrow> at < k | _ \<Rightarrow> False)"

definition merge_key ::
  "trust_env \<Rightarrow> bundled_key \<Rightarrow> trust_policy \<times> import_report \<Rightarrow> trust_policy \<times> import_report" where
  "merge_key env key = (\<lambda>(policy, report).
     (case policy_entry policy (bk_id key) of
        None \<Rightarrow>
          (policy\<lparr>policy_keys := policy_keys policy @ [\<lparr>entry_id = bk_id key, entry_name = bk_name key,
             entry_status = bk_status key, revoked_at = bk_revoked_at key\<rparr>]\<rparr>,
           report\<lparr>ir_added := ir_added report @ [(bk_id key, bk_name key, bk_status key)]\<rparr>)
      | Some entry \<Rightarrow>
          if entry_status entry = Trusted \<and> bk_status key = Revoked then
            (policy\<lparr>policy_keys := update_first (bk_id key)
               (\<lambda>e. e\<lparr>entry_status := Revoked, revoked_at := bk_revoked_at key\<rparr>) (policy_keys policy)\<rparr>,
             report\<lparr>ir_revoked := ir_revoked report @
               [(bk_id key, entry_name entry, or_min env (bk_revoked_at key))]\<rparr>)
          else if entry_status entry = Revoked \<and> bk_status key = Trusted then
            (policy, report\<lparr>ir_kept_revoked := ir_kept_revoked report @ [(bk_id key, entry_name entry)]\<rparr>)
          else if entry_status entry = Revoked \<and> bk_status key = Revoked \<and>
            dated_earlier (bk_revoked_at key) (revoked_at entry) then
            (policy\<lparr>policy_keys := update_first (bk_id key)
               (\<lambda>e. e\<lparr>revoked_at := bk_revoked_at key\<rparr>) (policy_keys policy)\<rparr>,
             report\<lparr>ir_moved_earlier := ir_moved_earlier report @
               [(bk_id key, entry_name entry, or_min env (bk_revoked_at key))]\<rparr>)
          else (policy, report\<lparr>ir_unchanged := ir_unchanged report + 1\<rparr>)))"

definition new_report :: "trust_bundle \<Rightarrow> (bytes \<times> u64) option \<Rightarrow> import_report" where
  "new_report bundle handover =
     \<lparr>ir_issuer = issuer_key_id (b_issuer bundle), ir_sequence = b_sequence bundle,
      ir_valid_until = Some (b_valid_until bundle), ir_added = [], ir_revoked = [], ir_kept_revoked = [],
      ir_moved_earlier = [], ir_unchanged = 0, ir_already_current = False, ir_handover_from = handover\<rparr>"

text \<open>\<open>file\<close> is the content of the bundle file, \<open>listing\<close> the order in which the directory of
  accepted bundles is read.\<close>

definition import_bundle ::
  "trust_env \<Rightarrow> bytes list \<Rightarrow> trust_dir \<Rightarrow> bytes option \<Rightarrow> bytes option \<Rightarrow> int
    \<Rightarrow> (trust_error, import_report) result \<times> trust_dir" where
  "import_bundle env listing d file expected now =
     (case and_then (bundle_read env file) (\<lambda>bundle.
           let failed = map bc_name (filter (\<lambda>c. \<not> bc_passed c) (examine env bundle now)) in
           ensure (failed = []) (RefusedBundle failed) (
           and_then (admit env listing d bundle expected) (\<lambda>(previous, handover).
           Inr (bundle, previous, handover)))) of
        Inl e \<Rightarrow> (Inl e, d)
      | Inr (bundle, previous, handover) \<Rightarrow>
          let report = new_report bundle handover in
          if (case previous of Some p \<Rightarrow> b_signature p = b_signature bundle | None \<Rightarrow> False)
          then (Inr (report\<lparr>ir_already_current := True, ir_unchanged := length (b_keys bundle)\<rparr>), d)
          else
            (case write_pubs (te_keys env) (b_keys bundle) (dir_files d) of
               (Inl e, dir) \<Rightarrow> (Inl e, d\<lparr>dir_files := dir\<rparr>)
             | (Inr _, dir) \<Rightarrow>
                 (case policy_load (te_keys env) dir of
                    Inl e \<Rightarrow> (Inl (KeyError e), d\<lparr>dir_files := dir\<rparr>)
                  | Inr policy \<Rightarrow>
                      let (policy', report') = fold (merge_key env) (b_keys bundle) (policy, report) in
                      (Inr report',
                       d\<lparr>dir_files := policy_save (te_keys env) policy' dir,
                         dir_bundles := (dir_bundles d)(accepted_name (issuer_key_id (b_issuer bundle)) \<mapsto>
                           bundle_write env bundle)\<rparr>))))"

section \<open>Judging a bundle\<close>

text \<open>The key a hexadecimal string spells, as every surface of the program reads it.\<close>

definition public_hex :: "key_env \<Rightarrow> bytes \<Rightarrow> digest option" where
  "public_hex ke s = (case hex_decode s of None \<Rightarrow> None | Some bs \<Rightarrow>
     (case digest_try_from bs of None \<Rightarrow> None | Some k \<Rightarrow> if key_valid (ke_ed ke) k then Some k else None))"

lemma key_id_from_hex_iff:
  "key_id_from_hex ke s = Inr i \<longleftrightarrow> (\<exists>k. public_hex ke s = Some k \<and> key_id ke k = i)"
  by (auto simp: key_id_from_hex_def public_hex_def result_simps split: option.splits)

lemma public_hex_encode: "key_valid (ke_ed ke) k \<Longrightarrow> public_hex ke (hex_encode (digest_bytes k)) = Some k"
  by (simp add: public_hex_def)

lemma bcheck_simps [simp]: "bc_passed (bcheck n c) = c" "bc_name (bcheck n c) = n"
  by (simp_all add: bcheck_def)

lemma keys_loop_iff:
  "keys_loop ke seen ks \<longleftrightarrow> distinct (map bk_id ks) \<and> set (map bk_id ks) \<inter> seen = {} \<and>
     (\<forall>k\<in>set ks. key_id_from_hex ke (bk_public_key k) = Inr (bk_id k) \<and>
        (bk_status k = Revoked \<longrightarrow> bk_revoked_at k \<noteq> None))"
proof (induction ks arbitrary: seen)
  case (Cons k ks)
  have "keys_loop ke seen (k # ks) \<longleftrightarrow> key_id_from_hex ke (bk_public_key k) = Inr (bk_id k) \<and>
      bk_id k \<notin> seen \<and> (bk_status k = Revoked \<longrightarrow> bk_revoked_at k \<noteq> None) \<and>
      keys_loop ke (insert (bk_id k) seen) ks"
    by (cases "key_id_from_hex ke (bk_public_key k)") auto
  then show ?case unfolding Cons.IH by auto
qed simp

definition keys_sound :: "key_env \<Rightarrow> bundled_key list \<Rightarrow> bool" where
  "keys_sound ke ks \<longleftrightarrow> distinct (map bk_id ks) \<and>
     (\<forall>k\<in>set ks. (\<exists>pk. public_hex ke (bk_public_key k) = Some pk \<and> key_id ke pk = bk_id k) \<and>
        (bk_status k = Revoked \<longrightarrow> bk_revoked_at k \<noteq> None))"

definition lists_trusted :: "bundled_key list \<Rightarrow> bytes \<Rightarrow> bytes option \<Rightarrow> bool" where
  "lists_trusted ks i pk \<longleftrightarrow> (\<exists>k\<in>set ks. bk_id k = i \<and> bk_status k = Trusted \<and>
     (case pk of None \<Rightarrow> True | Some h \<Rightarrow> bk_public_key k = h))"

lemma find_key_iff: "distinct (map bk_id ks) \<Longrightarrow> find_key ks i = Some k \<longleftrightarrow> k \<in> set ks \<and> bk_id k = i"
  unfolding find_key_def by (induction ks) (auto simp: rev_image_eqI)

lemma find_key_None: "find_key ks i = None \<longleftrightarrow> i \<notin> bk_id ` set ks"
  unfolding find_key_def by (auto simp: find_None_iff)

lemma lists_trusted_find:
  assumes "distinct (map bk_id ks)"
  shows "lists_trusted ks i pk \<longleftrightarrow> (case find_key ks i of
     Some k \<Rightarrow> bk_status k = Trusted \<and> (case pk of None \<Rightarrow> True | Some h \<Rightarrow> bk_public_key k = h)
   | None \<Rightarrow> False)"
proof (cases "find_key ks i")
  case None
  then have "i \<notin> bk_id ` set ks" by (simp add: find_key_None)
  with None show ?thesis by (auto simp: lists_trusted_def)
next
  case (Some k)
  then have "k \<in> set ks" "bk_id k = i" using find_key_iff [OF assms] by auto
  moreover have "k' = k" if "k' \<in> set ks" "bk_id k' = i" for k'
    using that Some find_key_iff [OF assms, of i k'] by simp
  ultimately have "(\<exists>k'\<in>set ks. bk_id k' = i \<and> P k') \<longleftrightarrow> P k" for P by blast
  then show ?thesis using Some by (simp add: lists_trusted_def)
qed

lemma keys_check_iff:
  "bc_passed (keys_check ke b) \<longleftrightarrow> keys_sound ke (b_keys b) \<and>
     lists_trusted (b_keys b) (issuer_key_id (b_issuer b)) None"
proof (cases "keys_loop ke {} (b_keys b)")
  case True
  then have "distinct (map bk_id (b_keys b))" "keys_sound ke (b_keys b)"
    by (auto simp: keys_loop_iff keys_sound_def key_id_from_hex_iff)
  then show ?thesis
    using True by (auto simp: keys_check_def lists_trusted_find find_key_def split: option.splits)
next
  case False
  then show ?thesis
    by (auto simp: keys_check_def keys_loop_iff keys_sound_def key_id_from_hex_iff)
qed

lemma successor_check_iff:
  assumes "distinct (map bk_id (b_keys b))"
  shows "bc_passed (successor_check ke b s) \<longleftrightarrow> issuer_key_id s \<noteq> issuer_key_id (b_issuer b) \<and>
     key_id_from_hex ke (issuer_public_key s) = Inr (issuer_key_id s) \<and>
     lists_trusted (b_keys b) (issuer_key_id s) (Some (issuer_public_key s))"
  by (auto simp: successor_check_def lists_trusted_find [OF assms] split: option.splits sum.splits)

text \<open>What a bundle that passes amounts to.\<close>

definition bundle_holds :: "trust_env \<Rightarrow> trust_bundle \<Rightarrow> int \<Rightarrow> bool" where
  "bundle_holds env b now \<longleftrightarrow>
     b_schema_version b = BUNDLE_SCHEMA_VERSION \<and>
     (\<exists>key s sig. public_hex (te_keys env) (issuer_public_key (b_issuer b)) = Some key \<and>
        key_id (te_keys env) key = issuer_key_id (b_issuer b) \<and>
        b_signature b = Some s \<and> hex_decode s = Some sig \<and> length sig = 64 \<and>
        ed_verify (ke_ed (te_keys env)) key (bundle_signing_bytes env b) sig) \<and>
     keys_sound (te_keys env) (b_keys b) \<and>
     lists_trusted (b_keys b) (issuer_key_id (b_issuer b)) None \<and>
     (\<forall>s. b_successor b = Some s \<longrightarrow> issuer_key_id s \<noteq> issuer_key_id (b_issuer b) \<and>
        key_id_from_hex (te_keys env) (issuer_public_key s) = Inr (issuer_key_id s) \<and>
        lists_trusted (b_keys b) (issuer_key_id s) (Some (issuer_public_key s))) \<and>
     b_issued_at b \<le> now \<and> now \<le> b_valid_until b"

lemma issuer_signature_iff:
  "bc_passed (fst (issuer_check (te_keys env) b)) \<and>
     bc_passed (bundle_signature_check env b (snd (issuer_check (te_keys env) b))) \<longleftrightarrow>
   (\<exists>key s sig. public_hex (te_keys env) (issuer_public_key (b_issuer b)) = Some key \<and>
        key_id (te_keys env) key = issuer_key_id (b_issuer b) \<and>
        b_signature b = Some s \<and> hex_decode s = Some sig \<and> length sig = 64 \<and>
        ed_verify (ke_ed (te_keys env)) key (bundle_signing_bytes env b) sig)"
proof (cases "key_id_from_hex (te_keys env) (issuer_public_key (b_issuer b))")
  case (Inl e)
  then show ?thesis
    using key_id_from_hex_iff [of "te_keys env" "issuer_public_key (b_issuer b)"]
    by (auto simp: issuer_check_def)
next
  case (Inr i)
  then obtain key where key: "public_hex (te_keys env) (issuer_public_key (b_issuer b)) = Some key"
      "key_id (te_keys env) key = i"
    by (auto simp: key_id_from_hex_iff)
  have check: "issuer_check (te_keys env) b =
      (if i = issuer_key_id (b_issuer b) then (bcheck ''issuer'' True, Some key) else (bcheck ''issuer'' False, None))"
    using Inr key(1) by (simp add: issuer_check_def public_hex_def)
  show ?thesis
    unfolding check
    by (cases "b_signature b"; cases "hex_decode (the (b_signature b))")
       (auto simp: key bundle_signature_check_def)
qed

lemma verdict_iff:
  "bundle_verdict env b now = ''pass'' \<longleftrightarrow> bundle_holds env b now"
proof -
  have "list_all bc_passed (examine env b now) \<longleftrightarrow>
      b_schema_version b = BUNDLE_SCHEMA_VERSION \<and>
      (bc_passed (fst (issuer_check (te_keys env) b)) \<and>
       bc_passed (bundle_signature_check env b (snd (issuer_check (te_keys env) b)))) \<and>
      bc_passed (keys_check (te_keys env) b) \<and>
      (\<forall>s. b_successor b = Some s \<longrightarrow> bc_passed (successor_check (te_keys env) b s)) \<and>
      b_issued_at b \<le> now \<and> now \<le> b_valid_until b"
    by (cases "b_successor b") (auto simp: examine_def Let_def validity_check_def split: prod.splits)
  also have "\<dots> \<longleftrightarrow> bundle_holds env b now"
    unfolding bundle_holds_def issuer_signature_iff keys_check_iff
    using successor_check_iff [of b] keys_sound_def by blast
  finally show ?thesis by (simp add: bundle_verdict_def)
qed

text \<open>
  A bundle passes every check exactly when it is of the known schema, its issuer's
  identifier is the one its public key derives to, its signature verifies under that key over
  exactly its contents, every key it lists has the identifier of its public key, none twice,
  every revoked one with a date, the issuer itself is listed as trusted, a successor is another
  key listed as trusted with that same public key, and the moment is inside the window.
\<close>

theorem examine_correct:
  "bundle_verdict env b now = ''pass'' \<longleftrightarrow> bundle_holds env b now"
  by (rule verdict_iff)

text \<open>
  The signed bytes determine the bundle: two bundles with the same signed bytes say the same
  about the issuer, the window, the sequence and the successor, and list the same keys with the
  same statements, in whatever order and under whatever signature; and conversely the order
  of the keys and the signature do not change the signed bytes. The JSON encoding is assumed
  to be injective on the two bundles.
\<close>

theorem bundle_signing_bytes_binding:
  assumes "inj_on (bundle_json env) {b\<lparr>b_signature := None, b_keys := sort_key bk_id (b_keys b)\<rparr>,
      b'\<lparr>b_signature := None, b_keys := sort_key bk_id (b_keys b')\<rparr>}"
    and "distinct (map bk_id (b_keys b))"
  shows "bundle_signing_bytes env b = bundle_signing_bytes env b' \<longleftrightarrow>
    b\<lparr>b_signature := None, b_keys := []\<rparr> = b'\<lparr>b_signature := None, b_keys := []\<rparr> \<and>
    mset (b_keys b) = mset (b_keys b')"
proof -
  have "bundle_signing_bytes env b = bundle_signing_bytes env b' \<longleftrightarrow>
      b\<lparr>b_signature := None, b_keys := sort_key bk_id (b_keys b)\<rparr> =
      b'\<lparr>b_signature := None, b_keys := sort_key bk_id (b_keys b')\<rparr>"
    using assms(1) by (auto simp: bundle_signing_bytes_def inj_on_eq_iff)
  also have "\<dots> \<longleftrightarrow> b\<lparr>b_signature := None, b_keys := []\<rparr> = b'\<lparr>b_signature := None, b_keys := []\<rparr> \<and>
      sort_key bk_id (b_keys b) = sort_key bk_id (b_keys b')"
    by (cases b, cases b') auto
  also have "sort_key bk_id (b_keys b) = sort_key bk_id (b_keys b') \<longleftrightarrow> mset (b_keys b) = mset (b_keys b')"
  proof
    assume "sort_key bk_id (b_keys b) = sort_key bk_id (b_keys b')"
    then show "mset (b_keys b) = mset (b_keys b')" by (metis mset_sort)
  next
    assume eq: "mset (b_keys b) = mset (b_keys b')"
    have "inj_on bk_id (set (b_keys b))" using assms(2) by (simp add: distinct_map)
    then have "sort_key bk_id (b_keys b) = sort_key bk_id (b_keys b')"
      by (intro sort_key_inj_key_eq) (auto simp: eq)
    then show "sort_key bk_id (b_keys b) = sort_key bk_id (b_keys b')" .
  qed
  finally show ?thesis .
qed

definition example_bundle :: trust_bundle where
  "example_bundle = \<lparr>b_schema_version = 1,
     b_issuer = \<lparr>issuer_key_id = entry_id example_trusted, issuer_public_key = hex_encode (digest_bytes (digest_of ''t''))\<rparr>,
     b_issued_at = 0, b_valid_until = 10, b_sequence = 0,
     b_keys = [\<lparr>bk_id = entry_id example_trusted, bk_name = ''me'',
        bk_public_key = hex_encode (digest_bytes (digest_of ''t'')), bk_status = Trusted, bk_revoked_at = None\<rparr>],
     b_successor = None, b_signature = None\<rparr>"

definition example_signed :: trust_bundle where
  "example_signed = example_bundle\<lparr>b_signature :=
     Some (hex_encode (ed_sign example_ed (digest_of ''t'') ''b''))\<rparr>"

definition example_trust_env :: trust_env where
  "example_trust_env = \<lparr>te_keys = example_gen_env,
     bundle_json = (\<lambda>b. if b_sequence b = 0 then ''b'' else ''c''),
     bundle_pretty = (\<lambda>_. ''b''), bundle_of_json = (\<lambda>s. if s = ''b'' @ [CHR 0x0A] then Some example_signed else None),
     min_utc = - 1000\<rparr>"

theorem bundle_signing_bytes_binding_witness:
  "bundle_signing_bytes example_trust_env example_bundle \<noteq>
   bundle_signing_bytes example_trust_env (example_bundle\<lparr>b_sequence := 1\<rparr>)"
proof -
  let ?b = "example_bundle\<lparr>b_sequence := 1\<rparr>"
  have inj: "inj_on (bundle_json example_trust_env)
      {example_bundle\<lparr>b_signature := None, b_keys := sort_key bk_id (b_keys example_bundle)\<rparr>,
       ?b\<lparr>b_signature := None, b_keys := sort_key bk_id (b_keys ?b)\<rparr>}"
    by (simp add: inj_on_def example_trust_env_def example_bundle_def)
  have "distinct (map bk_id (b_keys example_bundle))" by (simp add: example_bundle_def)
  from bundle_signing_bytes_binding [OF inj this] show ?thesis by (simp add: example_bundle_def)
qed

section \<open>Producing a bundle\<close>

text \<open>What a verifier relies on of the PEM reader: it only returns keys of the curve.\<close>

definition pem_valid :: "key_env \<Rightarrow> bool" where
  "pem_valid ke \<longleftrightarrow> (\<forall>pem k. public_of_pem ke pem = Some k \<longrightarrow> key_valid (ke_ed ke) k)"

lemma trust_dir_public_keys_sound:
  assumes "trust_dir_public_keys ke dir listing = Inr m" "m i = Some h" "pem_valid ke"
  shows "\<exists>k. h = hex_encode (digest_bytes k) \<and> key_valid (ke_ed ke) k \<and> key_id ke k = i"
  using assms
proof (induction listing arbitrary: m)
  case (Cons name listing)
  show ?case
  proof (cases "is_pub_file name")
    case True
    then obtain pem m' where m': "trust_dir_public_keys ke dir listing = Inr m'"
        "read_text dir name = Some pem"
      using Cons.prems(1) by (auto simp: result_simps)
    show ?thesis
    proof (cases "public_of_pem ke pem")
      case None
      then show ?thesis using True m' Cons by simp
    next
      case (Some k)
      then have "m = (if key_id ke k \<in> dom m' then m' else m'(key_id ke k \<mapsto> hex_encode (digest_bytes k)))"
        using True m' Cons.prems(1) by simp
      then show ?thesis
        using Cons.IH [OF m'(1) _ Cons.prems(3)] Cons.prems(2,3) Some
        by (auto simp: pem_valid_def split: if_splits)
    qed
  qed (use Cons in simp)
qed simp

lemma bundle_entries_ok:
  assumes "bundle_entries m es = Inr bks"
  shows "map bk_id bks = map entry_id es \<and> (\<forall>k\<in>set bks. m (bk_id k) = Some (bk_public_key k) \<and>
    (bk_status k = Revoked \<longrightarrow> bk_revoked_at k \<noteq> None))"
  using assms by (induction es arbitrary: bks) (auto simp: result_simps)

lemma bundle_entries_statements:
  "bundle_entries m es = Inr bks \<Longrightarrow>
   map (\<lambda>k. (bk_id k, bk_name k, bk_status k, bk_revoked_at k)) bks =
   map (\<lambda>e. (entry_id e, entry_name e, entry_status e, revoked_at e)) es"
  by (induction es arbitrary: bks) (auto simp: result_simps)

lemma lists_trusted_sort [simp]: "lists_trusted (sort_key f ks) i pk = lists_trusted ks i pk"
  by (simp add: lists_trusted_def)

lemma keys_sound_sort [simp]: "keys_sound ke (sort_key bk_id ks) = keys_sound ke ks"
  by (simp add: keys_sound_def distinct_map)

lemma choose_successor_ok:
  assumes "choose_successor i ks succ = Inr (Some s)" "keys_sound ke ks"
  shows "issuer_key_id s \<noteq> i \<and> key_id_from_hex ke (issuer_public_key s) = Inr (issuer_key_id s) \<and>
    lists_trusted ks (issuer_key_id s) (Some (issuer_public_key s))"
proof -
  obtain k where k: "find_key ks (the succ) = Some k" "bk_status k = Trusted" "the succ \<noteq> i"
      "s = \<lparr>issuer_key_id = bk_id k, issuer_public_key = bk_public_key k\<rparr>"
    using assms(1) by (auto simp: choose_successor_def split: option.splits if_splits)
  then have "k \<in> set ks" "bk_id k = the succ"
    using assms(2) find_key_iff by (auto simp: keys_sound_def)
  with k assms(2) show ?thesis
    by (auto simp: lists_trusted_def keys_sound_def key_id_from_hex_iff)
qed

lemma signing_bytes_signature [simp]:
  "bundle_signing_bytes env (b\<lparr>b_signature := s\<rparr>) = bundle_signing_bytes env b"
  by (simp add: bundle_signing_bytes_def)

lemma produce_parts:
  assumes "produce env kl pl ks requested valid_for successor now = Inr b"
  obtains sk policy m bks succ seq where
    "select_signing_key (te_keys env) kl ks requested = Inr (Some sk)"
    "policy_load (te_keys env) (trust_files ks) = Inr policy"
    "trust_dir_public_keys (te_keys env) (trust_files ks) pl = Inr m"
    "bundle_entries m (policy_keys policy) = Inr bks"
    "\<exists>k. find_key bks (key_id (te_keys env) (public_of (ke_ed (te_keys env)) sk)) = Some k \<and> bk_status k = Trusted"
    "choose_successor (key_id (te_keys env) (public_of (ke_ed (te_keys env)) sk)) bks successor = Inr succ"
    "sequence_of now = Inr seq"
    "b_schema_version b = BUNDLE_SCHEMA_VERSION" "b_issued_at b = now" "b_valid_until b = now + valid_for"
    "b_sequence b = seq" "b_keys b = sort_key bk_id bks" "b_successor b = succ"
    "b_issuer b = \<lparr>issuer_key_id = key_id (te_keys env) (public_of (ke_ed (te_keys env)) sk),
       issuer_public_key = hex_encode (digest_bytes (public_of (ke_ed (te_keys env)) sk))\<rparr>"
    "b_signature b = Some (hex_encode (ed_sign (ke_ed (te_keys env)) sk (bundle_signing_bytes env b)))"
proof -
  have ok: "(case x of Some k \<Rightarrow> if bk_status k = Trusted then Inr () else Inl e | None \<Rightarrow> Inl f) = Inr u \<longleftrightarrow>
      (\<exists>k. x = Some k \<and> bk_status k = Trusted)" for x and e f :: trust_error and u
    by (cases x) auto
  from assms show ?thesis
    by (auto simp: produce_def Let_def result_simps ok bundle_signing_bytes_def intro!: that)
qed

text \<open>
  What one store produces, another accepts: a bundle that \<open>produce\<close> returns passes every
  check of \<open>examine\<close> at every moment of its window; it makes exactly the statements of the
  producer's policy, key for key, and its sequence is the time it was issued, so bundles issued
  later have larger sequences.
\<close>

theorem produce_examines:
  assumes "ed_correct (ke_ed (te_keys env))" "pem_valid (te_keys env)"
    and "produce env kl pl ks requested valid_for successor now = Inr b"
    and "now \<le> t" "t \<le> now + valid_for"
  shows "bundle_verdict env b t = ''pass'' \<and> uint (b_sequence b) = now \<and>
    (\<exists>policy. policy_load (te_keys env) (trust_files ks) = Inr policy \<and>
       set (map (\<lambda>k. (bk_id k, bk_name k, bk_status k, bk_revoked_at k)) (b_keys b)) =
       set (map (\<lambda>e. (entry_id e, entry_name e, entry_status e, revoked_at e)) (policy_keys policy)))"
proof -
  from assms(3) obtain sk policy m bks succ seq where parts:
    "policy_load (te_keys env) (trust_files ks) = Inr policy"
    "trust_dir_public_keys (te_keys env) (trust_files ks) pl = Inr m"
    "bundle_entries m (policy_keys policy) = Inr bks"
    "\<exists>k. find_key bks (key_id (te_keys env) (public_of (ke_ed (te_keys env)) sk)) = Some k \<and> bk_status k = Trusted"
    "choose_successor (key_id (te_keys env) (public_of (ke_ed (te_keys env)) sk)) bks successor = Inr succ"
    "sequence_of now = Inr seq"
    and b: "b_schema_version b = BUNDLE_SCHEMA_VERSION" "b_issued_at b = now" "b_valid_until b = now + valid_for"
    "b_sequence b = seq" "b_keys b = sort_key bk_id bks" "b_successor b = succ"
    "b_issuer b = \<lparr>issuer_key_id = key_id (te_keys env) (public_of (ke_ed (te_keys env)) sk),
       issuer_public_key = hex_encode (digest_bytes (public_of (ke_ed (te_keys env)) sk))\<rparr>"
    "b_signature b = Some (hex_encode (ed_sign (ke_ed (te_keys env)) sk (bundle_signing_bytes env b)))"
    by (rule produce_parts) blast
  note entries = bundle_entries_ok [OF parts(3)]
  have "distinct (map entry_id (policy_keys policy))"
    using policy_load_checked [OF parts(1)] unfolding check_against_ok by blast
  then have dist: "distinct (map bk_id bks)" using entries by simp
  have sound: "keys_sound (te_keys env) bks"
    unfolding keys_sound_def
    using dist entries trust_dir_public_keys_sound [OF parts(2) _ assms(2)] public_hex_encode by metis
  have trusted: "lists_trusted bks (key_id (te_keys env) (public_of (ke_ed (te_keys env)) sk)) None"
    using parts(4) by (auto simp: lists_trusted_find [OF dist])
  have "bundle_holds env b t"
    unfolding bundle_holds_def b(1-3,5-7) using assms(1,4,5) sound trusted
      choose_successor_ok [OF _ sound] parts(5) b(8)
    by (auto simp: ed_correct_def public_hex_encode)
  moreover have "uint (b_sequence b) = now"
  proof -
    have "0 \<le> now" "now < 2 ^ 63" and seq: "b_sequence b = word_of_int now"
      using parts(6) b(4) by (auto simp: sequence_of_def result_simps)
    then show ?thesis by (simp add: seq uint_word_of_int)
  qed
  moreover have "set (map (\<lambda>k. (bk_id k, bk_name k, bk_status k, bk_revoked_at k)) (b_keys b)) =
      set (map (\<lambda>e. (entry_id e, entry_name e, entry_status e, revoked_at e)) (policy_keys policy))"
    unfolding bundle_entries_statements [OF parts(3), symmetric] b(5) by simp
  ultimately show ?thesis using verdict_iff parts(1) by blast
qed

definition example_trust_files :: "bytes \<rightharpoonup> bytes" where
  "example_trust_files = [''trust.toml'' \<mapsto> ''1'',
     pub_name (entry_id example_trusted) \<mapsto> hex_encode (digest_bytes (digest_of ''t''))]"

definition example_producer :: key_store where
  "example_producer = \<lparr>trust_files = example_trust_files,
     keys_files = [key_name (entry_id example_trusted) \<mapsto> hex_encode (digest_bytes (digest_of ''t''))],
     tsa_files = Map.empty\<rparr>"

lemma example_gen_codec:
  "public_of_pem example_gen_env = hex_codec" "private_of_pem example_gen_env = hex_codec"
  "public_to_pem example_gen_env = (\<lambda>k. hex_encode (digest_bytes k))"
  "policy_of_toml example_gen_env = (\<lambda>_. Some example_generated)"
  "ke_ed example_gen_env = example_ed" "public_of example_ed sk = sk" "key_valid example_ed k"
  by (simp_all add: example_gen_env_def example_key_env_def example_ed_def)

lemma example_gen_id: "key_id example_gen_env (digest_of ''t'') = entry_id example_trusted"
  by (simp add: key_id_def example_gen_env_def example_key_env_def example_trusted_def)

lemma hex_codec_encode [simp]: "hex_codec (hex_encode (digest_bytes k)) = Some k"
  by (simp add: hex_codec_def)

lemma example_gen_keys:
  "policy_keys example_generated = [new_entry (entry_id example_trusted) ''me'']"
  by (simp add: example_generated_def add_entry_to_def policy_default_def)

lemma example_gen_load: "policy_load example_gen_env example_trust_files = Inr example_generated"
proof -
  have "check_against example_gen_env example_trust_files {} (policy_keys example_generated) = Inr ()"
    unfolding check_against_ok example_gen_keys
    using key_id_wf [of example_gen_env "digest_of ''t''"]
    by (simp add: new_entry_def read_text_def example_trust_files_def hex_is_utf8 example_gen_codec example_gen_id)
  then show ?thesis
    by (simp add: policy_load_def read_text_def example_gen_codec) (simp add: example_trust_files_def)
qed

lemma example_gen_trusted: "is_trusted example_generated (entry_id example_trusted)"
  by (simp add: is_trusted_def policy_entry_def example_gen_keys new_entry_def)

lemma example_select:
  "select_signing_key example_gen_env [] example_producer (Some (entry_id example_trusted)) = Inr (Some (digest_of ''t''))"
proof -
  have "authorize_signing example_gen_env example_producer (entry_id example_trusted) = Inr ()"
    using example_gen_load example_gen_trusted by (auto simp: authorize_signing_ok example_producer_def)
  moreover have "load_private_pem example_gen_env example_producer (key_name (entry_id example_trusted))
      = Inr (digest_of ''t'')"
    by (simp add: load_private_pem_def read_text_def example_producer_def hex_is_utf8 example_gen_codec)
  ultimately show ?thesis by (simp add: select_signing_key_def) (simp add: example_producer_def)
qed

lemma example_produce:
  "produce example_trust_env [] [pub_name (entry_id example_trusted)] example_producer
     (Some (entry_id example_trusted)) 10 None 0 = Inr example_signed"
proof -
  have te: "te_keys example_trust_env = example_gen_env" by (simp add: example_trust_env_def)
  have "is_pub_file (pub_name (entry_id example_trusted))"
    using key_id_wf(1) [of example_gen_env "digest_of ''t''"] unfolding example_gen_id
    by (auto simp: is_pub_file_def pub_name_def ends_with_iff)
  then have keys: "trust_dir_public_keys example_gen_env example_trust_files [pub_name (entry_id example_trusted)]
      = Inr [entry_id example_trusted \<mapsto> hex_encode (digest_bytes (digest_of ''t''))]"
    by (simp add: read_text_def example_trust_files_def hex_is_utf8 example_gen_codec example_gen_id)
  have files: "trust_files example_producer = example_trust_files" by (simp add: example_producer_def)
  have json: "bundle_json example_trust_env b = ''b''" if "b_sequence b = 0" for b
    using that by (simp add: example_trust_env_def)
  show ?thesis
    by (simp add: produce_def te Let_def example_select example_gen_load keys files example_gen_keys new_entry_def
        example_gen_codec example_gen_id find_key_def choose_successor_def sequence_of_def
        bundle_signing_bytes_def json example_signed_def example_bundle_def BUNDLE_SCHEMA_VERSION_def
        del: trust_dir_public_keys.simps)
qed

theorem produce_examines_witness: "bundle_verdict example_trust_env example_signed 7 = ''pass''"
proof -
  have te: "te_keys example_trust_env = example_gen_env" by (simp add: example_trust_env_def)
  have "ed_correct (ke_ed (te_keys example_trust_env))"
    by (simp add: te example_gen_codec example_ed_correct)
  moreover have "pem_valid (te_keys example_trust_env)"
    by (simp add: te pem_valid_def example_gen_codec)
  ultimately show ?thesis
    using produce_examines [OF _ _ example_produce, of 7] by simp
qed

section \<open>Importing\<close>

text \<open>An entry that is at least as strict: what was revoked stays revoked, from the same moment
  or an earlier one, and a revocation without a date, which rejects every signature, stays.\<close>

definition not_weaker :: "trust_entry \<Rightarrow> trust_entry \<Rightarrow> bool" where
  "not_weaker e e' \<longleftrightarrow> entry_id e' = entry_id e \<and> entry_name e' = entry_name e \<and>
     (entry_status e = Revoked \<longrightarrow> entry_status e' = Revoked \<and>
        (case revoked_at e of None \<Rightarrow> revoked_at e' = None
         | Some t \<Rightarrow> (\<exists>t'\<le>t. revoked_at e' = Some t')))"

lemma not_weaker_refl [simp]: "not_weaker e e"
  by (auto simp: not_weaker_def split: option.splits)

lemma not_weaker_trans: "not_weaker e f \<Longrightarrow> not_weaker f g \<Longrightarrow> not_weaker e g"
  by (fastforce simp: not_weaker_def split: option.splits)

text \<open>The entry says at least what the bundle says of a key it revokes.\<close>

definition at_least_revoked :: "bundled_key \<Rightarrow> trust_entry \<Rightarrow> bool" where
  "at_least_revoked k e \<longleftrightarrow> entry_status e = Revoked \<and>
     (revoked_at e = None \<or> (\<exists>t at. revoked_at e = Some t \<and> bk_revoked_at k = Some at \<and> t \<le> at))"

lemma at_least_revoked_mono: "at_least_revoked k e \<Longrightarrow> not_weaker e e' \<Longrightarrow> at_least_revoked k e'"
  by (fastforce simp: at_least_revoked_def not_weaker_def split: option.splits)

lemma find_update_first:
  assumes "\<And>e. entry_id (f e) = entry_id e"
  shows "find (\<lambda>k. entry_id k = j) (update_first i f es) =
    (if i = j then map_option f (find (\<lambda>k. entry_id k = j) es) else find (\<lambda>k. entry_id k = j) es)"
  using assms by (induction es) auto

lemma policy_entry_update:
  "(\<And>e. entry_id (f e) = entry_id e) \<Longrightarrow>
   policy_entry (p\<lparr>policy_keys := update_first i f (policy_keys p)\<rparr>) j =
     (if i = j then map_option f (policy_entry p j) else policy_entry p j)"
  by (simp add: policy_entry_def find_update_first)

lemma policy_entry_push:
  "policy_entry (p\<lparr>policy_keys := policy_keys p @ [e]\<rparr>) j =
     (case policy_entry p j of Some x \<Rightarrow> Some x | None \<Rightarrow> if entry_id e = j then Some e else None)"
proof -
  have "find P (xs @ [e]) = (case find P xs of Some x \<Rightarrow> Some x | None \<Rightarrow> if P e then Some e else None)" for P xs
    by (induction xs) auto
  then show ?thesis by (simp add: policy_entry_def)
qed

text \<open>What merging a bundled key makes of the entry that has its identifier.\<close>

definition merged :: "bundled_key \<Rightarrow> trust_entry option \<Rightarrow> trust_entry" where
  "merged k old = (case old of
     None \<Rightarrow> \<lparr>entry_id = bk_id k, entry_name = bk_name k, entry_status = bk_status k, revoked_at = bk_revoked_at k\<rparr>
   | Some e \<Rightarrow>
       if entry_status e = Trusted \<and> bk_status k = Revoked
       then e\<lparr>entry_status := Revoked, revoked_at := bk_revoked_at k\<rparr>
       else if entry_status e = Revoked \<and> bk_status k = Revoked \<and> dated_earlier (bk_revoked_at k) (revoked_at e)
       then e\<lparr>revoked_at := bk_revoked_at k\<rparr>
       else e)"

lemma merge_key_policy:
  assumes "merge_key env k (p, r) = (p', r')"
  shows "policy_entry p' i = (if bk_id k = i then Some (merged k (policy_entry p i)) else policy_entry p i)"
proof -
  have upd: "policy_entry (p\<lparr>policy_keys := update_first (bk_id k) f (policy_keys p)\<rparr>) i =
      (if bk_id k = i then map_option f (policy_entry p i) else policy_entry p i)"
    if "\<And>e. entry_id (f e) = entry_id e" for f
    by (rule policy_entry_update) (rule that)
  have upd1: "policy_entry (p\<lparr>policy_keys := update_first (bk_id k)
        (\<lambda>e. e\<lparr>entry_status := Revoked, revoked_at := t\<rparr>) (policy_keys p)\<rparr>) i =
      (if bk_id k = i then map_option (\<lambda>e. e\<lparr>entry_status := Revoked, revoked_at := t\<rparr>) (policy_entry p i)
       else policy_entry p i)" for t
    by (rule upd) simp
  have upd2: "policy_entry (p\<lparr>policy_keys := update_first (bk_id k) (\<lambda>e. e\<lparr>revoked_at := t\<rparr>) (policy_keys p)\<rparr>) i =
      (if bk_id k = i then map_option (\<lambda>e. e\<lparr>revoked_at := t\<rparr>) (policy_entry p i) else policy_entry p i)" for t
    by (rule upd) simp
  show ?thesis
  proof (cases "policy_entry p (bk_id k)")
    case None
    then show ?thesis using assms by (auto simp: merge_key_def policy_entry_push merged_def split: option.splits)
  next
    case (Some f)
    show ?thesis
    proof (cases "bk_id k = i")
      case True
      then show ?thesis
        using assms Some upd1 upd2 by (auto simp: merge_key_def merged_def split: if_splits)
    next
      case False
      then show ?thesis
        using assms Some upd1 upd2 by (auto simp: merge_key_def split: if_splits)
    qed
  qed
qed

lemma merged_not_weaker: "not_weaker e (merged k (Some e))"
  by (auto simp: merged_def not_weaker_def dated_earlier_def split: option.splits)

lemma merge_key_entry:
  assumes "merge_key env k (p, r) = (p', r')" "policy_entry p i = Some e"
  shows "\<exists>e'. policy_entry p' i = Some e' \<and> not_weaker e e' \<and> (bk_id k \<noteq> i \<or> bk_status k = Trusted \<longrightarrow> e' = e)"
proof (cases "bk_id k = i")
  case True
  then have "policy_entry p' i = Some (merged k (Some e))" by (simp add: merge_key_policy [OF assms(1)] assms(2))
  moreover have "merged k (Some e) = e" if "bk_status k = Trusted" using that by (simp add: merged_def)
  ultimately show ?thesis using True merged_not_weaker by blast
next
  case False
  then show ?thesis by (simp add: merge_key_policy [OF assms(1)] assms(2))
qed

lemma merge_key_revokes:
  assumes "merge_key env k (p, r) = (p', r')" "bk_status k = Revoked" "bk_revoked_at k \<noteq> None"
  shows "\<exists>e'. policy_entry p' (bk_id k) = Some e' \<and> at_least_revoked k e'"
proof -
  have "at_least_revoked k (merged k old)" for old
  proof (cases old)
    case (Some e)
    then show ?thesis
      using assms(2,3)
      by (cases "entry_status e") (auto simp: merged_def at_least_revoked_def dated_earlier_def split: option.splits)
  qed (use assms(2,3) in \<open>auto simp: merged_def at_least_revoked_def\<close>)
  then show ?thesis by (simp add: merge_key_policy [OF assms(1)])
qed

lemma merge_keys_entry:
  assumes "fold (merge_key env) ks (p, r) = (p', r')" "policy_entry p i = Some e"
  shows "\<exists>e'. policy_entry p' i = Some e' \<and> not_weaker e e' \<and>
    ((\<forall>k\<in>set ks. bk_id k = i \<longrightarrow> bk_status k = Trusted) \<longrightarrow> e' = e)"
  using assms
proof (induction ks arbitrary: p r e)
  case (Cons k ks)
  obtain p1 r1 where step: "merge_key env k (p, r) = (p1, r1)" by (cases "merge_key env k (p, r)")
  then obtain e1 where e1: "policy_entry p1 i = Some e1" "not_weaker e e1"
      "bk_id k \<noteq> i \<or> bk_status k = Trusted \<longrightarrow> e1 = e"
    using merge_key_entry Cons.prems(2) by blast
  moreover have "fold (merge_key env) ks (p1, r1) = (p', r')" using Cons.prems(1) step by simp
  ultimately obtain e2 where "policy_entry p' i = Some e2" "not_weaker e1 e2"
      "(\<forall>k\<in>set ks. bk_id k = i \<longrightarrow> bk_status k = Trusted) \<longrightarrow> e2 = e1"
    using Cons.IH by blast
  with e1 not_weaker_trans show ?case by (metis list.set_intros)
qed simp

lemma merge_keys_revokes:
  assumes "fold (merge_key env) ks (p, r) = (p', r')" "k \<in> set ks" "bk_status k = Revoked" "bk_revoked_at k \<noteq> None"
  shows "\<exists>e'. policy_entry p' (bk_id k) = Some e' \<and> at_least_revoked k e'"
  using assms
proof (induction ks arbitrary: p r)
  case (Cons x ks)
  obtain p1 r1 where step: "merge_key env x (p, r) = (p1, r1)" by (cases "merge_key env x (p, r)")
  then have rest: "fold (merge_key env) ks (p1, r1) = (p', r')" using Cons.prems(1) by simp
  show ?case
  proof (cases "k = x")
    case True
    then obtain e where "policy_entry p1 (bk_id k) = Some e" "at_least_revoked k e"
      using merge_key_revokes step Cons.prems by blast
    then show ?thesis using merge_keys_entry [OF rest] at_least_revoked_mono by blast
  next
    case False
    then show ?thesis using Cons.IH [OF rest] Cons.prems by simp
  qed
qed simp

text \<open>The two ways an import succeeds.\<close>

lemma write_pubs_toml: "snd (write_pubs ke ks dir) ''trust.toml'' = dir ''trust.toml''"
  by (induction ks arbitrary: dir) (auto split: option.splits)

lemma policy_load_same:
  assumes "dir' ''trust.toml'' = dir ''trust.toml''" "policy_load ke dir = Inr p" "policy_load ke dir' = Inr q"
  shows "p = q"
  using assms by (auto simp: policy_load_def read_text_def result_simps split: if_splits)

definition import_writes ::
  "trust_env \<Rightarrow> trust_dir \<Rightarrow> trust_bundle \<Rightarrow> (bytes \<times> u64) option \<Rightarrow> import_report \<Rightarrow> trust_dir \<Rightarrow> bool" where
  "import_writes env d b handover report d' \<longleftrightarrow>
     (\<exists>dir policy policy'. write_pubs (te_keys env) (b_keys b) (dir_files d) = (Inr (), dir) \<and>
        policy_load (te_keys env) dir = Inr policy \<and>
        fold (merge_key env) (b_keys b) (policy, new_report b handover) = (policy', report) \<and>
        d' = d\<lparr>dir_files := policy_save (te_keys env) policy' dir,
               dir_bundles := (dir_bundles d)(accepted_name (issuer_key_id (b_issuer b)) \<mapsto> bundle_write env b)\<rparr>)"

lemma import_cases:
  assumes "import_bundle env listing d file expected now = (Inr report, d')"
  obtains b previous handover where "bundle_read env file = Inr b" "bundle_holds env b now"
    "admit env listing d b expected = Inr (previous, handover)"
    "d' = d \<and> ir_already_current report \<and> (\<exists>p. previous = Some p \<and> b_signature p = b_signature b) \<or>
     import_writes env d b handover report d'"
proof -
  let ?pre = "and_then (bundle_read env file) (\<lambda>bundle.
           let failed = map bc_name (filter (\<lambda>c. \<not> bc_passed c) (examine env bundle now)) in
           ensure (failed = []) (RefusedBundle failed) (
           and_then (admit env listing d bundle expected) (\<lambda>(previous, handover).
           Inr (bundle, previous, handover))))"
  obtain b previous handover where pre: "?pre = Inr (b, previous, handover)"
    using assms unfolding import_bundle_def by (cases ?pre) auto
  then have parts: "bundle_read env file = Inr b" "admit env listing d b expected = Inr (previous, handover)"
    "filter (\<lambda>c. \<not> bc_passed c) (examine env b now) = []"
    by (auto simp: result_simps Let_def)
  then have "bundle_verdict env b now = ''pass''"
    by (auto simp: bundle_verdict_def list_all_iff filter_empty_conv)
  then have holds: "bundle_holds env b now" by (simp add: verdict_iff)
  have "d' = d \<and> ir_already_current report \<and> (\<exists>p. previous = Some p \<and> b_signature p = b_signature b) \<or>
     import_writes env d b handover report d'"
    using assms unfolding import_bundle_def pre import_writes_def
    by (auto simp: Let_def split: if_splits option.splits prod.splits sum.splits)
  with parts(1,2) holds that show ?thesis by blast
qed

text \<open>
  C34. Importing a bundle only tightens the local trust. Every key the store listed is still
  listed under its name; a key that was revoked stays revoked, from the same moment or an
  earlier one, and one revoked without a date stays so, whatever the bundle says of it; a key
  the bundle does not revoke keeps its entry; and after a bundle that was not yet accepted,
  every key it revokes is revoked from the bundle's moment or earlier.
\<close>

theorem import_only_tightens:
  assumes "toml_faithful (te_keys env)"
    and "import_bundle env listing d file expected now = (Inr report, d')"
    and "policy_load (te_keys env) (dir_files d) = Inr p"
    and "policy_load (te_keys env) (dir_files d') = Inr q"
    and "bundle_read env file = Inr b"
  shows "(\<forall>i e. policy_entry p i = Some e \<longrightarrow> (\<exists>e'. policy_entry q i = Some e' \<and> not_weaker e e' \<and>
      ((\<forall>k\<in>set (b_keys b). bk_id k = i \<longrightarrow> bk_status k = Trusted) \<longrightarrow> e' = e))) \<and>
    (\<not> ir_already_current report \<longrightarrow> (\<forall>k\<in>set (b_keys b). bk_status k = Revoked \<longrightarrow>
      (\<exists>e'. policy_entry q (bk_id k) = Some e' \<and> at_least_revoked k e')))"
proof -
  from assms(2) obtain handover where holds: "bundle_holds env b now"
    and "d' = d \<and> ir_already_current report \<or> import_writes env d b handover report d'"
  proof (rule import_cases)
    fix b' previous handover
    assume a: "bundle_read env file = Inr b'" "bundle_holds env b' now"
      "d' = d \<and> ir_already_current report \<and> (\<exists>p. previous = Some p \<and> b_signature p = b_signature b') \<or>
       import_writes env d b' handover report d'"
    with assms(5) have "b' = b" by simp
    with a that show thesis by blast
  qed
  then consider "d' = d" "ir_already_current report" | "import_writes env d b handover report d'" by blast
  then show ?thesis
  proof cases
    case 1
    then have "q = p" using assms(3,4) by simp
    with 1 show ?thesis by (auto intro: not_weaker_refl)
  next
    case 2
    then obtain dir policy policy' where w: "write_pubs (te_keys env) (b_keys b) (dir_files d) = (Inr (), dir)"
      "policy_load (te_keys env) dir = Inr policy"
      "fold (merge_key env) (b_keys b) (policy, new_report b handover) = (policy', report)"
      "dir_files d' = policy_save (te_keys env) policy' dir"
      unfolding import_writes_def by auto
    have "dir ''trust.toml'' = dir_files d ''trust.toml''"
      using write_pubs_toml [of "te_keys env" "b_keys b" "dir_files d"] w(1) by simp
    then have "policy = p" using policy_load_same [OF _ assms(3) w(2)] by simp
    moreover have "q = policy'" using load_saved [OF assms(1)] assms(4) w(4) by simp
    ultimately have fold: "fold (merge_key env) (b_keys b) (p, new_report b handover) = (q, report)"
      using w(3) by simp
    have "bk_revoked_at k \<noteq> None" if "k \<in> set (b_keys b)" "bk_status k = Revoked" for k
      using holds that unfolding bundle_holds_def keys_sound_def by blast
    then show ?thesis using merge_keys_entry [OF fold] merge_keys_revokes [OF fold] by blast
  qed
qed

lemma admit_parts:
  assumes "admit env listing d b expected = Inr (previous, handover)"
  obtains p where "policy_load (te_keys env) (dir_files d) = Inr p"
    "\<forall>e. policy_entry p (issuer_key_id (b_issuer b)) = Some e \<longrightarrow> entry_status e = Trusted"
    "expected = None \<or> expected = Some (issuer_key_id (b_issuer b))"
    "accepted_bundle env d (issuer_key_id (b_issuer b)) = Inr previous"
    "(case previous of
         None \<Rightarrow> expected = None \<longrightarrow> (\<exists>bs pred. accepted_bundles env d listing = Inr bs \<and> pred \<in> set bs \<and>
           names_successor pred (b_issuer b))
       | Some prev \<Rightarrow> b_sequence prev \<le> b_sequence b \<and>
           (b_sequence prev = b_sequence b \<longrightarrow> b_signature prev = b_signature b))"
proof -
  let ?i = "issuer_key_id (b_issuer b)"
  let ?rest = "\<lambda>previous. case previous of
         None \<Rightarrow>
           if expected = None
           then and_then (accepted_bundles env d listing) (\<lambda>accepted.
                (case find (\<lambda>a. names_successor a (b_issuer b)) accepted of
                   Some pred \<Rightarrow> Inr (None, Some (issuer_key_id (b_issuer pred), b_sequence pred))
                 | None \<Rightarrow> Inl (UnknownIssuer ?i)))
           else Inr (None, None)
       | Some prev \<Rightarrow>
           ensure (\<not> b_sequence b < b_sequence prev)
             (OlderSequence (b_sequence b) ?i (b_sequence prev)) (
           ensure (\<not> (b_sequence b = b_sequence prev \<and> b_signature b \<noteq> b_signature prev))
             (SameSequence (b_sequence b) ?i) (
           Inr (Some prev, None)))"
  from assms obtain p prev where parts: "policy_load (te_keys env) (dir_files d) = Inr p"
    "\<not> (case policy_entry p ?i of Some entry \<Rightarrow> entry_status entry = Revoked | None \<Rightarrow> False)"
    "case expected of Some e \<Rightarrow> e = ?i | None \<Rightarrow> True"
    "accepted_bundle env d ?i = Inr prev" "?rest prev = Inr (previous, handover)"
    unfolding admit_def Let_def by (simp only: and_then_Inr_iff ensure_Inr_iff map_err_Inr_iff) blast
  have trusted: "\<forall>e. policy_entry p ?i = Some e \<longrightarrow> entry_status e = Trusted"
  proof (intro allI impI)
    fix e assume "policy_entry p ?i = Some e"
    with parts(2) show "entry_status e = Trusted" by (cases "entry_status e") auto
  qed
  have eq: "prev = previous \<and> (case previous of
         None \<Rightarrow> expected = None \<longrightarrow> (\<exists>bs pred. accepted_bundles env d listing = Inr bs \<and> pred \<in> set bs \<and>
           names_successor pred (b_issuer b))
       | Some prev \<Rightarrow> b_sequence prev \<le> b_sequence b \<and>
           (b_sequence prev = b_sequence b \<longrightarrow> b_signature prev = b_signature b))"
  proof (cases prev)
    case None
    show ?thesis
    proof (cases "expected = None")
      case True
      then obtain bs where bs: "accepted_bundles env d listing = Inr bs"
        "(case find (\<lambda>a. names_successor a (b_issuer b)) bs of
             Some pred \<Rightarrow> Inr (None, Some (issuer_key_id (b_issuer pred), b_sequence pred))
           | None \<Rightarrow> Inl (UnknownIssuer ?i)) = Inr (previous, handover)"
        using parts(5) None by (auto simp: result_simps)
      then obtain pred where "find (\<lambda>a. names_successor a (b_issuer b)) bs = Some pred" "previous = None"
        by (cases "find (\<lambda>a. names_successor a (b_issuer b)) bs") auto
      moreover from this have "pred \<in> set bs" "names_successor pred (b_issuer b)"
        by (auto simp: find_Some_iff)
      ultimately show ?thesis using None bs(1) by auto
    next
      case False
      then have "Inr (None, None) = (Inr (previous, handover) :: (trust_error, _) result)"
        using parts(5) None by auto
      with None False show ?thesis by auto
    qed
  next
    case (Some x)
    then show ?thesis using parts(5) by (auto simp: result_simps not_less)
  qed
  have exp: "expected = None \<or> expected = Some ?i" using parts(3) by (cases expected) auto
  show ?thesis using that parts(1,4) trusted eq exp by blast
qed

text \<open>
  Who may update a store. A bundle that is imported holds together at that moment, its
  issuer is not revoked in the store, and it comes from the issuer the recipient named, or from
  one a bundle was accepted from before, or from the successor an accepted bundle names with
  that very key; its sequence is at least the one accepted before from the same issuer, and an
  equal sequence means the same signed bundle. Afterwards the file of the accepted bundle of
  that issuer is this bundle or is unchanged, and those of other issuers are untouched.
\<close>

theorem import_admission:
  assumes "import_bundle env listing d file expected now = (Inr report, d')"
  shows "\<exists>b. bundle_read env file = Inr b \<and> bundle_holds env b now \<and>
    (\<exists>p. policy_load (te_keys env) (dir_files d) = Inr p \<and>
       (\<forall>e. policy_entry p (issuer_key_id (b_issuer b)) = Some e \<longrightarrow> entry_status e = Trusted)) \<and>
    (expected = None \<or> expected = Some (issuer_key_id (b_issuer b))) \<and>
    (expected = Some (issuer_key_id (b_issuer b)) \<or>
     (\<exists>prev. accepted_bundle env d (issuer_key_id (b_issuer b)) = Inr (Some prev)) \<or>
     (\<exists>bs pred. accepted_bundles env d listing = Inr bs \<and> pred \<in> set bs \<and> names_successor pred (b_issuer b))) \<and>
    (\<forall>prev. accepted_bundle env d (issuer_key_id (b_issuer b)) = Inr (Some prev) \<longrightarrow>
       b_sequence prev \<le> b_sequence b \<and> (b_sequence prev = b_sequence b \<longrightarrow> b_signature prev = b_signature b)) \<and>
    (d' = d \<or> dir_bundles d' =
       (dir_bundles d)(accepted_name (issuer_key_id (b_issuer b)) \<mapsto> bundle_write env b))"
proof -
  from assms obtain b previous handover where b: "bundle_read env file = Inr b" "bundle_holds env b now"
    and adm: "admit env listing d b expected = Inr (previous, handover)"
    and w: "d' = d \<or> import_writes env d b handover report d'"
    by (elim import_cases) blast
  let ?i = "issuer_key_id (b_issuer b)"
  obtain p where p: "policy_load (te_keys env) (dir_files d) = Inr p"
    "\<forall>e. policy_entry p ?i = Some e \<longrightarrow> entry_status e = Trusted"
    and exp: "expected = None \<or> expected = Some ?i" and prev: "accepted_bundle env d ?i = Inr previous"
    and rest: "(case previous of
         None \<Rightarrow> expected = None \<longrightarrow> (\<exists>bs pred. accepted_bundles env d listing = Inr bs \<and> pred \<in> set bs \<and>
           names_successor pred (b_issuer b))
       | Some prev \<Rightarrow> b_sequence prev \<le> b_sequence b \<and>
           (b_sequence prev = b_sequence b \<longrightarrow> b_signature prev = b_signature b))"
    by (rule admit_parts [OF adm])
  have "d' = d \<or> dir_bundles d' = (dir_bundles d)(accepted_name ?i \<mapsto> bundle_write env b)"
    using w unfolding import_writes_def by auto
  moreover have "expected = Some ?i \<or> (\<exists>prev. accepted_bundle env d ?i = Inr (Some prev)) \<or>
     (\<exists>bs pred. accepted_bundles env d listing = Inr bs \<and> pred \<in> set bs \<and> names_successor pred (b_issuer b))"
    using exp rest prev by (cases previous) auto
  moreover have "\<forall>prev. accepted_bundle env d ?i = Inr (Some prev) \<longrightarrow>
      b_sequence prev \<le> b_sequence b \<and> (b_sequence prev = b_sequence b \<longrightarrow> b_signature prev = b_signature b)"
    using prev rest by auto
  ultimately show ?thesis using b p exp by blast
qed

text \<open>A recipient who has a key revoked at 5 and receives a bundle that revokes it at 3.\<close>

definition example_issued :: trust_bundle where
  "example_issued = example_bundle\<lparr>b_keys := b_keys example_bundle @
      [\<lparr>bk_id = entry_id example_revoked, bk_name = ''other'',
        bk_public_key = hex_encode (digest_bytes (digest_of ''r'')), bk_status = Revoked, bk_revoked_at = Some 3\<rparr>],
     b_signature := Some (hex_encode (ed_sign example_ed (digest_of ''t'') ''b''))\<rparr>"

definition example_recipient_env :: trust_env where
  "example_recipient_env = \<lparr>te_keys = example_key_env, bundle_json = (\<lambda>_. ''b''), bundle_pretty = (\<lambda>_. ''b''),
     bundle_of_json = (\<lambda>_. Some example_issued), min_utc = - 1000\<rparr>"

definition example_recipient :: trust_dir where
  "example_recipient = \<lparr>dir_files = trust_files example_store, dir_bundles = Map.empty\<rparr>"

definition example_received :: trust_dir where
  "example_received = \<lparr>dir_files = (trust_files example_store)(''trust.toml'' \<mapsto> ''3''),
     dir_bundles = [accepted_name (entry_id example_trusted) \<mapsto> ''b'' @ [CHR 0x0A]]\<rparr>"

lemma example_te [simp]: "te_keys example_recipient_env = example_key_env"
  by (simp add: example_recipient_env_def)

lemma example_public_hex: "public_hex example_key_env (hex_encode (digest_bytes k)) = Some k"
  by (rule public_hex_encode) (simp add: example_key_env_def example_ed_def)

lemma example_issued_holds: "bundle_holds example_recipient_env example_issued 5"
proof -
  have sig: "bundle_signing_bytes example_recipient_env example_issued = ''b''"
    by (simp add: bundle_signing_bytes_def example_recipient_env_def)
  have keys: "keys_sound example_key_env (b_keys example_issued)"
    using example_ids
    by (simp add: keys_sound_def example_issued_def example_bundle_def example_public_hex example_key_ids)
  have "length (ed_sign example_ed (digest_of ''t'') ''b'') = 64 \<and>
      ed_verify (ke_ed example_key_env) (digest_of ''t'') ''b'' (ed_sign example_ed (digest_of ''t'') ''b'')"
    by (simp add: example_key_env_def example_ed_def)
  then show ?thesis
    unfolding bundle_holds_def example_te sig using keys
    by (simp add: example_issued_def example_bundle_def example_public_hex example_key_ids lists_trusted_def
        BUNDLE_SCHEMA_VERSION_def)
qed

lemma example_read: "bundle_read example_recipient_env (Some ''b'') = Inr example_issued"
  by (simp add: bundle_read_def BUNDLE_LIMIT_def example_recipient_env_def)

lemma example_issued_issuer: "issuer_key_id (b_issuer example_issued) = entry_id example_trusted"
  by (simp add: example_issued_def example_bundle_def)

lemma example_admit:
  "admit example_recipient_env [] example_recipient example_issued (Some (entry_id example_trusted)) = Inr (None, None)"
proof -
  have "policy_entry example_policy (entry_id example_trusted) = Some example_trusted"
    by (simp add: policy_entry_def example_policy_def)
  moreover have "entry_status example_trusted = Trusted" by (simp add: example_trusted_def)
  moreover have "policy_load example_key_env (dir_files example_recipient) = Inr example_policy"
    using example_load by (simp add: example_recipient_def)
  ultimately show ?thesis
    by (simp add: admit_def Let_def example_issued_issuer accepted_bundle_def) (simp add: example_recipient_def)
qed

lemma example_write_pubs:
  "write_pubs example_key_env (b_keys example_issued) (trust_files example_store) = (Inr (), trust_files example_store)"
  using example_ids by (simp add: example_issued_def example_bundle_def example_store_def)

lemma example_merge:
  "fst (fold (merge_key example_recipient_env) (b_keys example_issued) (example_policy, r)) = example_earlier"
proof -
  have "entry_status example_trusted = Trusted" "entry_status example_revoked = Revoked" "revoked_at example_revoked = Some 5"
    by (simp_all add: example_trusted_def example_revoked_def)
  then show ?thesis
    using example_ids
    by (simp add: example_issued_def example_bundle_def merge_key_def policy_entry_def example_policy_def
        dated_earlier_def example_earlier_def)
qed

lemma example_import:
  "\<exists>report. import_bundle example_recipient_env [] example_recipient (Some ''b'') (Some (entry_id example_trusted)) 5 =
    (Inr report, example_received)"
proof -
  have "bundle_verdict example_recipient_env example_issued 5 = ''pass''"
    using example_issued_holds by (simp add: verdict_iff)
  then have "filter (\<lambda>c. \<not> bc_passed c) (examine example_recipient_env example_issued 5) = []"
    by (auto simp: bundle_verdict_def list_all_iff filter_empty_conv split: if_splits)
  moreover have "policy_to_toml example_key_env example_earlier = ''3''"
    by (simp add: example_key_env_def example_earlier_def example_later_def example_policy_def example_revoked_def)
  moreover obtain report where "fold (merge_key example_recipient_env) (b_keys example_issued)
      (example_policy, new_report example_issued None) = (example_earlier, report)"
    using example_merge by (metis prod.collapse)
  moreover have "dir_files example_recipient = trust_files example_store" "dir_bundles example_recipient = Map.empty"
    by (simp_all add: example_recipient_def)
  ultimately show ?thesis
    by (simp add: import_bundle_def example_read Let_def example_admit example_write_pubs example_load
        policy_save_def example_issued_issuer bundle_write_def)
       (simp add: example_received_def example_recipient_def example_recipient_env_def)
qed

lemma example_load_earlier: "policy_load example_key_env (dir_files example_received) = Inr example_earlier"
proof -
  have "check_against example_key_env (dir_files example_received) {} (policy_keys example_earlier) = Inr ()"
    by (rule example_check) (simp_all add: example_store_def example_earlier_def example_received_def example_ids)
  then show ?thesis
    by (simp add: policy_load_def read_text_def example_received_def example_key_env_def)
qed

theorem import_only_tightens_witness:
  "\<exists>e'. policy_entry example_earlier (entry_id example_revoked) = Some e' \<and> not_weaker example_revoked e'"
proof -
  obtain report where imp: "import_bundle example_recipient_env [] example_recipient (Some ''b'')
      (Some (entry_id example_trusted)) 5 = (Inr report, example_received)"
    using example_import by blast
  have toml: "toml_faithful (te_keys example_recipient_env)" using example_toml by simp
  have load: "policy_load (te_keys example_recipient_env) (dir_files example_recipient) = Inr example_policy"
    "policy_load (te_keys example_recipient_env) (dir_files example_received) = Inr example_earlier"
    using example_load example_load_earlier by (simp_all add: example_recipient_def)
  have "policy_entry example_policy (entry_id example_revoked) = Some example_revoked"
    using example_ids by (simp add: policy_entry_def example_policy_def)
  with import_only_tightens [OF toml imp load example_read] show ?thesis by blast
qed

theorem import_admission_witness:
  "\<exists>b. bundle_read example_recipient_env (Some ''b'') = Inr b \<and> bundle_holds example_recipient_env b 5 \<and>
     issuer_key_id (b_issuer b) = entry_id example_trusted"
proof -
  obtain report where imp: "import_bundle example_recipient_env [] example_recipient (Some ''b'')
      (Some (entry_id example_trusted)) 5 = (Inr report, example_received)"
    using example_import by blast
  from import_admission [OF imp] show ?thesis by auto
qed

end
