(* ===== verification/Receipt.thy ===== *)
theory Receipt
  imports Hashing Signing "HOL-Library.Multiset"
begin

text \<open>
  The receipt of a run, from \<open>src/storage/receipt_format.rs\<close>: its fields and the bytes that are
  signed. The JSON encoder of \<open>serde_json\<close> is a parameter; times are integers.
\<close>

definition RECEIPT_SCHEMA_VERSION :: u32 where "RECEIPT_SCHEMA_VERSION = 3"

record reproducibility_info =
  repro_verified :: bool
  repro_runs :: u32
  repro_method :: bytes

record step_result =
  sr_name :: bytes
  sr_input_hash :: bytes
  sr_output_hash :: bytes
  sr_duration_secs :: u64
  sr_exit_code :: "32 word"
  sr_cache_hit :: bool
  sr_stdout :: bytes
  sr_stderr :: bytes
  sr_capsule_hash :: "bytes option"

datatype execution_descriptor = Native | Wrapped "bytes list"

record source_info =
  repository :: "bytes option"
  commit :: bytes
  branch :: "bytes option"
  tracked_dirty :: bool

record ci_info =
  provider :: bytes
  ci_run_id :: "bytes option"
  ci_job_id :: "bytes option"

record step_provenance =
  sp_name :: bytes
  sp_needs :: "bytes list"
  sp_command_hash :: bytes
  sp_inputs :: "bytes list"
  sp_outputs :: "bytes list"

record execution_provenance =
  invocation_id :: "bytes option"
  started_at :: "int option"
  ep_pipeline_name :: "bytes option"
  ep_source :: "source_info option"
  runner_os :: bytes
  runner_arch :: bytes
  ep_ci :: "ci_info option"
  ep_steps :: "step_provenance list"
  ep_artifacts :: "artifact_info list"
  ep_execution :: "execution_descriptor option"

datatype control_status = Enforced | NotEnforced | NotAvailable

record isolation_control =
  control_name :: bytes
  control_status :: control_status
  control_detail :: bytes

record isolation_report =
  iso_mode :: bytes
  iso_platform :: bytes
  iso_controls :: "isolation_control list"
  iso_capsule_steps :: "bytes list"

record receipt =
  r_schema_version :: "u32 option"
  r_pipeline_hash :: bytes
  r_steps :: "step_result list"
  r_timestamp :: int
  r_total_duration_secs :: u64
  r_signature :: "bytes option"
  r_signer_public_key :: "bytes option"
  r_attest_version :: bytes
  r_causal_events :: "bytes list"
  r_causal_chain_hash :: "bytes option"
  r_reproducibility :: "reproducibility_info option"
  r_provenance :: "execution_provenance option"
  r_timestamp_token :: "bytes option"
  r_isolation :: "isolation_report option"

text \<open>The receipt as it is serialised for signing; both sorts are stable.\<close>

definition signing_receipt :: "receipt \<Rightarrow> receipt" where
  "signing_receipt r = r\<lparr>r_signature := None, r_signer_public_key := None, r_timestamp_token := None,
     r_steps := sort_key sr_name (r_steps r), r_causal_events := sort (r_causal_events r)\<rparr>"

definition receipt_signing_bytes :: "(receipt \<Rightarrow> bytes) \<Rightarrow> receipt \<Rightarrow> bytes" where
  "receipt_signing_bytes json r = json (signing_receipt r)"

section \<open>Properties\<close>

text \<open>Everything a receipt says apart from the order of its lists and from the three fields that
  come after signing.\<close>

definition claims :: "receipt \<Rightarrow> receipt" where
  "claims r = r\<lparr>r_signature := None, r_signer_public_key := None, r_timestamp_token := None,
     r_steps := [], r_causal_events := []\<rparr>"

lemma signing_receipt_eq_iff:
  "signing_receipt r = signing_receipt r' \<longleftrightarrow> claims r = claims r' \<and>
     sort_key sr_name (r_steps r) = sort_key sr_name (r_steps r') \<and>
     sort (r_causal_events r) = sort (r_causal_events r')"
  by (cases r, cases r') (auto simp: signing_receipt_def claims_def)

lemma sort_eq_iff_mset: "sort xs = sort ys \<longleftrightarrow> mset xs = mset (ys :: 'a::linorder list)"
proof
  assume "sort xs = sort ys"
  then show "mset xs = mset ys" by (metis mset_sort)
next
  assume "mset xs = mset ys"
  then show "sort xs = sort ys" by (intro properties_for_sort) simp_all
qed

lemma sort_key_eq_iff_mset:
  assumes "distinct (map f xs)"
  shows "sort_key f xs = sort_key f ys \<longleftrightarrow> mset xs = mset ys"
proof
  assume "sort_key f xs = sort_key f ys"
  then show "mset xs = mset ys" by (metis mset_sort)
next
  assume "mset xs = mset ys"
  moreover have "inj_on f (set xs)" using assms by (simp add: distinct_map)
  ultimately show "sort_key f xs = sort_key f ys" by (intro sort_key_inj_key_eq) auto
qed

text \<open>
  C31. What a signature on a receipt covers. Two receipts have the same signed bytes exactly
  when they make the same claims: the same steps with the same results and the same causal
  events, in whatever order, and the same value of every other field except the signature, the
  signer's key and the timestamp token. Attaching a signature or a token therefore does not
  disturb the signed bytes, and changing anything else does. The JSON encoding is assumed to
  be injective on the two receipts, and the step names to be distinct.
\<close>

theorem receipt_signing_bytes_binding:
  assumes "inj_on json {signing_receipt r, signing_receipt r'}" "distinct (map sr_name (r_steps r))"
  shows "receipt_signing_bytes json r = receipt_signing_bytes json r' \<longleftrightarrow>
    claims r = claims r' \<and> mset (r_steps r) = mset (r_steps r') \<and>
    mset (r_causal_events r) = mset (r_causal_events r')"
proof -
  have "receipt_signing_bytes json r = receipt_signing_bytes json r' \<longleftrightarrow> signing_receipt r = signing_receipt r'"
    using assms(1) by (auto simp: receipt_signing_bytes_def inj_on_eq_iff)
  then show ?thesis
    by (simp add: signing_receipt_eq_iff sort_eq_iff_mset sort_key_eq_iff_mset [OF assms(2)])
qed

definition example_receipt :: receipt where
  "example_receipt = \<lparr>r_schema_version = Some 3, r_pipeline_hash = replicate 64 (CHR ''a''),
     r_steps = [\<lparr>sr_name = ''build'', sr_input_hash = replicate 64 (CHR ''b''), sr_output_hash = replicate 64 (CHR ''c''),
       sr_duration_secs = 1, sr_exit_code = 0, sr_cache_hit = False, sr_stdout = [], sr_stderr = [], sr_capsule_hash = None\<rparr>],
     r_timestamp = 100, r_total_duration_secs = 1, r_signature = None, r_signer_public_key = None,
     r_attest_version = ''1'', r_causal_events = [''e''], r_causal_chain_hash = None, r_reproducibility = None,
     r_provenance = None, r_timestamp_token = None, r_isolation = None\<rparr>"

definition example_receipt_json :: "receipt \<Rightarrow> bytes" where
  "example_receipt_json r = (case r_steps r of s # _ \<Rightarrow> sr_output_hash s | [] \<Rightarrow> [])"

theorem receipt_signing_bytes_binding_witness:
  "receipt_signing_bytes example_receipt_json example_receipt =
     receipt_signing_bytes example_receipt_json (example_receipt\<lparr>r_timestamp_token := Some ''t''\<rparr>)"
proof -
  let ?r = "example_receipt\<lparr>r_timestamp_token := Some ''t''\<rparr>"
  have "signing_receipt ?r = signing_receipt example_receipt"
    by (simp add: signing_receipt_def example_receipt_def)
  then have inj: "inj_on example_receipt_json {signing_receipt example_receipt, signing_receipt ?r}" by simp
  have "distinct (map sr_name (r_steps example_receipt))" by (simp add: example_receipt_def)
  from receipt_signing_bytes_binding [OF inj this] show ?thesis
    by (simp add: claims_def example_receipt_def)
qed

end
