(* ===== verification/Capsule.thy ===== *)
theory Capsule
  imports Hashing
begin

text \<open>
  Capsules, from \<open>src/capsule.rs\<close>: the manifest that pins an image by digest, its hash, how it
  is created and loaded, and the argument vector a capsule is run with.

  BLAKE3, the YAML codec of a manifest and \<open>exists\<close> of a host path are parameters; starting
  the container runtime is not modelled. Paths are their bytes.
\<close>

section \<open>Manifests\<close>

definition CAPSULE_FORMAT :: bytes where "CAPSULE_FORMAT = ''attest-capsule/v1''"

definition CAPSULE_NETWORK_NONE :: bytes where "CAPSULE_NETWORK_NONE = ''none''"

record capsule_manifest =
  cm_format :: bytes
  cm_name :: bytes
  cm_image :: bytes
  cm_entrypoint :: "bytes list option"
  cm_env :: "bytes btree"
  cm_workspace :: bytes
  cm_network :: bytes
  cm_capsule_hash :: "bytes option"

datatype capsule_error =
    TagReference bytes
  | CapsuleNotFound bytes
  | HashMismatch bytes bytes bytes
  | UnsupportedFormat bytes | UnsupportedNetwork bytes | RelativeMount bytes
  | BadYaml | NoCapsuleHash
  | CapsuleExists bytes
  | InputNotRelative bytes | InputIsRoot bytes

record capsule_env =
  ce_blake3 :: "bytes \<Rightarrow> digest"
  manifest_yaml :: "capsule_manifest \<Rightarrow> bytes"
  manifest_of_yaml :: "bytes \<Rightarrow> capsule_manifest option"

definition validate_image_ref :: "bytes \<Rightarrow> (capsule_error, unit) result" where
  "validate_image_ref image_ref =
     and_then (ok_or (split_once ''@sha256:'' image_ref) (TagReference image_ref)) (\<lambda>(repo, dg).
     ensure (\<not> (repo = [] \<or> length dg \<noteq> 64 \<or> \<not> list_all is_hex_digit dg)) (TagReference image_ref) (Inr ()))"

definition manifest_new :: "bytes \<Rightarrow> bytes \<Rightarrow> (capsule_error, capsule_manifest) result" where
  "manifest_new name image_ref =
     and_then (validate_image_ref image_ref) (\<lambda>_.
     Inr \<lparr>cm_format = CAPSULE_FORMAT, cm_name = name, cm_image = image_ref, cm_entrypoint = None, cm_env = [],
          cm_workspace = ''/work'', cm_network = CAPSULE_NETWORK_NONE, cm_capsule_hash = None\<rparr>)"

definition compute_hash :: "capsule_env \<Rightarrow> capsule_manifest \<Rightarrow> bytes" where
  "compute_hash env m = to_hex (ce_blake3 env (manifest_yaml env (m\<lparr>cm_capsule_hash := None\<rparr>)))"

definition manifest_validate :: "capsule_manifest \<Rightarrow> (capsule_error, unit) result" where
  "manifest_validate m =
     ensure (cm_format m = CAPSULE_FORMAT) (UnsupportedFormat (cm_format m)) (
     and_then (validate_image_ref (cm_image m)) (\<lambda>_.
     ensure (cm_network m = CAPSULE_NETWORK_NONE) (UnsupportedNetwork (cm_network m)) (
     ensure (starts_with (cm_workspace m) ''/'') (RelativeMount (cm_workspace m)) (Inr ()))))"

text \<open>The capsule directory of a workspace, as a map from capsule names to \<open>capsule.yaml\<close>.\<close>

definition capsule_init ::
  "capsule_env \<Rightarrow> bytes \<Rightarrow> bytes \<Rightarrow> (bytes \<rightharpoonup> bytes) \<Rightarrow> (capsule_error, bytes \<rightharpoonup> bytes) result" where
  "capsule_init env name image_ref files =
     and_then (manifest_new name image_ref) (\<lambda>m.
     and_then (manifest_validate m) (\<lambda>_.
     let m = m\<lparr>cm_capsule_hash := Some (compute_hash env m)\<rparr> in
     ensure (files name = None) (CapsuleExists name) (Inr (files(name \<mapsto> manifest_yaml env m)))))"

definition capsule_load ::
  "capsule_env \<Rightarrow> (bytes \<rightharpoonup> bytes) \<Rightarrow> bytes \<Rightarrow> (capsule_error, capsule_manifest) result" where
  "capsule_load env files name =
     and_then (ok_or (case files name of Some s \<Rightarrow> if is_utf8 s then Some s else None | None \<Rightarrow> None)
       (CapsuleNotFound name)) (\<lambda>content.
     and_then (ok_or (manifest_of_yaml env content) BadYaml) (\<lambda>m.
     and_then (manifest_validate m) (\<lambda>_.
     let recomputed = compute_hash env m in
     (case cm_capsule_hash m of
        Some stored \<Rightarrow> if stored = recomputed then Inr m else Inl (HashMismatch name stored recomputed)
      | None \<Rightarrow> Inl NoCapsuleHash))))"

section \<open>Running\<close>

definition HERMETIC_ENV :: "(bytes \<times> bytes) list" where
  "HERMETIC_ENV = [(''SOURCE_DATE_EPOCH'', ''1704067200''), (''TZ'', ''UTC''), (''LC_ALL'', ''C.UTF-8''), (''LANG'', ''C.UTF-8'')]"

fun input_named :: "path \<Rightarrow> bool \<Rightarrow> bool option" where
  "input_named [] named = Some named"
| "input_named (Normal _ # cs) named = input_named cs True"
| "input_named (CurDir # cs) named = input_named cs named"
| "input_named (_ # cs) named = None"

fun validate_input_paths :: "bytes list \<Rightarrow> (capsule_error, unit) result" where
  "validate_input_paths [] = Inr ()"
| "validate_input_paths (p # ps) =
     (case input_named (components p) False of
        None \<Rightarrow> Inl (InputNotRelative p)
      | Some named \<Rightarrow> ensure named (InputIsRoot p) (validate_input_paths ps))"

text \<open>\<open>Path::join\<close> on the bytes of the paths.\<close>

definition join_path :: "bytes \<Rightarrow> bytes \<Rightarrow> bytes" where
  "join_path p q =
     (if starts_with q ''/'' then q
      else if p = [] \<or> ends_with p ''/'' then p @ q
      else p @ ''/'' @ q)"

record input_mounts =
  im_root :: bytes
  im_paths :: "bytes list"

definition first_component :: "bytes \<Rightarrow> bytes list" where
  "first_component p = (case components p of Normal name # _ \<Rightarrow> [name] | _ \<Rightarrow> [])"

definition mount_args :: "(bytes \<Rightarrow> bool) \<Rightarrow> capsule_manifest \<Rightarrow> input_mounts \<Rightarrow> bytes list" where
  "mount_args path_exists m inputs =
     (let tops = remdups_adj (sort (concat (map first_component (im_paths inputs)))) in
      concat (map (\<lambda>top.
        let host = join_path (im_root inputs) top in
        if \<not> path_exists host then []
        else [''-v'', host @ '':'' @ join_path (cm_workspace m) top @ '':ro'']) tops))"

definition capsule_environment :: "capsule_manifest \<Rightarrow> bytes btree" where
  "capsule_environment m = fold (\<lambda>(key, val). btree_insert key val) HERMETIC_ENV (cm_env m)"

definition run_args ::
  "(bytes \<Rightarrow> bool) \<Rightarrow> capsule_manifest \<Rightarrow> bytes \<Rightarrow> input_mounts \<Rightarrow> bytes list \<Rightarrow> bytes list" where
  "run_args path_exists m workspace inputs command =
     (let mount = cm_workspace m in
      [''run'', ''--rm'', ''--network'', CAPSULE_NETWORK_NONE, ''--read-only'', ''-v'', workspace @ '':'' @ mount] @
      mount_args path_exists m inputs @
      [''-w'', mount] @
      concat (map (\<lambda>(key, val). [''-e'', key @ ''='' @ val]) (capsule_environment m)) @
      (case cm_entrypoint m of
         Some (e # es) \<Rightarrow> [''--entrypoint'', e, cm_image m] @ es
       | _ \<Rightarrow> [cm_image m]) @
      command)"

section \<open>Properties\<close>

definition digest_pinned :: "bytes \<Rightarrow> bool" where
  "digest_pinned r \<longleftrightarrow> (\<exists>repo dg. r = repo @ ''@sha256:'' @ dg \<and> repo \<noteq> [] \<and> length dg = 64 \<and> list_all is_hex_digit dg)"

lemma validate_image_ref_pinned: "validate_image_ref r = Inr () \<Longrightarrow> digest_pinned r"
proof -
  assume "validate_image_ref r = Inr ()"
  then obtain repo dg where "split_once ''@sha256:'' r = Some (repo, dg)" "repo \<noteq> []" "length dg = 64"
      "list_all is_hex_digit dg"
    by (auto simp: validate_image_ref_def result_simps)
  with split_once_parts show ?thesis unfolding digest_pinned_def by blast
qed

text \<open>What is trusted of a manifest before it is run.\<close>

definition manifest_sound :: "capsule_env \<Rightarrow> capsule_manifest \<Rightarrow> bool" where
  "manifest_sound env m \<longleftrightarrow> cm_format m = CAPSULE_FORMAT \<and> digest_pinned (cm_image m) \<and>
     cm_network m = ''none'' \<and> starts_with (cm_workspace m) ''/'' \<and> cm_capsule_hash m = Some (compute_hash env m)"

lemma capsule_load_parts:
  "capsule_load env files name = Inr m \<longleftrightarrow>
     (\<exists>content. files name = Some content \<and> is_utf8 content \<and> manifest_of_yaml env content = Some m \<and>
        manifest_validate m = Inr () \<and> cm_capsule_hash m = Some (compute_hash env m))"
  by (auto simp: capsule_load_def result_simps Let_def split: option.splits if_splits)

lemma manifest_validate_sound:
  "manifest_validate m = Inr () \<Longrightarrow> cm_format m = CAPSULE_FORMAT \<and> digest_pinned (cm_image m) \<and>
     cm_network m = ''none'' \<and> starts_with (cm_workspace m) ''/''"
  by (auto simp: manifest_validate_def result_simps CAPSULE_NETWORK_NONE_def dest: validate_image_ref_pinned)

text \<open>
  A capsule that loads is the one its recorded hash names. The image of a loaded manifest is
  pinned by a 64-digit digest, the network is off, the mount is absolute, and the stored hash
  is that of the manifest; two manifests that load with the same hash agree in every
  field, unless BLAKE3 collides on their serialisations or the YAML encoding does.
\<close>

theorem capsule_load_sound:
  assumes "capsule_load env files name = Inr m" "capsule_load env files' name' = Inr m'"
    and "inj_on (\<lambda>x. ce_blake3 env (manifest_yaml env x)) {m\<lparr>cm_capsule_hash := None\<rparr>, m'\<lparr>cm_capsule_hash := None\<rparr>}"
  shows "manifest_sound env m \<and> (cm_capsule_hash m = cm_capsule_hash m' \<longrightarrow> m = m')"
proof -
  have m: "manifest_sound env m" "cm_capsule_hash m = Some (compute_hash env m)"
    and m': "cm_capsule_hash m' = Some (compute_hash env m')"
    using assms(1,2) manifest_validate_sound by (auto simp: capsule_load_parts manifest_sound_def)
  have "m = m'" if same: "cm_capsule_hash m = cm_capsule_hash m'"
  proof -
    have "ce_blake3 env (manifest_yaml env (m\<lparr>cm_capsule_hash := None\<rparr>)) =
        ce_blake3 env (manifest_yaml env (m'\<lparr>cm_capsule_hash := None\<rparr>))"
      using same m(2) m' by (simp add: compute_hash_def to_hex_def)
    then have eq: "m\<lparr>cm_capsule_hash := None\<rparr> = m'\<lparr>cm_capsule_hash := None\<rparr>"
      using assms(3) unfolding inj_on_def by blast
    have "m = (m\<lparr>cm_capsule_hash := None\<rparr>)\<lparr>cm_capsule_hash := cm_capsule_hash m\<rparr>" by simp
    also have "\<dots> = (m'\<lparr>cm_capsule_hash := None\<rparr>)\<lparr>cm_capsule_hash := cm_capsule_hash m'\<rparr>"
      unfolding eq same ..
    finally show ?thesis by simp
  qed
  with m(1) show ?thesis by blast
qed

definition initial_manifest :: "capsule_env \<Rightarrow> bytes \<Rightarrow> bytes \<Rightarrow> capsule_manifest" where
  "initial_manifest env name img =
     (let m = \<lparr>cm_format = CAPSULE_FORMAT, cm_name = name, cm_image = img, cm_entrypoint = None, cm_env = [],
        cm_workspace = ''/work'', cm_network = CAPSULE_NETWORK_NONE, cm_capsule_hash = None\<rparr>
      in m\<lparr>cm_capsule_hash := Some (compute_hash env m)\<rparr>)"

text \<open>
  A capsule that was initialised loads. \<open>init\<close> succeeds exactly when the image is pinned by a
  digest and there is no capsule of that name; it touches no other capsule, and \<open>load\<close> then
  returns the manifest for that name and image with the defaults, which is sound, provided the
  YAML codec reads back the manifest that was written.
\<close>

theorem capsule_init_load:
  assumes "is_utf8 (manifest_yaml env (initial_manifest env name img))"
    and "manifest_of_yaml env (manifest_yaml env (initial_manifest env name img)) = Some (initial_manifest env name img)"
  shows "(is_ok (capsule_init env name img files) \<longleftrightarrow> validate_image_ref img = Inr () \<and> files name = None) \<and>
    (\<forall>files'. capsule_init env name img files = Inr files' \<longrightarrow>
      (\<forall>other. other \<noteq> name \<longrightarrow> files' other = files other) \<and>
      capsule_load env files' name = Inr (initial_manifest env name img) \<and>
      manifest_sound env (initial_manifest env name img))"
proof (cases "validate_image_ref img = Inr () \<and> files name = None")
  case True
  let ?m = "initial_manifest env name img"
  have hash: "cm_capsule_hash ?m = Some (compute_hash env ?m)"
    by (simp add: initial_manifest_def compute_hash_def Let_def)
  have val: "manifest_validate ?m = Inr ()"
    using True by (simp add: initial_manifest_def Let_def manifest_validate_def starts_with_def)
  have init: "capsule_init env name img files = Inr (files(name \<mapsto> manifest_yaml env ?m))"
    using True
    by (simp add: capsule_init_def manifest_new_def initial_manifest_def Let_def manifest_validate_def starts_with_def)
  have "capsule_load env (files(name \<mapsto> manifest_yaml env ?m)) name = Inr ?m"
    unfolding capsule_load_parts using assms val hash by simp
  moreover have "manifest_sound env ?m"
    using manifest_validate_sound [OF val] hash by (simp add: manifest_sound_def)
  ultimately show ?thesis using True init by auto
next
  case False
  then have "\<not> is_ok (capsule_init env name img files)"
    by (auto simp: capsule_init_def manifest_new_def is_ok_iff result_simps Let_def)
  with False show ?thesis by (auto simp: is_ok_iff)
qed

definition example_image :: bytes where
  "example_image = ''busybox@sha256:'' @ replicate 64 (CHR ''0'')"

definition example_capsule_env :: capsule_env where
  "example_capsule_env = \<lparr>ce_blake3 = digest_of, manifest_yaml = (\<lambda>m. cm_image m),
     manifest_of_yaml = (\<lambda>s. Some (initial_manifest
       \<lparr>ce_blake3 = digest_of, manifest_yaml = (\<lambda>m. cm_image m), manifest_of_yaml = (\<lambda>_. None)\<rparr> ''demo'' s))\<rparr>"

lemma example_initial:
  "manifest_yaml example_capsule_env (initial_manifest example_capsule_env ''demo'' example_image) = example_image"
  "manifest_of_yaml example_capsule_env example_image = Some (initial_manifest example_capsule_env ''demo'' example_image)"
  by (simp_all add: example_capsule_env_def initial_manifest_def compute_hash_def Let_def)

lemma example_image_utf8: "is_utf8 example_image"
proof -
  have "is_utf8 (replicate n (CHR ''0''))" for n by (induction n) simp_all
  then show ?thesis by (simp add: example_image_def)
qed

lemma example_image_valid: "validate_image_ref example_image = Inr ()"
proof -
  have "split_once ''@sha256:'' example_image = Some (''busybox'', replicate 64 (CHR ''0''))"
    by (simp add: example_image_def starts_with_def)
  moreover have "is_hex_digit (CHR ''0'')" by (simp add: is_hex_digit_def)
  ultimately show ?thesis by (simp add: validate_image_ref_def list_all_iff)
qed

theorem capsule_init_load_witness:
  "\<exists>files. capsule_init example_capsule_env ''demo'' example_image Map.empty = Inr files \<and>
     capsule_load example_capsule_env files ''demo'' = Inr (initial_manifest example_capsule_env ''demo'' example_image)"
proof -
  have utf: "is_utf8 (manifest_yaml example_capsule_env (initial_manifest example_capsule_env ''demo'' example_image))"
    and rt: "manifest_of_yaml example_capsule_env (manifest_yaml example_capsule_env
        (initial_manifest example_capsule_env ''demo'' example_image)) =
      Some (initial_manifest example_capsule_env ''demo'' example_image)"
    by (simp_all only: example_initial example_image_utf8)
  note roundtrip = capsule_init_load [OF utf rt, of Map.empty]
  from roundtrip obtain files where "capsule_init example_capsule_env ''demo'' example_image Map.empty = Inr files"
    using example_image_valid by (auto simp: is_ok_iff)
  with roundtrip show ?thesis by blast
qed

theorem capsule_load_sound_witness:
  "manifest_sound example_capsule_env (initial_manifest example_capsule_env ''demo'' example_image)"
proof -
  have load: "capsule_load example_capsule_env [''demo'' \<mapsto> example_image] ''demo'' =
      Inr (initial_manifest example_capsule_env ''demo'' example_image)"
    unfolding capsule_load_parts using example_image_valid
    by (simp add: example_image_utf8 example_initial)
       (simp add: initial_manifest_def manifest_validate_def compute_hash_def starts_with_def Let_def)
  show ?thesis using capsule_load_sound [OF load load] by simp
qed

lemma remdups_adj_sorted:
  "sorted xs \<Longrightarrow> sorted (remdups_adj xs) \<and> distinct (remdups_adj (xs :: bytes list))"
  by (induction xs rule: remdups_adj.induct) auto

lemma capsule_environment_entries:
  "map_of (capsule_environment m) = map_of (cm_env m) ++ map_of HERMETIC_ENV"
  by (simp add: capsule_environment_def HERMETIC_ENV_def map_of_btree_insert fun_eq_iff map_add_def)

lemma capsule_environment_ok: "btree_ok (cm_env m) \<Longrightarrow> btree_ok (capsule_environment m)"
  by (simp add: capsule_environment_def HERMETIC_ENV_def btree_ok_insert)

text \<open>
  How a capsule is run. The argument vector starts with the flags that take the network away
  and make the root file system read-only; the only writable mount is the workspace; over it,
  each existing top-level directory that a declared input lies under is mounted read-only, once,
  in order, and nothing else is; the environment is an ordered map with the normalised
  variables and, for the other names, the manifest's values, so no ambient variable is passed;
  then come the image, with the entry point around it, and the command.
\<close>

theorem run_args_isolated:
  assumes "btree_ok (cm_env m)"
  shows "\<exists>tops vars. run_args path_exists m ws inputs command =
      [''run'', ''--rm'', ''--network'', ''none'', ''--read-only'', ''-v'', ws @ '':'' @ cm_workspace m] @
      concat (map (\<lambda>top. [''-v'', join_path (im_root inputs) top @ '':'' @ join_path (cm_workspace m) top @ '':ro'']) tops) @
      [''-w'', cm_workspace m] @ concat (map (\<lambda>(key, val). [''-e'', key @ ''='' @ val]) vars) @
      (case cm_entrypoint m of Some (e # es) \<Rightarrow> [''--entrypoint'', e, cm_image m] @ es | _ \<Rightarrow> [cm_image m]) @ command \<and>
    sorted tops \<and> distinct tops \<and>
    set tops = {top. path_exists (join_path (im_root inputs) top) \<and>
      (\<exists>p\<in>set (im_paths inputs). \<exists>rest. components p = Normal top # rest)} \<and>
    btree_ok vars \<and> map_of vars = map_of (cm_env m) ++ map_of HERMETIC_ENV"
proof -
  let ?all = "remdups_adj (sort (concat (map first_component (im_paths inputs))))"
  let ?tops = "filter (\<lambda>top. path_exists (join_path (im_root inputs) top)) ?all"
  have mounts: "mount_args path_exists m inputs =
      concat (map (\<lambda>top. [''-v'', join_path (im_root inputs) top @ '':'' @ join_path (cm_workspace m) top @ '':ro'']) ?tops)"
  proof -
    have "concat (map (\<lambda>x. if \<not> P x then [] else f x) xs) = concat (map f (filter P xs))" for P :: "bytes \<Rightarrow> bool" and f :: "bytes \<Rightarrow> bytes list" and xs
      by (induction xs) simp_all
    then show ?thesis by (simp add: mount_args_def Let_def)
  qed
  have first: "top \<in> set (first_component p) \<longleftrightarrow> (\<exists>rest. components p = Normal top # rest)" for top p
    by (cases "components p") (auto simp: first_component_def split: component.splits)
  have "sorted ?tops" "distinct ?tops" 
    using remdups_adj_sorted [OF sorted_sort] by (simp_all add: sorted_wrt_filter)
  moreover have "set ?tops = {top. path_exists (join_path (im_root inputs) top) \<and>
      (\<exists>p\<in>set (im_paths inputs). \<exists>rest. components p = Normal top # rest)}"
    by (auto simp: first)
  moreover note capsule_environment_ok [OF assms] capsule_environment_entries [of m]
  ultimately show ?thesis
    unfolding run_args_def Let_def mounts CAPSULE_NETWORK_NONE_def by blast
qed

theorem run_args_isolated_witness:
  "\<exists>tops. set tops = {''src''} \<and> sorted tops \<and> distinct tops"
proof -
  let ?m = "initial_manifest example_capsule_env ''demo'' example_image"
  let ?inputs = "\<lparr>im_root = ''/snap'', im_paths = [''src/a'']\<rparr>"
  have "btree_ok (cm_env ?m)" by (simp add: initial_manifest_def btree_ok_def Let_def)
  from run_args_isolated [OF this, of "\<lambda>_. True" "''/ws''" ?inputs "[]"]
  obtain tops where "sorted tops" "distinct tops"
    "set tops = {top. \<exists>rest. components ''src/a'' = Normal top # rest}"
    by auto
  moreover have "components ''src/a'' = [Normal ''src'', Normal ''a'']"
    by (simp add: components_def component_of_def starts_with_def)
  ultimately show ?thesis by auto
qed

end
