(* ===== verification/Verify.thy ===== *)
theory Verify
  imports Trust Receipt Capsule Dag
begin

text \<open>
  Receipt verification, from \<open>src/verify.rs\<close>: the checks of \<open>attest verify\<close> in the order the code
  runs them, the trust status of the signing key, the recomputation of a run from the
  workspace, and the policy that turns checks into a verdict.

  A \<open>verify_env\<close> holds the parameters (hash functions, curve and codecs); a \<open>world\<close> holds what the
  verifier finds on disk: the trust store it resolves to, the local key, the workspace and the
  orders in which directories and hash maps are iterated. A check keeps its name and its
  status; its sentence is a value of the datatype \<open>detail\<close>.
\<close>

section \<open>Requirements and policies\<close>

datatype requirement =
    ReqSignature | ReqTimestamp | ReqRecompute | ReqLinkage | ReqTrust | ReqSuccess | ReqSbom
  | ReqProvenance | ReqRevision | ReqIdentity | ReqArtifacts | ReqCapsule | ReqLogInclusion | ReqLogConsistency

definition ALL_REQUIREMENTS :: "requirement list" where
  "ALL_REQUIREMENTS = [ReqSignature, ReqTimestamp, ReqRecompute, ReqLinkage, ReqTrust, ReqSuccess, ReqSbom,
     ReqProvenance, ReqRevision, ReqIdentity, ReqArtifacts, ReqCapsule, ReqLogInclusion, ReqLogConsistency]"

fun requirement_name :: "requirement \<Rightarrow> bytes" where
  "requirement_name ReqSignature = ''signature''"
| "requirement_name ReqTimestamp = ''timestamp''"
| "requirement_name ReqRecompute = ''recompute''"
| "requirement_name ReqLinkage = ''linkage''"
| "requirement_name ReqTrust = ''trust''"
| "requirement_name ReqSuccess = ''success''"
| "requirement_name ReqSbom = ''sbom''"
| "requirement_name ReqProvenance = ''provenance''"
| "requirement_name ReqRevision = ''revision''"
| "requirement_name ReqIdentity = ''identity''"
| "requirement_name ReqArtifacts = ''artifacts''"
| "requirement_name ReqCapsule = ''capsule''"
| "requirement_name ReqLogInclusion = ''log-inclusion''"
| "requirement_name ReqLogConsistency = ''log-consistency''"

text \<open>The error of \<open>from_str\<close> names the string that is not a requirement.\<close>

definition requirement_from_str :: "bytes \<Rightarrow> (bytes, requirement) result" where
  "requirement_from_str name = ok_or (find (\<lambda>r. requirement_name r = name) ALL_REQUIREMENTS) name"

fun parse_names :: "bytes list \<Rightarrow> requirement list \<Rightarrow> (bytes, requirement list) result" where
  "parse_names [] required = Inr required"
| "parse_names (name # names) required =
     and_then (requirement_from_str name) (\<lambda>r.
     parse_names names (if r \<in> set required then required else required @ [r]))"

fun parse_values :: "bytes list \<Rightarrow> requirement list \<Rightarrow> (bytes, requirement list) result" where
  "parse_values [] required = Inr required"
| "parse_values (val # vals) required =
     and_then (parse_names (filter (\<lambda>n. n \<noteq> []) (map trim (split_on (CHR '','') val))) required)
       (parse_values vals)"

definition policy_parse :: "bytes list \<Rightarrow> (bytes, requirement list) result" where
  "policy_parse vals = parse_values vals []"

section \<open>Checks and verdicts\<close>

datatype problem =
    EmptyAttestVersion | BadPipelineHash | ReceiptHasNoSteps | BadInputHash bytes | BadOutputHash bytes
  | PipelineHashMismatch bytes bytes | StepAbsentFromReceipt bytes | StepNotDeclared bytes
  | CapsuleHashMismatch bytes bytes bytes | CapsuleFailed bytes bytes capsule_error
  | CapsuleNotRecorded bytes bytes | CapsuleNotDeclared bytes
  | InputHashMismatch bytes bytes bytes | OutputHashMismatch bytes bytes bytes | HashingFailed bytes hashing_error

datatype detail =
    Note bytes
  | NewerSchema u64
  | NotAReceipt
  | Problems "problem list"
  | Timestamped int bytes
  | TokenError ts_error
  | SignatureMaterial sign_error
  | StoreUnreadable key_error
  | UntrustedKey bytes
  | TrustedKey bytes
  | RevokedWithoutToken bytes int
  | RevokedBefore bytes int
  | CannotReadPipeline | CannotParsePipeline
  | WrappedProblem bytes
  | WrappedHashing hashing_error
  | LegacyNative detail

datatype check_status = Pass | Fail | Skipped

record check =
  check_name :: bytes
  check_status :: check_status
  check_detail :: detail

definition mk_check :: "bytes \<Rightarrow> check_status \<Rightarrow> detail \<Rightarrow> check" where
  "mk_check name st d = \<lparr>check_name = name, check_status = st, check_detail = d\<rparr>"

datatype reason =
    CheckFailed bytes detail | CheckNotPerformed bytes detail | NoCheck bytes
  | StaleTrust bytes | NoTrustMaterial | RecordsOutcome bytes nat | NoExecution

record unmet =
  unmet_requirement :: requirement
  unmet_reason :: reason

record policy_outcome =
  po_required :: "requirement list"
  po_unmet :: "unmet list"

record execution_outcome =
  eo_outcome :: bytes
  eo_failed_steps :: nat

record trust_material =
  tm_state :: bytes
  tm_issuer :: "bytes option"
  tm_sequence :: "u64 option"
  tm_valid_until :: "int option"
  tm_judged_by :: bytes

datatype warning =
    WarnBundlesUnreadable trust_error | WarnNoBundleFor bytes | WarnExpired bytes int u64
  | WarnNotYetValid bytes int int | WarnReceiptTimestamp bytes | WarnRevokedLater bytes int

record receipt_verdict =
  v_receipt :: bytes
  v_verdict :: bytes
  v_checks :: "check list"
  v_signed_by :: "bytes option"
  v_warnings :: "warning list"
  v_trust_material :: "trust_material option"
  v_execution :: "execution_outcome option"
  v_policy :: "policy_outcome option"

definition check_reason :: "receipt_verdict \<Rightarrow> bytes \<Rightarrow> reason option" where
  "check_reason v name =
     (case find (\<lambda>c. check_name c = name) (v_checks v) of
        Some c \<Rightarrow>
          (case check_status c of
             Pass \<Rightarrow> None
           | Fail \<Rightarrow> Some (CheckFailed name (check_detail c))
           | Skipped \<Rightarrow> Some (CheckNotPerformed name (check_detail c)))
      | None \<Rightarrow> Some (NoCheck name))"

definition requirement_reason :: "receipt_verdict \<Rightarrow> requirement \<Rightarrow> reason option" where
  "requirement_reason v r =
     (case r of
        ReqLinkage \<Rightarrow> check_reason v ''chain-linkage''
      | ReqTrust \<Rightarrow>
          (case v_trust_material v of
             Some m \<Rightarrow> if tm_state m = ''current'' then None else Some (StaleTrust (tm_state m))
           | None \<Rightarrow> Some NoTrustMaterial)
      | ReqSuccess \<Rightarrow>
          (case v_execution v of
             Some e \<Rightarrow> if eo_outcome e = ''success'' then None
                       else Some (RecordsOutcome (eo_outcome e) (eo_failed_steps e))
           | None \<Rightarrow> Some NoExecution)
      | _ \<Rightarrow> check_reason v (requirement_name r))"

definition apply_policy :: "requirement list \<Rightarrow> receipt_verdict \<Rightarrow> receipt_verdict" where
  "apply_policy required v =
     (let unmets = concat (map (\<lambda>r. case requirement_reason v r of
                     Some reason \<Rightarrow> [\<lparr>unmet_requirement = r, unmet_reason = reason\<rparr>] | None \<Rightarrow> []) required);
          failed = list_ex (\<lambda>c. check_status c = Fail) (v_checks v)
      in v\<lparr>v_verdict := (if failed \<or> unmets \<noteq> [] then ''fail'' else ''pass''),
           v_policy := Some \<lparr>po_required = required, po_unmet = unmets\<rparr>\<rparr>)"

definition execution_outcome :: "receipt \<Rightarrow> execution_outcome" where
  "execution_outcome r =
     (let failed = length (filter (\<lambda>s. sr_exit_code s \<noteq> 0) (r_steps r)) in
      \<lparr>eo_outcome = (if failed = 0 then ''success'' else ''failure''), eo_failed_steps = failed\<rparr>)"

definition verdict_passed :: "receipt_verdict \<Rightarrow> bool" where
  "verdict_passed v \<longleftrightarrow> v_verdict v = ''pass''"

section \<open>Parameters and surroundings\<close>

record verify_env =
  ve_trust :: trust_env
  ve_ts :: ts_env
  ve_capsule :: capsule_env
  ve_receipt_json :: "receipt \<Rightarrow> bytes"
  ve_yaml_ok :: "bytes \<Rightarrow> bool"
  ve_yaml_schema_version :: "bytes \<Rightarrow> u64 option"
  ve_receipt_of_yaml :: "bytes \<Rightarrow> receipt option"
  ve_pipeline_of_yaml :: "bytes \<Rightarrow> pipeline option"
  ve_pipeline_to_yaml :: "pipeline \<Rightarrow> bytes"
  ve_command_json :: "bytes list \<Rightarrow> bytes"
  ve_lowercase :: "bytes \<Rightarrow> bytes"

abbreviation ve_keys :: "verify_env \<Rightarrow> key_env" where "ve_keys env \<equiv> te_keys (ve_trust env)"

abbreviation ve_blake3 :: "verify_env \<Rightarrow> bytes \<Rightarrow> digest" where "ve_blake3 env \<equiv> ke_blake3 (ve_keys env)"

record world =
  w_store :: "trust_dir option"
  w_store_listing :: "bytes list"
  w_bundle_listing :: "bytes list"
  w_managed_order :: "bytes list"
  w_tsa :: "bytes \<rightharpoonup> bytes"
  w_tsa_listing :: "bytes list"
  w_local_key :: "bytes option"
  w_workspace :: path
  w_fs :: fs
  w_pipeline_file :: "bytes option"
  w_capsules :: "bytes \<rightharpoonup> bytes"

record verify_options =
  check_signatures :: bool
  opt_recompute :: bool
  trust_receipt_timestamp :: bool
  opt_policy :: "requirement list"

section \<open>Consistency\<close>

definition is_lower_hex :: "bytes \<Rightarrow> bool" where
  "is_lower_hex s = list_all is_hex_digit s"

definition not_digest :: "bytes \<Rightarrow> bool" where
  "not_digest h \<longleftrightarrow> length h \<noteq> 64 \<or> \<not> is_lower_hex h"

definition consistency_problems :: "receipt \<Rightarrow> problem list" where
  "consistency_problems r =
     (if r_attest_version r = [] then [EmptyAttestVersion] else []) @
     (if not_digest (r_pipeline_hash r) then [BadPipelineHash] else []) @
     (if r_steps r = [] then [ReceiptHasNoSteps] else []) @
     concat (map (\<lambda>s. (if not_digest (sr_input_hash s) then [BadInputHash (sr_name s)] else []) @
                      (if not_digest (sr_output_hash s) then [BadOutputHash (sr_name s)] else [])) (r_steps r))"

definition consistency_check :: "receipt \<Rightarrow> check" where
  "consistency_check r =
     (if consistency_problems r = [] then mk_check ''consistency'' Pass (Note ''receipt is coherent'')
      else mk_check ''consistency'' Fail (Problems (consistency_problems r)))"

section \<open>Time\<close>

definition timestamp_check :: "verify_env \<Rightarrow> world \<Rightarrow> receipt \<Rightarrow> check \<times> int option" where
  "timestamp_check env w r =
     (case r_timestamp_token r of
        None \<Rightarrow> (mk_check ''timestamp'' Skipped (Note ''receipt carries no timestamp token''), None)
      | Some encoded \<Rightarrow>
     (case r_signature r of
        None \<Rightarrow> (mk_check ''timestamp'' Fail
          (Note ''receipt has a timestamp token but no signature for it to cover''), None)
      | Some signature_hex \<Rightarrow>
     (case base64_decode (ve_keys env) encoded of
        None \<Rightarrow> (mk_check ''timestamp'' Fail (Note ''timestamp token is not valid base64''), None)
      | Some token \<Rightarrow>
     (case signature_imprint (ve_ts env) signature_hex of
        Inl e \<Rightarrow> (mk_check ''timestamp'' Fail (TokenError e), None)
      | Inr imprint \<Rightarrow>
          let issuers = tsa_issuers (ve_keys env) (w_tsa w) (w_tsa_listing w) in
          if issuers = [] then (mk_check ''timestamp'' Fail (Note ''no pinned timestamp authority''), None)
          else
            (case verify_token (ve_ts env) token imprint issuers of
               Inr verified \<Rightarrow>
                 (mk_check ''timestamp'' Pass (Timestamped (gen_time (vt_info verified)) (vt_signer verified)),
                  Some (gen_time (vt_info verified)))
             | Inl e \<Rightarrow> (mk_check ''timestamp'' Fail (TokenError e), None))))))"

section \<open>The signing key\<close>

datatype key_trust = TrustedK | RevokedK int | UnknownK

definition entry_trust :: "verify_env \<Rightarrow> trust_entry option \<Rightarrow> key_trust" where
  "entry_trust env e =
     (case e of
        Some entry \<Rightarrow>
          (case entry_status entry of
             Trusted \<Rightarrow> TrustedK
           | Revoked \<Rightarrow> RevokedK (or_min (ve_trust env) (revoked_at entry)))
      | None \<Rightarrow> UnknownK)"

text \<open>Legacy loose files: 32 raw bytes or 64 hexadecimal digits of either case.\<close>

definition loose_key :: "verify_env \<Rightarrow> bytes \<Rightarrow> bytes option" where
  "loose_key env bs =
     (if length bs = 32 then Some (hex_encode bs)
      else if \<not> is_utf8 bs then None
      else let text = ve_lowercase env (trim bs) in
           if length text = 64 \<and> is_lower_hex text then Some text else None)"

definition is_loose_file :: "bytes \<Rightarrow> bool" where
  "is_loose_file name \<longleftrightarrow> \<not> is_pub_file name \<and> name \<noteq> ''trust.toml''"

definition key_trust_status ::
  "verify_env \<Rightarrow> world \<Rightarrow> bytes \<Rightarrow> (key_error, key_trust) result" where
  "key_trust_status env w key_hex =
     (case w_store w of
        Some store \<Rightarrow>
          and_then (policy_load (ve_keys env) (dir_files store)) (\<lambda>policy.
          and_then (trust_dir_public_keys (ve_keys env) (dir_files store) (w_store_listing w)) (\<lambda>managed.
          (case find (\<lambda>i. managed i = Some key_hex) (w_managed_order w) of
             Some i \<Rightarrow> Inr (entry_trust env (policy_entry policy i))
           | None \<Rightarrow>
               Inr (if list_ex (\<lambda>name. is_loose_file name \<and>
                      (case dir_files store name of Some bs \<Rightarrow> loose_key env bs = Some key_hex | None \<Rightarrow> False))
                      (w_store_listing w)
                    then TrustedK else UnknownK))))
      | None \<Rightarrow>
          Inr (case w_local_key w of
                 Some bs \<Rightarrow> if length bs = 32 \<and> hex_encode bs = key_hex then TrustedK else UnknownK
               | None \<Rightarrow> UnknownK))"

definition signature_check ::
  "verify_env \<Rightarrow> world \<Rightarrow> verify_options \<Rightarrow> receipt \<Rightarrow> int option \<Rightarrow> warning list
    \<Rightarrow> (check \<times> bytes option) \<times> warning list" where
  "signature_check env w opts r trusted_time warns =
     (case (r_signature r, r_signer_public_key r) of
        (Some sig, Some key_hex) \<Rightarrow>
          (case verify_with_public_key (ke_ed (ve_keys env)) key_hex
                  (receipt_signing_bytes (ve_receipt_json env) r) sig of
             Inl e \<Rightarrow> ((mk_check ''signature'' Fail (SignatureMaterial e), None), warns)
           | Inr False \<Rightarrow> ((mk_check ''signature'' Fail
               (Note ''Ed25519 signature does not verify against signer_public_key''), None), warns)
           | Inr True \<Rightarrow>
               (case key_trust_status env w key_hex of
                  Inl e \<Rightarrow> ((mk_check ''signature'' Fail (StoreUnreadable e), None), warns)
                | Inr UnknownK \<Rightarrow> ((mk_check ''signature'' Fail (UntrustedKey
                    (case key_id_from_hex (ve_keys env) key_hex of Inr i \<Rightarrow> i | Inl _ \<Rightarrow> key_hex)), None), warns)
                | Inr TrustedK \<Rightarrow> ((mk_check ''signature'' Pass (TrustedKey key_hex), Some key_hex), warns)
                | Inr (RevokedK at) \<Rightarrow>
                    (case (case trusted_time of
                             Some attested \<Rightarrow> Some (attested, warns)
                           | None \<Rightarrow> if trust_receipt_timestamp opts
                                     then Some (r_timestamp r, warns @ [WarnReceiptTimestamp key_hex]) else None) of
                       None \<Rightarrow> ((mk_check ''signature'' Fail (RevokedWithoutToken key_hex at), None), warns)
                     | Some (signed_at, warns) \<Rightarrow>
                         if signed_at > at
                         then ((mk_check ''signature'' Fail (RevokedBefore key_hex at), None), warns)
                         else ((mk_check ''signature'' Pass (Note ''valid signature; signed by key revoked later''),
                                Some key_hex), warns @ [WarnRevokedLater key_hex at]))))
      | _ \<Rightarrow> ((mk_check ''signature'' Fail (Note ''receipt is unsigned''), None), warns))"

section \<open>Trust material\<close>

definition no_material :: trust_material where
  "no_material = \<lparr>tm_state = ''none'', tm_issuer = None, tm_sequence = None, tm_valid_until = None,
     tm_judged_by = ''local clock''\<rparr>"

text \<open>A store that is not there has no accepted bundles.\<close>

definition store_bundles :: "verify_env \<Rightarrow> world \<Rightarrow> (trust_error, trust_bundle list) result" where
  "store_bundles env w =
     (case w_store w of
        None \<Rightarrow> Inr []
      | Some store \<Rightarrow> accepted_bundles (ve_trust env) store (w_bundle_listing w))"

definition trust_material ::
  "verify_env \<Rightarrow> world \<Rightarrow> bytes option \<Rightarrow> int \<Rightarrow> warning list \<Rightarrow> trust_material \<times> warning list" where
  "trust_material env w signer now warns =
     (case (case signer of None \<Rightarrow> None
            | Some k \<Rightarrow> (case key_id_from_hex (ve_keys env) k of Inr i \<Rightarrow> Some i | Inl _ \<Rightarrow> None)) of
        None \<Rightarrow> (no_material, warns)
      | Some signer_id \<Rightarrow>
          let (accepted, warns) = (case store_bundles env w of
                Inr bs \<Rightarrow> (bs, warns) | Inl e \<Rightarrow> ([], warns @ [WarnBundlesUnreadable e]));
              latest = max_by_key b_sequence
                (filter (\<lambda>b. list_ex (\<lambda>k. bk_id k = signer_id) (b_keys b)) accepted);
              warns = (if latest = None \<and> accepted \<noteq> [] then warns @ [WarnNoBundleFor signer_id] else warns)
          in (case latest of
                None \<Rightarrow> (no_material, warns)
              | Some bundle \<Rightarrow>
                  let expired = now > b_valid_until bundle;
                      not_yet = now < b_issued_at bundle;
                      warns = (if expired then warns @ [WarnExpired (issuer_key_id (b_issuer bundle))
                                 (b_valid_until bundle) (b_sequence bundle)]
                               else if not_yet then warns @ [WarnNotYetValid (issuer_key_id (b_issuer bundle))
                                 (b_issued_at bundle) now]
                               else warns)
                  in (\<lparr>tm_state = (if expired then ''expired'' else if not_yet then ''not-yet-valid'' else ''current''),
                       tm_issuer = Some (issuer_key_id (b_issuer bundle)), tm_sequence = Some (b_sequence bundle),
                       tm_valid_until = Some (b_valid_until bundle), tm_judged_by = ''local clock''\<rparr>, warns)))"

section \<open>Recomputation\<close>

definition wrap_pipeline_hash :: "(bytes \<Rightarrow> digest) \<Rightarrow> bytes \<Rightarrow> bytes" where
  "wrap_pipeline_hash blake3 canonical = to_hex (blake3 (''attest-wrap/v1'' @ [CHR 0x0A] @ canonical))"

definition wrapped_problem :: "verify_env \<Rightarrow> world \<Rightarrow> receipt \<Rightarrow> bytes list \<Rightarrow> (detail, unit) result" where
  "wrapped_problem env w r command =
     ensure (command \<noteq> [] \<and> hd command \<noteq> [] \<and> list_all (\<lambda>a. CHR 0x00 \<notin> set a) command)
       (WrappedProblem ''wrapped command identity is missing or invalid'') (
     (case r_steps r of
        [step] \<Rightarrow>
          and_then (ok_or (r_provenance r) (WrappedProblem ''missing wrapped declarations'')) (\<lambda>prov.
          (case ep_steps prov of
             [declaration] \<Rightarrow>
               ensure (sp_name declaration = sr_name step \<and> sp_needs declaration = [])
                 (WrappedProblem ''wrapped declarations do not describe the recorded step'') (
               ensure (sr_capsule_hash step = None) (WrappedProblem ''wrapped execution cannot claim a capsule'') (
               let canonical = ve_command_json env command in
               ensure (wrap_pipeline_hash (ve_blake3 env) canonical = r_pipeline_hash r)
                 (WrappedProblem ''wrapped command identity does not match pipeline hash'') (
               ensure (to_hex (ve_blake3 env canonical) = sp_command_hash declaration)
                 (WrappedProblem ''wrapped command identity does not match command hash'') (
               and_then (map_err WrappedHashing (hash_inputs (ve_blake3 env) (w_fs w) (w_workspace w) (sr_name step)
                 canonical (map components (sp_inputs declaration)))) (\<lambda>input_hash.
               ensure (input_hash = sr_input_hash step) (WrappedProblem ''wrapped input hash mismatch'') (
               and_then (map_err WrappedHashing (hash_outputs (ve_blake3 env) (w_fs w) (w_workspace w) (sr_name step)
                 (map components (sp_outputs declaration)))) (\<lambda>output_hash.
               ensure (output_hash = sr_output_hash step) (WrappedProblem ''wrapped output hash mismatch'') (
               Inr ()))))))))
           | _ \<Rightarrow> Inl (WrappedProblem ''wrapped receipt must declare exactly one step's inputs and outputs'')))
      | _ \<Rightarrow> Inl (WrappedProblem ''wrapped receipt must describe one step'')))"

definition wrapped_recompute_check :: "verify_env \<Rightarrow> world \<Rightarrow> receipt \<Rightarrow> bytes list \<Rightarrow> check" where
  "wrapped_recompute_check env w r command =
     (case wrapped_problem env w r command of
        Inr _ \<Rightarrow> mk_check ''recompute'' Pass (Note ''wrapped command identity, declared inputs and outputs match'')
      | Inl d \<Rightarrow> mk_check ''recompute'' Fail d)"

definition capsule_problems :: "verify_env \<Rightarrow> world \<Rightarrow> step \<Rightarrow> step_result \<Rightarrow> problem list" where
  "capsule_problems env w st sr =
     (case (step_capsule st, sr_capsule_hash sr) of
        (Some name, Some recorded) \<Rightarrow>
          (case capsule_load (ve_capsule env) (w_capsules w) name of
             Inr manifest \<Rightarrow>
               let recomputed = (case cm_capsule_hash manifest of Some h \<Rightarrow> h | None \<Rightarrow> []) in
               if recomputed \<noteq> recorded then [CapsuleHashMismatch (sr_name sr) recorded recomputed] else []
           | Inl e \<Rightarrow> [CapsuleFailed (sr_name sr) name e])
      | (Some name, None) \<Rightarrow> [CapsuleNotRecorded (sr_name sr) name]
      | (None, Some _) \<Rightarrow> [CapsuleNotDeclared (sr_name sr)]
      | (None, None) \<Rightarrow> [])"

definition input_problems :: "verify_env \<Rightarrow> world \<Rightarrow> step \<Rightarrow> step_result \<Rightarrow> problem list" where
  "input_problems env w st sr =
     (case hash_inputs (ve_blake3 env) (w_fs w) (w_workspace w) (sr_name sr) (step_run st) (map components (step_inputs st)) of
        Inr recomputed \<Rightarrow>
          if recomputed \<noteq> sr_input_hash sr then [InputHashMismatch (sr_name sr) (sr_input_hash sr) recomputed] else []
      | Inl e \<Rightarrow> [HashingFailed (sr_name sr) e])"

definition output_problems :: "verify_env \<Rightarrow> world \<Rightarrow> step \<Rightarrow> step_result \<Rightarrow> problem list" where
  "output_problems env w st sr =
     (case hash_outputs (ve_blake3 env) (w_fs w) (w_workspace w) (sr_name sr) (map components (step_outputs st)) of
        Inr recomputed \<Rightarrow>
          if recomputed \<noteq> sr_output_hash sr then [OutputHashMismatch (sr_name sr) (sr_output_hash sr) recomputed] else []
      | Inl e \<Rightarrow> [HashingFailed (sr_name sr) e])"

definition step_problems :: "verify_env \<Rightarrow> world \<Rightarrow> pipeline \<Rightarrow> step_result \<Rightarrow> problem list" where
  "step_problems env w p sr =
     (case map_of (steps p) (sr_name sr) of
        None \<Rightarrow> [StepNotDeclared (sr_name sr)]
      | Some st \<Rightarrow> capsule_problems env w st sr @ input_problems env w st sr @ output_problems env w st sr)"

definition native_problems :: "verify_env \<Rightarrow> world \<Rightarrow> receipt \<Rightarrow> pipeline \<Rightarrow> problem list" where
  "native_problems env w r p =
     (let recomputed = to_hex (ve_blake3 env (ve_pipeline_to_yaml env p)) in
      (if recomputed \<noteq> r_pipeline_hash r then [PipelineHashMismatch (r_pipeline_hash r) recomputed] else []) @
      map StepAbsentFromReceipt (filter (\<lambda>name. name \<notin> sr_name ` set (r_steps r)) (keys (steps p))) @
      concat (map (step_problems env w p) (r_steps r)))"

definition native_recompute_check :: "verify_env \<Rightarrow> world \<Rightarrow> receipt \<Rightarrow> check" where
  "native_recompute_check env w r =
     (case (case w_pipeline_file w of Some s \<Rightarrow> if is_utf8 s then Some s else None | None \<Rightarrow> None) of
        None \<Rightarrow> mk_check ''recompute'' Fail CannotReadPipeline
      | Some content \<Rightarrow>
          (case ve_pipeline_of_yaml env content of
             None \<Rightarrow> mk_check ''recompute'' Fail CannotParsePipeline
           | Some p \<Rightarrow>
               if native_problems env w r p = []
               then mk_check ''recompute'' Pass (Note ''pipeline, step inputs and step outputs match the workspace'')
               else mk_check ''recompute'' Fail (Problems (native_problems env w r p))))"

definition recompute_check :: "verify_env \<Rightarrow> world \<Rightarrow> receipt \<Rightarrow> check" where
  "recompute_check env w r =
     (case (case r_provenance r of Some prov \<Rightarrow> ep_execution prov | None \<Rightarrow> None) of
        Some (Wrapped command) \<Rightarrow> wrapped_recompute_check env w r command
      | Some Native \<Rightarrow> native_recompute_check env w r
      | None \<Rightarrow>
          if w_pipeline_file w = None
          then mk_check ''recompute'' Skipped (Note ''legacy receipt has no execution descriptor'')
          else let c = native_recompute_check env w r in c\<lparr>check_detail := LegacyNative (check_detail c)\<rparr>)"

section \<open>A receipt file\<close>

definition MAX_RECEIPT_BYTES :: nat where "MAX_RECEIPT_BYTES = 16 * 1024 * 1024"

datatype verify_error = Unreadable | ResourceLimit nat | NotYaml

definition read_bounded :: "nat \<Rightarrow> bytes option \<Rightarrow> (verify_error, bytes) result" where
  "read_bounded limit file =
     and_then (ok_or file Unreadable) (\<lambda>bs. ensure (\<not> length bs > limit) (ResourceLimit (length bs)) (Inr bs))"

definition skipped_checks :: "check list" where
  "skipped_checks = map (\<lambda>name. mk_check name Skipped (Note ''schema check failed''))
     [''consistency'', ''signature'', ''timestamp'', ''recompute'']"

definition unknown_outcome :: execution_outcome where
  "unknown_outcome = \<lparr>eo_outcome = ''unknown'', eo_failed_steps = 0\<rparr>"

text \<open>The checks on a receipt that could be read. The timestamp is resolved before the signature,
  which needs it, and reported after it.\<close>

definition receipt_checks ::
  "verify_env \<Rightarrow> world \<Rightarrow> verify_options \<Rightarrow> receipt \<Rightarrow> (check list \<times> bytes option) \<times> warning list" where
  "receipt_checks env w opts r =
     (let (ts_check, trusted_time) = timestamp_check env w r;
          ((sig_check, signed_by), warns) =
            (if check_signatures opts then signature_check env w opts r trusted_time []
             else ((mk_check ''signature'' Skipped (Note ''disabled by --no-check-signatures''), None), []))
      in (([consistency_check r, sig_check, ts_check,
            (if opt_recompute opts then recompute_check env w r
             else mk_check ''recompute'' Skipped (Note ''enable with --recompute''))], signed_by), warns))"

definition verify_parsed ::
  "verify_env \<Rightarrow> world \<Rightarrow> int \<Rightarrow> bytes \<Rightarrow> bytes \<Rightarrow> verify_options \<Rightarrow> receipt_verdict" where
  "verify_parsed env w now content label opts =
     (let receipt = ve_receipt_of_yaml env content;
          (checks, signed_by, warns) =
            (case receipt of
               Some r \<Rightarrow>
                 let ((cs, signed_by), warns) = receipt_checks env w opts r
                 in (mk_check ''schema'' Pass (Note ''receipt matches schema'') # cs, signed_by, warns)
             | None \<Rightarrow> (mk_check ''schema'' Fail NotAReceipt # skipped_checks, None, []));
          (material, warns) = trust_material env w signed_by now warns
      in apply_policy (opt_policy opts)
           \<lparr>v_receipt = label,
            v_verdict = (if list_ex (\<lambda>c. check_status c = Fail) checks then ''fail'' else ''pass''),
            v_checks = checks, v_signed_by = signed_by, v_warnings = warns, v_trust_material = Some material,
            v_execution = Some (case receipt of Some r \<Rightarrow> execution_outcome r | None \<Rightarrow> unknown_outcome),
            v_policy = None\<rparr>)"

definition verify_receipt_bytes ::
  "verify_env \<Rightarrow> world \<Rightarrow> int \<Rightarrow> bytes \<Rightarrow> bytes \<Rightarrow> verify_options \<Rightarrow> (verify_error, receipt_verdict) result" where
  "verify_receipt_bytes env w now content label opts =
     ensure (ve_yaml_ok env content) NotYaml (
     (case ve_yaml_schema_version env content of
        Some v \<Rightarrow>
          if v > ucast RECEIPT_SCHEMA_VERSION
          then Inr (apply_policy (opt_policy opts)
            \<lparr>v_receipt = label, v_verdict = ''fail'', v_checks = mk_check ''schema'' Fail (NewerSchema v) # skipped_checks,
             v_signed_by = None, v_warnings = [], v_trust_material = None, v_execution = Some unknown_outcome,
             v_policy = None\<rparr>)
          else Inr (verify_parsed env w now content label opts)
      | None \<Rightarrow> Inr (verify_parsed env w now content label opts)))"

definition verify_receipt_file ::
  "verify_env \<Rightarrow> world \<Rightarrow> int \<Rightarrow> bytes \<Rightarrow> bytes option \<Rightarrow> verify_options \<Rightarrow> (verify_error, receipt_verdict) result" where
  "verify_receipt_file env w now name file opts =
     and_then (read_bounded MAX_RECEIPT_BYTES file) (\<lambda>content. verify_receipt_bytes env w now content name opts)"

section \<open>Properties\<close>

subsection \<open>Policies\<close>

text \<open>What a requirement asks of a verdict: that a check ran and passed, that the trust material is
  current, or that the recorded execution succeeded. Checks have distinct names.\<close>

definition check_passed :: "receipt_verdict \<Rightarrow> bytes \<Rightarrow> bool" where
  "check_passed v name \<longleftrightarrow> (\<exists>c\<in>set (v_checks v). check_name c = name \<and> check_status c = Pass)"

definition requirement_met :: "receipt_verdict \<Rightarrow> requirement \<Rightarrow> bool" where
  "requirement_met v r \<longleftrightarrow>
     (if r = ReqTrust then \<exists>m. v_trust_material v = Some m \<and> tm_state m = ''current''
      else if r = ReqSuccess then \<exists>e. v_execution v = Some e \<and> eo_outcome e = ''success''
      else check_passed v (if r = ReqLinkage then ''chain-linkage'' else requirement_name r))"

lemma find_distinct_name:
  assumes "distinct (map f xs)" "x \<in> set xs"
  shows "find (\<lambda>y. f y = f x) xs = Some x"
  using assms by (induction xs) force+

lemma check_reason_None:
  assumes "distinct (map check_name (v_checks v))"
  shows "check_reason v name = None \<longleftrightarrow> check_passed v name"
proof (cases "find (\<lambda>c. check_name c = name) (v_checks v)")
  case None
  then have "check_reason v name = Some (NoCheck name)" by (simp add: check_reason_def)
  moreover have "\<forall>c\<in>set (v_checks v). check_name c \<noteq> name" using None by (simp add: find_None_iff)
  ultimately show ?thesis unfolding check_passed_def by fastforce
next
  case (Some c)
  then have c: "c \<in> set (v_checks v)" "check_name c = name" by (auto simp: find_Some_iff)
  have "d = c" if "d \<in> set (v_checks v)" "check_name d = name" for d
    using find_distinct_name [OF assms that(1)] Some that(2) by simp
  then have "check_passed v name \<longleftrightarrow> check_status c = Pass" unfolding check_passed_def using c by metis
  moreover have "check_reason v name = None \<longleftrightarrow> check_status c = Pass"
    using Some by (simp add: check_reason_def split: check_status.splits)
  ultimately show ?thesis by simp
qed

lemma requirement_reason_None:
  assumes "distinct (map check_name (v_checks v))"
  shows "requirement_reason v r = None \<longleftrightarrow> requirement_met v r"
  by (cases r) (auto simp: requirement_reason_def requirement_met_def check_reason_None [OF assms] split: option.splits)

lemma unmets_requirements:
  "map unmet_requirement (concat (map (\<lambda>r. case requirement_reason v r of
     Some reason \<Rightarrow> [\<lparr>unmet_requirement = r, unmet_reason = reason\<rparr>] | None \<Rightarrow> []) rs)) =
   filter (\<lambda>r. requirement_reason v r \<noteq> None) rs"
  by (induction rs) (auto split: option.splits)

lemma apply_policy_verdict:
  "v_verdict (apply_policy required v) =
     (if (\<exists>c\<in>set (v_checks v). check_status c = Fail) \<or> (\<exists>r\<in>set required. requirement_reason v r \<noteq> None)
      then ''fail'' else ''pass'')"
  by (auto simp: apply_policy_def Let_def list_ex_iff split: option.splits)

lemma apply_policy_unchanged [simp]:
  "v_checks (apply_policy required v) = v_checks v"
  "v_signed_by (apply_policy required v) = v_signed_by v"
  "v_trust_material (apply_policy required v) = v_trust_material v"
  "v_execution (apply_policy required v) = v_execution v"
  "v_warnings (apply_policy required v) = v_warnings v"
  "v_receipt (apply_policy required v) = v_receipt v"
  by (simp_all add: apply_policy_def Let_def)

lemma requirement_reason_apply [simp]: "requirement_reason (apply_policy required v) r = requirement_reason v r"
  by (cases r) (simp_all add: requirement_reason_def check_reason_def)

lemma apply_policy_twice: "apply_policy required (apply_policy first v) = apply_policy required v"
  unfolding apply_policy_def [of required] requirement_reason_apply apply_policy_unchanged
  by (simp add: apply_policy_def Let_def)

text \<open>
  C14. A policy decides a verdict: it passes exactly when no check failed and every required claim
  is met, where a check that was skipped or never ran does not meet a requirement. The unmet
  requirements are reported, in the order they were required, and applying another policy afterwards
  forgets the first one entirely.
\<close>

theorem apply_policy_correct:
  assumes "distinct (map check_name (v_checks v))"
  shows "(verdict_passed (apply_policy required v) \<longleftrightarrow>
      (\<forall>c\<in>set (v_checks v). check_status c \<noteq> Fail) \<and> (\<forall>r\<in>set required. requirement_met v r)) \<and>
    (\<exists>outcome. v_policy (apply_policy required v) = Some outcome \<and> po_required outcome = required \<and>
      map unmet_requirement (po_unmet outcome) = filter (\<lambda>r. \<not> requirement_met v r) required) \<and>
    apply_policy required (apply_policy first v) = apply_policy required v"
proof (intro conjI)
  show "verdict_passed (apply_policy required v) \<longleftrightarrow>
      (\<forall>c\<in>set (v_checks v). check_status c \<noteq> Fail) \<and> (\<forall>r\<in>set required. requirement_met v r)"
    unfolding verdict_passed_def apply_policy_verdict requirement_reason_None [OF assms, symmetric] by auto
  show "\<exists>outcome. v_policy (apply_policy required v) = Some outcome \<and> po_required outcome = required \<and>
      map unmet_requirement (po_unmet outcome) = filter (\<lambda>r. \<not> requirement_met v r) required"
    unfolding requirement_reason_None [OF assms, symmetric] unmets_requirements [symmetric]
    by (simp add: apply_policy_def Let_def)
  show "apply_policy required (apply_policy first v) = apply_policy required v" by (rule apply_policy_twice)
qed

definition example_verdict :: receipt_verdict where
  "example_verdict = \<lparr>v_receipt = ''r'', v_verdict = ''pass'',
     v_checks = [mk_check ''signature'' Pass (Note ''ok''), mk_check ''timestamp'' Skipped (Note ''none'')],
     v_signed_by = None, v_warnings = [], v_trust_material = None,
     v_execution = Some \<lparr>eo_outcome = ''success'', eo_failed_steps = 0\<rparr>, v_policy = None\<rparr>"

theorem apply_policy_correct_witness:
  "verdict_passed (apply_policy [ReqSignature, ReqSuccess] example_verdict) \<and>
   \<not> verdict_passed (apply_policy [ReqSignature, ReqTimestamp] example_verdict)"
proof -
  have "distinct (map check_name (v_checks example_verdict))" by (simp add: example_verdict_def mk_check_def)
  from apply_policy_correct [OF this, of "[ReqSignature, ReqSuccess]"]
    apply_policy_correct [OF this, of "[ReqSignature, ReqTimestamp]"]
  show ?thesis by (simp add: requirement_met_def check_passed_def example_verdict_def mk_check_def)
qed

subsection \<open>Parsing a policy\<close>

lemma requirement_from_str_name: "requirement_from_str name = Inr r \<longleftrightarrow> name = requirement_name r"
proof
  assume "requirement_from_str name = Inr r"
  then show "name = requirement_name r"
    by (auto simp: requirement_from_str_def result_simps find_Some_iff)
next
  assume "name = requirement_name r"
  then show "requirement_from_str name = Inr r"
    by (cases r) (simp_all add: requirement_from_str_def ALL_REQUIREMENTS_def)
qed

lemma requirement_from_str_error:
  assumes "requirement_from_str name = Inl e"
  shows "e = name" "name \<notin> range requirement_name"
proof -
  show "e = name" using assms by (simp add: requirement_from_str_def ok_or_def split: option.splits)
  have "name \<noteq> requirement_name r" for r using requirement_from_str_name [of name r] assms by simp
  then show "name \<notin> range requirement_name" by blast
qed

definition policy_names :: "bytes list \<Rightarrow> bytes list" where
  "policy_names vals = concat (map (\<lambda>val. filter (\<lambda>n. n \<noteq> []) (map trim (split_on (CHR '','') val))) vals)"

lemma parse_names_append:
  "parse_names (xs @ ys) required = and_then (parse_names xs required) (parse_names ys)"
  by (induction xs arbitrary: required) (auto simp: and_then_def split: sum.splits)

lemma parse_values_names: "parse_values vals required = parse_names (policy_names vals) required"
  proof (induction vals arbitrary: required)
  case (Cons val vals)
  have "parse_values vals = parse_names (policy_names vals)" using Cons.IH by blast
  then show ?case by (simp add: policy_names_def parse_names_append)
qed (simp add: policy_names_def)

lemma parse_names_correct:
  "distinct required \<Longrightarrow>
   (case parse_names names required of
      Inr rs \<Rightarrow> distinct rs \<and> requirement_name ` set rs = requirement_name ` set required \<union> set names \<and>
        (\<exists>more. rs = required @ more)
    | Inl e \<Rightarrow> find (\<lambda>n. n \<notin> range requirement_name) names = Some e)"
proof (induction names arbitrary: required)
  case (Cons name names)
  show ?case
  proof (cases "requirement_from_str name")
    case (Inl e)
    from requirement_from_str_error [OF this] Inl show ?thesis by simp
  next
    case (Inr r)
    then have name: "name = requirement_name r" by (simp add: requirement_from_str_name)
    let ?more = "if r \<in> set required then required else required @ [r]"
    have "distinct ?more" using Cons.prems by simp
    from Cons.IH [OF this] show ?thesis
      using Inr name by (auto split: sum.splits if_splits)
  qed
qed simp

lemma parse_names_of_names:
  "distinct (required @ rs) \<Longrightarrow> parse_names (map requirement_name rs) required = Inr (required @ rs)"
proof (induction rs arbitrary: required)
  case (Cons r rs)
  moreover have "requirement_from_str (requirement_name r) = Inr r" by (simp add: requirement_from_str_name)
  ultimately show ?case using Cons.IH [of "required @ [r]"] by simp
qed simp

lemma requirement_name_visible: "list_all visible (requirement_name r)"
  by (cases r) (simp_all add: visible_def)

lemma requirement_name_plain:
  "CHR '','' \<notin> set (requirement_name r)" "trim (requirement_name r) = requirement_name r" "requirement_name r \<noteq> []"
proof -
  show "CHR '','' \<notin> set (requirement_name r)" "requirement_name r \<noteq> []" by (cases r; simp)+
  show "trim (requirement_name r) = requirement_name r" by (rule trim_visible [OF requirement_name_visible])
qed

lemma policy_names_join:
  "policy_names [join '','' (map requirement_name rs)] = map requirement_name rs"
proof (cases "rs = []")
  case True
  then show ?thesis by (simp add: policy_names_def) code_simp
next
  case False
  then have "split_on (CHR '','') (join '','' (map requirement_name rs)) = map requirement_name rs"
    by (intro split_on_join) (simp_all add: list_all_iff requirement_name_plain)
  then show ?thesis by (simp add: policy_names_def o_def requirement_name_plain)
qed

text \<open>
  Reading the values of \<open>--require\<close>: the policy lists, once each, exactly the requirements named
  in the values, whatever spaces and empty pieces surround them; it is refused exactly when some
  name is no requirement, and the error is the first such name. Writing a policy as a comma-separated
  list and reading it back gives the policy.
\<close>

theorem policy_parse_correct:
  "(case policy_parse vals of
      Inr rs \<Rightarrow> distinct rs \<and> requirement_name ` set rs = set (policy_names vals)
    | Inl e \<Rightarrow> find (\<lambda>n. n \<notin> range requirement_name) (policy_names vals) = Some e) \<and>
   policy_parse [join '','' (map requirement_name (remdups rs))] = Inr (remdups rs)"
  using parse_names_correct [of "[]" "policy_names vals"] parse_names_of_names [of "[]" "remdups rs"]
  by (auto simp: policy_parse_def parse_values_names policy_names_join split: sum.splits)

subsection \<open>The signing key\<close>

lemma trust_dir_public_keys_Cons:
  assumes "trust_dir_public_keys env dir (n # listing) = Inr m"
  shows "(\<not> is_pub_file n \<and> trust_dir_public_keys env dir listing = Inr m) \<or>
    (\<exists>pem ks. is_pub_file n \<and> read_text dir n = Some pem \<and> trust_dir_public_keys env dir listing = Inr ks \<and>
       m = (case public_of_pem env pem of None \<Rightarrow> ks
            | Some key \<Rightarrow> if key_id env key \<in> dom ks then ks else ks(key_id env key \<mapsto> hex_encode (digest_bytes key))))"
proof (cases "is_pub_file n")
  case True
  obtain pem ks where "read_text dir n = Some pem" "trust_dir_public_keys env dir listing = Inr ks"
    using assms True by (simp add: result_simps) blast
  then show ?thesis using assms True by (cases "public_of_pem env pem") simp_all
qed (use assms in simp)

lemma trust_dir_public_keys_id:
  "trust_dir_public_keys env dir listing = Inr managed \<Longrightarrow> managed i = Some hex \<Longrightarrow>
   \<exists>name pem key. read_text dir name = Some pem \<and> public_of_pem env pem = Some key \<and>
     key_id env key = i \<and> hex = hex_encode (digest_bytes key)"
proof (induction listing arbitrary: managed)
  case (Cons n listing)
  show ?case
    using trust_dir_public_keys_Cons [OF Cons.prems(1)] Cons.IH Cons.prems(2)
    by (elim disjE conjE exE) (auto split: option.splits if_splits)
qed simp

lemma trust_dir_public_keys_lists:
  assumes "trust_dir_public_keys env dir listing = Inr managed" "name \<in> set listing" "is_pub_file name"
    "read_text dir name = Some pem" "public_of_pem env pem = Some key"
  shows "key_id env key \<in> dom managed"
  using assms(1,2)
proof (induction listing arbitrary: managed)
  case (Cons n listing)
  show ?case
  proof (cases "n = name")
    case True
    then show ?thesis using trust_dir_public_keys_Cons [OF Cons.prems(1)] assms(3-5) by auto
  next
    case False
    then have "name \<in> set listing" using Cons.prems(2) by simp
    from trust_dir_public_keys_Cons [OF Cons.prems(1)] Cons.IH [OF _ this] show ?thesis
      by (elim disjE conjE exE) (auto split: option.splits if_splits)
  qed
qed simp

text \<open>The surroundings describe the trust directory: its listing names its files, and the keys of
  the managed map are iterated in some order.\<close>

definition surveyed :: "verify_env \<Rightarrow> world \<Rightarrow> trust_dir \<Rightarrow> bool" where
  "surveyed env w store \<longleftrightarrow> w_store w = Some store \<and> set (w_store_listing w) = dom (dir_files store) \<and>
     (\<forall>managed. trust_dir_public_keys (ve_keys env) (dir_files store) (w_store_listing w) = Inr managed \<longrightarrow>
        set (w_managed_order w) = dom managed)"

lemma policy_entry_pub:
  assumes "policy_load env dir = Inr policy" "policy_entry policy i = Some e"
  shows "\<exists>pem key. dir (pub_name i) \<noteq> None \<and> is_pub_file (pub_name i) \<and> read_text dir (pub_name i) = Some pem \<and>
    public_of_pem env pem = Some key \<and> key_id env key = i"
proof -
  have "e \<in> set (policy_keys policy)" and i: "entry_id e = i"
    using assms(2) by (auto simp: policy_entry_def find_Some_iff)
  then have "length i = 32" and "\<exists>pem key. read_text dir (pub_name i) = Some pem \<and> public_of_pem env pem = Some key \<and> key_id env key = i"
    using policy_load_checked [OF assms(1)] unfolding check_against_ok by blast+
  then show ?thesis by (auto simp: is_pub_file_def pub_name_def ends_with_def read_text_def split: option.splits)
qed

lemma find_unique:
  assumes "x \<in> set xs" "P x" "\<And>y. y \<in> set xs \<Longrightarrow> P y \<Longrightarrow> y = x"
  shows "find P xs = Some x"
proof -
  have "find P xs \<noteq> None" using assms(1,2) by (auto simp: find_None_iff)
  then obtain y where y: "find P xs = Some y" by blast
  then have "y \<in> set xs" "P y" by (auto simp: find_Some_iff)
  with y assms(3) show ?thesis by simp
qed

text \<open>Two keys of the store with one identifier would be a collision of the truncated hash.\<close>

definition sole_holder :: "key_env \<Rightarrow> (bytes \<rightharpoonup> bytes) \<Rightarrow> digest \<Rightarrow> bool" where
  "sole_holder env dir key \<longleftrightarrow> (\<forall>name pem other. read_text dir name = Some pem \<longrightarrow>
     public_of_pem env pem = Some other \<longrightarrow> key_id env other = key_id env key \<longrightarrow> other = key)"

lemma managed_key:
  assumes "surveyed env w store" "policy_load (ve_keys env) (dir_files store) = Inr policy"
    and managed: "trust_dir_public_keys (ve_keys env) (dir_files store) (w_store_listing w) = Inr managed"
    and "policy_entry policy (key_id (ve_keys env) key) = Some e"
    and no_collision: "sole_holder (ve_keys env) (dir_files store) key"
  shows "find (\<lambda>i. managed i = Some (hex_encode (digest_bytes key))) (w_managed_order w) = Some (key_id (ve_keys env) key)"
proof (rule find_unique)
  let ?i = "key_id (ve_keys env) key"
  obtain pem k where k: "dir_files store (pub_name ?i) \<noteq> None" "is_pub_file (pub_name ?i)"
      "read_text (dir_files store) (pub_name ?i) = Some pem" "public_of_pem (ve_keys env) pem = Some k" "key_id (ve_keys env) k = ?i"
    using policy_entry_pub [OF assms(2,4)] by blast
  have "pub_name ?i \<in> set (w_store_listing w)" using assms(1) k(1) by (auto simp: surveyed_def)
  from trust_dir_public_keys_lists [OF managed this k(2-4)] k(5) have i: "?i \<in> dom managed" by simp
  then show "?i \<in> set (w_managed_order w)" using assms(1) managed by (auto simp: surveyed_def)
  obtain hex where "managed ?i = Some hex" using i by blast
  with trust_dir_public_keys_id [OF managed this] no_collision
  show "managed ?i = Some (hex_encode (digest_bytes key))" unfolding sole_holder_def by metis
  fix j assume "managed j = Some (hex_encode (digest_bytes key))"
  from trust_dir_public_keys_id [OF managed this] show "j = ?i" by auto
qed

text \<open>Why a key is accepted, and as of which moment: it has a trusted entry, or it is a loose file of
  a store that manages no such key, or without a store it is the local key.\<close>

lemma key_trust_status_revoked:
  assumes "surveyed env w store" "policy_load (ve_keys env) (dir_files store) = Inr policy"
    and "policy_entry policy (key_id (ve_keys env) key) = Some e"
    and "sole_holder (ve_keys env) (dir_files store) key"
    and "key_trust_status env w (hex_encode (digest_bytes key)) = Inr trust"
  shows "trust = entry_trust env (Some e)"
  using assms(1,2,5) managed_key [OF assms(1,2) _ assms(3,4)]
  by (auto simp: key_trust_status_def surveyed_def result_simps assms(3))

lemma signature_check_cases:
  assumes "signature_check env w opts r trusted_time warns = ((c, signer), warns')" "check_status c = Pass"
  shows "\<exists>sig key_hex trust. signer = Some key_hex \<and> r_signature r = Some sig \<and> r_signer_public_key r = Some key_hex \<and>
    verify_with_public_key (ke_ed (ve_keys env)) key_hex (receipt_signing_bytes (ve_receipt_json env) r) sig = Inr True \<and>
    key_trust_status env w key_hex = Inr trust \<and>
    (trust = TrustedK \<or> (\<exists>at. trust = RevokedK at \<and>
      (\<exists>t. trusted_time = Some t \<and> t \<le> at \<or> trusted_time = None \<and> trust_receipt_timestamp opts \<and> r_timestamp r \<le> at)))"
  using assms
  by (auto simp: signature_check_def mk_check_def not_less split: option.splits sum.splits bool.splits key_trust.splits if_splits)


lemma accepted_key_lower:
  assumes "key_trust_status env w key_hex = Inr trust" "trust \<noteq> UnknownK"
  shows "list_all is_hex_digit key_hex"
proof -
  have enc: "list_all is_hex_digit (hex_encode bs)" for bs by (simp add: list_all_iff hex_encode_digits)
  have loose: "list_all is_hex_digit k" if "loose_key env bs = Some k" for bs k
    using that enc by (auto simp: loose_key_def Let_def is_lower_hex_def split: if_splits)
  show ?thesis
  proof (cases "w_store w")
    case None
    then show ?thesis using assms enc by (auto simp: key_trust_status_def split: option.splits if_splits)
  next
    case (Some store)
    then obtain policy managed where
      m: "trust_dir_public_keys (ve_keys env) (dir_files store) (w_store_listing w) = Inr managed"
      and t: "(case find (\<lambda>i. managed i = Some key_hex) (w_managed_order w) of
             Some i \<Rightarrow> Inr (entry_trust env (policy_entry policy i))
           | None \<Rightarrow>
               Inr (if list_ex (\<lambda>name. is_loose_file name \<and>
                      (case dir_files store name of Some bs \<Rightarrow> loose_key env bs = Some key_hex | None \<Rightarrow> False))
                      (w_store_listing w)
                    then TrustedK else UnknownK)) = (Inr trust :: (key_error, key_trust) result)"
      using assms(1) unfolding key_trust_status_def by (auto simp: result_simps)
    show ?thesis
    proof (cases "find (\<lambda>i. managed i = Some key_hex) (w_managed_order w)")
      case None
      then show ?thesis using t assms(2) loose by (auto simp: list_ex_iff split: if_splits option.splits)
    next
      case (Some i)
      then have "managed i = Some key_hex" by (auto simp: find_Some_iff)
      from trust_dir_public_keys_id [OF m this] enc show ?thesis by auto
    qed
  qed
qed

subsection \<open>A passing verdict\<close>

definition token_attests :: "verify_env \<Rightarrow> world \<Rightarrow> receipt \<Rightarrow> int \<Rightarrow> bool" where
  "token_attests env w r t \<longleftrightarrow> (\<exists>encoded sig token imprint v. r_timestamp_token r = Some encoded \<and> r_signature r = Some sig \<and>
     base64_decode (ve_keys env) encoded = Some token \<and> signature_imprint (ve_ts env) sig = Inr imprint \<and>
     verify_token (ve_ts env) token imprint (tsa_issuers (ve_keys env) (w_tsa w) (w_tsa_listing w)) = Inr v \<and>
     t = gen_time (vt_info v))"

lemma timestamp_check_time:
  "snd (timestamp_check env w r) = Some t \<Longrightarrow> token_attests env w r t"
  unfolding timestamp_check_def token_attests_def Let_def
  by (auto split: option.splits sum.splits if_splits)

lemma timestamp_check_status:
  "check_status (fst (timestamp_check env w r)) \<noteq> Fail \<Longrightarrow> r_timestamp_token r = None \<or> (\<exists>t. token_attests env w r t)"
  unfolding timestamp_check_def token_attests_def Let_def mk_check_def
  by (auto split: option.splits sum.splits if_splits)

lemma timestamp_check_none: "r_timestamp_token r = None \<Longrightarrow> snd (timestamp_check env w r) = None"
  by (simp add: timestamp_check_def)

lemma signature_check_not_skipped:
  "check_status (fst (fst (signature_check env w opts r trusted_time warns))) \<noteq> Skipped"
  unfolding signature_check_def mk_check_def
  by (auto split: option.splits sum.splits bool.splits key_trust.splits if_splits)

text \<open>A receipt whose fields are coherent.\<close>

definition coherent :: "receipt \<Rightarrow> bool" where
  "coherent r \<longleftrightarrow> r_attest_version r \<noteq> [] \<and> r_steps r \<noteq> [] \<and>
     (\<forall>h\<in>{r_pipeline_hash r} \<union> sr_input_hash ` set (r_steps r) \<union> sr_output_hash ` set (r_steps r).
        length h = 64 \<and> (\<forall>c\<in>set h. is_hex_digit c))"

lemma consistency_check_coherent: "check_status (consistency_check r) \<noteq> Fail \<longleftrightarrow> coherent r"
  unfolding consistency_check_def mk_check_def consistency_problems_def coherent_def not_digest_def is_lower_hex_def
  by (auto simp: list_all_iff)

text \<open>The receipt's signature is good: it verifies over the signed bytes of the receipt under a key
  the verifier accepts, and if that key is revoked the signature is dated no later than the
  revocation, by the token or, when the caller asked for it, by the receipt itself.\<close>

definition signature_good :: "verify_env \<Rightarrow> world \<Rightarrow> verify_options \<Rightarrow> receipt \<Rightarrow> bytes \<Rightarrow> bool" where
  "signature_good env w opts r k \<longleftrightarrow> r_signer_public_key r = Some k \<and>
     (\<exists>sig key bs. r_signature r = Some sig \<and> hex_decode k = Some (digest_bytes key) \<and> hex_decode sig = Some bs \<and>
        key_valid (ke_ed (ve_keys env)) key \<and>
        ed_verify (ke_ed (ve_keys env)) key (receipt_signing_bytes (ve_receipt_json env) r) bs) \<and>
     (key_trust_status env w k = Inr TrustedK \<or>
      (\<exists>at. key_trust_status env w k = Inr (RevokedK at) \<and>
        ((\<exists>t. token_attests env w r t \<and> t \<le> at) \<or>
         r_timestamp_token r = None \<and> trust_receipt_timestamp opts \<and> r_timestamp r \<le> at)))"

lemma verify_with_public_key_True:
  assumes "verify_with_public_key ed k m sig = Inr True"
  shows "\<exists>key bs. hex_decode k = Some (digest_bytes key) \<and> hex_decode sig = Some bs \<and> key_valid ed key \<and> ed_verify ed key m bs"
  using assms by (auto simp: verify_with_public_key_def result_simps digest_try_from_Some)

lemma signature_check_good:
  assumes sc: "signature_check env w opts r (snd (timestamp_check env w r)) warns = ((c, signer), warns')"
    and "check_status c = Pass" "check_status (fst (timestamp_check env w r)) \<noteq> Fail"
  shows "\<exists>k. signer = Some k \<and> signature_good env w opts r k"
proof -
  obtain sig k trust where s: "signer = Some k" "r_signature r = Some sig" "r_signer_public_key r = Some k"
    "verify_with_public_key (ke_ed (ve_keys env)) k (receipt_signing_bytes (ve_receipt_json env) r) sig = Inr True"
    "key_trust_status env w k = Inr trust"
    and t: "trust = TrustedK \<or> (\<exists>at. trust = RevokedK at \<and>
      (\<exists>t. snd (timestamp_check env w r) = Some t \<and> t \<le> at \<or> snd (timestamp_check env w r) = None \<and>
        trust_receipt_timestamp opts \<and> r_timestamp r \<le> at))"
    using signature_check_cases [OF sc assms(2)] by blast
  have no_time: "r_timestamp_token r = None" if "snd (timestamp_check env w r) = None"
    using that assms(3) unfolding timestamp_check_def Let_def mk_check_def
    by (auto split: option.splits sum.splits if_splits)
  have "key_trust_status env w k = Inr TrustedK \<or> (\<exists>at. key_trust_status env w k = Inr (RevokedK at) \<and>
      ((\<exists>t. token_attests env w r t \<and> t \<le> at) \<or> r_timestamp_token r = None \<and> trust_receipt_timestamp opts \<and> r_timestamp r \<le> at))"
    using t s(5) no_time timestamp_check_time by blast
  then show ?thesis
    using s(1-3) verify_with_public_key_True [OF s(4)] unfolding signature_good_def by blast
qed

lemma verify_parsed_passed:
  assumes "verdict_passed (verify_parsed env w now content label opts)"
  shows "\<exists>r cs signed_by warns. ve_receipt_of_yaml env content = Some r \<and> receipt_checks env w opts r = ((cs, signed_by), warns) \<and>
    (\<forall>c\<in>set cs. check_status c \<noteq> Fail) \<and> v_signed_by (verify_parsed env w now content label opts) = signed_by \<and>
    v_checks (verify_parsed env w now content label opts) = mk_check ''schema'' Pass (Note ''receipt matches schema'') # cs"
proof (cases "ve_receipt_of_yaml env content")
  case None
  then show ?thesis using assms
    by (auto simp: verify_parsed_def Let_def verdict_passed_def apply_policy_verdict mk_check_def split: prod.splits)
next
  case (Some r)
  obtain cs signed_by warns where rc: "receipt_checks env w opts r = ((cs, signed_by), warns)" by (metis surj_pair)
  then show ?thesis using assms Some
    by (auto simp: verify_parsed_def Let_def verdict_passed_def apply_policy_verdict mk_check_def split: prod.splits if_splits)
qed


lemma check_names:
  "check_name (consistency_check r) = ''consistency''"
  "check_name (fst (timestamp_check env w r)) = ''timestamp''"
  "check_name (fst (fst (signature_check env w opts r tt warns))) = ''signature''"
  "check_name (recompute_check env w r) = ''recompute''"
  by (simp_all add: consistency_check_def timestamp_check_def signature_check_def recompute_check_def
      wrapped_recompute_check_def native_recompute_check_def mk_check_def Let_def
      split: option.splits sum.splits bool.splits key_trust.splits execution_descriptor.splits)

lemma receipt_checks_parts:
  assumes "receipt_checks env w opts r = ((cs, signed_by), warns)"
  shows "\<exists>sc rc. cs = [consistency_check r, sc, fst (timestamp_check env w r), rc] \<and>
    check_name sc = ''signature'' \<and> check_name rc = ''recompute'' \<and>
    (check_signatures opts \<longrightarrow> signature_check env w opts r (snd (timestamp_check env w r)) [] = ((sc, signed_by), warns)) \<and>
    (\<not> check_signatures opts \<longrightarrow> check_status sc = Skipped \<and> signed_by = None) \<and>
    (opt_recompute opts \<longrightarrow> rc = recompute_check env w r) \<and> (\<not> opt_recompute opts \<longrightarrow> check_status rc = Skipped)"
proof -
  obtain sc sb ws where sc: "signature_check env w opts r (snd (timestamp_check env w r)) [] = ((sc, sb), ws)"
    by (metis surj_pair)
  show ?thesis
    using assms sc check_names(3) [of env w opts r "snd (timestamp_check env w r)" "[]"] check_names(4) [of env w r]
    by (cases "check_signatures opts"; cases "opt_recompute opts")
       (auto simp: receipt_checks_def Let_def case_prod_unfold mk_check_def)
qed

lemma verify_parsed_names:
  "distinct (map check_name (v_checks (verify_parsed env w now content label opts)))"
proof (cases "ve_receipt_of_yaml env content")
  case None
  then show ?thesis
    by (simp add: verify_parsed_def Let_def mk_check_def skipped_checks_def split: prod.splits)
next
  case (Some r)
  obtain cs signed_by warns where rc: "receipt_checks env w opts r = ((cs, signed_by), warns)" by (metis surj_pair)
  have "distinct (map check_name (mk_check ''schema'' Pass (Note ''receipt matches schema'') # cs))"
    using receipt_checks_parts [OF rc] check_names by (auto simp: mk_check_def)
  then show ?thesis using Some rc
    by (simp add: verify_parsed_def Let_def split: prod.splits)
qed

lemma verify_parsed_policy:
  assumes "verdict_passed (verify_parsed env w now content label opts)" "req \<in> set (opt_policy opts)"
  shows "requirement_met (verify_parsed env w now content label opts) req"
proof -
  obtain v where v: "verify_parsed env w now content label opts = apply_policy (opt_policy opts) v"
    unfolding verify_parsed_def Let_def case_prod_unfold by blast
  have "requirement_reason v req = None"
    using assms unfolding v verdict_passed_def apply_policy_verdict by (auto split: if_splits)
  then have "requirement_reason (verify_parsed env w now content label opts) req = None" by (simp add: v)
  then show ?thesis using requirement_reason_None [OF verify_parsed_names] by blast
qed

lemma verify_receipt_file_passed:
  assumes "verify_receipt_file env w now name file opts = Inr v" "verdict_passed v"
  shows "\<exists>content. file = Some content \<and> length content \<le> MAX_RECEIPT_BYTES \<and> v = verify_parsed env w now content name opts"
proof -
  obtain content where c: "file = Some content" "length content \<le> MAX_RECEIPT_BYTES"
    and v: "verify_receipt_bytes env w now content name opts = Inr v"
    using assms(1) by (auto simp: verify_receipt_file_def read_bounded_def result_simps)
  have "v = verify_parsed env w now content name opts"
    using v assms(2) by (auto simp: verify_receipt_bytes_def result_simps verdict_passed_def apply_policy_verdict mk_check_def
        split: option.splits if_splits)
  with c show ?thesis by blast
qed

lemma verify_parsed_sound:
  assumes v: "v = verify_parsed env w now content name opts" and passed: "verdict_passed v"
  shows "\<exists>r. ve_receipt_of_yaml env content = Some r \<and> coherent r \<and>
    (check_signatures opts \<longrightarrow> (\<exists>k. v_signed_by v = Some k \<and> signature_good env w opts r k)) \<and>
    (r_timestamp_token r = None \<or> (\<exists>t. token_attests env w r t)) \<and>
    (opt_recompute opts \<longrightarrow> check_status (recompute_check env w r) \<noteq> Fail)"
proof -
  obtain r cs signed_by warns where r: "ve_receipt_of_yaml env content = Some r"
    and rc: "receipt_checks env w opts r = ((cs, signed_by), warns)"
    and ok: "\<forall>c\<in>set cs. check_status c \<noteq> Fail" and sb: "v_signed_by v = signed_by"
    using verify_parsed_passed passed unfolding v by blast
  obtain sc re where parts: "cs = [consistency_check r, sc, fst (timestamp_check env w r), re]"
    and sc: "check_signatures opts \<longrightarrow> signature_check env w opts r (snd (timestamp_check env w r)) [] = ((sc, signed_by), warns)"
    and re: "opt_recompute opts \<longrightarrow> re = recompute_check env w r"
    using receipt_checks_parts [OF rc] by blast
  have fails: "check_status (consistency_check r) \<noteq> Fail" "check_status sc \<noteq> Fail"
    "check_status (fst (timestamp_check env w r)) \<noteq> Fail" "check_status re \<noteq> Fail"
    using ok by (simp_all add: parts)
  have sig: "\<exists>k. v_signed_by v = Some k \<and> signature_good env w opts r k" if "check_signatures opts"
  proof -
    have s: "signature_check env w opts r (snd (timestamp_check env w r)) [] = ((sc, signed_by), warns)" using sc that by blast
    have "check_status sc \<noteq> Skipped" using signature_check_not_skipped [of env w opts r "snd (timestamp_check env w r)" "[]"] s by simp
    then have "check_status sc = Pass" using fails(2) by (cases "check_status sc") simp_all
    from signature_check_good [OF s this fails(3)] show ?thesis by (simp add: sb)
  qed
  then show ?thesis
    using r re fails timestamp_check_status [OF fails(3)] consistency_check_coherent by blast
qed

text \<open>
  C2. What a passing verdict means. The receipt file was within the size limit and held a coherent
  receipt; with signatures checked, it is signed over its whole content by the key the verdict names,
  which the verifier's store accepts, and if that key is revoked the signature is dated no later than
  its revocation; a timestamp token that is present covers the receipt's own signature and was issued under
  a pinned authority; with recomputation asked for, the recomputation did not fail; and every
  requirement of the policy is met.
\<close>

theorem verify_receipt_sound:
  assumes "verify_receipt_file env w now name file opts = Inr v" "verdict_passed v"
  shows "\<exists>content r. file = Some content \<and> length content \<le> MAX_RECEIPT_BYTES \<and>
    ve_receipt_of_yaml env content = Some r \<and> coherent r \<and>
    (check_signatures opts \<longrightarrow> (\<exists>k. v_signed_by v = Some k \<and> signature_good env w opts r k)) \<and>
    (r_timestamp_token r = None \<or> (\<exists>t. token_attests env w r t)) \<and>
    (opt_recompute opts \<longrightarrow> check_status (recompute_check env w r) \<noteq> Fail) \<and>
    (\<forall>req\<in>set (opt_policy opts). requirement_met v req)"
proof -
  obtain content where c: "file = Some content" "length content \<le> MAX_RECEIPT_BYTES"
    and v: "v = verify_parsed env w now content name opts"
    using verify_receipt_file_passed [OF assms] by blast
  have "requirement_met v req" if "req \<in> set (opt_policy opts)" for req
    using verify_parsed_policy that assms(2) unfolding v by blast
  then show ?thesis using c verify_parsed_sound [OF v assms(2)] by blast
qed

text \<open>
  C8. A revoked key stays refused. When the trust policy revokes the key a receipt names as its signer,
  in whatever case its hexadecimal form is written and whatever loose key files lie in the store,
  a verdict that checks signatures passes only if a timestamp token dates the signature no later than
  the revocation, or the receipt has no token, the caller chose to trust its own date, and that date is
  no later than the revocation. No other key of the store has the identifier of the revoked one.
\<close>

theorem revoked_signer_refused:
  assumes "verify_receipt_file env w now name file opts = Inr v" "verdict_passed v" "check_signatures opts"
    and "file = Some content" "ve_receipt_of_yaml env content = Some r"
    and "surveyed env w store" "policy_load (ve_keys env) (dir_files store) = Inr policy"
    and "r_signer_public_key r = Some k" "hex_decode k = Some (digest_bytes key)"
    and "policy_entry policy (key_id (ve_keys env) key) = Some e" "entry_status e = Revoked"
    and "sole_holder (ve_keys env) (dir_files store) key"
  shows "(\<exists>t. token_attests env w r t \<and> t \<le> or_min (ve_trust env) (revoked_at e)) \<or>
    r_timestamp_token r = None \<and> trust_receipt_timestamp opts \<and> r_timestamp r \<le> or_min (ve_trust env) (revoked_at e)"
proof -
  have "v = verify_parsed env w now content name opts"
    using verify_receipt_file_passed [OF assms(1,2)] assms(4) by simp
  from verify_parsed_sound [OF this assms(2)] have good: "signature_good env w opts r k"
    using assms(3,5,8) by (auto simp: signature_good_def)
  then obtain trust where t: "key_trust_status env w k = Inr trust" "trust \<noteq> UnknownK"
    by (auto simp: signature_good_def)
  have k: "k = hex_encode (digest_bytes key)"
    using hex_encode_of_decode [OF accepted_key_lower [OF t] assms(9)] by simp
  have "trust = RevokedK (or_min (ve_trust env) (revoked_at e))"
    using key_trust_status_revoked [OF assms(6,7,10,12)] t(1) assms(11) unfolding k by (simp add: entry_trust_def)
  then show ?thesis using good t(1) by (auto simp: signature_good_def)
qed

text \<open>A receipt signed by the revoked key of the example store, dated before its revocation at 5.\<close>

definition example_signed_receipt :: receipt where
  "example_signed_receipt = example_receipt\<lparr>r_timestamp := 4,
     r_signer_public_key := Some (hex_encode (digest_bytes (digest_of ''r''))),
     r_signature := Some (hex_encode (digest_bytes (digest_of ''r'') @ digest_bytes (digest_of ''json'')))\<rparr>"

definition example_verify_env :: verify_env where
  "example_verify_env = \<lparr>ve_trust = example_recipient_env, ve_ts = example_ts_env, ve_capsule = example_capsule_env,
     ve_receipt_json = (\<lambda>_. ''json''), ve_yaml_ok = (\<lambda>_. True), ve_yaml_schema_version = (\<lambda>_. Some 3),
     ve_receipt_of_yaml = (\<lambda>_. Some example_signed_receipt), ve_pipeline_of_yaml = (\<lambda>_. None),
     ve_pipeline_to_yaml = (\<lambda>_. []), ve_command_json = (\<lambda>_. []), ve_lowercase = id\<rparr>"

definition example_world :: world where
  "example_world = \<lparr>w_store = Some example_recipient,
     w_store_listing = [''trust.toml'', pub_name (entry_id example_trusted), pub_name (entry_id example_revoked)],
     w_bundle_listing = [], w_managed_order = [entry_id example_trusted, entry_id example_revoked],
     w_tsa = Map.empty, w_tsa_listing = [], w_local_key = None, w_workspace = [],
     w_fs = example_fs, w_pipeline_file = None, w_capsules = Map.empty\<rparr>"

definition example_options :: verify_options where
  "example_options = \<lparr>check_signatures = True, opt_recompute = False, trust_receipt_timestamp = True,
     opt_policy = [ReqSignature, ReqSuccess]\<rparr>"

lemma example_ve [simp]: "ve_trust example_verify_env = example_recipient_env"
  by (simp add: example_verify_env_def)

lemma example_pub_files:
  "is_pub_file (pub_name (entry_id example_trusted))" "is_pub_file (pub_name (entry_id example_revoked))"
  "\<not> is_pub_file ''trust.toml''"
  by (simp_all add: is_pub_file_def pub_name_def ends_with_def example_trusted_def example_revoked_def digest_bytes_of)

lemma example_managed:
  "trust_dir_public_keys example_key_env (dir_files example_recipient) (w_store_listing example_world) =
     Inr [entry_id example_revoked \<mapsto> hex_encode (digest_bytes (digest_of ''r'')),
          entry_id example_trusted \<mapsto> hex_encode (digest_bytes (digest_of ''t''))]"
proof -
  have "dir_files example_recipient (pub_name (entry_id example_trusted)) = Some (digest_bytes (digest_of ''t''))"
    "dir_files example_recipient (pub_name (entry_id example_revoked)) = Some (digest_bytes (digest_of ''r''))"
    using example_ids by (simp_all add: example_recipient_def example_store_def)
  then have "read_text (dir_files example_recipient) (pub_name (entry_id example_trusted)) = Some (digest_bytes (digest_of ''t''))"
    "read_text (dir_files example_recipient) (pub_name (entry_id example_revoked)) = Some (digest_bytes (digest_of ''r''))"
    using example_utf8 by (simp_all add: read_text_def)
  moreover have "public_of_pem example_key_env = digest_try_from" by (simp add: example_key_env_def)
  ultimately show ?thesis
    using example_ids by (simp add: example_world_def example_pub_files example_key_ids)
qed

lemma example_surveyed: "surveyed example_verify_env example_world example_recipient"
proof -
  have "set (w_store_listing example_world) = dom (dir_files example_recipient)"
    by (auto simp: example_world_def example_recipient_def example_store_def)
  moreover have "set (w_managed_order example_world) = dom [entry_id example_revoked \<mapsto> hex_encode (digest_bytes (digest_of ''r'')),
          entry_id example_trusted \<mapsto> hex_encode (digest_bytes (digest_of ''t''))]"
    by (auto simp: example_world_def)
  ultimately show ?thesis
    using example_managed by (simp add: surveyed_def) (simp add: example_world_def)
qed

lemma example_sole: "sole_holder example_key_env (dir_files example_recipient) (digest_of ''r'')"
  unfolding sole_holder_def example_key_ids
proof (intro allI impI)
  fix name pem other
  assume a: "read_text (dir_files example_recipient) name = Some pem" "public_of_pem example_key_env pem = Some other"
    "key_id example_key_env other = entry_id example_revoked"
  have "dir_files example_recipient name = Some pem" using a(1) by (auto simp: read_text_def split: option.splits if_splits)
  moreover have "digest_bytes other = pem" using a(2) by (simp add: example_key_env_def digest_try_from_Some)
  ultimately have "pem = digest_bytes (digest_of ''t'') \<or> pem = digest_bytes (digest_of ''r'') \<or> pem = ''1''"
    by (auto simp: example_recipient_def example_store_def split: if_splits)
  moreover have "pem \<noteq> ''1''" using \<open>digest_bytes other = pem\<close> length_digest_bytes [of other] by auto
  moreover have "other \<noteq> digest_of ''t''" using a(3) example_key_ids(1) example_ids by auto
  ultimately show "other = digest_of ''r''" using \<open>digest_bytes other = pem\<close> by auto
qed

lemma example_revoked_entry: "policy_entry example_policy (entry_id example_revoked) = Some example_revoked"
  using example_ids by (simp add: policy_entry_def example_policy_def)

lemma example_revocation: "entry_status example_revoked = Revoked" "revoked_at example_revoked = Some 5"
  by (simp_all add: example_revoked_def)

lemma example_key_trust:
  "key_trust_status example_verify_env example_world (hex_encode (digest_bytes (digest_of ''r''))) = Inr (RevokedK 5)"
proof -
  have "policy_load example_key_env (dir_files example_recipient) = Inr example_policy"
    using example_load by (simp add: example_recipient_def)
  moreover have "w_store example_world = Some example_recipient" by (simp add: example_world_def)
  moreover have "find (\<lambda>i. [entry_id example_revoked \<mapsto> hex_encode (digest_bytes (digest_of ''r'')),
          entry_id example_trusted \<mapsto> hex_encode (digest_bytes (digest_of ''t''))] i =
        Some (hex_encode (digest_bytes (digest_of ''r'')))) (w_managed_order example_world) = Some (entry_id example_revoked)"
    using example_ids by (simp add: example_world_def digest_simps)
  ultimately show ?thesis
    using example_revoked_entry example_revocation
    by (simp add: key_trust_status_def example_managed entry_trust_def or_min_def)
qed

lemma example_signature_check:
  "signature_check example_verify_env example_world example_options example_signed_receipt None [] =
    ((mk_check ''signature'' Pass (Note ''valid signature; signed by key revoked later''),
      Some (hex_encode (digest_bytes (digest_of ''r'')))),
     [WarnReceiptTimestamp (hex_encode (digest_bytes (digest_of ''r''))), WarnRevokedLater (hex_encode (digest_bytes (digest_of ''r''))) 5])"
proof -
  let ?sig = "hex_encode (digest_bytes (digest_of ''r'') @ digest_bytes (digest_of ''json''))"
  let ?key = "hex_encode (digest_bytes (digest_of ''r''))"
  have v: "verify_with_public_key (ke_ed example_key_env) ?key
      (receipt_signing_bytes (ve_receipt_json example_verify_env) example_signed_receipt) ?sig = Inr True"
    by (simp add: verify_with_public_key_def receipt_signing_bytes_def example_verify_env_def example_key_env_def example_ed_def)
  have r: "r_signature example_signed_receipt = Some ?sig" "r_signer_public_key example_signed_receipt = Some ?key"
    "r_timestamp example_signed_receipt = 4" "trust_receipt_timestamp example_options"
    by (simp_all add: example_signed_receipt_def example_options_def)
  show ?thesis unfolding signature_check_def by (simp add: r v example_key_trust del: hex_encode_inject)
qed

lemma example_coherent: "coherent example_signed_receipt"
  by (simp add: coherent_def example_signed_receipt_def example_receipt_def is_hex_digit_def)

lemma example_verified:
  "verify_receipt_file example_verify_env example_world 9 ''r'' (Some ''y'') example_options =
     Inr (verify_parsed example_verify_env example_world 9 ''y'' ''r'' example_options)"
  by (simp add: verify_receipt_file_def read_bounded_def MAX_RECEIPT_BYTES_def verify_receipt_bytes_def example_verify_env_def
      RECEIPT_SCHEMA_VERSION_def)

lemma example_passed: "verdict_passed (verify_parsed example_verify_env example_world 9 ''y'' ''r'' example_options)"
proof -
  have tc: "timestamp_check example_verify_env example_world example_signed_receipt =
      (mk_check ''timestamp'' Skipped (Note ''receipt carries no timestamp token''), None)"
    by (simp add: timestamp_check_def example_signed_receipt_def example_receipt_def)
  have cc: "consistency_check example_signed_receipt = mk_check ''consistency'' Pass (Note ''receipt is coherent'')"
    using example_coherent consistency_check_coherent [of example_signed_receipt]
    by (auto simp: consistency_check_def mk_check_def split: if_splits)
  have eo: "execution_outcome example_signed_receipt = \<lparr>eo_outcome = ''success'', eo_failed_steps = 0\<rparr>"
    by (simp add: execution_outcome_def example_signed_receipt_def example_receipt_def)
  have o: "check_signatures example_options" "\<not> opt_recompute example_options" "opt_policy example_options = [ReqSignature, ReqSuccess]"
    by (simp_all add: example_options_def)
  have y: "ve_receipt_of_yaml example_verify_env ''y'' = Some example_signed_receipt" by (simp add: example_verify_env_def)
  show ?thesis
    unfolding verify_parsed_def verdict_passed_def receipt_checks_def tc prod.case Let_def o example_signature_check y option.case if_True
    by (simp add: apply_policy_verdict mk_check_def cc o(1,2) eo requirement_reason_def check_reason_def case_prod_unfold)
qed

theorem verify_receipt_sound_witness:
  "\<exists>k. signature_good example_verify_env example_world example_options example_signed_receipt k"
proof -
  have "ve_receipt_of_yaml example_verify_env content = Some example_signed_receipt" for content
    by (simp add: example_verify_env_def)
  moreover have "check_signatures example_options" by (simp add: example_options_def)
  ultimately show ?thesis using verify_receipt_sound [OF example_verified example_passed] by auto
qed

theorem revoked_signer_refused_witness:
  "r_timestamp example_signed_receipt \<le> 5"
proof -
  have r: "ve_receipt_of_yaml example_verify_env ''y'' = Some example_signed_receipt" "check_signatures example_options"
    "r_signer_public_key example_signed_receipt = Some (hex_encode (digest_bytes (digest_of ''r'')))"
    "r_timestamp_token example_signed_receipt = None"
    by (simp_all add: example_verify_env_def example_options_def example_signed_receipt_def example_receipt_def)
  have load: "policy_load (ve_keys example_verify_env) (dir_files example_recipient) = Inr example_policy"
    using example_load by (simp add: example_recipient_def)
  have "policy_entry example_policy (key_id (ve_keys example_verify_env) (digest_of ''r'')) = Some example_revoked"
    using example_revoked_entry by (simp add: example_key_ids)
  from revoked_signer_refused [OF example_verified example_passed r(2) refl r(1) example_surveyed load r(3) _ this
      example_revocation(1)] example_sole example_revocation(2) r(4)
  show ?thesis by (auto simp: token_attests_def or_min_def)
qed

subsection \<open>Recomputation\<close>

text \<open>A step of the receipt agrees with its declaration and with the workspace.\<close>

definition capsule_agrees :: "verify_env \<Rightarrow> world \<Rightarrow> step \<Rightarrow> step_result \<Rightarrow> bool" where
  "capsule_agrees env w st sr \<longleftrightarrow>
     (case step_capsule st of
        None \<Rightarrow> sr_capsule_hash sr = None
      | Some name \<Rightarrow> \<exists>m. capsule_load (ve_capsule env) (w_capsules w) name = Inr m \<and>
          sr_capsule_hash sr = Some (case cm_capsule_hash m of Some h \<Rightarrow> h | None \<Rightarrow> []))"

definition step_agrees :: "verify_env \<Rightarrow> world \<Rightarrow> pipeline \<Rightarrow> step_result \<Rightarrow> bool" where
  "step_agrees env w p sr \<longleftrightarrow> (\<exists>st. map_of (steps p) (sr_name sr) = Some st \<and> capsule_agrees env w st sr \<and>
     hash_inputs (ve_blake3 env) (w_fs w) (w_workspace w) (sr_name sr) (step_run st) (map components (step_inputs st))
       = Inr (sr_input_hash sr) \<and>
     hash_outputs (ve_blake3 env) (w_fs w) (w_workspace w) (sr_name sr) (map components (step_outputs st))
       = Inr (sr_output_hash sr))"

lemma capsule_problems_none: "capsule_problems env w st sr = [] \<longleftrightarrow> capsule_agrees env w st sr"
proof (cases "step_capsule st")
  case None
  then show ?thesis by (simp add: capsule_problems_def capsule_agrees_def split: option.splits)
next
  case (Some name)
  then show ?thesis
    by (cases "sr_capsule_hash sr"; cases "capsule_load (ve_capsule env) (w_capsules w) name")
       (auto simp: capsule_problems_def capsule_agrees_def Let_def)
qed

lemma step_problems_none: "step_problems env w p sr = [] \<longleftrightarrow> step_agrees env w p sr"
  by (auto simp: step_problems_def step_agrees_def capsule_problems_none input_problems_def output_problems_def
      split: option.splits sum.splits)

lemma native_problems_none:
  "native_problems env w r p = [] \<longleftrightarrow>
     to_hex (ve_blake3 env (ve_pipeline_to_yaml env p)) = r_pipeline_hash r \<and>
     sr_name ` set (r_steps r) = set (keys (steps p)) \<and> (\<forall>sr\<in>set (r_steps r). step_agrees env w p sr)"
proof -
  have "sr_name sr \<in> set (keys (steps p))" if agrees: "step_agrees env w p sr" for sr
  proof -
    obtain st where "map_of (steps p) (sr_name sr) = Some st" using agrees unfolding step_agrees_def by blast
    then show ?thesis by (metis domI dom_map_of_conv_image_fst list.set_map keys_def)
  qed
  then show ?thesis
    by (auto simp: native_problems_def Let_def step_problems_none filter_empty_conv)
qed

text \<open>
  C13. What the recomputation of a native run establishes. It passes exactly when the workspace has a
  readable pipeline whose hash is the recorded one, the receipt has results for exactly the steps the
  pipeline declares, and for every result the declared command and inputs hash to the recorded
  input hash, the declared outputs to the recorded output hash, and the capsule is the recorded one;
  in every other case it fails, and it is never skipped.
\<close>

theorem native_recompute_correct:
  "(check_status (native_recompute_check env w r) = Pass \<longleftrightarrow>
     (\<exists>content p. w_pipeline_file w = Some content \<and> is_utf8 content \<and> ve_pipeline_of_yaml env content = Some p \<and>
       to_hex (ve_blake3 env (ve_pipeline_to_yaml env p)) = r_pipeline_hash r \<and>
       sr_name ` set (r_steps r) = set (keys (steps p)) \<and> (\<forall>sr\<in>set (r_steps r). step_agrees env w p sr))) \<and>
   (check_status (native_recompute_check env w r) = Pass \<or> check_status (native_recompute_check env w r) = Fail)"
  unfolding native_problems_none [symmetric]
  by (auto simp: native_recompute_check_def mk_check_def split: option.splits if_splits)

text \<open>
  Files that are no receipts. A file that cannot be read, is over the limit, or is not YAML is an
  error; a receipt of a newer schema and a document that is no receipt give a failing verdict
  that lists the remaining checks as skipped and an unknown execution outcome, whatever the policy.
\<close>

theorem verify_receipt_errors:
  "verify_receipt_file env w now name None opts = Inl Unreadable \<and>
   (length content > MAX_RECEIPT_BYTES \<longrightarrow>
      verify_receipt_file env w now name (Some content) opts = Inl (ResourceLimit (length content))) \<and>
   (length content \<le> MAX_RECEIPT_BYTES \<and> \<not> ve_yaml_ok env content \<longrightarrow>
      verify_receipt_file env w now name (Some content) opts = Inl NotYaml) \<and>
   (length content \<le> MAX_RECEIPT_BYTES \<and> ve_yaml_ok env content \<and>
      ((\<exists>v. ve_yaml_schema_version env content = Some v \<and> 3 < v) \<or> ve_receipt_of_yaml env content = None) \<longrightarrow>
      (\<exists>v. verify_receipt_file env w now name (Some content) opts = Inr v \<and> \<not> verdict_passed v \<and>
        tl (v_checks v) = skipped_checks \<and> v_execution v = Some unknown_outcome))"
proof (intro conjI impI)
  assume a: "length content \<le> MAX_RECEIPT_BYTES \<and> ve_yaml_ok env content \<and>
      ((\<exists>v. ve_yaml_schema_version env content = Some v \<and> 3 < v) \<or> ve_receipt_of_yaml env content = None)"
  show "\<exists>v. verify_receipt_file env w now name (Some content) opts = Inr v \<and> \<not> verdict_passed v \<and>
        tl (v_checks v) = skipped_checks \<and> v_execution v = Some unknown_outcome"
    using a by (auto simp: verify_receipt_file_def read_bounded_def verify_receipt_bytes_def RECEIPT_SCHEMA_VERSION_def
        verdict_passed_def apply_policy_verdict mk_check_def verify_parsed_def Let_def case_prod_unfold split: option.splits)
qed (simp_all add: verify_receipt_file_def read_bounded_def verify_receipt_bytes_def)

theorem verify_receipt_errors_witness:
  "verify_receipt_file (example_verify_env\<lparr>ve_yaml_ok := (\<lambda>_. False)\<rparr>) example_world 9 ''r'' (Some ''y'') example_options = Inl NotYaml \<and>
   (\<exists>v. verify_receipt_file (example_verify_env\<lparr>ve_yaml_schema_version := (\<lambda>_. Some 4)\<rparr>) example_world 9 ''r'' (Some ''y'') example_options
     = Inr v \<and> \<not> verdict_passed v)"
  using verify_receipt_errors [of "example_verify_env\<lparr>ve_yaml_ok := (\<lambda>_. False)\<rparr>" example_world 9 "''r''" example_options "''y''"]
    verify_receipt_errors [of "example_verify_env\<lparr>ve_yaml_schema_version := (\<lambda>_. Some 4)\<rparr>" example_world 9 "''r''" example_options "''y''"]
  by (auto simp: MAX_RECEIPT_BYTES_def example_verify_env_def)

text \<open>A workspace with one step over a file and a link, and the receipt of its run.\<close>

definition example_step :: step where
  "example_step = \<lparr>step_run = ''make'', step_inputs = [''a'', ''l''], step_outputs = [], step_needs = None, step_env = None,
     working_dir = None, step_image = None, step_capsule = None, step_cache = False, timeout_secs = None, step_attestation = None\<rparr>"

definition example_built :: pipeline where
  "example_built = \<lparr>schema_version = None, pipeline_version = ''1'', pipeline_name = None, steps = [(''s'', example_step)],
     pipeline_env = [], attestation = \<lparr>sign_all_steps = False, verify_dependencies = False, require_reproducible = False\<rparr>\<rparr>"

definition example_build_env :: verify_env where
  "example_build_env = example_verify_env\<lparr>ve_pipeline_of_yaml := (\<lambda>_. Some example_built)\<rparr>"

definition example_build_world :: world where
  "example_build_world = example_world\<lparr>w_pipeline_file := Some ''p'', w_workspace := example_root\<rparr>"

definition example_run :: "bytes \<Rightarrow> bytes \<Rightarrow> receipt" where
  "example_run input output = example_receipt\<lparr>r_pipeline_hash := to_hex (digest_of []),
     r_steps := [\<lparr>sr_name = ''s'', sr_input_hash = input, sr_output_hash = output, sr_duration_secs = 1, sr_exit_code = 0,
       sr_cache_hit = False, sr_stdout = [], sr_stderr = [], sr_capsule_hash = None\<rparr>]\<rparr>"

theorem native_recompute_correct_witness:
  "\<exists>i out. check_status (native_recompute_check example_build_env example_build_world (example_run i out)) = Pass \<and>
    check_status (native_recompute_check example_build_env example_build_world (example_run ''?'' out)) = Fail"
proof -
  obtain i where i: "hash_inputs digest_of example_fs example_root ''s'' ''make'' [[Normal ''a''], [Normal ''l'']] = Inr i"
    using example_hash by blast
  obtain out where out: "hash_outputs digest_of example_fs example_root ''s'' [] = Inr out"
    by (simp add: hash_outputs_def output_manifest_def collect_entries_def)
  have b: "ve_blake3 example_build_env = digest_of"
    by (simp add: example_build_env_def example_verify_env_def example_recipient_env_def example_key_env_def)
  have c: "components ''a'' = [Normal ''a'']" "components ''l'' = [Normal ''l'']"
    by (simp_all add: components_def component_of_def Let_def starts_with_def)
  have w: "w_fs example_build_world = example_fs" "w_workspace example_build_world = example_root" "w_pipeline_file example_build_world = Some ''p''"
    by (simp_all add: example_build_world_def example_world_def)
  have e: "ve_pipeline_of_yaml example_build_env ''p'' = Some example_built" "ve_pipeline_to_yaml example_build_env example_built = []"
    by (simp_all add: example_build_env_def example_verify_env_def)
  have agrees: "step_agrees example_build_env example_build_world example_built sr \<longleftrightarrow> sr_input_hash sr = i \<and> sr_output_hash sr = out"
    if "sr_name sr = ''s''" "sr_capsule_hash sr = None" for sr
    using that i out by (auto simp: step_agrees_def b w c capsule_agrees_def example_built_def example_step_def)
  have "check_status (native_recompute_check example_build_env example_build_world (example_run i out)) = Pass"
    using native_recompute_correct [of example_build_env example_build_world "example_run i out"]
    by (simp add: w e b agrees example_run_def example_receipt_def) (simp add: example_built_def keys_def)
  moreover have "''?'' \<noteq> i" using i by (auto simp: hash_inputs_def result_simps to_hex_def dest: arg_cong [where f = length])
  then have "check_status (native_recompute_check example_build_env example_build_world (example_run ''?'' out)) = Fail"
    using native_recompute_correct [of example_build_env example_build_world "example_run ''?'' out"]
    by (auto simp: w e b agrees example_run_def example_receipt_def)
  ultimately show ?thesis by blast
qed

end
