(* ===== verification/Tiles.thy ===== *)
theory Tiles
  imports Merkle Text
begin

text \<open>
  Hash tiles of a transparency log, from \<open>src/publication/tiles.rs\<close>: the path of a tile, the
  reader that fetches and caches tiles, the roots of subtrees it computes from them, and the proofs
  it assembles. A source is a function from paths to responses: an error, nothing, or bytes. An
  operation returns its result together with the reader after it, errors included. The
  specification is the tree hash \<open>mth\<close> of the entries of the log.
\<close>

section \<open>Definitions\<close>

definition TILE_BYTES :: nat where "TILE_BYTES = 256 * 32"

datatype tile_error =
    TileCoordinates | SubtreeOutside | TileWidth | TooManyTiles | SourceFailed | NoTile | TileUnavailable
  | TileLength | NotCached | SlicePanic | EmptySubtree | RangeOutside | MissingRight | MissingLeft
  | BadAssembly | MissingRoot | SizePanic | ComparisonOutside | RangesFailed merkle_error

type_synonym tile_source = "bytes \<Rightarrow> (unit, bytes option) result"

text \<open>\<open>format!("{:03}", n)\<close>\<close>

definition pad3 :: "nat \<Rightarrow> bytes" where
  "pad3 n = replicate (3 - length (show_nat n)) (CHR ''0'') @ show_nat n"

function tile_groups :: "nat \<Rightarrow> bytes list" where
  "tile_groups index = (if index = 0 then [] else (CHR ''x'' # pad3 (index mod 1000)) # tile_groups (index div 1000))"
  by pat_completeness auto
termination
  by (relation "measure id") auto

declare tile_groups.simps [simp del]

definition tile_path :: "nat \<Rightarrow> u64 \<Rightarrow> nat \<Rightarrow> (tile_error, bytes) result" where
  "tile_path level index width =
     ensure (level \<le> 63 \<and> 1 \<le> width \<and> width \<le> 256) TileCoordinates (
     let groups = rev (pad3 (unat index mod 1000) # tile_groups (unat index div 1000));
         suffix = (if width = 256 then [] else ''.p/'' @ show_nat width)
     in Inr (''tile/'' @ show_nat level @ ''/'' @ join ''/'' groups @ suffix))"

record tile_reader =
  reader_tree_size :: u64
  reader_cache :: "((nat \<times> u64) \<times> digest list) list"

definition reader_new :: "u64 \<Rightarrow> tile_reader" where
  "reader_new authenticated_tree_size = \<lparr>reader_tree_size = authenticated_tree_size, reader_cache = []\<rparr>"

definition is_power_of_two :: "u64 \<Rightarrow> bool" where
  "is_power_of_two w \<longleftrightarrow> w \<noteq> 0 \<and> w AND (w - 1) = 0"

definition trailing_zeros :: "u64 \<Rightarrow> nat" where
  "trailing_zeros w = length (takeWhile (\<lambda>i. \<not> bit w i) [0..<64])"

text \<open>\<open>start.checked_add(size).is_some_and(|end| end <= tree_size)\<close>\<close>

definition range_within :: "u64 \<Rightarrow> u64 \<Rightarrow> u64 \<Rightarrow> bool" where
  "range_within start sz tree_size \<longleftrightarrow> unat start + unat sz < 2 ^ 64 \<and> start + sz \<le> tree_size"

text \<open>\<open>as_chunks::<32>().0\<close> and \<open>as_chunks::<2>().0\<close>: an incomplete last chunk is left out.\<close>

fun chunk_hashes :: "nat \<Rightarrow> bytes \<Rightarrow> digest list" where
  "chunk_hashes 0 bs = []"
| "chunk_hashes (Suc n) bs = digest_of (take 32 bs) # chunk_hashes n (drop 32 bs)"

fun pair_hashes :: "(bytes \<Rightarrow> digest) \<Rightarrow> digest list \<Rightarrow> digest list" where
  "pair_hashes sha (a # b # hs) = node_hash sha a b # pair_hashes sha hs"
| "pair_hashes sha _ = []"

lemma length_pair_hashes: "length (pair_hashes sha hs) = length hs div 2"
  by (induction sha hs rule: pair_hashes.induct) simp_all

function fold_level :: "(bytes \<Rightarrow> digest) \<Rightarrow> digest list \<Rightarrow> digest list" where
  "fold_level sha hs = (if length hs > 1 then fold_level sha (pair_hashes sha hs) else hs)"
  by pat_completeness auto
termination
  by (relation "measure (\<lambda>(sha, hs). length hs)") (auto simp: length_pair_hashes)

declare fold_level.simps [simp del]

text \<open>Where the root of an aligned subtree is found: level, tile, offset and count in the tile, and the
  width of the tile in the authenticated tree.\<close>

definition tile_level :: "u64 \<Rightarrow> nat" where
  "tile_level sz = trailing_zeros sz div 8"

definition node_index :: "u64 \<Rightarrow> u64 \<Rightarrow> u64" where
  "node_index start sz = drop_bit (8 * tile_level sz) start"

definition tile_index :: "u64 \<Rightarrow> u64 \<Rightarrow> u64" where
  "tile_index start sz = node_index start sz div 256"

definition tile_offset :: "u64 \<Rightarrow> u64 \<Rightarrow> nat" where
  "tile_offset start sz = unat (node_index start sz mod 256)"

definition tile_count :: "u64 \<Rightarrow> nat" where
  "tile_count sz = 2 ^ (trailing_zeros sz mod 8)"

definition tile_width :: "u64 \<Rightarrow> u64 \<Rightarrow> u64 \<Rightarrow> nat" where
  "tile_width tree_size start sz =
     unat (min (drop_bit (8 * tile_level sz) tree_size - tile_index start sz * 256) 256)"

text \<open>A tile that is not cached: the tile of the current width, or the full one when a partial tile is gone.\<close>

definition fetch_tile ::
  "tile_source \<Rightarrow> nat \<Rightarrow> u64 \<Rightarrow> nat \<Rightarrow> (tile_error, digest list) result" where
  "fetch_tile source level index width =
     and_then (tile_path level index width) (\<lambda>path.
     and_then (map_err (\<lambda>_. SourceFailed) (source path)) (\<lambda>response.
     and_then
       (case response of
          Some bs \<Rightarrow> Inr (bs, width)
        | None \<Rightarrow>
            if width < 256 then
              and_then (tile_path level index 256) (\<lambda>full.
              and_then (map_err (\<lambda>_. SourceFailed) (source full)) (\<lambda>response.
              and_then (ok_or response NoTile) (\<lambda>bs. Inr (bs, 256))))
            else Inl TileUnavailable)
       (\<lambda>(bs, received_width).
     ensure (length bs = received_width * 32 \<and> length bs \<le> TILE_BYTES) TileLength (
     Inr (chunk_hashes (length bs div 32) bs)))))"

definition perfect_root ::
  "(bytes \<Rightarrow> digest) \<Rightarrow> tile_source \<Rightarrow> u64 \<Rightarrow> u64 \<Rightarrow> tile_reader \<Rightarrow> (tile_error, digest) result \<times> tile_reader" where
  "perfect_root sha source start sz reader =
     (let tree_size = reader_tree_size reader;
          level = tile_level sz; index = tile_index start sz; offset = tile_offset start sz;
          count = tile_count sz; width = tile_width tree_size start sz
      in
      if \<not> (is_power_of_two sz \<and> start mod sz = 0 \<and> range_within start sz tree_size) then (Inl SubtreeOutside, reader)
      else if \<not> offset + count \<le> width then (Inl TileWidth, reader)
      else
        let (fetched, reader) =
          (if map_of (reader_cache reader) (level, index) \<noteq> None then (Inr (), reader)
           else if \<not> length (reader_cache reader) < 512 then (Inl TooManyTiles, reader)
           else
             (case fetch_tile source level index width of
                Inl e \<Rightarrow> (Inl e, reader)
              | Inr hashes \<Rightarrow> (Inr (), reader\<lparr>reader_cache := ((level, index), hashes) # reader_cache reader\<rparr>)))
        in
        (and_then fetched (\<lambda>_.
         and_then (ok_or (map_of (reader_cache reader) (level, index)) NotCached) (\<lambda>tile.
         ensure (offset + count \<le> length tile) SlicePanic (
         (case fold_level sha (take count (drop offset tile)) of
            [] \<Rightarrow> Inl EmptySubtree
          | h # _ \<Rightarrow> Inr h)))), reader))"

lemma perfect_root_size [simp]: "reader_tree_size (snd (perfect_root sha source start sz reader)) = reader_tree_size reader"
  by (simp add: perfect_root_def Let_def split: prod.splits sum.splits if_splits)

definition pending_weight :: "u64 \<times> u64 \<times> bool \<Rightarrow> nat" where
  "pending_weight = (\<lambda>(start, sz, joining). if joining \<or> sz = 0 then 1 else 3 * unat sz - 2)"

lemma is_power_of_two_1: "is_power_of_two 1"
  by (simp add: is_power_of_two_def)

lemma pending_weight_pos: "0 < pending_weight item"
proof -
  have "unat w \<noteq> 0" if "w \<noteq> 0" for w :: u64 using that by (simp add: unat_eq_zero)
  then show ?thesis by (cases item) (fastforce simp: pending_weight_def)
qed

text \<open>The loop of \<open>range_root\<close> over the vectors \<open>pending\<close> and \<open>roots\<close>, their last elements first.\<close>

function range_loop ::
  "(bytes \<Rightarrow> digest) \<Rightarrow> tile_source \<Rightarrow> (u64 \<times> u64 \<times> bool) list \<Rightarrow> digest list \<Rightarrow> tile_reader
    \<Rightarrow> (tile_error, digest list) result \<times> tile_reader" where
  "range_loop sha source [] roots reader = (Inr roots, reader)"
| "range_loop sha source ((start, sz, joining) # pending) roots reader =
     (if joining then
        (case roots of
           [] \<Rightarrow> (Inl MissingRight, reader)
         | [right] \<Rightarrow> (Inl MissingLeft, reader)
         | right # left # roots \<Rightarrow> range_loop sha source pending (node_hash sha left right # roots) reader)
      else if is_power_of_two sz then
        (case perfect_root sha source start sz reader of
           (Inl e, reader) \<Rightarrow> (Inl e, reader)
         | (Inr h, reader) \<Rightarrow> range_loop sha source pending (h # roots) reader)
      else if sz = 0 then (Inl SizePanic, reader)
      else
        let left_size = push_bit (63 - leading_zeros (sz - 1)) 1 in
        range_loop sha source
          ((start, left_size, False) # (start + left_size, sz - left_size, False) # (start, sz, True) # pending)
          roots reader)"
  by pat_completeness auto

termination
proof (relation "measure (\<lambda>(sha, source, pending, roots, reader). sum_list (map pending_weight pending))", goal_cases)
  case (4 sha source start sz joining pending roots reader x)
  then have "sz \<noteq> 0" "sz \<noteq> 1" using is_power_of_two_1 by auto
  note b = unat_split_bounds [OF this]
  have "x = split sz" using 4 by (simp add: split_def)
  moreover have "split sz \<noteq> 0" "sz - split sz \<noteq> 0" using b by (auto simp: unat_eq_0 [symmetric] simp del: unat_eq_0)
  ultimately show ?case using b \<open>sz \<noteq> 0\<close> 4 by (simp add: pending_weight_def)
qed (simp_all add: pending_weight_pos)

definition range_root ::
  "(bytes \<Rightarrow> digest) \<Rightarrow> tile_source \<Rightarrow> u64 \<Rightarrow> u64 \<Rightarrow> tile_reader \<Rightarrow> (tile_error, digest) result \<times> tile_reader" where
  "range_root sha source start sz reader =
     (if \<not> (0 < sz \<and> range_within start sz (reader_tree_size reader)) then (Inl RangeOutside, reader)
      else
        let (assembled, reader) = range_loop sha source [(start, sz, False)] [] reader in
        (and_then assembled (\<lambda>roots.
         ensure (length roots = 1) BadAssembly (
         (case roots of [] \<Rightarrow> Inl MissingRoot | h # _ \<Rightarrow> Inr h))), reader))"

fun range_roots ::
  "(bytes \<Rightarrow> digest) \<Rightarrow> tile_source \<Rightarrow> (u64 \<times> u64) list \<Rightarrow> tile_reader \<Rightarrow> (tile_error, digest list) result \<times> tile_reader" where
  "range_roots sha source [] reader = (Inr [], reader)"
| "range_roots sha source ((start, sz) # ranges) reader =
     (case range_root sha source start sz reader of
        (Inl e, reader) \<Rightarrow> (Inl e, reader)
      | (Inr h, reader) \<Rightarrow>
          (case range_roots sha source ranges reader of
             (Inl e, reader) \<Rightarrow> (Inl e, reader)
           | (Inr hs, reader) \<Rightarrow> (Inr (h # hs), reader)))"

definition tile_inclusion ::
  "(bytes \<Rightarrow> digest) \<Rightarrow> tile_source \<Rightarrow> u64 \<Rightarrow> tile_reader \<Rightarrow> (tile_error, digest list) result \<times> tile_reader" where
  "tile_inclusion sha source index reader =
     (case inclusion_ranges index (reader_tree_size reader) of
        Inl e \<Rightarrow> (Inl (RangesFailed e), reader)
      | Inr ranges \<Rightarrow> range_roots sha source ranges reader)"

definition tile_consistency ::
  "(bytes \<Rightarrow> digest) \<Rightarrow> tile_source \<Rightarrow> u64 \<Rightarrow> u64 \<Rightarrow> tile_reader \<Rightarrow> (tile_error, digest list) result \<times> tile_reader" where
  "tile_consistency sha source old_size new_size reader =
     (if \<not> new_size \<le> reader_tree_size reader then (Inl ComparisonOutside, reader)
      else
        (case consistency_ranges old_size new_size of
           Inl e \<Rightarrow> (Inl (RangesFailed e), reader)
         | Inr ranges \<Rightarrow> range_roots sha source ranges reader))"

section \<open>Powers of two\<close>

lemma power_of_two_exponent:
  assumes "is_power_of_two w"
  shows "\<exists>h<64. unat w = 2 ^ h"
proof -
  let ?n = "unat w" and ?h = "bit_len (unat w) - 1"
  have w: "w \<noteq> 0" "w AND (w - 1) = 0" using assms by (auto simp: is_power_of_two_def)
  then have pos: "0 < ?n" by (simp add: unat_gt_0)
  have len: "0 < bit_len ?n" using pos by (simp add: bit_len_pos)
  have low: "2 ^ ?h \<le> ?n" and high: "?n < 2 * 2 ^ ?h"
    using bit_len_lower [OF pos] bit_len_upper [of ?n] len by (cases "bit_len ?n", simp_all)+
  have "?h < 64" using bit_len_u64 [of w] len by linarith
  moreover have "?n = 2 ^ ?h"
  proof (rule ccontr)
    assume "?n \<noteq> 2 ^ ?h"
    then have "2 ^ ?h \<le> ?n - 1" using low by linarith
    then have "(?n - 1) div 2 ^ ?h = 1" using high by (intro div_nat_eqI) simp_all
    then have "bit (unat (w - 1)) ?h" using w(1) by (simp add: bit_iff_odd unat_minus_one)
    moreover have "?n div 2 ^ ?h = 1" using low high by (intro div_nat_eqI) simp_all
    then have "bit (unat w) ?h" by (simp add: bit_iff_odd)
    ultimately have "bit (w AND (w - 1)) ?h" using \<open>?h < 64\<close> by (simp add: bit_and_iff bit_unsigned_iff)
    then show False using w(2) by simp
  qed
  ultimately show ?thesis by blast
qed

lemma word_power_of_two: "h < 64 \<Longrightarrow> unat w = 2 ^ h \<Longrightarrow> w = (2 ^ h :: u64)"
  by (metis unat_2_power word_unat_eq_iff)

lemma power_of_two_iff: "is_power_of_two w \<longleftrightarrow> (\<exists>h. unat w = 2 ^ h)"
proof
  assume "\<exists>h. unat w = 2 ^ h"
  then obtain h where h: "unat w = 2 ^ h" by blast
  then have "(2::nat) ^ h < 2 ^ 64" using unat_less_2p64 [of w] by simp
  then have h64: "h < 64" by (rule power_less_imp_less_exp [rotated]) simp
  then have w: "w = 2 ^ h" using h by (rule word_power_of_two)
  have "w AND (w - 1) = 0"
    by (rule bit_eqI) (auto simp: w bit_and_iff bit_exp_iff bit_mask_iff mask_eq_exp_minus_1 [symmetric])
  moreover have "w \<noteq> 0" using h by auto
  ultimately show "is_power_of_two w" by (simp add: is_power_of_two_def)
qed (use power_of_two_exponent in blast)

lemma trailing_zeros_power:
  assumes "h < 64" "unat w = 2 ^ h"
  shows "trailing_zeros w = h"
proof -
  have w: "w = 2 ^ h" using assms by (rule word_power_of_two)
  have "[0..<64] = [0..<h] @ [h..<64]" using upt_add_eq_append [of 0 h "64 - h"] assms(1) by simp
  then have "[0..<64] = [0..<h] @ h # [Suc h..<64]" using assms(1) by (simp add: upt_conv_Cons)
  moreover have bit: "bit w i \<longleftrightarrow> i = h" if "i < 64" for i using that by (simp add: w bit_exp_iff)
  have "takeWhile (\<lambda>i. \<not> bit w i) ([0..<h] @ h # [Suc h..<64]) = [0..<h] @ takeWhile (\<lambda>i. \<not> bit w i) (h # [Suc h..<64])"
    by (rule takeWhile_append2) (use bit assms(1) in auto)
  moreover have "takeWhile (\<lambda>i. \<not> bit w i) (h # [Suc h..<64]) = []" using bit assms(1) by simp
  ultimately show ?thesis unfolding trailing_zeros_def by simp
qed

section \<open>Coordinates\<close>

text \<open>The coordinates of an aligned subtree in numbers: level \<open>l\<close> nodes cover \<open>2 ^ (8 * l)\<close> leaves.\<close>

definition span :: "nat \<Rightarrow> nat" where "span l = 2 ^ (8 * l)"

definition tile_extent :: "nat \<Rightarrow> nat \<Rightarrow> nat \<Rightarrow> nat" where
  "tile_extent n l i = min (n div span l - 256 * i) 256"

lemma unat_drop_bit_div: "unat (drop_bit k (w :: u64)) = unat w div 2 ^ k"
  using unat_drop_bit_eq [of k w] by (simp only: drop_bit_eq_div [of k "unat w"])

lemma subtree_coordinates:
  assumes p: "unat sz = 2 ^ h" "h < 64" and al: "start mod sz = 0" and within: "range_within start sz n"
  defines "l \<equiv> h div 8"
  shows "tile_level sz = l" "l \<le> 7"
    "unat (tile_index start sz) = unat start div span l div 256"
    "tile_offset start sz = unat start div span l mod 256"
    "tile_count sz = 2 ^ (h mod 8)"
    "tile_width n start sz = tile_extent (unat n) l (unat (tile_index start sz))"
    "tile_offset start sz + tile_count sz \<le> tile_width n start sz"
    "(256 * unat (tile_index start sz) + tile_offset start sz) * span l = unat start"
    "tile_count sz * span l = unat sz"
proof -
  let ?S = "unat start" and ?s = "span l" and ?r = "h mod 8"
  have tz: "trailing_zeros sz = h" using p by (intro trailing_zeros_power)
  show lv: "tile_level sz = l" by (simp add: tile_level_def tz l_def)
  show "l \<le> 7" using p(2) by (simp add: l_def)
  have ni: "unat (node_index start sz) = ?S div ?s" by (simp add: node_index_def lv unat_drop_bit_div span_def)
  show ti: "unat (tile_index start sz) = ?S div ?s div 256" by (simp add: tile_index_def unat_div ni)
  show off: "tile_offset start sz = ?S div ?s mod 256" by (simp add: tile_offset_def unat_mod ni)
  show cnt: "tile_count sz = 2 ^ ?r" by (simp add: tile_count_def tz)
  have h: "8 * l + ?r = h" by (simp add: l_def)
  then have size: "2 ^ ?r * ?s = 2 ^ h" unfolding span_def by (metis add.commute power_add)
  then show "tile_count sz * ?s = unat sz" by (simp add: cnt p(1))
  have "?S mod 2 ^ h = 0" using arg_cong [OF al, of unat] by (simp add: unat_mod p(1))
  then have dvd: "2 ^ ?r * ?s dvd ?S" by (simp add: size mod_eq_0_iff_dvd)
  have spos: "0 < ?s" by (simp add: span_def)
  have exact: "?S div ?s * ?s = ?S" using dvd by (metis dvd_div_mult_self dvd_mult_right)
  show "(256 * unat (tile_index start sz) + tile_offset start sz) * ?s = ?S"
    by (simp add: ti off exact)
  have fits: "?S + 2 ^ h \<le> unat n"
  proof -
    have "?S + unat sz < 2 ^ 64" "unat (start + sz) \<le> unat n"
      using within by (simp_all add: range_within_def word_le_nat_alt)
    then show ?thesis by (simp only: unat_add_small p(1) [symmetric])
  qed
  have le: "256 * (?S div ?s div 256) \<le> unat n div ?s"
  proof -
    have "?S div ?s \<le> unat n div ?s" using fits by (intro div_le_mono) simp
    then show ?thesis by (metis le_trans mult_div_mod_eq le_add1)
  qed
  have prod: "unat (tile_index start sz * 256) = 256 * (?S div ?s div 256)"
  proof -
    have "256 * (?S div ?s div 256) < 2 ^ 64" using le unat_less_2p64 [of n] by (meson div_le_dividend le_less_trans)
    then show ?thesis using ti by (simp add: unat_mult_lem [THEN iffD1] mult.commute)
  qed
  have sub: "unat (drop_bit (8 * tile_level sz) n - tile_index start sz * 256) = unat n div ?s - 256 * (?S div ?s div 256)"
  proof -
    have "tile_index start sz * 256 \<le> drop_bit (8 * tile_level sz) n"
      using le by (simp add: word_le_nat_alt prod lv unat_drop_bit_div span_def)
    then show ?thesis by (simp add: unat_sub prod lv unat_drop_bit_div span_def)
  qed
  show width: "tile_width n start sz = tile_extent (unat n) l (unat (tile_index start sz))"
  proof -
    have "unat (min a b) = min (unat a) (unat b)" for a b :: u64 by (simp add: min_def word_le_nat_alt)
    then show ?thesis unfolding tile_width_def tile_extent_def ti by (simp add: sub)
  qed
  obtain q where "?S = 2 ^ ?r * ?s * q" using dvd by blast
  then have "?S div ?s = 2 ^ ?r * q" using spos by (simp add: ac_simps)
  then have "2 ^ ?r dvd ?S div ?s" by simp
  moreover have "(2::nat) ^ ?r dvd 256" using le_imp_power_dvd [of ?r 8 "2::nat"] by simp
  ultimately have "2 ^ ?r dvd 256 - ?S div ?s mod 256"
    by (simp add: dvd_diff_nat dvd_mod)
  then have room: "?S div ?s mod 256 + 2 ^ ?r \<le> 256"
    using dvd_imp_le [of "2 ^ ?r" "256 - ?S div ?s mod 256"] by (simp add: less_diff_conv)
  have "?S div ?s + 2 ^ ?r \<le> unat n div ?s"
  proof -
    have "(?S div ?s + 2 ^ ?r) * ?s \<le> unat n" using fits exact size by (simp add: add_mult_distrib)
    then show ?thesis using spos by (simp add: less_eq_div_iff_mult_less_eq)
  qed
  then have "?S div ?s mod 256 + 2 ^ ?r \<le> unat n div ?s - 256 * (?S div ?s div 256)"
    using mult_div_mod_eq [of 256 "?S div ?s"] by linarith
  with room show "tile_offset start sz + tile_count sz \<le> tile_width n start sz"
    by (simp add: width off cnt tile_extent_def ti)
qed

section \<open>An honest log\<close>

text \<open>The hashes of a tile, and what a log with entries \<open>ys\<close> serves: its complete tiles, and its partial
  tiles until it replaces them by the complete one.\<close>

definition tile_hashes :: "(bytes \<Rightarrow> digest) \<Rightarrow> bytes list \<Rightarrow> nat \<Rightarrow> nat \<Rightarrow> nat \<Rightarrow> digest list" where
  "tile_hashes sha ys l i w = map (\<lambda>j. range_hashN sha ys ((256 * i + j) * span l, span l)) [0..<w]"

definition tile_content :: "(bytes \<Rightarrow> digest) \<Rightarrow> bytes list \<Rightarrow> nat \<Rightarrow> nat \<Rightarrow> nat \<Rightarrow> bytes" where
  "tile_content sha ys l i w = concat (map digest_bytes (tile_hashes sha ys l i w))"

definition honest_log :: "(bytes \<Rightarrow> digest) \<Rightarrow> bytes list \<Rightarrow> tile_source \<Rightarrow> bool" where
  "honest_log sha ys source \<longleftrightarrow>
     (\<forall>l i w p. tile_path l i w = Inr p \<longrightarrow> (256 * unat i + w) * span l \<le> length ys \<longrightarrow>
        source p = Inr (Some (tile_content sha ys l (unat i) w)) \<or>
        w < 256 \<and> source p = Inr None \<and> (256 * unat i + 256) * span l \<le> length ys)"

lemma chunk_hashes_concat: "chunk_hashes (length hs) (concat (map digest_bytes hs)) = hs"
  by (induction hs) simp_all

lemma length_concat_digests: "length (concat (map digest_bytes hs)) = length hs * 32"
  by (induction hs) simp_all

lemma tile_path_ok: "l \<le> 63 \<Longrightarrow> 1 \<le> w \<Longrightarrow> w \<le> 256 \<Longrightarrow> \<exists>p. tile_path l i w = Inr p"
  by (simp add: tile_path_def Let_def)

text \<open>What a fetched or cached tile holds.\<close>

definition tile_agrees :: "(bytes \<Rightarrow> digest) \<Rightarrow> bytes list \<Rightarrow> nat \<Rightarrow> nat \<Rightarrow> nat \<Rightarrow> digest list \<Rightarrow> bool" where
  "tile_agrees sha ys n l i hs \<longleftrightarrow>
     tile_extent n l i \<le> length hs \<and> take (tile_extent n l i) hs = tile_hashes sha ys l i (tile_extent n l i)"

lemma fetch_tile_content:
  assumes "length bs = w * 32" "w \<le> 256" "bs = tile_content sha ys l i w"
  shows "ensure (length bs = w * 32 \<and> length bs \<le> TILE_BYTES) TileLength (Inr (chunk_hashes (length bs div 32) bs)) =
    (Inr (tile_hashes sha ys l i w) :: (tile_error, digest list) result)"
proof -
  have "chunk_hashes w bs = tile_hashes sha ys l i w"
    using chunk_hashes_concat [of "tile_hashes sha ys l i w"] by (simp add: assms(3) tile_content_def tile_hashes_def)
  then show ?thesis using assms by (simp add: TILE_BYTES_def)
qed

lemma tile_content_length: "length (tile_content sha ys l i w) = w * 32"
  unfolding tile_content_def by (simp only: length_concat_digests) (simp add: tile_hashes_def)

lemma tile_hashes_take: "v \<le> w \<Longrightarrow> take v (tile_hashes sha ys l i w) = tile_hashes sha ys l i v"
  by (simp add: tile_hashes_def take_map)

lemma fetch_tile_honest:
  assumes honest: "honest_log sha ys source" and n: "n \<le> length ys"
    and l: "l \<le> 7" and w: "w = tile_extent n l (unat i)" "1 \<le> w"
  shows "\<exists>hs. fetch_tile source l i w = Inr hs \<and> tile_agrees sha ys n l (unat i) hs"
proof -
  have w256: "w \<le> 256" using w(1) by (simp add: tile_extent_def)
  obtain p where p: "tile_path l i w = Inr p" using tile_path_ok [of l w i] l w(2) w256 by auto
  obtain q where q: "tile_path l i 256 = Inr q" using tile_path_ok [of l 256 i] l by auto
  have "256 * unat i + w \<le> n div span l" using w by (simp add: tile_extent_def min_def split: if_splits)
  then have "(256 * unat i + w) * span l \<le> length ys"
    using n by (meson div_times_less_eq_dividend le_trans mult_le_mono1)
  then consider (here) "source p = Inr (Some (tile_content sha ys l (unat i) w))"
    | (gone) "w < 256" "source p = Inr None" "(256 * unat i + 256) * span l \<le> length ys"
    using honest p unfolding honest_log_def by blast
  then show ?thesis
  proof cases
    case here
    then have "fetch_tile source l i w = Inr (tile_hashes sha ys l (unat i) w)"
      using p fetch_tile_content [OF tile_content_length w256 refl] by (simp add: fetch_tile_def)
    then show ?thesis by (simp add: tile_agrees_def w(1)) (simp add: tile_hashes_def)
  next
    case gone
    then have "source q = Inr (Some (tile_content sha ys l (unat i) 256))"
      using honest q unfolding honest_log_def by blast
    then have "fetch_tile source l i w = Inr (tile_hashes sha ys l (unat i) 256)"
      using p q gone fetch_tile_content [OF tile_content_length order_refl refl] by (simp add: fetch_tile_def)
    then show ?thesis
      using tile_hashes_take [OF w256] w256 by (simp add: tile_agrees_def w(1)) (simp add: tile_hashes_def)
  qed
qed

section \<open>Roots of perfect subtrees\<close>

lemma pair_hashes_nth:
  "j < length hs div 2 \<Longrightarrow> pair_hashes sha hs ! j = node_hash sha (hs ! (2 * j)) (hs ! (2 * j + 1))"
proof (induction sha hs arbitrary: j rule: pair_hashes.induct)
  case (1 sha a b hs)
  then show ?case by (cases j) simp_all
qed simp_all

lemma pow2_below_double: "pow2_below (2 * 2 ^ m) = 2 ^ m"
  by (rule pow2_below_unique) simp_all

lemma fold_level_root:
  "length hs = 2 ^ k \<Longrightarrow> (\<And>j. j < 2 ^ k \<Longrightarrow> hs ! j = range_hashN sha ys (b + j * 2 ^ m, 2 ^ m)) \<Longrightarrow>
   b + 2 ^ k * 2 ^ m \<le> length ys \<Longrightarrow> fold_level sha hs = [range_hashN sha ys (b, 2 ^ k * 2 ^ m)]"
proof (induction k arbitrary: hs m)
  case 0
  then obtain h where "hs = [h]" by (metis length_0_conv length_Suc_conv power_0 One_nat_def)
  then show ?case using "0.prems"(2) [of 0] by (simp add: fold_level.simps)
next
  case (Suc k)
  have pair: "pair_hashes sha hs ! j = range_hashN sha ys (b + j * 2 ^ Suc m, 2 ^ Suc m)" if j: "j < 2 ^ k" for j
  proof -
    have "(2 * j + 2) * 2 ^ m \<le> 2 ^ Suc k * 2 ^ m" using j by (intro mult_le_mono1) simp
    then have fit: "b + j * 2 ^ Suc m + 2 ^ Suc m \<le> length ys" using Suc.prems(3) by (simp add: add_mult_distrib)
    have "2 * j < 2 ^ Suc k" "2 * j + 1 < 2 ^ Suc k" using j by simp_all
    note hs = Suc.prems(2) [OF this(1)] Suc.prems(2) [OF this(2)]
    have "range_hashN sha ys (b + j * 2 ^ Suc m, 2 ^ Suc m) =
        node_hash sha (range_hashN sha ys (b + j * 2 ^ Suc m, 2 ^ m)) (range_hashN sha ys (b + j * 2 ^ Suc m + 2 ^ m, 2 ^ Suc m - 2 ^ m))"
      using pow2_below_double [of m] by (intro range_hashN_split [OF _ _ fit]) simp_all
    moreover have "pair_hashes sha hs ! j = node_hash sha (hs ! (2 * j)) (hs ! (2 * j + 1))"
      using j Suc.prems(1) by (intro pair_hashes_nth) simp
    ultimately show ?thesis using hs by (simp add: algebra_simps)
  qed
  have "length hs > 1" using Suc.prems(1) one_less_power [of "2::nat" "Suc k"] by simp
  then have "fold_level sha hs = fold_level sha (pair_hashes sha hs)" by (subst fold_level.simps) simp
  also have "\<dots> = [range_hashN sha ys (b, 2 ^ k * 2 ^ Suc m)]"
    using Suc.prems by (intro Suc.IH pair) (simp_all add: length_pair_hashes ac_simps)
  finally show ?case by (simp add: ac_simps)
qed

text \<open>The reader holds tiles of the log only.\<close>

definition cache_agrees :: "(bytes \<Rightarrow> digest) \<Rightarrow> bytes list \<Rightarrow> tile_reader \<Rightarrow> bool" where
  "cache_agrees sha ys reader \<longleftrightarrow>
     (\<forall>l i hs. map_of (reader_cache reader) (l, i) = Some hs \<longrightarrow>
        tile_agrees sha ys (unat (reader_tree_size reader)) l (unat i) hs)"

lemma tile_slice_root:
  assumes coords: "unat sz = 2 ^ h" "h < 64" "start mod sz = 0" "range_within start sz n"
    and agrees: "tile_agrees sha ys (unat n) (tile_level sz) (unat (tile_index start sz)) hs" and n: "unat n \<le> length ys"
  shows "tile_offset start sz + tile_count sz \<le> length hs"
    "fold_level sha (take (tile_count sz) (drop (tile_offset start sz) hs)) = [range_hash sha ys (start, sz)]"
proof -
  let ?l = "h div 8" and ?o = "tile_offset start sz" and ?c = "tile_count sz" and ?i = "unat (tile_index start sz)"
  let ?w = "tile_extent (unat n) ?l ?i"
  note c = subtree_coordinates [OF coords]
  have agree: "?w \<le> length hs" "take ?w hs = tile_hashes sha ys ?l ?i ?w" using agrees by (simp_all add: tile_agrees_def c(1))
  have room: "?o + ?c \<le> ?w" using c(6,7) by simp
  then show "?o + ?c \<le> length hs" using agree(1) by simp
  have len: "length (take ?c (drop ?o hs)) = 2 ^ (h mod 8)" using room agree(1) c(5) by simp
  have "take ?c (drop ?o hs) ! j = range_hashN sha ys (unat start + j * 2 ^ (8 * ?l), 2 ^ (8 * ?l))" if j: "j < 2 ^ (h mod 8)" for j
  proof -
    have "?o + j < ?w" using j room c(5) by simp
    then have "hs ! (?o + j) = tile_hashes sha ys ?l ?i ?w ! (?o + j)" using agree(2) by (metis nth_take)
    also have "\<dots> = range_hashN sha ys ((256 * ?i + (?o + j)) * span ?l, span ?l)"
      using \<open>?o + j < ?w\<close> by (simp add: tile_hashes_def)
    finally show ?thesis using j c(5,8) room agree(1) by (simp add: span_def algebra_simps)
  qed
  moreover have "unat start + 2 ^ (h mod 8) * 2 ^ (8 * ?l) \<le> length ys"
  proof -
    have "unat start + unat sz \<le> unat n"
      using coords(4) unat_add_small [of start sz] by (simp add: range_within_def word_le_nat_alt)
    then show ?thesis using n c(5,9) by (simp add: span_def)
  qed
  ultimately show "fold_level sha (take ?c (drop ?o hs)) = [range_hash sha ys (start, sz)]"
    using fold_level_root [OF len] c(5,9) by (simp add: range_hash_def span_def)
qed

lemma perfect_root_correct:
  assumes honest: "honest_log sha ys source" and n: "unat (reader_tree_size reader) \<le> length ys"
    and cache: "cache_agrees sha ys reader" and room: "length (reader_cache reader) < 512"
    and sz: "is_power_of_two sz" and al: "start mod sz = 0" and within: "range_within start sz (reader_tree_size reader)"
  shows "\<exists>reader'. perfect_root sha source start sz reader = (Inr (range_hash sha ys (start, sz)), reader') \<and>
    cache_agrees sha ys reader' \<and> reader_tree_size reader' = reader_tree_size reader \<and>
    length (reader_cache reader') \<le> length (reader_cache reader) + 1"
proof -
  let ?n = "reader_tree_size reader" and ?i = "tile_index start sz"
  let ?l = "tile_level sz" and ?w = "tile_width ?n start sz"
  obtain h where h: "unat sz = 2 ^ h" "h < 64" using power_of_two_exponent [OF sz] by blast
  note c = subtree_coordinates [OF h al within]
  note slice = tile_slice_root [OF h al within _ n]
  show ?thesis
  proof (cases "map_of (reader_cache reader) (?l, ?i)")
    case (Some hs)
    then have "tile_agrees sha ys (unat ?n) ?l (unat ?i) hs" using cache by (simp add: cache_agrees_def)
    from slice [OF this] show ?thesis
      using sz al within c(7) cache Some by (simp add: perfect_root_def Let_def)
  next
    case None
    have "1 \<le> (2::nat) ^ (h mod 8)" by simp
    then have "1 \<le> ?w" using c(5,7) by linarith
    moreover have "?w = tile_extent (unat ?n) ?l (unat ?i)" "?l \<le> 7" using c(1,2,6) by simp_all
    ultimately obtain hs where hs: "fetch_tile source ?l ?i ?w = Inr hs" "tile_agrees sha ys (unat ?n) ?l (unat ?i) hs"
      using fetch_tile_honest [OF honest n] by blast
    let ?reader = "reader\<lparr>reader_cache := ((?l, ?i), hs) # reader_cache reader\<rparr>"
    have "cache_agrees sha ys ?reader" using cache hs(2) by (auto simp: cache_agrees_def)
    moreover have "perfect_root sha source start sz reader = (Inr (range_hash sha ys (start, sz)), ?reader)"
      using sz al within c(7) None room hs(1) slice [OF hs(2)] by (simp add: perfect_root_def Let_def)
    ultimately show ?thesis by simp
  qed
qed

section \<open>Roots of ranges\<close>

text \<open>A range is aligned when it lies within a subtree of a power of two that covers it from its start.\<close>

definition aligned :: "nat \<Rightarrow> nat \<Rightarrow> bool" where
  "aligned start n \<longleftrightarrow> (\<exists>j. n \<le> 2 ^ j \<and> 2 ^ j dvd start)"

text \<open>The number of perfect subtrees a range is taken apart into.\<close>

function parts :: "nat \<Rightarrow> nat" where
  "parts n = (if n = 0 \<or> (\<exists>h. n = 2 ^ h) then 1 else Suc (parts (n - pow2_below n)))"
  by pat_completeness auto
termination
proof (relation "measure id", goal_cases)
  case (2 n)
  then have "n \<noteq> 0" "n \<noteq> Suc 0" by (auto dest: spec [of _ 0])
  then show ?case by (simp add: pow2_below_less)
qed simp

declare parts.simps [simp del]

lemma parts_power: "parts (2 ^ h) = 1"
  by (subst parts.simps) auto

lemma pow2_below_power: "2 \<le> n \<Longrightarrow> \<exists>e. pow2_below n = 2 ^ e"
  by (auto simp: pow2_below_def)

lemma not_power_ge:
  fixes n :: nat
  assumes "n \<noteq> 0" "\<nexists>h. n = 2 ^ h"
  shows "2 \<le> n"
proof -
  have "n \<noteq> 2 ^ 0" using assms(2) by blast
  then show ?thesis using assms(1) by simp
qed

lemma pow2_below_exponent:
  assumes "2 \<le> n" "n \<le> 2 ^ d"
  obtains e where "pow2_below n = 2 ^ e" "e < d" "n - 2 ^ e \<le> 2 ^ e" "2 ^ e < n"
proof -
  obtain e where e: "pow2_below n = 2 ^ e" using pow2_below_power [OF assms(1)] by blast
  note b = pow2_below_bounds [OF assms(1), unfolded e]
  then have "(2::nat) ^ e < 2 ^ d" using assms(2) by linarith
  then have "e < d" by (rule power_less_imp_less_exp [rotated]) simp
  with e b show thesis by (intro that [of e]) linarith+
qed

lemma parts_bound: "n \<le> 2 ^ d \<Longrightarrow> parts n \<le> Suc d"
proof (induction n arbitrary: d rule: parts.induct)
  case (1 n)
  show ?case
  proof (cases "n = 0 \<or> (\<exists>h. n = 2 ^ h)")
    case False
    then have "2 \<le> n" using not_power_ge by blast
    then obtain e where e: "pow2_below n = 2 ^ e" "e < d" "n - 2 ^ e \<le> 2 ^ e"
      using "1.prems" by (rule pow2_below_exponent)
    have "parts (n - pow2_below n) \<le> Suc e" using False e by (intro "1.IH") simp_all
    then show ?thesis using False e(2) by (subst parts.simps) simp
  qed (subst parts.simps, simp)
qed

lemma range_loop_correct:
  assumes honest: "honest_log sha ys source" and n: "unat n \<le> length ys"
  shows "aligned (unat start) (unat sz) \<Longrightarrow> 0 < sz \<Longrightarrow> range_within start sz n \<Longrightarrow>
    reader_tree_size reader = n \<Longrightarrow> cache_agrees sha ys reader \<Longrightarrow>
    length (reader_cache reader) + parts (unat sz) \<le> 512 \<Longrightarrow>
    \<exists>reader'. range_loop sha source ((start, sz, False) # pending) roots reader =
        range_loop sha source pending (range_hash sha ys (start, sz) # roots) reader' \<and>
      cache_agrees sha ys reader' \<and> reader_tree_size reader' = n \<and>
      length (reader_cache reader') \<le> length (reader_cache reader) + parts (unat sz)"
proof (induction "unat sz" arbitrary: start sz pending roots reader rule: less_induct)
  case less
  show ?case
  proof (cases "is_power_of_two sz")
    case True
    obtain h where h: "unat sz = 2 ^ h" using power_of_two_exponent [OF True] by blast
    have "2 ^ h dvd unat start"
      using less.prems(1) h by (auto simp: aligned_def dest: power_le_imp_le_exp [rotated] intro: power_le_dvd)
    then have "start mod sz = 0" by (simp add: word_unat_eq_iff unat_mod h mod_eq_0_iff_dvd)
    from perfect_root_correct [OF honest _ less.prems(5) _ True this] less.prems n h
    show ?thesis by (auto simp: parts_power True)
  next
    case False
    then have ne: "sz \<noteq> 0" "sz \<noteq> 1" "\<nexists>h. unat sz = 2 ^ h"
      using less.prems(2) is_power_of_two_1 power_of_two_iff by auto
    note b = unat_split_bounds [OF ne(1,2)] and two = two_le_unat [OF ne(1,2)]
    note k = unat_split [OF two]
    let ?k = "split sz"
    obtain j where j: "unat sz \<le> 2 ^ j" "2 ^ j dvd unat start" using less.prems(1) by (auto simp: aligned_def)
    obtain e where e: "pow2_below (unat sz) = 2 ^ e" "e < j" "unat sz - 2 ^ e \<le> 2 ^ e"
      using pow2_below_exponent [OF two j(1)] by blast
    have fits: "unat start + unat sz < 2 ^ 64" "unat start + unat sz \<le> unat n"
      using less.prems(3) unat_add_small [of start sz] by (auto simp: range_within_def word_le_nat_alt)
    have mid: "unat (start + ?k) = unat start + unat ?k" using fits b(2) by (intro unat_add_small) linarith
    have within: "range_within start ?k n" "range_within (start + ?k) (sz - ?k) n"
    proof -
      have "unat (start + ?k + (sz - ?k)) = unat start + unat sz" using fits b by (subst unat_add_small) (simp_all add: mid)
      then show "range_within (start + ?k) (sz - ?k) n" using fits b by (simp add: range_within_def mid word_le_nat_alt)
      show "range_within start ?k n" using fits b by (simp add: range_within_def mid word_le_nat_alt)
    qed
    have al: "aligned (unat start) (unat ?k)" "aligned (unat (start + ?k)) (unat (sz - ?k))"
    proof -
      show "aligned (unat start) (unat ?k)" using j b(2) unfolding aligned_def by (meson le_trans less_imp_le)
      have "2 ^ e dvd unat start" using j(2) e(2) by (meson dvd_trans le_imp_power_dvd less_imp_le)
      then show "aligned (unat (start + ?k)) (unat (sz - ?k))"
        unfolding aligned_def mid using e(1,3) k b(4) by (intro exI [of _ e]) simp
    qed
    have parts: "parts (unat sz) = Suc (parts (unat (sz - ?k)))" "parts (unat ?k) = 1"
      using ne(3) unat_eq_zero [of sz] ne(1) by (subst parts.simps, simp add: b(4) k) (simp add: k e(1) parts_power)
    have pos: "0 < ?k" "0 < sz - ?k" using b by (auto simp: word_less_nat_alt)
    have p1: "length (reader_cache reader) + parts (unat ?k) \<le> 512" using less.prems(6) parts by simp
    obtain r1 where r1: "range_loop sha source ((start, ?k, False) # (start + ?k, sz - ?k, False) # (start, sz, True) # pending) roots reader =
        range_loop sha source ((start + ?k, sz - ?k, False) # (start, sz, True) # pending) (range_hash sha ys (start, ?k) # roots) r1"
      "cache_agrees sha ys r1" "reader_tree_size r1 = n" "length (reader_cache r1) \<le> length (reader_cache reader) + 1"
      using less.hyps [OF b(2) al(1) pos(1) within(1) less.prems(4,5) p1] unfolding parts(2) by blast
    have p2: "length (reader_cache r1) + parts (unat (sz - ?k)) \<le> 512" using less.prems(6) parts r1(4) by simp
    obtain r2 where r2: "range_loop sha source ((start + ?k, sz - ?k, False) # (start, sz, True) # pending) (range_hash sha ys (start, ?k) # roots) r1 =
        range_loop sha source ((start, sz, True) # pending) (range_hash sha ys (start + ?k, sz - ?k) # range_hash sha ys (start, ?k) # roots) r2"
      "cache_agrees sha ys r2" "reader_tree_size r2 = n" "length (reader_cache r2) \<le> length (reader_cache r1) + parts (unat (sz - ?k))"
      using less.hyps [OF b(5) al(2) pos(2) within(2) r1(3,2) p2] by blast
    have "range_hash sha ys (start, sz) = node_hash sha (range_hash sha ys (start, ?k)) (range_hash sha ys (start + ?k, sz - ?k))"
      using range_hashN_split [OF two k] fits n b(4) mid by (simp add: range_hash_def)
    then have "range_loop sha source ((start, sz, False) # pending) roots reader = range_loop sha source pending (range_hash sha ys (start, sz) # roots) r2"
      using False ne(1) r1(1) r2(1) by (simp add: split_def Let_def)
    with r1 r2 parts show ?thesis by auto
  qed
qed

lemma range_root_within:
  assumes honest: "honest_log sha ys source" and n: "unat (reader_tree_size reader) \<le> length ys"
    and al: "aligned (unat start) (unat sz)" and sz: "0 < sz" "range_within start sz (reader_tree_size reader)"
    and cache: "cache_agrees sha ys reader" "length (reader_cache reader) + parts (unat sz) \<le> 512"
  shows "\<exists>reader'. range_root sha source start sz reader = (Inr (range_hash sha ys (start, sz)), reader') \<and>
    cache_agrees sha ys reader' \<and> reader_tree_size reader' = reader_tree_size reader \<and>
    length (reader_cache reader') \<le> length (reader_cache reader) + parts (unat sz)"
proof -
  obtain reader' where "range_loop sha source [(start, sz, False)] [] reader = range_loop sha source [] [range_hash sha ys (start, sz)] reader'"
      "cache_agrees sha ys reader'" "reader_tree_size reader' = reader_tree_size reader"
      "length (reader_cache reader') \<le> length (reader_cache reader) + parts (unat sz)"
    using range_loop_correct [OF honest n al sz refl cache] by blast
  then show ?thesis using sz by (simp add: range_root_def)
qed

section \<open>Proofs\<close>

text \<open>A range of a tree of size \<open>n\<close> that the reader can compute.\<close>

definition range_ok :: "nat \<Rightarrow> nat \<times> nat \<Rightarrow> bool" where
  "range_ok n r \<longleftrightarrow> aligned (fst r) (snd r) \<and> 0 < snd r \<and> fst r + snd r \<le> n"

definition total_parts :: "(nat \<times> nat) list \<Rightarrow> nat" where
  "total_parts rs = (\<Sum>r\<leftarrow>rs. parts (snd r))"

lemma total_parts_simps [simp]:
  "total_parts [] = 0" "total_parts (r # rs) = parts (snd r) + total_parts rs" "total_parts (rs @ ss) = total_parts rs + total_parts ss"
  by (simp_all add: total_parts_def)

lemma range_roots_correct:
  assumes honest: "honest_log sha ys source"
  shows "unat (reader_tree_size reader) \<le> length ys \<Longrightarrow> cache_agrees sha ys reader \<Longrightarrow>
    \<forall>r\<in>set (map (map_prod unat unat) ranges). range_ok (unat (reader_tree_size reader)) r \<Longrightarrow>
    length (reader_cache reader) + total_parts (map (map_prod unat unat) ranges) \<le> 512 \<Longrightarrow>
    \<exists>reader'. range_roots sha source ranges reader = (Inr (map (range_hash sha ys) ranges), reader') \<and>
      cache_agrees sha ys reader' \<and> reader_tree_size reader' = reader_tree_size reader \<and>
      length (reader_cache reader') \<le> length (reader_cache reader) + total_parts (map (map_prod unat unat) ranges)"
proof (induction ranges arbitrary: reader)
  case (Cons r ranges)
  obtain start sz where r: "r = (start, sz)" by (cases r)
  have ok: "aligned (unat start) (unat sz)" "0 < sz" "unat start + unat sz \<le> unat (reader_tree_size reader)"
    using Cons.prems(3) by (simp_all add: r range_ok_def unat_gt_0 word_gt_0)
  then have "unat start + unat sz < 2 ^ 64" using unat_less_2p64 [of "reader_tree_size reader"] by linarith
  then have within: "range_within start sz (reader_tree_size reader)"
    using ok(3) by (simp add: range_within_def word_le_nat_alt unat_add_small)
  have "length (reader_cache reader) + parts (unat sz) \<le> 512" using Cons.prems(4) by (simp add: r)
  then obtain r1 where r1: "range_root sha source start sz reader = (Inr (range_hash sha ys (start, sz)), r1)"
    "cache_agrees sha ys r1" "reader_tree_size r1 = reader_tree_size reader"
    "length (reader_cache r1) \<le> length (reader_cache reader) + parts (unat sz)"
    using range_root_within [OF honest Cons.prems(1) ok(1,2) within Cons.prems(2)] by blast
  have "length (reader_cache r1) + total_parts (map (map_prod unat unat) ranges) \<le> 512"
    using Cons.prems(4) r1(4) by (simp add: r)
  moreover have "\<forall>r\<in>set (map (map_prod unat unat) ranges). range_ok (unat (reader_tree_size r1)) r"
    using Cons.prems(3) r1(3) by simp
  ultimately obtain r2 where r2: "range_roots sha source ranges r1 = (Inr (map (range_hash sha ys) ranges), r2)"
      "cache_agrees sha ys r2" "reader_tree_size r2 = reader_tree_size r1"
      "length (reader_cache r2) \<le> length (reader_cache r1) + total_parts (map (map_prod unat unat) ranges)"
    using Cons.IH [of r1] Cons.prems(1) r1(2,3) by auto
  show ?case using r1 r2 by (auto simp: r)
qed simp

text \<open>The ranges of a proof are aligned, and few: at most one of them is not a perfect subtree.\<close>

lemma range_ok_split:
  assumes "2 \<le> n" "n \<le> 2 ^ j" "2 ^ j dvd start" "start + n \<le> m" "pow2_below n = 2 ^ e" "e < j" "n - 2 ^ e \<le> 2 ^ e" "2 ^ e < n"
  shows "range_ok m (start, 2 ^ e)" "range_ok m (start + 2 ^ e, n - 2 ^ e)" "2 ^ e dvd start + 2 ^ e" "2 ^ e dvd start"
proof -
  have "2 ^ e dvd start" using assms(3,6) by (meson dvd_trans le_imp_power_dvd less_imp_le)
  then show "2 ^ e dvd start + 2 ^ e" "2 ^ e dvd start" by simp_all
  then show "range_ok m (start, 2 ^ e)" "range_ok m (start + 2 ^ e, n - 2 ^ e)"
    using assms unfolding range_ok_def aligned_def by auto
qed

lemma perfect_halves:
  fixes n :: nat
  assumes "e < j" "n - 2 ^ e \<le> 2 ^ e" "n = 2 ^ j"
  shows "n - 2 ^ e = 2 ^ e \<and> Suc e = j"
proof -
  have "(2::nat) ^ j \<le> 2 ^ Suc e" using assms(2,3) by simp
  then have "j \<le> Suc e" by (rule power_le_imp_le_exp [rotated]) simp
  then have "j = Suc e" using assms(1) by simp
  then show ?thesis using assms(3) by simp
qed

lemma inclusion_walkN_ok:
  "i < n \<Longrightarrow> n \<le> 2 ^ j \<Longrightarrow> 2 ^ j dvd start \<Longrightarrow> start + n \<le> m \<Longrightarrow>
   (\<forall>r\<in>set (inclusion_walkN i start n). range_ok m r) \<and> total_parts (inclusion_walkN i start n) \<le> 2 * j \<and>
   (n = 2 ^ j \<longrightarrow> total_parts (inclusion_walkN i start n) \<le> j)"
proof (induction i start n arbitrary: j rule: inclusion_walkN.induct)
  case (1 i start n)
  show ?case
  proof (cases "n = 1")
    case True
    then show ?thesis by (simp add: inclusion_walkN.simps)
  next
    case False
    then have n: "2 \<le> n" "n \<noteq> 0" using "1.prems"(1) by auto
    obtain e where e: "pow2_below n = 2 ^ e" "e < j" "n - 2 ^ e \<le> 2 ^ e" "2 ^ e < n"
      using pow2_below_exponent [OF n(1) "1.prems"(2)] by blast
    note ok = range_ok_split [OF n(1) "1.prems"(2-4) e]
    note perfect = perfect_halves [OF e(2,3)]
    have rest: "parts (n - 2 ^ e) \<le> Suc e" using e(3) by (rule parts_bound)
    show ?thesis
    proof (cases "i < 2 ^ e")
      case True
      have ih: "(\<forall>r\<in>set (inclusion_walkN i start (2 ^ e)). range_ok m r) \<and>
          total_parts (inclusion_walkN i start (2 ^ e)) \<le> 2 * e \<and> total_parts (inclusion_walkN i start (2 ^ e)) \<le> e"
        using "1.IH"(1) [of "2 ^ e" e] False n e True ok "1.prems"(4) by (auto simp: range_ok_def)
      have walk: "inclusion_walkN i start n = inclusion_walkN i start (2 ^ e) @ [(start + 2 ^ e, n - 2 ^ e)]"
        using False n e True by (subst inclusion_walkN.simps) (simp add: Let_def)
      have one: "parts (n - 2 ^ e) = 1 \<and> Suc e = j" if "n = 2 ^ j" using perfect [OF that] by (simp add: parts_power)
      have "n = 2 ^ j \<longrightarrow> total_parts (inclusion_walkN i start (2 ^ e)) + parts (n - 2 ^ e) \<le> j" using ih one by fastforce
      then show ?thesis unfolding walk using ih rest ok(2) e(2) by simp
    next
      case ge: False
      have ih: "(\<forall>r\<in>set (inclusion_walkN (i - 2 ^ e) (start + 2 ^ e) (n - 2 ^ e)). range_ok m r) \<and>
          total_parts (inclusion_walkN (i - 2 ^ e) (start + 2 ^ e) (n - 2 ^ e)) \<le> 2 * e \<and>
          (n - 2 ^ e = 2 ^ e \<longrightarrow> total_parts (inclusion_walkN (i - 2 ^ e) (start + 2 ^ e) (n - 2 ^ e)) \<le> e)"
        using "1.IH"(2) [of "2 ^ e" e] False n e ge ok "1.prems"(1,4) by (auto simp: range_ok_def)
      have walk: "inclusion_walkN i start n = inclusion_walkN (i - 2 ^ e) (start + 2 ^ e) (n - 2 ^ e) @ [(start, 2 ^ e)]"
        using False n e ge by (subst inclusion_walkN.simps) (simp add: Let_def)
      have "n = 2 ^ j \<longrightarrow> total_parts (inclusion_walkN (i - 2 ^ e) (start + 2 ^ e) (n - 2 ^ e)) + 1 \<le> j" using ih perfect by fastforce
      then show ?thesis unfolding walk using ih ok(1) e(2) by (simp add: parts_power)
    qed
  qed
qed

lemma consistency_walkN_ok:
  "0 < k \<Longrightarrow> k \<le> n \<Longrightarrow> n \<le> 2 ^ j \<Longrightarrow> 2 ^ j dvd start \<Longrightarrow> start + n \<le> m \<Longrightarrow>
   (\<forall>r\<in>set (consistency_walkN k start n complete). range_ok m r) \<and>
   total_parts (consistency_walkN k start n complete) \<le> 2 * j + 1 \<and>
   (n = 2 ^ j \<longrightarrow> total_parts (consistency_walkN k start n complete) \<le> j + 1)"
proof (induction k start n complete arbitrary: j rule: consistency_walkN.induct)
  case (1 k start n complete)
  show ?case
  proof (cases "k = n")
    case True
    have "parts n \<le> Suc j" using "1.prems"(3) by (rule parts_bound)
    then show ?thesis using True "1.prems" by (auto simp: consistency_walkN.simps range_ok_def aligned_def)
  next
    case False
    then have n: "2 \<le> n" "n \<noteq> 0" "n \<noteq> 1" using "1.prems"(1,2) by auto
    obtain e where e: "pow2_below n = 2 ^ e" "e < j" "n - 2 ^ e \<le> 2 ^ e" "2 ^ e < n"
      using pow2_below_exponent [OF n(1) "1.prems"(3)] by blast
    note ok = range_ok_split [OF n(1) "1.prems"(3-5) e]
    note perfect = perfect_halves [OF e(2,3)]
    have rest: "parts (n - 2 ^ e) \<le> Suc e" using e(3) by (rule parts_bound)
    show ?thesis
    proof (cases "k \<le> 2 ^ e")
      case True
      have ih: "(\<forall>r\<in>set (consistency_walkN k start (2 ^ e) complete). range_ok m r) \<and>
          total_parts (consistency_walkN k start (2 ^ e) complete) \<le> e + 1"
        using "1.IH"(1) [of "2 ^ e" e] False n e True ok "1.prems"(1,5) by (auto simp: range_ok_def)
      have walk: "consistency_walkN k start n complete = consistency_walkN k start (2 ^ e) complete @ [(start + 2 ^ e, n - 2 ^ e)]"
        using False n e True by (subst consistency_walkN.simps) (simp add: Let_def)
      have one: "parts (n - 2 ^ e) = 1 \<and> Suc e = j" if "n = 2 ^ j" using perfect [OF that] by (simp add: parts_power)
      have "n = 2 ^ j \<longrightarrow> total_parts (consistency_walkN k start (2 ^ e) complete) + parts (n - 2 ^ e) \<le> j + 1" using ih one by fastforce
      then show ?thesis unfolding walk using ih rest ok(2) e(2) by simp
    next
      case ge: False
      have ih: "(\<forall>r\<in>set (consistency_walkN (k - 2 ^ e) (start + 2 ^ e) (n - 2 ^ e) False). range_ok m r) \<and>
          total_parts (consistency_walkN (k - 2 ^ e) (start + 2 ^ e) (n - 2 ^ e) False) \<le> 2 * e + 1 \<and>
          (n - 2 ^ e = 2 ^ e \<longrightarrow> total_parts (consistency_walkN (k - 2 ^ e) (start + 2 ^ e) (n - 2 ^ e) False) \<le> e + 1)"
        using "1.IH"(2) [of "2 ^ e" e] False n e ge ok "1.prems"(2,5) by (auto simp: range_ok_def)
      have walk: "consistency_walkN k start n complete =
          consistency_walkN (k - 2 ^ e) (start + 2 ^ e) (n - 2 ^ e) False @ [(start, 2 ^ e)]"
        using False n e ge by (subst consistency_walkN.simps) (simp add: Let_def)
      have "n = 2 ^ j \<longrightarrow> total_parts (consistency_walkN (k - 2 ^ e) (start + 2 ^ e) (n - 2 ^ e) False) + 1 \<le> j + 1" using ih perfect by fastforce
      then show ?thesis unfolding walk using ih ok(1) e(2) by (simp add: parts_power)
    qed
  qed
qed

lemma range_hash_take:
  assumes "unat (fst r) + unat (snd r) \<le> n"
  shows "range_hash sha (take n ys) r = range_hash sha ys r"
proof -
  have "take (unat (snd r)) (drop (unat (fst r)) (take n ys)) = take (unat (snd r)) (drop (unat (fst r)) ys)"
    using assms by (simp add: drop_take take_take min_def)
  then show ?thesis by (simp add: range_hash_def range_hashN_def)
qed

lemma fresh_reader: "cache_agrees sha ys (reader_new n)" "reader_tree_size (reader_new n) = n" "reader_cache (reader_new n) = []"
  by (simp_all add: cache_agrees_def reader_new_def)

lemma tile_inclusion_path:
  assumes honest: "honest_log sha ys source" and n: "unat (reader_tree_size reader) \<le> length ys"
    and cache: "cache_agrees sha ys reader" "length (reader_cache reader) \<le> 384" and index: "index < reader_tree_size reader"
  shows "\<exists>path reader'. tile_inclusion sha source index reader = (Inr path, reader') \<and>
    verify_inclusion sha (ys ! unat index) index (reader_tree_size reader) path
      (mth sha (take (unat (reader_tree_size reader)) ys)) = Inr () \<and>
    cache_agrees sha ys reader' \<and> reader_tree_size reader' = reader_tree_size reader \<and>
    length (reader_cache reader') \<le> length (reader_cache reader) + 128"
proof -
  let ?n = "reader_tree_size reader" and ?N = "unat (reader_tree_size reader)"
  have lt: "unat index < ?N" using index by (simp add: word_less_nat_alt)
  have len: "length (take ?N ys) = ?N" using n by simp
  obtain ranges where ranges: "inclusion_ranges index ?n = Inr ranges"
      "verify_inclusion sha (take ?N ys ! unat index) index ?n (map (range_hash sha (take ?N ys)) ranges) (mth sha (take ?N ys)) = Inr ()"
    using verify_inclusion_ranges [OF len index, of sha] by blast
  have rs: "map (map_prod unat unat) ranges = inclusion_walkN (unat index) 0 ?N"
    using ranges(1) inclusion_ranges_nat [of index ?n] by (auto simp: inclusion_ranges_def result_simps)
  have ok: "\<forall>r\<in>set (map (map_prod unat unat) ranges). range_ok ?N r" "total_parts (map (map_prod unat unat) ranges) \<le> 128"
    unfolding rs using inclusion_walkN_ok [of "unat index" ?N 64 0 ?N] lt unat_less_2p64 [of ?n] by simp_all
  have room: "length (reader_cache reader) + total_parts (map (map_prod unat unat) ranges) \<le> 512" using cache(2) ok(2) by simp
  have "map (range_hash sha (take ?N ys)) ranges = map (range_hash sha ys) ranges"
    using ok(1) by (intro map_cong refl range_hash_take) (auto simp: range_ok_def)
  note v = ranges(2) [unfolded this]
  show ?thesis
    using ranges(1) v lt range_roots_correct [OF honest n cache(1) ok(1) room] ok(2) by (auto simp: tile_inclusion_def)
qed

lemma tile_consistency_path:
  assumes honest: "honest_log sha ys source" and n: "unat (reader_tree_size reader) \<le> length ys"
    and cache: "cache_agrees sha ys reader" "length (reader_cache reader) \<le> 383"
    and sizes: "old_size \<le> new_size" "new_size \<le> reader_tree_size reader"
  shows "\<exists>path reader'. tile_consistency sha source old_size new_size reader = (Inr path, reader') \<and>
    verify_consistency sha old_size new_size (mth sha (take (unat old_size) ys)) (mth sha (take (unat new_size) ys)) path = Inr ()"
proof -
  let ?M = "unat new_size" and ?N = "unat (reader_tree_size reader)"
  have le: "unat old_size \<le> ?M" "?M \<le> ?N" using sizes by (simp_all add: word_le_nat_alt)
  have len: "length (take ?M ys) = ?M" using n le(2) by simp
  obtain ranges where ranges: "consistency_ranges old_size new_size = Inr ranges"
      "verify_consistency sha old_size new_size (mth sha (take (unat old_size) (take ?M ys))) (mth sha (take ?M ys))
        (map (range_hash sha (take ?M ys)) ranges) = Inr ()"
    using verify_consistency_ranges [OF len sizes(1), of sha] by blast
  have rs: "map (map_prod unat unat) ranges = (if old_size = 0 then [] else consistency_walkN (unat old_size) 0 ?M True)"
    using ranges(1) consistency_ranges_nat [of old_size new_size True] by (auto simp: consistency_ranges_def result_simps)
  have ok: "\<forall>r\<in>set (map (map_prod unat unat) ranges). range_ok ?M r" "total_parts (map (map_prod unat unat) ranges) \<le> 129"
    unfolding rs using consistency_walkN_ok [of "unat old_size" ?M 64 0 ?M True] le(1) unat_less_2p64 [of new_size]
    by (auto simp: unat_gt_0)
  then have ok': "\<forall>r\<in>set (map (map_prod unat unat) ranges). range_ok ?N r" using le(2) by (auto simp: range_ok_def)
  have room: "length (reader_cache reader) + total_parts (map (map_prod unat unat) ranges) \<le> 512" using cache(2) ok(2) by simp
  have "map (range_hash sha (take ?M ys)) ranges = map (range_hash sha ys) ranges"
    using ok(1) by (intro map_cong refl range_hash_take) (auto simp: range_ok_def)
  note v = ranges(2) [unfolded this]
  show ?thesis
    using ranges(1) v sizes(2) le(1) range_roots_correct [OF honest n cache(1) ok' room] by (auto simp: tile_consistency_def min_def)
qed

text \<open>
  C20. The tile reader implements the tree hash. Against a log that serves its tiles, whether or not
  it has already replaced partial tiles by complete ones, the root that \<open>range_root\<close> assembles
  for an aligned range of the authenticated tree is the tree hash of exactly the entries of the range; hashes
  of later entries in a complete tile are not used, and the reader afterwards again holds
  only tiles of the log.
\<close>

theorem range_root_refines:
  assumes "honest_log sha ys source" "unat (reader_tree_size reader) \<le> length ys" "cache_agrees sha ys reader"
    and "aligned (unat start) (unat sz)" "0 < sz" "range_within start sz (reader_tree_size reader)"
    and "length (reader_cache reader) \<le> 447"
  shows "\<exists>reader'. range_root sha source start sz reader =
      (Inr (mth sha (take (unat sz) (drop (unat start) ys))), reader') \<and>
    cache_agrees sha ys reader' \<and> reader_tree_size reader' = reader_tree_size reader"
proof -
  have "parts (unat sz) \<le> Suc 64" using unat_less_2p64 [of sz] by (intro parts_bound) simp
  then have "length (reader_cache reader) + parts (unat sz) \<le> 512" using assms(7) by simp
  from range_root_within [OF assms(1,2,4,5,6,3) this] show ?thesis by (auto simp: range_hash_def range_hashN_def)
qed

text \<open>
  C21. An honest log can always be used. For every size and index, a fresh reader assembles from the log's
  tiles an inclusion proof that \<open>verify_inclusion\<close> accepts for the entry, and then, with the
  same reader, a consistency proof from every smaller size that \<open>verify_consistency\<close> accepts; the limit of
  512 tiles never stops it, whatever the size of the log.
\<close>

theorem tile_proofs_verify:
  assumes "honest_log sha ys source" "unat n \<le> length ys" "index < n" "old_size \<le> new_size" "new_size \<le> n"
  shows "\<exists>path reader path' reader'. tile_inclusion sha source index (reader_new n) = (Inr path, reader) \<and>
    verify_inclusion sha (ys ! unat index) index n path (mth sha (take (unat n) ys)) = Inr () \<and>
    tile_consistency sha source old_size new_size reader = (Inr path', reader') \<and>
    verify_consistency sha old_size new_size (mth sha (take (unat old_size) ys)) (mth sha (take (unat new_size) ys)) path' = Inr ()"
proof -
  obtain path reader where r: "tile_inclusion sha source index (reader_new n) = (Inr path, reader)"
      "verify_inclusion sha (ys ! unat index) index n path (mth sha (take (unat n) ys)) = Inr ()"
      "cache_agrees sha ys reader" "reader_tree_size reader = n" "length (reader_cache reader) \<le> 128"
    using tile_inclusion_path [OF assms(1), of "reader_new n" index] assms(2,3) by (auto simp: fresh_reader)
  then show ?thesis
    using tile_consistency_path [OF assms(1), of reader old_size new_size] assms(2,4,5) by force
qed

text \<open>A log of two entries, which serves two partial tiles.\<close>

definition example_log :: "bytes list" where "example_log = [''a'', ''b'']"

definition example_source :: tile_source where
  "example_source p =
     Inr (if p = ''tile/0/000.p/1'' then Some (tile_content digest_of example_log 0 0 1)
          else if p = ''tile/0/000.p/2'' then Some (tile_content digest_of example_log 0 0 2) else None)"

lemma replicate2: "replicate 2 x = [x, x]"
  by (simp add: numeral_2_eq_2)

lemma example_tile_paths: "tile_path 0 0 1 = Inr ''tile/0/000.p/1''" "tile_path 0 0 2 = Inr ''tile/0/000.p/2''"
  by (simp_all add: tile_path_def pad3_def tile_groups.simps show_nat.simps digit_char_def char_of_def bit_0 replicate2)

lemma example_honest: "honest_log digest_of example_log example_source"
  unfolding honest_log_def
proof (intro allI impI)
  fix l i w p
  assume p: "tile_path l i w = Inr p" and fits: "(256 * unat i + w) * span l \<le> length example_log"
  have w: "1 \<le> w" using p by (simp add: tile_path_def result_simps)
  have "1 * span l \<le> (256 * unat i + w) * span l" using w by (intro mult_le_mono1) simp
  then have "span l \<le> length example_log" using fits by linarith
  then have "span l \<le> 2" by (simp add: example_log_def)
  then have l: "l = 0" using power_increasing [of 8 "8 * l" "2::nat"] by (cases l) (auto simp: span_def)
  have "256 * unat i + w \<le> 2" using fits by (simp add: l span_def example_log_def)
  then have i: "i = 0" "w = 1 \<or> w = 2" using w unat_eq_zero [of i] by auto
  then have "example_source p = Inr (Some (tile_content digest_of example_log l (unat i) w))"
    using p example_tile_paths by (auto simp: l example_source_def)
  then show "example_source p = Inr (Some (tile_content digest_of example_log l (unat i) w)) \<or>
      w < 256 \<and> example_source p = Inr None \<and> (256 * unat i + 256) * span l \<le> length example_log" by blast
qed

theorem range_root_refines_witness:
  "\<exists>reader'. range_root digest_of example_source 0 2 (reader_new 2) = (Inr (mth digest_of [''a'', ''b'']), reader')"
proof -
  have "aligned (unat (0 :: u64)) (unat (2 :: u64))" by (auto simp: aligned_def intro: exI [of _ 1])
  moreover have "range_within 0 2 (reader_tree_size (reader_new 2))" by (simp add: range_within_def fresh_reader)
  ultimately show ?thesis
    using range_root_refines [OF example_honest, of "reader_new 2" 0 2] by (auto simp: fresh_reader example_log_def)
qed

theorem tile_proofs_verify_witness:
  "\<exists>path reader. tile_inclusion digest_of example_source 1 (reader_new 2) = (Inr path, reader) \<and>
    verify_inclusion digest_of ''b'' 1 2 path (mth digest_of [''a'', ''b'']) = Inr ()"
  using tile_proofs_verify [OF example_honest, of 2 1 1 2] by (auto simp: example_log_def)

section \<open>Any source\<close>

text \<open>What holds whatever the source answers: the cache stays small, its tiles are as wide as the tree
  needs and never wider than 256 hashes, and the failures that would be defects of the reader, an index outside
  a slice or a missing operand, do not occur.\<close>

definition internal_errors :: "tile_error set" where
  "internal_errors = {NotCached, SlicePanic, EmptySubtree, MissingRight, MissingLeft, BadAssembly, MissingRoot, SizePanic}"

definition reader_wf :: "tile_reader \<Rightarrow> bool" where
  "reader_wf reader \<longleftrightarrow> length (reader_cache reader) \<le> 512 \<and> distinct (map fst (reader_cache reader)) \<and>
     (\<forall>((l, i), hs)\<in>set (reader_cache reader).
        tile_extent (unat (reader_tree_size reader)) l (unat i) \<le> length hs \<and> length hs \<le> 256)"

definition well_behaved :: "tile_reader \<Rightarrow> (tile_error, 'a) result \<times> tile_reader \<Rightarrow> bool" where
  "well_behaved reader outcome \<longleftrightarrow> reader_wf (snd outcome) \<and>
     reader_tree_size (snd outcome) = reader_tree_size reader \<and> (\<forall>e\<in>internal_errors. fst outcome \<noteq> Inl e)"

lemma length_chunk_hashes [simp]: "length (chunk_hashes n bs) = n"
  by (induction n bs rule: chunk_hashes.induct) simp_all

lemma tile_path_error: "tile_path l i w = Inl e \<Longrightarrow> e = TileCoordinates"
  by (auto simp: tile_path_def ensure_def Let_def split: if_splits)

lemma fetch_tile_any:
  assumes "w \<le> 256"
  shows "case fetch_tile source l i w of Inl e \<Rightarrow> e \<notin> internal_errors | Inr hs \<Rightarrow> w \<le> length hs \<and> length hs \<le> 256"
proof (cases "tile_path l i w")
  case (Inl e)
  then show ?thesis using tile_path_error by (auto simp: fetch_tile_def internal_errors_def)
next
  case (Inr p)
  obtain q where q: "tile_path l i 256 = Inr q"
    using Inr by (auto simp: tile_path_def result_simps Let_def)
  show ?thesis
    using assms q Inr
    by (auto simp: fetch_tile_def and_then_def ensure_def ok_or_def map_err_def internal_errors_def TILE_BYTES_def
        split: sum.splits option.splits if_splits)
qed

lemma fold_level_nonempty: "hs \<noteq> [] \<Longrightarrow> fold_level sha hs \<noteq> []"
proof (induction sha hs rule: fold_level.induct)
  case (1 sha hs)
  show ?case
  proof (cases "length hs > 1")
    case True
    then have "length (pair_hashes sha hs) \<noteq> 0" by (simp add: length_pair_hashes)
    then show ?thesis using True "1.IH" by (subst fold_level.simps) auto
  qed (use "1.prems" in \<open>subst fold_level.simps, simp\<close>)
qed

lemma perfect_root_cached:
  assumes "is_power_of_two sz" "start mod sz = 0" "range_within start sz (reader_tree_size reader)"
    "tile_offset start sz + tile_count sz \<le> tile_width (reader_tree_size reader) start sz"
    "map_of (reader_cache reader) (tile_level sz, tile_index start sz) = Some hs"
    "tile_width (reader_tree_size reader) start sz \<le> length hs"
  shows "\<exists>x. perfect_root sha source start sz reader = (Inr x, reader)"
proof -
  have "0 < tile_count sz" by (simp add: tile_count_def)
  then have "take (tile_count sz) (drop (tile_offset start sz) hs) \<noteq> []" using assms(4,6) by simp
  from fold_level_nonempty [OF this, of sha] obtain x xs
    where "fold_level sha (take (tile_count sz) (drop (tile_offset start sz) hs)) = x # xs" by (meson neq_Nil_conv)
  then show ?thesis using assms by (simp add: perfect_root_def Let_def)
qed

lemma perfect_root_uncached:
  assumes "is_power_of_two sz" "start mod sz = 0" "range_within start sz (reader_tree_size reader)"
    "tile_offset start sz + tile_count sz \<le> tile_width (reader_tree_size reader) start sz"
    "map_of (reader_cache reader) (tile_level sz, tile_index start sz) = None"
  shows "perfect_root sha source start sz reader =
    (if \<not> length (reader_cache reader) < 512 then (Inl TooManyTiles, reader)
     else (case fetch_tile source (tile_level sz) (tile_index start sz) (tile_width (reader_tree_size reader) start sz) of
        Inl e \<Rightarrow> (Inl e, reader)
      | Inr hs \<Rightarrow> perfect_root sha source start sz
          (reader\<lparr>reader_cache := ((tile_level sz, tile_index start sz), hs) # reader_cache reader\<rparr>)))"
  using assms by (simp add: perfect_root_def Let_def split: sum.splits)

lemma perfect_root_any:
  assumes wf: "reader_wf reader"
  shows "well_behaved reader (perfect_root sha source start sz reader)"
proof (cases "is_power_of_two sz \<and> start mod sz = 0 \<and> range_within start sz (reader_tree_size reader)")
  case False
  then have "perfect_root sha source start sz reader = (Inl SubtreeOutside, reader)"
    unfolding perfect_root_def Let_def by (simp only: simp_thms if_True)
  then show ?thesis using wf by (simp add: well_behaved_def internal_errors_def)
next
  case True
  let ?n = "reader_tree_size reader" and ?k = "(tile_level sz, tile_index start sz)"
  let ?w = "tile_width ?n start sz"
  obtain h where h: "unat sz = 2 ^ h" "h < 64" using True power_of_two_exponent by blast
  note c = subtree_coordinates [OF h, of start ?n]
  have w: "?w = tile_extent (unat ?n) (tile_level sz) (unat (tile_index start sz))"
    and room: "tile_offset start sz + tile_count sz \<le> ?w" using c True by simp_all
  show ?thesis
  proof (cases "map_of (reader_cache reader) ?k")
    case (Some hs)
    then have "?w \<le> length hs" using wf map_of_SomeD [OF Some] by (auto simp: reader_wf_def w)
    then obtain x where "perfect_root sha source start sz reader = (Inr x, reader)"
      using perfect_root_cached [OF _ _ _ room Some] True by metis
    then show ?thesis using wf by (simp add: well_behaved_def)
  next
    case None
    then have fresh: "?k \<notin> fst ` set (reader_cache reader)" by (simp add: map_of_eq_None_iff)
    have w256: "?w \<le> 256" by (simp add: w tile_extent_def)
    note eq = perfect_root_uncached [OF _ _ _ room None, of sha source]
    consider "\<not> length (reader_cache reader) < 512"
      | e where "length (reader_cache reader) < 512" "fetch_tile source (tile_level sz) (tile_index start sz) ?w = Inl e"
      | hs where "length (reader_cache reader) < 512" "fetch_tile source (tile_level sz) (tile_index start sz) ?w = Inr hs"
      by (metis sum.exhaust)
    then show ?thesis
    proof cases
      case 1
      then show ?thesis using eq True wf by (simp add: well_behaved_def internal_errors_def)
    next
      case 2
      then have "e \<notin> internal_errors" using fetch_tile_any [OF w256, of source "tile_level sz" "tile_index start sz"] by simp
      then show ?thesis using 2 eq True wf by (auto simp: well_behaved_def)
    next
      case 3
      let ?r = "reader\<lparr>reader_cache := (?k, hs) # reader_cache reader\<rparr>"
      have hs: "?w \<le> length hs" "length hs \<le> 256"
        using 3 fetch_tile_any [OF w256, of source "tile_level sz" "tile_index start sz"] by simp_all
      have wf': "reader_wf ?r" using wf hs fresh 3(1) by (simp add: reader_wf_def w)
      have "\<exists>x. perfect_root sha source start sz ?r = (Inr x, ?r)"
        using True room hs(1) by (intro perfect_root_cached [where hs = hs]) simp_all
      then obtain x where "perfect_root sha source start sz ?r = (Inr x, ?r)" by blast
      then show ?thesis using 3 eq True wf' by (simp add: well_behaved_def)
    qed
  qed
qed

lemma range_loop_any:
  "0 < sz \<Longrightarrow> reader_wf reader \<Longrightarrow>
   (\<exists>e r. range_loop sha source ((start, sz, False) # pending) roots reader = (Inl e, r) \<and> e \<notin> internal_errors \<and>
      reader_wf r \<and> reader_tree_size r = reader_tree_size reader) \<or>
   (\<exists>h r. range_loop sha source ((start, sz, False) # pending) roots reader = range_loop sha source pending (h # roots) r \<and>
      reader_wf r \<and> reader_tree_size r = reader_tree_size reader)"
proof (induction "unat sz" arbitrary: start sz pending roots reader rule: less_induct)
  case less
  show ?case
  proof (cases "is_power_of_two sz")
    case True
    obtain res r where p: "perfect_root sha source start sz reader = (res, r)" by fastforce
    then show ?thesis
      using True perfect_root_any [OF less.prems(2), of sha source start sz] by (cases res) (auto simp: well_behaved_def)
  next
    case False
    then have ne: "sz \<noteq> 0" "sz \<noteq> 1" using less.prems(1) is_power_of_two_1 by auto
    note b = unat_split_bounds [OF ne]
    have pos: "0 < split sz" "0 < sz - split sz" using b by (auto simp: word_less_nat_alt)
    have step: "range_loop sha source ((start, sz, False) # pending) roots reader =
        range_loop sha source ((start, split sz, False) # (start + split sz, sz - split sz, False) # (start, sz, True) # pending) roots reader"
      using False ne by (simp add: split_def Let_def)
    from less.hyps [OF b(2) pos(1) less.prems(2), of start "(start + split sz, sz - split sz, False) # (start, sz, True) # pending" roots]
    show ?thesis unfolding step
    proof (elim disjE exE conjE)
      fix h r
      assume left: "range_loop sha source ((start, split sz, False) # (start + split sz, sz - split sz, False) # (start, sz, True) # pending) roots reader =
          range_loop sha source ((start + split sz, sz - split sz, False) # (start, sz, True) # pending) (h # roots) r"
        and r: "reader_wf r" "reader_tree_size r = reader_tree_size reader"
      from less.hyps [OF b(5) pos(2) r(1), of "start + split sz" "(start, sz, True) # pending" "h # roots"] r(2)
      show "(\<exists>e ra. range_loop sha source ((start, split sz, False) # (start + split sz, sz - split sz, False) # (start, sz, True) # pending) roots reader = (Inl e, ra) \<and>
          e \<notin> internal_errors \<and> reader_wf ra \<and> reader_tree_size ra = reader_tree_size reader) \<or>
        (\<exists>h ra. range_loop sha source ((start, split sz, False) # (start + split sz, sz - split sz, False) # (start, sz, True) # pending) roots reader =
          range_loop sha source pending (h # roots) ra \<and> reader_wf ra \<and> reader_tree_size ra = reader_tree_size reader)"
        unfolding left by auto
    qed blast
  qed
qed

lemma range_root_any:
  assumes "reader_wf reader"
  shows "well_behaved reader (range_root sha source start sz reader)"
proof (cases "0 < sz \<and> range_within start sz (reader_tree_size reader)")
  case True
  with range_loop_any [OF _ assms, of sz sha source start "[]" "[]"] show ?thesis
    by (auto simp: range_root_def well_behaved_def ensure_def)
next
  case False
  then show ?thesis using assms by (auto simp: range_root_def well_behaved_def internal_errors_def)
qed

lemma range_roots_any:
  "reader_wf reader \<Longrightarrow> well_behaved reader (range_roots sha source ranges reader)"
proof (induction sha source ranges reader rule: range_roots.induct)
  case (2 sha source start sz ranges reader)
  obtain res r where p: "range_root sha source start sz reader = (res, r)" by fastforce
  have wb: "well_behaved reader (res, r)" using range_root_any [OF "2.prems", of sha source start sz] p by simp
  show ?case
  proof (cases res)
    case (Inl e)
    then show ?thesis using p wb by (auto simp: well_behaved_def)
  next
    case (Inr h)
    obtain res' r' where q: "range_roots sha source ranges r = (res', r')" by fastforce
    have "well_behaved r (res', r')" using "2.IH" [of _ r h] p Inr wb q by (auto simp: well_behaved_def)
    then show ?thesis using p wb Inr q by (cases res') (auto simp: well_behaved_def)
  qed
qed (auto simp: well_behaved_def)

text \<open>
  C22. The reader is safe against its source. Whatever the log answers, every operation on a reader ends, keeps the
  authenticated size, leaves at most 512 cached tiles under distinct coordinates, each as wide as the
  authenticated tree needs and at most 256 hashes, and never fails for a reason of the reader's own: no
  slice is taken outside a tile and no operand is missing when subtrees are joined.
\<close>

theorem reader_invariant:
  assumes "reader_wf reader"
  shows "well_behaved reader (range_root sha source start sz reader) \<and>
    well_behaved reader (tile_inclusion sha source index reader) \<and>
    well_behaved reader (tile_consistency sha source old_size new_size reader) \<and>
    reader_wf (reader_new n)"
proof (intro conjI)
  show "well_behaved reader (range_root sha source start sz reader)" by (rule range_root_any [OF assms])
  show "well_behaved reader (tile_inclusion sha source index reader)"
    using assms range_roots_any [OF assms] by (auto simp: tile_inclusion_def well_behaved_def internal_errors_def split: sum.splits)
  show "well_behaved reader (tile_consistency sha source old_size new_size reader)"
    using assms range_roots_any [OF assms] by (auto simp: tile_consistency_def well_behaved_def internal_errors_def split: sum.splits)
  show "reader_wf (reader_new n)" by (simp add: reader_wf_def reader_new_def)
qed

theorem reader_invariant_witness:
  "well_behaved (reader_new 2) (tile_inclusion digest_of example_source 1 (reader_new 2))"
proof -
  have "reader_wf (reader_new 2)" by (simp add: reader_wf_def reader_new_def)
  from reader_invariant [OF this] show ?thesis by blast
qed

end
