(* ===== verification/Publication.thy ===== *)
theory Publication
  imports Verify Merkle
begin

text \<open>
  Publication evidence, from \<open>src/publication/mod.rs\<close>, \<open>note.rs\<close> and \<open>record.rs\<close>: the entry a log
  receives, signed notes and checkpoints, the retained record of a publication, comparisons of
  checkpoints, and the two checks that \<open>assess\<close> adds to a verdict. An error is its outermost
  message, which is what the checks show. SHA-256, base64, the Ed25519 operations and the JSON decoders
  are the fields of a \<open>note_env\<close>.
\<close>

section \<open>Entries\<close>

record note_env =
  ne_sha256 :: "bytes \<Rightarrow> digest"
  b64_decode :: "bytes \<Rightarrow> bytes option"
  b64_encode :: "bytes \<Rightarrow> bytes"
  log_key_valid :: "digest \<Rightarrow> bool"
  log_key_weak :: "digest \<Rightarrow> bool"
  verify_strict :: "digest \<Rightarrow> bytes \<Rightarrow> bytes \<Rightarrow> bool"

definition ENTRY_PREFIX :: bytes where "ENTRY_PREFIX = ''attest-causal-root/v1'' @ [CHR 0x0A]"

definition COMMITMENT_DOMAIN :: bytes where "COMMITMENT_DOMAIN = ''attest-causal-root/v1'' @ [CHR 0x00]"

definition hash_bytes :: "bytes \<Rightarrow> (bytes, digest) result" where
  "hash_bytes val =
     ensure (length val = 64 \<and> list_all is_hex_digit val) ''expected a canonical 32-byte hexadecimal value'' (
     and_then (ok_or (hex_decode val) ''invalid hexadecimal'') (\<lambda>bs.
     ok_or (digest_try_from bs) ''invalid hash length''))"

definition with_context :: "bytes \<Rightarrow> (bytes, 'a) result \<Rightarrow> (bytes, 'a) result" where
  "with_context message r = map_err (\<lambda>_. message) r"

definition entry_for_root :: "(bytes \<Rightarrow> digest) \<Rightarrow> bytes \<Rightarrow> bytes \<Rightarrow> (bytes, bytes) result" where
  "entry_for_root sha root nonce =
     and_then (with_context ''invalid causal root'' (hash_bytes root)) (\<lambda>root.
     and_then (with_context ''invalid publication opening'' (hash_bytes nonce)) (\<lambda>nonce.
     Inr (ENTRY_PREFIX @ digest_bytes (sha (COMMITMENT_DOMAIN @ digest_bytes nonce @ digest_bytes root)))))"

section \<open>Signed notes\<close>

definition MAX_NOTE_BYTES :: nat where "MAX_NOTE_BYTES = 128 * 1024"

definition MAX_SIGNATURES :: nat where "MAX_SIGNATURES = 32"

record log_config =
  lc_format :: bytes
  lc_origin :: bytes
  lc_verifier_key :: bytes
  lc_read_url :: "bytes option"
  lc_submit_url :: "bytes option"
  lc_tls_ca :: "bytes option"

definition valid_name :: "bytes \<Rightarrow> bool" where
  "valid_name name \<longleftrightarrow> name \<noteq> [] \<and>
     list_all (\<lambda>c. \<not> (is_whitespace c \<or> is_control c \<or> c = of_char (CHR ''+''))) (utf8_chars name)"

definition canonical_base64 :: "'z note_env_scheme \<Rightarrow> bytes \<Rightarrow> (bytes, bytes) result" where
  "canonical_base64 env text =
     and_then (ok_or (b64_decode env text) ''invalid note base64'') (\<lambda>bs.
     ensure (b64_encode env bs = text) ''non-canonical note base64'' (Inr bs))"

record verifier =
  vf_name :: bytes
  vf_id :: bytes
  vf_key :: digest

definition verifier_parse :: "'z note_env_scheme \<Rightarrow> bytes \<Rightarrow> (bytes, verifier) result" where
  "verifier_parse env text =
     ensure (length text \<le> 4096) ''note verifier key is too long'' (
     let (name, more) = (case split_once ''+'' text of Some (a, b) \<Rightarrow> (a, Some b) | None \<Rightarrow> (text, None)) in
     ensure (valid_name name) ''invalid verifier name'' (
     and_then (ok_or more ''missing verifier key identifier'') (\<lambda>more.
     let (i, last) = (case split_once ''+'' more of Some (a, b) \<Rightarrow> (a, Some b) | None \<Rightarrow> (more, None)) in
     ensure (length i = 8 \<and> list_all is_hex_digit i) ''invalid verifier key identifier'' (
     and_then (ok_or last ''missing verifier public key'') (\<lambda>last.
     and_then (canonical_base64 env last) (\<lambda>material.
     ensure (length material = 33 \<and> hd material = CHR 0x01) ''this log profile requires an Ed25519 note verifier key'' (
     let expected = take 4 (digest_bytes (ne_sha256 env (name @ [CHR 0x0A] @ material))) in
     ensure (hex_encode expected = i) ''verifier key identifier mismatch'' (
     and_then (ok_or (digest_try_from (tl material)) ''invalid Ed25519 public key length'') (\<lambda>raw.
     ensure (log_key_valid env raw) ''invalid Ed25519 log public key'' (
     ensure (\<not> log_key_weak env raw) ''weak Ed25519 log public key'' (
     Inr \<lparr>vf_name = name, vf_id = expected, vf_key = raw\<rparr>)))))))))))"

text \<open>\<open>note.rfind("\n\n")\<close>, as what stands before and after the last occurrence.\<close>

fun rsplit_blank :: "bytes \<Rightarrow> (bytes \<times> bytes) option" where
  "rsplit_blank [] = None"
| "rsplit_blank (c # s) =
     (case rsplit_blank s of
        Some (a, b) \<Rightarrow> Some (c # a, b)
      | None \<Rightarrow> if c = CHR 0x0A \<and> s \<noteq> [] \<and> hd s = CHR 0x0A then Some ([], tl s) else None)"

text \<open>\<open>str::lines\<close> of a text without carriage returns.\<close>

definition lines :: "bytes \<Rightarrow> bytes list" where
  "lines s = (let ps = split_on (CHR 0x0A) s in if last ps = [] then butlast ps else ps)"

definition NOTE_DASH :: bytes where "NOTE_DASH = [CHR 0xE2, CHR 0x80, CHR 0x94, CHR '' '']"

definition strip_prefix :: "bytes \<Rightarrow> bytes \<Rightarrow> bytes option" where
  "strip_prefix p s = (if starts_with s p then Some (drop (length p) s) else None)"

fun note_signatures ::
  "'z note_env_scheme \<Rightarrow> verifier \<Rightarrow> bytes \<Rightarrow> bytes list \<Rightarrow> (bytes \<times> bytes) set \<Rightarrow> bool \<Rightarrow> (bytes, bool) result" where
  "note_signatures env v body [] seen authenticated = Inr authenticated"
| "note_signatures env v body (line # rest) seen authenticated =
     and_then (ok_or (strip_prefix NOTE_DASH line) ''invalid note signature line'') (\<lambda>line.
     and_then (ok_or (split_once '' '' line) ''invalid note signature fields'') (\<lambda>(name, sig).
     ensure (valid_name name) ''invalid note signer name'' (
     ensure (length sig \<le> 16 * 1024) ''note signature is too long'' (
     and_then (canonical_base64 env sig) (\<lambda>sig.
     ensure (5 \<le> length sig \<and> length sig \<le> 8192) ''invalid note signature length'' (
     let i = take 4 sig in
     ensure ((name, i) \<notin> seen) ''duplicate note signer tuple'' (
     if name = vf_name v \<and> i = vf_id v then
       ensure (length (drop 4 sig) = 64) ''invalid Ed25519 note signature length'' (
       ensure (verify_strict env (vf_key v) body (drop 4 sig)) ''invalid signature from configured log key'' (
       note_signatures env v body rest (insert (name, i) seen) True))
     else note_signatures env v body rest (insert (name, i) seen) authenticated)))))))"

definition verify_note :: "'z note_env_scheme \<Rightarrow> verifier \<Rightarrow> bytes \<Rightarrow> (bytes, bytes) result" where
  "verify_note env v note =
     ensure (length note \<le> MAX_NOTE_BYTES) ''checkpoint note is too large'' (
     ensure (ends_with note [CHR 0x0A] \<and> list_all (\<lambda>c. \<not> ((of_char c :: nat) < 0x20 \<and> c \<noteq> CHR 0x0A)) note)
       ''invalid signed-note text'' (
     and_then (ok_or (rsplit_blank note) ''missing note signature separator'') (\<lambda>(before, signatures).
     let body = before @ [CHR 0x0A] in
     ensure (body \<noteq> [] \<and> signatures \<noteq> []) ''empty signed note'' (
     ensure (length (lines signatures) \<le> MAX_SIGNATURES) ''too many note signatures'' (
     and_then (note_signatures env v body (lines signatures) {} False) (\<lambda>authenticated.
     ensure authenticated ''checkpoint has no signature from configured log key'' (Inr body)))))))"

definition log_validate :: "'z note_env_scheme \<Rightarrow> log_config \<Rightarrow> (bytes, unit) result" where
  "log_validate env c =
     ensure (lc_format c = ''attest-log/v1'') ''unsupported log configuration format'' (
     ensure (valid_name (lc_origin c) \<and> length (lc_origin c) \<le> 4096) ''invalid checkpoint origin'' (
     and_then (verifier_parse env (lc_verifier_key c)) (\<lambda>_. Inr ())))"

definition log_id_of :: "'z note_env_scheme \<Rightarrow> log_config \<Rightarrow> (bytes, bytes) result" where
  "log_id_of env c =
     and_then (log_validate env c) (\<lambda>_.
     Inr (to_hex (ne_sha256 env (''attest-log/v1'' @ [CHR 0x0A] @ lc_origin c @ [CHR 0x0A] @ lc_verifier_key c))))"

section \<open>Checkpoints\<close>

record checkpoint =
  cp_tree_size :: u64
  cp_root :: digest
  cp_signed_note :: bytes

definition parse_u64 :: "bytes \<Rightarrow> u64 option" where
  "parse_u64 s = (if digits_value s < 2 ^ 64 then Some (of_nat (digits_value s)) else None)"

definition nth_line :: "bytes list \<Rightarrow> nat \<Rightarrow> bytes option" where
  "nth_line ls n = (if n < length ls then Some (ls ! n) else None)"

definition checkpoint_verify :: "'z note_env_scheme \<Rightarrow> bytes \<Rightarrow> log_config \<Rightarrow> (bytes, checkpoint) result" where
  "checkpoint_verify env note trust =
     and_then (log_validate env trust) (\<lambda>_.
     and_then (verifier_parse env (lc_verifier_key trust)) (\<lambda>v.
     and_then (verify_note env v note) (\<lambda>body.
     let ls = lines body in
     ensure (nth_line ls 0 = Some (lc_origin trust)) ''checkpoint origin differs from configured log'' (
     and_then (ok_or (nth_line ls 1) ''checkpoint lacks tree size'') (\<lambda>sz.
     ensure (sz \<noteq> [] \<and> list_all is_digit sz \<and> (sz = ''0'' \<or> \<not> starts_with sz ''0''))
       ''non-canonical checkpoint tree size'' (
     and_then (ok_or (parse_u64 sz) ''checkpoint tree size overflows'') (\<lambda>tree_size.
     and_then (ok_or (nth_line ls 2) ''checkpoint lacks root hash'') (\<lambda>encoded.
     and_then (canonical_base64 env encoded) (\<lambda>bs.
     and_then (ok_or (digest_try_from bs) ''invalid checkpoint root length'') (\<lambda>root.
     ensure (list_all (\<lambda>l. l \<noteq> []) (drop 3 ls)) ''empty checkpoint extension line'' (
     ensure (tree_size = 0 \<longrightarrow> root = empty_root (ne_sha256 env)) ''invalid empty-tree checkpoint root'' (
     Inr \<lparr>cp_tree_size = tree_size, cp_root = root, cp_signed_note = note\<rparr>))))))))))))"

section \<open>Records\<close>

definition RECORD_FORMAT :: bytes where "RECORD_FORMAT = ''attest-publication/v1''"

definition COMPARISON_FORMAT :: bytes where "COMPARISON_FORMAT = ''attest-log-comparison/v1''"

definition MAX_RECORD_BYTES :: nat where "MAX_RECORD_BYTES = 512 * 1024"

definition MAX_COMPARISON_BYTES :: nat where "MAX_COMPARISON_BYTES = 1024 * 1024"

definition MAX_SUBMISSIONS :: nat where "MAX_SUBMISSIONS = 3"

datatype unconfirmed_reason =
    Prepared | RequestFailed | ServiceRefused | AwaitingInclusion | InvalidProof | Deadline | AttemptLimit

fun reason_description :: "unconfirmed_reason \<Rightarrow> bytes" where
  "reason_description Prepared = ''publication was prepared but has not been confirmed''"
| "reason_description RequestFailed = ''a publication request failed; submission may have occurred''"
| "reason_description ServiceRefused = ''the publication service did not accept the request''"
| "reason_description AwaitingInclusion = ''a returned index has not established verified inclusion''"
| "reason_description InvalidProof = ''the log did not provide valid publication evidence''"
| "reason_description Deadline = ''the publication deadline expired without verified inclusion''"
| "reason_description AttemptLimit = ''the bounded submission attempt count was exhausted''"

record submission =
  sub_started_at :: int
  sub_returned_index :: "u64 option"

datatype publication_state =
    Unconfirmed unconfirmed_reason
  | Confirmed u64 bytes "bytes list"

record publication_record =
  pr_format :: bytes
  pr_causal_root :: bytes
  pr_opening_nonce :: bytes
  pr_entry :: bytes
  pr_log_id :: bytes
  pr_submit_url :: bytes
  pr_created_at :: int
  pr_submissions :: "submission list"
  pr_outcome :: publication_state

record checkpoint_comparison =
  cc_format :: bytes
  cc_log_id :: bytes
  cc_first :: bytes
  cc_second :: bytes
  cc_path :: "bytes list"

record record_env = note_env +
  record_of_json :: "bytes \<Rightarrow> publication_record option"
  comparison_of_json :: "bytes \<Rightarrow> checkpoint_comparison option"

fun merkle_message :: "merkle_error \<Rightarrow> bytes" where
  "merkle_message IndexOutside = ''inclusion index is outside the tree''"
| "merkle_message InclusionTooLong = ''inclusion path is too long''"
| "merkle_message InclusionTooShort = ''inclusion path is too short''"
| "merkle_message InclusionExtra = ''inclusion path has extra nodes''"
| "merkle_message InclusionMismatch = ''inclusion proof does not bind this entry to the checkpoint''"
| "merkle_message SizesReversed = ''consistency sizes are reversed''"
| "merkle_message ConsistencyTooLong = ''consistency path is too long''"
| "merkle_message ConsistencyTooShort = ''consistency path is too short''"
| "merkle_message ConsistencyExtra = ''consistency path has extra nodes''"
| "merkle_message ConsistencyMismatch = ''checkpoints are not connected by this consistency proof''"
| "merkle_message EqualSizeNodes = ''equal-size checkpoints need no proof nodes''"
| "merkle_message EqualSizeConflict = ''conflicting roots at the same tree size''"
| "merkle_message BadEmptyRoot = ''invalid empty-tree root''"
| "merkle_message EmptyPrefixNodes = ''an empty prefix needs no proof nodes''"
| "merkle_message SizeUnderflow = ''size underflow''"

fun collect_hashes :: "bytes list \<Rightarrow> (bytes, digest list) result" where
  "collect_hashes [] = Inr []"
| "collect_hashes (v # vs) = and_then (hash_bytes v) (\<lambda>h. and_then (collect_hashes vs) (\<lambda>hs. Inr (h # hs)))"

definition hashes :: "bytes list \<Rightarrow> (bytes, digest list) result" where
  "hashes vals = ensure (length vals \<le> MAX_PROOF_NODES) ''too many log proof nodes'' (collect_hashes vals)"

definition decode_record :: "record_env \<Rightarrow> bytes \<Rightarrow> (bytes, publication_record) result" where
  "decode_record env bs =
     ensure (length bs \<le> MAX_RECORD_BYTES) ''publication record is too large'' (
     ok_or (record_of_json env bs) ''invalid publication record JSON'')"

definition decode_comparison :: "record_env \<Rightarrow> bytes \<Rightarrow> (bytes, checkpoint_comparison) result" where
  "decode_comparison env bs =
     ensure (length bs \<le> MAX_COMPARISON_BYTES) ''checkpoint comparison is too large'' (
     ok_or (comparison_of_json env bs) ''invalid checkpoint comparison JSON'')"

definition record_entry_bytes :: "(bytes \<Rightarrow> digest) \<Rightarrow> publication_record \<Rightarrow> bytes \<Rightarrow> (bytes, bytes) result" where
  "record_entry_bytes sha rec receipt_root =
     ensure (pr_format rec = RECORD_FORMAT) ''unsupported publication record format'' (
     ensure (length (pr_submissions rec) \<le> MAX_SUBMISSIONS) ''too many recorded submission attempts'' (
     ensure (length (pr_submit_url rec) \<le> 4096 \<and> list_all (\<lambda>c. \<not> is_control c) (utf8_chars (pr_submit_url rec)))
       ''invalid publication destination'' (
     and_then (with_context ''invalid log identifier'' (hash_bytes (pr_log_id rec))) (\<lambda>_.
     and_then (with_context ''receipt has an invalid causal root'' (hash_bytes receipt_root)) (\<lambda>_.
     ensure (pr_causal_root rec = receipt_root) ''publication belongs to a different causal root'' (
     and_then (entry_for_root sha receipt_root (pr_opening_nonce rec)) (\<lambda>entry.
     ensure (length (pr_entry rec) = (length ENTRY_PREFIX + 32) * 2 \<and> hex_encode entry = pr_entry rec)
       ''published entry does not match the receipt root and opening'' (
     Inr entry))))))))"

definition record_verify ::
  "record_env \<Rightarrow> publication_record \<Rightarrow> bytes \<Rightarrow> log_config \<Rightarrow> (bytes, checkpoint) result" where
  "record_verify env rec receipt_root trust =
     and_then (record_entry_bytes (ne_sha256 env) rec receipt_root) (\<lambda>entry.
     and_then (log_id_of env trust) (\<lambda>log_id.
     ensure (pr_log_id rec = log_id) ''publication names a different configured log'' (
     (case pr_outcome rec of
        Unconfirmed _ \<Rightarrow> Inl ''publication has no confirmed inclusion evidence''
      | Confirmed leaf_index note inclusion_path \<Rightarrow>
          and_then (checkpoint_verify env note trust) (\<lambda>cp.
          and_then (hashes inclusion_path) (\<lambda>path.
          and_then (map_err merkle_message
            (verify_inclusion (ne_sha256 env) entry leaf_index (cp_tree_size cp) path (cp_root cp))) (\<lambda>_.
          Inr cp)))))))"

definition same_checkpoint :: "checkpoint \<Rightarrow> checkpoint \<Rightarrow> bool" where
  "same_checkpoint a b \<longleftrightarrow> cp_tree_size a = cp_tree_size b \<and> cp_root a = cp_root b"

definition comparison_verify ::
  "record_env \<Rightarrow> checkpoint_comparison \<Rightarrow> log_config \<Rightarrow> (bytes, checkpoint \<times> checkpoint) result" where
  "comparison_verify env cmp trust =
     ensure (cc_format cmp = COMPARISON_FORMAT) ''unsupported checkpoint comparison format'' (
     and_then (log_id_of env trust) (\<lambda>log_id.
     ensure (cc_log_id cmp = log_id) ''comparison names a different configured log'' (
     and_then (checkpoint_verify env (cc_first cmp) trust) (\<lambda>first.
     and_then (checkpoint_verify env (cc_second cmp) trust) (\<lambda>second.
     ensure (cp_tree_size first \<noteq> cp_tree_size second \<or> cp_root first = cp_root second)
       ''authenticated conflicting roots at the same tree size'' (
     and_then (hashes (cc_path cmp)) (\<lambda>path.
     and_then (map_err merkle_message
       (verify_consistency (ne_sha256 env) (cp_tree_size first) (cp_tree_size second) (cp_root first) (cp_root second) path)) (\<lambda>_.
     Inr (first, second)))))))))"

section \<open>Assessment\<close>

record verification_material =
  vm_trust :: "log_config option"
  vm_reference :: "bytes option"
  vm_comparison :: "bytes option"

definition log_skipped :: "bytes \<Rightarrow> check" where
  "log_skipped d = mk_check ''log-consistency'' Skipped (Note d)"

text \<open>The comparison with the recipient's own checkpoint: \<open>None\<close> when there is nothing to compare with.\<close>

definition compare_reference ::
  "record_env \<Rightarrow> log_config \<Rightarrow> bytes \<Rightarrow> bytes option \<Rightarrow> checkpoint \<Rightarrow> (bytes, (u64 \<times> u64) option) result" where
  "compare_reference env trust reference_note comparison publication =
     and_then (checkpoint_verify env reference_note trust) (\<lambda>reference.
     ensure (cp_tree_size reference \<noteq> cp_tree_size publication \<or> cp_root reference = cp_root publication)
       ''authenticated conflicting roots at the same tree size'' (
     let established = Inr (Some (cp_tree_size reference, cp_tree_size publication)) in
     (case comparison of
        Some bs \<Rightarrow>
          and_then (decode_comparison env bs) (\<lambda>cmp.
          and_then (comparison_verify env cmp trust) (\<lambda>(first, second).
          ensure (same_checkpoint first reference \<and> same_checkpoint second publication \<or>
                  same_checkpoint second reference \<and> same_checkpoint first publication)
            ''comparison does not cover the recipient reference and publication checkpoint'' established))
      | None \<Rightarrow>
          if same_checkpoint reference publication then established
          else if cp_tree_size reference = 0 \<or> cp_tree_size publication = 0 then
            let (first, second) = (if cp_tree_size reference < cp_tree_size publication
                                   then (reference, publication) else (publication, reference)) in
            and_then (map_err merkle_message
              (verify_consistency (ne_sha256 env) (cp_tree_size first) (cp_tree_size second) (cp_root first) (cp_root second) []))
              (\<lambda>_. established)
          else Inr None)))"

definition assess :: "record_env \<Rightarrow> bytes option \<Rightarrow> bytes option \<Rightarrow> verification_material \<Rightarrow> check list" where
  "assess env receipt_root record material =
     (case record of
        None \<Rightarrow> [mk_check ''log-inclusion'' Skipped (Note ''no retained publication evidence''),
                 log_skipped ''no authenticated publication checkpoint to compare'']
      | Some bs \<Rightarrow>
     (case and_then (ok_or receipt_root ''receipt has no causal root'') (\<lambda>root.
           and_then (decode_record env bs) (\<lambda>rec.
           and_then (record_entry_bytes (ne_sha256 env) rec root) (\<lambda>_. Inr (root, rec)))) of
        Inl e \<Rightarrow> [mk_check ''log-inclusion'' Fail (Note e), log_skipped ''publication evidence did not bind the receipt'']
      | Inr (root, rec) \<Rightarrow>
     (case vm_trust material of
        None \<Rightarrow> [mk_check ''log-inclusion'' Skipped (Note ''no independently configured log trust''),
                 log_skipped ''no independently configured log trust'']
      | Some trust \<Rightarrow>
     (case pr_outcome rec of
        Unconfirmed reason \<Rightarrow> [mk_check ''log-inclusion'' Skipped (Note (reason_description reason)),
                 log_skipped ''publication has no authenticated inclusion checkpoint'']
      | Confirmed _ _ _ \<Rightarrow>
     (case record_verify env rec root trust of
        Inl e \<Rightarrow> [mk_check ''log-inclusion'' Fail (Note e), log_skipped ''publication checkpoint was not established'']
      | Inr publication \<Rightarrow>
          let inclusion = mk_check ''log-inclusion'' Pass (Note (''entry is included in configured log '' @ pr_log_id rec @
                '' at tree size '' @ show_nat (unat (cp_tree_size publication)))) in
          (case vm_reference material of
             None \<Rightarrow> [inclusion, log_skipped ''no independently supplied reference checkpoint'']
           | Some reference \<Rightarrow>
               [inclusion,
                (case compare_reference env trust reference (vm_comparison material) publication of
                   Inr (Some (a, b)) \<Rightarrow> mk_check ''log-consistency'' Pass (Note (
                     ''consistency established only between configured-log checkpoints of sizes '' @
                     show_nat (unat a) @ '' and '' @ show_nat (unat b)))
                 | Inr None \<Rightarrow> log_skipped ''no consistency proof for the supplied reference checkpoint''
                 | Inl e \<Rightarrow> mk_check ''log-consistency'' Fail (Note e))]))))))"

section \<open>Properties\<close>

lemma hash_bytes_parts:
  assumes "hash_bytes s = Inr h"
  shows "s = hex_encode (digest_bytes h)"
  using assms hex_encode_of_decode [of s] by (auto simp: hash_bytes_def result_simps digest_try_from_Some)

lemma hash_bytes_encode [simp]: "hash_bytes (hex_encode (digest_bytes h)) = Inr h"
  by (simp add: hash_bytes_def list_all_iff hex_encode_digits)

lemma with_context_Inr [simp]: "with_context m r = Inr x \<longleftrightarrow> r = Inr x"
  by (simp add: with_context_def map_err_Inr_iff)

lemma entry_for_root_parts:
  "entry_for_root sha root nonce = Inr entry \<longleftrightarrow> (\<exists>r n. root = hex_encode (digest_bytes r) \<and> nonce = hex_encode (digest_bytes n) \<and>
     entry = ENTRY_PREFIX @ digest_bytes (sha (COMMITMENT_DOMAIN @ digest_bytes n @ digest_bytes r)))"
  by (auto simp: entry_for_root_def result_simps with_context_def dest: hash_bytes_parts)

text \<open>The string an entry commits to.\<close>

definition opened :: "bytes \<Rightarrow> bytes" where
  "opened s = (case hex_decode s of Some bs \<Rightarrow> bs | None \<Rightarrow> [])"

definition commitment :: "bytes \<Rightarrow> bytes \<Rightarrow> bytes" where
  "commitment root nonce = COMMITMENT_DOMAIN @ opened nonce @ opened root"

lemma opened_encode [simp]: "opened (hex_encode s) = s"
  by (simp add: opened_def)

text \<open>
  What a log entry commits to. An entry exists exactly for a root and an opening in lower-case hexadecimal
  of 32 bytes each; and an entry opens to one root only: two openings of the same entry name the same
  causal root and the same nonce, unless SHA-256 collides on the two commitments.
\<close>

theorem entry_for_root_binding:
  assumes "entry_for_root sha root nonce = Inr entry" "entry_for_root sha root' nonce' = Inr entry"
    and "inj_on sha {commitment root nonce, commitment root' nonce'}"
  shows "root = root' \<and> nonce = nonce' \<and> entry = ENTRY_PREFIX @ digest_bytes (sha (commitment root nonce)) \<and>
    (\<exists>r n. root = hex_encode (digest_bytes r) \<and> nonce = hex_encode (digest_bytes n))"
proof -
  obtain r n where r: "root = hex_encode (digest_bytes r)" "nonce = hex_encode (digest_bytes n)"
      "entry = ENTRY_PREFIX @ digest_bytes (sha (commitment root nonce))"
    using assms(1) by (auto simp: entry_for_root_parts commitment_def)
  obtain r' n' where r': "root' = hex_encode (digest_bytes r')" "nonce' = hex_encode (digest_bytes n')"
      "entry = ENTRY_PREFIX @ digest_bytes (sha (commitment root' nonce'))"
    using assms(2) by (auto simp: entry_for_root_parts commitment_def)
  have "sha (commitment root nonce) = sha (commitment root' nonce')" using r(3) r'(3) by simp
  then have "commitment root nonce = commitment root' nonce'" using assms(3) by (simp add: inj_on_eq_iff)
  then have "n = n' \<and> r = r'" by (simp add: commitment_def r r' append_eq_append_conv)
  then show ?thesis using r r' by auto
qed

theorem entry_for_root_binding_witness:
  "\<exists>entry. entry_for_root digest_of (hex_encode (digest_bytes (digest_of ''r''))) (hex_encode (digest_bytes (digest_of ''n''))) = Inr entry \<and>
    entry = ENTRY_PREFIX @ digest_bytes (digest_of (commitment (hex_encode (digest_bytes (digest_of ''r''))) (hex_encode (digest_bytes (digest_of ''n'')))))"
proof -
  obtain entry where "entry_for_root digest_of (hex_encode (digest_bytes (digest_of ''r''))) (hex_encode (digest_bytes (digest_of ''n''))) = Inr entry"
    by (auto simp: entry_for_root_parts)
  from this entry_for_root_binding [OF this this] show ?thesis by simp
qed

subsection \<open>Notes\<close>

lemma rsplit_blank_parts: "rsplit_blank s = Some (a, b) \<Longrightarrow> s = a @ [CHR 0x0A, CHR 0x0A] @ b"
proof (induction s arbitrary: a)
  case (Cons c s)
  then show ?case by (cases s) (auto split: option.splits if_splits)
qed simp

text \<open>A signature line of the note by the configured key.\<close>

definition signed_line :: "'z note_env_scheme \<Rightarrow> verifier \<Rightarrow> bytes \<Rightarrow> bytes \<Rightarrow> bool" where
  "signed_line env v body line \<longleftrightarrow> (\<exists>encoded sig. line = NOTE_DASH @ vf_name v @ '' '' @ encoded \<and>
     b64_decode env encoded = Some (vf_id v @ sig) \<and> b64_encode env (vf_id v @ sig) = encoded \<and> length sig = 64 \<and>
     verify_strict env (vf_key v) body sig)"

lemma strip_prefix_parts: "strip_prefix p s = Some r \<longleftrightarrow> s = p @ r"
  by (auto simp: strip_prefix_def starts_with_iff)

lemma note_signatures_sound:
  "note_signatures env v body ls seen authenticated = Inr ok \<Longrightarrow> ok \<Longrightarrow> authenticated \<or> (\<exists>line\<in>set ls. signed_line env v body line)"
proof (induction ls arbitrary: seen authenticated)
  case (Cons line ls)
  obtain r name encoded sig where p: "strip_prefix NOTE_DASH line = Some r" "split_once '' '' r = Some (name, encoded)"
      "canonical_base64 env encoded = Inr sig"
    and next_ok: "(if name = vf_name v \<and> take 4 sig = vf_id v then
       ensure (length (drop 4 sig) = 64) ''invalid Ed25519 note signature length'' (
       ensure (verify_strict env (vf_key v) body (drop 4 sig)) ''invalid signature from configured log key'' (
       note_signatures env v body ls (insert (name, take 4 sig) seen) True))
     else note_signatures env v body ls (insert (name, take 4 sig) seen) authenticated) = Inr ok"
    using Cons.prems(1) by (auto simp: result_simps Let_def)
  show ?case
  proof (cases "name = vf_name v \<and> take 4 sig = vf_id v")
    case True
    have "line = NOTE_DASH @ name @ '' '' @ encoded"
      using p(1,2) split_once_parts [of "'' ''" r name encoded] by (simp add: strip_prefix_parts)
    moreover have "b64_decode env encoded = Some sig" "b64_encode env sig = encoded"
      using p(3) by (simp_all add: canonical_base64_def result_simps)
    moreover have "sig = vf_id v @ drop 4 sig" using True by (metis append_take_drop_id)
    moreover have "length (drop 4 sig) = 64" "verify_strict env (vf_key v) body (drop 4 sig)"
      using next_ok True by (simp_all add: result_simps)
    ultimately have "signed_line env v body line" using True unfolding signed_line_def by metis
    then show ?thesis by simp
  next
    case False
    then have "note_signatures env v body ls (insert (name, take 4 sig) seen) authenticated = Inr ok"
      using next_ok by (simp only: False if_False)
    from Cons.IH [OF this Cons.prems(2)] show ?thesis by auto
  qed
qed simp

text \<open>
  An accepted note is signed by the configured key. The text returned is the note up to its last blank line,
  and among the lines after it there is one under the configured name and key identifier whose
  signature holds over exactly that text; the key is the configured one and never one the note supplies.
\<close>

theorem verify_note_sound:
  assumes "verify_note env v note = Inr body"
  shows "\<exists>signatures. note = body @ [CHR 0x0A] @ signatures \<and> (\<exists>line\<in>set (lines signatures). signed_line env v body line) \<and>
    length note \<le> 128 * 1024 \<and> length (lines signatures) \<le> 32"
proof -
  obtain a sigs where p: "rsplit_blank note = Some (a, sigs)" "body = a @ [CHR 0x0A]"
      "length note \<le> MAX_NOTE_BYTES" "length (lines sigs) \<le> MAX_SIGNATURES"
      "note_signatures env v body (lines sigs) {} False = Inr True"
    using assms by (auto simp: verify_note_def result_simps Let_def)
  have "note = body @ [CHR 0x0A] @ sigs" using rsplit_blank_parts [OF p(1)] p(2) by simp
  moreover have "\<exists>line\<in>set (lines sigs). signed_line env v body line" using note_signatures_sound [OF p(5)] by simp
  ultimately show ?thesis using p(3,4) unfolding MAX_NOTE_BYTES_def MAX_SIGNATURES_def by blast
qed

subsection \<open>Checkpoints\<close>

text \<open>Base64 as the notes use it: what is encoded decodes to itself and is printable without spaces.\<close>

definition b64_faithful :: "'z note_env_scheme \<Rightarrow> bool" where
  "b64_faithful env \<longleftrightarrow> (\<forall>bs. b64_decode env (b64_encode env bs) = Some bs \<and> list_all visible (b64_encode env bs))"

lemma canonical_base64_encode: "b64_faithful env \<Longrightarrow> canonical_base64 env (b64_encode env bs) = Inr bs"
  by (simp add: b64_faithful_def canonical_base64_def)

lemma split_once_char: "c \<notin> set a \<Longrightarrow> split_once [c] (a @ c # b) = Some (a, b)"
  by (induction a) (auto simp: starts_with_iff)

lemma visible_not: "list_all visible s \<Longrightarrow> \<not> visible c \<Longrightarrow> c \<notin> set s"
  by (auto simp: list_all_iff)

lemma digit_visible: "is_hex_digit c \<Longrightarrow> visible c" "is_digit c \<Longrightarrow> visible c"
  by (auto simp: visible_def is_hex_digit_def is_digit_def)

lemma hex_visible: "list_all visible (hex_encode s)"
  using digit_visible(1) [OF hex_encode_digits] by (auto simp: list_all_iff)

lemma hex_no_plus: "CHR ''+'' \<notin> set (hex_encode s)"
  using hex_encode_digits by (force simp: is_hex_digit_def)

lemma utf8_chars_visible: "list_all visible s \<Longrightarrow> utf8_chars s = map of_char s"
  by (induction s) (simp_all add: visible_def Let_def)

definition plain_name :: "bytes \<Rightarrow> bool" where
  "plain_name name \<longleftrightarrow> name \<noteq> [] \<and> list_all visible name \<and> CHR ''+'' \<notin> set name"

lemma plain_name_valid: "plain_name name \<Longrightarrow> valid_name name"
proof -
  assume p: "plain_name name"
  then have u: "utf8_chars name = map of_char name" by (simp add: plain_name_def utf8_chars_visible)
  have "\<not> (is_whitespace (of_char c) \<or> is_control (of_char c) \<or> of_char c = (of_char (CHR ''+'') :: nat))" if "c \<in> set name" for c
  proof -
    have "visible c" "c \<noteq> CHR ''+''" using p that by (auto simp: plain_name_def list_all_iff)
    moreover have "of_char c \<noteq> (of_char (CHR ''+'') :: nat)" using calculation(2) by (metis char_of_char)
    ultimately show ?thesis by (auto simp: visible_def is_whitespace_def is_control_def)
  qed
  then show ?thesis using p by (auto simp: valid_name_def u plain_name_def list_all_iff)
qed

text \<open>The verifier key of a log, the text of a checkpoint and the note over it.\<close>

definition key_material :: "digest \<Rightarrow> bytes" where
  "key_material key = CHR 0x01 # digest_bytes key"

definition key_identifier :: "'z note_env_scheme \<Rightarrow> bytes \<Rightarrow> digest \<Rightarrow> bytes" where
  "key_identifier env name key = take 4 (digest_bytes (ne_sha256 env (name @ [CHR 0x0A] @ key_material key)))"

definition verifier_text :: "'z note_env_scheme \<Rightarrow> bytes \<Rightarrow> digest \<Rightarrow> bytes" where
  "verifier_text env name key =
     name @ ''+'' @ hex_encode (key_identifier env name key) @ ''+'' @ b64_encode env (key_material key)"

definition checkpoint_text :: "'z note_env_scheme \<Rightarrow> bytes \<Rightarrow> u64 \<Rightarrow> digest \<Rightarrow> bytes" where
  "checkpoint_text env origin n root =
     origin @ [CHR 0x0A] @ show_nat (unat n) @ [CHR 0x0A] @ b64_encode env (digest_bytes root) @ [CHR 0x0A]"

definition signed_note :: "'z note_env_scheme \<Rightarrow> bytes \<Rightarrow> digest \<Rightarrow> bytes \<Rightarrow> bytes \<Rightarrow> bytes" where
  "signed_note env name key body sig =
     body @ [CHR 0x0A] @ NOTE_DASH @ name @ '' '' @ b64_encode env (key_identifier env name key @ sig) @ [CHR 0x0A]"

lemma key_identifier_length: "length (key_identifier env name key) = 4"
  by (simp add: key_identifier_def)

lemma verifier_parse_text:
  assumes "b64_faithful env" "plain_name name" "log_key_valid env key" "\<not> log_key_weak env key"
    "length (verifier_text env name key) \<le> 4096"
  shows "verifier_parse env (verifier_text env name key) =
    Inr \<lparr>vf_name = name, vf_id = key_identifier env name key, vf_key = key\<rparr>"
proof -
  let ?i = "hex_encode (key_identifier env name key)" and ?m = "b64_encode env (key_material key)"
  have s1: "split_once ''+'' (verifier_text env name key) = Some (name, ?i @ CHR ''+'' # ?m)"
    using split_once_char [of "CHR ''+''" name] assms(2) by (simp add: verifier_text_def plain_name_def)
  have s2: "split_once ''+'' (?i @ CHR ''+'' # ?m) = Some (?i, ?m)"
    using split_once_char [of "CHR ''+''" ?i ?m] hex_no_plus by simp
  have i: "list_all is_hex_digit ?i" using hex_encode_digits by (auto simp: list_all_iff)
  have m: "length (key_material key) = 33" "hd (key_material key) = CHR 0x01" "tl (key_material key) = digest_bytes key"
    by (simp_all add: key_material_def)
  have e: "take 4 (digest_bytes (ne_sha256 env (name @ CHR 0x0A # key_material key))) = key_identifier env name key"
    by (simp add: key_identifier_def)
  show ?thesis
    using assms plain_name_valid [OF assms(2)] canonical_base64_encode [OF assms(1), of "key_material key"]
    by (simp add: verifier_parse_def s1 s2 i m e Let_def key_identifier_length)
qed

lemma rsplit_blank_none: "CHR 0x0A \<notin> set s \<Longrightarrow> rsplit_blank (s @ [CHR 0x0A]) = None"
  by (induction s) auto

lemma rsplit_blank_append:
  "rsplit_blank t = None \<Longrightarrow> t = [] \<or> hd t \<noteq> CHR 0x0A \<Longrightarrow> rsplit_blank (s @ [CHR 0x0A, CHR 0x0A] @ t) = Some (s, t)"
  by (induction s) auto

lemma lines_join:
  assumes "list_all (\<lambda>l. CHR 0x0A \<notin> set l) ls" "ls \<noteq> []"
  shows "lines (join [CHR 0x0A] ls @ [CHR 0x0A]) = ls"
proof -
  have "join [CHR 0x0A] ls @ [CHR 0x0A] = join [CHR 0x0A] (ls @ [[]])"
    using assms(2) by (induction "[CHR 0x0A]" ls rule: join.induct) auto
  moreover have "split_on (CHR 0x0A) (join [CHR 0x0A] (ls @ [[]])) = ls @ [[]]"
    using assms by (intro split_on_join) simp_all
  ultimately show ?thesis by (simp add: lines_def)
qed

lemma show_nat_visible: "list_all visible (show_nat n)"
  using digit_visible(2) [OF show_nat_chars] by (auto simp: list_all_iff)

lemma newline_not_visible: "\<not> visible (CHR 0x0A)" "\<not> visible (CHR '' '')"
  by (simp_all add: visible_def)

lemma visible_printable: "list_all visible s \<Longrightarrow> list_all (\<lambda>c. \<not> ((of_char c :: nat) < 0x20 \<and> c \<noteq> CHR 0x0A)) s"
  by (auto simp: list_all_iff visible_def)

lemma checkpoint_text_lines:
  assumes "b64_faithful env" "plain_name origin"
  shows "lines (checkpoint_text env origin n root) = [origin, show_nat (unat n), b64_encode env (digest_bytes root)]"
proof -
  have "list_all visible origin" "list_all visible (b64_encode env (digest_bytes root))"
    using assms by (auto simp: plain_name_def b64_faithful_def)
  then have "list_all (\<lambda>l. CHR 0x0A \<notin> set l) [origin, show_nat (unat n), b64_encode env (digest_bytes root)]"
    using visible_not [OF _ newline_not_visible(1)] show_nat_visible by auto
  from lines_join [OF this] show ?thesis by (simp add: checkpoint_text_def)
qed

lemma ends_with_append: "ends_with (s @ p) p"
  by (simp add: ends_with_def)

lemma verify_note_signed:
  assumes b64: "b64_faithful env" and name: "plain_name name" "plain_name origin"
    and v: "v = \<lparr>vf_name = name, vf_id = key_identifier env name key, vf_key = key\<rparr>"
    and body: "body = checkpoint_text env origin n root"
    and sig: "length sig = 64" "verify_strict env key body sig"
    and size: "length (signed_note env name key body sig) \<le> 16 * 1024"
  shows "verify_note env v (signed_note env name key body sig) = Inr body"
proof -
  let ?e = "b64_encode env (key_identifier env name key @ sig)"
  let ?line = "NOTE_DASH @ name @ '' '' @ ?e"
  let ?text = "origin @ [CHR 0x0A] @ show_nat (unat n) @ [CHR 0x0A] @ b64_encode env (digest_bytes root)"
  have vis: "list_all visible ?e" "list_all visible (b64_encode env (digest_bytes root))" "list_all visible name" "list_all visible origin"
    using b64 name by (auto simp: b64_faithful_def plain_name_def)
  have nt: "signed_note env name key body sig = ?text @ [CHR 0x0A, CHR 0x0A] @ (?line @ [CHR 0x0A])"
    by (simp add: signed_note_def body checkpoint_text_def)
  have nl: "CHR 0x0A \<notin> set ?line"
    using visible_not [OF vis(1) newline_not_visible(1)] visible_not [OF vis(3) newline_not_visible(1)] by (simp add: NOTE_DASH_def)
  have split: "rsplit_blank (signed_note env name key body sig) = Some (?text, ?line @ [CHR 0x0A])"
    unfolding nt by (rule rsplit_blank_append [OF rsplit_blank_none [OF nl]]) (simp add: NOTE_DASH_def)
  have lines: "lines (?line @ [CHR 0x0A]) = [?line]" using lines_join [of "[?line]"] nl by simp
  have printable: "list_all (\<lambda>c. \<not> ((of_char c :: nat) < 0x20 \<and> c \<noteq> CHR 0x0A)) (signed_note env name key body sig)"
    unfolding nt using vis [THEN visible_printable] visible_printable [OF show_nat_visible [of "unat n"]]
    by (simp add: NOTE_DASH_def)
  have fields: "split_once '' '' (name @ '' '' @ ?e) = Some (name, ?e)"
    using split_once_char [OF visible_not [OF vis(3) newline_not_visible(2)], of ?e] by simp
  have small: "length ?e \<le> 16 * 1024" using size by (simp add: nt)
  have "note_signatures env v body [?line] {} False = Inr True"
    using canonical_base64_encode [OF b64, of "key_identifier env name key @ sig"] sig fields small plain_name_valid [OF name(1)]
    by (simp add: strip_prefix_def starts_with_iff Let_def v key_identifier_length)
  moreover have "body \<noteq> []" by (simp add: body checkpoint_text_def)
  moreover have "?text @ [CHR 0x0A] = body" by (simp add: body checkpoint_text_def)
  moreover have "ends_with (signed_note env name key body sig) [CHR 0x0A]"
    using ends_with_append [of "?text @ [CHR 0x0A, CHR 0x0A] @ ?line" "[CHR 0x0A]"] unfolding nt by (simp only: append_assoc)
  ultimately show ?thesis
    unfolding verify_note_def MAX_NOTE_BYTES_def MAX_SIGNATURES_def Let_def split ok_or_simps and_then_simps prod.case lines
    using printable size by (simp add: body del: note_signatures.simps)
qed

lemma checkpoint_signed:
  assumes "b64_faithful env" "plain_name name" "plain_name origin" "length origin \<le> 4096"
    and "log_key_valid env key" "\<not> log_key_weak env key" "length (verifier_text env name key) \<le> 4096"
    and "length sig = 64" "verify_strict env key (checkpoint_text env origin n root) sig"
    and "n = 0 \<longrightarrow> root = empty_root (ne_sha256 env)"
    and "trust = \<lparr>lc_format = ''attest-log/v1'', lc_origin = origin, lc_verifier_key = verifier_text env name key,
      lc_read_url = read_url, lc_submit_url = submit_url, lc_tls_ca = ca\<rparr>"
    and "nt = signed_note env name key (checkpoint_text env origin n root) sig" "length nt \<le> 16 * 1024"
  shows "checkpoint_verify env nt trust = Inr \<lparr>cp_tree_size = n, cp_root = root, cp_signed_note = nt\<rparr>"
proof -
  let ?v = "\<lparr>vf_name = name, vf_id = key_identifier env name key, vf_key = key\<rparr>"
  have v: "verifier_parse env (lc_verifier_key trust) = Inr ?v"
    using verifier_parse_text [OF assms(1,2,5,6,7)] by (simp add: assms(11))
  have val: "log_validate env trust = Inr ()"
    using v plain_name_valid [OF assms(3)] assms(4) by (simp add: log_validate_def assms(11))
  have nt: "verify_note env ?v nt = Inr (checkpoint_text env origin n root)"
    using verify_note_signed [OF assms(1-3) refl refl assms(8,9)] assms(12,13) by simp
  have digits: "list_all is_digit (show_nat (unat n))" by (rule show_nat_digits)
  have canonical: "show_nat (unat n) = ''0'' \<or> \<not> starts_with (show_nat (unat n)) ''0''"
  proof (cases "n = 0")
    case True
    then show ?thesis by (simp add: show_nat.simps digit_char_def char_of_def bit_0)
  next
    case False
    then have "hd (show_nat (unat n)) \<noteq> CHR ''0''" by (intro show_nat_hd) (simp add: unat_gt_0)
    then show ?thesis by (auto simp: starts_with_iff)
  qed
  have origin: "lc_origin trust = origin" by (simp add: assms(11))
  have num: "parse_u64 (show_nat (unat n)) = Some n"
    using unat_less_2p64 [of n] by (simp add: parse_u64_def)
  show ?thesis
    using assms(10) canonical_base64_encode [OF assms(1), of "digest_bytes root"] digits canonical
    by (simp add: checkpoint_verify_def val v nt Let_def checkpoint_text_lines [OF assms(1,3)] nth_line_def num origin)
qed

text \<open>
  A checkpoint a log signs is read back. For a log whose origin and key name are plain, whatever the size and
  root of its tree, the note made of the checkpoint text and the log's signature over it is accepted
  under the configuration with the log's key, and gives back exactly that size and root.
\<close>

theorem checkpoint_roundtrip:
  assumes "b64_faithful env" "plain_name name" "plain_name origin" "length origin \<le> 4096"
    and "log_key_valid env key" "\<not> log_key_weak env key" "length (verifier_text env name key) \<le> 4096"
    and "length sig = 64" "verify_strict env key (checkpoint_text env origin n root) sig"
    and "n = 0 \<longrightarrow> root = empty_root (ne_sha256 env)"
    and "trust = \<lparr>lc_format = ''attest-log/v1'', lc_origin = origin, lc_verifier_key = verifier_text env name key,
      lc_read_url = read_url, lc_submit_url = submit_url, lc_tls_ca = ca\<rparr>"
    and "nt = signed_note env name key (checkpoint_text env origin n root) sig" "length nt \<le> 16 * 1024"
  shows "checkpoint_verify env nt trust = Inr \<lparr>cp_tree_size = n, cp_root = root, cp_signed_note = nt\<rparr>"
  using assms by (rule checkpoint_signed)

definition example_note_env :: record_env where
  "example_note_env = \<lparr>ne_sha256 = digest_of, b64_decode = hex_decode, b64_encode = hex_encode, log_key_valid = (\<lambda>_. True),
     log_key_weak = (\<lambda>_. False), verify_strict = (\<lambda>k m s. s = digest_bytes k @ digest_bytes (digest_of m)),
     record_of_json = (\<lambda>_. None), comparison_of_json = (\<lambda>_. None)\<rparr>"

definition example_trust_log :: log_config where
  "example_trust_log = \<lparr>lc_format = ''attest-log/v1'', lc_origin = ''o'', lc_verifier_key = verifier_text example_note_env ''o'' (digest_of ''k''),
     lc_read_url = None, lc_submit_url = None, lc_tls_ca = None\<rparr>"

definition example_note :: "digest \<Rightarrow> bytes" where
  "example_note root = signed_note example_note_env ''o'' (digest_of ''k'') (checkpoint_text example_note_env ''o'' 1 root)
     (digest_bytes (digest_of ''k'') @ digest_bytes (digest_of (checkpoint_text example_note_env ''o'' 1 root)))"

lemma example_note_ok:
  "b64_faithful example_note_env" "plain_name ''o''" "length (verifier_text example_note_env ''o'' (digest_of ''k'')) \<le> 4096"
  "length (example_note root) \<le> 16 * 1024"
proof -
  show "b64_faithful example_note_env" using hex_visible by (simp add: b64_faithful_def example_note_env_def)
  show "plain_name ''o''" by (simp add: plain_name_def visible_def)
  have one: "show_nat (unat (1 :: u64)) = [digit_char 1]" by (simp add: show_nat.simps)
  show "length (example_note root) \<le> 16 * 1024"
    unfolding example_note_def signed_note_def checkpoint_text_def one
    by (simp add: example_note_env_def key_identifier_length NOTE_DASH_def)
  show "length (verifier_text example_note_env ''o'' (digest_of ''k'')) \<le> 4096"
    by (simp add: verifier_text_def key_identifier_length key_material_def example_note_env_def)
qed

lemma example_checkpoint:
  "checkpoint_verify example_note_env (example_note root) example_trust_log =
     Inr \<lparr>cp_tree_size = 1, cp_root = root, cp_signed_note = example_note root\<rparr>"
  by (rule checkpoint_signed [OF example_note_ok(1,2,2) _ _ _ example_note_ok(3) _ _ _ _ example_note_def example_note_ok(4)])
     (simp_all add: example_note_env_def example_trust_log_def)

theorem checkpoint_roundtrip_witness:
  "checkpoint_verify example_note_env (example_note (digest_of ''x'')) example_trust_log =
     Inr \<lparr>cp_tree_size = 1, cp_root = digest_of ''x'', cp_signed_note = example_note (digest_of ''x'')\<rparr>"
  by (rule checkpoint_roundtrip [OF example_note_ok(1,2,2) _ _ _ example_note_ok(3) _ _ _ _ example_note_def example_note_ok(4)])
     (simp_all add: example_note_env_def example_trust_log_def)

subsection \<open>Assessment\<close>

text \<open>One checkpoint is proven to be of an earlier state of the log than another: in whatever way the roots
  come from entries, those of the first are the first of those of the second.\<close>

definition proven_prefix :: "(bytes \<Rightarrow> digest) \<Rightarrow> checkpoint \<Rightarrow> checkpoint \<Rightarrow> bool" where
  "proven_prefix sha a b \<longleftrightarrow> (\<exists>path.
     verify_consistency sha (cp_tree_size a) (cp_tree_size b) (cp_root a) (cp_root b) path = Inr () \<and>
     (\<forall>xs ys. length xs = unat (cp_tree_size a) \<longrightarrow> mth sha xs = cp_root a \<longrightarrow>
     length ys = unat (cp_tree_size b) \<longrightarrow> mth sha ys = cp_root b \<longrightarrow>
     inj_on sha (consistency_inputs sha (unat (cp_tree_size a)) (unat (cp_tree_size b)) (mth sha xs) True path \<union>
       tree_inputs sha xs \<union> tree_inputs sha ys) \<longrightarrow> xs = take (length xs) ys))"

lemma proven_prefixI:
  assumes "verify_consistency sha (cp_tree_size a) (cp_tree_size b) (cp_root a) (cp_root b) path = Inr ()"
  shows "proven_prefix sha a b"
  unfolding proven_prefix_def
proof (intro exI [of _ path] conjI allI impI assms)
  fix xs ys
  assume x: "length xs = unat (cp_tree_size a)" "mth sha xs = cp_root a" "length ys = unat (cp_tree_size b)" "mth sha ys = cp_root b"
    and inj: "inj_on sha (consistency_inputs sha (unat (cp_tree_size a)) (unat (cp_tree_size b)) (mth sha xs) True path \<union>
       tree_inputs sha xs \<union> tree_inputs sha ys)"
  have "verify_consistency sha (cp_tree_size a) (cp_tree_size b) (mth sha xs) (mth sha ys) path = Inr ()" using assms x by simp
  from verify_consistency_prefix [OF this x(1,3) inj] show "xs = take (length xs) ys" using x(1) by simp
qed

lemma checkpoint_empty:
  assumes "checkpoint_verify env note trust = Inr cp" "cp_tree_size cp = 0"
  shows "cp_root cp = empty_root (ne_sha256 env)"
  using assms by (auto simp: checkpoint_verify_def result_simps Let_def)

lemma proven_prefix_same:
  assumes "checkpoint_verify env note trust = Inr a" "same_checkpoint a b"
  shows "proven_prefix (ne_sha256 env) a b"
proof (rule proven_prefixI [where path = "[]"])
  show "verify_consistency (ne_sha256 env) (cp_tree_size a) (cp_tree_size b) (cp_root a) (cp_root b) [] = Inr ()"
    using assms checkpoint_empty [OF assms(1)]
    by (auto simp: same_checkpoint_def verify_consistency_def ensure_def)
qed

lemma comparison_verify_prefix:
  "comparison_verify env cmp trust = Inr (a, b) \<Longrightarrow> proven_prefix (ne_sha256 env) a b"
  by (auto simp: comparison_verify_def result_simps intro: proven_prefixI)

lemma proven_prefix_cong:
  "proven_prefix sha a b \<Longrightarrow> same_checkpoint a a' \<Longrightarrow> same_checkpoint b b' \<Longrightarrow> proven_prefix sha a' b'"
  unfolding proven_prefix_def same_checkpoint_def by metis

lemma compare_reference_sound:
  assumes "compare_reference env trust reference_note comparison publication = Inr (Some sizes)"
  shows "\<exists>reference. checkpoint_verify env reference_note trust = Inr reference \<and>
    (proven_prefix (ne_sha256 env) reference publication \<or> proven_prefix (ne_sha256 env) publication reference)"
proof -
  obtain reference where r: "checkpoint_verify env reference_note trust = Inr reference"
    using assms by (auto simp: compare_reference_def result_simps)
  note c = assms [unfolded compare_reference_def r and_then_simps, simplified result_simps Let_def, THEN conjunct2]
  show ?thesis
  proof (cases comparison)
    case (Some bs)
    then obtain cmp a b where cmp: "comparison_verify env cmp trust = Inr (a, b)"
        "same_checkpoint a reference \<and> same_checkpoint b publication \<or> same_checkpoint b reference \<and> same_checkpoint a publication"
      using c by (auto simp: result_simps)
    from comparison_verify_prefix [OF cmp(1)] cmp(2) r show ?thesis using proven_prefix_cong by blast
  next
    case None
    show ?thesis
    proof (cases "same_checkpoint reference publication")
      case True
      then show ?thesis using proven_prefix_same [OF r] r by blast
    next
      case False
      then show ?thesis using c None r
        by (auto simp: result_simps split: if_splits intro: proven_prefixI)
    qed
  qed
qed

lemma record_verify_sound:
  assumes "record_verify env rec root trust = Inr cp"
  shows "\<exists>entry index note path hs. entry_for_root (ne_sha256 env) root (pr_opening_nonce rec) = Inr entry \<and>
    pr_outcome rec = Confirmed index note path \<and> checkpoint_verify env note trust = Inr cp \<and> hashes path = Inr hs \<and>
    verify_inclusion (ne_sha256 env) entry index (cp_tree_size cp) hs (cp_root cp) = Inr ()"
  using assms
  by (cases "pr_outcome rec") (auto simp: record_verify_def record_entry_bytes_def result_simps)

lemma assess_names: "map check_name (assess env receipt_root record material) = [''log-inclusion'', ''log-consistency'']"
  by (simp add: assess_def mk_check_def log_skipped_def Let_def split: option.splits sum.splits prod.splits publication_state.splits)

lemma assess_inclusion_passed:
  assumes "check_status (assess env receipt_root record material ! 0) = Pass"
  shows "\<exists>root bs rec trust cp. receipt_root = Some root \<and> record = Some bs \<and> decode_record env bs = Inr rec \<and>
    vm_trust material = Some trust \<and> record_verify env rec root trust = Inr cp \<and>
    (check_status (assess env receipt_root record material ! 1) = Pass \<longrightarrow>
      (\<exists>reference sizes. vm_reference material = Some reference \<and>
        compare_reference env trust reference (vm_comparison material) cp = Inr (Some sizes)))"
proof (cases "record")
  case None
  then show ?thesis using assms by (simp add: assess_def mk_check_def)
next
  case (Some bs)
  let ?prepared = "and_then (ok_or receipt_root ''receipt has no causal root'') (\<lambda>root.
           and_then (decode_record env bs) (\<lambda>rec.
           and_then (record_entry_bytes (ne_sha256 env) rec root) (\<lambda>_. Inr (root, rec))))"
  obtain root rec where p: "?prepared = Inr (root, rec)"
    using assms Some by (cases ?prepared) (auto simp: assess_def mk_check_def)
  then have parts: "receipt_root = Some root" "decode_record env bs = Inr rec" by (auto simp: result_simps)
  obtain trust where t: "vm_trust material = Some trust"
    using assms Some p by (cases "vm_trust material") (auto simp: assess_def mk_check_def)
  obtain index nt path where out: "pr_outcome rec = Confirmed index nt path"
    using assms Some p t by (cases "pr_outcome rec") (auto simp: assess_def mk_check_def)
  obtain cp where cp: "record_verify env rec root trust = Inr cp"
    using assms Some p t out by (cases "record_verify env rec root trust") (auto simp: assess_def mk_check_def)
  have "\<exists>reference sizes. vm_reference material = Some reference \<and>
        compare_reference env trust reference (vm_comparison material) cp = Inr (Some sizes)"
    if passed: "check_status (assess env receipt_root record material ! 1) = Pass"
  proof -
    obtain reference where r: "vm_reference material = Some reference"
      using passed Some p t out cp by (cases "vm_reference material") (auto simp: assess_def mk_check_def log_skipped_def Let_def)
    then show ?thesis
      using passed Some p t out cp
      by (auto simp: assess_def mk_check_def log_skipped_def Let_def split: sum.splits option.splits)
  qed
  then show ?thesis using Some parts t cp by blast
qed

text \<open>
  C23. What the two log checks establish. When \<open>log-inclusion\<close> passes, the recipient's own log configuration
  authenticates a checkpoint, and the entry that commits to the receipt's causal root stands in the log
  at the recorded index: in whatever list of entries the checkpoint's root is the tree hash of. When
  \<open>log-consistency\<close> passes too, the recipient's reference checkpoint is authenticated and one of the two logs
  is a prefix of the other. Both hold unless SHA-256 collides among the strings hashed.
\<close>

theorem assess_sound:
  assumes "check_status (assess env receipt_root record material ! 0) = Pass"
  shows "\<exists>root bs rec trust cp entry index note path hs.
    receipt_root = Some root \<and> record = Some bs \<and> decode_record env bs = Inr rec \<and> vm_trust material = Some trust \<and>
    pr_outcome rec = Confirmed index note path \<and> hashes path = Inr hs \<and>
    checkpoint_verify env note trust = Inr cp \<and> entry_for_root (ne_sha256 env) root (pr_opening_nonce rec) = Inr entry \<and>
    index < cp_tree_size cp \<and>
    (\<forall>xs. length xs = unat (cp_tree_size cp) \<longrightarrow> mth (ne_sha256 env) xs = cp_root cp \<longrightarrow>
      inj_on (ne_sha256 env) (insert (CHR 0x00 # entry) (inclusion_inputs (ne_sha256 env) (unat index) (unat (cp_tree_size cp))
        (leaf_hash (ne_sha256 env) entry) hs) \<union> tree_inputs (ne_sha256 env) xs) \<longrightarrow> xs ! unat index = entry) \<and>
    (check_status (assess env receipt_root record material ! 1) = Pass \<longrightarrow>
      (\<exists>reference_note reference. vm_reference material = Some reference_note \<and>
        checkpoint_verify env reference_note trust = Inr reference \<and>
        (proven_prefix (ne_sha256 env) reference cp \<or> proven_prefix (ne_sha256 env) cp reference)))"
proof -
  obtain root bs rec trust cp where a: "receipt_root = Some root" "record = Some bs" "decode_record env bs = Inr rec"
      "vm_trust material = Some trust" "record_verify env rec root trust = Inr cp"
    and ref: "check_status (assess env receipt_root record material ! 1) = Pass \<longrightarrow>
      (\<exists>reference sizes. vm_reference material = Some reference \<and>
        compare_reference env trust reference (vm_comparison material) cp = Inr (Some sizes))"
    using assess_inclusion_passed [OF assms] by blast
  obtain entry index nt path hs where e: "entry_for_root (ne_sha256 env) root (pr_opening_nonce rec) = Inr entry"
      "checkpoint_verify env nt trust = Inr cp"
      "verify_inclusion (ne_sha256 env) entry index (cp_tree_size cp) hs (cp_root cp) = Inr ()"
      "pr_outcome rec = Confirmed index nt path" "hashes path = Inr hs"
    using record_verify_sound [OF a(5)] by blast
  have "index < cp_tree_size cp" using e(3) by (simp add: verify_inclusion_def result_simps)
  moreover have "xs ! unat index = entry" if "length xs = unat (cp_tree_size cp)" "mth (ne_sha256 env) xs = cp_root cp"
      "inj_on (ne_sha256 env) (insert (CHR 0x00 # entry) (inclusion_inputs (ne_sha256 env) (unat index) (unat (cp_tree_size cp))
        (leaf_hash (ne_sha256 env) entry) hs) \<union> tree_inputs (ne_sha256 env) xs)" for xs
    using verify_inclusion_leaf [of "ne_sha256 env" entry index "cp_tree_size cp" hs xs] e(3) that by simp
  moreover have "\<exists>reference_note reference. vm_reference material = Some reference_note \<and>
        checkpoint_verify env reference_note trust = Inr reference \<and>
        (proven_prefix (ne_sha256 env) reference cp \<or> proven_prefix (ne_sha256 env) cp reference)"
    if "check_status (assess env receipt_root record material ! 1) = Pass"
    using ref that compare_reference_sound by blast
  ultimately show ?thesis using a(1-4) e(1,2,4,5) by blast
qed

subsection \<open>An assessed receipt\<close>

definition example_root_hex :: bytes where "example_root_hex = hex_encode (digest_bytes (digest_of ''r''))"

definition example_nonce :: bytes where "example_nonce = hex_encode (digest_bytes (digest_of ''n''))"

definition example_entry :: bytes where
  "example_entry = ENTRY_PREFIX @ digest_bytes (digest_of (COMMITMENT_DOMAIN @ digest_bytes (digest_of ''n'') @ digest_bytes (digest_of ''r'')))"

definition example_log_id :: bytes where
  "example_log_id = to_hex (digest_of (''attest-log/v1'' @ [CHR 0x0A] @ ''o'' @ [CHR 0x0A] @ verifier_text example_note_env ''o'' (digest_of ''k'')))"

definition example_record :: publication_record where
  "example_record = \<lparr>pr_format = RECORD_FORMAT, pr_causal_root = example_root_hex, pr_opening_nonce = example_nonce,
     pr_entry = hex_encode example_entry, pr_log_id = example_log_id, pr_submit_url = ''u'', pr_created_at = 0, pr_submissions = [],
     pr_outcome = Confirmed 0 (example_note (leaf_hash digest_of example_entry)) []\<rparr>"

definition example_record_env :: record_env where
  "example_record_env = example_note_env\<lparr>record_of_json := (\<lambda>_. Some example_record)\<rparr>"

definition example_material :: verification_material where
  "example_material = \<lparr>vm_trust = Some example_trust_log, vm_reference = Some (example_note (leaf_hash digest_of example_entry)), vm_comparison = None\<rparr>"

lemma canonical_base64_update: "canonical_base64 (env\<lparr>record_of_json := f\<rparr>) text = canonical_base64 env text"
  by (simp add: canonical_base64_def)

lemma verify_strict_update: "verify_strict (env\<lparr>record_of_json := f\<rparr>) = verify_strict env"
  by simp

lemma note_signatures_update:
  "note_signatures (env\<lparr>record_of_json := f\<rparr>) v body ls seen auth = note_signatures env v body ls seen auth"
proof (induction ls arbitrary: seen auth)
  case (Cons line ls)
  show ?case
    unfolding note_signatures.simps canonical_base64_update verify_strict_update Cons.IH ..
qed simp

lemma verifier_parse_update: "verifier_parse (env\<lparr>record_of_json := f\<rparr>) text = verifier_parse env text"
  by (simp add: verifier_parse_def canonical_base64_def)

lemma checkpoint_verify_update:
  "checkpoint_verify (env\<lparr>record_of_json := f\<rparr>) nt trust = checkpoint_verify env nt trust"
  "log_validate (env\<lparr>record_of_json := f\<rparr>) trust = log_validate env trust"
  by (simp_all add: checkpoint_verify_def log_validate_def verifier_parse_update verify_note_def note_signatures_update
      canonical_base64_def)

lemma example_assess:
  "check_status (assess example_record_env (Some example_root_hex) (Some ''rec'') example_material ! 0) = Pass"
  "check_status (assess example_record_env (Some example_root_hex) (Some ''rec'') example_material ! 1) = Pass"
proof -
  have sha: "ne_sha256 example_record_env = digest_of" by (simp add: example_record_env_def example_note_env_def)
  have entry: "entry_for_root digest_of example_root_hex example_nonce = Inr example_entry"
    by (auto simp: entry_for_root_parts example_root_hex_def example_nonce_def example_entry_def)
  have lid: "hash_bytes example_log_id = Inr (digest_of (''attest-log/v1'' @ [CHR 0x0A] @ ''o'' @ [CHR 0x0A] @ verifier_text example_note_env ''o'' (digest_of ''k'')))"
    "hash_bytes example_root_hex = Inr (digest_of ''r'')"
    by (simp_all add: example_log_id_def to_hex_def example_root_hex_def)
  have val: "log_validate example_note_env example_trust_log = Inr ()"
    using example_checkpoint [of "digest_of ''x''"] by (auto simp: checkpoint_verify_def result_simps)
  have log: "log_id_of example_record_env example_trust_log = Inr example_log_id"
    using val by (simp add: log_id_of_def sha example_record_env_def checkpoint_verify_update)
      (simp add: example_log_id_def example_trust_log_def example_note_env_def)
  have len: "length ENTRY_PREFIX = 22" by (simp add: ENTRY_PREFIX_def)
  have eb: "record_entry_bytes digest_of example_record example_root_hex = Inr example_entry"
    using entry lid by (simp add: record_entry_bytes_def example_record_def MAX_SUBMISSIONS_def with_context_def len is_control_def Let_def)
      (simp add: example_entry_def len)
  have cp: "checkpoint_verify example_record_env (example_note (leaf_hash digest_of example_entry)) example_trust_log =
      Inr \<lparr>cp_tree_size = 1, cp_root = leaf_hash digest_of example_entry, cp_signed_note = example_note (leaf_hash digest_of example_entry)\<rparr>"
    using example_checkpoint by (simp add: example_record_env_def checkpoint_verify_update)
  have inc: "verify_inclusion digest_of example_entry 0 1 [] (leaf_hash digest_of example_entry) = Inr ()"
    by (simp add: verify_inclusion_def inclusion_root.simps MAX_INCLUSION_NODES_def)
  have out: "pr_outcome example_record = Confirmed 0 (example_note (leaf_hash digest_of example_entry)) []" "pr_log_id example_record = example_log_id"
    by (simp_all add: example_record_def)
  have rv: "record_verify example_record_env example_record example_root_hex example_trust_log =
      Inr \<lparr>cp_tree_size = 1, cp_root = leaf_hash digest_of example_entry, cp_signed_note = example_note (leaf_hash digest_of example_entry)\<rparr>"
    using eb log cp inc out by (simp add: record_verify_def sha hashes_def MAX_PROOF_NODES_def)
  have dec: "decode_record example_record_env ''rec'' = Inr example_record"
    by (simp add: decode_record_def MAX_RECORD_BYTES_def example_record_env_def)
  have mat: "vm_trust example_material = Some example_trust_log" "vm_reference example_material = Some (example_note (leaf_hash digest_of example_entry))"
    "vm_comparison example_material = None"
    by (simp_all add: example_material_def)
  have cr: "compare_reference example_record_env example_trust_log (example_note (leaf_hash digest_of example_entry)) None
      \<lparr>cp_tree_size = 1, cp_root = leaf_hash digest_of example_entry, cp_signed_note = example_note (leaf_hash digest_of example_entry)\<rparr> = Inr (Some (1, 1))"
    using cp by (simp add: compare_reference_def same_checkpoint_def)
  show "check_status (assess example_record_env (Some example_root_hex) (Some ''rec'') example_material ! 0) = Pass"
    "check_status (assess example_record_env (Some example_root_hex) (Some ''rec'') example_material ! 1) = Pass"
    using dec eb rv out mat cr by (simp_all add: assess_def sha Let_def mk_check_def)
qed

theorem assess_sound_witness:
  "\<exists>cp entry. entry_for_root digest_of example_root_hex example_nonce = Inr entry \<and>
     checkpoint_verify example_record_env (example_note (leaf_hash digest_of example_entry)) example_trust_log = Inr cp \<and>
     (proven_prefix digest_of cp cp)"
proof -
  have sha: "ne_sha256 example_record_env = digest_of" by (simp add: example_record_env_def example_note_env_def)
  have dec: "decode_record example_record_env ''rec'' = Inr example_record"
    by (simp add: decode_record_def MAX_RECORD_BYTES_def example_record_env_def)
  have nonce: "pr_opening_nonce example_record = example_nonce" by (simp add: example_record_def)
  have mat: "vm_trust example_material = Some example_trust_log" "vm_reference example_material = Some (example_note (leaf_hash digest_of example_entry))"
    by (simp_all add: example_material_def)
  from assess_sound [OF example_assess(1)] example_assess(2) obtain cp entry reference where
    "entry_for_root digest_of example_root_hex example_nonce = Inr entry"
    "checkpoint_verify example_record_env (example_note (leaf_hash digest_of example_entry)) example_trust_log = Inr reference"
    by (auto simp: sha dec nonce mat)
  moreover from this(2) have "proven_prefix digest_of reference reference"
    using proven_prefix_same [of example_record_env] by (simp add: sha same_checkpoint_def)
  ultimately show ?thesis by blast
qed

theorem verify_note_sound_witness:
  "\<exists>signatures. example_note (digest_of ''x'') = checkpoint_text example_note_env ''o'' 1 (digest_of ''x'') @ [CHR 0x0A] @ signatures \<and>
    signatures \<noteq> []"
proof -
  let ?v = "\<lparr>vf_name = ''o'', vf_id = key_identifier example_note_env ''o'' (digest_of ''k''), vf_key = digest_of ''k''\<rparr>"
  have "verify_note example_note_env ?v (example_note (digest_of ''x'')) = Inr (checkpoint_text example_note_env ''o'' 1 (digest_of ''x''))"
    unfolding example_note_def
    by (rule verify_note_signed [OF example_note_ok(1,2,2) refl refl _ _ example_note_ok(4) [unfolded example_note_def]])
       (simp_all add: example_note_env_def)
  from verify_note_sound [OF this] show ?thesis by (force simp: lines_def)
qed

end
