(* ===== verification/Archive.thy ===== *)
theory Archive
  imports Verify Ledger
begin

text \<open>
  Attestation archives, from \<open>src/archive.rs\<close>: reading an archive within limits, exporting a receipt
  with the events it refers to, the check that the events make up the signed chain root, and the verdict on
  an archive. The tar and zstd codecs and the JSON and YAML codecs are fields of an \<open>archive_env\<close>: the tar
  iterator yields the physical entries, or an error when it runs past the bytes it may expand to.
\<close>

section \<open>Reading\<close>

definition ARCHIVE_FORMAT :: bytes where "ARCHIVE_FORMAT = ''attest-archive/v1''"

record archive_manifest =
  am_format :: bytes
  am_created :: bytes
  am_attest_version :: bytes
  am_partial :: bool

record archive_entry =
  ae_path :: bytes
  ae_bytes :: bytes

record archive_limits =
  al_compressed :: nat
  al_decompressed :: nat
  al_entries :: nat
  al_entry :: nat

definition default_limits :: archive_limits where
  "default_limits = \<lparr>al_compressed = 64 * 1024 * 1024, al_decompressed = 512 * 1024 * 1024,
     al_entries = 10000, al_entry = 64 * 1024 * 1024\<rparr>"

datatype archive_error =
    LimitCompressed nat | LimitDecompressed | LimitEntries | LimitEntry bytes
  | ArchiveUnreadable | NotZstd | CorruptEntry | ExtensionRecord char | NotRegular | PathUnreadable
  | EscapesArchive bytes | ListedTwice bytes
  | NoManifest | BadManifest | UnsupportedFormat bytes | NoReceipt | ReceiptFailed verify_error
  | ExportUnreadable | ExportNotReceipt

text \<open>A physical tar entry: its type, its path if it can be read, the size its header declares if it
  can be read, and the body or the error of reading it.\<close>

record raw_entry =
  re_kind :: char
  re_path :: "bytes option"
  re_declared :: "nat option"
  re_body :: "(archive_error, bytes) result"

record archive_env =
  av_verify :: verify_env
  av_ledger :: ledger_env
  av_entries :: "nat \<Rightarrow> bytes \<Rightarrow> (archive_error, (archive_error, raw_entry) result list) result"
  av_pack :: "archive_entry list \<Rightarrow> bytes"
  av_lossy :: "bytes \<Rightarrow> bytes"
  av_manifest_json :: "archive_manifest \<Rightarrow> bytes"
  av_manifest_of_json :: "bytes \<Rightarrow> archive_manifest option"

fun read_entries ::
  "archive_env \<Rightarrow> archive_limits \<Rightarrow> nat \<Rightarrow> (archive_error, raw_entry) result list \<Rightarrow> archive_entry list
    \<Rightarrow> (archive_error, archive_entry list) result" where
  "read_entries env limits index [] entries = Inr entries"
| "read_entries env limits index (item # items) entries =
     ensure (\<not> index \<ge> al_entries limits) LimitEntries (
     and_then item (\<lambda>entry.
     ensure (re_kind entry \<notin> {CHR ''L'', CHR ''K'', CHR ''x'', CHR ''g''}) (ExtensionRecord (re_kind entry)) (
     ensure (re_kind entry = CHR ''0'' \<or> re_kind entry = CHR 0x00) NotRegular (
     and_then (ok_or (re_path entry) PathUnreadable) (\<lambda>raw.
     ensure (\<not> (starts_with raw ''/'' \<or> ParentDir \<in> set (components raw))) (EscapesArchive raw) (
     let path = av_lossy env raw in
     ensure (path \<notin> ae_path ` set entries) (ListedTwice path) (
     ensure (\<not> (case re_declared entry of Some n \<Rightarrow> n | None \<Rightarrow> 2 ^ 64 - 1) > al_entry limits) (LimitEntry path) (
     and_then (re_body entry) (\<lambda>body.
     let bs = take (al_entry limits + 1) body in
     ensure (\<not> length bs > al_entry limits) (LimitEntry path) (
     read_entries env limits (index + 1) items (entries @ [\<lparr>ae_path = path, ae_bytes = bs\<rparr>])))))))))))"

definition read_archive_bounded ::
  "archive_env \<Rightarrow> archive_limits \<Rightarrow> bytes option \<Rightarrow> (archive_error, archive_entry list) result" where
  "read_archive_bounded env limits file =
     and_then (ok_or file ArchiveUnreadable) (\<lambda>content.
     ensure (\<not> length content > al_compressed limits) (LimitCompressed (length content)) (
     and_then (av_entries env (al_decompressed limits) content) (\<lambda>items.
     read_entries env limits 0 items [])))"

definition read_archive :: "archive_env \<Rightarrow> bytes option \<Rightarrow> (archive_error, archive_entry list) result" where
  "read_archive env file = read_archive_bounded env default_limits file"

definition write_archive :: "archive_env \<Rightarrow> archive_entry list \<Rightarrow> bytes" where
  "write_archive env entries = av_pack env (sort_key ae_path entries)"

section \<open>Exporting\<close>

datatype export_outcome = Written bool | IncompleteChain "bytes list"

definition public_key_pem_from_hex :: "key_env \<Rightarrow> bytes \<Rightarrow> (bytes \<times> bytes) option" where
  "public_key_pem_from_hex env key_hex =
     (case hex_decode key_hex of
        None \<Rightarrow> None
      | Some bs \<Rightarrow>
          (case digest_try_from bs of
             None \<Rightarrow> None
           | Some key \<Rightarrow> if key_valid (ke_ed env) key then Some (key_id env key, public_to_pem env key) else None))"

definition event_path :: "bytes \<Rightarrow> bytes" where "event_path i = ''events/'' @ i @ ''.json''"

definition event_entries :: "(bytes \<rightharpoonup> bytes) \<Rightarrow> receipt \<Rightarrow> archive_entry list" where
  "event_entries events_dir r =
     concat (map (\<lambda>i. case events_dir (i @ ''.json'') of
        Some bs \<Rightarrow> [\<lparr>ae_path = event_path i, ae_bytes = bs\<rparr>] | None \<Rightarrow> []) (r_causal_events r))"

definition missing_events :: "(bytes \<rightharpoonup> bytes) \<Rightarrow> receipt \<Rightarrow> bytes list" where
  "missing_events events_dir r = filter (\<lambda>i. events_dir (i @ ''.json'') = None) (r_causal_events r)"

definition signer_keys :: "archive_env \<Rightarrow> receipt \<Rightarrow> archive_entry list \<Rightarrow> bytes set" where
  "signer_keys env r entries =
     set_option (r_signer_public_key r) \<union>
     (\<Union>e\<in>set entries. case ve_receipt_of_yaml (av_verify env) (ae_bytes e) of
        Some chained \<Rightarrow> set_option (r_signer_public_key chained) | None \<Rightarrow> {})"

definition pubkey_entries :: "archive_env \<Rightarrow> bytes list \<Rightarrow> archive_entry list" where
  "pubkey_entries env keys_order =
     concat (map (\<lambda>k. case public_key_pem_from_hex (ve_keys (av_verify env)) k of
        Some (i, pem) \<Rightarrow> [\<lparr>ae_path = ''pubkeys/'' @ i @ ''.pub'', ae_bytes = pem\<rparr>] | None \<Rightarrow> []) keys_order)"

text \<open>\<open>keys_order\<close> is the iteration order of the set of signer keys. The second component is the
  archive written, if any.\<close>

definition export_archive ::
  "archive_env \<Rightarrow> bytes option \<Rightarrow> (bytes \<rightharpoonup> bytes) \<Rightarrow> bytes list \<Rightarrow> bool
    \<Rightarrow> (archive_error, export_outcome \<times> bytes option) result" where
  "export_archive env receipt_file events_dir keys_order allow_partial =
     and_then (ok_or receipt_file ExportUnreadable) (\<lambda>receipt_bytes.
     and_then (ok_or (ve_receipt_of_yaml (av_verify env) receipt_bytes) ExportNotReceipt) (\<lambda>r.
     let entries = event_entries events_dir r; missing = missing_events events_dir r in
     if missing \<noteq> [] \<and> \<not> allow_partial then Inr (IncompleteChain missing, None)
     else
       let partial = (missing \<noteq> []);
           manifest = \<lparr>am_format = ARCHIVE_FORMAT, am_created = le_rfc3339 (av_ledger env) (r_timestamp r),
             am_attest_version = r_attest_version r, am_partial = partial\<rparr>;
           entries = entries @ pubkey_entries env keys_order @
             [\<lparr>ae_path = ''manifest.json'', ae_bytes = av_manifest_json env manifest\<rparr>,
              \<lparr>ae_path = ''receipt.yaml'', ae_bytes = receipt_bytes\<rparr>]
       in Inr (Written partial, Some (write_archive env entries))))"

section \<open>Chain linkage\<close>

definition ordered_events :: "(bytes \<rightharpoonup> causal_event) \<Rightarrow> receipt \<Rightarrow> causal_event list" where
  "ordered_events events r = List.map_filter events (r_causal_events r)"

definition comma :: "bytes list \<Rightarrow> bytes" where "comma = join '', ''"

definition chain_linkage :: "ledger_env \<Rightarrow> receipt \<Rightarrow> (bytes \<rightharpoonup> causal_event) \<Rightarrow> bool \<Rightarrow> check" where
  "chain_linkage env r events partial =
     (let named = mk_check ''chain-linkage'' in
      if r_causal_events r = [] then named Skipped (Note ''receipt references no causal events'')
      else
        let missing = filter (\<lambda>i. events i = None) (r_causal_events r) in
        if missing \<noteq> [] then
          let detail = ''unresolved causal references: '' @ comma missing in
          if partial then named Skipped (Note (''partial archive: '' @ detail)) else named Fail (Note detail)
        else
          let ordered = ordered_events events r;
              forged = map event_id (filter (\<lambda>e. \<not> event_id_is_authentic (le_blake3 env) (le_rfc3339 env) e) ordered) in
          if forged \<noteq> [] then named Fail (Note (''causal event contents do not match their recorded ids: '' @ comma forged))
          else
            let unverifiable = map event_id (filter (\<lambda>e.
                  event_signature_holds (le_ed env) (le_signing_json env) (le_rfc3339 env) e = Some False) ordered) in
            if unverifiable \<noteq> [] then
              named Fail (Note (''causal events carry signatures that do not verify: '' @ comma unverifiable))
            else
              let recomputed = chain_hash (le_blake3 env) (le_rfc3339 env) ordered in
              (case r_causal_chain_hash r of
                 Some expected \<Rightarrow>
                   if expected = recomputed
                   then named Pass (Note (show_nat (length ordered) @ '' events recompute to the signed chain root''))
                   else named Fail (Note (''events recompute to '' @ recomputed @ '', receipt claims '' @ expected))
               | None \<Rightarrow> named Fail (Note ''receipt lists causal events but records no chain root'')))"

section \<open>Verifying\<close>

record archive_verdict =
  arv_receipts :: "receipt_verdict list"
  arv_partial :: bool

definition archive_passed :: "archive_verdict \<Rightarrow> bool" where
  "archive_passed v = list_all verdict_passed (arv_receipts v)"

text \<open>\<open>e.path.strip_prefix("events/")?.strip_suffix(".json")?\<close>\<close>

definition event_name :: "bytes \<Rightarrow> bytes option" where
  "event_name path =
     (if starts_with path ''events/'' \<and> ends_with (drop 7 path) ''.json''
      then Some (take (length path - 7 - 5) (drop 7 path)) else None)"

text \<open>Collecting into a map keeps the last of several pairs with one key.\<close>

definition archive_events :: "archive_env \<Rightarrow> archive_entry list \<Rightarrow> (bytes \<rightharpoonup> causal_event)" where
  "archive_events env entries =
     map_of (rev (List.map_filter (\<lambda>e.
       case (event_name (ae_path e), le_event_parse (av_ledger env) (ae_bytes e)) of
         (Some i, Some event) \<Rightarrow> Some (i, event) | _ \<Rightarrow> None) entries))"

definition push_check :: "check \<Rightarrow> receipt_verdict \<Rightarrow> receipt_verdict" where
  "push_check c v = v\<lparr>v_checks := v_checks v @ [c]\<rparr>"

definition verify_entry ::
  "archive_env \<Rightarrow> world \<Rightarrow> int \<Rightarrow> bytes \<Rightarrow> verify_options \<Rightarrow> (bytes \<rightharpoonup> causal_event) \<Rightarrow> bool \<Rightarrow> bytes
    \<Rightarrow> (archive_error, receipt_verdict) result" where
  "verify_entry env w now label opts events partial bs =
     and_then (map_err ReceiptFailed (verify_receipt_bytes (av_verify env) w now bs label opts)) (\<lambda>v.
     let linkage = (case ve_receipt_of_yaml (av_verify env) bs of
           Some r \<Rightarrow> chain_linkage (av_ledger env) r events partial
         | None \<Rightarrow> mk_check ''chain-linkage'' Fail (Note ''receipt is unreadable''))
     in Inr (apply_policy (opt_policy opts) (push_check linkage v)))"

fun verify_entries ::
  "archive_env \<Rightarrow> world \<Rightarrow> int \<Rightarrow> bytes \<Rightarrow> verify_options \<Rightarrow> (bytes \<rightharpoonup> causal_event) \<Rightarrow> bool \<Rightarrow> archive_entry list
    \<Rightarrow> (archive_error, receipt_verdict list) result" where
  "verify_entries env w now name opts events partial [] = Inr []"
| "verify_entries env w now name opts events partial (e # entries) =
     (if ae_path e \<noteq> ''receipt.yaml'' then verify_entries env w now name opts events partial entries
      else
        and_then (verify_entry env w now (name @ '':'' @ ae_path e) opts events partial (ae_bytes e)) (\<lambda>v.
        and_then (verify_entries env w now name opts events partial entries) (\<lambda>vs. Inr (v # vs))))"

definition verify_archive_bounded ::
  "archive_env \<Rightarrow> world \<Rightarrow> int \<Rightarrow> bytes \<Rightarrow> bytes option \<Rightarrow> verify_options \<Rightarrow> archive_limits
    \<Rightarrow> (archive_error, archive_verdict) result" where
  "verify_archive_bounded env w now name file opts limits =
     and_then (read_archive_bounded env limits file) (\<lambda>entries.
     and_then (ok_or (find (\<lambda>e. ae_path e = ''manifest.json'') entries) NoManifest) (\<lambda>m.
     and_then (ok_or (av_manifest_of_json env (ae_bytes m)) BadManifest) (\<lambda>manifest.
     ensure (am_format manifest = ARCHIVE_FORMAT) (UnsupportedFormat (am_format manifest)) (
     and_then (verify_entries env w now name opts (archive_events env entries) (am_partial manifest) entries) (\<lambda>receipts.
     ensure (receipts \<noteq> []) NoReceipt (
     Inr \<lparr>arv_receipts = receipts, arv_partial = am_partial manifest\<rparr>))))))"

definition verify_archive ::
  "archive_env \<Rightarrow> world \<Rightarrow> int \<Rightarrow> bytes \<Rightarrow> bytes option \<Rightarrow> verify_options \<Rightarrow> (archive_error, archive_verdict) result" where
  "verify_archive env w now name file opts = verify_archive_bounded env w now name file opts default_limits"

section \<open>Properties\<close>

subsection \<open>Reading\<close>

lemma read_entries_safe:
  "read_entries env limits index items acc = Inr entries \<Longrightarrow> length acc = index \<Longrightarrow> index \<le> al_entries limits \<Longrightarrow>
   distinct (map ae_path acc) \<Longrightarrow> (\<forall>e\<in>set acc. P (ae_path e) \<and> length (ae_bytes e) \<le> al_entry limits) \<Longrightarrow>
   (\<And>raw. \<not> starts_with raw ''/'' \<Longrightarrow> ParentDir \<notin> set (components raw) \<Longrightarrow> P (av_lossy env raw)) \<Longrightarrow>
   length entries \<le> al_entries limits \<and> distinct (map ae_path entries) \<and>
   (\<forall>e\<in>set entries. P (ae_path e) \<and> length (ae_bytes e) \<le> al_entry limits)"
proof (induction items arbitrary: index acc)
  case (Cons item items)
  obtain entry raw body where p: "item = Inr entry" "\<not> index \<ge> al_entries limits" "re_path entry = Some raw"
      "\<not> (starts_with raw ''/'' \<or> ParentDir \<in> set (components raw))" "av_lossy env raw \<notin> ae_path ` set acc"
      "\<not> length (take (al_entry limits + 1) body) > al_entry limits"
    and rest: "read_entries env limits (index + 1) items
        (acc @ [\<lparr>ae_path = av_lossy env raw, ae_bytes = take (al_entry limits + 1) body\<rparr>]) = Inr entries"
    using Cons.prems(1) unfolding read_entries.simps Let_def result_simps by (elim conjE exE) blast
  show ?case
    using p Cons.prems(2-5) Cons.prems(6) [of raw] by (intro Cons.IH [OF rest _ _ _ _ Cons.prems(6)]) auto
qed simp

text \<open>
  C17. An archive that is read is within its limits and harmless: the file is no larger than the limit on
  disk, there are at most as many entries as allowed, each of at most the allowed size, no path occurs
  twice, and every path comes from one that is relative and has no parent component.
\<close>

theorem read_archive_safe:
  assumes "read_archive_bounded env limits file = Inr entries"
  shows "\<exists>content. file = Some content \<and> length content \<le> al_compressed limits \<and>
    length entries \<le> al_entries limits \<and> distinct (map ae_path entries) \<and>
    (\<forall>e\<in>set entries. length (ae_bytes e) \<le> al_entry limits \<and>
      (\<exists>raw. ae_path e = av_lossy env raw \<and> \<not> starts_with raw ''/'' \<and> ParentDir \<notin> set (components raw)))"
proof -
  obtain content items where c: "file = Some content" "length content \<le> al_compressed limits"
    and r: "read_entries env limits 0 items [] = Inr entries"
    using assms by (auto simp: read_archive_bounded_def result_simps)
  let ?P = "\<lambda>p. \<exists>raw. p = av_lossy env raw \<and> \<not> starts_with raw ''/'' \<and> ParentDir \<notin> set (components raw)"
  have "length entries \<le> al_entries limits \<and> distinct (map ae_path entries) \<and>
      (\<forall>e\<in>set entries. ?P (ae_path e) \<and> length (ae_bytes e) \<le> al_entry limits)"
    by (rule read_entries_safe [OF r]) auto
  then show ?thesis using c by blast
qed

subsection \<open>Linkage\<close>


definition chain_intact :: "ledger_env \<Rightarrow> receipt \<Rightarrow> (bytes \<rightharpoonup> causal_event) \<Rightarrow> causal_event list \<Rightarrow> bool" where
  "chain_intact env r events es \<longleftrightarrow> es \<noteq> [] \<and> map events (r_causal_events r) = map Some es \<and>
     (\<forall>e\<in>set es. event_id_is_authentic (le_blake3 env) (le_rfc3339 env) e \<and>
        event_signature_holds (le_ed env) (le_signing_json env) (le_rfc3339 env) e \<noteq> Some False) \<and>
     r_causal_chain_hash r = Some (chain_hash (le_blake3 env) (le_rfc3339 env) es)"

lemma map_filter_all: "map f xs = map Some ys \<Longrightarrow> List.map_filter f xs = ys"
  by (induction xs arbitrary: ys) (auto simp: List.map_filter_simps)

lemma all_present:
  assumes "filter (\<lambda>x. f x = None) xs = []"
  shows "map f xs = map Some (List.map_filter f xs)"
  using assms by (induction xs) (auto simp: List.map_filter_simps split: if_splits)

lemma chain_linkage_pass:
  "check_status (chain_linkage env r events partial) = Pass \<longleftrightarrow> (\<exists>es. chain_intact env r events es)"
proof
  assume "check_status (chain_linkage env r events partial) = Pass"
  then have "chain_intact env r events (ordered_events events r)"
    using all_present [of events "r_causal_events r"]
    by (auto simp: chain_linkage_def chain_intact_def mk_check_def Let_def ordered_events_def filter_empty_conv
        split: if_splits option.splits)
  then show "\<exists>es. chain_intact env r events es" by blast
next
  assume "\<exists>es. chain_intact env r events es"
  then obtain es where es: "chain_intact env r events es" by blast
  then have o: "ordered_events events r = es"
    by (simp add: ordered_events_def chain_intact_def map_filter_all)
  have m: "filter (\<lambda>i. events i = None) (r_causal_events r) = []"
  proof -
    have "events ` set (r_causal_events r) = Some ` set es"
      using es unfolding chain_intact_def by (metis set_map)
    then show ?thesis by (auto simp: filter_empty_conv)
  qed
  have "r_causal_events r \<noteq> []" using es by (auto simp: chain_intact_def)
  then show "check_status (chain_linkage env r events partial) = Pass"
    using es m o by (simp add: chain_linkage_def chain_intact_def mk_check_def Let_def filter_empty_conv)
qed

lemma chain_linkage_skipped:
  "check_status (chain_linkage env r events partial) = Skipped \<longleftrightarrow>
     r_causal_events r = [] \<or> partial \<and> (\<exists>i\<in>set (r_causal_events r). events i = None)"
  by (auto simp: chain_linkage_def mk_check_def Let_def filter_empty_conv split: option.splits)

text \<open>
  The linkage of an archive passes exactly when every event the receipt refers to is present,
  each event has the identifier of its contents and no signature that fails, and their contents, in the
  receipt's order, hash to the signed chain root. It is skipped exactly for a receipt without events and
  for an archive declared partial that lacks some of them, and fails in every other case.
\<close>

theorem chain_linkage_correct:
  "(check_status (chain_linkage env r events partial) = Pass \<longleftrightarrow> (\<exists>es. chain_intact env r events es)) \<and>
   (check_status (chain_linkage env r events partial) = Skipped \<longleftrightarrow>
      r_causal_events r = [] \<or> partial \<and> (\<exists>i\<in>set (r_causal_events r). events i = None))"
  using chain_linkage_pass chain_linkage_skipped by blast

subsection \<open>The verdict\<close>

lemma signature_check_policy: "signature_check env w (opts\<lparr>opt_policy := p\<rparr>) r = signature_check env w opts r"
proof -
  have t: "trust_receipt_timestamp (opts\<lparr>opt_policy := p\<rparr>) = trust_receipt_timestamp opts" by simp
  show ?thesis unfolding fun_eq_iff signature_check_def t by blast
qed

lemma receipt_checks_policy: "receipt_checks env w (opts\<lparr>opt_policy := p\<rparr>) r = receipt_checks env w opts r"
  unfolding receipt_checks_def signature_check_policy by simp

lemma verify_parsed_policy_irrelevant:
  "apply_policy q (verify_parsed env w now content label (opts\<lparr>opt_policy := p\<rparr>)) =
   apply_policy q (verify_parsed env w now content label opts)"
  unfolding verify_parsed_def receipt_checks_policy Let_def case_prod_unfold apply_policy_twice by simp

text \<open>The names of the checks on a receipt; the checks other components add have other names.\<close>

definition receipt_check_names :: "bytes set" where
  "receipt_check_names = {''schema'', ''consistency'', ''signature'', ''timestamp'', ''recompute''}"

lemma verify_parsed_check_names:
  "check_name ` set (v_checks (verify_parsed env w now content label opts)) \<subseteq> receipt_check_names"
proof (cases "ve_receipt_of_yaml env content")
  case None
  then show ?thesis
    by (simp add: verify_parsed_def Let_def mk_check_def skipped_checks_def receipt_check_names_def split: prod.splits)
next
  case (Some r)
  obtain cs signed_by warns where rc: "receipt_checks env w opts r = ((cs, signed_by), warns)" by (metis surj_pair)
  have "check_name ` set (mk_check ''schema'' Pass (Note ''receipt matches schema'') # cs) \<subseteq> receipt_check_names"
    using receipt_checks_parts [OF rc] check_names by (auto simp: mk_check_def receipt_check_names_def)
  then show ?thesis using Some rc by (simp add: verify_parsed_def Let_def split: prod.splits)
qed

lemma signature_good_policy: "signature_good env w (opts\<lparr>opt_policy := p\<rparr>) r k = signature_good env w opts r k"
  by (simp add: signature_good_def)

text \<open>Everything a passing verdict promises of a receipt apart from the policy.\<close>

definition receipt_sound :: "verify_env \<Rightarrow> world \<Rightarrow> verify_options \<Rightarrow> receipt \<Rightarrow> receipt_verdict \<Rightarrow> bool" where
  "receipt_sound env w opts r v \<longleftrightarrow> coherent r \<and>
     (check_signatures opts \<longrightarrow> (\<exists>k. v_signed_by v = Some k \<and> signature_good env w opts r k)) \<and>
     (r_timestamp_token r = None \<or> (\<exists>t. token_attests env w r t)) \<and>
     (opt_recompute opts \<longrightarrow> check_status (recompute_check env w r) \<noteq> Fail)"

lemma verify_parsed_checks_sound:
  assumes "\<forall>c\<in>set (v_checks (verify_parsed env w now bs label opts)). check_status c \<noteq> Fail"
  shows "\<exists>r. ve_receipt_of_yaml env bs = Some r \<and> receipt_sound env w opts r (verify_parsed env w now bs label opts)"
proof -
  let ?v0 = "verify_parsed env w now bs label opts"
  let ?v1 = "verify_parsed env w now bs label (opts\<lparr>opt_policy := []\<rparr>)"
  have "apply_policy [] ?v1 = apply_policy [] ?v0" by (rule verify_parsed_policy_irrelevant)
  then have same: "v_checks ?v1 = v_checks ?v0" "v_signed_by ?v1 = v_signed_by ?v0"
    by (metis apply_policy_unchanged)+
  have "?v1 = apply_policy [] ?v1"
    unfolding verify_parsed_def Let_def case_prod_unfold apply_policy_twice by simp
  then have "verdict_passed ?v1"
    using assms same unfolding verdict_passed_def by (metis (no_types, lifting) apply_policy_verdict empty_iff empty_set)
  from verify_parsed_sound [OF refl this] same(2) show ?thesis
    by (auto simp: receipt_sound_def signature_good_policy)
qed

text \<open>A verdict on a receipt to which further checks are added before the policy is applied again.\<close>

lemma extended_verdict_sound:
  assumes bytes: "verify_receipt_bytes env w now bs label opts = Inr v0"
    and v: "v = apply_policy (opt_policy opts) (v0\<lparr>v_checks := v_checks v0 @ extra\<rparr>)" and passed: "verdict_passed v"
    and names: "distinct (map check_name extra)" "check_name ` set extra \<inter> receipt_check_names = {}"
  shows "(\<exists>r. ve_receipt_of_yaml env bs = Some r \<and> receipt_sound env w opts r v) \<and>
    (\<forall>c\<in>set extra. check_status c \<noteq> Fail) \<and> (\<forall>req\<in>set (opt_policy opts). requirement_met v req) \<and>
    (\<forall>name. check_passed v name \<and> name \<notin> receipt_check_names \<longrightarrow>
      (\<exists>c\<in>set extra. check_name c = name \<and> check_status c = Pass))"
proof -
  have ok: "\<forall>c\<in>set (v_checks v0). check_status c \<noteq> Fail" "\<forall>c\<in>set extra. check_status c \<noteq> Fail"
    using passed unfolding v verdict_passed_def apply_policy_verdict by (auto split: if_splits)
  have v0: "v0 = verify_parsed env w now bs label opts"
    using bytes ok(1) by (auto simp: verify_receipt_bytes_def result_simps mk_check_def split: option.splits if_splits)
  have base: "check_name ` set (v_checks v0) \<subseteq> receipt_check_names" unfolding v0 by (rule verify_parsed_check_names)
  have "distinct (map check_name (v_checks v0))" unfolding v0 by (rule verify_parsed_names)
  then have dist: "distinct (map check_name (v_checks v))" using names base by (auto simp: v)
  have req: "requirement_met v req" if "req \<in> set (opt_policy opts)" for req
  proof -
    have "requirement_reason (v0\<lparr>v_checks := v_checks v0 @ extra\<rparr>) req = None"
      using passed that unfolding v verdict_passed_def apply_policy_verdict by (auto split: if_splits)
    then show ?thesis using requirement_reason_None [OF dist] by (simp add: v)
  qed
  have extra: "\<exists>c\<in>set extra. check_name c = name \<and> check_status c = Pass" if "check_passed v name" "name \<notin> receipt_check_names" for name
    using that base by (auto simp: check_passed_def v)
  have "\<exists>r. ve_receipt_of_yaml env bs = Some r \<and> receipt_sound env w opts r v"
    using verify_parsed_checks_sound [OF ok(1) [unfolded v0]] by (simp add: receipt_sound_def v v0)
  then show ?thesis using ok(2) req extra by blast
qed

definition archived_soundly ::
  "archive_env \<Rightarrow> world \<Rightarrow> verify_options \<Rightarrow> (bytes \<rightharpoonup> causal_event) \<Rightarrow> bool \<Rightarrow> receipt \<Rightarrow> receipt_verdict \<Rightarrow> bool" where
  "archived_soundly env w opts events partial r v \<longleftrightarrow> receipt_sound (av_verify env) w opts r v \<and>
     (r_causal_events r = [] \<or> partial \<and> (\<exists>i\<in>set (r_causal_events r). events i = None) \<or>
       (\<exists>es. chain_intact (av_ledger env) r events es)) \<and>
     (\<forall>req\<in>set (opt_policy opts). requirement_met v req) \<and>
     (ReqLinkage \<in> set (opt_policy opts) \<longrightarrow> (\<exists>es. chain_intact (av_ledger env) r events es))"

lemma chain_linkage_name [simp]: "check_name (chain_linkage env r events partial) = ''chain-linkage''"
  by (simp add: chain_linkage_def mk_check_def Let_def split: option.splits)

lemma verify_entry_sound:
  assumes "verify_entry env w now label opts events partial bs = Inr v" "verdict_passed v"
  shows "\<exists>r. ve_receipt_of_yaml (av_verify env) bs = Some r \<and> archived_soundly env w opts events partial r v"
proof -
  let ?link = "case ve_receipt_of_yaml (av_verify env) bs of
      Some r \<Rightarrow> chain_linkage (av_ledger env) r events partial
    | None \<Rightarrow> mk_check ''chain-linkage'' Fail (Note ''receipt is unreadable'')"
  obtain v0 where v0: "verify_receipt_bytes (av_verify env) w now bs label opts = Inr v0"
    and v: "v = apply_policy (opt_policy opts) (v0\<lparr>v_checks := v_checks v0 @ [?link]\<rparr>)"
    using assms(1) unfolding verify_entry_def Let_def map_err_def push_check_def
    by (auto simp: result_simps split: sum.splits)
  have name: "check_name ?link = ''chain-linkage''" by (simp add: mk_check_def split: option.splits)
  have "distinct (map check_name [?link])" "check_name ` set [?link] \<inter> receipt_check_names = {}"
    using name by (simp_all add: receipt_check_names_def)
  note ext = extended_verdict_sound [OF v0 v assms(2) this]
  then obtain r where r: "ve_receipt_of_yaml (av_verify env) bs = Some r" "receipt_sound (av_verify env) w opts r v" by blast
  let ?chain = "chain_linkage (av_ledger env) r events partial"
  have link: "?link = ?chain" using r(1) by simp
  have req: "requirement_met v req" if "req \<in> set (opt_policy opts)" for req using ext that by blast
  have required: "\<exists>es. chain_intact (av_ledger env) r events es" if "ReqLinkage \<in> set (opt_policy opts)"
  proof -
    have "check_passed v ''chain-linkage''" using req [OF that] by (simp add: requirement_met_def)
    then have "check_status ?chain = Pass" using ext link by (auto simp: receipt_check_names_def)
    then show ?thesis by (simp only: chain_linkage_pass)
  qed
  have "check_status ?chain = Skipped \<or> check_status ?chain = Pass"
    using ext link by (cases "check_status ?chain") simp_all
  then have linked: "r_causal_events r = [] \<or> partial \<and> (\<exists>i\<in>set (r_causal_events r). events i = None) \<or>
      (\<exists>es. chain_intact (av_ledger env) r events es)"
    unfolding chain_linkage_pass chain_linkage_skipped by (simp only: disj_assoc)
  have "archived_soundly env w opts events partial r v"
    unfolding archived_soundly_def by (intro conjI r(2) linked ballI impI req required)
  then show ?thesis using r(1) by blast
qed

lemma verify_entries_each:
  "verify_entries env w now name opts events partial entries = Inr vs \<Longrightarrow> v \<in> set vs \<Longrightarrow>
   \<exists>e\<in>set entries. ae_path e = ''receipt.yaml'' \<and>
     verify_entry env w now (name @ '':'' @ ae_path e) opts events partial (ae_bytes e) = Inr v"
  by (induction entries arbitrary: vs) (auto simp: result_simps split: if_splits)

text \<open>
  C15. What a passing archive means. The archive holds a receipt, and every receipt verdict in it belongs
  to an entry of it that holds a coherent receipt for which everything a passing receipt verdict
  promises holds; its events are the intact signed chain, unless the receipt refers to no events or the archive
  declares itself partial and lacks some of them; and every requirement of the policy is met, so that
  asking for linkage guarantees the intact chain.
\<close>

theorem verify_archive_sound:
  assumes "verify_archive_bounded env w now name file opts limits = Inr verdict" "archive_passed verdict"
  shows "\<exists>entries. read_archive_bounded env limits file = Inr entries \<and> arv_receipts verdict \<noteq> [] \<and>
    (\<forall>v\<in>set (arv_receipts verdict). \<exists>e\<in>set entries. \<exists>r. ae_path e = ''receipt.yaml'' \<and>
       ve_receipt_of_yaml (av_verify env) (ae_bytes e) = Some r \<and>
       archived_soundly env w opts (archive_events env entries) (arv_partial verdict) r v)"
proof -
  obtain entries where e: "read_archive_bounded env limits file = Inr entries"
    and vs: "verify_entries env w now name opts (archive_events env entries) (arv_partial verdict) entries
        = Inr (arv_receipts verdict)" and ne: "arv_receipts verdict \<noteq> []"
    using assms(1) by (auto simp: verify_archive_bounded_def result_simps)
  have "\<exists>e\<in>set entries. \<exists>r. ae_path e = ''receipt.yaml'' \<and> ve_receipt_of_yaml (av_verify env) (ae_bytes e) = Some r \<and>
      archived_soundly env w opts (archive_events env entries) (arv_partial verdict) r v"
    if v: "v \<in> set (arv_receipts verdict)" for v
  proof -
    obtain e where e: "e \<in> set entries" "ae_path e = ''receipt.yaml''"
      and ve: "verify_entry env w now (name @ '':'' @ ae_path e) opts (archive_events env entries) (arv_partial verdict)
        (ae_bytes e) = Inr v"
      using verify_entries_each [OF vs v] by blast
    have "verdict_passed v" using assms(2) v by (simp add: archive_passed_def list_all_iff)
    from verify_entry_sound [OF ve this] e show ?thesis by blast
  qed
  then show ?thesis using e ne by blast
qed

text \<open>
  C16. Two archives cannot tell different histories for the same signed chain root: when the linkage of
  both passes for receipts with the same root, the events they hold agree, one by one, on step, parents, input,
  output, date, exit code, pipeline and environment, unless BLAKE3 collides on their encodings.
\<close>

theorem archive_history_binding:
  assumes "chain_intact env r events es" "chain_intact env r' events' es'"
    and "r_causal_chain_hash r = r_causal_chain_hash r'"
    and "inj_on (le_blake3 env) ({concat (map (event_content (le_blake3 env) (le_rfc3339 env)) es),
           concat (map (event_content (le_blake3 env) (le_rfc3339 env)) es')} \<union>
           event_bytes (le_rfc3339 env) ` (set es \<union> set es'))"
  shows "list_all2 (\<lambda>i j. \<exists>e e'. events i = Some e \<and> events' j = Some e' \<and> same_facts (le_rfc3339 env) e e')
    (r_causal_events r) (r_causal_events r')"
proof -
  have facts: "list_all2 (same_facts (le_rfc3339 env)) es es'"
    using assms by (intro chain_hash_binding [OF _ assms(4)]) (simp add: chain_intact_def)
  have m: "map events (r_causal_events r) = map Some es" "map events' (r_causal_events r') = map Some es'"
    using assms(1,2) by (simp_all add: chain_intact_def)
  then have l: "length (r_causal_events r) = length es" "length (r_causal_events r') = length es'"
    by (metis length_map)+
  have n: "events (r_causal_events r ! i) = Some (es ! i)" if "i < length es" for i
    using m(1) l(1) that by (metis nth_map)
  have n': "events' (r_causal_events r' ! i) = Some (es' ! i)" if "i < length es'" for i
    using m(2) l(2) that by (metis nth_map)
  show ?thesis using facts l n n' by (auto simp: list_all2_conv_all_nth)
qed

subsection \<open>An archive with one event\<close>

definition example_archive_receipt :: receipt where
  "example_archive_receipt = example_receipt\<lparr>
     r_causal_chain_hash := Some (chain_hash example_hash show_int [example_authentic])\<rparr>"

definition example_items :: "(archive_error, raw_entry) result list" where
  "example_items = map (\<lambda>(p, b). Inr \<lparr>re_kind = CHR ''0'', re_path = Some p, re_declared = Some 1, re_body = Inr b\<rparr>)
     [(''events/e.json'', ''b''), (''manifest.json'', ''m''), (''receipt.yaml'', ''y'')]"

definition example_archive_env :: archive_env where
  "example_archive_env = \<lparr>
     av_verify = example_verify_env\<lparr>ve_receipt_of_yaml := (\<lambda>s. if s = ''y'' then Some example_archive_receipt else None)\<rparr>,
     av_ledger = example_event_env, av_entries = (\<lambda>_ _. Inr example_items), av_pack = concat \<circ> map ae_bytes,
     av_lossy = id, av_manifest_json = am_format,
     av_manifest_of_json = (\<lambda>_. Some \<lparr>am_format = ARCHIVE_FORMAT, am_created = [], am_attest_version = [], am_partial = False\<rparr>)\<rparr>"

definition example_archive_options :: verify_options where
  "example_archive_options = \<lparr>check_signatures = False, opt_recompute = False, trust_receipt_timestamp = False,
     opt_policy = [ReqLinkage]\<rparr>"

definition example_archive_entries :: "archive_entry list" where
  "example_archive_entries = [\<lparr>ae_path = ''events/e.json'', ae_bytes = ''b''\<rparr>,
     \<lparr>ae_path = ''manifest.json'', ae_bytes = ''m''\<rparr>, \<lparr>ae_path = ''receipt.yaml'', ae_bytes = ''y''\<rparr>]"

lemma example_entry_components:
  "ParentDir \<notin> set (components ''events/e.json'')" "ParentDir \<notin> set (components ''manifest.json'')"
  "ParentDir \<notin> set (components ''receipt.yaml'')"
  by code_simp+

lemma example_archive_read: "read_archive_bounded example_archive_env default_limits (Some ''z'') = Inr example_archive_entries"
  by (simp add: read_archive_bounded_def example_archive_env_def default_limits_def example_items_def example_archive_entries_def
      ensure_def and_then_def ok_or_def starts_with_def example_entry_components)

theorem read_archive_safe_witness: "distinct (map ae_path example_archive_entries)"
  using read_archive_safe [OF example_archive_read] by blast

lemma example_archive_events: "archive_events example_archive_env example_archive_entries = [''e'' \<mapsto> example_authentic]"
  by (simp add: archive_events_def example_archive_entries_def event_name_def starts_with_def ends_with_def
      example_archive_env_def example_event_env_def List.map_filter_simps)

lemma example_intact: "chain_intact example_event_env example_archive_receipt [''e'' \<mapsto> example_authentic] [example_authentic]"
proof -
  have "event_id_is_authentic example_hash show_int example_authentic"
    by (simp add: example_authentic_def event_id_is_authentic_def event_id_of_def event_content_alt)
  moreover have "signature example_authentic = None" by (simp add: example_authentic_def example_event_def)
  ultimately show ?thesis
    by (simp add: chain_intact_def example_archive_receipt_def example_receipt_def example_event_env_def example_env_def
        event_signature_holds_def)
qed

definition example_archive_verdict :: receipt_verdict where
  "example_archive_verdict = apply_policy [ReqLinkage] (push_check
     (chain_linkage example_event_env example_archive_receipt [''e'' \<mapsto> example_authentic] False)
     (verify_parsed (av_verify example_archive_env) example_world 9 ''y'' ''a:receipt.yaml'' example_archive_options))"

lemma example_archive_passed: "verdict_passed example_archive_verdict"
proof -
  have link: "check_status (chain_linkage example_event_env example_archive_receipt [''e'' \<mapsto> example_authentic] False) = Pass"
    using chain_linkage_pass example_intact by blast
  have name: "check_name (chain_linkage env r events partial) = ''chain-linkage''" for env r events partial
    by (simp add: chain_linkage_def mk_check_def Let_def split: option.splits)
  have coh: "coherent example_archive_receipt"
    by (simp add: coherent_def example_archive_receipt_def example_receipt_def is_hex_digit_def)
  have y: "ve_receipt_of_yaml (av_verify example_archive_env) ''y'' = Some example_archive_receipt"
    by (simp add: example_archive_env_def)
  have tc: "timestamp_check (av_verify example_archive_env) example_world example_archive_receipt =
      (mk_check ''timestamp'' Skipped (Note ''receipt carries no timestamp token''), None)"
    by (simp add: timestamp_check_def example_archive_receipt_def example_receipt_def)
  have o: "\<not> check_signatures example_archive_options" "\<not> opt_recompute example_archive_options"
    by (simp_all add: example_archive_options_def)
  have checks: "v_checks (verify_parsed (av_verify example_archive_env) example_world 9 ''y'' ''a:receipt.yaml'' example_archive_options) =
      [mk_check ''schema'' Pass (Note ''receipt matches schema''), consistency_check example_archive_receipt,
       mk_check ''signature'' Skipped (Note ''disabled by --no-check-signatures''),
       mk_check ''timestamp'' Skipped (Note ''receipt carries no timestamp token''),
       mk_check ''recompute'' Skipped (Note ''enable with --recompute'')]"
    by (simp add: verify_parsed_def receipt_checks_def tc y o case_prod_unfold Let_def)
  show ?thesis
    unfolding example_archive_verdict_def verdict_passed_def apply_policy_verdict
    by (simp add: push_check_def checks link name requirement_reason_def check_reason_def mk_check_def check_names
        consistency_check_coherent [THEN iffD2, OF coh])
qed

lemma example_verify_archive:
  "verify_archive_bounded example_archive_env example_world 9 ''a'' (Some ''z'') example_archive_options default_limits =
     Inr \<lparr>arv_receipts = [example_archive_verdict], arv_partial = False\<rparr>"
proof -
  have y: "ve_receipt_of_yaml (av_verify example_archive_env) ''y'' = Some example_archive_receipt"
    "ve_yaml_ok (av_verify example_archive_env) ''y''"
    "ve_yaml_schema_version (av_verify example_archive_env) ''y'' = Some 3"
    "av_ledger example_archive_env = example_event_env" "opt_policy example_archive_options = [ReqLinkage]"
    "av_manifest_of_json example_archive_env ''m'' =
       Some \<lparr>am_format = ARCHIVE_FORMAT, am_created = [], am_attest_version = [], am_partial = False\<rparr>"
    by (simp_all add: example_archive_env_def example_verify_env_def example_archive_options_def)
  have b: "verify_receipt_bytes (av_verify example_archive_env) example_world 9 ''y'' label example_archive_options =
      Inr (verify_parsed (av_verify example_archive_env) example_world 9 ''y'' label example_archive_options)" for label
    by (simp add: verify_receipt_bytes_def y ensure_def RECEIPT_SCHEMA_VERSION_def)
  have e: "verify_entry example_archive_env example_world 9 ''a:receipt.yaml'' example_archive_options
      [''e'' \<mapsto> example_authentic] False ''y'' = Inr example_archive_verdict"
    by (simp add: verify_entry_def b map_err_def and_then_def y example_archive_verdict_def)
  show ?thesis
    unfolding verify_archive_bounded_def example_archive_read
    using example_archive_events by (simp add: and_then_def example_archive_entries_def ok_or_def y ensure_def e)
qed

theorem verify_archive_sound_witness:
  "\<exists>r es. chain_intact example_event_env r [''e'' \<mapsto> example_authentic] es"
proof -
  have "archive_passed \<lparr>arv_receipts = [example_archive_verdict], arv_partial = False\<rparr>"
    using example_archive_passed by (simp add: archive_passed_def)
  from verify_archive_sound [OF example_verify_archive this] obtain r where
    "archived_soundly example_archive_env example_world example_archive_options [''e'' \<mapsto> example_authentic] False r example_archive_verdict"
    using example_archive_read example_archive_events by auto
  moreover have "av_ledger example_archive_env = example_event_env" "ReqLinkage \<in> set (opt_policy example_archive_options)"
    by (simp_all add: example_archive_env_def example_archive_options_def)
  ultimately show ?thesis unfolding archived_soundly_def by auto
qed

theorem archive_history_binding_witness:
  "list_all2 (\<lambda>i j. \<exists>e e'. [''e'' \<mapsto> example_authentic] i = Some e \<and> [''e'' \<mapsto> example_authentic] j = Some e' \<and>
     same_facts (le_rfc3339 example_event_env) e e') [''e''] [''e'']"
proof -
  have "inj_on (le_blake3 example_event_env) ({concat (map (event_content (le_blake3 example_event_env) (le_rfc3339 example_event_env)) [example_authentic]),
      concat (map (event_content (le_blake3 example_event_env) (le_rfc3339 example_event_env)) [example_authentic])} \<union>
      event_bytes (le_rfc3339 example_event_env) ` (set [example_authentic] \<union> set [example_authentic]))"
    using example_hash_content [of show_int example_authentic]
    by (simp add: example_event_env_def example_env_def insert_commute)
  from archive_history_binding [OF example_intact example_intact refl this]
  show ?thesis by (simp add: example_archive_receipt_def example_receipt_def)
qed

end
