(* ===== verification/Json.thy ===== *)
theory Json
  imports Text
begin

text \<open>
  Parsed JSON documents, the \<open>serde_json::Value\<close> the sources inspect where they do not deserialise into a
  type of their own. An object is the association list of its members; a parser keeps one member per name.
\<close>

datatype json =
    JNull
  | JBool bool
  | JNumber bytes
  | JString bytes
  | JArray "json list"
  | JObject "(bytes \<times> json) list"

text \<open>\<open>Value::get\<close> with a member name, \<open>Value::as_str\<close> and \<open>Value::as_object\<close>.\<close>

fun json_get :: "bytes \<Rightarrow> json \<Rightarrow> json option" where
  "json_get k (JObject ms) = map_of ms k"
| "json_get k _ = None"

fun json_str :: "json \<Rightarrow> bytes option" where
  "json_str (JString s) = Some s"
| "json_str _ = None"

fun json_members :: "json \<Rightarrow> (bytes \<times> json) list option" where
  "json_members (JObject ms) = Some ms"
| "json_members _ = None"

text \<open>Indexing with a member name: \<open>Null\<close> where there is none.\<close>

definition json_index :: "bytes \<Rightarrow> json \<Rightarrow> json" where
  "json_index k v = (case json_get k v of Some x \<Rightarrow> x | None \<Rightarrow> JNull)"

lemma json_get_Some: "json_get k v = Some x \<longleftrightarrow> (\<exists>ms. v = JObject ms \<and> map_of ms k = Some x)"
  by (cases v) simp_all

end
