(* ===== verification/Identity.thy ===== *)
theory Identity
  imports Verify Publication Json
begin

text \<open>
  Workflow identities, from \<open>src/identity.rs\<close>: the recipient's policy, the certificate in a Sigstore bundle, the
  DER reader for the two certified source extensions, and the checks around the external \<open>cosign\<close> verifier.
  \<open>cosign\<close>, the URL, JSON and base64 libraries and the receipt's YAML reader are parameters; the arguments
  \<open>cosign\<close> is called with are data of the model.
\<close>

section \<open>Policies\<close>

definition MAX_IDENTITY_BYTES :: nat where "MAX_IDENTITY_BYTES = 4 * 1024 * 1024"

definition BUNDLE_MEDIA_TYPE :: bytes where
  "BUNDLE_MEDIA_TYPE = ''application/vnd.dev.sigstore.bundle.v0.3+json''"

record identity_policy =
  ip_issuer :: bytes
  ip_repository :: bytes
  ip_workflow :: bytes
  ip_revision :: bytes
  ip_trusted_root :: bytes

record url =
  url_scheme :: bytes
  url_host :: "bytes option"
  url_username :: bytes
  url_password :: "bytes option"

datatype identity_error =
    NotHttps bytes | BadRevision | NoTrustedRoot | IdentityRead verify_error
  | NotReceipt | NoSourceRevision | RevisionDiffers
  | NoCosign | CosignUnusable | CosignOld | CosignRejected
  | RepositoryDiffers | CertifiedRevisionDiffers
  | BundleJson | BundleMediaType | NoMaterial | NotOneLeaf | NotBlobSignature | NoLeaf | LeafEncoding
  | DerTag | DerTruncated | DerUnsupported | DerNoncanonical | DerTrailing
  | NoExtensions | DuplicateExtension | ExtensionNotUtf8 | NoRepository | NoRevision
  | BundleExists | EmptyToken | SigningFailed

text \<open>The outcome of running the program: exit status and output, or the failure to start it. A
  \<open>verify-blob\<close> call is its flags, identity, issuer, and the contents of the files it is pointed to.\<close>

record verify_blob =
  vb_flags :: "bytes list"
  vb_root :: bytes
  vb_bundle :: bytes
  vb_identity :: bytes
  vb_issuer :: bytes
  vb_blob :: bytes

record sign_blob =
  sb_flags :: "bytes list"
  sb_blob :: bytes
  sb_token :: "bytes option"

record cosign =
  co_version :: "(bool \<times> bytes \<times> bytes) option"
  co_verify :: "verify_blob \<Rightarrow> bool option"
  co_sign :: "sign_blob \<Rightarrow> (bool \<times> bytes option) option"

record identity_env =
  ie_url :: "bytes \<Rightarrow> url option"
  ie_json :: "bytes \<Rightarrow> json option"
  ie_base64 :: "bytes \<Rightarrow> bytes option"
  ie_lossy :: "bytes \<Rightarrow> bytes"
  ie_receipt_of_yaml :: "bytes \<Rightarrow> receipt option"
  ie_cosign :: "cosign option"

definition https_url :: "identity_env \<Rightarrow> bytes \<Rightarrow> bool" where
  "https_url env v =
     (case ie_url env v of
        None \<Rightarrow> False
      | Some url \<Rightarrow> \<not> (url_scheme url \<noteq> ''https'' \<or> url_host url = None \<or> url_username url \<noteq> [] \<or>
          url_password url \<noteq> None \<or> list_ex (\<lambda>c. is_whitespace c \<or> is_control c) (utf8_chars v)))"

fun validate_urls :: "identity_env \<Rightarrow> (bytes \<times> bytes) list \<Rightarrow> (identity_error, unit) result" where
  "validate_urls env [] = Inr ()"
| "validate_urls env ((name, v) # rest) = ensure (https_url env v) (NotHttps name) (validate_urls env rest)"

definition policy_validate :: "identity_env \<Rightarrow> identity_policy \<Rightarrow> (identity_error, unit) result" where
  "policy_validate env p =
     and_then (validate_urls env [(''issuer'', ip_issuer p), (''repository'', ip_repository p), (''workflow'', ip_workflow p)]) (\<lambda>_.
     ensure (\<not> (length (ip_revision p) \<notin> {40, 64} \<or> \<not> list_all is_hex_digit (ip_revision p))) BadRevision (
     ensure (ip_trusted_root p \<noteq> []) NoTrustedRoot (Inr ())))"

record identity_verification =
  iv_issuer :: bytes
  iv_repository :: bytes
  iv_workflow :: bytes
  iv_revision :: bytes

record identity_principals =
  evidence_producer :: "bytes option"
  workflow_principal :: "bytes option"
  artifact_signer :: "bytes option"

record identity_outcome =
  io_required :: "identity_policy option"
  io_verified :: "identity_verification option"
  io_principals :: identity_principals

section \<open>The version of cosign\<close>

text \<open>\<open>str::parse::<u32>\<close>\<close>

definition parse_u32 :: "bytes \<Rightarrow> u32 option" where
  "parse_u32 s =
     (let ds = (if starts_with s ''+'' then drop 1 s else s) in
      if ds \<noteq> [] \<and> list_all is_digit ds \<and> digits_value ds < 2 ^ 32 then Some (of_nat (digits_value ds)) else None)"

definition line_version :: "bytes \<Rightarrow> u32 option" where
  "line_version line =
     (case strip_prefix ''GitVersion:'' (trim line) of
        None \<Rightarrow> None
      | Some rest \<Rightarrow>
          (case strip_prefix ''v'' (trim rest) of
             None \<Rightarrow> None
           | Some rest \<Rightarrow> parse_u32 (hd (split_on (CHR ''.'') rest))))"

fun find_version :: "bytes list \<Rightarrow> u32 option" where
  "find_version [] = None"
| "find_version (line # rest) = (case line_version line of Some v \<Rightarrow> Some v | None \<Rightarrow> find_version rest)"

definition check_cosign_version :: "identity_env \<Rightarrow> cosign \<Rightarrow> (identity_error, unit) result" where
  "check_cosign_version env c =
     and_then (ok_or (co_version c) CosignUnusable) (\<lambda>(success, stdout, stderr).
     ensure success CosignUnusable (
     let text = ie_lossy env stdout @ [CHR 0x0A] @ ie_lossy env stderr in
     ensure (case find_version (lines text) of None \<Rightarrow> False | Some major \<Rightarrow> \<not> major < 3) CosignOld (Inr ())))"

section \<open>Bundles\<close>

definition bundle_certificate :: "identity_env \<Rightarrow> bytes \<Rightarrow> (identity_error, bytes) result" where
  "bundle_certificate env bs =
     and_then (ok_or (ie_json env bs) BundleJson) (\<lambda>bundle.
     let media = Option.bind (json_get ''mediaType'' bundle) json_str in
     ensure (\<not> (media \<noteq> Some BUNDLE_MEDIA_TYPE \<and>
       media \<noteq> Some ''application/vnd.dev.sigstore.bundle+json;version=0.3'')) BundleMediaType (
     and_then (ok_or (json_get ''verificationMaterial'' bundle) NoMaterial) (\<lambda>material.
     ensure (\<not> (json_get ''publicKey'' material \<noteq> None \<or> json_get ''x509CertificateChain'' material \<noteq> None)) NotOneLeaf (
     ensure (\<not> (json_get ''messageSignature'' bundle = None \<or> json_get ''dsseEnvelope'' bundle \<noteq> None)) NotBlobSignature (
     and_then (ok_or (Option.bind (Option.bind (json_get ''certificate'' material) (json_get ''rawBytes'')) json_str) NoLeaf) (\<lambda>encoded.
     ok_or (ie_base64 env encoded) LeafEncoding))))))"

section \<open>The certificate\<close>

text \<open>The narrow reader: definite lengths of at most four bytes in their shortest form.\<close>

definition strict_length :: "bytes \<Rightarrow> (identity_error, nat \<times> nat) result" where
  "strict_length bs =
     (case bs of
        _ # first # rest \<Rightarrow>
          if (of_char first :: nat) < 128 then Inr (of_char first, 2)
          else
            let count = of_char first - 128 in
            ensure (\<not> (count = 0 \<or> count > 4)) DerUnsupported (
            ensure (count \<le> length rest) DerTruncated (
            let raw = take count rest in
            ensure (raw ! 0 \<noteq> CHR 0x00) DerNoncanonical (
            ensure (\<not> be_value raw < 128) DerNoncanonical (
            Inr (be_value raw, 2 + count)))))
      | _ \<Rightarrow> Inl DerTruncated)"

definition strict_take :: "char \<Rightarrow> bytes \<Rightarrow> (identity_error, bytes \<times> bytes) result" where
  "strict_take tag bs =
     ensure (peek bs = Some tag) DerTag (
     and_then (strict_length bs) (\<lambda>(len, header).
     ensure (header + len \<le> length bs) DerTruncated (
     Inr (take len (drop header bs), drop (header + len) bs))))"

definition strict_finish :: "bytes \<Rightarrow> (identity_error, unit) result" where
  "strict_finish bs = ensure (bs = []) DerTrailing (Inr ())"

fun take_tags :: "char list \<Rightarrow> bytes \<Rightarrow> (identity_error, bytes) result" where
  "take_tags [] bs = Inr bs"
| "take_tags (tag # tags) bs = and_then (strict_take tag bs) (\<lambda>(_, rest). take_tags tags rest)"

definition take_optional :: "char \<Rightarrow> bytes \<Rightarrow> (identity_error, bytes) result" where
  "take_optional tag bs =
     (if peek bs = Some tag then and_then (strict_take tag bs) (\<lambda>(_, rest). Inr rest) else Inr bs)"

definition FULCIO_ARC :: bytes where
  "FULCIO_ARC = [CHR 0x2B, CHR 0x06, CHR 0x01, CHR 0x04, CHR 0x01, CHR 0x83, CHR 0xBF, CHR 0x30, CHR 0x01]"

definition REPOSITORY_OID :: bytes where "REPOSITORY_OID = FULCIO_ARC @ [CHR 0x0C]"
definition REVISION_OID :: bytes where "REVISION_OID = FULCIO_ARC @ [CHR 0x0D]"

text \<open>What follows the identifier of an extension: an optional criticality flag and the value.\<close>

definition extension_value :: "bytes \<Rightarrow> (identity_error, bytes) result" where
  "extension_value extension =
     and_then (take_optional (CHR 0x01) extension) (\<lambda>extension.
     and_then (strict_take (CHR 0x04) extension) (\<lambda>(value, extension).
     and_then (strict_finish extension) (\<lambda>_. Inr value)))"

definition utf8_string :: "bytes \<Rightarrow> (identity_error, bytes) result" where
  "utf8_string bs =
     and_then (strict_take (CHR 0x0C) bs) (\<lambda>(text, rest).
     ensure (is_utf8 text) ExtensionNotUtf8 (
     and_then (strict_finish rest) (\<lambda>_. Inr text)))"

lemma strict_take_shorter: "strict_take tag bs = Inr (c, rest) \<Longrightarrow> length rest < length bs"
  by (auto simp: strict_take_def strict_length_def result_simps Let_def peek_def split: list.splits if_splits)

function read_source_extensions ::
  "bytes \<Rightarrow> bytes set \<Rightarrow> bytes option \<Rightarrow> bytes option \<Rightarrow> (identity_error, bytes option \<times> bytes option) result" where
  "read_source_extensions extensions seen repo revision =
     (if extensions = [] then Inr (repo, revision)
      else
        and_then (strict_take (CHR 0x30) extensions) (\<lambda>(extension, extensions).
        and_then (strict_take (CHR 0x06) extension) (\<lambda>(oid, extension).
        ensure (oid \<notin> seen) DuplicateExtension (
        and_then (extension_value extension) (\<lambda>value.
        if oid = REPOSITORY_OID then
          and_then (utf8_string value) (\<lambda>text. read_source_extensions extensions (insert oid seen) (Some text) revision)
        else if oid = REVISION_OID then
          and_then (utf8_string value) (\<lambda>text. read_source_extensions extensions (insert oid seen) repo (Some text))
        else read_source_extensions extensions (insert oid seen) repo revision)))))"
  by pat_completeness auto
termination
  by (relation "measure (\<lambda>(extensions, _). length extensions)") (auto dest: strict_take_shorter)

definition certificate_source :: "bytes \<Rightarrow> (identity_error, bytes \<times> bytes) result" where
  "certificate_source bs =
     and_then (strict_take (CHR 0x30) bs) (\<lambda>(certificate, outer).
     and_then (strict_finish outer) (\<lambda>_.
     and_then (strict_take (CHR 0x30) certificate) (\<lambda>(tbs, certificate).
     and_then (take_tags [CHR 0x30, CHR 0x03] certificate) (\<lambda>certificate.
     and_then (strict_finish certificate) (\<lambda>_.
     and_then (take_optional (CHR 0xA0) tbs) (\<lambda>tbs.
     and_then (take_tags [CHR 0x02, CHR 0x30, CHR 0x30, CHR 0x30, CHR 0x30, CHR 0x30] tbs) (\<lambda>tbs.
     and_then (take_optional (CHR 0x81) tbs) (\<lambda>tbs.
     and_then (take_optional (CHR 0x82) tbs) (\<lambda>tbs.
     and_then (map_err (\<lambda>_. NoExtensions) (strict_take (CHR 0xA3) tbs)) (\<lambda>(explicit, tbs).
     and_then (strict_finish tbs) (\<lambda>_.
     and_then (strict_take (CHR 0x30) explicit) (\<lambda>(extensions, explicit).
     and_then (strict_finish explicit) (\<lambda>_.
     and_then (read_source_extensions extensions {} None None) (\<lambda>(repo, revision).
     and_then (ok_or repo NoRepository) (\<lambda>repo.
     and_then (ok_or revision NoRevision) (\<lambda>revision.
     Inr (repo, revision)))))))))))))))))"

section \<open>Verifying\<close>

definition VERIFY_FLAGS :: "bytes list" where
  "VERIFY_FLAGS = [''verify-blob'', ''--offline=true'', ''--new-bundle-format=true'', ''--insecure-ignore-tlog=false'',
     ''--insecure-ignore-sct=false'']"

definition verify_blob_bytes ::
  "identity_env \<Rightarrow> cosign \<Rightarrow> bytes \<Rightarrow> bytes \<Rightarrow> bytes \<Rightarrow> identity_policy \<Rightarrow> (identity_error, identity_verification) result" where
  "verify_blob_bytes env c receipt_bytes bundle_bytes root_bytes p =
     and_then (check_cosign_version env c) (\<lambda>_.
     and_then (ok_or (co_verify c \<lparr>vb_flags = VERIFY_FLAGS, vb_root = root_bytes, vb_bundle = bundle_bytes,
       vb_identity = ip_workflow p, vb_issuer = ip_issuer p, vb_blob = receipt_bytes\<rparr>) CosignUnusable) (\<lambda>success.
     ensure success CosignRejected (
     and_then (bundle_certificate env bundle_bytes) (\<lambda>certificate.
     and_then (certificate_source certificate) (\<lambda>(repo, revision).
     ensure (repo = ip_repository p) RepositoryDiffers (
     ensure (revision = ip_revision p) CertifiedRevisionDiffers (
     Inr \<lparr>iv_issuer = ip_issuer p, iv_repository = repo, iv_workflow = ip_workflow p, iv_revision = revision\<rparr>)))))))"

text \<open>The files are given by their contents, if they can be read.\<close>

definition verify_with_cosign ::
  "identity_env \<Rightarrow> cosign \<Rightarrow> bytes option \<Rightarrow> bytes option \<Rightarrow> (bytes \<rightharpoonup> bytes) \<Rightarrow> identity_policy
    \<Rightarrow> (identity_error, identity_verification) result" where
  "verify_with_cosign env c receipt_file bundle_file files p =
     and_then (policy_validate env p) (\<lambda>_.
     and_then (map_err IdentityRead (read_bounded MAX_RECEIPT_BYTES receipt_file)) (\<lambda>receipt_bytes.
     and_then (map_err IdentityRead (read_bounded MAX_IDENTITY_BYTES bundle_file)) (\<lambda>bundle_bytes.
     and_then (map_err IdentityRead (read_bounded MAX_IDENTITY_BYTES (files (ip_trusted_root p)))) (\<lambda>root_bytes.
     and_then (ok_or (ie_receipt_of_yaml env receipt_bytes) NotReceipt) (\<lambda>receipt.
     and_then (ok_or (Option.bind (r_provenance receipt) ep_source) NoSourceRevision) (\<lambda>source.
     ensure (commit source = ip_revision p) RevisionDiffers (
     verify_blob_bytes env c receipt_bytes bundle_bytes root_bytes p)))))))"

definition verify_receipt_identity ::
  "identity_env \<Rightarrow> bytes option \<Rightarrow> bytes option \<Rightarrow> (bytes \<rightharpoonup> bytes) \<Rightarrow> identity_policy
    \<Rightarrow> (identity_error, identity_verification) result" where
  "verify_receipt_identity env receipt_file bundle_file files p =
     and_then (ok_or (ie_cosign env) NoCosign) (\<lambda>c. verify_with_cosign env c receipt_file bundle_file files p)"

section \<open>Signing\<close>

definition SIGN_FLAGS :: "bytes list" where
  "SIGN_FLAGS = [''sign-blob'', ''--yes'', ''--new-bundle-format=true'', ''--tlog-upload=true'']"

text \<open>The bundle written, if any; \<open>existing\<close> is what the path of the bundle holds before. A destination
  created meanwhile is not replaced either.\<close>

definition sign_with_cosign ::
  "identity_env \<Rightarrow> cosign \<Rightarrow> bytes option \<Rightarrow> bytes option \<Rightarrow> bytes option \<Rightarrow> (identity_error, bytes) result" where
  "sign_with_cosign env c receipt_file existing token =
     ensure (existing = None) BundleExists (
     and_then (map_err IdentityRead (read_bounded MAX_RECEIPT_BYTES receipt_file)) (\<lambda>bs.
     and_then (ok_or (ie_receipt_of_yaml env bs) NotReceipt) (\<lambda>_.
     and_then (check_cosign_version env c) (\<lambda>_.
     ensure (case token of Some t \<Rightarrow> \<not> trim_is_empty t | None \<Rightarrow> True) EmptyToken (
     and_then (ok_or (co_sign c \<lparr>sb_flags = SIGN_FLAGS, sb_blob = bs, sb_token = token\<rparr>) CosignUnusable) (\<lambda>(success, bundle).
     ensure success SigningFailed (
     and_then (map_err IdentityRead (read_bounded MAX_IDENTITY_BYTES bundle)) (\<lambda>bundle.
     and_then (bundle_certificate env bundle) (\<lambda>_. Inr bundle)))))))))"

definition sign_receipt_identity ::
  "identity_env \<Rightarrow> bytes option \<Rightarrow> bytes option \<Rightarrow> bytes option \<Rightarrow> (identity_error, bytes) result" where
  "sign_receipt_identity env receipt_file existing token =
     and_then (ok_or (ie_cosign env) NoCosign) (\<lambda>c. sign_with_cosign env c receipt_file existing token)"

section \<open>Properties\<close>

subsection \<open>Strict DER\<close>

lemma be_value_bound: "be_value bs < 256 ^ length bs"
proof (induction bs rule: rev_induct)
  case (snoc c bs)
  have "(of_char c :: nat) < 256" by simp
  moreover have "be_value bs + 1 \<le> 256 ^ length bs" using snoc by simp
  ultimately have "be_value bs * 256 + (of_char c :: nat) < 256 ^ length bs * 256" by linarith
  then show ?case by (simp add: be_value_snoc mult.commute)
qed (simp add: be_value_def)

lemma be_bytes_value: "bs = [] \<or> hd bs \<noteq> CHR 0x00 \<Longrightarrow> be_bytes (be_value bs) = bs"
proof (induction bs rule: rev_induct)
  case (snoc c bs)
  let ?n = "be_value bs * 256 + (of_char c :: nat)"
  have c: "(of_char c :: nat) < 256" by simp
  have IH: "be_bytes (be_value bs) = bs" using snoc by (cases bs) auto
  have "?n \<noteq> 0"
  proof (cases bs)
    case Nil
    then have "c \<noteq> CHR 0x00" using snoc.prems by simp
    then have "(of_char c :: nat) \<noteq> 0" using of_char_eq_iff [of c "CHR 0x00", where ?'a = nat] by simp
    then show ?thesis by simp
  next
    case (Cons b bs')
    then have "be_bytes (be_value bs) \<noteq> []" using IH by simp
    moreover have "be_bytes 0 = []" by (simp add: be_bytes.simps)
    ultimately have "be_value bs \<noteq> 0" by metis
    then show ?thesis by simp
  qed
  moreover have "?n div 256 = be_value bs" "?n mod 256 = of_char c" using c by simp_all
  ultimately show ?case using IH by (simp add: be_value_snoc be_bytes.simps [of ?n])
qed (simp add: be_bytes.simps be_value_def)

lemma strict_take_tlv:
  assumes "length c < 2 ^ 32"
  shows "strict_take tag (der_tlv tag c @ rest) = Inr (c, rest)"
proof (cases "length c < 0x80")
  case True
  then have "(of_char (char_of (length c) :: char) :: nat) = length c" by simp
  with True show ?thesis by (simp add: strict_take_def strict_length_def der_tlv_def peek_def Let_def)
next
  case False
  let ?l = "be_bytes (length c)"
  have "0 < length c" using False by linarith
  then have len: "?l \<noteq> []" "length ?l \<le> 4" "be_value ?l = length c"
    using be_bytes_pos [of "length c"] length_be_bytes [of "length c" 4] assms False by (simp_all add: be_value_bytes)
  have first: "(of_char (char_of (0x80 + length ?l) :: char) :: nat) = 0x80 + length ?l" using len by simp
  have zero: "?l ! 0 \<noteq> CHR 0x00"
  proof
    assume z: "?l ! 0 = CHR 0x00"
    then obtain t where t: "?l = CHR 0x00 # t" using len(1) by (cases ?l) auto
    have "be_value (CHR 0x00 # t) = be_value t" by (simp add: be_value_def)
    then have "be_value t = length c" using len(3) t by simp
    then have "length (be_bytes (length c)) \<le> length t"
      using length_be_bytes [of "length c" "length t"] be_value_bound [of t] by simp
    then show False using t by simp
  qed
  show ?thesis
    using len first zero False
    by (simp add: strict_take_def strict_length_def der_tlv_def peek_def Let_def nth_append)
qed

lemma strict_take_parts:
  assumes "strict_take tag bs = Inr (c, rest)"
  shows "bs = der_tlv tag c @ rest" "length c < 2 ^ 32"
proof -
  obtain first r where bs: "bs = tag # first # r"
    using assms by (auto simp: strict_take_def strict_length_def result_simps peek_def split: list.splits)
  have "bs = der_tlv tag c @ rest \<and> length c < 2 ^ 32"
  proof (cases "(of_char first :: nat) < 128")
    case True
    then have c: "c = take (of_char first) r" "rest = drop (of_char first) r" "of_char first \<le> length r"
      using assms bs by (auto simp: strict_take_def strict_length_def result_simps)
    then have len: "length c = of_char first" by simp
    show ?thesis using len True bs c(1,2) unfolding der_tlv_short [OF len True] by simp
  next
    case False
    let ?count = "of_char first - 128 :: nat"
    let ?raw = "take ?count r"
    have p: "?count \<noteq> 0" "?count \<le> 4" "?count \<le> length r" "?raw ! 0 \<noteq> CHR 0x00" "128 \<le> be_value ?raw"
      "2 + ?count + be_value ?raw \<le> length bs" "c = take (be_value ?raw) (drop (2 + ?count) bs)"
      "rest = drop (2 + ?count + be_value ?raw) bs"
      using assms False bs by (auto simp: strict_take_def strict_length_def result_simps Let_def)
    have "?raw \<noteq> []" using p(1,3) by (cases r) auto
    then have raw: "be_bytes (be_value ?raw) = ?raw" using p(4) by (intro be_bytes_value) (simp add: hd_conv_nth)
    have lc: "length c = be_value ?raw" using p(6,7) by simp
    have "be_value ?raw < 256 ^ 4"
      using be_value_bound [of ?raw] p(2,3) power_increasing [of ?count 4 "256 :: nat"] by simp
    moreover have "(char_of (128 + ?count) :: char) = first" using False by simp
    moreover have "r = ?raw @ c @ rest"
      using p(3,6) by (simp add: p(7,8) bs) (metis append_take_drop_id drop_drop add.commute)
    ultimately show ?thesis using lc p(3,5) raw bs by (simp add: der_tlv_def Let_def)
  qed
  then show "bs = der_tlv tag c @ rest" "length c < 2 ^ 32" by blast+
qed

lemma strict_take_iff: "strict_take tag bs = Inr (c, rest) \<longleftrightarrow> bs = der_tlv tag c @ rest \<and> length c < 2 ^ 32"
  using strict_take_parts strict_take_tlv by blast

subsection \<open>Certificates\<close>

text \<open>An extension as it is written: identifier, optional criticality flag, value.\<close>

record extension =
  ext_oid :: bytes
  ext_critical :: "bytes option"
  ext_value :: bytes

definition extension_bytes :: "extension \<Rightarrow> bytes" where
  "extension_bytes e = der_tlv (CHR 0x30) (der_tlv (CHR 0x06) (ext_oid e) @
     (case ext_critical e of None \<Rightarrow> [] | Some c \<Rightarrow> der_tlv (CHR 0x01) c) @ der_tlv (CHR 0x04) (ext_value e))"

text \<open>The certified text of an identifier: the value of the only extension that has it.\<close>

definition certified :: "extension list \<Rightarrow> bytes \<Rightarrow> bytes \<Rightarrow> bool" where
  "certified es oid text \<longleftrightarrow> (\<exists>e\<in>set es. ext_oid e = oid \<and> ext_value e = der_tlv (CHR 0x0C) text \<and> is_utf8 text)"

lemma utf8_string_parts: "utf8_string bs = Inr text \<Longrightarrow> bs = der_tlv (CHR 0x0C) text \<and> is_utf8 text"
  by (auto simp: utf8_string_def strict_finish_def result_simps strict_take_iff)

lemma extension_value_parts:
  assumes "extension_value bs = Inr v"
  shows "\<exists>critical. bs = (case critical of None \<Rightarrow> [] | Some c \<Rightarrow> der_tlv (CHR 0x01) c) @ der_tlv (CHR 0x04) v"
proof -
  obtain rest where r: "take_optional (CHR 0x01) bs = Inr rest" "rest = der_tlv (CHR 0x04) v"
    using assms by (auto simp: extension_value_def strict_finish_def result_simps strict_take_iff)
  show ?thesis
  proof (cases "peek bs = Some (CHR 0x01)")
    case True
    then obtain c where "bs = der_tlv (CHR 0x01) c @ rest" using r(1) by (auto simp: take_optional_def result_simps strict_take_iff)
    then show ?thesis using r(2) by (intro exI [of _ "Some c"]) simp
  next
    case False
    then show ?thesis using r by (intro exI [of _ None]) (simp add: take_optional_def)
  qed
qed

definition certified_or :: "extension list \<Rightarrow> bytes \<Rightarrow> bytes option \<Rightarrow> bytes option \<Rightarrow> bool" where
  "certified_or es oid initial found \<longleftrightarrow>
     (if oid \<in> ext_oid ` set es then \<exists>text. found = Some text \<and> certified es oid text else found = initial)"

lemma certified_Cons: "certified (e # es) oid text \<longleftrightarrow>
    ext_oid e = oid \<and> ext_value e = der_tlv (CHR 0x0C) text \<and> is_utf8 text \<or> certified es oid text"
  by (auto simp: certified_def)

lemma oids_differ: "REPOSITORY_OID \<noteq> REVISION_OID"
  by (simp add: REPOSITORY_OID_def REVISION_OID_def)

lemma read_source_extensions_sound:
  assumes "read_source_extensions bs seen repo revision = Inr (a, b)"
  shows "\<exists>es. bs = concat (map extension_bytes es) \<and> distinct (map ext_oid es) \<and> ext_oid ` set es \<inter> seen = {} \<and>
    certified_or es REPOSITORY_OID repo a \<and> certified_or es REVISION_OID revision b"
  using assms
proof (induction bs seen repo revision rule: read_source_extensions.induct)
  case (1 bs seen repo revision)
  show ?case
  proof (cases "bs = []")
    case True
    then have "certified_or [] REPOSITORY_OID repo a \<and> certified_or [] REVISION_OID revision b"
      using "1.prems" by (simp add: certified_or_def read_source_extensions.simps)
    then show ?thesis using True by (intro exI [of _ "[]"]) simp
  next
    case False
    obtain ext rest oid body v where t: "strict_take (CHR 0x30) bs = Inr (ext, rest)" "strict_take (CHR 0x06) ext = Inr (oid, body)"
        "oid \<notin> seen" "extension_value body = Inr v"
      and cont: "(if oid = REPOSITORY_OID then
          and_then (utf8_string v) (\<lambda>text. read_source_extensions rest (insert oid seen) (Some text) revision)
        else if oid = REVISION_OID then
          and_then (utf8_string v) (\<lambda>text. read_source_extensions rest (insert oid seen) repo (Some text))
        else read_source_extensions rest (insert oid seen) repo revision) = Inr (a, b)"
      using "1.prems" False unfolding read_source_extensions.simps [of bs] by (auto simp: result_simps)
    obtain critical where body: "body = (case critical of None \<Rightarrow> [] | Some c \<Rightarrow> der_tlv (CHR 0x01) c) @ der_tlv (CHR 0x04) v"
      using extension_value_parts [OF t(4)] by blast
    let ?e = "\<lparr>ext_oid = oid, ext_critical = critical, ext_value = v\<rparr>"
    have bs: "bs = extension_bytes ?e @ rest"
      using t(1,2) body by (simp add: strict_take_iff extension_bytes_def)
    have branch: "oid = REPOSITORY_OID \<and> (\<exists>s. utf8_string v = Inr s \<and> read_source_extensions rest (insert oid seen) (Some s) revision = Inr (a, b)) \<or>
        oid = REVISION_OID \<and> (\<exists>s. utf8_string v = Inr s \<and> read_source_extensions rest (insert oid seen) repo (Some s) = Inr (a, b)) \<or>
        oid \<noteq> REPOSITORY_OID \<and> oid \<noteq> REVISION_OID \<and> read_source_extensions rest (insert oid seen) repo revision = Inr (a, b)"
      using cont by (cases "oid = REPOSITORY_OID"; cases "oid = REVISION_OID"; cases "utf8_string v") simp_all
    consider (repo) s where "oid = REPOSITORY_OID" "utf8_string v = Inr s"
        "read_source_extensions rest (insert oid seen) (Some s) revision = Inr (a, b)"
      | (rev) s where "oid = REVISION_OID" "utf8_string v = Inr s"
        "read_source_extensions rest (insert oid seen) repo (Some s) = Inr (a, b)"
      | (other) "oid \<noteq> REPOSITORY_OID" "oid \<noteq> REVISION_OID" "read_source_extensions rest (insert oid seen) repo revision = Inr (a, b)"
      using branch by blast
    then show ?thesis
    proof cases
      case repo
      from "1.IH"(1) [OF False t(1) refl t(2) refl t(3,4) repo] obtain es where
        es: "rest = concat (map extension_bytes es)" "distinct (map ext_oid es)" "ext_oid ` set es \<inter> insert oid seen = {}"
          "certified_or es REPOSITORY_OID (Some s) a" "certified_or es REVISION_OID revision b" by blast
      then show ?thesis using bs t(3) repo(1) utf8_string_parts [OF repo(2)] oids_differ
        by (intro exI [of _ "?e # es"]) (auto simp: certified_or_def certified_Cons)
    next
      case rev
      from "1.IH"(2) [OF False t(1) refl t(2) refl t(3,4) _ rev] oids_differ rev(1) obtain es where
        es: "rest = concat (map extension_bytes es)" "distinct (map ext_oid es)" "ext_oid ` set es \<inter> insert oid seen = {}"
          "certified_or es REPOSITORY_OID repo a" "certified_or es REVISION_OID (Some s) b" by auto
      then show ?thesis using bs t(3) rev(1) utf8_string_parts [OF rev(2)] oids_differ
        by (intro exI [of _ "?e # es"]) (auto simp: certified_or_def certified_Cons)
    next
      case other
      from "1.IH"(3) [OF False t(1) refl t(2) refl t(3,4) other] obtain es where
        es: "rest = concat (map extension_bytes es)" "distinct (map ext_oid es)" "ext_oid ` set es \<inter> insert oid seen = {}"
          "certified_or es REPOSITORY_OID repo a" "certified_or es REVISION_OID revision b" by blast
      then show ?thesis using bs t(3) other(1,2)
        by (intro exI [of _ "?e # es"]) (auto simp: certified_or_def certified_Cons)
    qed
  qed
qed

lemma take_optional_parts: "take_optional tag bs = Inr rest \<Longrightarrow> \<exists>p. bs = p @ rest"
  by (auto simp: take_optional_def result_simps strict_take_iff split: if_splits)

lemma take_tags_parts: "take_tags tags bs = Inr rest \<Longrightarrow> \<exists>p. bs = p @ rest"
  by (induction tags arbitrary: bs) (force simp: result_simps strict_take_iff)+

lemma der_tlv_ends: "\<exists>header. der_tlv tag c = header @ c"
  by (simp add: der_tlv_def Let_def)

definition certificate_states :: "bytes \<Rightarrow> bytes \<Rightarrow> bytes \<Rightarrow> bool" where
  "certificate_states bs repo revision \<longleftrightarrow> (\<exists>before es after. bs = before @ concat (map extension_bytes es) @ after \<and>
     distinct (map ext_oid es) \<and> certified es REPOSITORY_OID repo \<and> certified es REVISION_OID revision)"

lemma certificate_source_sound:
  assumes "certificate_source bs = Inr (repo, revision)"
  shows "certificate_states bs repo revision"
proof -
  obtain cert tbs sigs tbs1 tbs2 tbs3 tbs4 explicit exts where
      bs: "bs = der_tlv (CHR 0x30) cert" and cert: "cert = der_tlv (CHR 0x30) tbs @ sigs"
    and tbs: "take_optional (CHR 0xA0) tbs = Inr tbs1"
      "take_tags [CHR 0x02, CHR 0x30, CHR 0x30, CHR 0x30, CHR 0x30, CHR 0x30] tbs1 = Inr tbs2"
      "take_optional (CHR 0x81) tbs2 = Inr tbs3" "take_optional (CHR 0x82) tbs3 = Inr tbs4"
      "tbs4 = der_tlv (CHR 0xA3) explicit" "explicit = der_tlv (CHR 0x30) exts"
    and r: "read_source_extensions exts {} None None = Inr (Some repo, Some revision)"
    using assms unfolding certificate_source_def
    by (auto simp: result_simps strict_take_iff strict_finish_def simp del: take_tags.simps)
  obtain es where es: "exts = concat (map extension_bytes es)" "distinct (map ext_oid es)"
      "certified_or es REPOSITORY_OID None (Some repo)" "certified_or es REVISION_OID None (Some revision)"
    using read_source_extensions_sound [OF r] by blast
  then have c: "certified es REPOSITORY_OID repo" "certified es REVISION_OID revision"
    by (auto simp: certified_or_def split: if_splits)
  have "\<exists>p. tbs = p @ exts"
    using take_optional_parts [OF tbs(1)] take_tags_parts [OF tbs(2)] take_optional_parts [OF tbs(3)]
      take_optional_parts [OF tbs(4)] der_tlv_ends [of "CHR 0xA3" explicit] der_tlv_ends [of "CHR 0x30" exts] tbs(5,6)
    by (metis append.assoc)
  moreover have "\<exists>p. cert = p @ tbs @ sigs" "\<exists>p. bs = p @ cert"
    using der_tlv_ends [of "CHR 0x30" tbs] der_tlv_ends [of "CHR 0x30" cert] by (auto simp: bs cert)
  ultimately have "\<exists>before. bs = before @ exts @ sigs" by (metis append.assoc)
  then show ?thesis using es(1,2) c unfolding certificate_states_def by blast
qed

subsection \<open>The verified identity\<close>

text \<open>
  C30. A verified workflow identity is the one the recipient named. When verification of a receipt's bundle succeeds,
  the policy's issuer, repository and workflow are HTTPS addresses without credentials and its revision is a
  full commit id; the receipt's own source revision is that commit; the local \<open>cosign\<close>, of a version from 3 on, accepted
  the bundle for exactly the receipt's bytes, the policy's workflow and issuer and the policy's trusted root,
  offline; and the certificate in that bundle certifies the policy's repository and revision, each by a
  single extension. The identity reported is that of the policy.
\<close>

theorem verify_identity_sound:
  assumes "verify_receipt_identity env receipt_file bundle_file files p = Inr iv"
  shows "iv = \<lparr>iv_issuer = ip_issuer p, iv_repository = ip_repository p, iv_workflow = ip_workflow p, iv_revision = ip_revision p\<rparr> \<and>
    https_url env (ip_issuer p) \<and> https_url env (ip_repository p) \<and> https_url env (ip_workflow p) \<and>
    length (ip_revision p) \<in> {40, 64} \<and> list_all is_hex_digit (ip_revision p) \<and>
    (\<exists>c receipt_bytes bundle_bytes root_bytes receipt source certificate.
      ie_cosign env = Some c \<and> check_cosign_version env c = Inr () \<and>
      receipt_file = Some receipt_bytes \<and> bundle_file = Some bundle_bytes \<and> files (ip_trusted_root p) = Some root_bytes \<and>
      ie_receipt_of_yaml env receipt_bytes = Some receipt \<and> Option.bind (r_provenance receipt) ep_source = Some source \<and>
      commit source = ip_revision p \<and>
      co_verify c \<lparr>vb_flags = VERIFY_FLAGS, vb_root = root_bytes, vb_bundle = bundle_bytes,
        vb_identity = ip_workflow p, vb_issuer = ip_issuer p, vb_blob = receipt_bytes\<rparr> = Some True \<and>
      bundle_certificate env bundle_bytes = Inr certificate \<and>
      certificate_states certificate (ip_repository p) (ip_revision p))"
proof -
  obtain c receipt_bytes bundle_bytes root_bytes receipt source where
    parts: "ie_cosign env = Some c" "policy_validate env p = Inr ()" "receipt_file = Some receipt_bytes"
      "bundle_file = Some bundle_bytes" "files (ip_trusted_root p) = Some root_bytes"
      "ie_receipt_of_yaml env receipt_bytes = Some receipt" "Option.bind (r_provenance receipt) ep_source = Some source"
      "commit source = ip_revision p" "verify_blob_bytes env c receipt_bytes bundle_bytes root_bytes p = Inr iv"
    using assms unfolding verify_receipt_identity_def verify_with_cosign_def read_bounded_def
    by (auto simp: result_simps)
  obtain certificate where blob: "check_cosign_version env c = Inr ()"
      "co_verify c \<lparr>vb_flags = VERIFY_FLAGS, vb_root = root_bytes, vb_bundle = bundle_bytes,
        vb_identity = ip_workflow p, vb_issuer = ip_issuer p, vb_blob = receipt_bytes\<rparr> = Some True"
      "bundle_certificate env bundle_bytes = Inr certificate" "certificate_source certificate = Inr (ip_repository p, ip_revision p)"
      "iv = \<lparr>iv_issuer = ip_issuer p, iv_repository = ip_repository p, iv_workflow = ip_workflow p, iv_revision = ip_revision p\<rparr>"
    using parts(9) by (auto simp: verify_blob_bytes_def result_simps)
  have "https_url env (ip_issuer p) \<and> https_url env (ip_repository p) \<and> https_url env (ip_workflow p) \<and>
      length (ip_revision p) \<in> {40, 64} \<and> list_all is_hex_digit (ip_revision p)"
    using parts(2) by (auto simp: policy_validate_def result_simps)
  then show ?thesis
    using parts blob certificate_source_sound [OF blob(4)] by blast
qed

subsection \<open>A verified workflow\<close>

definition example_revision :: bytes where "example_revision = replicate 40 (CHR ''a'')"

definition example_extension :: "bytes \<Rightarrow> bytes \<Rightarrow> bytes" where
  "example_extension oid s = extension_bytes \<lparr>ext_oid = oid, ext_critical = None, ext_value = der_tlv (CHR 0x0C) s\<rparr>"

definition example_certificate :: bytes where
  "example_certificate =
     (let exts = example_extension REPOSITORY_OID ''https://h/r'' @ example_extension REVISION_OID example_revision;
          tbs = der_tlv (CHR 0x02) ''1'' @ concat (replicate 5 (der_tlv (CHR 0x30) [])) @ der_tlv (CHR 0xA3) (der_tlv (CHR 0x30) exts)
      in der_tlv (CHR 0x30) (der_tlv (CHR 0x30) tbs @ der_tlv (CHR 0x30) [] @ der_tlv (CHR 0x03) []))"

lemma example_certificate_source: "certificate_source example_certificate = Inr (''https://h/r'', example_revision)"
  by code_simp

definition example_bundle_json :: json where
  "example_bundle_json = JObject [(''mediaType'', JString BUNDLE_MEDIA_TYPE), (''messageSignature'', JObject []),
     (''verificationMaterial'', JObject [(''certificate'', JObject [(''rawBytes'', JString ''leaf'')])])]"

definition example_identity_policy :: identity_policy where
  "example_identity_policy = \<lparr>ip_issuer = ''https://i'', ip_repository = ''https://h/r'', ip_workflow = ''https://h/w'',
     ip_revision = example_revision, ip_trusted_root = ''root''\<rparr>"

definition example_provenance :: execution_provenance where
  "example_provenance = \<lparr>invocation_id = None, started_at = None, ep_pipeline_name = None,
     ep_source = Some \<lparr>repository = None, commit = example_revision, branch = None, tracked_dirty = False\<rparr>,
     runner_os = [], runner_arch = [], ep_ci = None, ep_steps = [], ep_artifacts = [], ep_execution = Some Native\<rparr>"

definition example_cosign :: cosign where
  "example_cosign = \<lparr>co_version = Some (True, ''GitVersion:    v3.0.2'', []),
     co_verify = (\<lambda>call. Some (vb_blob call = ''y'' \<and> vb_identity call = ''https://h/w'')), co_sign = (\<lambda>_. None)\<rparr>"

definition example_identity_env :: identity_env where
  "example_identity_env = \<lparr>ie_url = (\<lambda>v. Some \<lparr>url_scheme = ''https'', url_host = Some ''h'', url_username = [], url_password = None\<rparr>),
     ie_json = (\<lambda>_. Some example_bundle_json), ie_base64 = (\<lambda>_. Some example_certificate), ie_lossy = id,
     ie_receipt_of_yaml = (\<lambda>_. Some (example_receipt\<lparr>r_provenance := Some example_provenance\<rparr>)),
     ie_cosign = Some example_cosign\<rparr>"

lemma example_identity:
  "verify_receipt_identity example_identity_env (Some ''y'') (Some ''b'') [''root'' \<mapsto> ''t''] example_identity_policy =
     Inr \<lparr>iv_issuer = ''https://i'', iv_repository = ''https://h/r'', iv_workflow = ''https://h/w'', iv_revision = example_revision\<rparr>"
proof -
  have leaf: "bundle_certificate example_identity_env ''b'' = Inr example_certificate"
    by (simp add: bundle_certificate_def example_identity_env_def example_bundle_json_def)
  have l: "lines (''GitVersion:    v3.0.2'' @ [CHR 0x0A]) = [''GitVersion:    v3.0.2'']" "trim ''GitVersion:    v3.0.2'' = ''GitVersion:    v3.0.2''"
    "trim ''    v3.0.2'' = ''v3.0.2''" "split_on (CHR ''.'') ''3.0.2'' = [''3'', ''0'', ''2'']"
    by code_simp+
  have "parse_u32 ''3'' = Some 3" by (simp add: parse_u32_def starts_with_def is_digit_def digits_value_def Let_def)
  then have "line_version ''GitVersion:    v3.0.2'' = Some 3"
    by (simp add: line_version_def l strip_prefix_def starts_with_def)
  then have v: "check_cosign_version example_identity_env example_cosign = Inr ()"
    using l(1) by (simp add: check_cosign_version_def example_cosign_def example_identity_env_def Let_def)
  have blob: "verify_blob_bytes example_identity_env example_cosign ''y'' ''b'' ''t'' example_identity_policy =
      Inr \<lparr>iv_issuer = ''https://i'', iv_repository = ''https://h/r'', iv_workflow = ''https://h/w'', iv_revision = example_revision\<rparr>"
    using v leaf example_certificate_source
    by (simp add: verify_blob_bytes_def example_cosign_def example_identity_policy_def)
  have plain: "\<not> list_ex (\<lambda>c. is_whitespace c \<or> is_control c) (utf8_chars ''https://i'')"
    "\<not> list_ex (\<lambda>c. is_whitespace c \<or> is_control c) (utf8_chars ''https://h/r'')"
    "\<not> list_ex (\<lambda>c. is_whitespace c \<or> is_control c) (utf8_chars ''https://h/w'')"
    by (simp_all add: is_whitespace_def is_control_def)
  have u: "https_url example_identity_env ''https://i''" "https_url example_identity_env ''https://h/r''"
    "https_url example_identity_env ''https://h/w''"
    using plain by (simp_all add: https_url_def example_identity_env_def)
  have "length example_revision \<in> {40, 64}" "list_all is_hex_digit example_revision"
    by (simp_all add: example_revision_def is_hex_digit_def list_all_iff)
  then have pol: "policy_validate example_identity_env example_identity_policy = Inr ()"
    using u by (simp add: policy_validate_def example_identity_policy_def)
  have "ie_cosign example_identity_env = Some example_cosign" "ip_trusted_root example_identity_policy = ''root''"
    "ip_revision example_identity_policy = example_revision"
    "ie_receipt_of_yaml example_identity_env ''y'' = Some (example_receipt\<lparr>r_provenance := Some example_provenance\<rparr>)"
    by (simp_all add: example_identity_env_def example_identity_policy_def)
  then show ?thesis
    using blob pol
    by (simp add: verify_receipt_identity_def verify_with_cosign_def read_bounded_def MAX_RECEIPT_BYTES_def MAX_IDENTITY_BYTES_def
        example_provenance_def)
qed

theorem verify_identity_sound_witness:
  "\<exists>certificate. bundle_certificate example_identity_env ''b'' = Inr certificate \<and>
     certificate_states certificate ''https://h/r'' example_revision"
  using verify_identity_sound [OF example_identity] by (auto simp: example_identity_policy_def)

end
