(* ===== verification/Evidence.thy ===== *)
theory Evidence
  imports Archive Identity
begin

text \<open>
  Release evidence, from \<open>src/evidence.rs\<close> and \<open>src/evidence/proofs.rs\<close>: the inventory of artifacts against the
  signed output hashes, the proofs a receipt refers to, packing an archive and verifying one. A file that is
  read is given by its content, if there is one; workspaces and artifact roots are directories of an \<open>fs\<close>, in
  which nothing at a path means that there is no such file. The text of an error from another component is
  abbreviated in the detail of a check.
\<close>

definition EVIDENCE_FORMAT :: bytes where "EVIDENCE_FORMAT = ''attest-evidence/v2''"
definition EVIDENCE_PUBLICATION_FORMAT :: bytes where "EVIDENCE_PUBLICATION_FORMAT = ''attest-evidence/v3''"

datatype evidence_error =
    Ev bytes
  | NoSuchArtifact bytes
  | EvRead verify_error
  | EvVerify verify_error
  | EvArchive archive_error
  | EvCapsule capsule_error
  | EvSign sign_error
  | EvIdentity identity_error

fun evidence_message :: "evidence_error \<Rightarrow> bytes" where
  "evidence_message (Ev m) = m"
| "evidence_message (NoSuchArtifact p) = ''cannot read artifact '' @ p"
| "evidence_message (EvRead _) = ''cannot read file''"
| "evidence_message (EvVerify _) = ''cannot verify receipt''"
| "evidence_message (EvArchive _) = ''cannot read archive''"
| "evidence_message (EvCapsule _) = ''invalid capsule manifest''"
| "evidence_message (EvSign _) = ''malformed signature material''"
| "evidence_message (EvIdentity _) = ''workflow identity not verified''"

record evidence_env =
  ee_archive :: archive_env
  ee_record :: record_env
  ee_identity :: identity_env
  ee_json_value :: "bytes \<Rightarrow> json option"
  ee_yaml_value :: "bytes \<Rightarrow> json option"
  ee_capsule_of_value :: "json \<Rightarrow> capsule_manifest option"
  ee_event_of_value :: "json \<Rightarrow> causal_event option"
  ee_event_json :: "causal_event \<Rightarrow> bytes"
  ee_format_of_json :: "bytes \<Rightarrow> bytes option"
  ee_format_json :: "bytes \<Rightarrow> bytes"

abbreviation ee_verify :: "evidence_env \<Rightarrow> verify_env" where "ee_verify env \<equiv> av_verify (ee_archive env)"
abbreviation ee_blake3 :: "evidence_env \<Rightarrow> bytes \<Rightarrow> digest" where "ee_blake3 env \<equiv> ve_blake3 (ee_verify env)"

section \<open>Artifacts\<close>

fun is_normal :: "component \<Rightarrow> bool" where
  "is_normal (Normal _) = True"
| "is_normal _ = False"

definition safe_path :: "bytes \<Rightarrow> bool" where
  "safe_path path \<longleftrightarrow> path \<noteq> [] \<and>
     \<not> list_ex (\<lambda>c. c \<in> {CHR 0x5C, CHR '':'', CHR 0x0A, CHR 0x0D, CHR 0x00}) path \<and>
     list_all (\<lambda>part. part \<noteq> [] \<and> part \<noteq> ''.'' \<and> part \<noteq> ''..'') (split_on (CHR ''/'') path) \<and>
     list_all is_normal (components path)"

fun artifact_walk :: "fs \<Rightarrow> artifact_info \<Rightarrow> path \<Rightarrow> path \<Rightarrow> (evidence_error, bytes) result" where
  "artifact_walk f a current [] = Inl (Ev ''empty artifact path'')"
| "artifact_walk f a current (part # parts) =
     (let current = path_push current part in
      and_then (ok_or (symlink_metadata f current) (NoSuchArtifact (artifact_path a))) (\<lambda>metadata.
      if parts \<noteq> [] then
        ensure (metadata = IsDir) (Ev ''symlink or non-directory artifact ancestor'') (artifact_walk f a current parts)
      else if artifact_kind a = ''file'' \<and> metadata = IsFile then
        map_err EvRead (read_bounded (al_entry default_limits) (read_file f current))
      else if artifact_kind a = ''symlink'' \<and> metadata = IsSymlink then
        and_then (ok_or (read_link f current) (Ev ''cannot read link'')) (\<lambda>target.
        ensure (is_utf8 target) (Ev ''artifact link target is not UTF-8'') (Inr target))
      else Inl (Ev (''artifact kind changed or is unsupported: '' @ artifact_path a))))"

definition artifact_bytes :: "fs \<Rightarrow> path \<Rightarrow> artifact_info \<Rightarrow> (evidence_error, bytes) result" where
  "artifact_bytes f root a =
     ensure (safe_path (artifact_path a)) (Ev ''unsafe artifact path'') (
     artifact_walk f a root (components (artifact_path a)))"

definition receipt_artifacts :: "receipt \<Rightarrow> (evidence_error, artifact_info list) result" where
  "receipt_artifacts r =
     and_then (ok_or (r_provenance r) (Ev ''receipt has no artifact provenance'')) (\<lambda>provenance.
     ensure (ep_artifacts provenance \<noteq> []) (Ev ''receipt declares no artifact files'') (
     Inr (ep_artifacts provenance)))"

definition is_digest_text :: "bytes \<Rightarrow> bool" where
  "is_digest_text s \<longleftrightarrow> length s = 64 \<and> list_all is_hex_digit s"

text \<open>The manifests of the steps, each a map from paths to artifacts; a step without one has the empty map.\<close>

fun inventory_artifacts ::
  "bytes set \<Rightarrow> artifact_info list \<Rightarrow> (bytes \<Rightarrow> artifact_info btree) \<Rightarrow> (evidence_error, bytes \<Rightarrow> artifact_info btree) result" where
  "inventory_artifacts names [] manifests = Inr manifests"
| "inventory_artifacts names (a # as) manifests =
     ensure (safe_path (artifact_path a)) (Ev ''unsafe artifact path'') (
     ensure (artifact_step a \<in> names) (Ev ''artifact names an unknown step'') (
     ensure (artifact_algorithm a = ''blake3'') (Ev ''unsupported artifact digest algorithm'') (
     ensure (artifact_kind a = ''file'' \<or> artifact_kind a = ''symlink'') (Ev ''unsupported artifact kind'') (
     ensure (is_digest_text (artifact_digest a)) (Ev ''invalid artifact digest'') (
     ensure (\<not> contains_key (manifests (artifact_step a)) (artifact_path a)) (Ev ''duplicate artifact in step'') (
     inventory_artifacts names as (manifests(artifact_step a := btree_insert (artifact_path a) a (manifests (artifact_step a))))))))))"

definition artifact_manifest :: "artifact_info btree \<Rightarrow> bytes" where
  "artifact_manifest entries =
     foldl (\<lambda>m (p, a). push_entry m ((if artifact_kind a = ''file'' then ''f:'' else ''l:'') @ artifact_digest a) p)
       (MANIFEST_HEADER @ [CHR 0x0A]) entries"

fun check_outputs ::
  "(bytes \<Rightarrow> digest) \<Rightarrow> (bytes \<Rightarrow> artifact_info btree) \<Rightarrow> step_result list \<Rightarrow> (evidence_error, unit) result" where
  "check_outputs blake3 manifests [] = Inr ()"
| "check_outputs blake3 manifests (s # ss) =
     ensure (to_hex (blake3 (artifact_manifest (manifests (sr_name s)))) = sr_output_hash s)
       (Ev (''artifact inventory does not match output hash for '' @ sr_name s)) (
     check_outputs blake3 manifests ss)"

definition inventory :: "(bytes \<Rightarrow> digest) \<Rightarrow> receipt \<Rightarrow> (evidence_error, unit) result" where
  "inventory blake3 r =
     ensure (distinct (map sr_name (r_steps r))) (Ev ''duplicate step names'') (
     and_then (receipt_artifacts r) (\<lambda>as.
     and_then (inventory_artifacts (set (map sr_name (r_steps r))) as (\<lambda>_. [])) (\<lambda>manifests.
     check_outputs blake3 manifests (r_steps r))))"

definition check_digest :: "(bytes \<Rightarrow> digest) \<Rightarrow> artifact_info \<Rightarrow> bytes \<Rightarrow> (evidence_error, unit) result" where
  "check_digest blake3 a bs =
     ensure (to_hex (blake3 bs) = artifact_digest a) (Ev (''artifact digest mismatch: '' @ artifact_path a)) (Inr ())"

section \<open>Proofs\<close>

definition fields_allowed :: "json \<Rightarrow> bytes list \<Rightarrow> (evidence_error, unit) result" where
  "fields_allowed value allowed =
     and_then (ok_or (json_members value) (Ev ''proof must be an object'')) (\<lambda>members.
     ensure (list_all (\<lambda>(k, _). k \<in> set allowed) members) (Ev ''proof contains an unauthenticated unknown field'') (Inr ()))"

definition CAPSULE_FIELDS :: "bytes list" where
  "CAPSULE_FIELDS = [''format'', ''name'', ''image'', ''entrypoint'', ''env'', ''mounts'', ''network'', ''capsule_hash'']"

definition EVENT_FIELDS :: "bytes list" where
  "EVENT_FIELDS = [''event_id'', ''step_name'', ''causal_parents'', ''input_hash'', ''output_hash'', ''timestamp'', ''exit_code'',
     ''pipeline_hash'', ''environment_hash'', ''signer_public_key'', ''signature'', ''metadata'']"

definition proof_capsule :: "evidence_env \<Rightarrow> bytes \<Rightarrow> (evidence_error, capsule_manifest) result" where
  "proof_capsule env bs =
     and_then (ok_or (ee_yaml_value env bs) (Ev ''invalid YAML'')) (\<lambda>value.
     and_then (fields_allowed value CAPSULE_FIELDS) (\<lambda>_.
     and_then (fields_allowed (json_index ''mounts'' value) [''workspace'']) (\<lambda>_.
     ok_or (ee_capsule_of_value env value) (Ev ''invalid capsule manifest''))))"

definition proof_event :: "evidence_env \<Rightarrow> bytes \<Rightarrow> (evidence_error, causal_event) result" where
  "proof_event env bs =
     and_then (ok_or (ee_json_value env bs) (Ev ''invalid JSON'')) (\<lambda>value.
     and_then (fields_allowed value EVENT_FIELDS) (\<lambda>_.
     ok_or (ee_event_of_value env value) (Ev ''invalid causal event'')))"

definition proof_digest :: "bytes \<Rightarrow> (evidence_error, unit) result" where
  "proof_digest s = ensure (is_digest_text s) (Ev ''invalid proof reference digest'') (Inr ())"

fun proof_digests :: "bytes list \<Rightarrow> (evidence_error, unit) result" where
  "proof_digests [] = Inr ()"
| "proof_digests (h # hs) = and_then (proof_digest h) (\<lambda>_. proof_digests hs)"

text \<open>The \<open>BTreeSet\<close> of capsule hashes, in the order it is iterated.\<close>

definition capsule_hashes :: "receipt \<Rightarrow> (evidence_error, bytes list) result" where
  "capsule_hashes r =
     (let hashes = List.map_filter sr_capsule_hash (r_steps r) in
      and_then (proof_digests hashes) (\<lambda>_. Inr (sort (remdups hashes))))"

definition capsule_file :: "bytes \<Rightarrow> bytes" where "capsule_file h = ''capsules/'' @ h @ ''.yaml''"

fun event_paths :: "bytes list \<Rightarrow> bytes set \<Rightarrow> (evidence_error, bytes set) result" where
  "event_paths [] found = Inr found"
| "event_paths (i # is) found =
     and_then (proof_digest i) (\<lambda>_.
     ensure (event_path i \<notin> found) (Ev ''duplicate causal reference'') (
     event_paths is (insert (event_path i) found)))"

definition proof_paths :: "receipt \<Rightarrow> (evidence_error, bytes set) result" where
  "proof_paths r =
     and_then (capsule_hashes r) (\<lambda>hashes.
     event_paths (r_causal_events r) (capsule_file ` set hashes))"

text \<open>Both loops of \<open>collect\<close> bound the sum of the files by half of what an archive may expand to.\<close>

definition payload :: "bytes btree \<Rightarrow> nat" where "payload files = sum_list (map (length \<circ> snd) files)"

definition within_payload :: "bytes btree \<Rightarrow> bool" where
  "within_payload files \<longleftrightarrow> payload files \<le> al_decompressed default_limits div 2"

fun collect_capsules ::
  "evidence_env \<Rightarrow> bytes list \<Rightarrow> bytes option list \<Rightarrow> bytes btree \<Rightarrow> (evidence_error, bytes btree) result" where
  "collect_capsules env expected [] files = Inr files"
| "collect_capsules env expected (file # rest) files =
     and_then (map_err EvRead (read_bounded (al_entry default_limits) file)) (\<lambda>bs.
     and_then (proof_capsule env bs) (\<lambda>m.
     and_then (map_err EvCapsule (manifest_validate m)) (\<lambda>_.
     let hash = compute_hash (ve_capsule (ee_verify env)) m in
     ensure (cm_capsule_hash m = Some hash) (Ev (''capsule'' @ [CHR 0x27] @ ''s stored hash differs from its content'')) (
     ensure (hash \<in> set expected) (Ev ''capsule is not referenced by this receipt'') (
     ensure (\<not> contains_key files (capsule_file hash)) (Ev ''duplicate capsule proof'') (
     let files = btree_insert (capsule_file hash) bs files in
     ensure (within_payload files) (Ev ''proof payload exceeds 256 MiB'') (
     collect_capsules env expected rest files)))))))"

definition ledger_artifact :: "bytes \<Rightarrow> artifact_info" where
  "ledger_artifact i = \<lparr>artifact_step = [], artifact_path = ''.attest/causal_ledger/events/'' @ i @ ''.json'',
     artifact_kind = ''file'', artifact_digest = [], artifact_algorithm = ''blake3''\<rparr>"

fun collect_events ::
  "evidence_env \<Rightarrow> fs \<Rightarrow> path \<Rightarrow> bytes list \<Rightarrow> bytes btree \<Rightarrow> (evidence_error, bytes btree) result" where
  "collect_events env f workspace [] files = Inr files"
| "collect_events env f workspace (i # is) files =
     and_then (proof_digest i) (\<lambda>_.
     and_then
       (case artifact_bytes f workspace (ledger_artifact i) of
          Inr bs \<Rightarrow>
            and_then (proof_event env bs) (\<lambda>e.
            Inr (btree_insert (event_path i) (ee_event_json env (e\<lparr>metadata := Map.empty\<rparr>)) files))
        | Inl (NoSuchArtifact _) \<Rightarrow> Inr files
        | Inl e \<Rightarrow> Inl e) (\<lambda>files.
     ensure (within_payload files) (Ev ''proof payload exceeds 256 MiB'') (
     collect_events env f workspace is files)))"

definition collect_proofs ::
  "evidence_env \<Rightarrow> receipt \<Rightarrow> fs \<Rightarrow> path \<Rightarrow> bytes option list \<Rightarrow> (evidence_error, bytes btree) result" where
  "collect_proofs env r f workspace capsules =
     and_then (capsule_hashes r) (\<lambda>expected.
     and_then (collect_capsules env expected capsules []) (\<lambda>files.
     and_then (collect_events env f workspace (r_causal_events r) files) (\<lambda>files.
     and_then (proof_paths r) (\<lambda>_. Inr files))))"

definition proof_result :: "bytes \<Rightarrow> (evidence_error, bytes option) result \<Rightarrow> check" where
  "proof_result name checked =
     (case checked of
        Inr None \<Rightarrow> mk_check name Pass (Note ''all referenced proofs are present and bound to the signed receipt'')
      | Inr (Some d) \<Rightarrow> mk_check name Skipped (Note d)
      | Inl e \<Rightarrow> mk_check name Fail (Note (evidence_message e)))"

fun assess_capsule_files ::
  "evidence_env \<Rightarrow> (bytes \<rightharpoonup> bytes) \<Rightarrow> bytes list \<Rightarrow> bytes list \<Rightarrow> (evidence_error, bytes list) result" where
  "assess_capsule_files env files [] missing = Inr missing"
| "assess_capsule_files env files (h # hs) missing =
     (case files (capsule_file h) of
        None \<Rightarrow> assess_capsule_files env files hs (missing @ [h])
      | Some bs \<Rightarrow>
          and_then (proof_capsule env bs) (\<lambda>m.
          and_then (map_err EvCapsule (manifest_validate m)) (\<lambda>_.
          ensure (compute_hash (ve_capsule (ee_verify env)) m = h \<and> cm_capsule_hash m = Some h)
            (Ev ''capsule manifest does not match signed capsule hash'') (
          assess_capsule_files env files hs missing))))"

definition assess_capsules :: "evidence_env \<Rightarrow> receipt \<Rightarrow> (bytes \<rightharpoonup> bytes) \<Rightarrow> (evidence_error, bytes option) result" where
  "assess_capsules env r files =
     and_then (capsule_hashes r) (\<lambda>hashes.
     and_then (assess_capsule_files env files hashes []) (\<lambda>missing.
     Inr (if missing = [] then None
          else Some (''incomplete capsule evidence; missing manifests: '' @ comma missing))))"

fun assess_event_files ::
  "evidence_env \<Rightarrow> bytes set \<Rightarrow> (bytes \<rightharpoonup> bytes) \<Rightarrow> bytes list \<Rightarrow> (bytes \<rightharpoonup> causal_event) \<Rightarrow> bytes list
    \<Rightarrow> (evidence_error, (bytes \<rightharpoonup> causal_event) \<times> bytes list) result" where
  "assess_event_files env expected files [] events missing = Inr (events, missing)"
| "assess_event_files env expected files (i # is) events missing =
     and_then (proof_digest i) (\<lambda>_.
     (case files (event_path i) of
        None \<Rightarrow> assess_event_files env expected files is events (missing @ [i])
      | Some bs \<Rightarrow>
          and_then (proof_event env bs) (\<lambda>e.
          ensure (metadata e = Map.empty) (Ev ''causal proof contains unauthenticated metadata'') (
          ensure (event_id e = i) (Ev ''causal entry name differs from event identity'') (
          ensure (event_id_is_authentic (le_blake3 (av_ledger (ee_archive env))) (le_rfc3339 (av_ledger (ee_archive env))) e)
            (Ev ''causal event content differs from its identity'') (
          ensure (event_signature_holds (le_ed (av_ledger (ee_archive env))) (le_signing_json (av_ledger (ee_archive env)))
              (le_rfc3339 (av_ledger (ee_archive env))) e \<noteq> Some False) (Ev ''invalid causal event signature'') (
          ensure (list_all (\<lambda>p. p \<in> expected) (causal_parents e)) (Ev ''causal event refers to an unrecorded parent'') (
          assess_event_files env expected files is (events(i \<mapsto> e)) missing))))))))"

definition assess_causal :: "evidence_env \<Rightarrow> receipt \<Rightarrow> (bytes \<rightharpoonup> bytes) \<Rightarrow> (evidence_error, bytes option) result" where
  "assess_causal env r files =
     ensure (distinct (r_causal_events r)) (Ev ''duplicate causal references'') (
     if r_causal_events r = [] then
       ensure (r_causal_chain_hash r = None) (Ev ''causal chain root has no event references'') (Inr None)
     else
       and_then (assess_event_files env (set (r_causal_events r)) files (r_causal_events r) Map.empty []) (\<lambda>(events, missing).
       if missing \<noteq> [] then Inr (Some (''incomplete causal evidence; missing events: '' @ comma missing))
       else
         let checked = chain_linkage (av_ledger (ee_archive env)) r events False in
         ensure (check_status checked = Pass) (Ev ''causal chain is not linked'') (Inr None)))"

definition assess_proofs :: "evidence_env \<Rightarrow> receipt \<Rightarrow> (bytes \<rightharpoonup> bytes) \<Rightarrow> check list" where
  "assess_proofs env r files =
     [proof_result ''capsule'' (assess_capsules env r files), proof_result ''chain-linkage'' (assess_causal env r files)]"

section \<open>Packing\<close>

fun pack_artifacts ::
  "evidence_env \<Rightarrow> fs \<Rightarrow> path \<Rightarrow> artifact_info list \<Rightarrow> nat \<Rightarrow> bytes btree \<Rightarrow> (evidence_error, bytes btree) result" where
  "pack_artifacts env f workspace [] sz files = Inr files"
| "pack_artifacts env f workspace (a # as) sz files =
     and_then (artifact_bytes f workspace a) (\<lambda>bs.
     and_then (check_digest (ee_blake3 env) a bs) (\<lambda>_.
     let path = ''artifacts/'' @ artifact_path a in
     (case map_of files path of
        Some previous \<Rightarrow>
          ensure (previous = bs) (Ev (''steps disagree on artifact '' @ artifact_path a)) (
          pack_artifacts env f workspace as sz files)
      | None \<Rightarrow>
          let sz = sz + length bs in
          ensure (sz \<le> al_decompressed default_limits div 2) (Ev ''evidence payload exceeds 256 MiB'') (
          pack_artifacts env f workspace as sz (btree_insert path bs files)))))"

definition pack_publication ::
  "evidence_env \<Rightarrow> receipt \<Rightarrow> bytes option option \<Rightarrow> bytes option option \<Rightarrow> bytes btree \<Rightarrow> (evidence_error, bytes btree) result" where
  "pack_publication env r publication comparison files =
     (case publication of
        None \<Rightarrow> Inr files
      | Some file \<Rightarrow>
          and_then (map_err EvRead (read_bounded MAX_RECORD_BYTES file)) (\<lambda>bs.
          and_then (map_err Ev (decode_record (ee_record env) bs)) (\<lambda>rec.
          and_then (ok_or (r_causal_chain_hash r) (Ev ''receipt has no causal root'')) (\<lambda>root.
          and_then (map_err Ev (record_entry_bytes (ne_sha256 (ee_record env)) rec root)) (\<lambda>_.
          let files = btree_insert ''publication.json'' bs files in
          (case comparison of
             None \<Rightarrow> Inr files
           | Some file \<Rightarrow>
               and_then (map_err EvRead (read_bounded MAX_COMPARISON_BYTES file)) (\<lambda>bs.
               and_then (map_err Ev (decode_comparison (ee_record env) bs)) (\<lambda>parsed.
               ensure (cc_format parsed = COMPARISON_FORMAT) (Ev ''unsupported checkpoint comparison format'') (
               Inr (btree_insert ''log-consistency.json'' bs files))))))))))"

definition pack_identity ::
  "bytes option option \<Rightarrow> bytes btree \<Rightarrow> (evidence_error, bytes btree) result" where
  "pack_identity identity_bundle files =
     (case identity_bundle of
        None \<Rightarrow> Inr files
      | Some file \<Rightarrow>
          and_then (map_err EvRead (read_bounded MAX_IDENTITY_BYTES file)) (\<lambda>bs.
          Inr (btree_insert ''identity.sigstore.json'' bs files)))"

text \<open>The files of the archive, before they are written.\<close>

definition pack_files ::
  "evidence_env \<Rightarrow> bytes option \<Rightarrow> fs \<Rightarrow> path \<Rightarrow> bytes option option \<Rightarrow> bytes option list \<Rightarrow> bytes option option
    \<Rightarrow> bytes option option \<Rightarrow> (evidence_error, bytes btree) result" where
  "pack_files env receipt_file f workspace identity_bundle capsules publication comparison =
     ensure (comparison = None \<or> publication \<noteq> None) (Ev ''checkpoint comparison needs publication evidence'') (
     and_then (map_err EvRead (read_bounded MAX_RECEIPT_BYTES receipt_file)) (\<lambda>bs.
     and_then (ok_or (ve_receipt_of_yaml (ee_verify env) bs) (Ev ''invalid receipt'')) (\<lambda>r.
     ensure ((case r_schema_version r of Some v \<Rightarrow> v | None \<Rightarrow> 1) \<le> RECEIPT_SCHEMA_VERSION) (Ev ''unsupported receipt schema'') (
     and_then (ok_or (r_signer_public_key r) (Ev ''evidence needs a signed receipt'')) (\<lambda>key.
     and_then (ok_or (r_signature r) (Ev ''evidence needs a signed receipt'')) (\<lambda>sig.
     and_then (map_err EvSign (verify_with_public_key (ke_ed (ve_keys (ee_verify env))) key
       (receipt_signing_bytes (ve_receipt_json (ee_verify env)) r) sig)) (\<lambda>valid.
     ensure valid (Ev ''invalid receipt signature'') (
     and_then (inventory (ee_blake3 env) r) (\<lambda>_.
     and_then (collect_proofs env r f workspace capsules) (\<lambda>files.
     and_then (pack_publication env r publication comparison files) (\<lambda>files.
     and_then (receipt_artifacts r) (\<lambda>as.
     and_then (pack_artifacts env f workspace as (length bs + payload files) files) (\<lambda>files.
     let fmt = (if publication \<noteq> None then EVIDENCE_PUBLICATION_FORMAT else EVIDENCE_FORMAT);
         files = btree_insert ''manifest.json'' (ee_format_json env fmt) (btree_insert ''receipt.yaml'' bs files) in
     and_then (pack_identity identity_bundle files) (\<lambda>files.
     ensure (length files \<le> al_entries default_limits) (Ev ''too many evidence entries'') (Inr files)))))))))))))))"

text \<open>The archive made visible at the destination.\<close>

definition pack_with_publication ::
  "evidence_env \<Rightarrow> bytes option \<Rightarrow> fs \<Rightarrow> path \<Rightarrow> bytes option option \<Rightarrow> bytes option list \<Rightarrow> bytes option option
    \<Rightarrow> bytes option option \<Rightarrow> (evidence_error, bytes) result" where
  "pack_with_publication env receipt_file f workspace identity_bundle capsules publication comparison =
     and_then (pack_files env receipt_file f workspace identity_bundle capsules publication comparison) (\<lambda>files.
     let staged = write_archive (ee_archive env) (map (\<lambda>(p, bs). \<lparr>ae_path = p, ae_bytes = bs\<rparr>) files) in
     and_then (map_err EvArchive (read_archive (ee_archive env) (Some staged))) (\<lambda>_. Inr staged))"

definition pack_with_capsules ::
  "evidence_env \<Rightarrow> bytes option \<Rightarrow> fs \<Rightarrow> path \<Rightarrow> bytes option option \<Rightarrow> bytes option list \<Rightarrow> (evidence_error, bytes) result" where
  "pack_with_capsules env receipt_file f workspace identity_bundle capsules =
     pack_with_publication env receipt_file f workspace identity_bundle capsules None None"

definition pack ::
  "evidence_env \<Rightarrow> bytes option \<Rightarrow> fs \<Rightarrow> path \<Rightarrow> bytes option option \<Rightarrow> (evidence_error, bytes) result" where
  "pack env receipt_file f workspace identity_bundle = pack_with_capsules env receipt_file f workspace identity_bundle []"

section \<open>Verifying\<close>

definition evidence_default_policy :: "requirement list" where
  "evidence_default_policy = [ReqSignature, ReqSuccess, ReqArtifacts, ReqCapsule, ReqLinkage]"

fun require_all :: "requirement list \<Rightarrow> requirement list \<Rightarrow> requirement list" where
  "require_all required [] = required"
| "require_all required (q # qs) = require_all (if q \<in> set required then required else required @ [q]) qs"

definition effective_policy :: "requirement list \<Rightarrow> bool \<Rightarrow> requirement list" where
  "effective_policy policy identity =
     (let required = require_all policy [ReqSignature, ReqSuccess, ReqArtifacts] in
      if identity \<and> ReqIdentity \<notin> set required then required @ [ReqIdentity] else required)"

definition evidence_options :: "requirement list \<Rightarrow> verify_options" where
  "evidence_options required = \<lparr>check_signatures = True, opt_recompute = False, trust_receipt_timestamp = False,
     opt_policy = required\<rparr>"

text \<open>The artifact loop of the check: every artifact is in the archive, and in the artifact root if there is one; it
  returns the paths accounted for.\<close>

fun verify_artifacts ::
  "evidence_env \<Rightarrow> (fs \<times> path) option \<Rightarrow> (bytes \<rightharpoonup> bytes) \<Rightarrow> artifact_info list \<Rightarrow> bytes set \<Rightarrow> (evidence_error, bytes set) result" where
  "verify_artifacts env root files [] expected = Inr expected"
| "verify_artifacts env root files (a # as) expected =
     (let path = ''artifacts/'' @ artifact_path a in
      and_then (ok_or (files path) (Ev (''missing artifact '' @ artifact_path a))) (\<lambda>bs.
      and_then (check_digest (ee_blake3 env) a bs) (\<lambda>_.
      and_then
        (case root of
           Some (f, root) \<Rightarrow> and_then (artifact_bytes f root a) (\<lambda>bs. check_digest (ee_blake3 env) a bs)
         | None \<Rightarrow> Inr ()) (\<lambda>_.
      verify_artifacts env root files as (insert path expected)))))"

definition evidence_checked ::
  "evidence_env \<Rightarrow> bytes \<Rightarrow> bytes \<Rightarrow> archive_entry list \<Rightarrow> (bytes \<rightharpoonup> bytes) \<Rightarrow> (fs \<times> path) option \<Rightarrow> (evidence_error, unit) result" where
  "evidence_checked env fmt receipt_bytes entries files root =
     and_then (ok_or (ve_receipt_of_yaml (ee_verify env) receipt_bytes) (Ev ''invalid receipt'')) (\<lambda>r.
     and_then (inventory (ee_blake3 env) r) (\<lambda>_.
     ensure (fmt = EVIDENCE_PUBLICATION_FORMAT \<longrightarrow> files ''publication.json'' \<noteq> None) (Ev ''v3 evidence is missing publication.json'') (
     let expected = {''manifest.json'', ''receipt.yaml''} \<union>
           (if fmt = EVIDENCE_PUBLICATION_FORMAT then
              insert ''publication.json'' (if files ''log-consistency.json'' \<noteq> None then {''log-consistency.json''} else {})
            else {}) \<union>
           (if files ''identity.sigstore.json'' \<noteq> None then {''identity.sigstore.json''} else {}) in
     and_then (proof_paths r) (\<lambda>paths.
     and_then (receipt_artifacts r) (\<lambda>as.
     and_then (verify_artifacts env root files as (expected \<union> paths)) (\<lambda>expected.
     ensure (list_all (\<lambda>e. ae_path e \<in> expected) entries) (Ev ''archive contains unaccounted files'') (Inr ())))))))"

record evidence_verdict =
  ev_verdict :: receipt_verdict
  ev_identity :: identity_outcome

definition artifacts_check :: "(evidence_error, unit) result \<Rightarrow> check" where
  "artifacts_check checked =
     (case checked of
        Inr _ \<Rightarrow> mk_check ''artifacts'' Pass (Note ''all artifact bytes match the signed output manifests'')
      | Inl e \<Rightarrow> mk_check ''artifacts'' Fail (Note (evidence_message e)))"

definition evidence_identity ::
  "evidence_env \<Rightarrow> (bytes \<rightharpoonup> bytes) \<Rightarrow> bytes \<Rightarrow> (bytes \<rightharpoonup> bytes) \<Rightarrow> identity_policy \<Rightarrow> (evidence_error, identity_verification) result" where
  "evidence_identity env files receipt_bytes roots p =
     and_then (ok_or (files ''identity.sigstore.json'') (Ev ''required workflow identity evidence is missing'')) (\<lambda>b.
     ensure (length b \<le> MAX_IDENTITY_BYTES) (Ev ''identity bundle exceeds size limit'') (
     map_err EvIdentity (verify_receipt_identity (ee_identity env) (Some receipt_bytes) (Some b) roots p)))"

definition identity_check :: "(evidence_error, identity_verification) result option \<Rightarrow> check" where
  "identity_check checked =
     (case checked of
        Some (Inr _) \<Rightarrow> mk_check ''identity'' Pass
          (Note ''workflow issuer, repository, workflow and revision match recipient policy'')
      | Some (Inl e) \<Rightarrow> mk_check ''identity'' Fail (Note (evidence_message e))
      | None \<Rightarrow> mk_check ''identity'' Skipped (Note ''no workflow identity policy supplied by recipient''))"

definition log_checks ::
  "evidence_env \<Rightarrow> bytes \<Rightarrow> bytes \<Rightarrow> (bytes \<rightharpoonup> bytes) \<Rightarrow> requirement list \<Rightarrow> verification_material \<Rightarrow> check list" where
  "log_checks env fmt receipt_bytes files required material =
     (let log_requested = list_ex (\<lambda>q. q = ReqLogInclusion \<or> q = ReqLogConsistency) required in
      if fmt = EVIDENCE_PUBLICATION_FORMAT \<or> log_requested \<or> vm_trust material \<noteq> None \<or>
        vm_reference material \<noteq> None \<or> vm_comparison material \<noteq> None
      then
        assess (ee_record env) (Option.bind (ve_receipt_of_yaml (ee_verify env) receipt_bytes) r_causal_chain_hash)
          (if fmt = EVIDENCE_PUBLICATION_FORMAT then files ''publication.json'' else None)
          (material\<lparr>vm_comparison := (case vm_comparison material of Some c \<Rightarrow> Some c | None \<Rightarrow> files ''log-consistency.json'')\<rparr>)
      else [])"

text \<open>\<open>roots\<close> holds the files the recipient's identity policy may name.\<close>

definition verify_with_policy_and_log ::
  "evidence_env \<Rightarrow> world \<Rightarrow> int \<Rightarrow> bytes \<Rightarrow> bytes option \<Rightarrow> identity_policy option \<Rightarrow> (bytes \<rightharpoonup> bytes) \<Rightarrow> (fs \<times> path) option
    \<Rightarrow> requirement list \<Rightarrow> verification_material \<Rightarrow> (evidence_error, evidence_verdict) result" where
  "verify_with_policy_and_log env w now name archive identity_policy roots artifact_root policy material =
     and_then (map_err EvArchive (read_archive (ee_archive env) archive)) (\<lambda>entries.
     let files = map_of (rev (map (\<lambda>e. (ae_path e, ae_bytes e)) entries)) in
     and_then (ok_or (files ''manifest.json'') (Ev ''missing evidence manifest'')) (\<lambda>manifest.
     and_then (ok_or (ee_format_of_json env manifest) (Ev ''invalid evidence manifest'')) (\<lambda>fmt.
     ensure (fmt = EVIDENCE_FORMAT \<or> fmt = ''attest-evidence/v1'' \<or> fmt = EVIDENCE_PUBLICATION_FORMAT)
       (Ev (''unsupported evidence format '' @ fmt)) (
     and_then (ok_or (files ''receipt.yaml'') (Ev ''missing receipt.yaml'')) (\<lambda>receipt_bytes.
     ensure (length receipt_bytes \<le> MAX_RECEIPT_BYTES) (Ev ''receipt exceeds size limit'') (
     let required = effective_policy policy (identity_policy \<noteq> None) in
     and_then (map_err EvVerify (verify_receipt_bytes (ee_verify env) w now receipt_bytes name (evidence_options required))) (\<lambda>v.
     let checked = evidence_checked env fmt receipt_bytes entries files artifact_root;
         proofs = (case ve_receipt_of_yaml (ee_verify env) receipt_bytes of Some r \<Rightarrow> assess_proofs env r files | None \<Rightarrow> []);
         identified = map_option (evidence_identity env files receipt_bytes roots) identity_policy;
         verified = (case identified of Some (Inr iv) \<Rightarrow> Some iv | _ \<Rightarrow> None);
         v = v\<lparr>v_checks := v_checks v @ [artifacts_check checked] @ proofs @ [identity_check identified] @
                log_checks env fmt receipt_bytes files required material\<rparr>
     in Inr \<lparr>ev_verdict = apply_policy required v,
             ev_identity = \<lparr>io_required = identity_policy, io_verified = verified,
               io_principals = \<lparr>evidence_producer = v_signed_by v, workflow_principal = map_option iv_workflow verified,
                 artifact_signer = None\<rparr>\<rparr>\<rparr>)))))))"

definition no_log_material :: verification_material where
  "no_log_material = \<lparr>vm_trust = None, vm_reference = None, vm_comparison = None\<rparr>"

definition verify_with_policy ::
  "evidence_env \<Rightarrow> world \<Rightarrow> int \<Rightarrow> bytes \<Rightarrow> bytes option \<Rightarrow> identity_policy option \<Rightarrow> (bytes \<rightharpoonup> bytes) \<Rightarrow> (fs \<times> path) option
    \<Rightarrow> requirement list \<Rightarrow> (evidence_error, evidence_verdict) result" where
  "verify_with_policy env w now name archive identity_policy roots artifact_root policy =
     verify_with_policy_and_log env w now name archive identity_policy roots artifact_root policy no_log_material"

definition evidence_verify ::
  "evidence_env \<Rightarrow> world \<Rightarrow> int \<Rightarrow> bytes \<Rightarrow> bytes option \<Rightarrow> identity_policy option \<Rightarrow> (bytes \<rightharpoonup> bytes) \<Rightarrow> (fs \<times> path) option
    \<Rightarrow> (evidence_error, evidence_verdict) result" where
  "evidence_verify env w now name archive identity_policy roots artifact_root =
     verify_with_policy env w now name archive identity_policy roots artifact_root evidence_default_policy"

section \<open>Properties\<close>

subsection \<open>The inventory\<close>

text \<open>What an inventory says of a step: its artifacts in the order of their paths.\<close>

definition listed_artifacts :: "receipt \<Rightarrow> artifact_info list" where
  "listed_artifacts r = (case r_provenance r of Some p \<Rightarrow> ep_artifacts p | None \<Rightarrow> [])"

definition step_entries :: "artifact_info list \<Rightarrow> bytes \<Rightarrow> artifact_info btree" where
  "step_entries as n = map (\<lambda>a. (artifact_path a, a)) (sort_key artifact_path (filter (\<lambda>a. artifact_step a = n) as))"

definition artifact_sound :: "artifact_info \<Rightarrow> bool" where
  "artifact_sound a \<longleftrightarrow> safe_path (artifact_path a) \<and> artifact_algorithm a = ''blake3'' \<and>
     (artifact_kind a = ''file'' \<or> artifact_kind a = ''symlink'') \<and> is_digest_text (artifact_digest a)"

definition artifact_key :: "artifact_info \<Rightarrow> bytes \<times> bytes" where
  "artifact_key a = (artifact_step a, artifact_path a)"

lemma set_btree_insert_new: "\<not> contains_key m k \<Longrightarrow> set (btree_insert k v m) = insert (k, v) (set m)"
  by (induction m) (auto simp: contains_key_def split: if_splits)

lemma contains_key_set: "contains_key m k \<longleftrightarrow> k \<in> fst ` set m"
  by (simp add: contains_key_def map_of_eq_None_iff)

lemma inventory_artifacts_iff:
  "(\<exists>ms'. inventory_artifacts names as ms = Inr ms') \<longleftrightarrow>
     list_all artifact_sound as \<and> artifact_step ` set as \<subseteq> names \<and> distinct (map artifact_key as) \<and>
     (\<forall>a\<in>set as. artifact_path a \<notin> fst ` set (ms (artifact_step a)))"
proof (induction as arbitrary: ms)
  case (Cons a as)
  let ?ms = "ms(artifact_step a := btree_insert (artifact_path a) a (ms (artifact_step a)))"
  have keys: "fst ` set (?ms n) = fst ` set (ms n) \<union> (if n = artifact_step a then {artifact_path a} else {})" for n
    using keys_btree_insert [of "artifact_path a" a "ms (artifact_step a)"] by auto
  have step: "(\<exists>ms'. inventory_artifacts names (a # as) ms = Inr ms') \<longleftrightarrow> artifact_sound a \<and> artifact_step a \<in> names \<and>
      artifact_path a \<notin> fst ` set (ms (artifact_step a)) \<and> (\<exists>ms'. inventory_artifacts names as ?ms = Inr ms')"
    by (simp only: inventory_artifacts.simps result_simps contains_key_set artifact_sound_def) blast
  have fresh: "(\<forall>x\<in>set as. artifact_path x \<notin> fst ` set (?ms (artifact_step x))) \<longleftrightarrow>
      (\<forall>x\<in>set as. artifact_path x \<notin> fst ` set (ms (artifact_step x))) \<and> artifact_key a \<notin> artifact_key ` set as"
  proof -
    have "artifact_path x \<notin> fst ` set (?ms (artifact_step x)) \<longleftrightarrow>
        artifact_path x \<notin> fst ` set (ms (artifact_step x)) \<and> artifact_key a \<noteq> artifact_key x" for x
      unfolding keys artifact_key_def by (cases "artifact_step x = artifact_step a") fastforce+
    then show ?thesis by (simp only: image_iff) blast
  qed
  show ?case unfolding step Cons.IH fresh by (simp add: list_all_iff) blast
qed simp

lemma inventory_artifacts_result:
  assumes "inventory_artifacts names as ms = Inr ms'" "\<And>n. btree_ok (ms n)"
  shows "btree_ok (ms' n) \<and> set (ms' n) = set (ms n) \<union> (\<lambda>a. (artifact_path a, a)) ` {a \<in> set as. artifact_step a = n}"
  using assms
proof (induction as arbitrary: ms)
  case (Cons a as)
  let ?ms = "ms(artifact_step a := btree_insert (artifact_path a) a (ms (artifact_step a)))"
  have new: "\<not> contains_key (ms (artifact_step a)) (artifact_path a)" and rest: "inventory_artifacts names as ?ms = Inr ms'"
    using Cons.prems(1) by (simp_all add: result_simps)
  have "btree_ok (?ms m)" for m using Cons.prems(2) by (simp add: btree_ok_insert)
  from Cons.IH [OF rest this] show ?case by (auto simp: set_btree_insert_new [OF new])
qed simp

lemma step_entries_unique:
  assumes "btree_ok m" "set m = (\<lambda>a. (artifact_path a, a)) ` {a \<in> set as. artifact_step a = n}" "distinct (map artifact_key as)"
  shows "m = step_entries as n"
proof -
  let ?xs = "filter (\<lambda>a. artifact_step a = n) as"
  have d: "distinct (map artifact_path ?xs)"
    using assms(3) by (simp add: distinct_map inj_on_def artifact_key_def)
  have e: "map fst (step_entries as n) = map artifact_path (sort_key artifact_path ?xs)"
    by (simp add: step_entries_def)
  have "set m = set (step_entries as n)" using assms(2) by (auto simp: step_entries_def)
  moreover have "inj_on fst (set m \<union> set (step_entries as n))"
  proof -
    have "distinct (map fst (step_entries as n))" using d unfolding e by (simp add: distinct_map)
    then have "inj_on fst (set (step_entries as n))" by (simp add: distinct_map)
    then show ?thesis using \<open>set m = set (step_entries as n)\<close> by simp
  qed
  moreover have "sorted (map fst m)" "distinct (map fst m)"
    using assms(1) by (simp_all add: btree_ok_def strict_sorted_iff)
  moreover have "sorted (map fst (step_entries as n))" "distinct (map fst (step_entries as n))"
    using d unfolding e by (simp_all add: distinct_map)
  ultimately show ?thesis by (intro map_sorted_distinct_set_unique)
qed

lemma check_outputs_iff:
  "check_outputs blake3 ms ss = Inr () \<longleftrightarrow> (\<forall>s\<in>set ss. to_hex (blake3 (artifact_manifest (ms (sr_name s)))) = sr_output_hash s)"
  by (induction ss) (auto simp: result_simps)

definition inventory_holds :: "(bytes \<Rightarrow> digest) \<Rightarrow> receipt \<Rightarrow> bool" where
  "inventory_holds blake3 r \<longleftrightarrow> distinct (map sr_name (r_steps r)) \<and> listed_artifacts r \<noteq> [] \<and>
     list_all artifact_sound (listed_artifacts r) \<and> artifact_step ` set (listed_artifacts r) \<subseteq> sr_name ` set (r_steps r) \<and>
     distinct (map artifact_key (listed_artifacts r)) \<and>
     (\<forall>s\<in>set (r_steps r). to_hex (blake3 (artifact_manifest (step_entries (listed_artifacts r) (sr_name s)))) = sr_output_hash s)"

lemma inventory_iff: "inventory blake3 r = Inr () \<longleftrightarrow> inventory_holds blake3 r"
proof (cases "r_provenance r")
  case None
  then show ?thesis by (simp add: inventory_def receipt_artifacts_def inventory_holds_def listed_artifacts_def result_simps)
next
  case (Some p)
  let ?as = "ep_artifacts p"
  have as: "listed_artifacts r = ?as" using Some by (simp add: listed_artifacts_def)
  show ?thesis
  proof (cases "\<exists>ms. inventory_artifacts (set (map sr_name (r_steps r))) ?as (\<lambda>_. []) = Inr ms")
    case True
    then obtain ms where ms: "inventory_artifacts (set (map sr_name (r_steps r))) ?as (\<lambda>_. []) = Inr ms" by blast
    have ok: "list_all artifact_sound ?as" "artifact_step ` set ?as \<subseteq> sr_name ` set (r_steps r)" "distinct (map artifact_key ?as)"
      using True inventory_artifacts_iff [of "set (map sr_name (r_steps r))" ?as "\<lambda>_. []"] by auto
    have "ms n = step_entries ?as n" for n
      using inventory_artifacts_result [OF ms, of n] ok(3) by (intro step_entries_unique) (simp_all add: btree_ok_def)
    then show ?thesis
      using Some ms ok by (simp add: inventory_def receipt_artifacts_def inventory_holds_def as result_simps check_outputs_iff)
  next
    case False
    then show ?thesis
      using Some inventory_artifacts_iff [of "set (map sr_name (r_steps r))" ?as "\<lambda>_. []"]
      by (auto simp: inventory_def receipt_artifacts_def inventory_holds_def as result_simps)
  qed
qed

subsection \<open>What is delivered\<close>

definition artifact_line :: "artifact_info \<Rightarrow> bytes" where
  "artifact_line a = (if artifact_kind a = ''file'' then ''f:'' else ''l:'') @ artifact_digest a"

lemma artifact_manifest_entries:
  "artifact_manifest m = MANIFEST_HEADER @ [CHR 0x0A] @ concat (map entry_bytes (map (\<lambda>(p, a). (p, artifact_line a)) m))"
proof -
  have "foldl (\<lambda>m (p, a). push_entry m (artifact_line a) p) start m = start @ concat (map entry_bytes (map (\<lambda>(p, a). (p, artifact_line a)) m))" for start
    by (induction m arbitrary: start) (auto simp: push_entry_def entry_bytes_def)
  then show ?thesis by (simp add: artifact_manifest_def artifact_line_def)
qed

lemma artifact_entry_ok: "artifact_sound a \<Longrightarrow> entry_ok (artifact_path a, artifact_line a)"
  by (auto simp: artifact_sound_def entry_ok_def artifact_line_def is_digest_text_def safe_path_def list_ex_iff)

lemma artifact_manifest_inject:
  assumes "artifact_manifest (step_entries as n) = artifact_manifest (step_entries as' n')"
    and "list_all artifact_sound as" "list_all artifact_sound as'"
  shows "map (\<lambda>(p, a). (p, artifact_line a)) (step_entries as n) = map (\<lambda>(p, a). (p, artifact_line a)) (step_entries as' n')"
proof -
  have "list_all entry_ok (map (\<lambda>(p, a). (p, artifact_line a)) (step_entries xs m))" if "list_all artifact_sound xs" for xs m
    using that by (auto simp: list_all_iff step_entries_def artifact_entry_ok)
  then show ?thesis using assms unfolding artifact_manifest_entries by (intro entry.concat_map_inject) simp_all
qed

definition delivered :: "evidence_env \<Rightarrow> (fs \<times> path) option \<Rightarrow> (bytes \<rightharpoonup> bytes) \<Rightarrow> artifact_info \<Rightarrow> bool" where
  "delivered env root files a \<longleftrightarrow>
     (\<exists>bs. files (''artifacts/'' @ artifact_path a) = Some bs \<and> to_hex (ee_blake3 env bs) = artifact_digest a) \<and>
     (\<forall>f dir. root = Some (f, dir) \<longrightarrow>
        (\<exists>bs. artifact_bytes f dir a = Inr bs \<and> to_hex (ee_blake3 env bs) = artifact_digest a))"

lemma verify_artifacts_iff:
  "verify_artifacts env root files as expected = Inr expected' \<longleftrightarrow>
     (\<forall>a\<in>set as. delivered env root files a) \<and> expected' = expected \<union> (\<lambda>a. ''artifacts/'' @ artifact_path a) ` set as"
proof (induction as arbitrary: expected)
  case (Cons a as)
  have "verify_artifacts env root files (a # as) expected = Inr expected' \<longleftrightarrow> delivered env root files a \<and>
      verify_artifacts env root files as (insert (''artifacts/'' @ artifact_path a) expected) = Inr expected'"
    by (cases root) (auto simp: delivered_def Let_def result_simps check_digest_def)
  then show ?case unfolding Cons.IH by auto
qed auto

text \<open>The paths an archive of a receipt may hold.\<close>

definition accounted :: "bytes \<Rightarrow> receipt \<Rightarrow> bytes set" where
  "accounted fmt r = {''manifest.json'', ''receipt.yaml'', ''identity.sigstore.json''} \<union>
     (if fmt = EVIDENCE_PUBLICATION_FORMAT then {''publication.json'', ''log-consistency.json''} else {}) \<union>
     capsule_file ` set (List.map_filter sr_capsule_hash (r_steps r)) \<union> event_path ` set (r_causal_events r) \<union>
     (\<lambda>a. ''artifacts/'' @ artifact_path a) ` set (listed_artifacts r)"

lemma event_paths_result: "event_paths is found = Inr paths \<Longrightarrow> paths = found \<union> event_path ` set is"
  by (induction "is" arbitrary: found) (auto simp: result_simps)

lemma proof_paths_result:
  "proof_paths r = Inr paths \<Longrightarrow> paths = capsule_file ` set (List.map_filter sr_capsule_hash (r_steps r)) \<union> event_path ` set (r_causal_events r)"
  by (auto simp: proof_paths_def capsule_hashes_def result_simps Let_def dest!: event_paths_result)

lemma evidence_checked_sound:
  assumes "evidence_checked env fmt receipt_bytes entries files root = Inr ()"
  shows "\<exists>r. ve_receipt_of_yaml (ee_verify env) receipt_bytes = Some r \<and> inventory_holds (ee_blake3 env) r \<and>
    (\<forall>a\<in>set (listed_artifacts r). delivered env root files a) \<and> ae_path ` set entries \<subseteq> accounted fmt r \<and>
    (fmt = EVIDENCE_PUBLICATION_FORMAT \<longrightarrow> files ''publication.json'' \<noteq> None)"
proof -
  let ?expected = "{''manifest.json'', ''receipt.yaml''} \<union>
           (if fmt = EVIDENCE_PUBLICATION_FORMAT then
              insert ''publication.json'' (if files ''log-consistency.json'' \<noteq> None then {''log-consistency.json''} else {})
            else {}) \<union>
           (if files ''identity.sigstore.json'' \<noteq> None then {''identity.sigstore.json''} else {})"
  obtain r u paths as expected where p: "ve_receipt_of_yaml (ee_verify env) receipt_bytes = Some r"
      "inventory (ee_blake3 env) r = Inr u" "fmt = EVIDENCE_PUBLICATION_FORMAT \<longrightarrow> files ''publication.json'' \<noteq> None"
      "proof_paths r = Inr paths" "receipt_artifacts r = Inr as" "verify_artifacts env root files as (?expected \<union> paths) = Inr expected"
      "list_all (\<lambda>e. ae_path e \<in> expected) entries"
    using assms unfolding evidence_checked_def Let_def result_simps by blast
  have as: "as = listed_artifacts r" using p(5) by (auto simp: receipt_artifacts_def listed_artifacts_def result_simps)
  have "?expected \<subseteq> accounted fmt r" by (auto simp: accounted_def split: if_splits)
  moreover have "paths \<subseteq> accounted fmt r" using proof_paths_result [OF p(4)] unfolding accounted_def by blast
  moreover have "(\<lambda>a. ''artifacts/'' @ artifact_path a) ` set as \<subseteq> accounted fmt r" unfolding accounted_def as by blast
  moreover have "expected = ?expected \<union> paths \<union> (\<lambda>a. ''artifacts/'' @ artifact_path a) ` set as"
    using p(6) by (simp only: verify_artifacts_iff)
  ultimately have "expected \<subseteq> accounted fmt r" by (simp only: Un_subset_iff)
  then have "ae_path ` set entries \<subseteq> accounted fmt r" using p(7) unfolding list_all_iff by blast
  moreover have "\<forall>a\<in>set (listed_artifacts r). delivered env root files a" using p(6) by (simp add: verify_artifacts_iff as)
  moreover have "inventory_holds (ee_blake3 env) r" using p(2) inventory_iff by simp
  ultimately show ?thesis using p(1,3) by blast
qed

lemma step_entries_member:
  "a \<in> set as \<Longrightarrow> artifact_step a = n \<Longrightarrow> (artifact_path a, artifact_line a) \<in> set (map (\<lambda>(p, a). (p, artifact_line a)) (step_entries as n))"
  by (auto simp: step_entries_def image_iff)

lemma step_entries_back:
  "(p, l) \<in> set (map (\<lambda>(p, a). (p, artifact_line a)) (step_entries as n)) \<Longrightarrow>
   \<exists>a\<in>set as. artifact_step a = n \<and> artifact_path a = p \<and> artifact_line a = l"
  by (auto simp: step_entries_def)

lemma artifact_line_inject:
  "artifact_sound a \<Longrightarrow> artifact_sound b \<Longrightarrow> artifact_line a = artifact_line b \<longleftrightarrow>
     artifact_kind a = artifact_kind b \<and> artifact_digest a = artifact_digest b"
  by (auto simp: artifact_line_def artifact_sound_def split: if_splits)

text \<open>
  C27. The signed output hash determines the delivered bytes. When the artifacts check passes for two archives whose
  receipts record the same output hash for a step of the same name, then for every artifact the one
  receipt lists for that step the other lists one with the same path, kind and digest, and both archives hold
  the same bytes for it, unless BLAKE3 collides on the two step manifests or on the delivered files.
\<close>

theorem delivered_bytes_binding:
  assumes "evidence_checked env fmt bs entries files root = Inr ()" "evidence_checked env fmt' bs' entries' files' root' = Inr ()"
    and "ve_receipt_of_yaml (ee_verify env) bs = Some r" "ve_receipt_of_yaml (ee_verify env) bs' = Some r'"
    and "s \<in> set (r_steps r)" "s' \<in> set (r_steps r')" "sr_name s = sr_name s'" "sr_output_hash s = sr_output_hash s'"
    and "inj_on (ee_blake3 env) ({artifact_manifest (step_entries (listed_artifacts r) (sr_name s)),
           artifact_manifest (step_entries (listed_artifacts r') (sr_name s))} \<union> ran files \<union> ran files')"
    and "a \<in> set (listed_artifacts r)" "artifact_step a = sr_name s"
  shows "\<exists>a'\<in>set (listed_artifacts r'). artifact_step a' = artifact_step a \<and> artifact_path a' = artifact_path a \<and>
    artifact_kind a' = artifact_kind a \<and> artifact_digest a' = artifact_digest a \<and>
    files (''artifacts/'' @ artifact_path a) \<noteq> None \<and>
    files (''artifacts/'' @ artifact_path a) = files' (''artifacts/'' @ artifact_path a)"
proof -
  let ?n = "sr_name s"
  have r: "inventory_holds (ee_blake3 env) r" "\<forall>a\<in>set (listed_artifacts r). delivered env root files a"
    using evidence_checked_sound [OF assms(1)] assms(3) by auto
  have r': "inventory_holds (ee_blake3 env) r'" "\<forall>a\<in>set (listed_artifacts r'). delivered env root' files' a"
    using evidence_checked_sound [OF assms(2)] assms(4) by auto
  have sound: "list_all artifact_sound (listed_artifacts r)" "list_all artifact_sound (listed_artifacts r')"
    using r(1) r'(1) by (simp_all add: inventory_holds_def)
  have "ee_blake3 env (artifact_manifest (step_entries (listed_artifacts r) ?n)) =
      ee_blake3 env (artifact_manifest (step_entries (listed_artifacts r') ?n))"
    using r(1) r'(1) assms(5-8) unfolding inventory_holds_def by (metis to_hex_inject)
  then have "artifact_manifest (step_entries (listed_artifacts r) ?n) = artifact_manifest (step_entries (listed_artifacts r') ?n)"
    by (rule inj_onD [OF assms(9)]) simp_all
  note same = artifact_manifest_inject [OF this sound]
  from step_entries_back [OF step_entries_member [OF assms(10,11), unfolded same]]
  obtain a' where a': "a' \<in> set (listed_artifacts r')" "artifact_step a' = ?n" "artifact_path a' = artifact_path a"
      "artifact_line a' = artifact_line a"
    by blast
  then have kd: "artifact_kind a' = artifact_kind a" "artifact_digest a' = artifact_digest a"
    using artifact_line_inject [of a' a] sound assms(10) by (auto simp: list_all_iff)
  obtain x where x: "files (''artifacts/'' @ artifact_path a) = Some x" "to_hex (ee_blake3 env x) = artifact_digest a"
    using r(2) assms(10) by (auto simp: delivered_def)
  obtain y where y: "files' (''artifacts/'' @ artifact_path a) = Some y" "to_hex (ee_blake3 env y) = artifact_digest a"
    using r'(2) a' kd by (auto simp: delivered_def)
  have "ee_blake3 env x = ee_blake3 env y" using x(2) y(2) by (metis to_hex_inject)
  moreover have "x \<in> ran files" "y \<in> ran files'" using x(1) y(1) by (simp_all add: ranI)
  ultimately have "x = y" by (intro inj_onD [OF assms(9)]) simp_all
  then show ?thesis using a' kd x y assms(11) by auto
qed

subsection \<open>The verdict\<close>

lemma require_all_set: "set (require_all required qs) = set required \<union> set qs"
  by (induction qs arbitrary: required) auto

lemma effective_policy_set: "set (effective_policy policy identity) =
    set policy \<union> {ReqSignature, ReqSuccess, ReqArtifacts} \<union> (if identity then {ReqIdentity} else {})"
  by (auto simp: effective_policy_def Let_def require_all_set)

lemma log_checks_names:
  "map check_name (log_checks env fmt bs files required material) \<in> {[], [''log-inclusion'', ''log-consistency'']}"
  by (simp add: log_checks_def assess_names)

lemma proof_result_name [simp]: "check_name (proof_result name checked) = name"
  by (simp add: proof_result_def mk_check_def split: sum.splits option.splits)

lemma artifacts_check_simps [simp]: "check_name (artifacts_check checked) = ''artifacts''"
  "check_status (artifacts_check checked) = Pass \<longleftrightarrow> checked = Inr ()"
  by (auto simp: artifacts_check_def mk_check_def split: sum.splits)

lemma identity_check_simps [simp]: "check_name (identity_check checked) = ''identity''"
  "check_status (identity_check checked) = Pass \<longleftrightarrow> (\<exists>iv. checked = Some (Inr iv))"
  by (auto simp: identity_check_def mk_check_def split: sum.splits option.splits)

lemma proof_result_status: "check_status (proof_result name checked) = Pass \<longleftrightarrow> checked = Inr None"
  by (auto simp: proof_result_def mk_check_def split: sum.splits option.splits)

definition capsules_proved :: "evidence_env \<Rightarrow> receipt \<Rightarrow> (bytes \<rightharpoonup> bytes) \<Rightarrow> bool" where
  "capsules_proved env r files \<longleftrightarrow> (\<forall>s\<in>set (r_steps r). \<forall>h. sr_capsule_hash s = Some h \<longrightarrow>
     (\<exists>bs m. files (capsule_file h) = Some bs \<and> proof_capsule env bs = Inr m \<and> manifest_validate m = Inr () \<and>
        compute_hash (ve_capsule (ee_verify env)) m = h))"

definition events_delivered :: "evidence_env \<Rightarrow> (bytes \<rightharpoonup> bytes) \<Rightarrow> bytes list \<Rightarrow> (bytes \<rightharpoonup> causal_event) \<Rightarrow> bool" where
  "events_delivered env files is events \<longleftrightarrow>
     (\<forall>i\<in>set is. \<exists>bs e. files (event_path i) = Some bs \<and> proof_event env bs = Inr e \<and> event_id e = i \<and> events i = Some e)"

definition chain_proved :: "evidence_env \<Rightarrow> receipt \<Rightarrow> (bytes \<rightharpoonup> bytes) \<Rightarrow> bool" where
  "chain_proved env r files \<longleftrightarrow>
     (if r_causal_events r = [] then r_causal_chain_hash r = None
      else \<exists>events es. events_delivered env files (r_causal_events r) events \<and> chain_intact (av_ledger (ee_archive env)) r events es)"

definition log_proved :: "evidence_env \<Rightarrow> receipt \<Rightarrow> (bytes \<rightharpoonup> bytes) \<Rightarrow> verification_material \<Rightarrow> bool" where
  "log_proved env r files material \<longleftrightarrow> (\<exists>root bs rec trust cp. r_causal_chain_hash r = Some root \<and>
     files ''publication.json'' = Some bs \<and> decode_record (ee_record env) bs = Inr rec \<and> vm_trust material = Some trust \<and>
     record_verify (ee_record env) rec root trust = Inr cp)"

lemma assess_capsule_files_all:
  "assess_capsule_files env files hs missing = Inr [] \<Longrightarrow> missing = [] \<and> (\<forall>h\<in>set hs. \<exists>bs m. files (capsule_file h) = Some bs \<and>
     proof_capsule env bs = Inr m \<and> manifest_validate m = Inr () \<and> compute_hash (ve_capsule (ee_verify env)) m = h)"
proof (induction hs arbitrary: missing)
  case (Cons h hs)
  show ?case
  proof (cases "files (capsule_file h)")
    case None
    then show ?thesis using Cons.prems Cons.IH [of "missing @ [h]"] by simp
  next
    case (Some bs)
    then obtain m where "proof_capsule env bs = Inr m" "manifest_validate m = Inr ()" "compute_hash (ve_capsule (ee_verify env)) m = h"
      and rest: "assess_capsule_files env files hs missing = Inr []"
      using Cons.prems by (auto simp: result_simps)
    then show ?thesis using Cons.IH [OF rest] Some by auto
  qed
qed simp

lemma assess_capsules_pass: "assess_capsules env r files = Inr None \<Longrightarrow> capsules_proved env r files"
proof -
  assume "assess_capsules env r files = Inr None"
  then have "assess_capsule_files env files (sort (remdups (List.map_filter sr_capsule_hash (r_steps r)))) [] = Inr []"
    by (auto simp: assess_capsules_def capsule_hashes_def result_simps Let_def split: if_splits)
  from assess_capsule_files_all [OF this] show ?thesis
    by (force simp: capsules_proved_def List.map_filter_def)
qed

lemma assess_event_files_keeps:
  "assess_event_files env expected files is events missing = Inr (events', missing') \<Longrightarrow> i \<notin> set is \<Longrightarrow> events' i = events i"
  by (induction "is" arbitrary: events missing) (auto simp: result_simps split: option.splits)

lemma assess_event_files_all:
  "assess_event_files env expected files is events missing = Inr (events', []) \<Longrightarrow> distinct is \<Longrightarrow>
   missing = [] \<and> events_delivered env files is events'"
proof (induction "is" arbitrary: events missing)
  case (Cons i "is")
  show ?case
  proof (cases "files (event_path i)")
    case None
    then have "assess_event_files env expected files is events (missing @ [i]) = Inr (events', [])"
      using Cons.prems(1) by (simp add: result_simps)
    from Cons.IH [OF this] Cons.prems(2) show ?thesis by simp
  next
    case (Some bs)
    then obtain e where e: "proof_event env bs = Inr e" "event_id e = i"
      and rest: "assess_event_files env expected files is (events(i \<mapsto> e)) missing = Inr (events', [])"
      using Cons.prems(1) by (auto simp: result_simps)
    have "events' i = Some e" using assess_event_files_keeps [OF rest, of i] Cons.prems(2) by simp
    then show ?thesis using Cons.IH [OF rest] Cons.prems(2) Some e by (simp add: events_delivered_def)
  qed
qed (simp add: events_delivered_def)

lemma assess_causal_pass: "assess_causal env r files = Inr None \<Longrightarrow> chain_proved env r files"
proof -
  assume a: "assess_causal env r files = Inr None"
  show ?thesis
  proof (cases "r_causal_events r = []")
    case True
    then show ?thesis using a by (simp add: assess_causal_def chain_proved_def result_simps)
  next
    case False
    then obtain events where ev: "assess_event_files env (set (r_causal_events r)) files (r_causal_events r) Map.empty [] = Inr (events, [])"
      and link: "check_status (chain_linkage (av_ledger (ee_archive env)) r events False) = Pass" and d: "distinct (r_causal_events r)"
      using a by (auto simp: assess_causal_def result_simps Let_def split: if_splits)
    have "events_delivered env files (r_causal_events r) events" using assess_event_files_all [OF ev d] by blast
    then show ?thesis using link chain_linkage_pass False unfolding chain_proved_def by fastforce
  qed
qed

lemma log_inclusion_pass:
  assumes "c \<in> set (log_checks env fmt bs files required material)" "check_name c = ''log-inclusion''" "check_status c = Pass"
    and "ve_receipt_of_yaml (ee_verify env) bs = Some r"
  shows "log_proved env r files material"
proof -
  let ?m = "material\<lparr>vm_comparison := (case vm_comparison material of Some c \<Rightarrow> Some c | None \<Rightarrow> files ''log-consistency.json'')\<rparr>"
  let ?published = "if fmt = EVIDENCE_PUBLICATION_FORMAT then files ''publication.json'' else None"
  let ?cs = "assess (ee_record env) (r_causal_chain_hash r) ?published ?m"
  have c: "c \<in> set ?cs" using assms(1,4) by (auto simp: log_checks_def Let_def split: if_splits)
  have names: "map check_name ?cs = [''log-inclusion'', ''log-consistency'']" by (rule assess_names)
  then obtain c0 c1 where cs: "?cs = [c0, c1]" "check_name c1 = ''log-consistency''" by (cases ?cs) (auto simp: Cons_eq_map_conv)
  then have "c = c0" using c assms(2) by auto
  then have "check_status (?cs ! 0) = Pass" using assms(3) cs(1) by simp
  from assess_inclusion_passed [OF this] show ?thesis by (auto simp: log_proved_def split: if_splits)
qed

lemma verify_parsed_execution:
  "ve_receipt_of_yaml env bs = Some r \<Longrightarrow> v_execution (verify_parsed env w now bs label opts) = Some (execution_outcome r)"
  by (simp add: verify_parsed_def Let_def split: prod.splits)

lemma execution_success: "eo_outcome (execution_outcome r) = ''success'' \<longleftrightarrow> (\<forall>s\<in>set (r_steps r). sr_exit_code s = 0)"
  by (auto simp: execution_outcome_def Let_def filter_empty_conv)

definition evidence_soundly ::
  "evidence_env \<Rightarrow> world \<Rightarrow> bytes \<Rightarrow> bytes \<Rightarrow> archive_entry list \<Rightarrow> (bytes \<rightharpoonup> bytes) \<Rightarrow> (fs \<times> path) option \<Rightarrow> identity_policy option
    \<Rightarrow> (bytes \<rightharpoonup> bytes) \<Rightarrow> requirement list \<Rightarrow> verification_material \<Rightarrow> receipt \<Rightarrow> evidence_verdict \<Rightarrow> bool" where
  "evidence_soundly env w fmt receipt_bytes entries files root identity_policy roots policy material r ev \<longleftrightarrow>
     receipt_sound (ee_verify env) w (evidence_options policy) r (ev_verdict ev) \<and>
     (\<forall>s\<in>set (r_steps r). sr_exit_code s = 0) \<and>
     inventory_holds (ee_blake3 env) r \<and> (\<forall>a\<in>set (listed_artifacts r). delivered env root files a) \<and>
     ae_path ` set entries \<subseteq> accounted fmt r \<and>
     (\<forall>p. identity_policy = Some p \<longrightarrow> (\<exists>b iv. files ''identity.sigstore.json'' = Some b \<and>
        verify_receipt_identity (ee_identity env) (Some receipt_bytes) (Some b) roots p = Inr iv \<and>
        io_verified (ev_identity ev) = Some iv)) \<and>
     (ReqCapsule \<in> set policy \<longrightarrow> capsules_proved env r files) \<and>
     (ReqLinkage \<in> set policy \<longrightarrow> chain_proved env r files) \<and>
     (ReqLogInclusion \<in> set policy \<longrightarrow> log_proved env r files material)"

lemma receipt_bytes_execution:
  assumes "verify_receipt_bytes env w now bs label opts = Inr v0" "\<forall>c\<in>set (v_checks v0). check_status c \<noteq> Fail"
    "ve_receipt_of_yaml env bs = Some r"
  shows "v_execution v0 = Some (execution_outcome r)"
proof -
  have "v0 = verify_parsed env w now bs label opts"
    using assms(1,2) by (auto simp: verify_receipt_bytes_def result_simps mk_check_def split: option.splits if_splits)
  then show ?thesis using verify_parsed_execution [OF assms(3)] by simp
qed

text \<open>The checks evidence adds to those of its receipt.\<close>

definition evidence_extra ::
  "evidence_env \<Rightarrow> bytes \<Rightarrow> bytes \<Rightarrow> archive_entry list \<Rightarrow> (bytes \<rightharpoonup> bytes) \<Rightarrow> (fs \<times> path) option \<Rightarrow> identity_policy option
    \<Rightarrow> (bytes \<rightharpoonup> bytes) \<Rightarrow> requirement list \<Rightarrow> verification_material \<Rightarrow> check list" where
  "evidence_extra env fmt receipt_bytes entries files root identity_policy roots required material =
     [artifacts_check (evidence_checked env fmt receipt_bytes entries files root)] @
     (case ve_receipt_of_yaml (ee_verify env) receipt_bytes of Some r \<Rightarrow> assess_proofs env r files | None \<Rightarrow> []) @
     [identity_check (map_option (evidence_identity env files receipt_bytes roots) identity_policy)] @
     log_checks env fmt receipt_bytes files required material"

lemma evidence_extra_names:
  "distinct (map check_name (evidence_extra env fmt bs entries files root ip roots required material))"
  "check_name ` set (evidence_extra env fmt bs entries files root ip roots required material) \<inter> receipt_check_names = {}"
proof -
  let ?extra = "evidence_extra env fmt bs entries files root ip roots required material"
  let ?proofs = "case ve_receipt_of_yaml (ee_verify env) bs of Some r \<Rightarrow> assess_proofs env r files | None \<Rightarrow> []"
  have "map check_name ?extra = [''artifacts''] @ map check_name ?proofs @ [''identity''] @
      map check_name (log_checks env fmt bs files required material)"
    by (simp add: evidence_extra_def)
  moreover have "map check_name ?proofs \<in> {[], [''capsule'', ''chain-linkage'']}"
    by (simp add: assess_proofs_def split: option.splits)
  ultimately have "map check_name ?extra \<in> {[''artifacts'', ''identity''], [''artifacts'', ''capsule'', ''chain-linkage'', ''identity''],
      [''artifacts'', ''identity'', ''log-inclusion'', ''log-consistency''],
      [''artifacts'', ''capsule'', ''chain-linkage'', ''identity'', ''log-inclusion'', ''log-consistency'']}"
    using log_checks_names [of env fmt bs files required material] by force
  then show "distinct (map check_name ?extra)" "check_name ` set ?extra \<inter> receipt_check_names = {}"
    unfolding receipt_check_names_def set_map [symmetric] by auto
qed

lemma evidence_extra_cases:
  assumes "c \<in> set (evidence_extra env fmt bs entries files root ip roots required material)" "check_status c = Pass"
    and r: "ve_receipt_of_yaml (ee_verify env) bs = Some r"
  shows "(check_name c = ''artifacts'' \<longrightarrow> evidence_checked env fmt bs entries files root = Inr ()) \<and>
    (check_name c = ''capsule'' \<longrightarrow> capsules_proved env r files) \<and>
    (check_name c = ''chain-linkage'' \<longrightarrow> chain_proved env r files) \<and>
    (check_name c = ''identity'' \<longrightarrow> (\<exists>p iv. ip = Some p \<and> evidence_identity env files bs roots p = Inr iv)) \<and>
    (check_name c = ''log-inclusion'' \<longrightarrow> log_proved env r files material)"
proof -
  have "c = artifacts_check (evidence_checked env fmt bs entries files root) \<or> c \<in> set (assess_proofs env r files) \<or>
      c = identity_check (map_option (evidence_identity env files bs roots) ip) \<or>
      c \<in> set (log_checks env fmt bs files required material)"
    using assms(1) r by (auto simp: evidence_extra_def)
  then consider (artifacts) "c = artifacts_check (evidence_checked env fmt bs entries files root)"
    | (proofs) "c \<in> set (assess_proofs env r files)"
    | (identity) "c = identity_check (map_option (evidence_identity env files bs roots) ip)"
    | (log) "c \<in> set (log_checks env fmt bs files required material)" by blast
  then show ?thesis
  proof cases
    case artifacts
    then show ?thesis using assms(2) by simp
  next
    case proofs
    then show ?thesis using assms(2) assess_capsules_pass assess_causal_pass
      by (auto simp: assess_proofs_def proof_result_status)
  next
    case identity
    then show ?thesis using assms(2) by auto
  next
    case log
    then have "check_name c \<in> set (map check_name (log_checks env fmt bs files required material))" by simp
    then have "check_name c = ''log-inclusion'' \<or> check_name c = ''log-consistency''"
      using log_checks_names [of env fmt bs files required material] by auto
    then show ?thesis using log_inclusion_pass [OF log _ assms(2) r] by auto
  qed
qed

definition requirement_check :: "requirement \<Rightarrow> bytes" where
  "requirement_check q = (if q = ReqLinkage then ''chain-linkage'' else requirement_name q)"

lemma evidence_parts:
  assumes "verify_with_policy_and_log env w now name archive identity_policy roots root policy material = Inr ev"
  shows "\<exists>entries files fmt receipt_bytes v0. read_archive (ee_archive env) archive = Inr entries \<and>
    files = map_of (rev (map (\<lambda>e. (ae_path e, ae_bytes e)) entries)) \<and> files ''receipt.yaml'' = Some receipt_bytes \<and>
    verify_receipt_bytes (ee_verify env) w now receipt_bytes name (evidence_options (effective_policy policy (identity_policy \<noteq> None))) = Inr v0 \<and>
    ev_verdict ev = apply_policy (opt_policy (evidence_options (effective_policy policy (identity_policy \<noteq> None))))
      (v0\<lparr>v_checks := v_checks v0 @ evidence_extra env fmt receipt_bytes entries files root identity_policy roots
        (effective_policy policy (identity_policy \<noteq> None)) material\<rparr>) \<and>
    io_verified (ev_identity ev) = (case map_option (evidence_identity env files receipt_bytes roots) identity_policy of
      Some (Inr iv) \<Rightarrow> Some iv | _ \<Rightarrow> None)"
  using assms unfolding verify_with_policy_and_log_def
  by (auto simp: result_simps Let_def evidence_extra_def evidence_options_def)

text \<open>
  C7. What passing evidence means. The archive is readable within its limits and holds a receipt; everything a passing
  receipt verdict promises holds of it, with signatures always checked and revoked keys accepted only for
  signatures a token dates before the revocation; every step exited with code zero; the receipt's artifact
  list accounts for every step's signed output hash; every artifact on it is in the archive, and in the artifact root
  if one is given, with the listed digest, and the archive holds no other files. If the recipient has an
  identity policy, the workflow identity is verified under it. Where the recipient's policy asks for them, every
  capsule a step ran in is present with the signed hash, the causal events are the intact signed chain, and the
  causal root is in the recipient's log.
\<close>

theorem evidence_sound:
  assumes "verify_with_policy_and_log env w now name archive identity_policy roots root policy material = Inr ev"
    and "verdict_passed (ev_verdict ev)"
  shows "\<exists>entries files fmt receipt_bytes r. read_archive (ee_archive env) archive = Inr entries \<and>
    files = map_of (rev (map (\<lambda>e. (ae_path e, ae_bytes e)) entries)) \<and> files ''receipt.yaml'' = Some receipt_bytes \<and>
    ve_receipt_of_yaml (ee_verify env) receipt_bytes = Some r \<and>
    evidence_soundly env w fmt receipt_bytes entries files root identity_policy roots policy material r ev"
proof -
  let ?required = "effective_policy policy (identity_policy \<noteq> None)"
  obtain entries files fmt bs v0 where e: "read_archive (ee_archive env) archive = Inr entries"
      "files = map_of (rev (map (\<lambda>e. (ae_path e, ae_bytes e)) entries))" "files ''receipt.yaml'' = Some bs"
    and v0: "verify_receipt_bytes (ee_verify env) w now bs name (evidence_options ?required) = Inr v0"
    and v: "ev_verdict ev = apply_policy (opt_policy (evidence_options ?required))
      (v0\<lparr>v_checks := v_checks v0 @ evidence_extra env fmt bs entries files root identity_policy roots ?required material\<rparr>)"
    and verified: "io_verified (ev_identity ev) = (case map_option (evidence_identity env files bs roots) identity_policy of
      Some (Inr iv) \<Rightarrow> Some iv | _ \<Rightarrow> None)"
    using evidence_parts [OF assms(1)] by blast
  let ?extra = "evidence_extra env fmt bs entries files root identity_policy roots ?required material"
  note ext = extended_verdict_sound [OF v0 v assms(2) evidence_extra_names]
  then obtain r where r: "ve_receipt_of_yaml (ee_verify env) bs = Some r"
      "receipt_sound (ee_verify env) w (evidence_options ?required) r (ev_verdict ev)" by blast
  have met: "requirement_met (ev_verdict ev) q" if "q \<in> set ?required" for q
    using ext that by (simp add: evidence_options_def)
  have passed: "\<exists>c\<in>set ?extra. check_name c = requirement_check q \<and> check_status c = Pass"
    if "q \<in> set ?required" "requirement_check q \<notin> receipt_check_names" "q \<noteq> ReqTrust" "q \<noteq> ReqSuccess" for q
    using ext met [OF that(1)] that(2-4) by (auto simp: requirement_met_def requirement_check_def)
  have ok0: "\<forall>c\<in>set (v_checks v0). check_status c \<noteq> Fail"
    using assms(2) unfolding v verdict_passed_def apply_policy_verdict by (auto split: if_splits)
  have "\<forall>s\<in>set (r_steps r). sr_exit_code s = 0"
    using met [of ReqSuccess] receipt_bytes_execution [OF v0 ok0 r(1)]
    by (simp add: effective_policy_set requirement_met_def v execution_success)
  moreover have "receipt_sound (ee_verify env) w (evidence_options policy) r (ev_verdict ev)"
    using r(2) by (simp add: receipt_sound_def evidence_options_def signature_good_def)
  moreover have "evidence_checked env fmt bs entries files root = Inr ()"
    using passed [of ReqArtifacts] evidence_extra_cases [OF _ _ r(1)]
    by (simp add: effective_policy_set requirement_check_def receipt_check_names_def) blast
  note checked = evidence_checked_sound [OF this]
  moreover have "capsules_proved env r files" if "ReqCapsule \<in> set policy"
    using passed [of ReqCapsule] evidence_extra_cases [OF _ _ r(1)] that
    by (simp add: effective_policy_set requirement_check_def receipt_check_names_def) blast
  moreover have "chain_proved env r files" if "ReqLinkage \<in> set policy"
    using passed [of ReqLinkage] evidence_extra_cases [OF _ _ r(1)] that
    by (simp add: effective_policy_set requirement_check_def receipt_check_names_def) blast
  moreover have "log_proved env r files material" if "ReqLogInclusion \<in> set policy"
    using passed [of ReqLogInclusion] evidence_extra_cases [OF _ _ r(1)] that
    by (simp add: effective_policy_set requirement_check_def receipt_check_names_def) blast
  moreover have "\<exists>b iv. files ''identity.sigstore.json'' = Some b \<and>
      verify_receipt_identity (ee_identity env) (Some bs) (Some b) roots p = Inr iv \<and> io_verified (ev_identity ev) = Some iv"
    if p: "identity_policy = Some p" for p
  proof -
    have "\<exists>c\<in>set ?extra. check_name c = ''identity'' \<and> check_status c = Pass"
      using passed [of ReqIdentity] p by (simp add: effective_policy_set requirement_check_def receipt_check_names_def)
    then obtain iv where iv: "evidence_identity env files bs roots p = Inr iv"
      using evidence_extra_cases [OF _ _ r(1)] p by blast
    then show ?thesis using verified p by (auto simp: evidence_identity_def result_simps)
  qed
  ultimately have "evidence_soundly env w fmt bs entries files root identity_policy roots policy material r ev"
    unfolding evidence_soundly_def using r(1) by (intro conjI impI allI) auto
  then show ?thesis using e r(1) by blast
qed

subsection \<open>A release\<close>

definition example_artifact :: artifact_info where
  "example_artifact = \<lparr>artifact_step = ''build'', artifact_path = ''a'', artifact_kind = ''file'',
     artifact_digest = to_hex (digest_of ''x''), artifact_algorithm = ''blake3''\<rparr>"

definition example_release :: receipt where
  "example_release = example_signed_receipt\<lparr>r_causal_events := [],
     r_provenance := Some (example_provenance\<lparr>ep_artifacts := [example_artifact]\<rparr>),
     r_steps := map (\<lambda>s. s\<lparr>sr_output_hash := to_hex (digest_of (artifact_manifest [(''a'', example_artifact)]))\<rparr>) (r_steps example_receipt)\<rparr>"

definition example_release_entries :: "archive_entry list" where
  "example_release_entries = map (\<lambda>(p, b). \<lparr>ae_path = p, ae_bytes = b\<rparr>) [(''artifacts/a'', ''x''), (''manifest.json'', ''m''), (''receipt.yaml'', ''y'')]"

definition example_release_env :: evidence_env where
  "example_release_env = \<lparr>
     ee_archive = example_archive_env\<lparr>
       av_verify := example_verify_env\<lparr>ve_receipt_of_yaml := (\<lambda>s. if s = ''y'' then Some example_release else None)\<rparr>,
       av_entries := (\<lambda>_ _. Inr (map (\<lambda>e. Inr \<lparr>re_kind = CHR ''0'', re_path = Some (ae_path e), re_declared = Some 1, re_body = Inr (ae_bytes e)\<rparr>)
         example_release_entries))\<rparr>,
     ee_record = example_record_env, ee_identity = example_identity_env, ee_json_value = (\<lambda>_. None), ee_yaml_value = (\<lambda>_. None),
     ee_capsule_of_value = (\<lambda>_. None), ee_event_of_value = (\<lambda>_. None), ee_event_json = event_id,
     ee_format_of_json = (\<lambda>_. Some EVIDENCE_FORMAT), ee_format_json = id\<rparr>"

definition example_release_world :: world where
  "example_release_world = example_world\<lparr>w_store := None, w_local_key := Some (digest_bytes (digest_of ''r''))\<rparr>"

abbreviation example_release_files :: "bytes \<rightharpoonup> bytes" where
  "example_release_files \<equiv> map_of (rev (map (\<lambda>e. (ae_path e, ae_bytes e)) example_release_entries))"

lemma example_release_env_simps [simp]:
  "ee_blake3 example_release_env = digest_of" "ve_receipt_of_yaml (ee_verify example_release_env) ''y'' = Some example_release"
  "ve_yaml_ok (ee_verify example_release_env) s" "ve_yaml_schema_version (ee_verify example_release_env) s = Some 3"
  "ke_ed (ve_keys (ee_verify example_release_env)) = example_ed" "ve_receipt_json (ee_verify example_release_env) q = ''json''"
  "ee_format_of_json example_release_env s = Some EVIDENCE_FORMAT"
  by (simp_all add: example_release_env_def example_verify_env_def example_recipient_env_def example_key_env_def)

lemma example_release_read: "read_archive (ee_archive example_release_env) (Some ''z'') = Inr example_release_entries"
proof -
  have c: "ParentDir \<notin> set (components ''artifacts/a'')" by code_simp
  show ?thesis
    using c example_entry_components
    by (simp add: read_archive_def read_archive_bounded_def example_release_env_def default_limits_def example_release_entries_def
        ensure_def and_then_def ok_or_def starts_with_def example_archive_env_def)
qed

lemma example_release_files_simps [simp]:
  "example_release_files ''artifacts/a'' = Some ''x''" "example_release_files ''manifest.json'' = Some ''m''"
  "example_release_files ''receipt.yaml'' = Some ''y''" "example_release_files ''identity.sigstore.json'' = None"
  "example_release_files ''publication.json'' = None"
  by (simp_all add: example_release_entries_def)

lemma hex_text: "is_digest_text (to_hex h)"
  using hex_encode_digits by (auto simp: is_digest_text_def list_all_iff to_hex_def)

lemma example_safe: "safe_path ''a''"
  by code_simp

lemma example_release_simps [simp]:
  "listed_artifacts example_release = [example_artifact]" "receipt_artifacts example_release = Inr [example_artifact]"
  "r_causal_events example_release = []" "r_causal_chain_hash example_release = None" "r_timestamp_token example_release = None"
  by (simp_all add: example_release_def listed_artifacts_def receipt_artifacts_def example_signed_receipt_def example_receipt_def)

lemma example_release_steps:
  "\<exists>s. r_steps example_release = [s] \<and> sr_name s = ''build'' \<and> sr_capsule_hash s = None \<and> sr_exit_code s = 0 \<and>
     sr_output_hash s = to_hex (digest_of (artifact_manifest [(''a'', example_artifact)]))"
  by (simp add: example_release_def example_receipt_def)

lemma example_inventory: "inventory_holds digest_of example_release"
proof -
  have "step_entries [example_artifact] ''build'' = [(''a'', example_artifact)]"
    by (simp add: step_entries_def example_artifact_def)
  moreover have "artifact_sound example_artifact"
    using example_safe hex_text by (simp add: artifact_sound_def example_artifact_def)
  moreover have "artifact_step example_artifact = ''build''" by (simp add: example_artifact_def)
  ultimately show ?thesis
    using example_release_steps by (auto simp: inventory_holds_def)
qed

lemma example_release_checked:
  "evidence_checked example_release_env EVIDENCE_FORMAT ''y'' example_release_entries example_release_files None = Inr ()"
proof -
  have inv: "inventory digest_of example_release = Inr ()" using example_inventory inventory_iff by blast
  have paths: "proof_paths example_release = Inr {}"
    using example_release_steps by (auto simp: proof_paths_def capsule_hashes_def List.map_filter_simps)
  have "delivered example_release_env None example_release_files example_artifact"
    by (simp add: delivered_def example_artifact_def)
  moreover have "artifact_path example_artifact = ''a''" by (simp add: example_artifact_def)
  ultimately have va: "verify_artifacts example_release_env None example_release_files [example_artifact] e = Inr (insert ''artifacts/a'' e)" for e
    unfolding verify_artifacts_iff by simp
  show ?thesis
    using inv paths va by (simp add: evidence_checked_def EVIDENCE_FORMAT_def EVIDENCE_PUBLICATION_FORMAT_def Let_def)
      (simp add: example_release_entries_def)
qed

lemma example_release_trust:
  "key_trust_status (ee_verify example_release_env) example_release_world (hex_encode (digest_bytes (digest_of ''r''))) = Inr TrustedK"
  by (simp add: key_trust_status_def example_release_world_def)

lemma example_release_signature:
  "signature_check (ee_verify example_release_env) example_release_world opts example_release None [] =
    ((mk_check ''signature'' Pass (TrustedKey (hex_encode (digest_bytes (digest_of ''r'')))),
      Some (hex_encode (digest_bytes (digest_of ''r'')))), [])"
proof -
  let ?sig = "hex_encode (digest_bytes (digest_of ''r'') @ digest_bytes (digest_of ''json''))"
  let ?key = "hex_encode (digest_bytes (digest_of ''r''))"
  have v: "verify_with_public_key example_ed ?key (receipt_signing_bytes (ve_receipt_json (ee_verify example_release_env)) example_release) ?sig = Inr True"
    by (simp add: verify_with_public_key_def receipt_signing_bytes_def example_ed_def)
  have r: "r_signature example_release = Some ?sig" "r_signer_public_key example_release = Some ?key"
    by (simp_all add: example_release_def example_signed_receipt_def)
  show ?thesis unfolding signature_check_def by (simp add: r v example_release_trust del: hex_encode_inject)
qed

definition example_release_checks :: "check list" where
  "example_release_checks = [mk_check ''schema'' Pass (Note ''receipt matches schema''), consistency_check example_release,
     mk_check ''signature'' Pass (TrustedKey (hex_encode (digest_bytes (digest_of ''r'')))),
     mk_check ''timestamp'' Skipped (Note ''receipt carries no timestamp token''),
     mk_check ''recompute'' Skipped (Note ''enable with --recompute'')]"

lemma example_release_parsed:
  "v_checks (verify_parsed (ee_verify example_release_env) example_release_world 9 ''y'' ''z'' (evidence_options required)) = example_release_checks"
proof -
  have "timestamp_check (ee_verify example_release_env) example_release_world example_release =
      (mk_check ''timestamp'' Skipped (Note ''receipt carries no timestamp token''), None)"
    by (simp add: timestamp_check_def)
  then show ?thesis
    by (simp add: verify_parsed_def receipt_checks_def evidence_options_def example_release_signature case_prod_unfold Let_def
        example_release_checks_def)
qed

lemma example_release_consistent: "check_status (consistency_check example_release) \<noteq> Fail"
proof -
  have "coherent example_release"
    using hex_text by (simp add: coherent_def example_release_def example_signed_receipt_def example_receipt_def is_hex_digit_def
        is_digest_text_def list_all_iff)
  then show ?thesis by (simp only: consistency_check_coherent)
qed

definition example_release_extra :: "check list" where
  "example_release_extra = [artifacts_check (Inr ()), proof_result ''capsule'' (Inr None), proof_result ''chain-linkage'' (Inr None),
     identity_check None]"

definition example_release_verdict :: evidence_verdict where
  "example_release_verdict =
     (let v = verify_parsed (ee_verify example_release_env) example_release_world 9 ''y'' ''z'' (evidence_options evidence_default_policy)
      in \<lparr>ev_verdict = apply_policy evidence_default_policy (v\<lparr>v_checks := v_checks v @ example_release_extra\<rparr>),
          ev_identity = \<lparr>io_required = None, io_verified = None, io_principals = \<lparr>evidence_producer = v_signed_by v,
            workflow_principal = None, artifact_signer = None\<rparr>\<rparr>\<rparr>)"

lemma example_release_proofs:
  "assess_proofs example_release_env example_release files = [proof_result ''capsule'' (Inr None), proof_result ''chain-linkage'' (Inr None)]"
  using example_release_steps
  by (auto simp: assess_proofs_def assess_capsules_def assess_causal_def capsule_hashes_def List.map_filter_simps)

lemma example_release_verified:
  "evidence_verify example_release_env example_release_world 9 ''z'' (Some ''z'') None Map.empty None = Inr example_release_verdict"
proof -
  have policy: "effective_policy evidence_default_policy False = evidence_default_policy"
    by (simp add: effective_policy_def evidence_default_policy_def)
  have b: "verify_receipt_bytes (ee_verify example_release_env) example_release_world 9 ''y'' ''z'' opts =
      Inr (verify_parsed (ee_verify example_release_env) example_release_world 9 ''y'' ''z'' opts)" for opts
    by (simp add: verify_receipt_bytes_def ensure_def RECEIPT_SCHEMA_VERSION_def)
  have logs: "log_checks example_release_env EVIDENCE_FORMAT bs files evidence_default_policy no_log_material = []" for bs files
    by (simp add: log_checks_def no_log_material_def evidence_default_policy_def EVIDENCE_FORMAT_def EVIDENCE_PUBLICATION_FORMAT_def)
  show ?thesis
    unfolding evidence_verify_def verify_with_policy_def verify_with_policy_and_log_def
    by (simp add: example_release_read policy b logs example_release_checked example_release_proofs ensure_def MAX_RECEIPT_BYTES_def
        example_release_verdict_def example_release_extra_def Let_def)
qed

lemma example_release_passed: "verdict_passed (ev_verdict example_release_verdict)"
proof -
  have exec: "v_execution (verify_parsed (ee_verify example_release_env) example_release_world 9 ''y'' ''z'' opts) =
      Some (execution_outcome example_release)" for opts by (intro verify_parsed_execution) simp
  have out: "eo_outcome (execution_outcome example_release) = ''success''"
    using example_release_steps by (auto simp: execution_success)
  show ?thesis
    unfolding verdict_passed_def example_release_verdict_def Let_def evidence_verdict.select_convs apply_policy_verdict
    using example_release_consistent
    by (simp add: example_release_parsed example_release_checks_def example_release_extra_def evidence_default_policy_def
        requirement_reason_def check_reason_def exec out check_names mk_check_def artifacts_check_def proof_result_def identity_check_def)
qed

theorem evidence_sound_witness:
  "\<exists>r k. signature_good (ee_verify example_release_env) example_release_world (evidence_options evidence_default_policy) r k \<and>
     capsules_proved example_release_env r example_release_files"
proof -
  have v: "verify_with_policy_and_log example_release_env example_release_world 9 ''z'' (Some ''z'') None Map.empty None
      evidence_default_policy no_log_material = Inr example_release_verdict"
    using example_release_verified by (simp add: evidence_verify_def verify_with_policy_def)
  from evidence_sound [OF v example_release_passed] obtain entries fmt bs r where
    "entries = example_release_entries"
    and s: "evidence_soundly example_release_env example_release_world fmt bs entries
      (map_of (rev (map (\<lambda>e. (ae_path e, ae_bytes e)) entries))) None None Map.empty evidence_default_policy no_log_material r example_release_verdict"
    using example_release_read by auto
  then show ?thesis
    by (auto simp: evidence_soundly_def receipt_sound_def evidence_options_def evidence_default_policy_def)
qed

theorem delivered_bytes_binding_witness:
  "\<exists>a'\<in>set (listed_artifacts example_release). artifact_digest a' = to_hex (digest_of ''x'')"
proof -
  obtain s where s: "s \<in> set (r_steps example_release)" "sr_name s = ''build''" using example_release_steps by auto
  have inj: "inj_on digest_of ({artifact_manifest (step_entries (listed_artifacts example_release) (sr_name s)),
      artifact_manifest (step_entries (listed_artifacts example_release) (sr_name s))} \<union> ran example_release_files \<union> ran example_release_files)"
  proof -
    have "ran example_release_files = {''x'', ''m'', ''y''}"
      by (subst ran_distinct) (auto simp: example_release_entries_def)
    moreover obtain rest where "artifact_manifest (step_entries (listed_artifacts example_release) (sr_name s)) = ''attest'' @ rest"
      by (simp add: artifact_manifest_entries MANIFEST_HEADER_def)
    moreover have "inj_on digest_of (insert (''attest'' @ rest) {''x'', ''m'', ''y''})"
    proof (rule inj_on_insert [THEN iffD2], intro conjI notI)
      show "inj_on digest_of {''x'', ''m'', ''y''}" by (simp add: inj_on_def digest_simps)
    next
      assume "digest_of (''attest'' @ rest) \<in> digest_of ` ({''x'', ''m'', ''y''} - {''attest'' @ rest})"
      then obtain s where s: "s \<in> {''x'', ''m'', ''y''}" "digest_of (''attest'' @ rest) = digest_of s" by blast
      then have "take 2 (take 32 ((''attest'' @ rest) @ replicate 32 (CHR 0x00))) = take 2 (take 32 (s @ replicate 32 (CHR 0x00)))"
        by (simp only: digest_of_eq_iff)
      then have "take 2 ((''attest'' @ rest) @ replicate 32 (CHR 0x00)) = take 2 (s @ replicate 32 (CHR 0x00))"
        by (simp only: take_take min_def) simp
      then show False using s(1) by (auto simp: numeral_2_eq_2)
    qed
    moreover have "{a, a} \<union> A \<union> A = insert a A" for a and A :: "char list set" by blast
    ultimately show ?thesis by (simp only:)
  qed
  have "artifact_step example_artifact = sr_name s" "example_artifact \<in> set (listed_artifacts example_release)"
    "artifact_digest example_artifact = to_hex (digest_of ''x'')"
    using s(2) by (simp_all add: example_artifact_def)
  then show ?thesis
    using delivered_bytes_binding [OF example_release_checked example_release_checked _ _ s(1) s(1) refl refl, of example_artifact] inj
    by auto
qed

end
