(* ===== verification/Interop.thy ===== *)
theory Interop
  imports Evidence
begin

text \<open>
  In-toto statements, from \<open>src/interop.rs\<close>: the projection of a receipt to an in-toto statement with SLSA
  provenance, its export in a signed DSSE envelope, and the import of an envelope against the recipient's
  trust store. The JSON codecs of the wire types, the YAML encoder of receipts, the reading and printing of
  instants, the version of the program and the range of \<open>DateTime<Utc>\<close> are parameters; times are
  nanoseconds. The sentences of errors and checks are abbreviated where they quote another component.

  Two values of a wire type are equal exactly when their JSON values are, since every member of such a
  type is a string, a list or a map of strings or an optional value whose absence is visible; the
  comparisons of JSON values in the code are comparisons of the values here.
\<close>

section \<open>Wire format\<close>

definition DSSE_PAYLOAD_TYPE :: bytes where "DSSE_PAYLOAD_TYPE = ''application/vnd.in-toto+json''"
definition STATEMENT_TYPE :: bytes where "STATEMENT_TYPE = ''https://in-toto.io/Statement/v1''"
definition PREDICATE_TYPE :: bytes where "PREDICATE_TYPE = ''https://slsa.dev/provenance/v1''"
definition BUILD_TYPE :: bytes where
  "BUILD_TYPE = ''https://github.com/Alien6-Studio/continuum-attest/blob/main/docs/specifications/attest-pipeline-v2.md''"
definition LEGACY_BUILD_TYPE :: bytes where "LEGACY_BUILD_TYPE = ''https://alien6.com/attest/pipeline/v1''"
definition UNKNOWN_BUILDER :: bytes where "UNKNOWN_BUILDER = ''urn:attest:builder:unverified''"
definition ORIGINAL_EVIDENCE_FORMAT :: bytes where "ORIGINAL_EVIDENCE_FORMAT = ''attest-original-evidence/v1''"
definition MAX_STATEMENT_BYTES :: nat where "MAX_STATEMENT_BYTES = 16 * 1024 * 1024"

record envelope_signature =
  es_keyid :: bytes
  es_sig :: bytes

record envelope =
  en_payload :: bytes
  en_payload_type :: bytes
  en_signatures :: "envelope_signature list"

record resource_descriptor =
  rd_blake3 :: bytes
  rd_name :: bytes

record embedded_blob =
  eb_content :: bytes
  eb_media_type :: bytes
  eb_sha256 :: bytes

record evidence_producer_info =
  pr_name :: bytes
  pr_version :: bytes

record original_evidence =
  oe_artifact_binding :: bytes
  oe_format :: bytes
  oe_original_signer :: "bytes option"
  oe_producer :: evidence_producer_info
  oe_receipt :: embedded_blob
  oe_semantics :: "bytes list"
  oe_trust_material :: "embedded_blob btree"
  oe_workflow :: "identity_verification option"
  oe_workflow_bundle :: "embedded_blob option"

record build_definition =
  bd_build_type :: bytes
  bd_pipeline_hash :: bytes
  bd_resolved_dependencies :: "resource_descriptor list"

record run_details =
  rn_builder :: bytes
  rn_finished_on :: bytes
  rn_invocation_id :: bytes
  rn_started_on :: bytes

record predicate =
  pd_attest :: "original_evidence option"
  pd_build_definition :: build_definition
  pd_run_details :: run_details

record statement =
  st_type :: bytes
  st_predicate :: predicate
  st_predicate_type :: bytes
  st_subject :: "resource_descriptor list"

record interop_env =
  ni_evidence :: evidence_env
  ni_version :: bytes
  ni_json_value :: "bytes \<Rightarrow> json option"
  ni_envelope_json :: "envelope \<Rightarrow> bytes"
  ni_envelope_of_value :: "json \<Rightarrow> envelope option"
  ni_statement_json :: "statement \<Rightarrow> bytes"
  ni_statement_of_json :: "bytes \<Rightarrow> statement option"
  ni_receipt_yaml :: "receipt \<Rightarrow> bytes"
  ni_rfc3339_secs :: "int \<Rightarrow> bytes"
  ni_parse_rfc3339 :: "bytes \<Rightarrow> int option"
  ni_max_utc :: int

abbreviation ni_record :: "interop_env \<Rightarrow> record_env" where "ni_record env \<equiv> ee_record (ni_evidence env)"
abbreviation ni_verify :: "interop_env \<Rightarrow> verify_env" where "ni_verify env \<equiv> ee_verify (ni_evidence env)"
abbreviation ni_blake3 :: "interop_env \<Rightarrow> bytes \<Rightarrow> digest" where "ni_blake3 env \<equiv> ee_blake3 (ni_evidence env)"
abbreviation ni_keys :: "interop_env \<Rightarrow> key_env" where "ni_keys env \<equiv> ve_keys (ni_verify env)"

datatype interop_error =
    Interop bytes
  | InEvidence evidence_error
  | InRead verify_error
  | InVerify verify_error
  | InKey key_error
  | InIdentity identity_error

fun interop_message :: "interop_error \<Rightarrow> bytes" where
  "interop_message (Interop m) = m"
| "interop_message (InEvidence e) = evidence_message e"
| "interop_message (InRead _) = ''cannot read file''"
| "interop_message (InVerify _) = ''cannot verify receipt''"
| "interop_message (InKey _) = ''unusable key''"
| "interop_message (InIdentity _) = ''workflow identity not verified''"

section \<open>Embedded files\<close>

definition sha256_hex :: "interop_env \<Rightarrow> bytes \<Rightarrow> bytes" where
  "sha256_hex env bs = to_hex (ne_sha256 (ni_record env) bs)"

definition blob_new :: "interop_env \<Rightarrow> bytes \<Rightarrow> bytes \<Rightarrow> embedded_blob" where
  "blob_new env bs media = \<lparr>eb_content = b64_encode (ni_record env) bs, eb_media_type = media, eb_sha256 = sha256_hex env bs\<rparr>"

text \<open>The limits are far below the saturation of the product.\<close>

definition blob_bytes :: "interop_env \<Rightarrow> nat \<Rightarrow> embedded_blob \<Rightarrow> (interop_error, bytes) result" where
  "blob_bytes env limit b =
     ensure (length (eb_content b) \<le> limit * 4 div 3 + 4) (Interop ''embedded evidence exceeds size limit'') (
     and_then (ok_or (b64_decode (ni_record env) (eb_content b)) (Interop ''invalid base64'')) (\<lambda>bs.
     ensure (length bs \<le> limit) (Interop ''embedded evidence exceeds size limit'') (
     ensure (sha256_hex env bs = eb_sha256 b) (Interop ''embedded evidence SHA-256 does not match its bytes'') (Inr bs))))"

section \<open>The projection\<close>

definition projection_semantics :: "bytes list" where
  "projection_semantics = [
     ''projection: the original receipt is authoritative for Attest verification'',
     ''receipt-signature and RFC3161 timestamp are carried in the original receipt'',
     ''trust-material is producer-supplied context, never recipient authorization'',
     ''step manifests, causal references, isolation, reproducibility and source observations are carried only in the original receipt'',
     ''external causal objects, capsule manifests, source files and artifact bytes are omitted and require separately delivered evidence'',
     ''resolvedDependencies is empty: input manifests are not individual resource digests'',
     ''symlinks are carried in the original inventory but are not file-digest subjects'',
     ''workflow identifies the authorizing signing workflow, not runner integrity or build correctness'',
     ''no separate artifact signature is asserted'',
     ''startedOn is derived from the producer-reported completion and duration, not trusted time'']"

definition artifact_binding :: "receipt \<Rightarrow> bytes" where
  "artifact_binding r =
     (case r_provenance r of
        Some p \<Rightarrow> if ep_artifacts p \<noteq> [] then ''signed-file-inventory'' else ''unavailable''
      | None \<Rightarrow> ''unavailable'')"

fun collect_subjects :: "artifact_info list \<Rightarrow> bytes btree \<Rightarrow> (interop_error, bytes btree) result" where
  "collect_subjects [] subjects = Inr subjects"
| "collect_subjects (a # as) subjects =
     (if artifact_kind a \<noteq> ''file'' then collect_subjects as subjects
      else
        ensure (case map_of subjects (artifact_path a) of Some previous \<Rightarrow> previous = artifact_digest a | None \<Rightarrow> True)
          (Interop ''one artifact path has conflicting digests'') (
        collect_subjects as (btree_insert (artifact_path a) (artifact_digest a) subjects)))"

definition receipt_subjects :: "interop_env \<Rightarrow> receipt \<Rightarrow> (interop_error, bytes btree) result" where
  "receipt_subjects env r =
     (if artifact_binding r \<noteq> ''unavailable'' then
        and_then (map_err InEvidence (inventory (ni_blake3 env) r)) (\<lambda>_.
        and_then (ok_or (r_provenance r) (Interop ''missing artifact inventory'')) (\<lambda>p.
        collect_subjects (ep_artifacts p) []))
      else Inr [])"

text \<open>\<open>checked_sub_signed\<close> fails below the earliest \<open>DateTime<Utc>\<close>; a duration has at most \<open>i64::MAX\<close> milliseconds.\<close>

definition start_time :: "interop_env \<Rightarrow> int \<Rightarrow> u64 \<Rightarrow> (interop_error, int) result" where
  "start_time env finished duration =
     ensure (unat duration < 2 ^ 63) (Interop ''total_duration_secs out of range'') (
     ensure (unat duration \<le> (2 ^ 63 - 1) div 1000) (Interop ''total_duration_secs out of range'') (
     let started = finished - int (unat duration) * 10 ^ 9 in
     ensure (min_utc (ve_trust (ni_verify env)) \<le> started) (Interop ''derived start time is out of range'') (Inr started)))"

definition project_receipt :: "interop_env \<Rightarrow> receipt \<Rightarrow> original_evidence \<Rightarrow> (interop_error, statement) result" where
  "project_receipt env r evidence =
     and_then (receipt_subjects env r) (\<lambda>subjects.
     let subject = map (\<lambda>(name, d). \<lparr>rd_blake3 = d, rd_name = name\<rparr>) subjects;
         builder = (case oe_workflow evidence of Some iv \<Rightarrow> iv_workflow iv | None \<Rightarrow> UNKNOWN_BUILDER) in
     and_then (start_time env (r_timestamp r) (r_total_duration_secs r)) (\<lambda>started.
     Inr \<lparr>st_type = STATEMENT_TYPE,
       st_predicate = \<lparr>pd_attest = Some evidence,
         pd_build_definition = \<lparr>bd_build_type = BUILD_TYPE, bd_pipeline_hash = r_pipeline_hash r, bd_resolved_dependencies = []\<rparr>,
         pd_run_details = \<lparr>rn_builder = builder, rn_finished_on = ni_rfc3339_secs env (r_timestamp r),
           rn_invocation_id = eb_sha256 (oe_receipt evidence), rn_started_on = ni_rfc3339_secs env started\<rparr>\<rparr>,
       st_predicate_type = PREDICATE_TYPE, st_subject = subject\<rparr>))"

definition producer_info :: "interop_env \<Rightarrow> evidence_producer_info" where
  "producer_info env = \<lparr>pr_name = ''continuum-attest'', pr_version = ni_version env\<rparr>"

definition statement_from_receipt :: "interop_env \<Rightarrow> receipt \<Rightarrow> (interop_error, statement) result" where
  "statement_from_receipt env r =
     project_receipt env r \<lparr>oe_artifact_binding = artifact_binding r, oe_format = ORIGINAL_EVIDENCE_FORMAT,
       oe_original_signer = r_signer_public_key r, oe_producer = producer_info env,
       oe_receipt = blob_new env (ni_receipt_yaml env r) ''application/yaml'', oe_semantics = projection_semantics,
       oe_trust_material = [], oe_workflow = None, oe_workflow_bundle = None\<rparr>"

text \<open>DSSE pre-authentication encoding.\<close>

definition pae :: "bytes \<Rightarrow> bytes \<Rightarrow> bytes" where
  "pae payload_type body =
     ''DSSEv1 '' @ show_nat (length payload_type) @ '' '' @ payload_type @ '' '' @ show_nat (length body) @ '' '' @ body"

section \<open>Export\<close>

record export_options =
  ex_allow_unsigned :: bool
  ex_key :: "bytes option"
  ex_identity_bundle :: "bytes option option"
  ex_identity_policy :: "identity_policy option"

datatype export_warning =
    NoInventory | ProjectionOnly | EmptySubject | UnsignedReceiptWarning | OtherSigner bytes bytes | NoLocalKey

datatype interop_export =
    Written bytes "export_warning list"
  | UnsignedReceipt
  | InvalidReceiptSignature "sign_error option"
  | NoEnvelopeKey

text \<open>A directory of public trust material: whether it is reached through a symbolic link, and its entries in the
  order they are read, each a regular file with its content or something else.\<close>

datatype snapshot_item = RegularFile "bytes option" | OtherItem

record snapshot_dir =
  sd_symlink :: bool
  sd_entries :: "(bytes \<times> snapshot_item) list"

definition snapshot_selected :: "bytes \<Rightarrow> bytes \<Rightarrow> bool" where
  "snapshot_selected directory name =
     (if directory = [] then name = ''trust.toml'' \<or> ends_with name ''.pub''
      else if directory = ''tsa'' then list_ex (ends_with name) [''.crt'', ''.pem'', ''.der'']
      else if directory = ''bundles'' then ends_with name ''.json''
      else False)"

fun snapshot_entries ::
  "interop_env \<Rightarrow> bytes \<Rightarrow> (bytes \<times> snapshot_item) list \<Rightarrow> embedded_blob btree \<times> nat
    \<Rightarrow> (interop_error, embedded_blob btree \<times> nat) result" where
  "snapshot_entries env directory [] state = Inr state"
| "snapshot_entries env directory ((name, item) # rest) (files, sz) =
     (if \<not> snapshot_selected directory name then snapshot_entries env directory rest (files, sz)
      else
        (case item of
           OtherItem \<Rightarrow> Inl (Interop ''public trust material is not a regular file'')
         | RegularFile content \<Rightarrow>
             and_then (map_err InRead (read_bounded (1024 * 1024) content)) (\<lambda>bs.
             let sz = sz + length bs in
             ensure (sz \<le> 4 * 1024 * 1024 \<and> length files < 256) (Interop ''public trust snapshot exceeds size limit'') (
             let relative = (if directory = [] then name else directory @ ''/'' @ name) in
             snapshot_entries env directory rest
               (btree_insert relative (blob_new env bs ''application/octet-stream'') files, sz)))))"

fun snapshot_dirs ::
  "interop_env \<Rightarrow> (bytes \<rightharpoonup> snapshot_dir) \<Rightarrow> bytes list \<Rightarrow> embedded_blob btree \<times> nat
    \<Rightarrow> (interop_error, embedded_blob btree \<times> nat) result" where
  "snapshot_dirs env dirs [] state = Inr state"
| "snapshot_dirs env dirs (directory # rest) state =
     (case dirs directory of
        None \<Rightarrow> snapshot_dirs env dirs rest state
      | Some d \<Rightarrow>
          ensure (\<not> sd_symlink d) (Interop ''public trust directory is a symlink'') (
          and_then (snapshot_entries env directory (sd_entries d) state) (snapshot_dirs env dirs rest)))"

definition public_trust_snapshot ::
  "interop_env \<Rightarrow> (bytes \<rightharpoonup> snapshot_dir) \<Rightarrow> (interop_error, embedded_blob btree) result" where
  "public_trust_snapshot env dirs =
     and_then (snapshot_dirs env dirs ['''', ''tsa'', ''bundles''] ([], 0)) (\<lambda>(files, _). Inr files)"

text \<open>Every listed artifact is in a directory with the bytes of its digest; \<open>message\<close> begins the error.\<close>

fun match_artifacts :: "interop_env \<Rightarrow> fs \<Rightarrow> path \<Rightarrow> bytes \<Rightarrow> artifact_info list \<Rightarrow> (interop_error, unit) result" where
  "match_artifacts env f root message [] = Inr ()"
| "match_artifacts env f root message (a # as) =
     and_then (map_err InEvidence (artifact_bytes f root a)) (\<lambda>bs.
     ensure (to_hex (ni_blake3 env bs) = artifact_digest a) (Interop (message @ artifact_path a)) (
     match_artifacts env f root message as))"

definition export_artifacts ::
  "interop_env \<Rightarrow> fs \<Rightarrow> path \<Rightarrow> receipt \<Rightarrow> (interop_error, export_warning list) result" where
  "export_artifacts env f workspace r =
     (if artifact_binding r \<noteq> ''unavailable'' then
        and_then (map_err InEvidence (inventory (ni_blake3 env) r)) (\<lambda>_.
        and_then (ok_or (r_provenance r) (Interop ''missing artifact inventory'')) (\<lambda>p.
        and_then (match_artifacts env f workspace ''artifact differs from the original receipt: '' (ep_artifacts p)) (\<lambda>_. Inr [])))
      else Inr [NoInventory])"

text \<open>The receipt's own signature: whether the receipt is signed, or the outcome that ends the export.\<close>

definition export_signed :: "interop_env \<Rightarrow> export_options \<Rightarrow> receipt \<Rightarrow> (interop_export, bool) result" where
  "export_signed env opts r =
     (case (r_signature r, r_signer_public_key r) of
        (Some sig, Some key) \<Rightarrow>
          (case verify_with_public_key (ke_ed (ni_keys env)) key (receipt_signing_bytes (ve_receipt_json (ni_verify env)) r) sig of
             Inr True \<Rightarrow> Inr True
           | Inr False \<Rightarrow> Inl (InvalidReceiptSignature None)
           | Inl e \<Rightarrow> Inl (InvalidReceiptSignature (Some e)))
      | _ \<Rightarrow> ensure (ex_allow_unsigned opts) UnsignedReceipt (Inr False))"

definition export_workflow ::
  "interop_env \<Rightarrow> export_options \<Rightarrow> (bytes \<rightharpoonup> bytes) \<Rightarrow> bytes
    \<Rightarrow> (interop_error, identity_verification option \<times> embedded_blob option) result" where
  "export_workflow env opts roots content =
     ensure ((ex_identity_bundle opts \<noteq> None) = (ex_identity_policy opts \<noteq> None))
       (Interop ''workflow export requires both --identity-bundle and --identity-policy'') (
     (case (ex_identity_bundle opts, ex_identity_policy opts) of
        (Some file, Some p) \<Rightarrow>
          and_then (map_err InRead (read_bounded MAX_IDENTITY_BYTES file)) (\<lambda>bs.
          and_then (map_err InIdentity (verify_receipt_identity (ee_identity (ni_evidence env)) (Some content) (Some bs) roots p)) (\<lambda>iv.
          Inr (Some iv, Some (blob_new env bs ''application/vnd.dev.sigstore.bundle.v0.3+json''))))
      | _ \<Rightarrow> Inr (None, None)))"

definition export_trust ::
  "interop_env \<Rightarrow> export_options \<Rightarrow> (bytes \<rightharpoonup> bytes) \<Rightarrow> (bytes \<rightharpoonup> snapshot_dir) \<Rightarrow> (interop_error, embedded_blob btree) result" where
  "export_trust env opts roots dirs =
     and_then (public_trust_snapshot env dirs) (\<lambda>files.
     (case ex_identity_policy opts of
        None \<Rightarrow> Inr files
      | Some p \<Rightarrow>
          and_then (map_err InRead (read_bounded MAX_IDENTITY_BYTES (roots (ip_trusted_root p)))) (\<lambda>root.
          Inr (btree_insert ''sigstore-trusted-root.json'' (blob_new env root ''application/json'') files))))"

text \<open>The key of the envelope: the one asked for, else the receipt's own if its private half is here, else the
  only local one; none for an unsigned receipt.\<close>

definition export_key_request ::
  "interop_env \<Rightarrow> export_options \<Rightarrow> key_store \<Rightarrow> receipt \<Rightarrow> (interop_error, bytes option) result" where
  "export_key_request env opts ks r =
     (case (ex_key opts, r_signer_public_key r) of
        (Some i, _) \<Rightarrow> Inr (Some i)
      | (None, Some key) \<Rightarrow>
          and_then (map_err InKey (key_id_from_hex (ni_keys env) key)) (\<lambda>i.
          Inr (if keys_files ks (key_name i) \<noteq> None then Some i else None))
      | (None, None) \<Rightarrow> Inr None)"

definition export_signing_key ::
  "interop_env \<Rightarrow> export_options \<Rightarrow> bytes list \<Rightarrow> key_store \<Rightarrow> receipt \<Rightarrow> bool \<Rightarrow> (interop_error, digest option) result" where
  "export_signing_key env opts listing ks r is_signed =
     (if is_signed then
        and_then (export_key_request env opts ks r) (\<lambda>requested.
        map_err InKey (select_signing_key (ni_keys env) listing ks requested))
      else Inr None)"

definition signer_warning :: "interop_env \<Rightarrow> digest \<Rightarrow> receipt \<Rightarrow> export_warning list" where
  "signer_warning env pk r =
     (case r_signer_public_key r of
        Some key \<Rightarrow>
          if hex_encode (digest_bytes pk) \<noteq> key
          then [OtherSigner (key_id (ni_keys env) pk) (case key_id_from_hex (ni_keys env) key of Inr i \<Rightarrow> i | Inl _ \<Rightarrow> key)]
          else []
      | None \<Rightarrow> [])"

text \<open>The signatures of the envelope with the warnings about them; none if a signed receipt has no key to be
  exported with.\<close>

definition envelope_signatures ::
  "interop_env \<Rightarrow> export_options \<Rightarrow> receipt \<Rightarrow> bool \<Rightarrow> bytes \<Rightarrow> digest option \<Rightarrow> (envelope_signature list \<times> export_warning list) option" where
  "envelope_signatures env opts r is_signed body key =
     (case key of
        Some sk \<Rightarrow>
          let pk = public_of (ke_ed (ni_keys env)) sk in
          Some ([\<lparr>es_keyid = key_id (ni_keys env) pk,
              es_sig = b64_encode (ni_record env) (ed_sign (ke_ed (ni_keys env)) sk (pae DSSE_PAYLOAD_TYPE body))\<rparr>],
            signer_warning env pk r)
      | None \<Rightarrow>
          if \<not> is_signed \<or> ex_allow_unsigned opts then Some ([], if is_signed then [NoLocalKey] else []) else None)"

definition export_evidence ::
  "interop_env \<Rightarrow> receipt \<Rightarrow> bytes \<Rightarrow> embedded_blob btree \<Rightarrow> identity_verification option \<times> embedded_blob option \<Rightarrow> original_evidence" where
  "export_evidence env r content trust claim =
     \<lparr>oe_artifact_binding = artifact_binding r, oe_format = ORIGINAL_EVIDENCE_FORMAT,
      oe_original_signer = r_signer_public_key r, oe_producer = producer_info env,
      oe_receipt = blob_new env content ''application/yaml'', oe_semantics = projection_semantics,
      oe_trust_material = trust, oe_workflow = fst claim, oe_workflow_bundle = snd claim\<rparr>"

text \<open>\<open>f\<close> and \<open>workspace\<close> hold the artifacts, \<open>roots\<close> the files an identity policy may name, \<open>dirs\<close> the trust
  directory, \<open>ks\<close> the key store with the order in which its directory of private keys is read.\<close>

definition export_receipt_file ::
  "interop_env \<Rightarrow> fs \<Rightarrow> path \<Rightarrow> (bytes \<rightharpoonup> bytes) \<Rightarrow> (bytes \<rightharpoonup> snapshot_dir) \<Rightarrow> bytes list \<Rightarrow> key_store \<Rightarrow> bytes option
    \<Rightarrow> export_options \<Rightarrow> (interop_error, interop_export) result" where
  "export_receipt_file env f workspace roots dirs listing ks file opts =
     and_then (map_err InRead (read_bounded MAX_RECEIPT_BYTES file)) (\<lambda>content.
     and_then (ok_or (ve_receipt_of_yaml (ni_verify env) content) (Interop ''invalid receipt'')) (\<lambda>r.
     (case export_signed env opts r of
        Inl outcome \<Rightarrow> Inr outcome
      | Inr is_signed \<Rightarrow>
          and_then (export_artifacts env f workspace r) (\<lambda>warns.
          and_then (export_workflow env opts roots content) (\<lambda>claim.
          and_then (export_trust env opts roots dirs) (\<lambda>trust.
          and_then (project_receipt env r (export_evidence env r content trust claim)) (\<lambda>st.
          let warns = warns @ [ProjectionOnly] @ (if st_subject st = [] then [EmptySubject] else []);
              body = ni_statement_json env st in
          and_then (export_signing_key env opts listing ks r is_signed) (\<lambda>key.
          let warns = warns @ (if is_signed then [] else [UnsignedReceiptWarning]) in
          (case envelope_signatures env opts r is_signed body key of
             None \<Rightarrow> Inr NoEnvelopeKey
           | Some (sigs, notes) \<Rightarrow>
               let json = ni_envelope_json env \<lparr>en_payload = b64_encode (ni_record env) body,
                     en_payload_type = DSSE_PAYLOAD_TYPE, en_signatures = sigs\<rparr> @ [CHR 0x0A] in
               ensure (length json \<le> MAX_STATEMENT_BYTES)
                 (Interop ''exported envelope exceeds the supported statement size limit'') (
               Inr (Written json (warns @ notes))))))))))))"

section \<open>Import\<close>

record import_options =
  im_trust_statement_time :: bool
  im_policy :: "requirement list"
  im_identity_policy :: "identity_policy option"
  im_artifact_root :: "(fs \<times> path) option"

datatype import_warning = WarnLegacy | WarnProjection | WarnStatementRevokedLater bytes int

record interop_outcome =
  nt_projection :: bool
  nt_envelope_signer :: "bytes option"
  nt_original_signer :: "bytes option"
  nt_original_receipt_sha256 :: "bytes option"
  nt_original_verdict :: "receipt_verdict option"
  nt_semantics :: "bytes list"

text \<open>The report of an import. Its own warnings are a list beside the verdict, whose list stays empty.\<close>

record interop_verdict =
  nv_verdict :: receipt_verdict
  nv_warnings :: "import_warning list"
  nv_identity :: "identity_outcome option"
  nv_interop :: "interop_outcome option"

definition quoted :: "bytes \<Rightarrow> bytes" where "quoted s = [CHR 0x27] @ s @ [CHR 0x27]"

definition parse_envelope :: "interop_env \<Rightarrow> json \<Rightarrow> (bytes, envelope \<times> bytes \<times> statement) result" where
  "parse_envelope env v =
     and_then (ok_or (ni_envelope_of_value env v) ''not a DSSE envelope'') (\<lambda>en.
     ensure (en_payload_type en = DSSE_PAYLOAD_TYPE) (''unsupported payloadType '' @ quoted (en_payload_type en)) (
     and_then (ok_or (b64_decode (ni_record env) (en_payload en)) ''payload is not valid base64'') (\<lambda>body.
     and_then (ok_or (ni_statement_of_json env body) ''payload is not an in-toto statement'') (\<lambda>st.
     ensure (st_type st = STATEMENT_TYPE) (''unsupported statement _type '' @ quoted (st_type st)) (
     ensure (st_predicate_type st = PREDICATE_TYPE) (''unsupported predicateType '' @ quoted (st_predicate_type st)) (
     Inr (en, body, st)))))))"

abbreviation st_build_type :: "statement \<Rightarrow> bytes" where
  "st_build_type st \<equiv> bd_build_type (pd_build_definition (st_predicate st))"

definition statement_problems :: "interop_env \<Rightarrow> statement \<Rightarrow> bytes list" where
  "statement_problems env st =
     (let build = pd_build_definition (st_predicate st); run = pd_run_details (st_predicate st) in
      (if bd_build_type build \<noteq> BUILD_TYPE \<and> bd_build_type build \<noteq> LEGACY_BUILD_TYPE
       then [''buildType '' @ quoted (bd_build_type build) @ '' is not the ATTEST pipeline buildType''] else []) @
      (if \<not> is_digest_text (bd_pipeline_hash build) then [''pipelineHash is not a 64-char lowercase hex digest''] else []) @
      map (\<lambda>d. quoted (rd_name d) @ '': blake3 digest is not a 64-char lowercase hex digest'')
        (filter (\<lambda>d. \<not> is_digest_text (rd_blake3 d)) (st_subject st @ bd_resolved_dependencies build)) @
      (if \<not> is_digest_text (rn_invocation_id run) then [''invocationId is not a 64-char lowercase hex digest''] else []) @
      map (\<lambda>(name, _). name @ '' is not an RFC 3339 timestamp'')
        (filter (\<lambda>(_, stamp). ni_parse_rfc3339 env stamp = None)
          [(''startedOn'', rn_started_on run), (''finishedOn'', rn_finished_on run)]) @
      (if bd_build_type build = LEGACY_BUILD_TYPE \<and> \<not> starts_with (rn_builder run) ''https://alien6.com/attest@v''
       then [''builder.id '' @ quoted (rn_builder run) @ '' is not an ATTEST builder''] else []) @
      (if st_subject st = [] \<and> bd_build_type build = LEGACY_BUILD_TYPE then [''statement has an empty subject''] else []))"

definition statement_consistency :: "interop_env \<Rightarrow> statement \<Rightarrow> check" where
  "statement_consistency env st =
     (if statement_problems env st = [] then mk_check ''consistency'' Pass (Note ''statement is coherent'')
      else mk_check ''consistency'' Fail (Note (join ''; '' (statement_problems env st))))"

text \<open>The trust directory, which is empty where there is none.\<close>

definition import_dir :: "world \<Rightarrow> bytes \<rightharpoonup> bytes" where
  "import_dir w = (case w_store w of Some store \<Rightarrow> dir_files store | None \<Rightarrow> Map.empty)"

text \<open>The revocation policy: an envelope has no timestamp token, so only the statement's own time can be used, and
  only when asked for.\<close>

definition dsse_revocation ::
  "interop_env \<Rightarrow> import_options \<Rightarrow> statement \<Rightarrow> bytes \<Rightarrow> bytes \<Rightarrow> trust_entry \<Rightarrow> (check \<times> bytes option) \<times> import_warning list" where
  "dsse_revocation env opts st keyid key entry =
     (let valid = (mk_check ''signature'' Pass (TrustedKey keyid), Some key) in
      if entry_status entry = Revoked then
        let at = or_min (ve_trust (ni_verify env)) (revoked_at entry) in
        if \<not> im_trust_statement_time opts then ((mk_check ''signature'' Fail (RevokedWithoutToken keyid at), None), [])
        else
          let finished = (case ni_parse_rfc3339 env (rn_finished_on (pd_run_details (st_predicate st))) of
                Some t \<Rightarrow> t | None \<Rightarrow> ni_max_utc env) in
          if finished > at then ((mk_check ''signature'' Fail (RevokedBefore keyid at), None), [])
          else (valid, [WarnStatementRevokedLater keyid at])
      else (valid, []))"

definition dsse_fail :: "detail \<Rightarrow> (check \<times> bytes option) \<times> import_warning list" where
  "dsse_fail d = ((mk_check ''signature'' Fail d, None), [])"

definition dsse_signature_check ::
  "interop_env \<Rightarrow> world \<Rightarrow> import_options \<Rightarrow> envelope \<Rightarrow> bytes \<Rightarrow> statement \<Rightarrow> (check \<times> bytes option) \<times> import_warning list" where
  "dsse_signature_check env w opts en body st =
     (case en_signatures en of
        [] \<Rightarrow> dsse_fail (Note ''envelope is unsigned'')
      | _ # _ # _ \<Rightarrow> dsse_fail (Note ''multiple DSSE signatures are unsupported; no subset is represented as fully verified'')
      | [sig] \<Rightarrow>
     (case trust_dir_public_keys (ni_keys env) (import_dir w) (w_store_listing w) of
        Inl e \<Rightarrow> dsse_fail (StoreUnreadable e)
      | Inr trusted \<Rightarrow>
     (case trusted (es_keyid sig) of
        None \<Rightarrow> dsse_fail (UntrustedKey (es_keyid sig))
      | Some key \<Rightarrow>
     (case b64_decode (ni_record env) (es_sig sig) of
        None \<Rightarrow> dsse_fail (Note ''signature is not valid base64'')
      | Some bs \<Rightarrow>
     (case verify_with_public_key (ke_ed (ni_keys env)) key (pae (en_payload_type en) body) (hex_encode bs) of
        Inl e \<Rightarrow> dsse_fail (SignatureMaterial e)
      | Inr False \<Rightarrow> dsse_fail (Note ''DSSE signature does not verify against the trusted key'')
      | Inr True \<Rightarrow>
     (case policy_load (ni_keys env) (import_dir w) of
        Inl e \<Rightarrow> dsse_fail (StoreUnreadable e)
      | Inr policy \<Rightarrow>
     (case policy_entry policy (es_keyid sig) of
        None \<Rightarrow> dsse_fail (UntrustedKey (es_keyid sig))
      | Some entry \<Rightarrow> dsse_revocation env opts st (es_keyid sig) key entry)))))))"

fun check_blobs :: "interop_env \<Rightarrow> embedded_blob list \<Rightarrow> (interop_error, unit) result" where
  "check_blobs env [] = Inr ()"
| "check_blobs env (b # bs) = and_then (blob_bytes env MAX_IDENTITY_BYTES b) (\<lambda>_. check_blobs env bs)"

text \<open>The original receipt of a projection, once the statement is known to be its projection.\<close>

definition projected_receipt ::
  "interop_env \<Rightarrow> statement \<Rightarrow> (interop_error, original_evidence \<times> bytes \<times> receipt) result" where
  "projected_receipt env st =
     and_then (ok_or (pd_attest (st_predicate st)) (Interop ''v2 projection is missing original evidence'')) (\<lambda>ev.
     ensure (oe_format ev = ORIGINAL_EVIDENCE_FORMAT) (Interop ''unsupported original evidence format'') (
     ensure (eb_media_type (oe_receipt ev) = ''application/yaml'') (Interop ''unsupported original receipt media type'') (
     ensure (oe_semantics ev = projection_semantics)
       (Interop ''projection must explicitly preserve its trust and omission semantics'') (
     ensure (pr_name (oe_producer ev) \<noteq> [] \<and> pr_version (oe_producer ev) \<noteq> [])
       (Interop ''missing evidence producer tool identity'') (
     and_then (blob_bytes env MAX_RECEIPT_BYTES (oe_receipt ev)) (\<lambda>receipt_bytes.
     and_then (ok_or (ve_receipt_of_yaml (ni_verify env) receipt_bytes) (Interop ''invalid receipt'')) (\<lambda>r.
     ensure (oe_original_signer ev = r_signer_public_key r)
       (Interop ''original signer identity differs from the original receipt'') (
     ensure (oe_artifact_binding ev = artifact_binding r)
       (Interop ''artifact binding claim differs from the original receipt'') (
     ensure ((oe_workflow ev \<noteq> None) = (oe_workflow_bundle ev \<noteq> None))
       (Interop ''workflow claims require their original cryptographic evidence'') (
     ensure (length (oe_trust_material ev) \<le> 257) (Interop ''too many transported trust files'') (
     and_then (check_blobs env (map snd (oe_trust_material ev))) (\<lambda>_.
     and_then (project_receipt env r ev) (\<lambda>expected.
     ensure (st = expected) (Interop ''SLSA projection does not match its original receipt and workflow claims'') (
     Inr (ev, receipt_bytes, r)))))))))))))))"

definition original_options :: verify_options where
  "original_options = \<lparr>check_signatures = True, opt_recompute = False, trust_receipt_timestamp = False, opt_policy = [ReqSignature]\<rparr>"

definition projected_identity ::
  "interop_env \<Rightarrow> (bytes \<rightharpoonup> bytes) \<Rightarrow> original_evidence \<Rightarrow> bytes \<Rightarrow> identity_policy \<Rightarrow> (interop_error, identity_verification) result" where
  "projected_identity env roots ev receipt_bytes p =
     and_then (ok_or (oe_workflow_bundle ev) (Interop ''required workflow identity evidence is missing'')) (\<lambda>b.
     and_then (blob_bytes env MAX_IDENTITY_BYTES b) (\<lambda>bs.
     and_then (map_err InIdentity (verify_receipt_identity (ee_identity (ni_evidence env)) (Some receipt_bytes) (Some bs) roots p)) (\<lambda>iv.
     ensure (oe_workflow ev = Some iv) (Interop ''projected workflow identity differs from the authenticated certificate'') (Inr iv))))"

definition projected_identity_check :: "(interop_error, identity_verification) result option \<Rightarrow> check" where
  "projected_identity_check result =
     (case result of
        Some (Inr _) \<Rightarrow> mk_check ''identity'' Pass (Note ''original receipt workflow matches independent recipient policy'')
      | Some (Inl e) \<Rightarrow> mk_check ''identity'' Fail (Note (interop_message e))
      | None \<Rightarrow> mk_check ''identity'' Skipped (Note ''no recipient identity policy; projected builder workflow is not approved''))"

definition projected_artifacts :: "interop_env \<Rightarrow> receipt \<Rightarrow> fs \<times> path \<Rightarrow> (interop_error, unit) result" where
  "projected_artifacts env r root =
     ensure (artifact_binding r \<noteq> ''unavailable'') (Interop ''original receipt has no signed file inventory'') (
     and_then (ok_or (r_provenance r) (Interop ''missing artifact inventory'')) (\<lambda>p.
     match_artifacts env (fst root) (snd root) ''delivered artifact differs from original receipt: '' (ep_artifacts p)))"

definition projected_artifacts_check :: "(interop_error, unit) result option \<Rightarrow> check" where
  "projected_artifacts_check result =
     (case result of
        Some (Inr _) \<Rightarrow> mk_check ''artifacts'' Pass (Note ''delivered bytes match the original signed file inventory'')
      | Some (Inl e) \<Rightarrow> mk_check ''artifacts'' Fail (Note (interop_message e))
      | None \<Rightarrow> mk_check ''artifacts'' Skipped (Note ''artifact bytes were not provided; use --artifact-root and --require artifacts''))"

definition copied_timestamp :: "receipt_verdict \<Rightarrow> check list" where
  "copied_timestamp original =
     (case find (\<lambda>c. check_name c = ''timestamp'') (v_checks original) of
        Some c \<Rightarrow> [mk_check ''timestamp'' (check_status c) (check_detail c)] | None \<Rightarrow> [])"

definition verify_original_projection ::
  "interop_env \<Rightarrow> world \<Rightarrow> int \<Rightarrow> (bytes \<rightharpoonup> bytes) \<Rightarrow> import_options \<Rightarrow> statement \<Rightarrow> interop_verdict
    \<Rightarrow> (interop_error, bool \<times> interop_verdict) result" where
  "verify_original_projection env w now roots opts st nv =
     and_then (projected_receipt env st) (\<lambda>(ev, receipt_bytes, r).
     and_then (map_err InVerify (verify_receipt_bytes (ni_verify env) w now receipt_bytes ''embedded original receipt'' original_options)) (\<lambda>original.
     let passed = verdict_passed original;
         identified = map_option (projected_identity env roots ev receipt_bytes) (im_identity_policy opts);
         verified = (case identified of Some (Inr iv) \<Rightarrow> Some iv | _ \<Rightarrow> None);
         v = nv_verdict nv;
         v = v\<lparr>v_checks := v_checks v @
                [mk_check ''original-evidence'' (if passed then Pass else Fail)
                  (Note ''original receipt verified independently against recipient trust; see interop.original_verdict'')] @
                copied_timestamp original @ [projected_identity_check identified,
                projected_artifacts_check (map_option (projected_artifacts env r) (im_artifact_root opts))],
              v_execution := (case v_execution original of Some e \<Rightarrow> Some e | None \<Rightarrow> v_execution v),
              v_trust_material := (case v_trust_material original of Some m \<Rightarrow> Some m | None \<Rightarrow> v_trust_material v)\<rparr>
     in Inr (passed, nv\<lparr>nv_verdict := v, nv_warnings := nv_warnings nv @ [WarnProjection],
          nv_identity := Some \<lparr>io_required = im_identity_policy opts, io_verified = verified,
            io_principals = \<lparr>evidence_producer = v_signed_by original, workflow_principal = map_option iv_workflow verified,
              artifact_signer = None\<rparr>\<rparr>,
          nv_interop := map_option (\<lambda>t. t\<lparr>nt_original_signer := v_signed_by original,
            nt_original_receipt_sha256 := Some (eb_sha256 (oe_receipt ev)), nt_original_verdict := Some original\<rparr>) (nv_interop nv)\<rparr>)))"

text \<open>A legacy statement carries no receipt.\<close>

definition legacy_checks :: "import_options \<Rightarrow> check list" where
  "legacy_checks opts =
     [mk_check ''original-evidence'' Skipped (Note ''legacy projection carries no original receipt''),
      mk_check ''artifacts'' Skipped (Note ''legacy step manifest digests do not identify artifact bytes''),
      mk_check ''identity'' (if im_identity_policy opts \<noteq> None then Fail else Skipped)
        (Note ''legacy projection carries no workflow identity evidence'')]"

definition add_checks :: "check list \<Rightarrow> interop_verdict \<Rightarrow> interop_verdict" where
  "add_checks cs nv = nv\<lparr>nv_verdict := (nv_verdict nv)\<lparr>v_checks := v_checks (nv_verdict nv) @ cs\<rparr>\<rparr>"

definition judge_original ::
  "interop_env \<Rightarrow> world \<Rightarrow> int \<Rightarrow> (bytes \<rightharpoonup> bytes) \<Rightarrow> import_options \<Rightarrow> statement \<Rightarrow> interop_verdict \<Rightarrow> bool \<times> interop_verdict" where
  "judge_original env w now roots opts st nv =
     (if st_build_type st = BUILD_TYPE then
        (case verify_original_projection env w now roots opts st nv of
           Inr result \<Rightarrow> result
         | Inl e \<Rightarrow> (False, add_checks [mk_check ''original-evidence'' Fail (Note (interop_message e))] nv))
      else (True, add_checks (legacy_checks opts) (nv\<lparr>nv_warnings := nv_warnings nv @ [WarnLegacy]\<rparr>)))"

definition import_policy :: "import_options \<Rightarrow> requirement list" where
  "import_policy opts =
     (if im_identity_policy opts \<noteq> None \<and> ReqIdentity \<notin> set (im_policy opts) then im_policy opts @ [ReqIdentity] else im_policy opts)"

definition unidentified :: "import_options \<Rightarrow> identity_outcome option" where
  "unidentified opts = map_option (\<lambda>p. \<lparr>io_required = Some p, io_verified = None,
     io_principals = \<lparr>evidence_producer = None, workflow_principal = None, artifact_signer = None\<rparr>\<rparr>) (im_identity_policy opts)"

definition empty_verdict :: "bytes \<Rightarrow> receipt_verdict" where
  "empty_verdict name = \<lparr>v_receipt = name, v_verdict = ''fail'', v_checks = [], v_signed_by = None, v_warnings = [],
     v_trust_material = None, v_execution = None, v_policy = None\<rparr>"

definition apply_import_policy :: "import_options \<Rightarrow> interop_verdict \<Rightarrow> interop_verdict" where
  "apply_import_policy opts nv = nv\<lparr>nv_verdict := apply_policy (import_policy opts) (nv_verdict nv)\<rparr>"

definition signature_summary :: "statement \<Rightarrow> bool \<Rightarrow> check" where
  "signature_summary st passed =
     mk_check ''signature'' (if passed then Pass else Fail)
       (Note (if st_build_type st = BUILD_TYPE
              then ''requires both trusted DSSE signature and independently trusted original receipt''
              else ''legacy DSSE envelope signature only; original receipt trust is unavailable''))"

definition import_statement_file ::
  "interop_env \<Rightarrow> world \<Rightarrow> int \<Rightarrow> (bytes \<rightharpoonup> bytes) \<Rightarrow> bytes \<Rightarrow> bytes option \<Rightarrow> import_options
    \<Rightarrow> (interop_error, interop_verdict) result" where
  "import_statement_file env w now roots name file opts =
     and_then (map_err InRead (read_bounded MAX_STATEMENT_BYTES file)) (\<lambda>content.
     and_then (ok_or (ni_json_value env content) (Interop ''unreadable JSON'')) (\<lambda>v.
     let nv = \<lparr>nv_verdict = empty_verdict name, nv_warnings = [], nv_identity = unidentified opts, nv_interop = None\<rparr> in
     (case parse_envelope env v of
        Inl e \<Rightarrow> Inr (apply_import_policy opts (add_checks [mk_check ''schema'' Fail (Note e)] nv))
      | Inr (en, body, st) \<Rightarrow>
          let ((dsse, signer), warns) = dsse_signature_check env w opts en body st;
              nv = add_checks [mk_check ''schema'' Pass (Note ''DSSE envelope and in-toto statement match schema''),
                     statement_consistency env st, dsse\<lparr>check_name := ''dsse-signature''\<rparr>]
                   (nv\<lparr>nv_verdict := (nv_verdict nv)\<lparr>v_signed_by := signer\<rparr>, nv_warnings := warns,
                     nv_interop := Some \<lparr>nt_projection = True, nt_envelope_signer = signer, nt_original_signer = None,
                       nt_original_receipt_sha256 = None, nt_original_verdict = None, nt_semantics = projection_semantics\<rparr>\<rparr>);
              (original_passed, nv) = judge_original env w now roots opts st nv
          in Inr (apply_import_policy opts
               (add_checks [signature_summary st (check_status dsse = Pass \<and> original_passed)] nv)))))"

section \<open>Properties\<close>

subsection \<open>The signed message\<close>

lemma show_nat_no_space: "CHR '' '' \<notin> set (show_nat n)"
  using show_nat_chars [of "CHR '' ''" n] by (auto simp: is_digit_def)

text \<open>
  The bytes a DSSE signature covers determine the payload type and the payload: no two envelopes with different
  types or payloads have the same pre-authentication encoding, so a signature on one is not a signature on another.
\<close>

theorem pae_inject: "pae t p = pae t' p' \<longleftrightarrow> t = t' \<and> p = p'"
proof
  have sep: "show_nat m @ CHR '' '' # x = show_nat n @ CHR '' '' # y \<longleftrightarrow> m = n \<and> x = y" for m n x y
    using delimited_eq [OF show_nat_no_space show_nat_no_space] by simp
  assume "pae t p = pae t' p'"
  then have "show_nat (length t) @ CHR '' '' # (t @ CHR '' '' # (show_nat (length p) @ CHR '' '' # p)) =
      show_nat (length t') @ CHR '' '' # (t' @ CHR '' '' # (show_nat (length p') @ CHR '' '' # p'))"
    by (simp add: pae_def)
  then have "length t = length t' \<and>
      t @ CHR '' '' # (show_nat (length p) @ CHR '' '' # p) = t' @ CHR '' '' # (show_nat (length p') @ CHR '' '' # p')"
    unfolding sep .
  then have "t = t'" "show_nat (length p) @ CHR '' '' # p = show_nat (length p') @ CHR '' '' # p'" by auto
  then show "t = t' \<and> p = p'" unfolding sep by simp
qed simp

subsection \<open>Embedded files\<close>

lemma blob_bytes_sound:
  "blob_bytes env limit b = Inr bs \<Longrightarrow> length bs \<le> limit \<and> sha256_hex env bs = eb_sha256 b \<and>
   b64_decode (ni_record env) (eb_content b) = Some bs"
  by (auto simp: blob_bytes_def result_simps)

text \<open>What the codec promises: decoding inverts encoding, three bytes take four characters.\<close>

definition b64_faithful :: "interop_env \<Rightarrow> bool" where
  "b64_faithful env \<longleftrightarrow> (\<forall>bs. b64_decode (ni_record env) (b64_encode (ni_record env) bs) = Some bs \<and>
     length (b64_encode (ni_record env) bs) = 4 * ((length bs + 2) div 3))"

lemma blob_roundtrip:
  assumes "b64_faithful env" "length bs \<le> limit"
  shows "blob_bytes env limit (blob_new env bs media) = Inr bs"
proof -
  have "4 * ((length bs + 2) div 3) \<le> limit * 4 div 3 + 4" using assms(2) by linarith
  then show ?thesis using assms by (simp add: blob_bytes_def blob_new_def b64_faithful_def)
qed

subsection \<open>Projections\<close>

lemma collect_subjects_map:
  "collect_subjects as subjects = Inr result \<Longrightarrow> btree_ok subjects \<Longrightarrow> btree_ok result \<and>
   (\<forall>p d. map_of result p = Some d \<longleftrightarrow> map_of subjects p = Some d \<or>
     (\<exists>a\<in>set as. artifact_kind a = ''file'' \<and> artifact_path a = p \<and> artifact_digest a = d))"
proof (induction as arbitrary: subjects)
  case (Cons a as)
  show ?case
  proof (cases "artifact_kind a = ''file''")
    case False
    then show ?thesis using Cons by auto
  next
    case True
    then have prev: "map_of subjects (artifact_path a) = None \<or> map_of subjects (artifact_path a) = Some (artifact_digest a)"
      and rest: "collect_subjects as (btree_insert (artifact_path a) (artifact_digest a) subjects) = Inr result"
      using Cons.prems(1) by (auto simp: result_simps split: option.splits)
    show ?thesis
      using Cons.IH [OF rest btree_ok_insert [OF Cons.prems(2)]] prev True by (auto simp: map_of_btree_insert)
  qed
qed simp

lemma artifact_binding_listed: "artifact_binding r \<noteq> ''unavailable'' \<longleftrightarrow> listed_artifacts r \<noteq> []"
  by (simp add: artifact_binding_def listed_artifacts_def split: option.splits)

text \<open>What the subjects of a statement are: the files of the receipt's inventory, which holds.\<close>

definition subjects_listed :: "interop_env \<Rightarrow> receipt \<Rightarrow> statement \<Rightarrow> bool" where
  "subjects_listed env r st \<longleftrightarrow> (listed_artifacts r \<noteq> [] \<longrightarrow> inventory_holds (ni_blake3 env) r) \<and>
     distinct (map rd_name (st_subject st)) \<and>
     (\<forall>p d. (\<exists>s\<in>set (st_subject st). rd_name s = p \<and> rd_blake3 s = d) \<longleftrightarrow>
       (\<exists>a\<in>set (listed_artifacts r). artifact_kind a = ''file'' \<and> artifact_path a = p \<and> artifact_digest a = d))"

lemma receipt_subjects_map:
  assumes "receipt_subjects env r = Inr subjects"
  shows "btree_ok subjects \<and> (listed_artifacts r \<noteq> [] \<longrightarrow> inventory_holds (ni_blake3 env) r) \<and>
    (\<forall>p d. map_of subjects p = Some d \<longleftrightarrow>
      (\<exists>a\<in>set (listed_artifacts r). artifact_kind a = ''file'' \<and> artifact_path a = p \<and> artifact_digest a = d))"
proof (cases "listed_artifacts r = []")
  case True
  then have "subjects = []" using assms artifact_binding_listed [of r] by (simp add: receipt_subjects_def)
  then show ?thesis using True by (simp add: btree_ok_def)
next
  case False
  then obtain p where "r_provenance r = Some p" and as: "listed_artifacts r = ep_artifacts p"
    by (auto simp: listed_artifacts_def split: option.splits)
  then have "inventory (ni_blake3 env) r = Inr ()" "collect_subjects (listed_artifacts r) [] = Inr subjects"
    using assms False artifact_binding_listed [of r] by (auto simp: receipt_subjects_def result_simps)
  then show ?thesis using collect_subjects_map [of "listed_artifacts r" "[]"] inventory_iff by (auto simp: btree_ok_def)
qed

lemma project_receipt_fields:
  assumes "project_receipt env r ev = Inr st"
  shows "\<exists>subjects. receipt_subjects env r = Inr subjects \<and> st_subject st = map (\<lambda>(name, d). \<lparr>rd_blake3 = d, rd_name = name\<rparr>) subjects"
    "st_build_type st = BUILD_TYPE" "st_type st = STATEMENT_TYPE" "st_predicate_type st = PREDICATE_TYPE"
    "pd_attest (st_predicate st) = Some ev" "bd_pipeline_hash (pd_build_definition (st_predicate st)) = r_pipeline_hash r"
    "rn_invocation_id (pd_run_details (st_predicate st)) = eb_sha256 (oe_receipt ev)"
    "bd_resolved_dependencies (pd_build_definition (st_predicate st)) = []"
  using assms by (auto simp: project_receipt_def result_simps Let_def)

lemma project_receipt_subjects: "project_receipt env r ev = Inr st \<Longrightarrow> subjects_listed env r st"
proof -
  assume "project_receipt env r ev = Inr st"
  then obtain subjects where s: "receipt_subjects env r = Inr subjects" "st_subject st = map (\<lambda>(name, d). \<lparr>rd_blake3 = d, rd_name = name\<rparr>) subjects"
    using project_receipt_fields(1) by blast
  note m = receipt_subjects_map [OF s(1)]
  have "map rd_name (st_subject st) = map fst subjects" using s(2) by (simp add: case_prod_unfold comp_def)
  moreover have d: "distinct (map fst subjects)" using m by (auto simp: btree_ok_def strict_sorted_iff)
  moreover have "(\<exists>s\<in>set (st_subject st). rd_name s = p \<and> rd_blake3 s = d) \<longleftrightarrow> map_of subjects p = Some d" for p d
    using d by (force simp: s(2) map_of_eq_Some_iff)
  ultimately show ?thesis using m unfolding subjects_listed_def by simp
qed

subsection \<open>Import\<close>

text \<open>What an accepted envelope is: one signature over the payload, by a key the recipient's policy lists; by a revoked
  one only if the recipient takes the statement's own time, which is then no later than the revocation.\<close>

definition envelope_accepted ::
  "interop_env \<Rightarrow> world \<Rightarrow> import_options \<Rightarrow> envelope \<Rightarrow> bytes \<Rightarrow> statement \<Rightarrow> bytes \<Rightarrow> bool" where
  "envelope_accepted env w opts en body st key \<longleftrightarrow> (\<exists>sig pk bs trusted policy entry.
     en_signatures en = [sig] \<and> b64_decode (ni_record env) (es_sig sig) = Some bs \<and> hex_decode key = Some (digest_bytes pk) \<and>
     ed_verify (ke_ed (ni_keys env)) pk (pae DSSE_PAYLOAD_TYPE body) bs \<and>
     trust_dir_public_keys (ni_keys env) (import_dir w) (w_store_listing w) = Inr trusted \<and> trusted (es_keyid sig) = Some key \<and>
     policy_load (ni_keys env) (import_dir w) = Inr policy \<and> policy_entry policy (es_keyid sig) = Some entry \<and>
     (entry_status entry = Revoked \<longrightarrow> im_trust_statement_time opts \<and>
       (\<exists>t. ni_parse_rfc3339 env (rn_finished_on (pd_run_details (st_predicate st))) = Some t \<and>
         t \<le> or_min (ve_trust (ni_verify env)) (revoked_at entry))))"

lemma dsse_names: "check_name (fst (fst (dsse_signature_check env w opts en body st))) = ''signature''"
  by (simp add: dsse_signature_check_def dsse_fail_def dsse_revocation_def mk_check_def Let_def split: list.splits sum.splits option.splits bool.splits)

lemma statement_coherent_times:
  "statement_problems env st = [] \<Longrightarrow> \<exists>t. ni_parse_rfc3339 env (rn_finished_on (pd_run_details (st_predicate st))) = Some t"
  by (auto simp: statement_problems_def Let_def split: if_splits)

lemma dsse_accepted:
  assumes "dsse_signature_check env w opts en body st = ((c, signer), warns)" "check_status c = Pass"
    "en_payload_type en = DSSE_PAYLOAD_TYPE" "statement_problems env st = []"
  shows "\<exists>key. signer = Some key \<and> envelope_accepted env w opts en body st key"
proof -
  obtain t where t: "ni_parse_rfc3339 env (rn_finished_on (pd_run_details (st_predicate st))) = Some t"
    using statement_coherent_times [OF assms(4)] by blast
  obtain sig key bs trusted policy entry where s: "en_signatures en = [sig]" "b64_decode (ni_record env) (es_sig sig) = Some bs"
    "trust_dir_public_keys (ni_keys env) (import_dir w) (w_store_listing w) = Inr trusted" "trusted (es_keyid sig) = Some key"
    "verify_with_public_key (ke_ed (ni_keys env)) key (pae DSSE_PAYLOAD_TYPE body) (hex_encode bs) = Inr True"
    "policy_load (ni_keys env) (import_dir w) = Inr policy" "policy_entry policy (es_keyid sig) = Some entry"
    and rev: "dsse_revocation env opts st (es_keyid sig) key entry = ((c, signer), warns)"
    using assms(1-3) by (auto simp: dsse_signature_check_def dsse_fail_def mk_check_def split: list.splits sum.splits option.splits bool.splits)
  obtain pk where pk: "hex_decode key = Some (digest_bytes pk)" "ed_verify (ke_ed (ni_keys env)) pk (pae DSSE_PAYLOAD_TYPE body) bs"
    using verify_with_public_key_True [OF s(5)] by auto
  have "signer = Some key" "entry_status entry = Revoked \<longrightarrow> im_trust_statement_time opts \<and> t \<le> or_min (ve_trust (ni_verify env)) (revoked_at entry)"
    using rev assms(2) t by (auto simp: dsse_revocation_def mk_check_def Let_def split: if_splits)
  then show ?thesis using s pk t unfolding envelope_accepted_def by auto
qed

lemma match_artifacts_iff:
  "match_artifacts env f root message as = Inr () \<longleftrightarrow>
     (\<forall>a\<in>set as. \<exists>bs. artifact_bytes f root a = Inr bs \<and> to_hex (ni_blake3 env bs) = artifact_digest a)"
  by (induction as) (auto simp: result_simps)

text \<open>What an accepted projection is: the statement is the projection of the receipt it carries, which the recipient's
  own trust accepts; its subjects are the files of the signed inventory; the identity the recipient asks for was
  certified for that receipt, and the artifacts in the recipient's directory have the listed digests.\<close>

definition projection_accepted ::
  "interop_env \<Rightarrow> world \<Rightarrow> (bytes \<rightharpoonup> bytes) \<Rightarrow> import_options \<Rightarrow> statement \<Rightarrow> interop_verdict \<Rightarrow> bool" where
  "projection_accepted env w roots opts st nv \<longleftrightarrow> (\<exists>ev bs r outcome original.
     pd_attest (st_predicate st) = Some ev \<and> b64_decode (ni_record env) (eb_content (oe_receipt ev)) = Some bs \<and>
     ve_receipt_of_yaml (ni_verify env) bs = Some r \<and> project_receipt env r ev = Inr st \<and>
     rn_invocation_id (pd_run_details (st_predicate st)) = sha256_hex env bs \<and> subjects_listed env r st \<and>
     nv_interop nv = Some outcome \<and> nt_original_verdict outcome = Some original \<and>
     receipt_sound (ni_verify env) w original_options r original \<and>
     (\<forall>p. im_identity_policy opts = Some p \<longrightarrow> (\<exists>b iv. oe_workflow ev = Some iv \<and>
        verify_receipt_identity (ee_identity (ni_evidence env)) (Some bs) (Some b) roots p = Inr iv)) \<and>
     (\<forall>f root. im_artifact_root opts = Some (f, root) \<longrightarrow> listed_artifacts r \<noteq> [] \<and>
        (\<forall>a\<in>set (listed_artifacts r). \<exists>bs. artifact_bytes f root a = Inr bs \<and> to_hex (ni_blake3 env bs) = artifact_digest a)))"

lemma projected_receipt_sound:
  assumes "projected_receipt env st = Inr (ev, bs, r)"
  shows "pd_attest (st_predicate st) = Some ev \<and> b64_decode (ni_record env) (eb_content (oe_receipt ev)) = Some bs \<and>
     ve_receipt_of_yaml (ni_verify env) bs = Some r \<and> project_receipt env r ev = Inr st \<and>
     rn_invocation_id (pd_run_details (st_predicate st)) = sha256_hex env bs \<and> subjects_listed env r st"
proof -
  have p: "pd_attest (st_predicate st) = Some ev" "blob_bytes env MAX_RECEIPT_BYTES (oe_receipt ev) = Inr bs"
    "ve_receipt_of_yaml (ni_verify env) bs = Some r" "project_receipt env r ev = Inr st"
    using assms by (auto simp: projected_receipt_def result_simps)
  then show ?thesis
    using blob_bytes_sound [OF p(2)] project_receipt_fields(7) [OF p(4)] project_receipt_subjects [OF p(4)] by simp
qed

lemma passed_no_fail:
  assumes "verify_receipt_bytes env w now bs label opts = Inr v" "verdict_passed v"
  shows "\<forall>c\<in>set (v_checks v). check_status c \<noteq> Fail"
proof -
  obtain u where "v = apply_policy (opt_policy opts) u"
    using assms(1) by (auto simp: verify_receipt_bytes_def verify_parsed_def Let_def result_simps case_prod_unfold split: option.splits if_splits)
  then show ?thesis using assms(2) unfolding verdict_passed_def by (auto simp: apply_policy_verdict split: if_splits)
qed

lemma passed_receipt_sound:
  assumes "verify_receipt_bytes env w now bs label opts = Inr v" "verdict_passed v" "ve_receipt_of_yaml env bs = Some r"
  shows "receipt_sound env w opts r v"
proof -
  note ok = passed_no_fail [OF assms(1,2)]
  have "v = verify_parsed env w now bs label opts"
    using assms(1) ok by (auto simp: verify_receipt_bytes_def result_simps mk_check_def split: option.splits if_splits)
  with verify_parsed_checks_sound [of env w now bs label opts] ok assms(3) show ?thesis by auto
qed

lemma projected_artifacts_listed:
  assumes "projected_artifacts env r (f, root) = Inr ()"
  shows "listed_artifacts r \<noteq> [] \<and>
    (\<forall>a\<in>set (listed_artifacts r). \<exists>bs. artifact_bytes f root a = Inr bs \<and> to_hex (ni_blake3 env bs) = artifact_digest a)"
proof -
  obtain p where "artifact_binding r \<noteq> ''unavailable''" "r_provenance r = Some p"
    "match_artifacts env f root ''delivered artifact differs from original receipt: '' (ep_artifacts p) = Inr ()"
    using assms by (auto simp: projected_artifacts_def result_simps)
  then show ?thesis by (simp add: artifact_binding_listed match_artifacts_iff) (simp add: listed_artifacts_def)
qed

lemma verify_original_projection_sound:
  assumes "verify_original_projection env w now roots opts st nv = Inr (True, nv')"
    "\<forall>c\<in>set (v_checks (nv_verdict nv')). check_status c \<noteq> Fail" "nv_interop nv \<noteq> None"
  shows "projection_accepted env w roots opts st nv'"
proof -
  obtain ev bs r original where p: "projected_receipt env st = Inr (ev, bs, r)"
    "verify_receipt_bytes (ni_verify env) w now bs ''embedded original receipt'' original_options = Inr original" "verdict_passed original"
    and nv': "nv_interop nv' = map_option (\<lambda>t. t\<lparr>nt_original_signer := v_signed_by original,
            nt_original_receipt_sha256 := Some (eb_sha256 (oe_receipt ev)), nt_original_verdict := Some original\<rparr>) (nv_interop nv)"
    and cs: "projected_identity_check (map_option (projected_identity env roots ev bs) (im_identity_policy opts)) \<in> set (v_checks (nv_verdict nv'))"
      "projected_artifacts_check (map_option (projected_artifacts env r) (im_artifact_root opts)) \<in> set (v_checks (nv_verdict nv'))"
    using assms(1) by (auto simp: verify_original_projection_def result_simps Let_def)
  note sound = projected_receipt_sound [OF p(1)]
  have "receipt_sound (ni_verify env) w original_options r original" using passed_receipt_sound [OF p(2,3)] sound by blast
  moreover have "\<exists>b iv. oe_workflow ev = Some iv \<and> verify_receipt_identity (ee_identity (ni_evidence env)) (Some bs) (Some b) roots q = Inr iv"
    if "im_identity_policy opts = Some q" for q
  proof -
    have "check_status (projected_identity_check (Some (projected_identity env roots ev bs q))) \<noteq> Fail" using cs(1) assms(2) that by auto
    then show ?thesis by (auto simp: projected_identity_check_def projected_identity_def mk_check_def result_simps split: sum.splits)
  qed
  moreover have "listed_artifacts r \<noteq> [] \<and>
        (\<forall>a\<in>set (listed_artifacts r). \<exists>bs. artifact_bytes f root a = Inr bs \<and> to_hex (ni_blake3 env bs) = artifact_digest a)"
    if "im_artifact_root opts = Some (f, root)" for f root
  proof -
    have "check_status (projected_artifacts_check (Some (projected_artifacts env r (f, root)))) \<noteq> Fail" using cs(2) assms(2) that by auto
    then show ?thesis using projected_artifacts_listed by (auto simp: projected_artifacts_check_def mk_check_def split: sum.splits)
  qed
  moreover obtain outcome where "nv_interop nv' = Some outcome" "nt_original_verdict outcome = Some original"
    using nv' assms(3) by auto
  ultimately show ?thesis using sound unfolding projection_accepted_def by blast
qed

lemma add_checks_simps [simp]:
  "v_checks (nv_verdict (add_checks cs nv)) = v_checks (nv_verdict nv) @ cs"
  "v_signed_by (nv_verdict (add_checks cs nv)) = v_signed_by (nv_verdict nv)"
  "v_execution (nv_verdict (add_checks cs nv)) = v_execution (nv_verdict nv)"
  "v_trust_material (nv_verdict (add_checks cs nv)) = v_trust_material (nv_verdict nv)"
  "nv_interop (add_checks cs nv) = nv_interop nv"
  by (simp_all add: add_checks_def)

lemma judge_original_signer: "judge_original env w now roots opts st nv = (passed, nv') \<Longrightarrow>
   v_signed_by (nv_verdict nv') = v_signed_by (nv_verdict nv)"
  by (auto simp: judge_original_def verify_original_projection_def result_simps Let_def split: if_splits sum.splits prod.splits)

lemma copied_timestamp_names: "map check_name (copied_timestamp v) \<in> {[], [''timestamp'']}"
  by (simp add: copied_timestamp_def mk_check_def split: option.splits)

lemma import_check_names [simp]:
  "check_name (statement_consistency env st) = ''consistency''"
  "check_name (projected_identity_check i) = ''identity''"
  "check_name (projected_artifacts_check a) = ''artifacts''"
  "check_name (signature_summary st p) = ''signature''"
  by (simp_all add: statement_consistency_def projected_identity_check_def projected_artifacts_check_def signature_summary_def mk_check_def
      split: option.splits sum.splits)

text \<open>The checks \<open>judge_original\<close> adds when it does not fail.\<close>

lemma judge_original_checks:
  assumes "judge_original env w now roots opts st nv = (True, nv')"
  shows "\<exists>cs. v_checks (nv_verdict nv') = v_checks (nv_verdict nv) @ cs \<and> distinct (map check_name cs) \<and>
    set (map check_name cs) \<subseteq> {''original-evidence'', ''timestamp'', ''identity'', ''artifacts''} \<and>
    (im_artifact_root opts = None \<longrightarrow> (\<forall>c\<in>set cs. check_name c = ''artifacts'' \<longrightarrow> check_status c = Skipped))"
proof (cases "st_build_type st = BUILD_TYPE")
  case True
  then have "verify_original_projection env w now roots opts st nv = Inr (True, nv')"
    using assms by (auto simp: judge_original_def split: sum.splits)
  then obtain ev bs r original where cs: "v_checks (nv_verdict nv') = v_checks (nv_verdict nv) @
      [mk_check ''original-evidence'' Pass (Note ''original receipt verified independently against recipient trust; see interop.original_verdict'')] @
      copied_timestamp original @ [projected_identity_check (map_option (projected_identity env roots ev bs) (im_identity_policy opts)),
        projected_artifacts_check (map_option (projected_artifacts env r) (im_artifact_root opts))]"
    by (auto simp: verify_original_projection_def result_simps Let_def)
  let ?cs = "[mk_check ''original-evidence'' Pass (Note ''original receipt verified independently against recipient trust; see interop.original_verdict'')] @
      copied_timestamp original @ [projected_identity_check (map_option (projected_identity env roots ev bs) (im_identity_policy opts)),
        projected_artifacts_check (map_option (projected_artifacts env r) (im_artifact_root opts))]"
  have "map check_name ?cs \<in> {[''original-evidence'', ''identity'', ''artifacts''], [''original-evidence'', ''timestamp'', ''identity'', ''artifacts'']}"
    using copied_timestamp_names [of original] by (simp add: mk_check_def)
  then have "distinct (map check_name ?cs)" "set (map check_name ?cs) \<subseteq> {''original-evidence'', ''timestamp'', ''identity'', ''artifacts''}"
    by (elim insertE emptyE; simp only: distinct.simps set_simps; simp)+
  moreover have "check_status c = Skipped" if "im_artifact_root opts = None" "c \<in> set ?cs" "check_name c = ''artifacts''" for c
  proof -
    have "check_name c \<noteq> ''artifacts''" if "c \<in> set (copied_timestamp original)"
      using that by (auto simp: copied_timestamp_def mk_check_def split: option.splits)
    then have "c = projected_artifacts_check None" using that by (auto simp: mk_check_def)
    then show ?thesis by (simp add: projected_artifacts_check_def mk_check_def)
  qed
  ultimately show ?thesis using cs by blast
next
  case False
  then show ?thesis using assms by (auto simp: judge_original_def legacy_checks_def mk_check_def)
qed

lemma judge_original_legacy:
  assumes "judge_original env w now roots opts st nv = (True, nv')" "st_build_type st \<noteq> BUILD_TYPE"
  shows "v_checks (nv_verdict nv') = v_checks (nv_verdict nv) @ legacy_checks opts"
    "v_execution (nv_verdict nv') = v_execution (nv_verdict nv)" "v_trust_material (nv_verdict nv') = v_trust_material (nv_verdict nv)"
  using assms by (auto simp: judge_original_def)

text \<open>The parts of an import whose verdict passes.\<close>

lemma import_parts:
  assumes "import_statement_file env w now roots name file opts = Inr nv" "verdict_passed (nv_verdict nv)"
  obtains content v en body st dsse signer warns nv0 nv1 where
    "file = Some content" "ni_json_value env content = Some v" "parse_envelope env v = Inr (en, body, st)"
    "dsse_signature_check env w opts en body st = ((dsse, signer), warns)"
    "v_checks (nv_verdict nv0) = [mk_check ''schema'' Pass (Note ''DSSE envelope and in-toto statement match schema''),
       statement_consistency env st, dsse\<lparr>check_name := ''dsse-signature''\<rparr>]"
    "v_signed_by (nv_verdict nv0) = signer" "v_execution (nv_verdict nv0) = None" "v_trust_material (nv_verdict nv0) = None"
    "nv_interop nv0 \<noteq> None" "judge_original env w now roots opts st nv0 = (True, nv1)" "check_status dsse = Pass"
    "nv = apply_import_policy opts (add_checks [signature_summary st True] nv1)"
proof -
  obtain content v where c: "file = Some content" "ni_json_value env content = Some v"
    using assms(1) by (auto simp: import_statement_file_def read_bounded_def result_simps)
  then obtain en body st where p: "parse_envelope env v = Inr (en, body, st)"
    using assms by (cases "parse_envelope env v")
      (auto simp: import_statement_file_def read_bounded_def result_simps Let_def apply_import_policy_def verdict_passed_def apply_policy_verdict mk_check_def)
  obtain dsse signer warns where d: "dsse_signature_check env w opts en body st = ((dsse, signer), warns)" by (metis surj_pair)
  let ?nv = "\<lparr>nv_verdict = empty_verdict name, nv_warnings = [], nv_identity = unidentified opts, nv_interop = None\<rparr>"
  let ?nv0 = "add_checks [mk_check ''schema'' Pass (Note ''DSSE envelope and in-toto statement match schema''),
       statement_consistency env st, dsse\<lparr>check_name := ''dsse-signature''\<rparr>]
     (?nv\<lparr>nv_verdict := (nv_verdict ?nv)\<lparr>v_signed_by := signer\<rparr>, nv_warnings := warns,
        nv_interop := Some \<lparr>nt_projection = True, nt_envelope_signer = signer, nt_original_signer = None,
          nt_original_receipt_sha256 = None, nt_original_verdict = None, nt_semantics = projection_semantics\<rparr>\<rparr>)"
  obtain passed nv1 where j: "judge_original env w now roots opts st ?nv0 = (passed, nv1)" by (metis surj_pair)
  have nv: "nv = apply_import_policy opts (add_checks [signature_summary st (check_status dsse = Pass \<and> passed)] nv1)"
    using assms(1) c p d j by (simp add: import_statement_file_def read_bounded_def result_simps Let_def)
  have "check_status (signature_summary st (check_status dsse = Pass \<and> passed)) \<noteq> Fail"
    using assms(2) unfolding nv apply_import_policy_def verdict_passed_def by (auto simp: apply_policy_verdict split: if_splits)
  then have ok: "check_status dsse = Pass" "passed" by (auto simp: signature_summary_def mk_check_def split: if_splits)
  show ?thesis
    by (rule that [OF c p d, of ?nv0 nv1]) (use j nv ok in \<open>simp_all add: empty_verdict_def\<close>)
qed

lemma find_in_set: "find P xs = Some x \<Longrightarrow> x \<in> set xs \<and> P x"
  by (induction xs) (auto split: if_splits)

lemma import_artifacts_skipped:
  assumes j: "judge_original env w now roots opts st nv0 = (True, nv1)"
    and nv0: "v_checks (nv_verdict nv0) = [mk_check ''schema'' Pass d, statement_consistency env st, dsse\<lparr>check_name := ''dsse-signature''\<rparr>]"
    and "im_artifact_root opts = None"
  shows "requirement_reason (nv_verdict (add_checks [signature_summary st True] nv1)) ReqArtifacts \<noteq> None"
proof -
  obtain cs where cs: "v_checks (nv_verdict nv1) = v_checks (nv_verdict nv0) @ cs"
    and skipped: "\<forall>c\<in>set cs. check_name c = ''artifacts'' \<longrightarrow> check_status c = Skipped"
    using judge_original_checks [OF j] assms(3) by blast
  let ?all = "v_checks (nv_verdict (add_checks [signature_summary st True] nv1))"
  have "check_status c = Skipped" if "find (\<lambda>c. check_name c = ''artifacts'') ?all = Some c" for c
  proof -
    have "c \<in> set ?all" "check_name c = ''artifacts''" using find_in_set [OF that] by blast+
    then have "c \<in> set cs" unfolding add_checks_simps cs nv0 by (auto simp: mk_check_def)
    then show ?thesis using skipped \<open>check_name c = ''artifacts''\<close> by blast
  qed
  then show ?thesis by (simp add: requirement_reason_def check_reason_def del: add_checks_simps split: option.splits check_status.splits)
qed

lemma legacy_requirements:
  assumes cs: "v_checks (nv_verdict nv1) = v_checks (nv_verdict nv0) @ legacy_checks opts"
    and "v_execution (nv_verdict nv1) = v_execution (nv_verdict nv0)" "v_trust_material (nv_verdict nv1) = v_trust_material (nv_verdict nv0)"
    and nv0: "v_checks (nv_verdict nv0) = [mk_check ''schema'' Pass d, statement_consistency env st, dsse\<lparr>check_name := ''dsse-signature''\<rparr>]"
    and "v_execution (nv_verdict nv0) = None" "v_trust_material (nv_verdict nv0) = None"
    and "requirement_reason (nv_verdict (add_checks [signature_summary st True] nv1)) q = None"
  shows "q = ReqSignature"
proof (rule ccontr)
  assume "q \<noteq> ReqSignature"
  then show False using assms(2,3,5-) unfolding requirement_reason_def check_reason_def add_checks_simps cs nv0
    by (cases q) (simp_all add: mk_check_def legacy_checks_def split: if_splits)
qed

text \<open>
  C28. Importing a statement with a verdict that passes means: the envelope carries exactly one signature, which the
  recipient's trust policy accepts for the payload read; and a current statement is the projection of the receipt
  embedded in it, which the recipient's own trust accepts as \<open>attest verify\<close> would, with the files of the signed
  inventory as its subjects, the workflow identity the recipient asks for certified for that receipt and the
  delivered artifacts matching. A legacy statement passes only if nothing beyond its signature was asked for.
\<close>

theorem import_statement_sound:
  assumes "import_statement_file env w now roots name file opts = Inr nv" "verdict_passed (nv_verdict nv)"
  shows "\<exists>content v en body st key. file = Some content \<and> ni_json_value env content = Some v \<and>
    parse_envelope env v = Inr (en, body, st) \<and> v_signed_by (nv_verdict nv) = Some key \<and> envelope_accepted env w opts en body st key \<and>
    (if st_build_type st = BUILD_TYPE
     then projection_accepted env w roots opts st nv \<and> (ReqArtifacts \<in> set (im_policy opts) \<longrightarrow> im_artifact_root opts \<noteq> None)
     else st_build_type st = LEGACY_BUILD_TYPE \<and> im_identity_policy opts = None \<and> set (im_policy opts) \<subseteq> {ReqSignature})"
proof (rule import_parts [OF assms], goal_cases)
  case (1 content v en body st dsse signer warns nv0 nv1)
  let ?u = "nv_verdict (add_checks [signature_summary st True] nv1)"
  have nv: "nv_verdict nv = apply_policy (import_policy opts) ?u" using 1(12) by (simp add: apply_import_policy_def)
  have ok: "\<forall>c\<in>set (v_checks ?u). check_status c \<noteq> Fail" and met: "\<forall>q\<in>set (import_policy opts). requirement_reason ?u q = None"
    using assms(2) unfolding nv verdict_passed_def apply_policy_verdict by (auto split: if_splits)
  have consistent: "statement_problems env st = []"
    using ok 1(5) judge_original_checks [OF 1(10)] by (auto simp: statement_consistency_def mk_check_def split: if_splits)
  have "en_payload_type en = DSSE_PAYLOAD_TYPE" using 1(3) by (auto simp: parse_envelope_def result_simps)
  from dsse_accepted [OF 1(4,11) this consistent] obtain key where key: "signer = Some key" "envelope_accepted env w opts en body st key" by blast
  have "v_signed_by (nv_verdict nv) = Some key" unfolding nv using judge_original_signer [OF 1(10)] 1(6) key(1) by simp
  moreover have "projection_accepted env w roots opts st nv" if "st_build_type st = BUILD_TYPE"
  proof -
    have v: "verify_original_projection env w now roots opts st nv0 = Inr (True, nv1)"
      using 1(10) that by (auto simp: judge_original_def split: sum.splits)
    have "projection_accepted env w roots opts st nv1"
      by (rule verify_original_projection_sound [OF v _ 1(9)]) (use ok in simp)
    moreover have "nv_interop nv = nv_interop nv1" using 1(12) by (simp add: apply_import_policy_def)
    ultimately show ?thesis by (simp add: projection_accepted_def)
  qed
  moreover have "im_artifact_root opts \<noteq> None" if "ReqArtifacts \<in> set (im_policy opts)"
  proof
    assume "im_artifact_root opts = None"
    then have "requirement_reason ?u ReqArtifacts \<noteq> None" by (rule import_artifacts_skipped [OF 1(10,5)])
    then show False using met that by (simp add: import_policy_def split: if_splits)
  qed
  moreover have "st_build_type st = LEGACY_BUILD_TYPE \<and> im_identity_policy opts = None \<and> set (im_policy opts) \<subseteq> {ReqSignature}"
    if "st_build_type st \<noteq> BUILD_TYPE"
  proof -
    note legacy = judge_original_legacy [OF 1(10) that]
    have "st_build_type st = LEGACY_BUILD_TYPE" using consistent that by (auto simp: statement_problems_def Let_def split: if_splits)
    moreover have "im_identity_policy opts = None" using ok legacy(1) by (auto simp: legacy_checks_def mk_check_def split: if_splits)
    moreover have "q = ReqSignature" if "q \<in> set (im_policy opts)" for q
    proof (rule legacy_requirements [OF legacy 1(5,7,8)])
      show "requirement_reason ?u q = None" using met that by (simp add: import_policy_def split: if_splits)
    qed
    ultimately show ?thesis by blast
  qed
  ultimately show ?case using 1(1-3) key(2) by (intro exI conjI) (auto split: if_splits)
qed

subsection \<open>Export and import\<close>

lemma btree_insert_set: "set (btree_insert k v m) \<subseteq> insert (k, v) (set m)"
  by (induction m) (auto split: if_splits)

lemma btree_insert_length: "length (btree_insert k v m) \<le> Suc (length m)"
  by (induction m) auto

text \<open>Transported files are what \<open>blob_new\<close> makes of contents within the limit of the reader.\<close>

definition transported :: "interop_env \<Rightarrow> embedded_blob btree \<Rightarrow> bool" where
  "transported env files \<longleftrightarrow>
     (\<forall>b\<in>snd ` set files. \<exists>bs media. b = blob_new env bs media \<and> length bs \<le> MAX_IDENTITY_BYTES)"

lemma transported_insert:
  assumes "transported env files" "length bs \<le> MAX_IDENTITY_BYTES"
  shows "transported env (btree_insert p (blob_new env bs media) files)"
  unfolding transported_def
proof
  fix b assume "b \<in> snd ` set (btree_insert p (blob_new env bs media) files)"
  then have "b = blob_new env bs media \<or> b \<in> snd ` set files" using btree_insert_set by fastforce
  then show "\<exists>bs media. b = blob_new env bs media \<and> length bs \<le> MAX_IDENTITY_BYTES"
    using assms unfolding transported_def by blast
qed

lemma snapshot_entries_transported:
  "snapshot_entries env directory items (files, sz) = Inr (files', sz') \<Longrightarrow> transported env files \<Longrightarrow> length files \<le> 256 \<Longrightarrow>
   transported env files' \<and> length files' \<le> 256"
proof (induction items arbitrary: files sz)
  case (Cons x items)
  obtain name item where x: "x = (name, item)" by (cases x)
  show ?case
  proof (cases "snapshot_selected directory name")
    case False
    then show ?thesis using Cons by (simp add: x)
  next
    case True
    let ?p = "if directory = [] then name else directory @ ''/'' @ name"
    from True Cons.prems(1) obtain bs sz1 where bs: "length bs \<le> 1024 * 1024" "length files < 256"
      and rest: "snapshot_entries env directory items (btree_insert ?p (blob_new env bs ''application/octet-stream'') files, sz1) = Inr (files', sz')"
      by (auto simp: x read_bounded_def result_simps Let_def not_less split: snapshot_item.splits)
    have "transported env (btree_insert ?p (blob_new env bs ''application/octet-stream'') files)"
      by (rule transported_insert [OF Cons.prems(2)]) (use bs(1) in \<open>simp add: MAX_IDENTITY_BYTES_def\<close>)
    moreover have "length (btree_insert ?p (blob_new env bs ''application/octet-stream'') files) \<le> 256"
      using bs(2) btree_insert_length [of ?p "blob_new env bs ''application/octet-stream''" files] by linarith
    ultimately show ?thesis using Cons.IH [OF rest] by blast
  qed
qed simp

lemma snapshot_dirs_transported:
  "snapshot_dirs env dirs ds (files, sz) = Inr (files', sz') \<Longrightarrow> transported env files \<Longrightarrow> length files \<le> 256 \<Longrightarrow>
   transported env files' \<and> length files' \<le> 256"
proof (induction ds arbitrary: files sz)
  case (Cons d ds)
  show ?case
  proof (cases "dirs d")
    case None
    then show ?thesis using Cons by simp
  next
    case (Some dir)
    then obtain files1 sz1 where step: "snapshot_entries env d (sd_entries dir) (files, sz) = Inr (files1, sz1)"
      and rest: "snapshot_dirs env dirs ds (files1, sz1) = Inr (files', sz')"
      using Cons.prems(1) by (auto simp: result_simps)
    show ?thesis using snapshot_entries_transported [OF step Cons.prems(2,3)] Cons.IH [OF rest] by blast
  qed
qed simp

text \<open>The bound of 257 files in an import is exactly what an export can reach.\<close>

lemma export_trust_transported:
  assumes "export_trust env opts roots dirs = Inr files"
  shows "transported env files \<and> length files \<le> 257"
proof -
  obtain snap where "public_trust_snapshot env dirs = Inr snap"
    and f: "files = snap \<or> (\<exists>root. length root \<le> MAX_IDENTITY_BYTES \<and>
      files = btree_insert ''sigstore-trusted-root.json'' (blob_new env root ''application/json'') snap)"
    using assms by (auto simp: export_trust_def read_bounded_def result_simps not_less split: option.splits)
  then obtain sz where "snapshot_dirs env dirs ['''', ''tsa'', ''bundles''] ([], 0) = Inr (snap, sz)"
    by (auto simp: public_trust_snapshot_def result_simps simp del: snapshot_dirs.simps)
  from snapshot_dirs_transported [OF this] have s: "transported env snap" "length snap \<le> 256" by (simp_all add: transported_def)
  from f show ?thesis
  proof
    assume "files = snap"
    then show ?thesis using s by simp
  next
    assume "\<exists>root. length root \<le> MAX_IDENTITY_BYTES \<and>
      files = btree_insert ''sigstore-trusted-root.json'' (blob_new env root ''application/json'') snap"
    then obtain root where r: "length root \<le> MAX_IDENTITY_BYTES"
      "files = btree_insert ''sigstore-trusted-root.json'' (blob_new env root ''application/json'') snap" by blast
    show ?thesis unfolding r(2)
      using transported_insert [OF s(1) r(1)] btree_insert_length [of "''sigstore-trusted-root.json''" "blob_new env root ''application/json''" snap] s(2)
      by simp
  qed
qed

lemma check_blobs_transported: "b64_faithful env \<Longrightarrow> transported env files \<Longrightarrow> check_blobs env (map snd files) = Inr ()"
proof (induction files)
  case (Cons x files)
  then obtain bs media where "snd x = blob_new env bs media" "length bs \<le> MAX_IDENTITY_BYTES" by (auto simp: transported_def)
  moreover have "transported env files" using Cons.prems(2) by (simp add: transported_def)
  ultimately show ?case using Cons blob_roundtrip by simp
qed simp

text \<open>The envelope written for a statement, and what its codecs promise: the statement and the envelope read back, and
  its times are RFC 3339.\<close>

definition signed_envelope :: "interop_env \<Rightarrow> digest \<Rightarrow> statement \<Rightarrow> envelope" where
  "signed_envelope env sk st =
     (let body = ni_statement_json env st; pk = public_of (ke_ed (ni_keys env)) sk in
      \<lparr>en_payload = b64_encode (ni_record env) body, en_payload_type = DSSE_PAYLOAD_TYPE,
       en_signatures = [\<lparr>es_keyid = key_id (ni_keys env) pk,
         es_sig = b64_encode (ni_record env) (ed_sign (ke_ed (ni_keys env)) sk (pae DSSE_PAYLOAD_TYPE body))\<rparr>]\<rparr>)"

definition reads_back :: "interop_env \<Rightarrow> digest \<Rightarrow> statement \<Rightarrow> bool" where
  "reads_back env sk st \<longleftrightarrow> ni_statement_of_json env (ni_statement_json env st) = Some st \<and>
     Option.bind (ni_json_value env (ni_envelope_json env (signed_envelope env sk st) @ [CHR 0x0A])) (ni_envelope_of_value env) =
       Some (signed_envelope env sk st) \<and>
     ni_parse_rfc3339 env (rn_started_on (pd_run_details (st_predicate st))) \<noteq> None \<and>
     ni_parse_rfc3339 env (rn_finished_on (pd_run_details (st_predicate st))) \<noteq> None"

definition exported_statement ::
  "interop_env \<Rightarrow> export_options \<Rightarrow> (bytes \<rightharpoonup> bytes) \<Rightarrow> (bytes \<rightharpoonup> snapshot_dir) \<Rightarrow> bytes \<Rightarrow> receipt \<Rightarrow> statement \<Rightarrow> bool" where
  "exported_statement env eopts roots dirs content r st \<longleftrightarrow> (\<exists>claim trust. export_workflow env eopts roots content = Inr claim \<and>
     export_trust env eopts roots dirs = Inr trust \<and> project_receipt env r (export_evidence env r content trust claim) = Inr st)"

lemma projection_read_back:
  assumes "b64_faithful env" "ni_version env \<noteq> []" "length content \<le> MAX_RECEIPT_BYTES" "ve_receipt_of_yaml (ni_verify env) content = Some r"
    "export_trust env opts roots dirs = Inr trust" "export_workflow env opts roots content = Inr claim"
    "project_receipt env r (export_evidence env r content trust claim) = Inr st"
  shows "projected_receipt env st = Inr (export_evidence env r content trust claim, content, r)"
proof -
  have "blob_bytes env MAX_RECEIPT_BYTES (blob_new env content ''application/yaml'') = Inr content" by (rule blob_roundtrip [OF assms(1,3)])
  moreover have "check_blobs env (map snd trust) = Inr ()" "length trust \<le> 257"
    using check_blobs_transported [OF assms(1)] export_trust_transported [OF assms(5)] by auto
  moreover have "(fst claim \<noteq> None) = (snd claim \<noteq> None)"
    using assms(6) by (auto simp: export_workflow_def result_simps split: option.splits)
  moreover have "eb_media_type (blob_new env content ''application/yaml'') = ''application/yaml''" by (simp add: blob_new_def)
  ultimately show ?thesis
    using assms(2,4,7) project_receipt_fields(5) [OF assms(7)]
    by (simp add: projected_receipt_def export_evidence_def producer_info_def)
qed

lemma projected_statement_coherent:
  assumes "reads_back env sk st" "project_receipt env r ev = Inr st" "oe_receipt ev = blob_new env content media" "coherent r"
  shows "statement_problems env st = []"
proof -
  have digests: "is_digest_text (rd_blake3 s)" if "s \<in> set (st_subject st)" for s
  proof -
    have "subjects_listed env r st" by (rule project_receipt_subjects [OF assms(2)])
    then have "listed_artifacts r \<noteq> [] \<longrightarrow> inventory_holds (ni_blake3 env) r"
      and "\<exists>a\<in>set (listed_artifacts r). artifact_digest a = rd_blake3 s"
      using that unfolding subjects_listed_def by auto
    then show ?thesis by (auto simp: inventory_holds_def list_all_iff artifact_sound_def)
  qed
  have "is_digest_text (r_pipeline_hash r)" using assms(4) by (auto simp: coherent_def is_digest_text_def list_all_iff)
  moreover have "is_digest_text (eb_sha256 (oe_receipt ev))" using hex_text by (simp add: assms(3) blob_new_def sha256_hex_def)
  moreover have "\<exists>t. ni_parse_rfc3339 env (rn_started_on (pd_run_details (st_predicate st))) = Some t"
    "\<exists>t. ni_parse_rfc3339 env (rn_finished_on (pd_run_details (st_predicate st))) = Some t"
    using assms(1,2) by (auto simp: reads_back_def)
  moreover have "LEGACY_BUILD_TYPE \<noteq> BUILD_TYPE" by (simp add: LEGACY_BUILD_TYPE_def BUILD_TYPE_def)
  moreover have "filter (\<lambda>d. \<not> is_digest_text (rd_blake3 d)) (st_subject st) = []" using digests by (simp add: filter_empty_conv)
  ultimately show ?thesis
    using project_receipt_fields(2,6,7,8) [OF assms(2)] by (auto simp: statement_problems_def Let_def)
qed

text \<open>A recipient who trusts a key, for envelopes.\<close>

definition envelope_key_trusted :: "interop_env \<Rightarrow> world \<Rightarrow> digest \<Rightarrow> bool" where
  "envelope_key_trusted env w pk \<longleftrightarrow> (\<exists>trusted policy entry.
     trust_dir_public_keys (ni_keys env) (import_dir w) (w_store_listing w) = Inr trusted \<and>
     trusted (key_id (ni_keys env) pk) = Some (hex_encode (digest_bytes pk)) \<and>
     policy_load (ni_keys env) (import_dir w) = Inr policy \<and> policy_entry policy (key_id (ni_keys env) pk) = Some entry \<and>
     entry_status entry = Trusted)"

lemma dsse_trusted_passes:
  assumes "b64_faithful env" "ed_correct (ke_ed (ni_keys env))" "envelope_key_trusted env w pk" "pk = public_of (ke_ed (ni_keys env)) sk"
  shows "dsse_signature_check env w opts (signed_envelope env sk st) (ni_statement_json env st) st =
    ((mk_check ''signature'' Pass (TrustedKey (key_id (ni_keys env) pk)), Some (hex_encode (digest_bytes pk))), [])"
proof -
  obtain trusted policy entry where t: "trust_dir_public_keys (ni_keys env) (import_dir w) (w_store_listing w) = Inr trusted"
     "trusted (key_id (ni_keys env) pk) = Some (hex_encode (digest_bytes pk))"
     "policy_load (ni_keys env) (import_dir w) = Inr policy" "policy_entry policy (key_id (ni_keys env) pk) = Some entry"
     "entry_status entry = Trusted"
    using assms(3) unfolding envelope_key_trusted_def by blast
  let ?m = "pae DSSE_PAYLOAD_TYPE (ni_statement_json env st)"
  let ?sig = "ed_sign (ke_ed (ni_keys env)) sk ?m"
  have "verify_with_public_key (ke_ed (ni_keys env)) (hex_encode (digest_bytes pk)) ?m (hex_encode ?sig) = Inr True"
    using assms(2,4) by (simp add: verify_with_public_key_def ed_correct_def)
  moreover have "b64_decode (ni_record env) (b64_encode (ni_record env) ?sig) = Some ?sig" using assms(1) by (simp add: b64_faithful_def)
  ultimately show ?thesis
    using t assms(4) by (simp add: dsse_signature_check_def dsse_revocation_def signed_envelope_def Let_def)
qed

text \<open>The parts of an export that writes a signed envelope.\<close>

lemma export_parts:
  assumes "export_receipt_file env f workspace roots dirs listing ks file eopts = Inr (Written json warns)"
  obtains content r is_signed msgs claim trust st key sigs where
    "file = Some content" "length content \<le> MAX_RECEIPT_BYTES" "ve_receipt_of_yaml (ni_verify env) content = Some r"
    "export_signed env eopts r = Inr is_signed" "export_artifacts env f workspace r = Inr msgs"
    "export_workflow env eopts roots content = Inr claim" "export_trust env eopts roots dirs = Inr trust"
    "project_receipt env r (export_evidence env r content trust claim) = Inr st"
    "export_signing_key env eopts listing ks r is_signed = Inr key"
    "envelope_signatures env eopts r is_signed (ni_statement_json env st) key = Some sigs"
    "json = ni_envelope_json env \<lparr>en_payload = b64_encode (ni_record env) (ni_statement_json env st),
       en_payload_type = DSSE_PAYLOAD_TYPE, en_signatures = fst sigs\<rparr> @ [CHR 0x0A]" "length json \<le> MAX_STATEMENT_BYTES"
proof -
  obtain content r where c: "file = Some content" "length content \<le> MAX_RECEIPT_BYTES" "ve_receipt_of_yaml (ni_verify env) content = Some r"
    using assms by (auto simp: export_receipt_file_def read_bounded_def result_simps not_less)
  have "export_signed env eopts r \<noteq> Inl (Written json warns)"
    by (auto simp: export_signed_def ensure_def split: option.splits sum.splits bool.splits)
  then obtain is_signed where sg: "export_signed env eopts r = Inr is_signed"
    using assms c by (auto simp: export_receipt_file_def read_bounded_def result_simps split: sum.splits)
  obtain msgs claim trust st where p: "export_artifacts env f workspace r = Inr msgs"
    "export_workflow env eopts roots content = Inr claim" "export_trust env eopts roots dirs = Inr trust"
    "project_receipt env r (export_evidence env r content trust claim) = Inr st"
    using assms c sg by (auto simp: export_receipt_file_def read_bounded_def result_simps not_less)
  then obtain key where k: "export_signing_key env eopts listing ks r is_signed = Inr key"
    using assms c sg by (auto simp: export_receipt_file_def read_bounded_def result_simps not_less Let_def)
  then show ?thesis
    using assms c sg p that [OF c sg p k]
    by (cases "envelope_signatures env eopts r is_signed (ni_statement_json env st) key")
      (auto simp: export_receipt_file_def read_bounded_def result_simps not_less Let_def)
qed

text \<open>The checks an import adds for a projection it can accept.\<close>

lemma judge_original_accepts:
  assumes "projected_receipt env st = Inr (ev, bs, r)" "st_build_type st = BUILD_TYPE" "im_identity_policy opts = None"
    "verify_receipt_bytes (ni_verify env) w now bs ''embedded original receipt'' original_options = Inr original" "verdict_passed original"
    "\<forall>root. im_artifact_root opts = Some root \<longrightarrow> projected_artifacts env r root = Inr ()"
  shows "\<exists>nv' cs. judge_original env w now roots opts st nv = (True, nv') \<and> v_checks (nv_verdict nv') = v_checks (nv_verdict nv) @ cs \<and>
    (\<forall>c\<in>set cs. check_status c \<noteq> Fail) \<and>
    (im_artifact_root opts \<noteq> None \<longrightarrow> (\<exists>c\<in>set cs. check_name c = ''artifacts'' \<and> check_status c = Pass))"
proof -
  let ?cs = "[mk_check ''original-evidence'' Pass (Note ''original receipt verified independently against recipient trust; see interop.original_verdict'')] @
      copied_timestamp original @ [projected_identity_check None,
        projected_artifacts_check (map_option (projected_artifacts env r) (im_artifact_root opts))]"
  obtain nv' where nv': "judge_original env w now roots opts st nv = (True, nv')" "v_checks (nv_verdict nv') = v_checks (nv_verdict nv) @ ?cs"
    using assms(1-5) by (auto simp: judge_original_def verify_original_projection_def result_simps Let_def)
  have "\<forall>c\<in>set (v_checks original). check_status c \<noteq> Fail" by (rule passed_no_fail [OF assms(4,5)])
  then have "\<forall>c\<in>set (copied_timestamp original). check_status c \<noteq> Fail"
    by (auto simp: copied_timestamp_def mk_check_def split: option.splits dest!: find_in_set [OF sym])
  moreover have "check_status (projected_artifacts_check (map_option (projected_artifacts env r) (im_artifact_root opts))) =
      (if im_artifact_root opts = None then Skipped else Pass)"
    using assms(6) by (auto simp: projected_artifacts_check_def mk_check_def)
  ultimately have "\<forall>c\<in>set ?cs. check_status c \<noteq> Fail"
    "im_artifact_root opts \<noteq> None \<longrightarrow> (\<exists>c\<in>set ?cs. check_name c = ''artifacts'' \<and> check_status c = Pass)"
    by (simp_all add: mk_check_def projected_identity_check_def)
  then show ?thesis using nv' by blast
qed

lemma export_artifacts_match:
  assumes "export_artifacts env f workspace r = Inr msgs" "listed_artifacts r \<noteq> []"
  shows "projected_artifacts env r (f, workspace) = Inr ()"
proof -
  have "artifact_binding r \<noteq> ''unavailable''" using assms(2) artifact_binding_listed by blast
  then show ?thesis using assms(1) by (auto simp: export_artifacts_def projected_artifacts_def result_simps match_artifacts_iff)
qed

lemma import_policy_passes:
  assumes "distinct (map check_name (v_checks (nv_verdict nv)))" "\<forall>c\<in>set (v_checks (nv_verdict nv)). check_status c \<noteq> Fail"
    "\<forall>q\<in>set (im_policy opts). check_passed (nv_verdict nv) (requirement_name q) \<and> q \<in> {ReqSignature, ReqArtifacts}"
    "im_identity_policy opts = None"
  shows "verdict_passed (nv_verdict (apply_import_policy opts nv))"
proof -
  have "requirement_reason (nv_verdict nv) q = None" if "q \<in> set (im_policy opts)" for q
    unfolding requirement_reason_None [OF assms(1)] requirement_met_def using assms(3) that by fastforce
  then show ?thesis
    using assms(2,4) by (auto simp: verdict_passed_def apply_import_policy_def apply_policy_verdict import_policy_def)
qed

text \<open>An import passes when each of its parts is in order.\<close>

lemma import_accepts:
  assumes json: "length json \<le> MAX_STATEMENT_BYTES" "ni_json_value env json = Some v" "parse_envelope env v = Inr (en, body, st)"
    and dsse: "dsse_signature_check env w opts en body st = ((mk_check ''signature'' Pass d, Some key), [])"
    and consistent: "statement_problems env st = []"
    and proj: "projected_receipt env st = Inr (ev, content, r)" "st_build_type st = BUILD_TYPE" "im_identity_policy opts = None"
    and original: "verify_receipt_bytes (ni_verify env) w now content ''embedded original receipt'' original_options = Inr original"
      "verdict_passed original"
    and artifacts: "\<forall>root. im_artifact_root opts = Some root \<longrightarrow> projected_artifacts env r root = Inr ()"
    and policy: "set (im_policy opts) \<subseteq> {ReqSignature} \<union> (if im_artifact_root opts = None then {} else {ReqArtifacts})"
  shows "\<exists>nv. import_statement_file env w now roots name (Some json) opts = Inr nv \<and> verdict_passed (nv_verdict nv)"
proof -
  let ?nv = "\<lparr>nv_verdict = (empty_verdict name)\<lparr>v_signed_by := Some key\<rparr>, nv_warnings = [],
    nv_identity = unidentified opts, nv_interop = Some \<lparr>nt_projection = True, nt_envelope_signer = Some key,
      nt_original_signer = None, nt_original_receipt_sha256 = None, nt_original_verdict = None, nt_semantics = projection_semantics\<rparr>\<rparr>"
  let ?pre = "[mk_check ''schema'' Pass (Note ''DSSE envelope and in-toto statement match schema''), statement_consistency env st,
    (mk_check ''signature'' Pass d)\<lparr>check_name := ''dsse-signature''\<rparr>]"
  obtain nv1 cs where j: "judge_original env w now roots opts st (add_checks ?pre ?nv) = (True, nv1)"
    and cs: "v_checks (nv_verdict nv1) = ?pre @ cs" "\<forall>c\<in>set cs. check_status c \<noteq> Fail"
      "im_artifact_root opts \<noteq> None \<longrightarrow> (\<exists>c\<in>set cs. check_name c = ''artifacts'' \<and> check_status c = Pass)"
    using judge_original_accepts [OF proj original artifacts, of roots "add_checks ?pre ?nv"] by (auto simp: empty_verdict_def)
  let ?u = "add_checks [signature_summary st True] nv1"
  have "import_statement_file env w now roots name (Some json) opts = Inr (apply_import_policy opts ?u)"
    using json dsse j by (simp add: import_statement_file_def read_bounded_def Let_def add_checks_def empty_verdict_def mk_check_def)
  moreover have "verdict_passed (nv_verdict (apply_import_policy opts ?u))"
  proof (rule import_policy_passes)
    show "distinct (map check_name (v_checks (nv_verdict ?u)))"
      using judge_original_checks [OF j] cs(1) by (auto simp: empty_verdict_def mk_check_def)
    show "\<forall>c\<in>set (v_checks (nv_verdict ?u)). check_status c \<noteq> Fail"
      using cs(1,2) consistent by (auto simp: mk_check_def signature_summary_def statement_consistency_def)
    show "\<forall>q\<in>set (im_policy opts). check_passed (nv_verdict ?u) (requirement_name q) \<and> q \<in> {ReqSignature, ReqArtifacts}"
      using policy cs(1,3) by (auto simp: check_passed_def signature_summary_def mk_check_def split: if_splits)
  qed (rule proj(3))
  ultimately show ?thesis by blast
qed

text \<open>
  C29. What \<open>attest export\<close> writes, \<open>attest import\<close> accepts: when a receipt is exported into a signed envelope and the recipient
  trusts the envelope's key and accepts the receipt itself, importing the written file passes, with the requirement
  of the signature and, if the artifacts are delivered unchanged, of the artifacts. In particular an export never
  exceeds the limits an import puts on the envelope, on embedded files and on their number.
\<close>

theorem export_import:
  assumes codecs: "b64_faithful env" "ed_correct (ke_ed (ni_keys env))" "ni_version env \<noteq> []"
      "\<And>st. exported_statement env eopts roots dirs content r st \<Longrightarrow> reads_back env sk st"
    and export: "export_receipt_file env f workspace roots dirs listing ks (Some content) eopts = Inr (Written json warns)"
    and r: "ve_receipt_of_yaml (ni_verify env) content = Some r"
    and key: "export_signing_key env eopts listing ks r True = Inr (Some sk)"
    and trusted: "envelope_key_trusted env w (public_of (ke_ed (ni_keys env)) sk)"
    and original: "verify_receipt_bytes (ni_verify env) w now content ''embedded original receipt'' original_options = Inr original"
      "verdict_passed original"
    and opts: "im_identity_policy opts = None"
      "im_artifact_root opts = None \<or> im_artifact_root opts = Some (f, workspace) \<and> listed_artifacts r \<noteq> []"
      "set (im_policy opts) \<subseteq> {ReqSignature} \<union> (if im_artifact_root opts = None then {} else {ReqArtifacts})"
  shows "\<exists>nv. import_statement_file env w now roots' name (Some json) opts = Inr nv \<and> verdict_passed (nv_verdict nv)"
proof (rule export_parts [OF export], goal_cases)
  case (1 content' r' is_signed msgs claim trust st key' sigs)
  have same: "content' = content" "r' = r" using 1(1,3) r by auto
  have sound: "receipt_sound (ni_verify env) w original_options r original" by (rule passed_receipt_sound [OF original r])
  then obtain k where "signature_good (ni_verify env) w original_options r k" by (auto simp: receipt_sound_def original_options_def)
  then have "is_signed" using 1(4) by (auto simp: same signature_good_def export_signed_def split: sum.splits bool.splits)
  then have "key' = Some sk" using 1(9) key by (simp add: same)
  then have json: "json = ni_envelope_json env (signed_envelope env sk st) @ [CHR 0x0A]"
    using 1(10,11) by (auto simp: envelope_signatures_def signed_envelope_def Let_def)
  have rb: "reads_back env sk st" by (rule codecs(4)) (use 1(6,7,8) in \<open>auto simp: same exported_statement_def\<close>)
  have read: "projected_receipt env st = Inr (export_evidence env r content trust claim, content, r)"
    using projection_read_back [OF codecs(1,3) 1(2,3,7,6,8)] by (simp add: same)
  note fields = project_receipt_fields [OF 1(8)]
  obtain v where v: "ni_json_value env json = Some v" "ni_envelope_of_value env v = Some (signed_envelope env sk st)"
    using rb unfolding json reads_back_def bind_eq_Some_conv by blast
  have parsed: "parse_envelope env v = Inr (signed_envelope env sk st, ni_statement_json env st, st)"
    using v(2) rb codecs(1) fields(3,4) by (simp add: parse_envelope_def signed_envelope_def Let_def b64_faithful_def reads_back_def)
  have "statement_problems env st = []"
    using projected_statement_coherent [OF rb 1(8)] sound by (simp add: export_evidence_def receipt_sound_def same)
  moreover have "\<forall>root. im_artifact_root opts = Some root \<longrightarrow> projected_artifacts env r root = Inr ()"
    using opts(2) export_artifacts_match [OF 1(5)] by (auto simp: same)
  ultimately show ?case
    by (rule import_accepts [OF 1(12) v(1) parsed dsse_trusted_passes [OF codecs(1,2) trusted refl] _ read fields(2) opts(1) original _ opts(3)])
qed
subsection \<open>An exported receipt\<close>

text \<open>A codec with the lengths of base64: the input, a filling and the number of bytes the last group lacks.\<close>

definition example_b64_encode :: "bytes \<Rightarrow> bytes" where
  "example_b64_encode bs =
     (if bs = [] then [] else
      let k = (length bs + 2) div 3
      in bs @ replicate (4 * k - length bs - 1) (CHR 0x00) @ [char_of (3 * k - length bs)])"

definition example_b64_decode :: "bytes \<Rightarrow> bytes option" where
  "example_b64_decode s = Some (if s = [] then [] else take (3 * (length s div 4) - of_char (last s)) s)"

lemma example_b64_inverse:
  "example_b64_decode (example_b64_encode bs) = Some bs" "length (example_b64_encode bs) = 4 * ((length bs + 2) div 3)"
proof -
  let ?k = "(length bs + 2) div 3"
  have k: "3 * ?k - length bs < 3" "length bs \<le> 3 * ?k" by linarith+
  have char: "(of_char (char_of (3 * ?k - length bs) :: char) :: nat) = 3 * ?k - length bs"
    using k(1) by (simp add: of_char_of del: char_of_mod_256) 
  show len: "length (example_b64_encode bs) = 4 * ?k"
  proof (cases "bs = []")
    case False
    then have "0 < length bs" by simp
    then have "length bs + 1 \<le> 4 * ?k" using k(2) by linarith
    then show ?thesis using False by (simp add: example_b64_encode_def Let_def)
  qed (simp add: example_b64_encode_def)
  show "example_b64_decode (example_b64_encode bs) = Some bs"
  proof (cases "bs = []")
    case False
    then have ne: "example_b64_encode bs \<noteq> []" "last (example_b64_encode bs) = char_of (3 * ?k - length bs)"
      by (simp_all add: example_b64_encode_def Let_def)
    have "3 * (length (example_b64_encode bs) div 4) - (of_char (last (example_b64_encode bs)) :: nat) = length bs"
      unfolding len ne(2) char using k(2) by simp
    moreover have "take (length bs) (example_b64_encode bs) = bs" by (simp add: example_b64_encode_def Let_def)
    ultimately show ?thesis using ne(1) by (simp add: example_b64_decode_def)
  qed (simp add: example_b64_encode_def example_b64_decode_def)
qed

definition example_exported :: receipt where
  "example_exported = example_receipt\<lparr>r_timestamp := 4, r_total_duration_secs := 0, r_causal_events := [],
     r_signer_public_key := Some (hex_encode (digest_bytes (digest_of ''t''))),
     r_signature := Some (hex_encode (digest_bytes (digest_of ''t'') @ digest_bytes (digest_of ''json'')))\<rparr>"

definition example_codec_env :: interop_env where
  "example_codec_env = \<lparr>
     ni_evidence = example_release_env\<lparr>
       ee_archive := (ee_archive example_release_env)\<lparr>
         av_verify := example_verify_env\<lparr>ve_receipt_of_yaml := (\<lambda>_. Some example_exported)\<rparr>\<rparr>,
       ee_record := example_record_env\<lparr>b64_encode := example_b64_encode, b64_decode := example_b64_decode\<rparr>\<rparr>,
     ni_version = ''1'', ni_json_value = (\<lambda>_. Some JNull), ni_envelope_json = (\<lambda>_. ''e''), ni_envelope_of_value = (\<lambda>_. None),
     ni_statement_json = (\<lambda>_. ''s''), ni_statement_of_json = (\<lambda>_. None), ni_receipt_yaml = (\<lambda>_. ''y''),
     ni_rfc3339_secs = (\<lambda>_. ''t''), ni_parse_rfc3339 = (\<lambda>_. Some 0), ni_max_utc = 1000\<rparr>"

definition example_export_options :: export_options where
  "example_export_options = \<lparr>ex_allow_unsigned = False, ex_key = Some (entry_id example_trusted), ex_identity_bundle = None,
     ex_identity_policy = None\<rparr>"

definition example_statement :: statement where
  "example_statement =
     \<lparr>st_type = STATEMENT_TYPE,
       st_predicate = \<lparr>pd_attest = Some (export_evidence example_codec_env example_exported ''y'' [] (None, None)),
         pd_build_definition = \<lparr>bd_build_type = BUILD_TYPE, bd_pipeline_hash = r_pipeline_hash example_exported, bd_resolved_dependencies = []\<rparr>,
         pd_run_details = \<lparr>rn_builder = UNKNOWN_BUILDER, rn_finished_on = ''t'',
           rn_invocation_id = eb_sha256 (blob_new example_codec_env ''y'' ''application/yaml''), rn_started_on = ''t''\<rparr>\<rparr>,
       st_predicate_type = PREDICATE_TYPE, st_subject = []\<rparr>"

definition example_interop_env :: interop_env where
  "example_interop_env = example_codec_env\<lparr>ni_statement_of_json := (\<lambda>_. Some example_statement),
     ni_envelope_of_value := (\<lambda>_. Some (signed_envelope example_codec_env (digest_of ''t'') example_statement))\<rparr>"

lemma example_interop_simps [simp]:
  "ni_evidence example_interop_env = ni_evidence example_codec_env" "ni_keys example_codec_env = example_key_env"
  "ve_receipt_of_yaml (ni_verify example_codec_env) s = Some example_exported" "ve_yaml_ok (ni_verify example_codec_env) s"
  "ve_yaml_schema_version (ni_verify example_codec_env) s = Some 3" "ve_receipt_json (ni_verify example_codec_env) q = ''json''"
  "b64_encode (ni_record example_codec_env) = example_b64_encode" "b64_decode (ni_record example_codec_env) = example_b64_decode"
  "min_utc (ve_trust (ni_verify example_codec_env)) = - 1000" "ni_version example_interop_env = ''1''"
  "ke_ed example_key_env = example_ed"
  by (simp_all add: example_interop_env_def example_codec_env_def example_release_env_def example_verify_env_def example_recipient_env_def
      example_key_env_def)

lemma example_b64_faithful: "b64_faithful example_interop_env"
  by (simp add: b64_faithful_def example_b64_inverse)

lemma example_exported_simps [simp]:
  "artifact_binding example_exported = ''unavailable''" "r_timestamp_token example_exported = None"
  "r_timestamp example_exported = 4" "r_total_duration_secs example_exported = 0"
  by (simp_all add: artifact_binding_def example_exported_def example_receipt_def)

lemma example_evidence_same: "export_evidence example_interop_env r c t claim = export_evidence example_codec_env r c t claim"
  by (simp add: export_evidence_def producer_info_def blob_new_def sha256_hex_def example_interop_env_def)

lemma example_projection:
  "project_receipt example_interop_env example_exported (export_evidence example_interop_env example_exported ''y'' [] (None, None)) =
     Inr example_statement"
proof -
  have "start_time example_interop_env 4 0 = Inr 4" by (simp add: start_time_def)
  then show ?thesis
    unfolding example_evidence_same
    by (simp add: project_receipt_def receipt_subjects_def example_statement_def)
      (simp add: export_evidence_def example_interop_env_def example_codec_env_def)
qed

lemma example_exported_statement:
  "exported_statement example_interop_env example_export_options Map.empty Map.empty ''y'' example_exported st \<longleftrightarrow> st = example_statement"
proof -
  have "export_workflow example_interop_env example_export_options Map.empty ''y'' = Inr (None, None)"
    by (simp add: export_workflow_def example_export_options_def)
  moreover have "export_trust example_interop_env example_export_options Map.empty Map.empty = Inr []"
    by (simp add: export_trust_def example_export_options_def public_trust_snapshot_def)
  ultimately show ?thesis using example_projection by (auto simp: exported_statement_def)
qed

lemma example_reads_back: "reads_back example_interop_env (digest_of ''t'') example_statement"
proof -
  have "signed_envelope example_interop_env sk st = signed_envelope example_codec_env sk st" for sk st
    by (simp add: signed_envelope_def) (simp add: example_interop_env_def)
  then show ?thesis by (simp add: reads_back_def) (simp add: example_interop_env_def example_codec_env_def)
qed

lemma example_store_dir: "import_dir example_world = trust_files example_store"
  by (simp add: import_dir_def example_world_def example_recipient_def)

lemma example_trusted_policy:
  "policy_load example_key_env (trust_files example_store) = Inr example_policy"
  "policy_entry example_policy (entry_id example_trusted) = Some example_trusted" "entry_status example_trusted = Trusted"
  using example_load by (simp_all add: policy_entry_def example_policy_def example_trusted_def)

lemma example_envelope_key: "envelope_key_trusted example_interop_env example_world (digest_of ''t'')"
proof -
  have "trust_dir_public_keys example_key_env (import_dir example_world) (w_store_listing example_world) =
     Inr [entry_id example_revoked \<mapsto> hex_encode (digest_bytes (digest_of ''r'')),
          entry_id example_trusted \<mapsto> hex_encode (digest_bytes (digest_of ''t''))]"
    using example_managed by (simp add: example_store_dir example_recipient_def)
  then show ?thesis
    using example_trusted_policy by (simp add: envelope_key_trusted_def example_store_dir example_key_ids)
qed

lemma example_signer_trust:
  "key_trust_status (ni_verify example_codec_env) example_world (hex_encode (digest_bytes (digest_of ''t''))) = Inr TrustedK"
proof -
  have "find (\<lambda>i. [entry_id example_revoked \<mapsto> hex_encode (digest_bytes (digest_of ''r'')),
          entry_id example_trusted \<mapsto> hex_encode (digest_bytes (digest_of ''t''))] i =
        Some (hex_encode (digest_bytes (digest_of ''t'')))) (w_managed_order example_world) = Some (entry_id example_trusted)"
    by (simp add: example_world_def)
  moreover have "w_store example_world = Some example_recipient" by (simp add: example_world_def)
  moreover have "policy_load example_key_env (dir_files example_recipient) = Inr example_policy"
    using example_trusted_policy(1) by (simp add: example_recipient_def)
  ultimately show ?thesis
    using example_trusted_policy by (simp add: key_trust_status_def example_managed entry_trust_def)
qed

lemma example_exported_signature:
  "verify_with_public_key example_ed (hex_encode (digest_bytes (digest_of ''t''))) (receipt_signing_bytes (ve_receipt_json (ni_verify example_codec_env)) r)
     (hex_encode (digest_bytes (digest_of ''t'') @ digest_bytes (digest_of ''json''))) = Inr True"
  by (simp add: verify_with_public_key_def receipt_signing_bytes_def example_ed_def)

lemma example_original:
  "\<exists>original. verify_receipt_bytes (ni_verify example_codec_env) example_world 9 ''y'' ''embedded original receipt'' original_options = Inr original \<and>
     verdict_passed original"
proof -
  let ?key = "hex_encode (digest_bytes (digest_of ''t''))"
  let ?v = "verify_parsed (ni_verify example_codec_env) example_world 9 ''y'' ''embedded original receipt'' original_options"
  have ts: "timestamp_check (ni_verify example_codec_env) example_world example_exported =
      (mk_check ''timestamp'' Skipped (Note ''receipt carries no timestamp token''), None)"
    by (simp add: timestamp_check_def)
  have sig: "signature_check (ni_verify example_codec_env) example_world original_options example_exported None [] =
    ((mk_check ''signature'' Pass (TrustedKey ?key), Some ?key), [])"
    using example_exported_signature example_signer_trust
    by (simp add: signature_check_def example_exported_def del: hex_encode_inject)
  have "v_checks ?v = [mk_check ''schema'' Pass (Note ''receipt matches schema''), consistency_check example_exported,
      mk_check ''signature'' Pass (TrustedKey ?key), mk_check ''timestamp'' Skipped (Note ''receipt carries no timestamp token''),
      mk_check ''recompute'' Skipped (Note ''enable with --recompute'')]"
    using ts sig by (simp add: verify_parsed_def receipt_checks_def original_options_def case_prod_unfold Let_def)
  moreover have "coherent example_exported" by (simp add: coherent_def example_exported_def example_receipt_def is_hex_digit_def)
  moreover have "?v = apply_policy [ReqSignature] ?v"
    unfolding verify_parsed_def Let_def case_prod_unfold apply_policy_twice original_options_def by simp
  ultimately have "verdict_passed ?v"
    using apply_policy_verdict [of "[ReqSignature]" ?v] consistency_check_coherent [of example_exported]
    by (simp add: verdict_passed_def requirement_reason_def check_reason_def check_names mk_check_def)
  moreover have "verify_receipt_bytes (ni_verify example_codec_env) example_world 9 ''y'' ''embedded original receipt'' original_options = Inr ?v"
    by (simp add: verify_receipt_bytes_def ensure_def RECEIPT_SCHEMA_VERSION_def)
  ultimately show ?thesis by blast
qed

lemma example_exports:
  "\<exists>json warns. export_receipt_file example_interop_env example_fs [] Map.empty Map.empty [] example_filed (Some ''y'') example_export_options
     = Inr (Written json warns)"
  "export_signing_key example_interop_env example_export_options [] example_filed example_exported True = Inr (Some (digest_of ''t''))"
proof -
  have "trust_files example_filed = trust_files example_store" by (simp add: example_filed_def)
  then have auth: "authorize_signing example_key_env example_filed (entry_id example_trusted) = Inr ()"
    using example_trusted_policy by (simp add: authorize_signing_def)
  have "load_private_pem example_key_env example_filed (key_name (entry_id example_trusted)) = Inr (digest_of ''t'')"
    by (simp add: load_private_pem_def read_text_def example_filed_def example_utf8) (simp add: example_key_env_def)
  with auth have "select_signing_key example_key_env [] example_filed (Some (entry_id example_trusted)) = Inr (Some (digest_of ''t''))"
    by (simp add: select_signing_key_def) (simp add: example_filed_def)
  then show key: "export_signing_key example_interop_env example_export_options [] example_filed example_exported True = Inr (Some (digest_of ''t''))"
    by (simp add: export_signing_key_def export_key_request_def example_export_options_def)
  have "export_signed example_interop_env example_export_options example_exported = Inr True"
    using example_exported_signature by (simp add: export_signed_def example_exported_def)
  moreover have "export_artifacts example_interop_env example_fs [] example_exported = Inr [NoInventory]" by (simp add: export_artifacts_def)
  moreover have "export_workflow example_interop_env example_export_options Map.empty ''y'' = Inr (None, None)"
    "export_trust example_interop_env example_export_options Map.empty Map.empty = Inr []"
    by (simp_all add: export_workflow_def export_trust_def example_export_options_def public_trust_snapshot_def)
  moreover have "ni_envelope_json example_interop_env en = ''e''" for en by (simp add: example_interop_env_def example_codec_env_def)
  ultimately show "\<exists>json warns. export_receipt_file example_interop_env example_fs [] Map.empty Map.empty [] example_filed (Some ''y'') example_export_options
     = Inr (Written json warns)"
    using example_projection key
    by (simp add: export_receipt_file_def read_bounded_def MAX_RECEIPT_BYTES_def MAX_STATEMENT_BYTES_def envelope_signatures_def Let_def)
qed

definition example_import_options :: import_options where
  "example_import_options = \<lparr>im_trust_statement_time = False, im_policy = [ReqSignature], im_identity_policy = None, im_artifact_root = None\<rparr>"

theorem export_import_witness:
  "\<exists>json nv. import_statement_file example_interop_env example_world 9 Map.empty ''n'' (Some json) example_import_options = Inr nv \<and>
     verdict_passed (nv_verdict nv)"
proof -
  obtain json warns where e: "export_receipt_file example_interop_env example_fs [] Map.empty Map.empty [] example_filed (Some ''y'') example_export_options
     = Inr (Written json warns)" using example_exports(1) by blast
  obtain original where o: "verify_receipt_bytes (ni_verify example_interop_env) example_world 9 ''y'' ''embedded original receipt'' original_options = Inr original"
    "verdict_passed original" using example_original by auto
  have "envelope_key_trusted example_interop_env example_world (public_of (ke_ed (ni_keys example_interop_env)) (digest_of ''t''))"
    using example_envelope_key by (simp add: example_ed_def)
  then have "\<exists>nv. import_statement_file example_interop_env example_world 9 Map.empty ''n'' (Some json) example_import_options = Inr nv \<and>
     verdict_passed (nv_verdict nv)"
    using example_ed_correct
    by (intro export_import [OF example_b64_faithful _ _ _ e _ example_exports(2) _ o])
      (simp_all add: example_exported_statement example_reads_back example_import_options_def)
  then show ?thesis by blast
qed

theorem import_statement_sound_witness:
  "\<exists>nv key. envelope_accepted example_interop_env example_world example_import_options
     (signed_envelope example_codec_env (digest_of ''t'') example_statement) ''s'' example_statement key \<and>
     projection_accepted example_interop_env example_world Map.empty example_import_options example_statement nv"
proof -
  let ?env = example_interop_env and ?en = "signed_envelope example_codec_env (digest_of ''t'') example_statement"
  have env: "ni_json_value ?env ''e'' = Some JNull" "ni_statement_json ?env st = ''s''"
    "ni_statement_of_json ?env s = Some example_statement" "ni_envelope_of_value ?env JNull = Some ?en" for s st
    by (simp_all add: example_interop_env_def example_codec_env_def)
  have en: "signed_envelope ?env (digest_of ''t'') example_statement = ?en"
    by (simp add: signed_envelope_def) (simp add: example_interop_env_def)
  have "b64_decode (ni_record ?env) (en_payload ?en) = Some ''s''"
    by (simp add: signed_envelope_def Let_def example_b64_inverse) (simp add: example_codec_env_def)
  then have parsed: "parse_envelope ?env JNull = Inr (?en, ''s'', example_statement)"
    by (simp add: parse_envelope_def env) (simp add: signed_envelope_def Let_def example_statement_def)
  have dsse: "dsse_signature_check ?env example_world example_import_options ?en ''s'' example_statement =
      ((mk_check ''signature'' Pass (TrustedKey (key_id example_key_env (digest_of ''t''))), Some (hex_encode (digest_bytes (digest_of ''t'')))), [])"
    using dsse_trusted_passes [OF example_b64_faithful _ example_envelope_key, of "digest_of ''t''" example_import_options example_statement] example_ed_correct
    by (simp add: en env example_ed_def)
  obtain original where o: "verify_receipt_bytes (ni_verify ?env) example_world 9 ''y'' ''embedded original receipt'' original_options = Inr original"
    "verdict_passed original" using example_original by auto
  have "coherent example_exported" by (simp add: coherent_def example_exported_def example_receipt_def is_hex_digit_def)
  then have ok: "statement_problems ?env example_statement = []"
    using projected_statement_coherent [OF example_reads_back example_projection] by (simp add: export_evidence_def)
  obtain claim trust where "export_workflow ?env example_export_options Map.empty ''y'' = Inr claim"
      "export_trust ?env example_export_options Map.empty Map.empty = Inr trust"
      "project_receipt ?env example_exported (export_evidence ?env example_exported ''y'' trust claim) = Inr example_statement"
    using example_exported_statement [of example_statement] by (auto simp: exported_statement_def)
  note read = projection_read_back [OF example_b64_faithful _ _ _ this(2,1,3)]
  obtain nv where nv: "import_statement_file ?env example_world 9 Map.empty ''n'' (Some ''e'') example_import_options = Inr nv"
    "verdict_passed (nv_verdict nv)"
    using import_accepts [OF _ env(1) parsed dsse ok read _ _ o, of Map.empty "''n''"]
    by (auto simp: MAX_STATEMENT_BYTES_def MAX_RECEIPT_BYTES_def example_import_options_def example_statement_def)
  from import_statement_sound [OF nv] show ?thesis using env(1) parsed by (auto simp: example_statement_def)
qed

end
