(* ===== verification/Storage.thy ===== *)
theory Storage
  imports Pipelines Ledger Receipt Capsule Timestamp
begin

text \<open>
  Local storage, from \<open>src/storage/mod.rs\<close> and \<open>src/storage/content_store.rs\<close>: the step cache with its key, its
  index and its cleanup, the ledger a run opens, signing, and receipt files with unique names.

  A directory is a map from file names to contents. Parameters (\<open>storage_env\<close>): the primitives of the ledger, the
  YAML and JSON codecs, the ignore matcher and the range of \<open>DateTime<Utc>\<close>. A hash map is an association list, its
  iteration order the argument \<open>order\<close> where it matters. Readings of the clock are arguments, in the order they are
  made; times are nanoseconds. \<open>u64\<close> sums wrap, as they do in a release build.
\<close>

section \<open>Data\<close>

record cache_entry =
  ce_content_hash :: bytes
  ce_step_name :: bytes
  ce_input_paths :: "bytes list"
  ce_output_paths :: "bytes list"
  ce_command :: bytes
  ce_environment_hash :: bytes
  ce_result :: step_result
  ce_cached_at :: int
  ce_dependencies :: "bytes list"
  ce_metadata :: "bytes btree"

record cache_index_entry =
  ci_content_hash :: bytes
  ci_step_name :: bytes
  ci_cached_at :: int
  ci_file_size :: u64
  ci_access_count :: u64
  ci_last_accessed :: int

record cache_index =
  ix_entries :: "cache_index_entry btree"
  ix_last_updated :: int

record cache_stats =
  cs_total_entries :: nat
  cs_total_size_bytes :: u64
  cs_total_cache_hits :: u64
  cs_oldest_entry :: "int option"
  cs_newest_entry :: "int option"

record cache_cleanup_result =
  cc_removed_entries :: nat
  cc_removed_size_bytes :: u64
  cc_remaining_entries :: nat
  cc_remaining_size_bytes :: u64

record storage_env =
  so_ledger :: ledger_env
  so_entry_yaml :: "cache_entry \<Rightarrow> bytes"
  so_entry_of_yaml :: "bytes \<Rightarrow> cache_entry option"
  so_index_yaml :: "cache_index \<Rightarrow> bytes"
  so_index_of_yaml :: "bytes \<Rightarrow> cache_index option"
  so_receipt_json :: "receipt \<Rightarrow> bytes"
  so_receipt_yaml :: "receipt \<Rightarrow> bytes"
  so_receipt_of_yaml :: "bytes \<Rightarrow> receipt option"
  so_stamp :: "int \<Rightarrow> bytes"
  so_ignored :: "path \<Rightarrow> bool"
  so_min_utc :: int
  so_max_utc :: int

abbreviation so_blake3 :: "storage_env \<Rightarrow> bytes \<Rightarrow> digest" where "so_blake3 env \<equiv> le_blake3 (so_ledger env)"
abbreviation so_ed :: "storage_env \<Rightarrow> ed25519" where "so_ed env \<equiv> le_ed (so_ledger env)"

text \<open>The two files of the workspace, the directories \<open>cache\<close>, \<open>receipts\<close> and those of the ledger, with what the storage object holds.\<close>

record storage =
  s_config :: "bytes option"
  s_ignore_file :: "bytes option"
  s_cache :: "bytes \<rightharpoonup> bytes"
  s_receipts :: "bytes \<rightharpoonup> bytes"
  s_event_files :: "bytes \<rightharpoonup> bytes"
  s_chain_files :: "bytes \<rightharpoonup> bytes"
  s_keys :: key_files
  s_keypair :: "attest_keypair option"
  s_ledger :: "causal_ledger option"

datatype storage_error =
    NoSuchPath path
  | StIo path
  | BadIgnoreFile
  | StHashing hashing_error
  | BadCacheEntry bytes
  | BadCacheIndex
  | StClockRange
  | StSign sign_error
  | StLedger ledger_error
  | UnsignedTimestamp
  | StImprint ts_error
  | StTsa
  | CannotWriteReceipt bytes
  | ReceiptNamesExhausted
  | NoReceipt bytes
  | BadReceipt bytes

section \<open>Hashing\<close>

definition storage_hash_file :: "storage_env \<Rightarrow> fs \<Rightarrow> path \<Rightarrow> (storage_error, bytes) result" where
  "storage_hash_file env f p = and_then (ok_or (read_file f p) (StIo p)) (\<lambda>content. Inr (to_hex (so_blake3 env content)))"

text \<open>The files of a directory in the order of the walk, the contents one after the other.\<close>

fun directory_bytes :: "storage_env \<Rightarrow> fs \<Rightarrow> (path option, path \<times> file_type) result list \<Rightarrow> (storage_error, bytes) result" where
  "directory_bytes env f [] = Inr []"
| "directory_bytes env f (Inl _ # rest) = directory_bytes env f rest"
| "directory_bytes env f (Inr (p, kind) # rest) =
     (if kind = IsFile \<and> \<not> so_ignored env p then
        and_then (ok_or (read_file f p) (StIo p)) (\<lambda>content.
        and_then (directory_bytes env f rest) (\<lambda>bs. Inr (content @ bs)))
      else directory_bytes env f rest)"

definition hash_directory :: "storage_env \<Rightarrow> fs \<Rightarrow> path \<Rightarrow> (storage_error, bytes) result" where
  "hash_directory env f p = and_then (directory_bytes env f (walk_dir f p)) (\<lambda>bs. Inr (to_hex (so_blake3 env bs)))"

text \<open>\<open>target\<close> is what \<open>is_file\<close> and \<open>is_dir\<close> see, which follow links.\<close>

definition hash_path :: "storage_env \<Rightarrow> fs \<Rightarrow> (path \<Rightarrow> file_type option) \<Rightarrow> path \<Rightarrow> (storage_error, bytes) result" where
  "hash_path env f target p =
     (if target p = Some IsFile then storage_hash_file env f p
      else if target p = Some IsDir then hash_directory env f p
      else Inl (NoSuchPath p))"

definition hash_content :: "storage_env \<Rightarrow> bytes \<Rightarrow> bytes" where
  "hash_content env content = to_hex (so_blake3 env content)"

section \<open>The cache key\<close>

text \<open>The environment, sorted by variable: its number of variables, then each with its value.\<close>

definition env_fields :: "bytes btree \<Rightarrow> (bytes \<times> bytes) list" where
  "env_fields environ = (''env-count'', show_nat (length environ)) # concat (map (\<lambda>(k, v). [(''env-key'', k), (''env-value'', v)]) environ)"

definition CACHE_KEY_DOMAIN :: bytes where "CACHE_KEY_DOMAIN = ''attest-cache-key/v4'' @ [CHR 0x0A]"

definition cache_key_bytes :: "bytes \<Rightarrow> bytes \<Rightarrow> bytes \<Rightarrow> bytes btree \<Rightarrow> bytes" where
  "cache_key_bytes step_shape name inputs environ =
     CACHE_KEY_DOMAIN @ concat (map hash_field ([(''shape'', step_shape), (''step'', name), (''inputs'', inputs)] @ env_fields environ))"

definition compute_content_hash ::
  "storage_env \<Rightarrow> fs \<Rightarrow> path \<Rightarrow> bytes \<Rightarrow> bytes \<Rightarrow> path list \<Rightarrow> bytes btree \<Rightarrow> bytes \<Rightarrow> (storage_error, bytes) result" where
  "compute_content_hash env f workspace name command inputs environ step_shape =
     and_then (map_err StHashing (hash_inputs (so_blake3 env) f workspace name command inputs)) (\<lambda>inh.
     Inr (to_hex (so_blake3 env (cache_key_bytes step_shape name inh environ))))"

text \<open>\<open>inputs\<close> and \<open>outputs\<close> are paths with the strings they are shown as.\<close>

definition create_cache_entry ::
  "storage_env \<Rightarrow> fs \<Rightarrow> path \<Rightarrow> int \<Rightarrow> bytes \<Rightarrow> bytes \<Rightarrow> (path \<times> bytes) list \<Rightarrow> (path \<times> bytes) list \<Rightarrow> bytes btree \<Rightarrow> step_result
    \<Rightarrow> bytes list \<Rightarrow> bytes \<Rightarrow> (storage_error, cache_entry) result" where
  "create_cache_entry env f workspace now name command inputs outputs environ result dependencies step_shape =
     and_then (compute_content_hash env f workspace name command (map fst inputs) environ step_shape) (\<lambda>h.
     Inr \<lparr>ce_content_hash = h, ce_step_name = name, ce_input_paths = map snd inputs, ce_output_paths = map snd outputs,
       ce_command = command, ce_environment_hash = to_hex (so_blake3 env (concat (map hash_field (env_fields environ)))),
       ce_result = result, ce_cached_at = now, ce_dependencies = dependencies, ce_metadata = []\<rparr>)"

section \<open>The cache and its index\<close>

definition cache_file :: "bytes \<Rightarrow> bytes" where "cache_file h = h @ ''.yaml''"

definition INDEX_FILE :: bytes where "INDEX_FILE = ''index.yaml''"

definition init_cache_index :: "storage_env \<Rightarrow> int \<Rightarrow> storage \<Rightarrow> storage" where
  "init_cache_index env now s =
     (if s_cache s INDEX_FILE = None
      then s\<lparr>s_cache := (s_cache s)(INDEX_FILE \<mapsto> so_index_yaml env \<lparr>ix_entries = [], ix_last_updated = now\<rparr>)\<rparr>
      else s)"

text \<open>A storage object starts with what is on disk, no key and no open ledger. \<open>patterns_ok\<close> says whether the matcher
  accepts the ignore file, or its default patterns where there is none.\<close>

definition storage_new :: "(bytes option \<Rightarrow> bool) \<Rightarrow> storage \<Rightarrow> (storage_error, storage) result" where
  "storage_new patterns_ok disk =
     ensure (patterns_ok (s_ignore_file disk)) BadIgnoreFile (Inr (disk\<lparr>s_keypair := None, s_ledger := None\<rparr>))"

definition config_text :: "storage_env \<Rightarrow> int \<Rightarrow> bytes" where
  "config_text env now =
     ''# ATTEST Configuration'' @ [CHR 0x0A] @ ''version: '' @ [CHR 0x22] @ ''0.1'' @ [CHR 0x22, CHR 0x0A] @
     ''deterministic: true'' @ [CHR 0x0A] @ ''cache_enabled: true'' @ [CHR 0x0A] @
     ''created: '' @ [CHR 0x22] @ le_rfc3339 (so_ledger env) now @ [CHR 0x22, CHR 0x0A]"

text \<open>\<open>template\<close> is the text of \<open>templates/attestignore.template\<close>.\<close>

definition storage_init :: "storage_env \<Rightarrow> bytes \<Rightarrow> int \<times> int \<Rightarrow> storage \<Rightarrow> storage" where
  "storage_init env template clock s =
     (let s = init_cache_index env (snd clock) (s\<lparr>s_config := Some (config_text env (fst clock))\<rparr>) in
      if s_ignore_file s = None then s\<lparr>s_ignore_file := Some template\<rparr> else s)"

definition read_index :: "storage_env \<Rightarrow> bytes \<Rightarrow> (storage_error, cache_index) result" where
  "read_index env content = ensure (is_utf8 content) BadCacheIndex (ok_or (so_index_of_yaml env content) BadCacheIndex)"

definition update_cache_index ::
  "storage_env \<Rightarrow> int \<times> int \<times> int \<Rightarrow> bytes \<Rightarrow> bytes \<Rightarrow> storage \<Rightarrow> (storage_error, storage) result" where
  "update_cache_index env clock h name s =
     (case clock of (cached, accessed, updated) \<Rightarrow>
      and_then (case s_cache s INDEX_FILE of
          Some content \<Rightarrow> read_index env content
        | None \<Rightarrow> Inr \<lparr>ix_entries = [], ix_last_updated = updated\<rparr>) (\<lambda>ix.
      let sz = (case s_cache s (cache_file h) of Some content \<Rightarrow> of_nat (length content) | None \<Rightarrow> 0);
          entry = \<lparr>ci_content_hash = h, ci_step_name = name, ci_cached_at = cached, ci_file_size = sz, ci_access_count = 1,
            ci_last_accessed = accessed\<rparr>;
          ix = ix\<lparr>ix_entries := btree_insert h entry (ix_entries ix), ix_last_updated := updated\<rparr>
      in Inr (s\<lparr>s_cache := (s_cache s)(INDEX_FILE \<mapsto> so_index_yaml env ix)\<rparr>)))"

definition get_cache_stats :: "storage_env \<Rightarrow> storage \<Rightarrow> (storage_error, cache_stats) result" where
  "get_cache_stats env s =
     (case s_cache s INDEX_FILE of
        None \<Rightarrow> Inr \<lparr>cs_total_entries = 0, cs_total_size_bytes = 0, cs_total_cache_hits = 0, cs_oldest_entry = None, cs_newest_entry = None\<rparr>
      | Some content \<Rightarrow>
          and_then (read_index env content) (\<lambda>ix.
          let es = map snd (ix_entries ix); times = map ci_cached_at es in
          Inr \<lparr>cs_total_entries = length es, cs_total_size_bytes = sum_list (map ci_file_size es),
            cs_total_cache_hits = sum_list (map ci_access_count es),
            cs_oldest_entry = (if times = [] then None else Some (Min (set times))),
            cs_newest_entry = (if times = [] then None else Some (Max (set times)))\<rparr>))"

text \<open>\<open>chrono::Duration::days\<close> panics beyond \<open>i64::MAX\<close> milliseconds, and so does a difference out of range.\<close>

definition cutoff_time :: "storage_env \<Rightarrow> int \<Rightarrow> u64 \<Rightarrow> (storage_error, int) result" where
  "cutoff_time env now days =
     (let d = sint days; cutoff = now - d * 86400 * 10 ^ 9 in
      ensure (\<bar>d * 86400\<bar> \<le> (2 ^ 63 - 1) div 1000 \<and> so_min_utc env \<le> cutoff \<and> cutoff \<le> so_max_utc env) StClockRange (Inr cutoff))"

fun cleanup_select ::
  "int \<Rightarrow> u64 \<Rightarrow> (bytes \<times> cache_index_entry) list \<Rightarrow> u64 \<Rightarrow> (bytes \<times> cache_index_entry) list \<times> u64" where
  "cleanup_select cutoff limit [] remaining = ([], remaining)"
| "cleanup_select cutoff limit ((h, e) # rest) remaining =
     (if ci_cached_at e < cutoff \<or> remaining > limit then
        let (removed, final) = cleanup_select cutoff limit rest (remaining - ci_file_size e) in ((h, e) # removed, final)
      else cleanup_select cutoff limit rest remaining)"

text \<open>\<open>order\<close> is the order in which the index is iterated.\<close>

definition cleanup_cache ::
  "storage_env \<Rightarrow> (cache_index_entry btree \<Rightarrow> cache_index_entry btree) \<Rightarrow> int \<times> int \<Rightarrow> u64 \<Rightarrow> u64 \<Rightarrow> storage
    \<Rightarrow> (storage_error, cache_cleanup_result \<times> storage) result" where
  "cleanup_cache env order clock limit days s =
     (case s_cache s INDEX_FILE of
        None \<Rightarrow> Inr (\<lparr>cc_removed_entries = 0, cc_removed_size_bytes = 0, cc_remaining_entries = 0, cc_remaining_size_bytes = 0\<rparr>, s)
      | Some content \<Rightarrow>
          and_then (read_index env content) (\<lambda>ix.
          and_then (cutoff_time env (fst clock) days) (\<lambda>cutoff.
          let es = ix_entries ix;
              (removed, remaining) = cleanup_select cutoff limit (sort_key (\<lambda>(_, e). ci_last_accessed e) (order es))
                (sum_list (map (ci_file_size \<circ> snd) es));
              gone = fst ` set removed;
              kept = filter (\<lambda>(h, _). h \<notin> gone) es;
              files = (\<lambda>name. if \<exists>h\<in>gone. name = cache_file h then None else s_cache s name);
              ix = ix\<lparr>ix_entries := kept, ix_last_updated := snd clock\<rparr>
          in Inr (\<lparr>cc_removed_entries = length removed, cc_removed_size_bytes = sum_list (map (ci_file_size \<circ> snd) removed),
                cc_remaining_entries = length kept, cc_remaining_size_bytes = remaining\<rparr>,
              s\<lparr>s_cache := files(INDEX_FILE \<mapsto> so_index_yaml env ix)\<rparr>))))"

text \<open>An entry that is not the one of its name is removed.\<close>

definition get_cached_entry :: "storage_env \<Rightarrow> bytes \<Rightarrow> storage \<Rightarrow> (storage_error, cache_entry option \<times> storage) result" where
  "get_cached_entry env h s =
     (case s_cache s (cache_file h) of
        None \<Rightarrow> Inr (None, s)
      | Some content \<Rightarrow>
          ensure (is_utf8 content) (BadCacheEntry h) (
          and_then (ok_or (so_entry_of_yaml env content) (BadCacheEntry h)) (\<lambda>entry.
          if ce_content_hash entry = h then Inr (Some entry, s)
          else Inr (None, s\<lparr>s_cache := (s_cache s)(cache_file h := None)\<rparr>))))"

definition cache_store :: "storage_env \<Rightarrow> int \<times> int \<times> int \<Rightarrow> cache_entry \<Rightarrow> storage \<Rightarrow> (storage_error, storage) result" where
  "cache_store env clock entry s =
     update_cache_index env clock (ce_content_hash entry) (ce_step_name entry)
       (s\<lparr>s_cache := (s_cache s)(cache_file (ce_content_hash entry) \<mapsto> so_entry_yaml env entry)\<rparr>)"

definition get_cached_result ::
  "storage_env \<Rightarrow> fs \<Rightarrow> bytes \<Rightarrow> bytes \<Rightarrow> storage \<Rightarrow> (storage_error, step_result option \<times> storage) result" where
  "get_cached_result env f name inh s =
     and_then (compute_content_hash env f [] name [] [] [] []) (\<lambda>h.
     and_then (get_cached_entry env h s) (\<lambda>(found, s).
     Inr (case found of
            Some entry \<Rightarrow> if sr_input_hash (ce_result entry) = inh then Some (ce_result entry) else None
          | None \<Rightarrow> None, s)))"

definition cache_result ::
  "storage_env \<Rightarrow> fs \<Rightarrow> int \<times> int \<times> int \<times> int \<Rightarrow> bytes \<Rightarrow> bytes \<Rightarrow> step_result \<Rightarrow> storage \<Rightarrow> (storage_error, storage) result" where
  "cache_result env f clock name inh result s =
     and_then (create_cache_entry env f [] (fst clock) name [] [] [] [] result [] []) (\<lambda>entry.
     cache_store env (snd clock) entry s)"

section \<open>Keys, ledger and signatures\<close>

definition set_keypair :: "attest_keypair \<Rightarrow> storage \<Rightarrow> storage" where
  "set_keypair kp s = s\<lparr>s_ledger := map_option (Ledger.load_keypair kp) (s_ledger s), s_keypair := Some kp\<rparr>"

text \<open>\<open>seed\<close> is what the generator of the operating system would return.\<close>

definition storage_load_keypair :: "storage_env \<Rightarrow> digest \<Rightarrow> bool \<Rightarrow> storage \<Rightarrow> (storage_error, storage) result" where
  "storage_load_keypair env seed enabled s =
     (if enabled then
        and_then (map_err StSign (load_or_generate (so_ed env) seed (s_keys s))) (\<lambda>(kp, files).
        Inr (s\<lparr>s_keypair := Some kp, s_keys := files\<rparr>))
      else Inr s)"

text \<open>The ledger is opened once; \<open>listing\<close> is the order of its event directory.\<close>

definition get_causal_ledger :: "storage_env \<Rightarrow> bytes list \<Rightarrow> storage \<Rightarrow> (storage_error, causal_ledger \<times> storage) result" where
  "get_causal_ledger env listing s =
     (case s_ledger s of
        Some l \<Rightarrow> Inr (l, s)
      | None \<Rightarrow>
          let l = ledger_new (s_event_files s) (s_chain_files s);
              l = (case s_keypair s of Some kp \<Rightarrow> Ledger.load_keypair kp l | None \<Rightarrow> l) in
          and_then (map_err StLedger (load_events (so_ledger env) True listing l)) (\<lambda>l.
          Inr (l, s\<lparr>s_ledger := Some l\<rparr>)))"

definition show_bool :: "bool \<Rightarrow> bytes" where "show_bool b = (if b then ''true'' else ''false'')"

definition event_metadata :: "storage_env \<Rightarrow> step_result \<Rightarrow> bytes \<rightharpoonup> bytes" where
  "event_metadata env r =
     (let m = [''duration_secs'' \<mapsto> show_nat (unat (sr_duration_secs r)), ''cache_hit'' \<mapsto> show_bool (sr_cache_hit r)] in
      if sr_stdout r \<noteq> [] then m(''stdout_hash'' \<mapsto> to_hex (so_blake3 env (sr_stdout r))) else m)"

definition record_causal_event ::
  "storage_env \<Rightarrow> bytes list \<Rightarrow> int \<Rightarrow> bytes \<Rightarrow> bytes list \<Rightarrow> step_result \<Rightarrow> bytes \<Rightarrow> bytes \<Rightarrow> storage
    \<Rightarrow> (storage_error, causal_event \<times> storage) result" where
  "record_causal_event env listing now name parents r pipe environ s =
     and_then (get_causal_ledger env listing s) (\<lambda>(l, s).
     and_then (map_err StLedger (record_event_local (so_ledger env) now name parents (sr_input_hash r) (sr_output_hash r)
       (sint (sr_exit_code r)) pipe environ (event_metadata env r) l)) (\<lambda>(e, l).
     Inr (e, s\<lparr>s_ledger := Some l\<rparr>)))"

definition sign_receipt :: "storage_env \<Rightarrow> storage \<Rightarrow> receipt \<Rightarrow> receipt" where
  "sign_receipt env s r =
     (case s_keypair s of
        Some kp \<Rightarrow> r\<lparr>r_signature := Some (sign (so_ed env) kp (receipt_signing_bytes (so_receipt_json env) r)),
                    r_signer_public_key := Some (public_key_hex kp)\<rparr>
      | None \<Rightarrow> r)"

definition verify_receipt :: "storage_env \<Rightarrow> storage \<Rightarrow> receipt \<Rightarrow> (storage_error, bool) result" where
  "verify_receipt env s r =
     (case (r_signature r, r_signer_public_key r) of
        (Some sig, Some key) \<Rightarrow>
          and_then (ok_or (hex_decode key) (StSign InvalidPublicKeyHex)) (\<lambda>_.
          (case s_keypair s of
             Some kp \<Rightarrow>
               if public_key_hex kp = key
               then map_err StSign (verify (so_ed env) kp (receipt_signing_bytes (so_receipt_json env) r) sig)
               else Inr False
           | None \<Rightarrow> Inr False))
      | _ \<Rightarrow> Inr False)"

text \<open>\<open>tsa\<close> is the answer of the timestamp authority to an imprint.\<close>

definition timestamp_receipt ::
  "ts_env \<Rightarrow> (bytes \<Rightarrow> bytes) \<Rightarrow> (digest \<Rightarrow> bytes option) \<Rightarrow> receipt \<Rightarrow> (storage_error, receipt) result" where
  "timestamp_receipt ts b64 tsa r =
     and_then (ok_or (r_signature r) UnsignedTimestamp) (\<lambda>sig.
     and_then (map_err StImprint (signature_imprint ts sig)) (\<lambda>imprint.
     and_then (ok_or (tsa imprint) StTsa) (\<lambda>token.
     Inr (r\<lparr>r_timestamp_token := Some (b64 token)\<rparr>))))"

definition get_signer_info :: "storage \<Rightarrow> (bytes \<times> bytes) option" where
  "get_signer_info s = map_option (\<lambda>kp. (public_key_hex kp, ''Ed25519'')) (s_keypair s)"

section \<open>Receipt files\<close>

definition receipt_base :: "storage_env \<Rightarrow> bytes \<Rightarrow> bytes option \<Rightarrow> bytes \<Rightarrow> bytes" where
  "receipt_base env stamp label content =
     (let short = take 12 (to_hex (so_blake3 env content)) in
      (case label of
         Some l \<Rightarrow> ''receipt_'' @ stamp @ ''_'' @ l @ ''_'' @ short
       | None \<Rightarrow> ''receipt_'' @ stamp @ ''_'' @ short))"

definition receipt_name :: "bytes \<Rightarrow> nat \<Rightarrow> bytes" where
  "receipt_name base attempt = (if attempt = 0 then base @ ''.yaml'' else base @ ''-'' @ show_nat attempt @ ''.yaml'')"

text \<open>One attempt for every \<open>u32\<close> below the last, where the range overflows. \<open>writable\<close> says where the directory lets a new file be made.\<close>

fun write_attempts ::
  "(bytes \<Rightarrow> bool) \<Rightarrow> bytes \<Rightarrow> bytes \<Rightarrow> nat \<Rightarrow> nat \<Rightarrow> (bytes \<rightharpoonup> bytes) \<Rightarrow> (storage_error, bytes \<times> (bytes \<rightharpoonup> bytes)) result" where
  "write_attempts writable base content attempt 0 dir = Inl ReceiptNamesExhausted"
| "write_attempts writable base content attempt (Suc left) dir =
     (let name = receipt_name base attempt in
      if dir name \<noteq> None then write_attempts writable base content (Suc attempt) left dir
      else ensure (writable name) (CannotWriteReceipt name) (Inr (name, dir(name \<mapsto> content))))"

definition write_receipt_unique ::
  "storage_env \<Rightarrow> (bytes \<Rightarrow> bool) \<Rightarrow> bytes \<Rightarrow> bytes option \<Rightarrow> bytes \<Rightarrow> (bytes \<rightharpoonup> bytes)
    \<Rightarrow> (storage_error, bytes \<times> (bytes \<rightharpoonup> bytes)) result" where
  "write_receipt_unique env writable stamp label content dir =
     write_attempts writable (receipt_base env stamp label content) content 0 (2 ^ 32 - 1) dir"

definition save_receipt :: "storage_env \<Rightarrow> (bytes \<Rightarrow> bool) \<Rightarrow> receipt \<Rightarrow> storage \<Rightarrow> (storage_error, bytes \<times> storage) result" where
  "save_receipt env writable r s =
     and_then (write_receipt_unique env writable (so_stamp env (r_timestamp r)) None (so_receipt_yaml env r) (s_receipts s)) (\<lambda>(name, dir).
     Inr (name, s\<lparr>s_receipts := dir\<rparr>))"

definition load_receipt :: "storage_env \<Rightarrow> bytes \<Rightarrow> storage \<Rightarrow> (storage_error, receipt) result" where
  "load_receipt env name s =
     and_then (ok_or (s_receipts s name) (NoReceipt name)) (\<lambda>content.
     ensure (is_utf8 content) (NoReceipt name) (ok_or (so_receipt_of_yaml env content) (BadReceipt name)))"

definition is_yaml_file :: "bytes \<Rightarrow> bool" where
  "is_yaml_file name \<longleftrightarrow> ends_with name ''.yaml'' \<and> name \<noteq> ''.yaml''"

text \<open>\<open>listing\<close> is the directory in the order it is read, with modification times; the newest come first.\<close>

definition list_receipts :: "storage_env \<Rightarrow> (bytes \<times> int) list \<Rightarrow> nat \<Rightarrow> storage \<Rightarrow> receipt list" where
  "list_receipts env listing limit s =
     List.map_filter (\<lambda>(name, _). case load_receipt env name s of Inr r \<Rightarrow> Some r | Inl _ \<Rightarrow> None)
       (take limit (rev (sort_key snd (filter (\<lambda>(name, _). is_yaml_file name) listing))))"

section \<open>The content store\<close>

definition store_content :: "(bytes \<Rightarrow> digest) \<Rightarrow> bytes \<Rightarrow> (bytes \<rightharpoonup> bytes) \<Rightarrow> bytes \<times> (bytes \<rightharpoonup> bytes)" where
  "store_content blake3 content dir = (to_hex (blake3 content), dir(to_hex (blake3 content) \<mapsto> content))"

definition get_content :: "bytes \<Rightarrow> (bytes \<rightharpoonup> bytes) \<Rightarrow> bytes option" where
  "get_content h dir = dir h"

section \<open>The cache key binds the step\<close>

lemma env_fields_inject:
  assumes "env_fields e = env_fields e'"
  shows "e = e'"
proof -
  let ?g = "\<lambda>(k, v). [(''env-key'', k), (''env-value'', v)]"
  have "concat (map ?g xs) = concat (map ?g ys) \<Longrightarrow> xs = ys" for xs ys :: "bytes btree"
  proof (induction xs arbitrary: ys)
    case Nil
    then show ?case by (cases ys) auto
  next
    case (Cons x xs)
    then show ?case by (cases ys; cases x) auto
  qed
  then show ?thesis using assms unfolding env_fields_def by simp
qed

lemma cache_key_bytes_inject:
  "cache_key_bytes sh n i e = cache_key_bytes sh' n' i' e' \<longleftrightarrow> sh = sh' \<and> n = n' \<and> i = i' \<and> e = e'"
proof
  let ?l = "[(''shape'', sh), (''step'', n), (''inputs'', i)] @ env_fields e"
  let ?l' = "[(''shape'', sh'), (''step'', n'), (''inputs'', i')] @ env_fields e'"
  assume "cache_key_bytes sh n i e = cache_key_bytes sh' n' i' e'"
  then have "concat (map hash_field ?l) = concat (map hash_field ?l')" unfolding cache_key_bytes_def by simp
  then have "?l = ?l'" by (intro field.concat_map_inject) (simp_all add: list_all_iff)
  then show "sh = sh' \<and> n = n' \<and> i = i' \<and> e = e'" using env_fields_inject [of e e'] by simp
qed simp

text \<open>
  C37. The cache key binds everything a cached result may depend on. When two steps have the same content hash, they have
  the same shape, the same name, the same environment, variable by variable, and the same input hash, which in turn
  binds the command and the declared tree. The only way out is a BLAKE3 collision between the two keys.
\<close>

theorem cache_key_binding:
  assumes "compute_content_hash env f ws name command inputs environ shape = Inr h"
    and "compute_content_hash env f' ws' name' command' inputs' environ' shape' = Inr h"
    and "inj_on (so_blake3 env) {k. \<exists>i. (hash_inputs (so_blake3 env) f ws name command inputs = Inr i \<and> k = cache_key_bytes shape name i environ)
      \<or> (hash_inputs (so_blake3 env) f' ws' name' command' inputs' = Inr i \<and> k = cache_key_bytes shape' name' i environ')}"
  shows "shape = shape' \<and> name = name' \<and> environ = environ' \<and>
    (\<exists>i. hash_inputs (so_blake3 env) f ws name command inputs = Inr i \<and>
         hash_inputs (so_blake3 env) f' ws' name' command' inputs' = Inr i)"
proof -
  obtain i i' where i: "hash_inputs (so_blake3 env) f ws name command inputs = Inr i"
      "h = to_hex (so_blake3 env (cache_key_bytes shape name i environ))"
    and i': "hash_inputs (so_blake3 env) f' ws' name' command' inputs' = Inr i'"
      "h = to_hex (so_blake3 env (cache_key_bytes shape' name' i' environ'))"
    using assms(1,2) by (auto simp: compute_content_hash_def result_simps)
  then have "so_blake3 env (cache_key_bytes shape name i environ) = so_blake3 env (cache_key_bytes shape' name' i' environ')" by simp
  then have "cache_key_bytes shape name i environ = cache_key_bytes shape' name' i' environ'"
    by (rule inj_onD [OF assms(3)]) (use i i' in blast)+
  with i i' show ?thesis by (simp add: cache_key_bytes_inject)
qed

section \<open>Cleaning the cache\<close>

definition entries_size :: "(bytes \<times> cache_index_entry) list \<Rightarrow> nat" where
  "entries_size es = sum_list (map (unat \<circ> ci_file_size \<circ> snd) es)"

lemma entries_size_simps [simp]: "entries_size [] = 0" "entries_size (x # es) = unat (ci_file_size (snd x)) + entries_size es"
  by (simp_all add: entries_size_def)

lemma entries_size_mset: "mset es = mset es' \<Longrightarrow> entries_size es = entries_size es'"
  unfolding entries_size_def by (metis mset_map sum_mset_sum_list)

lemma unat_sum_sizes: "entries_size es < 2 ^ 64 \<Longrightarrow> unat (sum_list (map (ci_file_size \<circ> snd) es)) = entries_size es"
proof (induction es)
  case (Cons x es)
  then show ?case by (simp add: unat_word_ariths(1))
qed simp

lemma cleanup_select_spec:
  assumes "cleanup_select cutoff limit es remaining = (removed, final)" "entries_size es \<le> unat remaining"
    "distinct (map fst es)" "sorted (map (\<lambda>x. ci_last_accessed (snd x)) es)"
  shows "set removed \<subseteq> set es \<and> distinct (map fst removed) \<and>
    unat final + entries_size removed = unat remaining \<and>
    (\<forall>x\<in>set es - set removed. cutoff \<le> ci_cached_at (snd x)) \<and>
    (limit < final \<longrightarrow> removed = es) \<and>
    (limit < remaining \<or> (\<forall>x\<in>set removed. ci_cached_at (snd x) < cutoff)) \<and>
    (\<forall>x\<in>set removed. \<forall>y\<in>set es - set removed. cutoff \<le> ci_cached_at (snd x) \<longrightarrow> ci_last_accessed (snd x) \<le> ci_last_accessed (snd y))"
  using assms
proof (induction es arbitrary: remaining removed)
  case Nil
  then show ?case by auto
next
  case (Cons x es)
  obtain h e where x: "x = (h, e)" by (cases x)
  show ?case
  proof (cases "ci_cached_at e < cutoff \<or> remaining > limit")
    case True
    then obtain rest where rest: "cleanup_select cutoff limit es (remaining - ci_file_size e) = (rest, final)"
      and removed: "removed = x # rest"
      using Cons.prems(1) by (auto simp: x split: prod.splits)
    have fits: "ci_file_size e \<le> remaining" using Cons.prems(2) by (simp add: x word_le_nat_alt)
    then have minus: "unat (remaining - ci_file_size e) = unat remaining - unat (ci_file_size e)" by (rule unat_sub)
    then have le: "remaining - ci_file_size e \<le> remaining" by (simp add: word_le_nat_alt)
    have "entries_size es \<le> unat (remaining - ci_file_size e)" using Cons.prems(2) minus by (simp add: x)
    note ih = Cons.IH [OF rest this] 
    have d: "distinct (map fst es)" "sorted (map (\<lambda>x. ci_last_accessed (snd x)) es)" using Cons.prems(3,4) by simp_all
    have hd: "\<forall>y\<in>set es. ci_last_accessed e \<le> ci_last_accessed (snd y)" using Cons.prems(4) by (simp add: x)
    have "fst ` set rest \<subseteq> fst ` set es" using ih [OF d] by (intro image_mono) blast
    then have "h \<notin> fst ` set rest" using Cons.prems(3) by (auto simp: x)
    moreover have "limit < remaining \<or> (\<forall>x\<in>set removed. ci_cached_at (snd x) < cutoff)"
      using ih [OF d] le True unfolding removed by (auto simp: x word_le_nat_alt word_less_nat_alt)
    ultimately show ?thesis using ih [OF d] minus fits hd Cons.prems(3) unfolding removed by (auto simp: x word_le_nat_alt)
  next
    case False
    then have rest: "cleanup_select cutoff limit es remaining = (removed, final)" using Cons.prems(1) by (simp add: x)
    have "entries_size es \<le> unat remaining" "distinct (map fst es)" "sorted (map (\<lambda>x. ci_last_accessed (snd x)) es)"
      using Cons.prems by simp_all
    note ih = Cons.IH [OF rest this]
    have "\<not> limit < final" using ih False by (auto simp: word_less_nat_alt)
    moreover have "\<forall>y\<in>set removed. ci_cached_at (snd y) < cutoff" using ih False by auto
    ultimately show ?thesis using ih False by (auto simp: x)
  qed
qed


text \<open>
  Cleaning the cache keeps its promises. When the entries' sizes add up within a \<open>u64\<close>, then whatever the order in
  which the index is iterated: every entry that is kept is at least as new as the cutoff, the kept entries fit in the
  limit and their total is the one reported, what was removed and what remains make up what was there, an entry that was
  not expired is removed only if it was used no later than every entry that stays, the files of the removed entries are
  gone, and no other file of the cache but the index is touched.
\<close>

theorem cleanup_cache_bounds:
  assumes "s_cache s INDEX_FILE = Some content" "read_index env content = Inr ix" "btree_ok (ix_entries ix)"
    "mset (order (ix_entries ix)) = mset (ix_entries ix)" "entries_size (ix_entries ix) < 2 ^ 64"
    "cleanup_cache env order clock limit days s = Inr (res, s')"
  shows "\<exists>kept removed cutoff. cutoff_time env (fst clock) days = Inr cutoff \<and>
    s_cache s' INDEX_FILE = Some (so_index_yaml env (ix\<lparr>ix_entries := kept, ix_last_updated := snd clock\<rparr>)) \<and>
    set (ix_entries ix) = set kept \<union> set removed \<and> set kept \<inter> set removed = {} \<and>
    (\<forall>x\<in>set kept. cutoff \<le> ci_cached_at (snd x)) \<and>
    (\<forall>x\<in>set removed. \<forall>y\<in>set kept. cutoff \<le> ci_cached_at (snd x) \<longrightarrow> ci_last_accessed (snd x) \<le> ci_last_accessed (snd y)) \<and>
    entries_size kept \<le> unat limit \<and> unat (cc_remaining_size_bytes res) = entries_size kept \<and>
    unat (cc_removed_size_bytes res) + entries_size kept = entries_size (ix_entries ix) \<and>
    cc_remaining_entries res = length kept \<and> cc_removed_entries res + length kept = length (ix_entries ix) \<and>
    (\<forall>name. name \<noteq> INDEX_FILE \<longrightarrow> s_cache s' name = (if name \<in> (cache_file \<circ> fst) ` set removed then None else s_cache s name))"
proof -
  let ?es = "ix_entries ix"
  let ?sorted = "sort_key (\<lambda>(_, e). ci_last_accessed e) (order ?es)"
  obtain cutoff where cutoff: "cutoff_time env (fst clock) days = Inr cutoff"
    using assms(1,2,6) by (auto simp: cleanup_cache_def result_simps)
  obtain removed final where sel: "cleanup_select cutoff limit ?sorted (sum_list (map (ci_file_size \<circ> snd) ?es)) = (removed, final)"
    by (cases "cleanup_select cutoff limit ?sorted (sum_list (map (ci_file_size \<circ> snd) ?es))")
  define kept where "kept = filter (\<lambda>(h, _). h \<notin> fst ` set removed) ?es"
  have res: "cc_removed_entries res = length removed" "cc_removed_size_bytes res = sum_list (map (ci_file_size \<circ> snd) removed)"
      "cc_remaining_entries res = length kept" "cc_remaining_size_bytes res = final"
      "s_cache s' = (\<lambda>name. if \<exists>h\<in>fst ` set removed. name = cache_file h then None else s_cache s name)
        (INDEX_FILE \<mapsto> so_index_yaml env (ix\<lparr>ix_entries := kept, ix_last_updated := snd clock\<rparr>))"
    using assms(1,2,6) cutoff sel by (auto simp: cleanup_cache_def Let_def kept_def)
  have ms: "mset ?sorted = mset ?es" using assms(4) by simp
  have d: "distinct (map fst ?es)" using assms(3) by (simp add: btree_ok_def strict_sorted_iff)
  then have "distinct (map fst ?sorted)" by (metis ms mset_map mset_eq_imp_distinct_iff)
  moreover have size: "entries_size ?sorted = entries_size ?es" by (rule entries_size_mset [OF ms])
  moreover have "sorted (map (\<lambda>x. ci_last_accessed (snd x)) ?sorted)"
    using sorted_sort_key [of "\<lambda>(_, e). ci_last_accessed e" "order ?es"] by (simp add: case_prod_beta')
  moreover have tot: "unat (sum_list (map (ci_file_size \<circ> snd) ?es)) = entries_size ?es" by (rule unat_sum_sizes [OF assms(5)])
  ultimately have spec: "set removed \<subseteq> set ?sorted" "distinct (map fst removed)"
    "unat final + entries_size removed = entries_size ?es"
    "\<forall>x\<in>set ?sorted - set removed. cutoff \<le> ci_cached_at (snd x)" "limit < final \<longrightarrow> removed = ?sorted"
    "\<forall>x\<in>set removed. \<forall>y\<in>set ?sorted - set removed. cutoff \<le> ci_cached_at (snd x) \<longrightarrow> ci_last_accessed (snd x) \<le> ci_last_accessed (snd y)"
    using cleanup_select_spec [OF sel] by simp_all
  have setes: "set ?sorted = set ?es" by (metis ms set_mset_mset)
  have kept: "kept = filter (\<lambda>x. x \<notin> set removed) ?es"
    unfolding kept_def
  proof (rule filter_cong [OF refl])
    fix x assume "x \<in> set ?es"
    moreover have "inj_on fst (set ?es)" "set removed \<subseteq> set ?es" using d spec(1) setes by (simp_all add: distinct_map)
    ultimately have "fst x \<in> fst ` set removed \<longleftrightarrow> x \<in> set removed" by (metis inj_on_image_mem_iff)
    then show "(case x of (h, _) \<Rightarrow> h \<notin> fst ` set removed) = (x \<notin> set removed)" by (simp add: case_prod_beta')
  qed
  then have setk: "set kept = set ?sorted - set removed" using setes by auto
  have "mset removed = filter_mset (\<lambda>x. x \<in> set removed) (mset ?es)"
  proof -
    have "distinct removed" "distinct (filter (\<lambda>x. x \<in> set removed) ?es)" using spec(2) d by (simp_all add: distinct_map)
    moreover have "set removed = set (filter (\<lambda>x. x \<in> set removed) ?es)" using spec(1) setes by auto
    ultimately have "mset removed = mset (filter (\<lambda>x. x \<in> set removed) ?es)" by (metis set_eq_iff_mset_eq_distinct)
    then show ?thesis by simp
  qed
  then have split: "mset ?es = mset (removed @ kept)" using multiset_partition [of "mset ?es" "\<lambda>x. x \<in> set removed"] kept by simp
  then have sizes: "entries_size ?es = entries_size removed + entries_size kept" and lens: "length ?es = length removed + length kept"
    using entries_size_mset [OF split] size_mset [of ?es] size_mset [of "removed @ kept"] by (simp_all add: entries_size_def)
  have final: "unat final = entries_size kept" using spec(3) sizes by simp
  have "\<not> limit < final"
  proof
    assume less: "limit < final"
    then have "removed = ?sorted" using spec(5) by simp
    then have "unat final = 0" using spec(3) size by simp
    with less show False by (simp add: word_less_nat_alt)
  qed
  then have "entries_size kept \<le> unat limit" using final by (simp add: word_less_nat_alt)
  moreover have "unat (cc_removed_size_bytes res) + entries_size kept = entries_size ?es"
    using unat_sum_sizes [of removed] assms(5) sizes unfolding res(2) by simp
  moreover have "s_cache s' INDEX_FILE = Some (so_index_yaml env (ix\<lparr>ix_entries := kept, ix_last_updated := snd clock\<rparr>))"
    "\<forall>name. name \<noteq> INDEX_FILE \<longrightarrow> s_cache s' name = (if name \<in> (cache_file \<circ> fst) ` set removed then None else s_cache s name)"
    unfolding res(5) by (auto simp: image_iff)
  moreover have "set ?es = set kept \<union> set removed" "set kept \<inter> set removed = {}" using setk setes spec(1) by blast+
  moreover have "\<forall>x\<in>set kept. cutoff \<le> ci_cached_at (snd x)"
    "\<forall>x\<in>set removed. \<forall>y\<in>set kept. cutoff \<le> ci_cached_at (snd x) \<longrightarrow> ci_last_accessed (snd x) \<le> ci_last_accessed (snd y)"
    using spec(4,6) unfolding setk by blast+
  moreover have "unat (cc_remaining_size_bytes res) = entries_size kept" "cc_remaining_entries res = length kept"
    "cc_removed_entries res + length kept = length ?es" using res(1,3,4) final lens by simp_all
  ultimately show ?thesis using cutoff by (intro exI [of _ kept] exI [of _ removed] exI [of _ cutoff] conjI)
qed

section \<open>An example store\<close>

definition example_entry :: cache_entry where
  "example_entry = \<lparr>ce_content_hash = ''h'', ce_step_name = ''build'', ce_input_paths = [], ce_output_paths = [], ce_command = ''make'',
     ce_environment_hash = [], ce_result = hd (r_steps example_receipt), ce_cached_at = 0, ce_dependencies = [], ce_metadata = []\<rparr>"

definition example_indexed :: "bytes \<Rightarrow> u64 \<Rightarrow> int \<Rightarrow> cache_index_entry" where
  "example_indexed h sz t = \<lparr>ci_content_hash = h, ci_step_name = ''build'', ci_cached_at = t, ci_file_size = sz, ci_access_count = 1,
     ci_last_accessed = t\<rparr>"

definition example_index :: cache_index where
  "example_index = \<lparr>ix_entries = [(''a'', example_indexed ''a'' 5 100), (''b'', example_indexed ''b'' 3 200)], ix_last_updated = 0\<rparr>"

definition example_storage_env :: storage_env where
  "example_storage_env = \<lparr>so_ledger = example_env, so_entry_yaml = (\<lambda>_. ''e''),
     so_entry_of_yaml = (\<lambda>_. Some example_entry), so_index_yaml = (\<lambda>_. ''i''), so_index_of_yaml = (\<lambda>_. Some example_index),
     so_receipt_json = example_receipt_json, so_receipt_yaml = (\<lambda>_. ''r''),
     so_receipt_of_yaml = (\<lambda>_. Some (example_receipt\<lparr>r_signature := Some (sign example_ed (from_signing_key example_ed (digest_of ''k''))
        (receipt_signing_bytes example_receipt_json example_receipt)),
        r_signer_public_key := Some (public_key_hex (from_signing_key example_ed (digest_of ''k'')))\<rparr>)),
     so_stamp = show_int, so_ignored = (\<lambda>_. False), so_min_utc = - (10 ^ 24), so_max_utc = 10 ^ 24\<rparr>"

definition example_storage :: storage where
  "example_storage = \<lparr>s_config = None, s_ignore_file = None, s_cache = Map.empty, s_receipts = Map.empty, s_event_files = Map.empty, s_chain_files = Map.empty,
     s_keys = \<lparr>private_key = Absent, public_key = Absent\<rparr>, s_keypair = Some (from_signing_key example_ed (digest_of ''k'')), s_ledger = None\<rparr>"

theorem cache_key_binding_witness:
  "\<exists>h i. compute_content_hash example_storage_env example_fs [] ''s'' ''make'' [] [(''K'', ''v'')] ''shape'' = Inr h \<and>
     hash_inputs (so_blake3 example_storage_env) example_fs [] ''s'' ''make'' [] = Inr i"
proof -
  obtain h where h: "compute_content_hash example_storage_env example_fs [] ''s'' ''make'' [] [(''K'', ''v'')] ''shape'' = Inr h"
    by (simp add: compute_content_hash_def hash_inputs_def input_manifest_def collect_entries_def Let_def)
  have "inj_on (so_blake3 example_storage_env) {k. \<exists>i.
      hash_inputs (so_blake3 example_storage_env) example_fs [] ''s'' ''make'' [] = Inr i \<and>
      k = cache_key_bytes ''shape'' ''s'' i [(''K'', ''v'')]}"
    by (auto simp: inj_on_def)
  with cache_key_binding [OF h h] h show ?thesis by auto
qed

theorem cleanup_cache_bounds_witness:
  "\<exists>res s'. cleanup_cache example_storage_env rev (0, 0) 4 1 (example_storage\<lparr>s_cache := [INDEX_FILE \<mapsto> ''i'']\<rparr>) = Inr (res, s') \<and>
     unat (cc_remaining_size_bytes res) \<le> 4 \<and> cc_removed_entries res + cc_remaining_entries res = 2"
proof -
  let ?s = "example_storage\<lparr>s_cache := [INDEX_FILE \<mapsto> ''i'']\<rparr>"
  have ix: "s_cache ?s INDEX_FILE = Some ''i''" "read_index example_storage_env ''i'' = Inr example_index"
    by (simp_all add: read_index_def example_storage_env_def)
  have cutoff: "cutoff_time example_storage_env 0 1 = Inr (- 86400 * 10 ^ 9)"
    by (simp add: cutoff_time_def example_storage_env_def)
  obtain res s' where r: "cleanup_cache example_storage_env rev (0, 0) 4 1 ?s = Inr (res, s')"
    using cutoff ix
    by (cases "cleanup_select (- 86400 * 10 ^ 9) 4 (sort_key (\<lambda>(_, e). ci_last_accessed e) (rev (ix_entries example_index)))
        (sum_list (map (ci_file_size \<circ> snd) (ix_entries example_index)))") (simp add: cleanup_cache_def Let_def)
  have "btree_ok (ix_entries example_index)" "entries_size (ix_entries example_index) < 2 ^ 64" "length (ix_entries example_index) = 2"
    by (simp_all add: example_index_def btree_ok_def less_char_def example_indexed_def)
  with cleanup_cache_bounds [OF ix _ _ _ r] r show ?thesis by auto
qed

section \<open>Receipts survive\<close>

lemma receipt_name_inject: "receipt_name base m = receipt_name base n \<longleftrightarrow> m = n"
  by (auto simp: receipt_name_def)

lemma write_attempts_Inr:
  "write_attempts writable base content a left dir = Inr (name, dir') \<Longrightarrow> dir name = None \<and> dir' = dir(name \<mapsto> content)"
  by (induction writable base content a left dir rule: write_attempts.induct) (auto simp: Let_def result_simps split: if_splits)

lemma write_attempts_Inl:
  "write_attempts writable base content a left dir = Inl e \<Longrightarrow> (\<forall>name. writable name) \<Longrightarrow>
     receipt_name base ` {a ..< a + left} \<subseteq> dom dir"
proof (induction writable base content a left dir rule: write_attempts.induct)
  case (2 writable base content a left dir)
  then have "dir (receipt_name base a) \<noteq> None" by (auto simp: Let_def split: if_splits)
  moreover from this have "receipt_name base ` {Suc a ..< Suc a + left} \<subseteq> dom dir" using 2 by (simp add: Let_def)
  moreover have "{a ..< a + Suc left} = insert a {Suc a ..< Suc a + left}" by auto
  ultimately show ?case by auto
qed simp

text \<open>
  Writing a receipt ends, and it never costs another receipt. A receipt is written under a name that no file had, and
  leaves every other file as it was; and in a directory that can be written to and has fewer files than the
  discriminator has values, the search for a name ends with the receipt written.
\<close>

theorem receipt_written:
  "(\<forall>name dir'. write_receipt_unique env writable stamp label content dir = Inr (name, dir') \<longrightarrow>
      dir name = None \<and> dir' = dir(name \<mapsto> content)) \<and>
   (finite (dom dir) \<and> card (dom dir) < 2 ^ 32 - 1 \<and> (\<forall>name. writable name) \<longrightarrow>
      (\<exists>name. write_receipt_unique env writable stamp label content dir = Inr (name, dir(name \<mapsto> content))))"
proof (intro conjI allI impI)
  fix name dir' assume "write_receipt_unique env writable stamp label content dir = Inr (name, dir')"
  then show "dir name = None" "dir' = dir(name \<mapsto> content)"
    unfolding write_receipt_unique_def using write_attempts_Inr by blast+
next
  assume fits: "finite (dom dir) \<and> card (dom dir) < 2 ^ 32 - 1 \<and> (\<forall>name. writable name)"
  let ?r = "write_attempts writable (receipt_base env stamp label content) content 0 (2 ^ 32 - 1) dir"
  have "\<exists>x. ?r = Inr x"
  proof (rule ccontr)
    assume "\<nexists>x. ?r = Inr x"
    then obtain e where "?r = Inl e" by (cases ?r) auto
    from write_attempts_Inl [OF this] fits
    have sub: "receipt_name (receipt_base env stamp label content) ` {0 ..< 0 + (2 ^ 32 - 1)} \<subseteq> dom dir" by blast
    have "card (receipt_name (receipt_base env stamp label content) ` {0 ..< 0 + (2 ^ 32 - 1)}) = 2 ^ 32 - 1"
      by (subst card_image) (auto simp: inj_on_def receipt_name_inject)
    with card_mono [OF _ sub] fits show False by simp
  qed
  then show "\<exists>name. write_receipt_unique env writable stamp label content dir = Inr (name, dir(name \<mapsto> content))"
    unfolding write_receipt_unique_def using write_attempts_Inr by (metis surj_pair)
qed

theorem receipt_written_witness:
  "\<exists>name. write_receipt_unique example_storage_env (\<lambda>_. True) ''t'' None ''c'' [''x'' \<mapsto> ''y''] = Inr (name, [''x'' \<mapsto> ''y'', name \<mapsto> ''c''])"
  using receipt_written [of example_storage_env "\<lambda>_. True" "''t''" None "''c''" "[''x'' \<mapsto> ''y'']"] by simp

lemma sign_receipt_verifies:
  assumes "ed_correct (so_ed env)" "s_keypair s = Some kp" "kp = from_signing_key (so_ed env) (signing_key kp)"
  shows "verify_receipt env s (sign_receipt env s r) = Inr True"
proof -
  have "verifying_key kp = public_of (so_ed env) (signing_key kp)" by (metis assms(3) attest_keypair.select_convs(2) from_signing_key_def)
  moreover have "signing_receipt (r\<lparr>r_signature := x, r_signer_public_key := y\<rparr>) = signing_receipt r" for x y
    by (simp add: signing_receipt_def)
  ultimately show ?thesis using assms(1,2)
    by (simp add: verify_receipt_def sign_receipt_def verify_def sign_def public_key_hex_def receipt_signing_bytes_def ed_correct_def)
qed

text \<open>
  A receipt survives its storage. A receipt signed with the loaded key and saved is read back from the name it was saved
  under exactly as it was, and verifies; every receipt that was there before is read back as before. The YAML of the
  receipt is assumed to be text and to parse back.
\<close>

theorem signed_receipt_roundtrip:
  assumes "ed_correct (so_ed env)" "s_keypair s = Some kp" "kp = from_signing_key (so_ed env) (signing_key kp)"
    and "is_utf8 (so_receipt_yaml env (sign_receipt env s r))"
      "so_receipt_of_yaml env (so_receipt_yaml env (sign_receipt env s r)) = Some (sign_receipt env s r)"
    and "save_receipt env writable (sign_receipt env s r) s = Inr (name, s')"
  shows "load_receipt env name s' = Inr (sign_receipt env s r) \<and> verify_receipt env s' (sign_receipt env s r) = Inr True \<and>
    s_receipts s name = None \<and> (\<forall>other. s_receipts s other \<noteq> None \<longrightarrow> load_receipt env other s' = load_receipt env other s)"
proof -
  obtain dir where "write_receipt_unique env writable (so_stamp env (r_timestamp (sign_receipt env s r))) None
      (so_receipt_yaml env (sign_receipt env s r)) (s_receipts s) = Inr (name, dir)" and s': "s' = s\<lparr>s_receipts := dir\<rparr>"
    using assms(6) by (auto simp: save_receipt_def result_simps)
  then have dir: "s_receipts s name = None" "dir = (s_receipts s)(name \<mapsto> so_receipt_yaml env (sign_receipt env s r))"
    unfolding write_receipt_unique_def using write_attempts_Inr by blast+
  have kp: "s_keypair s' = s_keypair s" by (simp add: s')
  have "verify_receipt env s' (sign_receipt env s r) = verify_receipt env s (sign_receipt env s r)"
    unfolding verify_receipt_def kp ..
  with dir s' assms(4,5) sign_receipt_verifies [OF assms(1-3), of r] show ?thesis by (auto simp: load_receipt_def)
qed

theorem signed_receipt_roundtrip_witness:
  "\<exists>name s'. save_receipt example_storage_env (\<lambda>_. True) (sign_receipt example_storage_env example_storage example_receipt) example_storage
      = Inr (name, s') \<and> verify_receipt example_storage_env s' (sign_receipt example_storage_env example_storage example_receipt) = Inr True"
proof -
  let ?e = example_storage_env and ?s = example_storage
  have env: "so_ed ?e = example_ed" "s_keypair ?s = Some (from_signing_key example_ed (digest_of ''k''))"
    "so_receipt_json ?e = example_receipt_json" "\<And>x. so_receipt_yaml ?e x = ''r''"
    by (simp_all add: example_storage_env_def example_storage_def example_env_def)
  have "write_attempts (\<lambda>_. True) base content a (Suc left) Map.empty = Inr (receipt_name base a, [receipt_name base a \<mapsto> content])"
    for base content a left by (simp add: Let_def)
  from this [of _ _ 0 "2 ^ 32 - 2"] obtain name s' where
    saved: "save_receipt ?e (\<lambda>_. True) (sign_receipt ?e ?s example_receipt) ?s = Inr (name, s')"
    by (simp add: save_receipt_def write_receipt_unique_def example_storage_def)
  have "so_receipt_of_yaml ?e (so_receipt_yaml ?e (sign_receipt ?e ?s example_receipt)) = Some (sign_receipt ?e ?s example_receipt)"
    unfolding sign_receipt_def env by (simp add: example_storage_env_def)
  from signed_receipt_roundtrip [OF _ env(2) _ _ this saved] saved example_ed_correct show ?thesis
    by (auto simp: env from_signing_key_def)
qed

section \<open>Round trips of the cache\<close>

lemma cache_file_inject [simp]: "cache_file h = cache_file h' \<longleftrightarrow> h = h'"
  by (simp add: cache_file_def)

lemma cache_file_not_index: "h \<noteq> ''index'' \<Longrightarrow> cache_file h \<noteq> INDEX_FILE"
proof
  assume h: "h \<noteq> ''index''" and "cache_file h = INDEX_FILE"
  then have "h @ ''.yaml'' = ''index'' @ ''.yaml''" by (simp add: cache_file_def INDEX_FILE_def)
  with h show False by (simp only: append_same_eq)
qed

text \<open>
  A cached result is found again, and only under its own key. An entry that was stored is what a lookup of its content
  hash returns, no other entry is disturbed, and the index lists it with the size of its file. Whatever the cache
  holds, a lookup never returns an entry made for another key: such a file is removed. The YAML of the entry is assumed
  to be text and to parse back.
\<close>

theorem cache_roundtrip:
  assumes "cache_store env clock entry s = Inr s'" "ce_content_hash entry \<noteq> ''index''"
    and "is_utf8 (so_entry_yaml env entry)" "so_entry_of_yaml env (so_entry_yaml env entry) = Some entry"
  shows "get_cached_entry env (ce_content_hash entry) s' = Inr (Some entry, s') \<and>
    (\<forall>h. h \<noteq> ce_content_hash entry \<and> h \<noteq> ''index'' \<longrightarrow> s_cache s' (cache_file h) = s_cache s (cache_file h)) \<and>
    (\<exists>ix. s_cache s' INDEX_FILE = Some (so_index_yaml env ix) \<and>
       map_option ci_file_size (map_of (ix_entries ix) (ce_content_hash entry)) = Some (of_nat (length (so_entry_yaml env entry)))) \<and>
    (\<forall>h s found s''. get_cached_entry env h s = Inr (found, s'') \<longrightarrow>
       (case found of Some e \<Rightarrow> ce_content_hash e = h \<and> s'' = s | None \<Rightarrow> s_cache s'' (cache_file h) = None))"
proof (intro conjI allI impI)
  let ?h = "ce_content_hash entry"
  let ?s = "s\<lparr>s_cache := (s_cache s)(cache_file ?h \<mapsto> so_entry_yaml env entry)\<rparr>"
  have other: "cache_file ?h \<noteq> INDEX_FILE" by (rule cache_file_not_index [OF assms(2)])
  obtain ix e where s': "s' = ?s\<lparr>s_cache := (s_cache ?s)(INDEX_FILE \<mapsto> so_index_yaml env ix)\<rparr>"
    and e: "map_of (ix_entries ix) ?h = Some e" "ci_file_size e = of_nat (length (so_entry_yaml env entry))"
    using assms(1) other by (auto simp: cache_store_def update_cache_index_def result_simps Let_def map_of_btree_insert split: prod.splits)
  show "get_cached_entry env ?h s' = Inr (Some entry, s')" using assms(3,4) other by (simp add: get_cached_entry_def s')
  show "\<exists>ix. s_cache s' INDEX_FILE = Some (so_index_yaml env ix) \<and>
       map_option ci_file_size (map_of (ix_entries ix) ?h) = Some (of_nat (length (so_entry_yaml env entry)))"
    using e by (intro exI [of _ ix]) (simp add: s')
  fix h assume "h \<noteq> ?h \<and> h \<noteq> ''index''"
  then show "s_cache s' (cache_file h) = s_cache s (cache_file h)" using cache_file_not_index [of h] by (simp add: s')
next
  fix h s found s'' assume "get_cached_entry env h s = Inr (found, s'')"
  then show "case found of Some e \<Rightarrow> ce_content_hash e = h \<and> s'' = s | None \<Rightarrow> s_cache s'' (cache_file h) = None"
    by (auto simp: get_cached_entry_def result_simps split: option.splits if_splits)
qed

theorem cache_roundtrip_witness:
  "\<exists>s'. cache_store example_storage_env (0, 0, 0) example_entry example_storage = Inr s' \<and>
     get_cached_entry example_storage_env ''h'' s' = Inr (Some example_entry, s')"
proof -
  obtain s' where s': "cache_store example_storage_env (0, 0, 0) example_entry example_storage = Inr s'"
    by (simp add: cache_store_def update_cache_index_def Let_def example_storage_def example_entry_def cache_file_def INDEX_FILE_def)
  have "ce_content_hash example_entry = ''h''" "so_entry_yaml example_storage_env example_entry = ''e''"
    "so_entry_of_yaml example_storage_env ''e'' = Some example_entry"
    by (simp_all add: example_entry_def example_storage_env_def)
  with cache_roundtrip [OF s'] s' show ?thesis by simp
qed

text \<open>A storage whose key is loaded, in its ledger too if that is open.\<close>

definition key_loaded :: "attest_keypair \<Rightarrow> storage \<Rightarrow> bool" where
  "key_loaded kp s \<longleftrightarrow> s_keypair s = Some kp \<and> (case s_ledger s of Some l \<Rightarrow> keypair l = Some kp | None \<Rightarrow> True)"

lemma key_loaded_set_keypair: "key_loaded kp (set_keypair kp s)"
  by (simp add: key_loaded_def set_keypair_def Ledger.load_keypair_def split: option.splits)

lemma load_files_keypair: "load_files le fs l = Inr l' \<Longrightarrow> keypair l' = keypair l"
  by (induction le fs l rule: load_files.induct) (auto simp: result_simps split: if_splits option.splits)

lemma record_causal_event_cases:
  assumes "record_causal_event env listing now name parents r pipe environ s = Inr (e, s')"
  shows "\<exists>(l :: causal_ledger) e0. e = sign_event (so_ledger env) (keypair l) e0 \<and> signature e0 = None \<and>
    event_id_is_authentic (so_blake3 env) (le_rfc3339 (so_ledger env)) e \<and> step_name e = name \<and> causal_parents e = parents \<and>
    input_hash e = sr_input_hash r \<and> output_hash e = sr_output_hash r \<and> pipeline_hash e = pipe \<and>
    (\<forall>kp. key_loaded kp s \<longrightarrow> keypair l = Some kp \<and> key_loaded kp s')"
proof -
  obtain l s1 l' where l: "get_causal_ledger env listing s = Inr (l, s1)"
    and e: "record_event_local (so_ledger env) now name parents (sr_input_hash r) (sr_output_hash r)
       (sint (sr_exit_code r)) pipe environ (event_metadata env r) l = Inr (e, l')" and s': "s' = s1\<lparr>s_ledger := Some l'\<rparr>"
    using assms by (auto simp: record_causal_event_def result_simps)
  obtain e0 where e0: "e = sign_event (so_ledger env) (keypair l) e0" "signature e0 = None"
      "event_id_is_authentic (so_blake3 env) (le_rfc3339 (so_ledger env)) e" "step_name e = name" "causal_parents e = parents"
      "input_hash e = sr_input_hash r" "output_hash e = sr_output_hash r" "pipeline_hash e = pipe"
      "record_event_struct (so_ledger env) e l = Inr l'"
    using record_event_local_cases [OF e] by blast
  have "keypair l' = keypair l" using e0(9) by (auto simp: record_event_struct_def store_event_local_def result_simps)
  moreover have "keypair l = Some kp \<and> s_keypair s1 = Some kp" if "key_loaded kp s" for kp
    using l that by (auto simp: get_causal_ledger_def key_loaded_def Ledger.load_keypair_def Let_def result_simps load_events_def
        dest!: load_files_keypair split: option.splits)
  ultimately show ?thesis using e0(1-8) by (intro exI [of _ l] exI [of _ e0]) (auto simp: s' key_loaded_def)
qed

lemma record_causal_event_signed:
  assumes "record_causal_event env listing now name parents r pipe environ s = Inr (e, s')" "key_loaded kp s"
    and "ed_correct (so_ed env)" "kp = from_signing_key (so_ed env) (signing_key kp)"
  shows "event_signature_holds (so_ed env) (le_signing_json (so_ledger env)) (le_rfc3339 (so_ledger env)) e = Some True \<and>
    signer_public_key e = Some (public_key_hex kp) \<and> key_loaded kp s'"
proof -
  obtain l :: causal_ledger and e0 where
    e0: "e = sign_event (so_ledger env) (keypair l) e0" "signature e0 = None" "keypair l = Some kp" "key_loaded kp s'"
    using record_causal_event_cases [OF assms(1)] assms(2) by blast
  have "event_signature_holds (so_ed env) (le_signing_json (so_ledger env)) (le_rfc3339 (so_ledger env)) e =
      (if keypair l = None then None else Some True)"
    unfolding e0(1) using assms(3,4) e0(2,3) by (intro sign_event_holds) auto
  with e0 show ?thesis by (simp add: sign_event_def Let_def)
qed

text \<open>
  A key that arrives late still signs. Once a key pair is installed, the events recorded from then on are signed with it
  and their signatures hold, whether the ledger had been opened before the key came or not.
\<close>

theorem late_key_signs:
  assumes "record_causal_event env listing now name parents r pipe environ (set_keypair kp s) = Inr (e, s')"
    and "ed_correct (so_ed env)" "kp = from_signing_key (so_ed env) (signing_key kp)"
  shows "event_signature_holds (so_ed env) (le_signing_json (so_ledger env)) (le_rfc3339 (so_ledger env)) e = Some True \<and>
    signer_public_key e = Some (public_key_hex kp) \<and> step_name e = name \<and> causal_parents e = parents \<and>
    input_hash e = sr_input_hash r \<and> output_hash e = sr_output_hash r"
  using record_causal_event_signed [OF assms(1) key_loaded_set_keypair assms(2,3)] record_causal_event_cases [OF assms(1)] by blast

theorem late_key_signs_witness:
  "\<exists>e s'. record_causal_event example_storage_env [] 0 ''build'' [] (hd (r_steps example_receipt)) ''p'' ''e''
      (set_keypair (from_signing_key example_ed (digest_of ''k'')) (example_storage\<lparr>s_ledger := Some (ledger_new Map.empty Map.empty)\<rparr>)) = Inr (e, s') \<and>
    event_signature_holds example_ed sv_event_id show_int e = Some True"
proof -
  let ?kp = "from_signing_key example_ed (digest_of ''k'')"
  obtain e s' where r: "record_causal_event example_storage_env [] 0 ''build'' [] (hd (r_steps example_receipt)) ''p'' ''e''
      (set_keypair ?kp (example_storage\<lparr>s_ledger := Some (ledger_new Map.empty Map.empty)\<rparr>)) = Inr (e, s')"
    by (simp add: record_causal_event_def get_causal_ledger_def set_keypair_def record_event_local_def store_event_local_def
        example_storage_env_def example_env_def Let_def)
  have env: "so_ed example_storage_env = example_ed" "le_signing_json (so_ledger example_storage_env) = sv_event_id"
    "le_rfc3339 (so_ledger example_storage_env) = show_int"
    by (simp_all add: example_storage_env_def example_env_def)
  from late_key_signs [OF r] r example_ed_correct show ?thesis by (auto simp: env from_signing_key_def)
qed

end
