(* ===== verification/Confinement.thy ===== *)
theory Confinement
  imports Text Btree
begin

text \<open>
  What confines a container, from \<open>src/sandbox/seccomp.rs\<close> and \<open>src/sandbox/filesystem_security.rs\<close>: the seccomp
  profiles and the filesystem policy that decides which host directories may be mounted, each with its log of violations.

  Hash maps are association lists sorted by key and sets are lists; a path is its string. Parameters: the JSON codecs,
  \<open>canonicalize\<close> and the Unicode lower case.
\<close>

section \<open>Seccomp profiles and the violation log\<close>

datatype seccomp_action = Allow | Kill | Errno u32 | Trap | Trace | Log

datatype arg_op = NotEqual | LessThan | LessEqual | Equal | GreaterEqual | GreaterThan | MaskedEqual u64

record syscall_arg =
  sa_index :: "8 word"
  sa_value :: u64
  sa_op :: arg_op

record syscall_rule =
  syscall :: bytes
  rule_action :: seccomp_action
  rule_args :: "syscall_arg list"
  rule_comment :: "bytes option"

record seccomp_profile =
  profile_name :: bytes
  default_action :: seccomp_action
  profile_rules :: "syscall_rule list"
  architectures :: "bytes list"
  profile_description :: bytes

definition plain_rule :: "bytes \<Rightarrow> seccomp_action \<Rightarrow> bytes \<Rightarrow> syscall_rule" where
  "plain_rule name act comment = \<lparr>syscall = name, rule_action = act, rule_args = [], rule_comment = Some comment\<rparr>"

definition minimal_profile :: seccomp_profile where
  "minimal_profile = \<lparr>profile_name = ''minimal'', default_action = Allow, profile_rules =
     [plain_rule ''ptrace'' Kill ''Block debugging/tracing'', plain_rule ''kexec_load'' Kill ''Block kernel replacement'',
      plain_rule ''module_load'' Kill ''Block kernel module loading'', plain_rule ''reboot'' Kill ''Block system restart''],
     architectures = [''SCMP_ARCH_X86_64''], profile_description = ''Minimal security profile with basic protections''\<rparr>"

definition standard_profile :: seccomp_profile where
  "standard_profile = \<lparr>profile_name = ''standard'', default_action = Errno 1, profile_rules =
     [plain_rule ''read'' Allow ''Allow file reading'', plain_rule ''write'' Allow ''Allow file writing'',
      plain_rule ''open'' Allow ''Allow file opening'', plain_rule ''openat'' Allow ''Allow file opening (modern)'',
      plain_rule ''close'' Allow ''Allow file closing'', plain_rule ''mmap'' Allow ''Allow memory mapping'',
      plain_rule ''munmap'' Allow ''Allow memory unmapping'', plain_rule ''brk'' Allow ''Allow heap management'',
      plain_rule ''exit'' Allow ''Allow process exit'', plain_rule ''exit_group'' Allow ''Allow thread group exit'',
      plain_rule ''execve'' Allow ''Allow process execution'', plain_rule ''fork'' Trace ''Trace process creation'',
      plain_rule ''vfork'' Trace ''Trace process creation'', plain_rule ''clone'' Trace ''Trace thread/process creation'',
      plain_rule ''socket'' Kill ''Block network socket creation'', plain_rule ''ptrace'' Kill ''Block debugging'',
      plain_rule ''mount'' Kill ''Block filesystem mounting'', plain_rule ''umount'' Kill ''Block filesystem unmounting'',
      plain_rule ''chroot'' Kill ''Block chroot''],
     architectures = [''SCMP_ARCH_X86_64''], profile_description = ''Standard security profile with balanced restrictions''\<rparr>"

definition maximum_profile :: seccomp_profile where
  "maximum_profile = \<lparr>profile_name = ''maximum'', default_action = Kill, profile_rules =
     [plain_rule ''read'' Allow ''Essential: file reading'', plain_rule ''write'' Allow ''Essential: file writing'',
      plain_rule ''openat'' Allow ''Essential: file access'', plain_rule ''close'' Allow ''Essential: file closing'',
      (plain_rule ''mmap'' Allow ''Essential: memory mapping (private only)'')
        \<lparr>rule_args := [\<lparr>sa_index = 3, sa_value = 0x02, sa_op = MaskedEqual 0x02\<rparr>]\<rparr>,
      plain_rule ''munmap'' Allow ''Essential: memory cleanup'', plain_rule ''brk'' Allow ''Essential: heap management'',
      plain_rule ''exit'' Allow ''Essential: process exit'', plain_rule ''exit_group'' Allow ''Essential: thread group exit''],
     architectures = [''SCMP_ARCH_X86_64''], profile_description = ''Maximum security profile with minimal syscall allowlist''\<rparr>"

text \<open>A profile by its security level.\<close>

datatype security_level = Minimal | Standard | Maximum

record seccomp_manager =
  sm_profiles :: "seccomp_profile btree"
  sm_current :: "bytes option"

definition seccomp_new :: seccomp_manager where
  "seccomp_new = \<lparr>sm_profiles = btree_insert ''maximum'' maximum_profile (btree_insert ''standard'' standard_profile
     (btree_insert ''minimal'' minimal_profile [])), sm_current = None\<rparr>"

definition level_name :: "security_level \<Rightarrow> bytes" where
  "level_name l = (case l of Minimal \<Rightarrow> ''minimal'' | Standard \<Rightarrow> ''standard'' | Maximum \<Rightarrow> ''maximum'')"

definition get_profile_for_level :: "security_level \<Rightarrow> seccomp_manager \<Rightarrow> seccomp_profile option" where
  "get_profile_for_level l m = map_of (sm_profiles m) (level_name l)"

datatype profile_error = UnknownProfile bytes | BadProfileFile

definition set_profile :: "bytes \<Rightarrow> seccomp_manager \<Rightarrow> (profile_error, seccomp_manager) result" where
  "set_profile name m = ensure (contains_key (sm_profiles m) name) (UnknownProfile name) (Inr (m\<lparr>sm_current := Some name\<rparr>))"

definition get_current_profile :: "seccomp_manager \<Rightarrow> seccomp_profile option" where
  "get_current_profile m = Option.bind (sm_current m) (map_of (sm_profiles m))"

definition action_to_string :: "seccomp_action \<Rightarrow> bytes" where
  "action_to_string a = (case a of Allow \<Rightarrow> ''SCMP_ACT_ALLOW'' | Kill \<Rightarrow> ''SCMP_ACT_KILL''
     | Errno n \<Rightarrow> ''SCMP_ACT_ERRNO('' @ show_nat (unat n) @ '')'' | Trap \<Rightarrow> ''SCMP_ACT_TRAP'' | Trace \<Rightarrow> ''SCMP_ACT_TRACE'' | Log \<Rightarrow> ''SCMP_ACT_LOG'')"

definition op_to_string :: "arg_op \<Rightarrow> bytes" where
  "op_to_string op = (case op of NotEqual \<Rightarrow> ''SCMP_CMP_NE'' | LessThan \<Rightarrow> ''SCMP_CMP_LT'' | LessEqual \<Rightarrow> ''SCMP_CMP_LE''
     | Equal \<Rightarrow> ''SCMP_CMP_EQ'' | GreaterEqual \<Rightarrow> ''SCMP_CMP_GE'' | GreaterThan \<Rightarrow> ''SCMP_CMP_GT''
     | MaskedEqual m \<Rightarrow> ''SCMP_CMP_MASKED_EQ('' @ show_nat (unat m) @ '')'')"

record container_syscall =
  cs_names :: "bytes list"
  cs_action :: bytes
  cs_args :: "(u32 \<times> u64 \<times> bytes) list"

record container_seccomp =
  csp_default :: bytes
  csp_architectures :: "bytes list"
  csp_syscalls :: "container_syscall list"

text \<open>The profile a container runtime is given; \<open>json\<close> is its encoder.\<close>

definition generate_container_profile :: "(container_seccomp \<Rightarrow> bytes) \<Rightarrow> bytes \<Rightarrow> seccomp_manager \<Rightarrow> (profile_error, bytes) result" where
  "generate_container_profile json name m =
     and_then (ok_or (map_of (sm_profiles m) name) (UnknownProfile name)) (\<lambda>p.
     Inr (json \<lparr>csp_default = action_to_string (default_action p), csp_architectures = architectures p,
       csp_syscalls = map (\<lambda>r. \<lparr>cs_names = [syscall r], cs_action = action_to_string (rule_action r),
         cs_args = map (\<lambda>a. (ucast (sa_index a), sa_value a, op_to_string (sa_op a))) (rule_args r)\<rparr>) (profile_rules p)\<rparr>))"

text \<open>\<open>content\<close> is the file, \<open>parse\<close> the JSON decoder.\<close>

definition load_profile_from_file :: "(bytes \<Rightarrow> seccomp_profile option) \<Rightarrow> bytes option \<Rightarrow> seccomp_manager \<Rightarrow> (profile_error, seccomp_manager) result" where
  "load_profile_from_file parse content m =
     and_then (ok_or (Option.bind content parse) BadProfileFile) (\<lambda>p.
     Inr (m\<lparr>sm_profiles := btree_insert (profile_name p) p (sm_profiles m)\<rparr>))"

record profile_stats =
  ps_name :: bytes
  ps_total_rules :: nat
  ps_allowed :: nat
  ps_blocked :: nat
  ps_traced :: nat
  ps_default :: seccomp_action

fun count_rules :: "syscall_rule list \<Rightarrow> nat \<times> nat \<times> nat \<Rightarrow> nat \<times> nat \<times> nat" where
  "count_rules [] acc = acc"
| "count_rules (r # rs) (allowed, blocked, traced) =
     (case rule_action r of
        Allow \<Rightarrow> count_rules rs (allowed + 1, blocked, traced)
      | Kill \<Rightarrow> count_rules rs (allowed, blocked + 1, traced)
      | Errno _ \<Rightarrow> count_rules rs (allowed, blocked + 1, traced)
      | Trace \<Rightarrow> count_rules rs (allowed, blocked, traced + 1)
      | Log \<Rightarrow> count_rules rs (allowed, blocked, traced + 1)
      | Trap \<Rightarrow> count_rules rs (allowed, blocked + 1, traced))"

definition get_profile_stats :: "bytes \<Rightarrow> seccomp_manager \<Rightarrow> profile_stats option" where
  "get_profile_stats name m =
     map_option (\<lambda>p. case count_rules (profile_rules p) (0, 0, 0) of (allowed, blocked, traced) \<Rightarrow>
       \<lparr>ps_name = profile_name p, ps_total_rules = length (profile_rules p), ps_allowed = allowed, ps_blocked = blocked,
        ps_traced = traced, ps_default = default_action p\<rparr>) (map_of (sm_profiles m) name)"

record seccomp_violation =
  sv_timestamp :: int
  sv_pid :: u32
  sv_syscall :: bytes
  sv_action :: seccomp_action
  sv_context :: bytes

record 'v violation_log =
  vl_violations :: "'v list"
  vl_max :: nat

definition violation_log_new :: "nat \<Rightarrow> 'v violation_log" where
  "violation_log_new limit = \<lparr>vl_violations = [], vl_max = limit\<rparr>"

definition record_violation :: "'v \<Rightarrow> 'v violation_log \<Rightarrow> 'v violation_log" where
  "record_violation v l =
     (let vs = vl_violations l @ [v] in l\<lparr>vl_violations := (if length vs > vl_max l then tl vs else vs)\<rparr>)"

definition clear_violations :: "'v violation_log \<Rightarrow> 'v violation_log" where
  "clear_violations l = l\<lparr>vl_violations := []\<rparr>"

section \<open>Filesystem policy\<close>

datatype access_mode = ReadOnly | ReadWrite | Execute | Forbidden

record filesystem_rule =
  path_pattern :: bytes
  rule_access :: access_mode
  rule_recursive :: bool
  rule_priority :: u32
  rule_description :: bytes

record filesystem_security_policy =
  default_access :: access_mode
  fs_rules :: "filesystem_rule list"
  max_file_size :: "u64 option"
  max_disk_usage :: "u64 option"
  allowed_extensions :: "bytes list option"
  forbidden_extensions :: "bytes list"
  prevent_path_traversal :: bool
  restrict_symlinks :: bool

definition DEFAULT_RULES :: "filesystem_rule list" where
  "DEFAULT_RULES =
    [\<lparr>path_pattern = ''/tmp/*'', rule_access = ReadWrite, rule_recursive = True, rule_priority = 100,
       rule_description = ''Temporary directory access''\<rparr>,
     \<lparr>path_pattern = ''/workspace/*'', rule_access = ReadWrite, rule_recursive = True, rule_priority = 200,
       rule_description = ''Workspace directory access''\<rparr>,
     \<lparr>path_pattern = ''/etc/*'', rule_access = Forbidden, rule_recursive = True, rule_priority = 1000,
       rule_description = ''Block system configuration''\<rparr>,
     \<lparr>path_pattern = ''/proc/*'', rule_access = Forbidden, rule_recursive = True, rule_priority = 1000,
       rule_description = ''Block process filesystem''\<rparr>,
     \<lparr>path_pattern = ''/sys/*'', rule_access = Forbidden, rule_recursive = True, rule_priority = 1000,
       rule_description = ''Block system filesystem''\<rparr>]"

definition default_policy :: filesystem_security_policy where
  "default_policy = \<lparr>default_access = Forbidden, fs_rules = DEFAULT_RULES, max_file_size = Some (100 * 1024 * 1024),
     max_disk_usage = Some (1024 * 1024 * 1024), allowed_extensions = None,
     forbidden_extensions = [''exe'', ''bat'', ''cmd'', ''com'', ''scr''], prevent_path_traversal = True, restrict_symlinks = True\<rparr>"

definition TMP_RULE :: filesystem_rule where
  "TMP_RULE = \<lparr>path_pattern = ''/workspace/*.tmp'', rule_access = ReadWrite, rule_recursive = False, rule_priority = 50,
     rule_description = ''Allow only temporary files in workspace''\<rparr>"

definition strict_policy :: filesystem_security_policy where
  "strict_policy = default_policy\<lparr>default_access := Forbidden, fs_rules := DEFAULT_RULES @ [TMP_RULE],
     max_file_size := Some (10 * 1024 * 1024), max_disk_usage := Some (100 * 1024 * 1024)\<rparr>"

datatype filesystem_violation_type =
  ForbiddenPath | PathTraversal | SymlinkViolation | FileSizeLimit | DiskUsageLimit | ForbiddenExtension | InvalidPath

record filesystem_violation =
  fv_timestamp :: int
  fv_path :: bytes
  fv_access :: access_mode
  fv_type :: filesystem_violation_type
  fv_context :: bytes

record filesystem_manager =
  fm_policy :: filesystem_security_policy
  fm_log :: "filesystem_violation violation_log"
  fm_usage :: "u64 btree"

definition filesystem_manager_new :: "filesystem_security_policy \<Rightarrow> filesystem_manager" where
  "filesystem_manager_new policy = \<lparr>fm_policy = policy, fm_log = violation_log_new 1000, fm_usage = []\<rparr>"

text \<open>\<open>canon\<close> is \<open>canonicalize\<close>.\<close>

definition normalize_path :: "(bytes \<Rightarrow> bytes option) \<Rightarrow> bytes \<Rightarrow> bytes" where
  "normalize_path canon p =
     (if contains p ''..'' \<or> contains p ''./'' then (case canon p of Some q \<Rightarrow> q | None \<Rightarrow> p) else p)"

definition has_path_traversal :: "bytes \<Rightarrow> bool" where
  "has_path_traversal p \<longleftrightarrow> contains p ''../'' \<or> contains p (''..'' @ [CHR 0x5C]) \<or> contains p ''/..''"

definition path_matches_pattern :: "bytes \<Rightarrow> bytes \<Rightarrow> bool \<Rightarrow> bool" where
  "path_matches_pattern p pattern recursive =
     (if ends_with pattern ''/*'' then
        let prefix = take (length pattern - 2) pattern in
        if recursive then starts_with p prefix
        else starts_with p prefix \<and> length (filter (\<lambda>c. c = CHR ''/'') (drop (length prefix) p)) \<le> 1
      else if CHR ''*'' \<in> set pattern then
        (case split_on (CHR ''*'') pattern of [before, after] \<Rightarrow> starts_with p before \<and> ends_with p after | _ \<Rightarrow> False)
      else p = pattern \<or> (recursive \<and> starts_with p (pattern @ ''/'')))"

definition find_matching_rule :: "filesystem_rule list \<Rightarrow> bytes \<Rightarrow> filesystem_rule option" where
  "find_matching_rule rules p =
     (case sort_key (\<lambda>r. - int (unat (rule_priority r))) (filter (\<lambda>r. path_matches_pattern p (path_pattern r) (rule_recursive r)) rules) of
        r # _ \<Rightarrow> Some r | [] \<Rightarrow> None)"

fun access_allowed :: "access_mode \<Rightarrow> access_mode \<Rightarrow> bool" where
  "access_allowed ReadWrite _ = True"
| "access_allowed ReadOnly ReadOnly = True"
| "access_allowed Execute Execute = True"
| "access_allowed _ _ = False"

text \<open>\<open>Path::extension\<close>: of the last component, unless it is all there is behind a leading dot.\<close>

definition path_extension :: "bytes \<Rightarrow> bytes option" where
  "path_extension p =
     (case filter (\<lambda>part. part \<noteq> [] \<and> part \<noteq> ''.'') (split_on (CHR ''/'') p) of
        [] \<Rightarrow> None
      | parts \<Rightarrow>
          let name = last parts; pieces = split_on (CHR ''.'') name in
          if name = ''..'' \<or> length pieces < 2 \<or> (length pieces = 2 \<and> hd pieces = []) then None else Some (last pieces))"

definition deny :: "int \<Rightarrow> bytes \<Rightarrow> access_mode \<Rightarrow> filesystem_violation_type \<Rightarrow> bytes \<Rightarrow> filesystem_manager \<Rightarrow> bool \<times> filesystem_manager" where
  "deny now p a kind context m =
     (False, m\<lparr>fm_log := record_violation \<lparr>fv_timestamp = now, fv_path = p, fv_access = a, fv_type = kind, fv_context = context\<rparr> (fm_log m)\<rparr>)"

definition check_path_access ::
  "(bytes \<Rightarrow> bytes option) \<Rightarrow> (bytes \<Rightarrow> bytes) \<Rightarrow> int \<Rightarrow> bytes \<Rightarrow> access_mode \<Rightarrow> filesystem_manager \<Rightarrow> bool \<times> filesystem_manager" where
  "check_path_access canon lower now p a m =
     (let policy = fm_policy m; p = normalize_path canon p; ext = map_option lower (path_extension p) in
      if prevent_path_traversal policy \<and> has_path_traversal p then deny now p a PathTraversal ''Path traversal detected'' m
      else if (case ext of Some e \<Rightarrow> e \<in> set (forbidden_extensions policy) | None \<Rightarrow> False) then
        deny now p a ForbiddenExtension (''Forbidden file extension: '' @ the ext) m
      else if (case (ext, allowed_extensions policy) of (Some e, Some allowed) \<Rightarrow> e \<notin> set allowed | _ \<Rightarrow> False) then
        deny now p a ForbiddenExtension (''File extension not in allowlist: '' @ the ext) m
      else
        let granted = (case find_matching_rule (fs_rules policy) p of Some r \<Rightarrow> rule_access r | None \<Rightarrow> default_access policy) in
        if access_allowed granted a then (True, m) else deny now p a ForbiddenPath ''Access denied by policy rule'' m)"

definition check_file_size :: "int \<Rightarrow> bytes \<Rightarrow> u64 \<Rightarrow> filesystem_manager \<Rightarrow> bool \<times> filesystem_manager" where
  "check_file_size now p sz m =
     (case max_file_size (fm_policy m) of
        Some limit \<Rightarrow>
          if sz > limit then
            deny now p ReadWrite FileSizeLimit (''File size '' @ show_nat (unat sz) @ '' exceeds limit '' @ show_nat (unat limit)) m
          else (True, m)
      | None \<Rightarrow> (True, m))"

text \<open>\<open>parent\<close> is the directory of the path, or the path where it has none. Sums wrap as in a release build.\<close>

definition track_disk_usage :: "int \<Rightarrow> bytes \<Rightarrow> bytes \<Rightarrow> u64 \<Rightarrow> filesystem_manager \<Rightarrow> bool \<times> filesystem_manager" where
  "track_disk_usage now parent p sz m =
     (let used = (case map_of (fm_usage m) parent of Some n \<Rightarrow> n | None \<Rightarrow> 0);
          m = m\<lparr>fm_usage := btree_insert parent (used + sz) (fm_usage m)\<rparr> in
      (case max_disk_usage (fm_policy m) of
         Some limit \<Rightarrow>
           let usage = sum_list (map snd (fm_usage m)) in
           if usage > limit then
             deny now p ReadWrite DiskUsageLimit (''Total disk usage '' @ show_nat (unat usage) @ '' exceeds limit '' @ show_nat (unat limit)) m
           else (True, m)
       | None \<Rightarrow> (True, m)))"

definition generate_mount_restrictions :: "bytes list" where
  "generate_mount_restrictions =
     map (\<lambda>p. p @ '':'' @ p @ '':ro'') [''/bin'', ''/sbin'', ''/usr'', ''/lib'', ''/lib64'', ''/etc'', ''/opt'', ''/var/lib'', ''/root''] @
     [''tmpfs:/tmp:rw,noexec,nosuid,size=100m'', ''tmpfs:/var/tmp:rw,noexec,nosuid,size=50m'']"

section \<open>Properties\<close>

lemma record_violation_keep:
  "vl_violations (record_violation v l) = drop (length (vl_violations l @ [v]) - vl_max l) (vl_violations l @ [v])"
  if "length (vl_violations l) \<le> vl_max l"
proof (cases "length (vl_violations l) = vl_max l")
  case True
  then show ?thesis by (cases "vl_violations l") (simp_all add: record_violation_def Let_def)
next
  case False
  with that show ?thesis by (simp add: record_violation_def Let_def)
qed

lemma record_violation_max [simp]: "vl_max (record_violation v l) = vl_max l"
  by (simp add: record_violation_def Let_def)

text \<open>
  A violation log never outgrows its bound and never loses what is recent: after any sequence of violations it holds
  exactly the last ones, as many as the bound allows, in the order they came.
\<close>

theorem violation_log_recent:
  "vl_violations (fold record_violation vs (violation_log_new n)) = drop (length vs - n) vs"
proof (induction vs rule: rev_induct)
  case (snoc v vs)
  let ?l = "fold record_violation vs (violation_log_new n)"
  have n: "vl_max (fold record_violation ws l) = vl_max l" for ws and l :: "'a violation_log" by (induction ws arbitrary: l) simp_all
  have m: "vl_max ?l = n" unfolding n by (simp add: violation_log_new_def)
  have "length (vl_violations ?l) \<le> vl_max ?l" unfolding snoc m by simp
  from record_violation_keep [OF this, of v] show ?case unfolding snoc m by (cases "length vs < n") (simp_all add: Suc_diff_le)
qed (simp add: violation_log_new_def)

lemma match_prefix:
  "path_matches_pattern p ''/tmp/*'' True = starts_with p ''/tmp''"
  "path_matches_pattern p ''/workspace/*'' True = starts_with p ''/workspace''"
  "path_matches_pattern p ''/etc/*'' True = starts_with p ''/etc''"
  "path_matches_pattern p ''/proc/*'' True = starts_with p ''/proc''"
  "path_matches_pattern p ''/sys/*'' True = starts_with p ''/sys''"
  by (simp_all add: path_matches_pattern_def ends_with_def)

lemma match_tmp: "path_matches_pattern p ''/workspace/*.tmp'' False \<Longrightarrow> starts_with p ''/workspace''"
  by (simp add: path_matches_pattern_def ends_with_def) (auto simp: starts_with_iff)

lemma default_rule_cases:
  "starts_with p ''/tmp'' \<Longrightarrow> \<not> starts_with p ''/workspace'' \<and> \<not> starts_with p ''/etc'' \<and> \<not> starts_with p ''/proc'' \<and> \<not> starts_with p ''/sys''"
  "starts_with p ''/workspace'' \<Longrightarrow> \<not> starts_with p ''/tmp'' \<and> \<not> starts_with p ''/etc'' \<and> \<not> starts_with p ''/proc'' \<and> \<not> starts_with p ''/sys''"
  by (auto simp: starts_with_iff)

definition default_grant :: "bytes \<Rightarrow> access_mode" where
  "default_grant p = (if starts_with p ''/tmp'' \<or> starts_with p ''/workspace'' then ReadWrite else Forbidden)"

lemma default_rules_grant:
  "(case find_matching_rule DEFAULT_RULES p of Some r \<Rightarrow> rule_access r | None \<Rightarrow> Forbidden) = default_grant p"
  using default_rule_cases [of p]
  by (cases "starts_with p ''/etc''"; cases "starts_with p ''/proc''"; cases "starts_with p ''/sys''";
      cases "starts_with p ''/tmp''"; cases "starts_with p ''/workspace''")
    (simp_all add: find_matching_rule_def DEFAULT_RULES_def match_prefix default_grant_def)

lemma strict_rules_grant:
  "(case find_matching_rule (DEFAULT_RULES @ [TMP_RULE]) p of Some r \<Rightarrow> rule_access r | None \<Rightarrow> Forbidden) = default_grant p"
  using default_rule_cases [of p] match_tmp [of p]
  by (cases "starts_with p ''/etc''"; cases "starts_with p ''/proc''"; cases "starts_with p ''/sys''";
      cases "starts_with p ''/tmp''"; cases "starts_with p ''/workspace''"; cases "path_matches_pattern p ''/workspace/*.tmp'' False")
    (simp_all add: find_matching_rule_def DEFAULT_RULES_def TMP_RULE_def match_prefix default_grant_def)

text \<open>
  What the built-in policies let be mounted. A path is granted, for every kind of access, exactly when after
  normalisation it has no parent component, no forbidden extension, and its string starts with \<open>/tmp\<close> or \<open>/workspace\<close>. The
  strict policy grants exactly what the default one does: its additional rule, described as allowing only temporary
  files, has a lower priority than the rule for the whole workspace and never decides. And the prefixes are compared as
  strings, so that the directory \<open>/workspace-private\<close> beside the workspace is granted as well.
\<close>

theorem builtin_policy_access:
  "(fst (check_path_access canon lower now p a (filesystem_manager_new default_policy)) \<longleftrightarrow>
     (let q = normalize_path canon p in \<not> has_path_traversal q \<and>
       (case path_extension q of Some e \<Rightarrow> lower e \<notin> {''exe'', ''bat'', ''cmd'', ''com'', ''scr''} | None \<Rightarrow> True) \<and>
       (starts_with q ''/tmp'' \<or> starts_with q ''/workspace''))) \<and>
   fst (check_path_access canon lower now p a (filesystem_manager_new strict_policy)) =
     fst (check_path_access canon lower now p a (filesystem_manager_new default_policy)) \<and>
   fst (check_path_access canon lower now ''/workspace-private'' a (filesystem_manager_new strict_policy))"
proof -
  have fields: "fs_rules strict_policy = DEFAULT_RULES @ [TMP_RULE]" "default_access strict_policy = Forbidden"
    "fs_rules default_policy = DEFAULT_RULES" "default_access default_policy = Forbidden"
    by (simp_all add: strict_policy_def default_policy_def)
  have grant: "(case find_matching_rule (fs_rules strict_policy) q of Some r \<Rightarrow> rule_access r | None \<Rightarrow> default_access strict_policy) = default_grant q"
    "(case find_matching_rule (fs_rules default_policy) q of Some r \<Rightarrow> rule_access r | None \<Rightarrow> default_access default_policy) = default_grant q" for q
    using strict_rules_grant [of q] default_rules_grant [of q] unfolding fields .
  have policy: "prevent_path_traversal pol" "allowed_extensions pol = None" "forbidden_extensions pol = [''exe'', ''bat'', ''cmd'', ''com'', ''scr'']"
    if "pol = strict_policy \<or> pol = default_policy" for pol using that by (auto simp: strict_policy_def default_policy_def)
  have access: "access_allowed (default_grant q) a \<longleftrightarrow> starts_with q ''/tmp'' \<or> starts_with q ''/workspace''" for q
    by (simp add: default_grant_def)
  have spec: "fst (check_path_access canon lower now p a (filesystem_manager_new pol)) \<longleftrightarrow>
     (let q = normalize_path canon p in \<not> has_path_traversal q \<and>
       (case path_extension q of Some e \<Rightarrow> lower e \<notin> {''exe'', ''bat'', ''cmd'', ''com'', ''scr''} | None \<Rightarrow> True) \<and>
       (starts_with q ''/tmp'' \<or> starts_with q ''/workspace''))" if pol: "pol = strict_policy \<or> pol = default_policy" for pol p
    using pol policy [OF pol] access [of "normalize_path canon p"]
    unfolding check_path_access_def filesystem_manager_new_def
    by (cases "path_extension (normalize_path canon p)") (auto simp: Let_def deny_def grant)
  have "normalize_path canon ''/workspace-private'' = ''/workspace-private''" "\<not> has_path_traversal ''/workspace-private''"
    "path_extension ''/workspace-private'' = None" "starts_with ''/workspace-private'' ''/workspace''"
    by (simp_all add: normalize_path_def has_path_traversal_def path_extension_def starts_with_def)
  then have "fst (check_path_access canon lower now ''/workspace-private'' a (filesystem_manager_new strict_policy))"
    using spec [of strict_policy "''/workspace-private''"] by simp
  with spec [of default_policy p] spec [of strict_policy p] show ?thesis by blast
qed

end
