(* ===== verification/Sandbox.thy ===== *)
theory Sandbox
  imports Confinement Pipelines Receipt
begin

text \<open>
  The sandbox of a step, from \<open>src/sandbox/mod.rs\<close>, \<open>container.rs\<close>, \<open>enhanced_container.rs\<close> and \<open>deterministic.rs\<close>: configurations, the process or the container command line a step becomes, timeouts, the violation log,
  and the report of what was enforced, which goes into the receipt.

  What starts is described, not run: a process is its program, arguments, environment, directory, limits and timeout, a
  container its command line. A hash map is an association list sorted by key; where its iteration order shows, on a
  command line, the list is in that order. A number of cores is the text it is shown as. Parameters: \<open>chrono\<close>'s formats,
  \<open>from_utf8_lossy\<close>, what \<open>which\<close> finds, and the behaviour of a child process over time.
\<close>

section \<open>Configuration\<close>

datatype isolation_level = NoIsolation | ProcessIsolation | ContainerIsolation | StrictContainer | VM

datatype network_policy = NetDisabled | NetRestricted | NetFull

datatype container_runtime = Docker | Podman | Containerd

record resource_limits =
  memory_mb :: "u64 option"
  cpu_cores :: "bytes option"
  limit_timeout_secs :: "u64 option"
  max_files :: "u64 option"
  max_file_size_mb :: "u64 option"

record filesystem_policy =
  read_only_paths :: "bytes list"
  writable_paths :: "bytes list"
  temp_dir :: "bytes option"
  max_disk_usage_mb :: "u64 option"

record volume_mount =
  host_path :: bytes
  container_path :: bytes
  vm_read_only :: bool

record container_config =
  cc_image :: bytes
  cc_volumes :: "volume_mount list"
  cc_environment :: "bytes btree"
  cc_working_dir :: "bytes option"
  cc_user :: "bytes option"
  cc_entrypoint :: "bytes list option"
  cc_runtime :: container_runtime

record sandbox_config =
  isolation_level :: isolation_level
  deterministic_time :: bool
  fixed_timestamp :: "int option"
  resource_limits :: resource_limits
  network_policy :: network_policy
  filesystem_policy :: filesystem_policy
  container_config :: "container_config option"
  seccomp_profile :: "bytes option"
  security_level :: security_level
  inherit_environment :: bool

definition default_resource_limits :: resource_limits where
  "default_resource_limits = \<lparr>memory_mb = None, cpu_cores = Some ''1'', limit_timeout_secs = None, max_files = Some 1000,
     max_file_size_mb = Some 100\<rparr>"

definition default_filesystem_policy :: filesystem_policy where
  "default_filesystem_policy = \<lparr>read_only_paths = [], writable_paths = [], temp_dir = None, max_disk_usage_mb = Some 1024\<rparr>"

definition default_sandbox_config :: sandbox_config where
  "default_sandbox_config = \<lparr>isolation_level = ProcessIsolation, deterministic_time = True, fixed_timestamp = None,
     resource_limits = default_resource_limits, network_policy = NetDisabled, filesystem_policy = default_filesystem_policy,
     container_config = None, seccomp_profile = Some ''minimal'', security_level = Minimal, inherit_environment = True\<rparr>"

section \<open>Deterministic time\<close>

text \<open>Times are nanoseconds. \<open>fmt\<close> is \<open>chrono\<close>'s formatting by a pattern.\<close>

record det_time =
  dt_fixed :: "int option"
  dt_start :: int
  dt_offset :: u64

definition NANOS :: int where "NANOS = 10 ^ 9"

definition HERMETIC_SOURCE_DATE_EPOCH :: int where "HERMETIC_SOURCE_DATE_EPOCH = 1704067200"

definition det_time_new :: "int option \<Rightarrow> det_time" where
  "det_time_new fixed = \<lparr>dt_fixed = fixed, dt_start = (case fixed of Some t \<Rightarrow> t | None \<Rightarrow> 1704067200 * NANOS), dt_offset = 0\<rparr>"

definition current_time :: "det_time \<Rightarrow> int" where
  "current_time dt = (case dt_fixed dt of Some t \<Rightarrow> t | None \<Rightarrow> dt_start dt + sint (dt_offset dt) * NANOS)"

definition advance_time :: "u64 \<Rightarrow> det_time \<Rightarrow> det_time" where
  "advance_time secs dt = dt\<lparr>dt_offset := dt_offset dt + secs\<rparr>"

definition reset_time :: "det_time \<Rightarrow> det_time" where
  "reset_time dt = dt\<lparr>dt_offset := 0\<rparr>"

definition hash_extend :: "bytes btree \<Rightarrow> (bytes \<times> bytes) list \<Rightarrow> bytes btree" where
  "hash_extend m entries = foldl (\<lambda>e (k, v). btree_insert k v e) m entries"

definition hash_remove :: "bytes \<Rightarrow> 'v btree \<Rightarrow> 'v btree" where
  "hash_remove k m = filter (\<lambda>(k', _). k' \<noteq> k) m"

definition environment_variables :: "(bytes \<Rightarrow> int \<Rightarrow> bytes) \<Rightarrow> (int \<Rightarrow> bytes) \<Rightarrow> det_time \<Rightarrow> bytes btree" where
  "environment_variables fmt rfc3339 dt =
     (let now = current_time dt; secs = show_int (now div NANOS) in
      hash_extend [] [(''ATTEST_DETERMINISTIC_TIME'', ''1''), (''ATTEST_FIXED_TIMESTAMP'', secs),
        (''ATTEST_FIXED_TIME_RFC3339'', rfc3339 now), (''ATTEST_UNIX_TIMESTAMP'', secs),
        (''ATTEST_UNIX_TIMESTAMP_MS'', show_int (now div (10 ^ 6))),
        (''ATTEST_YEAR'', fmt ''%Y'' now), (''ATTEST_MONTH'', fmt ''%m'' now), (''ATTEST_DAY'', fmt ''%d'' now),
        (''ATTEST_HOUR'', fmt ''%H'' now), (''ATTEST_MINUTE'', fmt ''%M'' now), (''ATTEST_SECOND'', fmt ''%S'' now),
        (''ATTEST_ISO_DATE'', fmt ''%Y-%m-%d'' now), (''ATTEST_ISO_DATETIME'', fmt ''%Y-%m-%dT%H:%M:%SZ'' now),
        (''BUILD_TIMESTAMP'', secs), (''BUILD_DATE'', fmt ''%Y-%m-%d'' now), (''BUILD_TIME'', fmt ''%H:%M:%S'' now),
        (''SOURCE_DATE_EPOCH'', secs)])"

definition deterministic_seed :: "det_time \<Rightarrow> u64" where
  "deterministic_seed dt = of_int (current_time dt div NANOS)"

definition temp_dir_name :: "bytes \<Rightarrow> det_time \<Rightarrow> bytes" where
  "temp_dir_name pre dt = pre @ ''_'' @ show_int (current_time dt div NANOS)"

definition NON_DETERMINISTIC :: "bytes list" where
  "NON_DETERMINISTIC = [''RANDOM'', ''SECONDS'', ''EPOCHREALTIME'', ''EPOCHSECONDS'', ''PWD'', ''OLDPWD'', ''SHLVL'', ''_'', ''PS1'', ''PS2'',
     ''PS3'', ''PS4'', ''HISTFILE'', ''HISTSIZE'', ''HISTCONTROL'', ''HOSTNAME'']"

definition sanitize_environment :: "bytes btree \<Rightarrow> bytes btree" where
  "sanitize_environment env =
     hash_extend (fold hash_remove NON_DETERMINISTIC env)
       [(''LANG'', ''C''), (''LC_ALL'', ''C''), (''LC_COLLATE'', ''C''), (''LC_CTYPE'', ''C''), (''LC_MESSAGES'', ''C''), (''LC_MONETARY'', ''C''),
        (''LC_NUMERIC'', ''C''), (''LC_TIME'', ''C''), (''TZ'', ''UTC'')]"

definition minimal_environment :: "bytes btree" where
  "minimal_environment = hash_extend [] [(''PATH'', ''/usr/local/bin:/usr/bin:/bin''), (''HOME'', ''/tmp/attest-home''), (''USER'', ''attest''),
     (''LOGNAME'', ''attest''), (''LANG'', ''C''), (''LC_ALL'', ''C''), (''TZ'', ''UTC''), (''SHELL'', ''/bin/sh''), (''TERM'', ''dumb'')]"

definition setup_deterministic_random :: "bytes btree \<Rightarrow> u64 \<Rightarrow> bytes btree" where
  "setup_deterministic_random env seed =
     hash_extend env [(''PYTHONHASHSEED'', show_nat (unat seed)), (''ATTEST_RANDOM_SEED'', show_nat (unat seed))]"

datatype sandbox_error =
    BadProfile profile_error
  | NoProfileSet
  | ContainerConfigRequired
  | RuntimeNotFound bytes
  | VmNotImplemented
  | ContainerMissing
  | ImageRejected bytes
  | SpawnFailed
  | WaitFailed

section \<open>Containers\<close>

record container_limits =
  cl_memory_mb :: "u64 option"
  cl_cpu_cores :: "bytes option"
  cl_timeout_secs :: "u64 option"

record container_run_config =
  rc_container_id :: bytes
  rc_image :: bytes
  rc_command :: bytes
  rc_args :: "bytes list"
  rc_environment :: "bytes btree"
  rc_working_dir :: "bytes option"
  rc_volumes :: "volume_mount list"
  rc_user :: "bytes option"
  rc_entrypoint :: "bytes list option"
  rc_network_mode :: bytes
  rc_limits :: container_limits

text \<open>What \<open>which\<close> finds of a program.\<close>

definition runtime_program :: "container_runtime \<Rightarrow> bytes" where
  "runtime_program r = (case r of Docker \<Rightarrow> ''docker'' | Podman \<Rightarrow> ''podman'' | Containerd \<Rightarrow> ''ctr'')"

definition runtime_new :: "(bytes \<Rightarrow> bytes option) \<Rightarrow> container_runtime \<Rightarrow> (sandbox_error, bytes) result" where
  "runtime_new which r = ok_or (which (runtime_program r)) (RuntimeNotFound (runtime_program r))"

definition detect_runtime :: "(bytes \<Rightarrow> bytes option) \<Rightarrow> container_runtime option" where
  "detect_runtime which =
     (if is_ok (runtime_new which Docker) then Some Docker
      else if is_ok (runtime_new which Podman) then Some Podman
      else if is_ok (runtime_new which Containerd) then Some Containerd
      else None)"

definition default_container_config :: "(bytes \<Rightarrow> bytes option) \<Rightarrow> bytes \<Rightarrow> container_config" where
  "default_container_config which img = \<lparr>cc_image = img, cc_volumes = [], cc_environment = [], cc_working_dir = Some ''/workspace'',
     cc_user = Some ''1000:1000'', cc_entrypoint = None,
     cc_runtime = (case detect_runtime which of Some r \<Rightarrow> r | None \<Rightarrow> Docker)\<rparr>"

definition secure_attest_config :: "(bytes \<Rightarrow> bytes option) \<Rightarrow> bytes \<Rightarrow> container_config" where
  "secure_attest_config which img =
     (let c = default_container_config which img in
      c\<lparr>cc_environment := hash_extend (cc_environment c) [(''ATTEST_CONTAINER_MODE'', ''1''), (''HOME'', ''/tmp''), (''TMPDIR'', ''/tmp'')],
        cc_user := Some ''65534:65534'', cc_working_dir := Some ''/workspace''\<rparr>)"

definition limit_args :: "container_limits \<Rightarrow> bytes list" where
  "limit_args l =
     (case cl_memory_mb l of Some m \<Rightarrow> [''--memory'', show_nat (unat m) @ ''m''] | None \<Rightarrow> []) @
     (case cl_cpu_cores l of Some c \<Rightarrow> [''--cpus'', c] | None \<Rightarrow> [])"

definition env_args :: "bytes btree \<Rightarrow> bytes list" where
  "env_args environ = concat (map (\<lambda>(k, v). [''-e'', k @ ''='' @ v]) environ)"

definition volume_args :: "volume_mount list \<Rightarrow> bytes list" where
  "volume_args vs = concat (map (\<lambda>v. [''-v'', host_path v @ '':'' @ container_path v @ (if vm_read_only v then '':ro'' else [])]) vs)"

definition flag_arg :: "bytes \<Rightarrow> bytes option \<Rightarrow> bytes list" where
  "flag_arg flag opt = (case opt of Some x \<Rightarrow> [flag, x] | None \<Rightarrow> [])"

definition docker_args :: "container_run_config \<Rightarrow> bytes list" where
  "docker_args c =
     [''run'', ''--rm'', ''--name'', rc_container_id c, ''--network'', rc_network_mode c] @ limit_args (rc_limits c) @
     env_args (rc_environment c) @ volume_args (rc_volumes c) @ flag_arg ''-w'' (rc_working_dir c) @ flag_arg ''--user'' (rc_user c) @
     (case rc_entrypoint c of Some es \<Rightarrow> concat (map (\<lambda>e. [''--entrypoint'', e]) es) | None \<Rightarrow> []) @
     [rc_image c, rc_command c] @ rc_args c"

definition podman_args :: "container_run_config \<Rightarrow> bytes list" where
  "podman_args c =
     [''run'', ''--rm'', ''--name'', rc_container_id c, ''--network'', rc_network_mode c] @ limit_args (rc_limits c) @
     env_args (rc_environment c) @ volume_args (rc_volumes c) @ flag_arg ''-w'' (rc_working_dir c) @ flag_arg ''--user'' (rc_user c) @
     [rc_image c, rc_command c] @ rc_args c"

definition ctr_args :: "container_run_config \<Rightarrow> bytes list" where
  "ctr_args c = [''run'', ''--rm'', rc_image c, rc_container_id c, rc_command c] @ rc_args c"

definition run_container_args :: "container_runtime \<Rightarrow> container_run_config \<Rightarrow> bytes list" where
  "run_container_args r c = (case r of Docker \<Rightarrow> docker_args c | Podman \<Rightarrow> podman_args c | Containerd \<Rightarrow> ctr_args c)"

text \<open>The sandbox has the program found for its runtime and, where one could be made, a verifier of image signatures: the
  verdict on an image, or an error.\<close>

record container_sandbox =
  cb_config :: container_config
  cb_program :: bytes
  cb_verifier :: "(bytes \<Rightarrow> bool option) option"

definition container_sandbox_new ::
  "(bytes \<Rightarrow> bytes option) \<Rightarrow> (bytes \<Rightarrow> bool option) option \<Rightarrow> container_config \<Rightarrow> (sandbox_error, container_sandbox) result" where
  "container_sandbox_new which verifier c =
     and_then (runtime_new which (cc_runtime c)) (\<lambda>program. Inr \<lparr>cb_config = c, cb_program = program, cb_verifier = verifier\<rparr>)"

text \<open>A command to start, with the seconds it is waited for. \<open>uuid\<close> is a fresh identifier, \<open>order\<close> the iteration order of
  the environment.\<close>

record container_command =
  kc_program :: bytes
  kc_args :: "bytes list"
  kc_timeout :: u64

definition container_run_config_of ::
  "bytes \<Rightarrow> (bytes btree \<Rightarrow> bytes btree) \<Rightarrow> container_config \<Rightarrow> bytes \<Rightarrow> bytes list \<Rightarrow> bytes btree \<Rightarrow> bytes option \<Rightarrow> container_run_config" where
  "container_run_config_of uuid order c command args environ dir =
     \<lparr>rc_container_id = ''attest-'' @ uuid, rc_image = cc_image c, rc_command = command, rc_args = args,
      rc_environment = order (hash_extend environ (cc_environment c)), rc_working_dir = dir, rc_volumes = cc_volumes c,
      rc_user = cc_user c, rc_entrypoint = cc_entrypoint c, rc_network_mode = ''none'',
      rc_limits = \<lparr>cl_memory_mb = Some 512, cl_cpu_cores = Some ''1'', cl_timeout_secs = Some 300\<rparr>\<rparr>"

definition command_timeout :: "container_limits \<Rightarrow> u64" where
  "command_timeout l = (case cl_timeout_secs l of Some t \<Rightarrow> t | None \<Rightarrow> 300)"

definition container_execute ::
  "bytes \<Rightarrow> (bytes btree \<Rightarrow> bytes btree) \<Rightarrow> container_sandbox \<Rightarrow> bytes \<Rightarrow> bytes list \<Rightarrow> bytes btree \<Rightarrow> bytes option
    \<Rightarrow> (sandbox_error, container_command) result" where
  "container_execute uuid order cb command args environ dir =
     (let c = cb_config cb; rc = container_run_config_of uuid order c command args environ dir in
      ensure (case cb_verifier cb of Some verdict \<Rightarrow> verdict (cc_image c) = Some True | None \<Rightarrow> True) (ImageRejected (cc_image c)) (
      Inr \<lparr>kc_program = cb_program cb, kc_args = run_container_args (cc_runtime c) rc, kc_timeout = command_timeout (rc_limits rc)\<rparr>))"

section \<open>Strict containers\<close>

record enhanced_sandbox =
  eb_config :: container_config
  eb_seccomp :: seccomp_manager
  eb_violations :: "seccomp_violation violation_log"
  eb_filesystem :: filesystem_manager
  eb_level :: security_level
  eb_network :: network_policy

definition enhanced_new :: "(bytes \<Rightarrow> bytes option) \<Rightarrow> container_config \<Rightarrow> security_level \<Rightarrow> network_policy \<Rightarrow> (sandbox_error, enhanced_sandbox) result" where
  "enhanced_new which c level net =
     and_then (runtime_new which (cc_runtime c)) (\<lambda>_.
     and_then (map_err BadProfile (set_profile (level_name level) seccomp_new)) (\<lambda>m.
     Inr \<lparr>eb_config = c, eb_seccomp = m, eb_violations = violation_log_new 1000,
       eb_filesystem = filesystem_manager_new (if level = Maximum then strict_policy else default_policy), eb_level = level, eb_network = net\<rparr>))"

definition create_secure_environment :: "security_level \<Rightarrow> bytes btree \<Rightarrow> bytes btree" where
  "create_secure_environment level base =
     hash_remove ''PATH'' (hash_remove ''LD_LIBRARY_PATH'' (hash_remove ''LD_PRELOAD'' (
       hash_extend base [(''ATTEST_SECURITY_LEVEL'', level_name level), (''ATTEST_SANDBOX_MODE'', ''enhanced''), (''HOME'', ''/tmp''),
         (''TMPDIR'', ''/tmp''), (''USER'', ''nobody'')])))"

definition is_volume_safe :: "bytes \<Rightarrow> bool" where
  "is_volume_safe p \<longleftrightarrow> list_ex (starts_with p) [''/tmp'', ''/workspace'', ''/data''] \<and>
     \<not> list_ex (starts_with p) [''/boot'', ''/dev'', ''/etc'', ''/proc'', ''/sys'', ''/run'', ''/usr'', ''/var'', ''/opt'', ''/root'', ''/home'']"

fun secure_volumes ::
  "(bytes \<Rightarrow> bytes option) \<Rightarrow> (bytes \<Rightarrow> bytes) \<Rightarrow> int \<Rightarrow> volume_mount list \<Rightarrow> filesystem_manager \<Rightarrow> volume_mount list \<times> filesystem_manager" where
  "secure_volumes canon lower now [] m = ([], m)"
| "secure_volumes canon lower now (v # vs) m =
     (let (allowed, m) = check_path_access canon lower now (host_path v) ReadOnly m;
          (rest, m) = secure_volumes canon lower now vs m
      in (if allowed \<and> is_volume_safe (host_path v) then v\<lparr>vm_read_only := True\<rparr> # rest else rest, m))"

definition create_secure_volumes ::
  "(bytes \<Rightarrow> bytes option) \<Rightarrow> (bytes \<Rightarrow> bytes) \<Rightarrow> int \<Rightarrow> bytes \<Rightarrow> enhanced_sandbox \<Rightarrow> volume_mount list \<times> enhanced_sandbox" where
  "create_secure_volumes canon lower now tmp eb =
     (let (vs, m) = secure_volumes canon lower now (cc_volumes (eb_config eb)) (eb_filesystem eb)
      in (vs @ [\<lparr>host_path = tmp, container_path = ''/workspace'', vm_read_only = False\<rparr>], eb\<lparr>eb_filesystem := m\<rparr>))"

definition get_network_mode :: "network_policy \<Rightarrow> bytes" where
  "get_network_mode net = (case net of NetDisabled \<Rightarrow> ''none'' | NetRestricted \<Rightarrow> ''bridge'' | NetFull \<Rightarrow> ''bridge'')"

definition create_resource_limits :: "security_level \<Rightarrow> container_limits" where
  "create_resource_limits level = (case level of
       Minimal \<Rightarrow> \<lparr>cl_memory_mb = Some 1024, cl_cpu_cores = Some ''2'', cl_timeout_secs = Some 600\<rparr>
     | Standard \<Rightarrow> \<lparr>cl_memory_mb = Some 512, cl_cpu_cores = Some ''1'', cl_timeout_secs = Some 300\<rparr>
     | Maximum \<Rightarrow> \<lparr>cl_memory_mb = Some 256, cl_cpu_cores = Some ''0.5'', cl_timeout_secs = Some 120\<rparr>)"

definition add_standard_docker_config :: "container_run_config \<Rightarrow> bytes list" where
  "add_standard_docker_config c =
     limit_args (rc_limits c) @ env_args (rc_environment c) @ volume_args (rc_volumes c) @ flag_arg ''-w'' (rc_working_dir c) @
     flag_arg ''--user'' (rc_user c) @ [rc_image c, rc_command c] @ rc_args c"

definition hardening_args :: "bytes \<Rightarrow> security_level \<Rightarrow> bytes list" where
  "hardening_args no_new_privileges level =
     (if level \<noteq> Minimal then [''--security-opt'', no_new_privileges, ''--cap-drop'', ''ALL'', ''--read-only'', ''--tmpfs'',
        ''/tmp:rw,noexec,nosuid,size=100m''] else [])"

definition docker_seccomp_args :: "security_level \<Rightarrow> bytes \<Rightarrow> container_run_config \<Rightarrow> bytes list" where
  "docker_seccomp_args level profile c =
     [''run'', ''--rm'', ''--name'', rc_container_id c, ''--network'', rc_network_mode c, ''--security-opt'', ''seccomp='' @ profile] @
     hardening_args ''no-new-privileges:true'' level @
     (if level = Maximum then [''--security-opt'', ''apparmor:docker-default'', ''--pids-limit'', ''100'', ''--ulimit'', ''nofile=1024:1024'',
        ''--ulimit'', ''nproc=64:64''] else []) @
     add_standard_docker_config c"

definition podman_seccomp_args :: "security_level \<Rightarrow> bytes \<Rightarrow> container_run_config \<Rightarrow> bytes list" where
  "podman_seccomp_args level profile c =
     [''run'', ''--rm'', ''--name'', rc_container_id c, ''--network'', rc_network_mode c, ''--security-opt'', ''seccomp='' @ profile] @
     hardening_args ''no-new-privileges'' level @ add_standard_docker_config c"

text \<open>\<open>tmp\<close> is the temporary directory, where the seccomp profile is written.\<close>

definition execute_secure ::
  "(container_seccomp \<Rightarrow> bytes) \<Rightarrow> (bytes \<Rightarrow> bytes option) \<Rightarrow> (bytes \<Rightarrow> bytes) \<Rightarrow> int \<Rightarrow> bytes \<Rightarrow> bytes \<Rightarrow> (bytes btree \<Rightarrow> bytes btree)
    \<Rightarrow> bytes \<Rightarrow> bytes list \<Rightarrow> bytes btree \<Rightarrow> bytes option \<Rightarrow> enhanced_sandbox
    \<Rightarrow> (sandbox_error, (bytes \<times> container_command) \<times> enhanced_sandbox) result" where
  "execute_secure json canon lower now uuid tmp order command args environ dir eb =
     and_then (ok_or (get_current_profile (eb_seccomp eb)) NoProfileSet) (\<lambda>p.
     and_then (map_err BadProfile (generate_container_profile json (profile_name p) (eb_seccomp eb))) (\<lambda>profile_json.
     let file = tmp @ ''/seccomp-profile.json'';
         (volumes, eb) = create_secure_volumes canon lower now tmp eb;
         c = eb_config eb;
         rc = \<lparr>rc_container_id = ''attest-secure-'' @ uuid, rc_image = cc_image c, rc_command = command, rc_args = args,
           rc_environment = order (create_secure_environment (eb_level eb) environ), rc_working_dir = dir, rc_volumes = volumes,
           rc_user = Some ''65534:65534'', rc_entrypoint = cc_entrypoint c, rc_network_mode = get_network_mode (eb_network eb),
           rc_limits = create_resource_limits (eb_level eb)\<rparr>
     in Inr ((profile_json, \<lparr>kc_program = runtime_program (cc_runtime c),
          kc_args = (case cc_runtime c of
              Docker \<Rightarrow> docker_seccomp_args (eb_level eb) file rc
            | Podman \<Rightarrow> podman_seccomp_args (eb_level eb) file rc
            | Containerd \<Rightarrow> ctr_args rc),
          kc_timeout = command_timeout (rc_limits rc)\<rparr>), eb)))"

text \<open>The value behind the first word with a prefix; \<open>words\<close> is \<open>split_whitespace\<close> of a line.\<close>

definition word_value :: "bytes \<Rightarrow> bytes list \<Rightarrow> bytes option" where
  "word_value pre words = map_option (drop (length pre)) (List.find (\<lambda>w. starts_with w pre) words)"

definition log_violations :: "(bytes \<Rightarrow> u32 option) \<Rightarrow> (bytes \<Rightarrow> bytes list) \<Rightarrow> int \<Rightarrow> bytes list
    \<Rightarrow> seccomp_violation violation_log \<Rightarrow> seccomp_violation violation_log" where
  "log_violations parse words now log_lines l =
     fold (\<lambda>line. record_violation \<lparr>sv_timestamp = now,
         sv_pid = (case Option.bind (word_value ''pid='' (words line)) parse of Some n \<Rightarrow> n | None \<Rightarrow> 0),
         sv_syscall = (case word_value ''syscall='' (words line) of Some n \<Rightarrow> n | None \<Rightarrow> ''unknown''),
         sv_action = Kill, sv_context = line\<rparr>)
       (filter (\<lambda>line. contains line ''seccomp'' \<and> (contains line ''killed'' \<or> contains line ''denied'')) log_lines) l"

section \<open>Running a step\<close>

record process_command =
  pc_program :: bytes
  pc_args :: "bytes list"
  pc_clear :: bool
  pc_env :: "bytes btree"
  pc_dir :: "bytes option"
  pc_memory :: "u64 option"
  pc_files :: "u64 option"
  pc_timeout :: "u64 option"

record sandbox =
  sb_config :: sandbox_config
  sb_container :: "container_sandbox option"
  sb_enhanced :: "enhanced_sandbox option"
  sb_time :: "det_time option"
  sb_seccomp :: seccomp_manager
  sb_violations :: "seccomp_violation violation_log"

text \<open>What the sandbox finds around it: programs, the image verifier, the environment and the codecs.\<close>

record sandbox_env =
  sx_unix :: bool
  sx_platform :: bytes
  sx_which :: "bytes \<Rightarrow> bytes option"
  sx_verifier :: "(bytes \<Rightarrow> bool option) option"
  sx_ambient :: "bytes btree"
  sx_format :: "bytes \<Rightarrow> int \<Rightarrow> bytes"
  sx_rfc3339 :: "int \<Rightarrow> bytes"
  sx_json :: "container_seccomp \<Rightarrow> bytes"
  sx_canon :: "bytes \<Rightarrow> bytes option"
  sx_lower :: "bytes \<Rightarrow> bytes"
  sx_lossy :: "bytes \<Rightarrow> bytes"
  sx_order :: "bytes btree \<Rightarrow> bytes btree"

definition sandbox_containers ::
  "sandbox_env \<Rightarrow> sandbox_config \<Rightarrow> (sandbox_error, container_sandbox option \<times> enhanced_sandbox option) result" where
  "sandbox_containers x c =
     (case isolation_level c of
        ContainerIsolation \<Rightarrow>
          and_then (ok_or (container_config c) ContainerConfigRequired) (\<lambda>cc.
          and_then (container_sandbox_new (sx_which x) (sx_verifier x) cc) (\<lambda>cb. Inr (Some cb, None)))
      | StrictContainer \<Rightarrow>
          and_then (ok_or (container_config c) ContainerConfigRequired) (\<lambda>cc.
          and_then (enhanced_new (sx_which x) cc (security_level c) (network_policy c)) (\<lambda>eb. Inr (None, Some eb)))
      | _ \<Rightarrow> Inr (None, None))"

definition sandbox_new :: "sandbox_env \<Rightarrow> sandbox_config \<Rightarrow> (sandbox_error, sandbox) result" where
  "sandbox_new x c =
     and_then (sandbox_containers x c) (\<lambda>(cb, eb).
     and_then (case seccomp_profile c of
         Some name \<Rightarrow> map_err BadProfile (set_profile name seccomp_new)
       | None \<Rightarrow> Inr seccomp_new) (\<lambda>m.
     Inr \<lparr>sb_config = c, sb_container = cb, sb_enhanced = eb,
       sb_time = (if deterministic_time c then Some (det_time_new (fixed_timestamp c)) else None),
       sb_seccomp = m, sb_violations = violation_log_new 1000\<rparr>))"

definition time_variables :: "sandbox_env \<Rightarrow> sandbox \<Rightarrow> bytes btree" where
  "time_variables x sb = (case sb_time sb of Some dt \<Rightarrow> environment_variables (sx_format x) (sx_rfc3339 x) dt | None \<Rightarrow> [])"

definition ambient_path :: "sandbox_env \<Rightarrow> bytes btree" where
  "ambient_path x = (case map_of (sx_ambient x) ''PATH'' of Some p \<Rightarrow> [(''PATH'', p)] | None \<Rightarrow> [])"

definition execute_direct ::
  "sandbox_env \<Rightarrow> sandbox \<Rightarrow> bytes \<Rightarrow> bytes list \<Rightarrow> bytes btree \<Rightarrow> bytes option \<Rightarrow> u64 option \<Rightarrow> process_command" where
  "execute_direct x sb command args environ dir timeout =
     (let inherit = inherit_environment (sb_config sb);
          effective = (if inherit then sx_ambient x else ambient_path x)
      in \<lparr>pc_program = command, pc_args = args, pc_clear = \<not> inherit,
          pc_env = hash_extend (hash_extend effective environ) (time_variables x sb), pc_dir = dir, pc_memory = None, pc_files = None,
          pc_timeout = timeout\<rparr>)"

definition execute_unix_isolated ::
  "sandbox_env \<Rightarrow> sandbox \<Rightarrow> bytes \<Rightarrow> bytes list \<Rightarrow> bytes btree \<Rightarrow> bytes option \<Rightarrow> u64 option \<Rightarrow> process_command" where
  "execute_unix_isolated x sb command args environ dir timeout =
     (let c = sb_config sb;
          effective = hash_extend (time_variables x sb) environ;
          vars = (if \<not> inherit_environment c \<and> \<not> contains_key effective ''PATH'' then hash_extend effective (ambient_path x) else effective)
      in \<lparr>pc_program = command, pc_args = args, pc_clear = \<not> inherit_environment c, pc_env = vars, pc_dir = dir,
          pc_memory = map_option (\<lambda>mb. mb * 1024 * 1024) (memory_mb (resource_limits c)), pc_files = max_files (resource_limits c),
          pc_timeout = timeout\<rparr>)"

datatype launch = Process process_command | Container container_command | Strict bytes container_command

definition merge_timeout :: "u64 option \<Rightarrow> u64 option \<Rightarrow> u64 option" where
  "merge_timeout a b = (case (a, b) of (Some s, Some t) \<Rightarrow> Some (min s t) | (Some s, None) \<Rightarrow> Some s | (None, t) \<Rightarrow> t)"

text \<open>\<open>fresh\<close> is the identifier and the temporary directory of a container, \<open>now\<close> the clock.\<close>

definition execute_with_timeout ::
  "sandbox_env \<Rightarrow> bytes \<times> bytes \<Rightarrow> int \<Rightarrow> bytes \<Rightarrow> bytes list \<Rightarrow> bytes btree \<Rightarrow> bytes option \<Rightarrow> u64 option \<Rightarrow> sandbox
    \<Rightarrow> (sandbox_error, launch \<times> sandbox) result" where
  "execute_with_timeout x fresh now command args environ dir step_timeout sb =
     (let timeout = merge_timeout step_timeout (limit_timeout_secs (resource_limits (sb_config sb))) in
      (case isolation_level (sb_config sb) of
         NoIsolation \<Rightarrow> Inr (Process (execute_direct x sb command args environ dir timeout), sb)
       | ProcessIsolation \<Rightarrow>
           Inr (Process (if sx_unix x then execute_unix_isolated x sb command args environ dir timeout
                         else execute_direct x sb command args environ dir timeout), sb)
       | ContainerIsolation \<Rightarrow>
           and_then (ok_or (sb_container sb) ContainerMissing) (\<lambda>cb.
           and_then (container_execute (fst fresh) (sx_order x) cb command args environ dir) (\<lambda>k. Inr (Container k, sb)))
       | StrictContainer \<Rightarrow>
           and_then (ok_or (sb_enhanced sb) ContainerMissing) (\<lambda>eb.
           and_then (execute_secure (sx_json x) (sx_canon x) (sx_lower x) now (fst fresh) (snd fresh) (sx_order x) command args environ dir eb)
             (\<lambda>((profile, k), eb). Inr (Strict profile k, sb\<lparr>sb_enhanced := Some eb\<rparr>)))
       | VM \<Rightarrow> Inl VmNotImplemented))"

text \<open>The environment a process sees.\<close>

definition child_environment :: "bytes btree \<Rightarrow> process_command \<Rightarrow> bytes \<rightharpoonup> bytes" where
  "child_environment ambient pc = (if pc_clear pc then Map.empty else map_of ambient) ++ map_of (pc_env pc)"

section \<open>Waiting for a command\<close>

text \<open>The child at each poll, and whether it can be reaped once killed. Without a deadline the wait is the one of
  \<open>Command::output\<close>, which may never end.\<close>

datatype poll_result = Running | Exited "32 word option" | WaitError

partial_function (option) poll_child ::
  "(nat \<Rightarrow> poll_result) \<Rightarrow> (nat \<Rightarrow> nat) \<Rightarrow> bool option \<Rightarrow> nat option \<Rightarrow> nat \<Rightarrow> (sandbox_error, 32 word option \<times> bool) result option" where
  "poll_child child clock reaped deadline i =
     (case child i of
        Exited code \<Rightarrow> Some (Inr (code, False))
      | WaitError \<Rightarrow> Some (Inl WaitFailed)
      | Running \<Rightarrow>
          (if (case deadline of Some d \<Rightarrow> d \<le> clock i | None \<Rightarrow> False)
           then map_option (\<lambda>ok. if ok then Inr (None, True) else Inl WaitFailed) reaped
           else poll_child child clock reaped deadline (Suc i)))"

record timed_output =
  to_exit_code :: "32 word"
  to_stdout :: bytes
  to_stderr :: bytes

definition timeout_note :: "bytes \<Rightarrow> u64 \<Rightarrow> bytes" where
  "timeout_note err secs =
     (if err \<noteq> [] \<and> \<not> ends_with err [CHR 0x0A] then err @ [CHR 0x0A] else err) @
     ''command timed out after '' @ show_nat (unat secs) @ ''s and was killed'' @ [CHR 0x0A]"

text \<open>
  A started command: what it is found doing at each poll and the seconds since the start then; whether it could be reaped after it
  was killed (\<open>None\<close> if that wait does not return); and what is read from each of its pipes up to the end of the stream,
  \<open>None\<close> if the end never comes because some process keeps the pipe open.
\<close>

record process_run =
  pr_spawned :: bool
  pr_child :: "nat \<Rightarrow> poll_result"
  pr_clock :: "nat \<Rightarrow> nat"
  pr_reaped :: "bool option"
  pr_stdout :: "bytes option"
  pr_stderr :: "bytes option"

definition poll_process :: "process_run \<Rightarrow> u64 option \<Rightarrow> (sandbox_error, 32 word option \<times> bool) result option" where
  "poll_process pr timeout = poll_child (pr_child pr) (pr_clock pr) (pr_reaped pr) (map_option unat timeout) 0"

text \<open>Both pipes are read to their end: without a timeout before the exit status is asked for, with one after the polls are over. \<open>None\<close>
  is a call that does not return.\<close>

definition run_with_timeout :: "(bytes \<Rightarrow> bytes) \<Rightarrow> process_run \<Rightarrow> u64 option \<Rightarrow> (sandbox_error, timed_output) result option" where
  "run_with_timeout lossy pr timeout =
     (if \<not> pr_spawned pr then Some (Inl SpawnFailed)
      else if timeout = None \<and> (pr_stdout pr = None \<or> pr_stderr pr = None) then None
      else (case poll_process pr timeout of
          None \<Rightarrow> None
        | Some (Inl e) \<Rightarrow> Some (Inl e)
        | Some (Inr (code, timed_out)) \<Rightarrow>
            Option.bind (pr_stdout pr) (\<lambda>out. Option.bind (pr_stderr pr) (\<lambda>err.
            Some (Inr \<lparr>to_exit_code = (if timed_out then 124 else case code of Some c \<Rightarrow> c | None \<Rightarrow> - 1), to_stdout = lossy out,
              to_stderr = (if timed_out then timeout_note (lossy err) (the timeout) else lossy err)\<rparr>)))))"

section \<open>The report\<close>

definition control :: "bytes \<Rightarrow> control_status \<Rightarrow> bytes \<Rightarrow> isolation_control" where
  "control name status detail = \<lparr>control_name = name, control_status = status, control_detail = detail\<rparr>"

definition environment_control :: "bool \<Rightarrow> isolation_control" where
  "environment_control hermetic =
     (if hermetic then control ''environment'' Enforced ''ambient environment not inherited; SOURCE_DATE_EPOCH, TZ and LC_ALL normalized''
      else control ''environment'' NotEnforced (''the runner'' @ [CHR 0x27] @ ''s environment is inherited''))"

definition unisolated_report :: "bytes \<Rightarrow> bool \<Rightarrow> isolation_report" where
  "unisolated_report platform hermetic =
     \<lparr>iso_mode = ''none'', iso_platform = platform, iso_controls =
       [control ''network'' NotEnforced ''steps run as ordinary processes'',
        control ''filesystem'' NotEnforced ''steps see the whole filesystem'',
        control ''capabilities'' NotEnforced (''steps keep the runner'' @ [CHR 0x27] @ ''s privileges''),
        environment_control hermetic,
        control ''memory'' NotEnforced ''no limit'', control ''open-files'' NotEnforced ''no limit'',
        control ''cpu'' NotEnforced ''no limit'', control ''timeout'' NotEnforced ''no limit''],
      iso_capsule_steps = []\<rparr>"

definition rlimit_control :: "sandbox_env \<Rightarrow> bytes \<Rightarrow> bool \<Rightarrow> bytes \<Rightarrow> isolation_control" where
  "rlimit_control x name is_set what =
     (if \<not> sx_unix x then control name NotAvailable (what @ '' needs a Unix rlimit; none on '' @ sx_platform x)
      else if is_set then control name Enforced (what @ '' via setrlimit before exec'')
      else control name NotEnforced ''no limit configured'')"

definition policy_name :: "network_policy \<Rightarrow> bytes" where
  "policy_name net = (case net of NetDisabled \<Rightarrow> ''disabled'' | NetRestricted \<Rightarrow> ''restricted'' | NetFull \<Rightarrow> ''full'')"

definition network_control :: "network_policy \<Rightarrow> isolation_control" where
  "network_control net =
     (if net = NetDisabled then control ''network'' Enforced ''container run with --network none''
      else control ''network'' NotEnforced (''container run with a '' @ [CHR 0x27] @ policy_name net @ [CHR 0x27] @ '' network''))"

definition limit_control :: "bytes \<Rightarrow> bool \<Rightarrow> bytes \<Rightarrow> isolation_control" where
  "limit_control name is_set detail = (if is_set then control name Enforced detail else control name NotEnforced ''no limit configured'')"

definition process_controls :: "sandbox_env \<Rightarrow> sandbox_config \<Rightarrow> bool \<Rightarrow> isolation_control list" where
  "process_controls x c hermetic =
     [control ''network'' NotEnforced (''process isolation has no network control; the configured policy '' @ [CHR 0x27] @
        policy_name (network_policy c) @ [CHR 0x27] @ '' is not applied, steps can reach the network''),
      control ''filesystem'' NotEnforced ''process isolation has no filesystem control; steps see the whole filesystem'',
      control ''capabilities'' NotEnforced (''no seccomp or capability drop outside a container; steps keep the runner'' @ [CHR 0x27] @ ''s privileges''),
      environment_control (hermetic \<and> \<not> inherit_environment c),
      rlimit_control x ''memory'' (memory_mb (resource_limits c) \<noteq> None) ''RLIMIT_AS'',
      rlimit_control x ''open-files'' (max_files (resource_limits c) \<noteq> None) ''RLIMIT_NOFILE'',
      control ''cpu'' NotEnforced ''advisory only; no portable per-process core cap'',
      if limit_timeout_secs (resource_limits c) \<noteq> None then control ''timeout'' Enforced ''the step is killed when its timeout elapses''
      else control ''timeout'' NotEnforced ''no sandbox-level timeout; per-step timeouts apply when declared'']"

definition container_controls :: "sandbox_config \<Rightarrow> isolation_control list" where
  "container_controls c =
     [network_control (network_policy c),
      control ''filesystem'' NotEnforced (''the workspace is mounted writable; the root filesystem is the image'' @ [CHR 0x27] @ ''s''),
      control ''capabilities'' NotEnforced (''the runtime'' @ [CHR 0x27] @ ''s default capability set; no seccomp profile passed''),
      control ''environment'' Enforced ''only declared variables reach the container'',
      limit_control ''memory'' (memory_mb (resource_limits c) \<noteq> None) ''container run with --memory'',
      control ''open-files'' NotEnforced (''the runtime'' @ [CHR 0x27] @ ''s default''),
      limit_control ''cpu'' (cpu_cores (resource_limits c) \<noteq> None) ''container run with --cpus'',
      limit_control ''timeout'' (limit_timeout_secs (resource_limits c) \<noteq> None) ''the container is stopped when its timeout elapses'']"

definition strict_controls :: "sandbox_config \<Rightarrow> isolation_control list" where
  "strict_controls c =
     (let hardened = security_level c \<noteq> Minimal;
          profile = [CHR 0x27] @ (case seccomp_profile c of Some p \<Rightarrow> p | None \<Rightarrow> ''minimal'') @ [CHR 0x27] in
      [network_control (network_policy c),
       if hardened then control ''filesystem'' Enforced ''--read-only root with a noexec tmpfs; the workspace mount stays writable''
       else control ''filesystem'' NotEnforced ''minimal security level: the root filesystem is writable'',
       control ''capabilities'' Enforced
         (''seccomp profile '' @ profile @ (if hardened then '', --cap-drop ALL, no-new-privileges'' else [])),
       control ''environment'' Enforced ''only declared variables reach the container'',
       limit_control ''memory'' (memory_mb (resource_limits c) \<noteq> None) ''container run with --memory'',
       if security_level c = Maximum then control ''open-files'' Enforced ''--ulimit nofile=1024''
       else control ''open-files'' NotEnforced (''the runtime'' @ [CHR 0x27] @ ''s default''),
       limit_control ''cpu'' (cpu_cores (resource_limits c) \<noteq> None) ''container run with --cpus'',
       limit_control ''timeout'' (limit_timeout_secs (resource_limits c) \<noteq> None) ''the container is stopped when its timeout elapses''])"

definition sandbox_report :: "sandbox_env \<Rightarrow> sandbox \<Rightarrow> bool \<Rightarrow> isolation_report" where
  "sandbox_report x sb hermetic =
     (let c = sb_config sb; report = (\<lambda>mode rows. \<lparr>iso_mode = mode, iso_platform = sx_platform x, iso_controls = rows, iso_capsule_steps = []\<rparr>) in
      (case isolation_level c of
         NoIsolation \<Rightarrow> unisolated_report (sx_platform x) hermetic
       | VM \<Rightarrow> unisolated_report (sx_platform x) hermetic
       | ProcessIsolation \<Rightarrow> report ''process'' (process_controls x c hermetic)
       | ContainerIsolation \<Rightarrow> report ''container'' (container_controls c)
       | StrictContainer \<Rightarrow> report ''strict-container'' (strict_controls c)))"

definition has_enhanced_security :: "sandbox \<Rightarrow> bool" where
  "has_enhanced_security sb \<longleftrightarrow> sb_enhanced sb \<noteq> None \<or> isolation_level (sb_config sb) = StrictContainer"

definition get_violation_stats :: "sandbox \<Rightarrow> nat \<times> bytes list" where
  "get_violation_stats sb = (case sb_enhanced sb of
       Some eb \<Rightarrow> (length (vl_violations (eb_violations eb)), map sv_syscall (vl_violations (eb_violations eb)))
     | None \<Rightarrow> (length (vl_violations (sb_violations sb)), []))"

definition get_seccomp_profile_info :: "sandbox \<Rightarrow> bytes option" where
  "get_seccomp_profile_info sb =
     map_option (\<lambda>p. profile_name p @ '' ('' @ profile_description p @ '')'') (get_current_profile (sb_seccomp sb))"

section \<open>A timeout is kept\<close>

text \<open>What a poll that is not left alone gives.\<close>

definition poll_outcome :: "bool option \<Rightarrow> poll_result \<Rightarrow> (sandbox_error, 32 word option \<times> bool) result option" where
  "poll_outcome reaped r = (case r of
       Exited code \<Rightarrow> Some (Inr (code, False))
     | WaitError \<Rightarrow> Some (Inl WaitFailed)
     | Running \<Rightarrow> map_option (\<lambda>ok. if ok then Inr (None, True) else Inl WaitFailed) reaped)"

lemma poll_outcome_returns: "reaped \<noteq> None \<Longrightarrow> poll_outcome reaped r \<noteq> None"
  by (cases r) (auto simp: poll_outcome_def)

lemma poll_child_ends:
  assumes "d \<le> clock (i + n)" "\<forall>j < n. clock (i + j) < d"
  shows "\<exists>k \<le> n. (\<forall>j < k. child (i + j) = Running) \<and>
    poll_child child clock reaped (Some d) i = poll_outcome reaped (child (i + k)) \<and> (child (i + k) = Running \<longrightarrow> k = n)"
  using assms
proof (induction n arbitrary: i)
  case 0
  then show ?case by (subst poll_child.simps) (auto simp: poll_outcome_def split: poll_result.splits)
next
  case (Suc n)
  show ?case
  proof (cases "child i = Running")
    case True
    have lt: "clock i < d" using Suc.prems(2) by (metis add_0_right zero_less_Suc)
    have "\<forall>j < n. clock (Suc i + j) < d" using Suc.prems(2) by (metis Suc_less_eq add_Suc_shift)
    moreover have "d \<le> clock (Suc i + n)" using Suc.prems(1) by simp
    ultimately obtain k where k: "k \<le> n" "\<forall>j < k. child (Suc i + j) = Running"
        "poll_child child clock reaped (Some d) (Suc i) = poll_outcome reaped (child (Suc i + k))" "child (Suc i + k) = Running \<longrightarrow> k = n"
      using Suc.IH by blast
    have "poll_child child clock reaped (Some d) i = poll_child child clock reaped (Some d) (Suc i)"
      using True lt by (subst poll_child.simps) simp
    moreover have "\<forall>j < Suc k. child (i + j) = Running" using True k(2) less_Suc_eq_0_disj by auto
    ultimately show ?thesis using k by (intro exI [of _ "Suc k"]) simp
  next
    case False
    then show ?thesis by (intro exI [of _ 0]) (subst poll_child.simps, auto simp: poll_outcome_def split: poll_result.splits)
  qed
qed

lemma poll_child_exits:
  assumes "child (i + n) \<noteq> Running" "reaped \<noteq> None"
  shows "poll_child child clock reaped deadline i \<noteq> None"
  using assms
proof (induction n arbitrary: i)
  case 0
  then show ?case by (subst poll_child.simps) (auto split: poll_result.splits)
next
  case (Suc n)
  from Suc.IH [of "Suc i"] Suc.prems show ?case by (subst poll_child.simps) (auto split: poll_result.splits)
qed

text \<open>A call without a deadline never kills.\<close>

lemma poll_child_unlimited:
  assumes "child (i + n) \<noteq> Running"
  shows "poll_child child clock reaped None i \<noteq> None"
  using assms
proof (induction n arbitrary: i)
  case 0
  then show ?case by (subst poll_child.simps) (auto split: poll_result.splits)
next
  case (Suc n)
  from Suc.IH [of "Suc i"] Suc.prems show ?case by (subst poll_child.simps) (auto split: poll_result.splits)
qed

text \<open>
  C39. What a timeout bounds, and what it does not. Let \<open>n\<close> be the first poll at or after the deadline. The polls are over by \<open>n\<close>,
  whatever the child does: there is a \<open>k \<le> n\<close> up to which the child was found running, and the child is killed exactly if it was
  running at \<open>n\<close>, too. If it ended before, the outcome has its own exit code; if it was killed, the code is 124 and a note is
  added to standard error. But the call returns only if the killed child can be reaped and, unless waiting failed, both pipes come to
  their end: when a process that outlives the kill keeps one open, the call does not return, though the deadline has passed.
\<close>

theorem run_with_timeout_spec:
  assumes "pr_spawned pr" "unat t \<le> pr_clock pr n" "\<forall>j < n. pr_clock pr j < unat t"
  shows "\<exists>k \<le> n. (\<forall>j < k. pr_child pr j = Running) \<and> (pr_child pr k = Running \<longrightarrow> k = n) \<and>
    run_with_timeout lossy pr (Some t) = (case pr_child pr k of
        WaitError \<Rightarrow> Some (Inl WaitFailed)
      | Exited code \<Rightarrow> (case (pr_stdout pr, pr_stderr pr) of
            (Some out, Some err) \<Rightarrow> Some (Inr \<lparr>to_exit_code = (case code of Some c \<Rightarrow> c | None \<Rightarrow> - 1), to_stdout = lossy out, to_stderr = lossy err\<rparr>)
          | _ \<Rightarrow> None)
      | Running \<Rightarrow> (case (pr_reaped pr, pr_stdout pr, pr_stderr pr) of
            (Some False, _, _) \<Rightarrow> Some (Inl WaitFailed)
          | (Some True, Some out, Some err) \<Rightarrow> Some (Inr \<lparr>to_exit_code = 124, to_stdout = lossy out, to_stderr = timeout_note (lossy err) t\<rparr>)
          | _ \<Rightarrow> None))"
proof -
  obtain k where k: "k \<le> n" "\<forall>j < k. pr_child pr j = Running"
      "poll_process pr (Some t) = poll_outcome (pr_reaped pr) (pr_child pr k)" "pr_child pr k = Running \<longrightarrow> k = n"
    using poll_child_ends [of "unat t" "pr_clock pr" 0 n "pr_child pr" "pr_reaped pr"] assms by (auto simp: poll_process_def)
  have "run_with_timeout lossy pr (Some t) = (case pr_child pr k of
        WaitError \<Rightarrow> Some (Inl WaitFailed)
      | Exited code \<Rightarrow> (case (pr_stdout pr, pr_stderr pr) of
            (Some out, Some err) \<Rightarrow> Some (Inr \<lparr>to_exit_code = (case code of Some c \<Rightarrow> c | None \<Rightarrow> - 1), to_stdout = lossy out, to_stderr = lossy err\<rparr>)
          | _ \<Rightarrow> None)
      | Running \<Rightarrow> (case (pr_reaped pr, pr_stdout pr, pr_stderr pr) of
            (Some False, _, _) \<Rightarrow> Some (Inl WaitFailed)
          | (Some True, Some out, Some err) \<Rightarrow> Some (Inr \<lparr>to_exit_code = 124, to_stdout = lossy out, to_stderr = timeout_note (lossy err) t\<rparr>)
          | _ \<Rightarrow> None))"
  proof (cases "pr_child pr k")
    case Running
    consider "pr_reaped pr = None" | "pr_reaped pr = Some True" | "pr_reaped pr = Some False" by (cases "pr_reaped pr") auto
    then show ?thesis using assms(1) unfolding run_with_timeout_def k(3) poll_outcome_def Running
      by cases (cases "pr_stdout pr"; cases "pr_stderr pr"; simp)+
  qed (cases "pr_stdout pr"; cases "pr_stderr pr"; use assms(1) in \<open>simp add: run_with_timeout_def k(3) poll_outcome_def\<close>)+
  with k show ?thesis by blast
qed

text \<open>A child that never ends is killed after two seconds; with a pipe kept open the call never returns.\<close>

definition example_endless :: "bytes option \<Rightarrow> process_run" where
  "example_endless err = \<lparr>pr_spawned = True, pr_child = (\<lambda>_. Running), pr_clock = id, pr_reaped = Some True, pr_stdout = Some [], pr_stderr = err\<rparr>"

theorem run_with_timeout_spec_witness:
  "run_with_timeout id (example_endless (Some ''e'')) (Some 2) =
     Some (Inr \<lparr>to_exit_code = 124, to_stdout = [], to_stderr = timeout_note ''e'' 2\<rparr>) \<and>
   run_with_timeout id (example_endless None) (Some 2) = None"
  using run_with_timeout_spec [of "example_endless (Some ''e'')" 2 2 id] run_with_timeout_spec [of "example_endless None" 2 2 id]
  by (auto simp: example_endless_def)

text \<open>When a call returns: the command cannot be started, or its pipes come to an end and it exits by itself or has a timeout that
  passes, after which it can be reaped.\<close>

definition command_settles :: "u64 option \<Rightarrow> process_run \<Rightarrow> bool" where
  "command_settles timeout pr \<longleftrightarrow> pr_spawned pr \<longrightarrow> pr_stdout pr \<noteq> None \<and> pr_stderr pr \<noteq> None \<and>
     (case timeout of
        None \<Rightarrow> \<exists>k. pr_child pr k \<noteq> Running
      | Some t \<Rightarrow> pr_reaped pr \<noteq> None \<and> ((\<exists>k. pr_child pr k \<noteq> Running) \<or> (\<exists>n. unat t \<le> pr_clock pr n)))"

lemma command_settles_returns:
  assumes "command_settles timeout pr"
  shows "run_with_timeout lossy pr timeout \<noteq> None"
proof (cases "pr_spawned pr")
  case True
  then have pipes: "pr_stdout pr \<noteq> None" "pr_stderr pr \<noteq> None" using assms by (simp_all add: command_settles_def)
  have "poll_process pr timeout \<noteq> None"
  proof (cases timeout)
    case None
    then show ?thesis using assms True poll_child_unlimited [of "pr_child pr" 0] by (auto simp: command_settles_def poll_process_def)
  next
    case (Some t)
    then consider k where "pr_child pr k \<noteq> Running" "pr_reaped pr \<noteq> None" | n where "unat t \<le> pr_clock pr n" "pr_reaped pr \<noteq> None"
      using assms True by (auto simp: command_settles_def)
    then show ?thesis
    proof cases
      case (1 k)
      then show ?thesis using poll_child_exits [of "pr_child pr" 0] by (simp add: poll_process_def)
    next
      case (2 n)
      define m where "m = (LEAST n. unat t \<le> pr_clock pr n)"
      have "unat t \<le> pr_clock pr (0 + m)" "\<forall>j < m. pr_clock pr (0 + j) < unat t"
        unfolding m_def using 2(1) by (auto intro: LeastI dest: not_less_Least)
      from poll_child_ends [OF this, of "pr_child pr" "pr_reaped pr"] obtain k where
        "poll_process pr timeout = poll_outcome (pr_reaped pr) (pr_child pr k)" by (auto simp: poll_process_def Some)
      then show ?thesis using poll_outcome_returns [OF 2(2)] by simp
    qed
  qed
  with pipes True show ?thesis by (auto simp: run_with_timeout_def split: option.splits sum.splits)
qed (simp add: run_with_timeout_def)

section \<open>Environments\<close>

lemma hash_extend_ok: "btree_ok m \<Longrightarrow> btree_ok (hash_extend m es)"
  and map_of_hash_extend: "btree_ok m \<Longrightarrow> map_of (hash_extend m es) = map_of m ++ map_of (rev es)"
  using env_extend [of m es] by (simp_all add: hash_extend_def)

lemma map_of_hash_extend_btree: "btree_ok m \<Longrightarrow> btree_ok es \<Longrightarrow> map_of (hash_extend m es) = map_of m ++ map_of es"
  by (simp add: map_of_hash_extend map_of_rev_distinct btree_ok_def strict_sorted_iff)

lemma btree_ok_Nil [simp]: "btree_ok []" by (simp add: btree_ok_def)

lemma time_variables_ok: "btree_ok (time_variables x sb)"
  by (simp add: time_variables_def environment_variables_def hash_extend_ok Let_def split: option.splits)

lemma ambient_path_ok: "btree_ok (ambient_path x)"
  by (simp add: ambient_path_def btree_ok_def split: option.splits)

lemma time_variables_no_path: "map_of (time_variables x sb) ''PATH'' = None"
  by (simp add: time_variables_def environment_variables_def map_of_hash_extend Let_def split: option.splits)

text \<open>
  C40. A hermetic step sees nothing of the runner but its \<open>PATH\<close>. When a sandbox does not inherit the environment, the
  process of a step, isolated or not, has the same environment for any two ambient environments that agree on
  \<open>PATH\<close>, and the ambient \<open>PATH\<close> does not replace a declared one.
\<close>

theorem hermetic_environment:
  assumes "\<not> inherit_environment (sb_config sb)" "map_of (sx_ambient x) ''PATH'' = map_of ambient ''PATH''"
    "isolation_level (sb_config sb) = NoIsolation \<or> isolation_level (sb_config sb) = ProcessIsolation" "btree_ok environ"
  shows "\<exists>pc pc'. execute_with_timeout x fresh now command args environ dir t sb = Inr (Process pc, sb) \<and>
    execute_with_timeout (x\<lparr>sx_ambient := ambient\<rparr>) fresh now command args environ dir t sb = Inr (Process pc', sb) \<and>
    child_environment (sx_ambient x) pc = child_environment ambient pc' \<and>
    (contains_key environ ''PATH'' \<longrightarrow> child_environment (sx_ambient x) pc ''PATH'' = map_of environ ''PATH'')"
proof -
  let ?y = "x\<lparr>sx_ambient := ambient\<rparr>"
  let ?t = "merge_timeout t (limit_timeout_secs (resource_limits (sb_config sb)))"
  have path: "ambient_path ?y = ambient_path x" using assms(2) by (simp add: ambient_path_def)
  have time: "time_variables ?y sb = time_variables x sb" by (cases "sb_time sb") (simp_all add: time_variables_def)
  have direct: "map_of (pc_env (execute_direct x sb command args environ dir ?t)) ''PATH'' = map_of environ ''PATH''"
    if "contains_key environ ''PATH''" using assms(1,4) that
    by (auto simp: execute_direct_def Let_def map_of_hash_extend_btree hash_extend_ok time_variables_ok ambient_path_ok time_variables_no_path
        contains_key_def map_add_def)
  have "map_of (hash_extend (time_variables x sb) environ) ''PATH'' = map_of environ ''PATH''" if "contains_key environ ''PATH''"
    using assms(4) that by (auto simp: map_of_hash_extend_btree time_variables_ok contains_key_def map_add_def)
  then have isolated: "map_of (pc_env (execute_unix_isolated x sb command args environ dir ?t)) ''PATH'' = map_of environ ''PATH''"
    if "contains_key environ ''PATH''" using assms(1) that by (auto simp: execute_unix_isolated_def Let_def contains_key_def)
  have env: "child_environment a pc = map_of (pc_env pc)" if "pc_clear pc" for a pc using that by (simp add: child_environment_def)
  have clear: "pc_clear (execute_direct x sb command args environ dir ?t)" "pc_clear (execute_unix_isolated x sb command args environ dir ?t)"
    using assms(1) by (simp_all add: execute_direct_def execute_unix_isolated_def Let_def)
  have same: "execute_direct ?y sb command args environ dir ?t = execute_direct x sb command args environ dir ?t"
    "execute_unix_isolated ?y sb command args environ dir ?t = execute_unix_isolated x sb command args environ dir ?t"
    using assms(1) by (simp_all add: execute_direct_def execute_unix_isolated_def path time Let_def)
  let ?run = "\<lambda>pc. \<exists>pc'. execute_with_timeout x fresh now command args environ dir t sb = Inr (Process pc, sb) \<and>
    execute_with_timeout ?y fresh now command args environ dir t sb = Inr (Process pc', sb) \<and>
    child_environment (sx_ambient x) pc = child_environment ambient pc' \<and>
    (contains_key environ ''PATH'' \<longrightarrow> child_environment (sx_ambient x) pc ''PATH'' = map_of environ ''PATH'')"
  from assms(3) have "?run (execute_direct x sb command args environ dir ?t) \<or> ?run (execute_unix_isolated x sb command args environ dir ?t)"
    by (elim disjE; cases "sx_unix x")
      (simp_all add: execute_with_timeout_def same env [OF clear(1)] env [OF clear(2)] direct isolated)
  then show ?thesis by blast
qed

definition example_sandbox_env :: sandbox_env where
  "example_sandbox_env = \<lparr>sx_unix = True, sx_platform = ''linux'', sx_which = Some, sx_verifier = None,
     sx_ambient = [(''HOME'', ''/root''), (''PATH'', ''/bin'')], sx_format = (\<lambda>p _. p), sx_rfc3339 = show_int, sx_json = csp_default,
     sx_canon = Some, sx_lower = id, sx_lossy = id, sx_order = id\<rparr>"

theorem hermetic_environment_witness:
  "\<exists>sb pc. sandbox_new example_sandbox_env (default_sandbox_config\<lparr>inherit_environment := False\<rparr>) = Inr sb \<and>
     execute_with_timeout example_sandbox_env ([], []) 0 ''sh'' [] [(''PATH'', ''/opt'')] None None sb = Inr (Process pc, sb) \<and>
     child_environment (sx_ambient example_sandbox_env) pc ''PATH'' = Some ''/opt''"
proof -
  let ?c = "default_sandbox_config\<lparr>inherit_environment := False\<rparr>"
  have m: "is_ok (set_profile ''minimal'' seccomp_new)" by (simp add: set_profile_def seccomp_new_def contains_key_def map_of_btree_insert)
  obtain sb where sb: "sandbox_new example_sandbox_env ?c = Inr sb" "sb_config sb = ?c"
    using m by (auto simp: sandbox_new_def sandbox_containers_def default_sandbox_config_def is_ok_iff)
  have "\<not> inherit_environment (sb_config sb)" "isolation_level (sb_config sb) = NoIsolation \<or> isolation_level (sb_config sb) = ProcessIsolation"
    "btree_ok [(''PATH'', ''/opt'')]" "contains_key [(''PATH'', ''/opt'')] ''PATH''"
    by (simp_all add: sb default_sandbox_config_def btree_ok_def contains_key_def)
  with hermetic_environment [of sb example_sandbox_env "[(''PATH'', ''/bin'')]" "[(''PATH'', ''/opt'')]" "([], [])" 0 "''sh''" "[]" None None] sb(1)
  show ?thesis by (auto simp: example_sandbox_env_def)
qed

section \<open>What the report says is what was applied\<close>

text \<open>
  What stands behind a row of the report. A process carries the configured limits; a container is started by a command line
  whose options come before anything the pipeline or the configuration contributes. The options are written out here:
  a container has 512 megabytes and one core, a strict container what its level gives it, whatever the configuration says.
\<close>

definition container_options :: "bytes \<Rightarrow> bytes list" where
  "container_options cid = [''run'', ''--rm'', ''--name'', cid, ''--network'', ''none'', ''--memory'', ''512m'', ''--cpus'', ''1'']"

definition strict_options :: "container_runtime \<Rightarrow> security_level \<Rightarrow> network_policy \<Rightarrow> bytes \<Rightarrow> bytes \<Rightarrow> bytes list" where
  "strict_options runtime level net cid file =
     [''run'', ''--rm'', ''--name'', cid, ''--network'', if net = NetDisabled then ''none'' else ''bridge'', ''--security-opt'', ''seccomp='' @ file] @
     (if level = Minimal then []
      else [''--security-opt'', if runtime = Docker then ''no-new-privileges:true'' else ''no-new-privileges'', ''--cap-drop'', ''ALL'', ''--read-only'',
        ''--tmpfs'', ''/tmp:rw,noexec,nosuid,size=100m'']) @
     (if level = Maximum \<and> runtime = Docker then [''--security-opt'', ''apparmor:docker-default'', ''--pids-limit'', ''100'',
        ''--ulimit'', ''nofile=1024:1024'', ''--ulimit'', ''nproc=64:64''] else []) @
     (case level of Minimal \<Rightarrow> [''--memory'', ''1024m'', ''--cpus'', ''2''] | Standard \<Rightarrow> [''--memory'', ''512m'', ''--cpus'', ''1'']
      | Maximum \<Rightarrow> [''--memory'', ''256m'', ''--cpus'', ''0.5''])"

definition strict_timeout :: "security_level \<Rightarrow> u64" where
  "strict_timeout level = (case level of Minimal \<Rightarrow> 600 | Standard \<Rightarrow> 300 | Maximum \<Rightarrow> 120)"

fun row_in_force :: "sandbox_env \<Rightarrow> bytes \<times> bytes \<Rightarrow> sandbox_config \<Rightarrow> bytes btree \<Rightarrow> bytes \<Rightarrow> launch \<Rightarrow> bool" where
  "row_in_force x fresh c environ name (Process pc) \<longleftrightarrow>
     (name = ''memory'' \<and> (\<exists>mb. memory_mb (resource_limits c) = Some mb \<and> pc_memory pc = Some (mb * 1024 * 1024))) \<or>
     (name = ''open-files'' \<and> (\<exists>n. max_files (resource_limits c) = Some n \<and> pc_files pc = Some n)) \<or>
     (name = ''timeout'' \<and> (\<exists>t s. limit_timeout_secs (resource_limits c) = Some t \<and> pc_timeout pc = Some s \<and> s \<le> t)) \<or>
     (name = ''environment'' \<and> pc_clear pc)"
| "row_in_force x fresh c environ name (Container k) \<longleftrightarrow>
     (\<exists>cc rest. container_config c = Some cc \<and> kc_timeout k = 300 \<and>
        kc_args k = container_options (''attest-'' @ fst fresh) @ env_args (sx_order x (hash_extend environ (cc_environment cc))) @ rest \<and>
        name \<in> {''network'', ''memory'', ''cpu'', ''timeout'', ''environment''})"
| "row_in_force x fresh c environ name (Strict profile k) \<longleftrightarrow>
     (\<exists>cc rest. container_config c = Some cc \<and> kc_timeout k = strict_timeout (security_level c) \<and>
        generate_container_profile (sx_json x) (level_name (security_level c)) seccomp_new = Inr profile \<and>
        kc_args k = strict_options (cc_runtime cc) (security_level c) (network_policy c) (''attest-secure-'' @ fst fresh) (snd fresh @ ''/seccomp-profile.json'') @
          env_args (sx_order x (create_secure_environment (security_level c) environ)) @ rest \<and>
        (name \<in> {''capabilities'', ''memory'', ''cpu'', ''timeout'', ''environment''} \<or> name = ''network'' \<and> network_policy c = NetDisabled \<or>
         name = ''filesystem'' \<and> security_level c \<noteq> Minimal \<or> name = ''open-files'' \<and> security_level c = Maximum \<and> cc_runtime cc = Docker))"

lemma control_sel: "control_name (control n s d) = n" "control_status (control n s d) = s"
  by (simp_all add: control_def)

text \<open>The rows that may be reported as enforced, for each mode.\<close>

definition enforced_ok :: "(bytes \<times> bool) list \<Rightarrow> isolation_control \<Rightarrow> bool" where
  "enforced_ok spec row \<longleftrightarrow> control_status row \<noteq> Enforced \<or> (control_name row, True) \<in> set spec"

lemma enforced_ok_control: "enforced_ok spec (control n s d) \<longleftrightarrow> s \<noteq> Enforced \<or> (n, True) \<in> set spec"
  by (simp only: enforced_ok_def control_sel)

lemma enforced_ok_if: "enforced_ok spec (if b then u else v) \<longleftrightarrow> (b \<longrightarrow> enforced_ok spec u) \<and> (\<not> b \<longrightarrow> enforced_ok spec v)"
  by simp

lemma container_enforced:
  "list_all (enforced_ok [(''network'', network_policy c = NetDisabled), (''environment'', True), (''memory'', True), (''cpu'', True), (''timeout'', True)])
     (container_controls c)"
  unfolding container_controls_def network_control_def limit_control_def list.pred_inject enforced_ok_if enforced_ok_control by simp

lemma strict_enforced:
  "list_all (enforced_ok [(''network'', network_policy c = NetDisabled), (''filesystem'', security_level c \<noteq> Minimal), (''capabilities'', True),
     (''environment'', True), (''memory'', True), (''open-files'', security_level c = Maximum), (''cpu'', True), (''timeout'', True)])
     (strict_controls c)"
  unfolding strict_controls_def Let_def network_control_def limit_control_def list.pred_inject enforced_ok_if enforced_ok_control by simp

lemma process_enforced:
  "list_all (enforced_ok [(''environment'', hermetic \<and> \<not> inherit_environment c), (''memory'', memory_mb (resource_limits c) \<noteq> None \<and> sx_unix x),
     (''open-files'', max_files (resource_limits c) \<noteq> None \<and> sx_unix x), (''timeout'', limit_timeout_secs (resource_limits c) \<noteq> None)])
     (process_controls x c hermetic)"
  unfolding process_controls_def environment_control_def rlimit_control_def list.pred_inject enforced_ok_if enforced_ok_control by simp

lemma unisolated_enforced: "list_all (enforced_ok [(''environment'', hermetic)]) (iso_controls (unisolated_report platform hermetic))"
  unfolding unisolated_report_def isolation_report.select_convs environment_control_def list.pred_inject enforced_ok_if enforced_ok_control by simp

text \<open>The command lines as far as the code alone determines them.\<close>

lemma container_line:
  assumes "runtime = Docker \<or> runtime = Podman"
  shows "\<exists>rest. run_container_args runtime (container_run_config_of uuid order cc command args environ dir) =
    container_options (''attest-'' @ uuid) @ env_args (order (hash_extend environ (cc_environment cc))) @ rest"
  using assms
  by (elim disjE) (simp_all add: run_container_args_def docker_args_def podman_args_def container_options_def container_run_config_of_def limit_args_def
      show_nat.simps digit_char_def char_of_def bit_0)

lemma create_limits:
  "limit_args (create_resource_limits level) = (case level of Minimal \<Rightarrow> [''--memory'', ''1024m'', ''--cpus'', ''2'']
     | Standard \<Rightarrow> [''--memory'', ''512m'', ''--cpus'', ''1''] | Maximum \<Rightarrow> [''--memory'', ''256m'', ''--cpus'', ''0.5''])"
  "command_timeout (create_resource_limits level) = strict_timeout level"
  by (cases level; simp add: limit_args_def create_resource_limits_def show_nat.simps digit_char_def char_of_def bit_0)
    (cases level; simp add: command_timeout_def create_resource_limits_def strict_timeout_def)

lemma strict_line:
  assumes "rc_limits rc = create_resource_limits level" "rc_network_mode rc = get_network_mode net"
  shows "docker_seccomp_args level file rc = strict_options Docker level net (rc_container_id rc) file @ env_args (rc_environment rc) @
      volume_args (rc_volumes rc) @ flag_arg ''-w'' (rc_working_dir rc) @ flag_arg ''--user'' (rc_user rc) @ [rc_image rc, rc_command rc] @ rc_args rc"
    and "podman_seccomp_args level file rc = strict_options Podman level net (rc_container_id rc) file @ env_args (rc_environment rc) @
      volume_args (rc_volumes rc) @ flag_arg ''-w'' (rc_working_dir rc) @ flag_arg ''--user'' (rc_user rc) @ [rc_image rc, rc_command rc] @ rc_args rc"
  by (cases net; simp add: docker_seccomp_args_def podman_seccomp_args_def add_standard_docker_config_def hardening_args_def strict_options_def assms
      create_limits get_network_mode_def)+

lemma enforced_in:
  assumes "list_all (enforced_ok spec) rows" "row \<in> set rows" "control_status row = Enforced"
  shows "(control_name row, True) \<in> set spec"
  using assms by (auto simp: list_all_iff enforced_ok_def)

lemma builtin_profile:
  "get_current_profile (seccomp_new\<lparr>sm_current := Some (level_name level)\<rparr>) = Some p \<Longrightarrow> profile_name p = level_name level"
  by (cases level) (auto simp: get_current_profile_def seccomp_new_def level_name_def map_of_btree_insert minimal_profile_def standard_profile_def maximum_profile_def)

lemma sandbox_new_cases:
  assumes "sandbox_new x c = Inr sb"
  shows "sb_config sb = c" "isolation_level c = ContainerIsolation \<Longrightarrow> \<exists>cc cb. container_config c = Some cc \<and> sb_container sb = Some cb \<and> cb_config cb = cc"
    "isolation_level c = StrictContainer \<Longrightarrow> \<exists>cc eb. container_config c = Some cc \<and> sb_enhanced sb = Some eb \<and>
       eb_config eb = cc \<and> eb_level eb = security_level c \<and> eb_network eb = network_policy c \<and>
       eb_seccomp eb = seccomp_new\<lparr>sm_current := Some (level_name (security_level c))\<rparr>"
  using assms by (auto simp: sandbox_new_def sandbox_containers_def container_sandbox_new_def enhanced_new_def set_profile_def result_simps)

lemma container_launch:
  assumes "container_execute uuid order cb command args environ dir = Inr k"
  shows "kc_args k = run_container_args (cc_runtime (cb_config cb)) (container_run_config_of uuid order (cb_config cb) command args environ dir) \<and>
    kc_timeout k = 300"
  using assms by (auto simp: container_execute_def container_run_config_of_def Let_def result_simps command_timeout_def)

lemma create_secure_volumes_eb: "create_secure_volumes canon lower now tmp eb = (vs, eb') \<Longrightarrow>
  eb_config eb' = eb_config eb \<and> eb_level eb' = eb_level eb \<and> eb_network eb' = eb_network eb"
  by (auto simp: create_secure_volumes_def split: prod.splits)

lemma strict_launch:
  assumes "execute_secure json canon lower now uuid tmp order command args environ dir eb = Inr ((profile, k), eb')"
  shows "\<exists>rc p. kc_args k = (case cc_runtime (eb_config eb) of
              Docker \<Rightarrow> docker_seccomp_args (eb_level eb) (tmp @ ''/seccomp-profile.json'') rc
            | Podman \<Rightarrow> podman_seccomp_args (eb_level eb) (tmp @ ''/seccomp-profile.json'') rc
            | Containerd \<Rightarrow> ctr_args rc) \<and> rc_network_mode rc = get_network_mode (eb_network eb) \<and>
    rc_limits rc = create_resource_limits (eb_level eb) \<and> rc_container_id rc = ''attest-secure-'' @ uuid \<and>
    rc_environment rc = order (create_secure_environment (eb_level eb) environ) \<and> kc_timeout k = strict_timeout (eb_level eb) \<and>
    get_current_profile (eb_seccomp eb) = Some p \<and> generate_container_profile json (profile_name p) (eb_seccomp eb) = Inr profile"
proof -
  obtain vs e where v: "create_secure_volumes canon lower now tmp eb = (vs, e)" by (cases "create_secure_volumes canon lower now tmp eb")
  note same = create_secure_volumes_eb [OF v]
  define rc where "rc = \<lparr>rc_container_id = ''attest-secure-'' @ uuid, rc_image = cc_image (eb_config eb), rc_command = command, rc_args = args,
           rc_environment = order (create_secure_environment (eb_level eb) environ), rc_working_dir = dir, rc_volumes = vs,
           rc_user = Some ''65534:65534'', rc_entrypoint = cc_entrypoint (eb_config eb), rc_network_mode = get_network_mode (eb_network eb),
           rc_limits = create_resource_limits (eb_level eb)\<rparr>"
  have "rc_network_mode rc = get_network_mode (eb_network eb)" "rc_limits rc = create_resource_limits (eb_level eb)"
    "rc_container_id rc = ''attest-secure-'' @ uuid" "rc_environment rc = order (create_secure_environment (eb_level eb) environ)"
    by (simp_all add: rc_def)
  moreover have "kc_args k = (case cc_runtime (eb_config eb) of
              Docker \<Rightarrow> docker_seccomp_args (eb_level eb) (tmp @ ''/seccomp-profile.json'') rc
            | Podman \<Rightarrow> podman_seccomp_args (eb_level eb) (tmp @ ''/seccomp-profile.json'') rc
            | Containerd \<Rightarrow> ctr_args rc)" "kc_timeout k = strict_timeout (eb_level eb)"
    using assms same unfolding rc_def create_limits(2) [symmetric]
    by (cases "cc_runtime (eb_config eb)"; auto simp: execute_secure_def v Let_def result_simps)+
  moreover obtain p where "get_current_profile (eb_seccomp eb) = Some p" "generate_container_profile json (profile_name p) (eb_seccomp eb) = Inr profile"
    using assms by (auto simp: execute_secure_def v Let_def result_simps)
  ultimately show ?thesis by (intro exI [of _ rc] exI [of _ p]) simp
qed

lemma set_spec_elims:
  "(n, True) \<in> set ((a, P) # spec) \<longleftrightarrow> (n = a \<and> P) \<or> (n, True) \<in> set spec" "(n, True) \<in> set [] \<longleftrightarrow> False"
  by auto

lemma process_row:
  assumes "sb_config sb = c" "isolation_level c = NoIsolation \<or> isolation_level c = ProcessIsolation"
    "execute_with_timeout x fresh now command args environ dir t sb = Inr (l, sb')"
    "row \<in> set (iso_controls (sandbox_report x sb hermetic))" "control_status row = Enforced" "hermetic \<Longrightarrow> \<not> inherit_environment c"
  shows "row_in_force x fresh c environ (control_name row) l"
proof (cases "isolation_level c = NoIsolation")
  case True
  then have "row \<in> set (iso_controls (unisolated_report (sx_platform x) hermetic))" using assms(1,4) by (simp add: sandbox_report_def)
  then have "control_name row = ''environment''" "hermetic" using enforced_in [OF unisolated_enforced _ assms(5)] by auto
  moreover have "l = Process (execute_direct x sb command args environ dir (merge_timeout t (limit_timeout_secs (resource_limits c))))"
    using assms(1,3) True by (auto simp: execute_with_timeout_def)
  ultimately show ?thesis using assms(1,6) by (simp add: execute_direct_def Let_def)
next
  case False
  then have p: "isolation_level c = ProcessIsolation" using assms(2) by simp
  then have "row \<in> set (process_controls x c hermetic)" using assms(1,4) by (simp add: sandbox_report_def Let_def)
  note spec = enforced_in [OF process_enforced this assms(5), unfolded set_spec_elims]
  let ?t = "merge_timeout t (limit_timeout_secs (resource_limits c))"
  have l: "l = Process (if sx_unix x then execute_unix_isolated x sb command args environ dir ?t else execute_direct x sb command args environ dir ?t)"
    using assms(1,3) p by (auto simp: execute_with_timeout_def)
  have "limit_timeout_secs (resource_limits c) = Some u \<Longrightarrow> \<exists>s. ?t = Some s \<and> s \<le> u" for u
    by (auto simp: merge_timeout_def split: option.splits)
  with spec show ?thesis unfolding l
    by (elim disjE conjE) (auto simp: assms(1) execute_direct_def execute_unix_isolated_def Let_def)
qed

text \<open>
  C38. Every control the isolation report calls enforced stands for a measure that was taken, and this is which one. For a
  process it is the configured one: the address-space and open-file limits, a timeout of at most the configured seconds, and in a
  hermetic run a cleared environment. For a container the measures are fixed: no network, 512 megabytes, one core, a wait of
  300 seconds, and the declared variables; for a strict container they follow from its level: the network only if the policy
  disables it, the read-only root above the minimal level, the seccomp profile of the level (whatever profile the report
  names), its memory, cores and wait, and the open-file limit of the maximum level. The options precede everything that comes from
  the pipeline on the command line. This holds for Docker, and for Podman except for the open-files row. A hermetic run is
  one whose sandbox does not inherit the environment.
\<close>

theorem enforced_rows_applied:
  assumes "sandbox_new x c = Inr sb" "execute_with_timeout x fresh now command args environ dir t sb = Inr (l, sb')"
    and "row \<in> set (iso_controls (sandbox_report x sb hermetic))" "control_status row = Enforced"
    and "hermetic \<Longrightarrow> \<not> inherit_environment c"
    and "\<And>cc. container_config c = Some cc \<Longrightarrow> cc_runtime cc = Docker \<or> (cc_runtime cc = Podman \<and> control_name row \<noteq> ''open-files'')"
  shows "row_in_force x fresh c environ (control_name row) l"
proof (cases "isolation_level c")
  case NoIsolation
  then show ?thesis using process_row [OF sandbox_new_cases(1) [OF assms(1)] _ assms(2-5)] by blast
next
  case ProcessIsolation
  then show ?thesis using process_row [OF sandbox_new_cases(1) [OF assms(1)] _ assms(2-5)] by blast
next
  case VM
  then show ?thesis using assms(2) sandbox_new_cases(1) [OF assms(1)] by (simp add: execute_with_timeout_def)
next
  case ContainerIsolation
  note c = sandbox_new_cases [OF assms(1)]
  obtain cc cb where cb: "container_config c = Some cc" "sb_container sb = Some cb" "cb_config cb = cc" using c(2) ContainerIsolation by blast
  obtain k where k: "container_execute (fst fresh) (sx_order x) cb command args environ dir = Inr k" and l: "l = Container k"
    using assms(2) ContainerIsolation c(1) cb(2) by (auto simp: execute_with_timeout_def result_simps)
  have "cc_runtime cc = Docker \<or> cc_runtime cc = Podman" using assms(6) [OF cb(1)] by blast
  from container_line [OF this] container_launch [OF k, unfolded cb(3)] obtain rest where
    k': "kc_args k = container_options (''attest-'' @ fst fresh) @ env_args (sx_order x (hash_extend environ (cc_environment cc))) @ rest" "kc_timeout k = 300"
    by metis
  have "row \<in> set (container_controls c)" using assms(3) c(1) ContainerIsolation by (simp add: sandbox_report_def Let_def)
  from enforced_in [OF container_enforced this assms(4), unfolded set_spec_elims] show ?thesis
    unfolding l row_in_force.simps using cb(1) k' by (intro exI [of _ cc] exI [of _ rest]) blast
next
  case StrictContainer
  note c = sandbox_new_cases [OF assms(1)]
  obtain cc eb where eb: "container_config c = Some cc" "sb_enhanced sb = Some eb" "eb_config eb = cc" "eb_level eb = security_level c"
      "eb_network eb = network_policy c" "eb_seccomp eb = seccomp_new\<lparr>sm_current := Some (level_name (security_level c))\<rparr>"
    using c(3) StrictContainer by blast
  obtain profile k eb' where k: "execute_secure (sx_json x) (sx_canon x) (sx_lower x) now (fst fresh) (snd fresh) (sx_order x) command args environ dir eb
      = Inr ((profile, k), eb')" and l: "l = Strict profile k"
    using assms(2) StrictContainer c(1) eb(2) by (auto simp: execute_with_timeout_def result_simps)
  let ?file = "snd fresh @ ''/seccomp-profile.json''"
  obtain rc p where rc: "kc_args k = (case cc_runtime cc of Docker \<Rightarrow> docker_seccomp_args (security_level c) ?file rc
      | Podman \<Rightarrow> podman_seccomp_args (security_level c) ?file rc | Containerd \<Rightarrow> ctr_args rc)"
    "rc_limits rc = create_resource_limits (security_level c)" "rc_network_mode rc = get_network_mode (network_policy c)"
    "rc_container_id rc = ''attest-secure-'' @ fst fresh" "rc_environment rc = sx_order x (create_secure_environment (security_level c) environ)"
    "kc_timeout k = strict_timeout (security_level c)"
    and p: "get_current_profile (eb_seccomp eb) = Some p" "generate_container_profile (sx_json x) (profile_name p) (eb_seccomp eb) = Inr profile"
    using strict_launch [OF k, unfolded eb(3-5)] by blast
  note rt = assms(6) [OF eb(1)]
  have profile: "generate_container_profile (sx_json x) (level_name (security_level c)) seccomp_new = Inr profile"
    using p builtin_profile [of "security_level c" p] by (simp add: eb(6) generate_container_profile_def)
  obtain rest where args: "kc_args k = strict_options (cc_runtime cc) (security_level c) (network_policy c) (''attest-secure-'' @ fst fresh) ?file @
      env_args (sx_order x (create_secure_environment (security_level c) environ)) @ rest"
    using rt rc(1) strict_line [OF rc(2,3), of ?file] rc(4,5) by (metis container_runtime.case(1,2))
  have "row \<in> set (strict_controls c)" using assms(3) c(1) StrictContainer by (simp add: sandbox_report_def Let_def)
  note rows = enforced_in [OF strict_enforced this assms(4), unfolded set_spec_elims]
  show ?thesis unfolding l row_in_force.simps
    by (intro exI [of _ cc] exI [of _ rest] conjI eb(1) rc(6) profile args) (use rows rt in blast)
qed

definition example_container_config :: sandbox_config where
  "example_container_config = default_sandbox_config\<lparr>isolation_level := ContainerIsolation,
     container_config := Some (secure_attest_config Some ''img'')\<rparr>"

lemma example_container_runs:
  "\<exists>sb k. sandbox_new example_sandbox_env example_container_config = Inr sb \<and> sb_config sb = example_container_config \<and>
     execute_with_timeout example_sandbox_env ([], []) 0 ''sh'' [''-c'', ''make''] [] None None sb = Inr (Container k, sb)"
proof -
  let ?cc = "secure_attest_config Some ''img''"
  have "is_ok (set_profile ''minimal'' seccomp_new)" by (simp add: set_profile_def seccomp_new_def contains_key_def map_of_btree_insert)
  moreover have "container_sandbox_new (sx_which example_sandbox_env) (sx_verifier example_sandbox_env) ?cc =
      Inr \<lparr>cb_config = ?cc, cb_program = runtime_program (cc_runtime ?cc), cb_verifier = None\<rparr>"
    by (simp add: container_sandbox_new_def runtime_new_def example_sandbox_env_def)
  ultimately show ?thesis
    by (auto simp: sandbox_new_def sandbox_containers_def example_container_config_def default_sandbox_config_def is_ok_iff
        execute_with_timeout_def container_execute_def Let_def)
qed

theorem enforced_rows_applied_witness:
  "\<exists>sb k rest. sandbox_new example_sandbox_env example_container_config = Inr sb \<and>
     execute_with_timeout example_sandbox_env ([], []) 0 ''sh'' [''-c'', ''make''] [] None None sb = Inr (Container k, sb) \<and>
     kc_args k = [''run'', ''--rm'', ''--name'', ''attest-'', ''--network'', ''none'', ''--memory'', ''512m'', ''--cpus'', ''1''] @ rest"
proof -
  let ?row = "control ''network'' Enforced ''container run with --network none''"
  obtain sb k where sb: "sandbox_new example_sandbox_env example_container_config = Inr sb" "sb_config sb = example_container_config"
    "execute_with_timeout example_sandbox_env ([], []) 0 ''sh'' [''-c'', ''make''] [] None None sb = Inr (Container k, sb)"
    using example_container_runs by blast
  have level: "isolation_level example_container_config = ContainerIsolation" "network_policy example_container_config = NetDisabled"
    "container_config example_container_config = Some (secure_attest_config Some ''img'')"
    by (simp_all add: example_container_config_def default_sandbox_config_def)
  have "iso_controls (sandbox_report example_sandbox_env sb False) = container_controls example_container_config"
    by (simp add: sandbox_report_def Let_def sb(2) level)
  moreover have "?row \<in> set (container_controls example_container_config)"
    unfolding container_controls_def network_control_def level by simp
  moreover have "cc_runtime (secure_attest_config Some ''img'') = Docker"
    by (simp add: secure_attest_config_def default_container_config_def detect_runtime_def runtime_new_def Let_def)
  ultimately have "row_in_force example_sandbox_env ([], []) example_container_config [] (control_name ?row) (Container k)"
    using enforced_rows_applied [OF sb(1,3), of ?row False] by (simp add: control_sel level)
  with sb show ?thesis by (auto simp: container_options_def)
qed

definition reported :: "bytes \<Rightarrow> isolation_report \<Rightarrow> bool" where
  "reported name r \<longleftrightarrow> list_ex (\<lambda>row. control_name row = name \<and> control_status row = Enforced) (iso_controls r)"

definition containerd_config :: sandbox_config where
  "containerd_config = default_sandbox_config\<lparr>isolation_level := StrictContainer, security_level := Maximum,
     container_config := Some ((secure_attest_config Some ''img'')\<lparr>cc_runtime := Containerd\<rparr>)\<rparr>"

lemma reported_strict:
  assumes "sb_config sb = c" "isolation_level c = StrictContainer" "security_level c = Maximum" "network_policy c = NetDisabled"
  shows "list_all (\<lambda>n. reported n (sandbox_report x sb h)) [''network'', ''filesystem'', ''capabilities'', ''open-files'']"
  by (simp add: reported_def sandbox_report_def Let_def assms strict_controls_def network_control_def control_sel)

text \<open>
  With containerd the report does not hold. For a strict container of the maximum level under containerd, the report
  calls the network, filesystem, capability and open-file controls enforced, naming flags of Docker, while the command
  line passes none of them: \<open>ctr\<close> is started with the image, the name and the command only.
\<close>

theorem containerd_report_untrue:
  "\<exists>sb p k sb'. sandbox_new example_sandbox_env containerd_config = Inr sb \<and>
     execute_with_timeout example_sandbox_env (''u'', ''/t'') 0 ''sh'' [''-c'', ''make''] [] None None sb = Inr (Strict p k, sb') \<and>
     kc_args k = [''run'', ''--rm'', ''img'', ''attest-secure-u'', ''sh'', ''-c'', ''make''] \<and>
     list_all (\<lambda>n. reported n (sandbox_report example_sandbox_env sb True)) [''network'', ''filesystem'', ''capabilities'', ''open-files'']"
proof -
  let ?cc = "(secure_attest_config Some ''img'')\<lparr>cc_runtime := Containerd\<rparr>" and ?x = example_sandbox_env
  have cc: "cc_runtime ?cc = Containerd" "cc_image ?cc = ''img''"
    by (simp_all add: secure_attest_config_def default_container_config_def Let_def)
  have level: "isolation_level containerd_config = StrictContainer" "network_policy containerd_config = NetDisabled"
    "security_level containerd_config = Maximum" "container_config containerd_config = Some ?cc" "seccomp_profile containerd_config = Some ''minimal''"
    by (simp_all add: containerd_config_def default_sandbox_config_def)
  have profiles: "is_ok (set_profile ''minimal'' seccomp_new)"
    by (simp add: set_profile_def seccomp_new_def contains_key_def map_of_btree_insert)
  have m: "set_profile ''maximum'' seccomp_new = Inr (seccomp_new\<lparr>sm_current := Some ''maximum''\<rparr>)"
    by (simp add: set_profile_def seccomp_new_def contains_key_def map_of_btree_insert)
  obtain eb where eb: "enhanced_new (sx_which ?x) ?cc Maximum NetDisabled = Inr eb" "eb_config eb = ?cc" "eb_level eb = Maximum"
    "eb_seccomp eb = seccomp_new\<lparr>sm_current := Some ''maximum''\<rparr>"
    using m by (simp add: enhanced_new_def runtime_new_def example_sandbox_env_def level_name_def)
  obtain sb where sb: "sandbox_new ?x containerd_config = Inr sb" "sb_config sb = containerd_config" "sb_enhanced sb = Some eb"
    using profiles eb(1) by (auto simp: sandbox_new_def sandbox_containers_def level is_ok_iff)
  obtain vs e where v: "create_secure_volumes (sx_canon ?x) (sx_lower ?x) 0 ''/t'' eb = (vs, e)"
    by (cases "create_secure_volumes (sx_canon ?x) (sx_lower ?x) 0 ''/t'' eb")
  have prof: "get_current_profile (eb_seccomp eb) = Some maximum_profile"
    "\<exists>j. generate_container_profile (sx_json ?x) (profile_name maximum_profile) (eb_seccomp eb) = Inr j"
    by (simp_all add: eb(4) get_current_profile_def seccomp_new_def map_of_btree_insert generate_container_profile_def maximum_profile_def)
  obtain p k sb' where run: "execute_with_timeout ?x (''u'', ''/t'') 0 ''sh'' [''-c'', ''make''] [] None None sb = Inr (Strict p k, sb')"
    "kc_args k = [''run'', ''--rm'', ''img'', ''attest-secure-u'', ''sh'', ''-c'', ''make'']"
    using prof create_secure_volumes_eb [OF v] sb(2,3) cc
    by (auto simp: execute_with_timeout_def level execute_secure_def v eb Let_def ctr_args_def)
  have "list_all (\<lambda>n. reported n (sandbox_report ?x sb True)) [''network'', ''filesystem'', ''capabilities'', ''open-files'']"
    using reported_strict [OF sb(2) level(1,3,2), of ?x True] .
  then show ?thesis using sb(1) run by blast
qed

text \<open>
  The configured limits do not reach a container. In container mode neither the resource limits nor the network policy of
  the configuration influence what is started: two configurations that differ only there start the same command, with
  512 megabytes, one core and 300 seconds, although the report derives its memory, processor, timeout and network rows
  from them.
\<close>

theorem container_limits_ignored:
  assumes "isolation_level c = ContainerIsolation"
    and "sandbox_new x c = Inr sb" "sandbox_new x (c\<lparr>resource_limits := limits, network_policy := net\<rparr>) = Inr sb'"
    and "execute_with_timeout x fresh now command args environ dir t sb = Inr (Container k, sb1)"
  shows "execute_with_timeout x fresh now command args environ dir t' sb' = Inr (Container k, sb') \<and> kc_timeout k = 300"
proof -
  obtain cb where cb: "sb_container sb = Some cb" "sandbox_containers x c = Inr (Some cb, None)"
    using assms(1,2) by (auto simp: sandbox_new_def sandbox_containers_def result_simps)
  have "sandbox_containers x (c\<lparr>resource_limits := limits, network_policy := net\<rparr>) = sandbox_containers x c"
    using assms(1) by (simp add: sandbox_containers_def)
  then have cb': "sb_container sb' = Some cb" using assms(3) cb(2) by (auto simp: sandbox_new_def result_simps)
  have k: "container_execute (fst fresh) (sx_order x) cb command args environ dir = Inr k"
    using assms(1,4) cb(1) sandbox_new_cases(1) [OF assms(2)] by (auto simp: execute_with_timeout_def result_simps)
  then show ?thesis using container_launch [OF k] cb' assms(1) sandbox_new_cases(1) [OF assms(3)]
    by (auto simp: execute_with_timeout_def)
qed

theorem container_limits_ignored_witness:
  "\<exists>sb sb' k. sandbox_new example_sandbox_env example_container_config = Inr sb \<and>
     sandbox_new example_sandbox_env (example_container_config\<lparr>resource_limits := default_resource_limits\<lparr>limit_timeout_secs := Some 5\<rparr>,
       network_policy := NetFull\<rparr>) = Inr sb' \<and>
     execute_with_timeout example_sandbox_env ([], []) 0 ''sh'' [''-c'', ''make''] [] None None sb' = Inr (Container k, sb') \<and> kc_timeout k = 300"
proof -
  let ?c = "example_container_config\<lparr>resource_limits := default_resource_limits\<lparr>limit_timeout_secs := Some 5\<rparr>, network_policy := NetFull\<rparr>"
  obtain sb k where sb: "sandbox_new example_sandbox_env example_container_config = Inr sb"
    "execute_with_timeout example_sandbox_env ([], []) 0 ''sh'' [''-c'', ''make''] [] None None sb = Inr (Container k, sb)"
    using example_container_runs by blast
  have level: "isolation_level example_container_config = ContainerIsolation" by (simp add: example_container_config_def)
  have "sandbox_containers example_sandbox_env ?c = sandbox_containers example_sandbox_env example_container_config"
    by (simp add: sandbox_containers_def level)
  then obtain sb' where sb': "sandbox_new example_sandbox_env ?c = Inr sb'" using sb(1) by (auto simp: sandbox_new_def result_simps)
  show ?thesis using container_limits_ignored [OF level sb(1) sb' sb(2)] sb(1) sb' by blast
qed

end
