(* ===== verification/Modes.thy ===== *)
theory Modes
  imports Sandbox Json
begin

text \<open>
  Operation modes, from \<open>src/core.rs\<close>: their names, the three built-in configurations, overrides and validation, and the
  mode an \<open>AttestCore\<close> holds. The number of processors, the clock and the Unicode lower case are arguments.
\<close>

datatype operation_mode = Light | Verifiable | FormalProof

datatype mode_error =
    InvalidMode bytes
  | LightSignsAll | VerifiableUnsigned | VerifiableNoMerkle | ProofUnsigned | ProofNetwork | ProofLogging
  | HardwareUnsigned | NoParallelSteps

definition show_mode :: "operation_mode \<Rightarrow> bytes" where
  "show_mode m = (case m of Light \<Rightarrow> ''light'' | Verifiable \<Rightarrow> ''verifiable'' | FormalProof \<Rightarrow> ''formal-proof'')"

definition parse_mode :: "(bytes \<Rightarrow> bytes) \<Rightarrow> bytes \<Rightarrow> (mode_error, operation_mode) result" where
  "parse_mode lower s =
     (let l = lower s in
      if l = ''light'' then Inr Light
      else if l = ''verifiable'' then Inr Verifiable
      else if l = ''formal-proof'' \<or> l = ''formal_proof'' then Inr FormalProof
      else Inl (InvalidMode s))"

datatype hash_algorithm = Blake3 | Sha256 | Sha3_256

datatype compliance_framework = Basic | SOX | PCI | HIPAA | FedRAMP | SLSA

record crypto_config =
  signatures_enabled :: bool
  mc_sign_all_steps :: bool
  hash_algorithm :: hash_algorithm
  key_rotation_days :: "u32 option"
  hardware_security :: bool

record isolation_config =
  mi_level :: isolation_level
  mi_runtime :: "container_runtime option"
  deterministic_environment :: bool
  mi_fixed_timestamp :: "int option"
  enforce_resource_limits :: bool
  mi_network :: network_policy

record audit_config =
  detailed_logging :: bool
  store_execution_logs :: bool
  merkle_tree_enabled :: bool
  external_ledger :: "bytes option"
  compliance_framework :: "compliance_framework option"
  retention_days :: u32

record performance_config =
  cache_enabled :: bool
  max_parallel_steps :: nat
  lazy_evaluation :: bool
  skip_expensive_checks :: bool

record mode_config =
  mode :: operation_mode
  crypto :: crypto_config
  isolation :: isolation_config
  audit :: audit_config
  performance :: performance_config

definition light :: "nat \<Rightarrow> mode_config" where
  "light cpus = \<lparr>mode = Light,
     crypto = \<lparr>signatures_enabled = False, mc_sign_all_steps = False, hash_algorithm = Blake3, key_rotation_days = None, hardware_security = False\<rparr>,
     isolation = \<lparr>mi_level = ProcessIsolation, mi_runtime = None, deterministic_environment = True, mi_fixed_timestamp = None,
       enforce_resource_limits = False, mi_network = NetDisabled\<rparr>,
     audit = \<lparr>detailed_logging = False, store_execution_logs = False, merkle_tree_enabled = False, external_ledger = None,
       compliance_framework = Some Basic, retention_days = 7\<rparr>,
     performance = \<lparr>cache_enabled = True, max_parallel_steps = cpus, lazy_evaluation = True, skip_expensive_checks = True\<rparr>\<rparr>"

definition verifiable :: "nat \<Rightarrow> mode_config" where
  "verifiable cpus = \<lparr>mode = Verifiable,
     crypto = \<lparr>signatures_enabled = True, mc_sign_all_steps = False, hash_algorithm = Blake3, key_rotation_days = Some 90, hardware_security = False\<rparr>,
     isolation = \<lparr>mi_level = ContainerIsolation, mi_runtime = Some Docker, deterministic_environment = True, mi_fixed_timestamp = None,
       enforce_resource_limits = True, mi_network = NetRestricted\<rparr>,
     audit = \<lparr>detailed_logging = True, store_execution_logs = True, merkle_tree_enabled = True, external_ledger = None,
       compliance_framework = Some SLSA, retention_days = 90\<rparr>,
     performance = \<lparr>cache_enabled = True, max_parallel_steps = cpus, lazy_evaluation = False, skip_expensive_checks = False\<rparr>\<rparr>"

definition formal_proof :: "nat \<Rightarrow> int \<Rightarrow> mode_config" where
  "formal_proof cpus now = \<lparr>mode = FormalProof,
     crypto = \<lparr>signatures_enabled = True, mc_sign_all_steps = True, hash_algorithm = Blake3, key_rotation_days = Some 30, hardware_security = True\<rparr>,
     isolation = \<lparr>mi_level = StrictContainer, mi_runtime = Some Podman, deterministic_environment = True, mi_fixed_timestamp = Some now,
       enforce_resource_limits = True, mi_network = NetDisabled\<rparr>,
     audit = \<lparr>detailed_logging = True, store_execution_logs = True, merkle_tree_enabled = True, external_ledger = Some ''blockchain'',
       compliance_framework = Some FedRAMP, retention_days = 2555\<rparr>,
     performance = \<lparr>cache_enabled = True, max_parallel_steps = cpus div 2, lazy_evaluation = False, skip_expensive_checks = False\<rparr>\<rparr>"

definition from_mode :: "nat \<Rightarrow> int \<Rightarrow> operation_mode \<Rightarrow> mode_config" where
  "from_mode cpus now m = (case m of Light \<Rightarrow> light cpus | Verifiable \<Rightarrow> verifiable cpus | FormalProof \<Rightarrow> formal_proof cpus now)"

fun as_bool :: "json \<Rightarrow> bool option" where
  "as_bool (JBool b) = Some b"
| "as_bool _ = None"

text \<open>\<open>as_u64\<close> is the one of \<open>serde_json\<close>; \<open>overrides\<close> is in the order of iteration.\<close>

definition override :: "(json \<Rightarrow> u64 option) \<Rightarrow> bytes \<times> json \<Rightarrow> mode_config \<Rightarrow> mode_config" where
  "override as_u64 = (\<lambda>(key, v) c.
     let flag = (\<lambda>old. case as_bool v of Some b \<Rightarrow> b | None \<Rightarrow> old) in
     if key = ''crypto.signatures_enabled'' then c\<lparr>crypto := (crypto c)\<lparr>signatures_enabled := flag (signatures_enabled (crypto c))\<rparr>\<rparr>
     else if key = ''crypto.sign_all_steps'' then c\<lparr>crypto := (crypto c)\<lparr>mc_sign_all_steps := flag (mc_sign_all_steps (crypto c))\<rparr>\<rparr>
     else if key = ''isolation.deterministic_environment'' then
       c\<lparr>isolation := (isolation c)\<lparr>deterministic_environment := flag (deterministic_environment (isolation c))\<rparr>\<rparr>
     else if key = ''audit.detailed_logging'' then c\<lparr>audit := (audit c)\<lparr>detailed_logging := flag (detailed_logging (audit c))\<rparr>\<rparr>
     else if key = ''performance.cache_enabled'' then c\<lparr>performance := (performance c)\<lparr>cache_enabled := flag (cache_enabled (performance c))\<rparr>\<rparr>
     else if key = ''performance.max_parallel_steps'' then
       (case as_u64 v of Some n \<Rightarrow> c\<lparr>performance := (performance c)\<lparr>max_parallel_steps := unat n\<rparr>\<rparr> | None \<Rightarrow> c)
     else c)"

definition with_overrides :: "(json \<Rightarrow> u64 option) \<Rightarrow> (bytes \<times> json) list \<Rightarrow> mode_config \<Rightarrow> mode_config" where
  "with_overrides as_u64 overrides c = fold (override as_u64) overrides c"

definition mode_validate :: "mode_config \<Rightarrow> (mode_error, unit) result" where
  "mode_validate c =
     and_then (case mode c of
         Light \<Rightarrow> ensure (\<not> (signatures_enabled (crypto c) \<and> mc_sign_all_steps (crypto c))) LightSignsAll (Inr ())
       | Verifiable \<Rightarrow>
           ensure (signatures_enabled (crypto c)) VerifiableUnsigned (
           ensure (merkle_tree_enabled (audit c)) VerifiableNoMerkle (Inr ()))
       | FormalProof \<Rightarrow>
           ensure (signatures_enabled (crypto c) \<and> mc_sign_all_steps (crypto c)) ProofUnsigned (
           ensure (mi_network (isolation c) = NetDisabled) ProofNetwork (
           ensure (detailed_logging (audit c)) ProofLogging (Inr ())))) (\<lambda>_.
     ensure (\<not> (hardware_security (crypto c) \<and> \<not> signatures_enabled (crypto c))) HardwareUnsigned (
     ensure (max_parallel_steps (performance c) \<noteq> 0) NoParallelSteps (Inr ())))"

definition is_suitable_for :: "mode_config \<Rightarrow> bytes \<Rightarrow> bool" where
  "is_suitable_for c use_case \<longleftrightarrow> (case mode c of
       Light \<Rightarrow> use_case \<in> {''development'', ''testing'', ''personal-projects''}
     | Verifiable \<Rightarrow> use_case \<in> {''enterprise-ci'', ''open-source'', ''production-builds''}
     | FormalProof \<Rightarrow> use_case \<in> {''regulated-industry'', ''critical-infrastructure'', ''financial-services'', ''medical-devices'', ''aerospace''})"

text \<open>The configuration of an \<open>AttestCore\<close> after a change of mode, and the result of the call.\<close>

definition set_mode :: "nat \<Rightarrow> int \<Rightarrow> operation_mode \<Rightarrow> mode_config \<Rightarrow> (mode_error, unit) result \<times> mode_config" where
  "set_mode cpus now m c = (let c = from_mode cpus now m in (mode_validate c, c))"

definition set_mode_config :: "mode_config \<Rightarrow> mode_config \<Rightarrow> (mode_error, unit) result \<times> mode_config" where
  "set_mode_config new c = (case mode_validate new of Inr () \<Rightarrow> (Inr (), new) | Inl e \<Rightarrow> (Inl e, c))"

section \<open>Properties\<close>

text \<open>The name of a mode is read back as the mode; lower case leaves the names alone.\<close>

lemma mode_roundtrip: "lower (show_mode m) = show_mode m \<Longrightarrow> parse_mode lower (show_mode m) = Inr m"
  by (cases m) (simp_all add: parse_mode_def show_mode_def Let_def)

text \<open>
  What a valid configuration guarantees, for any overrides applied to any built-in mode: verifiable and formal-proof
  configurations sign, formal-proof ones sign every step, keep the network disabled and log in detail, and some step can
  run. The built-in configurations are valid on any machine with two processors; on a machine with one, the
  formal-proof configuration allows no parallel step and is refused, and \<open>set_mode\<close> reports the error while the invalid
  configuration stays in force, whereas \<open>set_mode_config\<close> leaves the old one.
\<close>

theorem mode_validation:
  "(mode_validate (with_overrides as_u64 overrides c) = Inr () \<longrightarrow>
      (let d = with_overrides as_u64 overrides c in mode d = mode c \<and> 0 < max_parallel_steps (performance d) \<and>
        (mode d \<noteq> Light \<longrightarrow> signatures_enabled (crypto d)) \<and>
        (mode d = FormalProof \<longrightarrow> mc_sign_all_steps (crypto d) \<and> mi_network (isolation d) = NetDisabled \<and> detailed_logging (audit d)))) \<and>
   (mode_validate (from_mode cpus now m) = Inr () \<longleftrightarrow> (if m = FormalProof then 2 \<le> cpus else 1 \<le> cpus)) \<and>
   set_mode 1 now FormalProof c = (Inl NoParallelSteps, formal_proof 1 now) \<and>
   set_mode_config (formal_proof 1 now) c = (Inl NoParallelSteps, c)"
proof (intro conjI impI)
  have same: "mode (with_overrides as_u64 overrides c) = mode c" for c
    by (induction overrides arbitrary: c) (auto simp: with_overrides_def override_def Let_def split: prod.splits option.splits)
  assume "mode_validate (with_overrides as_u64 overrides c) = Inr ()"
  with same [of c] show "let d = with_overrides as_u64 overrides c in mode d = mode c \<and> 0 < max_parallel_steps (performance d) \<and>
        (mode d \<noteq> Light \<longrightarrow> signatures_enabled (crypto d)) \<and>
        (mode d = FormalProof \<longrightarrow> mc_sign_all_steps (crypto d) \<and> mi_network (isolation d) = NetDisabled \<and> detailed_logging (audit d))"
    by (cases "mode c") (simp_all add: mode_validate_def Let_def result_simps)
next
  show "mode_validate (from_mode cpus now m) = Inr () \<longleftrightarrow> (if m = FormalProof then 2 \<le> cpus else 1 \<le> cpus)"
    by (cases m) (auto simp: from_mode_def light_def verifiable_def formal_proof_def mode_validate_def result_simps)
qed (simp_all add: set_mode_def set_mode_config_def from_mode_def formal_proof_def mode_validate_def Let_def)

theorem mode_validation_witness:
  "mode_validate (with_overrides (\<lambda>_. None) [(''audit.detailed_logging'', JBool True)] (verifiable 4)) = Inr () \<and>
   signatures_enabled (crypto (with_overrides (\<lambda>_. None) [(''audit.detailed_logging'', JBool True)] (verifiable 4)))"
proof -
  let ?c = "with_overrides (\<lambda>_. None) [(''audit.detailed_logging'', JBool True)] (verifiable 4)"
  have "mode_validate ?c = Inr ()" "mode (verifiable 4) = Verifiable"
    by (simp_all add: with_overrides_def override_def verifiable_def mode_validate_def)
  with mode_validation [of "\<lambda>_. None" "[(''audit.detailed_logging'', JBool True)]" "verifiable 4"] show ?thesis
    by (simp add: Let_def)
qed

end
