(* ===== verification/Guard.thy ===== *)
theory Guard
  imports Prelude
begin

text \<open>
  The guard on a step's declared inputs, from \<open>src/executor/mod.rs\<close>: while a step runs, the write bits of every input
  are dropped, and they are put back afterwards, on the same objects only.

  A directory tree is a map from paths to what stands there: an object, by its device and inode, or a symbolic link; the
  mode belongs to the object. \<open>open_input\<close> does not follow links. The paths under an input come from the walk.
\<close>

datatype inode = Inode (dev: u64) (ino: u64)

datatype tree_entry = Object inode | SymLink

record ('p) file_tree =
  ft_at :: "'p \<rightharpoonup> tree_entry"
  ft_mode :: "inode \<Rightarrow> u32"

record ('p) input_guard =
  ig_restore :: "('p \<times> u32 \<times> inode) list"
  ig_enforced :: bool

datatype 'p guard_error = CannotStat 'p | CannotOpen 'p | CannotChmod 'p

definition WRITE_BITS :: u32 where "WRITE_BITS = 0x92"

unbundle bit_operations_syntax

text \<open>What can go wrong with a path while the guard is taken; a link is refused by \<open>open_input\<close>, and an object that
  changed between the two looks at it, too. \<open>fails\<close> says where a system call fails.\<close>

fun hold_paths ::
  "('p \<Rightarrow> 'p guard_error option) \<Rightarrow> 'p list \<Rightarrow> 'p file_tree \<Rightarrow> ('p \<times> u32 \<times> inode) list
    \<Rightarrow> ('p guard_error option \<times> ('p \<times> u32 \<times> inode) list) \<times> 'p file_tree" where
  "hold_paths fails [] t held = ((None, held), t)"
| "hold_paths fails (p # ps) t held =
     (case ft_at t p of
        Some (Object i) \<Rightarrow>
          if ft_mode t i AND WRITE_BITS = 0 then hold_paths fails ps t held
          else (case fails p of
              Some e \<Rightarrow> ((Some e, held), t)
            | None \<Rightarrow>
                hold_paths fails ps (t\<lparr>ft_mode := (ft_mode t)(i := ft_mode t i AND NOT WRITE_BITS)\<rparr>) (held @ [(p, ft_mode t i, i)]))
      | Some SymLink \<Rightarrow> ((Some (CannotOpen p), held), t)
      | None \<Rightarrow> ((Some (CannotStat p), held), t))"

text \<open>\<open>opens\<close> says which paths the running process can open.\<close>

fun restore_paths :: "('p \<Rightarrow> bool) \<Rightarrow> ('p \<times> u32 \<times> inode) list \<Rightarrow> 'p file_tree \<Rightarrow> 'p file_tree" where
  "restore_paths opens [] t = t"
| "restore_paths opens ((p, m, i) # held) t =
     restore_paths opens held
       (if opens p \<and> ft_at t p = Some (Object i) then t\<lparr>ft_mode := (ft_mode t)(i := m)\<rparr> else t)"

definition guard_drop :: "('p \<Rightarrow> bool) \<Rightarrow> 'p input_guard \<Rightarrow> 'p file_tree \<Rightarrow> 'p file_tree" where
  "guard_drop opens g t = restore_paths opens (rev (ig_restore g)) t"

text \<open>A guard that fails half way is dropped, too. \<open>root\<close> is whether the effective user is root, \<open>unix\<close> the platform.\<close>

definition guard_hold ::
  "bool \<Rightarrow> bool \<Rightarrow> ('p \<Rightarrow> 'p guard_error option) \<Rightarrow> ('p \<Rightarrow> bool) \<Rightarrow> 'p list \<Rightarrow> 'p file_tree
    \<Rightarrow> ('p guard_error, 'p input_guard) result \<times> 'p file_tree" where
  "guard_hold unix root fails opens paths t =
     (if \<not> unix \<or> root then (Inr \<lparr>ig_restore = [], ig_enforced = False\<rparr>, t)
      else case hold_paths fails paths t [] of
          ((Some e, held), t) \<Rightarrow> (Inl e, guard_drop opens \<lparr>ig_restore = held, ig_enforced = True\<rparr> t)
        | ((None, held), t) \<Rightarrow> (Inr \<lparr>ig_restore = held, ig_enforced = True\<rparr>, t))"

section \<open>Properties\<close>

lemma hold_paths_spec:
  assumes "hold_paths fails ps t held = ((e, held'), t')"
  shows "\<exists>new. held' = held @ new \<and> ft_at t' = ft_at t \<and> distinct (map (\<lambda>(p, m, i). i) new) \<and>
    (\<forall>(p, m, i)\<in>set new. ft_at t p = Some (Object i) \<and> m = ft_mode t i \<and> m AND WRITE_BITS \<noteq> 0 \<and> ft_mode t' i = m AND NOT WRITE_BITS) \<and>
    (\<forall>i. i \<notin> (\<lambda>(p, m, i). i) ` set new \<longrightarrow> ft_mode t' i = ft_mode t i) \<and>
    (e = None \<longrightarrow> (\<forall>p\<in>set ps. \<exists>i. ft_at t p = Some (Object i) \<and> ft_mode t' i AND WRITE_BITS = 0))"
  using assms
proof (induction ps arbitrary: t held)
  case (Cons p ps)
  show ?case
  proof (cases "\<exists>i. ft_at t p = Some (Object i) \<and> (ft_mode t i AND WRITE_BITS = 0 \<or> fails p = None)")
    case False
    consider "ft_at t p = None" | "ft_at t p = Some SymLink" | i x where "ft_at t p = Some (Object i)" "ft_mode t i AND WRITE_BITS \<noteq> 0" "fails p = Some x"
      using False by (cases "ft_at t p"; cases "the (ft_at t p)") auto
    then have "held' = held \<and> t' = t \<and> e \<noteq> None" using Cons.prems by cases (auto dest!: sym [of "Some _"])
    then show ?thesis by auto
  next
    case True
    then obtain i where i: "ft_at t p = Some (Object i)" "ft_mode t i AND WRITE_BITS = 0 \<or> fails p = None" by blast
    have clear: "(m AND NOT WRITE_BITS) AND WRITE_BITS = 0" for m :: u32 by (simp add: bit_eq_iff bit_simps)
    show ?thesis
    proof (cases "ft_mode t i AND WRITE_BITS = 0")
      case True
      then have step: "hold_paths fails ps t held = ((e, held'), t')" using Cons.prems i(1) by simp
      from Cons.IH [OF this] obtain new where new: "held' = held @ new" "ft_at t' = ft_at t" "distinct (map (\<lambda>(p, m, i). i) new)"
        "\<forall>(p, m, i)\<in>set new. ft_at t p = Some (Object i) \<and> m = ft_mode t i \<and> m AND WRITE_BITS \<noteq> 0 \<and> ft_mode t' i = m AND NOT WRITE_BITS"
        "\<forall>i. i \<notin> (\<lambda>(p, m, i). i) ` set new \<longrightarrow> ft_mode t' i = ft_mode t i"
        "e = None \<longrightarrow> (\<forall>p\<in>set ps. \<exists>i. ft_at t p = Some (Object i) \<and> ft_mode t' i AND WRITE_BITS = 0)" by blast
      have "i \<notin> (\<lambda>(p, m, i). i) ` set new"
      proof
        assume "i \<in> (\<lambda>(p, m, i). i) ` set new"
        then obtain q m where "(q, m, i) \<in> set new" by auto
        with new(4) True show False by blast
      qed
      then have "ft_mode t' i AND WRITE_BITS = 0" using new(5) True by simp
      with new i(1) show ?thesis by (intro exI [of _ new]) simp
    next
      case False
      let ?t = "t\<lparr>ft_mode := (ft_mode t)(i := ft_mode t i AND NOT WRITE_BITS)\<rparr>"
      have step: "hold_paths fails ps ?t (held @ [(p, ft_mode t i, i)]) = ((e, held'), t')" using Cons.prems i False by simp
      from Cons.IH [OF this] obtain new where new: "held' = (held @ [(p, ft_mode t i, i)]) @ new" "ft_at t' = ft_at t" "distinct (map (\<lambda>(p, m, i). i) new)"
        "\<forall>(p, m, j)\<in>set new. ft_at t p = Some (Object j) \<and> m = ft_mode ?t j \<and> m AND WRITE_BITS \<noteq> 0 \<and> ft_mode t' j = m AND NOT WRITE_BITS"
        "\<forall>j. j \<notin> (\<lambda>(p, m, i). i) ` set new \<longrightarrow> ft_mode t' j = ft_mode ?t j"
        "e = None \<longrightarrow> (\<forall>p\<in>set ps. \<exists>i. ft_at t p = Some (Object i) \<and> ft_mode t' i AND WRITE_BITS = 0)" by auto
      have fresh: "i \<notin> (\<lambda>(p, m, i). i) ` set new"
      proof
        assume "i \<in> (\<lambda>(p, m, i). i) ` set new"
        then obtain q m where "(q, m, i) \<in> set new" by auto
        with new(4) clear [of "ft_mode t i"] show False by fastforce
      qed
      then have mode: "ft_mode t' i = ft_mode t i AND NOT WRITE_BITS" using new(5) by simp
      have "\<forall>(p, m, j)\<in>set new. ft_at t p = Some (Object j) \<and> m = ft_mode t j \<and> m AND WRITE_BITS \<noteq> 0 \<and> ft_mode t' j = m AND NOT WRITE_BITS"
        using new(4) fresh by (force split: if_splits)
      then show ?thesis using new fresh mode False i(1) clear by (intro exI [of _ "(p, ft_mode t i, i) # new"]) (auto simp: image_iff)
    qed
  qed
qed auto

lemma restore_paths_at: "ft_at (restore_paths opens held t) = ft_at t"
  by (induction held arbitrary: t) auto

lemma restore_paths_other: "i \<notin> (\<lambda>(p, m, i). i) ` set held \<Longrightarrow> ft_mode (restore_paths opens held t) i = ft_mode t i"
  by (induction held arbitrary: t) auto

lemma restore_paths_held:
  assumes "distinct (map (\<lambda>(p, m, i). i) held)" "(p, m, i) \<in> set held"
  shows "ft_mode (restore_paths opens held t) i = (if opens p \<and> ft_at t p = Some (Object i) then m else ft_mode t i)"
  using assms
proof (induction held arbitrary: t)
  case (Cons h held)
  show ?case
  proof (cases "h = (p, m, i)")
    case True
    then have "i \<notin> (\<lambda>(p, m, i). i) ` set held" using Cons.prems(1) by (auto simp: image_iff)
    then show ?thesis by (simp add: True restore_paths_other)
  next
    case False
    obtain q n j where h: "h = (q, n, j)" by (cases h)
    have "j \<noteq> i" using Cons.prems False by (auto simp: h image_iff)
    then show ?thesis using Cons.IH Cons.prems False by (auto simp: h)
  qed
qed simp

text \<open>On Unix, for a user other than root.\<close>

lemma guard_restores_enforced:
  assumes "guard_hold True False fails opens paths t = (Inr g, t')"
  shows "ig_enforced g \<and> (\<forall>p\<in>set paths. \<exists>i. ft_at t p = Some (Object i) \<and> ft_mode t' i AND WRITE_BITS = 0) \<and>
    (\<forall>i. i \<notin> (\<lambda>(p, m, i). i) ` set (ig_restore g) \<longrightarrow> ft_mode t' i = ft_mode t i) \<and>
    (\<forall>u i. ft_mode (guard_drop opens g u) i \<noteq> ft_mode u i \<longrightarrow>
       (\<exists>p. (p, ft_mode t i, i) \<in> set (ig_restore g) \<and> ft_at u p = Some (Object i) \<and> ft_mode (guard_drop opens g u) i = ft_mode t i)) \<and>
    ((\<forall>(p, m, i)\<in>set (ig_restore g). opens p) \<longrightarrow> guard_drop opens g t' = t)"
proof -
  have h: "hold_paths fails paths t [] = ((None, ig_restore g), t')" and e: "ig_enforced g"
    using assms by (auto simp: guard_hold_def split: prod.splits option.splits)
  from hold_paths_spec [OF h] have spec: "ft_at t' = ft_at t" "distinct (map (\<lambda>(p, m, i). i) (ig_restore g))"
      "\<forall>(p, m, i)\<in>set (ig_restore g). ft_at t p = Some (Object i) \<and> m = ft_mode t i \<and> m AND WRITE_BITS \<noteq> 0 \<and> ft_mode t' i = m AND NOT WRITE_BITS"
      "\<forall>i. i \<notin> (\<lambda>(p, m, i). i) ` set (ig_restore g) \<longrightarrow> ft_mode t' i = ft_mode t i"
      "\<forall>p\<in>set paths. \<exists>i. ft_at t p = Some (Object i) \<and> ft_mode t' i AND WRITE_BITS = 0" by auto
  have d: "distinct (map (\<lambda>(p, m, i). i) (rev (ig_restore g)))" using spec(2) by (simp add: rev_map [symmetric])
  have drop: "\<exists>p. (p, ft_mode t i, i) \<in> set (ig_restore g) \<and> ft_at u p = Some (Object i) \<and> ft_mode (guard_drop opens g u) i = ft_mode t i"
    if change: "ft_mode (guard_drop opens g u) i \<noteq> ft_mode u i" for u i
  proof -
    have "i \<in> (\<lambda>(p, m, i). i) ` set (rev (ig_restore g))"
      using change restore_paths_other [of i "rev (ig_restore g)" opens u] by (auto simp: guard_drop_def)
    then obtain p m where pm: "(p, m, i) \<in> set (ig_restore g)" by auto
    then show ?thesis using change restore_paths_held [OF d, of p m i opens u] spec(3) by (force simp: guard_drop_def split: if_splits)
  qed
  have same: "guard_drop opens g t' = t" if "\<forall>(p, m, i)\<in>set (ig_restore g). opens p"
  proof -
    have "ft_mode (guard_drop opens g t') i = ft_mode t i" for i
    proof (cases "i \<in> (\<lambda>(p, m, i). i) ` set (ig_restore g)")
      case True
      then obtain p m where pm: "(p, m, i) \<in> set (ig_restore g)" by auto
      then show ?thesis using restore_paths_held [OF d, of p m i opens t'] spec(1,3) that by (force simp: guard_drop_def)
    next
      case False
      then show ?thesis using restore_paths_other [of i "rev (ig_restore g)" opens t'] spec(4) by (simp add: guard_drop_def)
    qed
    moreover have "ft_at (guard_drop opens g t') = ft_at t" by (simp add: guard_drop_def restore_paths_at spec(1))
    ultimately show ?thesis by (intro file_tree.equality) auto
  qed
  show ?thesis using spec(4,5) drop same e by blast
qed

text \<open>
  C24. The guard holds the declared inputs where permissions bind, says whether it does, and gives back what it took. A guard
  says it is enforced exactly on Unix for a user other than root. Then, while it is held, no object at a declared path has
  a write bit, and no other object was touched. Otherwise nothing is touched at all. Whatever the step then does to names
  and modes (the tree \<open>u\<close>), dropping the guard sets the mode of an object only if the object was held and still stands at
  the path it was held under, and then to the mode it had before; every other object keeps the mode the step left it with,
  in particular what a link or a file moved to the path refers to. Where the step changed nothing and the held paths can
  be opened, all modes are the old ones.
\<close>

theorem guard_restores:
  assumes "guard_hold unix root fails opens paths t = (Inr g, t')"
  shows "(ig_enforced g \<longleftrightarrow> unix \<and> \<not> root) \<and>
    (ig_enforced g \<longrightarrow> (\<forall>p\<in>set paths. \<exists>i. ft_at t p = Some (Object i) \<and> ft_mode t' i AND WRITE_BITS = 0)) \<and>
    (\<not> ig_enforced g \<longrightarrow> t' = t \<and> (\<forall>u. guard_drop opens g u = u)) \<and>
    (\<forall>i. i \<notin> (\<lambda>(p, m, i). i) ` set (ig_restore g) \<longrightarrow> ft_mode t' i = ft_mode t i) \<and>
    (\<forall>u i. ft_mode (guard_drop opens g u) i \<noteq> ft_mode u i \<longrightarrow>
       (\<exists>p. (p, ft_mode t i, i) \<in> set (ig_restore g) \<and> ft_at u p = Some (Object i) \<and> ft_mode (guard_drop opens g u) i = ft_mode t i)) \<and>
    ((\<forall>(p, m, i)\<in>set (ig_restore g). opens p) \<longrightarrow> guard_drop opens g t' = t)"
proof (cases "unix \<and> \<not> root")
  case True
  then show ?thesis using guard_restores_enforced [of fails opens paths t g t'] assms by simp
next
  case False
  then have "g = \<lparr>ig_restore = [], ig_enforced = False\<rparr>" "t' = t" using assms by (auto simp: guard_hold_def)
  then show ?thesis using False by (auto simp: guard_drop_def)
qed

theorem guard_restores_witness:
  "\<exists>g t'. guard_hold True False (\<lambda>_. None) (\<lambda>_. True) [''a'']
      \<lparr>ft_at = [''a'' \<mapsto> Object (Inode 1 2)], ft_mode = (\<lambda>_. 0x1A4)\<rparr> = (Inr g, t') \<and> ft_mode t' (Inode 1 2) AND WRITE_BITS = 0"
proof -
  let ?t = "\<lparr>ft_at = [''a'' \<mapsto> Object (Inode 1 2)], ft_mode = (\<lambda>_. 0x1A4)\<rparr>"
  obtain g t' where h: "guard_hold True False (\<lambda>_. None) (\<lambda>_. True) [''a''] ?t = (Inr g, t')"
    by (simp add: guard_hold_def WRITE_BITS_def)
  have "\<forall>p\<in>set [''a'']. \<exists>i. ft_at ?t p = Some (Object i) \<and> ft_mode t' i AND WRITE_BITS = 0"
    using guard_restores [OF h] by simp
  then show ?thesis using h by auto
qed

end
