(* ===== verification/Snapshot.thy ===== *)
theory Snapshot
  imports Hashing "HOL-Library.Multiset" "HOL-Library.Sublist"
begin

text \<open>
  The snapshot of a capsule step's declared inputs, from \<open>InputSnapshot\<close> and \<open>copy_tree\<close> of \<open>src/executor/mod.rs\<close>: which
  paths are copied, the copy of a tree, and what the removal of the copy does to it.

  A tree is a value (\<open>node\<close>), as the operating system shows it below a path: a file or a directory with its mode, or a
  symbolic link with its target. A directory lists its entries in the order of \<open>read_dir\<close>.
\<close>

datatype node =
    FileNode u32 bytes
  | LinkNode bytes
  | DirNode u32 "(bytes \<times> node) list"

section \<open>The copy of a tree\<close>

lemma size_sort_key [simp]: "size_list (size_prod s t) (sort_key f xs) = size_list (size_prod s t) xs"
proof -
  have "sum_list (map g (sort_key f xs)) = sum_list (map g xs)" for g :: "_ \<Rightarrow> nat"
    by (metis mset_map mset_sort sum_mset_sum_list)
  then show ?thesis by (simp add: size_list_conv_sum_list)
qed

text \<open>\<open>None\<close> is a link with an absolute target, which a snapshot refuses. The copy of a directory has its entries in the
  order of their names, and the mode of the original.\<close>

function (sequential) copy_tree :: "node \<Rightarrow> node option" and copy_entries :: "(bytes \<times> node) list \<Rightarrow> (bytes \<times> node) list option" where
  "copy_tree (LinkNode target) = (if path_is_absolute (components target) then None else Some (LinkNode target))"
| "copy_tree (DirNode m entries) = map_option (DirNode m) (copy_entries (sort_key fst entries))"
| "copy_tree (FileNode m content) = Some (FileNode m content)"
| "copy_entries [] = Some []"
| "copy_entries ((name, n) # entries) =
     Option.bind (copy_tree n) (\<lambda>n'. map_option ((#) (name, n')) (copy_entries entries))"
  by pat_completeness auto
termination
  by (relation "measure (case_sum size (size_list (size_prod (\<lambda>_. 0) size)))") auto

text \<open>\<open>Drop\<close> of a snapshot: every directory becomes accessible to its owner, links are not followed.\<close>

unbundle bit_operations_syntax

fun grant_access :: "node \<Rightarrow> node" where
  "grant_access (DirNode m entries) = DirNode (m OR 0x1C0) (map (map_prod id grant_access) entries)"
| "grant_access n = n"

section \<open>The copied paths\<close>

definition relative_components :: "path \<Rightarrow> bytes list option" where
  "relative_components p = (if list_all (\<lambda>c. case c of Normal _ \<Rightarrow> True | CurDir \<Rightarrow> True | _ \<Rightarrow> False) p
     then Some (concat (map (\<lambda>c. case c of Normal n \<Rightarrow> [n] | _ \<Rightarrow> []) p)) else None)"

fun minimal_paths :: "bytes list list \<Rightarrow> bytes list list \<Rightarrow> bytes list list" where
  "minimal_paths acc [] = acc"
| "minimal_paths acc (p # ps) =
     (if list_ex (\<lambda>parent. prefix parent p) acc then minimal_paths acc ps else minimal_paths (acc @ [p]) ps)"

definition snapshot_paths :: "bytes list \<Rightarrow> bytes list list option" where
  "snapshot_paths inputs =
     map_option (\<lambda>ps. minimal_paths [] (remdups_adj (sort ps))) (those (map (relative_components \<circ> components) inputs))"

section \<open>Properties\<close>

fun node_at :: "node \<Rightarrow> bytes list \<Rightarrow> node option" where
  "node_at n [] = Some n"
| "node_at (DirNode m entries) (name # p) = Option.bind (map_of entries name) (\<lambda>n. node_at n p)"
| "node_at n (name # p) = None"

text \<open>What a directory entry is, apart from the entries below it.\<close>

fun node_kind :: "node \<Rightarrow> node" where
  "node_kind (DirNode m entries) = DirNode m []"
| "node_kind n = n"

lemma map_of_hd_filter: "map_of xs k = (case filter (\<lambda>x. fst x = k) xs of [] \<Rightarrow> None | x # _ \<Rightarrow> Some (snd x))"
  by (induction xs) auto

lemma map_of_sort_key: "map_of (sort_key fst xs) = map_of xs"
  by (rule ext) (simp add: map_of_hd_filter sort_key_stable)

lemma copy_at:
  "copy_tree n = Some n' \<Longrightarrow> map_option node_kind (node_at n' p) = map_option node_kind (node_at n p)"
  "copy_entries es = Some es' \<Longrightarrow> map_option node_kind (Option.bind (map_of es' name) (\<lambda>n. node_at n q)) =
     map_option node_kind (Option.bind (map_of es name) (\<lambda>n. node_at n q))"
proof (induction n and es arbitrary: n' p and es' name q rule: copy_tree_copy_entries.induct)
  case (2 m entries)
  then obtain es' where es: "copy_entries (sort_key fst entries) = Some es'" "n' = DirNode m es'" by auto
  show ?case
  proof (cases p)
    case (Cons name q)
    then show ?thesis using 2(1) [OF es(1), of name q] es(2) by (simp add: map_of_sort_key)
  qed (simp add: es)
next
  case (5 name' n entries)
  then obtain m es'' where "copy_tree n = Some m" "copy_entries entries = Some es''" "es' = (name', m) # es''"
    by (auto simp: bind_eq_Some_conv)
  then show ?case using 5(1) [of m q] 5(2) [of m es'' name q] by auto
qed (auto split: if_splits)

lemma copy_relative:
  "copy_tree n = Some n' \<Longrightarrow> node_at n' p = Some (LinkNode target) \<Longrightarrow> \<not> path_is_absolute (components target)"
  "copy_entries es = Some es' \<Longrightarrow> map_of es' name = Some n'' \<Longrightarrow> node_at n'' q = Some (LinkNode target) \<Longrightarrow> \<not> path_is_absolute (components target)"
proof (induction n and es arbitrary: n' p and es' name q n'' rule: copy_tree_copy_entries.induct)
  case (1 link)
  then show ?case by (cases p) (auto split: if_splits)
next
  case (2 m entries)
  then obtain es' where es: "copy_entries (sort_key fst entries) = Some es'" "n' = DirNode m es'" by auto
  show ?case
  proof (cases p)
    case (Cons name q)
    then show ?thesis using 2(1) [OF es(1), of name _ q] 2(3) es(2) by (auto simp: bind_eq_Some_conv)
  qed (use 2 es in auto)
next
  case (3 m content)
  then show ?case by (cases p) auto
next
  case (5 name' n entries)
  then obtain m es'' where "copy_tree n = Some m" "copy_entries entries = Some es''" "es' = (name', m) # es''"
    by (auto simp: bind_eq_Some_conv)
  then show ?case using 5(1) [of m q] 5(2) [of m es'' name n'' q] 5(4,5) by (auto split: if_splits)
qed auto

lemma prefix_le: "prefix xs ys \<Longrightarrow> xs \<le> ys" for xs :: "'a::linorder list"
proof (induction xs arbitrary: ys)
  case (Cons x xs)
  then show ?case by (cases ys) auto
qed simp

lemma minimal_paths_set: "set (minimal_paths acc ps) \<subseteq> set acc \<union> set ps"
  by (induction acc ps rule: minimal_paths.induct) auto

lemma minimal_paths_acc: "set acc \<subseteq> set (minimal_paths acc ps)"
  by (induction acc ps rule: minimal_paths.induct) auto

lemma minimal_paths_cover: "p \<in> set ps \<Longrightarrow> \<exists>q\<in>set (minimal_paths acc ps). prefix q p"
proof (induction acc ps rule: minimal_paths.induct)
  case (2 acc p' ps)
  then show ?case using minimal_paths_acc [of acc ps] minimal_paths_acc [of "acc @ [p']" ps] by (auto simp: list_ex_iff) 
qed simp

lemma minimal_paths_antichain:
  assumes "sorted_wrt (<) (acc @ ps)" "\<forall>q\<in>set acc. \<forall>r\<in>set acc. prefix q r \<longrightarrow> q = r"
  shows "sorted_wrt (<) (minimal_paths acc ps) \<and> (\<forall>q\<in>set (minimal_paths acc ps). \<forall>r\<in>set (minimal_paths acc ps). prefix q r \<longrightarrow> q = r)"
  using assms
proof (induction acc ps rule: minimal_paths.induct)
  case (2 acc p ps)
  have "\<not> prefix p q" if "q \<in> set acc" for q using 2(3) that prefix_le [of p q] by (auto simp: sorted_wrt_append)
  then show ?case using 2 by (auto simp: list_ex_iff sorted_wrt_append)
qed simp

lemma sorted_remdups_strict: "sorted xs \<Longrightarrow> sorted_wrt (<) (remdups_adj xs)"
proof (induction xs rule: remdups_adj.induct)
  case (3 x y xs)
  show ?case
  proof (cases "x = y")
    case False
    then have "\<forall>z\<in>set (y # xs). x < z" using 3(3) by force
    then show ?thesis using 3 False by simp
  qed (use 3 in simp)
qed simp_all

lemma those_set: "those os = Some xs \<Longrightarrow> os = map Some xs"
  by (induction os arbitrary: xs) (auto split: option.splits)

text \<open>
  C25. The snapshot copies every declared input once, and copies it as it is. The paths it copies are declared ones, every
  declared path is one of them or lies below one, and none lies below another. At every path inside a copied tree the
  copy has what the original has: the same file with its mode and content, the same link, a directory of the same mode,
  or nothing; and no link in it is absolute.
\<close>

theorem snapshot_faithful:
  assumes "snapshot_paths inputs = Some ps" "copy_tree n = Some n'"
  shows "sorted_wrt (<) ps \<and> (\<forall>q\<in>set ps. \<forall>r\<in>set ps. prefix q r \<longrightarrow> q = r) \<and>
    set ps \<subseteq> {p. \<exists>i\<in>set inputs. relative_components (components i) = Some p} \<and>
    (\<forall>i\<in>set inputs. \<exists>p q. relative_components (components i) = Some (p @ q) \<and> p \<in> set ps) \<and>
    (\<forall>p. map_option node_kind (node_at n' p) = map_option node_kind (node_at n p)) \<and>
    (\<forall>p target. node_at n' p = Some (LinkNode target) \<longrightarrow> \<not> path_is_absolute (components target))"
proof -
  obtain xs where xs: "map (relative_components \<circ> components) inputs = map Some xs" "ps = minimal_paths [] (remdups_adj (sort xs))"
    using assms(1) by (auto simp: snapshot_paths_def dest: those_set)
  have mem: "p \<in> set xs \<longleftrightarrow> (\<exists>i\<in>set inputs. relative_components (components i) = Some p)" for p
    using arg_cong [OF xs(1), of set] by (metis (no_types, lifting) comp_apply image_iff image_set option.inject)
  have all: "\<exists>p\<in>set xs. relative_components (components i) = Some p" if "i \<in> set inputs" for i
    using that arg_cong [OF xs(1), of set] by auto
  have sorted: "sorted_wrt (<) (remdups_adj (sort xs))"
    by (rule sorted_remdups_strict) simp
  have "set ps \<subseteq> set xs" using minimal_paths_set [of "[]" "remdups_adj (sort xs)"] by (simp add: xs(2))
  moreover have "\<exists>p q. relative_components (components i) = Some (p @ q) \<and> p \<in> set ps" if "i \<in> set inputs" for i
    using all [OF that] minimal_paths_cover [of _ "remdups_adj (sort xs)" "[]"] by (fastforce simp: xs(2) prefix_def)
  moreover note minimal_paths_antichain [of "[]" "remdups_adj (sort xs)", folded xs(2)] copy_at(1) [OF assms(2)] copy_relative(1) [OF assms(2)]
  ultimately show ?thesis using sorted mem by auto
qed

theorem snapshot_faithful_witness:
  "sorted_wrt (<) [[''link''], [''src'']] \<and> node_at (DirNode 0x1ED [(''a'', FileNode 0x1A4 ''x'')]) [''a''] = Some (FileNode 0x1A4 ''x'')"
  using snapshot_faithful [of "[''src'', ''src/a'', ''./src'', ''link'', ''link'']" "[[''link''], [''src'']]"
      "DirNode 0x1ED [(''a'', FileNode 0x1A4 ''x'')]" "DirNode 0x1ED [(''a'', FileNode 0x1A4 ''x'')]"]
  by (simp add: snapshot_paths_def relative_components_def components_def component_of_def starts_with_def prefix_def)

end
