(* ===== verification/Executor.thy ===== *)
theory Executor
  imports Storage Sandbox Modes Evidence Guard Snapshot Provenance
begin

text \<open>
  The execution engine, from \<open>src/executor/mod.rs\<close>: the environment of a
  step, the snapshot a capsule step reads, the cache, what is recorded of a step, which steps run at all, the causal
  events and the receipt of a run.

  The workspace is the file system of the hashing model. It changes only when a command runs: \<open>xe_process\<close> gives what a
  started process does over time and the file system it leaves, \<open>xe_container\<close> and \<open>xe_capsule_run\<close> the outcome of a container of
  the sandbox and of a capsule, \<open>None\<close> where it does not return. Further
  parameters (\<open>executor_env\<close>): the codecs, the modes the guard on the inputs sees (\<open>xe_modes\<close>), the
  trees a snapshot copies (\<open>xe_node\<close>) and the view of a directory that holds the copies (\<open>xe_holding\<close>), and the readings of
  the clock for each step. A run is \<open>None\<close> when it does not end: it waits for a dependency that never completes, or for a
  command that never returns.
\<close>

section \<open>Data\<close>

record executor_config =
  ex_isolated :: bool
  ex_sign_results :: bool
  ex_max_parallel :: nat
  ex_deterministic :: bool
  ex_container_image :: "bytes option"
  ex_container_runtime :: "container_runtime option"
  ex_sandbox_config :: "sandbox_config option"
  ex_hermetic :: bool

definition default_executor_config :: "nat \<Rightarrow> executor_config" where
  "default_executor_config cpus = \<lparr>ex_isolated = False, ex_sign_results = False, ex_max_parallel = cpus, ex_deterministic = True,
     ex_container_image = None, ex_container_runtime = None, ex_sandbox_config = None, ex_hermetic = False\<rparr>"

record inputs_held =
  ih_executed :: nat
  ih_in_capsule :: nat
  ih_guard_applied :: bool

datatype executor_error =
    ExDag dag_error
  | ExStepMissing bytes
  | ExCapsule capsule_error
  | ExStorage storage_error
  | ExHashing hashing_error
  | ExGuard
  | ExSandbox sandbox_error
  | ExSnapshot
  | ExSnapshotRoot
  | ExSnapshotChanged bytes
  | ExInputsModified bytes
  | ExWorkingDir bytes
  | ExKey

text \<open>The readings of the clock while a step runs, and what is fresh for its container.\<close>

record step_readings =
  rd_duration :: u64
  rd_cached :: int
  rd_index :: "int \<times> int \<times> int"
  rd_now :: int
  rd_fresh :: "bytes \<times> bytes"
  rd_event :: int

record executor_env =
  xe_storage :: storage_env
  xe_sandbox :: sandbox_env
  xe_capsule :: capsule_env
  xe_capsules :: "bytes \<rightharpoonup> bytes"
  xe_step_json :: "step \<Rightarrow> bytes"
  xe_pipeline_yaml :: "pipeline \<Rightarrow> bytes"
  xe_lossy :: "bytes \<Rightarrow> bytes"
  xe_workspace :: path
  xe_workspace_name :: bytes
  xe_is_dir :: "fs \<Rightarrow> bytes \<Rightarrow> bool"
  xe_exists :: "fs \<Rightarrow> bytes \<Rightarrow> bool"
  xe_root :: bool
  xe_modes :: "fs \<Rightarrow> path file_tree"
  xe_fails :: "path \<Rightarrow> path guard_error option"
  xe_opens :: "path \<Rightarrow> bool"
  xe_process :: "process_command \<Rightarrow> fs \<Rightarrow> process_run \<times> fs"
  xe_container :: "launch \<Rightarrow> fs \<Rightarrow> ((sandbox_error, timed_output) result \<times> fs) option"
  xe_capsule_run :: "bytes list \<Rightarrow> fs \<Rightarrow> ((32 word option \<times> bytes \<times> bytes) option \<times> fs) option"
  xe_node :: "fs \<Rightarrow> path \<Rightarrow> node option"
  xe_tempdir :: "(path \<times> bytes) option"
  xe_holding :: "(path \<times> node) list \<Rightarrow> fs"
  xe_readings :: "bytes \<Rightarrow> step_readings"
  xe_os :: bytes
  xe_arch :: bytes
  xe_version :: bytes

abbreviation xe_blake3 :: "executor_env \<Rightarrow> bytes \<Rightarrow> digest" where "xe_blake3 x \<equiv> so_blake3 (xe_storage x)"

record run_state =
  rs_fs :: fs
  rs_storage :: storage
  rs_sandbox :: "sandbox option"
  rs_held :: inputs_held
  rs_results :: "step_result list"
  rs_artifacts :: "artifact_info list"
  rs_completed :: "bytes list"
  rs_unsuccessful :: "bytes list"

section \<open>Creating an executor\<close>

definition create_default_sandbox_config :: "(bytes \<Rightarrow> bytes option) \<Rightarrow> executor_config \<Rightarrow> sandbox_config" where
  "create_default_sandbox_config which ec =
     \<lparr>isolation_level = (if ex_container_image ec \<noteq> None then ContainerIsolation else ProcessIsolation),
      deterministic_time = ex_deterministic ec, fixed_timestamp = None, resource_limits = default_resource_limits,
      network_policy = NetDisabled, filesystem_policy = default_filesystem_policy,
      container_config = map_option (secure_attest_config which) (ex_container_image ec),
      seccomp_profile = Some ''minimal'', security_level = Minimal, inherit_environment = \<not> ex_hermetic ec\<rparr>"

definition executor_sandbox :: "sandbox_env \<Rightarrow> executor_config \<Rightarrow> (sandbox_error, sandbox option) result" where
  "executor_sandbox sx ec =
     (if ex_isolated ec then
        let c = (case ex_sandbox_config ec of Some c \<Rightarrow> c | None \<Rightarrow> create_default_sandbox_config (sx_which sx) ec);
            c = (if ex_hermetic ec then c\<lparr>inherit_environment := False\<rparr> else c)
        in and_then (sandbox_new sx c) (\<lambda>sb. Inr (Some sb))
      else Inr None)"

section \<open>One step\<close>

definition hash_algorithm_name :: "mode_config option \<Rightarrow> bytes" where
  "hash_algorithm_name mc = (case mc of
       Some c \<Rightarrow> (case hash_algorithm (crypto c) of Blake3 \<Rightarrow> ''blake3'' | Sha256 \<Rightarrow> ''sha256'' | Sha3_256 \<Rightarrow> ''sha3-256'')
     | None \<Rightarrow> ''blake3'')"

definition framework_name :: "compliance_framework \<Rightarrow> bytes" where
  "framework_name f = (case f of Basic \<Rightarrow> ''Basic'' | SOX \<Rightarrow> ''SOX'' | PCI \<Rightarrow> ''PCI'' | HIPAA \<Rightarrow> ''HIPAA'' | FedRAMP \<Rightarrow> ''FedRAMP'' | SLSA \<Rightarrow> ''SLSA'')"

definition apply_mode_optimizations :: "mode_config option \<Rightarrow> bytes btree" where
  "apply_mode_optimizations mc = (case mc of
       None \<Rightarrow> []
     | Some c \<Rightarrow>
         let e = hash_extend [] [(''ATTEST_MODE'', show_mode (mode c)), (''ATTEST_HASH_ALGORITHM'', hash_algorithm_name mc)];
             e = (if mode c = Light then hash_extend e [(''ATTEST_SKIP_EXPENSIVE_CHECKS'', ''true''), (''ATTEST_CACHE_AGGRESSIVE'', ''true'')] else e);
             e = (if mode c = FormalProof then hash_extend e [(''ATTEST_STRICT_MODE'', ''true''), (''ATTEST_REQUIRE_SIGNATURES'', ''true'')] else e)
         in (case compliance_framework (audit c) of
               Some f \<Rightarrow> hash_extend e [(''ATTEST_COMPLIANCE_FRAMEWORK'', framework_name f)]
             | None \<Rightarrow> e))"

definition step_environment :: "executor_config \<Rightarrow> mode_config option \<Rightarrow> pipeline \<Rightarrow> bytes \<Rightarrow> step \<Rightarrow> bytes option \<Rightarrow> bytes btree" where
  "step_environment ec mc p name st capsule_hash =
     (let e = hash_extend (pipeline_env p) (case step_env st of Some se \<Rightarrow> se | None \<Rightarrow> []);
          e = hash_extend e [(''ATTEST_STEP_NAME'', name), (''ATTEST_DETERMINISTIC'', show_bool (ex_deterministic ec))];
          e = hash_extend e (apply_mode_optimizations mc);
          e = (if ex_hermetic ec then hash_extend e HERMETIC_ENV else e)
      in (case capsule_hash of Some h \<Rightarrow> hash_extend e [(''ATTEST_CAPSULE_HASH'', h)] | None \<Rightarrow> e))"

definition load_capsule :: "executor_env \<Rightarrow> step \<Rightarrow> (executor_error, capsule_manifest option) result" where
  "load_capsule x st = (case step_capsule st of
       None \<Rightarrow> Inr None
     | Some name \<Rightarrow>
         and_then (map_err ExCapsule (validate_input_paths (step_inputs st))) (\<lambda>_.
         and_then (map_err ExCapsule (capsule_load (xe_capsule x) (xe_capsules x) name)) (\<lambda>m. Inr (Some m))))"

definition compute_input_hash :: "executor_env \<Rightarrow> fs \<Rightarrow> bytes \<Rightarrow> step \<Rightarrow> (executor_error, bytes) result" where
  "compute_input_hash x f name st =
     map_err ExHashing (hash_inputs (xe_blake3 x) f (xe_workspace x) name (step_run st) (map components (step_inputs st)))"

definition outputs_still_match :: "executor_env \<Rightarrow> fs \<Rightarrow> bytes \<Rightarrow> step \<Rightarrow> cache_entry \<Rightarrow> bool" where
  "outputs_still_match x f name st entry =
     (case hash_outputs (xe_blake3 x) f (xe_workspace x) name (map components (step_outputs st)) of
        Inr on_disk \<Rightarrow> on_disk = sr_output_hash (ce_result entry)
      | Inl _ \<Rightarrow> False)"

text \<open>The inputs a capsule reads: a copy in a fresh directory, which is compared by hash before it is used.\<close>

fun copy_paths :: "executor_env \<Rightarrow> fs \<Rightarrow> bytes list list \<Rightarrow> (path \<times> node) list option" where
  "copy_paths x f [] = Some []"
| "copy_paths x f (p # ps) =
     Option.bind (xe_node x f (path_join (xe_workspace x) (map Normal p))) (\<lambda>n.
     Option.bind (copy_tree n) (\<lambda>n'. map_option ((#) (map Normal p, n')) (copy_paths x f ps)))"

definition snapshot_take :: "executor_env \<Rightarrow> fs \<Rightarrow> bytes \<Rightarrow> step \<Rightarrow> bytes \<Rightarrow> (executor_error, input_mounts) result" where
  "snapshot_take x f name st expected =
     and_then (map_err ExCapsule (validate_input_paths (step_inputs st))) (\<lambda>_.
     and_then (ok_or (xe_tempdir x) ExSnapshot) (\<lambda>(root, root_name).
     ensure (\<not> path_starts_with root (xe_workspace x)) ExSnapshotRoot (
     and_then (ok_or (snapshot_paths (step_inputs st)) ExSnapshot) (\<lambda>paths.
     and_then (ok_or (copy_paths x f paths) ExSnapshot) (\<lambda>copies.
     and_then (map_err ExHashing (hash_inputs (xe_blake3 x) (xe_holding x copies) root name (step_run st) (map components (step_inputs st)))) (\<lambda>hashed.
     ensure (hashed = expected) (ExSnapshotChanged name) (Inr \<lparr>im_root = root_name, im_paths = map (join ''/'') paths\<rparr>)))))))"

definition execute_step_in_capsule ::
  "executor_env \<Rightarrow> capsule_manifest \<Rightarrow> bytes \<Rightarrow> step \<Rightarrow> bytes \<Rightarrow> fs \<Rightarrow> ((executor_error, timed_output) result \<times> fs) option" where
  "execute_step_in_capsule x m name st expected f =
     (case snapshot_take x f name st expected of
        Inl e \<Rightarrow> Some (Inl e, f)
      | Inr mounts \<Rightarrow>
          map_option (\<lambda>(output, f). (case output of
              None \<Rightarrow> Inl (ExSandbox SpawnFailed)
            | Some (code, out, err) \<Rightarrow>
                Inr \<lparr>to_exit_code = (case code of Some c \<Rightarrow> c | None \<Rightarrow> - 1), to_stdout = xe_lossy x out, to_stderr = xe_lossy x err\<rparr>, f))
            (xe_capsule_run x (run_args (xe_exists x f) m (xe_workspace_name x) mounts [''sh'', ''-c'', step_run st]) f))"

text \<open>Without a sandbox: the process inherits the environment unless the run is hermetic.\<close>

definition direct_command :: "executor_env \<Rightarrow> executor_config \<Rightarrow> fs \<Rightarrow> step \<Rightarrow> bytes btree \<Rightarrow> (executor_error, process_command) result" where
  "direct_command x ec f st environ =
     (let dir = map_option (join_path (xe_workspace_name x)) (working_dir st) in
      ensure (case dir of Some d \<Rightarrow> xe_is_dir x f d | None \<Rightarrow> True) (ExWorkingDir (the dir)) (
      Inr \<lparr>pc_program = ''sh'', pc_args = [''-c'', step_run st], pc_clear = ex_hermetic ec,
        pc_env = (if ex_hermetic ec \<and> \<not> contains_key environ ''PATH'' then hash_extend environ (ambient_path (xe_sandbox x)) else environ),
        pc_dir = dir, pc_memory = None, pc_files = None, pc_timeout = timeout_secs st\<rparr>))"

text \<open>A process is waited for by \<open>run_with_timeout\<close>.\<close>

definition run_launch :: "executor_env \<Rightarrow> launch \<Rightarrow> fs \<Rightarrow> ((sandbox_error, timed_output) result \<times> fs) option" where
  "run_launch x l f = (case l of
       Process pc \<Rightarrow> (case xe_process x pc f of (pr, f) \<Rightarrow> map_option (\<lambda>r. (r, f)) (run_with_timeout (xe_lossy x) pr (pc_timeout pc)))
     | _ \<Rightarrow> xe_container x l f)"

definition execute_step ::
  "executor_env \<Rightarrow> executor_config \<Rightarrow> bytes \<Rightarrow> step \<Rightarrow> bytes btree \<Rightarrow> sandbox option \<Rightarrow> fs
    \<Rightarrow> ((executor_error, timed_output \<times> sandbox option) result \<times> fs) option" where
  "execute_step x ec name st environ sbo f =
     (case sbo of
        Some sb \<Rightarrow>
          (case execute_with_timeout (xe_sandbox x) (rd_fresh (xe_readings x name)) (rd_now (xe_readings x name)) ''sh'' [''-c'', step_run st]
              environ (working_dir st) (timeout_secs st) sb of
             Inl e \<Rightarrow> Some (Inl (ExSandbox e), f)
           | Inr (l, sb) \<Rightarrow> map_option (\<lambda>(r, f). (and_then (map_err ExSandbox r) (\<lambda>out. Inr (out, Some sb)), f)) (run_launch x l f))
      | None \<Rightarrow>
          (case direct_command x ec f st environ of
             Inl e \<Rightarrow> Some (Inl e, f)
           | Inr pc \<Rightarrow> map_option (\<lambda>(r, f). (and_then (map_err ExSandbox r) (\<lambda>out. Inr (out, None)), f)) (run_launch x (Process pc) f)))"

text \<open>The paths the guard holds: a declared file, or what the walk finds below a declared directory, links apart. A missing input
  is left to the hashing.\<close>

definition guard_paths :: "fs \<Rightarrow> path \<Rightarrow> bytes list \<Rightarrow> path list" where
  "guard_paths f workspace inputs = concat (map (\<lambda>input.
     let root = path_join workspace (components input) in
     (case symlink_metadata f root of
        None \<Rightarrow> []
      | Some IsDir \<Rightarrow> concat (map (\<lambda>e. case e of Inr (p, t) \<Rightarrow> if t = IsSymlink then [] else [p] | Inl _ \<Rightarrow> []) (walk_dir f root))
      | Some IsSymlink \<Rightarrow> []
      | Some IsFile \<Rightarrow> [root])) inputs)"

text \<open>The guard changes modes only, and they are put back when the step has ended: what a step does under it is part of
  \<open>xe_process\<close>.\<close>

definition hold_inputs :: "executor_env \<Rightarrow> fs \<Rightarrow> bytes list \<Rightarrow> bool option" where
  "hold_inputs x f inputs =
     (case fst (guard_hold (sx_unix (xe_sandbox x)) (xe_root x) (xe_fails x) (xe_opens x)
         (guard_paths f (xe_workspace x) inputs) (xe_modes x f)) of
        Inl _ \<Rightarrow> None
      | Inr g \<Rightarrow> Some (ig_enforced g))"

definition hold_count :: "bool \<Rightarrow> bool \<Rightarrow> inputs_held \<Rightarrow> inputs_held" where
  "hold_count enforced in_capsule h =
     (let n = ih_executed h + 1 in
      \<lparr>ih_executed = n, ih_in_capsule = (if in_capsule then ih_in_capsule h + 1 else ih_in_capsule h),
       ih_guard_applied = (n = 1 \<or> ih_guard_applied h) \<and> enforced\<rparr>)"

definition perform_step ::
  "executor_env \<Rightarrow> executor_config \<Rightarrow> bytes \<Rightarrow> step \<Rightarrow> bytes btree \<Rightarrow> capsule_manifest option \<Rightarrow> bytes \<Rightarrow> sandbox option \<Rightarrow> fs
    \<Rightarrow> ((executor_error, timed_output \<times> sandbox option) result \<times> fs) option" where
  "perform_step x ec name st environ capsule in_hash sbo f =
     (case capsule of
        Some m \<Rightarrow> map_option (\<lambda>(r, f). (and_then r (\<lambda>out. Inr (out, sbo)), f)) (execute_step_in_capsule x m name st in_hash f)
      | None \<Rightarrow> execute_step x ec name st environ sbo f)"

text \<open>Only successful results are cached, and only where the step asks for it.\<close>

definition remember_result ::
  "executor_env \<Rightarrow> fs \<Rightarrow> bytes \<Rightarrow> step \<Rightarrow> bytes btree \<Rightarrow> step_result \<Rightarrow> storage \<Rightarrow> (executor_error, storage) result" where
  "remember_result x f name st environ result s =
     (if step_cache st \<and> sr_exit_code result = 0 then
        and_then (map_err ExStorage (create_cache_entry (xe_storage x) f (xe_workspace x) (rd_cached (xe_readings x name)) name (step_run st)
          (map (\<lambda>i. (components i, i)) (step_inputs st)) (map (\<lambda>o'. (components o', o')) (step_outputs st)) environ result
          (case step_needs st of Some ns \<Rightarrow> ns | None \<Rightarrow> [])
          (execution_shape (xe_step_json x) (\<lambda>b. to_hex (xe_blake3 x b)) st))) (\<lambda>entry.
        map_err ExStorage (cache_store (xe_storage x) (rd_index (xe_readings x name)) entry s))
      else Inr s)"

text \<open>What is recorded of a step that ran.\<close>

definition recorded_result :: "executor_env \<Rightarrow> bytes \<Rightarrow> bytes \<Rightarrow> bytes \<Rightarrow> timed_output \<Rightarrow> capsule_manifest option \<Rightarrow> step_result" where
  "recorded_result x name in_hash out_hash out capsule =
     \<lparr>sr_name = name, sr_input_hash = in_hash, sr_output_hash = out_hash, sr_duration_secs = rd_duration (xe_readings x name),
      sr_exit_code = to_exit_code out, sr_cache_hit = False, sr_stdout = to_stdout out, sr_stderr = to_stderr out,
      sr_capsule_hash = Option.bind capsule cm_capsule_hash\<rparr>"

definition execute_and_record ::
  "executor_env \<Rightarrow> executor_config \<Rightarrow> bytes \<Rightarrow> step \<Rightarrow> bytes btree \<Rightarrow> capsule_manifest option \<Rightarrow> bytes \<Rightarrow> run_state
    \<Rightarrow> (executor_error, step_result \<times> run_state) result option" where
  "execute_and_record x ec name st environ capsule in_hash rs =
     (case hold_inputs x (rs_fs rs) (step_inputs st) of
        None \<Rightarrow> Some (Inl ExGuard)
      | Some enforced \<Rightarrow>
        map_option (\<lambda>(r, f).
        and_then r (\<lambda>(out, sb).
        and_then (compute_input_hash x f name st) (\<lambda>inputs_after.
        ensure (inputs_after = in_hash) (ExInputsModified name) (
        and_then (map_err ExHashing (outputs_with_artifacts (xe_blake3 x) f (xe_workspace x) name (map components (step_outputs st)))) (\<lambda>(out_hash, artifacts).
        let result = recorded_result x name in_hash out_hash out capsule
        in and_then (remember_result x f name st environ result (rs_storage rs)) (\<lambda>s.
           Inr (result, rs\<lparr>rs_fs := f, rs_sandbox := sb, rs_held := hold_count enforced (capsule \<noteq> None) (rs_held rs),
             rs_artifacts := rs_artifacts rs @ artifacts, rs_storage := s\<rparr>)))))))
          (perform_step x ec name st environ capsule in_hash (rs_sandbox rs) (rs_fs rs)))"

text \<open>The cache is consulted only where the step asks for it, and an entry whose outputs are no longer on disk is a miss.\<close>

definition lookup_cached ::
  "executor_env \<Rightarrow> fs \<Rightarrow> bytes \<Rightarrow> step \<Rightarrow> bytes \<Rightarrow> storage \<Rightarrow> (executor_error, cache_entry option \<times> storage) result" where
  "lookup_cached x f name st key s =
     (if step_cache st then
        and_then (map_err ExStorage (get_cached_entry (xe_storage x) key s)) (\<lambda>(found, s).
        Inr (case found of Some entry \<Rightarrow> if outputs_still_match x f name st entry then Some entry else None | None \<Rightarrow> None, s))
      else Inr (None, s))"

definition finish_step :: "bytes \<Rightarrow> step_result \<Rightarrow> run_state \<Rightarrow> run_state" where
  "finish_step name result rs =
     rs\<lparr>rs_results := rs_results rs @ [result], rs_completed := rs_completed rs @ [name],
       rs_unsuccessful := (if sr_exit_code result \<noteq> 0 then rs_unsuccessful rs @ [name] else rs_unsuccessful rs)\<rparr>"

text \<open>What is settled before a step runs: its capsule, its environment, the hash of its inputs, and what the cache has under its key.\<close>

definition prepare_step ::
  "executor_env \<Rightarrow> executor_config \<Rightarrow> mode_config option \<Rightarrow> pipeline \<Rightarrow> bytes \<Rightarrow> step \<Rightarrow> run_state
    \<Rightarrow> (executor_error, capsule_manifest option \<times> bytes btree \<times> bytes \<times> cache_entry option \<times> storage) result" where
  "prepare_step x ec mc p name st rs =
     and_then (load_capsule x st) (\<lambda>capsule.
     let environ = step_environment ec mc p name st (Option.bind capsule cm_capsule_hash) in
     and_then (map_err ExStorage (compute_content_hash (xe_storage x) (rs_fs rs) (xe_workspace x) name (step_run st)
       (map components (step_inputs st)) environ (execution_shape (xe_step_json x) (\<lambda>b. to_hex (xe_blake3 x b)) st))) (\<lambda>content_hash.
     and_then (compute_input_hash x (rs_fs rs) name st) (\<lambda>in_hash.
     and_then (lookup_cached x (rs_fs rs) name st content_hash (rs_storage rs)) (\<lambda>(found, s).
     Inr (capsule, environ, in_hash, found, s)))))"

definition process_step ::
  "executor_env \<Rightarrow> executor_config \<Rightarrow> mode_config option \<Rightarrow> pipeline \<Rightarrow> bytes \<Rightarrow> step \<Rightarrow> run_state \<Rightarrow> (executor_error, run_state) result option" where
  "process_step x ec mc p name st rs =
     (case prepare_step x ec mc p name st rs of
        Inl e \<Rightarrow> Some (Inl e)
      | Inr (capsule, environ, in_hash, found, s) \<Rightarrow>
          map_option (\<lambda>r. and_then r (\<lambda>(result, rs). Inr (finish_step name result rs)))
            (case found of
               Some entry \<Rightarrow> Some (Inr ((ce_result entry)\<lparr>sr_cache_hit := True\<rparr>, rs\<lparr>rs_storage := s\<rparr>))
             | None \<Rightarrow> execute_and_record x ec name st environ capsule in_hash (rs\<lparr>rs_storage := s\<rparr>)))"

section \<open>All steps\<close>

definition step_needs_of :: "step \<Rightarrow> bytes list" where
  "step_needs_of st = (case step_needs st of Some ns \<Rightarrow> ns | None \<Rightarrow> [])"

definition run_step ::
  "executor_env \<Rightarrow> executor_config \<Rightarrow> mode_config option \<Rightarrow> pipeline \<Rightarrow> bytes \<Rightarrow> run_state \<Rightarrow> (executor_error, run_state) result option" where
  "run_step x ec mc p name rs =
     (case map_of (steps p) name of
        None \<Rightarrow> Some (Inl (ExStepMissing name))
      | Some st \<Rightarrow>
          if list_ex (\<lambda>d. d \<in> set (rs_unsuccessful rs)) (step_needs_of st) then
            Some (Inr (rs\<lparr>rs_unsuccessful := rs_unsuccessful rs @ [name], rs_completed := rs_completed rs @ [name]\<rparr>))
          else if \<not> list_all (\<lambda>d. d \<in> set (rs_completed rs)) (step_needs_of st) then None
          else process_step x ec mc p name st rs)"

fun run_steps ::
  "executor_env \<Rightarrow> executor_config \<Rightarrow> mode_config option \<Rightarrow> pipeline \<Rightarrow> bytes list \<Rightarrow> run_state \<Rightarrow> (executor_error, run_state) result option" where
  "run_steps x ec mc p [] rs = Some (Inr rs)"
| "run_steps x ec mc p (name # order) rs =
     (case run_step x ec mc p name rs of
        None \<Rightarrow> None
      | Some (Inl e) \<Rightarrow> Some (Inl e)
      | Some (Inr rs) \<Rightarrow> run_steps x ec mc p order rs)"

section \<open>The receipt\<close>

definition pipeline_provenance :: "(bytes \<Rightarrow> digest) \<Rightarrow> pipeline \<Rightarrow> step_provenance list" where
  "pipeline_provenance blake3 p =
     sort_key sp_name (map (\<lambda>(name, st). provenance_step blake3 name (step_run st) (step_needs_of st) (step_inputs st) (step_outputs st)) (steps p))"

text \<open>The host context of a run; the instant and identifier are left out of a reproducible run.\<close>

definition run_provenance :: "host_env \<Rightarrow> executor_config \<Rightarrow> pipeline \<Rightarrow> execution_provenance" where
  "run_provenance h ec p = collect h (pipeline_name p)
     (ex_hermetic ec \<or> (case ex_sandbox_config ec of Some c \<Rightarrow> deterministic_time c \<and> fixed_timestamp c \<noteq> None | None \<Rightarrow> False))"

definition environment_hash_of :: "executor_env \<Rightarrow> executor_config \<Rightarrow> bytes" where
  "environment_hash_of x ec = to_hex (xe_blake3 x (xe_os x @ '':'' @ xe_arch x @ '':'' @ show_bool (ex_hermetic ec)))"

fun record_events ::
  "executor_env \<Rightarrow> pipeline \<Rightarrow> bytes \<Rightarrow> bytes \<Rightarrow> bytes list \<Rightarrow> step_result list \<Rightarrow> (bytes \<rightharpoonup> bytes) \<Rightarrow> storage
    \<Rightarrow> (executor_error, causal_event list \<times> storage) result" where
  "record_events x p pipe environ listing [] by_step s = Inr ([], s)"
| "record_events x p pipe environ listing (r # rs) by_step s =
     (let parents = (case map_of (steps p) (sr_name r) of Some st \<Rightarrow> List.map_filter by_step (step_needs_of st) | None \<Rightarrow> []) in
      and_then (map_err ExStorage (record_causal_event (xe_storage x) listing (rd_event (xe_readings x (sr_name r))) (sr_name r) parents r pipe environ s)) (\<lambda>(e, s).
      and_then (record_events x p pipe environ listing rs (by_step(sr_name r \<mapsto> event_id e)) s) (\<lambda>(es, s). Inr (e # es, s))))"

definition record_causal_events ::
  "executor_env \<Rightarrow> executor_config \<Rightarrow> pipeline \<Rightarrow> bytes list \<Rightarrow> step_result list \<Rightarrow> bytes \<Rightarrow> storage
    \<Rightarrow> (executor_error, (bytes list \<times> bytes option) \<times> storage) result" where
  "record_causal_events x ec p listing results pipe s =
     (if results = [] then Inr (([], None), s)
      else and_then (record_events x p pipe (environment_hash_of x ec) listing results Map.empty s) (\<lambda>(es, s).
        Inr ((map event_id es, Some (chain_hash (xe_blake3 x) (le_rfc3339 (so_ledger (xe_storage x))) es)), s)))"

definition receipt_timestamp :: "executor_config \<Rightarrow> int \<Rightarrow> int" where
  "receipt_timestamp ec now =
     (case Option.bind (ex_sandbox_config ec) (\<lambda>c. if deterministic_time c then fixed_timestamp c else None) of
        Some fixed \<Rightarrow> fixed
      | None \<Rightarrow> if ex_hermetic ec then HERMETIC_SOURCE_DATE_EPOCH * NANOS else now)"

definition inputs_control :: "bool \<Rightarrow> inputs_held \<Rightarrow> isolation_control" where
  "inputs_control unix h =
     (if ih_executed h = 0 then control ''inputs'' NotEnforced ''no step executed (every step was a cache hit)''
      else if ih_in_capsule h = ih_executed h then control ''inputs'' Enforced
        (''every step ran in a capsule with its declared inputs mounted read-only from a snapshot taken at hashing time: the runtime '' @
         ''refuses writes from inside, and a change on the host during the step never reaches the step'' @ [CHR 0x27] @ ''s view'')
      else if ih_guard_applied h then control ''inputs'' NotEnforced
        (''write bits dropped on declared inputs while each step ran, which refuses a plain write but not a step that restores the bits, '' @
         ''changes a file and puts it back before it ends; changes still present after the step are detected by re-hashing, changes undone '' @
         ''before it ends are not. Only a capsule enforces this ('' @ show_nat (ih_in_capsule h) @ '' of '' @ show_nat (ih_executed h) @ '' steps ran in one)'')
      else if unix then control ''inputs'' NotEnforced
        (''running as root, permission bits do not bind; changes to declared inputs are detected by re-hashing after the step, not prevented'')
      else control ''inputs'' NotAvailable
        (''no read-only view on this platform; changes to declared inputs are detected by re-hashing after the step, not prevented''))"

definition run_isolation :: "executor_env \<Rightarrow> executor_config \<Rightarrow> run_state \<Rightarrow> isolation_report" where
  "run_isolation x ec rs =
     (let report = (case rs_sandbox rs of Some sb \<Rightarrow> sandbox_report (xe_sandbox x) sb (ex_hermetic ec)
            | None \<Rightarrow> unisolated_report (sx_platform (xe_sandbox x)) (ex_hermetic ec)) in
      report\<lparr>iso_capsule_steps := map sr_name (filter (\<lambda>r. sr_capsule_hash r \<noteq> None) (rs_results rs)),
        iso_controls := iso_controls report @ [inputs_control (sx_unix (xe_sandbox x)) (rs_held rs)]\<rparr>)"

definition should_sign_receipt :: "executor_config \<Rightarrow> mode_config option \<Rightarrow> bool" where
  "should_sign_receipt ec mc = (case mc of Some c \<Rightarrow> signatures_enabled (crypto c) | None \<Rightarrow> ex_sign_results ec)"

definition initial_state :: "fs \<Rightarrow> storage \<Rightarrow> sandbox option \<Rightarrow> run_state" where
  "initial_state f s sb = \<lparr>rs_fs = f, rs_storage = s, rs_sandbox = sb,
     rs_held = \<lparr>ih_executed = 0, ih_in_capsule = 0, ih_guard_applied = False\<rparr>,
     rs_results = [], rs_artifacts = [], rs_completed = [], rs_unsuccessful = []\<rparr>"

text \<open>After the last step. \<open>base\<close> is the collected provenance (\<open>run_provenance\<close>), \<open>loader\<close> the signing authority, which
  is asked for only now (\<open>Some None\<close> is a failure), \<open>clock\<close> the time of the receipt and the duration of the run.\<close>

definition load_signing_key :: "attest_keypair option option \<Rightarrow> storage \<Rightarrow> (executor_error, storage) result" where
  "load_signing_key loader s = (case loader of
       None \<Rightarrow> Inr s
     | Some None \<Rightarrow> Inl ExKey
     | Some (Some kp) \<Rightarrow> Inr (set_keypair kp s))"

definition compute_pipeline_hash :: "executor_env \<Rightarrow> pipeline \<Rightarrow> bytes" where
  "compute_pipeline_hash x p = to_hex (xe_blake3 x (xe_pipeline_yaml x p))"

definition finish_run ::
  "executor_env \<Rightarrow> executor_config \<Rightarrow> mode_config option \<Rightarrow> execution_provenance \<Rightarrow> attest_keypair option option
    \<Rightarrow> bytes list \<Rightarrow> int \<times> u64 \<Rightarrow> pipeline \<Rightarrow> run_state \<Rightarrow> (executor_error, receipt \<times> run_state) result" where
  "finish_run x ec mc base loader listing clock p rs =
     and_then (load_signing_key loader (rs_storage rs)) (\<lambda>s.
     let pipe = compute_pipeline_hash x p in
     and_then (record_causal_events x ec p listing (rs_results rs) pipe s) (\<lambda>((ids, root), s).
     let receipt = \<lparr>r_schema_version = Some RECEIPT_SCHEMA_VERSION, r_pipeline_hash = pipe, r_steps = rs_results rs,
           r_timestamp = receipt_timestamp ec (fst clock), r_total_duration_secs = snd clock, r_signature = None,
           r_signer_public_key = None, r_attest_version = xe_version x, r_causal_events = ids, r_causal_chain_hash = root,
           r_reproducibility = None,
           r_provenance = Some (base\<lparr>ep_steps := pipeline_provenance (xe_blake3 x) p, ep_artifacts := rs_artifacts rs\<rparr>),
           r_timestamp_token = None, r_isolation = Some (run_isolation x ec rs)\<rparr>
     in Inr (if should_sign_receipt ec mc then sign_receipt (xe_storage x) s receipt else receipt, rs\<lparr>rs_storage := s\<rparr>)))"

text \<open>\<open>orders\<close> are the iteration orders of the sort.\<close>

definition executor_run ::
  "executor_env \<Rightarrow> executor_config \<Rightarrow> mode_config option \<Rightarrow> bytes list \<times> bytes list \<Rightarrow> execution_provenance \<Rightarrow> attest_keypair option option
    \<Rightarrow> bytes list \<Rightarrow> int \<times> u64 \<Rightarrow> pipeline \<Rightarrow> run_state \<Rightarrow> (executor_error, receipt \<times> run_state) result option" where
  "executor_run x ec mc orders base loader listing clock p rs0 =
     (case build p of
        Inl e \<Rightarrow> Some (Inl (ExDag e))
      | Inr dag \<Rightarrow>
          (case topological_sort (fst orders) (snd orders) dag of
             None \<Rightarrow> None
           | Some (Inl e) \<Rightarrow> Some (Inl (ExDag e))
           | Some (Inr order) \<Rightarrow>
               map_option (\<lambda>r. and_then r (finish_run x ec mc base loader listing clock p)) (run_steps x ec mc p order rs0)))"

section \<open>What a step leaves behind\<close>

text \<open>The cache key of a step: what is hashed for it, given the hash of its inputs.\<close>

definition step_key :: "executor_env \<Rightarrow> bytes \<Rightarrow> step \<Rightarrow> bytes btree \<Rightarrow> bytes \<Rightarrow> bytes" where
  "step_key x name st environ ih = cache_key_bytes (execution_shape (xe_step_json x) (\<lambda>b. to_hex (xe_blake3 x b)) st) name ih environ"

lemma content_hash_key:
  assumes "compute_input_hash x f name st = Inr ih"
  shows "compute_content_hash (xe_storage x) f (xe_workspace x) name (step_run st) (map components (step_inputs st)) environ
     (execution_shape (xe_step_json x) (\<lambda>b. to_hex (xe_blake3 x b)) st) = Inr (to_hex (xe_blake3 x (step_key x name st environ ih)))"
  using assms by (auto simp: compute_input_hash_def compute_content_hash_def step_key_def result_simps)

text \<open>A step that ran: its inputs have the same hash before and after, its outputs and artifacts are those on disk after it, and
  what is added to the cache stands under the key of the step.\<close>

definition step_ran :: "executor_env \<Rightarrow> bytes \<Rightarrow> step \<Rightarrow> bytes \<Rightarrow> bytes \<Rightarrow> run_state \<Rightarrow> step_result \<Rightarrow> run_state \<Rightarrow> bool" where
  "step_ran x name st ih key rs result rs' \<longleftrightarrow> \<not> sr_cache_hit result \<and> sr_name result = name \<and> sr_input_hash result = ih \<and>
     compute_input_hash x (rs_fs rs') name st = Inr ih \<and>
     (\<exists>artifacts. rs_artifacts rs' = rs_artifacts rs @ artifacts \<and>
        outputs_with_artifacts (xe_blake3 x) (rs_fs rs') (xe_workspace x) name (map components (step_outputs st)) = Inr (sr_output_hash result, artifacts)) \<and>
     (s_cache (rs_storage rs') = s_cache (rs_storage rs) \<or>
      step_cache st \<and> sr_exit_code result = 0 \<and>
      (\<exists>entry clock. cache_store (xe_storage x) clock entry (rs_storage rs) = Inr (rs_storage rs') \<and> ce_result entry = result \<and>
         ce_step_name entry = name \<and> ce_content_hash entry = key))"

text \<open>A step that was replayed from the cache: nothing ran, and the outputs of the entry are those on disk.\<close>

definition step_replayed :: "executor_env \<Rightarrow> bytes \<Rightarrow> step \<Rightarrow> bytes \<Rightarrow> run_state \<Rightarrow> step_result \<Rightarrow> run_state \<Rightarrow> bool" where
  "step_replayed x name st key rs result rs' \<longleftrightarrow> step_cache st \<and> rs_fs rs' = rs_fs rs \<and> rs_storage rs' = rs_storage rs \<and>
     rs_artifacts rs' = rs_artifacts rs \<and> rs_held rs' = rs_held rs \<and>
     hash_outputs (xe_blake3 x) (rs_fs rs) (xe_workspace x) name (map components (step_outputs st)) = Inr (sr_output_hash result) \<and>
     (\<exists>entry. get_cached_entry (xe_storage x) key (rs_storage rs) = Inr (Some entry, rs_storage rs) \<and> ce_content_hash entry = key \<and>
        result = (ce_result entry)\<lparr>sr_cache_hit := True\<rparr>)"

lemma remember_result_spec:
  assumes "remember_result x f name st environ result s = Inr s'" "compute_input_hash x f name st = Inr ih"
  shows "s' = s \<or> step_cache st \<and> sr_exit_code result = 0 \<and>
    (\<exists>entry clock. cache_store (xe_storage x) clock entry s = Inr s' \<and> ce_result entry = result \<and> ce_step_name entry = name \<and>
       ce_content_hash entry = to_hex (xe_blake3 x (step_key x name st environ ih)))"
proof (cases "step_cache st \<and> sr_exit_code result = 0")
  case True
  then obtain entry where e: "create_cache_entry (xe_storage x) f (xe_workspace x) (rd_cached (xe_readings x name)) name (step_run st)
          (map (\<lambda>i. (components i, i)) (step_inputs st)) (map (\<lambda>o'. (components o', o')) (step_outputs st)) environ result
          (case step_needs st of Some ns \<Rightarrow> ns | None \<Rightarrow> []) (execution_shape (xe_step_json x) (\<lambda>b. to_hex (xe_blake3 x b)) st) = Inr entry"
    and s': "cache_store (xe_storage x) (rd_index (xe_readings x name)) entry s = Inr s'"
    using assms(1) by (auto simp: remember_result_def result_simps)
  from e have "ce_result entry = result" "ce_step_name entry = name" "ce_content_hash entry = to_hex (xe_blake3 x (step_key x name st environ ih))"
    using content_hash_key [OF assms(2), of environ] by (auto simp: create_cache_entry_def comp_def result_simps)
  with True s' show ?thesis by blast
qed (use assms in \<open>auto simp: remember_result_def\<close>)

lemma execute_and_record_spec:
  assumes "execute_and_record x ec name st environ capsule ih rs = Some (Inr (result, rs'))"
  shows "step_ran x name st ih (to_hex (xe_blake3 x (step_key x name st environ ih))) rs result rs' \<and> rs_results rs' = rs_results rs \<and>
    rs_completed rs' = rs_completed rs \<and> rs_unsuccessful rs' = rs_unsuccessful rs"
proof -
  let ?key = "to_hex (xe_blake3 x (step_key x name st environ ih))"
  obtain r f where "perform_step x ec name st environ capsule ih (rs_sandbox rs) (rs_fs rs) = Some (r, f)"
    using assms by (auto simp: execute_and_record_def split: option.splits)
  then have "\<exists>enforced out sb oh artifacts s. compute_input_hash x f name st = Inr ih \<and>
    outputs_with_artifacts (xe_blake3 x) f (xe_workspace x) name (map components (step_outputs st)) = Inr (oh, artifacts) \<and>
    remember_result x f name st environ result (rs_storage rs) = Inr s \<and>
    result = recorded_result x name ih oh out capsule \<and>
    rs' = rs\<lparr>rs_fs := f, rs_sandbox := sb, rs_held := hold_count enforced (capsule \<noteq> None) (rs_held rs),
             rs_artifacts := rs_artifacts rs @ artifacts, rs_storage := s\<rparr>"
    using assms unfolding execute_and_record_def Let_def
    by (clarsimp simp: result_simps split: option.splits) (intro exI conjI; (assumption | rule refl))
  then obtain enforced out sb oh artifacts s where r: "compute_input_hash x f name st = Inr ih"
    "outputs_with_artifacts (xe_blake3 x) f (xe_workspace x) name (map components (step_outputs st)) = Inr (oh, artifacts)"
    "remember_result x f name st environ result (rs_storage rs) = Inr s" "result = recorded_result x name ih oh out capsule"
    "rs' = rs\<lparr>rs_fs := f, rs_sandbox := sb, rs_held := hold_count enforced (capsule \<noteq> None) (rs_held rs),
             rs_artifacts := rs_artifacts rs @ artifacts, rs_storage := s\<rparr>" by blast
  have "s_cache s = s_cache (rs_storage rs) \<or> step_cache st \<and> sr_exit_code result = 0 \<and>
    (\<exists>entry clock. cache_store (xe_storage x) clock entry (rs_storage rs) = Inr s \<and> ce_result entry = result \<and> ce_step_name entry = name \<and>
       ce_content_hash entry = ?key)"
    using remember_result_spec [OF r(3,1)] by blast
  then show ?thesis using r(1,2) by (simp add: step_ran_def r(4,5) recorded_result_def)
qed

lemma lookup_cached_spec:
  assumes "lookup_cached x f name st key s = Inr (found, s')"
  shows "case found of
      None \<Rightarrow> s' = s \<or> s' = s\<lparr>s_cache := (s_cache s)(cache_file key := None)\<rparr>
    | Some entry \<Rightarrow> step_cache st \<and> s' = s \<and> get_cached_entry (xe_storage x) key s = Inr (Some entry, s) \<and> ce_content_hash entry = key \<and>
        hash_outputs (xe_blake3 x) f (xe_workspace x) name (map components (step_outputs st)) = Inr (sr_output_hash (ce_result entry))"
  using assms
  by (auto simp: lookup_cached_def get_cached_entry_def outputs_still_match_def result_simps split: if_splits option.splits sum.splits)

lemma process_step_spec:
  assumes "process_step x ec mc p name st rs = Some (Inr rs')"
  shows "\<exists>ih capsule key result. compute_input_hash x (rs_fs rs) name st = Inr ih \<and> load_capsule x st = Inr capsule \<and>
    key = to_hex (xe_blake3 x (step_key x name st (step_environment ec mc p name st (Option.bind capsule cm_capsule_hash)) ih)) \<and>
    rs_results rs' = rs_results rs @ [result] \<and>
    rs_completed rs' = rs_completed rs @ [name] \<and>
    rs_unsuccessful rs' = rs_unsuccessful rs @ (if sr_exit_code result \<noteq> 0 then [name] else []) \<and>
    (step_replayed x name st key rs result rs' \<or>
     (\<exists>s. (s = rs_storage rs \<or> s = (rs_storage rs)\<lparr>s_cache := (s_cache (rs_storage rs))(cache_file key := None)\<rparr>) \<and>
        step_ran x name st ih key (rs\<lparr>rs_storage := s\<rparr>) result rs'))"
proof -
  obtain capsule environ ih found s where prep: "prepare_step x ec mc p name st rs = Inr (capsule, environ, ih, found, s)"
    using assms by (auto simp: process_step_def split: sum.splits)
  then have ih: "compute_input_hash x (rs_fs rs) name st = Inr ih" and cap: "load_capsule x st = Inr capsule"
    and env: "environ = step_environment ec mc p name st (Option.bind capsule cm_capsule_hash)"
    by (auto simp: prepare_step_def Let_def result_simps)
  define key where "key = to_hex (xe_blake3 x (step_key x name st environ ih))"
  have look: "lookup_cached x (rs_fs rs) name st key (rs_storage rs) = Inr (found, s)"
    using prep content_hash_key [OF ih, of environ] by (auto simp: prepare_step_def Let_def result_simps cap ih env key_def)
  obtain result rs1 where run: "(case found of Some entry \<Rightarrow> Some (Inr ((ce_result entry)\<lparr>sr_cache_hit := True\<rparr>, rs\<lparr>rs_storage := s\<rparr>))
       | None \<Rightarrow> execute_and_record x ec name st environ capsule ih (rs\<lparr>rs_storage := s\<rparr>)) = Some (Inr (result, rs1))"
    and rs': "rs' = finish_step name result rs1"
    using assms unfolding process_step_def prep sum.case prod.case by (clarsimp simp: result_simps)
  note f = lookup_cached_spec [OF look]
  have "step_replayed x name st key rs result rs' \<or>
     (\<exists>s. (s = rs_storage rs \<or> s = (rs_storage rs)\<lparr>s_cache := (s_cache (rs_storage rs))(cache_file key := None)\<rparr>) \<and>
        step_ran x name st ih key (rs\<lparr>rs_storage := s\<rparr>) result rs')"
    and "rs_results rs1 = rs_results rs \<and> rs_completed rs1 = rs_completed rs \<and> rs_unsuccessful rs1 = rs_unsuccessful rs"
  proof (atomize (full), cases found)
    case None
    with run have "execute_and_record x ec name st environ capsule ih (rs\<lparr>rs_storage := s\<rparr>) = Some (Inr (result, rs1))" by simp
    note e = execute_and_record_spec [OF this, folded key_def]
    then have "step_ran x name st ih key (rs\<lparr>rs_storage := s\<rparr>) result rs'" by (simp add: rs' step_ran_def finish_step_def)
    then show "(step_replayed x name st key rs result rs' \<or>
     (\<exists>s. (s = rs_storage rs \<or> s = (rs_storage rs)\<lparr>s_cache := (s_cache (rs_storage rs))(cache_file key := None)\<rparr>) \<and>
        step_ran x name st ih key (rs\<lparr>rs_storage := s\<rparr>) result rs')) \<and>
      rs_results rs1 = rs_results rs \<and> rs_completed rs1 = rs_completed rs \<and> rs_unsuccessful rs1 = rs_unsuccessful rs"
      using f None e by auto
  next
    case (Some entry)
    then have r: "result = (ce_result entry)\<lparr>sr_cache_hit := True\<rparr>" "rs1 = rs\<lparr>rs_storage := s\<rparr>" using run by simp_all
    then show "(step_replayed x name st key rs result rs' \<or>
     (\<exists>s. (s = rs_storage rs \<or> s = (rs_storage rs)\<lparr>s_cache := (s_cache (rs_storage rs))(cache_file key := None)\<rparr>) \<and>
        step_ran x name st ih key (rs\<lparr>rs_storage := s\<rparr>) result rs')) \<and>
      rs_results rs1 = rs_results rs \<and> rs_completed rs1 = rs_completed rs \<and> rs_unsuccessful rs1 = rs_unsuccessful rs"
      using f Some by (simp add: step_replayed_def rs' finish_step_def)
  qed
  moreover from this have "rs_results rs' = rs_results rs @ [result]" "rs_completed rs' = rs_completed rs @ [name]"
      "rs_unsuccessful rs' = rs_unsuccessful rs @ (if sr_exit_code result \<noteq> 0 then [name] else [])"
    by (simp_all add: rs' finish_step_def)
  ultimately show ?thesis using ih cap env key_def by blast
qed

lemma run_step_spec:
  assumes "run_step x ec mc p name rs = Some (Inr rs')" "map_of (steps p) name = Some st"
  shows "rs_completed rs' = rs_completed rs @ [name] \<and>
    (if \<exists>d\<in>set (step_needs_of st). d \<in> set (rs_unsuccessful rs)
     then rs_results rs' = rs_results rs \<and> rs_artifacts rs' = rs_artifacts rs \<and> rs_unsuccessful rs' = rs_unsuccessful rs @ [name]
     else process_step x ec mc p name st rs = Some (Inr rs'))"
  using assms process_step_spec [of x ec mc p name st rs rs'] by (auto simp: run_step_def list_ex_iff split: if_splits)

section \<open>Which steps run\<close>

text \<open>The steps whose result is a failure, and those that need one of them, directly or through others.\<close>

definition failed_steps :: "step_result list \<Rightarrow> bytes set" where
  "failed_steps results = sr_name ` {r \<in> set results. sr_exit_code r \<noteq> 0}"

definition below_failed :: "pipeline \<Rightarrow> step_result list \<Rightarrow> bytes set" where
  "below_failed p results = (needs_edges (steps p))\<^sup>+ `` failed_steps results"

text \<open>The state after the steps \<open>dn\<close>.\<close>

definition ran_upto :: "pipeline \<Rightarrow> bytes list \<Rightarrow> run_state \<Rightarrow> bool" where
  "ran_upto p dn rs \<longleftrightarrow> map sr_name (rs_results rs) = filter (\<lambda>n. n \<notin> below_failed p (rs_results rs)) dn \<and>
     set (rs_unsuccessful rs) = failed_steps (rs_results rs) \<union> (below_failed p (rs_results rs) \<inter> set dn) \<and>
     rs_completed rs = dn"

lemma needs_of_edges:
  assumes "btree_ok (steps p)" "map_of (steps p) n = Some st"
  shows "d \<in> set (step_needs_of st) \<longleftrightarrow> (d, n) \<in> needs_edges (steps p)"
proof -
  have "(n, st') \<in> set (steps p) \<longleftrightarrow> st' = st" for st'
    using assms by (metis btree_ok_def map_of_SomeD map_of_eq_Some_iff option.inject strict_sorted_iff)
  then show ?thesis by (cases "step_needs st") (auto simp: needs_edges_def step_needs_of_def)
qed

lemma in_order_append: "in_order E (xs @ ys) \<Longrightarrow> in_order E xs"
  unfolding in_order_def by (metis append.assoc append_Cons)

lemma in_order_filter:
  assumes "in_order E xs" "\<And>u v. (u, v) \<in> E \<Longrightarrow> Q v \<Longrightarrow> Q u"
  shows "in_order E (filter Q xs)"
  using assms(1) by (induction xs rule: rev_induct) (use assms(2) in \<open>auto simp: in_order_snoc\<close>)

lemma in_order_trancl:
  assumes "(u, v) \<in> E\<^sup>+" "in_order E xs" "v \<in> set xs"
  shows "u \<in> set xs"
  using assms
proof (induction rule: trancl_induct)
  case (base v)
  then show ?case by (metis in_order_def in_set_conv_decomp UnCI set_append)
next
  case (step v w)
  then show ?case by (metis in_order_def in_set_conv_decomp UnCI set_append)
qed

lemma failed_steps_snoc: "failed_steps (results @ [r]) = failed_steps results \<union> (if sr_exit_code r \<noteq> 0 then {sr_name r} else {})"
  by (auto simp: failed_steps_def)

lemma not_before_itself:
  assumes "in_order E (dn @ [n])" "distinct (dn @ [n])" "m \<in> set (dn @ [n])"
  shows "(n, m) \<notin> E\<^sup>+"
proof
  have E: "in_order E dn" by (rule in_order_append [OF assms(1)])
  assume nm: "(n, m) \<in> E\<^sup>+"
  show False
  proof (cases "m \<in> set dn")
    case True
    then show False using in_order_trancl [OF nm E] assms(2) by simp
  next
    case False
    then have "m = n" using assms(3) by simp
    with nm obtain d where d: "(d, n) \<in> E" "d = n \<or> (n, d) \<in> E\<^sup>+" by (auto elim: tranclE)
    then have "d \<in> set dn" using assms(1) by (simp add: in_order_snoc)
    then show False using d(2) in_order_trancl [OF _ E, of n d] assms(2) by auto
  qed
qed

lemma below_failed_need:
  assumes "ran_upto p dn rs" "in_order (needs_edges (steps p)) (dn @ [n])" and p: "btree_ok (steps p)" "map_of (steps p) n = Some st"
  shows "n \<in> below_failed p (rs_results rs) \<longleftrightarrow> (\<exists>d\<in>set (step_needs_of st). d \<in> set (rs_unsuccessful rs))"
proof -
  let ?E = "needs_edges (steps p)" and ?F = "failed_steps (rs_results rs)" and ?B = "below_failed p (rs_results rs)"
  have un: "set (rs_unsuccessful rs) = ?F \<union> (?B \<inter> set dn)" using assms(1) by (simp add: ran_upto_def)
  have before: "d \<in> set dn" if "(d, n) \<in> ?E" for d using assms(2) that by (simp add: in_order_snoc)
  show ?thesis
  proof
    assume "n \<in> ?B"
    then obtain m where m: "m \<in> ?F" "(m, n) \<in> ?E\<^sup>+" by (auto simp: below_failed_def)
    from m(2) have "\<exists>d. (d, n) \<in> ?E \<and> d \<in> ?F \<union> ?B" by (rule tranclE) (use m(1) in \<open>auto simp: below_failed_def\<close>)
    then show "\<exists>d\<in>set (step_needs_of st). d \<in> set (rs_unsuccessful rs)" using un before needs_of_edges [OF p] by auto
  next
    assume "\<exists>d\<in>set (step_needs_of st). d \<in> set (rs_unsuccessful rs)"
    then obtain d where "(d, n) \<in> ?E" "d \<in> ?F \<union> ?B" using un needs_of_edges [OF p] by auto
    then show "n \<in> ?B" by (auto simp: below_failed_def intro: trancl_into_trancl)
  qed
qed

lemma ran_upto_step:
  assumes inv: "ran_upto p dn rs" and order: "in_order (needs_edges (steps p)) (dn @ [n])" "distinct (dn @ [n])"
    and p: "btree_ok (steps p)" "map_of (steps p) n = Some st" and step: "run_step x ec mc p n rs = Some (Inr rs')"
    and named: "\<And>result. process_step x ec mc p n st rs = Some (Inr rs') \<Longrightarrow> rs_results rs' = rs_results rs @ [result] \<Longrightarrow> sr_name result = n"
  shows "ran_upto p (dn @ [n]) rs'"
proof (cases "n \<in> below_failed p (rs_results rs)")
  case True
  then have "rs_results rs' = rs_results rs" "rs_unsuccessful rs' = rs_unsuccessful rs @ [n]"
    using run_step_spec [OF step p(2)] below_failed_need [OF inv order(1) p] by auto
  then show ?thesis using inv True run_step_spec [OF step p(2)] by (auto simp: ran_upto_def)
next
  case False
  let ?B = "below_failed p (rs_results rs)"
  have run: "process_step x ec mc p n st rs = Some (Inr rs')"
    using False run_step_spec [OF step p(2)] below_failed_need [OF inv order(1) p] by auto
  from process_step_spec [OF run] obtain result where r: "rs_results rs' = rs_results rs @ [result]"
    "rs_unsuccessful rs' = rs_unsuccessful rs @ (if sr_exit_code result \<noteq> 0 then [n] else [])" "rs_completed rs' = rs_completed rs @ [n]" by blast
  note name = named [OF run r(1)]
  have B: "m \<in> below_failed p (rs_results rs') \<longleftrightarrow> m \<in> ?B" if "m \<in> set (dn @ [n])" for m
    using not_before_itself [OF order that] by (auto simp: below_failed_def r(1) failed_steps_snoc name split: if_splits)
  have "filter (\<lambda>m. m \<notin> below_failed p (rs_results rs')) (dn @ [n]) = filter (\<lambda>m. m \<notin> ?B) (dn @ [n])"
    using B by (intro filter_cong) auto
  then have "map sr_name (rs_results rs') = filter (\<lambda>m. m \<notin> below_failed p (rs_results rs')) (dn @ [n])"
    using inv False by (simp add: ran_upto_def r(1) name)
  moreover have "set (rs_unsuccessful rs') = failed_steps (rs_results rs') \<union> (below_failed p (rs_results rs') \<inter> set (dn @ [n]))"
  proof -
    have "below_failed p (rs_results rs') \<inter> set (dn @ [n]) = ?B \<inter> set dn" using B False by auto
    then show ?thesis using inv by (auto simp: ran_upto_def r(2) failed_steps_snoc r(1) name)
  qed
  ultimately show ?thesis using inv r(3) by (simp add: ran_upto_def)
qed

section \<open>The names in the cache\<close>

text \<open>The strings that are hashed to cache keys in a run: of each step that asks for the cache, in the state in which it is looked at.\<close>

definition step_keys :: "executor_env \<Rightarrow> executor_config \<Rightarrow> mode_config option \<Rightarrow> pipeline \<Rightarrow> bytes \<Rightarrow> run_state \<Rightarrow> bytes set" where
  "step_keys x ec mc p name rs = {step_key x name st (step_environment ec mc p name st (Option.bind capsule cm_capsule_hash)) ih | st capsule ih.
     map_of (steps p) name = Some st \<and> step_cache st \<and> load_capsule x st = Inr capsule \<and> compute_input_hash x (rs_fs rs) name st = Inr ih}"

fun run_keys :: "executor_env \<Rightarrow> executor_config \<Rightarrow> mode_config option \<Rightarrow> pipeline \<Rightarrow> bytes list \<Rightarrow> run_state \<Rightarrow> bytes set" where
  "run_keys x ec mc p [] rs = {}"
| "run_keys x ec mc p (name # order) rs = step_keys x ec mc p name rs \<union>
     (case run_step x ec mc p name rs of Some (Inr rs) \<Rightarrow> run_keys x ec mc p order rs | _ \<Rightarrow> {})"

definition executor_keys ::
  "executor_env \<Rightarrow> executor_config \<Rightarrow> mode_config option \<Rightarrow> bytes list \<times> bytes list \<Rightarrow> pipeline \<Rightarrow> run_state \<Rightarrow> bytes set" where
  "executor_keys x ec mc orders p rs0 = (case build p of
       Inr dag \<Rightarrow> (case topological_sort (fst orders) (snd orders) dag of
           Some (Inr order) \<Rightarrow> run_keys x ec mc p order rs0
         | _ \<Rightarrow> {})
     | Inl _ \<Rightarrow> {})"

text \<open>What is found under a key is the result of a step whose own key, one of \<open>K\<close>, has that hash.\<close>

definition cache_named :: "executor_env \<Rightarrow> bytes set \<Rightarrow> storage \<Rightarrow> bool" where
  "cache_named x K s \<longleftrightarrow> (\<forall>d e s'. get_cached_entry (xe_storage x) (to_hex d) s = Inr (Some e, s') \<longrightarrow>
     (\<exists>k\<in>K. xe_blake3 x k = d \<and> (\<exists>shape i environ. k = cache_key_bytes shape (sr_name (ce_result e)) i environ)))"

definition names_kept :: "executor_env \<Rightarrow> bytes set \<Rightarrow> bool" where
  "names_kept x N \<longleftrightarrow> (\<forall>e e'. sr_name (ce_result e) \<in> N \<and> so_entry_of_yaml (xe_storage x) (so_entry_yaml (xe_storage x) e) = Some e' \<longrightarrow>
     sr_name (ce_result e') = sr_name (ce_result e))"

lemma found_iff:
  "(\<exists>s'. get_cached_entry env h s = Inr (Some e, s')) \<longleftrightarrow>
   (\<exists>c. s_cache s (cache_file h) = Some c \<and> is_utf8 c \<and> so_entry_of_yaml env c = Some e \<and> ce_content_hash e = h)"
  by (auto simp: get_cached_entry_def result_simps split: option.splits if_splits)

lemma cache_named_mono: "cache_named x K s \<Longrightarrow> K \<subseteq> K' \<Longrightarrow> cache_named x K' s"
  unfolding cache_named_def by (meson subsetD)

lemma cache_named_subset:
  assumes "cache_named x K s" "\<And>d. s_cache s' (cache_file (to_hex d)) = None \<or> s_cache s' (cache_file (to_hex d)) = s_cache s (cache_file (to_hex d))"
  shows "cache_named x K s'"
  unfolding cache_named_def
proof (intro allI impI)
  fix d e s'' assume "get_cached_entry (xe_storage x) (to_hex d) s' = Inr (Some e, s'')"
  then obtain c where "s_cache s' (cache_file (to_hex d)) = Some c" "is_utf8 c" "so_entry_of_yaml (xe_storage x) c = Some e"
      "ce_content_hash e = to_hex d"
    using found_iff [of "xe_storage x" "to_hex d" s' e] by blast
  then have "\<exists>s''. get_cached_entry (xe_storage x) (to_hex d) s = Inr (Some e, s'')" using assms(2) [of d] unfolding found_iff by (metis option.distinct(1))
  with assms(1) show "\<exists>k\<in>K. xe_blake3 x k = d \<and> (\<exists>shape i environ. k = cache_key_bytes shape (sr_name (ce_result e)) i environ)"
    unfolding cache_named_def by blast
qed

lemma cache_store_files:
  assumes "cache_store env clock entry s = Inr s'"
  shows "s_cache s' (cache_file (to_hex d)) =
    (if to_hex d = ce_content_hash entry then Some (so_entry_yaml env entry) else s_cache s (cache_file (to_hex d)))"
proof -
  have "to_hex d \<noteq> ''index''" using length_to_hex [of d] by (auto simp del: length_to_hex)
  then have "cache_file (to_hex d) \<noteq> INDEX_FILE" by (rule cache_file_not_index)
  then show ?thesis using assms by (auto simp: cache_store_def update_cache_index_def result_simps Let_def split: prod.splits)
qed

lemma cache_named_store:
  assumes "cache_named x K s" "cache_store (xe_storage x) clock entry s = Inr s'" "ce_content_hash entry = to_hex (xe_blake3 x k)" "k \<in> K"
    and "k = cache_key_bytes shape (sr_name (ce_result entry)) i environ" "names_kept x N" "sr_name (ce_result entry) \<in> N"
  shows "cache_named x K s'"
  unfolding cache_named_def
proof (intro allI impI)
  fix d e s'' assume "get_cached_entry (xe_storage x) (to_hex d) s' = Inr (Some e, s'')"
  then obtain c where c: "s_cache s' (cache_file (to_hex d)) = Some c" "is_utf8 c" "so_entry_of_yaml (xe_storage x) c = Some e"
      "ce_content_hash e = to_hex d"
    using found_iff [of "xe_storage x" "to_hex d" s' e] by blast
  show "\<exists>k\<in>K. xe_blake3 x k = d \<and> (\<exists>shape i environ. k = cache_key_bytes shape (sr_name (ce_result e)) i environ)"
  proof (cases "d = xe_blake3 x k")
    case True
    then have "sr_name (ce_result e) = sr_name (ce_result entry)"
      using c(1,3) cache_store_files [OF assms(2), of d] assms(3,6,7) by (auto simp: names_kept_def)
    with True assms(4,5) show ?thesis by metis
  next
    case False
    then have "\<exists>s''. get_cached_entry (xe_storage x) (to_hex d) s = Inr (Some e, s'')"
      using c cache_store_files [OF assms(2), of d] assms(3) unfolding found_iff by auto
    with assms(1) show ?thesis unfolding cache_named_def by blast
  qed
qed

text \<open>A step with the cache in order: the result recorded for it carries its name, and the cache stays in order.\<close>

lemma named_step:
  assumes run: "process_step x ec mc p name st rs = Some (Inr rs')" and st: "map_of (steps p) name = Some st"
    and K: "cache_named x K (rs_storage rs)" "step_keys x ec mc p name rs \<subseteq> K" "inj_on (xe_blake3 x) K"
    and N: "names_kept x N" "name \<in> N"
  shows "cache_named x K (rs_storage rs') \<and> (\<exists>result. rs_results rs' = rs_results rs @ [result] \<and> sr_name result = name)"
proof -
  obtain ih capsule key result where r: "compute_input_hash x (rs_fs rs) name st = Inr ih" "load_capsule x st = Inr capsule"
    "rs_results rs' = rs_results rs @ [result]"
    and key: "key = to_hex (xe_blake3 x (step_key x name st (step_environment ec mc p name st (Option.bind capsule cm_capsule_hash)) ih))"
    and cases: "step_replayed x name st key rs result rs' \<or>
     (\<exists>s. (s = rs_storage rs \<or> s = (rs_storage rs)\<lparr>s_cache := (s_cache (rs_storage rs))(cache_file key := None)\<rparr>) \<and>
        step_ran x name st ih key (rs\<lparr>rs_storage := s\<rparr>) result rs')"
    using process_step_spec [OF run] by blast
  define k where "k = step_key x name st (step_environment ec mc p name st (Option.bind capsule cm_capsule_hash)) ih"
  have kK: "k \<in> K" if "step_cache st" using K(2) that st r(1,2) unfolding step_keys_def k_def by blast
  obtain shape environ where shape: "k = cache_key_bytes shape name ih environ" by (simp add: k_def step_key_def)
  from cases consider (hit) "step_replayed x name st key rs result rs'"
    | (miss) s where "s = rs_storage rs \<or> s = (rs_storage rs)\<lparr>s_cache := (s_cache (rs_storage rs))(cache_file key := None)\<rparr>"
        "step_ran x name st ih key (rs\<lparr>rs_storage := s\<rparr>) result rs'" by blast
  then have "cache_named x K (rs_storage rs') \<and> sr_name result = name"
  proof cases
    case hit
    then obtain e where e: "step_cache st" "get_cached_entry (xe_storage x) (to_hex (xe_blake3 x k)) (rs_storage rs) = Inr (Some e, rs_storage rs)"
      "sr_name result = sr_name (ce_result e)" "rs_storage rs' = rs_storage rs"
      by (auto simp: step_replayed_def key k_def)
    then obtain k' shape' i' environ' where "k' \<in> K" "xe_blake3 x k' = xe_blake3 x k" "k' = cache_key_bytes shape' (sr_name (ce_result e)) i' environ'"
      using K(1) unfolding cache_named_def by metis
    then have "cache_key_bytes shape' (sr_name (ce_result e)) i' environ' = cache_key_bytes shape name ih environ"
      using inj_onD [OF K(3) _ _ kK [OF e(1)]] shape by metis
    then show ?thesis using e(3,4) K(1) by (simp add: cache_key_bytes_inject)
  next
    case (miss s)
    have s: "cache_named x K s" using miss(1) by (intro cache_named_subset [OF K(1)]) auto
    have name: "sr_name result = name" using miss(2) by (simp add: step_ran_def)
    from miss(2) consider (same) "s_cache (rs_storage rs') = s_cache s"
      | (stored) entry clock where "step_cache st" "cache_store (xe_storage x) clock entry s = Inr (rs_storage rs')" "ce_result entry = result"
          "ce_content_hash entry = to_hex (xe_blake3 x k)" by (auto simp: step_ran_def key k_def)
    then show ?thesis
    proof cases
      case same
      then show ?thesis using name by (auto intro: cache_named_subset [OF s])
    next
      case stored
      then show ?thesis using cache_named_store [OF s stored(2,4) kK [OF stored(1)] _ N(1), of shape ih environ] N(2) name shape by simp
    qed
  qed
  with r(3) show ?thesis by blast
qed

lemma named_steps:
  assumes "run_steps x ec mc p order rs = Some (Inr rs')" "ran_upto p dn rs" "in_order (needs_edges (steps p)) (dn @ order)" "distinct (dn @ order)"
    and "btree_ok (steps p)" "cache_named x K (rs_storage rs)" "run_keys x ec mc p order rs \<subseteq> K" "inj_on (xe_blake3 x) K" "names_kept x (set (keys (steps p)))"
  shows "ran_upto p (dn @ order) rs'"
  using assms
proof (induction order arbitrary: dn rs)
  case (Cons n order)
  obtain rs1 where s: "run_step x ec mc p n rs = Some (Inr rs1)" "run_steps x ec mc p order rs1 = Some (Inr rs')"
    using Cons.prems(1) by (auto split: option.splits sum.splits)
  then obtain st where st: "map_of (steps p) n = Some st" by (auto simp: run_step_def split: option.splits)
  have N: "n \<in> set (keys (steps p))" using map_of_SomeD [OF st] by (force simp: keys_def)
  have order: "in_order (needs_edges (steps p)) (dn @ [n])" "distinct (dn @ [n])"
    using Cons.prems(3,4) in_order_append [of _ "dn @ [n]" order] by auto
  have keys: "step_keys x ec mc p n rs \<subseteq> K" "run_keys x ec mc p order rs1 \<subseteq> K" using Cons.prems(7) by (auto simp: s(1))
  note named = named_step [OF _ st Cons.prems(6) keys(1) Cons.prems(8,9) N]
  have "ran_upto p (dn @ [n]) rs1"
    by (rule ran_upto_step [OF Cons.prems(2) order Cons.prems(5) st s(1)]) (use named in fastforce)
  moreover have "cache_named x K (rs_storage rs1)"
  proof (cases "\<exists>d\<in>set (step_needs_of st). d \<in> set (rs_unsuccessful rs)")
    case True
    then have "rs_storage rs1 = rs_storage rs" using s(1) st by (auto simp: run_step_def list_ex_iff)
    then show ?thesis using Cons.prems(6) by simp
  next
    case False
    then show ?thesis using run_step_spec [OF s(1) st] named by auto
  qed
  ultimately have "ran_upto p ((dn @ [n]) @ order) rs'"
    using Cons.IH [OF s(2), of "dn @ [n]"] Cons.prems(3,4,5,8,9) keys(2) by simp
  then show ?case by simp
qed auto

section \<open>Properties of a run\<close>

lemma executor_run_spec:
  assumes "build p = Inr dag" "btree_ok (steps p)" "order_of (fst orders) (set (nodes dag))" "order_of (snd orders) (set (nodes dag))"
  shows "\<exists>order. topological_sort (fst orders) (snd orders) dag = Some (Inr order) \<and> order_of order (set (keys (steps p))) \<and>
    in_order (needs_edges (steps p)) order \<and>
    executor_run x ec mc orders base loader listing clock p rs0 =
      map_option (\<lambda>r. and_then r (finish_run x ec mc base loader listing clock p)) (run_steps x ec mc p order rs0)"
proof -
  note wf = build_wf [OF assms(1,2)]
  obtain order where order: "topological_sort (fst orders) (snd orders) dag = Some (Inr order)"
      "order_of order (set (keys (steps p)))" "in_order (needs_edges (steps p)) order"
    using topological_sort_correct [OF wf(1), of "fst orders" "snd orders"] wf assms(3,4) by auto
  with assms(1) show ?thesis by (intro exI [of _ order]) (simp add: executor_run_def)
qed

text \<open>What the steps of a pipeline wait for: a launch that a step can lead to settles when its process ends or has a timeout that
  passes, is reaped and leaves its pipes closed, or when its container returns.\<close>

definition step_launch :: "executor_env \<Rightarrow> executor_config \<Rightarrow> fs \<Rightarrow> bytes \<Rightarrow> step \<Rightarrow> launch \<Rightarrow> bool" where
  "step_launch x ec f name st l \<longleftrightarrow> (\<exists>environ pc. direct_command x ec f st environ = Inr pc \<and> l = Process pc) \<or>
     (\<exists>environ sb sb'. execute_with_timeout (xe_sandbox x) (rd_fresh (xe_readings x name)) (rd_now (xe_readings x name)) ''sh'' [''-c'', step_run st]
        environ (working_dir st) (timeout_secs st) sb = Inr (l, sb'))"

definition launch_settles :: "executor_env \<Rightarrow> launch \<Rightarrow> fs \<Rightarrow> bool" where
  "launch_settles x l f \<longleftrightarrow> (case l of
       Process pc \<Rightarrow> command_settles (pc_timeout pc) (fst (xe_process x pc f))
     | _ \<Rightarrow> xe_container x l f \<noteq> None)"

definition commands_settle :: "executor_env \<Rightarrow> executor_config \<Rightarrow> pipeline \<Rightarrow> bool" where
  "commands_settle x ec p \<longleftrightarrow> (\<forall>(name, st)\<in>set (steps p). \<forall>f. (\<forall>l. step_launch x ec f name st l \<longrightarrow> launch_settles x l f) \<and>
     (step_capsule st \<noteq> None \<longrightarrow> (\<forall>args. xe_capsule_run x args f \<noteq> None)))"

lemma run_launch_returns: "launch_settles x l f \<Longrightarrow> run_launch x l f \<noteq> None"
  by (auto simp: launch_settles_def run_launch_def dest!: command_settles_returns split: launch.splits prod.splits)

lemma perform_step_returns:
  assumes "commands_settle x ec p" "map_of (steps p) name = Some st" "load_capsule x st = Inr capsule"
  shows "perform_step x ec name st environ capsule ih sb f \<noteq> None"
proof (cases capsule)
  case None
  have l: "run_launch x l f \<noteq> None" if "step_launch x ec f name st l" for l
    using assms(1) map_of_SomeD [OF assms(2)] that by (intro run_launch_returns) (auto simp: commands_settle_def)
  show ?thesis
  proof (cases sb)
    case None
    have "run_launch x (Process pc) f \<noteq> None" if "direct_command x ec f st environ = Inr pc" for pc
      using that by (intro l) (auto simp: step_launch_def)
    then show ?thesis using \<open>capsule = None\<close> by (auto simp: perform_step_def execute_step_def None split: sum.splits)
  next
    case (Some sb0)
    have "run_launch x la f \<noteq> None" if "execute_with_timeout (xe_sandbox x) (rd_fresh (xe_readings x name)) (rd_now (xe_readings x name)) ''sh''
        [''-c'', step_run st] environ (working_dir st) (timeout_secs st) sb0 = Inr (la, sb')" for la sb'
      using that by (intro l) (auto simp: step_launch_def)
    then show ?thesis using \<open>capsule = None\<close> by (auto simp: perform_step_def execute_step_def Some split: sum.splits)
  qed
next
  case (Some m)
  then have "step_capsule st \<noteq> None" using assms(3) by (auto simp: load_capsule_def split: option.splits)
  then have "xe_capsule_run x args f \<noteq> None" for args using assms(1) map_of_SomeD [OF assms(2)] by (auto simp: commands_settle_def)
  then have "execute_step_in_capsule x m name st ih f \<noteq> None"
    by (cases "snapshot_take x f name st ih") (simp_all only: execute_step_in_capsule_def sum.case option.map_disc_iff not_False_eq_True option.distinct)
  then show ?thesis using Some by (simp add: perform_step_def)
qed

lemma process_step_returns:
  assumes "commands_settle x ec p" "map_of (steps p) name = Some st"
  shows "process_step x ec mc p name st rs \<noteq> None"
proof (cases "prepare_step x ec mc p name st rs")
  case (Inr prepared)
  then obtain capsule environ ih found s where prep: "prepare_step x ec mc p name st rs = Inr (capsule, environ, ih, found, s)"
    by (metis prod_cases5)
  then have "load_capsule x st = Inr capsule" by (auto simp: prepare_step_def Let_def result_simps)
  then have "execute_and_record x ec name st environ capsule ih (rs\<lparr>rs_storage := s\<rparr>) \<noteq> None"
    using perform_step_returns [OF assms] by (auto simp: execute_and_record_def split: option.splits)
  then show ?thesis by (auto simp: process_step_def prep split: option.splits)
qed (simp add: process_step_def)

lemma run_steps_ends:
  assumes "commands_settle x ec p" "rs_completed rs = dn" "in_order (needs_edges (steps p)) (dn @ order)" "btree_ok (steps p)"
  shows "run_steps x ec mc p order rs \<noteq> None"
  using assms(2,3)
proof (induction order arbitrary: dn rs)
  case (Cons n order)
  show ?case
  proof (cases "map_of (steps p) n")
    case (Some st)
    have "in_order (needs_edges (steps p)) (dn @ [n])" using Cons.prems(2) in_order_append [of _ "dn @ [n]" order] by simp
    then have "list_all (\<lambda>d. d \<in> set (rs_completed rs)) (step_needs_of st)"
      using needs_of_edges [OF assms(4) Some] Cons.prems(1) by (simp add: list_all_iff in_order_snoc)
    then have "run_step x ec mc p n rs \<noteq> None" using Some process_step_returns [OF assms(1) Some] by (simp add: run_step_def)
    then obtain r where r: "run_step x ec mc p n rs = Some r" by blast
    show ?thesis
    proof (cases r)
      case (Inr rs1)
      then have "rs_completed rs1 = dn @ [n]" using run_step_spec [of x ec mc p n rs rs1 st] r Some Cons.prems(1) by simp
      then show ?thesis using Cons.IH [of rs1 "dn @ [n]"] Cons.prems(2) by (simp add: r Inr)
    qed (simp add: r)
  qed (simp add: run_step_def)
qed simp

text \<open>
  C9. A run waits for its commands and for nothing else. If every command that a step of the pipeline can start comes to its end
  (a process exits, or has a timeout that passes and can be reaped, and in both cases nothing keeps its pipes open; a container
  or capsule returns), then, whatever the commands do to the files and whatever is in the cache, the run of a pipeline whose
  graph was accepted comes to a receipt or to an error: in the order of the sort every need of a step has completed, or been
  skipped, before the step is looked at, so the loop that waits for it is left at once. Without that condition a run may
  never end: a step need not have a timeout, and a capsule has none.
\<close>

theorem run_ends:
  assumes "build p = Inr dag" "btree_ok (steps p)" "order_of (fst orders) (set (nodes dag))" "order_of (snd orders) (set (nodes dag))"
    and "commands_settle x ec p"
  shows "\<exists>r. executor_run x ec mc orders base loader listing clock p (initial_state f s sb) = Some r"
proof -
  obtain order where "in_order (needs_edges (steps p)) order"
    and run: "executor_run x ec mc orders base loader listing clock p (initial_state f s sb) =
      map_option (\<lambda>r. and_then r (finish_run x ec mc base loader listing clock p)) (run_steps x ec mc p order (initial_state f s sb))"
    using executor_run_spec [OF assms(1-4)] by blast
  then have "run_steps x ec mc p order (initial_state f s sb) \<noteq> None"
    using run_steps_ends [OF assms(5), of "initial_state f s sb" "[]"] assms(2) by (simp add: initial_state_def)
  then show ?thesis using run by auto
qed

text \<open>
  C4. A receipt records exactly the steps that could run. The names it records, each once and after everything that step needs,
  are those of the steps that depend on no failed step, directly or through others; a step below a failure does not
  appear. The results may come from the cache: it is assumed that every entry found in it at the start was made for a step
  of the name it carries, under the hash of that step's key (a string of \<open>K\<close>), that no two key strings of \<open>K\<close> and of this run
  have the same hash, and that the YAML of an entry gives its name back.
\<close>

theorem run_skips_below_failures:
  assumes "executor_run x ec mc orders base loader listing clock p (initial_state f s sb) = Some (Inr (receipt, rs'))"
    and "btree_ok (steps p)" "order_of (fst orders) (set (keys (steps p)))" "order_of (snd orders) (set (keys (steps p)))"
    and "cache_named x K s" "inj_on (xe_blake3 x) (K \<union> executor_keys x ec mc orders p (initial_state f s sb))"
    and "names_kept x (set (keys (steps p)))"
  shows "order_of (map sr_name (r_steps receipt)) (set (keys (steps p)) - below_failed p (r_steps receipt)) \<and>
    in_order (needs_edges (steps p)) (map sr_name (r_steps receipt))"
proof -
  let ?rs0 = "initial_state f s sb" and ?E = "needs_edges (steps p)"
  let ?K = "K \<union> executor_keys x ec mc orders p ?rs0"
  obtain dag where dag: "build p = Inr dag" using assms(1) by (auto simp: executor_run_def split: sum.splits)
  then have "nodes dag = keys (steps p)" using build_wf(2) assms(2) by blast
  then obtain order where sort: "topological_sort (fst orders) (snd orders) dag = Some (Inr order)"
      and o: "order_of order (set (keys (steps p)))" "in_order ?E order"
      and run: "executor_run x ec mc orders base loader listing clock p ?rs0 =
        map_option (\<lambda>r. and_then r (finish_run x ec mc base loader listing clock p)) (run_steps x ec mc p order ?rs0)"
    using executor_run_spec [OF dag assms(2), of orders x ec mc base loader listing clock ?rs0] assms(3,4) by auto
  obtain rs where rs: "run_steps x ec mc p order ?rs0 = Some (Inr rs)" "finish_run x ec mc base loader listing clock p rs = Inr (receipt, rs')"
    using assms(1) unfolding run by (auto simp: result_simps)
  then have steps: "r_steps receipt = rs_results rs"
    by (auto simp: finish_run_def sign_receipt_def Let_def result_simps split: option.splits if_splits)
  have "ran_upto p [] ?rs0" "cache_named x ?K (rs_storage ?rs0)" "run_keys x ec mc p order ?rs0 \<subseteq> ?K"
    using assms(5) by (auto simp: ran_upto_def initial_state_def failed_steps_def executor_keys_def dag sort intro: cache_named_mono)
  then have "ran_upto p ([] @ order) rs"
    using named_steps [OF rs(1), of "[]" ?K] o assms(2,6,7) by (simp add: order_of_def)
  then have f: "map sr_name (r_steps receipt) = filter (\<lambda>n. n \<notin> below_failed p (r_steps receipt)) order" by (simp add: ran_upto_def steps)
  have "in_order ?E (filter (\<lambda>n. n \<notin> below_failed p (r_steps receipt)) order)"
    using o(2) by (rule in_order_filter) (auto simp: below_failed_def intro: trancl_into_trancl)
  moreover have "order_of (filter (\<lambda>n. n \<notin> below_failed p (r_steps receipt)) order) (set (keys (steps p)) - below_failed p (r_steps receipt))"
    using o(1) by (auto simp: order_of_def)
  ultimately show ?thesis unfolding f by simp
qed

lemma artifacts_of_step:
  assumes "outputs_with_artifacts blake3 f ws name outs = Inr (h, artifacts)"
  shows "hash_outputs blake3 f ws name outs = Inr h" "artifact_step ` set artifacts \<subseteq> {name}"
  using assms by (auto simp: outputs_with_artifacts_def hash_outputs_def output_manifest_def artifact_of_def result_simps)

text \<open>
  C3. What a receipt says of a step was true when it was recorded. The output hash of the recorded result is the hash of the
  declared outputs on disk after the step, also for a result from the cache. If the step ran, the recorded input hash is
  the hash of its declared inputs before it ran, and again the hash after. If the result came from the cache, the step had
  asked for it and nothing was run. A failed result, or one of a step that did not ask for it, adds nothing to the cache.
\<close>

theorem recorded_step_true:
  assumes "process_step x ec mc p name st rs = Some (Inr rs')"
  shows "\<exists>result. rs_results rs' = rs_results rs @ [result] \<and>
    hash_outputs (xe_blake3 x) (rs_fs rs') (xe_workspace x) name (map components (step_outputs st)) = Inr (sr_output_hash result) \<and>
    (\<not> sr_cache_hit result \<longrightarrow> sr_name result = name \<and> compute_input_hash x (rs_fs rs) name st = Inr (sr_input_hash result) \<and>
       compute_input_hash x (rs_fs rs') name st = Inr (sr_input_hash result)) \<and>
    (sr_cache_hit result \<longrightarrow> step_cache st \<and> rs_fs rs' = rs_fs rs) \<and>
    (sr_exit_code result \<noteq> 0 \<or> \<not> step_cache st \<longrightarrow> s_cache (rs_storage rs') \<subseteq>\<^sub>m s_cache (rs_storage rs))"
proof -
  from process_step_spec [OF assms] obtain ih key result where r: "compute_input_hash x (rs_fs rs) name st = Inr ih"
    "rs_results rs' = rs_results rs @ [result]" and
    cases: "step_replayed x name st key rs result rs' \<or>
     (\<exists>s. (s = rs_storage rs \<or> s = (rs_storage rs)\<lparr>s_cache := (s_cache (rs_storage rs))(cache_file key := None)\<rparr>) \<and>
        step_ran x name st ih key (rs\<lparr>rs_storage := s\<rparr>) result rs')" by blast
  from cases consider (hit) "step_replayed x name st key rs result rs'"
    | (miss) s where "s = rs_storage rs \<or> s = (rs_storage rs)\<lparr>s_cache := (s_cache (rs_storage rs))(cache_file key := None)\<rparr>"
        "step_ran x name st ih key (rs\<lparr>rs_storage := s\<rparr>) result rs'" by blast
  then show ?thesis
  proof cases
    case hit
    then show ?thesis using r by (intro exI [of _ result]) (auto simp: step_replayed_def)
  next
    case (miss s)
    then have "hash_outputs (xe_blake3 x) (rs_fs rs') (xe_workspace x) name (map components (step_outputs st)) = Inr (sr_output_hash result)"
      using artifacts_of_step(1) by (auto simp: step_ran_def)
    moreover have "s_cache s \<subseteq>\<^sub>m s_cache (rs_storage rs)" using miss(1) by (auto simp: map_le_def split: if_splits)
    ultimately show ?thesis using r miss(2) by (intro exI [of _ result]) (auto simp: step_ran_def)
  qed
qed

section \<open>Artifacts and cached steps\<close>

definition fresh_artifacts :: "run_state \<Rightarrow> bool" where
  "fresh_artifacts rs \<longleftrightarrow> (\<forall>a\<in>set (rs_artifacts rs). \<exists>r\<in>set (rs_results rs). \<not> sr_cache_hit r \<and> sr_name r = artifact_step a)"

lemma fresh_artifacts_step:
  assumes "fresh_artifacts rs" "run_step x ec mc p name rs = Some (Inr rs')"
  shows "fresh_artifacts rs'"
proof -
  obtain st where st: "map_of (steps p) name = Some st" using assms(2) by (auto simp: run_step_def split: option.splits)
  note s = run_step_spec [OF assms(2) st]
  show ?thesis
  proof (cases "\<exists>d\<in>set (step_needs_of st). d \<in> set (rs_unsuccessful rs)")
    case False
    then have "process_step x ec mc p name st rs = Some (Inr rs')" using s by simp
    from process_step_spec [OF this] obtain ih key result s where r: "rs_results rs' = rs_results rs @ [result]"
      "step_replayed x name st key rs result rs' \<or> step_ran x name st ih key (rs\<lparr>rs_storage := s\<rparr>) result rs'" by blast
    from r(2) obtain artifacts where "rs_artifacts rs' = rs_artifacts rs @ artifacts"
      "artifacts = [] \<or> \<not> sr_cache_hit result \<and> sr_name result = name \<and> artifact_step ` set artifacts \<subseteq> {name}"
      using artifacts_of_step(2) by (auto simp: step_replayed_def step_ran_def)
    then show ?thesis using assms(1) r(1) by (auto simp: fresh_artifacts_def)
  qed (use s assms(1) in \<open>simp add: fresh_artifacts_def\<close>)
qed

lemma fresh_artifacts_steps: "run_steps x ec mc p order rs = Some (Inr rs') \<Longrightarrow> fresh_artifacts rs \<Longrightarrow> fresh_artifacts rs'"
  by (induction order arbitrary: rs) (auto dest: fresh_artifacts_step split: option.splits sum.splits)

lemma finish_run_fields:
  assumes "finish_run x ec mc base loader listing clock p rs = Inr (receipt, rs')"
  shows "r_steps receipt = rs_results rs" "listed_artifacts receipt = rs_artifacts rs"
  using assms by (auto simp: finish_run_def sign_receipt_def listed_artifacts_def Let_def result_simps split: option.splits if_splits)

text \<open>
  C26. A step replayed from the cache costs the receipt its evidence. The artifacts of such a step are not listed in the
  receipt of the run, so if the step has outputs (its output hash is not that of an empty manifest), the inventory that
  opens every evidence bundle refuses the receipt: a build whose steps were all fresh can be released, the same build
  run a second time cannot.
\<close>

theorem cached_step_blocks_evidence:
  assumes "executor_run x ec mc orders base loader listing clock p (initial_state f s sb) = Some (Inr (receipt, rs'))"
    and "r \<in> set (r_steps receipt)" "sr_cache_hit r" "sr_output_hash r \<noteq> to_hex (xe_blake3 x (artifact_manifest []))"
  shows "inventory (xe_blake3 x) receipt \<noteq> Inr ()"
proof
  assume "inventory (xe_blake3 x) receipt = Inr ()"
  then have inv: "inventory_holds (xe_blake3 x) receipt" by (simp add: inventory_iff)
  obtain order rs where rs: "run_steps x ec mc p order (initial_state f s sb) = Some (Inr rs)"
      "finish_run x ec mc base loader listing clock p rs = Inr (receipt, rs')"
    using assms(1) by (auto simp: executor_run_def result_simps split: sum.splits option.splits)
  have "fresh_artifacts rs" using fresh_artifacts_steps [OF rs(1)] by (simp add: fresh_artifacts_def initial_state_def)
  then have "artifact_step a \<noteq> sr_name r" if "a \<in> set (listed_artifacts receipt)" for a
    using that inv assms(2,3) finish_run_fields [OF rs(2)] unfolding fresh_artifacts_def inventory_holds_def
    by (metis distinct_map inj_onD)
  then have "step_entries (listed_artifacts receipt) (sr_name r) = []" by (simp add: step_entries_def filter_empty_conv)
  with inv assms(2,4) show False by (auto simp: inventory_holds_def)
qed

section \<open>The causal events of a run\<close>

text \<open>The parents of the \<open>i\<close>th event: earlier events only, of steps its step needs, and all of those that were recorded.\<close>

definition parents_ok :: "pipeline \<Rightarrow> step_result list \<Rightarrow> causal_event list \<Rightarrow> nat \<Rightarrow> bool" where
  "parents_ok p rs es i \<longleftrightarrow>
     (let needs = (case map_of (steps p) (sr_name (rs ! i)) of Some st \<Rightarrow> step_needs_of st | None \<Rightarrow> []) in
      (\<forall>q\<in>set (causal_parents (es ! i)). \<exists>j<i. q = event_id (es ! j) \<and> sr_name (rs ! j) \<in> set needs) \<and>
      (\<forall>d\<in>set needs. d \<in> sr_name ` set (take i rs) \<longrightarrow> (\<exists>j<i. sr_name (rs ! j) = d \<and> event_id (es ! j) \<in> set (causal_parents (es ! i)))))"

definition signing_pair :: "executor_env \<Rightarrow> attest_keypair \<Rightarrow> bool" where
  "signing_pair x kp \<longleftrightarrow> ed_correct (so_ed (xe_storage x)) \<and> kp = from_signing_key (so_ed (xe_storage x)) (signing_key kp)"

definition signed_event :: "executor_env \<Rightarrow> attest_keypair \<Rightarrow> causal_event \<Rightarrow> bool" where
  "signed_event x kp e \<longleftrightarrow> event_signature_holds (so_ed (xe_storage x)) (le_signing_json (so_ledger (xe_storage x)))
     (le_rfc3339 (so_ledger (xe_storage x))) e = Some True \<and> signer_public_key e = Some (public_key_hex kp)"

definition describes :: "executor_env \<Rightarrow> bytes \<Rightarrow> step_result \<Rightarrow> causal_event \<Rightarrow> bool" where
  "describes x pipe r e \<longleftrightarrow> step_name e = sr_name r \<and> input_hash e = sr_input_hash r \<and> output_hash e = sr_output_hash r \<and>
     pipeline_hash e = pipe \<and> event_id_is_authentic (xe_blake3 x) (le_rfc3339 (so_ledger (xe_storage x))) e"

text \<open>\<open>by_step\<close> after the results \<open>rs\<close> and events \<open>es\<close>.\<close>

definition by_step_ok :: "(bytes \<rightharpoonup> bytes) \<Rightarrow> step_result list \<Rightarrow> causal_event list \<Rightarrow> bool" where
  "by_step_ok m rs es \<longleftrightarrow> dom m = sr_name ` set rs \<and> (\<forall>d q. m d = Some q \<longrightarrow> (\<exists>j<length rs. sr_name (rs ! j) = d \<and> event_id (es ! j) = q))"

lemma by_step_ok_snoc:
  assumes "by_step_ok m rs es" "length rs = length es"
  shows "by_step_ok (m(sr_name r \<mapsto> event_id e)) (rs @ [r]) (es @ [e])"
proof -
  have "\<exists>j<length (rs @ [r]). sr_name ((rs @ [r]) ! j) = d \<and> event_id ((es @ [e]) ! j) = q"
    if dq: "(m(sr_name r \<mapsto> event_id e)) d = Some q" for d q
  proof (cases "d = sr_name r")
    case True
    then show ?thesis using dq assms(2) by (intro exI [of _ "length rs"]) (simp add: nth_append)
  next
    case False
    then obtain j where "j < length rs" "sr_name (rs ! j) = d" "event_id (es ! j) = q"
      using dq assms(1) unfolding by_step_ok_def by (metis fun_upd_other)
    then show ?thesis using assms(2) by (intro exI [of _ j]) (simp add: nth_append)
  qed
  then show ?thesis using assms(1) by (auto simp: by_step_ok_def)
qed

lemma set_map_filter: "set (List.map_filter f xs) = {y. \<exists>x\<in>set xs. f x = Some y}"
  by (induction xs) (auto split: option.splits)

lemma record_events_spec:
  assumes "record_events x p pipe environ listing rs m s = Inr (es, s')" "by_step_ok m rs0 es0" "length rs0 = length es0"
  shows "length es = length rs \<and>
    list_all2 (describes x pipe) rs es \<and>
    (\<forall>i<length rs. parents_ok p (rs0 @ rs) (es0 @ es) (length rs0 + i)) \<and>
    (\<forall>kp. key_loaded kp s \<and> signing_pair x kp \<longrightarrow> key_loaded kp s' \<and> list_all (signed_event x kp) es)"
  using assms
proof (induction rs arbitrary: m s es rs0 es0)
  case (Cons r rs)
  let ?needs = "case map_of (steps p) (sr_name r) of Some st \<Rightarrow> step_needs_of st | None \<Rightarrow> []"
  let ?parents = "List.map_filter m ?needs"
  have "(case map_of (steps p) (sr_name r) of Some st \<Rightarrow> List.map_filter m (step_needs_of st) | None \<Rightarrow> []) = ?parents"
    by (simp split: option.splits)
  with Cons.prems(1) obtain e s1 es' where
    e: "record_causal_event (xe_storage x) listing (rd_event (xe_readings x (sr_name r))) (sr_name r) ?parents r pipe environ s = Inr (e, s1)"
    and rest: "record_events x p pipe environ listing rs (m(sr_name r \<mapsto> event_id e)) s1 = Inr (es', s')" and es: "es = e # es'"
    by (auto simp: Let_def result_simps)
  have IH: "by_step_ok (m(sr_name r \<mapsto> event_id e)) (rs0 @ [r]) (es0 @ [e])" "length (rs0 @ [r]) = length (es0 @ [e])"
    using by_step_ok_snoc [OF Cons.prems(2,3)] Cons.prems(3) by simp_all
  note ih = Cons.IH [OF rest IH]
  have f: "step_name e = sr_name r" "causal_parents e = ?parents" "input_hash e = sr_input_hash r" "output_hash e = sr_output_hash r"
      "pipeline_hash e = pipe" "event_id_is_authentic (xe_blake3 x) (le_rfc3339 (so_ledger (xe_storage x))) e"
    using record_causal_event_cases [OF e] by blast+
  have parents: "parents_ok p (rs0 @ r # rs) (es0 @ e # es') (length rs0)"
  proof -
    have sub: "\<exists>j<length rs0. q = event_id (es0 ! j) \<and> sr_name (rs0 ! j) \<in> set ?needs" if "q \<in> set ?parents" for q
      using that Cons.prems(2) by (fastforce simp: set_map_filter by_step_ok_def)
    have sup: "\<exists>j<length rs0. sr_name (rs0 ! j) = d \<and> event_id (es0 ! j) \<in> set ?parents" if d: "d \<in> set ?needs" "d \<in> sr_name ` set rs0" for d
    proof -
      have "d \<in> dom m" using Cons.prems(2) d(2) by (simp add: by_step_ok_def)
      then obtain q where q: "m d = Some q" by blast
      then obtain j where "j < length rs0" "sr_name (rs0 ! j) = d" "event_id (es0 ! j) = q"
        using Cons.prems(2) unfolding by_step_ok_def by blast
      with q d(1) show ?thesis by (auto simp: set_map_filter)
    qed
    show ?thesis unfolding parents_ok_def Let_def
      using sub sup Cons.prems(3) by (simp add: f(2) nth_append del: set_append) (metis nth_append)
  qed
  have "parents_ok p (rs0 @ r # rs) (es0 @ es) (length rs0 + i)" if "i < length (r # rs)" for i
  proof (cases i)
    case (Suc j)
    then show ?thesis using ih that by (simp add: es)
  qed (use parents in \<open>simp add: es\<close>)
  moreover have "key_loaded kp s' \<and> list_all (signed_event x kp) es" if kp: "key_loaded kp s" "signing_pair x kp" for kp
  proof -
    have "signed_event x kp e" "key_loaded kp s1"
      using record_causal_event_signed [OF e kp(1)] kp(2) unfolding signing_pair_def signed_event_def by blast+
    then show ?thesis using ih kp(2) by (simp add: es)
  qed
  moreover have "describes x pipe r e" using f by (simp add: describes_def)
  ultimately show ?case using ih by (simp add: es)
qed simp

text \<open>
  C10. The ledger of a run tells the same story as its receipt. The receipt lists one event per recorded step, in their order,
  and its chain hash is that of these events. An event carries the name and hashes of its step and the pipeline's hash,
  and its identifier is the one of its content. Its parents are events of the same run that came before it, of steps its
  step needs, and every recorded need has one: nothing that did not happen is referred to. If the signing key was
  supplied for the end of the run, every event is signed with it, and so is the receipt when the run signs receipts.
\<close>

theorem run_ledger:
  assumes "executor_run x ec mc orders base loader listing clock p rs0 = Some (Inr (receipt, rs'))" "r_steps receipt \<noteq> []"
  shows "\<exists>es. r_causal_events receipt = map event_id es \<and>
    r_causal_chain_hash receipt = Some (chain_hash (xe_blake3 x) (le_rfc3339 (so_ledger (xe_storage x))) es) \<and>
    list_all2 (describes x (r_pipeline_hash receipt)) (r_steps receipt) es \<and>
    (\<forall>i<length es. parents_ok p (r_steps receipt) es i) \<and>
    (\<forall>kp. loader = Some (Some kp) \<and> signing_pair x kp \<longrightarrow> list_all (signed_event x kp) es \<and>
       (should_sign_receipt ec mc \<longrightarrow> verify_receipt (xe_storage x) (rs_storage rs') receipt = Inr True))"
proof -
  obtain order rs where "finish_run x ec mc base loader listing clock p rs = Inr (receipt, rs')"
    using assms(1) by (auto simp: executor_run_def result_simps split: sum.splits option.splits)
  then obtain s ids root s1 r0 where s: "load_signing_key loader (rs_storage rs) = Inr s"
    "record_causal_events x ec p listing (rs_results rs) (compute_pipeline_hash x p) s = Inr ((ids, root), s1)"
    "receipt = (if should_sign_receipt ec mc then sign_receipt (xe_storage x) s1 r0 else r0)" "rs' = rs\<lparr>rs_storage := s1\<rparr>"
    "r_causal_events r0 = ids" "r_causal_chain_hash r0 = root" "r_steps r0 = rs_results rs" "r_pipeline_hash r0 = compute_pipeline_hash x p"
    unfolding finish_run_def Let_def by (clarsimp simp: result_simps)
  have fields: "r_steps receipt = rs_results rs" "r_causal_events receipt = ids" "r_causal_chain_hash receipt = root"
    "r_pipeline_hash receipt = compute_pipeline_hash x p"
    using s(3,5-8) by (auto simp: sign_receipt_def split: option.splits)
  obtain es where es: "record_events x p (compute_pipeline_hash x p) (environment_hash_of x ec) listing (rs_results rs) Map.empty s = Inr (es, s1)"
    "ids = map event_id es" "root = Some (chain_hash (xe_blake3 x) (le_rfc3339 (so_ledger (xe_storage x))) es)"
    using s(2) assms(2) fields(1) by (auto simp: record_causal_events_def result_simps)
  have "by_step_ok Map.empty [] []" by (simp add: by_step_ok_def)
  note e = record_events_spec [OF es(1) this, simplified]
  have "list_all (signed_event x kp) es \<and> (should_sign_receipt ec mc \<longrightarrow> verify_receipt (xe_storage x) (rs_storage rs') receipt = Inr True)"
    if kp: "loader = Some (Some kp)" "signing_pair x kp" for kp
  proof -
    have "key_loaded kp s" using s(1) kp(1) key_loaded_set_keypair by (auto simp: load_signing_key_def)
    with e kp(2) have k: "list_all (signed_event x kp) es" "s_keypair s1 = Some kp" by (auto simp: key_loaded_def)
    from kp(2) sign_receipt_verifies [OF _ k(2), of "xe_storage x" r0] k(1) show ?thesis
      unfolding signing_pair_def by (simp add: s(3,4))
  qed
  with e show ?thesis using es(2,3) fields by (intro exI [of _ es]) auto
qed

section \<open>What the recipient checks\<close>

definition digest_text :: "bytes \<Rightarrow> bool" where "digest_text h \<longleftrightarrow> (\<exists>d. h = to_hex d)"

lemma digest_text_coherent: "digest_text h \<Longrightarrow> length h = 64 \<and> (\<forall>c\<in>set h. is_hex_digit c)"
  by (auto simp: digest_text_def) (simp add: to_hex_def hex_encode_digits)

lemma hashes_digest_text:
  "hash_inputs blake3 f ws n run ins = Inr h \<Longrightarrow> digest_text h"
  "outputs_with_artifacts blake3 f ws n outs = Inr (h', as) \<Longrightarrow> digest_text h'"
  by (auto simp: hash_inputs_def outputs_with_artifacts_def digest_text_def result_simps)

text \<open>Every result that is not from the cache carries hashes.\<close>

definition hashed_results :: "run_state \<Rightarrow> bool" where
  "hashed_results rs \<longleftrightarrow> (\<forall>r\<in>set (rs_results rs). sr_cache_hit r \<or> digest_text (sr_input_hash r) \<and> digest_text (sr_output_hash r))"

lemma hashed_results_step:
  assumes "hashed_results rs" "run_step x ec mc p name rs = Some (Inr rs')"
  shows "hashed_results rs'"
proof -
  obtain st where st: "map_of (steps p) name = Some st" using assms(2) by (auto simp: run_step_def split: option.splits)
  note s = run_step_spec [OF assms(2) st]
  show ?thesis
  proof (cases "\<exists>d\<in>set (step_needs_of st). d \<in> set (rs_unsuccessful rs)")
    case False
    then have "process_step x ec mc p name st rs = Some (Inr rs')" using s by simp
    from process_step_spec [OF this] obtain ih key result s where r: "rs_results rs' = rs_results rs @ [result]"
      "step_replayed x name st key rs result rs' \<or> step_ran x name st ih key (rs\<lparr>rs_storage := s\<rparr>) result rs'" by blast
    have "sr_cache_hit result \<or> digest_text (sr_input_hash result) \<and> digest_text (sr_output_hash result)"
      using r(2) by (auto simp: step_replayed_def step_ran_def compute_input_hash_def result_simps intro: hashes_digest_text)
    then show ?thesis using assms(1) r(1) by (auto simp: hashed_results_def)
  qed (use s assms(1) in \<open>simp add: hashed_results_def\<close>)
qed

lemma hashed_results_steps: "run_steps x ec mc p order rs = Some (Inr rs') \<Longrightarrow> hashed_results rs \<Longrightarrow> hashed_results rs'"
  by (induction order arbitrary: rs) (auto dest: hashed_results_step split: option.splits sum.splits)

lemma finish_run_signed:
  assumes "finish_run x ec mc base (Some (Some kp)) listing clock p rs = Inr (receipt, rs')" "signing_pair x kp" "should_sign_receipt ec mc"
  shows "\<exists>s1 r0. receipt = sign_receipt (xe_storage x) s1 r0 \<and> s_keypair s1 = Some kp \<and> r_attest_version r0 = xe_version x \<and>
    r_pipeline_hash r0 = compute_pipeline_hash x p \<and> r_timestamp_token r0 = None"
proof -
  obtain ids root s1 r0 where r: "record_causal_events x ec p listing (rs_results rs) (compute_pipeline_hash x p) (set_keypair kp (rs_storage rs)) = Inr ((ids, root), s1)"
    "receipt = sign_receipt (xe_storage x) s1 r0" "r_attest_version r0 = xe_version x" "r_pipeline_hash r0 = compute_pipeline_hash x p"
    "r_timestamp_token r0 = None"
    using assms(1,3) unfolding finish_run_def load_signing_key_def Let_def by (clarsimp simp: result_simps)
  have "s_keypair s1 = Some kp"
  proof (cases "rs_results rs = []")
    case True
    then show ?thesis using r(1) by (auto simp: record_causal_events_def set_keypair_def)
  next
    case False
    then obtain es where "record_events x p (compute_pipeline_hash x p) (environment_hash_of x ec) listing (rs_results rs) Map.empty
        (set_keypair kp (rs_storage rs)) = Inr (es, s1)"
      using r(1) by (auto simp: record_causal_events_def result_simps)
    moreover have "by_step_ok Map.empty [] []" by (simp add: by_step_ok_def)
    ultimately have "key_loaded kp s1" using record_events_spec [of x p _ _ listing _ Map.empty _ es s1 "[]" "[]"] key_loaded_set_keypair assms(2) by fastforce
    then show ?thesis by (simp add: key_loaded_def)
  qed
  with r show ?thesis by blast
qed

section \<open>Example runs\<close>

definition example_readings :: step_readings where
  "example_readings = \<lparr>rd_duration = 1, rd_cached = 0, rd_index = (0, 0, 0), rd_now = 0, rd_fresh = ([], []), rd_event = 0\<rparr>"

text \<open>Every command fails and changes nothing.\<close>

definition example_exit :: process_run where
  "example_exit = \<lparr>pr_spawned = True, pr_child = (\<lambda>_. Exited (Some 1)), pr_clock = id, pr_reaped = Some True, pr_stdout = Some [], pr_stderr = Some []\<rparr>"

definition example_executor :: executor_env where
  "example_executor = \<lparr>xe_storage = example_storage_env, xe_sandbox = example_sandbox_env, xe_capsule = example_capsule_env,
     xe_capsules = Map.empty, xe_step_json = step_run, xe_pipeline_yaml = (\<lambda>_. ''p''), xe_lossy = id, xe_workspace = example_root,
     xe_workspace_name = ''/w'', xe_is_dir = (\<lambda>_ _. True), xe_exists = (\<lambda>_ _. True), xe_root = False,
     xe_modes = (\<lambda>_. \<lparr>ft_at = Map.empty, ft_mode = (\<lambda>_. 0)\<rparr>), xe_fails = (\<lambda>_. None), xe_opens = (\<lambda>_. True),
     xe_process = (\<lambda>_ f. (example_exit, f)), xe_container = (\<lambda>_ f. Some (Inl SpawnFailed, f)), xe_capsule_run = (\<lambda>_ f. Some (None, f)),
     xe_node = (\<lambda>_ _. None), xe_tempdir = None, xe_holding = (\<lambda>_. example_fs), xe_readings = (\<lambda>_. example_readings),
     xe_os = ''linux'', xe_arch = ''x86_64'', xe_version = ''1''\<rparr>"

definition example_failing :: pipeline where
  "example_failing = example_pipeline\<lparr>steps := [(''a'', Dag.example_step None), (''b'', Dag.example_step (Some [''a'']))]\<rparr>"

definition example_base :: execution_provenance where
  "example_base = \<lparr>invocation_id = None, started_at = None, ep_pipeline_name = None, ep_source = None, runner_os = ''linux'',
     runner_arch = ''x86_64'', ep_ci = None, ep_steps = [], ep_artifacts = [], ep_execution = None\<rparr>"

lemma example_executor_simps:
  "xe_storage example_executor = example_storage_env" "xe_workspace example_executor = example_root"
  "xe_process example_executor pc f = (example_exit, f)"
  "xe_root example_executor = False" "xe_sandbox example_executor = example_sandbox_env"
  "sx_unix example_sandbox_env = True"
  by (simp_all add: example_executor_def example_sandbox_env_def)

lemma example_launch:
  "run_launch example_executor (Process pc) f = Some (Inr \<lparr>to_exit_code = 1, to_stdout = [], to_stderr = []\<rparr>, f)"
proof -
  have "poll_process example_exit (pc_timeout pc) = Some (Inr (Some 1, False))"
    by (simp add: poll_process_def example_exit_def poll_child.simps)
  then show ?thesis by (simp add: run_launch_def example_executor_simps run_with_timeout_def example_exit_def example_executor_def)
qed

lemma example_settles: "commands_settle (example_executor :: executor_env) ec p"
  by (auto simp: commands_settle_def launch_settles_def command_settles_def example_executor_def example_exit_def split: launch.splits option.splits)

lemma hash_empty:
  "hash_inputs b f ws n run [] = Inr (to_hex (b (MANIFEST_HEADER @ [CHR 0x0A] @ ''run:'' @ to_hex (b run) @ [CHR 0x0A])))"
  "outputs_with_artifacts b f ws n [] = Inr (to_hex (b (MANIFEST_HEADER @ [CHR 0x0A])), [])"
  by (simp_all add: hash_inputs_def input_manifest_def outputs_with_artifacts_def collect_entries_def)

lemma example_process:
  assumes "s_cache (rs_storage rs) = Map.empty" "rs_sandbox rs = None"
  shows "\<exists>ih. process_step example_executor ec None p name (Dag.example_step needs) rs =
    Some (Inr (finish_step name (recorded_result example_executor name ih (to_hex (so_blake3 example_storage_env (MANIFEST_HEADER @ [CHR 0x0A])))
      \<lparr>to_exit_code = 1, to_stdout = [], to_stderr = []\<rparr> None) (rs\<lparr>rs_held := hold_count True False (rs_held rs)\<rparr>)))"
proof -
  let ?x = example_executor and ?st = "Dag.example_step needs"
  let ?b = "so_blake3 example_storage_env"
  define ih where "ih = to_hex (?b (MANIFEST_HEADER @ [CHR 0x0A] @ ''run:'' @ to_hex (?b ''make'') @ [CHR 0x0A]))"
  have st: "step_inputs ?st = []" "step_outputs ?st = []" "step_run ?st = ''make''" "step_capsule ?st = None" "working_dir ?st = None"
    by (simp_all add: Dag.example_step_def)
  have h: "compute_input_hash ?x (rs_fs rs) name ?st = Inr ih"
    by (simp add: compute_input_hash_def st hash_empty ih_def example_executor_simps)
  have "hold_inputs ?x (rs_fs rs) (step_inputs ?st) = Some True"
    by (simp add: hold_inputs_def guard_paths_def st example_executor_simps guard_hold_def)
  moreover have "perform_step ?x ec name ?st environ None ih None (rs_fs rs) =
      Some (Inr (\<lparr>to_exit_code = 1, to_stdout = [], to_stderr = []\<rparr>, None), rs_fs rs)" for environ
    by (simp add: perform_step_def execute_step_def direct_command_def st example_launch)
  ultimately have "execute_and_record ?x ec name ?st environ None ih rs =
      Some (Inr (recorded_result ?x name ih (to_hex (?b (MANIFEST_HEADER @ [CHR 0x0A]))) \<lparr>to_exit_code = 1, to_stdout = [], to_stderr = []\<rparr> None,
        rs\<lparr>rs_held := hold_count True False (rs_held rs)\<rparr>))" for environ
    using h assms(2) by (simp add: execute_and_record_def st hash_empty example_executor_simps remember_result_def recorded_result_def)
  moreover have "lookup_cached ?x (rs_fs rs) name ?st key (rs_storage rs) = Inr (None, rs_storage rs)" for key
    using assms(1) by (simp add: lookup_cached_def get_cached_entry_def)
  ultimately have "process_step ?x ec None p name ?st rs =
      Some (Inr (finish_step name (recorded_result ?x name ih (to_hex (?b (MANIFEST_HEADER @ [CHR 0x0A]))) \<lparr>to_exit_code = 1, to_stdout = [], to_stderr = []\<rparr> None)
        (rs\<lparr>rs_held := hold_count True False (rs_held rs)\<rparr>)))"
    using h by (simp add: process_step_def prepare_step_def load_capsule_def st compute_content_hash_def hash_empty example_executor_simps Let_def)
  then show ?thesis ..
qed

definition example_dag2 :: execution_dag where
  "example_dag2 = \<lparr>nodes = [''a'', ''b''], edges = [''a'' \<mapsto> [''b''], ''b'' \<mapsto> []]\<rparr>"

lemma example_failing_build: "build example_failing = Inr example_dag2" "btree_ok (steps example_failing)" "keys (steps example_failing) = [''a'', ''b'']"
  by (simp_all add: build_def example_failing_def example_dag2_def Dag.example_step_def keys_def check_cycles_def nbrs_def Let_def fun_eq_iff
      eval_nat_numeral btree_ok_def)

lemma example_failing_order:
  assumes "order_of order {''a'', ''b''}" "in_order (needs_edges (steps example_failing)) order"
  shows "order = [''a'', ''b'']"
proof -
  have "length order = 2" using assms(1) distinct_card [of order] by (simp add: order_of_def)
  then obtain u v where uv: "order = [u, v]" by (auto simp: numeral_2_eq_2 length_Suc_conv)
  moreover have "u \<noteq> ''b''"
  proof
    assume "u = ''b''"
    then have "order = [] @ ''b'' # [v]" by (simp add: uv)
    moreover have "(''a'', ''b'') \<in> needs_edges (steps example_failing)"
      by (auto simp: needs_edges_def example_failing_def Dag.example_step_def)
    ultimately show False using assms(2) unfolding in_order_def by fastforce
  qed
  moreover have "u \<in> {''a'', ''b''}" "v \<in> {''a'', ''b''}" "u \<noteq> v"
    using assms(1) unfolding order_of_def uv by (metis list.set_intros(1), metis list.set_intros(1,2), simp)
  ultimately show ?thesis by blast
qed

lemma example_events:
  assumes "so_ledger (xe_storage x) = example_env" "s_ledger s = None"
  shows "\<exists>ids s'. record_causal_events x ec p [] [q] pipe s = Inr (ids, s')"
proof -
  have "\<exists>e s'. record_causal_event (xe_storage x) [] n m parents q pipe environ s = Inr (e, s')" for n m parents environ
    using assms by (simp add: record_causal_event_def get_causal_ledger_def load_events_def ledger_new_def record_event_local_def
        store_event_local_def example_env_def Let_def)
  then obtain e s' where "record_causal_event (xe_storage x) [] (rd_event (xe_readings x (sr_name q))) (sr_name q)
      (case map_of (steps p) (sr_name q) of Some st \<Rightarrow> List.map_filter Map.empty (step_needs_of st) | None \<Rightarrow> []) q pipe
      (environment_hash_of x ec) s = Inr (e, s')" by blast
  then show ?thesis unfolding record_causal_events_def record_events.simps Let_def by (simp add: map_err_def)
qed

lemma example_runs:
  fixes kp :: attest_keypair and ec :: executor_config
  shows "\<exists>receipt rs' r. executor_run example_executor ec None ([''a'', ''b''], [''b'', ''a'']) example_base (Some (Some kp)) [] (0, 1)
    example_failing (initial_state example_fs example_storage None) = Some (Inr (receipt, rs')) \<and> r_steps receipt = [r] \<and> sr_exit_code r = 1 \<and>
    \<not> sr_cache_hit r"
proof -
  let ?x = example_executor and ?p = example_failing
  let ?rs0 = "initial_state example_fs example_storage None"
  obtain order where o: "order_of order {''a'', ''b''}" "in_order (needs_edges (steps ?p)) order"
    "executor_run ?x ec None ([''a'', ''b''], [''b'', ''a'']) example_base (Some (Some kp)) [] (0, 1) ?p ?rs0 =
       map_option (\<lambda>r. and_then r (finish_run ?x ec None example_base (Some (Some kp)) [] (0, 1) ?p)) (run_steps ?x ec None ?p order ?rs0)"
    using executor_run_spec [OF example_failing_build(1,2), of "([''a'', ''b''], [''b'', ''a''])" ?x ec None
        example_base "Some (Some kp)" "[]" "(0, 1)" ?rs0]
    by (auto simp: example_failing_build(3) example_dag2_def order_of_def)
  have order: "order = [''a'', ''b'']" using example_failing_order [OF o(1,2)] .
  have c: "s_cache (rs_storage ?rs0) = Map.empty" "rs_sandbox ?rs0 = None" by (simp_all add: initial_state_def example_storage_def)
  from example_process [OF c, of ec ?p "''a''" None] obtain ih where
    a: "process_step ?x ec None ?p ''a'' (Dag.example_step None) ?rs0 =
      Some (Inr (finish_step ''a'' (recorded_result ?x ''a'' ih (to_hex (so_blake3 example_storage_env (MANIFEST_HEADER @ [CHR 0x0A])))
      \<lparr>to_exit_code = 1, to_stdout = [], to_stderr = []\<rparr> None) (?rs0\<lparr>rs_held := hold_count True False (rs_held ?rs0)\<rparr>)))" (is "_ = Some (Inr ?rs1)") by blast
  have st: "map_of (steps ?p) ''a'' = Some (Dag.example_step None)" "map_of (steps ?p) ''b'' = Some (Dag.example_step (Some [''a'']))"
    "step_needs_of (Dag.example_step None) = []" "step_needs_of (Dag.example_step (Some [''a''])) = [''a'']"
    by (simp_all add: example_failing_def step_needs_of_def Dag.example_step_def)
  have u: "rs_unsuccessful ?rs1 = [''a'']" by (simp add: finish_step_def recorded_result_def initial_state_def)
  have "run_step ?x ec None ?p ''a'' ?rs0 = Some (Inr ?rs1)" using a by (simp add: run_step_def st)
  moreover have "run_step ?x ec None ?p ''b'' ?rs1 =
      Some (Inr (?rs1\<lparr>rs_unsuccessful := rs_unsuccessful ?rs1 @ [''b''], rs_completed := rs_completed ?rs1 @ [''b'']\<rparr>))"
    unfolding run_step_def st(2) using u by (simp add: st)
  ultimately obtain rs where rs: "run_steps ?x ec None ?p order ?rs0 = Some (Inr rs)" "rs_results rs = rs_results ?rs1" "rs_storage rs = rs_storage ?rs1"
    by (auto simp: order)
  have res: "rs_results ?rs1 = [recorded_result ?x ''a'' ih (to_hex (so_blake3 example_storage_env (MANIFEST_HEADER @ [CHR 0x0A])))
      \<lparr>to_exit_code = 1, to_stdout = [], to_stderr = []\<rparr> None]" (is "_ = [?r]") "rs_storage ?rs1 = example_storage"
    by (simp_all add: finish_step_def initial_state_def)
  have "so_ledger (xe_storage ?x) = example_env" "s_ledger (set_keypair kp example_storage) = None"
    by (simp_all add: example_executor_simps example_storage_env_def set_keypair_def example_storage_def)
  then have "\<exists>ids s. record_causal_events ?x ec ?p [] [?r] (compute_pipeline_hash ?x ?p) (set_keypair kp example_storage) = Inr (ids, s)"
    by (rule example_events)
  then obtain ids root s where "record_causal_events ?x ec ?p [] [?r] (compute_pipeline_hash ?x ?p) (set_keypair kp example_storage) = Inr ((ids, root), s)"
    by (metis surj_pair)
  then obtain receipt rs' where "finish_run ?x ec None example_base (Some (Some kp)) [] (0, 1) ?p rs = Inr (receipt, rs')"
    by (simp add: finish_run_def load_signing_key_def rs(2,3) res Let_def)
  moreover from this have "r_steps receipt = [?r]" using finish_run_fields(1) rs(2) res(1) by metis
  ultimately show ?thesis using o(3) rs(1) by (auto simp: recorded_result_def)
qed

theorem run_ends_witness:
  "\<exists>r. executor_run example_executor (default_executor_config 1) None ([''a'', ''b''], [''b'', ''a'']) example_base None [] (0, 1)
    example_failing (initial_state example_fs example_storage None) = Some r"
  by (rule run_ends [OF example_failing_build(1,2) _ _ example_settles]) (auto simp: example_dag2_def order_of_def)

theorem recorded_step_true_witness:
  "\<exists>rs' result. process_step example_executor (default_executor_config 1) None example_failing ''a'' (Dag.example_step None)
      (initial_state example_fs example_storage None) = Some (Inr rs') \<and> rs_results rs' = [result]"
proof -
  let ?rs0 = "initial_state example_fs example_storage None"
  have c: "s_cache (rs_storage ?rs0) = Map.empty" "rs_sandbox ?rs0 = None" "rs_results ?rs0 = []" by (simp_all add: initial_state_def example_storage_def)
  obtain rs' where "process_step example_executor (default_executor_config 1) None example_failing ''a'' (Dag.example_step None) ?rs0 = Some (Inr rs')"
    using example_process [OF c(1,2)] by blast
  with recorded_step_true [OF this] c(3) show ?thesis by auto
qed

theorem run_ledger_witness:
  "\<exists>(receipt :: receipt) es. r_causal_events receipt = map event_id es \<and> length es = 1 \<and>
    list_all (signed_event example_executor (from_signing_key example_ed (digest_of ''k''))) es"
proof -
  let ?kp = "from_signing_key example_ed (digest_of ''k'')"
  obtain receipt rs' r where run: "executor_run example_executor (default_executor_config 1) None ([''a'', ''b''], [''b'', ''a'']) example_base
      (Some (Some ?kp)) [] (0, 1) example_failing (initial_state example_fs example_storage None) = Some (Inr (receipt, rs'))" "r_steps receipt = [r]"
    using example_runs by blast
  have "so_ed example_storage_env = example_ed" by (simp add: example_storage_env_def example_env_def)
  then have "signing_pair example_executor ?kp" using example_ed_correct by (simp add: signing_pair_def example_executor_simps from_signing_key_def)
  moreover have "r_steps receipt \<noteq> []" by (simp add: run(2))
  ultimately obtain es where es: "r_causal_events receipt = map event_id es"
    "list_all2 (describes example_executor (r_pipeline_hash receipt)) (r_steps receipt) es" "list_all (signed_event example_executor ?kp) es"
    using run_ledger [OF run(1)] by blast
  have "length es = 1" using list_all2_lengthD [OF es(2)] by (simp add: run(2))
  with es(1,3) show ?thesis by blast
qed

text \<open>A second run: the only step is found in the cache, and its output is on disk.\<close>

definition example_output_step :: step where "example_output_step = (Dag.example_step None)\<lparr>step_outputs := [''a'']\<rparr>"

definition example_cached_pipeline :: pipeline where "example_cached_pipeline = example_pipeline\<lparr>steps := [(''a'', example_output_step)]\<rparr>"

definition example_output_hash :: bytes where
  "example_output_hash = to_hex (example_hash (MANIFEST_HEADER @ [CHR 0x0A] @ ''f:'' @ to_hex (example_hash ''x'') @ '' a'' @ [CHR 0x0A]))"

definition example_key :: bytes where
  "example_key = (case compute_content_hash example_storage_env example_fs example_root ''a'' ''make'' []
     (step_environment (default_executor_config 1) None example_cached_pipeline ''a'' example_output_step None)
     (execution_shape step_run (\<lambda>b. to_hex (so_blake3 example_storage_env b)) example_output_step) of Inr h \<Rightarrow> h | Inl _ \<Rightarrow> [])"

definition example_cached :: cache_entry where
  "example_cached = Storage.example_entry\<lparr>ce_content_hash := example_key, ce_result := (ce_result Storage.example_entry)\<lparr>sr_name := ''a'', sr_output_hash := example_output_hash\<rparr>\<rparr>"

definition example_caching :: executor_env where
  "example_caching = example_executor\<lparr>xe_storage := example_storage_env\<lparr>so_entry_of_yaml := (\<lambda>_. Some example_cached)\<rparr>\<rparr>"

definition example_full :: storage where
  "example_full = example_storage\<lparr>s_cache := [cache_file example_key \<mapsto> ''e'']\<rparr>"

lemma example_caching_simps:
  "xe_storage example_caching = example_storage_env\<lparr>so_entry_of_yaml := (\<lambda>_. Some example_cached)\<rparr>"
  "xe_workspace example_caching = example_root" "xe_step_json example_caching = step_run"
  by (simp_all add: example_caching_def example_executor_def)

lemma example_outputs: "hash_outputs example_hash example_fs example_root ''a'' [components ''a''] = Inr example_output_hash"
proof -
  have "collect_entries example_hash example_fs example_root ''a'' [[Normal ''a'']] Output = Inr [(''a'', ''f:'' @ to_hex (example_hash ''x''))]"
    by (simp add: hashing_eval example_root_def example_fs_def example_components Let_def is_control_def less_char_def)
  then show ?thesis by (simp add: hash_outputs_def output_manifest_def example_components push_entry_def example_output_hash_def)
qed

lemma example_output_hash_differs: "example_output_hash \<noteq> to_hex (example_hash (artifact_manifest []))"
proof -
  let ?h = "MANIFEST_HEADER @ [CHR 0x0A]"
  let ?s = "''f:'' @ to_hex (example_hash ''x'') @ '' a'' @ [CHR 0x0A]"
  have len: "length ?h = 19" by (simp add: MANIFEST_HEADER_def)
  have d: "drop 19 (take 20 (take 32 ((?h @ ?s) @ replicate 32 (CHR 0x00)))) = ''f''"
    "drop 19 (take 20 (take 32 (?h @ replicate 32 (CHR 0x00)))) = [CHR 0x00]"
    using len by (simp_all add: take_take eval_nat_numeral)
  have "digest_of (?h @ ?s) \<noteq> digest_of ?h"
  proof
    assume "digest_of (?h @ ?s) = digest_of ?h"
    then have "take 32 ((?h @ ?s) @ replicate 32 (CHR 0x00)) = take 32 (?h @ replicate 32 (CHR 0x00))" by (simp only: digest_of_eq_iff)
    with d have "''f'' = [CHR 0x00]" by (simp only:)
    then show False by simp
  qed
  moreover have "example_hash (?h @ ?s) = digest_of (?h @ ?s)" "example_hash ?h = digest_of ?h"
    by (simp_all add: example_hash_def len [simplified] MANIFEST_HEADER_def)
  ultimately show ?thesis by (simp add: example_output_hash_def artifact_manifest_def)
qed


lemma example_replay:
  "process_step example_caching (default_executor_config 1) None example_cached_pipeline ''a'' example_output_step
     (initial_state example_fs example_full None) =
   Some (Inr (finish_step ''a'' ((ce_result example_cached)\<lparr>sr_cache_hit := True\<rparr>) (initial_state example_fs example_full None)))"
proof -
  let ?x = example_caching and ?ec = "default_executor_config 1" and ?st = example_output_step and ?rs = "initial_state example_fs example_full None"
  have st: "step_inputs ?st = []" "step_outputs ?st = [''a'']" "step_run ?st = ''make''" "step_capsule ?st = None" "step_cache ?st"
    by (simp_all add: example_output_step_def Dag.example_step_def)
  have rs: "rs_fs ?rs = example_fs" "rs_storage ?rs = example_full" "?rs\<lparr>rs_storage := example_full\<rparr> = ?rs" by (simp_all add: initial_state_def)
  have b: "so_blake3 (xe_storage ?x) = example_hash" "so_blake3 example_storage_env = example_hash"
    by (simp_all add: example_caching_simps example_storage_env_def example_env_def)
  have key: "compute_content_hash (xe_storage ?x) example_fs example_root ''a'' ''make'' []
     (step_environment ?ec None example_cached_pipeline ''a'' ?st None)
     (execution_shape step_run (\<lambda>b. to_hex (example_hash b)) ?st) = Inr example_key"
    by (simp add: example_key_def compute_content_hash_def b hash_empty)
  have "is_utf8 ''e''" by simp
  then have "get_cached_entry (xe_storage ?x) example_key example_full = Inr (Some example_cached, example_full)"
    by (simp add: get_cached_entry_def example_full_def example_caching_simps example_cached_def)
  moreover have "outputs_still_match ?x example_fs ''a'' ?st example_cached"
    by (simp add: outputs_still_match_def st b example_caching_simps(2) example_outputs example_cached_def)
  ultimately have "lookup_cached ?x example_fs ''a'' ?st example_key example_full = Inr (Some example_cached, example_full)"
    by (simp add: lookup_cached_def st)
  moreover have "compute_input_hash ?x example_fs ''a'' ?st = Inr (to_hex (example_hash (MANIFEST_HEADER @ [CHR 0x0A] @ ''run:'' @ to_hex (example_hash ''make'') @ [CHR 0x0A])))"
    by (simp add: compute_input_hash_def st b hash_empty)
  ultimately show ?thesis using key
    by (simp add: process_step_def prepare_step_def load_capsule_def st rs b example_caching_simps(2,3) Let_def)
qed

lemma example_cached_build: "build example_cached_pipeline = Inr \<lparr>nodes = [''a''], edges = [''a'' \<mapsto> []]\<rparr>"
  "btree_ok (steps example_cached_pipeline)" "keys (steps example_cached_pipeline) = [''a'']"
  by (simp_all add: build_def example_cached_pipeline_def example_output_step_def Dag.example_step_def keys_def check_cycles_def nbrs_def Let_def
      eval_nat_numeral btree_ok_def fun_eq_iff)

lemma example_single: "order_of order {''a''} \<Longrightarrow> order = [''a'']"
proof -
  assume "order_of order {''a''}"
  then have "length order = 1" "set order = {''a''}" using distinct_card [of order] by (simp_all add: order_of_def)
  then show ?thesis by (cases order) auto
qed

lemma example_second_run:
  "\<exists>receipt rs'. executor_run example_caching (default_executor_config 1) None ([''a''], [''a'']) example_base None [] (0, 1)
     example_cached_pipeline (initial_state example_fs example_full None) = Some (Inr (receipt, rs')) \<and>
   r_steps receipt = [(ce_result example_cached)\<lparr>sr_cache_hit := True\<rparr>]"
proof -
  let ?x = example_caching and ?ec = "default_executor_config 1" and ?p = example_cached_pipeline
  let ?start = "initial_state example_fs example_full None" and ?r = "(ce_result example_cached)\<lparr>sr_cache_hit := True\<rparr>"
  obtain order where o: "order_of order {''a''}"
    "executor_run ?x ?ec None ([''a''], [''a'']) example_base None [] (0, 1) ?p ?start =
       map_option (\<lambda>r. and_then r (finish_run ?x ?ec None example_base None [] (0, 1) ?p)) (run_steps ?x ?ec None ?p order ?start)"
    using executor_run_spec [OF example_cached_build(1,2), of "([''a''], [''a''])" ?x ?ec None example_base None "[]" "(0, 1)" ?start]
    by (auto simp: example_cached_build(3) order_of_def)
  have order: "order = [''a'']" using o(1) by (rule example_single)
  have "map_of (steps ?p) ''a'' = Some example_output_step" "step_needs_of example_output_step = []"
    by (simp_all add: example_cached_pipeline_def step_needs_of_def example_output_step_def Dag.example_step_def)
  then have r: "run_steps ?x ?ec None ?p order ?start = Some (Inr (finish_step ''a'' ?r ?start))" using example_replay by (simp add: order run_step_def)
  let ?fin = "finish_step ''a'' ?r ?start"
  have rs: "rs_results ?fin = [?r]" "rs_storage ?fin = example_full" by (simp_all add: finish_step_def initial_state_def)
  have "so_ledger (xe_storage ?x) = example_env" "s_ledger example_full = None"
    by (simp_all add: example_caching_simps example_storage_env_def example_full_def example_storage_def)
  then obtain ids root s where "record_causal_events ?x ?ec ?p [] [?r] (compute_pipeline_hash ?x ?p) example_full = Inr ((ids, root), s)"
    using example_events [of ?x example_full ?ec ?p ?r "compute_pipeline_hash ?x ?p"] by (metis surj_pair)
  then obtain receipt rs' where f: "finish_run ?x ?ec None example_base None [] (0, 1) ?p ?fin = Inr (receipt, rs')"
    by (simp add: finish_run_def load_signing_key_def rs Let_def)
  then have "executor_run ?x ?ec None ([''a''], [''a'']) example_base None [] (0, 1) ?p ?start = Some (Inr (receipt, rs'))"
    by (simp only: o(2) r option.map and_then_simps)
  then show ?thesis using finish_run_fields(1) [OF f] rs(1) by auto
qed

theorem cached_step_blocks_evidence_witness:
  "\<exists>receipt rs'. executor_run example_caching (default_executor_config 1) None ([''a''], [''a'']) example_base None [] (0, 1)
     example_cached_pipeline (initial_state example_fs example_full None) = Some (Inr (receipt, rs')) \<and>
   inventory example_hash receipt \<noteq> Inr ()"
proof -
  let ?r = "(ce_result example_cached)\<lparr>sr_cache_hit := True\<rparr>"
  obtain receipt rs' where run: "executor_run example_caching (default_executor_config 1) None ([''a''], [''a'']) example_base None [] (0, 1)
     example_cached_pipeline (initial_state example_fs example_full None) = Some (Inr (receipt, rs'))" "r_steps receipt = [?r]"
    using example_second_run by blast
  have b: "xe_blake3 example_caching = example_hash" by (simp add: example_caching_simps example_storage_env_def example_env_def)
  have mem: "?r \<in> set (r_steps receipt)" by (simp add: run(2))
  have "inventory (xe_blake3 example_caching) receipt \<noteq> Inr ()"
    by (rule cached_step_blocks_evidence [OF run(1) mem]) (use example_output_hash_differs in \<open>simp_all add: example_cached_def b\<close>)
  then show ?thesis using run(1) b by auto
qed

text \<open>The key of the step, and the cache that holds its entry.\<close>

definition example_key_bytes :: bytes where
  "example_key_bytes = step_key example_caching ''a'' example_output_step
     (step_environment (default_executor_config 1) None example_cached_pipeline ''a'' example_output_step None)
     (to_hex (example_hash (MANIFEST_HEADER @ [CHR 0x0A] @ ''run:'' @ to_hex (example_hash ''make'') @ [CHR 0x0A])))"

lemma example_key_hash: "example_key = to_hex (xe_blake3 example_caching example_key_bytes)"
  by (simp add: example_key_def example_key_bytes_def step_key_def compute_content_hash_def hash_empty example_caching_simps
      example_storage_env_def example_env_def)

lemma example_cache_named: "cache_named example_caching {example_key_bytes} example_full"
  unfolding cache_named_def
proof (intro allI impI)
  fix d e s' assume "get_cached_entry (xe_storage example_caching) (to_hex d) example_full = Inr (Some e, s')"
  then have "to_hex d = example_key" "e = example_cached"
    by (auto simp: get_cached_entry_def example_full_def example_storage_def example_caching_simps result_simps split: if_splits)
  then have "xe_blake3 example_caching example_key_bytes = d" "sr_name (ce_result e) = ''a''"
    by (simp_all add: example_key_hash example_cached_def)
  then show "\<exists>k\<in>{example_key_bytes}. xe_blake3 example_caching k = d \<and>
      (\<exists>shape i environ. k = cache_key_bytes shape (sr_name (ce_result e)) i environ)"
    by (auto simp: example_key_bytes_def step_key_def)
qed

lemma example_cached_keys:
  "executor_keys example_caching (default_executor_config 1) None ([''a''], [''a'']) example_cached_pipeline (initial_state example_fs example_full None)
     \<subseteq> {example_key_bytes}"
proof -
  let ?rs0 = "initial_state example_fs example_full None" and ?p = example_cached_pipeline
  obtain order where o: "topological_sort [''a''] [''a''] \<lparr>nodes = [''a''], edges = [''a'' \<mapsto> []]\<rparr> = Some (Inr order)" "order_of order {''a''}"
    using executor_run_spec [OF example_cached_build(1,2), of "([''a''], [''a''])" example_caching "default_executor_config 1" None example_base None "[]"
        "(0, 1)" ?rs0]
    by (auto simp: example_cached_build(3) order_of_def)
  have order: "order = [''a'']" using o(2) by (rule example_single)
  have st: "map_of (steps ?p) ''a'' = Some example_output_step" "step_capsule example_output_step = None"
    "step_inputs example_output_step = []" "step_run example_output_step = ''make''"
    by (simp_all add: example_cached_pipeline_def example_output_step_def Dag.example_step_def)
  have "xe_blake3 example_caching = example_hash" by (simp add: example_caching_simps example_storage_env_def example_env_def)
  then have "step_keys example_caching (default_executor_config 1) None ?p ''a'' ?rs0 \<subseteq> {example_key_bytes}"
    by (auto simp: step_keys_def st load_capsule_def compute_input_hash_def hash_empty example_key_bytes_def)
  then show ?thesis by (auto simp: executor_keys_def example_cached_build(1) o(1) order split: option.splits sum.splits)
qed

theorem run_skips_below_failures_witness:
  "\<exists>(receipt :: receipt). order_of (map sr_name (r_steps receipt)) ({''a''} - below_failed example_cached_pipeline (r_steps receipt)) \<and>
    in_order (needs_edges (steps example_cached_pipeline)) (map sr_name (r_steps receipt)) \<and> list_all sr_cache_hit (r_steps receipt)"
proof -
  let ?x = example_caching and ?p = example_cached_pipeline and ?orders = "([''a''], [''a''])"
  obtain receipt rs' where run: "executor_run ?x (default_executor_config 1) None ?orders example_base None [] (0, 1)
     ?p (initial_state example_fs example_full None) = Some (Inr (receipt, rs'))" "r_steps receipt = [(ce_result example_cached)\<lparr>sr_cache_hit := True\<rparr>]"
    using example_second_run by blast
  have o: "order_of (fst ?orders) (set (keys (steps ?p)))" "order_of (snd ?orders) (set (keys (steps ?p)))"
    by (simp_all add: example_cached_build(3) order_of_def)
  have inj: "inj_on (xe_blake3 ?x) ({example_key_bytes} \<union> executor_keys ?x (default_executor_config 1) None ?orders ?p (initial_state example_fs example_full None))"
    by (rule inj_on_subset [of _ "{example_key_bytes}"]) (use example_cached_keys in auto)
  have "names_kept ?x (set (keys (steps ?p)))"
    by (auto simp: names_kept_def example_cached_build(3) example_caching_simps example_cached_def)
  from run_skips_below_failures [OF run(1) example_cached_build(2) o example_cache_named inj this] run(2)
  show ?thesis by (intro exI [of _ receipt]) (simp add: example_cached_build(3))
qed

end
