(* ===== verification/Wrap.thy ===== *)
theory Wrap
  imports Executor
begin

text \<open>
  Wrapping a single command, from \<open>src/wrap.rs\<close>: the command is run as it is, its declared inputs are hashed before and
  after, its outputs after, and a receipt with one step is written. The exit code of the command has precedence over
  whatever goes wrong with the receipt.

  Parameters (\<open>wrap_env\<close>), beside those of the executor: the JSON of an argument vector, the host context, the key store's
  codecs, the timestamp authority, and \<open>wx_spawn\<close>, what a started command prints, how it ends and the file system it leaves.
\<close>

section \<open>Streams and exit codes\<close>

definition CAPTURE_LIMIT :: nat where "CAPTURE_LIMIT = 64 * 1024"

definition TRUNCATION_MARKER :: bytes where "TRUNCATION_MARKER = [CHR 0x0A] @ ''[truncated by attest run --wrap]''"

text \<open>One element for each call of \<open>read\<close>: \<open>None\<close> is an error, an empty block the end of the stream.\<close>

fun tee_loop :: "bytes option list \<Rightarrow> bytes \<Rightarrow> bool \<Rightarrow> bytes \<times> bool" where
  "tee_loop [] captured truncated = (captured, truncated)"
| "tee_loop (None # reads) captured truncated = (captured, truncated)"
| "tee_loop (Some buf # reads) captured truncated =
     (if buf = [] then (captured, truncated)
      else if length captured < CAPTURE_LIMIT then
        let n = min (length buf) (CAPTURE_LIMIT - length captured)
        in tee_loop reads (captured @ take n buf) (truncated \<or> n < length buf)
      else tee_loop reads captured True)"

definition tee :: "(bytes \<Rightarrow> bytes) \<Rightarrow> bytes option list \<Rightarrow> bytes" where
  "tee lossy reads = (case tee_loop reads [] False of
       (captured, truncated) \<Rightarrow> lossy captured @ (if truncated then TRUNCATION_MARKER else []))"

record exit_status =
  es_code :: "32 word option"
  es_signal :: "32 word option"

definition exit_code_of :: "bool \<Rightarrow> exit_status \<Rightarrow> 32 word" where
  "exit_code_of unix status = (case es_code status of
       Some code \<Rightarrow> code
     | None \<Rightarrow> (case (unix, es_signal status) of (True, Some signal) \<Rightarrow> 128 + signal | _ \<Rightarrow> 1))"

definition label_char :: "code_point \<Rightarrow> char" where
  "label_char c = (if 48 \<le> c \<and> c \<le> 57 \<or> 65 \<le> c \<and> c \<le> 90 \<or> 97 \<le> c \<and> c \<le> 122 \<or> c \<in> {of_char (CHR ''.''), of_char (CHR ''_''), of_char (CHR ''-'')}
     then char_of c else CHR ''-'')"

definition sanitize_label :: "bytes \<Rightarrow> bytes" where
  "sanitize_label name = map label_char (utf8_chars name)"

section \<open>The wrapped command\<close>

record wrap_options =
  wo_name :: bytes
  wo_inputs :: "bytes list"
  wo_outputs :: "bytes list"
  wo_sign :: bool
  wo_key :: "bytes option"
  wo_tsa :: "bytes option"

datatype wrap_error =
    NoCommand
  | InputsUnheld
  | SpawnFailure
  | WaitFailure
  | InputsHashing hashing_error
  | InputsChanged
  | OutputsHashing hashing_error
  | WrapLedger ledger_error
  | WrapKeys key_error
  | WrapStorage storage_error
  | TimestampUnsigned
  | Incomplete
  | ReportUnwritable

record wrap_report =
  wr_build_exit_code :: "32 word option"
  wr_evidence_status :: bytes
  wr_receipt :: "bytes option"
  wr_error :: "wrap_error option"

record spawned =
  sp_stdout :: "bytes option list"
  sp_stderr :: "bytes option list"
  sp_status :: "exit_status option"

record wrap_env =
  wx_executor :: executor_env
  wx_host :: host_env
  wx_command_json :: "bytes list \<Rightarrow> bytes"
  wx_spawn :: "bytes list \<Rightarrow> fs \<Rightarrow> (spawned \<times> fs) option"
  wx_keys :: key_env
  wx_key_listing :: "bytes list"
  wx_key_store :: key_store
  wx_seed :: digest
  wx_patterns_ok :: "bytes option \<Rightarrow> bool"
  wx_ts :: ts_env
  wx_b64 :: "bytes \<Rightarrow> bytes"
  wx_tsa :: "bytes \<Rightarrow> digest \<Rightarrow> bytes option"
  wx_duration :: u64
  wx_now :: int
  wx_event_time :: int
  wx_stamp :: bytes
  wx_writable :: "bytes \<Rightarrow> bool"
  wx_report_writable :: "bytes \<Rightarrow> bool"

abbreviation wx_storage :: "wrap_env \<Rightarrow> storage_env" where "wx_storage x \<equiv> xe_storage (wx_executor x)"
abbreviation wx_blake3 :: "wrap_env \<Rightarrow> bytes \<Rightarrow> digest" where "wx_blake3 x \<equiv> so_blake3 (xe_storage (wx_executor x))"

definition wrap_hash_inputs :: "wrap_env \<Rightarrow> wrap_options \<Rightarrow> bytes \<Rightarrow> fs \<Rightarrow> (hashing_error, bytes) result" where
  "wrap_hash_inputs x o' run f =
     hash_inputs (wx_blake3 x) f (xe_workspace (wx_executor x)) (wo_name o') run (map components (wo_inputs o'))"

definition wrapped_isolation :: "bytes \<Rightarrow> bool \<Rightarrow> isolation_report" where
  "wrapped_isolation platform input_permissions_held =
     (let report = unisolated_report platform False in
      report\<lparr>iso_controls := iso_controls report @ [control ''inputs'' NotEnforced
        (if input_permissions_held
         then ''declared inputs held read-only and rehashed after execution; the same user can restore write permissions, so transient changes are not prevented''
         else ''declared inputs rehashed after execution; permission guard unavailable or ineffective for root, so transient changes are not prevented'')]\<rparr>)"

text \<open>The receipt before its event and signature.\<close>

definition wrap_receipt ::
  "wrap_env \<Rightarrow> bytes list \<Rightarrow> wrap_options \<Rightarrow> bool \<Rightarrow> bytes \<Rightarrow> bytes \<Rightarrow> artifact_info list \<Rightarrow> 32 word \<Rightarrow> bytes \<Rightarrow> bytes \<Rightarrow> receipt" where
  "wrap_receipt x command o' held in_hash out_hash artifacts code out err =
     (let run = wx_command_json x command;
          prov = (collect (wx_host x) (Some (wo_name o')) False)\<lparr>ep_execution := Some (Wrapped command),
            ep_steps := [provenance_step (wx_blake3 x) (wo_name o') run [] (wo_inputs o') (wo_outputs o')], ep_artifacts := artifacts\<rparr>
      in \<lparr>r_schema_version = Some RECEIPT_SCHEMA_VERSION, r_pipeline_hash = wrap_pipeline_hash (wx_blake3 x) run,
          r_steps = [\<lparr>sr_name = wo_name o', sr_input_hash = in_hash, sr_output_hash = out_hash, sr_duration_secs = wx_duration x,
            sr_exit_code = code, sr_cache_hit = False, sr_stdout = out, sr_stderr = err, sr_capsule_hash = None\<rparr>],
          r_timestamp = wx_now x, r_total_duration_secs = wx_duration x, r_signature = None, r_signer_public_key = None,
          r_attest_version = xe_version (wx_executor x), r_causal_events = [], r_causal_chain_hash = None, r_reproducibility = None,
          r_provenance = Some prov, r_timestamp_token = None,
          r_isolation = Some (wrapped_isolation (sx_platform (xe_sandbox (wx_executor x))) held)\<rparr>)"

text \<open>The event is recorded in a ledger opened on the same directory, without a key.\<close>

definition wrap_event ::
  "wrap_env \<Rightarrow> wrap_options \<Rightarrow> receipt \<Rightarrow> storage \<Rightarrow> (wrap_error, causal_event \<times> storage) result" where
  "wrap_event x o' r s =
     (let environ = to_hex (wx_blake3 x (xe_os (wx_executor x) @ '':'' @ xe_arch (wx_executor x) @ '':wrapped'')); st = hd (r_steps r) in
      and_then (map_err WrapLedger (record_event_local (so_ledger (wx_storage x)) (wx_event_time x) (wo_name o') [] (sr_input_hash st) (sr_output_hash st)
        (sint (sr_exit_code st)) (r_pipeline_hash r) environ Map.empty (ledger_new (s_event_files s) (s_chain_files s)))) (\<lambda>(e, l).
      Inr (e, s\<lparr>s_event_files := event_files l\<rparr>)))"

text \<open>The store is opened afresh for signing; the event recorded before stays when that fails.\<close>

definition wrap_load_key :: "wrap_env \<Rightarrow> wrap_options \<Rightarrow> storage \<Rightarrow> (wrap_error, storage) result" where
  "wrap_load_key x o' s =
     and_then (map_err WrapStorage (storage_new (wx_patterns_ok x) s)) (\<lambda>s.
     and_then (map_err WrapKeys (select_signing_key (wx_keys x) (wx_key_listing x) (wx_key_store x) (wo_key o'))) (\<lambda>selected.
     (case selected of
        Some sk \<Rightarrow> Inr (set_keypair (from_signing_key (so_ed (wx_storage x)) sk) s)
      | None \<Rightarrow> map_err WrapStorage (storage_load_keypair (wx_storage x) (wx_seed x) True s))))"

definition wrap_sign :: "wrap_env \<Rightarrow> wrap_options \<Rightarrow> receipt \<Rightarrow> storage \<Rightarrow> (wrap_error, receipt) result \<times> storage" where
  "wrap_sign x o' r s =
     (if wo_sign o' then
        (case wrap_load_key x o' s of
           Inl e \<Rightarrow> (Inl e, s)
         | Inr s \<Rightarrow>
             let r = sign_receipt (wx_storage x) s r in
             (case wo_tsa o' of
                Some url \<Rightarrow> map_err WrapStorage (timestamp_receipt (wx_ts x) (wx_b64 x) (wx_tsa x url) r)
              | None \<Rightarrow> Inr r, s))
      else (ensure (wo_tsa o' = None) TimestampUnsigned (Inr r), s))"

definition wrap_attest :: "wrap_env \<Rightarrow> wrap_options \<Rightarrow> receipt \<Rightarrow> storage \<Rightarrow> (wrap_error, bytes) result \<times> storage" where
  "wrap_attest x o' r s =
     (case wrap_event x o' r s of
        Inl e \<Rightarrow> (Inl e, s)
      | Inr (e, s) \<Rightarrow>
     (case wrap_sign x o' (r\<lparr>r_causal_events := [event_id e],
             r_causal_chain_hash := Some (chain_hash (wx_blake3 x) (le_rfc3339 (so_ledger (wx_storage x))) [e])\<rparr>) s of
        (Inl e, s) \<Rightarrow> (Inl e, s)
      | (Inr r, s) \<Rightarrow>
     (case write_receipt_unique (wx_storage x) (wx_writable x) (wx_stamp x) (Some (sanitize_label (wo_name o')))
             (so_receipt_yaml (wx_storage x) r) (s_receipts s) of
        Inl e \<Rightarrow> (Inl (WrapStorage e), s)
      | Inr (name, dir) \<Rightarrow> (Inr name, s\<lparr>s_receipts := dir\<rparr>))))"

definition failed_report :: wrap_report where
  "failed_report = \<lparr>wr_build_exit_code = None, wr_evidence_status = ''failed'', wr_receipt = None, wr_error = None\<rparr>"

text \<open>The result, the report and what is left of file system and store. A failure to attest after a successful command is
  exit code 1.\<close>

definition run_wrap_inner ::
  "wrap_env \<Rightarrow> bytes list \<Rightarrow> wrap_options \<Rightarrow> fs \<Rightarrow> storage \<Rightarrow> (wrap_error, 32 word) result \<times> wrap_report \<times> fs \<times> storage" where
  "run_wrap_inner x command o' f s =
     (if command = [] then (Inl NoCommand, failed_report, f, s)
      else
        let run = wx_command_json x command in
        (case hold_inputs (wx_executor x) f (wo_inputs o') of
           None \<Rightarrow> (Inl InputsUnheld, failed_report, f, s)
         | Some held \<Rightarrow>
        (case wrap_hash_inputs x o' run f of
           Inl e \<Rightarrow> (Inr 1, failed_report\<lparr>wr_error := Some (InputsHashing e)\<rparr>, f, s)
         | Inr in_hash \<Rightarrow>
        (case wx_spawn x command f of
           None \<Rightarrow> (Inr 127, failed_report\<lparr>wr_error := Some SpawnFailure\<rparr>, f, s)
         | Some (child, f) \<Rightarrow>
        (case sp_status child of
           None \<Rightarrow> (Inl WaitFailure, failed_report, f, s)
         | Some status \<Rightarrow>
             let code = exit_code_of (sx_unix (xe_sandbox (wx_executor x))) status;
                 report = failed_report\<lparr>wr_build_exit_code := Some code\<rparr>;
                 or_failed = (if code = 0 then 1 else code) in
        (case and_then (map_err InputsHashing (wrap_hash_inputs x o' run f)) (\<lambda>after. ensure (after = in_hash) InputsChanged (Inr ())) of
           Inl e \<Rightarrow> (Inr or_failed, report\<lparr>wr_error := Some e\<rparr>, f, s)
         | Inr _ \<Rightarrow>
        (case outputs_with_artifacts (wx_blake3 x) f (xe_workspace (wx_executor x)) (wo_name o') (map components (wo_outputs o')) of
           Inl e \<Rightarrow> (Inr or_failed, report\<lparr>wr_error := Some (OutputsHashing e)\<rparr>, f, s)
         | Inr (out_hash, artifacts) \<Rightarrow>
        (case wrap_attest x o' (wrap_receipt x command o' held in_hash out_hash artifacts code
                (tee (xe_lossy (wx_executor x)) (sp_stdout child)) (tee (xe_lossy (wx_executor x)) (sp_stderr child))) s of
           (Inl e, s) \<Rightarrow> (Inl e, report, f, s)
         | (Inr name, s) \<Rightarrow> (Inr code, report\<lparr>wr_receipt := Some name, wr_evidence_status := ''produced''\<rparr>, f, s)))))))))"

text \<open>\<open>report_path\<close> is where the report is to be written.\<close>

definition run_wrap_with_report ::
  "wrap_env \<Rightarrow> bytes list \<Rightarrow> wrap_options \<Rightarrow> bytes option \<Rightarrow> fs \<Rightarrow> storage
    \<Rightarrow> (wrap_error, 32 word) result \<times> wrap_report \<times> fs \<times> storage" where
  "run_wrap_with_report x command o' report_path f s =
     (case run_wrap_inner x command o' f s of (result, report, f, s) \<Rightarrow>
        let report = (case result of Inl e \<Rightarrow> report\<lparr>wr_error := Some e\<rparr> | Inr _ \<Rightarrow> report);
            report = (if wr_evidence_status report = ''failed'' \<and> wr_error report = None then report\<lparr>wr_error := Some Incomplete\<rparr> else report);
            reporting = (case report_path of Some path \<Rightarrow> ensure (wx_report_writable x path) ReportUnwritable (Inr ()) | None \<Rightarrow> Inr ())
        in ((case wr_build_exit_code report of
               Some code \<Rightarrow> if code \<noteq> 0 then Inr code else and_then reporting (\<lambda>_. result)
             | None \<Rightarrow> and_then reporting (\<lambda>_. result)), report, f, s))"

definition run_wrap :: "wrap_env \<Rightarrow> bytes list \<Rightarrow> wrap_options \<Rightarrow> fs \<Rightarrow> storage \<Rightarrow> (wrap_error, 32 word) result \<times> wrap_report \<times> fs \<times> storage" where
  "run_wrap x command o' f s = run_wrap_with_report x command o' None f s"

section \<open>Properties\<close>

text \<open>What was read until the end of the stream or an error.\<close>

fun stream_bytes :: "bytes option list \<Rightarrow> bytes" where
  "stream_bytes (Some buf # reads) = (if buf = [] then [] else buf @ stream_bytes reads)"
| "stream_bytes _ = []"

lemma tee_loop_spec:
  assumes "length captured \<le> CAPTURE_LIMIT"
  shows "tee_loop reads captured truncated =
    (take CAPTURE_LIMIT (captured @ stream_bytes reads), truncated \<or> CAPTURE_LIMIT < length (captured @ stream_bytes reads))"
  using assms
proof (induction reads captured truncated rule: tee_loop.induct)
  case (3 buf reads captured truncated)
  let ?n = "min (length buf) (CAPTURE_LIMIT - length captured)"
  show ?case
  proof (cases "buf = [] \<or> \<not> length captured < CAPTURE_LIMIT")
    case True
    then show ?thesis using 3 by auto
  next
    case False
    then have len: "length captured + ?n \<le> CAPTURE_LIMIT" by linarith
    with False have IH: "tee_loop (Some buf # reads) captured truncated =
       (take CAPTURE_LIMIT ((captured @ take ?n buf) @ stream_bytes reads),
        (truncated \<or> ?n < length buf) \<or> CAPTURE_LIMIT < length ((captured @ take ?n buf) @ stream_bytes reads))"
      using 3(1) [of ?n] by (simp add: Let_def)
    show ?thesis
    proof (cases "length buf \<le> CAPTURE_LIMIT - length captured")
      case True
      then show ?thesis unfolding IH using False by (simp add: min_def)
    next
      case more: False
      then have "take CAPTURE_LIMIT ((captured @ take ?n buf) @ t) = take CAPTURE_LIMIT (captured @ buf @ t')" for t t'
        using False by (simp add: min_def)
      moreover have "?n < length buf \<and> CAPTURE_LIMIT < length (captured @ buf @ stream_bytes reads)"
        using more by simp
      ultimately show ?thesis unfolding IH using False by simp
    qed
  qed
qed auto

text \<open>
  The captured output of a wrapped command is a prefix of what it printed, of at most 64 kibibytes, and it is marked as
  truncated exactly when the command printed more, however the stream was cut into reads.
\<close>

theorem tee_captures:
  "tee lossy reads = lossy (take CAPTURE_LIMIT (stream_bytes reads)) @ (if CAPTURE_LIMIT < length (stream_bytes reads) then TRUNCATION_MARKER else [])"
  by (simp add: tee_def tee_loop_spec)

lemma label_char_safe: "label_char c \<noteq> CHR ''/'' \<and> label_char c \<noteq> CHR 0x00"
  by (auto simp: label_char_def char_of_eq_iff take_bit_eq_mod)

text \<open>A label never takes the receipt out of its directory.\<close>

lemma sanitize_label_safe: "CHR ''/'' \<notin> set (sanitize_label name) \<and> CHR 0x00 \<notin> set (sanitize_label name)"
  using label_char_safe by (auto simp: sanitize_label_def) metis+

text \<open>The way of a wrapped command through \<open>run_wrap_inner\<close> once it has been started and has ended.\<close>

lemma run_wrap_inner_ended:
  assumes "wr_build_exit_code (fst (snd (run_wrap_inner x command o' f s))) = Some code"
  shows "\<exists>held ih child status f'. command \<noteq> [] \<and> hold_inputs (wx_executor x) f (wo_inputs o') = Some held \<and>
    wrap_hash_inputs x o' (wx_command_json x command) f = Inr ih \<and> wx_spawn x command f = Some (child, f') \<and> sp_status child = Some status \<and>
    code = exit_code_of (sx_unix (xe_sandbox (wx_executor x))) status \<and>
    fst (snd (snd (run_wrap_inner x command o' f s))) = f'"
  using assms unfolding run_wrap_inner_def Let_def failed_report_def
  by (simp split: if_splits option.splits sum.splits prod.splits)

lemma run_wrap_inner_produced:
  assumes "run_wrap_inner x command o' f s = (result, report, f', s')" "wr_receipt report = Some name"
  shows "\<exists>held ih child status oh artifacts code. command \<noteq> [] \<and> wrap_hash_inputs x o' (wx_command_json x command) f = Inr ih \<and>
    wx_spawn x command f = Some (child, f') \<and> sp_status child = Some status \<and> code = exit_code_of (sx_unix (xe_sandbox (wx_executor x))) status \<and>
    wrap_hash_inputs x o' (wx_command_json x command) f' = Inr ih \<and>
    outputs_with_artifacts (wx_blake3 x) f' (xe_workspace (wx_executor x)) (wo_name o') (map components (wo_outputs o')) = Inr (oh, artifacts) \<and>
    wrap_attest x o' (wrap_receipt x command o' held ih oh artifacts code
                (tee (xe_lossy (wx_executor x)) (sp_stdout child)) (tee (xe_lossy (wx_executor x)) (sp_stderr child))) s = (Inr name, s') \<and>
    result = Inr code \<and> report = failed_report\<lparr>wr_build_exit_code := Some code, wr_receipt := Some name, wr_evidence_status := ''produced''\<rparr>"
  using assms unfolding run_wrap_inner_def Let_def
  by (auto simp: failed_report_def result_simps split: if_splits option.splits sum.splits prod.splits)

lemma run_wrap_inner_zero:
  assumes "run_wrap_inner x command o' f s = (Inr 0, report, f', s')"
  shows "wr_build_exit_code report = Some 0 \<and> wr_evidence_status report = ''produced'' \<and> (\<exists>name. wr_receipt report = Some name)"
  using assms unfolding run_wrap_inner_def Let_def
  by (auto simp: failed_report_def split: if_splits option.splits sum.splits prod.splits)

text \<open>Signing changes neither what the receipt claims nor the receipts and events of the store.\<close>

lemma wrap_load_key_keeps:
  assumes "wrap_load_key x o' s = Inr s'"
  shows "s_receipts s' = s_receipts s \<and> s_event_files s' = s_event_files s"
  using assms
  by (auto simp: wrap_load_key_def storage_new_def storage_load_keypair_def set_keypair_def result_simps split: option.splits prod.splits if_splits)

lemma wrap_sign_keeps:
  assumes "wrap_sign x o' r s = (Inr r', s')"
  shows "s_receipts s' = s_receipts s \<and> s_event_files s' = s_event_files s \<and>
    r_pipeline_hash r' = r_pipeline_hash r \<and> r_steps r' = r_steps r \<and> r_provenance r' = r_provenance r \<and>
    r_isolation r' = r_isolation r \<and> r_causal_events r' = r_causal_events r \<and> r_causal_chain_hash r' = r_causal_chain_hash r"
proof (cases "wo_sign o'")
  case False
  then show ?thesis using assms by (auto simp: wrap_sign_def result_simps)
next
  case True
  then obtain s1 where s1: "wrap_load_key x o' s = Inr s1" using assms by (auto simp: wrap_sign_def split: sum.splits)
  with True assms have "s' = s1" "case wo_tsa o' of Some url \<Rightarrow>
      map_err WrapStorage (timestamp_receipt (wx_ts x) (wx_b64 x) (wx_tsa x url) (sign_receipt (wx_storage x) s1 r)) = Inr r'
    | None \<Rightarrow> sign_receipt (wx_storage x) s1 r = r'"
    by (auto simp: wrap_sign_def Let_def split: option.splits)
  with wrap_load_key_keeps [OF s1] show ?thesis
    by (auto simp: timestamp_receipt_def sign_receipt_def result_simps split: option.splits)
qed

definition wrapped_event :: "wrap_env \<Rightarrow> receipt \<Rightarrow> causal_event \<Rightarrow> bool" where
  "wrapped_event x r e \<longleftrightarrow> (let st = hd (r_steps r) in
     event_id_is_authentic (wx_blake3 x) (le_rfc3339 (so_ledger (wx_storage x))) e \<and> causal_parents e = [] \<and> step_name e = sr_name st \<and>
     input_hash e = sr_input_hash st \<and> output_hash e = sr_output_hash st \<and> exit_code e = sint (sr_exit_code st) \<and>
     pipeline_hash e = r_pipeline_hash r \<and> signature e = None)"

lemma wrap_event_spec:
  assumes "wrap_event x o' r s = Inr (e, s')" "sr_name (hd (r_steps r)) = wo_name o'"
  shows "wrapped_event x r e \<and> s' = s\<lparr>s_event_files := (s_event_files s)(event_file_name e \<mapsto> le_event_json (so_ledger (wx_storage x)) e)\<rparr>"
  using assms
  by (auto simp: wrap_event_def wrapped_event_def Let_def result_simps sign_event_def ledger_new_def record_event_struct_def store_event_local_def
      dest!: record_event_local_cases)

lemma wrap_attest_spec:
  assumes "wrap_attest x o' r0 s = (Inr name, s')" "sr_name (hd (r_steps r0)) = wo_name o'"
  shows "\<exists>e (r :: receipt). wrapped_event x r0 e \<and> s_event_files s' = (s_event_files s)(event_file_name e \<mapsto> le_event_json (so_ledger (wx_storage x)) e) \<and>
    s_receipts s name = None \<and> s_receipts s' = (s_receipts s)(name \<mapsto> so_receipt_yaml (wx_storage x) r) \<and>
    r_pipeline_hash r = r_pipeline_hash r0 \<and> r_steps r = r_steps r0 \<and> r_provenance r = r_provenance r0 \<and> r_isolation r = r_isolation r0 \<and>
    r_causal_events r = [event_id e] \<and> r_causal_chain_hash r = Some (chain_hash (wx_blake3 x) (le_rfc3339 (so_ledger (wx_storage x))) [e])"
proof -
  let ?r1 = "\<lambda>e. r0\<lparr>r_causal_events := [event_id e],
    r_causal_chain_hash := Some (chain_hash (wx_blake3 x) (le_rfc3339 (so_ledger (wx_storage x))) [e])\<rparr>"
  obtain e s1 where e: "wrap_event x o' r0 s = Inr (e, s1)" using assms(1) by (auto simp: wrap_attest_def split: sum.splits)
  obtain r s2 where r: "wrap_sign x o' (?r1 e) s1 = (Inr r, s2)"
    using assms(1) e by (auto simp: wrap_attest_def split: sum.splits prod.splits)
  obtain dir where "write_receipt_unique (wx_storage x) (wx_writable x) (wx_stamp x) (Some (sanitize_label (wo_name o')))
      (so_receipt_yaml (wx_storage x) r) (s_receipts s2) = Inr (name, dir)" and s': "s' = s2\<lparr>s_receipts := dir\<rparr>"
    using assms(1) e r by (auto simp: wrap_attest_def split: sum.splits prod.splits)
  then have "s_receipts s2 name = None" "dir = (s_receipts s2)(name \<mapsto> so_receipt_yaml (wx_storage x) r)"
    unfolding write_receipt_unique_def using write_attempts_Inr by blast+
  with wrap_event_spec [OF e assms(2)] wrap_sign_keeps [OF r] show ?thesis by (intro exI [of _ e] exI [of _ r]) (simp add: s')
qed

text \<open>The outer function keeps what the inner one did.\<close>

lemma run_wrap_with_report_inner:
  assumes "run_wrap_with_report x command o' path f s = (result, report, f', s')"
  shows "\<exists>inner report0. run_wrap_inner x command o' f s = (inner, report0, f', s') \<and>
    wr_build_exit_code report = wr_build_exit_code report0 \<and> wr_receipt report = wr_receipt report0 \<and>
    wr_evidence_status report = wr_evidence_status report0 \<and>
    (wr_evidence_status report = ''failed'' \<longrightarrow> wr_error report \<noteq> None) \<and>
    (\<forall>code. wr_build_exit_code report0 = Some code \<longrightarrow> code \<noteq> 0 \<longrightarrow> result = Inr code) \<and>
    ((\<forall>code. wr_build_exit_code report0 = Some code \<longrightarrow> code = 0) \<longrightarrow> result = Inr 0 \<longrightarrow> inner = Inr 0)"
proof -
  obtain inner report0 f1 s1 where i: "run_wrap_inner x command o' f s = (inner, report0, f1, s1)" by (metis prod_cases4)
  define reporting :: "(wrap_error, unit) result" where
    "reporting = (case path of Some path \<Rightarrow> ensure (wx_report_writable x path) ReportUnwritable (Inr ()) | None \<Rightarrow> Inr ())"
  define report1 where "report1 = (case inner of Inl e \<Rightarrow> report0\<lparr>wr_error := Some e\<rparr> | Inr _ \<Rightarrow> report0)"
  have r: "f1 = f'" "s1 = s'"
    "report = (if wr_evidence_status report1 = ''failed'' \<and> wr_error report1 = None then report1\<lparr>wr_error := Some Incomplete\<rparr> else report1)"
    "result = (case wr_build_exit_code report of Some code \<Rightarrow> if code \<noteq> 0 then Inr code else and_then reporting (\<lambda>_. inner)
       | None \<Rightarrow> and_then reporting (\<lambda>_. inner))"
    using assms unfolding run_wrap_with_report_def i Let_def prod.case reporting_def [symmetric] report1_def [symmetric] Pair_inject by (auto simp only:)
  have same: "wr_build_exit_code report = wr_build_exit_code report0" "wr_receipt report = wr_receipt report0"
    "wr_evidence_status report = wr_evidence_status report0"
    by (simp_all add: r(3) report1_def split: sum.splits)
  moreover have "wr_evidence_status report = ''failed'' \<Longrightarrow> wr_error report \<noteq> None" by (auto simp: r(3) split: if_splits)
  moreover have "and_then reporting (\<lambda>_. inner) = Inr 0 \<Longrightarrow> inner = Inr 0" by (cases reporting) simp_all
  ultimately show ?thesis using i r(1,2,4) by (auto split: option.splits)
qed

lemma run_wrap_inner_status:
  assumes "run_wrap_inner x command o' f s = (result, report, f', s')"
  shows "wr_evidence_status report = (if wr_receipt report = None then ''failed'' else ''produced'')"
  using assms unfolding run_wrap_inner_def Let_def
  by (auto simp: failed_report_def split: if_splits option.splits sum.splits prod.splits)

lemma run_wrap_inner_fresh:
  assumes "run_wrap_inner x command o' f s = (result, report, f', s')" "wr_receipt report = Some name"
  shows "s_receipts s name = None \<and> s_receipts s' name \<noteq> None"
proof -
  obtain r0 where "wrap_attest x o' r0 s = (Inr name, s')" "sr_name (hd (r_steps r0)) = wo_name o'"
    using run_wrap_inner_produced [OF assms] by (fastforce simp: wrap_receipt_def Let_def)
  from wrap_attest_spec [OF this] show ?thesis by auto
qed

text \<open>The command was started on inputs that could be held and hashed, and ended in \<open>status\<close>.\<close>

definition command_ended :: "wrap_env \<Rightarrow> bytes list \<Rightarrow> wrap_options \<Rightarrow> fs \<Rightarrow> exit_status \<Rightarrow> bool" where
  "command_ended x command o' f status \<longleftrightarrow> command \<noteq> [] \<and> hold_inputs (wx_executor x) f (wo_inputs o') \<noteq> None \<and>
     \<not> isl (wrap_hash_inputs x o' (wx_command_json x command) f) \<and> (\<exists>child f'. wx_spawn x command f = Some (child, f') \<and> sp_status child = Some status)"

lemma run_wrap_inner_code:
  assumes "run_wrap_inner x command o' f s = (result, report, f', s')"
  shows "wr_build_exit_code report = Some code \<longleftrightarrow>
    (\<exists>status. command_ended x command o' f status \<and> code = exit_code_of (sx_unix (xe_sandbox (wx_executor x))) status)"
  using assms unfolding run_wrap_inner_def Let_def command_ended_def
  by (auto simp: failed_report_def split: if_splits option.splits sum.splits prod.splits)

text \<open>
  C12. The exit code of the command has precedence: once a command was started and ended with a code other than zero, the result is
  that code, whatever fails afterwards. The whole is successful only if the command was, the evidence was produced and its
  receipt stands in the store under a new name; and whenever no evidence was produced the report has an error and names no receipt.
\<close>

theorem wrap_exit_code:
  assumes "run_wrap_with_report x command o' path f s = (result, report, f', s')"
  shows "(\<forall>status. command_ended x command o' f status \<longrightarrow> exit_code_of (sx_unix (xe_sandbox (wx_executor x))) status \<noteq> 0 \<longrightarrow>
         result = Inr (exit_code_of (sx_unix (xe_sandbox (wx_executor x))) status))
    \<and> (result = Inr 0 \<longrightarrow> (\<exists>status name. command_ended x command o' f status \<and> exit_code_of (sx_unix (xe_sandbox (wx_executor x))) status = 0 \<and>
         wr_evidence_status report = ''produced'' \<and> wr_receipt report = Some name \<and> s_receipts s name = None \<and> s_receipts s' name \<noteq> None))
    \<and> (wr_evidence_status report \<noteq> ''produced'' \<longrightarrow> wr_error report \<noteq> None \<and> wr_receipt report = None)"
proof -
  obtain inner report0 where i: "run_wrap_inner x command o' f s = (inner, report0, f', s')"
    and same: "wr_receipt report = wr_receipt report0" "wr_evidence_status report = wr_evidence_status report0"
    and err: "wr_evidence_status report = ''failed'' \<longrightarrow> wr_error report \<noteq> None"
    and code: "\<forall>code. wr_build_exit_code report0 = Some code \<longrightarrow> code \<noteq> 0 \<longrightarrow> result = Inr code"
    and zero: "(\<forall>code. wr_build_exit_code report0 = Some code \<longrightarrow> code = 0) \<longrightarrow> result = Inr 0 \<longrightarrow> inner = Inr 0"
    using run_wrap_with_report_inner [OF assms] by blast
  note ended = run_wrap_inner_code [OF i]
  have "\<exists>status name. command_ended x command o' f status \<and> exit_code_of (sx_unix (xe_sandbox (wx_executor x))) status = 0 \<and>
         wr_evidence_status report = ''produced'' \<and> wr_receipt report = Some name \<and> s_receipts s name = None \<and> s_receipts s' name \<noteq> None"
    if "result = Inr 0"
  proof -
    have "inner = Inr 0" using code zero that by auto
    with i have "wr_build_exit_code report0 = Some 0 \<and> wr_evidence_status report0 = ''produced'' \<and> (\<exists>name. wr_receipt report0 = Some name)"
      using run_wrap_inner_zero by blast
    with ended [of 0] run_wrap_inner_fresh [OF i] same show ?thesis by metis
  qed
  with code err ended same run_wrap_inner_status [OF i] show ?thesis by auto
qed

text \<open>
  C11. What a wrapped command's receipt says is true when it is written, and it is what recomputation accepts: the receipt stands
  under a name no file had and no other receipt changed, its single step has the command's exit code, its input hash is that of
  the declared inputs before and after the command and its output hash that of the outputs on disk, and the verifier's recomputation of
  the command passes on that file system. The one event it lists is authentic and stored, but unsigned, also when the
  receipt is signed.
\<close>

theorem wrap_receipt_true:
  assumes "run_wrap_with_report x command o' path f s = (result, report, f', s')" "wr_receipt report = Some name"
    and "hd command \<noteq> []" "list_all (\<lambda>a. CHR 0x00 \<notin> set a) command"
    and "ve_blake3 env = wx_blake3 x" "ve_command_json env = wx_command_json x" "w_fs w = f'" "w_workspace w = xe_workspace (wx_executor x)"
  shows "\<exists>(r :: receipt) st e. s_receipts s name = None \<and> s_receipts s' = (s_receipts s)(name \<mapsto> so_receipt_yaml (wx_storage x) r) \<and>
    r_steps r = [st] \<and> sr_name st = wo_name o' \<and> wr_build_exit_code report = Some (sr_exit_code st) \<and>
    wrap_hash_inputs x o' (wx_command_json x command) f = Inr (sr_input_hash st) \<and>
    map_option ep_execution (r_provenance r) = Some (Some (Wrapped command)) \<and> wrapped_problem env w r command = Inr () \<and>
    wrapped_event x r e \<and> r_causal_events r = [event_id e] \<and>
    s_event_files s' (event_file_name e) = Some (le_event_json (so_ledger (wx_storage x)) e)"
proof -
  obtain inner report0 where i: "run_wrap_inner x command o' f s = (inner, report0, f', s')"
    and same: "wr_receipt report = wr_receipt report0" "wr_build_exit_code report = wr_build_exit_code report0"
    using run_wrap_with_report_inner [OF assms(1)] by blast
  obtain held ih oh artifacts code and child :: spawned where p: "command \<noteq> []" "wrap_hash_inputs x o' (wx_command_json x command) f = Inr ih"
    "wrap_hash_inputs x o' (wx_command_json x command) f' = Inr ih"
    "outputs_with_artifacts (wx_blake3 x) f' (xe_workspace (wx_executor x)) (wo_name o') (map components (wo_outputs o')) = Inr (oh, artifacts)"
    "wrap_attest x o' (wrap_receipt x command o' held ih oh artifacts code
                (tee (xe_lossy (wx_executor x)) (sp_stdout child)) (tee (xe_lossy (wx_executor x)) (sp_stderr child))) s = (Inr name, s')"
    "report0 = failed_report\<lparr>wr_build_exit_code := Some code, wr_receipt := Some name, wr_evidence_status := ''produced''\<rparr>"
    using run_wrap_inner_produced [OF i assms(2) [unfolded same(1)]] by blast
  define r0 where "r0 = wrap_receipt x command o' held ih oh artifacts code
                (tee (xe_lossy (wx_executor x)) (sp_stdout child)) (tee (xe_lossy (wx_executor x)) (sp_stderr child))"
  have r0: "\<exists>st. r_steps r0 = [st] \<and> sr_name st = wo_name o' \<and> sr_input_hash st = ih \<and> sr_output_hash st = oh \<and> sr_exit_code st = code \<and> sr_capsule_hash st = None"
    "r_pipeline_hash r0 = wrap_pipeline_hash (wx_blake3 x) (wx_command_json x command)"
    "\<exists>prov. r_provenance r0 = Some prov \<and> ep_execution prov = Some (Wrapped command) \<and>
       ep_steps prov = [provenance_step (wx_blake3 x) (wo_name o') (wx_command_json x command) [] (wo_inputs o') (wo_outputs o')]"
    by (simp_all add: r0_def wrap_receipt_def Let_def)
  obtain e and r :: receipt where a: "wrapped_event x r0 e"
    "s_event_files s' = (s_event_files s)(event_file_name e \<mapsto> le_event_json (so_ledger (wx_storage x)) e)"
    "s_receipts s name = None" "s_receipts s' = (s_receipts s)(name \<mapsto> so_receipt_yaml (wx_storage x) r)"
    "r_pipeline_hash r = r_pipeline_hash r0" "r_steps r = r_steps r0" "r_provenance r = r_provenance r0" "r_causal_events r = [event_id e]"
    using wrap_attest_spec [OF p(5) [folded r0_def]] r0(1) by auto
  have "hash_outputs (wx_blake3 x) f' (xe_workspace (wx_executor x)) (wo_name o') (map components (wo_outputs o')) = Inr oh"
    using outputs_with_artifacts_describe [OF p(4)] by blast
  then have "wrapped_problem env w r command = Inr ()"
    using r0 a(5-7) p(1,3) assms(3-8) by (auto simp: wrapped_problem_def provenance_step_def wrap_hash_inputs_def Let_def)
  moreover have "wrapped_event x r e" using a(1,5,6) by (simp add: wrapped_event_def)
  moreover obtain st where "r_steps r0 = [st] \<and> sr_name st = wo_name o' \<and> sr_input_hash st = ih \<and> sr_exit_code st = code" using r0(1) by blast
  ultimately show ?thesis using a r0(3) p(2) same(2) p(6) by (intro exI [of _ r] exI [of _ st] exI [of _ e]) auto
qed

section \<open>Example commands\<close>

text \<open>A command that prints a line, changes nothing and ends with the given code, wrapped without inputs or outputs.\<close>

definition example_wrap_options :: wrap_options where
  "example_wrap_options = \<lparr>wo_name = ''build'', wo_inputs = [], wo_outputs = [], wo_sign = False, wo_key = None, wo_tsa = None\<rparr>"

definition example_wrap :: "32 word \<Rightarrow> wrap_env" where
  "example_wrap code = \<lparr>wx_executor = example_executor\<lparr>xe_storage := example_storage_env\<lparr>so_ledger := example_env\<lparr>le_blake3 := digest_of\<rparr>\<rparr>\<rparr>,
     wx_host = \<lparr>he_git = (\<lambda>_. None), he_var = (\<lambda>_. None), he_uuid = ''u'', he_now = 0, he_os = ''linux'', he_arch = ''x86_64''\<rparr>,
     wx_command_json = (\<lambda>_. []),
     wx_spawn = (\<lambda>_ f. Some (\<lparr>sp_stdout = [Some ''ok'', Some []], sp_stderr = [], sp_status = Some \<lparr>es_code = Some code, es_signal = None\<rparr>\<rparr>, f)),
     wx_keys = example_key_env, wx_key_listing = [], wx_key_store = example_store, wx_seed = digest_of ''k'', wx_patterns_ok = (\<lambda>_. True),
     wx_ts = example_ts_env, wx_b64 = id, wx_tsa = (\<lambda>_ _. None), wx_duration = 1, wx_now = 0, wx_event_time = 0, wx_stamp = ''now'',
     wx_writable = (\<lambda>_. True), wx_report_writable = (\<lambda>_. False)\<rparr>"

lemma example_wrap_simps:
  "wx_executor (example_wrap c) = example_executor\<lparr>xe_storage := example_storage_env\<lparr>so_ledger := example_env\<lparr>le_blake3 := digest_of\<rparr>\<rparr>\<rparr>"
  "wx_spawn (example_wrap c) cmd f = Some (\<lparr>sp_stdout = [Some ''ok'', Some []], sp_stderr = [], sp_status = Some \<lparr>es_code = Some c, es_signal = None\<rparr>\<rparr>, f)"
  "wx_writable (example_wrap c) = (\<lambda>_. True)" "wx_command_json (example_wrap c) = (\<lambda>_. [])"
  "wx_report_writable (example_wrap c) = (\<lambda>_. False)"
  by (simp_all add: example_wrap_def)

lemma example_held: "hold_inputs (wx_executor (example_wrap c)) f [] = Some True"
  by (simp add: hold_inputs_def example_wrap_simps example_executor_def example_sandbox_env_def guard_paths_def guard_hold_def)

lemma example_attest: "\<exists>name s'. wrap_attest (example_wrap c) example_wrap_options r example_storage = (Inr name, s')"
proof -
  obtain e s1 where e: "wrap_event (example_wrap c) example_wrap_options r example_storage = Inr (e, s1)" and s1: "s_receipts s1 = Map.empty"
    by (simp add: wrap_event_def record_event_local_def store_event_local_def example_wrap_simps example_storage_env_def example_env_def
        example_storage_def Let_def)
  have "write_attempts (\<lambda>_. True) base content a (Suc left) Map.empty = Inr (receipt_name base a, [receipt_name base a \<mapsto> content])"
    for base content a left by (simp add: Let_def)
  note written = this [of _ _ 0 "2 ^ 32 - 2"]
  have "wo_sign example_wrap_options = False" "wo_tsa example_wrap_options = None" by (simp_all add: example_wrap_options_def)
  with written show ?thesis by (simp add: wrap_attest_def e s1 wrap_sign_def write_receipt_unique_def example_wrap_simps)
qed

lemma example_wrapped:
  "\<exists>report s'. run_wrap_inner (example_wrap c) [''make''] example_wrap_options example_fs example_storage = (Inr c, report, example_fs, s') \<and>
    wr_receipt report \<noteq> None \<and> wr_build_exit_code report = Some c"
proof -
  let ?x = "example_wrap c"
  obtain ih where ih: "wrap_hash_inputs ?x example_wrap_options (wx_command_json ?x [''make'']) example_fs = Inr ih"
    by (simp add: wrap_hash_inputs_def example_wrap_options_def hash_empty)
  obtain name s' where "wrap_attest ?x example_wrap_options (wrap_receipt ?x [''make''] example_wrap_options True ih
       (to_hex (wx_blake3 ?x (MANIFEST_HEADER @ [CHR 0x0A]))) [] c
       (tee (xe_lossy (wx_executor ?x)) [Some ''ok'', Some []]) (tee (xe_lossy (wx_executor ?x)) [])) example_storage = (Inr name, s')"
    using example_attest by blast
  then show ?thesis using ih example_held [of c example_fs]
    by (simp add: run_wrap_inner_def Let_def example_wrap_simps(2) hash_empty exit_code_of_def example_wrap_options_def failed_report_def)
qed

lemma example_ended: "command_ended (example_wrap c) [''make''] example_wrap_options f \<lparr>es_code = Some c, es_signal = None\<rparr>"
  using example_held [of c f]
  by (simp add: command_ended_def example_wrap_simps(2) wrap_hash_inputs_def example_wrap_options_def hash_empty)

text \<open>The command fails with code 3 and the report cannot be written; the result is 3.\<close>

theorem wrap_exit_code_witness:
  "fst (run_wrap_with_report (example_wrap 3) [''make''] example_wrap_options (Some ''report'') example_fs example_storage) = Inr 3"
proof -
  obtain result report f' s' where
    "run_wrap_with_report (example_wrap 3) [''make''] example_wrap_options (Some ''report'') example_fs example_storage = (result, report, f', s')"
    by (metis prod_cases4)
  with wrap_exit_code [OF this] example_ended [of 3 example_fs] show ?thesis by (auto simp: exit_code_of_def)
qed

theorem wrap_receipt_true_witness:
  "\<exists>result report f' s' (r :: receipt) name. run_wrap_with_report (example_wrap 0) [''make''] example_wrap_options None example_fs example_storage =
     (result, report, f', s') \<and> s_receipts s' name \<noteq> None \<and> wr_build_exit_code report = Some (sr_exit_code (hd (r_steps r))) \<and>
     wrapped_problem example_verify_env (example_build_world\<lparr>w_fs := f'\<rparr>) r [''make''] = Inr ()"
proof -
  obtain inner report s' where i: "run_wrap_inner (example_wrap 0) [''make''] example_wrap_options example_fs example_storage = (inner, report, example_fs, s')"
    "wr_receipt report \<noteq> None" using example_wrapped [of 0] by blast
  obtain result report' f' s'' where
    run: "run_wrap_with_report (example_wrap 0) [''make''] example_wrap_options None example_fs example_storage = (result, report', f', s'')"
    by (metis prod_cases4)
  then obtain name where name: "wr_receipt report' = Some name" using run_wrap_with_report_inner [OF run] i by auto
  have "ve_blake3 example_verify_env = wx_blake3 (example_wrap 0)" "ve_command_json example_verify_env = wx_command_json (example_wrap 0)"
    "w_workspace (example_build_world\<lparr>w_fs := f'\<rparr>) = xe_workspace (wx_executor (example_wrap 0))"
    by (simp_all add: example_wrap_simps example_verify_env_def example_executor_def example_build_world_def example_recipient_env_def example_key_env_def fun_eq_iff)
  from wrap_receipt_true [OF run name _ _ this(1,2) _ this(3)]
  obtain r :: receipt and st where "s_receipts s'' = (s_receipts example_storage)(name \<mapsto> so_receipt_yaml (wx_storage (example_wrap 0)) r)"
    "r_steps r = [st]" "wr_build_exit_code report' = Some (sr_exit_code st)"
    "wrapped_problem example_verify_env (example_build_world\<lparr>w_fs := f'\<rparr>) r [''make''] = Inr ()"
    by auto
  with run show ?thesis by (intro exI [of _ result] exI [of _ report'] exI [of _ f'] exI [of _ s''] exI [of _ r] exI [of _ name]) simp
qed

end
